(* ===== verification/Prelude.thy ===== *)
theory Prelude
  imports Main "HOL-Library.Product_Lexorder" "HOL-Library.Sublist"
begin

text \<open>
  What every component shares: Go's error values, Go's clock (\<open>time.Time\<close> as nanoseconds,
  \<open>UnixNano\<close> with its wrap-around), the row-level meaning of the SQL statements the program
  sends to SQLite, and the generic list lemmas the component proofs rest on.
  The collections \<open>go_defs\<close> (definitions that proofs unfold together) and \<open>sql_simps\<close>
  (facts about table operations) carry the automation.
\<close>

named_theorems go_defs \<open>definitions unfolded together by component proofs\<close>
named_theorems sql_simps \<open>facts about the row-level meaning of SQL statements\<close>

section \<open>Go error values\<close>

text \<open>
  \<open>errors.New\<close> of a package-level variable is a \<open>Sentinel\<close> (found by \<open>errors.Is\<close>), any
  other \<open>errors.New\<close> or \<open>fmt.Errorf\<close> without a wrapped cause is an \<open>ErrorString\<close>,
  \<open>fmt.Errorf\<close> with one \<open>%w\<close> is \<open>Wrapped prefix cause suffix\<close>, and \<open>errors.Join\<close> is
  \<open>Joined\<close>. Message texts are lists of fragments: literal text, an argument printed with
  \<open>%s\<close> or \<open>%d\<close>, and an argument printed with \<open>%q\<close>.
\<close>

datatype frag = T string | Q string | D int

datatype go_error =
    Sentinel string
  | ErrorString "frag list"
  | Wrapped "frag list" go_error "frag list"
  | Joined "go_error list"

type_synonym 'a result = "go_error + 'a"

fun errors_is :: "string \<Rightarrow> go_error \<Rightarrow> bool" where
  "errors_is s (Sentinel t) = (s = t)"
| "errors_is s (ErrorString _) = False"
| "errors_is s (Wrapped _ e _) = errors_is s e"
| "errors_is s (Joined es) = list_ex (errors_is s) es"

text \<open>Decimal digits, as \<open>strconv.FormatInt(n, 10)\<close> and \<open>%d\<close> print them.\<close>

definition digit_char :: "nat \<Rightarrow> char" where
  "digit_char d = char_of (48 + d)"

fun nat_digits :: "nat \<Rightarrow> string" where
  "nat_digits n = (if n < 10 then [digit_char n] else nat_digits (n div 10) @ [digit_char (n mod 10)])"

declare nat_digits.simps [simp del]

definition format_int :: "int \<Rightarrow> string" where
  "format_int n = (if n < 0 then CHR ''-'' # nat_digits (nat (- n)) else nat_digits (nat n))"

text \<open>
  The text of an error, as its \<open>Error\<close> method prints it. \<open>%q\<close> prints through
  \<open>strconv.Quote\<close>, which consults the Unicode tables: it is the argument \<open>quote\<close>.
\<close>

fun frag_text :: "(string \<Rightarrow> string) \<Rightarrow> frag \<Rightarrow> string" where
  "frag_text quote (T s) = s"
| "frag_text quote (Q s) = quote s"
| "frag_text quote (D n) = format_int n"

definition frags_text :: "(string \<Rightarrow> string) \<Rightarrow> frag list \<Rightarrow> string" where
  "frags_text quote fs = concat (map (frag_text quote) fs)"

fun join_strings :: "string \<Rightarrow> string list \<Rightarrow> string" where
  "join_strings sep [] = []"
| "join_strings sep [x] = x"
| "join_strings sep (x # y # ys) = x @ sep @ join_strings sep (y # ys)"

fun error_text :: "(string \<Rightarrow> string) \<Rightarrow> go_error \<Rightarrow> string" where
  "error_text quote (Sentinel s) = s"
| "error_text quote (ErrorString fs) = frags_text quote fs"
| "error_text quote (Wrapped p e s) = frags_text quote p @ error_text quote e @ frags_text quote s"
| "error_text quote (Joined es) = join_strings [CHR 0x0A] (map (error_text quote) es)"

text \<open>\<open>fmt.Errorf("...: %w", err)\<close> and \<open>errors.New\<close> with a plain text.\<close>

abbreviation wrapf :: "string \<Rightarrow> go_error \<Rightarrow> go_error" where
  "wrapf s e \<equiv> Wrapped [T s] e []"

abbreviation new_error :: "string \<Rightarrow> go_error" where
  "new_error s \<equiv> ErrorString [T s]"

definition err_canceled :: go_error where
  "err_canceled = Sentinel ''context canceled''"

definition err_deadline :: go_error where
  "err_deadline = Sentinel ''context deadline exceeded''"

text \<open>
  \<open>errors.Join\<close> drops the nil errors and is nil when none is left; nil is \<open>None\<close>.
\<close>

definition errors_join :: "go_error option list \<Rightarrow> go_error option" where
  "errors_join es = (let xs = List.map_filter id es in if xs = [] then None else Some (Joined xs))"

text \<open>Continue unless a call to code outside the model answered with an error.\<close>

definition on_error :: "go_error option \<Rightarrow> (go_error \<Rightarrow> go_error) \<Rightarrow> 'a result \<Rightarrow> 'a result" where
  "on_error reply wrap k = (case reply of Some e \<Rightarrow> Inl (wrap e) | None \<Rightarrow> k)"

lemma on_error_Inr [simp]: "on_error r w k = Inr x \<longleftrightarrow> r = None \<and> k = Inr x"
  by (simp add: on_error_def split: option.splits)

lemma on_error_None [simp]: "on_error None w k = k"
  by (simp add: on_error_def)

lemma on_error_Some [simp]: "on_error (Some e) w k = Inl (w e)"
  by (simp add: on_error_def)

section \<open>Time\<close>

text \<open>
  A \<open>time.Time\<close> is its distance from the Unix epoch in nanoseconds; a \<open>time.Duration\<close> is
  a signed 64-bit count of nanoseconds. \<open>UnixNano\<close> computes in \<open>int64\<close> and wraps.
\<close>

type_synonym time = int
type_synonym duration = int

definition unix_nano :: "time \<Rightarrow> int" where
  "unix_nano t = (t + 2 ^ 63) mod 2 ^ 64 - 2 ^ 63"

definition zero_time :: time where
  "zero_time = - 62135596800000000000"

lemma unix_nano_in_range [simp]: "- (2 ^ 63) \<le> t \<Longrightarrow> t < 2 ^ 63 \<Longrightarrow> unix_nano t = t"
  by (simp add: unix_nano_def)

lemma unix_nano_bounds: "- (2 ^ 63) \<le> unix_nano t \<and> unix_nano t < 2 ^ 63"
proof -
  have "0 \<le> (t + 2 ^ 63) mod 2 ^ 64" and "(t + 2 ^ 63) mod 2 ^ 64 < (2 ^ 64 :: int)"
    by simp_all
  then show ?thesis by (simp add: unix_nano_def)
qed

abbreviation second :: duration where
  "second \<equiv> 1000000000"

abbreviation millisecond :: duration where
  "millisecond \<equiv> 1000000"

section \<open>Table operations\<close>

text \<open>
  \<open>UPDATE t SET f WHERE p\<close> changes every row that satisfies \<open>p\<close> and reports how many;
  \<open>SELECT ... ORDER BY k LIMIT 1\<close> is the first of the rows sorted by \<open>k\<close>.
\<close>

definition sql_update :: "('r \<Rightarrow> bool) \<Rightarrow> ('r \<Rightarrow> 'r) \<Rightarrow> 'r list \<Rightarrow> 'r list" where
  "sql_update p f rows = map (\<lambda>r. if p r then f r else r) rows"

definition rows_affected :: "('r \<Rightarrow> bool) \<Rightarrow> 'r list \<Rightarrow> int" where
  "rows_affected p rows = int (length (filter p rows))"

definition select_first :: "('r \<Rightarrow> bool) \<Rightarrow> ('r \<Rightarrow> 'k::linorder) \<Rightarrow> 'r list \<Rightarrow> 'r option" where
  "select_first p key rows = (case sort_key key (filter p rows) of [] \<Rightarrow> None | r # _ \<Rightarrow> Some r)"

definition select_one :: "('r \<Rightarrow> bool) \<Rightarrow> 'r list \<Rightarrow> 'r option" where
  "select_one p rows = List.find p rows"

lemma length_sql_update [simp]: "length (sql_update p f rows) = length rows"
  by (simp add: sql_update_def)

lemma sql_update_Nil [simp]: "sql_update p f [] = []"
  by (simp add: sql_update_def)

lemma sql_update_Cons [simp]:
  "sql_update p f (r # rows) = (if p r then f r else r) # sql_update p f rows"
  by (simp add: sql_update_def)

lemma set_sql_update: "set (sql_update p f rows) = (\<lambda>r. if p r then f r else r) ` set rows"
  by (simp add: sql_update_def)

lemma sql_update_none: "(\<And>r. r \<in> set rows \<Longrightarrow> \<not> p r) \<Longrightarrow> sql_update p f rows = rows"
  by (induction rows) auto

lemma map_sql_update:
  "(\<And>r. r \<in> set rows \<Longrightarrow> p r \<Longrightarrow> g (f r) = g r) \<Longrightarrow> map g (sql_update p f rows) = map g rows"
  by (induction rows) auto

lemma in_sql_updateE:
  assumes "x \<in> set (sql_update p f rows)"
  obtains r where "r \<in> set rows" and "p r" and "x = f r"
  | "x \<in> set rows" and "\<not> p x"
  using assms by (auto simp: set_sql_update split: if_splits)

lemma in_sql_updateI: "r \<in> set rows \<Longrightarrow> (if p r then f r else r) \<in> set (sql_update p f rows)"
  by (simp add: sql_update_def)

lemma in_sql_updateI1: "r \<in> set rows \<Longrightarrow> p r \<Longrightarrow> f r \<in> set (sql_update p f rows)"
  by (force simp: set_sql_update)

lemma in_sql_updateI2: "r \<in> set rows \<Longrightarrow> \<not> p r \<Longrightarrow> r \<in> set (sql_update p f rows)"
  by (force simp: set_sql_update)

lemma rows_affected_Nil [simp]: "rows_affected p [] = 0"
  by (simp add: rows_affected_def)

lemma rows_affected_Cons [simp]:
  "rows_affected p (r # rows) = (if p r then 1 else 0) + rows_affected p rows"
  by (simp add: rows_affected_def)

lemma rows_affected_nonneg [simp]: "0 \<le> rows_affected p rows"
  by (simp add: rows_affected_def)

lemma rows_affected_zero: "rows_affected p rows = 0 \<longleftrightarrow> (\<forall>r \<in> set rows. \<not> p r)"
  by (simp add: rows_affected_def filter_empty_conv)

text \<open>With a unique key, an update by key touches the one row that has it, or none.\<close>

lemma rows_affected_key:
  assumes "distinct (map key rows)" and "\<And>r. p r \<Longrightarrow> key r = k"
  shows "rows_affected p rows = (if \<exists>r \<in> set rows. p r then 1 else 0)"
  using assms(1)
proof (induction rows)
  case Nil
  then show ?case by simp
next
  case (Cons r rows)
  have "\<not> p s" if "p r" and "s \<in> set rows" for s
  proof
    assume "p s"
    with assms(2) that have "key s = key r" by metis
    with Cons.prems that show False by (metis distinct.simps(2) image_eqI list.set_map list.simps(9))
  qed
  with Cons show ?case by auto
qed

lemma rows_affected_one:
  assumes "rows_affected p rows = 1" and "distinct (map key rows)"
  obtains r where "r \<in> set rows" and "p r" and "\<And>s. s \<in> set rows \<Longrightarrow> p s \<Longrightarrow> s = r"
proof -
  from assms(1) obtain r where "filter p rows = [r]"
    by (auto simp: rows_affected_def length_Suc_conv)
  then have "{s \<in> set rows. p s} = {r}"
    by (metis empty_set list.simps(15) set_filter)
  then have "r \<in> set rows" "p r" "\<And>s. s \<in> set rows \<Longrightarrow> p s \<Longrightarrow> s = r"
    by blast+
  then show ?thesis by (rule that)
qed

lemma distinct_map_inj:
  "distinct (map key rows) \<Longrightarrow> r \<in> set rows \<Longrightarrow> s \<in> set rows \<Longrightarrow> key r = key s \<Longrightarrow> r = s"
  by (meson distinct_map inj_onD)

lemma select_first_None: "select_first p key rows = None \<longleftrightarrow> (\<forall>r \<in> set rows. \<not> p r)"
proof -
  have "select_first p key rows = None \<longleftrightarrow> sort_key key (filter p rows) = []"
    by (simp add: select_first_def split: list.splits)
  also have "\<dots> \<longleftrightarrow> filter p rows = []"
    by (metis length_0_conv length_sort)
  finally show ?thesis by (simp add: filter_empty_conv)
qed

lemma select_first_Some:
  assumes "select_first p key rows = Some r"
  shows "r \<in> set rows" and "p r" and "\<And>s. s \<in> set rows \<Longrightarrow> p s \<Longrightarrow> key r \<le> key s"
proof -
  from assms obtain rs where rs: "sort_key key (filter p rows) = r # rs"
    by (auto simp: select_first_def split: list.splits)
  then have "set (r # rs) = set (filter p rows)"
    by (metis set_sort)
  then have members: "s \<in> set rows \<and> p s \<longleftrightarrow> s = r \<or> s \<in> set rs" for s
    by auto
  then show "r \<in> set rows" and "p r" by blast+
  have "sorted (map key (r # rs))"
    by (metis rs sorted_sort_key)
  then show "key r \<le> key s" if "s \<in> set rows" "p s" for s
    using members[of s] that by auto
qed

lemma select_one_None: "select_one p rows = None \<longleftrightarrow> (\<forall>r \<in> set rows. \<not> p r)"
  by (auto simp: select_one_def find_None_iff)

lemma select_one_Some: "select_one p rows = Some r \<Longrightarrow> r \<in> set rows \<and> p r"
  by (auto simp: select_one_def find_Some_iff)

lemma select_one_unique:
  assumes "distinct (map key rows)" and "\<And>r. p r \<Longrightarrow> key r = k" and "r \<in> set rows" and "p r"
  shows "select_one p rows = Some r"
proof (cases "select_one p rows")
  case None
  with assms show ?thesis by (auto simp: select_one_None)
next
  case (Some s)
  with select_one_Some[OF Some] assms show ?thesis
    by (metis distinct_map_inj)
qed

lemmas sql_facts = set_sql_update rows_affected_zero select_first_None select_one_None

section \<open>Lists\<close>

lemma length_filter_sum:
  assumes "\<And>x. x \<in> set xs \<Longrightarrow> p x \<longleftrightarrow> q x \<or> r x" and "\<And>x. x \<in> set xs \<Longrightarrow> \<not> (q x \<and> r x)"
  shows "length (filter p xs) = length (filter q xs) + length (filter r xs)"
  using assms by (induction xs) auto

end
