(* ===== verification/GoString.thy ===== *)
theory GoString
  imports Prelude
begin

text \<open>
  What the program uses of Go's packages \<open>strings\<close>, \<open>unicode/utf8\<close> and \<open>sort\<close>. A Go string
  is a list of bytes, here a \<open>string\<close>; the rune-level operations (\<open>TrimSpace\<close>, \<open>Fields\<close>,
  conversion to \<open>[]rune\<close>) decode UTF-8 the way \<open>utf8.DecodeRuneInString\<close> does, invalid
  bytes included.
\<close>

section \<open>Bytes and runes\<close>

abbreviation byte :: "char \<Rightarrow> nat" where
  "byte c \<equiv> of_char c"

definition rune_error :: nat where
  "rune_error = 0xFFFD"

definition is_cont :: "nat \<Rightarrow> nat \<Rightarrow> char \<Rightarrow> bool" where
  "is_cont lo hi c \<longleftrightarrow> lo \<le> byte c \<and> byte c \<le> hi"

text \<open>\<open>utf8.DecodeRuneInString\<close>: the rune and its width; an invalid byte has width 1.\<close>

fun decode_rune :: "string \<Rightarrow> nat \<times> nat" where
  "decode_rune [] = (rune_error, 0)"
| "decode_rune (a # s) =
    (if byte a < 0x80 then (byte a, 1)
     else if 0xC2 \<le> byte a \<and> byte a \<le> 0xDF then
       (case s of b # _ \<Rightarrow>
          if is_cont 0x80 0xBF b then ((byte a - 0xC0) * 64 + (byte b - 0x80), 2) else (rune_error, 1)
        | [] \<Rightarrow> (rune_error, 1))
     else if 0xE0 \<le> byte a \<and> byte a \<le> 0xEF then
       (case s of b # c # _ \<Rightarrow>
          if is_cont (if byte a = 0xE0 then 0xA0 else 0x80) (if byte a = 0xED then 0x9F else 0xBF) b
             \<and> is_cont 0x80 0xBF c
          then ((byte a - 0xE0) * 4096 + (byte b - 0x80) * 64 + (byte c - 0x80), 3) else (rune_error, 1)
        | _ \<Rightarrow> (rune_error, 1))
     else if 0xF0 \<le> byte a \<and> byte a \<le> 0xF4 then
       (case s of b # c # d # _ \<Rightarrow>
          if is_cont (if byte a = 0xF0 then 0x90 else 0x80) (if byte a = 0xF4 then 0x8F else 0xBF) b
             \<and> is_cont 0x80 0xBF c \<and> is_cont 0x80 0xBF d
          then ((byte a - 0xF0) * 262144 + (byte b - 0x80) * 4096 + (byte c - 0x80) * 64
                + (byte d - 0x80), 4) else (rune_error, 1)
        | _ \<Rightarrow> (rune_error, 1))
     else (rune_error, 1))"

lemma decode_rune_size: "0 < snd (decode_rune (a # s)) \<and> snd (decode_rune (a # s)) \<le> length (a # s)"
  by (auto split: list.splits)

declare decode_rune.simps(2) [simp del]

text \<open>\<open>utf8.EncodeRune\<close>; surrogates and values past U+10FFFF become U+FFFD.\<close>

definition encode_rune :: "nat \<Rightarrow> string" where
  "encode_rune r0 =
    (let r = (if r0 > 0x10FFFF \<or> (0xD800 \<le> r0 \<and> r0 \<le> 0xDFFF) then rune_error else r0) in
     if r < 0x80 then [char_of r]
     else if r < 0x800 then [char_of (0xC0 + r div 64), char_of (0x80 + r mod 64)]
     else if r < 0x10000 then
       [char_of (0xE0 + r div 4096), char_of (0x80 + r div 64 mod 64), char_of (0x80 + r mod 64)]
     else [char_of (0xF0 + r div 262144), char_of (0x80 + r div 4096 mod 64),
           char_of (0x80 + r div 64 mod 64), char_of (0x80 + r mod 64)])"

text \<open>The conversion \<open>[]rune(s)\<close>.\<close>

function runes :: "string \<Rightarrow> nat list" where
  "runes [] = []"
| "runes (a # s) = (let (r, n) = decode_rune (a # s) in r # runes (drop n (a # s)))"
  by pat_completeness auto
termination
proof (relation "measure length", goal_cases)
  case 1
  show ?case by simp
next
  case (2 a s p r n)
  then have "n = snd (decode_rune (a # s))" by (metis snd_conv)
  then have "0 < n" using decode_rune_size[of a s] by simp
  then show ?case by simp
qed

declare runes.simps(2) [simp del]

definition of_runes :: "nat list \<Rightarrow> string" where
  "of_runes rs = concat (map encode_rune rs)"

section \<open>Prefixes, splitting, joining\<close>

definition trim_prefix :: "string \<Rightarrow> string \<Rightarrow> string" where
  "trim_prefix p s = (if prefix p s then drop (length p) s else s)"

definition trim_suffix :: "string \<Rightarrow> string \<Rightarrow> string" where
  "trim_suffix p s = (if suffix p s then take (length s - length p) s else s)"

text \<open>\<open>strings.Contains(s, sub)\<close>.\<close>

fun contains :: "string \<Rightarrow> string \<Rightarrow> bool" where
  "contains [] sub \<longleftrightarrow> sub = []"
| "contains (c # s) sub \<longleftrightarrow> prefix sub (c # s) \<or> contains s sub"

text \<open>\<open>strings.Split(s, c)\<close> and \<open>strings.Cut(s, c)\<close> for a separator of one byte.\<close>

fun split_char :: "char \<Rightarrow> string \<Rightarrow> string list" where
  "split_char c [] = [[]]"
| "split_char c (x # xs) =
    (if x = c then [] # split_char c xs
     else case split_char c xs of [] \<Rightarrow> [[x]] | w # ws \<Rightarrow> (x # w) # ws)"

fun cut_char :: "char \<Rightarrow> string \<Rightarrow> string \<times> string \<times> bool" where
  "cut_char c [] = ([], [], False)"
| "cut_char c (x # xs) =
    (if x = c then ([], xs, True)
     else (case cut_char c xs of (before, after, found) \<Rightarrow> (x # before, after, found)))"

lemma split_char_not_Nil [simp]: "split_char c s \<noteq> []"
  by (induction s) (auto split: list.splits)

lemma join_split_char: "join_strings [c] (split_char c s) = s"
proof (induction s)
  case Nil
  then show ?case by simp
next
  case (Cons x xs)
  obtain w ws where "split_char c xs = w # ws" by (cases "split_char c xs") auto
  with Cons show ?case by (cases ws) auto
qed

lemma split_char_no_sep: "w \<in> set (split_char c s) \<Longrightarrow> c \<notin> set w"
  by (induction s arbitrary: w) (auto split: if_splits list.splits)

lemma split_char_id: "c \<notin> set s \<Longrightarrow> split_char c s = [s]"
  by (induction s) auto

lemma split_char_append: "c \<notin> set w \<Longrightarrow> split_char c (w @ c # s) = w # split_char c s"
  by (induction w) auto

lemma split_join_char:
  "ws \<noteq> [] \<Longrightarrow> \<forall>w \<in> set ws. c \<notin> set w \<Longrightarrow> split_char c (join_strings [c] ws) = ws"
  by (induction "[c]" ws rule: join_strings.induct) (auto simp: split_char_id split_char_append)

lemma cut_char_found: "c \<notin> set k \<Longrightarrow> cut_char c (k @ c # v) = (k, v, True)"
  by (induction k) auto

lemma cut_char_not_found: "c \<notin> set s \<Longrightarrow> cut_char c s = (s, [], False)"
  by (induction s) auto

lemma cut_char_Some: "cut_char c s = (k, v, True) \<Longrightarrow> s = k @ c # v \<and> c \<notin> set k"
  by (induction s arbitrary: k) (auto split: if_splits prod.splits)

lemma cut_char_None: "cut_char c s = (k, v, False) \<Longrightarrow> k = s \<and> v = [] \<and> c \<notin> set s"
  by (induction s arbitrary: k) (auto split: if_splits prod.splits)

lemma contains_iff: "contains s sub \<longleftrightarrow> (\<exists>a b. s = a @ sub @ b)"
proof (induction s)
  case Nil
  then show ?case by auto
next
  case (Cons c s)
  show ?case
  proof
    assume "contains (c # s) sub"
    then consider "prefix sub (c # s)" | "contains s sub" by auto
    then show "\<exists>a b. c # s = a @ sub @ b"
    proof cases
      case 1
      then show ?thesis by (metis append_Nil prefixE)
    next
      case 2
      with Cons.IH show ?thesis by (metis append_Cons)
    qed
  next
    assume "\<exists>a b. c # s = a @ sub @ b"
    then obtain a b where "c # s = a @ sub @ b" by blast
    then show "contains (c # s) sub"
      using Cons.IH by (cases a) (metis append_Nil contains.simps(2) prefixI, force)
  qed
qed

lemma contains_Nil [simp]: "contains s []"
  by (cases s) auto

section \<open>White space\<close>

text \<open>The UTF-8 encodings of the runes for which \<open>unicode.IsSpace\<close> holds.\<close>

definition space_encodings :: "string list" where
  "space_encodings =
    [[CHR 0x09], [CHR 0x0A], [CHR 0x0B], [CHR 0x0C], [CHR 0x0D], [CHR 0x20],
     [CHR 0xC2, CHR 0x85], [CHR 0xC2, CHR 0xA0], [CHR 0xE1, CHR 0x9A, CHR 0x80],
     [CHR 0xE2, CHR 0x80, CHR 0x80], [CHR 0xE2, CHR 0x80, CHR 0x81], [CHR 0xE2, CHR 0x80, CHR 0x82],
     [CHR 0xE2, CHR 0x80, CHR 0x83], [CHR 0xE2, CHR 0x80, CHR 0x84], [CHR 0xE2, CHR 0x80, CHR 0x85],
     [CHR 0xE2, CHR 0x80, CHR 0x86], [CHR 0xE2, CHR 0x80, CHR 0x87], [CHR 0xE2, CHR 0x80, CHR 0x88],
     [CHR 0xE2, CHR 0x80, CHR 0x89], [CHR 0xE2, CHR 0x80, CHR 0x8A], [CHR 0xE2, CHR 0x80, CHR 0xA8],
     [CHR 0xE2, CHR 0x80, CHR 0xA9], [CHR 0xE2, CHR 0x80, CHR 0xAF], [CHR 0xE2, CHR 0x81, CHR 0x9F],
     [CHR 0xE3, CHR 0x80, CHR 0x80]]"

text \<open>The width of the white-space rune a string starts (ends) with; 0 when there is none.\<close>

definition leading_space :: "string \<Rightarrow> nat" where
  "leading_space s = (case List.find (\<lambda>p. prefix p s) space_encodings of Some p \<Rightarrow> length p | None \<Rightarrow> 0)"

definition trailing_space :: "string \<Rightarrow> nat" where
  "trailing_space s = (case List.find (\<lambda>p. suffix p s) space_encodings of Some p \<Rightarrow> length p | None \<Rightarrow> 0)"

lemma space_encodings_nonempty: "p \<in> set space_encodings \<Longrightarrow> p \<noteq> []"
  by (auto simp: space_encodings_def)

lemma leading_space_le: "leading_space s \<le> length s"
  by (auto simp: leading_space_def find_Some_iff prefix_length_le split: option.splits)

lemma trailing_space_le: "trailing_space s \<le> length s"
  by (auto simp: trailing_space_def find_Some_iff suffix_length_le split: option.splits)

function trim_left :: "string \<Rightarrow> string" where
  "trim_left s = (if leading_space s = 0 then s else trim_left (drop (leading_space s) s))"
  by pat_completeness auto
termination
proof (relation "measure length", goal_cases)
  case (2 s)
  then show ?case using leading_space_le[of s] by (simp add: diff_less_mono2)
qed simp

function trim_right :: "string \<Rightarrow> string" where
  "trim_right s = (if trailing_space s = 0 then s else trim_right (take (length s - trailing_space s) s))"
  by pat_completeness auto
termination
proof (relation "measure length", goal_cases)
  case (2 s)
  then show ?case using trailing_space_le[of s] by simp
qed simp

declare trim_left.simps [simp del] trim_right.simps [simp del]

text \<open>\<open>strings.TrimSpace\<close>.\<close>

definition trim_space :: "string \<Rightarrow> string" where
  "trim_space s = trim_right (trim_left s)"

definition blank :: "string \<Rightarrow> bool" where
  "blank s \<longleftrightarrow> trim_space s = []"

lemma leading_space_Nil [simp]: "leading_space [] = 0"
  using leading_space_le[of "[]"] by simp

lemma trailing_space_Nil [simp]: "trailing_space [] = 0"
  using trailing_space_le[of "[]"] by simp

lemma trim_space_Nil [simp]: "trim_space [] = []"
  by (simp add: trim_space_def trim_left.simps trim_right.simps)

lemma blank_Nil [simp]: "blank []"
  by (simp add: blank_def)

lemma trim_right_fixed: "trailing_space (trim_right s) = 0"
  by (induction s rule: trim_right.induct) (metis trim_right.simps)

lemma trim_left_fixed: "leading_space (trim_left s) = 0"
  by (induction s rule: trim_left.induct) (metis trim_left.simps)

lemma trim_right_prefix: "prefix (trim_right s) s"
proof (induction s rule: trim_right.induct)
  case (1 s)
  show ?case
  proof (cases "trailing_space s = 0")
    case True
    then show ?thesis by (simp add: trim_right.simps[of s])
  next
    case False
    with 1 have "prefix (trim_right s) (take (length s - trailing_space s) s)"
      by (simp add: trim_right.simps[of s])
    then show ?thesis using take_is_prefix prefix_order.trans by blast
  qed
qed

lemma leading_space_prefix: "leading_space s = 0 \<Longrightarrow> prefix t s \<Longrightarrow> leading_space t = 0"
proof -
  assume s: "leading_space s = 0" and t: "prefix t s"
  have "\<not> prefix p t" if "p \<in> set space_encodings" for p
  proof
    assume "prefix p t"
    from this t have "prefix p s" by (rule prefix_order.trans)
    with that have "List.find (\<lambda>p. prefix p s) space_encodings \<noteq> None"
      by (auto simp: find_None_iff)
    then obtain q where q: "List.find (\<lambda>p. prefix p s) space_encodings = Some q" by blast
    with s have "q = []" by (simp add: leading_space_def)
    moreover from q have "q \<in> set space_encodings" by (auto simp: find_Some_iff)
    ultimately have "q = []" "q \<in> set space_encodings" by simp_all
    then show False using space_encodings_nonempty by blast
  qed
  then show ?thesis
    by (simp add: leading_space_def find_None_iff[THEN iffD2])
qed

lemma space_encoding_leads:
  assumes "s \<in> set space_encodings"
  shows "leading_space s \<noteq> 0"
proof -
  from assms have "List.find (\<lambda>p. prefix p s) space_encodings \<noteq> None"
    by (auto simp: find_None_iff)
  then obtain q where q: "List.find (\<lambda>p. prefix p s) space_encodings = Some q" by blast
  then have "q \<in> set space_encodings" by (auto simp: find_Some_iff)
  with q space_encodings_nonempty show ?thesis by (auto simp: leading_space_def)
qed

lemma trim_right_nonempty: "s \<noteq> [] \<Longrightarrow> leading_space s = 0 \<Longrightarrow> trim_right s \<noteq> []"
proof (induction s rule: trim_right.induct)
  case (1 s)
  show ?case
  proof (cases "trailing_space s = 0")
    case True
    with 1 show ?thesis by (simp add: trim_right.simps[of s])
  next
    case False
    let ?t = "take (length s - trailing_space s) s"
    have "?t \<noteq> []"
    proof
      assume "?t = []"
      with 1 trailing_space_le[of s] have len: "trailing_space s = length s" by simp
      from False obtain q where q: "List.find (\<lambda>p. suffix p s) space_encodings = Some q"
        by (auto simp: trailing_space_def split: option.splits)
      with len have "length q = length s" by (simp add: trailing_space_def)
      moreover from q have "suffix q s" "q \<in> set space_encodings" by (auto simp: find_Some_iff)
      ultimately have "q = s" by (auto simp: suffix_def)
      with space_encoding_leads \<open>q \<in> set space_encodings\<close> 1 show False by blast
    qed
    moreover have "leading_space ?t = 0"
      using leading_space_prefix[OF "1.prems"(2)] take_is_prefix by blast
    ultimately show ?thesis
      using "1.IH"[OF False] False by (simp add: trim_right.simps[of s])
  qed
qed

lemma not_blank_leading: "s \<noteq> [] \<Longrightarrow> leading_space s = 0 \<Longrightarrow> \<not> blank s"
  using trim_right_nonempty by (simp add: blank_def trim_space_def trim_left.simps)

text \<open>Trimming is idempotent: a trimmed name is its own trimmed form.\<close>

lemma trim_space_idem [simp]: "trim_space (trim_space s) = trim_space s"
proof -
  have "leading_space (trim_right (trim_left s)) = 0"
    using leading_space_prefix[OF trim_left_fixed trim_right_prefix] .
  then have "trim_left (trim_right (trim_left s)) = trim_right (trim_left s)"
    by (subst trim_left.simps) simp
  moreover have "trim_right (trim_right (trim_left s)) = trim_right (trim_left s)"
    by (subst trim_right.simps) (simp add: trim_right_fixed)
  ultimately show ?thesis by (simp add: trim_space_def)
qed

text \<open>\<open>strings.Fields\<close>: the maximal runs without white space.\<close>

function fields_from :: "string \<Rightarrow> string \<Rightarrow> string list" where
  "fields_from w [] = (if w = [] then [] else [w])"
| "fields_from w (c # s) =
    (let n = leading_space (c # s) in
     if n = 0 then fields_from (w @ [c]) s
     else (if w = [] then [] else [w]) @ fields_from [] (drop n (c # s)))"
  by pat_completeness auto
termination
  by (relation "measure (\<lambda>(w, s). length s)") auto

declare fields_from.simps(2) [simp del]

definition fields :: "string \<Rightarrow> string list" where
  "fields s = fields_from [] s"

section \<open>Replacers\<close>

text \<open>
  \<open>strings.NewReplacer(pairs...).Replace\<close> for non-empty old strings: at every position the
  first pair, in argument order, whose old string starts there is replaced, and the scan goes on
  after it; replacements are never scanned again.
\<close>

function replace :: "(string \<times> string) list \<Rightarrow> string \<Rightarrow> string" where
  "replace pairs [] = []"
| "replace pairs (c # s) =
    (case List.find (\<lambda>(old, new). old \<noteq> [] \<and> prefix old (c # s)) pairs of
       Some (old, new) \<Rightarrow> new @ replace pairs (drop (length old) (c # s))
     | None \<Rightarrow> c # replace pairs s)"
  by pat_completeness auto
termination
  by (relation "measure (\<lambda>(ps, s). length s)") (auto simp: find_Some_iff)

declare replace.simps(2) [simp del]

lemma replace_no_pairs [simp]: "replace [] s = s"
  by (induction s) (simp_all add: replace.simps(2))

text \<open>A string that contains none of the old strings is unchanged.\<close>

lemma replace_no_match:
  assumes "\<And>old new. (old, new) \<in> set pairs \<Longrightarrow> old \<noteq> [] \<Longrightarrow> \<not> contains s old"
  shows "replace pairs s = s"
  using assms
proof (induction s)
  case Nil
  then show ?case by simp
next
  case (Cons c s)
  have none: "List.find (\<lambda>(old, new). old \<noteq> [] \<and> prefix old (c # s)) pairs = None"
    using Cons.prems by (force simp: find_None_iff)
  have "replace pairs s = s"
    by (rule Cons.IH) (use Cons.prems in fastforce)
  with none show ?case by (simp add: replace.simps(2))
qed

section \<open>Sorting\<close>

text \<open>Byte-wise comparison of strings (\<open><\<close> on Go strings) and \<open>sort.Strings\<close>.\<close>

fun string_le :: "string \<Rightarrow> string \<Rightarrow> bool" where
  "string_le [] t = True"
| "string_le (a # s) [] = False"
| "string_le (a # s) (b # t) = (byte a < byte b \<or> (a = b \<and> string_le s t))"

fun insert_string :: "string \<Rightarrow> string list \<Rightarrow> string list" where
  "insert_string x [] = [x]"
| "insert_string x (y # ys) = (if string_le x y then x # y # ys else y # insert_string x ys)"

definition sort_strings :: "string list \<Rightarrow> string list" where
  "sort_strings xs = foldr insert_string xs []"

lemma set_insert_string [simp]: "set (insert_string x ys) = insert x (set ys)"
  by (induction ys) auto

lemma set_sort_strings [simp]: "set (sort_strings xs) = set xs"
  by (induction xs) (auto simp: sort_strings_def)

lemma length_sort_strings [simp]: "length (sort_strings xs) = length xs"
proof -
  have ins: "length (insert_string x ys) = Suc (length ys)" for x ys
    by (induction ys) auto
  show ?thesis by (induction xs) (auto simp: sort_strings_def ins)
qed

lemma string_le_refl [simp]: "string_le s s"
  by (induction s) auto

lemma string_le_total: "string_le s t \<or> string_le t s"
proof (induction s t rule: string_le.induct)
  case (3 a s b t)
  then show ?case using of_char_eq_iff[of a b, where ?'a = nat] by auto
qed auto

lemma string_le_trans: "string_le s t \<Longrightarrow> string_le t u \<Longrightarrow> string_le s u"
proof (induction s arbitrary: t u)
  case (Cons a s)
  then show ?case by (cases t; cases u) auto
qed simp

lemma string_le_antisym: "string_le s t \<Longrightarrow> string_le t s \<Longrightarrow> s = t"
proof (induction s t rule: string_le.induct)
  case (1 t)
  then show ?case by (cases t) auto
qed auto

lemma sorted_insert_string: "sorted_wrt string_le ys \<Longrightarrow> sorted_wrt string_le (insert_string x ys)"
proof (induction ys)
  case (Cons y ys)
  then show ?case using string_le_total[of x y] by (auto intro: string_le_trans)
qed simp

lemma sorted_sort_strings: "sorted_wrt string_le (sort_strings xs)"
  by (induction xs) (auto simp: sort_strings_def sorted_insert_string)

lemma sorted_strings_unique:
  "sorted_wrt string_le xs \<Longrightarrow> sorted_wrt string_le ys \<Longrightarrow> distinct xs \<Longrightarrow> distinct ys \<Longrightarrow>
   set xs = set ys \<Longrightarrow> xs = ys"
proof (induction xs arbitrary: ys)
  case (Cons x xs)
  then obtain y zs where ys: "ys = y # zs" by (cases ys) auto
  have "x = y"
  proof (rule ccontr)
    assume "x \<noteq> y"
    with Cons.prems ys have "x \<in> set zs" "y \<in> set xs" by auto
    with Cons.prems ys have "string_le x y" "string_le y x" by auto
    with \<open>x \<noteq> y\<close> show False using string_le_antisym by blast
  qed
  moreover from this Cons.prems ys have "set xs = set zs" by auto
  ultimately show ?case using Cons ys by auto
qed simp

lemma distinct_sort_strings: "distinct (sort_strings xs) = distinct xs"
proof -
  have ins: "distinct (insert_string x ys) \<longleftrightarrow> x \<notin> set ys \<and> distinct ys" for x ys
    by (induction ys) auto
  show ?thesis
  proof (induction xs)
    case (Cons x xs)
    have "sort_strings (x # xs) = insert_string x (sort_strings xs)" by (simp add: sort_strings_def)
    with Cons ins show ?case by simp
  qed (simp add: sort_strings_def)
qed

end
