(* ===== verification/QueueStore.thy ===== *)
theory QueueStore
  imports GoString
begin

text \<open>
  The durable queue of \<open>internal/queue\<close>: its data (\<open>types.go\<close>), its three tables
  (\<open>store.go\<close>, the schema), and every operation on them (\<open>jobs.go\<close>, \<open>commands.go\<close>,
  \<open>history.go\<close>). A table is the list of its rows in insertion order; each SQL statement is
  its effect on the rows. What SQLite decides is the argument \<open>engine\<close>: whether each call of
  the driver succeeds, the row id AUTOINCREMENT hands out, and the error of a violated constraint.
  Every error return of the Go code is a branch; a transaction that does not commit leaves the
  committed tables as they were.
\<close>

section \<open>Data\<close>

datatype status = StatusQueued | StatusRunning | StatusSucceeded | StatusFailed

fun status_text :: "status \<Rightarrow> string" where
  "status_text StatusQueued = ''QUEUED''"
| "status_text StatusRunning = ''RUNNING''"
| "status_text StatusSucceeded = ''SUCCEEDED''"
| "status_text StatusFailed = ''FAILED''"

datatype command_status = CommandRunning | CommandSucceeded | CommandFailed

text \<open>The columns of table \<open>jobs\<close>; times are Unix nanoseconds, NULL is \<open>None\<close>.\<close>

record job_row =
  j_id :: int
  j_watch_name :: string
  j_path :: string
  j_fingerprint :: string
  j_status :: status
  j_attempts :: int
  j_max_retries :: int
  j_available_at :: int
  j_last_error :: string
  j_created_at :: int
  j_updated_at :: int
  j_started_at :: "int option"
  j_finished_at :: "int option"

text \<open>\<open>Job\<close>: the columns and the run reserved by \<open>Claim\<close> (0 when not claimed).\<close>

record job = job_row +
  j_run_id :: int
  j_attempt :: int

record enqueue_params =
  p_watch_name :: string
  p_path :: string
  p_fingerprint :: string
  p_max_retries :: int
  p_available_at :: time

record run =
  r_id :: int
  r_job_id :: int
  r_attempt :: int
  r_status :: status
  r_error :: string
  r_started_at :: int
  r_finished_at :: "int option"

record command_start =
  cs_run_id :: int
  cs_sequence :: int
  cs_name :: string
  cs_program :: string
  cs_args :: "string list"
  cs_env :: "string list"
  cs_working_dir :: string
  cs_timeout :: duration

record command_result =
  cr_status :: command_status
  cr_exit_code :: int
  cr_stdout :: string
  cr_stderr :: string
  cr_error :: string

text \<open>
  The columns of table \<open>command_executions\<close>. The two JSON columns hold the text that
  \<open>marshalStrings\<close> writes.
\<close>

record command_row =
  c_id :: int
  c_run_id :: int
  c_sequence :: int
  c_name :: string
  c_program :: string
  c_args_json :: string
  c_env_json :: string
  c_working_dir :: string
  c_timeout_ns :: int
  c_status :: command_status
  c_exit_code :: "int option"
  c_stdout :: string
  c_stderr :: string
  c_error :: string
  c_started_at :: int
  c_finished_at :: "int option"

record command_output =
  co_id :: int
  co_run_id :: int
  co_stdout :: string
  co_stderr :: string

record job_filter =
  f_status :: string
  f_watch_name :: string
  f_limit :: int
  f_offset :: int

record queue_counts =
  n_queued :: int
  n_running :: int
  n_succeeded :: int
  n_failed :: int
  n_total :: int

text \<open>The database: the tables and, for each, the largest row id ever handed out.\<close>

record db =
  jobs :: "job_row list"
  runs :: "run list"
  commands :: "command_row list"
  jobs_seq :: int
  runs_seq :: int
  commands_seq :: int

definition empty_db :: db where
  "empty_db = \<lparr>jobs = [], runs = [], commands = [], jobs_seq = 0, runs_seq = 0, commands_seq = 0\<rparr>"

text \<open>What the database engine decides during one operation.\<close>

datatype db_call = BeginTx | Stmt nat | LastInsertId | RowsAffected nat | CommitTx

record engine =
  reply :: "db_call \<Rightarrow> go_error option"
  rowid :: int
  violation :: go_error

definition err_no_job :: go_error where
  "err_no_job = Sentinel ''no job available''"

definition err_not_found :: go_error where
  "err_not_found = Sentinel ''queue record not found''"

definition err_invalid_transition :: go_error where
  "err_invalid_transition = Sentinel ''invalid queue state transition''"

text \<open>A transaction: on any error the deferred rollback restores the tables.\<close>

definition in_tx :: "db \<Rightarrow> ('a \<times> db) result \<Rightarrow> 'a result \<times> db" where
  "in_tx d r = (case r of Inl e \<Rightarrow> (Inl e, d) | Inr (x, d') \<Rightarrow> (Inr x, d'))"

definition scan_job :: "job_row \<Rightarrow> job" where
  "scan_job r = job_row.extend r (job.fields 0 0)"

text \<open>\<open>requireOneRow\<close> on the statement numbered \<open>n\<close>.\<close>

definition require_one_row :: "engine \<Rightarrow> nat \<Rightarrow> int \<Rightarrow> go_error option" where
  "require_one_row e n count =
    (case reply e (RowsAffected n) of
       Some err \<Rightarrow> Some err
     | None \<Rightarrow> if count \<noteq> 1 then Some err_invalid_transition else None)"

section \<open>Jobs\<close>

definition same_key :: "enqueue_params \<Rightarrow> job_row \<Rightarrow> bool" where
  "same_key p r \<longleftrightarrow>
    j_watch_name r = p_watch_name p \<and> j_path r = p_path p \<and> j_fingerprint r = p_fingerprint p"

definition new_job_row :: "int \<Rightarrow> time \<Rightarrow> enqueue_params \<Rightarrow> job_row" where
  "new_job_row i now p =
    \<lparr>j_id = i, j_watch_name = p_watch_name p, j_path = p_path p, j_fingerprint = p_fingerprint p,
     j_status = StatusQueued, j_attempts = 0, j_max_retries = p_max_retries p,
     j_available_at = unix_nano (if p_available_at p = zero_time then now else p_available_at p),
     j_last_error = [], j_created_at = unix_nano now, j_updated_at = unix_nano now,
     j_started_at = None, j_finished_at = None\<rparr>"

definition enqueue :: "engine \<Rightarrow> time \<Rightarrow> enqueue_params \<Rightarrow> db \<Rightarrow> (job \<times> bool) result \<times> db" where
  "enqueue e now p d =
    (if blank (p_watch_name p) then (Inl (new_error ''queue: watch name is empty''), d)
     else if blank (p_path p) then (Inl (new_error ''queue: file path is empty''), d)
     else if p_max_retries p < 0 then (Inl (new_error ''queue: max retries cannot be negative''), d)
     else
       (case reply e (Stmt 1) of
          Some err \<Rightarrow> (Inl (wrapf ''queue: enqueue job: '' err), d)
        | None \<Rightarrow>
            (case select_one (same_key p) (jobs d) of
               None \<Rightarrow>
                 (let row = new_job_row (rowid e) now p in
                  (Inr (scan_job row, True), d\<lparr>jobs := jobs d @ [row], jobs_seq := rowid e\<rparr>))
             | Some existing \<Rightarrow>
                 (case reply e (Stmt 2) of
                    Some err \<Rightarrow> (Inl (wrapf ''queue: find duplicate job: '' err), d)
                  | None \<Rightarrow> (Inr (scan_job existing, False), d)))))"

definition eligible :: "int \<Rightarrow> job_row \<Rightarrow> bool" where
  "eligible t r \<longleftrightarrow> j_status r = StatusQueued \<and> j_available_at r \<le> t"

text \<open>\<open>ORDER BY available_at, id LIMIT 1\<close>.\<close>

definition oldest_eligible :: "int \<Rightarrow> db \<Rightarrow> job_row option" where
  "oldest_eligible t d = select_first (eligible t) (\<lambda>r. (j_available_at r, j_id r)) (jobs d)"

definition mark_claimed :: "int \<Rightarrow> job_row \<Rightarrow> job_row" where
  "mark_claimed t r =
    r\<lparr>j_status := StatusRunning, j_attempts := j_attempts r + 1, j_updated_at := t,
      j_started_at := Some t, j_finished_at := None\<rparr>"

text \<open>The constraints of table \<open>runs\<close> an inserted row can violate.\<close>

definition run_violates :: "int \<Rightarrow> int \<Rightarrow> db \<Rightarrow> bool" where
  "run_violates job_id attempt d \<longleftrightarrow>
    attempt \<le> 0 \<or> (\<exists>r \<in> set (runs d). r_job_id r = job_id \<and> r_attempt r = attempt)"

definition claim :: "engine \<Rightarrow> time \<Rightarrow> db \<Rightarrow> job result \<times> db" where
  "claim e now d =
    in_tx d
      (on_error (reply e BeginTx) (wrapf ''queue: begin claim: '')
        (let t = unix_nano now in
         on_error (reply e (Stmt 1)) (wrapf ''queue: claim job: '')
          (case oldest_eligible t d of
             None \<Rightarrow> Inl err_no_job
           | Some r \<Rightarrow>
               (let r' = mark_claimed t r;
                    d1 = d\<lparr>jobs := sql_update (\<lambda>s. j_id s = j_id r) (mark_claimed t) (jobs d)\<rparr> in
                on_error (if run_violates (j_id r') (j_attempts r') d1 then Some (violation e)
                          else reply e (Stmt 2)) (wrapf ''queue: create run: '')
                 (let run = \<lparr>r_id = rowid e, r_job_id = j_id r', r_attempt = j_attempts r',
                             r_status = StatusRunning, r_error = [], r_started_at = t,
                             r_finished_at = None\<rparr>;
                      d2 = d1\<lparr>runs := runs d1 @ [run], runs_seq := rowid e\<rparr> in
                  on_error (reply e LastInsertId) (wrapf ''queue: get run id: '')
                   (on_error (reply e CommitTx) (wrapf ''queue: commit claim: '')
                     (Inr ((scan_job r')\<lparr>j_run_id := rowid e, j_attempt := j_attempts r'\<rparr>, d2))))))))"

definition running_run :: "int \<Rightarrow> int \<Rightarrow> run \<Rightarrow> bool" where
  "running_run job_id run_id r \<longleftrightarrow> r_id r = run_id \<and> r_job_id r = job_id \<and> r_status r = StatusRunning"

definition running_job :: "int \<Rightarrow> job_row \<Rightarrow> bool" where
  "running_job job_id r \<longleftrightarrow> j_id r = job_id \<and> j_status r = StatusRunning"

definition succeed :: "engine \<Rightarrow> time \<Rightarrow> int \<Rightarrow> int \<Rightarrow> db \<Rightarrow> unit result \<times> db" where
  "succeed e now job_id run_id d =
    (if job_id \<le> 0 \<or> run_id \<le> 0 then (Inl (new_error ''queue: invalid job or run id''), d)
     else in_tx d
      (on_error (reply e BeginTx) (wrapf ''queue: begin success: '')
        (let t = unix_nano now;
             p = running_run job_id run_id;
             d1 = d\<lparr>runs := sql_update p (\<lambda>r. r\<lparr>r_status := StatusSucceeded, r_error := [],
                                                 r_finished_at := Some t\<rparr>) (runs d)\<rparr>;
             q = running_job job_id;
             d2 = d1\<lparr>jobs := sql_update q (\<lambda>r. r\<lparr>j_status := StatusSucceeded, j_last_error := [],
                                                  j_updated_at := t, j_finished_at := Some t\<rparr>)
                              (jobs d1)\<rparr> in
         on_error (reply e (Stmt 1)) (wrapf ''queue: complete run: '')
          (on_error (require_one_row e 1 (rows_affected p (runs d))) (wrapf ''queue: complete run: '')
            (on_error (reply e (Stmt 2)) (wrapf ''queue: complete job: '')
              (on_error (require_one_row e 2 (rows_affected q (jobs d1))) (wrapf ''queue: complete job: '')
                (on_error (reply e CommitTx) (wrapf ''queue: commit success: '')
                  (Inr ((), d2)))))))))"

definition fail_commands :: "(command_row \<Rightarrow> bool) \<Rightarrow> string \<Rightarrow> int \<Rightarrow> command_row list \<Rightarrow> command_row list" where
  "fail_commands p reason t =
    sql_update (\<lambda>c. p c \<and> c_status c = CommandRunning)
      (\<lambda>c. c\<lparr>c_status := CommandFailed, c_exit_code := Some (- 1), c_error := reason,
             c_finished_at := Some t\<rparr>)"

definition fail :: "engine \<Rightarrow> time \<Rightarrow> int \<Rightarrow> int \<Rightarrow> string \<Rightarrow> duration \<Rightarrow> db \<Rightarrow> status result \<times> db" where
  "fail e now job_id run_id reason retry_delay d =
    (if job_id \<le> 0 \<or> run_id \<le> 0 then (Inl (new_error ''queue: invalid job or run id''), d)
     else in_tx d
      (on_error (reply e BeginTx) (wrapf ''queue: begin failure: '')
        (let delay = (if retry_delay < 0 then 0 else retry_delay);
             t = unix_nano now;
             d1 = d\<lparr>commands := fail_commands (\<lambda>c. c_run_id c = run_id) reason t (commands d)\<rparr>;
             p = running_run job_id run_id;
             d2 = d1\<lparr>runs := sql_update p (\<lambda>r. r\<lparr>r_status := StatusFailed, r_error := reason,
                                                  r_finished_at := Some t\<rparr>) (runs d1)\<rparr> in
         on_error (reply e (Stmt 1)) (wrapf ''queue: fail running commands: '')
          (on_error (reply e (Stmt 2)) (wrapf ''queue: fail run: '')
            (on_error (require_one_row e 2 (rows_affected p (runs d1))) (wrapf ''queue: fail run: '')
              (on_error (reply e (Stmt 3)) (wrapf ''queue: read retry state: '')
                (case select_one (running_job job_id) (jobs d2) of
                   None \<Rightarrow> Inl (wrapf ''queue: fail job: '' err_invalid_transition)
                 | Some j \<Rightarrow>
                     (let retry = j_attempts j \<le> j_max_retries j;
                          resulting = (if retry then StatusQueued else StatusFailed);
                          available = unix_nano (if retry then now + delay else now);
                          finished = (if retry then None else Some t);
                          q = running_job job_id;
                          d3 = d2\<lparr>jobs := sql_update q (\<lambda>r. r\<lparr>j_status := resulting,
                                   j_available_at := available, j_last_error := reason,
                                   j_updated_at := t, j_finished_at := finished\<rparr>) (jobs d2)\<rparr> in
                      on_error (reply e (Stmt 4)) (wrapf ''queue: fail job: '')
                       (on_error (require_one_row e 4 (rows_affected q (jobs d2))) (wrapf ''queue: fail job: '')
                         (on_error (reply e CommitTx) (wrapf ''queue: commit failure: '')
                           (Inr (resulting, d3))))))))))))"

definition recovery_reason :: string where
  "recovery_reason = ''interrupted by daemon restart''"

definition recover_running :: "engine \<Rightarrow> time \<Rightarrow> db \<Rightarrow> int result \<times> db" where
  "recover_running e now d =
    in_tx d
      (on_error (reply e BeginTx) (wrapf ''queue: begin recovery: '')
        (let t = unix_nano now;
             d1 = d\<lparr>commands := fail_commands (\<lambda>_. True) recovery_reason t (commands d)\<rparr>;
             d2 = d1\<lparr>runs := sql_update (\<lambda>r. r_status r = StatusRunning)
                       (\<lambda>r. r\<lparr>r_status := StatusFailed, r_error := recovery_reason,
                              r_finished_at := Some t\<rparr>) (runs d1)\<rparr>;
             q = (\<lambda>r. j_status r = StatusRunning);
             d3 = d2\<lparr>jobs := sql_update q (\<lambda>r. r\<lparr>j_status := StatusQueued, j_available_at := t,
                       j_last_error := recovery_reason, j_updated_at := t, j_finished_at := None\<rparr>)
                       (jobs d2)\<rparr> in
         on_error (reply e (Stmt 1)) (wrapf ''queue: recover commands: '')
          (on_error (reply e (Stmt 2)) (wrapf ''queue: recover runs: '')
            (on_error (reply e (Stmt 3)) (wrapf ''queue: recover jobs: '')
              (on_error (reply e (RowsAffected 3)) (wrapf ''queue: count recovered jobs: '')
                (on_error (reply e CommitTx) (wrapf ''queue: commit recovery: '')
                  (Inr (rows_affected q (jobs d2), d3))))))))"

section \<open>Commands\<close>

text \<open>
  \<open>json.Marshal\<close> of one string: HTML-safe escaping, invalid UTF-8 replaced by U+FFFD, the line
  separators U+2028 and U+2029 escaped, everything else copied.
\<close>

definition hex_digit :: "nat \<Rightarrow> char" where
  "hex_digit n = (if n < 10 then char_of (48 + n) else char_of (87 + n))"

definition json_escape_ascii :: "char \<Rightarrow> string" where
  "json_escape_ascii c =
    (if c = CHR 0x22 \<or> c = CHR 0x5C then [CHR 0x5C, c]
     else if c = CHR 0x08 then [CHR 0x5C, CHR ''b'']
     else if c = CHR 0x0C then [CHR 0x5C, CHR ''f'']
     else if c = CHR 0x0A then [CHR 0x5C, CHR ''n'']
     else if c = CHR 0x0D then [CHR 0x5C, CHR ''r'']
     else if c = CHR 0x09 then [CHR 0x5C, CHR ''t'']
     else if byte c < 0x20 \<or> c = CHR ''<'' \<or> c = CHR ''>'' \<or> c = CHR ''&''
       then [CHR 0x5C, CHR ''u'', CHR ''0'', CHR ''0'', hex_digit (byte c div 16), hex_digit (byte c mod 16)]
     else [c])"

function json_escape :: "string \<Rightarrow> string" where
  "json_escape [] = []"
| "json_escape (a # s) =
    (if byte a < 0x80 then json_escape_ascii a @ json_escape s
     else (let (r, n) = decode_rune (a # s) in
       (if r = rune_error \<and> n = 1 then CHR 0x5C # ''ufffd''
        else if r = 0x2028 then CHR 0x5C # ''u2028''
        else if r = 0x2029 then CHR 0x5C # ''u2029''
        else take n (a # s)) @ json_escape (drop n (a # s))))"
  by pat_completeness auto
termination
proof (relation "measure length", goal_cases)
  case (3 a s p r n)
  then have "n = snd (decode_rune (a # s))" by (metis snd_conv)
  then have "0 < n" using decode_rune_size[of a s] by simp
  then show ?case by simp
qed simp_all

declare json_escape.simps(2) [simp del]

definition json_string :: "string \<Rightarrow> string" where
  "json_string s = [CHR 0x22] @ json_escape s @ [CHR 0x22]"

definition marshal_strings :: "string list \<Rightarrow> string" where
  "marshal_strings values = ''['' @ join_strings '','' (map json_string values) @ '']''"

definition command_violates :: "command_start \<Rightarrow> db \<Rightarrow> bool" where
  "command_violates cs d \<longleftrightarrow>
    (\<exists>c \<in> set (commands d). c_run_id c = cs_run_id cs \<and> c_sequence c = cs_sequence cs)"

definition new_command_row :: "int \<Rightarrow> time \<Rightarrow> command_start \<Rightarrow> command_row" where
  "new_command_row i now cs =
    \<lparr>c_id = i, c_run_id = cs_run_id cs, c_sequence = cs_sequence cs, c_name = cs_name cs,
     c_program = cs_program cs, c_args_json = marshal_strings (cs_args cs),
     c_env_json = marshal_strings (cs_env cs), c_working_dir = cs_working_dir cs,
     c_timeout_ns = cs_timeout cs, c_status = CommandRunning, c_exit_code = None,
     c_stdout = [], c_stderr = [], c_error = [], c_started_at = unix_nano now, c_finished_at = None\<rparr>"

text \<open>
  The INSERT selects from \<open>runs\<close>, so it inserts one row exactly when the run is running. It is
  its own transaction: an error of \<open>RowsAffected\<close> or \<open>LastInsertId\<close> leaves it in place.
\<close>

definition start_command :: "engine \<Rightarrow> time \<Rightarrow> command_start \<Rightarrow> db \<Rightarrow> int result \<times> db" where
  "start_command e now cs d =
    (if cs_run_id cs \<le> 0 then (Inl (new_error ''queue: invalid run id''), d)
     else if cs_sequence cs < 0 then (Inl (new_error ''queue: command sequence cannot be negative''), d)
     else if blank (cs_program cs) then (Inl (new_error ''queue: command program is empty''), d)
     else if cs_timeout cs < 0 then (Inl (new_error ''queue: command timeout cannot be negative''), d)
     else
      (let p = (\<lambda>r. r_id r = cs_run_id cs \<and> r_status r = StatusRunning);
           n = rows_affected p (runs d);
           d1 = (if n = 0 then d
                 else d\<lparr>commands := commands d @ [new_command_row (rowid e) now cs],
                        commands_seq := rowid e\<rparr>) in
       case (if n \<noteq> 0 \<and> command_violates cs d then Some (violation e) else reply e (Stmt 1)) of
         Some err \<Rightarrow> (Inl (wrapf ''queue: start command: '' err), d)
       | None \<Rightarrow>
           (on_error (require_one_row e 1 n) (wrapf ''queue: start command: '')
             (on_error (reply e LastInsertId) (wrapf ''queue: get command id: '') (Inr (rowid e))), d1)))"

definition complete_command :: "engine \<Rightarrow> time \<Rightarrow> int \<Rightarrow> command_result \<Rightarrow> db \<Rightarrow> unit result \<times> db" where
  "complete_command e now command_id result d =
    (if command_id \<le> 0 then (Inl (new_error ''queue: invalid command id''), d)
     else if cr_status result \<noteq> CommandSucceeded \<and> cr_status result \<noteq> CommandFailed
       then (Inl (ErrorString [T ''queue: invalid terminal command status '', Q ''RUNNING'']), d)
     else
      (let p = (\<lambda>c. c_id c = command_id \<and> c_status c = CommandRunning);
           d1 = d\<lparr>commands := sql_update p (\<lambda>c. c\<lparr>c_status := cr_status result,
                    c_exit_code := Some (cr_exit_code result), c_stdout := cr_stdout result,
                    c_stderr := cr_stderr result, c_error := cr_error result,
                    c_finished_at := Some (unix_nano now)\<rparr>) (commands d)\<rparr> in
       case reply e (Stmt 1) of
         Some err \<Rightarrow> (Inl (wrapf ''queue: complete command: '' err), d)
       | None \<Rightarrow>
           (on_error (require_one_row e 1 (rows_affected p (commands d)))
             (wrapf ''queue: complete command: '') (Inr ()), d1)))"

section \<open>History\<close>

definition valid_status :: "string \<Rightarrow> bool" where
  "valid_status s \<longleftrightarrow> s = ''QUEUED'' \<or> s = ''RUNNING'' \<or> s = ''SUCCEEDED'' \<or> s = ''FAILED''"

definition count_status :: "status \<Rightarrow> db \<Rightarrow> int" where
  "count_status st d = rows_affected (\<lambda>r. j_status r = st) (jobs d)"

definition counts :: "engine \<Rightarrow> db \<Rightarrow> queue_counts result" where
  "counts e d =
    on_error (reply e (Stmt 1)) (wrapf ''queue: count jobs: '')
      (Inr \<lparr>n_queued = count_status StatusQueued d, n_running = count_status StatusRunning d,
            n_succeeded = count_status StatusSucceeded d, n_failed = count_status StatusFailed d,
            n_total = int (length (jobs d))\<rparr>)"

definition count_jobs :: "engine \<Rightarrow> string \<Rightarrow> db \<Rightarrow> int result" where
  "count_jobs e st d =
    (if st \<noteq> [] \<and> \<not> valid_status st then Inl (ErrorString [T ''queue: invalid job status '', Q st])
     else on_error (reply e (Stmt 1)) (wrapf ''queue: count jobs: '')
       (Inr (rows_affected (\<lambda>r. st = [] \<or> status_text (j_status r) = st) (jobs d))))"

definition default_list_limit :: int where
  "default_list_limit = 100"

definition filter_matches :: "job_filter \<Rightarrow> job_row \<Rightarrow> bool" where
  "filter_matches f r \<longleftrightarrow>
    (f_status f = [] \<or> status_text (j_status r) = f_status f) \<and>
    (f_watch_name f = [] \<or> j_watch_name r = f_watch_name f)"

text \<open>\<open>ORDER BY id DESC LIMIT n OFFSET m\<close>.\<close>

definition list_jobs :: "engine \<Rightarrow> job_filter \<Rightarrow> db \<Rightarrow> job list result" where
  "list_jobs e f d =
    (if f_status f \<noteq> [] \<and> \<not> valid_status (f_status f)
       then Inl (ErrorString [T ''queue: invalid job status '', Q (f_status f)])
     else if f_offset f < 0 then Inl (new_error ''queue: job offset cannot be negative'')
     else
      (let limit = (if f_limit f \<le> 0 then default_list_limit else f_limit f) in
       on_error (reply e (Stmt 1)) (wrapf ''queue: list jobs: '')
         (Inr (map scan_job (take (nat limit) (drop (nat (f_offset f))
            (rev (sort_key j_id (filter (filter_matches f) (jobs d))))))))))"

definition get_job :: "engine \<Rightarrow> int \<Rightarrow> db \<Rightarrow> job result" where
  "get_job e i d =
    on_error (reply e (Stmt 1)) (\<lambda>err. Wrapped [T ''queue: get job '', D i, T '': ''] err [])
      (case select_one (\<lambda>r. j_id r = i) (jobs d) of
         None \<Rightarrow> Inl (Wrapped [T ''queue: get job '', D i, T '': ''] err_not_found [])
       | Some r \<Rightarrow> Inr (scan_job r))"

definition list_runs :: "engine \<Rightarrow> int \<Rightarrow> db \<Rightarrow> run list result" where
  "list_runs e job_id d =
    on_error (reply e (Stmt 1)) (wrapf ''queue: list runs: '')
      (Inr (sort_key (\<lambda>r. (r_attempt r, r_id r)) (filter (\<lambda>r. r_job_id r = job_id) (runs d))))"

definition get_command_output :: "engine \<Rightarrow> int \<Rightarrow> db \<Rightarrow> command_output result" where
  "get_command_output e i d =
    on_error (reply e (Stmt 1)) (\<lambda>err. Wrapped [T ''queue: get command output '', D i, T '': ''] err [])
      (case select_one (\<lambda>c. c_id c = i) (commands d) of
         None \<Rightarrow> Inl (Wrapped [T ''queue: get command output '', D i, T '': ''] err_not_found [])
       | Some c \<Rightarrow> Inr \<lparr>co_id = c_id c, co_run_id = c_run_id c, co_stdout = c_stdout c,
                        co_stderr = c_stderr c\<rparr>)"

end
