(* ===== verification/QueueInv.thy ===== *)
theory QueueInv
  imports QueueStore
begin

text \<open>
  The well-formedness invariant of the queue's tables, its preservation by every operation, and
  the store as a state machine: \<open>store_step\<close> is one call of a \<open>Store\<close> method under any answers
  of the engine, \<open>reachable\<close> the databases a sequence of calls can lead to.
\<close>

section \<open>What each operation does\<close>

lemma in_tx_Inr: "in_tx d r = (Inr x, d') \<longleftrightarrow> r = Inr (x, d')"
  by (auto simp: in_tx_def split: sum.splits)

lemma in_tx_Inl: "in_tx d r = (Inl e, d') \<longleftrightarrow> r = Inl e \<and> d' = d"
  by (auto simp: in_tx_def split: sum.splits)

text \<open>The tables after a call that succeeded.\<close>

definition claimed_db :: "int \<Rightarrow> int \<Rightarrow> job_row \<Rightarrow> db \<Rightarrow> db" where
  "claimed_db i t r d =
    d\<lparr>jobs := sql_update (\<lambda>s. j_id s = j_id r) (mark_claimed t) (jobs d),
      runs := runs d @ [\<lparr>r_id = i, r_job_id = j_id r, r_attempt = j_attempts r + 1,
                         r_status = StatusRunning, r_error = [], r_started_at = t,
                         r_finished_at = None\<rparr>],
      runs_seq := i\<rparr>"

definition finish_run :: "status \<Rightarrow> string \<Rightarrow> int \<Rightarrow> run \<Rightarrow> run" where
  "finish_run st reason t r = r\<lparr>r_status := st, r_error := reason, r_finished_at := Some t\<rparr>"

definition finish_job :: "status \<Rightarrow> int option \<Rightarrow> string \<Rightarrow> int \<Rightarrow> int option \<Rightarrow> job_row \<Rightarrow> job_row" where
  "finish_job st available reason t finished r =
    r\<lparr>j_status := st, j_available_at := (case available of Some a \<Rightarrow> a | None \<Rightarrow> j_available_at r),
      j_last_error := reason, j_updated_at := t, j_finished_at := finished\<rparr>"

lemma finish_run_simps [simp]:
  "r_id (finish_run st m t r) = r_id r" "r_job_id (finish_run st m t r) = r_job_id r"
  "r_attempt (finish_run st m t r) = r_attempt r" "r_status (finish_run st m t r) = st"
  "r_started_at (finish_run st m t r) = r_started_at r"
  "r_error (finish_run st m t r) = m" "r_finished_at (finish_run st m t r) = Some t"
  by (simp_all add: finish_run_def)

lemma finish_job_simps [simp]:
  "j_id (finish_job st a m t f r) = j_id r" "j_watch_name (finish_job st a m t f r) = j_watch_name r"
  "j_path (finish_job st a m t f r) = j_path r"
  "j_fingerprint (finish_job st a m t f r) = j_fingerprint r"
  "j_status (finish_job st a m t f r) = st" "j_attempts (finish_job st a m t f r) = j_attempts r"
  "j_max_retries (finish_job st a m t f r) = j_max_retries r"
  "j_last_error (finish_job st a m t f r) = m"
  "j_finished_at (finish_job st a m t f r) = f"
  by (simp_all add: finish_job_def)

lemma mark_claimed_simps [simp]:
  "j_id (mark_claimed t r) = j_id r" "j_watch_name (mark_claimed t r) = j_watch_name r"
  "j_path (mark_claimed t r) = j_path r" "j_fingerprint (mark_claimed t r) = j_fingerprint r"
  "j_status (mark_claimed t r) = StatusRunning" "j_attempts (mark_claimed t r) = j_attempts r + 1"
  "j_max_retries (mark_claimed t r) = j_max_retries r"
  "j_available_at (mark_claimed t r) = j_available_at r"
  by (simp_all add: mark_claimed_def)

definition succeeded_db :: "int \<Rightarrow> int \<Rightarrow> int \<Rightarrow> db \<Rightarrow> db" where
  "succeeded_db t job_id run_id d =
    d\<lparr>runs := sql_update (running_run job_id run_id) (finish_run StatusSucceeded [] t) (runs d),
      jobs := sql_update (running_job job_id) (finish_job StatusSucceeded None [] t (Some t)) (jobs d)\<rparr>"

definition failed_db :: "time \<Rightarrow> int \<Rightarrow> int \<Rightarrow> string \<Rightarrow> duration \<Rightarrow> job_row \<Rightarrow> db \<Rightarrow> db" where
  "failed_db now job_id run_id reason delay j d =
    (let t = unix_nano now; retry = j_attempts j \<le> j_max_retries j in
     d\<lparr>commands := fail_commands (\<lambda>c. c_run_id c = run_id) reason t (commands d),
       runs := sql_update (running_run job_id run_id) (finish_run StatusFailed reason t) (runs d),
       jobs := sql_update (running_job job_id)
         (finish_job (if retry then StatusQueued else StatusFailed)
           (Some (unix_nano (if retry then now + max 0 delay else now)))
           reason t (if retry then None else Some t)) (jobs d)\<rparr>)"

definition recovered_db :: "int \<Rightarrow> db \<Rightarrow> db" where
  "recovered_db t d =
    d\<lparr>commands := fail_commands (\<lambda>_. True) recovery_reason t (commands d),
      runs := sql_update (\<lambda>r. r_status r = StatusRunning) (finish_run StatusFailed recovery_reason t) (runs d),
      jobs := sql_update (\<lambda>r. j_status r = StatusRunning)
        (finish_job StatusQueued (Some t) recovery_reason t None) (jobs d)\<rparr>"

lemma claim_error: "claim e now d = (Inl err, d') \<Longrightarrow> d' = d"
  by (simp add: claim_def in_tx_Inl)

lemma claim_ok:
  assumes "claim e now d = (Inr j, d')"
  obtains r where "oldest_eligible (unix_nano now) d = Some r"
    and "d' = claimed_db (rowid e) (unix_nano now) r d"
    and "j = (scan_job (mark_claimed (unix_nano now) r))\<lparr>j_run_id := rowid e, j_attempt := j_attempts r + 1\<rparr>"
proof (cases "oldest_eligible (unix_nano now) d")
  case None
  with assms show ?thesis by (simp add: claim_def in_tx_Inr Let_def)
next
  case (Some r)
  with assms that[of r] show ?thesis
    by (auto simp: claim_def in_tx_Inr Let_def claimed_db_def split: if_splits)
qed

lemma succeed_error: "succeed e now i k d = (Inl err, d') \<Longrightarrow> d' = d"
  by (simp add: succeed_def in_tx_Inl split: if_splits)

lemma require_one_row_None: "require_one_row e n c = None \<Longrightarrow> c = 1"
  by (auto simp: require_one_row_def split: option.splits if_splits)

lemma succeed_ok:
  assumes "succeed e now job_id run_id d = (Inr (), d')"
  shows "d' = succeeded_db (unix_nano now) job_id run_id d"
    and "rows_affected (running_run job_id run_id) (runs d) = 1"
    and "rows_affected (running_job job_id) (jobs d) = 1"
    and "0 < job_id" and "0 < run_id"
  using assms
  by (auto simp: succeed_def in_tx_Inr Let_def succeeded_db_def finish_run_def[abs_def]
      finish_job_def[abs_def] split: if_splits dest!: require_one_row_None)

lemma fail_error: "fail e now i k m delay d = (Inl err, d') \<Longrightarrow> d' = d"
  by (simp add: fail_def in_tx_Inl split: if_splits)

lemma fail_ok:
  assumes "fail e now job_id run_id reason delay d = (Inr st, d')"
  obtains j where "select_one (running_job job_id) (jobs d) = Some j"
    and "d' = failed_db now job_id run_id reason delay j d"
    and "st = (if j_attempts j \<le> j_max_retries j then StatusQueued else StatusFailed)"
    and "rows_affected (running_run job_id run_id) (runs d) = 1"
    and "0 < job_id" and "0 < run_id"
proof (cases "select_one (running_job job_id) (jobs d)")
  case None
  with assms show ?thesis by (simp add: fail_def in_tx_Inr Let_def split: if_splits)
next
  case (Some j)
  have d: "(if delay < 0 then 0 else delay) = max 0 delay" by auto
  from Some assms have "d' = failed_db now job_id run_id reason delay j d"
    by (cases "j_attempts j \<le> j_max_retries j")
      (simp_all add: fail_def in_tx_Inr Let_def failed_db_def finish_run_def[abs_def]
        finish_job_def[abs_def] d split: if_splits)
  moreover from Some assms have "st = (if j_attempts j \<le> j_max_retries j then StatusQueued else StatusFailed)"
    "rows_affected (running_run job_id run_id) (runs d) = 1" "0 < job_id" "0 < run_id"
    by (auto simp: fail_def in_tx_Inr Let_def split: if_splits dest!: require_one_row_None)
  ultimately show ?thesis using Some that by blast
qed

lemma recover_error: "recover_running e now d = (Inl err, d') \<Longrightarrow> d' = d"
  by (simp add: recover_running_def in_tx_Inl)

lemma recover_ok:
  assumes "recover_running e now d = (Inr n, d')"
  shows "d' = recovered_db (unix_nano now) d"
    and "n = rows_affected (\<lambda>r. j_status r = StatusRunning) (jobs d)"
  using assms
  by (auto simp: recover_running_def in_tx_Inr Let_def recovered_db_def finish_run_def[abs_def]
      finish_job_def[abs_def])

lemma enqueue_cases:
  obtains "snd (enqueue e now p d) = d"
  | "select_one (same_key p) (jobs d) = None" and "0 \<le> p_max_retries p"
    and "enqueue e now p d = (Inr (scan_job (new_job_row (rowid e) now p), True),
           d\<lparr>jobs := jobs d @ [new_job_row (rowid e) now p], jobs_seq := rowid e\<rparr>)"
proof (cases "snd (enqueue e now p d) = d")
  case True
  then show ?thesis by (rule that(1))
next
  case False
  then have "select_one (same_key p) (jobs d) = None" "0 \<le> p_max_retries p"
    by (auto simp: enqueue_def Let_def split: option.splits if_splits)
  moreover from False have "enqueue e now p d = (Inr (scan_job (new_job_row (rowid e) now p), True),
           d\<lparr>jobs := jobs d @ [new_job_row (rowid e) now p], jobs_seq := rowid e\<rparr>)"
    by (auto simp: enqueue_def Let_def split: option.splits if_splits)
  ultimately show ?thesis by (rule that(2))
qed

lemma start_command_cases:
  obtains "snd (start_command e now cs d) = d"
  | "\<not> command_violates cs d"
    and "\<exists>r \<in> set (runs d). r_id r = cs_run_id cs \<and> r_status r = StatusRunning"
    and "snd (start_command e now cs d) =
           d\<lparr>commands := commands d @ [new_command_row (rowid e) now cs], commands_seq := rowid e\<rparr>"
proof (cases "snd (start_command e now cs d) = d")
  case True
  then show ?thesis by (rule that(1))
next
  case False
  then have "\<not> command_violates cs d"
    and "\<exists>r \<in> set (runs d). r_id r = cs_run_id cs \<and> r_status r = StatusRunning"
    and "snd (start_command e now cs d) =
           d\<lparr>commands := commands d @ [new_command_row (rowid e) now cs], commands_seq := rowid e\<rparr>"
    by (auto simp: start_command_def Let_def rows_affected_zero split: option.splits if_splits)
  then show ?thesis by (rule that(2))
qed

lemma complete_command_cases:
  obtains "snd (complete_command e now i res d) = d"
  | f where "snd (complete_command e now i res d) =
       d\<lparr>commands := sql_update (\<lambda>c. c_id c = i \<and> c_status c = CommandRunning) f (commands d)\<rparr>"
    and "\<And>c. c_id (f c) = c_id c \<and> c_run_id (f c) = c_run_id c \<and> c_sequence (f c) = c_sequence c"
    and "\<And>c. c_args_json (f c) = c_args_json c \<and> c_env_json (f c) = c_env_json c"
    and "\<And>c. c_program (f c) = c_program c"
proof (cases "snd (complete_command e now i res d) = d")
  case True
  then show ?thesis by (rule that(1))
next
  case False
  then show ?thesis
    by (intro that(2)[of "\<lambda>c. c\<lparr>c_status := cr_status res,
                    c_exit_code := Some (cr_exit_code res), c_stdout := cr_stdout res,
                    c_stderr := cr_stderr res, c_error := cr_error res,
                    c_finished_at := Some (unix_nano now)\<rparr>"])
      (auto simp: complete_command_def Let_def split: option.splits if_splits)
qed

end
