(* ===== verification/QueueSafety.thy ===== *)
theory QueueSafety
  imports QueueInv
begin

text \<open>
  The invariant of the queue's tables and its preservation by every operation; the store as a
  state machine and its reachable databases.
\<close>

section \<open>The invariant\<close>

definition job_key :: "job_row \<Rightarrow> string \<times> string \<times> string" where
  "job_key r = (j_watch_name r, j_path r, j_fingerprint r)"

definition runs_of :: "int \<Rightarrow> db \<Rightarrow> run list" where
  "runs_of i d = filter (\<lambda>r. r_job_id r = i) (runs d)"

text \<open>Row ids are unique, positive and at most the last one handed out.\<close>

definition ids_ok :: "int list \<Rightarrow> int \<Rightarrow> bool" where
  "ids_ok ids s \<longleftrightarrow> distinct ids \<and> 0 \<le> s \<and> (\<forall>i \<in> set ids. 0 < i \<and> i \<le> s)"

definition jobs_ok :: "db \<Rightarrow> bool" where
  "jobs_ok d \<longleftrightarrow> ids_ok (map j_id (jobs d)) (jobs_seq d) \<and> distinct (map job_key (jobs d)) \<and>
    (\<forall>r \<in> set (jobs d). 0 \<le> j_max_retries r \<and> j_attempts r = int (length (runs_of (j_id r) d)))"

text \<open>
  The runs of a job are numbered 1 to its attempts, and a job is \<open>RUNNING\<close> exactly when its
  last run is: the run that the claiming worker holds.
\<close>

definition run_fits :: "run \<Rightarrow> job_row \<Rightarrow> bool" where
  "run_fits r j \<longleftrightarrow> j_id j = r_job_id r \<and> 1 \<le> r_attempt r \<and> r_attempt r \<le> j_attempts j \<and>
    (r_status r = StatusRunning \<longrightarrow> j_status j = StatusRunning \<and> r_attempt r = j_attempts j)"

definition holds_run :: "job_row \<Rightarrow> run \<Rightarrow> bool" where
  "holds_run j r \<longleftrightarrow> r_job_id r = j_id j \<and> r_attempt r = j_attempts j \<and> r_status r = StatusRunning"

definition runs_ok :: "db \<Rightarrow> bool" where
  "runs_ok d \<longleftrightarrow> ids_ok (map r_id (runs d)) (runs_seq d) \<and>
    distinct (map (\<lambda>r. (r_job_id r, r_attempt r)) (runs d)) \<and>
    (\<forall>r \<in> set (runs d). r_status r \<noteq> StatusQueued \<and> (\<exists>j \<in> set (jobs d). run_fits r j)) \<and>
    (\<forall>j \<in> set (jobs d). j_status j = StatusRunning \<longrightarrow> (\<exists>r \<in> set (runs d). holds_run j r))"

definition commands_ok :: "db \<Rightarrow> bool" where
  "commands_ok d \<longleftrightarrow> ids_ok (map c_id (commands d)) (commands_seq d) \<and>
    distinct (map (\<lambda>c. (c_run_id c, c_sequence c)) (commands d)) \<and>
    c_run_id ` set (commands d) \<subseteq> r_id ` set (runs d)"

definition queue_inv :: "db \<Rightarrow> bool" where
  "queue_inv d \<longleftrightarrow> jobs_ok d \<and> runs_ok d \<and> commands_ok d"

lemma ids_ok_append: "ids_ok ids s \<Longrightarrow> s < i \<Longrightarrow> ids_ok (ids @ [i]) i"
  by (fastforce simp: ids_ok_def)

lemma ids_ok_fresh: "ids_ok ids s \<Longrightarrow> s < i \<Longrightarrow> i \<notin> set ids"
  by (auto simp: ids_ok_def)

lemma queue_inv_empty: "queue_inv empty_db"
  by (simp add: queue_inv_def jobs_ok_def runs_ok_def commands_ok_def ids_ok_def empty_db_def)

lemma jobs_ok_distinct: "jobs_ok d \<Longrightarrow> distinct (map j_id (jobs d))"
  by (simp add: jobs_ok_def ids_ok_def)

lemma runs_ok_distinct: "runs_ok d \<Longrightarrow> distinct (map r_id (runs d))"
  by (simp add: runs_ok_def ids_ok_def)

lemma jobs_ok_inj: "jobs_ok d \<Longrightarrow> a \<in> set (jobs d) \<Longrightarrow> b \<in> set (jobs d) \<Longrightarrow> j_id a = j_id b \<Longrightarrow> a = b"
  by (rule distinct_map_inj[OF jobs_ok_distinct])

lemma runs_ok_job:
  assumes "queue_inv d" and "r \<in> set (runs d)" and "j \<in> set (jobs d)" and "j_id j = r_job_id r"
  shows "run_fits r j"
  using assms by (metis jobs_ok_inj queue_inv_def run_fits_def runs_ok_def)

lemma job_row_inv:
  "queue_inv d \<Longrightarrow> r \<in> set (jobs d) \<Longrightarrow>
    0 \<le> j_max_retries r \<and> j_attempts r = int (length (runs_of (j_id r) d))"
  by (simp add: queue_inv_def jobs_ok_def)

lemma run_row_inv:
  assumes "queue_inv d" and "r \<in> set (runs d)"
  obtains j where "j \<in> set (jobs d)" and "run_fits r j" and "r_status r \<noteq> StatusQueued"
  using assms unfolding queue_inv_def runs_ok_def by blast

lemma running_job_inv:
  assumes "queue_inv d" and "j \<in> set (jobs d)" and "j_status j = StatusRunning"
  obtains r where "r \<in> set (runs d)" and "holds_run j r"
  using assms unfolding queue_inv_def runs_ok_def by blast

section \<open>Preservation\<close>

lemma runs_of_update:
  assumes "\<And>r. p r \<Longrightarrow> r_job_id (f r) = r_job_id r"
  shows "length (filter (\<lambda>r. r_job_id r = i) (sql_update p f rows)) =
         length (filter (\<lambda>r. r_job_id r = i) rows)"
  using assms by (induction rows) auto

text \<open>Commands changed in place keep their part of the invariant.\<close>

lemma commands_update_inv:
  assumes "queue_inv d"
    and "\<And>c. c_id (f c) = c_id c \<and> c_run_id (f c) = c_run_id c \<and> c_sequence (f c) = c_sequence c"
  shows "queue_inv (d\<lparr>commands := sql_update p f (commands d)\<rparr>)"
proof -
  have "map c_id (sql_update p f (commands d)) = map c_id (commands d)"
    and "map (\<lambda>c. (c_run_id c, c_sequence c)) (sql_update p f (commands d)) =
         map (\<lambda>c. (c_run_id c, c_sequence c)) (commands d)"
    and runs: "map c_run_id (sql_update p f (commands d)) = map c_run_id (commands d)"
    using assms(2) by (auto intro: map_sql_update)
  moreover from runs have "c_run_id ` set (sql_update p f (commands d)) = c_run_id ` set (commands d)"
    by (metis list.set_map)
  ultimately show ?thesis
    using assms(1)
    by (simp add: queue_inv_def jobs_ok_def runs_ok_def commands_ok_def runs_of_def)
qed

lemma fail_commands_inv:
  "queue_inv d \<Longrightarrow> queue_inv (d\<lparr>commands := fail_commands p m t (commands d)\<rparr>)"
  unfolding fail_commands_def by (rule commands_update_inv) auto

text \<open>
  Runs and jobs changed in place: keys are kept, and the new rows still fit each other.
\<close>

lemma runs_jobs_update_inv:
  assumes inv: "queue_inv d"
    and f: "\<And>r. r_id (f r) = r_id r \<and> r_job_id (f r) = r_job_id r \<and> r_attempt (f r) = r_attempt r \<and>
                r_status (f r) \<noteq> StatusQueued"
    and g: "\<And>j. j_id (g j) = j_id j \<and> job_key (g j) = job_key j \<and> j_attempts (g j) = j_attempts j \<and>
                j_max_retries (g j) = j_max_retries j"
    and fits: "\<And>r j. r \<in> set (runs d) \<Longrightarrow> j \<in> set (jobs d) \<Longrightarrow> run_fits r j \<Longrightarrow>
                run_fits (if p r then f r else r) (if q j then g j else j)"
    and holds: "\<And>j. j \<in> set (jobs d) \<Longrightarrow> j_status (if q j then g j else j) = StatusRunning \<Longrightarrow>
                \<exists>r \<in> set (runs d). holds_run (if q j then g j else j) (if p r then f r else r)"
  shows "queue_inv (d\<lparr>runs := sql_update p f (runs d), jobs := sql_update q g (jobs d)\<rparr>)"
proof -
  let ?d = "d\<lparr>runs := sql_update p f (runs d), jobs := sql_update q g (jobs d)\<rparr>"
  have runs_maps: "map r_id (runs ?d) = map r_id (runs d)"
    "map (\<lambda>r. (r_job_id r, r_attempt r)) (runs ?d) = map (\<lambda>r. (r_job_id r, r_attempt r)) (runs d)"
    using f by (auto intro: map_sql_update)
  have jobs_maps: "map j_id (jobs ?d) = map j_id (jobs d)" "map job_key (jobs ?d) = map job_key (jobs d)"
    using g by (auto intro: map_sql_update)
  have runs_of: "length (runs_of i ?d) = length (runs_of i d)" for i
    using f by (simp add: runs_of_def runs_of_update)
  have row: "0 \<le> j_max_retries j \<and> j_attempts j = int (length (runs_of (j_id j) ?d))"
    if "j \<in> set (jobs ?d)" for j
  proof -
    from that obtain j0 where "j0 \<in> set (jobs d)" "j = (if q j0 then g j0 else j0)"
      by (auto simp: set_sql_update)
    with inv g[of j0] show ?thesis by (simp add: runs_of queue_inv_def jobs_ok_def)
  qed
  have "jobs_ok ?d"
    using inv row jobs_maps by (simp add: queue_inv_def jobs_ok_def)
  moreover have "r_id ` set (runs ?d) = r_id ` set (runs d)"
    using runs_maps(1) by (metis list.set_map)
  then have "commands_ok ?d"
    using inv by (simp add: queue_inv_def commands_ok_def)
  moreover have "\<exists>j \<in> set (jobs ?d). run_fits r j" "r_status r \<noteq> StatusQueued"
    if r: "r \<in> set (runs ?d)" for r
  proof -
    from r obtain r0 where r0: "r0 \<in> set (runs d)" "r = (if p r0 then f r0 else r0)"
      by (auto simp: set_sql_update)
    with inv obtain j where "j \<in> set (jobs d)" "run_fits r0 j" "r_status r0 \<noteq> StatusQueued"
      by (auto simp: queue_inv_def runs_ok_def)
    with fits[of r0 j] r0 have "run_fits r (if q j then g j else j)" by simp
    moreover have "(if q j then g j else j) \<in> set (jobs ?d)"
      using \<open>j \<in> set (jobs d)\<close> by (simp add: in_sql_updateI)
    ultimately show "\<exists>j \<in> set (jobs ?d). run_fits r j" by blast
    show "r_status r \<noteq> StatusQueued"
      using r0 f[of r0] \<open>r_status r0 \<noteq> StatusQueued\<close> by simp
  qed
  moreover have "\<exists>r \<in> set (runs ?d). holds_run j r"
    if j: "j \<in> set (jobs ?d)" "j_status j = StatusRunning" for j
  proof -
    from j(1) obtain j0 where "j0 \<in> set (jobs d)" "j = (if q j0 then g j0 else j0)"
      by (auto simp: set_sql_update)
    with holds[of j0] j(2) obtain r where "r \<in> set (runs d)" "holds_run j (if p r then f r else r)"
      by auto
    moreover from this have "(if p r then f r else r) \<in> set (runs ?d)"
      by (simp add: in_sql_updateI)
    ultimately show ?thesis by blast
  qed
  ultimately show ?thesis
    using inv runs_maps by (simp add: queue_inv_def runs_ok_def)
qed


lemma enqueue_inv:
  assumes "queue_inv d" and "jobs_seq d < rowid e"
  shows "queue_inv (snd (enqueue e now p d))"
proof (cases rule: enqueue_cases[of e now p d])
  case 1
  with assms show ?thesis by simp
next
  case 2
  let ?r = "new_job_row (rowid e) now p"
  have new: "j_id ?r = rowid e" "job_key ?r = (p_watch_name p, p_path p, p_fingerprint p)"
    "j_status ?r = StatusQueued" "j_attempts ?r = 0" "j_max_retries ?r = p_max_retries p"
    by (simp_all add: new_job_row_def job_key_def)
  have fresh_id: "rowid e \<notin> set (map j_id (jobs d))"
    using assms by (intro ids_ok_fresh) (auto simp: queue_inv_def jobs_ok_def)
  have no_runs: "filter (\<lambda>r. r_job_id r = rowid e) (runs d) = []"
  proof -
    have "r_job_id r \<in> set (map j_id (jobs d))" if "r \<in> set (runs d)" for r
      using assms(1) that by (rule run_row_inv) (force simp: run_fits_def)
    with fresh_id show ?thesis by (metis (mono_tags, lifting) filter_False)
  qed
  have key: "job_key ?r \<notin> job_key ` set (jobs d)"
    using 2(1) by (auto simp: select_one_None same_key_def job_key_def new_job_row_def)
  have "jobs_ok (d\<lparr>jobs := jobs d @ [?r], jobs_seq := rowid e\<rparr>)"
    using assms no_runs key 2(2) new
    by (auto simp: queue_inv_def jobs_ok_def runs_of_def ids_ok_append)
  moreover have "runs_ok (d\<lparr>jobs := jobs d @ [?r], jobs_seq := rowid e\<rparr>)"
    using assms(1) new by (auto simp: queue_inv_def runs_ok_def)
  ultimately show ?thesis
    using assms(1) 2(3) by (simp add: queue_inv_def commands_ok_def)
qed

lemma claim_inv:
  assumes inv: "queue_inv d" and fresh: "runs_seq d < rowid e"
  shows "queue_inv (snd (claim e now d))"
proof (cases "claim e now d")
  case (Pair res d')
  show ?thesis
  proof (cases res)
    case (Inl err)
    with Pair inv show ?thesis using claim_error by fastforce
  next
    case (Inr j)
    with Pair obtain r where r: "oldest_eligible (unix_nano now) d = Some r"
      and d': "d' = claimed_db (rowid e) (unix_nano now) r d"
      using claim_ok by metis
    let ?t = "unix_nano now"
    let ?run = "\<lparr>r_id = rowid e, r_job_id = j_id r, r_attempt = j_attempts r + 1,
                 r_status = StatusRunning, r_error = [], r_started_at = ?t, r_finished_at = None\<rparr>"
    have mem: "r \<in> set (jobs d)" and queued: "j_status r = StatusQueued"
      using select_first_Some(1,2)[OF r[unfolded oldest_eligible_def]] by (auto simp: eligible_def)
    have jobs': "s \<in> set (jobs d') \<longleftrightarrow> s = mark_claimed ?t r \<or> (s \<in> set (jobs d) \<and> j_id s \<noteq> j_id r)" for s
      using mem inv by (auto simp: d' claimed_db_def set_sql_update queue_inv_def dest: jobs_ok_inj)
    have runs': "runs d' = runs d @ [?run]" and "runs_seq d' = rowid e"
      by (simp_all add: d' claimed_db_def)
    have commands': "commands d' = commands d" "commands_seq d' = commands_seq d" "jobs_seq d' = jobs_seq d"
      by (simp_all add: d' claimed_db_def)
    have fits: "run_fits s r \<and> r_status s \<noteq> StatusRunning"
      if "s \<in> set (runs d)" "r_job_id s = j_id r" for s
      using runs_ok_job[OF inv that(1) mem] that queued by (auto simp: run_fits_def)
    have jobs_maps: "map j_id (jobs d') = map j_id (jobs d)" "map job_key (jobs d') = map job_key (jobs d)"
      by (auto simp: d' claimed_db_def job_key_def intro!: map_sql_update)
    have row: "0 \<le> j_max_retries s \<and> j_attempts s = int (length (runs_of (j_id s) d'))"
      if "s \<in> set (jobs d')" for s
    proof (cases "s = mark_claimed ?t r")
      case True
      with job_row_inv[OF inv mem] show ?thesis by (simp add: runs_of_def runs')
    next
      case False
      with that jobs' have "s \<in> set (jobs d)" "j_id s \<noteq> j_id r" by auto
      with job_row_inv[OF inv this(1)] show ?thesis by (simp add: runs_of_def runs')
    qed
    have "jobs_ok d'"
      using inv jobs_maps row commands'(3) unfolding queue_inv_def jobs_ok_def by metis
    moreover have "commands_ok d'"
      using inv commands' runs' by (auto simp: queue_inv_def commands_ok_def)
    moreover have "ids_ok (map r_id (runs d')) (runs_seq d')"
      using inv ids_ok_append[OF _ fresh] runs' \<open>runs_seq d' = rowid e\<close>
      by (simp add: queue_inv_def runs_ok_def)
    moreover have "distinct (map (\<lambda>r. (r_job_id r, r_attempt r)) (runs d'))"
      using inv runs' fits by (fastforce simp: queue_inv_def runs_ok_def run_fits_def)
    moreover have "r_status s \<noteq> StatusQueued \<and> (\<exists>j \<in> set (jobs d'). run_fits s j)"
      if s: "s \<in> set (runs d')" for s
    proof (cases "r_job_id s = j_id r")
      case True
      have "run_fits s (mark_claimed ?t r)" and "r_status s \<noteq> StatusQueued"
        using s runs' fits[of s] True job_row_inv[OF inv mem]
        by (auto simp: run_fits_def elim: run_row_inv[OF inv])
      then show ?thesis using jobs' by blast
    next
      case False
      with s runs' have "s \<in> set (runs d)" by auto
      with inv obtain j where "j \<in> set (jobs d)" "run_fits s j" "r_status s \<noteq> StatusQueued"
        by (rule run_row_inv)
      with False jobs' show ?thesis by (auto simp: run_fits_def)
    qed
    moreover have "\<exists>s \<in> set (runs d'). holds_run j s"
      if "j \<in> set (jobs d')" "j_status j = StatusRunning" for j
    proof (cases "j = mark_claimed ?t r")
      case True
      then show ?thesis by (auto simp: runs' holds_run_def)
    next
      case False
      with that jobs' have "j \<in> set (jobs d)" by auto
      from inv this that(2) obtain s where "s \<in> set (runs d)" "holds_run j s" by (rule running_job_inv)
      then show ?thesis by (auto simp: runs')
    qed
    ultimately have "queue_inv d'" by (simp add: queue_inv_def runs_ok_def)
    with Pair show ?thesis by simp
  qed
qed

lemma start_command_inv:
  assumes "queue_inv d" and "commands_seq d < rowid e"
  shows "queue_inv (snd (start_command e now cs d))"
proof (cases rule: start_command_cases[of e now cs d])
  case 1
  with assms show ?thesis by simp
next
  case 2
  let ?c = "new_command_row (rowid e) now cs"
  have "c_id ?c = rowid e" "c_run_id ?c = cs_run_id cs" "c_sequence ?c = cs_sequence cs"
    by (simp_all add: new_command_row_def)
  moreover have "cs_run_id cs \<in> r_id ` set (runs d)" using 2(2) by force
  ultimately have "commands_ok (d\<lparr>commands := commands d @ [?c], commands_seq := rowid e\<rparr>)"
    using 2(1) assms by (auto simp: queue_inv_def commands_ok_def ids_ok_append command_violates_def)
  with assms(1) 2(3) show ?thesis
    by (simp add: queue_inv_def jobs_ok_def runs_ok_def runs_of_def)
qed

lemma complete_command_inv:
  assumes "queue_inv d"
  shows "queue_inv (snd (complete_command e now i res d))"
proof (cases rule: complete_command_cases[of e now i res d])
  case 1
  with assms show ?thesis by simp
next
  case (2 f)
  with commands_update_inv[OF assms, of f] show ?thesis by simp
qed


text \<open>
  Ending one run and its job: the run was running, so by the invariant it is the job's last run,
  and the job was running because of it alone.
\<close>

lemma end_run_inv:
  assumes inv: "queue_inv d"
    and rows: "rows_affected (running_run job_id run_id) (runs d) = 1"
    and st: "st = StatusSucceeded \<or> st = StatusFailed" and st': "st' \<noteq> StatusRunning"
  shows "queue_inv (d\<lparr>runs := sql_update (running_run job_id run_id) (finish_run st m t) (runs d),
                      jobs := sql_update (running_job job_id) (finish_job st' a m' t' fin) (jobs d)\<rparr>)"
proof (rule runs_jobs_update_inv[OF inv])
  from rows have "\<exists>r \<in> set (runs d). running_run job_id run_id r"
    using rows_affected_zero[of "running_run job_id run_id" "runs d"] by auto
  then obtain k where k: "k \<in> set (runs d)" "running_run job_id run_id k" by blast
  fix r j
  assume r: "r \<in> set (runs d)" and j: "j \<in> set (jobs d)" and fit: "run_fits r j"
  have "r = k" if "r_job_id r = job_id" "r_status r = StatusRunning"
  proof -
    from inv k(1) obtain j' where "j' \<in> set (jobs d)" "run_fits k j'" by (rule run_row_inv)
    moreover from this that(1) k(2) fit have "j_id j' = j_id j"
      by (simp add: run_fits_def running_run_def)
    with inv j \<open>j' \<in> set (jobs d)\<close> have "j' = j"
      by (intro jobs_ok_inj[of d]) (simp_all add: queue_inv_def)
    ultimately have "(r_job_id r, r_attempt r) = (r_job_id k, r_attempt k)"
      using that k(2) fit by (simp add: run_fits_def running_run_def)
    moreover from inv have "distinct (map (\<lambda>r. (r_job_id r, r_attempt r)) (runs d))"
      by (simp add: queue_inv_def runs_ok_def)
    ultimately show "r = k"
      using distinct_map_inj[OF _ r k(1), of "\<lambda>r. (r_job_id r, r_attempt r)"] by simp
  qed
  then have only: "running_run job_id run_id r"
    if "r_job_id r = job_id" "r_status r = StatusRunning" using that k(2) by simp
  show "run_fits (if running_run job_id run_id r then finish_run st m t r else r)
          (if running_job job_id j then finish_job st' a m' t' fin j else j)"
  proof (cases "running_run job_id run_id r")
    case True
    with st show ?thesis using fit by (cases "running_job job_id j") (auto simp: run_fits_def)
  next
    case False
    with only fit show ?thesis by (cases "running_job job_id j") (auto simp: run_fits_def running_job_def)
  qed
next
  fix j
  assume j: "j \<in> set (jobs d)"
    and running: "j_status (if running_job job_id j then finish_job st' a m' t' fin j else j) = StatusRunning"
  with st' have nj: "\<not> running_job job_id j" and "j_status j = StatusRunning" by (auto split: if_splits)
  from inv j \<open>j_status j = StatusRunning\<close> obtain r where r: "r \<in> set (runs d)" "holds_run j r"
    by (rule running_job_inv)
  with nj \<open>j_status j = StatusRunning\<close> have "\<not> running_run job_id run_id r"
    by (auto simp: running_run_def running_job_def holds_run_def)
  with nj r have "holds_run (if running_job job_id j then finish_job st' a m' t' fin j else j)
      (if running_run job_id run_id r then finish_run st m t r else r)" by simp
  with r(1) show "\<exists>r \<in> set (runs d). holds_run (if running_job job_id j then finish_job st' a m' t' fin j else j)
      (if running_run job_id run_id r then finish_run st m t r else r)" by blast
qed (use st in \<open>auto simp: job_key_def\<close>)

lemma succeed_inv:
  assumes inv: "queue_inv d"
  shows "queue_inv (snd (succeed e now i k d))"
proof (cases "succeed e now i k d")
  case (Pair res d')
  show ?thesis
  proof (cases res)
    case (Inl err)
    with Pair inv show ?thesis using succeed_error by fastforce
  next
    case (Inr u)
    with Pair have ok: "succeed e now i k d = (Inr (), d')" by simp
    show ?thesis
      using end_run_inv[OF inv succeed_ok(2)[OF ok]] succeed_ok(1)[OF ok] Pair
      by (simp add: succeeded_db_def)
  qed
qed

lemma fail_inv:
  assumes inv: "queue_inv d"
  shows "queue_inv (snd (fail e now i k m delay d))"
proof (cases "fail e now i k m delay d")
  case (Pair res d')
  show ?thesis
  proof (cases res)
    case (Inl err)
    with Pair inv show ?thesis using fail_error by fastforce
  next
    case (Inr st)
    with Pair obtain j where d': "d' = failed_db now i k m delay j d"
      and rows: "rows_affected (running_run i k) (runs d) = 1"
      using fail_ok by metis
    let ?d = "d\<lparr>commands := fail_commands (\<lambda>c. c_run_id c = k) m (unix_nano now) (commands d)\<rparr>"
    have "queue_inv ?d" using inv by (rule fail_commands_inv)
    from end_run_inv[OF this, of i k StatusFailed] rows Pair show ?thesis
      by (simp add: d' failed_db_def Let_def)
  qed
qed

lemma recovered_inv:
  assumes inv: "queue_inv d"
  shows "queue_inv (recovered_db t d)"
proof -
  let ?d = "d\<lparr>commands := fail_commands (\<lambda>_. True) recovery_reason t (commands d)\<rparr>"
  have "queue_inv (?d\<lparr>runs := sql_update (\<lambda>r. r_status r = StatusRunning)
      (finish_run StatusFailed recovery_reason t) (runs ?d),
    jobs := sql_update (\<lambda>r. j_status r = StatusRunning)
      (finish_job StatusQueued (Some t) recovery_reason t None) (jobs ?d)\<rparr>)"
    by (rule runs_jobs_update_inv[OF fail_commands_inv[OF inv]])
      (auto simp: job_key_def run_fits_def split: if_splits)
  then show ?thesis by (simp add: recovered_db_def)
qed

lemma recover_inv:
  assumes inv: "queue_inv d"
  shows "queue_inv (snd (recover_running e now d))"
proof (cases "recover_running e now d")
  case (Pair res d')
  with inv show ?thesis
    by (cases res) (auto dest: recover_error recover_ok simp: recovered_inv)
qed

section \<open>The store as a state machine\<close>

datatype store_call =
    Enqueue enqueue_params
  | Claim
  | StartCommand command_start
  | CompleteCommand int command_result
  | Succeed int int
  | Fail int int string duration
  | RecoverRunning

definition store_exec :: "engine \<Rightarrow> time \<Rightarrow> store_call \<Rightarrow> db \<Rightarrow> db" where
  "store_exec e now c d =
    (case c of
       Enqueue p \<Rightarrow> snd (enqueue e now p d)
     | Claim \<Rightarrow> snd (claim e now d)
     | StartCommand cs \<Rightarrow> snd (start_command e now cs d)
     | CompleteCommand i res \<Rightarrow> snd (complete_command e now i res d)
     | Succeed i k \<Rightarrow> snd (succeed e now i k d)
     | Fail i k m delay \<Rightarrow> snd (fail e now i k m delay d)
     | RecoverRunning \<Rightarrow> snd (recover_running e now d))"

text \<open>AUTOINCREMENT: a row id larger than any that was ever used in the table.\<close>

definition fresh_rowid :: "engine \<Rightarrow> db \<Rightarrow> bool" where
  "fresh_rowid e d \<longleftrightarrow> jobs_seq d < rowid e \<and> runs_seq d < rowid e \<and> commands_seq d < rowid e"

inductive store_step :: "db \<Rightarrow> store_call \<Rightarrow> db \<Rightarrow> bool" where
  call: "fresh_rowid e d \<Longrightarrow> store_step d c (store_exec e now c d)"

inductive_cases store_stepE: "store_step d c d'"

inductive store_steps :: "db \<Rightarrow> store_call list \<Rightarrow> db \<Rightarrow> bool" where
  none: "store_steps d [] d"
| step: "store_step d c d' \<Longrightarrow> store_steps d' cs d'' \<Longrightarrow> store_steps d (c # cs) d''"

inductive_cases store_steps_NilE: "store_steps d [] d'"
inductive_cases store_steps_ConsE: "store_steps d (c # cs) d'"

definition reachable :: "db \<Rightarrow> bool" where
  "reachable d \<longleftrightarrow> (\<exists>cs. store_steps empty_db cs d)"

lemma store_step_inv: "store_step d c d' \<Longrightarrow> queue_inv d \<Longrightarrow> queue_inv d'"
  by (erule store_stepE)
    (auto simp: store_exec_def fresh_rowid_def enqueue_inv claim_inv start_command_inv
      complete_command_inv succeed_inv fail_inv recover_inv split: store_call.split)

lemma store_steps_inv: "store_steps d cs d' \<Longrightarrow> queue_inv d \<Longrightarrow> queue_inv d'"
  by (induction rule: store_steps.induct) (auto intro: store_step_inv)

end
