(* ===== verification/QueueLife.thy ===== *)
theory QueueLife
  imports QueueSafety
begin

text \<open>
  The life of one job and of one run as a state machine on its row, and the proof that every call
  of the store moves every row along it: the refinement the temporal properties of the queue rest
  on. Rows are never deleted, and a row in a terminal state never changes again.
\<close>

section \<open>The life of a row\<close>

inductive job_step :: "job_row \<Rightarrow> job_row \<Rightarrow> bool" where
  stay: "job_step r r"
| claimed: "j_status r = StatusQueued \<Longrightarrow> j_available_at r \<le> t \<Longrightarrow> job_step r (mark_claimed t r)"
| succeeded: "j_status r = StatusRunning \<Longrightarrow>
    job_step r (finish_job StatusSucceeded None [] t (Some t) r)"
| retried: "j_status r = StatusRunning \<Longrightarrow> j_attempts r \<le> j_max_retries r \<Longrightarrow>
    job_step r (finish_job StatusQueued (Some a) m t None r)"
| exhausted: "j_status r = StatusRunning \<Longrightarrow> j_max_retries r < j_attempts r \<Longrightarrow>
    job_step r (finish_job StatusFailed (Some t) m t (Some t) r)"
| recovered: "j_status r = StatusRunning \<Longrightarrow>
    job_step r (finish_job StatusQueued (Some t) recovery_reason t None r)"

inductive_cases job_stepE: "job_step r r'"

inductive run_step :: "run \<Rightarrow> run \<Rightarrow> bool" where
  stay: "run_step r r"
| ended: "r_status r = StatusRunning \<Longrightarrow> st = StatusSucceeded \<or> st = StatusFailed \<Longrightarrow>
    run_step r (finish_run st m t r)"

inductive_cases run_stepE: "run_step r r'"

definition terminal :: "status \<Rightarrow> bool" where
  "terminal st \<longleftrightarrow> st = StatusSucceeded \<or> st = StatusFailed"

lemma job_step_keeps:
  "job_step r r' \<Longrightarrow> j_id r' = j_id r \<and> job_key r' = job_key r \<and> j_max_retries r' = j_max_retries r"
  by (auto elim!: job_stepE simp: job_key_def)

lemma job_step_terminal: "job_step r r' \<Longrightarrow> terminal (j_status r) \<Longrightarrow> r' = r"
  by (auto elim!: job_stepE simp: terminal_def)

lemma run_step_keeps:
  "run_step r r' \<Longrightarrow> r_id r' = r_id r \<and> r_job_id r' = r_job_id r \<and> r_attempt r' = r_attempt r"
  by (auto elim!: run_stepE)

lemma run_step_terminal: "run_step r r' \<Longrightarrow> r_status r \<noteq> StatusRunning \<Longrightarrow> r' = r"
  by (auto elim!: run_stepE)

text \<open>An update in place whose function is a step moves each row by that step.\<close>

lemma update_moves:
  assumes "\<And>r. r \<in> set rows \<Longrightarrow> p r \<Longrightarrow> R r (f r)" and "\<And>r. R r r"
  shows "list_all2 R rows (sql_update p f rows)"
  using assms by (induction rows) auto

lemma list_all2_refl_rows: "(\<And>r. R r r) \<Longrightarrow> list_all2 R rows rows"
  by (induction rows) auto

section \<open>Calls of the store as moves of the rows\<close>

definition jobs_move :: "db \<Rightarrow> db \<Rightarrow> bool" where
  "jobs_move d d' \<longleftrightarrow> list_all2 job_step (jobs d) (jobs d')"

definition runs_move :: "db \<Rightarrow> db \<Rightarrow> bool" where
  "runs_move d d' \<longleftrightarrow> list_all2 run_step (runs d) (runs d')"

lemma jobs_move_same: "jobs d' = jobs d \<Longrightarrow> jobs_move d d'"
  by (simp add: jobs_move_def list_all2_refl_rows job_step.stay)

lemma runs_move_same: "runs d' = runs d \<Longrightarrow> runs_move d d'"
  by (simp add: runs_move_def list_all2_refl_rows run_step.stay)

lemma claimed_moves:
  assumes inv: "queue_inv d" and r: "oldest_eligible t d = Some r"
  shows "jobs_move d (claimed_db i t r d)"
proof -
  have "r \<in> set (jobs d)" "eligible t r"
    using select_first_Some(1,2)[OF r[unfolded oldest_eligible_def]] by auto
  then have "job_step s (mark_claimed t s)" if "s \<in> set (jobs d)" "j_id s = j_id r" for s
    using that inv job_step.claimed by (metis eligible_def jobs_ok_inj queue_inv_def)
  then show ?thesis
    by (auto simp: jobs_move_def claimed_db_def intro!: update_moves job_step.stay)
qed

lemma succeeded_moves: "jobs_move d (succeeded_db t i k d)" "runs_move d (succeeded_db t i k d)"
  by (auto simp: jobs_move_def runs_move_def succeeded_db_def running_job_def running_run_def
      intro!: update_moves job_step.intros run_step.intros)

lemma failed_moves:
  assumes inv: "queue_inv d" and j: "select_one (running_job i) (jobs d) = Some j"
  shows "jobs_move d (failed_db now i k m delay j d)" and "runs_move d (failed_db now i k m delay j d)"
proof -
  have "j \<in> set (jobs d)" "running_job i j" using select_one_Some[OF j] by auto
  then have "s = j" if "s \<in> set (jobs d)" "running_job i s" for s
    using that inv by (metis running_job_def jobs_ok_inj queue_inv_def)
  then show "jobs_move d (failed_db now i k m delay j d)"
    by (auto simp: jobs_move_def failed_db_def Let_def running_job_def
        intro!: update_moves job_step.stay job_step.retried job_step.exhausted)
  show "runs_move d (failed_db now i k m delay j d)"
    by (auto simp: runs_move_def failed_db_def Let_def running_run_def
        intro!: update_moves run_step.intros)
qed

lemma recovered_moves: "jobs_move d (recovered_db t d)" "runs_move d (recovered_db t d)"
  by (auto simp: jobs_move_def runs_move_def recovered_db_def
      intro!: update_moves job_step.stay job_step.recovered run_step.intros)

text \<open>
  One call: the jobs are the old rows, each moved by one step, and at most one new queued row; the
  runs are the old rows moved, and at most one new running row.
\<close>

definition calls_move :: "db \<Rightarrow> db \<Rightarrow> bool" where
  "calls_move d d' \<longleftrightarrow>
    (\<exists>js. list_all2 job_step (jobs d) js \<and>
      (jobs d' = js \<or> (\<exists>r. jobs d' = js @ [r] \<and> j_status r = StatusQueued \<and> j_attempts r = 0))) \<and>
    (\<exists>rs. list_all2 run_step (runs d) rs \<and>
      (runs d' = rs \<or> (\<exists>r. runs d' = rs @ [r] \<and> r_status r = StatusRunning)))"

lemma calls_moveI: "jobs_move d d' \<Longrightarrow> runs_move d d' \<Longrightarrow> calls_move d d'"
  by (auto simp: calls_move_def jobs_move_def runs_move_def)

lemma store_exec_moves:
  assumes inv: "queue_inv d"
  shows "calls_move d (store_exec e now c d)"
proof (cases c)
  case (Enqueue p)
  show ?thesis
  proof (cases rule: enqueue_cases[of e now p d])
    case 1
    with Enqueue show ?thesis
      by (simp add: store_exec_def calls_moveI jobs_move_same runs_move_same)
  next
    case 2
    with Enqueue show ?thesis
      by (auto simp: store_exec_def calls_move_def new_job_row_def
          intro: list_all2_refl_rows[OF job_step.stay] list_all2_refl_rows[OF run_step.stay])
  qed
next
  case Claim
  show ?thesis
  proof (cases "claim e now d")
    case (Pair res d')
    show ?thesis
    proof (cases res)
      case (Inl err)
      with Pair Claim show ?thesis
        by (auto simp: store_exec_def dest: claim_error intro!: calls_moveI jobs_move_same runs_move_same)
    next
      case (Inr j)
      with Pair obtain r where r: "oldest_eligible (unix_nano now) d = Some r"
        and d': "d' = claimed_db (rowid e) (unix_nano now) r d"
        using claim_ok by metis
      have "list_all2 job_step (jobs d) (jobs d')"
        using claimed_moves[OF inv r] by (simp add: d' jobs_move_def)
      moreover have "list_all2 run_step (runs d) (runs d)"
        by (rule list_all2_refl_rows[OF run_step.stay])
      moreover have "\<exists>n. runs d' = runs d @ [n] \<and> r_status n = StatusRunning"
        by (simp add: d' claimed_db_def)
      ultimately have "calls_move d d'" by (auto simp: calls_move_def)
      with Pair Claim show ?thesis by (simp add: store_exec_def)
    qed
  qed
next
  case (StartCommand cs)
  then show ?thesis
    by (cases rule: start_command_cases[of e now cs d])
      (simp_all add: store_exec_def calls_moveI jobs_move_same runs_move_same)
next
  case (CompleteCommand i res)
  then show ?thesis
    by (cases rule: complete_command_cases[of e now i res d])
      (simp_all add: store_exec_def calls_moveI jobs_move_same runs_move_same)
next
  case (Succeed i k)
  then show ?thesis
    by (cases "succeed e now i k d"; cases "fst (succeed e now i k d)")
      (auto simp: store_exec_def succeeded_moves dest!: succeed_error succeed_ok(1)
        intro!: calls_moveI intro: jobs_move_same runs_move_same)
next
  case (Fail i k m delay)
  show ?thesis
  proof (cases "fail e now i k m delay d")
    case (Pair res d')
    then show ?thesis
      using Fail by (cases res)
        (auto simp: store_exec_def inv dest: fail_error elim!: fail_ok
          intro!: calls_moveI intro: jobs_move_same runs_move_same failed_moves)
  qed
next
  case RecoverRunning
  then show ?thesis
    by (cases "recover_running e now d"; cases "fst (recover_running e now d)")
      (auto simp: store_exec_def recovered_moves dest!: recover_error recover_ok(1)
        intro!: calls_moveI intro: jobs_move_same runs_move_same)
qed

lemma store_step_moves: "store_step d c d' \<Longrightarrow> queue_inv d \<Longrightarrow> calls_move d d'"
  by (erule store_stepE) (simp add: store_exec_moves)

text \<open>The two directions in which later proofs use this.\<close>

lemma list_all2_fwd: "list_all2 R xs ys \<Longrightarrow> x \<in> set xs \<Longrightarrow> \<exists>y \<in> set ys. R x y"
  by (induction rule: list_all2_induct) auto

lemma list_all2_bwd: "list_all2 R xs ys \<Longrightarrow> y \<in> set ys \<Longrightarrow> \<exists>x \<in> set xs. R x y"
  by (induction rule: list_all2_induct) auto

lemma job_moves:
  assumes "store_step d c d'" and "queue_inv d" and "r \<in> set (jobs d)"
  obtains r' where "r' \<in> set (jobs d')" and "job_step r r'"
  using store_step_moves[OF assms(1,2)] list_all2_fwd[OF _ assms(3)] that
  by (fastforce simp: calls_move_def)

lemma job_came_from:
  assumes "store_step d c d'" and "queue_inv d" and "r' \<in> set (jobs d')"
  obtains r where "r \<in> set (jobs d)" and "job_step r r'"
  | "j_status r' = StatusQueued" and "j_attempts r' = 0"
proof -
  from store_step_moves[OF assms(1,2)] obtain js where js: "list_all2 job_step (jobs d) js"
    and "jobs d' = js \<or> (\<exists>r. jobs d' = js @ [r] \<and> j_status r = StatusQueued \<and> j_attempts r = 0)"
    by (auto simp: calls_move_def)
  with assms(3) have "r' \<in> set js \<or> (j_status r' = StatusQueued \<and> j_attempts r' = 0)" by auto
  then show ?thesis using list_all2_bwd[OF js] that by blast
qed

lemma run_moves:
  assumes "store_step d c d'" and "queue_inv d" and "r \<in> set (runs d)"
  obtains r' where "r' \<in> set (runs d')" and "run_step r r'"
  using store_step_moves[OF assms(1,2)] list_all2_fwd[OF _ assms(3)] that
  by (fastforce simp: calls_move_def)

text \<open>Rows persist: a job keeps its id and key for ever, a terminal row stays as it is.\<close>

lemma job_persists:
  assumes "store_steps d cs d'" and "queue_inv d" and "r \<in> set (jobs d)"
  shows "\<exists>r' \<in> set (jobs d'). j_id r' = j_id r \<and> job_key r' = job_key r"
  using assms
proof (induction arbitrary: r rule: store_steps.induct)
  case (step d c d' cs d'')
  from step.hyps(1) step.prems obtain r' where r': "r' \<in> set (jobs d')" "job_step r r'"
    by (rule job_moves)
  with step.IH[of r'] store_step_inv[OF step.hyps(1) step.prems(1)] job_step_keeps[OF r'(2)]
  show ?case by metis
qed blast

lemma terminal_job_persists:
  assumes "store_steps d cs d'" and "queue_inv d" and "r \<in> set (jobs d)" and "terminal (j_status r)"
  shows "r \<in> set (jobs d')"
  using assms
proof (induction rule: store_steps.induct)
  case (step d c d' cs d'')
  from step.hyps(1) step.prems(1,2) obtain r' where "r' \<in> set (jobs d')" "job_step r r'"
    by (rule job_moves)
  with step show ?case by (metis job_step_terminal store_step_inv)
qed blast

lemma ended_run_persists:
  assumes "store_steps d cs d'" and "queue_inv d" and "r \<in> set (runs d)" and "r_status r \<noteq> StatusRunning"
  shows "r \<in> set (runs d')"
  using assms
proof (induction rule: store_steps.induct)
  case (step d c d' cs d'')
  from step.hyps(1) step.prems(1,2) obtain r' where "r' \<in> set (runs d')" "run_step r r'"
    by (rule run_moves)
  with step show ?case by (metis run_step_terminal store_step_inv)
qed blast

end
