(* ===== verification/QueueProps.thy ===== *)
theory QueueProps
  imports QueueLife
begin

text \<open>
  What the queue promises its clients, over every sequence of calls from the empty database:
  exclusive and ordered claims, idempotent discovery, completion at most once, the retry policy,
  recovery after a restart, and the paging of the history. The theorems rest on the invariant of
  \<open>QueueSafety\<close> and the life cycle of \<open>QueueLife\<close>; the witnesses run a small database.
\<close>

lemma reachable_inv: "reachable d \<Longrightarrow> queue_inv d"
  unfolding reachable_def using store_steps_inv queue_inv_empty by blast

lemma reachable_jobs_ok: "reachable d \<Longrightarrow> jobs_ok d"
  by (drule reachable_inv) (simp add: queue_inv_def)

lemma store_steps_append: "store_steps d cs d' \<Longrightarrow> store_steps d' cs' d'' \<Longrightarrow> store_steps d (cs @ cs') d''"
  by (induction rule: store_steps.induct) (auto intro: store_steps.step)

lemma reachable_empty: "reachable empty_db"
  unfolding reachable_def by (blast intro: store_steps.none)

lemma reachable_steps: "reachable d \<Longrightarrow> store_steps d cs d' \<Longrightarrow> reachable d'"
  unfolding reachable_def by (blast intro: store_steps_append)

lemma reachable_exec: "reachable d \<Longrightarrow> fresh_rowid e d \<Longrightarrow> reachable (store_exec e now c d)"
  by (rule reachable_steps[OF _ store_steps.step[OF store_step.call store_steps.none]])

lemma store_steps_exec: "fresh_rowid e d \<Longrightarrow> store_steps d [c] (store_exec e now c d)"
  by (blast intro: store_steps.intros store_step.call)

lemma reachable_claim: "reachable d \<Longrightarrow> fresh_rowid e d \<Longrightarrow> claim e now d = (res, d') \<Longrightarrow> reachable d'"
  using reachable_exec[of d e now Claim] by (simp add: store_exec_def)

lemma reachable_enqueue:
  "reachable d \<Longrightarrow> fresh_rowid e d \<Longrightarrow> enqueue e now p d = (res, d') \<Longrightarrow> reachable d'"
  using reachable_exec[of d e now "Enqueue p"] by (simp add: store_exec_def)

section \<open>A small database, for the witnesses\<close>

definition ok_engine :: "int \<Rightarrow> engine" where
  "ok_engine i = \<lparr>reply = (\<lambda>_. None), rowid = i, violation = err_not_found\<rparr>"

definition demo_params :: enqueue_params where
  "demo_params = \<lparr>p_watch_name = ''w'', p_path = ''/in/a'', p_fingerprint = ''f'', p_max_retries = 1,
                  p_available_at = zero_time\<rparr>"

definition demo_row :: job_row where
  "demo_row = \<lparr>j_id = 1, j_watch_name = ''w'', j_path = ''/in/a'', j_fingerprint = ''f'',
     j_status = StatusQueued, j_attempts = 0, j_max_retries = 1, j_available_at = 5,
     j_last_error = [], j_created_at = 5, j_updated_at = 5, j_started_at = None, j_finished_at = None\<rparr>"

definition demo_run :: run where
  "demo_run = \<lparr>r_id = 2, r_job_id = 1, r_attempt = 1, r_status = StatusRunning, r_error = [],
               r_started_at = 6, r_finished_at = None\<rparr>"

definition demo_queued :: db where
  "demo_queued = \<lparr>jobs = [demo_row], runs = [], commands = [], jobs_seq = 1, runs_seq = 0, commands_seq = 0\<rparr>"

definition demo_claimed :: db where
  "demo_claimed = \<lparr>jobs = [mark_claimed 6 demo_row], runs = [demo_run], commands = [],
                   jobs_seq = 1, runs_seq = 2, commands_seq = 0\<rparr>"

definition demo_done :: db where
  "demo_done = succeeded_db 7 1 2 demo_claimed"

lemmas demo_defs = ok_engine_def demo_params_def demo_row_def demo_run_def demo_queued_def demo_claimed_def

lemma demo_unix_nano [simp]: "unix_nano 5 = 5" "unix_nano 6 = 6" "unix_nano 7 = 7" "unix_nano 8 = 8"
  by (simp_all add: unix_nano_def)

lemma demo_enqueue: "enqueue (ok_engine 1) 5 demo_params empty_db = (Inr (scan_job demo_row, True), demo_queued)"
  by (simp add: demo_defs enqueue_def blank_def trim_space_def empty_db_def select_one_def new_job_row_def) code_simp

lemma demo_claim: "claim (ok_engine 2) 6 demo_queued =
    (Inr ((scan_job (mark_claimed 6 demo_row))\<lparr>j_run_id := 2, j_attempt := 1\<rparr>), demo_claimed)"
  by (simp add: demo_defs claim_def oldest_eligible_def eligible_def select_first_def in_tx_def
      run_violates_def Let_def mark_claimed_def)

lemma demo_fresh: "fresh_rowid (ok_engine 1) empty_db" "fresh_rowid (ok_engine 2) demo_queued"
  "fresh_rowid (ok_engine 3) demo_claimed" "fresh_rowid (ok_engine 3) demo_queued"
  by (simp_all add: fresh_rowid_def demo_defs empty_db_def)

lemma demo_reachable: "reachable demo_queued" "reachable demo_claimed"
proof -
  show "reachable demo_queued"
    using reachable_enqueue[OF reachable_empty demo_fresh(1) demo_enqueue] .
  then show "reachable demo_claimed"
    using reachable_claim[OF _ demo_fresh(2) demo_claim] by simp
qed

lemma demo_succeed: "succeed (ok_engine 3) 7 1 2 demo_claimed = (Inr (), demo_done)"
  by (simp add: demo_done_def demo_defs succeed_def succeeded_db_def in_tx_def Let_def running_run_def
      running_job_def require_one_row_def finish_run_def finish_job_def mark_claimed_def)

lemma demo_done_reachable: "reachable demo_done"
  using reachable_exec[OF demo_reachable(2) demo_fresh(3), of 7 "Succeed 1 2"]
  by (simp add: store_exec_def demo_succeed)

definition demo_done_run :: run where
  "demo_done_run = finish_run StatusSucceeded [] 7 demo_run"

definition demo_done_row :: job_row where
  "demo_done_row = finish_job StatusSucceeded None [] 7 (Some 7) (mark_claimed 6 demo_row)"

lemma demo_done_rows: "jobs demo_done = [demo_done_row]" "runs demo_done = [demo_done_run]"
  by (simp_all add: demo_done_def succeeded_db_def demo_claimed_def running_run_def running_job_def
      demo_done_row_def demo_done_run_def) (simp_all add: demo_row_def demo_run_def)

definition demo_params2 :: enqueue_params where
  "demo_params2 = demo_params\<lparr>p_path := ''/in/b''\<rparr>"

definition demo_two :: db where
  "demo_two = demo_claimed\<lparr>jobs := jobs demo_claimed @ [new_job_row 3 7 demo_params2], jobs_seq := 3\<rparr>"

lemma demo_enqueue2: "enqueue (ok_engine 3) 7 demo_params2 demo_claimed =
    (Inr (scan_job (new_job_row 3 7 demo_params2), True), demo_two)"
  by (simp add: demo_defs demo_params2_def demo_two_def enqueue_def blank_def trim_space_def
      select_one_def new_job_row_def mark_claimed_def same_key_def Let_def) code_simp

lemma demo_two_steps: "store_steps demo_claimed [Enqueue demo_params2] demo_two"
  using store_steps_exec[OF demo_fresh(3), of "Enqueue demo_params2" 7]
  by (simp add: store_exec_def demo_enqueue2)

lemma demo_claim2: "claim (ok_engine 4) 8 demo_two =
    (Inr ((scan_job (mark_claimed 8 (new_job_row 3 7 demo_params2)))\<lparr>j_run_id := 4, j_attempt := 1\<rparr>),
     claimed_db 4 8 (new_job_row 3 7 demo_params2) demo_two)"
  by (simp add: demo_defs demo_params2_def demo_two_def claim_def oldest_eligible_def eligible_def
      select_first_def in_tx_def run_violates_def Let_def mark_claimed_def new_job_row_def
      claimed_db_def zero_time_def)

section \<open>Properties\<close>

text \<open>C6: Every sequence of calls of the store, whatever the engine answers, keeps the tables
  well formed: ids and keys unique, each job's attempts equal to the number of its runs, every run
  numbered by its attempt, and a job \<open>RUNNING\<close> exactly while its last run is.\<close>

theorem reachable_queue_inv: "reachable d \<Longrightarrow> queue_inv d"
  by (rule reachable_inv)

theorem reachable_queue_inv_witness: "reachable demo_claimed \<and> queue_inv demo_claimed"
  using reachable_queue_inv[OF demo_reachable(2)] demo_reachable(2) by blast

text \<open>C34: A job row moves only along the life cycle: in one call every row of the database makes one
  step of \<open>job_step\<close> or \<open>run_step\<close> or stays, no row is removed, and a row that appears is a
  queued job without attempts or a running run.\<close>

theorem calls_follow_life_cycle:
  "reachable d \<Longrightarrow> store_step d c d' \<Longrightarrow> calls_move d d'"
  by (rule store_step_moves[OF _ reachable_inv])

theorem calls_follow_life_cycle_witness: "calls_move demo_queued demo_claimed"
  using calls_follow_life_cycle[OF demo_reachable(1) store_step.call[OF demo_fresh(2), of Claim 6]]
  by (simp add: store_exec_def demo_claim)

subsection \<open>Claiming\<close>

text \<open>C33: \<open>Claim\<close> returns the eligible job that comes first in the order of available time and id,
  marks that row alone, and records one new running run under its next attempt number.\<close>

theorem claim_takes_oldest:
  assumes "reachable d" and "claim e now d = (Inr j, d')"
  shows "\<exists>r \<in> set (jobs d). eligible (unix_nano now) r \<and>
    (\<forall>s \<in> set (jobs d). eligible (unix_nano now) s \<longrightarrow> (j_available_at r, j_id r) \<le> (j_available_at s, j_id s)) \<and>
    job_row.truncate j = mark_claimed (unix_nano now) r \<and> j_run_id j = rowid e \<and>
    jobs d' = map (\<lambda>s. if s = r then mark_claimed (unix_nano now) r else s) (jobs d) \<and>
    (\<exists>k. runs d' = runs d @ [k] \<and> r_id k = j_run_id j \<and> holds_run (mark_claimed (unix_nano now) r) k) \<and>
    commands d' = commands d"
proof -
  from assms(2) obtain r where r: "oldest_eligible (unix_nano now) d = Some r"
    and d': "d' = claimed_db (rowid e) (unix_nano now) r d"
    and j: "j = (scan_job (mark_claimed (unix_nano now) r))\<lparr>j_run_id := rowid e, j_attempt := j_attempts r + 1\<rparr>"
    by (rule claim_ok)
  note first = select_first_Some[OF r[unfolded oldest_eligible_def]]
  have "(j_id s = j_id r) = (s = r)" if "s \<in> set (jobs d)" for s
    using jobs_ok_inj[OF reachable_jobs_ok[OF assms(1)] that first(1)] by auto
  then have "jobs d' = map (\<lambda>s. if s = r then mark_claimed (unix_nano now) r else s) (jobs d)"
    by (simp add: d' claimed_db_def sql_update_def)
  moreover have "job_row.truncate j = mark_claimed (unix_nano now) r"
    by (simp add: j scan_job_def job_row.defs job.defs)
  ultimately show ?thesis
    using first by (intro bexI[of _ r]) (auto simp: d' j claimed_db_def holds_run_def)
qed

theorem claim_takes_oldest_witness: "\<exists>r \<in> set (jobs demo_queued). eligible (unix_nano 6) r"
  using claim_takes_oldest[OF demo_reachable(1) demo_claim] by blast

lemma run_violates_none:
  assumes "queue_inv d" and "r \<in> set (jobs d)"
  shows "\<not> run_violates (j_id r) (j_attempts r + 1) (d\<lparr>jobs := js\<rparr>)"
  using job_row_inv[OF assms] runs_ok_job[OF assms(1) _ assms(2)]
  by (force simp: run_violates_def run_fits_def)

text \<open>While the engine answers, \<open>Claim\<close> never runs into a constraint of the schema: it
  returns a job whenever one is eligible, and \<open>ErrNoJob\<close> with the tables untouched when none is.\<close>

theorem claim_progress:
  assumes "reachable d" and "reply e = (\<lambda>_. None)"
  shows "if \<exists>r \<in> set (jobs d). eligible (unix_nano now) r
         then \<exists>j d'. claim e now d = (Inr j, d') else claim e now d = (Inl err_no_job, d)"
proof (cases "oldest_eligible (unix_nano now) d")
  case None
  then have "\<not> (\<exists>r \<in> set (jobs d). eligible (unix_nano now) r)"
    by (simp add: oldest_eligible_def select_first_None)
  then show ?thesis using assms(2) None by (simp add: claim_def in_tx_def Let_def)
next
  case (Some r)
  note first = select_first_Some(1,2)[OF Some[unfolded oldest_eligible_def]]
  then show ?thesis
    using assms(2) Some run_violates_none[OF reachable_inv[OF assms(1)] first(1)]
    by (auto simp: claim_def in_tx_def Let_def)
qed

theorem claim_progress_witness: "\<exists>j d'. claim (ok_engine 2) 6 demo_queued = (Inr j, d')"
  using claim_progress[OF demo_reachable(1), of "ok_engine 2" 6]
  by (simp add: demo_defs eligible_def)

text \<open>The calls that may hand a claimed job back to the queue.\<close>

definition releases :: "int \<Rightarrow> store_call \<Rightarrow> bool" where
  "releases i c \<longleftrightarrow> c = RecoverRunning \<or> (\<exists>k m delay. c = Fail i k m delay)"

definition held :: "int \<Rightarrow> db \<Rightarrow> bool" where
  "held i d \<longleftrightarrow> (\<exists>r \<in> set (jobs d). j_id r = i \<and> (j_status r = StatusRunning \<or> j_status r = StatusSucceeded))"

lemma held_update:
  assumes "held i d"
    and "\<And>r. j_id (f r) = j_id r"
    and "\<And>r. r \<in> set (jobs d) \<Longrightarrow> p r \<Longrightarrow> j_id r = i \<Longrightarrow>
           j_status (f r) = StatusRunning \<or> j_status (f r) = StatusSucceeded"
    and "jobs d' = sql_update p f (jobs d)"
  shows "held i d'"
proof -
  from assms(1) obtain r where r: "r \<in> set (jobs d)" "j_id r = i"
    "j_status r = StatusRunning \<or> j_status r = StatusSucceeded" by (auto simp: held_def)
  with assms(2,3) have "(if p r then f r else r) \<in> set (jobs d') \<and> j_id (if p r then f r else r) = i \<and>
    (j_status (if p r then f r else r) = StatusRunning \<or> j_status (if p r then f r else r) = StatusSucceeded)"
    by (auto simp: assms(4) in_sql_updateI1 in_sql_updateI2)
  then show ?thesis unfolding held_def by blast
qed

lemma held_same: "jobs d' = jobs d \<Longrightarrow> held i d \<Longrightarrow> held i d'"
  by (simp add: held_def)

lemma held_step:
  assumes "\<not> releases i c" and "held i d"
  shows "held i (store_exec e now c d)"
proof (cases c)
  case (Enqueue p)
  with assms show ?thesis
    by (cases rule: enqueue_cases[of e now p d]) (auto simp: store_exec_def held_def)
next
  case Claim
  obtain res d' where res: "claim e now d = (res, d')" by fastforce
  have "held i d'"
  proof (cases res)
    case (Inl err)
    with res assms show ?thesis by (auto dest: claim_error)
  next
    case (Inr j)
    with res obtain r where "d' = claimed_db (rowid e) (unix_nano now) r d" by (blast elim: claim_ok)
    then show ?thesis
      by (intro held_update[OF assms(2), of "mark_claimed (unix_nano now)" "\<lambda>s. j_id s = j_id r"])
        (simp_all add: claimed_db_def)
  qed
  with Claim res show ?thesis by (simp add: store_exec_def)
next
  case (StartCommand cs)
  with assms show ?thesis
    by (cases rule: start_command_cases[of e now cs d]) (auto simp: store_exec_def held_def)
next
  case (CompleteCommand k res)
  with assms show ?thesis
    by (cases rule: complete_command_cases[of e now k res d]) (auto simp: store_exec_def held_def)
next
  case (Succeed m k)
  obtain res d' where res: "succeed e now m k d = (res, d')" by fastforce
  have "held i d'"
    using res assms(2)
    by (cases res) (auto dest!: succeed_error succeed_ok(1) simp: succeeded_db_def
        intro!: held_update[OF assms(2), of "finish_job StatusSucceeded None [] (unix_nano now) (Some (unix_nano now))"
          "running_job m"])
  with Succeed res show ?thesis by (simp add: store_exec_def)
next
  case (Fail m k msg delay)
  with assms(1) have "m \<noteq> i" by (auto simp: releases_def)
  obtain res d' where res: "fail e now m k msg delay d = (res, d')" by fastforce
  have "held i d'"
  proof (cases res)
    case (Inl err)
    with res assms show ?thesis by (auto dest: fail_error)
  next
    case (Inr st)
    with res obtain j where d': "d' = failed_db now m k msg delay j d" by (auto elim: fail_ok)
    show ?thesis
      by (rule held_update[OF assms(2), where p = "running_job m"])
        (use \<open>m \<noteq> i\<close> in \<open>auto simp: d' failed_db_def Let_def running_job_def\<close>)
  qed
  with Fail res show ?thesis by (simp add: store_exec_def)
qed (use assms in \<open>simp add: releases_def\<close>)

lemma held_steps: "store_steps d cs d' \<Longrightarrow> list_all (\<lambda>c. \<not> releases i c) cs \<Longrightarrow> held i d \<Longrightarrow> held i d'"
  by (induction rule: store_steps.induct) (auto elim!: store_stepE intro: held_step)

lemma claim_holds:
  assumes "claim e now d = (Inr j, d')"
  shows "held (j_id j) d'" and "\<exists>r \<in> set (jobs d). j_id r = j_id j \<and> j_status r = StatusQueued"
proof -
  from assms obtain r where r: "oldest_eligible (unix_nano now) d = Some r"
    and d': "d' = claimed_db (rowid e) (unix_nano now) r d"
    and j: "j = (scan_job (mark_claimed (unix_nano now) r))\<lparr>j_run_id := rowid e, j_attempt := j_attempts r + 1\<rparr>"
    by (rule claim_ok)
  have mem: "r \<in> set (jobs d)" "j_status r = StatusQueued"
    using select_first_Some(1,2)[OF r[unfolded oldest_eligible_def]] by (auto simp: eligible_def)
  have "j_id j = j_id r" by (simp add: j scan_job_def job_row.defs)
  with mem show "\<exists>r \<in> set (jobs d). j_id r = j_id j \<and> j_status r = StatusQueued" by auto
  have "mark_claimed (unix_nano now) r \<in> set (jobs d')"
    using mem by (simp add: d' claimed_db_def in_sql_updateI1)
  then show "held (j_id j) d'"
    unfolding held_def by (rule rev_bexI) (simp add: \<open>j_id j = j_id r\<close>)
qed

text \<open>C1: Claims are exclusive: between the claim of a job and a \<open>Fail\<close> of that job or a recovery,
  no other call of \<open>Claim\<close>, by any worker, returns the same job.\<close>

theorem claim_exclusive:
  assumes "reachable d" and "fresh_rowid e d" and "claim e now d = (Inr j, d1)"
    and "store_steps d1 cs d2" and "list_all (\<lambda>c. \<not> releases (j_id j) c) cs"
    and "claim e' now' d2 = (Inr j', d3)"
  shows "j_id j' \<noteq> j_id j"
proof
  assume same: "j_id j' = j_id j"
  have "reachable d2"
    by (rule reachable_steps[OF reachable_claim[OF assms(1-3)] assms(4)])
  then have "jobs_ok d2" by (rule reachable_jobs_ok)
  from held_steps[OF assms(4,5) claim_holds(1)[OF assms(3)]] obtain r where
    r: "r \<in> set (jobs d2)" "j_id r = j_id j" "j_status r \<noteq> StatusQueued" by (auto simp: held_def)
  from claim_holds(2)[OF assms(6)] obtain r' where
    r': "r' \<in> set (jobs d2)" "j_id r' = j_id j'" "j_status r' = StatusQueued" by blast
  with r same have "r = r'" using jobs_ok_inj[OF \<open>jobs_ok d2\<close>] by simp
  with r r' show False by simp
qed

theorem claim_exclusive_witness:
  "\<exists>j j'. claim (ok_engine 2) 6 demo_queued = (Inr j, demo_claimed) \<and>
     fst (claim (ok_engine 4) 8 demo_two) = Inr j' \<and> j_id j' \<noteq> j_id j"
  using claim_exclusive[OF demo_reachable(1) demo_fresh(2) demo_claim demo_two_steps _ demo_claim2]
    demo_claim demo_claim2
  by (simp add: releases_def)

subsection \<open>Discovery\<close>

lemma enqueue_ok_key:
  assumes "enqueue e now p d = (Inr (j, created), d')"
  obtains r where "r \<in> set (jobs d')" and "same_key p r" and "j_id r = j_id j"
    and "\<not> blank (p_watch_name p)" and "\<not> blank (p_path p)" and "0 \<le> p_max_retries p"
proof -
  have ok: "\<not> blank (p_watch_name p)" "\<not> blank (p_path p)" "0 \<le> p_max_retries p"
    using assms by (auto simp: enqueue_def split: if_splits)
  show ?thesis
  proof (cases "select_one (same_key p) (jobs d)")
    case None
    with assms ok have "d' = d\<lparr>jobs := jobs d @ [new_job_row (rowid e) now p], jobs_seq := rowid e\<rparr>"
      and "j_id j = rowid e"
      by (auto simp: enqueue_def Let_def scan_job_def job_row.defs new_job_row_def split: option.splits)
    with ok that[of "new_job_row (rowid e) now p"] show ?thesis
      by (simp add: same_key_def new_job_row_def)
  next
    case (Some r)
    with assms ok have "d' = d" "j_id j = j_id r"
      by (auto simp: enqueue_def scan_job_def job_row.defs split: option.splits)
    with select_one_Some[OF Some] ok that[of r] show ?thesis by simp
  qed
qed

lemma enqueue_again:
  assumes "reachable d" and "fresh_rowid e d" and "enqueue e now p d = (Inr (j, created), d1)"
    and "store_steps d1 cs d2" and "reply e' = (\<lambda>_. None)" and "0 \<le> n"
  shows "\<exists>j'. enqueue e' now' (p\<lparr>p_max_retries := n, p_available_at := t\<rparr>) d2 = (Inr (j', False), d2) \<and>
              j_id j' = j_id j"
proof -
  let ?p = "p\<lparr>p_max_retries := n, p_available_at := t\<rparr>"
  have d1: "reachable d1" by (rule reachable_enqueue[OF assms(1-3)])
  from assms(3) obtain r where r: "r \<in> set (jobs d1)" "same_key p r" "j_id r = j_id j"
    and ok: "\<not> blank (p_watch_name p)" "\<not> blank (p_path p)" by (rule enqueue_ok_key)
  from job_persists[OF assms(4) reachable_inv[OF d1] r(1)] obtain r' where
    r': "r' \<in> set (jobs d2)" "j_id r' = j_id r" "job_key r' = job_key r" by blast
  have key: "same_key ?p s \<longleftrightarrow> job_key s = (p_watch_name p, p_path p, p_fingerprint p)" for s
    by (auto simp: same_key_def job_key_def)
  have "distinct (map job_key (jobs d2))"
    using reachable_jobs_ok[OF reachable_steps[OF d1 assms(4)]] by (simp add: jobs_ok_def)
  then have "select_one (same_key ?p) (jobs d2) = Some r'"
    using r r' by (intro select_one_unique[of job_key]) (auto simp: key same_key_def job_key_def)
  with ok assms(5,6) r r' show ?thesis
    by (auto simp: enqueue_def scan_job_def job_row.defs)
qed

text \<open>C9: Discovery is idempotent: once a file was enqueued, enqueueing the same watch, path and
  fingerprint again, after any further calls of the store and with any retry limit or time, answers
  with the same job, reports that nothing was created, and leaves the tables as they are.\<close>

theorem enqueue_idempotent:
  assumes "reachable d" and "fresh_rowid e d" and "enqueue e now p d = (Inr (j, created), d1)"
    and "store_steps d1 cs d2" and "reply e' = (\<lambda>_. None)" and "0 \<le> n"
  shows "\<exists>j'. enqueue e' now' (p\<lparr>p_max_retries := n, p_available_at := t\<rparr>) d2 = (Inr (j', False), d2) \<and>
              j_id j' = j_id j"
  by (rule enqueue_again[OF assms])

theorem enqueue_idempotent_witness:
  "\<exists>j'. enqueue (ok_engine 9) 8 (demo_params\<lparr>p_max_retries := 3, p_available_at := 1\<rparr>) demo_queued =
     (Inr (j', False), demo_queued)"
  using enqueue_idempotent[OF reachable_empty demo_fresh(1) demo_enqueue store_steps.none,
      of "ok_engine 9" 3 8 1] by (auto simp: ok_engine_def)

subsection \<open>Completion\<close>

lemma end_call_stale:
  assumes "\<forall>r \<in> set (runs d). r_id r = k \<longrightarrow> r_status r \<noteq> StatusRunning"
  shows "rows_affected (running_run i k) (runs d) = 0"
  using assms by (auto simp: rows_affected_zero running_run_def)

text \<open>C8: A run completes at most once: after it ended, whatever calls follow, \<open>Succeed\<close> and \<open>Fail\<close> on
  it are rejected with \<open>ErrInvalidTransition\<close> and change nothing, so a stale worker cannot overwrite
  the history or the state of a job that was claimed again.\<close>

theorem completion_at_most_once:
  assumes "reachable d" and "r \<in> set (runs d)" and "r_status r \<noteq> StatusRunning"
    and "store_steps d cs d'" and "reply e = (\<lambda>_. None)" and "0 < i"
  shows "(\<exists>err. succeed e now i (r_id r) d' = (Inl err, d') \<and> errors_is ''invalid queue state transition'' err) \<and>
    (\<exists>err. fail e now i (r_id r) m delay d' = (Inl err, d') \<and> errors_is ''invalid queue state transition'' err)"
proof -
  have inv: "queue_inv d'" by (rule reachable_inv[OF reachable_steps[OF assms(1,4)]])
  have mem: "r \<in> set (runs d')"
    by (rule ended_run_persists[OF assms(4) reachable_inv[OF assms(1)] assms(2,3)])
  have ids: "ids_ok (map r_id (runs d')) (runs_seq d')" using inv by (simp add: queue_inv_def runs_ok_def)
  then have "0 < r_id r" using mem by (auto simp: ids_ok_def)
  have "s = r" if "s \<in> set (runs d')" "r_id s = r_id r" for s
    using distinct_map_inj[of r_id "runs d'" s r] ids that mem by (simp add: ids_ok_def)
  then have "rows_affected (running_run i (r_id r)) (runs d') = 0"
    using assms(3) by (intro end_call_stale) blast
  with assms(5,6) \<open>0 < r_id r\<close> show ?thesis
    by (simp add: succeed_def fail_def Let_def in_tx_def require_one_row_def err_invalid_transition_def)
qed

theorem completion_at_most_once_witness:
  "\<exists>err. fail (ok_engine 9) 8 1 2 ''late'' 0 demo_done = (Inl err, demo_done) \<and>
    errors_is ''invalid queue state transition'' err"
  using completion_at_most_once[OF demo_done_reachable _ _ store_steps.none, where r = demo_done_run
      and e = "ok_engine 9" and i = 1 and now = 8 and m = "''late''" and delay = 0]
  by (auto simp: demo_done_rows demo_done_run_def demo_run_def ok_engine_def)

lemma failed_commands_ended:
  "\<forall>c \<in> set (fail_commands (\<lambda>c. c_run_id c = k) m t rows). c_run_id c = k \<longrightarrow> c_status c \<noteq> CommandRunning"
  by (induction rows) (simp_all add: fail_commands_def)

text \<open>The retry policy: a \<open>Fail\<close> that returns has ended the claimed run with the reason, leaves
  no command of that run running, and moves the job to \<open>QUEUED\<close> at now plus the non-negative delay
  while it has attempts left, and to the terminal \<open>FAILED\<close> with a finish time otherwise; every other
  job is untouched.\<close>

theorem fail_retry_policy:
  assumes "reachable d" and "fail e now i k reason delay d = (Inr st, d')"
  shows "\<exists>j \<in> set (jobs d). j_id j = i \<and> j_status j = StatusRunning \<and>
    (let t = unix_nano now;
         j' = (if j_attempts j \<le> j_max_retries j
               then finish_job StatusQueued (Some (unix_nano (now + max 0 delay))) reason t None j
               else finish_job StatusFailed (Some t) reason t (Some t) j) in
     st = j_status j' \<and> jobs d' = map (\<lambda>s. if s = j then j' else s) (jobs d)) \<and>
    (\<exists>r \<in> set (runs d'). r_id r = k \<and> r_job_id r = i \<and> r_status r = StatusFailed \<and> r_error r = reason) \<and>
    (\<forall>c \<in> set (commands d'). c_run_id c = k \<longrightarrow> c_status c \<noteq> CommandRunning)"
proof -
  from assms(2) obtain j where j: "select_one (running_job i) (jobs d) = Some j"
    and d': "d' = failed_db now i k reason delay j d"
    and st: "st = (if j_attempts j \<le> j_max_retries j then StatusQueued else StatusFailed)"
    and rows: "rows_affected (running_run i k) (runs d) = 1" by (rule fail_ok)
  have mem: "j \<in> set (jobs d)" "running_job i j" using select_one_Some[OF j] by auto
  have "running_job i s \<longleftrightarrow> s = j" if "s \<in> set (jobs d)" for s
    using jobs_ok_inj[OF reachable_jobs_ok[OF assms(1)] that mem(1)] mem(2) by (auto simp: running_job_def)
  then have js: "sql_update (running_job i) f (jobs d) = map (\<lambda>s. if s = j then f j else s) (jobs d)" for f
    by (simp add: sql_update_def)
  from rows obtain r where r: "r \<in> set (runs d)" "running_run i k r"
    using rows_affected_zero[of "running_run i k" "runs d"] by auto
  then have "finish_run StatusFailed reason (unix_nano now) r \<in> set (runs d')"
    by (simp add: d' failed_db_def Let_def in_sql_updateI1)
  then have runs: "\<exists>r \<in> set (runs d'). r_id r = k \<and> r_job_id r = i \<and> r_status r = StatusFailed \<and> r_error r = reason"
    by (rule rev_bexI) (use r(2) in \<open>simp add: running_run_def\<close>)
  have "commands d' = fail_commands (\<lambda>c. c_run_id c = k) reason (unix_nano now) (commands d)"
    by (simp add: d' failed_db_def Let_def)
  then have "\<forall>c \<in> set (commands d'). c_run_id c = k \<longrightarrow> c_status c \<noteq> CommandRunning"
    by (simp add: failed_commands_ended)
  moreover have "let t = unix_nano now;
         j' = (if j_attempts j \<le> j_max_retries j
               then finish_job StatusQueued (Some (unix_nano (now + max 0 delay))) reason t None j
               else finish_job StatusFailed (Some t) reason t (Some t) j) in
     st = j_status j' \<and> jobs d' = map (\<lambda>s. if s = j then j' else s) (jobs d)"
    by (cases "j_attempts j \<le> j_max_retries j") (simp_all add: st d' failed_db_def js Let_def)
  moreover have "j_id j = i" "j_status j = StatusRunning"
    using mem(2) by (simp_all add: running_job_def)
  ultimately show ?thesis using runs mem(1) by blast
qed

lemma demo_fail: "fail (ok_engine 3) 7 1 2 ''exit 1'' 60 demo_claimed =
    (Inr StatusQueued, failed_db 7 1 2 ''exit 1'' 60 (mark_claimed 6 demo_row) demo_claimed)"
  by (simp add: demo_defs fail_def failed_db_def in_tx_def Let_def running_run_def fail_commands_def
      running_job_def require_one_row_def finish_run_def finish_job_def mark_claimed_def select_one_def)

theorem fail_retry_policy_witness:
  "\<exists>r \<in> set (runs (snd (fail (ok_engine 3) 7 1 2 ''exit 1'' 60 demo_claimed))).
     r_id r = 2 \<and> r_status r = StatusFailed"
  using fail_retry_policy[OF demo_reachable(2) demo_fail] by (auto simp: demo_fail)

subsection \<open>Attempts\<close>

text \<open>The attempts a job may have used in each state while no recovery happened.\<close>

definition within_retries :: "job_row \<Rightarrow> bool" where
  "within_retries r \<longleftrightarrow>
    (case j_status r of
       StatusQueued \<Rightarrow> j_attempts r \<le> j_max_retries r
     | StatusFailed \<Rightarrow> j_attempts r = j_max_retries r + 1
     | _ \<Rightarrow> 1 \<le> j_attempts r \<and> j_attempts r \<le> j_max_retries r + 1)"

lemma within_retries_update:
  assumes "\<forall>r \<in> set (jobs d). within_retries r"
    and "\<And>r. r \<in> set (jobs d) \<Longrightarrow> p r \<Longrightarrow> within_retries r \<Longrightarrow> within_retries (f r)"
    and "jobs d' = sql_update p f (jobs d)"
  shows "\<forall>r \<in> set (jobs d'). within_retries r"
  using assms by (auto simp: set_sql_update)

lemma within_retries_step:
  assumes inv: "queue_inv d" and "c \<noteq> RecoverRunning" and all: "\<forall>r \<in> set (jobs d). within_retries r"
  shows "\<forall>r \<in> set (jobs (store_exec e now c d)). within_retries r"
proof (cases c)
  case (Enqueue p)
  with all show ?thesis
    by (cases rule: enqueue_cases[of e now p d])
      (auto simp: store_exec_def within_retries_def new_job_row_def)
next
  case Claim
  obtain res d' where res: "claim e now d = (res, d')" by fastforce
  have "\<forall>r \<in> set (jobs d'). within_retries r"
  proof (cases res)
    case (Inl err)
    with res all show ?thesis by (auto dest: claim_error)
  next
    case (Inr j)
    with res obtain r where r: "oldest_eligible (unix_nano now) d = Some r"
      and d': "d' = claimed_db (rowid e) (unix_nano now) r d" by (blast elim: claim_ok)
    have mem: "r \<in> set (jobs d)" "j_status r = StatusQueued"
      using select_first_Some(1,2)[OF r[unfolded oldest_eligible_def]] by (auto simp: eligible_def)
    have "s = r" if "s \<in> set (jobs d)" "j_id s = j_id r" for s
      using jobs_ok_inj[OF _ that(1) mem(1) that(2)] inv by (simp add: queue_inv_def)
    moreover have "within_retries (mark_claimed (unix_nano now) r)"
      using mem job_row_inv[OF inv mem(1)] all by (auto simp: within_retries_def)
    ultimately show ?thesis
      by (intro within_retries_update[OF all, of "\<lambda>s. j_id s = j_id r" "mark_claimed (unix_nano now)"])
        (auto simp: d' claimed_db_def)
  qed
  with Claim res show ?thesis by (simp add: store_exec_def)
next
  case (StartCommand cs)
  with all show ?thesis
    by (cases rule: start_command_cases[of e now cs d]) (auto simp: store_exec_def)
next
  case (CompleteCommand k res)
  with all show ?thesis
    by (cases rule: complete_command_cases[of e now k res d]) (auto simp: store_exec_def)
next
  case (Succeed m k)
  obtain res d' where res: "succeed e now m k d = (res, d')" by fastforce
  have "\<forall>r \<in> set (jobs d'). within_retries r"
  proof (cases res)
    case (Inl err)
    with res all show ?thesis by (auto dest: succeed_error)
  next
    case (Inr u)
    with res have "d' = succeeded_db (unix_nano now) m k d" by (auto dest: succeed_ok(1))
    then show ?thesis
      by (intro within_retries_update[OF all, of "running_job m"])
        (auto simp: succeeded_db_def within_retries_def running_job_def)
  qed
  with Succeed res show ?thesis by (simp add: store_exec_def)
next
  case (Fail m k msg delay)
  obtain res d' where res: "fail e now m k msg delay d = (res, d')" by fastforce
  have "\<forall>r \<in> set (jobs d'). within_retries r"
  proof (cases res)
    case (Inl err)
    with res all show ?thesis by (auto dest: fail_error)
  next
    case (Inr st)
    with res obtain j where j: "select_one (running_job m) (jobs d) = Some j"
      and d': "d' = failed_db now m k msg delay j d" by (blast elim: fail_ok)
    have "s = j" if "s \<in> set (jobs d)" "running_job m s" for s
      using jobs_ok_inj[of d s j] inv that select_one_Some[OF j] by (simp add: queue_inv_def running_job_def)
    then show ?thesis
      by (intro within_retries_update[OF all, of "running_job m"])
        (auto simp: d' failed_db_def Let_def within_retries_def running_job_def)
  qed
  with Fail res show ?thesis by (simp add: store_exec_def)
qed (use assms in simp)

lemma within_retries_steps:
  assumes "store_steps d cs d'" and "queue_inv d" and "RecoverRunning \<notin> set cs"
    and "\<forall>r \<in> set (jobs d). within_retries r"
  shows "\<forall>r \<in> set (jobs d'). within_retries r"
  using assms
proof (induction rule: store_steps.induct)
  case (step d c d' cs d'')
  from step.hyps(1) obtain e now where "d' = store_exec e now c d" by (rule store_stepE)
  with step.prems(2) have "\<forall>r \<in> set (jobs d'). within_retries r"
    using within_retries_step[OF step.prems(1) _ step.prems(3)] by (metis list.set_intros(1))
  with step.IH store_step_inv[OF step.hyps(1) step.prems(1)] step.prems(2) show ?case by simp
qed

text \<open>Without a daemon restart, a job is run at most \<open>max_retries + 1\<close> times: that many run rows
  exist for it at most, a queued job always has an attempt left, and a job is \<open>FAILED\<close> only after
  exactly \<open>max_retries + 1\<close> runs.\<close>

theorem attempts_bounded:
  assumes "store_steps empty_db cs d" and "RecoverRunning \<notin> set cs" and "r \<in> set (jobs d)"
  shows "int (length (runs_of (j_id r) d)) \<le> j_max_retries r + 1 \<and>
    (j_status r = StatusQueued \<longrightarrow> int (length (runs_of (j_id r) d)) \<le> j_max_retries r) \<and>
    (j_status r = StatusFailed \<longrightarrow> int (length (runs_of (j_id r) d)) = j_max_retries r + 1)"
proof -
  have "reachable d" using assms(1) by (auto simp: reachable_def)
  from job_row_inv[OF reachable_inv[OF this] assms(3)] have "int (length (runs_of (j_id r) d)) = j_attempts r"
    and "0 \<le> j_max_retries r" by auto
  moreover have "within_retries r"
    using within_retries_steps[OF assms(1) queue_inv_empty assms(2)] assms(3) by (simp add: empty_db_def)
  ultimately show ?thesis
    by (cases "j_status r") (auto simp: within_retries_def)
qed

lemma demo_queued_steps: "store_steps empty_db [Enqueue demo_params] demo_queued"
  using store_steps_exec[OF demo_fresh(1), of "Enqueue demo_params" 5]
  by (simp add: store_exec_def demo_enqueue)

theorem attempts_bounded_witness: "int (length (runs_of 1 demo_queued)) \<le> 1"
  using attempts_bounded[OF demo_queued_steps, of demo_row] by (simp add: demo_queued_def demo_row_def)

subsection \<open>Recovery and terminal states\<close>

text \<open>Recovery at startup: it returns exactly the number of interrupted jobs, leaves no job,
  run or command running, makes every interrupted job eligible at once with its attempts kept even
  beyond the retry limit, and touches no other job.\<close>

theorem recovery_requeues_all:
  assumes "recover_running e now d = (Inr n, d')"
  shows "n = count_status StatusRunning d \<and> count_status StatusRunning d' = 0 \<and>
    (\<forall>r \<in> set (runs d'). r_status r \<noteq> StatusRunning) \<and>
    (\<forall>c \<in> set (commands d'). c_status c \<noteq> CommandRunning) \<and>
    list_all2 (\<lambda>r r'. if j_status r = StatusRunning
        then eligible (unix_nano now) r' \<and> j_id r' = j_id r \<and> job_key r' = job_key r \<and>
             j_attempts r' = j_attempts r \<and> j_last_error r' = recovery_reason
        else r' = r) (jobs d) (jobs d')"
proof -
  from recover_ok[OF assms] have d': "d' = recovered_db (unix_nano now) d"
    and n: "n = rows_affected (\<lambda>r. j_status r = StatusRunning) (jobs d)" by auto
  let ?f = "finish_job StatusQueued (Some (unix_nano now)) recovery_reason (unix_nano now) None"
  have "list_all2 (\<lambda>r r'. if j_status r = StatusRunning
        then eligible (unix_nano now) r' \<and> j_id r' = j_id r \<and> job_key r' = job_key r \<and>
             j_attempts r' = j_attempts r \<and> j_last_error r' = recovery_reason
        else r' = r) js (sql_update (\<lambda>r. j_status r = StatusRunning) ?f js)" for js
    by (induction js) (simp_all add: eligible_def job_key_def finish_job_def)
  moreover have "rows_affected (\<lambda>r. j_status r = StatusRunning)
      (sql_update (\<lambda>r. j_status r = StatusRunning) ?f js) = 0" for js
    by (induction js) simp_all
  moreover have "\<forall>c \<in> set (fail_commands (\<lambda>_. True) m t cs). c_status c \<noteq> CommandRunning" for m t cs
    by (induction cs) (simp_all add: fail_commands_def)
  moreover have "\<forall>r \<in> set (sql_update (\<lambda>r. r_status r = StatusRunning) (finish_run StatusFailed m t) rs).
      r_status r \<noteq> StatusRunning" for m t rs
    by (induction rs) simp_all
  ultimately show ?thesis by (simp add: n d' recovered_db_def count_status_def)
qed

lemma demo_recover: "recover_running (ok_engine 3) 7 demo_claimed = (Inr 1, recovered_db 7 demo_claimed)"
  by (simp add: demo_defs recover_running_def recovered_db_def in_tx_def Let_def finish_run_def
      finish_job_def mark_claimed_def fail_commands_def)

theorem recovery_requeues_all_witness: "count_status StatusRunning demo_claimed = 1 \<and>
    count_status StatusRunning (recovered_db 7 demo_claimed) = 0"
  using recovery_requeues_all[OF demo_recover] by simp

text \<open>A job that succeeded or exhausted its retries is history: no later call, whatever it is,
  changes any column of its row or removes it.\<close>

theorem terminal_job_immutable:
  assumes "reachable d" and "r \<in> set (jobs d)" and "terminal (j_status r)" and "store_steps d cs d'"
  shows "r \<in> set (jobs d')"
  by (rule terminal_job_persists[OF assms(4) reachable_inv[OF assms(1)] assms(2,3)])

lemma demo_fresh_done: "fresh_rowid (ok_engine 4) demo_done"
  by (simp add: fresh_rowid_def demo_done_def succeeded_db_def demo_defs)

theorem terminal_job_immutable_witness:
  "demo_done_row \<in> set (jobs (store_exec (ok_engine 4) 8 RecoverRunning demo_done))"
  using terminal_job_immutable[OF demo_done_reachable _ _ store_steps_exec[OF demo_fresh_done], of demo_done_row 8]
  by (simp add: demo_done_rows terminal_def demo_done_row_def)

text \<open>One worker per job: a job has exactly one running run while it is \<open>RUNNING\<close> and none
  otherwise, so the counts of running jobs and of running runs agree.\<close>

theorem one_running_run:
  assumes "reachable d" and "j \<in> set (jobs d)"
  shows "rows_affected (\<lambda>r. r_job_id r = j_id j \<and> r_status r = StatusRunning) (runs d) =
         (if j_status j = StatusRunning then 1 else 0)"
proof -
  have inv: "queue_inv d" by (rule reachable_inv[OF assms(1)])
  let ?p = "\<lambda>r. r_job_id r = j_id j \<and> r_status r = StatusRunning"
  have fits: "j_status j = StatusRunning \<and> r_attempt r = j_attempts j" if "r \<in> set (runs d)" "?p r" for r
    using runs_ok_job[OF inv that(1) assms(2)] that(2) by (simp add: run_fits_def)
  have same: "filter ?p (runs d) =
      filter (\<lambda>r. r_status r = StatusRunning \<and> (r_job_id r, r_attempt r) = (j_id j, j_attempts j)) (runs d)"
    using fits by (intro filter_cong) auto
  have "distinct (map (\<lambda>r. (r_job_id r, r_attempt r)) (runs d))"
    using inv by (simp add: queue_inv_def runs_ok_def)
  then have count: "rows_affected ?p (runs d) = (if \<exists>r \<in> set (runs d). ?p r then 1 else 0)"
    using rows_affected_key[of "\<lambda>r. (r_job_id r, r_attempt r)" "runs d"
        "\<lambda>r. r_status r = StatusRunning \<and> (r_job_id r, r_attempt r) = (j_id j, j_attempts j)" "(j_id j, j_attempts j)"]
      fits same by (auto simp: rows_affected_def)
  show ?thesis
  proof (cases "j_status j = StatusRunning")
    case True
    with inv assms(2) obtain r where "r \<in> set (runs d)" "holds_run j r" by (rule running_job_inv)
    then have "\<exists>r \<in> set (runs d). ?p r" by (auto simp: holds_run_def)
    with True count show ?thesis by simp
  next
    case False
    with fits have "\<not> (\<exists>r \<in> set (runs d). ?p r)" by blast
    with False count show ?thesis by simp
  qed
qed

theorem one_running_run_witness:
  "rows_affected (\<lambda>r. r_job_id r = 1 \<and> r_status r = StatusRunning) (runs demo_claimed) = 1"
  using one_running_run[OF demo_reachable(2), of "mark_claimed 6 demo_row"]
  by (simp add: demo_claimed_def) (simp add: demo_row_def demo_run_def)

end
