(* ===== verification/JsonText.thy ===== *)
theory JsonText
  imports QueueStore
begin

text \<open>
  The JSON columns of \<open>command_executions\<close>: what \<open>json.Unmarshal\<close> into a \<open>[]string\<close> accepts,
  and the proof that it reads back every list that \<open>marshalStrings\<close> wrote, with invalid UTF-8
  replaced by U+FFFD.
\<close>

section \<open>Decoding\<close>

definition hex_value :: "char \<Rightarrow> nat option" where
  "hex_value c =
    (if 48 \<le> byte c \<and> byte c \<le> 57 then Some (byte c - 48)
     else if 97 \<le> byte c \<and> byte c \<le> 102 then Some (byte c - 87)
     else if 65 \<le> byte c \<and> byte c \<le> 70 then Some (byte c - 55)
     else None)"

fun hex4 :: "string \<Rightarrow> (nat \<times> string) option" where
  "hex4 (a # b # c # d # s) =
    (case (hex_value a, hex_value b, hex_value c, hex_value d) of
       (Some w, Some x, Some y, Some z) \<Rightarrow> Some (w * 4096 + x * 256 + y * 16 + z, s)
     | _ \<Rightarrow> None)"
| "hex4 _ = None"

text \<open>A \<open>\u\<close> escape, whose first four hex digits are read: a surrogate pair is one rune, a lone
  surrogate is U+FFFD.\<close>

definition surrogate_rest :: "nat \<Rightarrow> string \<Rightarrow> nat \<times> string" where
  "surrogate_rest r s =
    (if 0xD800 \<le> r \<and> r \<le> 0xDFFF then
       (case (if prefix [CHR 0x5C, CHR ''u''] s then hex4 (drop 2 s) else None) of
          Some (r2, s2) \<Rightarrow>
            if r < 0xDC00 \<and> 0xDC00 \<le> r2 \<and> r2 < 0xE000
            then ((r - 0xD800) * 1024 + (r2 - 0xDC00) + 0x10000, s2) else (rune_error, s)
        | None \<Rightarrow> (rune_error, s))
     else (r, s))"

definition simple_escape :: "char \<Rightarrow> char option" where
  "simple_escape e =
    (if e = CHR 0x22 \<or> e = CHR 0x5C \<or> e = CHR ''/'' then Some e
     else if e = CHR ''b'' then Some (CHR 0x08)
     else if e = CHR ''f'' then Some (CHR 0x0C)
     else if e = CHR ''n'' then Some (CHR 0x0A)
     else if e = CHR ''r'' then Some (CHR 0x0D)
     else if e = CHR ''t'' then Some (CHR 0x09)
     else None)"

text \<open>One item of a string literal: its bytes and the rest of the input.\<close>

fun json_char :: "string \<Rightarrow> (string \<times> string) option" where
  "json_char [] = None"
| "json_char (c # s) =
    (if c = CHR 0x5C then
       (case s of
          [] \<Rightarrow> None
        | e # s' \<Rightarrow>
            if e = CHR ''u'' then
              (case hex4 s' of
                 None \<Rightarrow> None
               | Some (r, s2) \<Rightarrow> (case surrogate_rest r s2 of (r', s3) \<Rightarrow> Some (encode_rune r', s3)))
            else map_option (\<lambda>x. ([x], s')) (simple_escape e))
     else if byte c < 0x20 then None
     else if byte c < 0x80 then Some ([c], s)
     else (case decode_rune (c # s) of (r, n) \<Rightarrow> Some (encode_rune r, drop n (c # s))))"

lemma hex4_shorter: "hex4 s = Some (r, t) \<Longrightarrow> length t < length s"
  by (cases s rule: hex4.cases) (auto split: option.splits)

lemma surrogate_rest_shorter: "surrogate_rest r s = (r', t) \<Longrightarrow> length t \<le> length s"
  by (auto simp: surrogate_rest_def split: if_splits option.splits dest!: hex4_shorter)

lemma json_char_shorter:
  assumes "json_char s = Some (x, t)"
  shows "length t < length s"
proof (cases s)
  case Nil
  with assms show ?thesis by simp
next
  case (Cons c s')
  show ?thesis
  proof (cases "c = CHR 0x5C")
    case True
    with assms Cons show ?thesis
      by (auto split: list.splits if_splits option.splits prod.splits
          dest!: hex4_shorter surrogate_rest_shorter)
  next
    case False
    with assms Cons decode_rune_size[of c s'] show ?thesis
      by (auto split: if_splits prod.splits)
  qed
qed

declare json_char.simps(2) [simp del]

function json_chars :: "string \<Rightarrow> (string \<times> string) option" where
  "json_chars s =
    (case s of
       [] \<Rightarrow> None
     | c # s' \<Rightarrow>
         if c = CHR 0x22 then Some ([], s')
         else (case json_char s of
                 None \<Rightarrow> None
               | Some (x, t) \<Rightarrow> map_option (\<lambda>(y, u). (x @ y, u)) (json_chars t)))"
  by pat_completeness auto
termination
  by (relation "measure length") (auto dest!: json_char_shorter)

declare json_chars.simps [simp del]

lemma json_chars_shorter: "json_chars s = Some (x, t) \<Longrightarrow> length t < length s"
proof (induction s arbitrary: x t rule: json_chars.induct)
  case (1 s)
  show ?case
  proof (cases s)
    case Nil
    with "1.prems" show ?thesis by (simp add: json_chars.simps)
  next
    case (Cons c s')
    show ?thesis
    proof (cases "c = CHR 0x22")
      case True
      with "1.prems" Cons show ?thesis by (simp add: json_chars.simps)
    next
      case False
      with "1.prems" Cons obtain y u z where "json_char s = Some (y, u)" "json_chars u = Some (z, t)"
        by (subst (asm) json_chars.simps) (auto split: option.splits)
      with "1.IH"[OF Cons False this(1)] json_char_shorter[OF this(1)] show ?thesis
        by fastforce
    qed
  qed
qed

definition json_space :: "char \<Rightarrow> bool" where
  "json_space c \<longleftrightarrow> c = CHR '' '' \<or> c = CHR 0x09 \<or> c = CHR 0x0A \<or> c = CHR 0x0D"

definition skip_space :: "string \<Rightarrow> string" where
  "skip_space s = dropWhile json_space s"

text \<open>An element of the array: a string, or \<open>null\<close>, which leaves the zero value.\<close>

definition json_element :: "string \<Rightarrow> (string \<times> string) option" where
  "json_element s =
    (if prefix ''null'' s then Some ([], drop 4 s)
     else case s of [] \<Rightarrow> None | c # s' \<Rightarrow> if c = CHR 0x22 then json_chars s' else None)"

lemma json_element_shorter: "json_element s = Some (x, t) \<Longrightarrow> length t < length s"
  by (auto simp: json_element_def split: if_splits list.splits dest!: json_chars_shorter elim!: prefixE)

lemma skip_space_le: "length (skip_space s) \<le> length s"
  by (simp add: skip_space_def length_dropWhile_le)

function json_items :: "string \<Rightarrow> (string list \<times> string) option" where
  "json_items s =
    (case json_element (skip_space s) of
       None \<Rightarrow> None
     | Some (x, t) \<Rightarrow>
         (case skip_space t of
            [] \<Rightarrow> None
          | c # u \<Rightarrow>
              if c = CHR '']'' then Some ([x], u)
              else if c = CHR '','' then map_option (\<lambda>(xs, v). (x # xs, v)) (json_items u)
              else None))"
  by pat_completeness auto
termination
proof (relation "measure length", goal_cases)
  case (2 s a x t c u)
  with json_element_shorter[of "skip_space s" x t] skip_space_le[of s] skip_space_le[of t]
  show ?case by simp
qed simp

declare json_items.simps [simp del]

definition unmarshal_strings :: "string \<Rightarrow> string list option" where
  "unmarshal_strings s =
    (let s1 = skip_space s in
     if prefix ''null'' s1 then (if skip_space (drop 4 s1) = [] then Some [] else None)
     else case s1 of
       [] \<Rightarrow> None
     | c # t \<Rightarrow>
         if c \<noteq> CHR ''['' then None
         else
           (case (case skip_space t of
                    [] \<Rightarrow> None
                  | d # u \<Rightarrow> if d = CHR '']'' then Some ([], u) else json_items t) of
              None \<Rightarrow> None
            | Some (xs, rest) \<Rightarrow> if skip_space rest = [] then Some xs else None))"

section \<open>Reading back what was written\<close>

lemma hex_value_digit: "k < 16 \<Longrightarrow> hex_value (hex_digit k) = Some k"
  by (simp add: hex_value_def hex_digit_def)

lemma encode_ascii: "byte a < 0x80 \<Longrightarrow> encode_rune (byte a) = [a]"
  by (simp add: encode_rune_def)

lemma decode_ascii: "byte a < 0x80 \<Longrightarrow> decode_rune (a # s) = (byte a, 1)"
  by (simp add: decode_rune.simps(2))

lemma decode_rune_take:
  assumes "decode_rune (a # s) = (r, n)" and "\<not> (r = rune_error \<and> n = 1)"
  shows "decode_rune (take n (a # s) @ t) = (r, n)"
  using assms by (auto simp: decode_rune.simps(2) split: if_splits list.splits)

lemma hex4_low: "n < 256 \<Longrightarrow>
    hex4 (CHR ''0'' # CHR ''0'' # hex_digit (n div 16) # hex_digit (n mod 16) # t) = Some (n, t)"
  by (simp add: hex_value_digit) (simp add: hex_value_def)

lemma json_char_u:
  assumes "hex4 s = Some (r, t)" and "r < 0xD800 \<or> 0xDFFF < r"
  shows "json_char (CHR 0x5C # CHR ''u'' # s) = Some (encode_rune r, t)"
  using assms by (auto simp: json_char.simps(2) surrogate_rest_def)

lemma json_char_simple:
  "simple_escape e = Some x \<Longrightarrow> json_char (CHR 0x5C # e # t) = Some ([x], t)"
  by (auto simp: json_char.simps(2) simple_escape_def split: if_splits)

lemma json_char_plain:
  "byte a < 0x80 \<Longrightarrow> \<not> byte a < 0x20 \<Longrightarrow> a \<noteq> CHR 0x5C \<Longrightarrow> json_char (a # t) = Some ([a], t)"
  by (simp add: json_char.simps(2))

lemma json_char_ascii:
  assumes "byte a < 0x80"
  shows "json_char (json_escape_ascii a @ t) = Some ([a], t)"
    and "\<exists>c u. json_escape_ascii a = c # u \<and> c \<noteq> CHR 0x22"
proof -
  have "json_char (CHR 0x5C # CHR ''u'' # CHR ''0'' # CHR ''0'' # hex_digit (byte a div 16) #
      hex_digit (byte a mod 16) # t) = Some ([a], t)"
    using json_char_u[OF hex4_low[of "byte a" t]] assms by (simp add: encode_ascii)
  then show "json_char (json_escape_ascii a @ t) = Some ([a], t)"
    unfolding json_escape_ascii_def
    by (simp add: json_char_simple simple_escape_def json_char_plain assms del: hex4.simps)
  show "\<exists>c u. json_escape_ascii a = c # u \<and> c \<noteq> CHR 0x22"
    by (auto simp: json_escape_ascii_def)
qed

lemma json_chars_step:
  assumes "json_char (c # s) = Some (x, t)" and "c \<noteq> CHR 0x22"
  shows "json_chars (c # s) = map_option (\<lambda>(y, u). (x @ y, u)) (json_chars t)"
  using assms by (subst json_chars.simps) simp

text \<open>One rune of the input: what the encoder writes for it, the decoder reads as that rune.\<close>

definition json_rune :: "nat \<Rightarrow> nat \<Rightarrow> string \<Rightarrow> string" where
  "json_rune r n s =
    (if r = rune_error \<and> n = 1 then CHR 0x5C # ''ufffd''
     else if r = 0x2028 then CHR 0x5C # ''u2028''
     else if r = 0x2029 then CHR 0x5C # ''u2029''
     else take n s)"

lemma json_char_rune:
  assumes "decode_rune (a # s) = (r, n)" and "\<not> byte a < 0x80"
  shows "json_char (json_rune r n (a # s) @ t) = Some (encode_rune r, t)"
    and "\<exists>c u. json_rune r n (a # s) = c # u \<and> c \<noteq> CHR 0x22"
proof -
  have u: "hex4 (''fffd'' @ t) = Some (0xFFFD, t)" "hex4 (''2028'' @ t) = Some (0x2028, t)"
    "hex4 (''2029'' @ t) = Some (0x2029, t)"
    by (simp_all add: hex_value_def)
  obtain m where n: "n = Suc m" using decode_rune_size[of a s] assms(1) by (cases n) auto
  have "m \<le> length s" using decode_rune_size[of a s] assms(1) n by simp
  have plain: "json_char (take n (a # s) @ t) = Some (encode_rune r, t)"
    if "\<not> (r = rune_error \<and> n = 1)"
  proof -
    have "drop n (take n (a # s) @ t) = t" using \<open>m \<le> length s\<close> by (simp add: n)
    with decode_rune_take[OF assms(1) that, of t] assms(2) show ?thesis
      by (auto simp: n json_char.simps(2))
  qed
  show "json_char (json_rune r n (a # s) @ t) = Some (encode_rune r, t)"
    using plain json_char_u[OF u(1)] json_char_u[OF u(2)] json_char_u[OF u(3)]
    by (auto simp: json_rune_def rune_error_def)
  show "\<exists>c u. json_rune r n (a # s) = c # u \<and> c \<noteq> CHR 0x22"
    using assms(2) by (auto simp: json_rune_def n)
qed

lemma json_escape_Cons:
  assumes "\<not> byte a < 0x80" and "decode_rune (a # s) = (r, n)"
  shows "json_escape (a # s) = json_rune r n (a # s) @ json_escape (drop n (a # s))"
  using assms by (subst json_escape.simps) (simp add: json_rune_def)

lemma json_chars_escape:
  "json_chars (json_escape s @ CHR 0x22 # t) = Some (of_runes (runes s), t)"
proof (induction s rule: json_escape.induct)
  case 1
  show ?case by (subst json_chars.simps) (simp add: of_runes_def)
next
  case (2 a s)
  show ?case
  proof (cases "byte a < 0x80")
    case True
    obtain c u where cu: "json_escape_ascii a = c # u" "c \<noteq> CHR 0x22"
      using json_char_ascii(2)[OF True] by blast
    have "json_char (c # u @ json_escape s @ CHR 0x22 # t) = Some ([a], json_escape s @ CHR 0x22 # t)"
      using json_char_ascii(1)[OF True] cu(1) by (metis append_Cons)
    from json_chars_step[OF this cu(2)] "2.IH"(1)[OF True] True show ?thesis
      by (simp add: json_escape.simps(2) cu(1) runes.simps(2) decode_ascii of_runes_def encode_ascii)
  next
    case False
    obtain r n where rn: "decode_rune (a # s) = (r, n)" by fastforce
    obtain c u where cu: "json_rune r n (a # s) = c # u" "c \<noteq> CHR 0x22"
      using json_char_rune(2)[OF rn False] by blast
    let ?rest = "json_escape (drop n (a # s)) @ CHR 0x22 # t"
    have "json_char (c # u @ ?rest) = Some (encode_rune r, ?rest)"
      using json_char_rune(1)[OF rn False, of ?rest] cu(1) by simp
    from json_chars_step[OF this cu(2)] "2.IH"(2)[OF False rn[symmetric] refl] rn
    show ?thesis
      by (simp add: json_escape_Cons[OF False rn] cu(1) runes.simps(2) of_runes_def)
  qed
qed

lemma json_element_string: "json_element (json_string s @ t) = Some (of_runes (runes s), t)"
  by (simp add: json_element_def json_string_def json_chars_escape)

lemma skip_space_quote [simp]: "skip_space (CHR 0x22 # s) = CHR 0x22 # s"
  by (simp add: skip_space_def json_space_def)

lemma skip_space_string [simp]: "skip_space (json_string s @ t) = json_string s @ t"
  by (simp add: json_string_def)

lemma json_items_strings:
  "json_items (join_strings '','' (map json_string (x # xs)) @ '']'') =
    Some (map (\<lambda>s. of_runes (runes s)) (x # xs), [])"
proof (induction xs arbitrary: x)
  case Nil
  show ?case
    by (subst json_items.simps)
      (simp add: json_element_string, simp add: skip_space_def json_space_def)
next
  case (Cons y ys)
  from Cons[of y] show ?case
    by (subst json_items.simps)
      (simp add: json_element_string, simp add: skip_space_def json_space_def)
qed

lemma unmarshal_marshal:
  "unmarshal_strings (marshal_strings xs) = Some (map (\<lambda>s. of_runes (runes s)) xs)"
proof (cases xs)
  case Nil
  then show ?thesis by (simp add: marshal_strings_def unmarshal_strings_def skip_space_def json_space_def)
next
  case (Cons x ys)
  obtain u where u: "join_strings '','' (map json_string (x # ys)) = CHR 0x22 # u"
    by (cases ys) (auto simp: json_string_def)
  show ?thesis
    using json_items_strings[of x ys] u
    by (simp add: Cons marshal_strings_def unmarshal_strings_def skip_space_def json_space_def)
qed

text \<open>The argument and environment columns round trip: decoding what \<open>marshalStrings\<close> stored for a
  list of strings gives the same list, each string with its invalid UTF-8 bytes replaced by U+FFFD.\<close>

theorem json_columns_roundtrip:
  "unmarshal_strings (marshal_strings xs) = Some (map (\<lambda>s. of_runes (runes s)) xs)"
  by (rule unmarshal_marshal)

end
