(* ===== verification/QueueHistory.thy ===== *)
theory QueueHistory
  imports QueueProps JsonText
begin

text \<open>
  The history queries of \<open>history.go\<close> that read the command table (\<open>scanCommand\<close>,
  \<open>ListCommands\<close>, \<open>scanCommandSummary\<close>, \<open>ListCommandSummaries\<close>), and what the history as a
  whole promises: pages of jobs that tile the filtered list, counts that agree with it, and command
  metadata read back as it was recorded.
\<close>

record command_execution =
  ce_id :: int
  ce_run_id :: int
  ce_sequence :: int
  ce_name :: string
  ce_program :: string
  ce_args :: "string list"
  ce_env :: "string list"
  ce_working_dir :: string
  ce_timeout :: duration
  ce_status :: command_status
  ce_exit_code :: "int option"
  ce_stdout :: string
  ce_stderr :: string
  ce_error :: string
  ce_started_at :: int
  ce_finished_at :: "int option"

record command_summary =
  su_id :: int
  su_run_id :: int
  su_sequence :: int
  su_name :: string
  su_program :: string
  su_args :: "string list"
  su_working_dir :: string
  su_timeout :: duration
  su_status :: command_status
  su_exit_code :: "int option"
  su_error :: string
  su_started_at :: int
  su_finished_at :: "int option"
  su_stdout_bytes :: int
  su_stderr_bytes :: int

text \<open>The decoder's own error text is an argument.\<close>

definition scan_command :: "(string \<Rightarrow> go_error) \<Rightarrow> command_row \<Rightarrow> command_execution result" where
  "scan_command json_error c =
    (case unmarshal_strings (c_args_json c) of
       None \<Rightarrow> Inl (wrapf ''decode args JSON: '' (json_error (c_args_json c)))
     | Some args \<Rightarrow>
         (case unmarshal_strings (c_env_json c) of
            None \<Rightarrow> Inl (wrapf ''decode env JSON: '' (json_error (c_env_json c)))
          | Some env \<Rightarrow>
              Inr \<lparr>ce_id = c_id c, ce_run_id = c_run_id c, ce_sequence = c_sequence c, ce_name = c_name c,
                   ce_program = c_program c, ce_args = args, ce_env = env,
                   ce_working_dir = c_working_dir c, ce_timeout = c_timeout_ns c, ce_status = c_status c,
                   ce_exit_code = c_exit_code c, ce_stdout = c_stdout c, ce_stderr = c_stderr c,
                   ce_error = c_error c, ce_started_at = c_started_at c,
                   ce_finished_at = c_finished_at c\<rparr>))"

definition scan_command_summary :: "(string \<Rightarrow> go_error) \<Rightarrow> command_row \<Rightarrow> command_summary result" where
  "scan_command_summary json_error c =
    (case unmarshal_strings (c_args_json c) of
       None \<Rightarrow> Inl (wrapf ''decode args JSON: '' (json_error (c_args_json c)))
     | Some args \<Rightarrow>
         Inr \<lparr>su_id = c_id c, su_run_id = c_run_id c, su_sequence = c_sequence c, su_name = c_name c,
              su_program = c_program c, su_args = args, su_working_dir = c_working_dir c,
              su_timeout = c_timeout_ns c, su_status = c_status c, su_exit_code = c_exit_code c,
              su_error = c_error c, su_started_at = c_started_at c, su_finished_at = c_finished_at c,
              su_stdout_bytes = int (length (c_stdout c)), su_stderr_bytes = int (length (c_stderr c))\<rparr>)"

text \<open>The loop over the rows of a result: the first row that fails to scan ends it.\<close>

fun scan_rows :: "('r \<Rightarrow> 'a result) \<Rightarrow> 'r list \<Rightarrow> 'a list result" where
  "scan_rows scan [] = Inr []"
| "scan_rows scan (r # rs) =
    (case scan r of
       Inl e \<Rightarrow> Inl (wrapf ''queue: scan command: '' e)
     | Inr x \<Rightarrow> (case scan_rows scan rs of Inl e \<Rightarrow> Inl e | Inr xs \<Rightarrow> Inr (x # xs)))"

definition commands_of_run :: "int \<Rightarrow> db \<Rightarrow> command_row list" where
  "commands_of_run run_id d =
    sort_key (\<lambda>c. (c_sequence c, c_id c)) (filter (\<lambda>c. c_run_id c = run_id) (commands d))"

definition list_commands ::
  "engine \<Rightarrow> (string \<Rightarrow> go_error) \<Rightarrow> int \<Rightarrow> db \<Rightarrow> command_execution list result" where
  "list_commands e json_error run_id d =
    on_error (reply e (Stmt 1)) (wrapf ''queue: list commands: '')
      (scan_rows (scan_command json_error) (commands_of_run run_id d))"

definition list_command_summaries ::
  "engine \<Rightarrow> (string \<Rightarrow> go_error) \<Rightarrow> int \<Rightarrow> db \<Rightarrow> command_summary list result" where
  "list_command_summaries e json_error run_id d =
    on_error (reply e (Stmt 1)) (wrapf ''queue: list command summaries: '')
      (scan_rows (scan_command_summary json_error) (commands_of_run run_id d))"

section \<open>Pages and counts\<close>

definition newest_first :: "job_filter \<Rightarrow> db \<Rightarrow> job_row list" where
  "newest_first f d = rev (sort_key j_id (filter (filter_matches f) (jobs d)))"

lemma newest_first_set: "set (newest_first f d) = {r \<in> set (jobs d). filter_matches f r}"
  by (simp add: newest_first_def)

lemma newest_first_page [simp]: "newest_first (f\<lparr>f_limit := l, f_offset := m\<rparr>) d = newest_first f d"
proof -
  have "filter_matches (f\<lparr>f_limit := l, f_offset := m\<rparr>) = filter_matches f"
    by (rule ext) (simp add: filter_matches_def)
  then show ?thesis by (simp add: newest_first_def)
qed

lemma newest_first_sorted:
  assumes "jobs_ok d"
  shows "sorted_wrt (\<lambda>a b. j_id b < j_id a) (newest_first f d)"
proof -
  let ?rows = "sort_key j_id (filter (filter_matches f) (jobs d))"
  have "distinct (map j_id (filter (filter_matches f) (jobs d)))"
    using jobs_ok_distinct[OF assms] by (simp add: distinct_map_filter)
  then have "distinct (map j_id ?rows)"
    by (metis distinct_map set_sort distinct_sort)
  then have "sorted_wrt (<) (map j_id ?rows)"
    by (simp add: strict_sorted_iff)
  then show ?thesis
    by (simp add: newest_first_def sorted_wrt_rev sorted_wrt_map)
qed

lemma list_jobs_ok:
  assumes "reply e = (\<lambda>_. None)" and "f_status f = [] \<or> valid_status (f_status f)"
    and "0 \<le> f_offset f" and "0 < f_limit f"
  shows "list_jobs e f d = Inr (map scan_job (take (nat (f_limit f)) (drop (nat (f_offset f)) (newest_first f d))))"
  using assms by (simp add: list_jobs_def newest_first_def)

lemma pages_tile: "concat (map (\<lambda>k. take l (drop (k * l) xs)) [0..<n]) = take (n * l) xs"
proof (induction n)
  case (Suc n)
  then show ?case by (simp add: take_add add.commute[of l])
qed simp

text \<open>Paging the history is exact: for any filter and page size the pages of \<open>ListJobs\<close> tile one
  list that holds every matching job once, newest first, so that walking the pages neither skips nor
  repeats a job.\<close>

theorem job_pages_tile:
  assumes "reachable d" and "reply e = (\<lambda>_. None)" and "f_status f = [] \<or> valid_status (f_status f)"
    and "0 < l"
  shows "\<exists>all. sorted_wrt (\<lambda>a b. j_id b < j_id a) all \<and>
      set all = {r \<in> set (jobs d). filter_matches f r} \<and>
      (\<forall>n. \<exists>pages. map (\<lambda>k. list_jobs e (f\<lparr>f_limit := l, f_offset := int k * l\<rparr>) d) [0..<n] = map Inr pages \<and>
                   concat pages = map scan_job (take (n * nat l) all))"
proof (intro exI[of _ "newest_first f d"] conjI allI)
  show "sorted_wrt (\<lambda>a b. j_id b < j_id a) (newest_first f d)"
    by (rule newest_first_sorted[OF reachable_jobs_ok[OF assms(1)]])
  show "set (newest_first f d) = {r \<in> set (jobs d). filter_matches f r}"
    by (rule newest_first_set)
  fix n
  let ?page = "\<lambda>k. map scan_job (take (nat l) (drop (k * nat l) (newest_first f d)))"
  have "list_jobs e (f\<lparr>f_limit := l, f_offset := int k * l\<rparr>) d = Inr (?page k)" for k
    using list_jobs_ok[OF assms(2), of "f\<lparr>f_limit := l, f_offset := int k * l\<rparr>" d] assms(3,4)
    by (simp add: nat_mult_distrib)
  moreover have "concat (map ?page [0..<n]) = map scan_job (take (n * nat l) (newest_first f d))"
    using arg_cong[OF pages_tile[of "nat l" "newest_first f d" n], of "map scan_job"]
    by (simp add: map_concat comp_def)
  ultimately show "\<exists>pages. map (\<lambda>k. list_jobs e (f\<lparr>f_limit := l, f_offset := int k * l\<rparr>) d) [0..<n] =
      map Inr pages \<and> concat pages = map scan_job (take (n * nat l) (newest_first f d))"
    by (intro exI[of _ "map ?page [0..<n]"]) simp
qed

theorem job_pages_tile_witness:
  "\<exists>pages. map (\<lambda>k. list_jobs (ok_engine 9) \<lparr>f_status = ''QUEUED'', f_watch_name = [], f_limit = 7,
     f_offset = int k * 7\<rparr> demo_two) [0..<2] = map Inr pages"
proof -
  have "reachable demo_two" by (rule reachable_steps[OF demo_reachable(2) demo_two_steps])
  from job_pages_tile[OF this, of "ok_engine 9"
      "\<lparr>f_status = ''QUEUED'', f_watch_name = [], f_limit = 0, f_offset = 0\<rparr>" 7]
  show ?thesis by (auto simp: ok_engine_def valid_status_def)
qed

lemma status_text_valid: "valid_status (status_text st)"
  by (cases st) (simp_all add: valid_status_def)

lemma status_text_inj: "status_text a = status_text b \<longleftrightarrow> a = b"
  by (cases a; cases b) simp_all

lemma status_text_nonempty: "status_text st \<noteq> []"
  by (cases st) simp_all

lemma counts_sum:
  "rows_affected (\<lambda>r. j_status r = StatusQueued) js + rows_affected (\<lambda>r. j_status r = StatusRunning) js +
   rows_affected (\<lambda>r. j_status r = StatusSucceeded) js + rows_affected (\<lambda>r. j_status r = StatusFailed) js =
   int (length js)"
proof (induction js)
  case (Cons j js)
  then show ?case by (cases "j_status j") simp_all
qed simp

text \<open>The counters agree with each other and with the list: the four states add up to the total,
  \<open>Count\<close> of a state returns the counter of \<open>Counts\<close>, and it is the number of jobs that listing by
  that state can ever return.\<close>

theorem counts_agree:
  assumes "reply e = (\<lambda>_. None)"
  shows "\<exists>c. counts e d = Inr c \<and>
    n_queued c + n_running c + n_succeeded c + n_failed c = n_total c \<and>
    count_jobs e [] d = Inr (n_total c) \<and>
    (\<forall>st. count_jobs e (status_text st) d = Inr (count_status st d) \<and>
          count_status st d = int (length (newest_first
            \<lparr>f_status = status_text st, f_watch_name = [], f_limit = 0, f_offset = 0\<rparr> d)))"
proof -
  have "count_jobs e (status_text st) d = Inr (count_status st d)" for st
    using assms by (simp add: count_jobs_def status_text_valid status_text_nonempty status_text_inj count_status_def)
  moreover have "filter_matches \<lparr>f_status = status_text st, f_watch_name = [], f_limit = 0, f_offset = 0\<rparr> =
      (\<lambda>r. j_status r = st)" for st
    by (rule ext) (simp add: filter_matches_def status_text_nonempty status_text_inj)
  moreover have "rows_affected (\<lambda>r. True) js = int (length js)" for js :: "job_row list"
    by (induction js) simp_all
  ultimately show ?thesis
    using assms counts_sum[of "jobs d"]
    by (simp add: counts_def count_jobs_def count_status_def newest_first_def rows_affected_def)
qed

theorem counts_agree_witness: "\<exists>c. counts (ok_engine 9) demo_two = Inr c \<and>
    n_queued c + n_running c + n_succeeded c + n_failed c = n_total c"
  using counts_agree[of "ok_engine 9" demo_two] by (auto simp: ok_engine_def)

section \<open>Commands\<close>

lemma scan_rows_ok:
  assumes "\<And>c. c \<in> set rows \<Longrightarrow> \<exists>x. scan c = Inr x"
  shows "\<exists>xs. scan_rows scan rows = Inr xs \<and> list_all2 (\<lambda>c x. scan c = Inr x) rows xs"
  using assms
proof (induction rows)
  case (Cons c rows)
  from Cons.prems obtain x where "scan c = Inr x" by auto
  moreover from Cons obtain xs where "scan_rows scan rows = Inr xs" "list_all2 (\<lambda>c x. scan c = Inr x) rows xs"
    by auto
  ultimately show ?case by simp
qed simp

text \<open>The stored JSON of every command came from \<open>marshalStrings\<close>.\<close>

definition columns_ok :: "db \<Rightarrow> bool" where
  "columns_ok d \<longleftrightarrow> (\<forall>c \<in> set (commands d). \<exists>xs ys. c_args_json c = marshal_strings xs \<and> c_env_json c = marshal_strings ys)"

lemma columns_ok_same: "commands d' = commands d \<Longrightarrow> columns_ok d \<Longrightarrow> columns_ok d'"
  by (simp add: columns_ok_def)

lemma columns_ok_update:
  assumes "columns_ok d" and "\<And>c. c_args_json (f c) = c_args_json c \<and> c_env_json (f c) = c_env_json c"
    and "commands d' = sql_update p f (commands d)"
  shows "columns_ok d'"
  using assms by (auto simp: columns_ok_def set_sql_update)

lemma columns_ok_fail_commands:
  "columns_ok d \<Longrightarrow> commands d' = fail_commands p m t (commands d) \<Longrightarrow> columns_ok d'"
  by (rule columns_ok_update) (auto simp: fail_commands_def)

lemma columns_ok_step:
  assumes "columns_ok d"
  shows "columns_ok (store_exec e now c d)"
proof (cases c)
  case (Enqueue p)
  with assms show ?thesis
    by (cases rule: enqueue_cases[of e now p d]) (auto simp: store_exec_def intro: columns_ok_same)
next
  case Claim
  obtain res d' where res: "claim e now d = (res, d')" by fastforce
  then have "commands d' = commands d"
    by (cases res) (auto dest: claim_error elim!: claim_ok simp: claimed_db_def)
  with assms Claim res show ?thesis by (auto simp: store_exec_def intro: columns_ok_same)
next
  case (StartCommand cs)
  show ?thesis
  proof (cases rule: start_command_cases[of e now cs d])
    case 1
    with assms StartCommand show ?thesis by (simp add: store_exec_def)
  next
    case 2
    have "\<exists>xs ys. c_args_json (new_command_row (rowid e) now cs) = marshal_strings xs \<and>
        c_env_json (new_command_row (rowid e) now cs) = marshal_strings ys"
      by (auto simp: new_command_row_def)
    with 2(3) assms StartCommand show ?thesis by (simp add: store_exec_def columns_ok_def)
  qed
next
  case (CompleteCommand k res)
  show ?thesis
  proof (cases rule: complete_command_cases[of e now k res d])
    case 1
    with assms CompleteCommand show ?thesis by (simp add: store_exec_def)
  next
    case (2 f)
    with columns_ok_update[OF assms 2(3)] CompleteCommand show ?thesis by (simp add: store_exec_def)
  qed
next
  case (Succeed m k)
  obtain res d' where res: "succeed e now m k d = (res, d')" by fastforce
  then have "commands d' = commands d"
    by (cases res) (auto dest!: succeed_error succeed_ok(1) simp: succeeded_db_def)
  with assms Succeed res show ?thesis by (auto simp: store_exec_def intro: columns_ok_same)
next
  case (Fail m k msg delay)
  obtain res d' where res: "fail e now m k msg delay d = (res, d')" by fastforce
  have "columns_ok d'"
  proof (cases res)
    case (Inl err)
    with res assms show ?thesis by (auto dest: fail_error)
  next
    case (Inr st)
    with res obtain j where "d' = failed_db now m k msg delay j d" by (blast elim: fail_ok)
    then show ?thesis
      by (intro columns_ok_fail_commands[OF assms]) (simp add: failed_db_def Let_def)
  qed
  with Fail res show ?thesis by (simp add: store_exec_def)
next
  case RecoverRunning
  obtain res d' where res: "recover_running e now d = (res, d')" by fastforce
  have "columns_ok d'"
  proof (cases res)
    case (Inl err)
    with res assms show ?thesis by (auto dest: recover_error)
  next
    case (Inr n)
    with res have "d' = recovered_db (unix_nano now) d" by (auto dest: recover_ok(1))
    then show ?thesis
      by (intro columns_ok_fail_commands[OF assms]) (simp add: recovered_db_def)
  qed
  with RecoverRunning res show ?thesis by (simp add: store_exec_def)
qed

lemma columns_ok_steps: "store_steps d cs d' \<Longrightarrow> columns_ok d \<Longrightarrow> columns_ok d'"
  by (induction rule: store_steps.induct) (auto elim!: store_stepE intro: columns_ok_step)

lemma reachable_columns: "reachable d \<Longrightarrow> columns_ok d"
  unfolding reachable_def using columns_ok_steps by (fastforce simp: columns_ok_def empty_db_def)

lemma commands_of_run_set: "set (commands_of_run i d) = {c \<in> set (commands d). c_run_id c = i}"
  by (simp add: commands_of_run_def)

lemma sorted_first_component: "sorted (map (\<lambda>x. (f x :: int, g x :: int)) xs) \<Longrightarrow> sorted (map f xs)"
  by (induction xs) (auto simp: less_eq_prod_def)

lemma commands_of_run_sequences:
  assumes "commands_ok d"
  shows "sorted_wrt (<) (map c_sequence (commands_of_run i d))"
proof -
  let ?cs = "filter (\<lambda>c. c_run_id c = i) (commands d)"
  have "inj_on (\<lambda>c. (c_run_id c, c_sequence c)) (set ?cs)" "distinct ?cs"
    using assms by (auto simp: commands_ok_def distinct_map inj_on_def)
  then have "distinct (map c_sequence ?cs)"
    by (auto simp: distinct_map inj_on_def)
  then have dist: "distinct (map c_sequence (commands_of_run i d))"
    by (simp add: commands_of_run_def distinct_map)
  have "sorted (map (\<lambda>c. (c_sequence c, c_id c)) (commands_of_run i d))"
    unfolding commands_of_run_def by (rule sorted_sort_key)
  then have "sorted (map c_sequence (commands_of_run i d))"
    by (rule sorted_first_component)
  with dist show ?thesis by (simp add: strict_sorted_iff)
qed

lemma start_command_guards:
  assumes "start_command e now cs d = (Inr i, d')"
  shows "\<not> cs_run_id cs \<le> 0 \<and> \<not> cs_sequence cs < 0 \<and> \<not> blank (cs_program cs) \<and> \<not> cs_timeout cs < 0"
  using assms unfolding start_command_def by (simp only: split: if_splits) simp_all

lemma start_command_ok:
  assumes "start_command e now cs d = (Inr i, d')"
  shows "i = rowid e" and "commands d' = commands d @ [new_command_row (rowid e) now cs]"
proof -
  let ?n = "rows_affected (\<lambda>r. r_id r = cs_run_id cs \<and> r_status r = StatusRunning) (runs d)"
  have "i = rowid e \<and> require_one_row e 1 ?n = None \<and> d' = (if ?n = 0 then d
                 else d\<lparr>commands := commands d @ [new_command_row (rowid e) now cs],
                        commands_seq := rowid e\<rparr>)"
    using assms start_command_guards[OF assms]
    by (simp add: start_command_def Let_def cong: if_cong) (simp split: option.splits if_splits)
  moreover from this have "?n = 1" by (blast dest: require_one_row_None)
  ultimately show "i = rowid e" and "commands d' = commands d @ [new_command_row (rowid e) now cs]"
    by simp_all
qed

lemma scan_command_ok:
  assumes "c_args_json c = marshal_strings xs" and "c_env_json c = marshal_strings ys"
  shows "\<exists>x. scan_command je c = Inr x \<and> ce_id x = c_id c \<and> ce_sequence x = c_sequence c \<and>
    ce_program x = c_program c \<and> ce_status x = c_status c \<and>
    ce_args x = map (\<lambda>s. of_runes (runes s)) xs \<and> ce_env x = map (\<lambda>s. of_runes (runes s)) ys"
  using assms by (simp add: scan_command_def unmarshal_marshal)

lemma list_all2_maps: "list_all2 R xs ys \<Longrightarrow> (\<And>x y. R x y \<Longrightarrow> f x = g y) \<Longrightarrow> map g ys = map f xs"
  by (induction rule: list_all2_induct) auto

text \<open>Command history is readable and faithful: once \<open>StartCommand\<close> recorded a command, listing
  the commands of its run succeeds, orders them strictly by their sequence number, and shows that
  command as running with the program, arguments and environment it was started with (invalid UTF-8
  replaced).\<close>

theorem started_command_listed:
  assumes "reachable d" and "fresh_rowid e d" and "start_command e now cs d = (Inr i, d')"
    and "reply e' = (\<lambda>_. None)"
  shows "\<exists>xs. list_commands e' json_error (cs_run_id cs) d' = Inr xs \<and> sorted_wrt (<) (map ce_sequence xs) \<and>
    (\<exists>x \<in> set xs. ce_id x = i \<and> ce_sequence x = cs_sequence cs \<and> ce_program x = cs_program cs \<and>
       ce_args x = map (\<lambda>s. of_runes (runes s)) (cs_args cs) \<and>
       ce_env x = map (\<lambda>s. of_runes (runes s)) (cs_env cs) \<and> ce_status x = CommandRunning)"
proof -
  have reach: "reachable d'"
    using reachable_exec[OF assms(1,2), of now "StartCommand cs"] assms(3) by (simp add: store_exec_def)
  let ?rows = "commands_of_run (cs_run_id cs) d'"
  have scans: "\<exists>x. scan_command json_error c = Inr x" if "c \<in> set ?rows" for c
    using that reachable_columns[OF reach] scan_command_ok[of c] by (fastforce simp: commands_of_run_set columns_ok_def)
  from scan_rows_ok[of ?rows "scan_command json_error", OF scans] obtain xs where
    xs: "scan_rows (scan_command json_error) ?rows = Inr xs"
    and all: "list_all2 (\<lambda>c x. scan_command json_error c = Inr x) ?rows xs" by blast
  have "map ce_sequence xs = map c_sequence ?rows"
    by (rule list_all2_maps[OF all]) (auto simp: scan_command_def split: option.splits)
  with commands_of_run_sequences[of d'] reachable_inv[OF reach]
  have "sorted_wrt (<) (map ce_sequence xs)" by (simp add: queue_inv_def)
  moreover
  let ?c = "new_command_row (rowid e) now cs"
  have "?c \<in> set ?rows"
    using start_command_ok(2)[OF assms(3)] by (simp add: commands_of_run_set new_command_row_def)
  from list_all2_fwd[OF all this] obtain x where "x \<in> set xs" "scan_command json_error ?c = Inr x" by blast
  with scan_command_ok[of ?c "cs_args cs" "cs_env cs" json_error] start_command_ok(1)[OF assms(3)]
  have "\<exists>x \<in> set xs. ce_id x = i \<and> ce_sequence x = cs_sequence cs \<and> ce_program x = cs_program cs \<and>
       ce_args x = map (\<lambda>s. of_runes (runes s)) (cs_args cs) \<and>
       ce_env x = map (\<lambda>s. of_runes (runes s)) (cs_env cs) \<and> ce_status x = CommandRunning"
    by (intro bexI[of _ x]) (auto simp: new_command_row_def)
  ultimately show ?thesis
    using assms(4) xs by (simp add: list_commands_def)
qed

definition demo_command :: command_start where
  "demo_command = \<lparr>cs_run_id = 2, cs_sequence = 0, cs_name = ''convert'', cs_program = ''cp'',
     cs_args = [''a b'', ''<x>''], cs_env = [''K=v''], cs_working_dir = [], cs_timeout = 0\<rparr>"

lemma demo_start_command: "start_command (ok_engine 3) 7 demo_command demo_claimed =
    (Inr 3, demo_claimed\<lparr>commands := [new_command_row 3 7 demo_command], commands_seq := 3\<rparr>)"
  by (simp add: start_command_def demo_command_def demo_defs blank_def trim_space_def command_violates_def
      require_one_row_def) code_simp

theorem started_command_listed_witness:
  "\<exists>xs. list_commands (ok_engine 9) (\<lambda>_. err_not_found) 2
     (demo_claimed\<lparr>commands := [new_command_row 3 7 demo_command], commands_seq := 3\<rparr>) = Inr xs \<and>
   (\<exists>x \<in> set xs. ce_id x = 3)"
  using started_command_listed[OF demo_reachable(2) demo_fresh(3) demo_start_command, of "ok_engine 9" "\<lambda>_. err_not_found"]
  by (auto simp: demo_command_def ok_engine_def)

end
