(* ===== verification/GoPath.thy ===== *)
theory GoPath
  imports GoString
begin

text \<open>
  What the program uses of Go's packages \<open>path\<close> and \<open>path/filepath\<close> on a Unix host: \<open>Clean\<close>,
  \<open>Join\<close>, \<open>Dir\<close>, \<open>Base\<close>, \<open>Ext\<close>, \<open>IsAbs\<close>, \<open>Abs\<close> (the working directory is an argument), \<open>Rel\<close>,
  and the shell patterns of \<open>path.Match\<close> with their syntax errors.
\<close>

section \<open>Names\<close>

abbreviation slash :: char where
  "slash \<equiv> CHR ''/''"

definition is_abs :: "string \<Rightarrow> bool" where
  "is_abs p \<longleftrightarrow> prefix ''/'' p"

text \<open>The elements of a path, walked left to right over a stack of kept elements.\<close>

fun clean_elems :: "bool \<Rightarrow> string list \<Rightarrow> string list \<Rightarrow> string list" where
  "clean_elems rooted acc [] = rev acc"
| "clean_elems rooted acc (e # es) =
    (if e = [] \<or> e = ''.'' then clean_elems rooted acc es
     else if e = ''..'' then
       (case acc of
          a # acc' \<Rightarrow> if a = ''..'' then clean_elems rooted (e # acc) es else clean_elems rooted acc' es
        | [] \<Rightarrow> if rooted then clean_elems rooted [] es else clean_elems rooted [e] es)
     else clean_elems rooted (e # acc) es)"

definition clean :: "string \<Rightarrow> string" where
  "clean p =
    (let es = clean_elems (is_abs p) [] (split_char slash p); s = join_strings ''/'' es in
     if is_abs p then slash # s else if es = [] then ''.'' else s)"

definition join_path :: "string list \<Rightarrow> string" where
  "join_path parts =
    (case filter (\<lambda>p. p \<noteq> []) parts of [] \<Rightarrow> [] | ps \<Rightarrow> clean (join_strings ''/'' ps))"

definition after_slash :: "string \<Rightarrow> string" where
  "after_slash p = rev (takeWhile (\<lambda>c. c \<noteq> slash) (rev p))"

definition upto_slash :: "string \<Rightarrow> string" where
  "upto_slash p = rev (dropWhile (\<lambda>c. c \<noteq> slash) (rev p))"

definition dir_path :: "string \<Rightarrow> string" where
  "dir_path p = clean (upto_slash p)"

definition base_path :: "string \<Rightarrow> string" where
  "base_path p =
    (if p = [] then ''.''
     else let q = rev (dropWhile (\<lambda>c. c = slash) (rev p)); b = after_slash q in
       if b = [] then ''/'' else b)"

definition ext_path :: "string \<Rightarrow> string" where
  "ext_path p =
    (let tail = after_slash p in
     if CHR ''.'' \<in> set tail
     then CHR ''.'' # rev (takeWhile (\<lambda>c. c \<noteq> CHR ''.'') (rev tail)) else [])"

definition abs_path :: "string \<Rightarrow> string \<Rightarrow> string" where
  "abs_path cwd p = (if is_abs p then clean p else join_path [cwd, p])"

definition path_elems :: "string \<Rightarrow> string list" where
  "path_elems p = filter (\<lambda>e. e \<noteq> []) (split_char slash p)"

fun drop_common :: "string list \<Rightarrow> string list \<Rightarrow> string list \<times> string list" where
  "drop_common (b # bs) (t # ts) = (if b = t then drop_common bs ts else (b # bs, t # ts))"
| "drop_common bs ts = (bs, ts)"

text \<open>\<open>filepath.Rel\<close>; \<open>None\<close> is its error.\<close>

definition rel_path :: "string \<Rightarrow> string \<Rightarrow> string option" where
  "rel_path base targ =
    (let b = clean base; t = clean targ in
     if t = b then Some ''.''
     else if is_abs b \<noteq> is_abs t then None
     else
       (case drop_common (if b = ''.'' then [] else path_elems b) (path_elems t) of
          (bs, ts) \<Rightarrow>
            if bs \<noteq> [] \<and> hd bs = ''..'' then None
            else Some (join_strings ''/'' (replicate (length bs) ''..'' @ ts))))"

section \<open>Patterns\<close>

text \<open>\<open>scanChunk\<close>: leading stars, the chunk up to the next star outside a character class, the rest.\<close>

fun chunk_split :: "bool \<Rightarrow> string \<Rightarrow> string \<times> string" where
  "chunk_split inrange [] = ([], [])"
| "chunk_split inrange (c # s) =
    (if c = CHR 0x5C then
       (case s of
          [] \<Rightarrow> ([c], [])
        | d # s' \<Rightarrow> (case chunk_split inrange s' of (x, y) \<Rightarrow> (c # d # x, y)))
     else if c = CHR ''*'' \<and> \<not> inrange then ([], c # s)
     else (case chunk_split (if c = CHR ''['' then True else if c = CHR '']'' then False else inrange) s of
             (x, y) \<Rightarrow> (c # x, y)))"

definition scan_chunk :: "string \<Rightarrow> bool \<times> string \<times> string" where
  "scan_chunk p =
    (let q = dropWhile (\<lambda>c. c = CHR ''*'') p in (prefix ''*'' p, chunk_split False q))"

text \<open>\<open>getEsc\<close>; \<open>None\<close> is \<open>ErrBadPattern\<close>.\<close>

definition get_esc :: "string \<Rightarrow> (nat \<times> string) option" where
  "get_esc chunk =
    (if chunk = [] \<or> hd chunk = CHR ''-'' \<or> hd chunk = CHR '']'' then None
     else
       (let c = (if hd chunk = CHR 0x5C then tl chunk else chunk) in
        if c = [] then None
        else (case decode_rune c of (r, n) \<Rightarrow>
          if r = rune_error \<and> n = 1 then None
          else if drop n c = [] then None else Some (r, drop n c))))"

lemma get_esc_shorter: "get_esc chunk = Some (r, rest) \<Longrightarrow> length rest < length chunk"
proof -
  assume esc: "get_esc chunk = Some (r, rest)"
  define c where "c = (if hd chunk = CHR 0x5C then tl chunk else chunk)"
  from esc have "c \<noteq> []" "rest = drop (snd (decode_rune c)) c"
    by (auto simp: get_esc_def c_def Let_def split: if_splits prod.splits)
  moreover from this obtain a s where c: "c = a # s" by (cases c) auto
  ultimately have "length rest < length c" using decode_rune_size[of a s] by simp
  also have "length c \<le> length chunk" by (simp add: c_def)
  finally show ?thesis .
qed

text \<open>The ranges of a character class up to its closing bracket: whether one of them holds \<open>r\<close>.\<close>

function class_ranges :: "nat \<Rightarrow> bool \<Rightarrow> bool \<Rightarrow> string \<Rightarrow> (bool \<times> string) option" where
  "class_ranges r some_range matched chunk =
    (if chunk \<noteq> [] \<and> hd chunk = CHR '']'' \<and> some_range then Some (matched, tl chunk)
     else
       (case get_esc chunk of
          None \<Rightarrow> None
        | Some (lo, c1) \<Rightarrow>
            (case (if hd c1 = CHR ''-'' then get_esc (tl c1) else Some (lo, c1)) of
               None \<Rightarrow> None
             | Some (hi, c2) \<Rightarrow> class_ranges r True (matched \<or> (lo \<le> r \<and> r \<le> hi)) c2)))"
  by pat_completeness auto
termination
proof (relation "measure (\<lambda>(r, b, m, c). length c)", simp, clarify)
  fix r b m chunk lo c1 hi c2
  assume "get_esc chunk = Some (lo, c1)"
    and "(if hd c1 = CHR ''-'' then get_esc (tl c1) else Some (lo, c1)) = Some (hi, c2)"
  then have "length c2 \<le> length c1" "length c1 < length chunk"
    by (auto split: if_splits dest!: get_esc_shorter)
  then show "((r, True, m \<or> (lo \<le> r \<and> r \<le> hi), c2), (r, b, m, chunk)) \<in> measure (\<lambda>(r, b, m, c). length c)"
    by simp
qed

declare class_ranges.simps [simp del]

lemma class_ranges_shorter: "class_ranges r b m chunk = Some (x, rest) \<Longrightarrow> length rest \<le> length chunk"
proof (induction r b m chunk arbitrary: x rest rule: class_ranges.induct)
  case (1 r b m chunk)
  show ?case
  proof (cases "chunk \<noteq> [] \<and> hd chunk = CHR '']'' \<and> b")
    case True
    with "1.prems" show ?thesis by (subst (asm) class_ranges.simps) auto
  next
    case False
    with "1.prems" obtain lo c1 hi c2 where esc: "get_esc chunk = Some (lo, c1)"
      "(if hd c1 = CHR ''-'' then get_esc (tl c1) else Some (lo, c1)) = Some (hi, c2)"
      and rest: "class_ranges r True (m \<or> (lo \<le> r \<and> r \<le> hi)) c2 = Some (x, rest)"
      by (subst (asm) class_ranges.simps) (auto split: option.splits)
    from esc have "length c2 \<le> length chunk"
      by (auto split: if_splits dest!: get_esc_shorter)
    with "1.IH"[OF False esc(1) refl esc(2) refl rest] show ?thesis by simp
  qed
qed

text \<open>
  \<open>matchChunk\<close>: the rest of \<open>s\<close> and whether the chunk matched, or \<open>None\<close> for a bad pattern. After
  a mismatch (\<open>failed\<close>) the chunk is still parsed and \<open>s\<close> no longer read.
\<close>

function match_chunk :: "bool \<Rightarrow> string \<Rightarrow> string \<Rightarrow> (string \<times> bool) option" where
  "match_chunk failed0 [] s = Some (if failed0 then ([], False) else (s, True))"
| "match_chunk failed0 (c # chunk) s =
    (let failed = failed0 \<or> s = [] in
     if c = CHR ''['' then
       (let (r, n) = (if failed then (0, 0) else decode_rune s);
            negated = (chunk \<noteq> [] \<and> hd chunk = CHR ''^'') in
        case class_ranges r False False (if negated then tl chunk else chunk) of
          None \<Rightarrow> None
        | Some (matched, chunk') \<Rightarrow> match_chunk (failed \<or> matched = negated) chunk' (drop n s))
     else if c = CHR ''?'' then
       match_chunk (failed \<or> hd s = slash) chunk (if failed then s else drop (snd (decode_rune s)) s)
     else if c = CHR 0x5C then
       (case chunk of
          [] \<Rightarrow> None
        | d # chunk' \<Rightarrow> match_chunk (failed \<or> d \<noteq> hd s) chunk' (if failed then s else tl s))
     else match_chunk (failed \<or> c \<noteq> hd s) chunk (if failed then s else tl s))"
  by pat_completeness auto
termination
proof (relation "measure (\<lambda>(f, c, s). length c)", goal_cases)
  case (2 f c chunk s failed p r n negated x matched chunk')
  then show ?case
    using class_ranges_shorter[of r False False "if negated then tl chunk else chunk" matched chunk']
    by (auto split: if_splits)
qed auto

declare match_chunk.simps(2) [simp del]

text \<open>The inner loop of a star: the first later position, before any slash, where the chunk matches.\<close>

fun star_search :: "string \<Rightarrow> bool \<Rightarrow> string \<Rightarrow> string option option" where
  "star_search chunk final [] = Some None"
| "star_search chunk final (c # name) =
    (if c = slash then Some None
     else (case match_chunk False chunk name of
             None \<Rightarrow> None
           | Some (t, ok) \<Rightarrow>
               if ok \<and> \<not> (final \<and> t \<noteq> []) then Some (Some t) else star_search chunk final name))"

lemma scan_chunk_length:
  assumes "scan_chunk (c # p) = (star, chunk, rest)"
  shows "length rest < length (c # p)"
proof -
  have split_len: "chunk_split b q = (x, y) \<Longrightarrow> length x + length y = length q" for b q x y
    by (induction b q arbitrary: x y rule: chunk_split.induct)
      (auto split: if_splits list.splits prod.splits)
  show ?thesis
  proof (cases "c = CHR ''*''")
    case True
    with assms have "chunk_split False (dropWhile (\<lambda>c. c = CHR ''*'') p) = (chunk, rest)"
      by (simp add: scan_chunk_def)
    from split_len[OF this] have "length rest \<le> length (dropWhile (\<lambda>c. c = CHR ''*'') p)" by simp
    also have "\<dots> \<le> length p" by (rule length_dropWhile_le)
    finally show ?thesis by simp
  next
    case False
    with assms have cs: "chunk_split False (c # p) = (chunk, rest)" by (simp add: scan_chunk_def)
    with False have "chunk \<noteq> []" by (auto split: if_splits list.splits prod.splits)
    with split_len[OF cs] show ?thesis by (cases chunk) auto
  qed
qed

text \<open>The rest of a pattern is parsed even after a mismatch.\<close>

function check_rest :: "string \<Rightarrow> bool option" where
  "check_rest [] = Some False"
| "check_rest (c # p) =
    (case scan_chunk (c # p) of
       (star, chunk, rest) \<Rightarrow> if match_chunk False chunk [] = None then None else check_rest rest)"
  by pat_completeness auto
termination
  by (relation "measure length") (auto dest!: scan_chunk_length[OF sym])

declare check_rest.simps(2) [simp del]

text \<open>\<open>path.Match\<close>: whether the pattern matches the name, or \<open>None\<close> for \<open>ErrBadPattern\<close>.\<close>

function path_match :: "string \<Rightarrow> string \<Rightarrow> bool option" where
  "path_match [] name = Some (name = [])"
| "path_match (c # p) name =
    (case scan_chunk (c # p) of
       (star, chunk, rest) \<Rightarrow>
         if star \<and> chunk = [] then Some (slash \<notin> set name)
         else
           (case match_chunk False chunk name of
              None \<Rightarrow> None
            | Some (t, ok) \<Rightarrow>
                if ok \<and> (t = [] \<or> rest \<noteq> []) then path_match rest t
                else if star then
                  (case star_search chunk (rest = []) name of
                     None \<Rightarrow> None
                   | Some (Some t') \<Rightarrow> path_match rest t'
                   | Some None \<Rightarrow> check_rest rest)
                else check_rest rest))"
  by pat_completeness auto
termination
  by (relation "measure (\<lambda>(p, n). length p)") (auto dest!: scan_chunk_length[OF sym])

declare path_match.simps(2) [simp del]

section \<open>Syntax errors do not depend on the name\<close>

lemma class_ranges_syntax:
  "map_option snd (class_ranges r b m chunk) = map_option snd (class_ranges r' b m' chunk)"
proof (induction r b m chunk arbitrary: m' rule: class_ranges.induct)
  case (1 r b m chunk)
  show ?case
  proof (cases "chunk \<noteq> [] \<and> hd chunk = CHR '']'' \<and> b")
    case True
    then show ?thesis by (simp add: class_ranges.simps[of _ _ _ chunk])
  next
    case False
    show ?thesis
    proof (cases "get_esc chunk")
      case None
      with False show ?thesis by (simp add: class_ranges.simps[of _ _ _ chunk])
    next
      case (Some lc)
      obtain lo c1 where lc: "lc = (lo, c1)" by fastforce
      show ?thesis
      proof (cases "if hd c1 = CHR ''-'' then get_esc (tl c1) else Some (lo, c1)")
        case None
        with False Some lc show ?thesis by (auto simp: class_ranges.simps[of _ _ _ chunk])
      next
        case (Some hc)
        obtain hi c2 where "hc = (hi, c2)" by fastforce
        with "1.IH"[OF False \<open>get_esc chunk = Some lc\<close> lc[symmetric] Some this[symmetric]] False Some lc \<open>get_esc chunk = Some lc\<close>
        show ?thesis by (auto simp: class_ranges.simps[of _ _ _ chunk])
      qed
    qed
  qed
qed

lemma match_chunk_syntax: "match_chunk f chunk s = None \<longleftrightarrow> match_chunk f' chunk s' = None"
proof (induction chunk arbitrary: f s f' s' rule: measure_induct_rule[of length])
  case (less chunk)
  show ?case
  proof (cases chunk)
    case Nil
    then show ?thesis by simp
  next
    case (Cons c rest)
    note IH = less[unfolded Cons]
    show ?thesis
    proof (cases "c = CHR ''[''")
      case True
      let ?k = "if rest \<noteq> [] \<and> hd rest = CHR ''^'' then tl rest else rest"
      define K where "K = map_option snd (class_ranges 0 False False ?k)"
      have bracket: "match_chunk g (c # rest) t = None \<longleftrightarrow>
          (case K of
             None \<Rightarrow> True | Some k \<Rightarrow> match_chunk True k [] = None)" for g t
      proof -
        obtain r n where rn: "(if g \<or> t = [] then (0, 0) else decode_rune t) = (r, n)" by fastforce
        have same: "K = map_option snd (class_ranges r False False ?k)"
          unfolding K_def by (rule class_ranges_syntax)
        have unfold: "match_chunk g (c # rest) t =
            (case class_ranges r False False ?k of
               None \<Rightarrow> None
             | Some (m, k) \<Rightarrow>
                 match_chunk ((g \<or> t = []) \<or> m = (rest \<noteq> [] \<and> hd rest = CHR ''^'')) k (drop n t))"
          using rn True by (simp add: match_chunk.simps(2) Let_def)
        show ?thesis
        proof (cases "class_ranges r False False ?k")
          case None
          with same show ?thesis by (simp add: unfold)
        next
          case (Some mk)
          obtain m k where mk: "mk = (m, k)" by fastforce
          from Some mk class_ranges_shorter[of r False False ?k m k] have "length k < length (c # rest)"
            by (auto split: if_splits)
          then have "match_chunk ((g \<or> t = []) \<or> m = (rest \<noteq> [] \<and> hd rest = CHR ''^'')) k (drop n t) = None \<longleftrightarrow>
              match_chunk True k [] = None" by (rule IH)
          moreover from same Some mk have "K = Some k" by simp
          ultimately show ?thesis using Some mk unfolding unfold by simp
        qed
      qed
      show ?thesis unfolding Cons bracket ..
    next
      case False
      show ?thesis
      proof (cases "c = CHR 0x5C")
        case True
        have "match_chunk g (c # rest) t = None \<longleftrightarrow> rest = [] \<or> match_chunk True (tl rest) [] = None" for g t
        proof (cases rest)
          case Nil
          with True False show ?thesis by (simp add: match_chunk.simps(2))
        next
          case (Cons d r)
          with True False IH[of r "(g \<or> t = []) \<or> d \<noteq> hd t" "if g \<or> t = [] then t else tl t" True "[]"]
          show ?thesis by (simp add: match_chunk.simps(2) Let_def)
        qed
        then show ?thesis unfolding Cons by simp
      next
        case nb: False
        have "match_chunk g (c # rest) t = None \<longleftrightarrow> match_chunk True rest [] = None" for g t
        proof (cases "c = CHR ''?''")
          case True
          with IH[of rest "(g \<or> t = []) \<or> hd t = slash"
              "if g \<or> t = [] then t else drop (snd (decode_rune t)) t" True "[]"]
          show ?thesis by (simp add: match_chunk.simps(2) Let_def)
        next
          case nq: False
          with nb False IH[of rest "(g \<or> t = []) \<or> c \<noteq> hd t" "if g \<or> t = [] then t else tl t" True "[]"]
          show ?thesis by (simp add: match_chunk.simps(2) Let_def)
        qed
        then show ?thesis unfolding Cons by simp
      qed
    qed
  qed
qed

definition pattern_ok :: "string \<Rightarrow> bool" where
  "pattern_ok p \<longleftrightarrow> check_rest p \<noteq> None"

lemma star_search_error: "star_search chunk final name = None \<Longrightarrow> match_chunk False chunk [] = None"
proof (induction name)
  case (Cons c name)
  show ?case
  proof (cases "match_chunk False chunk name")
    case None
    then show ?thesis using match_chunk_syntax by blast
  next
    case (Some tk)
    with Cons show ?thesis by (cases tk) (simp split: if_splits)
  qed
qed simp

lemma chunk_split_nonempty: "a \<noteq> CHR ''*'' \<Longrightarrow> fst (chunk_split False (a # q)) \<noteq> []"
  by (subst chunk_split.simps(2)) (simp split: list.split prod.split del: chunk_split.simps)

lemma scan_chunk_star:
  assumes "scan_chunk p = (True, [], rest)"
  shows "rest = []"
proof -
  let ?q = "dropWhile (\<lambda>c. c = CHR ''*'') p"
  from assms have cs: "chunk_split False ?q = ([], rest)" by (simp add: scan_chunk_def)
  show ?thesis
  proof (cases ?q)
    case Nil
    with cs show ?thesis by simp
  next
    case (Cons a q)
    have "a \<noteq> CHR ''*''"
      using hd_dropWhile[of "\<lambda>c. c = CHR ''*''" p] Cons by simp
    from chunk_split_nonempty[OF this, of q] cs have False unfolding Cons by simp
    then show ?thesis ..
  qed
qed

lemma path_match_syntax: "path_match p name = None \<longleftrightarrow> \<not> pattern_ok p"
proof (induction p name rule: path_match.induct)
  case (1 name)
  show ?case by (simp add: pattern_ok_def)
next
  case (2 c p name)
  obtain star chunk rest where scan: "scan_chunk (c # p) = (star, chunk, rest)" by (metis prod_cases3)
  have check: "check_rest (c # p) = (if match_chunk False chunk [] = None then None else check_rest rest)"
    by (simp add: check_rest.simps(2) scan)
  show ?case
  proof (cases "star \<and> chunk = []")
    case True
    with scan scan_chunk_star[of "c # p" rest] have "rest = []" by simp
    with True check scan show ?thesis by (simp add: path_match.simps(2) pattern_ok_def)
  next
    case False
    show ?thesis
    proof (cases "match_chunk False chunk name")
      case None
      with match_chunk_syntax[of False chunk name False "[]"] have "match_chunk False chunk [] = None" by simp
      with None False check scan show ?thesis by (simp add: path_match.simps(2) pattern_ok_def)
    next
      case (Some tk)
      obtain t ok where tk: "tk = (t, ok)" by fastforce
      have "match_chunk False chunk [] \<noteq> None"
        using Some match_chunk_syntax[of False chunk name False "[]"] by simp
      moreover from this have "star_search chunk (rest = []) name \<noteq> None"
        by (rule contrapos_nn) (rule star_search_error)
      ultimately have check': "check_rest (c # p) = check_rest rest"
        and search: "star_search chunk (rest = []) name \<noteq> None" using check by auto
      have unfold: "path_match (c # p) name =
          (if ok \<and> (t = [] \<or> rest \<noteq> []) then path_match rest t
           else if star then
             (case the (star_search chunk (rest = []) name) of Some t' \<Rightarrow> path_match rest t' | None \<Rightarrow> check_rest rest)
           else check_rest rest)"
        using search False Some tk scan by (auto simp: path_match.simps(2))
      consider (match) "ok \<and> (t = [] \<or> rest \<noteq> [])"
        | (skip) t' where "\<not> (ok \<and> (t = [] \<or> rest \<noteq> []))" "star" "star_search chunk (rest = []) name = Some (Some t')"
        | (fail) "path_match (c # p) name = check_rest rest"
        using search unfold
        by (cases "ok \<and> (t = [] \<or> rest \<noteq> [])"; cases star; cases "star_search chunk (rest = []) name";
            cases "the (star_search chunk (rest = []) name)") simp_all
      then show ?thesis
      proof cases
        case match
        with "2.IH"(1)[OF scan[symmetric] refl False Some tk[symmetric]] unfold check' show ?thesis
          by (simp add: pattern_ok_def)
      next
        case skip
        with "2.IH"(2)[OF scan[symmetric] refl False Some tk[symmetric] skip(1,2,3) refl] unfold check' show ?thesis
          by (simp add: pattern_ok_def)
      next
        case fail
        with check' show ?thesis by (simp add: pattern_ok_def)
      qed
    qed
  qed
qed

end
