(* ===== verification/CommandConfig.thy ===== *)
theory CommandConfig
  imports GoPath
begin

text \<open>
  One pipeline step of \<open>internal/config/config.go\<close>: its data, the argument vector it runs as
  (\<open>ExecutionArgs\<close>), and the checks of \<open>ValidateExecution\<close>. A Go map is an association list
  with distinct keys, in the order an iteration over it visits the keys.
\<close>

type_synonym string_map = "(string \<times> string) list"

section \<open>Data\<close>

record mount_config =
  m_source :: string
  m_target :: string
  m_options :: "string list"

record command_config =
  c_name :: string
  c_executor :: string
  c_program :: string
  c_args :: "string list"
  c_image :: string
  c_mounts :: "mount_config list"
  c_container_env :: string_map
  c_container_args :: "string list"
  c_command :: string
  c_command_args :: "string list"
  c_timeout :: duration
  c_working_dir :: string
  c_output :: string
  c_env :: string_map
  c_structured_container :: bool
  c_container_command_set :: bool
  c_raw_args_set :: bool
  c_container_fields_set :: bool

abbreviation "ExecutorCommand \<equiv> ''command''"
abbreviation "ExecutorShell \<equiv> ''shell''"
abbreviation "ExecutorDocker \<equiv> ''docker''"
abbreviation "ExecutorPodman \<equiv> ''podman''"
abbreviation "ExecutorApptainer \<equiv> ''apptainer''"

definition executor_valid :: "string \<Rightarrow> bool" where
  "executor_valid x \<longleftrightarrow> x \<in> {ExecutorCommand, ExecutorShell, ExecutorDocker, ExecutorPodman, ExecutorApptainer}"

definition default_program :: "string \<Rightarrow> string" where
  "default_program x =
    (if x = ExecutorShell then ''/bin/sh''
     else if x \<in> {ExecutorDocker, ExecutorPodman, ExecutorApptainer} then x else [])"

section \<open>CSV records\<close>

text \<open>\<open>csv.Writer\<close>'s \<open>fieldNeedsQuotes\<close> for the comma, and its quoting.\<close>

definition field_needs_quotes :: "string \<Rightarrow> bool" where
  "field_needs_quotes f \<longleftrightarrow>
    f \<noteq> [] \<and>
    (f = [CHR 0x5C, CHR ''.''] \<or>
     list_ex (\<lambda>c. c = CHR 0x0A \<or> c = CHR 0x0D \<or> c = CHR 0x22 \<or> c = CHR '','') f \<or>
     0 < leading_space f)"

definition quote_char :: "char \<Rightarrow> string" where
  "quote_char c = (if c = CHR 0x22 then [CHR 0x22, CHR 0x22] else [c])"

definition csv_field :: "string \<Rightarrow> string" where
  "csv_field f =
    (if field_needs_quotes f then [CHR 0x22] @ concat (map quote_char f) @ [CHR 0x22] else f)"

text \<open>\<open>formatCSVFields\<close>: one record, without its line end. A record of one empty field is written as
  a bare line, as the writer does.\<close>

definition format_csv_fields :: "string list \<Rightarrow> string" where
  "format_csv_fields fs = join_strings '','' (map csv_field fs)"

text \<open>
  \<open>csv.Reader\<close> with its default settings: \<open>\r\n\<close> becomes \<open>\n\<close> everywhere and a last \<open>\r\<close> is
  dropped, empty lines are skipped, fields are quoted (with doubled quotes) or plain up to the next
  comma or line end. \<open>None\<close> is a syntax error.
\<close>

fun csv_normalise :: "string \<Rightarrow> string" where
  "csv_normalise [] = []"
| "csv_normalise (c # s) =
    (if c = CHR 0x0D then
       (case s of [] \<Rightarrow> [] | d # s' \<Rightarrow> if d = CHR 0x0A then csv_normalise s else c # csv_normalise s)
     else c # csv_normalise s)"

fun csv_quoted :: "string \<Rightarrow> (string \<times> string) option" where
  "csv_quoted [] = None"
| "csv_quoted (c # s) =
    (if c = CHR 0x22 then
       (case s of
          d # s' \<Rightarrow> if d = CHR 0x22 then map_option (\<lambda>(f, r). (CHR 0x22 # f, r)) (csv_quoted s') else Some ([], s)
        | [] \<Rightarrow> Some ([], s))
     else map_option (\<lambda>(f, r). (c # f, r)) (csv_quoted s))"

lemma csv_quoted_shorter: "csv_quoted s = Some (f, r) \<Longrightarrow> length r < length s"
  by (induction s arbitrary: f rule: csv_quoted.induct)
    (fastforce split: if_splits list.splits simp del: split_paired_Ex)+

definition plain_char :: "char \<Rightarrow> bool" where
  "plain_char c \<longleftrightarrow> c \<noteq> CHR '','' \<and> c \<noteq> CHR 0x0A"

definition csv_plain :: "string \<Rightarrow> (string \<times> string) option" where
  "csv_plain s =
    (if CHR 0x22 \<in> set (takeWhile plain_char s) then None
     else Some (takeWhile plain_char s, dropWhile plain_char s))"

text \<open>One record: its fields and the input after its line end.\<close>

function csv_record :: "string \<Rightarrow> (string list \<times> string) option" where
  "csv_record s =
    (case (if s \<noteq> [] \<and> hd s = CHR 0x22 then csv_quoted (tl s) else csv_plain s) of
       None \<Rightarrow> None
     | Some (f, r) \<Rightarrow>
         (case r of
            [] \<Rightarrow> Some ([f], [])
          | d # r' \<Rightarrow>
              if d = CHR '','' then map_option (\<lambda>(fs, u). (f # fs, u)) (csv_record r')
              else if d = CHR 0x0A then Some ([f], r')
              else None))"
  by pat_completeness auto
termination
proof (relation "measure length", goal_cases)
  case (2 s p f r d r')
  then show ?case
    using csv_quoted_shorter[of "tl s" f "d # r'"] length_dropWhile_le[of plain_char s]
    by (cases s) (auto simp: csv_plain_def split: if_splits)
qed simp

declare csv_record.simps [simp del]

text \<open>The fields of an input that holds exactly one record.\<close>

definition read_csv :: "string \<Rightarrow> string list option" where
  "read_csv s =
    (case dropWhile (\<lambda>c. c = CHR 0x0A) (csv_normalise s) of
       [] \<Rightarrow> None
     | c # t \<Rightarrow>
         (case csv_record (c # t) of
            None \<Rightarrow> None
          | Some (fs, r) \<Rightarrow> if list_all (\<lambda>c. c = CHR 0x0A) r then Some fs else None))"

section \<open>The argument vector\<close>

definition uses_structured_container :: "command_config \<Rightarrow> bool" where
  "uses_structured_container c \<longleftrightarrow>
    c_structured_container c \<or> c_image c \<noteq> [] \<or> c_mounts c \<noteq> [] \<or> c_container_env c \<noteq> [] \<or>
    c_container_args c \<noteq> [] \<or> c_command c \<noteq> [] \<or> c_command_args c \<noteq> []"

definition uses_container_fields :: "command_config \<Rightarrow> bool" where
  "uses_container_fields c \<longleftrightarrow>
    c_container_fields_set c \<or> c_image c \<noteq> [] \<or> c_mounts c \<noteq> [] \<or> c_container_env c \<noteq> [] \<or>
    c_container_args c \<noteq> []"

definition format_apptainer_environment :: "string \<Rightarrow> string" where
  "format_apptainer_environment environment =
    format_csv_fields
      (if count_list environment (CHR ''='') = 1 \<and> CHR 0x22 \<in> set environment
       then [environment, environment] else [environment])"

definition format_bind_mount :: "mount_config \<Rightarrow> string" where
  "format_bind_mount m =
    format_csv_fields ([''type=bind'', ''source='' @ m_source m, ''target='' @ m_target m] @ m_options m)"

definition environment_args :: "command_config \<Rightarrow> string list" where
  "environment_args c =
    concat (map (\<lambda>key.
      (let environment = key @ ''='' @ the (map_of (c_container_env c) key) in
       [''--env'', if c_executor c = ExecutorApptainer then format_apptainer_environment environment
                 else environment]))
      (sort_strings (map fst (c_container_env c))))"

definition execution_args :: "command_config \<Rightarrow> string list" where
  "execution_args c =
    (if c_executor c = ExecutorShell then [''-c'', c_command c, c_name c] @ c_command_args c
     else if \<not> uses_structured_container c then c_args c
     else
       [if c_executor c = ExecutorApptainer \<and> c_command c \<noteq> [] then ''exec'' else ''run''] @
       (if c_executor c = ExecutorApptainer then [''--no-eval''] else []) @
       c_container_args c @
       concat (map (\<lambda>m. [''--mount'', format_bind_mount m]) (c_mounts c)) @
       environment_args c @
       [c_image c] @
       (if c_command c \<noteq> [] then [c_command c] else []) @
       c_command_args c)"

section \<open>Validation\<close>

definition reserved_template_names :: "string list" where
  "reserved_template_names = [''file'', ''dir'', ''basename'', ''stem'', ''ext'', ''job_id'']"

definition template :: "string \<Rightarrow> string" where
  "template name = ''{{'' @ name @ ''}}''"

text \<open>The least template that occurs in the value, or the empty string.\<close>

definition built_in_per_job_template :: "string \<Rightarrow> string" where
  "built_in_per_job_template value =
    fold (\<lambda>name first. if contains value (template name) \<and> (first = [] \<or> template name \<noteq> first \<and> string_le (template name) first)
                       then template name else first) reserved_template_names []"

definition validate_shell :: "command_config \<Rightarrow> go_error option" where
  "validate_shell c =
    (if c_raw_args_set c \<or> c_args c \<noteq> []
       then Some (new_error ''args are not supported by the shell executor; use command_args for positional arguments'')
     else if uses_container_fields c
       then Some (new_error ''container fields are not supported by the shell executor'')
     else if blank (c_command c)
       then Some (new_error ''command is required and must not be blank for the shell executor'')
     else if built_in_per_job_template (c_command c) \<noteq> []
       then Some (ErrorString [T ''command must not contain the built-in per-job template '',
              T (built_in_per_job_template (c_command c)),
              T ''; pass per-job values through command_args or env''])
     else None)"

definition file_template :: string where
  "file_template = ''{{file}}''"

definition dir_template :: string where
  "dir_template = ''{{dir}}''"

definition reserved_bind_mount_option_key :: "string \<Rightarrow> bool" where
  "reserved_bind_mount_option_key key \<longleftrightarrow>
    key \<in> {''type'', ''source'', ''src'', ''target'', ''destination'', ''dest'', ''dst''}"

definition container_target_can_be_absolute :: "string \<Rightarrow> bool" where
  "container_target_can_be_absolute target \<longleftrightarrow>
    is_abs target \<or> prefix file_template target \<or> prefix dir_template target"

text \<open>The first error of a loop over indexed elements.\<close>

fun first_error :: "('a \<Rightarrow> int \<Rightarrow> go_error option) \<Rightarrow> int \<Rightarrow> 'a list \<Rightarrow> go_error option" where
  "first_error check i [] = None"
| "first_error check i (x # xs) =
    (case check x i of Some e \<Rightarrow> Some e | None \<Rightarrow> first_error check (i + 1) xs)"

definition or_else :: "go_error option \<Rightarrow> go_error option \<Rightarrow> go_error option" where
  "or_else a b = (case a of Some e \<Rightarrow> Some e | None \<Rightarrow> b)"

definition check_mount_option :: "int \<Rightarrow> string \<Rightarrow> int \<Rightarrow> go_error option" where
  "check_mount_option index opt opt_index =
    (let at = (\<lambda>what. [T ''mounts['', D index, T ''].options['', D opt_index, T ''] '', T what]);
         key = fst (cut_char (CHR ''='') opt) in
     if blank opt then Some (ErrorString (at ''must not be blank''))
     else if CHR 0x00 \<in> set opt then Some (ErrorString (at ''must not contain a NUL byte''))
     else if blank key then Some (ErrorString (at ''must have a non-blank key''))
     else if reserved_bind_mount_option_key key
       then Some (ErrorString (at ''must not override reserved bind mount field '' @ [Q key]))
     else None)"

definition check_mount :: "mount_config \<Rightarrow> int \<Rightarrow> go_error option" where
  "check_mount m index =
    (if blank (m_source m) then Some (ErrorString [T ''mounts['', D index, T ''].source is required''])
     else if blank (m_target m) then Some (ErrorString [T ''mounts['', D index, T ''].target is required''])
     else if \<not> container_target_can_be_absolute (m_target m)
       then Some (ErrorString [T ''mounts['', D index, T ''].target must be an absolute container path''])
     else first_error (check_mount_option index) 0 (m_options m))"

definition bad_variable_name :: "string \<Rightarrow> bool" where
  "bad_variable_name key \<longleftrightarrow> key = [] \<or> CHR ''='' \<in> set key \<or> CHR 0x00 \<in> set key"

definition validate_structured_container :: "command_config \<Rightarrow> go_error option" where
  "validate_structured_container c =
    (if c_args c \<noteq> []
       then Some (new_error ''args cannot be combined with structured container fields; use container_args and command_args'')
     else if blank (c_image c) then Some (new_error ''image is required for structured container execution'')
     else if (c_container_command_set c \<or> c_command c \<noteq> []) \<and> blank (c_command c)
       then Some (new_error ''command must not be blank'')
     else or_else (first_error check_mount 0 (c_mounts c))
       (or_else
         (first_error (\<lambda>kv i. if bad_variable_name (fst kv)
             then Some (ErrorString [T ''container_env contains invalid variable name '', Q (fst kv)]) else None)
           0 (c_container_env c))
         (first_error (\<lambda>a i. if a = ''--'' then Some (ErrorString [T ''container_args['', D i,
             T ''] must not be -- because generated mount and environment options follow container_args'']) else None)
           0 (c_container_args c))))"

definition validate_execution :: "command_config \<Rightarrow> go_error option" where
  "validate_execution c =
    (if c_executor c = ExecutorShell then validate_shell c
     else if \<not> uses_structured_container c then None
     else validate_structured_container c)"

section \<open>CSV records read back\<close>

lemma csv_quoted_encoded:
  assumes "r = [] \<or> hd r \<noteq> CHR 0x22"
  shows "csv_quoted (concat (map quote_char f) @ CHR 0x22 # r) = Some (f, r)"
proof (induction f)
  case Nil
  from assms show ?case by (cases r) auto
next
  case (Cons c f)
  then show ?case by (cases "c = CHR 0x22") (simp_all add: quote_char_def)
qed

lemma csv_field_plain:
  "\<not> field_needs_quotes f \<Longrightarrow> \<forall>c \<in> set f. plain_char c \<and> c \<noteq> CHR 0x22 \<and> c \<noteq> CHR 0x0D"
  by (auto simp: field_needs_quotes_def list_ex_iff plain_char_def)

lemma csv_record_field:
  assumes "r = [] \<or> hd r = CHR '','' \<or> hd r = CHR 0x0A"
  shows "(let s = csv_field f @ r in if s \<noteq> [] \<and> hd s = CHR 0x22 then csv_quoted (tl s) else csv_plain s) = Some (f, r)"
proof (cases "field_needs_quotes f")
  case True
  with assms csv_quoted_encoded[of r f] show ?thesis by (auto simp: csv_field_def)
next
  case False
  note plain = csv_field_plain[OF False]
  have "hd (f @ r) \<noteq> CHR 0x22" if "f @ r \<noteq> []"
    using plain assms that by (cases f) auto
  moreover have "takeWhile plain_char (f @ r) = f" "dropWhile plain_char (f @ r) = r"
    using plain assms by (cases r; auto simp: plain_char_def)+
  ultimately show ?thesis using plain False by (auto simp: csv_field_def csv_plain_def Let_def)
qed

lemma csv_record_last: "csv_record (csv_field f) = Some ([f], [])"
  using csv_record_field[of "[]" f] by (subst csv_record.simps) (simp add: Let_def)

lemma csv_record_more:
  "csv_record (csv_field f @ CHR '','' # s) = map_option (\<lambda>(fs, u). (f # fs, u)) (csv_record s)"
  using csv_record_field[of "CHR '','' # s" f] by (subst csv_record.simps) (simp add: Let_def)

lemma csv_record_format: "fs \<noteq> [] \<Longrightarrow> csv_record (format_csv_fields fs) = Some (fs, [])"
proof (induction fs rule: list_nonempty_induct)
  case (single f)
  then show ?case by (simp add: format_csv_fields_def csv_record_last)
next
  case (cons f fs)
  then obtain g gs where "fs = g # gs" by (cases fs) auto
  with cons show ?case by (simp add: format_csv_fields_def csv_record_more)
qed

text \<open>Without \<open>\r\n\<close> in a field the reader's line-end rules change nothing.\<close>

definition no_crlf :: "string \<Rightarrow> bool" where
  "no_crlf s = successively (\<lambda>a b. \<not> (a = CHR 0x0D \<and> b = CHR 0x0A)) s"

lemma csv_normalise_id: "no_crlf s \<Longrightarrow> s = [] \<or> last s \<noteq> CHR 0x0D \<Longrightarrow> csv_normalise s = s"
proof (induction s)
  case (Cons c s)
  then show ?case by (cases s) (auto simp: no_crlf_def)
qed simp

lemma no_crlf_append:
  "no_crlf (a @ b) \<longleftrightarrow> no_crlf a \<and> no_crlf b \<and> (a = [] \<or> b = [] \<or> \<not> (last a = CHR 0x0D \<and> hd b = CHR 0x0A))"
  by (auto simp: no_crlf_def successively_append_iff)

lemma no_crlf_Cons:
  "no_crlf (c # s) \<longleftrightarrow> (s = [] \<or> \<not> (c = CHR 0x0D \<and> hd s = CHR 0x0A)) \<and> no_crlf s"
  by (cases s) (auto simp: no_crlf_def)

lemma no_crlf_Nil [simp]: "no_crlf []"
  by (simp add: no_crlf_def)

lemma no_crlf_quoted: "no_crlf f \<Longrightarrow> no_crlf (concat (map quote_char f))"
proof (induction f)
  case (Cons c f)
  then show ?case
    by (cases f) (auto simp: no_crlf_def quote_char_def)
qed (simp add: no_crlf_def)

lemma csv_field_crlf:
  assumes "no_crlf f"
  shows "no_crlf (csv_field f)" and "csv_field f \<noteq> [] \<Longrightarrow> last (csv_field f) \<noteq> CHR 0x0D"
    and "csv_field f \<noteq> [] \<Longrightarrow> hd (csv_field f) \<noteq> CHR 0x0A"
proof -
  have "no_crlf ([CHR 0x22] @ concat (map quote_char f) @ [CHR 0x22])"
    using no_crlf_quoted[OF assms] by (simp add: no_crlf_append no_crlf_Cons)
  with assms show "no_crlf (csv_field f)" by (simp add: csv_field_def)
  show "last (csv_field f) \<noteq> CHR 0x0D" if "csv_field f \<noteq> []"
  proof (cases "field_needs_quotes f")
    case False
    with that csv_field_plain[OF False] show ?thesis by (auto simp: csv_field_def)
  qed (simp add: csv_field_def)
  show "hd (csv_field f) \<noteq> CHR 0x0A" if "csv_field f \<noteq> []"
  proof (cases "field_needs_quotes f")
    case False
    with that csv_field_plain[OF False] show ?thesis by (cases f) (auto simp: csv_field_def plain_char_def)
  qed (simp add: csv_field_def)
qed

lemma format_crlf:
  assumes "\<forall>f \<in> set fs. no_crlf f" and "fs \<noteq> []"
  shows "no_crlf (format_csv_fields fs)"
    and "format_csv_fields fs \<noteq> [] \<Longrightarrow> last (format_csv_fields fs) \<noteq> CHR 0x0D"
    and "format_csv_fields fs \<noteq> [] \<Longrightarrow> hd (format_csv_fields fs) \<noteq> CHR 0x0A"
proof -
  have "no_crlf (format_csv_fields fs) \<and>
      (format_csv_fields fs \<noteq> [] \<longrightarrow> last (format_csv_fields fs) \<noteq> CHR 0x0D \<and> hd (format_csv_fields fs) \<noteq> CHR 0x0A)"
    using assms(2,1)
  proof (induction fs rule: list_nonempty_induct)
    case (single f)
    with csv_field_crlf[of f] show ?case by (simp add: format_csv_fields_def)
  next
    case (cons f fs)
    then obtain g gs where g: "fs = g # gs" by (cases fs) auto
    have split: "format_csv_fields (f # fs) = csv_field f @ [CHR '',''] @ format_csv_fields fs"
      by (simp add: format_csv_fields_def g)
    have "no_crlf (csv_field f @ [CHR '',''] @ format_csv_fields fs)"
      using cons csv_field_crlf[of f] by (simp add: no_crlf_append no_crlf_Cons)
    moreover have "hd (csv_field f @ [CHR '',''] @ format_csv_fields fs) \<noteq> CHR 0x0A"
      using cons.prems csv_field_crlf(3)[of f] by (cases "csv_field f") auto
    moreover have "last (csv_field f @ [CHR '',''] @ format_csv_fields fs) \<noteq> CHR 0x0D"
      using cons by (cases "format_csv_fields fs = []") auto
    ultimately show ?case unfolding split by blast
  qed
  then show "no_crlf (format_csv_fields fs)"
    and "format_csv_fields fs \<noteq> [] \<Longrightarrow> last (format_csv_fields fs) \<noteq> CHR 0x0D"
    and "format_csv_fields fs \<noteq> [] \<Longrightarrow> hd (format_csv_fields fs) \<noteq> CHR 0x0A" by auto
qed

lemma read_format_csv:
  assumes "\<forall>f \<in> set fs. no_crlf f" and "format_csv_fields fs \<noteq> []"
  shows "read_csv (format_csv_fields fs) = Some fs"
proof -
  have fs: "fs \<noteq> []" using assms(2) by (auto simp: format_csv_fields_def)
  let ?s = "format_csv_fields fs"
  have "csv_normalise ?s = ?s"
    using format_crlf(1,2)[OF assms(1) fs] assms(2) by (intro csv_normalise_id) auto
  moreover have "dropWhile (\<lambda>c. c = CHR 0x0A) ?s = ?s"
    using format_crlf(3)[OF assms(1) fs] assms(2) by (cases ?s) auto
  moreover obtain c t where "?s = c # t" using assms(2) by (cases ?s) auto
  ultimately show ?thesis
    using csv_record_format[OF fs] by (simp add: read_csv_def)
qed

lemma first_error_None: "first_error check i xs = None \<longleftrightarrow> (\<forall>k < length xs. check (xs ! k) (i + int k) = None)"
proof (induction xs arbitrary: i)
  case (Cons x xs)
  have "(\<forall>k < Suc (length xs). check ((x # xs) ! k) (i + int k) = None) \<longleftrightarrow>
      check x i = None \<and> (\<forall>k < length xs. check (xs ! k) (i + 1 + int k) = None)"
    by (auto simp: less_Suc_eq_0_disj ac_simps)
  with Cons show ?case by (simp split: option.split)
qed simp

lemma first_error_all:
  assumes "first_error check i xs = None" and "x \<in> set xs"
  shows "\<exists>k. check x k = None"
proof -
  from assms(2) obtain k where "k < length xs" "xs ! k = x" by (auto simp: in_set_conv_nth)
  with assms(1) show ?thesis by (auto simp: first_error_None)
qed

lemma or_else_None [simp]: "or_else a b = None \<longleftrightarrow> a = None \<and> b = None"
  by (simp add: or_else_def split: option.splits)

lemma mount_option_ok:
  "check_mount_option i opt k = None \<Longrightarrow>
    \<not> blank opt \<and> \<not> blank (fst (cut_char (CHR ''='') opt)) \<and>
    \<not> reserved_bind_mount_option_key (fst (cut_char (CHR ''='') opt))"
  by (simp add: check_mount_option_def Let_def split: if_splits)

lemma format_csv_nonempty: "f \<noteq> [] \<Longrightarrow> format_csv_fields (f # fs) \<noteq> []"
  by (cases fs) (auto simp: format_csv_fields_def csv_field_def)

lemma no_crlf_literal: "no_crlf ''type=bind''" "no_crlf (''source='' @ s) = no_crlf s" "no_crlf (''target='' @ s) = no_crlf s"
  by (cases s; simp add: no_crlf_def)+

text \<open>A mount that passes validation becomes exactly the bind mount it describes: the one
  argument handed to the runtime reads back, with Go's CSV reader, as the type, the source, the target
  and the options, whatever commas, quotes or single line ends they contain, and no option repeats a
  field that would redirect the mount.\<close>

theorem mount_argument_exact:
  assumes "check_mount m i = None" and "\<forall>s \<in> set (m_source m # m_target m # m_options m). no_crlf s"
  shows "read_csv (format_bind_mount m) =
      Some ([''type=bind'', ''source='' @ m_source m, ''target='' @ m_target m] @ m_options m) \<and>
    container_target_can_be_absolute (m_target m) \<and>
    (\<forall>opt \<in> set (m_options m). \<not> reserved_bind_mount_option_key (fst (cut_char (CHR ''='') opt)))"
proof -
  have options: "first_error (check_mount_option i) 0 (m_options m) = None"
    and target: "container_target_can_be_absolute (m_target m)"
    using assms(1) by (simp_all add: check_mount_def split: if_splits)
  have "\<not> reserved_bind_mount_option_key (fst (cut_char (CHR ''='') opt))" if opt: "opt \<in> set (m_options m)" for opt
  proof -
    from first_error_all[OF options opt] obtain k where "check_mount_option i opt k = None" by (elim exE)
    from mount_option_ok[OF this] show ?thesis by simp
  qed
  moreover have "read_csv (format_bind_mount m) =
      Some ([''type=bind'', ''source='' @ m_source m, ''target='' @ m_target m] @ m_options m)"
    unfolding format_bind_mount_def append_Cons append_Nil
    by (rule read_format_csv[OF _ format_csv_nonempty]) (use assms(2) no_crlf_literal in auto)
  ultimately show ?thesis using target by simp
qed

definition demo_mount :: mount_config where
  "demo_mount = \<lparr>m_source = ''/in,put'', m_target = ''/data'', m_options = [''ro'']\<rparr>"

lemma demo_mount_ok: "check_mount demo_mount 0 = None"
  by code_simp

theorem mount_argument_exact_witness:
  "read_csv (format_bind_mount demo_mount) = Some [''type=bind'', ''source=/in,put'', ''target=/data'', ''ro'']"
  using mount_argument_exact[OF demo_mount_ok] by (simp add: demo_mount_def no_crlf_def)

text \<open>An environment assignment for Apptainer stays one variable: the encoded value reads back as a
  CSV record whose fields are all that same assignment, so commas and quotes in a value never add an
  environment entry.\<close>

theorem apptainer_environment_exact:
  assumes "no_crlf v" and "v \<noteq> []"
  shows "\<exists>fs. read_csv (format_apptainer_environment v) = Some fs \<and> set fs = {v}"
proof -
  have "read_csv (format_csv_fields [v]) = Some [v]" "read_csv (format_csv_fields [v, v]) = Some [v, v]"
    using assms by (intro read_format_csv format_csv_nonempty; simp)+
  then show ?thesis by (simp add: format_apptainer_environment_def)
qed

theorem apptainer_environment_exact_witness:
  "\<exists>fs. read_csv (format_apptainer_environment ''K=a,\"B=c\"'') = Some fs \<and> set fs = {''K=a,\"B=c\"''}"
  using apptainer_environment_exact[of "''K=a,\"B=c\"''"] by (simp add: no_crlf_def)

text \<open>Windows line ends are the exception: a mount source with \<open>\r\n\<close> validates, but the encoded
  argument reads back as a different source, because the reader rewrites \<open>\r\n\<close> inside quotes.\<close>

theorem mount_crlf_not_exact:
  "\<exists>m. check_mount m 0 = None \<and> read_csv (format_bind_mount m) \<noteq>
    Some ([''type=bind'', ''source='' @ m_source m, ''target='' @ m_target m] @ m_options m)"
  by (rule exI[of _ "\<lparr>m_source = [CHR ''/'', CHR ''a'', CHR 0x0D, CHR 0x0A, CHR ''b''], m_target = ''/data'', m_options = []\<rparr>"])
    code_simp

end
