(* ===== verification/ConfigValues.thy ===== *)
theory ConfigValues
  imports CommandConfig
begin

text \<open>
  Config-local template values (\<open>internal/config/values.go\<close>): the checks of their names, the
  depth-first resolution of references between them with its cycle error, and their replacement in
  the pipeline. The recursion of \<open>resolve\<close> runs on fuel, and \<open>resolution_total\<close> shows that one
  more unit than there are keys is always enough.
\<close>

section \<open>Definitions\<close>

definition is_letter :: "char \<Rightarrow> bool" where
  "is_letter c \<longleftrightarrow> (97 \<le> byte c \<and> byte c \<le> 122) \<or> (65 \<le> byte c \<and> byte c \<le> 90)"

definition is_digit_byte :: "char \<Rightarrow> bool" where
  "is_digit_byte c \<longleftrightarrow> 48 \<le> byte c \<and> byte c \<le> 57"

definition valid_template_value_name :: "string \<Rightarrow> bool" where
  "valid_template_value_name name =
    (case name of
       [] \<Rightarrow> False
     | c # cs \<Rightarrow> (is_letter c \<or> c = CHR ''_'') \<and>
                 list_all (\<lambda>d. is_letter d \<or> is_digit_byte d \<or> d = CHR ''_'') cs)"

text \<open>The local variables of \<open>resolveTemplateValues\<close>: the state of each key (0, 1 and 2 in the source),
  the results, the call stack.\<close>

datatype visit = Unvisited | InProgress | Done

record resolution =
  rs_state :: "string \<Rightarrow> visit"
  rs_resolved :: "string \<rightharpoonup> string"
  rs_stack :: "string list"

type_synonym 'a resolving = "resolution \<Rightarrow> ('a \<times> resolution) result option"

text \<open>The candidates that occur in a value, in the order of the sorted keys.\<close>

definition references :: "string_map \<Rightarrow> string list \<Rightarrow> string \<Rightarrow> string list" where
  "references values keys key =
    filter (\<lambda>c. contains (the (map_of values key)) (template c)) keys"

fun resolve_all :: "(string \<Rightarrow> string resolving) \<Rightarrow> string list \<Rightarrow> (string \<times> string) list resolving" where
  "resolve_all f [] st = Some (Inr ([], st))"
| "resolve_all f (c # cs) st =
    (case f c st of
       None \<Rightarrow> None
     | Some (Inl e) \<Rightarrow> Some (Inl e)
     | Some (Inr (v, st1)) \<Rightarrow>
         (case resolve_all f cs st1 of
            None \<Rightarrow> None
          | Some (Inl e) \<Rightarrow> Some (Inl e)
          | Some (Inr (pairs, st2)) \<Rightarrow> Some (Inr ((template c, v) # pairs, st2))))"

definition cycle_error :: "string list \<Rightarrow> string \<Rightarrow> go_error" where
  "cycle_error stack key =
    ErrorString [T ''values contain a reference cycle: '',
      T (join_strings '' -> '' (dropWhile (\<lambda>k. k \<noteq> key) stack @ [key]))]"

fun resolve :: "nat \<Rightarrow> string_map \<Rightarrow> string list \<Rightarrow> string \<Rightarrow> string resolving" where
  "resolve 0 values keys key st = None"
| "resolve (Suc n) values keys key st =
    (if rs_state st key = Done then Some (Inr (the (rs_resolved st key), st))
     else if rs_state st key = InProgress then Some (Inl (cycle_error (rs_stack st) key))
     else
       (case resolve_all (resolve n values keys) (references values keys key)
               (st\<lparr>rs_state := (rs_state st)(key := InProgress), rs_stack := rs_stack st @ [key]\<rparr>) of
          None \<Rightarrow> None
        | Some (Inl e) \<Rightarrow> Some (Inl e)
        | Some (Inr (pairs, st1)) \<Rightarrow>
            (let raw = the (map_of values key); v = (if pairs = [] then raw else replace pairs raw) in
             Some (Inr (v, st1\<lparr>rs_stack := butlast (rs_stack st1), rs_state := (rs_state st1)(key := Done),
                               rs_resolved := (rs_resolved st1)(key \<mapsto> v)\<rparr>)))))"

definition start_resolution :: resolution where
  "start_resolution = \<lparr>rs_state = (\<lambda>_. Unvisited), rs_resolved = Map.empty, rs_stack = []\<rparr>"

definition check_value_name :: "string \<Rightarrow> go_error option" where
  "check_value_name key =
    (if \<not> valid_template_value_name key
       then Some (ErrorString [T ''values contains invalid key '', Q key,
         T ''; keys must start with a letter or underscore and contain only letters, digits, and underscores''])
     else if key \<in> set reserved_template_names
       then Some (ErrorString [T ''values key '', Q key,
         T '' is reserved for the built-in template {{'', T key, T ''}}''])
     else None)"

definition value_keys :: "string_map \<Rightarrow> string list" where
  "value_keys values = sort_strings (map fst values)"

definition resolve_template_values :: "string_map \<Rightarrow> string_map result option" where
  "resolve_template_values values =
    (case first_error (\<lambda>kv i. check_value_name (fst kv)) 0 values of
       Some e \<Rightarrow> Some (Inl e)
     | None \<Rightarrow>
         (let keys = value_keys values in
          case resolve_all (resolve (Suc (length keys)) values keys) keys start_resolution of
            None \<Rightarrow> None
          | Some (Inl e) \<Rightarrow> Some (Inl e)
          | Some (Inr (pairs, st)) \<Rightarrow> Some (Inr (map (\<lambda>k. (k, the (rs_resolved st k))) keys))))"

definition template_value_replacer :: "string_map \<Rightarrow> string \<Rightarrow> string" where
  "template_value_replacer values =
    replace (map (\<lambda>k. (template k, the (map_of values k))) (value_keys values))"

definition map_values :: "(string \<Rightarrow> string) \<Rightarrow> string_map \<Rightarrow> string_map" where
  "map_values f m = map (\<lambda>(k, v). (k, f v)) m"

definition expand_mount :: "(string \<Rightarrow> string) \<Rightarrow> mount_config \<Rightarrow> mount_config" where
  "expand_mount f m = m\<lparr>m_source := f (m_source m), m_target := f (m_target m), m_options := map f (m_options m)\<rparr>"

definition expand_command_values :: "(string \<Rightarrow> string) \<Rightarrow> command_config \<Rightarrow> command_config" where
  "expand_command_values f c =
    c\<lparr>c_args := map f (c_args c), c_image := f (c_image c), c_container_args := map f (c_container_args c),
      c_command := f (c_command c), c_command_args := map f (c_command_args c),
      c_working_dir := f (c_working_dir c), c_output := f (c_output c),
      c_mounts := map (expand_mount f) (c_mounts c),
      c_container_env := map_values f (c_container_env c), c_env := map_values f (c_env c)\<rparr>"

section \<open>Resolution always ends\<close>

definition white :: "string list \<Rightarrow> resolution \<Rightarrow> nat" where
  "white keys st = card {k \<in> set keys. rs_state st k = Unvisited}"

lemma resolve_all_total:
  assumes step: "\<And>c st. c \<in> set cs \<Longrightarrow> white keys st \<le> n \<Longrightarrow>
      \<exists>r. f c st = Some r \<and> (\<forall>v st'. r = Inr (v, st') \<longrightarrow> white keys st' \<le> white keys st)"
    and "white keys st \<le> n"
  shows "\<exists>r. resolve_all f cs st = Some r \<and> (\<forall>v st'. r = Inr (v, st') \<longrightarrow> white keys st' \<le> white keys st)"
  using assms
proof (induction cs arbitrary: st)
  case (Cons c cs)
  from Cons.prems(1)[of c st] Cons.prems(2) obtain r where
    r: "f c st = Some r" "\<forall>v st'. r = Inr (v, st') \<longrightarrow> white keys st' \<le> white keys st" by auto
  show ?case
  proof (cases r)
    case (Inl e)
    with r show ?thesis by simp
  next
    case (Inr p)
    obtain v st1 where p: "p = (v, st1)" by fastforce
    with r Inr have le: "white keys st1 \<le> white keys st" by simp
    with Cons.prems have "white keys st1 \<le> n" by simp
    from Cons.IH[OF Cons.prems(1) this] obtain r' where
      "resolve_all f cs st1 = Some r'" "\<forall>v st'. r' = Inr (v, st') \<longrightarrow> white keys st' \<le> white keys st1"
      by auto
    with r Inr p le show ?thesis by (cases r') fastforce+
  qed
qed simp

lemma white_mark:
  assumes "key \<in> set keys" and "rs_state st key = Unvisited"
  shows "Suc (white keys (st\<lparr>rs_state := (rs_state st)(key := InProgress), rs_stack := s\<rparr>)) = white keys st"
proof -
  have "{k \<in> set keys. rs_state st k = Unvisited} =
      insert key {k \<in> set keys. ((rs_state st)(key := InProgress)) k = Unvisited}"
    using assms by auto
  then show ?thesis by (simp add: white_def)
qed

lemma white_le: "(\<And>k. rs_state st' k = Unvisited \<Longrightarrow> rs_state st k = Unvisited) \<Longrightarrow> white keys st' \<le> white keys st"
  unfolding white_def by (intro card_mono) auto

lemma resolve_total:
  assumes "key \<in> set keys" and "white keys st \<le> n"
  shows "\<exists>r. resolve (Suc n) values keys key st = Some r \<and>
    (\<forall>v st'. r = Inr (v, st') \<longrightarrow> white keys st' \<le> white keys st)"
  using assms
proof (induction n arbitrary: key st)
  case 0
  then have "rs_state st key \<noteq> Unvisited" by (auto simp: white_def)
  then show ?case by (cases "rs_state st key") auto
next
  case (Suc n)
  show ?case
  proof (cases "rs_state st key = Unvisited")
    case False
    then show ?thesis by (cases "rs_state st key") auto
  next
    case True
    let ?st = "st\<lparr>rs_state := (rs_state st)(key := InProgress), rs_stack := rs_stack st @ [key]\<rparr>"
    have mark: "Suc (white keys ?st) = white keys st"
      using white_mark[of key keys st "rs_stack st @ [key]"] Suc.prems(1) True by simp
    have "\<exists>r. resolve_all (resolve (Suc n) values keys) (references values keys key) ?st = Some r \<and>
        (\<forall>v st'. r = Inr (v, st') \<longrightarrow> white keys st' \<le> white keys ?st)"
      by (rule resolve_all_total[where n = n])
        (use Suc.IH Suc.prems mark in \<open>auto simp: references_def simp del: resolve.simps\<close>)
    then obtain r where r: "resolve_all (resolve (Suc n) values keys) (references values keys key) ?st = Some r"
      "\<And>v st'. r = Inr (v, st') \<Longrightarrow> white keys st' \<le> white keys ?st" by blast
    show ?thesis
    proof (cases r)
      case (Inl e)
      with r(1) True show ?thesis by (simp del: resolve.simps add: resolve.simps(2)[of "Suc n"])
    next
      case (Inr p)
      obtain pairs st1 where p: "p = (pairs, st1)" by fastforce
      let ?v = "if pairs = [] then the (map_of values key) else replace pairs (the (map_of values key))"
      let ?st2 = "st1\<lparr>rs_stack := butlast (rs_stack st1), rs_state := (rs_state st1)(key := Done),
                      rs_resolved := (rs_resolved st1)(key \<mapsto> ?v)\<rparr>"
      have "white keys ?st2 \<le> white keys st1" by (rule white_le) (simp split: if_splits)
      with r(2)[of pairs st1] Inr p mark have "white keys ?st2 \<le> white keys st" by simp
      moreover have "resolve (Suc (Suc n)) values keys key st = Some (Inr (?v, ?st2))"
        using r(1) Inr p True by (simp del: resolve.simps add: resolve.simps(2)[of "Suc n"] Let_def)
      ultimately show ?thesis by blast
    qed
  qed
qed

lemma resolution_total: "resolve_template_values values \<noteq> None"
proof -
  let ?keys = "value_keys values"
  have "white ?keys start_resolution \<le> length ?keys"
    by (auto simp: white_def intro: order_trans[OF card_mono card_length])
  then have "\<exists>r. resolve_all (resolve (Suc (length ?keys)) values ?keys) ?keys start_resolution = Some r \<and>
      (\<forall>v st'. r = Inr (v, st') \<longrightarrow> white ?keys st' \<le> white ?keys start_resolution)"
    by (intro resolve_all_total[where n = "length ?keys"] resolve_total) auto
  then show ?thesis
    by (auto simp: resolve_template_values_def Let_def split: option.splits sum.splits)
qed

section \<open>What it computes\<close>

definition refers :: "string_map \<Rightarrow> string list \<Rightarrow> string \<Rightarrow> string \<Rightarrow> bool" where
  "refers values keys a b \<longleftrightarrow> b \<in> set (references values keys a)"

text \<open>A value is its text with every reference replaced by the value of the key it names.\<close>

definition value_of :: "string_map \<Rightarrow> string list \<Rightarrow> (string \<rightharpoonup> string) \<Rightarrow> string \<Rightarrow> string" where
  "value_of values keys resolved key =
    replace (map (\<lambda>c. (template c, the (resolved c))) (references values keys key)) (the (map_of values key))"

text \<open>Finished keys, newest first: each refers to older ones only.\<close>

fun finished_order :: "string_map \<Rightarrow> string list \<Rightarrow> string list \<Rightarrow> bool" where
  "finished_order values keys [] \<longleftrightarrow> True"
| "finished_order values keys (k # L) \<longleftrightarrow>
    set (references values keys k) \<subseteq> set L \<and> finished_order values keys L"

definition resolution_inv :: "string_map \<Rightarrow> string list \<Rightarrow> resolution \<Rightarrow> bool" where
  "resolution_inv values keys st \<longleftrightarrow>
    {k. rs_state st k = InProgress} = set (rs_stack st) \<and>
    successively (refers values keys) (rs_stack st) \<and>
    (\<exists>L. set L = {k. rs_state st k = Done} \<and> finished_order values keys L) \<and>
    (\<forall>k. rs_state st k = Done \<longrightarrow> rs_resolved st k = Some (value_of values keys (rs_resolved st) k))"

lemma finished_refs: "finished_order values keys L \<Longrightarrow> k \<in> set L \<Longrightarrow> set (references values keys k) \<subseteq> set L"
  by (induction L) auto

lemma resolution_inv_refs:
  "resolution_inv values keys st \<Longrightarrow> rs_state st k = Done \<Longrightarrow> c \<in> set (references values keys k) \<Longrightarrow> rs_state st c = Done"
  unfolding resolution_inv_def using finished_refs by blast

text \<open>A state after a call: same stack, the invariant, and what was finished is kept.\<close>

definition resolves_to :: "string_map \<Rightarrow> string list \<Rightarrow> resolution \<Rightarrow> resolution \<Rightarrow> bool" where
  "resolves_to values keys st st' \<longleftrightarrow>
    resolution_inv values keys st' \<and> rs_stack st' = rs_stack st \<and>
    (\<forall>k. rs_state st k = Done \<longrightarrow> rs_state st' k = Done \<and> rs_resolved st' k = rs_resolved st k)"

definition genuine_cycle :: "string_map \<Rightarrow> string list \<Rightarrow> go_error \<Rightarrow> bool" where
  "genuine_cycle values keys e \<longleftrightarrow>
    (\<exists>cyc. e = ErrorString [T ''values contain a reference cycle: '', T (join_strings '' -> '' cyc)] \<and>
       2 \<le> length cyc \<and> hd cyc = last cyc \<and> successively (refers values keys) cyc)"

definition callable :: "string_map \<Rightarrow> string list \<Rightarrow> resolution \<Rightarrow> string \<Rightarrow> bool" where
  "callable values keys st key \<longleftrightarrow> rs_stack st \<noteq> [] \<longrightarrow> refers values keys (last (rs_stack st)) key"

lemma cycle_error_genuine:
  assumes "resolution_inv values keys st" and "callable values keys st key" and "rs_state st key = InProgress"
  shows "genuine_cycle values keys (cycle_error (rs_stack st) key)"
proof -
  let ?tail = "dropWhile (\<lambda>k. k \<noteq> key) (rs_stack st)"
  from assms have mem: "key \<in> set (rs_stack st)" and succ: "successively (refers values keys) (rs_stack st)"
    by (auto simp: resolution_inv_def)
  then have ne: "?tail \<noteq> []" by auto
  have hd: "hd ?tail = key" using hd_dropWhile[OF ne] by simp
  have split: "rs_stack st = takeWhile (\<lambda>k. k \<noteq> key) (rs_stack st) @ ?tail" by simp
  then have last: "last (rs_stack st) = last ?tail" using ne by (metis last_appendR)
  have "successively (refers values keys) ?tail"
    using succ successively_append_iff[of "refers values keys" "takeWhile (\<lambda>k. k \<noteq> key) (rs_stack st)" ?tail]
    by simp
  moreover have "refers values keys (last ?tail) key"
    using assms(2) mem last by (auto simp: callable_def)
  ultimately have "successively (refers values keys) (?tail @ [key])"
    using ne by (simp add: successively_append_iff)
  moreover have "2 \<le> length (?tail @ [key])" using ne by (cases ?tail) auto
  moreover have "hd (?tail @ [key]) = last (?tail @ [key])" using ne hd by simp
  ultimately show ?thesis
    unfolding genuine_cycle_def cycle_error_def by blast
qed

lemma resolve_all_spec:
  assumes step: "\<And>c st r. c \<in> set cs \<Longrightarrow> resolution_inv values keys st \<Longrightarrow> callable values keys st c \<Longrightarrow>
      f c st = Some r \<Longrightarrow>
      (case r of Inl e \<Rightarrow> genuine_cycle values keys e
       | Inr (v, st') \<Rightarrow> resolves_to values keys st st' \<and> rs_state st' c = Done \<and> rs_resolved st' c = Some v)"
    and "resolution_inv values keys st" and "\<And>c. c \<in> set cs \<Longrightarrow> callable values keys st c"
    and "resolve_all f cs st = Some r"
  shows "case r of Inl e \<Rightarrow> genuine_cycle values keys e
    | Inr (pairs, st') \<Rightarrow> resolves_to values keys st st' \<and> (\<forall>c \<in> set cs. rs_state st' c = Done) \<and>
        pairs = map (\<lambda>c. (template c, the (rs_resolved st' c))) cs"
  using assms
proof (induction cs arbitrary: st r)
  case Nil
  then show ?case by (auto simp: resolves_to_def)
next
  case (Cons c cs)
  from Cons.prems(4) obtain q where q: "f c st = Some q" by (auto split: option.splits)
  with Cons.prems have spec: "case q of Inl e \<Rightarrow> genuine_cycle values keys e
       | Inr (v, st') \<Rightarrow> resolves_to values keys st st' \<and> rs_state st' c = Done \<and> rs_resolved st' c = Some v"
    by simp
  show ?case
  proof (cases q)
    case (Inl e)
    with q Cons.prems(4) have "r = Inl e" by simp
    with spec Inl show ?thesis by simp
  next
    case (Inr vs)
    obtain v st1 where vs: "vs = (v, st1)" by fastforce
    with Inr spec have st1: "resolves_to values keys st st1" "rs_state st1 c = Done" "rs_resolved st1 c = Some v"
      by simp_all
    from Cons.prems(4) q Inr vs obtain q2 where q2: "resolve_all f cs st1 = Some q2"
      by (auto split: option.splits)
    have call1: "callable values keys st1 d" if "d \<in> set cs" for d
      using Cons.prems(3)[of d] that st1(1) by (simp add: callable_def resolves_to_def)
    have inv1: "resolution_inv values keys st1" using st1(1) by (simp add: resolves_to_def)
    have spec2: "case q2 of Inl e \<Rightarrow> genuine_cycle values keys e
      | Inr (pairs, st') \<Rightarrow> resolves_to values keys st1 st' \<and> (\<forall>c \<in> set cs. rs_state st' c = Done) \<and>
          pairs = map (\<lambda>c. (template c, the (rs_resolved st' c))) cs"
      by (rule Cons.IH[OF _ inv1 call1 q2], rule Cons.prems(1)) auto
    show ?thesis
    proof (cases q2)
      case Inl2: (Inl e)
      with q2 q Inr vs Cons.prems(4) have "r = Inl e" by simp
      with spec2 Inl2 show ?thesis by simp
    next
      case Inr2: (Inr ps)
      obtain pairs st2 where ps: "ps = (pairs, st2)" by fastforce
      from Inr2 ps q2 q Inr vs Cons.prems(4) have r: "r = Inr ((template c, v) # pairs, st2)" by simp
      from spec2 Inr2 ps have st2: "resolves_to values keys st1 st2" "\<forall>c \<in> set cs. rs_state st2 c = Done"
        "pairs = map (\<lambda>c. (template c, the (rs_resolved st2 c))) cs" by simp_all
      from st1 st2 have "resolves_to values keys st st2" "rs_state st2 c = Done" "rs_resolved st2 c = Some v"
        by (auto simp: resolves_to_def)
      with st2 show ?thesis by (simp add: r)
    qed
  qed
qed

lemma resolution_inv_push:
  assumes inv: "resolution_inv values keys st" and "callable values keys st key" and "rs_state st key = Unvisited"
  shows "resolution_inv values keys
    (st\<lparr>rs_state := (rs_state st)(key := InProgress), rs_stack := rs_stack st @ [key]\<rparr>)"
proof -
  have "{k. ((rs_state st)(key := InProgress)) k = InProgress} = insert key {k. rs_state st k = InProgress}"
    "{k. ((rs_state st)(key := InProgress)) k = Done} = {k. rs_state st k = Done}"
    using assms(3) by auto
  moreover have "successively (refers values keys) (rs_stack st @ [key])"
    using inv assms(2) by (auto simp: resolution_inv_def callable_def successively_append_iff)
  moreover have "(((rs_state st)(key := InProgress)) k = Done) = (rs_state st k = Done)" for k
    using assms(3) by simp
  ultimately show ?thesis using inv by (simp add: resolution_inv_def)
qed

lemma value_of_cong:
  "(\<And>c. c \<in> set (references values keys k) \<Longrightarrow> f c = g c) \<Longrightarrow> value_of values keys f k = value_of values keys g k"
  unfolding value_of_def by (intro arg_cong2[where f = replace] map_cong) auto

lemma resolution_inv_finish:
  assumes inv: "resolution_inv values keys st" and stack: "rs_stack st = stack @ [key]" and fresh: "key \<notin> set stack"
    and refs: "\<forall>c \<in> set (references values keys key). rs_state st c = Done"
    and v: "v = value_of values keys (rs_resolved st) key"
  shows "resolution_inv values keys (st\<lparr>rs_stack := stack, rs_state := (rs_state st)(key := Done),
    rs_resolved := (rs_resolved st)(key \<mapsto> v)\<rparr>)"
proof -
  have prog: "rs_state st key = InProgress" using inv stack by (auto simp: resolution_inv_def)
  have "{k. ((rs_state st)(key := Done)) k = InProgress} = {k. rs_state st k = InProgress} - {key}" by auto
  then have "{k. ((rs_state st)(key := Done)) k = InProgress} = set stack"
    using inv stack fresh by (auto simp: resolution_inv_def)
  moreover have "successively (refers values keys) stack"
    using inv stack by (simp add: resolution_inv_def successively_append_iff)
  moreover from inv obtain L where L: "set L = {k. rs_state st k = Done}" "finished_order values keys L"
    by (auto simp: resolution_inv_def)
  have "set (key # L) = {k. ((rs_state st)(key := Done)) k = Done}" "finished_order values keys (key # L)"
    using L refs by auto
  then have "\<exists>L. set L = {k. ((rs_state st)(key := Done)) k = Done} \<and> finished_order values keys L" by blast
  moreover have "((rs_resolved st)(key \<mapsto> v)) k = Some (value_of values keys ((rs_resolved st)(key \<mapsto> v)) k)"
    if k: "((rs_state st)(key := Done)) k = Done" for k
  proof -
    have ready: "rs_state st c = Done" if "c \<in> set (references values keys k)" for c
      using refs k resolution_inv_refs[OF inv _ that] that by (cases "k = key") auto
    then have "c \<noteq> key" if "c \<in> set (references values keys k)" for c using that prog by auto
    then have same: "value_of values keys ((rs_resolved st)(key \<mapsto> v)) k = value_of values keys (rs_resolved st) k"
      by (intro value_of_cong) auto
    show ?thesis
    proof (cases "k = key")
      case True
      with same v show ?thesis by simp
    next
      case False
      with k inv same show ?thesis by (simp add: resolution_inv_def)
    qed
  qed
  ultimately show ?thesis by (simp add: resolution_inv_def)
qed

lemma resolve_spec:
  assumes "resolution_inv values keys st" and "callable values keys st key"
    and "resolve n values keys key st = Some r"
  shows "case r of Inl e \<Rightarrow> genuine_cycle values keys e
    | Inr (v, st') \<Rightarrow> resolves_to values keys st st' \<and> rs_state st' key = Done \<and> rs_resolved st' key = Some v"
  using assms
proof (induction n arbitrary: key st r)
  case (Suc n)
  show ?case
  proof (cases "rs_state st key")
    case Done
    with Suc.prems(3) have "r = Inr (the (rs_resolved st key), st)" by simp
    moreover from Suc.prems(1) Done have "\<exists>v. rs_resolved st key = Some v" by (simp add: resolution_inv_def)
    ultimately show ?thesis using Suc.prems(1) Done by (auto simp: resolves_to_def)
  next
    case InProgress
    with Suc.prems cycle_error_genuine[OF Suc.prems(1,2)] show ?thesis by auto
  next
    case Unvisited
    let ?st = "st\<lparr>rs_state := (rs_state st)(key := InProgress), rs_stack := rs_stack st @ [key]\<rparr>"
    have inv: "resolution_inv values keys ?st"
      by (rule resolution_inv_push[OF Suc.prems(1,2) Unvisited])
    have call: "callable values keys ?st c" if "c \<in> set (references values keys key)" for c
      using that by (simp add: callable_def refers_def)
    from Suc.prems(3) Unvisited obtain q where
      q: "resolve_all (resolve n values keys) (references values keys key) ?st = Some q"
      by (auto split: option.splits)
    have spec: "case q of Inl e \<Rightarrow> genuine_cycle values keys e
      | Inr (pairs, st') \<Rightarrow> resolves_to values keys ?st st' \<and>
          (\<forall>c \<in> set (references values keys key). rs_state st' c = Done) \<and>
          pairs = map (\<lambda>c. (template c, the (rs_resolved st' c))) (references values keys key)"
      by (rule resolve_all_spec[OF _ inv call q], rule Suc.IH) auto
    show ?thesis
    proof (cases q)
      case (Inl e)
      with Suc.prems(3) Unvisited q have "r = Inl e" by simp
      with spec Inl show ?thesis by simp
    next
      case (Inr ps)
      obtain pairs st1 where ps: "ps = (pairs, st1)" by fastforce
      from spec Inr ps have st1: "resolves_to values keys ?st st1"
        and ready: "\<forall>c \<in> set (references values keys key). rs_state st1 c = Done"
        and pairs: "pairs = map (\<lambda>c. (template c, the (rs_resolved st1 c))) (references values keys key)"
        by simp_all
      let ?v = "value_of values keys (rs_resolved st1) key"
      let ?st2 = "st1\<lparr>rs_stack := rs_stack st, rs_state := (rs_state st1)(key := Done),
                      rs_resolved := (rs_resolved st1)(key \<mapsto> ?v)\<rparr>"
      have v: "(if pairs = [] then the (map_of values key) else replace pairs (the (map_of values key))) = ?v"
        by (simp add: value_of_def pairs)
      have stack: "rs_stack st1 = rs_stack st @ [key]" using st1 by (simp add: resolves_to_def)
      have r: "r = Inr (?v, ?st2)"
        using Suc.prems(3) Unvisited q Inr ps v stack by (simp add: Let_def)
      have "set (rs_stack st) = {k. rs_state st k = InProgress}"
        using Suc.prems(1) by (simp add: resolution_inv_def)
      with Unvisited have "key \<notin> set (rs_stack st)" by simp
      with st1 stack ready have "resolution_inv values keys ?st2"
        by (intro resolution_inv_finish) (auto simp: resolves_to_def)
      moreover have "rs_state ?st2 k = Done \<and> rs_resolved ?st2 k = rs_resolved st k" if "rs_state st k = Done" for k
        using that st1 Unvisited by (auto simp: resolves_to_def)
      ultimately show ?thesis by (simp add: r resolves_to_def)
    qed
  qed
qed simp

text \<open>A finished order leaves no cycle.\<close>

lemma finished_order_closed:
  assumes "finished_order values keys L" and "(a, b) \<in> {(a, b). refers values keys a b}\<^sup>*" and "a \<in> set L"
  shows "b \<in> set L"
  using assms(2,3)
proof (induction rule: rtrancl_induct)
  case (step b c)
  with finished_refs[OF assms(1), of b] show ?case by (auto simp: refers_def)
qed

lemma finished_order_acyclic:
  assumes "finished_order values keys L" and "k \<in> set L"
  shows "(k, k) \<notin> {(a, b). refers values keys a b}\<^sup>+"
  using assms
proof (induction L)
  case (Cons a L)
  show ?case
  proof (cases "k \<in> set L")
    case True
    with Cons show ?thesis by simp
  next
    case False
    show ?thesis
    proof
      assume "(k, k) \<in> {(a, b). refers values keys a b}\<^sup>+"
      then obtain b where b: "refers values keys k b" "(b, k) \<in> {(a, b). refers values keys a b}\<^sup>*"
        by (auto dest: tranclD)
      from False Cons.prems have "k = a" by simp
      with b(1) Cons.prems(1) have "b \<in> set L" by (auto simp: refers_def)
      with finished_order_closed[OF _ b(2)] Cons.prems(1) have "k \<in> set L" by simp
      with False show False ..
    qed
  qed
qed simp

lemma resolution_inv_start: "resolution_inv values keys start_resolution"
  by (auto simp: resolution_inv_def start_resolution_def intro: exI[of _ "[]"])

lemma resolve_template_values_spec:
  assumes "first_error (\<lambda>kv i. check_value_name (fst kv)) 0 values = None"
  defines "keys \<equiv> value_keys values"
  shows "\<exists>r. resolve_template_values values = Some r \<and>
    (case r of Inl e \<Rightarrow> genuine_cycle values keys e
     | Inr resolved \<Rightarrow> map fst resolved = keys \<and>
        (\<forall>k \<in> set keys. map_of resolved k = Some (value_of values keys (map_of resolved) k) \<and>
           (k, k) \<notin> {(a, b). refers values keys a b}\<^sup>+))"
proof -
  from resolution_total obtain r where r: "resolve_template_values values = Some r" by blast
  with assms obtain q where q: "resolve_all (resolve (Suc (length keys)) values keys) keys start_resolution = Some q"
    by (auto simp: resolve_template_values_def Let_def split: option.splits)
  have spec: "case q of Inl e \<Rightarrow> genuine_cycle values keys e
      | Inr (pairs, st') \<Rightarrow> resolves_to values keys start_resolution st' \<and> (\<forall>c \<in> set keys. rs_state st' c = Done) \<and>
          pairs = map (\<lambda>c. (template c, the (rs_resolved st' c))) keys"
  proof (rule resolve_all_spec[OF _ resolution_inv_start _ q])
    show "callable values keys start_resolution c" for c
      by (simp add: callable_def start_resolution_def)
  qed (rule resolve_spec)
  show ?thesis
  proof (cases q)
    case (Inl e)
    with r q assms(1) have "r = Inl e" by (simp add: resolve_template_values_def keys_def)
    with spec Inl r show ?thesis by simp
  next
    case (Inr ps)
    obtain pairs st where ps: "ps = (pairs, st)" by fastforce
    with spec Inr have st: "resolution_inv values keys st" "\<forall>c \<in> set keys. rs_state st c = Done"
      by (simp_all add: resolves_to_def)
    let ?res = "map (\<lambda>k. (k, the (rs_resolved st k))) keys"
    have "r = Inr ?res"
      using r q Inr ps assms(1) by (simp add: resolve_template_values_def keys_def Let_def)
    moreover have "map_of ?res k = Some (value_of values keys (map_of ?res) k)" if k: "k \<in> set keys" for k
    proof -
      have "rs_state st k = Done" using st(2) k by simp
      with st(1) have "rs_resolved st k = Some (value_of values keys (rs_resolved st) k)"
        unfolding resolution_inv_def by blast
      moreover have sub: "c \<in> set keys" if "c \<in> set (references values keys k)" for c
        using that by (simp add: references_def)
      have "value_of values keys (rs_resolved st) k = value_of values keys (map_of ?res) k"
      proof -
        have "the (map_of ?res c) = the (rs_resolved st c)" if "c \<in> set (references values keys k)" for c
          using sub[OF that] by (simp add: map_of_map_restrict)
        then show ?thesis
          unfolding value_of_def by (intro arg_cong2[where f = replace] map_cong) auto
      qed
      ultimately show ?thesis using k by (simp add: map_of_map_restrict)
    qed
    moreover have "(k, k) \<notin> {(a, b). refers values keys a b}\<^sup>+" if "k \<in> set keys" for k
    proof -
      from st(1) obtain L where "set L = {k. rs_state st k = Done}" "finished_order values keys L"
        by (auto simp: resolution_inv_def)
      with finished_order_acyclic[of "values" keys L k] st(2) that show ?thesis by auto
    qed
    ultimately show ?thesis using r by (simp add: comp_def)
  qed
qed

text \<open>Config-local values always resolve or fail with a reason: for valid names the depth-first
  resolution ends; if it reports a cycle, the printed keys are a real chain of references that comes
  back to its start; if it succeeds, no key refers to itself through any chain, and every value is
  its text with each reference replaced by the resolved value it names.\<close>

theorem values_resolve_or_cycle:
  assumes "first_error (\<lambda>kv i. check_value_name (fst kv)) 0 values = None"
  shows "\<exists>r. resolve_template_values values = Some r \<and>
    (case r of Inl e \<Rightarrow> genuine_cycle values (value_keys values) e
     | Inr resolved \<Rightarrow> map fst resolved = value_keys values \<and>
        (\<forall>k \<in> set (value_keys values).
           map_of resolved k = Some (value_of values (value_keys values) (map_of resolved) k) \<and>
           (k, k) \<notin> {(a, b). refers values (value_keys values) a b}\<^sup>+))"
  by (rule resolve_template_values_spec[OF assms])

definition demo_values :: string_map where
  "demo_values = [(''root'', ''/srv''), (''out'', ''{{root}}/out'')]"

theorem values_resolve_or_cycle_witness:
  "\<exists>r. resolve_template_values demo_values = Some r \<and> r = Inr [(''out'', ''/srv/out''), (''root'', ''/srv'')]"
proof -
  have "first_error (\<lambda>kv i. check_value_name (fst kv)) 0 demo_values = None" by code_simp
  from values_resolve_or_cycle[OF this] obtain r where "resolve_template_values demo_values = Some r" by blast
  moreover have "resolve_template_values demo_values = Some (Inr [(''out'', ''/srv/out''), (''root'', ''/srv'')])"
    by code_simp
  ultimately show ?thesis by simp
qed

end
