(* ===== verification/ConfigModel.thy ===== *)
theory ConfigModel
  imports ConfigValues
begin

text \<open>
  The whole configuration (\<open>internal/config/config.go\<close>): defaults, validation, and what a validated
  configuration guarantees to the components that run it. YAML decoding is outside the model: a
  configuration is the decoded value with the field-presence flags the decoder recorded.
\<close>

section \<open>Data\<close>

record watch_config =
  w_name :: string
  w_path :: string
  w_recursive :: bool
  w_process_existing :: bool
  w_reprocess_on_change :: bool
  w_include :: "string list"
  w_exclude :: "string list"
  w_settle_for :: duration
  w_settle_set :: bool
  w_pipeline :: "command_config list"

record config =
  q_workers :: int
  q_max_retries :: int
  q_retry_delay :: duration
  q_retry_delay_set :: bool
  d_path :: string
  v_values :: string_map
  v_watches :: "watch_config list"

definition default_database_path :: string where
  "default_database_path = ''./onderzeeer.db''"

section \<open>Defaults\<close>

definition default_command :: "command_config \<Rightarrow> command_config" where
  "default_command c =
    (let c1 = (if c_executor c = [] then c\<lparr>c_executor := ExecutorCommand\<rparr> else c) in
     if blank (c_program c1) then c1\<lparr>c_program := default_program (c_executor c1)\<rparr> else c1)"

definition default_watch :: "watch_config \<Rightarrow> watch_config" where
  "default_watch w =
    w\<lparr>w_settle_for := (if w_settle_set w then w_settle_for w else second),
      w_pipeline := map default_command (w_pipeline w)\<rparr>"

text \<open>\<open>ApplyDefaults\<close>; \<open>runtime.NumCPU()\<close> is an argument.\<close>

definition apply_defaults :: "int \<Rightarrow> config \<Rightarrow> config" where
  "apply_defaults num_cpu c =
    c\<lparr>q_workers := (if q_workers c = 0 then num_cpu else q_workers c),
      q_retry_delay := (if q_retry_delay_set c then q_retry_delay c else 10 * second),
      d_path := (if blank (d_path c) then default_database_path else d_path c),
      v_watches := map default_watch (v_watches c)\<rparr>"

section \<open>Validation\<close>

definition expand_values :: "config \<Rightarrow> config result" where
  "expand_values c =
    (case the (resolve_template_values (v_values c)) of
       Inl e \<Rightarrow> Inl e
     | Inr resolved \<Rightarrow>
         Inr (if resolved = [] then c\<lparr>v_values := resolved\<rparr>
              else c\<lparr>v_values := resolved,
                     v_watches := map (\<lambda>w. w\<lparr>w_pipeline :=
                       map (expand_command_values (template_value_replacer resolved)) (w_pipeline w)\<rparr>)
                       (v_watches c)\<rparr>))"

definition err_bad_pattern :: go_error where
  "err_bad_pattern = Sentinel ''syntax error in pattern''"

definition glob_segments :: "string \<Rightarrow> string list" where
  "glob_segments pattern =
    split_char slash (trim_prefix ''./'' (map (\<lambda>c. if c = CHR 0x5C then slash else c) pattern))"

definition validate_glob :: "string \<Rightarrow> go_error option" where
  "validate_glob pattern =
    (if pattern = [] then Some (new_error ''glob must not be empty'')
     else if list_ex (\<lambda>s. s \<noteq> ''**'' \<and> path_match s ''glob-check'' = None) (glob_segments pattern)
       then Some (Wrapped [T ''invalid glob '', Q (join_strings ''/'' (glob_segments pattern)), T '': ''] err_bad_pattern [])
     else None)"

definition check_globs :: "frag list \<Rightarrow> string \<Rightarrow> string list \<Rightarrow> go_error option" where
  "check_globs at grp patterns =
    first_error (\<lambda>p j. map_option (\<lambda>e. Wrapped (at @ [T ''.'', T grp, T ''['', D j, T '']: '']) e [])
      (validate_glob p)) 0 patterns"

definition check_env :: "frag list \<Rightarrow> string_map \<Rightarrow> go_error option" where
  "check_env at env =
    first_error (\<lambda>kv i. if bad_variable_name (fst kv)
      then Some (ErrorString (at @ [T ''.env contains invalid variable name '', Q (fst kv)])) else None) 0 env"

text \<open>The normalised command of the loop body, and the first check that fails on it.\<close>

definition normalise_command :: "command_config \<Rightarrow> command_config" where
  "normalise_command c =
    (let c1 = c\<lparr>c_name := trim_space (c_name c)\<rparr> in
     c1\<lparr>c_structured_container := uses_structured_container c1,
        c_container_command_set := c_container_command_set c1 \<or> c_command c1 \<noteq> []\<rparr>)"

definition check_command :: "frag list \<Rightarrow> command_config \<Rightarrow> go_error option" where
  "check_command at c =
    (if c_name c = [] then Some (ErrorString (at @ [T ''.name is required'']))
     else if \<not> executor_valid (c_executor c)
       then Some (ErrorString (at @ [T ''.executor '', Q (c_executor c),
              T '' is invalid; must be one of command, shell, docker, podman, or apptainer'']))
     else if blank (c_program c) then Some (ErrorString (at @ [T ''.program is required'']))
     else or_else
       (if c_executor c = ExecutorCommand then
          (if c_structured_container c
           then Some (ErrorString (at @ [T '' container fields require a docker, podman, or apptainer executor'']))
           else None)
        else if c_executor c = ExecutorShell
          then map_option (\<lambda>e. Wrapped (at @ [T ''.'']) e []) (validate_shell c)
        else if \<not> c_structured_container c then None
        else map_option (\<lambda>e. Wrapped (at @ [T ''.'']) e []) (validate_structured_container c))
       (or_else
         (if c_timeout c < 0 then Some (ErrorString (at @ [T ''.timeout must not be negative''])) else None)
         (check_env at (c_env c))))"

fun validate_pipeline :: "frag list \<Rightarrow> int \<Rightarrow> command_config list \<Rightarrow> command_config list result" where
  "validate_pipeline at j [] = Inr []"
| "validate_pipeline at j (c # cs) =
    (let c' = normalise_command c in
     on_error (check_command (at @ [T ''.pipeline['', D j, T '']'']) c') id
       (case validate_pipeline at (j + 1) cs of Inl e \<Rightarrow> Inl e | Inr cs' \<Rightarrow> Inr (c' # cs')))"

definition check_watch :: "frag list \<Rightarrow> string set \<Rightarrow> watch_config \<Rightarrow> go_error option" where
  "check_watch at names w =
    (if w_name w = [] then Some (ErrorString (at @ [T ''.name is required'']))
     else if w_name w \<in> names then Some (ErrorString [T ''watch name '', Q (w_name w), T '' is duplicated''])
     else if blank (w_path w) then Some (ErrorString (at @ [T ''.path is required'']))
     else if w_settle_for w < 0 then Some (ErrorString (at @ [T ''.settle_for must not be negative'']))
     else or_else (check_globs at ''include'' (w_include w))
       (or_else (check_globs at ''exclude'' (w_exclude w))
         (if w_pipeline w = []
          then Some (ErrorString (at @ [T ''.pipeline must contain at least one command''])) else None)))"

fun validate_watches :: "int \<Rightarrow> string set \<Rightarrow> watch_config list \<Rightarrow> watch_config list result" where
  "validate_watches i names [] = Inr []"
| "validate_watches i names (w # ws) =
    (let at = [T ''watches['', D i, T '']'']; w1 = w\<lparr>w_name := trim_space (w_name w)\<rparr> in
     on_error (check_watch at names w1) id
       (case validate_pipeline at 0 (w_pipeline w1) of
          Inl e \<Rightarrow> Inl e
        | Inr cs \<Rightarrow>
            (case validate_watches (i + 1) (insert (w_name w1) names) ws of
               Inl e \<Rightarrow> Inl e
             | Inr ws' \<Rightarrow> Inr (w1\<lparr>w_pipeline := cs\<rparr> # ws'))))"

definition validate_config :: "config \<Rightarrow> config result" where
  "validate_config c0 =
    (case expand_values c0 of
       Inl e \<Rightarrow> Inl e
     | Inr c \<Rightarrow>
         if q_workers c \<le> 0 then Inl (new_error ''queue.workers must be greater than zero'')
         else if q_max_retries c < 0 then Inl (new_error ''queue.max_retries must not be negative'')
         else if q_retry_delay c < 0 then Inl (new_error ''queue.retry_delay must not be negative'')
         else if blank (d_path c) then Inl (new_error ''database.path is required'')
         else if v_watches c = [] then Inl (new_error ''at least one watch is required'')
         else (case validate_watches 0 {} (v_watches c) of
                 Inl e \<Rightarrow> Inl e
               | Inr ws \<Rightarrow> Inr (c\<lparr>v_watches := ws\<rparr>)))"

section \<open>What a validated configuration guarantees\<close>

definition command_ok :: "command_config \<Rightarrow> bool" where
  "command_ok c \<longleftrightarrow>
    c_name c \<noteq> [] \<and> trim_space (c_name c) = c_name c \<and> executor_valid (c_executor c) \<and>
    \<not> blank (c_program c) \<and> 0 \<le> c_timeout c \<and> validate_execution c = None \<and>
    (c_executor c = ExecutorCommand \<longrightarrow> execution_args c = c_args c) \<and>
    (\<forall>(k, v) \<in> set (c_env c). \<not> bad_variable_name k)"

definition watch_ok :: "watch_config \<Rightarrow> bool" where
  "watch_ok w \<longleftrightarrow>
    w_name w \<noteq> [] \<and> trim_space (w_name w) = w_name w \<and> \<not> blank (w_path w) \<and> 0 \<le> w_settle_for w \<and>
    w_pipeline w \<noteq> [] \<and> (\<forall>g \<in> set (w_include w @ w_exclude w). validate_glob g = None) \<and>
    (\<forall>c \<in> set (w_pipeline w). command_ok c)"

lemma first_error_in:
  assumes "first_error check i xs = None" and "x \<in> set xs" and "\<And>k. check x k = None \<Longrightarrow> P x"
  shows "P x"
proof -
  from first_error_all[OF assms(1,2)] obtain k where "check x k = None" by (elim exE)
  then show ?thesis by (rule assms(3))
qed

lemma check_env_ok:
  assumes "check_env at env = None" and "(k, v) \<in> set env"
  shows "\<not> bad_variable_name k"
proof -
  have "\<not> bad_variable_name (fst (k, v))"
    by (rule first_error_in[OF assms(1)[unfolded check_env_def] assms(2)]) (simp split: if_splits)
  then show ?thesis by simp
qed

lemma check_globs_ok:
  assumes "check_globs at grp ps = None" and "p \<in> set ps"
  shows "validate_glob p = None"
  by (rule first_error_in[OF assms(1)[unfolded check_globs_def] assms(2)]) simp

lemma normalise_structured:
  "uses_structured_container (normalise_command c) = c_structured_container (normalise_command c)"
  by (auto simp: normalise_command_def uses_structured_container_def Let_def)

lemma normalise_name: "trim_space (c_name (normalise_command c)) = c_name (normalise_command c)"
  by (simp add: normalise_command_def Let_def)

lemma check_command_ok:
  assumes "check_command at (normalise_command c) = None"
  shows "command_ok (normalise_command c)"
proof -
  let ?c = "normalise_command c"
  from assms have base: "c_name ?c \<noteq> []" "executor_valid (c_executor ?c)" "\<not> blank (c_program ?c)"
    by (simp_all add: check_command_def split: if_splits)
  with assms have mode: "(if c_executor ?c = ExecutorCommand then \<not> c_structured_container ?c
        else if c_executor ?c = ExecutorShell then validate_shell ?c = None
        else c_structured_container ?c \<longrightarrow> validate_structured_container ?c = None)"
    and time: "0 \<le> c_timeout ?c" and env: "check_env at (c_env ?c) = None"
    by (auto simp: check_command_def split: if_splits)
  have "validate_execution ?c = None"
    using mode normalise_structured[of c] by (auto simp: validate_execution_def split: if_splits)
  moreover have "c_executor ?c = ExecutorCommand \<longrightarrow> execution_args ?c = c_args ?c"
    using mode normalise_structured[of c] by (simp add: execution_args_def)
  ultimately show ?thesis
    using base time check_env_ok[OF env] normalise_name[of c] by (auto simp: command_ok_def)
qed

lemma validate_pipeline_ok:
  "validate_pipeline at j cs = Inr cs' \<Longrightarrow> length cs' = length cs \<and> (\<forall>c \<in> set cs'. command_ok c)"
proof (induction at j cs arbitrary: cs' rule: validate_pipeline.induct)
  case (2 at j c cs)
  from "2.prems" have none: "check_command (at @ [T ''.pipeline['', D j, T '']'']) (normalise_command c) = None"
    by (simp add: Let_def)
  with "2.prems" obtain ds where ds: "validate_pipeline at (j + 1) cs = Inr ds" "cs' = normalise_command c # ds"
    by (auto simp: Let_def split: sum.splits)
  from "2.IH"[OF refl ds(1)] check_command_ok[OF none] ds(2) show ?case by simp
qed simp

lemma check_watch_ok:
  assumes "check_watch at names w = None"
  shows "w_name w \<noteq> []" and "w_name w \<notin> names" and "\<not> blank (w_path w)" and "0 \<le> w_settle_for w"
    and "w_pipeline w \<noteq> []" and "\<forall>g \<in> set (w_include w @ w_exclude w). validate_glob g = None"
  using assms by (auto simp: check_watch_def check_globs_ok split: if_splits)

lemma validate_watches_ok:
  assumes "validate_watches i names ws = Inr ws'"
  shows "(\<forall>w \<in> set ws'. watch_ok w \<and> w_name w \<notin> names) \<and> distinct (map w_name ws') \<and> length ws' = length ws"
  using assms
proof (induction ws arbitrary: i names ws')
  case (Cons w ws)
  let ?at = "[T ''watches['', D i, T '']'']"
  let ?w = "w\<lparr>w_name := trim_space (w_name w)\<rparr>"
  from Cons.prems have check: "check_watch ?at names ?w = None" by (simp add: Let_def)
  with Cons.prems obtain cs vs where cs: "validate_pipeline ?at 0 (w_pipeline w) = Inr cs"
    and vs: "validate_watches (i + 1) (insert (w_name ?w) names) ws = Inr vs"
    and ws': "ws' = ?w\<lparr>w_pipeline := cs\<rparr> # vs"
    by (auto simp: Let_def split: sum.splits)
  note pipeline = validate_pipeline_ok[OF cs]
  note rest = Cons.IH[OF vs]
  note ok = check_watch_ok[OF check]
  have "watch_ok (?w\<lparr>w_pipeline := cs\<rparr>)"
    using ok pipeline by (auto simp: watch_ok_def)
  with rest ok(2) show ?case by (auto simp: ws')
qed simp

lemma validated_ok:
  assumes "validate_config c = Inr c'"
  shows "0 < q_workers c' \<and> 0 \<le> q_max_retries c' \<and> 0 \<le> q_retry_delay c' \<and> \<not> blank (d_path c') \<and>
    v_watches c' \<noteq> [] \<and> distinct (map w_name (v_watches c')) \<and> (\<forall>w \<in> set (v_watches c'). watch_ok w)"
proof -
  from assms obtain c1 where c1: "expand_values c = Inr c1"
    by (auto simp: validate_config_def split: sum.splits)
  with assms obtain ws where ws: "validate_watches 0 {} (v_watches c1) = Inr ws"
    and c': "c' = c1\<lparr>v_watches := ws\<rparr>" and "v_watches c1 \<noteq> []"
    and "0 < q_workers c1" "0 \<le> q_max_retries c1" "0 \<le> q_retry_delay c1" "\<not> blank (d_path c1)"
    by (auto simp: validate_config_def split: sum.splits if_splits)
  with validate_watches_ok[OF ws] show ?thesis by auto
qed

definition demo_step :: command_config where
  "demo_step = \<lparr>c_name = '' copy '', c_executor = ''command'', c_program = ''cp'', c_args = [''{{file}}'', ''{{out}}''],
    c_image = [], c_mounts = [], c_container_env = [], c_container_args = [], c_command = [],
    c_command_args = [], c_timeout = 0, c_working_dir = [], c_output = [], c_env = [(''K'', ''v'')],
    c_structured_container = False, c_container_command_set = False, c_raw_args_set = True,
    c_container_fields_set = False\<rparr>"

definition demo_config :: config where
  "demo_config = \<lparr>q_workers = 2, q_max_retries = 1, q_retry_delay = 5, q_retry_delay_set = True, d_path = ''q.db'',
    v_values = [(''out'', ''/out'')],
    v_watches = [\<lparr>w_name = ''incoming'', w_path = ''/in'', w_recursive = False, w_process_existing = True,
      w_reprocess_on_change = False, w_include = [''*.csv''], w_exclude = [], w_settle_for = 1,
      w_settle_set = True, w_pipeline = [demo_step]\<rparr>]\<rparr>"

lemma demo_config_valid: "isl (validate_config demo_config) = False"
  by code_simp

section \<open>Globs\<close>

lemma validate_glob_segments:
  assumes "validate_glob p = None" and "s \<in> set (glob_segments p)"
  shows "s = ''**'' \<or> (\<forall>name. path_match s name \<noteq> None)"
  using assms path_match_syntax by (auto simp: validate_glob_def list_ex_iff split: if_splits)

lemma glob_no_backslash:
  "CHR 0x5C \<notin> set p \<Longrightarrow> map (\<lambda>c. if c = CHR 0x5C then slash else c) p = p"
  by (induction p) auto

end
