(* ===== verification/ContainerOptions.thy ===== *)
theory ContainerOptions
  imports ConfigModel
begin

text \<open>
  The option grammar of \<open>docker run\<close> and \<open>podman run\<close> (\<open>container_options.go\<close>): which options
  take a value, the scanner of one option, and the warnings about interactive flags
  (\<open>warnings.go\<close>).
\<close>

section \<open>Grammars\<close>

datatype run_option_arity = RunOptionBoolean | RunOptionValue

record run_option_grammar =
  g_long :: "string \<rightharpoonup> run_option_arity"
  g_short :: "char \<rightharpoonup> run_option_arity"

definition add_options :: "'a list \<Rightarrow> run_option_arity \<Rightarrow> ('a \<rightharpoonup> run_option_arity) \<Rightarrow> ('a \<rightharpoonup> run_option_arity)" where
  "add_options names arity options = fold (\<lambda>name m. m(name \<mapsto> arity)) names options"

definition new_run_option_grammar ::
  "string list \<Rightarrow> string list \<Rightarrow> string \<Rightarrow> string \<Rightarrow> run_option_grammar" where
  "new_run_option_grammar value_long boolean_long value_short boolean_short =
    \<lparr>g_long = add_options boolean_long RunOptionBoolean (add_options value_long RunOptionValue Map.empty),
     g_short = add_options boolean_short RunOptionBoolean (add_options value_short RunOptionValue Map.empty)\<rparr>"

definition extend_run_option_grammar ::
  "run_option_grammar \<Rightarrow> string list \<Rightarrow> string list \<Rightarrow> run_option_grammar" where
  "extend_run_option_grammar base value_long boolean_long =
    base\<lparr>g_long := add_options boolean_long RunOptionBoolean (add_options value_long RunOptionValue (g_long base))\<rparr>"

definition docker_value_long :: "string list" where
  "docker_value_long =
    [''add-host'', ''annotation'', ''attach'', ''blkio-weight'', ''blkio-weight-device'', ''cap-add'',
    ''cap-drop'', ''cgroup-parent'', ''cgroupns'', ''cidfile'', ''cpu-count'', ''cpu-percent'',
    ''cpu-period'', ''cpu-quota'', ''cpu-rt-period'', ''cpu-rt-runtime'', ''cpu-shares'', ''cpus'',
    ''cpuset-cpus'', ''cpuset-mems'', ''detach-keys'', ''device'', ''device-cgroup-rule'',
    ''device-read-bps'', ''device-read-iops'', ''device-write-bps'', ''device-write-iops'', ''dns'',
    ''dns-opt'', ''dns-option'', ''dns-search'', ''domainname'', ''entrypoint'', ''env'', ''env-file'',
    ''expose'', ''gpus'', ''group-add'', ''health-cmd'', ''health-interval'', ''health-retries'',
    ''health-start-interval'', ''health-start-period'', ''health-timeout'', ''hostname'',
    ''io-maxbandwidth'', ''io-maxiops'', ''ip'', ''ip6'', ''ipc'', ''isolation'', ''kernel-memory'',
    ''label'', ''label-file'', ''link'', ''link-local-ip'', ''log-driver'', ''log-opt'',
    ''mac-address'', ''memory'', ''memory-reservation'', ''memory-swap'', ''memory-swappiness'',
    ''mount'', ''name'', ''net'', ''net-alias'', ''network'', ''network-alias'', ''oom-score-adj'',
    ''pid'', ''pids-limit'', ''platform'', ''publish'', ''pull'', ''restart'', ''runtime'',
    ''security-opt'', ''shm-size'', ''stop-signal'', ''stop-timeout'', ''storage-opt'', ''sysctl'',
    ''tmpfs'', ''ulimit'', ''user'', ''userns'', ''uts'', ''volume'', ''volume-driver'',
    ''volumes-from'', ''workdir'']"

definition docker_boolean_long :: "string list" where
  "docker_boolean_long =
    [''detach'', ''disable-content-trust'', ''help'', ''init'', ''interactive'', ''no-healthcheck'',
    ''oom-kill-disable'', ''privileged'', ''publish-all'', ''quiet'', ''read-only'', ''rm'',
    ''sig-proxy'', ''tty'', ''use-api-socket'']"

definition docker_run_grammar :: run_option_grammar where
  "docker_run_grammar =
    new_run_option_grammar docker_value_long docker_boolean_long ''acehlmpuvw'' ''diPqt''"

definition podman_value_long :: "string list" where
  "podman_value_long =
    [''arch'', ''authfile'', ''cert-dir'', ''cgroup-conf'', ''cgroups'', ''chrootdirs'',
    ''conmon-pidfile'', ''creds'', ''decryption-key'', ''env-merge'', ''gidmap'', ''group-entry'',
    ''health-log-destination'', ''health-max-log-count'', ''health-max-log-size'',
    ''health-on-failure'', ''health-startup-cmd'', ''health-startup-interval'',
    ''health-startup-retries'', ''health-startup-success'', ''health-startup-timeout'', ''hosts-file'',
    ''hostuser'', ''image-volume'', ''init-path'', ''os'', ''passwd-entry'', ''personality'',
    ''pidfile'', ''pod'', ''pod-id-file'', ''preserve-fd'', ''preserve-fds'', ''rdt-class'',
    ''requires'', ''retry'', ''retry-delay'', ''sdnotify'', ''seccomp-policy'', ''secret'',
    ''shm-size-systemd'', ''signature-policy'', ''subgidname'', ''subuidname'', ''systemd'',
    ''timeout'', ''tz'', ''uidmap'', ''umask'', ''unsetenv'', ''variant'']"

definition podman_boolean_long :: "string list" where
  "podman_boolean_long =
    [''env-host'', ''http-proxy'', ''no-hostname'', ''no-hosts'', ''read-only-tmpfs'', ''replace'',
    ''rmi'', ''rootfs'', ''passwd'', ''tls-verify'', ''unsetenv-all'']"

definition podman_run_grammar :: run_option_grammar where
  "podman_run_grammar = extend_run_option_grammar docker_run_grammar podman_value_long podman_boolean_long"

section \<open>Scanning one option\<close>

record container_run_option =
  o_name :: string
  o_value :: string
  o_consumed :: nat
  o_known :: bool
  o_clustered :: bool
  o_interactive :: "bool option"
  o_tty :: "bool option"
  o_detach :: "bool option"

definition empty_option :: container_run_option where
  "empty_option = \<lparr>o_name = [], o_value = [], o_consumed = 0, o_known = False, o_clustered = False,
     o_interactive = None, o_tty = None, o_detach = None\<rparr>"

text \<open>\<open>strconv.ParseBool\<close>.\<close>

definition parse_bool :: "string \<Rightarrow> bool option" where
  "parse_bool s =
    (if s \<in> {''1'', ''t'', ''T'', ''true'', ''TRUE'', ''True''} then Some True
     else if s \<in> {''0'', ''f'', ''F'', ''false'', ''FALSE'', ''False''} then Some False
     else None)"

definition record_terminal_boolean :: "string \<Rightarrow> string \<Rightarrow> container_run_option \<Rightarrow> container_run_option" where
  "record_terminal_boolean name v opt =
    (case parse_bool v of
       None \<Rightarrow> opt
     | Some b \<Rightarrow>
         if name = ''interactive'' \<or> name = ''i'' then opt\<lparr>o_interactive := Some b\<rparr>
         else if name = ''tty'' \<or> name = ''t'' then opt\<lparr>o_tty := Some b\<rparr>
         else if name = ''detach'' \<or> name = ''d'' then opt\<lparr>o_detach := Some b\<rparr>
         else opt)"

definition parse_long_option ::
  "run_option_grammar \<Rightarrow> string \<Rightarrow> string list \<Rightarrow> string + container_run_option" where
  "parse_long_option grammar name_value rest =
    (if name_value = [] then Inl ''option name is blank''
     else
       (case cut_char (CHR ''='') name_value of
          (name, v, has_value) \<Rightarrow>
            if has_value then
              (if name = [] then Inl ''option name is blank''
               else Inr (record_terminal_boolean name v
                 (empty_option\<lparr>o_name := name, o_value := v, o_consumed := 1,
                              o_known := g_long grammar name \<noteq> None\<rparr>)))
            else
              (case g_long grammar name_value of
                 None \<Rightarrow> Inl ''unknown option arity''
               | Some RunOptionBoolean \<Rightarrow>
                   Inr (record_terminal_boolean name_value ''true''
                     (empty_option\<lparr>o_name := name_value, o_consumed := 1, o_known := True\<rparr>))
               | Some RunOptionValue \<Rightarrow>
                   (case rest of
                      [] \<Rightarrow> Inl ''value is missing''
                    | w # _ \<Rightarrow> Inr (empty_option\<lparr>o_name := name_value, o_value := w, o_consumed := 2,
                                               o_known := True\<rparr>)))))"

text \<open>The loop over clustered shorthands; \<open>index\<close> is the position of the next one.\<close>

fun parse_shorthands ::
  "run_option_grammar \<Rightarrow> string list \<Rightarrow> nat \<Rightarrow> container_run_option \<Rightarrow> string \<Rightarrow> string + container_run_option" where
  "parse_shorthands grammar rest index opt [] = Inr opt"
| "parse_shorthands grammar rest index opt (c # cs) =
    (case g_short grammar c of
       None \<Rightarrow> Inl (''unknown shorthand -'' @ encode_rune (byte c))
     | Some RunOptionBoolean \<Rightarrow>
         if cs \<noteq> [] \<and> hd cs = CHR ''='' then Inr (record_terminal_boolean [c] (tl cs) opt)
         else parse_shorthands grammar rest (index + 1) (record_terminal_boolean [c] ''true'' opt) cs
     | Some RunOptionValue \<Rightarrow>
         (let name = (if c = CHR ''e'' then ''env'' else if c = CHR ''v'' then ''volume'' else []);
              clustered = (name \<noteq> [] \<and> index \<noteq> 0) in
          if cs \<noteq> [] then
            Inr (opt\<lparr>o_name := name, o_value := trim_prefix ''='' cs, o_consumed := 1, o_clustered := clustered\<rparr>)
          else
            (case rest of
               [] \<Rightarrow> Inl (''value for -'' @ encode_rune (byte c) @ '' is missing'')
             | w # _ \<Rightarrow> Inr (opt\<lparr>o_name := name, o_value := w, o_consumed := 2, o_clustered := clustered\<rparr>))))"

definition run_grammar :: "string \<Rightarrow> run_option_grammar" where
  "run_grammar ex = (if ex = ExecutorPodman then podman_run_grammar else docker_run_grammar)"

definition parse_container_run_option :: "string \<Rightarrow> string list \<Rightarrow> string + container_run_option" where
  "parse_container_run_option ex args =
    (case args of
       [] \<Rightarrow> Inl ''option is missing''
     | argument # rest \<Rightarrow>
         if prefix ''--'' argument then parse_long_option (run_grammar ex) (drop 2 argument) rest
         else
           (let shorthands = trim_prefix ''-'' argument in
            if shorthands = [] then Inl ''option name is blank''
            else parse_shorthands (run_grammar ex) rest 0
                   (empty_option\<lparr>o_consumed := 1, o_known := True\<rparr>) shorthands))"

lemma record_terminal_boolean_simps [simp]:
  "o_consumed (record_terminal_boolean n v opt) = o_consumed opt"
  "o_name (record_terminal_boolean n v opt) = o_name opt"
  "o_value (record_terminal_boolean n v opt) = o_value opt"
  "o_known (record_terminal_boolean n v opt) = o_known opt"
  "o_clustered (record_terminal_boolean n v opt) = o_clustered opt"
  by (simp_all add: record_terminal_boolean_def split: option.splits)

lemma parse_long_consumed:
  "parse_long_option g nv rest = Inr opt \<Longrightarrow> 1 \<le> o_consumed opt \<and> o_consumed opt \<le> Suc (length rest)"
  by (auto simp: parse_long_option_def split: if_splits prod.splits option.splits list.splits run_option_arity.splits)

lemma parse_shorthands_consumed:
  "parse_shorthands g rest i opt cs = Inr opt' \<Longrightarrow> o_consumed opt = 1 \<Longrightarrow>
    1 \<le> o_consumed opt' \<and> o_consumed opt' \<le> Suc (length rest)"
proof (induction cs arbitrary: i opt)
  case (Cons c cs)
  show ?case
  proof (cases "g_short g c")
    case None
    with Cons.prems show ?thesis by simp
  next
    case (Some a)
    with Cons show ?thesis
      by (cases a) (auto simp: Let_def split: if_splits list.splits)
  qed
qed simp

text \<open>The scanner consumes at least one argument and never more than there are.\<close>

lemma parse_option_consumed:
  assumes "parse_container_run_option ex args = Inr opt"
  shows "1 \<le> o_consumed opt \<and> o_consumed opt \<le> length args"
proof (cases args)
  case Nil
  with assms show ?thesis by (simp add: parse_container_run_option_def)
next
  case (Cons a rest)
  with assms show ?thesis
    using parse_long_consumed[of "run_grammar ex" "drop 2 a" rest opt]
      parse_shorthands_consumed[of "run_grammar ex" rest 0 "empty_option\<lparr>o_consumed := 1, o_known := True\<rparr>" "trim_prefix ''-'' a" opt]
    by (auto simp: parse_container_run_option_def Let_def split: if_splits)
qed

section \<open>Warnings\<close>

definition warning_it :: string where
  "warning_it = ''Docker --it is not a valid option; -it requests an interactive TTY, which onderzeeer does not provide. Remove --it for unattended jobs.''"

definition warning_tty :: string where
  "warning_tty = ''Docker interactive TTY flags (-it, or --interactive with --tty) can fail because onderzeeer provides no interactive stdin or TTY. Remove -i/--interactive and -t/--tty for unattended jobs.''"

text \<open>The loop over the options: the last setting of each of the three terminal flags, or the
  \<open>--it\<close> mistake.\<close>

function scan_warnings :: "string list \<Rightarrow> bool \<Rightarrow> bool \<Rightarrow> bool \<Rightarrow> string list" where
  "scan_warnings args interactive tty detach =
    (let finish = (if interactive \<and> tty \<and> \<not> detach then [warning_tty] else []) in
     case args of
       [] \<Rightarrow> finish
     | argument # _ \<Rightarrow>
         if argument = ''--'' \<or> argument = ''-'' \<or> \<not> prefix ''-'' argument then finish
         else if argument = ''--it'' \<or> prefix ''--it='' argument then [warning_it]
         else
           (case parse_container_run_option ExecutorDocker args of
              Inl reason \<Rightarrow> finish
            | Inr opt \<Rightarrow>
                scan_warnings (drop (o_consumed opt) args)
                  (case o_interactive opt of Some b \<Rightarrow> b | None \<Rightarrow> interactive)
                  (case o_tty opt of Some b \<Rightarrow> b | None \<Rightarrow> tty)
                  (case o_detach opt of Some b \<Rightarrow> b | None \<Rightarrow> detach)))"
  by pat_completeness auto
termination
  by (relation "measure (\<lambda>(args, i, t, d). length args)") (auto dest!: parse_option_consumed)

declare scan_warnings.simps [simp del]

definition warnings :: "command_config \<Rightarrow> string list" where
  "warnings c =
    (if c_executor c \<noteq> ExecutorDocker \<and>
        \<not> ((c_executor c = ExecutorCommand \<or> c_executor c = []) \<and> base_path (c_program c) = ''docker'') then []
     else
       (let args0 = execution_args c;
            args = (if args0 \<noteq> [] \<and> hd args0 = ''container'' then tl args0 else args0) in
        if args = [] \<or> (hd args \<noteq> ''run'' \<and> hd args \<noteq> ''exec'') then []
        else scan_warnings (tl args) False False False))"

end
