(* ===== verification/ContainerParse.thy ===== *)
theory ContainerParse
  imports ContainerOptions
begin

text \<open>
  \<open>onderzeeer parse\<close>: turning a \<open>docker run\<close> or \<open>podman run\<close> command line into a structured
  container step (\<open>internal/cli/container_parse.go\<close>), and the shell quoting of
  \<open>onderzeeer check\<close> (\<open>internal/cli/check.go\<close>).
\<close>

section \<open>Mount specifications\<close>

text \<open>The fields seen so far by the loop of \<open>parseLongBindMount\<close>.\<close>

record mount_fields =
  mf_mount :: mount_config
  mf_type :: bool
  mf_source :: bool
  mf_target :: bool

definition empty_mount :: mount_config where
  "empty_mount = \<lparr>m_source = [], m_target = [], m_options = []\<rparr>"

definition source_key :: "string \<Rightarrow> bool" where
  "source_key key \<longleftrightarrow> key = ''source'' \<or> key = ''src''"

definition target_key :: "string \<Rightarrow> bool" where
  "target_key key \<longleftrightarrow> key = ''target'' \<or> key = ''destination'' \<or> key = ''dest'' \<or> key = ''dst''"

definition mount_field :: "string \<Rightarrow> mount_fields \<Rightarrow> mount_fields option" where
  "mount_field raw st =
    (case cut_char (CHR ''='') raw of
       (key, v, has_value) \<Rightarrow>
         if key = ''type'' then
           (if mf_type st \<or> \<not> has_value \<or> v \<noteq> ''bind'' then None else Some (st\<lparr>mf_type := True\<rparr>))
         else if source_key key then
           (if mf_source st \<or> \<not> has_value \<or> blank v then None
            else Some (st\<lparr>mf_mount := (mf_mount st)\<lparr>m_source := v\<rparr>, mf_source := True\<rparr>))
         else if target_key key then
           (if mf_target st \<or> \<not> has_value \<or> \<not> container_target_can_be_absolute v then None
            else Some (st\<lparr>mf_mount := (mf_mount st)\<lparr>m_target := v\<rparr>, mf_target := True\<rparr>))
         else if blank raw \<or> blank key \<or> CHR 0x00 \<in> set raw then None
         else Some (st\<lparr>mf_mount := (mf_mount st)\<lparr>m_options := m_options (mf_mount st) @ [raw]\<rparr>\<rparr>))"

fun mount_fields_loop :: "string list \<Rightarrow> mount_fields \<Rightarrow> mount_fields option" where
  "mount_fields_loop [] st = Some st"
| "mount_fields_loop (f # fs) st =
    (case mount_field f st of None \<Rightarrow> None | Some st' \<Rightarrow> mount_fields_loop fs st')"

definition parse_long_bind_mount :: "string \<Rightarrow> mount_config option" where
  "parse_long_bind_mount specification =
    (case read_csv specification of
       None \<Rightarrow> None
     | Some fs \<Rightarrow>
         (case mount_fields_loop fs \<lparr>mf_mount = empty_mount, mf_type = False, mf_source = False, mf_target = False\<rparr> of
            None \<Rightarrow> None
          | Some st \<Rightarrow> if mf_type st \<and> mf_source st \<and> mf_target st then Some (mf_mount st) else None))"

definition host_volume_source_looks_like_path :: "string \<Rightarrow> bool" where
  "host_volume_source_looks_like_path source \<longleftrightarrow>
    is_abs source \<or> prefix ''.'' source \<or> prefix file_template source \<or> prefix dir_template source"

definition parse_volume_bind_mount :: "string \<Rightarrow> mount_config option" where
  "parse_volume_bind_mount specification =
    (let parts = split_char (CHR '':'') specification in
     if length parts < 2 \<or> 3 < length parts then None
     else if \<not> host_volume_source_looks_like_path (parts ! 0) \<or> \<not> container_target_can_be_absolute (parts ! 1)
       then None
     else
       (let m = \<lparr>m_source = parts ! 0, m_target = parts ! 1, m_options = []\<rparr> in
        if length parts = 2 then Some m
        else if parts ! 2 = ''ro'' then Some (m\<lparr>m_options := [''ro'']\<rparr>)
        else if parts ! 2 = ''rw'' then Some m
        else None))"

section \<open>The command line\<close>

record scanned_run_option =
  s_raw :: "string list"
  s_mount :: "mount_config option"
  s_has_env :: bool

record run_scan =
  environment_safe :: bool
  mounts_safe :: bool
  scanned_environment :: string_map
  scanned_options :: "scanned_run_option list"

record structured_container_run =
  r_image :: string
  r_container_args :: "string list"
  r_mounts :: "mount_config list"
  r_container_env :: string_map
  r_command :: string
  r_command_args :: "string list"

definition scan_environment_option :: "container_run_option \<Rightarrow> run_scan \<times> scanned_run_option \<Rightarrow> run_scan \<times> scanned_run_option" where
  "scan_environment_option opt = (\<lambda>(st, sc).
    (if o_clustered opt then (st\<lparr>environment_safe := False\<rparr>, sc)
     else
       (case cut_char (CHR ''='') (o_value opt) of
          (key, v, ok) \<Rightarrow>
            if \<not> ok \<or> bad_variable_name key \<or> key \<in> fst ` set (scanned_environment st)
            then (st\<lparr>environment_safe := False\<rparr>, sc)
            else (st\<lparr>scanned_environment := scanned_environment st @ [(key, v)]\<rparr>, sc\<lparr>s_has_env := True\<rparr>))))"

definition scan_mount_option :: "mount_config option \<Rightarrow> run_scan \<times> scanned_run_option \<Rightarrow> run_scan \<times> scanned_run_option" where
  "scan_mount_option m = (\<lambda>(st, sc).
    (case m of None \<Rightarrow> (st\<lparr>mounts_safe := False\<rparr>, sc) | Some x \<Rightarrow> (st, sc\<lparr>s_mount := Some x\<rparr>)))"

definition scan_option :: "container_run_option \<Rightarrow> string list \<Rightarrow> run_scan \<Rightarrow> run_scan" where
  "scan_option opt raw st0 =
    (let st = (if o_known opt then st0 else st0\<lparr>environment_safe := False, mounts_safe := False\<rparr>);
         sc = \<lparr>s_raw = raw, s_mount = None, s_has_env = False\<rparr>;
         (st1, sc1) =
           (if o_name opt = ''env'' then scan_environment_option opt (st, sc)
            else if o_name opt = ''mount'' then scan_mount_option (parse_long_bind_mount (o_value opt)) (st, sc)
            else if o_name opt = ''volume'' then
              (if o_clustered opt then (st\<lparr>mounts_safe := False\<rparr>, sc)
               else scan_mount_option (parse_volume_bind_mount (o_value opt)) (st, sc))
            else (st, sc));
         st2 =
           (if o_name opt \<in> {''env-file'', ''env-host'', ''env-merge'', ''http-proxy'', ''unsetenv'', ''unsetenv-all''}
            then st1\<lparr>environment_safe := False\<rparr>
            else if o_name opt \<in> {''tmpfs'', ''volumes-from''} then st1\<lparr>mounts_safe := False\<rparr>
            else if o_name opt = ''secret'' then st1\<lparr>environment_safe := False, mounts_safe := False\<rparr>
            else st1) in
     st2\<lparr>scanned_options := scanned_options st2 @ [sc1]\<rparr>)"

text \<open>The loop over the options: what is left of the arguments, from the image on, or a reason. The
  quoted argument of a reason is printed by \<open>quote\<close>.\<close>

function scan_options ::
  "(string \<Rightarrow> string) \<Rightarrow> string \<Rightarrow> string list \<Rightarrow> run_scan \<Rightarrow> string + (string list \<times> run_scan)" where
  "scan_options quote ex args st =
    (case args of
       [] \<Rightarrow> Inr ([], st)
     | argument # rest \<Rightarrow>
         if argument = ''--'' then
           (case rest of
              [] \<Rightarrow> Inl (ex @ '' run has no image after --'')
            | img # _ \<Rightarrow>
                if prefix ''-'' img
                then Inl (ex @ '' run needs -- to distinguish image '' @ quote img)
                else Inr (rest, st))
         else if \<not> prefix ''-'' argument \<or> argument = ''-'' then Inr (args, st)
         else
           (case parse_container_run_option ex args of
              Inl reason \<Rightarrow> Inl (''cannot safely parse '' @ ex @ '' run option '' @ quote argument @ '': '' @ reason)
            | Inr opt \<Rightarrow>
                scan_options quote ex (drop (o_consumed opt) args)
                  (scan_option opt (take (o_consumed opt) args) st)))"
  by pat_completeness auto
termination
  by (relation "measure (\<lambda>(q, ex, args, st). length args)") (auto dest!: parse_option_consumed)

declare scan_options.simps [simp del]

text \<open>The loop that distributes the scanned options.\<close>

fun distribute ::
  "(string \<Rightarrow> string) \<Rightarrow> string \<Rightarrow> bool \<Rightarrow> bool \<Rightarrow> scanned_run_option list \<Rightarrow> structured_container_run \<Rightarrow>
   string + structured_container_run" where
  "distribute quote ex env_safe mount_safe [] r = Inr r"
| "distribute quote ex env_safe mount_safe (sc # scs) r =
    (let extract_env = env_safe \<and> s_has_env sc;
         extract_mount = mount_safe \<and> s_mount sc \<noteq> None;
         r1 = (if extract_mount then r\<lparr>r_mounts := r_mounts r @ [the (s_mount sc)]\<rparr> else r) in
     if extract_env \<or> extract_mount then distribute quote ex env_safe mount_safe scs r1
     else if ''--'' \<in> set (s_raw sc)
       then Inl (ex @ '' run option '' @ quote (hd (s_raw sc)) @ '' has a value that cannot be represented in container_args'')
     else distribute quote ex env_safe mount_safe scs
       (r1\<lparr>r_container_args := r_container_args r1 @ s_raw sc\<rparr>))"

definition run_arguments :: "string list \<Rightarrow> string list option" where
  "run_arguments args =
    (if args \<noteq> [] \<and> hd args = ''run'' then Some (drop 1 args)
     else if 2 \<le> length args \<and> args ! 0 = ''container'' \<and> args ! 1 = ''run'' then Some (drop 2 args)
     else None)"

text \<open>\<open>parseStructuredContainerRun\<close>: nothing for another command, a reason to fall back, or the
  structured form.\<close>

definition parse_structured_container_run ::
  "(string \<Rightarrow> string) \<Rightarrow> string \<Rightarrow> string list \<Rightarrow> (string + structured_container_run) option" where
  "parse_structured_container_run quote ex args =
    (case run_arguments args of
       None \<Rightarrow> None
     | Some opts \<Rightarrow> Some
         (case scan_options quote ex opts \<lparr>environment_safe = True, mounts_safe = True, scanned_environment = [],
                 scanned_options = []\<rparr> of
            Inl reason \<Rightarrow> Inl reason
          | Inr (left, st) \<Rightarrow>
              (case left of
                 [] \<Rightarrow> Inl (ex @ '' run has no non-blank image'')
               | img # app \<Rightarrow>
                   if blank img then Inl (ex @ '' run has no non-blank image'')
                   else
                     (case distribute quote ex (environment_safe st) (mounts_safe st) (scanned_options st)
                             \<lparr>r_image = img, r_container_args = [], r_mounts = [],
                              r_container_env = (if environment_safe st then scanned_environment st else []),
                              r_command = [], r_command_args = []\<rparr> of
                        Inl reason \<Rightarrow> Inl reason
                      | Inr r \<Rightarrow>
                          (case app of
                             [] \<Rightarrow> Inr r
                           | command # rest \<Rightarrow>
                               if blank command \<or> prefix ''-'' command then Inr (r\<lparr>r_command_args := app\<rparr>)
                               else Inr (r\<lparr>r_command := command, r_command_args := rest\<rparr>))))))"

section \<open>What is parsed validates\<close>

definition mount_good :: "mount_config \<Rightarrow> bool" where
  "mount_good m \<longleftrightarrow> \<not> blank (m_source m) \<and> container_target_can_be_absolute (m_target m) \<and>
    (\<forall>opt \<in> set (m_options m). \<forall>i k. check_mount_option i opt k = None)"

lemma leading_brace: "leading_space (CHR ''{'' # s) = 0"
  by (auto simp: leading_space_def space_encodings_def)

lemma leading_slash: "leading_space (slash # s) = 0"
  by (auto simp: leading_space_def space_encodings_def)

lemma leading_dot: "leading_space (CHR ''.'' # s) = 0"
  by (auto simp: leading_space_def space_encodings_def)

lemma path_like_not_blank:
  assumes "is_abs s \<or> prefix ''.'' s \<or> prefix file_template s \<or> prefix dir_template s"
  shows "\<not> blank s"
proof -
  from assms obtain c t where "s = c # t" "c = slash \<or> c = CHR ''.'' \<or> c = CHR ''{''"
    by (auto simp: is_abs_def file_template_def dir_template_def elim!: prefixE)
  then show ?thesis
    using leading_slash leading_dot leading_brace not_blank_leading by auto
qed

lemma mount_good_checks: "mount_good m \<Longrightarrow> check_mount m i = None"
  using path_like_not_blank[of "m_target m"]
  by (auto simp: mount_good_def check_mount_def container_target_can_be_absolute_def first_error_None)

text \<open>The loop invariant of the field loop.\<close>

definition mount_fields_inv :: "mount_fields \<Rightarrow> bool" where
  "mount_fields_inv st \<longleftrightarrow>
    (mf_source st \<longrightarrow> \<not> blank (m_source (mf_mount st))) \<and>
    (mf_target st \<longrightarrow> container_target_can_be_absolute (m_target (mf_mount st))) \<and>
    (\<forall>opt \<in> set (m_options (mf_mount st)). \<forall>i k. check_mount_option i opt k = None)"

lemma mount_field_inv:
  assumes "mount_field raw st = Some st'" and "mount_fields_inv st"
  shows "mount_fields_inv st'"
proof -
  obtain key v ok where cut: "cut_char (CHR ''='') raw = (key, v, ok)" by (metis prod_cases3)
  consider (type) "key = ''type''" | (source) "key \<noteq> ''type''" "source_key key"
    | (target) "key \<noteq> ''type''" "\<not> source_key key" "target_key key"
    | (other) "key \<noteq> ''type''" "\<not> source_key key" "\<not> target_key key"
    by blast
  then show ?thesis
  proof cases
    case type
    with assms(1) cut have "st' = st\<lparr>mf_type := True\<rparr>"
      unfolding mount_field_def cut prod.case by (simp split: if_splits)
    with assms(2) show ?thesis by (simp add: mount_fields_inv_def)
  next
    case source
    with assms(1) cut have "\<not> blank v" "st' = st\<lparr>mf_mount := (mf_mount st)\<lparr>m_source := v\<rparr>, mf_source := True\<rparr>"
      unfolding mount_field_def cut prod.case by (simp_all split: if_splits)
    with assms(2) show ?thesis by (simp add: mount_fields_inv_def)
  next
    case target
    with assms(1) cut have "container_target_can_be_absolute v"
      "st' = st\<lparr>mf_mount := (mf_mount st)\<lparr>m_target := v\<rparr>, mf_target := True\<rparr>"
      unfolding mount_field_def cut prod.case by (simp_all split: if_splits)
    with assms(2) show ?thesis by (simp add: mount_fields_inv_def)
  next
    case other
    with assms(1) cut have raw: "\<not> blank raw" "\<not> blank key" "CHR 0x00 \<notin> set raw"
      and st': "st' = st\<lparr>mf_mount := (mf_mount st)\<lparr>m_options := m_options (mf_mount st) @ [raw]\<rparr>\<rparr>"
      unfolding mount_field_def cut prod.case by (simp_all split: if_splits)
    have "\<not> reserved_bind_mount_option_key key" using other by (simp add: reserved_bind_mount_option_key_def source_key_def target_key_def)
    with raw cut have "check_mount_option i raw k = None" for i k
      by (simp add: check_mount_option_def Let_def)
    with assms(2) show ?thesis by (simp add: mount_fields_inv_def st')
  qed
qed

lemma mount_fields_loop_inv:
  "mount_fields_loop fs st = Some st' \<Longrightarrow> mount_fields_inv st \<Longrightarrow> mount_fields_inv st'"
  by (induction fs arbitrary: st) (auto split: option.splits dest: mount_field_inv)

lemma parse_long_bind_mount_good: "parse_long_bind_mount s = Some m \<Longrightarrow> mount_good m"
  by (auto simp: parse_long_bind_mount_def mount_good_def split: option.splits if_splits
      dest!: mount_fields_loop_inv) (auto simp: mount_fields_inv_def empty_mount_def)

lemma ro_option_good: "check_mount_option i ''ro'' k = None"
  by code_simp

lemma parse_volume_bind_mount_good: "parse_volume_bind_mount s = Some m \<Longrightarrow> mount_good m"
  using path_like_not_blank[of "split_char (CHR '':'') s ! 0"]
  by (auto simp: parse_volume_bind_mount_def mount_good_def Let_def ro_option_good
      host_volume_source_looks_like_path_def split: if_splits)

definition run_scan_inv :: "run_scan \<Rightarrow> bool" where
  "run_scan_inv st \<longleftrightarrow>
    (\<forall>kv \<in> set (scanned_environment st). \<not> bad_variable_name (fst kv)) \<and>
    distinct (map fst (scanned_environment st)) \<and>
    (\<forall>sc \<in> set (scanned_options st). \<forall>m. s_mount sc = Some m \<longrightarrow> mount_good m)"

definition scanned_good :: "scanned_run_option \<Rightarrow> bool" where
  "scanned_good sc \<longleftrightarrow> (\<forall>m. s_mount sc = Some m \<longrightarrow> mount_good m)"

lemma run_scan_inv_flags [simp]:
  "run_scan_inv (st\<lparr>environment_safe := a\<rparr>) = run_scan_inv st"
  "run_scan_inv (st\<lparr>mounts_safe := a\<rparr>) = run_scan_inv st"
  by (simp_all add: run_scan_inv_def)

lemma scan_environment_option_inv:
  assumes "scan_environment_option opt (st, sc) = (st', sc')" and "run_scan_inv st" and "scanned_good sc"
  shows "run_scan_inv st' \<and> scanned_good sc'"
proof -
  obtain key v ok where cut: "cut_char (CHR ''='') (o_value opt) = (key, v, ok)" by (metis prod_cases3)
  show ?thesis
  proof (cases "o_clustered opt \<or> \<not> ok \<or> bad_variable_name key \<or> key \<in> fst ` set (scanned_environment st)")
    case True
    with assms(1) have "st' = st\<lparr>environment_safe := False\<rparr>" "sc' = sc"
      by (auto simp: scan_environment_option_def cut split: if_splits)
    with assms(2,3) show ?thesis by simp
  next
    case False
    with assms(1) have "st' = st\<lparr>scanned_environment := scanned_environment st @ [(key, v)]\<rparr>"
      "sc' = sc\<lparr>s_has_env := True\<rparr>"
      by (simp_all add: scan_environment_option_def cut)
    with False assms(2,3) show ?thesis by (auto simp: run_scan_inv_def scanned_good_def)
  qed
qed

lemma scan_mount_option_inv:
  assumes "scan_mount_option m (st, sc) = (st', sc')" and "run_scan_inv st" and "scanned_good sc"
    and "\<And>x. m = Some x \<Longrightarrow> mount_good x"
  shows "run_scan_inv st' \<and> scanned_good sc'"
  using assms by (cases m) (auto simp: scan_mount_option_def scanned_good_def)

lemma scan_option_inv:
  assumes "run_scan_inv st0"
  shows "run_scan_inv (scan_option opt raw st0)"
proof -
  let ?st = "if o_known opt then st0 else st0\<lparr>environment_safe := False, mounts_safe := False\<rparr>"
  let ?sc = "\<lparr>s_raw = raw, s_mount = None, s_has_env = False\<rparr>"
  let ?step = "if o_name opt = ''env'' then scan_environment_option opt (?st, ?sc)
            else if o_name opt = ''mount'' then scan_mount_option (parse_long_bind_mount (o_value opt)) (?st, ?sc)
            else if o_name opt = ''volume'' then
              (if o_clustered opt then (?st\<lparr>mounts_safe := False\<rparr>, ?sc)
               else scan_mount_option (parse_volume_bind_mount (o_value opt)) (?st, ?sc))
            else (?st, ?sc)"
  obtain st1 sc1 where step: "?step = (st1, sc1)" by fastforce
  have st: "run_scan_inv ?st" using assms by simp
  have sc: "scanned_good ?sc" by (simp add: scanned_good_def)
  have "run_scan_inv st1 \<and> scanned_good sc1"
    using step st sc scan_environment_option_inv[of opt ?st ?sc st1 sc1]
      scan_mount_option_inv[of "parse_long_bind_mount (o_value opt)" ?st ?sc st1 sc1]
      scan_mount_option_inv[of "parse_volume_bind_mount (o_value opt)" ?st ?sc st1 sc1]
      parse_long_bind_mount_good parse_volume_bind_mount_good
    by (simp split: if_splits) auto
  then have inv: "run_scan_inv st1" and good: "scanned_good sc1" by auto
  let ?st2 = "if o_name opt \<in> {''env-file'', ''env-host'', ''env-merge'', ''http-proxy'', ''unsetenv'', ''unsetenv-all''}
            then st1\<lparr>environment_safe := False\<rparr>
            else if o_name opt \<in> {''tmpfs'', ''volumes-from''} then st1\<lparr>mounts_safe := False\<rparr>
            else if o_name opt = ''secret'' then st1\<lparr>environment_safe := False, mounts_safe := False\<rparr>
            else st1"
  have "run_scan_inv ?st2" using inv by simp
  moreover have "scan_option opt raw st0 = ?st2\<lparr>scanned_options := scanned_options ?st2 @ [sc1]\<rparr>"
    unfolding scan_option_def Let_def step prod.case by (rule refl)
  ultimately show ?thesis
    using good by (simp only: run_scan_inv_def scanned_good_def run_scan.simps set_append) auto
qed

lemma scan_options_inv:
  "scan_options q ex args st = Inr (left, st') \<Longrightarrow> run_scan_inv st \<Longrightarrow> run_scan_inv st'"
proof (induction q ex args st rule: scan_options.induct)
  case (1 q ex args st)
  show ?case
  proof (cases args)
    case Nil
    with "1.prems" show ?thesis by (simp add: scan_options.simps[of q ex "[]"])
  next
    case (Cons a rest)
    show ?thesis
    proof (cases "a = ''--'' \<or> \<not> prefix ''-'' a \<or> a = ''-''")
      case True
      with "1.prems" Cons show ?thesis
        by (simp add: scan_options.simps[of q ex "a # rest"] split: if_splits list.splits)
    next
      case False
      with "1.prems" Cons obtain opt where opt: "parse_container_run_option ex args = Inr opt"
        and rec: "scan_options q ex (drop (o_consumed opt) args) (scan_option opt (take (o_consumed opt) args) st) =
          Inr (left, st')"
        by (subst (asm) scan_options.simps) (auto split: sum.splits)
      from False have nf: "a \<noteq> ''--''" "\<not> (\<not> prefix ''-'' a \<or> a = ''-'')" by auto
      show ?thesis
        by (rule "1.IH"[OF Cons nf opt rec scan_option_inv[OF "1.prems"(2)]])
    qed
  qed
qed

lemma distribute_good:
  assumes "distribute q ex es ms scs r = Inr r'" and "\<forall>sc \<in> set scs. scanned_good sc"
    and "\<forall>m \<in> set (r_mounts r). mount_good m" and "''--'' \<notin> set (r_container_args r)"
  shows "(\<forall>m \<in> set (r_mounts r'). mount_good m) \<and> ''--'' \<notin> set (r_container_args r') \<and>
    r_image r' = r_image r \<and> r_container_env r' = r_container_env r \<and> r_command r' = r_command r"
  using assms
proof (induction scs arbitrary: r)
  case (Cons sc scs)
  let ?r1 = "if ms \<and> s_mount sc \<noteq> None then r\<lparr>r_mounts := r_mounts r @ [the (s_mount sc)]\<rparr> else r"
  have good: "\<forall>m \<in> set (r_mounts ?r1). mount_good m" "''--'' \<notin> set (r_container_args ?r1)"
    "r_image ?r1 = r_image r" "r_container_env ?r1 = r_container_env r" "r_command ?r1 = r_command r"
    using Cons.prems by (auto simp: scanned_good_def)
  show ?case
  proof (cases "(es \<and> s_has_env sc) \<or> (ms \<and> s_mount sc \<noteq> None)")
    case True
    with Cons.prems(1) have "distribute q ex es ms scs ?r1 = Inr r'"
      by (simp add: Let_def)
    from Cons.IH[OF this _ good(1,2)] Cons.prems(2) good show ?thesis by simp
  next
    case False
    with Cons.prems(1) have raw: "''--'' \<notin> set (s_raw sc)"
      and rec: "distribute q ex es ms scs (r\<lparr>r_container_args := r_container_args r @ s_raw sc\<rparr>) = Inr r'"
      by (auto simp: Let_def split: if_splits)
    from Cons.IH[OF rec] raw Cons.prems show ?thesis by simp
  qed
qed simp

text \<open>The step that \<open>parseCommand\<close> writes, as loading the written YAML marks it.\<close>

definition generated_step :: "string \<Rightarrow> string \<Rightarrow> string \<Rightarrow> structured_container_run \<Rightarrow> command_config" where
  "generated_step name ex program r =
    \<lparr>c_name = name, c_executor = ex, c_program = program, c_args = [], c_image = r_image r,
     c_mounts = r_mounts r, c_container_env = r_container_env r, c_container_args = r_container_args r,
     c_command = r_command r, c_command_args = r_command_args r, c_timeout = 0, c_working_dir = [],
     c_output = [], c_env = [], c_structured_container = True, c_container_command_set = r_command r \<noteq> [],
     c_raw_args_set = False, c_container_fields_set = True\<rparr>"

lemma first_error_NoneI: "(\<And>x i. x \<in> set xs \<Longrightarrow> check x i = None) \<Longrightarrow> first_error check k xs = None"
  by (simp add: first_error_None)

lemma parsed_run_good:
  assumes "parse_structured_container_run q ex args = Some (Inr r)"
  shows "\<not> blank (r_image r) \<and> (\<forall>m \<in> set (r_mounts r). mount_good m) \<and> ''--'' \<notin> set (r_container_args r) \<and>
    (\<forall>kv \<in> set (r_container_env r). \<not> bad_variable_name (fst kv)) \<and>
    (r_command r \<noteq> [] \<longrightarrow> \<not> blank (r_command r))"
proof -
  let ?st0 = "\<lparr>environment_safe = True, mounts_safe = True, scanned_environment = [], scanned_options = []\<rparr>"
  from assms obtain opts left st where opts: "run_arguments args = Some opts"
    and scan: "scan_options q ex opts ?st0 = Inr (left, st)"
    by (auto simp: parse_structured_container_run_def split: option.splits sum.splits)
  have inv: "run_scan_inv st"
    by (rule scan_options_inv[OF scan]) (simp add: run_scan_inv_def)
  let ?r0 = "\<lambda>img. \<lparr>r_image = img, r_container_args = [], r_mounts = [],
      r_container_env = (if environment_safe st then scanned_environment st else []),
      r_command = [], r_command_args = []\<rparr>"
  from assms opts scan obtain img app r1 where img: "left = img # app" "\<not> blank img"
    and dist: "distribute q ex (environment_safe st) (mounts_safe st) (scanned_options st) (?r0 img) = Inr r1"
    by (auto simp: parse_structured_container_run_def split: list.splits if_splits sum.splits)
  with assms opts scan have r: "r = (case app of [] \<Rightarrow> r1
      | command # rest \<Rightarrow> if blank command \<or> prefix ''-'' command then r1\<lparr>r_command_args := app\<rparr>
                        else r1\<lparr>r_command := command, r_command_args := rest\<rparr>)"
    by (auto simp: parse_structured_container_run_def split: list.splits)
  have "(\<forall>m \<in> set (r_mounts r1). mount_good m) \<and> ''--'' \<notin> set (r_container_args r1) \<and>
      r_image r1 = img \<and> r_container_env r1 = (if environment_safe st then scanned_environment st else []) \<and> r_command r1 = []"
    using distribute_good[OF dist] inv by (auto simp: run_scan_inv_def scanned_good_def)
  with img inv show ?thesis
    unfolding r run_scan_inv_def by (auto split: list.split)
qed

lemma parsed_run_valid:
  assumes "parse_structured_container_run q ex args = Some (Inr r)"
  shows "validate_structured_container (generated_step name ex program r) = None"
proof -
  note good = parsed_run_good[OF assms]
  have "first_error check_mount 0 (r_mounts r) = None"
    by (rule first_error_NoneI) (use good mount_good_checks in blast)
  moreover have "first_error (\<lambda>kv i. if bad_variable_name (fst kv)
      then Some (ErrorString [T ''container_env contains invalid variable name '', Q (fst kv)]) else None)
      0 (r_container_env r) = None"
    by (rule first_error_NoneI) (use good in simp)
  moreover have "first_error (\<lambda>a i. if a = ''--'' then Some (ErrorString [T ''container_args['', D i,
      T ''] must not be -- because generated mount and environment options follow container_args'']) else None)
      0 (r_container_args r) = None"
    by (rule first_error_NoneI) (use good in auto)
  ultimately show ?thesis
    using good by (auto simp: validate_structured_container_def generated_step_def)
qed

text \<open>Whatever \<open>onderzeeer parse\<close> turns into a structured step is accepted by the validation of a
  configuration: for every \<open>docker run\<close> or \<open>podman run\<close> command line, the generated image, mounts,
  environment, options and command pass \<open>validateStructuredContainer\<close>.\<close>

theorem parsed_run_validates:
  "parse_structured_container_run q ex args = Some (Inr r) \<Longrightarrow>
    validate_structured_container (generated_step name ex program r) = None"
  by (rule parsed_run_valid)

definition demo_run_args :: "string list" where
  "demo_run_args = [''run'', ''--rm'', ''-v'', ''/data:/in:ro'', ''-e'', ''K=v'', ''alpine'', ''cat'', ''/in/a'']"

lemma demo_run_parses: "parse_structured_container_run id ''docker'' demo_run_args = Some (Inr
    \<lparr>r_image = ''alpine'', r_container_args = [''--rm''],
     r_mounts = [\<lparr>m_source = ''/data'', m_target = ''/in'', m_options = [''ro'']\<rparr>],
     r_container_env = [(''K'', ''v'')], r_command = ''cat'', r_command_args = [''/in/a'']\<rparr>)"
  by code_simp

theorem parsed_run_validates_witness:
  "\<exists>r. parse_structured_container_run id ''docker'' demo_run_args = Some (Inr r) \<and>
     validate_structured_container (generated_step ''copy'' ''docker'' ''docker'' r) = None"
  using parsed_run_validates[OF demo_run_parses] demo_run_parses by blast

end
