(* ===== verification/ParseCommand.thy ===== *)
theory ParseCommand
  imports ContainerParse ConfigModel
begin

text \<open>
  \<open>onderzeeer parse\<close> (\<open>internal/cli/parse.go\<close>) after flag parsing: the executor and the name it
  chooses for a command line, the step it writes and the warnings it prints. The YAML encoder is
  outside the model: the step is the value it encodes, with the flags that loading it again sets.
\<close>

definition generated_executor :: "string \<Rightarrow> string" where
  "generated_executor program =
    (let b = base_path program in
     if b = ExecutorDocker then ExecutorDocker
     else if b = ExecutorPodman then ExecutorPodman
     else if b = ExecutorApptainer then ExecutorApptainer
     else ExecutorCommand)"

definition generated_step_name :: "string \<Rightarrow> string \<Rightarrow> string list \<Rightarrow> string" where
  "generated_step_name program ex args =
    (let base = trim_space (base_path program);
         name = (if base = [] then ''command'' else base);
         action = (if hd args = ''container'' \<and> 1 < length args then args ! 1 else hd args) in
     if ex \<noteq> ExecutorCommand \<and> args \<noteq> [] \<and> (action = ''run'' \<or> action = ''exec'')
     then name @ ''-'' @ action else name)"

definition raw_step :: "string \<Rightarrow> string \<Rightarrow> string \<Rightarrow> string list \<Rightarrow> command_config" where
  "raw_step name ex program args =
    \<lparr>c_name = name, c_executor = ex, c_program = program, c_args = args, c_image = [],
     c_mounts = [], c_container_env = [], c_container_args = [], c_command = [], c_command_args = [],
     c_timeout = 0, c_working_dir = [], c_output = [], c_env = [], c_structured_container = False,
     c_container_command_set = False, c_raw_args_set = args \<noteq> [], c_container_fields_set = False\<rparr>"

text \<open>The step and the warnings; \<open>name\<close> is the value of \<open>--name\<close> when it was given.\<close>

definition parse_command ::
  "(string \<Rightarrow> string) \<Rightarrow> string option \<Rightarrow> string list \<Rightarrow> (command_config \<times> string list) result" where
  "parse_command quote name invocation =
    (case invocation of
       [] \<Rightarrow> Inl (new_error ''parse requires a command'')
     | program # args \<Rightarrow>
         if blank program then Inl (new_error ''parse command must not be blank'')
         else if name \<noteq> None \<and> blank (the name) then Inl (new_error ''parse --name must not be blank'')
         else
           (let ex = generated_executor program;
                step_name = (case name of Some n \<Rightarrow> trim_space n | None \<Rightarrow> generated_step_name program ex args);
                step_program = (if ex = ExecutorCommand \<or> program \<noteq> ex then program else []);
                raw = raw_step step_name ex step_program args;
                (step, reason) =
                  (if ex = ExecutorDocker \<or> ex = ExecutorPodman then
                     (case parse_structured_container_run quote ex args of
                        None \<Rightarrow> (raw, [])
                      | Some (Inl reason) \<Rightarrow> (raw, [reason @ ''; emitted raw runtime args''])
                      | Some (Inr r) \<Rightarrow> (generated_step step_name ex step_program r, []))
                   else (raw, [])) in
            Inr (step, reason @ warnings (raw_step [] ex program args))))"

section \<open>What is written is accepted\<close>

lemma encoding_no_dash: "p \<in> set space_encodings \<Longrightarrow> CHR ''-'' \<notin> set p"
  by (auto simp: space_encodings_def)

lemma leading_space_zero: "leading_space s = 0 \<longleftrightarrow> (\<forall>p \<in> set space_encodings. \<not> prefix p s)"
proof (cases "List.find (\<lambda>p. prefix p s) space_encodings")
  case None
  then have "\<forall>p \<in> set space_encodings. \<not> prefix p s" by (auto simp: find_None_iff)
  with None show ?thesis by (simp add: leading_space_def)
next
  case (Some p)
  then have "p \<in> set space_encodings" "prefix p s" by (auto simp: find_Some_iff)
  then show ?thesis using Some space_encodings_nonempty[of p] by (auto simp: leading_space_def)
qed

lemma prefix_before_dash:
  assumes "prefix p (t @ CHR ''-'' # u)" and "CHR ''-'' \<notin> set p"
  shows "prefix p t"
  using assms by (auto simp: prefix_append prefix_Cons)

lemma named_not_blank:
  assumes "t \<noteq> []" and "leading_space t = 0"
  shows "trim_space (t @ ''-'' @ u) \<noteq> []"
proof -
  have "\<not> prefix p (t @ ''-'' @ u)" if "p \<in> set space_encodings" for p
    using assms(2) prefix_before_dash[of p t u] encoding_no_dash[OF that] that by (auto simp: leading_space_zero)
  then have "leading_space (t @ ''-'' @ u) = 0" by (simp only: leading_space_zero) blast
  then show ?thesis using not_blank_leading[of "t @ ''-'' @ u"] by (simp add: blank_def)
qed

lemma generated_name_ok: "trim_space (generated_step_name program ex args) \<noteq> []"
proof -
  define name where "name = (if trim_space (base_path program) = [] then ''command'' else trim_space (base_path program))"
  have cmd: "leading_space ''command'' = 0" by code_simp
  have name: "name \<noteq> []" "leading_space name = 0"
    using cmd leading_space_prefix[OF trim_left_fixed trim_right_prefix]
    by (auto simp: name_def trim_space_def)
  then have "trim_space name \<noteq> []" using not_blank_leading[of name] by (simp add: blank_def)
  moreover have "trim_space (name @ ''-'' @ action) \<noteq> []" for action using named_not_blank[OF name] .
  ultimately show ?thesis
    by (simp add: generated_step_name_def Let_def name_def[symmetric])
qed

definition step_accepted :: "command_config \<Rightarrow> bool" where
  "step_accepted c \<longleftrightarrow> (\<forall>at. check_command at (normalise_command (default_command c)) = None)"

lemma generated_executor_cases:
  "generated_executor p \<in> {ExecutorDocker, ExecutorPodman, ExecutorApptainer, ExecutorCommand}"
  by (simp add: generated_executor_def Let_def)

lemma executors_not_blank:
  "\<not> blank ExecutorDocker" "\<not> blank ExecutorPodman" "\<not> blank ExecutorApptainer"
  by (code_simp)+

text \<open>The program that the defaults put back is the one that was omitted.\<close>

lemma default_program_restored:
  assumes "\<not> blank program" and "ex \<in> {ExecutorDocker, ExecutorPodman, ExecutorApptainer, ExecutorCommand}"
    and "c_executor c = ex" and "c_program c = (if ex = ExecutorCommand \<or> program \<noteq> ex then program else [])"
  shows "default_command c = c\<lparr>c_program := program\<rparr>"
  using assms executors_not_blank
  by (auto simp: default_command_def default_program_def Let_def)

lemma raw_step_accepted:
  assumes "trim_space name \<noteq> []" and "\<not> blank program"
    and ex: "ex \<in> {ExecutorDocker, ExecutorPodman, ExecutorApptainer, ExecutorCommand}"
  shows "step_accepted (raw_step name ex (if ex = ExecutorCommand \<or> program \<noteq> ex then program else []) args)"
proof -
  let ?c = "raw_step name ex (if ex = ExecutorCommand \<or> program \<noteq> ex then program else []) args"
  have "default_command ?c = ?c\<lparr>c_program := program\<rparr>"
    by (rule default_program_restored[OF assms(2) ex]) (simp_all add: raw_step_def)
  moreover have "executor_valid ex" "ex \<noteq> ExecutorShell" using ex by (auto simp: executor_valid_def)
  ultimately show ?thesis
    using assms(1,2)
    by (simp add: step_accepted_def check_command_def normalise_command_def raw_step_def Let_def
        uses_structured_container_def check_env_def)
qed

lemma structured_step_accepted:
  assumes "trim_space name \<noteq> []" and "\<not> blank program"
    and ex: "ex = ExecutorDocker \<or> ex = ExecutorPodman"
    and r: "parse_structured_container_run q ex args = Some (Inr r)"
  shows "step_accepted (generated_step name ex (if ex = ExecutorCommand \<or> program \<noteq> ex then program else []) r)"
proof -
  define c where "c = generated_step name ex (if ex = ExecutorCommand \<or> program \<noteq> ex then program else []) r"
  define d where "d = normalise_command (c\<lparr>c_program := program\<rparr>)"
  have dc: "default_command c = c\<lparr>c_program := program\<rparr>"
    by (rule default_program_restored[OF assms(2)]) (use ex in \<open>auto simp: c_def generated_step_def\<close>)
  have "validate_structured_container d = validate_structured_container (generated_step name ex program r)"
    by (simp add: validate_structured_container_def normalise_command_def generated_step_def Let_def c_def d_def)
  then have "validate_structured_container d = None" using parsed_run_valid[OF r] by simp
  moreover have "executor_valid ex" "ex \<noteq> ExecutorShell" "ex \<noteq> ExecutorCommand"
    using ex by (auto simp: executor_valid_def)
  moreover have "c_name d = trim_space name" "c_executor d = ex" "c_program d = program" "c_timeout d = 0"
    "c_env d = []" by (simp_all add: normalise_command_def generated_step_def Let_def c_def d_def)
  ultimately have "check_command at d = None" for at
    using assms(1,2) by (simp add: check_command_def check_env_def)
  then have "step_accepted c" by (simp add: step_accepted_def dc d_def)
  then show ?thesis by (simp add: c_def)
qed

text \<open>C27: Whatever \<open>onderzeeer parse\<close> writes, in structured or in raw form, for any command line and
  any name, is accepted as a pipeline step by the loader: after the defaults are applied, every check
  of \<open>Validate\<close> on a command passes.\<close>

theorem parsed_step_accepted:
  assumes "parse_command quote name invocation = Inr (step, notes)"
  shows "\<forall>at. check_command at (normalise_command (default_command step)) = None"
proof -
  obtain program args where inv: "invocation = program # args"
    using assms by (cases invocation) (auto simp: parse_command_def)
  define ex where "ex = generated_executor program"
  define n where "n = (case name of Some n \<Rightarrow> trim_space n | None \<Rightarrow> generated_step_name program ex args)"
  have program: "\<not> blank program" and given: "name \<noteq> None \<longrightarrow> \<not> blank (the name)"
    using assms by (auto simp: parse_command_def inv split: if_splits)
  have n: "trim_space n \<noteq> []"
    using given generated_name_ok by (auto simp: n_def blank_def split: option.splits)
  have ex: "ex \<in> {ExecutorDocker, ExecutorPodman, ExecutorApptainer, ExecutorCommand}"
    unfolding ex_def by (rule generated_executor_cases)
  let ?p = "if ex = ExecutorCommand \<or> program \<noteq> ex then program else []"
  from assms program given have "step = raw_step n ex ?p args \<or>
      (\<exists>r. (ex = ExecutorDocker \<or> ex = ExecutorPodman) \<and>
        parse_structured_container_run quote ex args = Some (Inr r) \<and> step = generated_step n ex ?p r)"
    unfolding parse_command_def inv list.case ex_def[symmetric] n_def[symmetric] Let_def
    by (auto split: if_splits option.splits sum.splits prod.splits)
  then have "step_accepted step"
    using raw_step_accepted[OF n program ex] structured_step_accepted[OF n program] by blast
  then show ?thesis by (simp add: step_accepted_def)
qed

lemma demo_parse: "parse_command id None (''docker'' # demo_run_args) = Inr
    (generated_step ''docker-run'' ''docker'' [] \<lparr>r_image = ''alpine'', r_container_args = [''--rm''],
     r_mounts = [\<lparr>m_source = ''/data'', m_target = ''/in'', m_options = [''ro'']\<rparr>],
     r_container_env = [(''K'', ''v'')], r_command = ''cat'', r_command_args = [''/in/a'']\<rparr>, [])"
  by code_simp

theorem parsed_step_accepted_witness:
  "\<exists>step notes. parse_command id None (''docker'' # demo_run_args) = Inr (step, notes) \<and>
     check_command [] (normalise_command (default_command step)) = None"
  using parsed_step_accepted[OF demo_parse] demo_parse by blast

end
