(* ===== verification/ShellText.thy ===== *)
theory ShellText
  imports GoString
begin

text \<open>
  The shell text that \<open>onderzeeer check\<close> prints (\<open>internal/cli/check.go\<close>), and the proof that a
  POSIX shell reads back the program and the arguments it was made from.
\<close>

section \<open>Quoting\<close>

definition is_shell_keyword :: "string \<Rightarrow> bool" where
  "is_shell_keyword v \<longleftrightarrow> v \<in> {''case'', ''coproc'', ''do'', ''done'', ''elif'', ''else'', ''esac'', ''fi'', ''for'',
     ''function'', ''if'', ''in'', ''select'', ''then'', ''time'', ''until'', ''while''}"

definition safe_code :: "nat \<Rightarrow> bool" where
  "safe_code r \<longleftrightarrow> (97 \<le> r \<and> r \<le> 122) \<or> (65 \<le> r \<and> r \<le> 90) \<or> (48 \<le> r \<and> r \<le> 57) \<or>
    r \<in> byte ` set ''_@%+=:,./-''"

definition is_shell_safe_word :: "string \<Rightarrow> bool" where
  "is_shell_safe_word v \<longleftrightarrow> list_all safe_code (runes v)"

definition single_quote_char :: "char \<Rightarrow> string" where
  "single_quote_char c = (if c = CHR 0x27 then [CHR 0x27, CHR 0x22, CHR 0x27, CHR 0x22, CHR 0x27] else [c])"

definition quote_shell_word_always :: "string \<Rightarrow> string" where
  "quote_shell_word_always v = [CHR 0x27] @ concat (map single_quote_char v) @ [CHR 0x27]"

definition quote_shell_word :: "string \<Rightarrow> string" where
  "quote_shell_word v =
    (if v = [] then [CHR 0x27, CHR 0x27]
     else if is_shell_safe_word v then v else quote_shell_word_always v)"

definition quote_shell_command :: "string \<Rightarrow> string" where
  "quote_shell_command v =
    (if CHR ''='' \<in> set v \<or> is_shell_keyword v then quote_shell_word_always v else quote_shell_word v)"

definition format_shell_invocation :: "string \<Rightarrow> string list \<Rightarrow> string" where
  "format_shell_invocation program args =
    join_strings '' '' (quote_shell_command program # map quote_shell_word args)"

section \<open>What a shell reads\<close>

text \<open>
  The part of the POSIX token rules the text needs: words separated by blanks, made of single-quoted
  text, double-quoted text without expansions, and characters that have no meaning to the shell.
  Everything else is \<open>None\<close>, and so is a command word that the shell would take for a reserved word
  or an assignment.
\<close>

definition safe_byte :: "char \<Rightarrow> bool" where
  "safe_byte c \<longleftrightarrow> safe_code (byte c)"

datatype quoting = Plain | Single | Double

fun read_word :: "quoting \<Rightarrow> string \<Rightarrow> (string \<times> string) option" where
  "read_word Plain [] = Some ([], [])"
| "read_word Single [] = None"
| "read_word Double [] = None"
| "read_word Plain (c # s) =
    (if c = CHR '' '' then Some ([], c # s)
     else if c = CHR 0x27 then read_word Single s
     else if c = CHR 0x22 then read_word Double s
     else if safe_byte c then map_option (\<lambda>(w, r). (c # w, r)) (read_word Plain s)
     else None)"
| "read_word Single (c # s) =
    (if c = CHR 0x27 then read_word Plain s else map_option (\<lambda>(w, r). (c # w, r)) (read_word Single s))"
| "read_word Double (c # s) =
    (if c = CHR 0x22 then read_word Plain s
     else if c = CHR ''$'' \<or> c = CHR 0x60 \<or> c = CHR 0x5C then None
     else map_option (\<lambda>(w, r). (c # w, r)) (read_word Double s))"

lemma read_word_shorter: "read_word q s = Some (w, r) \<Longrightarrow> length r \<le> length s"
proof (induction s arbitrary: q w)
  case Nil
  then show ?case by (cases q) auto
next
  case (Cons c s)
  show ?case
  proof (cases "\<exists>q' w'. read_word q' s = Some (w', r)")
    case True
    then show ?thesis using Cons.IH by fastforce
  next
    case False
    with Cons.prems show ?thesis by (cases q) (auto split: if_splits)
  qed
qed

function read_words :: "string \<Rightarrow> string list option" where
  "read_words s =
    (case read_word Plain s of
       None \<Rightarrow> None
     | Some (w, []) \<Rightarrow> Some [w]
     | Some (w, c # r) \<Rightarrow> map_option ((#) w) (read_words r))"
  by pat_completeness auto
termination
  by (relation "measure length") (auto dest!: read_word_shorter)

declare read_words.simps [simp del]

definition shell_reads :: "string \<Rightarrow> string list option" where
  "shell_reads s =
    (let raw = takeWhile (\<lambda>c. c \<noteq> CHR '' '') s in
     if is_shell_keyword raw \<or> (list_all safe_byte raw \<and> CHR ''='' \<in> set raw) then None else read_words s)"

lemma decode_high:
  assumes high: "\<not> byte a < 0x80"
  shows "0x80 \<le> fst (decode_rune (a # s))"
proof -
  consider (two) "0xC2 \<le> byte a" "byte a \<le> 0xDF" | (three) "0xE0 \<le> byte a" "byte a \<le> 0xEF"
    | (four) "0xF0 \<le> byte a" "byte a \<le> 0xF4"
    | (bad) "\<not> (0xC2 \<le> byte a \<and> byte a \<le> 0xDF)" "\<not> (0xE0 \<le> byte a \<and> byte a \<le> 0xEF)"
        "\<not> (0xF0 \<le> byte a \<and> byte a \<le> 0xF4)" by blast
  then show ?thesis
  proof cases
    case two
    then have "2 * 64 \<le> (byte a - 0xC0) * 64" by (intro mult_le_mono1) simp
    then have "0x80 \<le> (byte a - 0xC0) * 64 + k" for k by simp
    with high two show ?thesis
      by (cases s) (simp_all add: decode_rune.simps(2) rune_error_def)
  next
    case three
    show ?thesis
    proof (cases "\<exists>b c t. s = b # c # t \<and> is_cont (if byte a = 0xE0 then 0xA0 else 0x80) (if byte a = 0xED then 0x9F else 0xBF) b
             \<and> is_cont 0x80 0xBF c")
      case True
      then obtain b c t where s: "s = b # c # t" and
        b: "is_cont (if byte a = 0xE0 then 0xA0 else 0x80) (if byte a = 0xED then 0x9F else 0xBF) b" "is_cont 0x80 0xBF c"
        by blast
      have "0x80 \<le> (byte a - 0xE0) * 4096 + (byte b - 0x80) * 64"
      proof (cases "byte a = 0xE0")
        case True
        with b have "0x20 \<le> byte b - 0x80" by (auto simp: is_cont_def)
        then have "0x20 * 64 \<le> (byte b - 0x80) * 64" by (rule mult_le_mono1)
        then show ?thesis by simp
      next
        case False
        with three have "1 * 4096 \<le> (byte a - 0xE0) * 4096" by (intro mult_le_mono1) simp
        then show ?thesis by simp
      qed
      then have "0x80 \<le> (byte a - 0xE0) * 4096 + (byte b - 0x80) * 64 + (byte c - 0x80)" by (rule trans_le_add1)
      moreover have "fst (decode_rune (a # s)) = (byte a - 0xE0) * 4096 + (byte b - 0x80) * 64 + (byte c - 0x80)"
        using high three b by (simp add: decode_rune.simps(2) s del: diff_add_assoc2)
      ultimately show ?thesis by simp
    next
      case False
      have "fst (decode_rune (a # s)) = rune_error"
        using high three False by (auto simp: decode_rune.simps(2) split: list.split)
      then show ?thesis by (simp add: rune_error_def)
    qed
  next
    case four
    show ?thesis
    proof (cases "\<exists>b c d t. s = b # c # d # t \<and> is_cont (if byte a = 0xF0 then 0x90 else 0x80) (if byte a = 0xF4 then 0x8F else 0xBF) b
             \<and> is_cont 0x80 0xBF c \<and> is_cont 0x80 0xBF d")
      case True
      then obtain b c d t where s: "s = b # c # d # t" and
        b: "is_cont (if byte a = 0xF0 then 0x90 else 0x80) (if byte a = 0xF4 then 0x8F else 0xBF) b"
          "is_cont 0x80 0xBF c" "is_cont 0x80 0xBF d" by blast
      have "0x80 \<le> (byte a - 0xF0) * 262144 + (byte b - 0x80) * 4096"
      proof (cases "byte a = 0xF0")
        case True
        with b have "0x10 \<le> byte b - 0x80" by (auto simp: is_cont_def)
        then have "0x10 * 4096 \<le> (byte b - 0x80) * 4096" by (rule mult_le_mono1)
        then show ?thesis by simp
      next
        case False
        with four have "1 * 262144 \<le> (byte a - 0xF0) * 262144" by (intro mult_le_mono1) simp
        then show ?thesis by simp
      qed
      then have "0x80 \<le> (byte a - 0xF0) * 262144 + (byte b - 0x80) * 4096 + (byte c - 0x80) * 64 + (byte d - 0x80)"
        by (elim trans_le_add1[OF trans_le_add1])
      moreover have "fst (decode_rune (a # s)) =
          (byte a - 0xF0) * 262144 + (byte b - 0x80) * 4096 + (byte c - 0x80) * 64 + (byte d - 0x80)"
        using high four b by (simp add: decode_rune.simps(2) s del: diff_add_assoc2)
      ultimately show ?thesis by simp
    next
      case False
      have "fst (decode_rune (a # s)) = rune_error"
        using high four False by (auto simp: decode_rune.simps(2) split: list.split)
      then show ?thesis by (simp add: rune_error_def)
    qed
  next
    case bad
    have "decode_rune (a # s) = (rune_error, 1)"
      by (simp only: decode_rune.simps(2) bad high if_False)
    then show ?thesis by (simp add: rune_error_def)
  qed
qed

lemma safe_code_ascii: "safe_code r \<Longrightarrow> r < 0x80"
  by (auto simp: safe_code_def)

lemma shell_safe_bytes: "is_shell_safe_word v \<Longrightarrow> list_all safe_byte v"
proof (induction v rule: runes.induct)
  case (2 a s)
  have "byte a < 0x80"
    using 2(2) decode_high[of a s] safe_code_ascii
    by (fastforce simp: is_shell_safe_word_def runes.simps(2) split: prod.splits)
  then have "decode_rune (a # s) = (byte a, 1)" by (simp add: decode_rune.simps(2))
  with 2 show ?case by (simp add: is_shell_safe_word_def runes.simps(2) safe_byte_def)
qed simp

lemma read_word_safe:
  assumes "list_all safe_byte v" and "r = [] \<or> hd r = CHR '' ''"
  shows "read_word Plain (v @ r) = Some (v, r)"
  using assms(1)
proof (induction v)
  case Nil
  from assms(2) show ?case by (cases r) auto
next
  case (Cons c v)
  then have "c \<noteq> CHR '' ''" "c \<noteq> CHR 0x27" "c \<noteq> CHR 0x22" by (auto simp: safe_byte_def safe_code_def)
  with Cons show ?case by simp
qed

lemma read_word_quoted:
  assumes "r = [] \<or> hd r = CHR '' ''"
  shows "read_word Single (concat (map single_quote_char v) @ CHR 0x27 # r) = Some (v, r)"
proof (induction v)
  case Nil
  from assms show ?case by (cases r) auto
next
  case (Cons c v)
  then show ?case by (cases "c = CHR 0x27") (simp_all add: single_quote_char_def)
qed

lemma read_quoted:
  assumes "r = [] \<or> hd r = CHR '' ''"
  shows "read_word Plain (quote_shell_word v @ r) = Some (v, r)"
    and "read_word Plain (quote_shell_word_always v @ r) = Some (v, r)"
    and "read_word Plain (quote_shell_command v @ r) = Some (v, r)"
proof -
  show always: "read_word Plain (quote_shell_word_always v @ r) = Some (v, r)"
    using read_word_quoted[OF assms, of v] by (simp add: quote_shell_word_always_def)
  show word: "read_word Plain (quote_shell_word v @ r) = Some (v, r)"
    using always read_word_safe[OF shell_safe_bytes assms, of v] assms
    by (cases r) (auto simp: quote_shell_word_def)
  show "read_word Plain (quote_shell_command v @ r) = Some (v, r)"
    using always word by (simp add: quote_shell_command_def)
qed

lemma read_words_quoted: "read_words (join_strings '' '' (map quote_shell_word (a # args))) = Some (a # args)"
proof (induction args arbitrary: a)
  case Nil
  then show ?case using read_quoted(1)[of "[]" a] by (subst read_words.simps) simp
next
  case (Cons b args)
  then show ?case
    using read_quoted(1)[of "CHR '' '' # join_strings '' '' (map quote_shell_word (b # args))" a]
    by (subst read_words.simps) simp
qed

lemma read_words_invocation: "read_words (format_shell_invocation p args) = Some (p # args)"
proof (cases args)
  case Nil
  then show ?thesis
    using read_quoted(3)[of "[]" p] by (subst read_words.simps) (simp add: format_shell_invocation_def)
next
  case (Cons b bs)
  then show ?thesis
    using read_quoted(3)[of "CHR '' '' # join_strings '' '' (map quote_shell_word (b # bs))" p]
      read_words_quoted[of b bs]
    by (subst read_words.simps) (simp add: format_shell_invocation_def)
qed

lemma join_first: "\<exists>r. join_strings '' '' (w # ws) = w @ r \<and> (r = [] \<or> hd r = CHR '' '')"
  by (cases ws) auto

lemma shell_invocation_exact:
  "shell_reads (format_shell_invocation program args) = Some (program # args)"
proof -
  let ?w = "quote_shell_command program"
  obtain r where r: "format_shell_invocation program args = ?w @ r" "r = [] \<or> hd r = CHR '' ''"
    using join_first[of ?w "map quote_shell_word args"] by (auto simp: format_shell_invocation_def)
  let ?raw = "takeWhile (\<lambda>c. c \<noteq> CHR '' '') (?w @ r)"
  have "\<not> is_shell_keyword ?raw \<and> \<not> (list_all safe_byte ?raw \<and> CHR ''='' \<in> set ?raw)"
  proof (cases "hd ?w = CHR 0x27 \<and> ?w \<noteq> []")
    case True
    then obtain t where t: "?raw = CHR 0x27 # t" by (cases ?w) auto
    then show ?thesis by (simp add: is_shell_keyword_def safe_byte_def safe_code_def)
  next
    case False
    then have plain: "?w = program" "is_shell_safe_word program" "CHR ''='' \<notin> set program" "\<not> is_shell_keyword program"
      by (auto simp: quote_shell_command_def quote_shell_word_def quote_shell_word_always_def split: if_splits)
    have "CHR '' '' \<notin> set program"
      using shell_safe_bytes[OF plain(2)] by (auto simp: list_all_iff safe_byte_def safe_code_def)
    then have "?raw = program"
      using plain(1) r(2) by (cases r) (auto simp: takeWhile_append2 takeWhile_tail)
    with plain show ?thesis by simp
  qed
  then show ?thesis
    using read_words_invocation[of program args] by (simp add: shell_reads_def r(1) Let_def)
qed


end
