(* ===== verification/ExecutorModel.thy ===== *)
theory ExecutorModel
  imports GoPath
begin

text \<open>
  Command execution (\<open>internal/executor/executor.go\<close>): template expansion, the environment of the
  child, the bounded capture of its output, and \<open>Execute\<close>. What the operating system does with the
  child (\<open>os/exec\<close>, signals, files, clocks) is the argument \<open>process_outcome\<close>.
\<close>

section \<open>Data\<close>

record exec_command =
  x_name :: string
  x_program :: string
  x_args :: "string list"
  x_timeout :: duration
  x_working_dir :: string
  x_output :: string
  x_env :: "(string \<times> string) list"

record exec_result =
  xr_started_at :: time
  xr_finished_at :: time
  xr_exit_code :: int
  xr_stdout :: string
  xr_stderr :: string
  xr_timed_out :: bool

section \<open>Templates\<close>

text \<open>\<open>NewExpander\<close>: the replacements of one job, tried in this order at every position.\<close>

definition new_expander :: "string \<Rightarrow> int \<Rightarrow> (string \<times> string) list" where
  "new_expander file job_id =
    (let ext = ext_path file; base = base_path file in
     [(''{{file}}'', file), (''{{dir}}'', dir_path file), (''{{basename}}'', base),
      (''{{stem}}'', trim_suffix ext base), (''{{ext}}'', ext), (''{{job_id}}'', format_int job_id)])"

definition expand_string :: "(string \<times> string) list \<Rightarrow> string \<Rightarrow> string" where
  "expand_string expander v = replace expander v"

section \<open>Environment\<close>

definition environment :: "(string \<times> string) list \<Rightarrow> string list" where
  "environment m = sort_strings (map (\<lambda>(k, v). k @ ''='' @ v) m)"

text \<open>Assignment to a Go map.\<close>

fun map_set :: "string \<Rightarrow> string \<Rightarrow> (string \<times> string) list \<Rightarrow> (string \<times> string) list" where
  "map_set k v [] = [(k, v)]"
| "map_set k v ((k', v') # m) = (if k' = k then (k, v) # m else (k', v') # map_set k v m)"

definition base_assignment :: "string \<Rightarrow> (string \<times> string) list \<Rightarrow> (string \<times> string) list" where
  "base_assignment item m =
    (case cut_char (CHR ''='') item of (k, v, ok) \<Rightarrow> if ok then map_set k v m else m)"

definition merge_environment :: "string list \<Rightarrow> (string \<times> string) list \<Rightarrow> string list" where
  "merge_environment base overrides =
    (if overrides = [] then base
     else environment (fold (\<lambda>(k, v). map_set k v) overrides (fold base_assignment base [])))"

section \<open>Captured output\<close>

record limited_buffer =
  lb_data :: string
  lb_limit :: nat
  lb_truncated :: bool

definition new_limited_buffer :: "nat \<Rightarrow> limited_buffer" where
  "new_limited_buffer limit = \<lparr>lb_data = [], lb_limit = limit, lb_truncated = False\<rparr>"

definition buffer_write :: "string \<Rightarrow> limited_buffer \<Rightarrow> limited_buffer" where
  "buffer_write data b =
    (let remaining = int (lb_limit b) - int (length (lb_data b));
         taken = (if 0 < remaining then min remaining (int (length data)) else remaining) in
     b\<lparr>lb_data := lb_data b @ take (nat taken) data,
       lb_truncated := lb_truncated b \<or> taken < int (length data)\<rparr>)"

definition truncation_marker :: "nat \<Rightarrow> string" where
  "truncation_marker limit =
    [CHR 0x0A] @ ''[onderzeeer: output truncated after '' @ format_int (int limit) @ '' bytes]'' @ [CHR 0x0A]"

definition buffer_string :: "limited_buffer \<Rightarrow> string" where
  "buffer_string b = (if lb_truncated b then lb_data b @ truncation_marker (lb_limit b) else lb_data b)"

definition max_captured_output_bytes :: nat where
  "max_captured_output_bytes = 1048576"

definition captured :: "string list \<Rightarrow> string" where
  "captured chunks = buffer_string (fold buffer_write chunks (new_limited_buffer max_captured_output_bytes))"

section \<open>Execution\<close>

text \<open>What happens outside: opening and closing the output file, the chunks the child writes, how it
  ends, and the state of the two contexts afterwards.\<close>

record process_outcome =
  po_open_error :: "go_error option"
  po_stdout :: "string list"
  po_stderr :: "string list"
  po_run_error :: "go_error option"
  po_cleanup_error :: "go_error option"
  po_close_error :: "go_error option"
  po_exit_code :: "int option"
  po_run_context_error :: "go_error option"
  po_context_error :: "go_error option"
  po_started_at :: time
  po_finished_at :: time

definition command_label :: "exec_command \<Rightarrow> string" where
  "command_label c = (if x_name c \<noteq> [] then x_name c else x_program c)"

definition output_path :: "exec_command \<Rightarrow> string" where
  "output_path c =
    (if \<not> is_abs (x_output c) \<and> x_working_dir c \<noteq> [] then join_path [x_working_dir c, x_output c]
     else x_output c)"

definition open_output_error :: "exec_command \<Rightarrow> process_outcome \<Rightarrow> go_error option" where
  "open_output_error c oc =
    (if x_output c = [] then None
     else map_option (\<lambda>e. Wrapped [T ''open output '', Q (output_path c), T '': ''] e []) (po_open_error oc))"

definition close_output_error :: "exec_command \<Rightarrow> process_outcome \<Rightarrow> go_error option" where
  "close_output_error c oc =
    (if x_output c = [] then None
     else map_option (\<lambda>e. Wrapped [T ''close output '', Q (output_path c), T '': ''] e []) (po_close_error oc))"

definition err_timeout :: go_error where
  "err_timeout = Sentinel ''command timed out''"

definition label_error :: "exec_command \<Rightarrow> go_error \<Rightarrow> go_error" where
  "label_error c e = Wrapped [T ''executor: '', T (command_label c), T '': ''] e []"

definition empty_result :: exec_result where
  "empty_result = \<lparr>xr_started_at = zero_time, xr_finished_at = zero_time, xr_exit_code = -1,
     xr_stdout = [], xr_stderr = [], xr_timed_out = False\<rparr>"

definition execute :: "exec_command \<Rightarrow> process_outcome \<Rightarrow> exec_result \<times> go_error option" where
  "execute c oc =
    (if x_program c = [] then (empty_result, Some (new_error ''executor: program is required''))
     else
       (case open_output_error c oc of
          Some e \<Rightarrow> (empty_result, Some (label_error c e))
        | None \<Rightarrow>
            (let result = \<lparr>xr_started_at = po_started_at oc, xr_finished_at = po_finished_at oc,
                           xr_exit_code = (case po_exit_code oc of Some n \<Rightarrow> n | None \<Rightarrow> -1),
                           xr_stdout = captured (po_stdout oc), xr_stderr = captured (po_stderr oc),
                           xr_timed_out = False\<rparr>;
                 cleanup = po_cleanup_error oc;
                 closing = close_output_error c oc in
             case po_run_context_error oc of
               Some ctx_error \<Rightarrow>
                 if ctx_error = err_deadline \<and> po_context_error oc \<noteq> Some err_deadline
                 then (result\<lparr>xr_timed_out := True\<rparr>,
                       map_option (label_error c)
                         (errors_join [Some err_timeout, Some err_deadline, cleanup, closing]))
                 else (result, map_option (label_error c) (errors_join [Some ctx_error, cleanup, closing]))
             | None \<Rightarrow>
                 (result, map_option (label_error c) (errors_join [po_run_error oc, cleanup, closing])))))"

section \<open>Bounded capture\<close>

lemma buffer_write_limit [simp]: "lb_limit (buffer_write data b) = lb_limit b"
  by (simp add: buffer_write_def Let_def)

lemma buffer_write_exact:
  assumes "lb_data b = take (lb_limit b) s" and "lb_truncated b \<longleftrightarrow> lb_limit b < length s"
  shows "lb_data (buffer_write data b) = take (lb_limit b) (s @ data)"
    and "lb_truncated (buffer_write data b) \<longleftrightarrow> lb_limit b < length (s @ data)"
proof -
  show "lb_data (buffer_write data b) = take (lb_limit b) (s @ data)"
    using assms by (cases "length s < lb_limit b") (auto simp: buffer_write_def Let_def min_def nat_diff_distrib)
  show "lb_truncated (buffer_write data b) \<longleftrightarrow> lb_limit b < length (s @ data)"
    using assms by (cases "length s < lb_limit b") (auto simp: buffer_write_def Let_def min_def)
qed

lemma buffer_writes_exact:
  "lb_data (fold buffer_write chunks (new_limited_buffer n)) = take n (concat chunks) \<and>
   lb_limit (fold buffer_write chunks (new_limited_buffer n)) = n \<and>
   (lb_truncated (fold buffer_write chunks (new_limited_buffer n)) \<longleftrightarrow> n < length (concat chunks))"
proof (induction chunks rule: rev_induct)
  case Nil
  show ?case by (simp add: new_limited_buffer_def)
next
  case (snoc data chunks)
  then show ?case
    using buffer_write_exact[of "fold buffer_write chunks (new_limited_buffer n)" "concat chunks" data] by simp
qed

text \<open>Captured output does not depend on how the child splits its writes: whatever the chunks, the
  recorded text is the first mebibyte of everything written, followed by the truncation marker exactly
  when there was more.\<close>

theorem captured_output_exact:
  "captured chunks =
    take max_captured_output_bytes (concat chunks) @
    (if max_captured_output_bytes < length (concat chunks) then truncation_marker max_captured_output_bytes else [])"
  using buffer_writes_exact[of chunks max_captured_output_bytes]
  by (simp add: captured_def buffer_string_def)

section \<open>Environment\<close>

lemma map_of_map_set: "map_of (map_set k v m) = (map_of m)(k \<mapsto> v)"
  by (induction k v m rule: map_set.induct) auto

lemma distinct_map_set: "distinct (map fst m) \<Longrightarrow> distinct (map fst (map_set k v m))"
proof -
  have "fst ` set (map_set k v m) = insert k (fst ` set m)" for m
    by (induction k v m rule: map_set.induct) auto
  then show "distinct (map fst m) \<Longrightarrow> distinct (map fst (map_set k v m))"
    by (induction k v m rule: map_set.induct) auto
qed

lemma distinct_overrides:
  "distinct (map fst m) \<Longrightarrow> distinct (map fst (fold (\<lambda>(k, v). map_set k v) kvs m))"
  by (induction kvs arbitrary: m) (auto simp: distinct_map_set)

lemma distinct_base: "distinct (map fst m) \<Longrightarrow> distinct (map fst (fold base_assignment items m))"
  by (induction items arbitrary: m) (auto simp: base_assignment_def distinct_map_set split: prod.split)

lemma map_of_overrides:
  "distinct (map fst kvs) \<Longrightarrow> map_of (fold (\<lambda>(k, v). map_set k v) kvs m) = map_of m ++ map_of kvs"
proof (induction kvs arbitrary: m)
  case (Cons kv kvs)
  obtain k v where kv: "kv = (k, v)" by fastforce
  with Cons have "map_of (fold (\<lambda>(k, v). map_set k v) kvs (map_set k v m)) = (map_of m)(k \<mapsto> v) ++ map_of kvs"
    by (simp add: map_of_map_set)
  moreover have "map_of kvs k = None" using Cons.prems kv by (simp add: map_of_eq_None_iff)
  ultimately show ?case by (auto simp: kv map_add_def fun_eq_iff split: option.split)
qed simp

lemma in_environment: "distinct (map fst m) \<Longrightarrow>
    s \<in> set (environment m) \<longleftrightarrow> (\<exists>k v. map_of m k = Some v \<and> s = k @ ''='' @ v)"
  by (auto simp: environment_def)

text \<open>Configured variables win over the daemon's environment and nothing else changes: with at least
  one override, the child's environment is sorted and consists exactly of the overrides and of the
  inherited variables that no override names.\<close>

theorem merged_environment_exact:
  assumes "distinct (map fst overrides)" and "overrides \<noteq> []"
  shows "sorted_wrt string_le (merge_environment base overrides) \<and>
    set (merge_environment base overrides) =
      {k @ ''='' @ v | k v. (map_of (fold base_assignment base []) ++ map_of overrides) k = Some v}"
proof -
  let ?m = "fold (\<lambda>(k, v). map_set k v) overrides (fold base_assignment base [])"
  have "distinct (map fst ?m)"
    by (rule distinct_overrides) (rule distinct_base, simp)
  from in_environment[OF this]
  have "set (environment ?m) = {k @ ''='' @ v | k v. map_of ?m k = Some v}" by blast
  moreover have "map_of ?m = map_of (fold base_assignment base []) ++ map_of overrides"
    by (rule map_of_overrides[OF assms(1)])
  moreover have "merge_environment base overrides = environment ?m"
    using assms(2) by (simp add: merge_environment_def)
  moreover have "sorted_wrt string_le (environment ?m)"
    by (simp add: environment_def sorted_sort_strings)
  ultimately show ?thesis by simp
qed

theorem merged_environment_exact_witness:
  "set (merge_environment [''A=1'', ''B=2''] [(''B'', ''3'')]) =
     {k @ ''='' @ v | k v. (map_of (fold base_assignment [''A=1'', ''B=2''] []) ++ map_of [(''B'', ''3'')]) k = Some v}"
  using merged_environment_exact[of "[(''B'', ''3'')]" "[''A=1'', ''B=2'']"] by simp

text \<open>The order in which a Go map is visited does not show: the list depends on its contents only.\<close>

lemma environment_order:
  assumes "distinct (map (\<lambda>(k, v). k @ ''='' @ v) m)" and "distinct (map (\<lambda>(k, v). k @ ''='' @ v) m')"
    and "set m = set m'"
  shows "environment m = environment m'"
  using assms unfolding environment_def
  by (intro sorted_strings_unique) (simp_all add: sorted_sort_strings distinct_sort_strings)

section \<open>Outcomes\<close>

lemma errors_join_None [simp]: "errors_join es = None \<longleftrightarrow> (\<forall>e \<in> set es. e = None)"
  by (induction es) (auto simp: errors_join_def Let_def map_filter_simps split: option.splits)

lemma set_map_filter_id: "set (List.map_filter id es) = {y. Some y \<in> set es}"
  by (induction es) (auto simp: map_filter_simps split: option.splits)

lemma errors_is_join:
  assumes "errors_join es = Some e"
  shows "errors_is s e \<longleftrightarrow> (\<exists>y. Some y \<in> set es \<and> errors_is s y)"
proof -
  have "e = Joined (List.map_filter id es)" using assms by (simp add: errors_join_def Let_def split: if_splits)
  then show ?thesis using set_map_filter_id[of es] by (auto simp: list_ex_iff)
qed

lemma execute_cases:
  assumes "x_program c \<noteq> []" and "open_output_error c oc = None"
  shows "execute c oc =
    (let base = \<lparr>xr_started_at = po_started_at oc, xr_finished_at = po_finished_at oc,
                 xr_exit_code = (case po_exit_code oc of Some n \<Rightarrow> n | None \<Rightarrow> -1),
                 xr_stdout = captured (po_stdout oc), xr_stderr = captured (po_stderr oc), xr_timed_out = False\<rparr>;
         timed_out = (po_run_context_error oc = Some err_deadline \<and> po_context_error oc \<noteq> Some err_deadline) in
     (base\<lparr>xr_timed_out := timed_out\<rparr>,
      map_option (label_error c) (errors_join
        ((case po_run_context_error oc of
            None \<Rightarrow> [po_run_error oc]
          | Some e \<Rightarrow> if timed_out then [Some err_timeout, Some err_deadline] else [Some e]) @
         [po_cleanup_error oc, close_output_error c oc]))))"
  using assms by (auto simp: execute_def Let_def split: option.split)

text \<open>\<open>Execute\<close> reports success only for a clean run: without an error the program was named, the
  output file could be opened and closed, neither context had ended, the child ended without an error
  and its process group is gone; and the result is marked as timed out exactly when the command's own
  timeout, not the caller's deadline, ended it, in which case the error is \<open>ErrTimeout\<close>.\<close>

theorem execute_outcome:
  assumes "execute c oc = (result, err)"
  shows "(err = None \<longrightarrow> x_program c \<noteq> [] \<and> open_output_error c oc = None \<and> close_output_error c oc = None \<and>
            po_run_context_error oc = None \<and> po_run_error oc = None \<and> po_cleanup_error oc = None \<and>
            xr_exit_code result = (case po_exit_code oc of Some n \<Rightarrow> n | None \<Rightarrow> -1)) \<and>
    (xr_timed_out result \<longleftrightarrow> x_program c \<noteq> [] \<and> open_output_error c oc = None \<and>
       po_run_context_error oc = Some err_deadline \<and> po_context_error oc \<noteq> Some err_deadline) \<and>
    (xr_timed_out result \<longrightarrow> (\<exists>e. err = Some e \<and> errors_is ''command timed out'' e))"
proof (cases "x_program c \<noteq> [] \<and> open_output_error c oc = None")
  case False
  then have "result = empty_result \<and> err \<noteq> None"
    using assms by (cases "x_program c = []"; cases "open_output_error c oc") (auto simp: execute_def)
  with False show ?thesis by (auto simp: empty_result_def)
next
  case True
  let ?timed = "po_run_context_error oc = Some err_deadline \<and> po_context_error oc \<noteq> Some err_deadline"
  let ?errs = "(case po_run_context_error oc of
            None \<Rightarrow> [po_run_error oc]
          | Some e \<Rightarrow> if ?timed then [Some err_timeout, Some err_deadline] else [Some e]) @
         [po_cleanup_error oc, close_output_error c oc]"
  have err: "err = map_option (label_error c) (errors_join ?errs)"
    and timed: "xr_timed_out result = ?timed"
    and code: "xr_exit_code result = (case po_exit_code oc of Some n \<Rightarrow> n | None \<Rightarrow> -1)"
    using assms True execute_cases[of c oc] by (auto simp: Let_def)
  have "err = None \<longrightarrow> close_output_error c oc = None \<and> po_run_context_error oc = None \<and>
      po_run_error oc = None \<and> po_cleanup_error oc = None"
    unfolding err by (cases "po_run_context_error oc"; cases ?timed) simp_all
  moreover have "\<exists>e. err = Some e \<and> errors_is ''command timed out'' e" if ?timed
  proof -
    from that obtain e where e: "errors_join ?errs = Some e" by (cases "errors_join ?errs") auto
    have "errors_is ''command timed out'' e"
      unfolding errors_is_join[OF e] using that by (intro exI[of _ err_timeout]) (simp add: err_timeout_def)
    with e show ?thesis by (simp add: err label_error_def)
  qed
  ultimately show ?thesis using True timed code by auto
qed

definition demo_exec :: exec_command where
  "demo_exec = \<lparr>x_name = ''copy'', x_program = ''cp'', x_args = [], x_timeout = 5, x_working_dir = [],
     x_output = [], x_env = []\<rparr>"

definition demo_timeout :: process_outcome where
  "demo_timeout = \<lparr>po_open_error = None, po_stdout = [], po_stderr = [], po_run_error = Some err_canceled,
     po_cleanup_error = None, po_close_error = None, po_exit_code = None,
     po_run_context_error = Some err_deadline, po_context_error = None, po_started_at = 1, po_finished_at = 6\<rparr>"

theorem execute_outcome_witness:
  "\<exists>e. snd (execute demo_exec demo_timeout) = Some e \<and> errors_is ''command timed out'' e"
  using execute_outcome[of demo_exec demo_timeout "fst (execute demo_exec demo_timeout)" "snd (execute demo_exec demo_timeout)"]
  by (simp add: demo_exec_def demo_timeout_def open_output_error_def)

section \<open>Templates\<close>

lemma expander_keys:
  "set (map fst (new_expander file job_id)) =
    {''{{file}}'', ''{{dir}}'', ''{{basename}}'', ''{{stem}}'', ''{{ext}}'', ''{{job_id}}''}"
  by (simp add: new_expander_def Let_def)

lemma expand_literal:
  assumes "CHR ''{'' \<noteq> c"
  shows "expand_string (new_expander file job_id) (c # s) = c # expand_string (new_expander file job_id) s"
proof -
  have "List.find (\<lambda>(old, new). old \<noteq> [] \<and> prefix old (c # s)) (new_expander file job_id) = None"
    using assms by (simp add: new_expander_def Let_def)
  then show ?thesis by (simp add: expand_string_def replace.simps(2))
qed

lemma expand_literals:
  "CHR ''{'' \<notin> set a \<Longrightarrow>
    expand_string (new_expander file job_id) (a @ s) = a @ expand_string (new_expander file job_id) s"
  by (induction a) (simp_all add: expand_literal)

lemma expand_template:
  assumes "(old, new) \<in> set (new_expander file job_id)"
  shows "expand_string (new_expander file job_id) (old @ s) = new @ expand_string (new_expander file job_id) s"
proof -
  have "List.find (\<lambda>(k, v). k \<noteq> [] \<and> prefix k (old @ s)) (new_expander file job_id) = Some (old, new) \<and> old \<noteq> []"
    using assms unfolding new_expander_def Let_def list.set insert_iff prod.inject empty_iff
    by (elim disjE conjE) simp_all
  then obtain c t where "old = c # t"
    and "List.find (\<lambda>(k, v). k \<noteq> [] \<and> prefix k (c # (t @ s))) (new_expander file job_id) = Some (c # t, new)"
    by (cases old) auto
  then show ?thesis by (simp add: expand_string_def replace.simps(2))
qed

text \<open>Expansion is one pass: wherever a template of a job occurs in a value, it is replaced by
  the job's own value, inserted as it is and never looked at again (a file named like a template is
  inserted unexpanded), the text before it is kept, and the rest is expanded independently; a value
  without templates is unchanged.\<close>

theorem expansion_single_pass:
  "((old, new) \<in> set (new_expander file job_id) \<longrightarrow> CHR ''{'' \<notin> set a \<longrightarrow>
     expand_string (new_expander file job_id) (a @ old @ b) = a @ new @ expand_string (new_expander file job_id) b) \<and>
   (\<not> contains v ''{{'' \<longrightarrow> expand_string (new_expander file job_id) v = v)"
proof -
  have "expand_string (new_expander file job_id) v = v" if "\<not> contains v ''{{''"
    unfolding expand_string_def
  proof (rule replace_no_match)
    fix k n
    assume "(k, n) \<in> set (new_expander file job_id)"
    then have "k \<in> set (map fst (new_expander file job_id))" by force
    then have "\<exists>t. k = ''{{'' @ t" unfolding expander_keys by auto
    then obtain t where "k = ''{{'' @ t" by blast
    then show "\<not> contains v k" using that unfolding contains_iff by (metis append.assoc)
  qed
  then show ?thesis using expand_literals expand_template by metis
qed

theorem expansion_single_pass_witness:
  "expand_string (new_expander ''/in/{{job_id}}'' 7) ''--in={{file}} {{job_id}}'' = ''--in=/in/{{job_id}} 7''"
proof -
  have file_pair: "(''{{file}}'', ''/in/{{job_id}}'') \<in> set (new_expander ''/in/{{job_id}}'' 7)"
    by (simp add: new_expander_def Let_def)
  have job_pair: "(''{{job_id}}'', ''7'') \<in> set (new_expander ''/in/{{job_id}}'' 7)"
  proof -
    have "format_int 7 = ''7''" by code_simp
    then show ?thesis by (simp add: new_expander_def Let_def)
  qed
  have "expand_string (new_expander ''/in/{{job_id}}'' 7) [] = []"
    by (simp add: expand_string_def)
  then show ?thesis
    using expansion_single_pass[of "''{{file}}''" "''/in/{{job_id}}''" "''/in/{{job_id}}''" 7 "''--in=''" "'' {{job_id}}''" "[]"]
      expansion_single_pass[of "''{{job_id}}''" "''7''" "''/in/{{job_id}}''" 7 "'' ''" "[]" "[]"] file_pair job_pair
    by simp
qed

end
