(* ===== verification/GoRunes.thy ===== *)
theory GoRunes
  imports GoString
begin

text \<open>
  UTF-8 as a round trip: decoding what \<open>utf8.EncodeRune\<close> wrote gives the rune back, every
  decoded rune is a Unicode scalar value, and the conversion \<open>string([]rune)\<close> keeps the runes.
  The component that truncates text by runes (\<open>internal/worker\<close>) rests on it.
\<close>

definition scalar :: "nat \<Rightarrow> bool" where
  "scalar r \<longleftrightarrow> r \<le> 0x10FFFF \<and> \<not> (0xD800 \<le> r \<and> r \<le> 0xDFFF)"

lemma byte_char_of: "r < 256 \<Longrightarrow> byte (char_of r) = r"
  by simp

text \<open>The decoder on its four shapes of input, over byte values.\<close>

lemma decode2:
  assumes "byte a = 0xC0 + x" "2 \<le> x" "x < 32" "byte b = 0x80 + y" "y < 64"
  shows "decode_rune (a # b # t) = (x * 64 + y, 2)"
  using assms by (simp add: decode_rune.simps(2) is_cont_def)

lemma decode3:
  assumes "byte a = 0xE0 + x" "x < 16" "byte b = 0x80 + y" "y < 64" "byte c = 0x80 + z" "z < 64"
    and "x = 0 \<longrightarrow> 32 \<le> y" and "x = 13 \<longrightarrow> y \<le> 31"
  shows "decode_rune (a # b # c # t) = (x * 4096 + y * 64 + z, 3)"
  using assms by (simp add: decode_rune.simps(2) is_cont_def)

lemma decode4:
  assumes "byte a = 0xF0 + x" "x < 5" "byte b = 0x80 + y" "y < 64" "byte c = 0x80 + z" "z < 64"
    and "byte d = 0x80 + w" "w < 64" and "x = 0 \<longrightarrow> 16 \<le> y" and "x = 4 \<longrightarrow> y \<le> 15"
  shows "decode_rune (a # b # c # d # t) = (x * 262144 + y * 4096 + z * 64 + w, 4)"
  using assms by (simp add: decode_rune.simps(2) is_cont_def)

lemma decode_encode2:
  assumes "\<not> r < 0x80" "r < 0x800"
  shows "decode_rune (char_of (0xC0 + r div 64) # char_of (0x80 + r mod 64) # t) = (r, 2)"
proof -
  have "decode_rune (char_of (0xC0 + r div 64) # char_of (0x80 + r mod 64) # t) = (r div 64 * 64 + r mod 64, 2)"
    by (rule decode2; (subst byte_char_of)?) (use assms in auto)
  then show ?thesis by simp
qed

lemma div_64: "(r :: nat) div 64 div 64 = r div 4096" "r div 4096 div 64 = r div 262144"
  by (simp_all add: div_mult2_eq[symmetric])

lemma decode_encode3:
  assumes "\<not> r < 0x800" "r < 0x10000" "\<not> (0xD800 \<le> r \<and> r \<le> 0xDFFF)"
  shows "decode_rune (char_of (0xE0 + r div 4096) # char_of (0x80 + r div 64 mod 64) # char_of (0x80 + r mod 64) # t) = (r, 3)"
proof -
  define a b c where "a = r div 4096" and "b = r div 64 mod 64" and "c = r mod 64"
  have r: "r = a * 4096 + b * 64 + c" 
    using div_mult_mod_eq[of r 64] div_mult_mod_eq[of "r div 64" 64, unfolded div_64]
    unfolding a_def b_def c_def by linarith
  have lt: "a < 16" "b < 64" "c < 64" using assms by (auto simp: a_def b_def c_def)
  then have bytes: "byte (char_of (0xE0 + a)) = 0xE0 + a" "byte (char_of (0x80 + b)) = 0x80 + b"
    "byte (char_of (0x80 + c)) = 0x80 + c"
    by (auto intro!: byte_char_of)
  have "32 \<le> b" if "a = 0" using assms r that lt by linarith
  moreover have "b \<le> 31" if "a = 13" using assms r that lt by linarith
  ultimately have "decode_rune (char_of (0xE0 + a) # char_of (0x80 + b) # char_of (0x80 + c) # t) = (a * 4096 + b * 64 + c, 3)"
    using decode3[of "char_of (0xE0 + a)" a "char_of (0x80 + b)" b "char_of (0x80 + c)" c t] lt bytes by blast
  then show ?thesis unfolding a_def[symmetric] b_def[symmetric] c_def[symmetric] using r by simp
qed

lemma decode_encode4:
  assumes "\<not> r < 0x10000" "r \<le> 0x10FFFF"
  shows "decode_rune (char_of (0xF0 + r div 262144) # char_of (0x80 + r div 4096 mod 64) #
    char_of (0x80 + r div 64 mod 64) # char_of (0x80 + r mod 64) # t) = (r, 4)"
proof -
  define a b c d where "a = r div 262144" and "b = r div 4096 mod 64" and "c = r div 64 mod 64" and "d = r mod 64"
  have r: "r = a * 262144 + b * 4096 + c * 64 + d" 
    using div_mult_mod_eq[of r 64] div_mult_mod_eq[of "r div 64" 64, unfolded div_64]
      div_mult_mod_eq[of "r div 4096" 64, unfolded div_64]
    unfolding a_def b_def c_def d_def by linarith
  have lt: "a < 5" "b < 64" "c < 64" "d < 64" using assms by (auto simp: a_def b_def c_def d_def)
  then have bytes: "byte (char_of (0xF0 + a)) = 0xF0 + a" "byte (char_of (0x80 + b)) = 0x80 + b"
    "byte (char_of (0x80 + c)) = 0x80 + c" "byte (char_of (0x80 + d)) = 0x80 + d"
    by (auto intro!: byte_char_of)
  have "16 \<le> b" if "a = 0" using assms r that lt by linarith
  moreover have "b \<le> 15" if "a = 4" using assms r that lt by linarith
  ultimately have "decode_rune (char_of (0xF0 + a) # char_of (0x80 + b) # char_of (0x80 + c) # char_of (0x80 + d) # t) =
      (a * 262144 + b * 4096 + c * 64 + d, 4)"
    using decode4[of "char_of (0xF0 + a)" a "char_of (0x80 + b)" b "char_of (0x80 + c)" c "char_of (0x80 + d)" d t] lt bytes
    by blast
  then show ?thesis unfolding a_def[symmetric] b_def[symmetric] c_def[symmetric] d_def[symmetric] using r by simp
qed

lemma decode_encode:
  assumes "scalar r"
  shows "decode_rune (encode_rune r @ t) = (r, length (encode_rune r))"
proof -
  have r: "\<not> (r > 0x10FFFF \<or> (0xD800 \<le> r \<and> r \<le> 0xDFFF))" using assms by (simp add: scalar_def)
  consider "r < 0x80" | "\<not> r < 0x80" "r < 0x800" | "\<not> r < 0x800" "r < 0x10000" | "\<not> r < 0x10000"
    by linarith
  then show ?thesis
  proof cases
    case 1
    then have "encode_rune r = [char_of r]" using r by (simp add: encode_rune_def)
    moreover have "byte (char_of r) = r" using 1 by (intro byte_char_of) simp
    ultimately show ?thesis using 1 by (simp add: decode_rune.simps(2))
  next
    case 2
    then have "encode_rune r = [char_of (0xC0 + r div 64), char_of (0x80 + r mod 64)]"
      by (simp add: encode_rune_def)
    then show ?thesis using decode_encode2[OF 2, of t] by simp
  next
    case 3
    then have "encode_rune r = [char_of (0xE0 + r div 4096), char_of (0x80 + r div 64 mod 64), char_of (0x80 + r mod 64)]"
      using r 3 by (auto simp: encode_rune_def)
    then show ?thesis using decode_encode3[OF 3, of t] r by simp
  next
    case 4
    then have "encode_rune r = [char_of (0xF0 + r div 262144), char_of (0x80 + r div 4096 mod 64),
        char_of (0x80 + r div 64 mod 64), char_of (0x80 + r mod 64)]"
      using r by (simp add: encode_rune_def)
    then show ?thesis using decode_encode4[OF 4, of t] r by simp
  qed
qed

lemma decode_scalar_nat:
  fixes a b c d :: nat
  shows "0xC2 \<le> a \<Longrightarrow> a \<le> 0xDF \<Longrightarrow> 0x80 \<le> b \<Longrightarrow> b \<le> 0xBF \<Longrightarrow> scalar ((a - 0xC0) * 64 + (b - 0x80))"
    and "0xE0 \<le> a \<Longrightarrow> a \<le> 0xEF \<Longrightarrow> (if a = 0xE0 then 0xA0 else 0x80) \<le> b \<Longrightarrow>
      b \<le> (if a = 0xED then 0x9F else 0xBF) \<Longrightarrow> 0x80 \<le> c \<Longrightarrow> c \<le> 0xBF \<Longrightarrow>
      scalar ((a - 0xE0) * 4096 + (b - 0x80) * 64 + (c - 0x80))"
    and "0xF0 \<le> a \<Longrightarrow> a \<le> 0xF4 \<Longrightarrow> (if a = 0xF0 then 0x90 else 0x80) \<le> b \<Longrightarrow>
      b \<le> (if a = 0xF4 then 0x8F else 0xBF) \<Longrightarrow> 0x80 \<le> c \<Longrightarrow> c \<le> 0xBF \<Longrightarrow> 0x80 \<le> d \<Longrightarrow> d \<le> 0xBF \<Longrightarrow>
      scalar ((a - 0xF0) * 262144 + (b - 0x80) * 4096 + (c - 0x80) * 64 + (d - 0x80))"
  unfolding scalar_def by (auto split: if_splits)

lemma scalar_if:
  "(p \<Longrightarrow> scalar (fst x)) \<Longrightarrow> (\<not> p \<Longrightarrow> scalar (fst y)) \<Longrightarrow> scalar (fst (if p then x else y))"
  by simp

lemma scalar_list_case:
  "scalar (fst x) \<Longrightarrow> (\<And>b t. s = b # t \<Longrightarrow> scalar (fst (f b t))) \<Longrightarrow>
    scalar (fst (case s of [] \<Rightarrow> x | b # t \<Rightarrow> f b t))"
  by (cases s) simp_all

lemma decode_scalar: "scalar (fst (decode_rune (a # s)))"
proof -
  have err: "scalar (fst (rune_error, 1 :: nat))" by (simp add: scalar_def rune_error_def)
  have ascii: "scalar (fst (byte a, 1 :: nat))" if "byte a < 0x80" using that by (simp add: scalar_def)
  show ?thesis
    unfolding decode_rune.simps(2) is_cont_def
    by (intro scalar_if scalar_list_case err ascii; (elim conjE)?; simp only: fst_conv;
        (rule decode_scalar_nat; assumption)?)
qed

lemma runes_scalar: "\<forall>r \<in> set (runes s). scalar r"
proof (induction s rule: runes.induct)
  case (2 a s)
  obtain r n where rn: "decode_rune (a # s) = (r, n)" by fastforce
  with 2[OF rn[symmetric] refl] decode_scalar[of a s] show ?case by (simp add: runes.simps(2))
qed simp

lemma encode_nonempty: "encode_rune r \<noteq> []"
  by (simp add: encode_rune_def Let_def)

lemma runes_encode: "scalar r \<Longrightarrow> runes (encode_rune r @ t) = r # runes t"
proof -
  assume r: "scalar r"
  obtain a s where s: "encode_rune r @ t = a # s" using encode_nonempty[of r] by (cases "encode_rune r") auto
  have "runes (a # s) = r # runes (drop (length (encode_rune r)) (a # s))"
    using decode_encode[OF r, of t] by (simp add: runes.simps(2) s)
  then show ?thesis by (simp add: s[symmetric])
qed

lemma runes_of_runes: "\<forall>r \<in> set rs. scalar r \<Longrightarrow> runes (of_runes rs @ t) = rs @ runes t"
  by (induction rs) (simp_all add: of_runes_def runes_encode)

lemma runes_ascii: "\<forall>c \<in> set s. byte c < 0x80 \<Longrightarrow> runes s = map byte s"
  by (induction s) (simp_all add: runes.simps(2) decode_rune.simps(2))

end
