(* ===== verification/Worker.thy ===== *)
theory Worker
  imports QueueSafety ConfigModel ExecutorModel GoRunes
begin

text \<open>
  The worker pool (\<open>internal/worker/worker.go\<close>): the \<open>Store\<close> interface as a record of operations
  on a state, the pipeline resolver, template expansion of a command, the failure summary, and
  \<open>processJob\<close> with every call it makes. The executor is an argument that answers for each command
  id; the context is seen only through the errors of the calls it is passed to.
\<close>

section \<open>Interfaces\<close>

record 's store_ops =
  op_claim :: "'s \<Rightarrow> job option result \<times> 's"
  op_start_command :: "command_start \<Rightarrow> 's \<Rightarrow> int result \<times> 's"
  op_complete_command :: "int \<Rightarrow> command_result \<Rightarrow> 's \<Rightarrow> unit result \<times> 's"
  op_succeed :: "int \<Rightarrow> int \<Rightarrow> 's \<Rightarrow> unit result \<times> 's"
  op_fail :: "int \<Rightarrow> int \<Rightarrow> string \<Rightarrow> duration \<Rightarrow> 's \<Rightarrow> status result \<times> 's"

type_synonym executor = "int \<Rightarrow> exec_command \<Rightarrow> exec_result \<times> go_error option"

section \<open>Pipelines\<close>

definition err_unknown_watch :: go_error where
  "err_unknown_watch = Sentinel ''worker: unknown watch''"

type_synonym resolver = "string \<rightharpoonup> command_config list"

definition new_config_resolver :: "watch_config list \<Rightarrow> resolver" where
  "new_config_resolver watches = fold (\<lambda>w m. m(w_name w \<mapsto> w_pipeline w)) watches Map.empty"

definition resolve_pipeline :: "resolver \<Rightarrow> string \<Rightarrow> command_config list result" where
  "resolve_pipeline resolver name =
    (case resolver name of
       None \<Rightarrow> Inl (Wrapped [] err_unknown_watch [T '' '', Q name])
     | Some pipeline \<Rightarrow> Inr pipeline)"

text \<open>The order of the expansion of a shell step: its source is left alone.\<close>

definition expand_configured_command :: "(string \<times> string) list \<Rightarrow> command_config \<Rightarrow> command_config" where
  "expand_configured_command expander c =
    (let f = expand_string expander in
     c\<lparr>c_args := map f (c_args c), c_image := f (c_image c), c_container_args := map f (c_container_args c),
       c_command := (if c_executor c \<noteq> ExecutorShell then f (c_command c) else c_command c),
       c_command_args := map f (c_command_args c), c_working_dir := f (c_working_dir c),
       c_output := f (c_output c), c_mounts := map (expand_mount f) (c_mounts c),
       c_container_env := map_values f (c_container_env c), c_env := map_values f (c_env c)\<rparr>)"

definition command_from_config :: "command_config \<Rightarrow> exec_command" where
  "command_from_config c =
    \<lparr>x_name = c_name c, x_program = c_program c, x_args = execution_args c, x_timeout = c_timeout c,
     x_working_dir = c_working_dir c, x_output = c_output c, x_env = c_env c\<rparr>"

definition start_of_command :: "int \<Rightarrow> int \<Rightarrow> exec_command \<Rightarrow> command_start" where
  "start_of_command run_id seqno x =
    \<lparr>cs_run_id = run_id, cs_sequence = seqno, cs_name = x_name x, cs_program = x_program x,
     cs_args = x_args x, cs_env = environment (x_env x), cs_working_dir = x_working_dir x,
     cs_timeout = x_timeout x\<rparr>"

section \<open>Failure summaries\<close>

definition max_failure_detail_runes :: nat where
  "max_failure_detail_runes = 256"

definition truncate_failure_detail :: "string \<Rightarrow> string" where
  "truncate_failure_detail detail =
    (let rs = runes detail; suffix = ''... [truncated]'' in
     if length rs \<le> max_failure_detail_runes then detail
     else of_runes (take (max_failure_detail_runes - length suffix) rs) @ suffix)"

definition is_truncation_marker :: "string \<Rightarrow> bool" where
  "is_truncation_marker line \<longleftrightarrow>
    prefix ''[onderzeeer: output truncated after '' line \<and> suffix '' bytes]'' line"

fun last_useful_line :: "string list \<Rightarrow> string" where
  "last_useful_line [] = []"
| "last_useful_line (line # lines) =
    (let detail = trim_space line in
     if detail = [] \<or> is_truncation_marker detail then last_useful_line lines
     else truncate_failure_detail (join_strings '' '' (GoString.fields detail)))"

definition last_failure_output_line :: "string \<Rightarrow> string" where
  "last_failure_output_line output = last_useful_line (rev (split_char (CHR 0x0A) output))"

definition failure_output_summary :: "exec_result \<Rightarrow> frag list" where
  "failure_output_summary r =
    (let err_line = last_failure_output_line (xr_stderr r);
         out_line = last_failure_output_line (xr_stdout r) in
     if err_line \<noteq> [] then [T ''stderr: '', Q err_line]
     else if out_line \<noteq> [] then [T ''stdout: '', Q out_line]
     else [])"

definition with_failure_output :: "go_error option \<Rightarrow> exec_result \<Rightarrow> go_error option" where
  "with_failure_output cause r =
    (case cause of
       None \<Rightarrow> None
     | Some e \<Rightarrow>
         (let summary = failure_output_summary r in
          if summary = [] then Some e else Some (Wrapped [] e ([T '' (''] @ summary @ [T '')'']))))"

section \<open>One job\<close>

definition fail_job ::
  "'s store_ops \<Rightarrow> (string \<Rightarrow> string) \<Rightarrow> duration \<Rightarrow> job \<Rightarrow> go_error \<Rightarrow> 's \<Rightarrow> go_error option \<times> 's" where
  "fail_job ops quote delay job cause s =
    (case op_fail ops (j_id job) (j_run_id job) (error_text quote cause) delay s of
       (Inl e, s') \<Rightarrow> (Some (Joined [cause, wrapf ''mark job failed: '' e]), s')
     | (Inr st, s') \<Rightarrow> (Some cause, s'))"

text \<open>The error of one execution: of the executor, or of a non-zero exit code.\<close>

definition execution_error :: "exec_result \<times> go_error option \<Rightarrow> go_error option" where
  "execution_error r =
    with_failure_output
      (if snd r = None \<and> xr_exit_code (fst r) \<noteq> 0
       then Some (ErrorString [T ''command exited with code '', D (xr_exit_code (fst r))])
       else snd r)
      (fst r)"

definition command_result_of :: "(string \<Rightarrow> string) \<Rightarrow> exec_result \<times> go_error option \<Rightarrow> command_result" where
  "command_result_of quote r =
    \<lparr>cr_status = (if execution_error r = None then CommandSucceeded else CommandFailed),
     cr_exit_code = xr_exit_code (fst r), cr_stdout = xr_stdout (fst r), cr_stderr = xr_stderr (fst r),
     cr_error = (case execution_error r of None \<Rightarrow> [] | Some e \<Rightarrow> error_text quote e)\<rparr>"

definition with_persist_error :: "go_error option \<Rightarrow> unit result \<Rightarrow> go_error option" where
  "with_persist_error execution_err completed =
    (case completed of
       Inr _ \<Rightarrow> execution_err
     | Inl e \<Rightarrow>
         (case execution_err of
            Some x \<Rightarrow> Some (Joined [x, wrapf ''persist command result: '' e])
          | None \<Rightarrow> Some (wrapf ''persist command result: '' e)))"

fun run_steps ::
  "'s store_ops \<Rightarrow> (string \<Rightarrow> string) \<Rightarrow> duration \<Rightarrow> executor \<Rightarrow> job \<Rightarrow> int \<Rightarrow> command_config list \<Rightarrow>
   's \<Rightarrow> go_error option \<times> 's" where
  "run_steps ops quote delay exec job index [] s =
    (case op_succeed ops (j_id job) (j_run_id job) s of
       (Inl e, s') \<Rightarrow> (Some (wrapf ''mark job succeeded: '' e), s')
     | (Inr _, s') \<Rightarrow> (None, s'))"
| "run_steps ops quote delay exec job index (configured # rest) s =
    (let expanded = expand_configured_command (new_expander (j_path job) (j_id job)) configured in
     case validate_execution expanded of
       Some e \<Rightarrow> fail_job ops quote delay job
         (Wrapped [T ''command '', Q (c_name expanded), T '' after template expansion: ''] e []) s
     | None \<Rightarrow>
         (let command = command_from_config expanded in
          case op_start_command ops (start_of_command (j_run_id job) (index + 1) command) s of
            (Inl e, s1) \<Rightarrow> fail_job ops quote delay job
              (Wrapped [T ''record command '', Q (x_name command), T '' start: ''] e []) s1
          | (Inr command_id, s1) \<Rightarrow>
              (let r = exec command_id command;
                   (completed, s2) = op_complete_command ops command_id (command_result_of quote r) s1 in
               case with_persist_error (execution_error r) completed of
                 Some e \<Rightarrow> fail_job ops quote delay job
                   (Wrapped [T ''command '', Q (x_name command), T '': ''] e []) s2
               | None \<Rightarrow> run_steps ops quote delay exec job (index + 1) rest s2)))"

definition process_job ::
  "'s store_ops \<Rightarrow> (string \<Rightarrow> string) \<Rightarrow> duration \<Rightarrow> resolver \<Rightarrow> executor \<Rightarrow> job \<Rightarrow> 's \<Rightarrow> go_error option \<times> 's" where
  "process_job ops quote delay resolver exec job s =
    (case resolve_pipeline resolver (j_watch_name job) of
       Inl e \<Rightarrow> fail_job ops quote delay job (wrapf ''resolve pipeline: '' e) s
     | Inr pipeline \<Rightarrow> run_steps ops quote delay exec job 0 pipeline s)"

text \<open>One turn of \<open>consume\<close>: whether it waits for the next poll.\<close>

definition consume_turn ::
  "'s store_ops \<Rightarrow> (string \<Rightarrow> string) \<Rightarrow> duration \<Rightarrow> resolver \<Rightarrow> executor \<Rightarrow> 's \<Rightarrow> bool \<times> 's" where
  "consume_turn ops quote delay resolver exec s =
    (case op_claim ops s of
       (Inl e, s') \<Rightarrow> (True, s')
     | (Inr None, s') \<Rightarrow> (True, s')
     | (Inr (Some job), s') \<Rightarrow> (False, snd (process_job ops quote delay resolver exec job s')))"

text \<open>\<open>New\<close>: the checks of the options.\<close>

record pool_options =
  po_workers :: int
  po_retry_delay :: duration
  po_poll_interval :: duration
  po_persistence_timeout :: duration

definition new_pool :: "bool \<Rightarrow> bool \<Rightarrow> bool \<Rightarrow> pool_options \<Rightarrow> pool_options result" where
  "new_pool has_store has_resolver has_executor o1 =
    (if \<not> has_store then Inl (new_error ''worker: store is required'')
     else if \<not> has_resolver then Inl (new_error ''worker: pipeline resolver is required'')
     else if \<not> has_executor then Inl (new_error ''worker: executor is required'')
     else if po_workers o1 \<le> 0 then Inl (new_error ''worker: workers must be greater than zero'')
     else if po_retry_delay o1 < 0 then Inl (new_error ''worker: retry delay must not be negative'')
     else if po_poll_interval o1 < 0 then Inl (new_error ''worker: poll interval must not be negative'')
     else if po_persistence_timeout o1 < 0 then Inl (new_error ''worker: persistence timeout must not be negative'')
     else Inr (o1\<lparr>po_poll_interval := (if po_poll_interval o1 = 0 then 250 * millisecond else po_poll_interval o1),
                 po_persistence_timeout := (if po_persistence_timeout o1 = 0 then 5 * second else po_persistence_timeout o1)\<rparr>))"

section \<open>The diagnostic of a failure\<close>

lemma truncate_bounded: "length (runes (truncate_failure_detail d)) \<le> max_failure_detail_runes"
proof (cases "length (runes d) \<le> max_failure_detail_runes")
  case False
  define kept where "kept = take (max_failure_detail_runes - length ''... [truncated]'') (runes d)"
  have "\<forall>r \<in> set kept. scalar r"
    using runes_scalar[of d] by (auto simp: kept_def dest: in_set_takeD)
  moreover have "runes ''... [truncated]'' = map byte ''... [truncated]''"
    by (rule runes_ascii) simp
  ultimately have "runes (truncate_failure_detail d) = kept @ map byte ''... [truncated]''"
    using False by (simp add: truncate_failure_detail_def kept_def Let_def runes_of_runes)
  moreover have "length kept \<le> max_failure_detail_runes - length ''... [truncated]''" by (simp add: kept_def)
  ultimately show ?thesis by (simp add: max_failure_detail_runes_def)
qed (simp add: truncate_failure_detail_def Let_def)

lemma truncate_nonempty: "d \<noteq> [] \<Longrightarrow> truncate_failure_detail d \<noteq> []"
  by (simp add: truncate_failure_detail_def Let_def)

lemma fields_from_nonempty: "w \<noteq> [] \<Longrightarrow> \<exists>x xs. fields_from w s = x # xs \<and> x \<noteq> []"
proof (induction w s rule: fields_from.induct)
  case (2 w c s)
  then show ?case by (auto simp: fields_from.simps(2) Let_def)
qed simp

lemma join_nonempty: "x \<noteq> [] \<Longrightarrow> join_strings sep (x # xs) \<noteq> []"
  by (cases xs) simp_all

lemma fields_nonempty:
  assumes "s \<noteq> []" and "leading_space s = 0"
  shows "join_strings sep (GoString.fields s) \<noteq> []"
proof -
  obtain c t where s: "s = c # t" using assms(1) by (cases s) auto
  then have "GoString.fields s = fields_from [c] t"
    using assms(2) by (simp add: GoString.fields_def fields_from.simps(2))
  then show ?thesis using fields_from_nonempty[of "[c]" t] join_nonempty by force
qed

definition useful_line :: "string \<Rightarrow> bool" where
  "useful_line line \<longleftrightarrow> trim_space line \<noteq> [] \<and> \<not> is_truncation_marker (trim_space line)"

lemma trim_space_no_leading: "leading_space (trim_space s) = 0"
  unfolding trim_space_def using leading_space_prefix[OF trim_left_fixed trim_right_prefix] .

lemma last_useful_line_cases:
  "length (runes (last_useful_line lines)) \<le> max_failure_detail_runes"
  "last_useful_line lines = [] \<longleftrightarrow> (\<forall>l \<in> set lines. \<not> useful_line l)"
proof (induction lines)
  case (Cons l lines)
  have "useful_line l \<Longrightarrow> truncate_failure_detail (join_strings '' '' (GoString.fields (trim_space l))) \<noteq> []"
    by (intro truncate_nonempty fields_nonempty trim_space_no_leading) (simp add: useful_line_def)
  then show "last_useful_line (l # lines) = [] \<longleftrightarrow> (\<forall>k \<in> set (l # lines). \<not> useful_line k)"
    using Cons(2) by (auto simp: useful_line_def Let_def)
  show "length (runes (last_useful_line (l # lines))) \<le> max_failure_detail_runes"
    using Cons(1) by (simp add: Let_def truncate_bounded)
qed simp_all

text \<open>The diagnostic added to a failed command's error is at most 256 runes of output, whatever
  the command printed; it is missing exactly when neither stream has a line that says something
  (a line that is neither blank nor the marker of truncated capture), and it quotes standard error
  whenever that has one.\<close>

theorem failure_summary_bounded:
  "(\<forall>d. Q d \<in> set (failure_output_summary r) \<longrightarrow> length (runes d) \<le> 256) \<and>
   (failure_output_summary r = [] \<longleftrightarrow>
      (\<forall>l \<in> set (split_char (CHR 0x0A) (xr_stderr r) @ split_char (CHR 0x0A) (xr_stdout r)). \<not> useful_line l)) \<and>
   (hd (failure_output_summary r @ [T []]) = T ''stderr: '' \<longleftrightarrow>
      (\<exists>l \<in> set (split_char (CHR 0x0A) (xr_stderr r)). useful_line l))"
  using last_useful_line_cases(1)[of "rev (split_char (CHR 0x0A) (xr_stderr r))"]
    last_useful_line_cases(1)[of "rev (split_char (CHR 0x0A) (xr_stdout r))"]
    last_useful_line_cases(2)[of "rev (split_char (CHR 0x0A) (xr_stderr r))"]
    last_useful_line_cases(2)[of "rev (split_char (CHR 0x0A) (xr_stdout r))"]
  by (auto simp: failure_output_summary_def last_failure_output_line_def Let_def max_failure_detail_runes_def)

definition demo_result :: exec_result where
  "demo_result = \<lparr>xr_started_at = 1, xr_finished_at = 2, xr_exit_code = 3, xr_stdout = ''out'',
     xr_stderr = ''a'' @ [CHR 0x0A] @ ''no  such file'' @ [CHR 0x0A], xr_timed_out = False\<rparr>"

lemma demo_summary: "failure_output_summary demo_result = [T ''stderr: '', Q ''no such file'']"
  by code_simp

theorem failure_summary_bounded_witness:
  "length (runes ''no such file'') \<le> 256 \<and> failure_output_summary demo_result \<noteq> []"
  using failure_summary_bounded[of demo_result] by (simp add: demo_summary)

end
