(* ===== verification/WorkerContract.thy ===== *)
theory WorkerContract
  imports Worker
begin

text \<open>
  The contract between the worker pool and its store, as a locale: what \<open>processJob\<close> relies on
  each call of the \<open>Store\<close> interface to do for the job the worker has claimed, and what follows
  for a whole attempt. \<open>holds\<close> says that the worker still owns the job and its run, \<open>state\<close> is the
  status of a job, \<open>recorded\<close> the commands recorded for a run, in order. The extended locale adds
  that the two closing calls do not fail. \<open>WorkerQueue\<close> interprets both on the queue.
\<close>

text \<open>
  What a start leaves of a command: its number, its program and its arguments as stored; and the
  commands of a pipeline as an attempt records them, after the expansion for the job.
\<close>

definition start_record :: "command_start \<Rightarrow> int \<times> string \<times> string" where
  "start_record cs = (cs_sequence cs, cs_program cs, marshal_strings (cs_args cs))"

definition planned_command :: "job \<Rightarrow> command_config \<Rightarrow> exec_command" where
  "planned_command job c =
    command_from_config (expand_configured_command (new_expander (j_path job) (j_id job)) c)"

fun planned :: "job \<Rightarrow> int \<Rightarrow> command_config list \<Rightarrow> (int \<times> string \<times> string) list" where
  "planned job index [] = []"
| "planned job index (c # cs) =
    (index + 1, x_program (planned_command job c), marshal_strings (x_args (planned_command job c)))
      # planned job (index + 1) cs"

lemma start_of_command_run [simp]: "cs_run_id (start_of_command k i x) = k"
  by (simp add: start_of_command_def)

declare planned.simps(2) [simp del]

locale worker_store =
  fixes ops :: "'s store_ops"
    and holds :: "job \<Rightarrow> 's \<Rightarrow> bool"
    and state :: "'s \<Rightarrow> int \<Rightarrow> status option"
    and recorded :: "'s \<Rightarrow> int \<Rightarrow> (int \<times> string \<times> string) list"
  assumes start_ok: "holds job s \<Longrightarrow> cs_run_id c = j_run_id job \<Longrightarrow>
      op_start_command ops c s = (Inr i, s') \<Longrightarrow>
      holds job s' \<and> recorded s' (j_run_id job) = recorded s (j_run_id job) @ [start_record c]"
    and start_error: "holds job s \<Longrightarrow> cs_run_id c = j_run_id job \<Longrightarrow>
      op_start_command ops c s = (Inl e, s') \<Longrightarrow>
      holds job s' \<and> (recorded s' (j_run_id job) = recorded s (j_run_id job) \<or>
        recorded s' (j_run_id job) = recorded s (j_run_id job) @ [start_record c])"
    and complete: "holds job s \<Longrightarrow> op_complete_command ops i r s = (answer, s') \<Longrightarrow>
      holds job s' \<and> recorded s' (j_run_id job) = recorded s (j_run_id job)"
    and succeed_ok: "holds job s \<Longrightarrow> op_succeed ops (j_id job) (j_run_id job) s = (Inr (), s') \<Longrightarrow>
      state s' (j_id job) = Some StatusSucceeded \<and> recorded s' (j_run_id job) = recorded s (j_run_id job)"
    and succeed_error: "holds job s \<Longrightarrow> op_succeed ops (j_id job) (j_run_id job) s = (Inl e, s') \<Longrightarrow>
      holds job s' \<and> recorded s' (j_run_id job) = recorded s (j_run_id job)"
    and fail_ok: "holds job s \<Longrightarrow> op_fail ops (j_id job) (j_run_id job) m delay s = (Inr st, s') \<Longrightarrow>
      st \<in> {StatusQueued, StatusFailed} \<and> state s' (j_id job) = Some st \<and>
      recorded s' (j_run_id job) = recorded s (j_run_id job)"
    and fail_error: "holds job s \<Longrightarrow> op_fail ops (j_id job) (j_run_id job) m delay s = (Inl e, s') \<Longrightarrow>
      holds job s' \<and> recorded s' (j_run_id job) = recorded s (j_run_id job)"
begin

text \<open>An attempt that stops early: the job went back to the queue or failed, or is still held.\<close>

definition released :: "job \<Rightarrow> 's \<Rightarrow> bool" where
  "released job s \<longleftrightarrow> state s (j_id job) = Some StatusQueued \<or> state s (j_id job) = Some StatusFailed"

lemma fail_job_outcome:
  assumes "holds job s" and "fail_job ops quote delay job cause s = (res, s')"
  shows "res \<noteq> None \<and> (released job s' \<or> holds job s') \<and>
    recorded s' (j_run_id job) = recorded s (j_run_id job)"
proof (cases "op_fail ops (j_id job) (j_run_id job) (error_text quote cause) delay s")
  case (Pair r t)
  show ?thesis
  proof (cases r)
    case (Inl e)
    with assms Pair fail_error[OF assms(1), of "error_text quote cause" delay e t]
    show ?thesis by (auto simp: fail_job_def)
  next
    case (Inr st)
    with assms Pair fail_ok[OF assms(1), of "error_text quote cause" delay st t]
    show ?thesis by (auto simp: fail_job_def released_def)
  qed
qed

text \<open>
  The steps of an attempt from \<open>index\<close> on: a clean end means that every step was recorded and
  the job succeeded; an early end leaves the recorded commands a prefix of the plan.
\<close>

lemma run_steps_outcome:
  assumes "holds job s" and "run_steps ops quote delay exec job index pipeline s = (res, s')"
  shows "(res = None \<and> state s' (j_id job) = Some StatusSucceeded \<and>
      recorded s' (j_run_id job) = recorded s (j_run_id job) @ planned job index pipeline) \<or>
    (res \<noteq> None \<and> (released job s' \<or> holds job s') \<and>
      (\<exists>n. recorded s' (j_run_id job) = recorded s (j_run_id job) @ take n (planned job index pipeline)))"
  using assms
proof (induction pipeline arbitrary: index s)
  case Nil
  show ?case
  proof (cases "op_succeed ops (j_id job) (j_run_id job) s")
    case (Pair r t)
    show ?thesis
    proof (cases r)
      case (Inl e)
      with Nil Pair succeed_error[OF Nil(1), of e t] show ?thesis by auto
    next
      case (Inr u)
      with Nil Pair succeed_ok[OF Nil(1), of t] show ?thesis by auto
    qed
  qed
next
  case (Cons configured rest)
  define expanded where "expanded = expand_configured_command (new_expander (j_path job) (j_id job)) configured"
  define cmd where "cmd = command_from_config expanded"
  define start where "start = start_of_command (j_run_id job) (index + 1) cmd"
  have prog: "cs_run_id start = j_run_id job"
    "planned job index (configured # rest) = start_record start # planned job (index + 1) rest"
    by (simp_all add: start_def cmd_def expanded_def start_record_def start_of_command_def planned_command_def
        planned.simps)
  have early: ?case
    if "fail_job ops quote delay job cause t = (res, s')" and "holds job t"
      and "recorded t (j_run_id job) = recorded s (j_run_id job) @ take n (planned job index (configured # rest))"
    for cause t n
    using fail_job_outcome[OF that(2,1)] that(3) by auto
  show ?case
  proof (cases "validate_execution expanded")
    case (Some e)
    with Cons.prems(2) show ?thesis
      by (intro early[of _ s 0]) (auto simp: expanded_def Let_def Cons.prems(1))
  next
    case None
    obtain r s1 where start_res: "op_start_command ops start s = (r, s1)" by fastforce
    show ?thesis
    proof (cases r)
      case (Inl e)
      with start_res start_error[OF Cons.prems(1) prog(1)]
      obtain n where "holds job s1"
        "recorded s1 (j_run_id job) = recorded s (j_run_id job) @ take n (planned job index (configured # rest))"
        using prog(2) by (metis append_Nil2 take0 take_Suc_Cons)
      with Cons.prems(2) Inl None start_res show ?thesis
        by (intro early[of _ s1 n]) (auto simp: expanded_def Let_def cmd_def start_def)
    next
      case (Inr i)
      define out where "out = exec i cmd"
      obtain u s2 where complete_res:
        "op_complete_command ops i (command_result_of quote out) s1 = (u, s2)" by fastforce
      have s1: "holds job s1"
        "recorded s1 (j_run_id job) = recorded s (j_run_id job) @ [start_record start]"
        using start_ok[OF Cons.prems(1) prog(1)] start_res Inr prog by auto
      have s2: "holds job s2"
        "recorded s2 (j_run_id job) = recorded s (j_run_id job) @ [start_record start]"
        using complete[OF s1(1) complete_res] s1 by auto
      show ?thesis
      proof (cases "with_persist_error (execution_error out) u")
        case (Some e)
        from s2 have "recorded s2 (j_run_id job) =
            recorded s (j_run_id job) @ take 1 (planned job index (configured # rest))"
          by (simp add: prog(2))
        with Cons.prems(2) None Inr start_res complete_res s2(1) Some show ?thesis
          by (intro early[of _ s2 1]) (auto simp: expanded_def Let_def cmd_def start_def out_def)
      next
        case no_error: None
        with Cons.prems(2) None Inr start_res complete_res
        have "run_steps ops quote delay exec job (index + 1) rest s2 = (res, s')"
          by (simp add: expanded_def Let_def cmd_def start_def out_def)
        have more: "\<exists>m. (start_record start # take n (planned job (index + 1) rest)) =
            take m (planned job index (configured # rest))" for n
          by (rule exI[of _ "Suc n"]) (simp add: prog(2))
        from Cons.IH[OF s2(1) \<open>run_steps _ _ _ _ _ _ _ s2 = _\<close>] show ?thesis
          using more by (auto simp: s2(2) prog(2))
      qed
    qed
  qed
qed

text \<open>A whole attempt, from a claim that recorded nothing yet.\<close>

lemma process_job_outcome:
  assumes "holds job s" and "recorded s (j_run_id job) = []"
    and "process_job ops quote delay resolver exec job s = (res, s')"
  shows "(res = None \<and> state s' (j_id job) = Some StatusSucceeded \<and>
      (\<exists>pipeline. resolver (j_watch_name job) = Some pipeline \<and>
        recorded s' (j_run_id job) = planned job 0 pipeline)) \<or>
    (res \<noteq> None \<and> (released job s' \<or> holds job s') \<and>
      (\<exists>n pipeline. recorded s' (j_run_id job) = take n (planned job 0 pipeline) \<and>
        (resolver (j_watch_name job) = Some pipeline \<or> resolver (j_watch_name job) = None \<and> pipeline = [])))"
proof (cases "resolver (j_watch_name job)")
  case None
  with assms(3) obtain cause where "fail_job ops quote delay job cause s = (res, s')"
    by (auto simp: process_job_def resolve_pipeline_def)
  with fail_job_outcome[OF assms(1)] assms(2) None show ?thesis by force
next
  case (Some pipeline)
  with assms(3) have "run_steps ops quote delay exec job 0 pipeline s = (res, s')"
    by (simp add: process_job_def resolve_pipeline_def)
  from run_steps_outcome[OF assms(1) this] assms(2) Some show ?thesis by auto
qed

end

text \<open>A store whose closing calls do not fail for the holder of the job.\<close>

locale reliable_store = worker_store +
  assumes fail_total: "holds job s \<Longrightarrow> \<exists>st s'. op_fail ops (j_id job) (j_run_id job) m delay s = (Inr st, s')"
    and succeed_total: "holds job s \<Longrightarrow> \<exists>s'. op_succeed ops (j_id job) (j_run_id job) s = (Inr (), s')"
begin

lemma fail_job_releases:
  assumes "holds job s" and "fail_job ops quote delay job cause s = (res, s')"
  shows "res = Some cause \<and> released job s'"
proof -
  from fail_total[OF assms(1)] obtain st t
    where t: "op_fail ops (j_id job) (j_run_id job) (error_text quote cause) delay s = (Inr st, t)" by blast
  with fail_ok[OF assms(1) t] assms(2) show ?thesis
    by (auto simp: fail_job_def released_def)
qed

lemma run_steps_settles:
  assumes "holds job s" and "run_steps ops quote delay exec job index pipeline s = (res, s')"
  shows "if res = None then state s' (j_id job) = Some StatusSucceeded else released job s'"
  using assms
proof (induction pipeline arbitrary: index s)
  case Nil
  from succeed_total[OF Nil(1)] obtain t where "op_succeed ops (j_id job) (j_run_id job) s = (Inr (), t)" by blast
  with Nil succeed_ok[OF Nil(1) this] show ?case by auto
next
  case (Cons configured rest)
  define expanded where "expanded = expand_configured_command (new_expander (j_path job) (j_id job)) configured"
  define cmd where "cmd = command_from_config expanded"
  define start where "start = start_of_command (j_run_id job) (index + 1) cmd"
  have prog: "cs_run_id start = j_run_id job" by (simp add: start_def)
  have early: ?case if "fail_job ops quote delay job cause t = (res, s')" and "holds job t" for cause t
    using fail_job_releases[OF that(2,1)] by simp
  show ?case
  proof (cases "validate_execution expanded")
    case (Some e)
    with Cons.prems show ?thesis by (intro early[of _ s]) (auto simp: expanded_def Let_def)
  next
    case None
    obtain r s1 where start_res: "op_start_command ops start s = (r, s1)" by fastforce
    show ?thesis
    proof (cases r)
      case (Inl e)
      with Cons.prems None start_res start_error[OF Cons.prems(1) prog] show ?thesis
        by (intro early[of _ s1]) (auto simp: expanded_def Let_def cmd_def start_def)
    next
      case (Inr i)
      define out where "out = exec i cmd"
      obtain u s2 where complete_res:
        "op_complete_command ops i (command_result_of quote out) s1 = (u, s2)" by fastforce
      have "holds job s1" using start_ok[OF Cons.prems(1) prog] start_res Inr by auto
      then have s2: "holds job s2" using complete complete_res by blast
      show ?thesis
      proof (cases "with_persist_error (execution_error out) u")
        case (Some e)
        with Cons.prems None Inr start_res complete_res s2 show ?thesis
          by (intro early[of _ s2]) (auto simp: expanded_def Let_def cmd_def start_def out_def)
      next
        case no_error: None
        with Cons.prems(2) None Inr start_res complete_res
        have "run_steps ops quote delay exec job (index + 1) rest s2 = (res, s')"
          by (simp add: expanded_def Let_def cmd_def start_def out_def)
        from Cons.IH[OF s2 this] show ?thesis .
      qed
    qed
  qed
qed

lemma process_job_settles:
  assumes "holds job s" and "process_job ops quote delay resolver exec job s = (res, s')"
  shows "if res = None then state s' (j_id job) = Some StatusSucceeded else released job s'"
proof (cases "resolver (j_watch_name job)")
  case None
  with assms(2) obtain cause where "fail_job ops quote delay job cause s = (res, s')"
    by (auto simp: process_job_def resolve_pipeline_def)
  from fail_job_releases[OF assms(1) this] show ?thesis by simp
next
  case (Some pipeline)
  with assms(2) have "run_steps ops quote delay exec job 0 pipeline s = (res, s')"
    by (simp add: process_job_def resolve_pipeline_def)
  from run_steps_settles[OF assms(1) this] show ?thesis .
qed

end

end
