(* ===== verification/WorkerQueue.thy ===== *)
theory WorkerQueue
  imports WorkerContract QueueProps
begin

text \<open>
  The queue as the workers' store. \<open>queue_world\<close> is the database one worker shares with the rest
  of the program: before each of its calls any number of calls of other goroutines take effect
  (\<open>qw_others\<close>), and the engine answers as \<open>qw_env\<close> says. The contract of \<open>WorkerContract\<close> is
  discharged for every interleaving whose other calls leave this job and run alone, which is what
  exclusive claims give (\<open>QueueProps\<close>).
\<close>

section \<open>Calls of the other workers\<close>

definition owns_run :: "job \<Rightarrow> db \<Rightarrow> bool" where
  "owns_run job d \<longleftrightarrow> queue_inv d \<and>
    (\<exists>r \<in> set (jobs d). j_id r = j_id job \<and> j_status r = StatusRunning) \<and>
    (\<exists>k \<in> set (runs d). running_run (j_id job) (j_run_id job) k)"

text \<open>Calls that are about another job and another run.\<close>

definition foreign_call :: "job \<Rightarrow> store_call \<Rightarrow> bool" where
  "foreign_call job c \<longleftrightarrow>
    (case c of
       Enqueue p \<Rightarrow> True
     | Claim \<Rightarrow> True
     | StartCommand cs \<Rightarrow> cs_run_id cs \<noteq> j_run_id job
     | CompleteCommand i r \<Rightarrow> True
     | Succeed i k \<Rightarrow> i \<noteq> j_id job
     | Fail i k m delay \<Rightarrow> i \<noteq> j_id job
     | RecoverRunning \<Rightarrow> False)"

definition commands_recorded :: "db \<Rightarrow> int \<Rightarrow> (int \<times> string \<times> string) list" where
  "commands_recorded d k =
    map (\<lambda>c. (c_sequence c, command_row.c_program c, c_args_json c)) (filter (\<lambda>c. c_run_id c = k) (commands d))"

definition status_of :: "db \<Rightarrow> int \<Rightarrow> status option" where
  "status_of d i = map_option j_status (select_one (\<lambda>r. j_id r = i) (jobs d))"

lemma owns_runI:
  assumes "queue_inv d'" and "owns_run job d"
    and "\<And>r. r \<in> set (jobs d) \<Longrightarrow> j_id r = j_id job \<Longrightarrow> j_status r = StatusRunning \<Longrightarrow> r \<in> set (jobs d')"
    and "\<And>k. k \<in> set (runs d) \<Longrightarrow> running_run (j_id job) (j_run_id job) k \<Longrightarrow> k \<in> set (runs d')"
  shows "owns_run job d'"
  using assms unfolding owns_run_def by blast

lemma owns_run_inv: "owns_run job d \<Longrightarrow> queue_inv d"
  by (simp add: owns_run_def)

lemma commands_recorded_update:
  assumes "\<And>c. c_run_id (f c) = c_run_id c \<and> c_sequence (f c) = c_sequence c \<and>
      command_row.c_program (f c) = command_row.c_program c \<and> c_args_json (f c) = c_args_json c"
  shows "commands_recorded (d\<lparr>commands := sql_update p f cs\<rparr>) k = commands_recorded (d\<lparr>commands := cs\<rparr>) k"
  unfolding commands_recorded_def by (induction cs) (auto simp: assms)

lemma commands_recorded_same: "commands d' = commands d \<Longrightarrow> commands_recorded d' k = commands_recorded d k"
  by (simp add: commands_recorded_def)

lemma fail_commands_recorded:
  assumes "commands d' = fail_commands p m t (commands d)"
  shows "commands_recorded d' k = commands_recorded d k"
proof -
  have "commands_recorded d' k = commands_recorded (d\<lparr>commands := fail_commands p m t (commands d)\<rparr>) k"
    by (rule commands_recorded_same) (simp add: assms)
  also have "\<dots> = commands_recorded d k"
    unfolding fail_commands_def by (subst commands_recorded_update) auto
  finally show ?thesis .
qed

text \<open>A call of another worker keeps the job, its run and its recorded commands.\<close>

lemma foreign_keeps:
  assumes own: "owns_run job d" and c: "foreign_call job c" and fresh: "fresh_rowid e d"
  shows "owns_run job (store_exec e now c d) \<and>
    commands_recorded (store_exec e now c d) (j_run_id job) = commands_recorded d (j_run_id job)"
proof -
  have inv: "queue_inv (store_exec e now c d)"
    using store_step_inv[OF store_step.call[OF fresh] owns_run_inv[OF own]] .
  note keep = owns_runI[OF _ own]
  show ?thesis
  proof (cases c)
    case (Enqueue p)
    with inv show ?thesis
      by (cases rule: enqueue_cases[of e now p d])
        (auto simp: store_exec_def own commands_recorded_def intro!: keep)
  next
    case Claim
    obtain res d' where res: "claim e now d = (res, d')" by fastforce
    show ?thesis
    proof (cases res)
      case (Inl err)
      with res Claim own show ?thesis by (auto simp: store_exec_def dest: claim_error)
    next
      case (Inr j)
      with res obtain r where r: "oldest_eligible (unix_nano now) d = Some r"
        and d': "d' = claimed_db (rowid e) (unix_nano now) r d" using claim_ok by metis
      have "r \<in> set (jobs d)" "j_status r = StatusQueued"
        using select_first_Some(1,2)[OF r[unfolded oldest_eligible_def]] by (auto simp: eligible_def)
      then have other: "j_id s \<noteq> j_id r" if "s \<in> set (jobs d)" "j_status s = StatusRunning" for s
        using that jobs_ok_inj[of d s r] owns_run_inv[OF own] by (auto simp: queue_inv_def)
      have "queue_inv d'" using inv Claim res by (simp add: store_exec_def)
      then have "owns_run job d'"
        by (rule keep) (auto simp: d' claimed_db_def dest: other intro!: in_sql_updateI2)
      then show ?thesis
        using Claim res by (simp add: store_exec_def d' claimed_db_def commands_recorded_def)
    qed
  next
    case (StartCommand cs)
    with c have "cs_run_id cs \<noteq> j_run_id job" by (simp add: foreign_call_def)
    with StartCommand inv show ?thesis
      by (cases rule: start_command_cases[of e now cs d])
        (auto simp: store_exec_def own commands_recorded_def new_command_row_def intro!: keep)
  next
    case (CompleteCommand i r)
    with inv own show ?thesis
      by (cases rule: complete_command_cases[of e now i r d])
        (auto simp: store_exec_def commands_recorded_update intro!: keep)
  next
    case (Succeed i k)
    with c have ne: "i \<noteq> j_id job" by (simp add: foreign_call_def)
    obtain res d' where res: "succeed e now i k d = (res, d')" by fastforce
    show ?thesis
    proof (cases res)
      case (Inl err)
      with res Succeed own show ?thesis by (auto simp: store_exec_def dest: succeed_error)
    next
      case (Inr u)
      with res have d': "d' = succeeded_db (unix_nano now) i k d" by (auto dest: succeed_ok)
      have "queue_inv d'" using inv Succeed res by (simp add: store_exec_def)
      then have "owns_run job d'"
        by (rule keep) (use ne in \<open>auto simp: d' succeeded_db_def running_job_def running_run_def intro!: in_sql_updateI2\<close>)
      then show ?thesis
        using Succeed res by (simp add: store_exec_def d' succeeded_db_def commands_recorded_def)
    qed
  next
    case (Fail i k m delay)
    with c have ne: "i \<noteq> j_id job" by (simp add: foreign_call_def)
    obtain res d' where res: "fail e now i k m delay d = (res, d')" by fastforce
    show ?thesis
    proof (cases res)
      case (Inl err)
      with res Fail own show ?thesis by (auto simp: store_exec_def dest: fail_error)
    next
      case (Inr st)
      with res obtain j where d': "d' = failed_db now i k m delay j d" by (auto elim: fail_ok)
      have "queue_inv d'" using inv Fail res by (simp add: store_exec_def)
      then have "owns_run job d'"
        by (rule keep) (use ne in \<open>auto simp: d' failed_db_def Let_def running_job_def running_run_def intro!: in_sql_updateI2\<close>)
      moreover have "commands_recorded d' (j_run_id job) = commands_recorded d (j_run_id job)"
        by (rule fail_commands_recorded) (simp add: d' failed_db_def Let_def)
      ultimately show ?thesis using Fail res by (simp add: store_exec_def)
    qed
  next
    case RecoverRunning
    with c show ?thesis by (simp add: foreign_call_def)
  qed
qed

section \<open>The store one worker sees\<close>

record queue_world =
  qw_db :: db
  qw_tick :: nat
  qw_env :: "nat \<Rightarrow> engine \<times> time"
  qw_others :: "nat \<Rightarrow> (engine \<times> time \<times> store_call) list"

text \<open>AUTOINCREMENT: an id above every id handed out.\<close>

definition next_rowid :: "db \<Rightarrow> engine \<Rightarrow> engine" where
  "next_rowid d e = e\<lparr>rowid := 1 + max (jobs_seq d) (max (runs_seq d) (commands_seq d))\<rparr>"

fun other_calls :: "(engine \<times> time \<times> store_call) list \<Rightarrow> db \<Rightarrow> db" where
  "other_calls [] d = d"
| "other_calls ((e, now, c) # cs) d = other_calls cs (store_exec (next_rowid d e) now c d)"

definition with_call :: "(engine \<Rightarrow> time \<Rightarrow> db \<Rightarrow> 'a \<times> db) \<Rightarrow> queue_world \<Rightarrow> 'a \<times> queue_world" where
  "with_call f w =
    (let d = other_calls (qw_others w (qw_tick w)) (qw_db w);
         (e, now) = qw_env w (qw_tick w);
         (x, d') = f (next_rowid d e) now d in
     (x, w\<lparr>qw_db := d', qw_tick := qw_tick w + 1\<rparr>))"

definition queue_ops :: "queue_world store_ops" where
  "queue_ops =
    \<lparr>op_claim = with_call (\<lambda>e now d. case claim e now d of
        (Inl err, d') \<Rightarrow> (Inl err, d') | (Inr j, d') \<Rightarrow> (Inr (Some j), d')),
     op_start_command = (\<lambda>cs. with_call (\<lambda>e now. start_command e now cs)),
     op_complete_command = (\<lambda>i r. with_call (\<lambda>e now. complete_command e now i r)),
     op_succeed = (\<lambda>i k. with_call (\<lambda>e now. succeed e now i k)),
     op_fail = (\<lambda>i k m delay. with_call (\<lambda>e now. fail e now i k m delay))\<rparr>"

definition others_foreign :: "job \<Rightarrow> queue_world \<Rightarrow> bool" where
  "others_foreign job w \<longleftrightarrow> (\<forall>n. \<forall>(e, now, c) \<in> set (qw_others w n). foreign_call job c)"

definition holds_job :: "job \<Rightarrow> queue_world \<Rightarrow> bool" where
  "holds_job job w \<longleftrightarrow> owns_run job (qw_db w) \<and> others_foreign job w"

lemma next_rowid_fresh: "fresh_rowid (next_rowid d e) d"
  by (auto simp: fresh_rowid_def next_rowid_def max_def)

lemma next_rowid_reply [simp]: "reply (next_rowid d e) = reply e"
  by (simp add: next_rowid_def)

lemma other_calls_keep:
  "owns_run job d \<Longrightarrow> \<forall>(e, now, c) \<in> set cs. foreign_call job c \<Longrightarrow>
    owns_run job (other_calls cs d) \<and>
    commands_recorded (other_calls cs d) (j_run_id job) = commands_recorded d (j_run_id job)"
proof (induction cs d rule: other_calls.induct)
  case (2 e now c cs d)
  then have "owns_run job (store_exec (next_rowid d e) now c d) \<and>
    commands_recorded (store_exec (next_rowid d e) now c d) (j_run_id job) = commands_recorded d (j_run_id job)"
    by (intro foreign_keeps next_rowid_fresh) auto
  with 2 show ?case by simp
qed simp

text \<open>One call of the worker: what it sees, and what is left to show of the call itself.\<close>

lemma with_callE:
  assumes "with_call f w = (x, w')" and "holds_job job w"
  obtains d e now d' where "owns_run job d" and "fresh_rowid e d"
    and "reply e = reply (fst (qw_env w (qw_tick w)))"
    and "commands_recorded d (j_run_id job) = commands_recorded (qw_db w) (j_run_id job)"
    and "f e now d = (x, d')" and "qw_db w' = d'"
    and "owns_run job d' \<Longrightarrow> holds_job job w'"
    and "qw_env w' = qw_env w"
proof -
  let ?d = "other_calls (qw_others w (qw_tick w)) (qw_db w)"
  let ?e = "next_rowid ?d (fst (qw_env w (qw_tick w)))"
  let ?now = "snd (qw_env w (qw_tick w))"
  obtain d' where f: "f ?e ?now ?d = (x, d')" and w': "w' = w\<lparr>qw_db := d', qw_tick := qw_tick w + 1\<rparr>"
    using assms(1) by (auto simp: with_call_def Let_def split: prod.splits)
  have "owns_run job (qw_db w)" "\<forall>(e, now, c) \<in> set (qw_others w (qw_tick w)). foreign_call job c"
    using assms(2) by (auto simp: holds_job_def others_foreign_def)
  from other_calls_keep[OF this] f w' assms(2) show ?thesis
    by (intro that[of ?d ?e ?now d']) (auto simp: next_rowid_fresh holds_job_def others_foreign_def)
qed

section \<open>The calls of the holder\<close>

lemma owns_run_step:
  assumes "owns_run job d" and "fresh_rowid e d" and "jobs d' = jobs d" and "runs d' = runs d"
    and "d' = store_exec e now c d"
  shows "owns_run job d'"
  using assms store_step_inv[OF store_step.call[OF assms(2)] owns_run_inv[OF assms(1)]]
  by (auto intro: owns_runI)

lemma start_command_held:
  assumes own: "owns_run job d" and fresh: "fresh_rowid e d" and k: "cs_run_id cs = j_run_id job"
    and res: "start_command e now cs d = (res, d')"
  shows "owns_run job d' \<and>
    (if \<exists>i. res = Inr i then commands_recorded d' (j_run_id job) =
        commands_recorded d (j_run_id job) @ [start_record cs]
     else commands_recorded d' (j_run_id job) = commands_recorded d (j_run_id job) \<or>
        commands_recorded d' (j_run_id job) =
        commands_recorded d (j_run_id job) @ [start_record cs])"
proof -
  have exec: "d' = store_exec e now (StartCommand cs) d" by (simp add: store_exec_def res)
  show ?thesis
  proof (cases rule: start_command_cases[of e now cs d])
    case 1
    with res have d': "d' = d" by simp
    have "\<nexists>i. res = Inr i"
    proof
      assume "\<exists>i. res = Inr i"
      then obtain i where i: "start_command e now cs d = (Inr i, d)" using res d' by auto
      then have "commands d @ [new_command_row (rowid e) now cs] = commands d"
        by (auto simp: start_command_def Let_def require_one_row_def
            split: if_splits option.splits dest!: arg_cong[where f = commands])
      then show False by simp
    qed
    with d' own show ?thesis by simp
  next
    case 2
    with res have d': "d' = d\<lparr>commands := commands d @ [new_command_row (rowid e) now cs], commands_seq := rowid e\<rparr>"
      by simp
    have "owns_run job d'" by (rule owns_run_step[OF own fresh _ _ exec]) (simp_all add: d')
    then show ?thesis by (simp add: d' commands_recorded_def new_command_row_def start_record_def k)
  qed
qed

lemma complete_command_held:
  assumes own: "owns_run job d" and fresh: "fresh_rowid e d"
    and res: "complete_command e now i r d = (res, d')"
  shows "owns_run job d' \<and> commands_recorded d' (j_run_id job) = commands_recorded d (j_run_id job)"
  using foreign_keeps[OF own _ fresh, of "CompleteCommand i r" now] res
  by (simp add: foreign_call_def store_exec_def)

lemma held_run_rows:
  assumes "owns_run job d"
  shows "rows_affected (running_run (j_id job) (j_run_id job)) (runs d) = 1"
    and "rows_affected (running_job (j_id job)) (jobs d) = 1"
    and "\<exists>j. select_one (running_job (j_id job)) (jobs d) = Some j"
    and "0 < j_id job" and "0 < j_run_id job"
proof -
  have runs: "distinct (map r_id (runs d))" and jobs: "distinct (map j_id (jobs d))"
    using assms by (auto simp: owns_run_def queue_inv_def runs_ok_def jobs_ok_def ids_ok_def)
  obtain r k where r: "r \<in> set (jobs d)" "j_id r = j_id job" "j_status r = StatusRunning"
    and k: "k \<in> set (runs d)" "running_run (j_id job) (j_run_id job) k"
    using assms by (auto simp: owns_run_def)
  show "rows_affected (running_run (j_id job) (j_run_id job)) (runs d) = 1"
    using k by (subst rows_affected_key[OF runs, where k = "j_run_id job"]) (auto simp: running_run_def)
  show "rows_affected (running_job (j_id job)) (jobs d) = 1"
    using r by (subst rows_affected_key[OF jobs, where k = "j_id job"]) (auto simp: running_job_def)
  show "\<exists>j. select_one (running_job (j_id job)) (jobs d) = Some j"
    using r by (metis option.exhaust running_job_def select_one_None)
  have "ids_ok (map j_id (jobs d)) (jobs_seq d)" "ids_ok (map r_id (runs d)) (runs_seq d)"
    using assms by (simp_all add: owns_run_def queue_inv_def runs_ok_def jobs_ok_def)
  moreover have "r_id k = j_run_id job" using k by (simp add: running_run_def)
  ultimately show "0 < j_id job" and "0 < j_run_id job"
    using r k by (auto simp: ids_ok_def)
qed

lemma status_of_updated:
  assumes "owns_run job d" and "jobs d' = sql_update (running_job (j_id job)) f (jobs d)"
    and "\<And>r. j_id (f r) = j_id r" and "\<And>r. j_status (f r) = st"
  shows "status_of d' (j_id job) = Some st"
proof -
  obtain r where r: "r \<in> set (jobs d)" "j_id r = j_id job" "j_status r = StatusRunning"
    using assms(1) by (auto simp: owns_run_def)
  have "distinct (map j_id (jobs d))"
    using assms(1) by (auto simp: owns_run_def queue_inv_def jobs_ok_def ids_ok_def)
  moreover have "map j_id (jobs d') = map j_id (jobs d)"
    unfolding assms(2) by (rule map_sql_update) (rule assms(3))
  ultimately have "distinct (map j_id (jobs d'))" by simp
  moreover have "f r \<in> set (jobs d')" "j_id (f r) = j_id job"
    using r by (auto simp: assms(2,3) running_job_def intro: in_sql_updateI1)
  ultimately have "select_one (\<lambda>r. j_id r = j_id job) (jobs d') = Some (f r)"
    by (intro select_one_unique[where key = j_id]) auto
  then show ?thesis by (simp add: status_of_def assms(4))
qed

lemma succeed_held:
  assumes own: "owns_run job d" and fresh: "fresh_rowid e d"
    and res: "succeed e now (j_id job) (j_run_id job) d = (res, d')"
  shows "commands_recorded d' (j_run_id job) = commands_recorded d (j_run_id job) \<and>
    (case res of Inl err \<Rightarrow> owns_run job d' | Inr _ \<Rightarrow> status_of d' (j_id job) = Some StatusSucceeded)"
proof (cases res)
  case (Inl err)
  with res own show ?thesis by (auto dest: succeed_error)
next
  case (Inr u)
  with res have d': "d' = succeeded_db (unix_nano now) (j_id job) (j_run_id job) d" by (auto dest: succeed_ok)
  then have "status_of d' (j_id job) = Some StatusSucceeded"
    by (intro status_of_updated[OF own, where f = "finish_job StatusSucceeded None [] (unix_nano now) (Some (unix_nano now))"])
      (simp_all add: succeeded_db_def)
  with Inr show ?thesis by (simp add: d' succeeded_db_def commands_recorded_def)
qed

lemma fail_held:
  assumes own: "owns_run job d" and fresh: "fresh_rowid e d"
    and res: "fail e now (j_id job) (j_run_id job) m delay d = (res, d')"
  shows "commands_recorded d' (j_run_id job) = commands_recorded d (j_run_id job) \<and>
    (case res of Inl err \<Rightarrow> owns_run job d'
     | Inr st \<Rightarrow> st \<in> {StatusQueued, StatusFailed} \<and> status_of d' (j_id job) = Some st)"
proof (cases res)
  case (Inl err)
  with res own show ?thesis by (auto dest: fail_error)
next
  case (Inr st)
  with res obtain j where d': "d' = failed_db now (j_id job) (j_run_id job) m delay j d"
    and st: "st = (if j_attempts j \<le> j_max_retries j then StatusQueued else StatusFailed)"
    by (auto elim: fail_ok)
  have "status_of d' (j_id job) = Some st"
    by (rule status_of_updated[OF own, where f = "finish_job st
          (Some (unix_nano (if j_attempts j \<le> j_max_retries j then now + max 0 delay else now))) m (unix_nano now)
          (if j_attempts j \<le> j_max_retries j then None else Some (unix_nano now))"])
      (simp_all add: d' failed_db_def Let_def st)
  moreover have "commands_recorded d' (j_run_id job) = commands_recorded d (j_run_id job)"
    by (rule fail_commands_recorded) (simp add: d' failed_db_def Let_def)
  ultimately show ?thesis using Inr by (auto simp: st)
qed

text \<open>While the engine answers, the closing calls of the holder succeed.\<close>

lemma succeed_held_total:
  assumes "owns_run job d" and "reply e = (\<lambda>_. None)"
  shows "\<exists>d'. succeed e now (j_id job) (j_run_id job) d = (Inr (), d')"
  using held_run_rows[OF assms(1)] assms(2)
  by (simp add: succeed_def in_tx_def Let_def require_one_row_def)

lemma fail_held_total:
  assumes "owns_run job d" and "reply e = (\<lambda>_. None)"
  shows "\<exists>st d'. fail e now (j_id job) (j_run_id job) m delay d = (Inr st, d')"
proof -
  obtain j where "select_one (running_job (j_id job)) (jobs d) = Some j" using held_run_rows(3)[OF assms(1)] by blast
  with held_run_rows[OF assms(1)] assms(2) show ?thesis
    by (simp add: fail_def in_tx_def Let_def require_one_row_def)
qed

section \<open>The contract holds\<close>

lemmas queue_op_defs = queue_ops_def

interpretation queue_store: worker_store queue_ops holds_job
  "\<lambda>w. status_of (qw_db w)" "\<lambda>w. commands_recorded (qw_db w)"
proof unfold_locales
  fix job w c i w'
  assume w: "holds_job job w" "cs_run_id c = j_run_id job" "op_start_command queue_ops c w = (Inr i, w')"
  then have "with_call (\<lambda>e now. start_command e now c) w = (Inr i, w')" by (simp add: queue_op_defs)
  then show "holds_job job w' \<and> commands_recorded (qw_db w') (j_run_id job) =
      commands_recorded (qw_db w) (j_run_id job) @ [start_record c]"
    using w(1) by (elim with_callE[OF _ w(1)]) (use start_command_held[OF _ _ w(2)] in force)
next
  fix job w c err w'
  assume w: "holds_job job w" "cs_run_id c = j_run_id job" "op_start_command queue_ops c w = (Inl err, w')"
  then have "with_call (\<lambda>e now. start_command e now c) w = (Inl err, w')" by (simp add: queue_op_defs)
  then show "holds_job job w' \<and> (commands_recorded (qw_db w') (j_run_id job) = commands_recorded (qw_db w) (j_run_id job) \<or>
      commands_recorded (qw_db w') (j_run_id job) =
        commands_recorded (qw_db w) (j_run_id job) @ [start_record c])"
    using w(1) by (elim with_callE[OF _ w(1)]) (use start_command_held[OF _ _ w(2)] in force)
next
  fix job w i r answer w'
  assume w: "holds_job job w" "op_complete_command queue_ops i r w = (answer, w')"
  then have "with_call (\<lambda>e now. complete_command e now i r) w = (answer, w')" by (simp add: queue_op_defs)
  then show "holds_job job w' \<and> commands_recorded (qw_db w') (j_run_id job) = commands_recorded (qw_db w) (j_run_id job)"
    by (elim with_callE[OF _ w(1)]) (use complete_command_held in force)
next
  fix job w w'
  assume w: "holds_job job w" "op_succeed queue_ops (j_id job) (j_run_id job) w = (Inr (), w')"
  then have "with_call (\<lambda>e now. succeed e now (j_id job) (j_run_id job)) w = (Inr (), w')" by (simp add: queue_op_defs)
  then show "status_of (qw_db w') (j_id job) = Some StatusSucceeded \<and>
      commands_recorded (qw_db w') (j_run_id job) = commands_recorded (qw_db w) (j_run_id job)"
    by (elim with_callE[OF _ w(1)]) (use succeed_held in fastforce)
next
  fix job w err w'
  assume w: "holds_job job w" "op_succeed queue_ops (j_id job) (j_run_id job) w = (Inl err, w')"
  then have "with_call (\<lambda>e now. succeed e now (j_id job) (j_run_id job)) w = (Inl err, w')" by (simp add: queue_op_defs)
  then show "holds_job job w' \<and> commands_recorded (qw_db w') (j_run_id job) = commands_recorded (qw_db w) (j_run_id job)"
    by (elim with_callE[OF _ w(1)]) (use succeed_held in fastforce)
next
  fix job w m delay st w'
  assume w: "holds_job job w" "op_fail queue_ops (j_id job) (j_run_id job) m delay w = (Inr st, w')"
  then have "with_call (\<lambda>e now. fail e now (j_id job) (j_run_id job) m delay) w = (Inr st, w')" by (simp add: queue_op_defs)
  then show "st \<in> {StatusQueued, StatusFailed} \<and> status_of (qw_db w') (j_id job) = Some st \<and>
      commands_recorded (qw_db w') (j_run_id job) = commands_recorded (qw_db w) (j_run_id job)"
    by (elim with_callE[OF _ w(1)]) (use fail_held in fastforce)
next
  fix job w m delay err w'
  assume w: "holds_job job w" "op_fail queue_ops (j_id job) (j_run_id job) m delay w = (Inl err, w')"
  then have "with_call (\<lambda>e now. fail e now (j_id job) (j_run_id job) m delay) w = (Inl err, w')" by (simp add: queue_op_defs)
  then show "holds_job job w' \<and> commands_recorded (qw_db w') (j_run_id job) = commands_recorded (qw_db w) (j_run_id job)"
    by (elim with_callE[OF _ w(1)]) (use fail_held in fastforce)
qed

text \<open>The world in which the engine answers every call.\<close>

definition healthy :: "queue_world \<Rightarrow> bool" where
  "healthy w \<longleftrightarrow> (\<forall>n. reply (fst (qw_env w n)) = (\<lambda>_. None))"

lemma with_call_env: "with_call f w = (x, w') \<Longrightarrow> healthy w' = healthy w"
  by (auto simp: with_call_def Let_def healthy_def split: prod.splits)

lemma queue_ops_env:
  "op_start_command queue_ops c w = (a, w') \<Longrightarrow> healthy w' = healthy w"
  "op_complete_command queue_ops i r w = (b, w') \<Longrightarrow> healthy w' = healthy w"
  "op_succeed queue_ops i k w = (b, w') \<Longrightarrow> healthy w' = healthy w"
  "op_fail queue_ops i k m delay w = (u, w') \<Longrightarrow> healthy w' = healthy w"
  by (auto simp: queue_op_defs dest: with_call_env)

lemma with_call_total:
  assumes "holds_job job w" and "healthy w"
    and "\<And>d e now. owns_run job d \<Longrightarrow> reply e = (\<lambda>_. None) \<Longrightarrow> \<exists>x d'. P x \<and> f e now d = (x, d')"
  shows "\<exists>x w'. P x \<and> with_call f w = (x, w')"
proof -
  obtain x w' where x: "with_call f w = (x, w')" by fastforce
  from x assms(1) obtain d e now d' where "owns_run job d" "reply e = (\<lambda>_. None)" "f e now d = (x, d')"
    using assms(2) by (elim with_callE) (auto simp: healthy_def)
  with assms(3)[of d e now] x show ?thesis by auto
qed

interpretation healthy_store: reliable_store queue_ops "\<lambda>job w. holds_job job w \<and> healthy w"
  "\<lambda>w. status_of (qw_db w)" "\<lambda>w. commands_recorded (qw_db w)"
proof unfold_locales
  fix job w m delay
  assume w: "holds_job job w \<and> healthy w"
  show "\<exists>st w'. op_fail queue_ops (j_id job) (j_run_id job) m delay w = (Inr st, w')"
    using with_call_total[of job w "\<lambda>x. \<exists>st. x = Inr st" "\<lambda>e now. fail e now (j_id job) (j_run_id job) m delay"]
      w fail_held_total by (fastforce simp: queue_op_defs)
next
  fix job w
  assume w: "holds_job job w \<and> healthy w"
  show "\<exists>w'. op_succeed queue_ops (j_id job) (j_run_id job) w = (Inr (), w')"
    using with_call_total[of job w "\<lambda>x. x = Inr ()" "\<lambda>e now. succeed e now (j_id job) (j_run_id job)"]
      w succeed_held_total by (fastforce simp: queue_op_defs)
qed (use queue_ops_env queue_store.start_ok queue_store.start_error queue_store.complete
  queue_store.succeed_ok queue_store.succeed_error queue_store.fail_ok queue_store.fail_error in metis)+

section \<open>Attempts\<close>

lemma claim_owns:
  assumes inv: "queue_inv d" and fresh: "fresh_rowid e d" and res: "claim e now d = (Inr job, d')"
  shows "owns_run job d' \<and> commands_recorded d' (j_run_id job) = []"
proof -
  from res obtain r where r: "oldest_eligible (unix_nano now) d = Some r"
    and d': "d' = claimed_db (rowid e) (unix_nano now) r d"
    and job: "job = (scan_job (mark_claimed (unix_nano now) r))\<lparr>j_run_id := rowid e, j_attempt := j_attempts r + 1\<rparr>"
    by (rule claim_ok)
  have ids: "j_id job = j_id r" "j_run_id job = rowid e" by (simp_all add: job scan_job_def job_row.defs)
  have "r \<in> set (jobs d)" using select_first_Some(1)[OF r[unfolded oldest_eligible_def]] .
  then have "mark_claimed (unix_nano now) r \<in> set (jobs d')"
    by (simp add: d' claimed_db_def in_sql_updateI1)
  moreover have "queue_inv d'" using claim_inv[OF inv, of e now] fresh res by (simp add: fresh_rowid_def)
  moreover have "\<exists>k \<in> set (runs d'). running_run (j_id job) (j_run_id job) k"
    by (simp add: d' claimed_db_def running_run_def ids)
  ultimately have "owns_run job d'"
    unfolding owns_run_def using ids by (intro conjI bexI[of _ "mark_claimed (unix_nano now) r"]) auto
  moreover have "c_run_id c \<noteq> rowid e" if "c \<in> set (commands d)" for c
  proof -
    have "c_run_id c \<in> r_id ` set (runs d)" using inv that by (auto simp: queue_inv_def commands_ok_def)
    then have "c_run_id c \<le> runs_seq d" using inv by (auto simp: queue_inv_def runs_ok_def ids_ok_def)
    then show ?thesis using fresh by (auto simp: fresh_rowid_def)
  qed
  then have "commands_recorded d' (j_run_id job) = []"
    by (auto simp: commands_recorded_def d' claimed_db_def ids filter_empty_conv)
  ultimately show ?thesis ..
qed

text \<open>C4: An attempt at a claimed job, under any interleaving with other workers' calls and any
  answers of the engine, either ends without an error, and then the job is \<open>SUCCEEDED\<close> and
  every step of the pipeline configured for its watch is recorded once, in order, numbered from 1;
  or it reports an error, and then the job is back in the queue, failed, or (when the closing call
  itself failed) still held by this run, and the recorded commands are a prefix of the pipeline.\<close>

theorem attempt_outcome:
  assumes "reachable d" and "fresh_rowid e d" and "claim e now d = (Inr job, qw_db w)"
    and "others_foreign job w"
    and "process_job queue_ops quote delay resolver exec job w = (res, w')"
  shows "(res = None \<and> status_of (qw_db w') (j_id job) = Some StatusSucceeded \<and>
      (\<exists>pipeline. resolver (j_watch_name job) = Some pipeline \<and>
        commands_recorded (qw_db w') (j_run_id job) = planned job 0 pipeline)) \<or>
    (res \<noteq> None \<and>
      (status_of (qw_db w') (j_id job) \<in> {Some StatusQueued, Some StatusFailed} \<or> owns_run job (qw_db w')) \<and>
      (\<exists>n pipeline. commands_recorded (qw_db w') (j_run_id job) = take n (planned job 0 pipeline) \<and>
        (resolver (j_watch_name job) = Some pipeline \<or> resolver (j_watch_name job) = None \<and> pipeline = [])))"
proof -
  from claim_owns[OF reachable_inv[OF assms(1)] assms(2,3)] assms(4)
  have w: "holds_job job w" "commands_recorded (qw_db w) (j_run_id job) = []"
    by (simp_all add: holds_job_def)
  show ?thesis
    using queue_store.process_job_outcome[OF w assms(5)]
    by (auto simp: queue_store.released_def holds_job_def)
qed

definition demo_copy :: command_config where
  "demo_copy = demo_step\<lparr>c_args := [''{{file}}'', ''/out'']\<rparr>"

definition demo_resolver :: resolver where
  "demo_resolver = (\<lambda>n. if n = ''w'' then Some [demo_copy] else None)"

definition demo_executor :: executor where
  "demo_executor = (\<lambda>i x. (\<lparr>xr_started_at = 7, xr_finished_at = 8, xr_exit_code = 0, xr_stdout = [], xr_stderr = [],
    xr_timed_out = False\<rparr>, None))"

definition demo_job :: job where
  "demo_job = (scan_job (mark_claimed 6 demo_row))\<lparr>j_run_id := 2, j_attempt := 1\<rparr>"

text \<open>Another worker claims between this worker's calls.\<close>

definition demo_world :: queue_world where
  "demo_world = \<lparr>qw_db = demo_claimed, qw_tick = 0, qw_env = (\<lambda>n. (ok_engine 0, 7)),
                 qw_others = (\<lambda>n. [(ok_engine 0, 7, Claim)])\<rparr>"

lemma demo_world_claim: "claim (ok_engine 2) 6 demo_queued = (Inr demo_job, qw_db demo_world)"
  by (simp add: demo_claim demo_job_def demo_world_def)

lemma demo_world_foreign: "others_foreign demo_job demo_world"
  by (simp add: others_foreign_def demo_world_def foreign_call_def)

theorem attempt_outcome_witness:
  "(let (res, w') = process_job queue_ops id 5 demo_resolver demo_executor demo_job demo_world in
     status_of (qw_db w') 1 \<in> {Some StatusSucceeded, Some StatusQueued, Some StatusFailed} \<or>
     owns_run demo_job (qw_db w'))"
proof -
  obtain res w' where p: "process_job queue_ops id 5 demo_resolver demo_executor demo_job demo_world = (res, w')"
    by fastforce
  have "j_id demo_job = 1" by (simp add: demo_job_def scan_job_def job_row.defs demo_row_def)
  with attempt_outcome[OF demo_reachable(1) demo_fresh(2) demo_world_claim demo_world_foreign p] p
  show ?thesis by auto
qed

text \<open>C7: While the engine answers, an attempt always settles its job, whatever the executor and the
  pipeline do and whatever other workers do in between: \<open>SUCCEEDED\<close> when the attempt reports no
  error, otherwise \<open>QUEUED\<close> for a retry or \<open>FAILED\<close>.\<close>

theorem attempt_settles:
  assumes "reachable d" and "fresh_rowid e d" and "claim e now d = (Inr job, qw_db w)"
    and "others_foreign job w" and "healthy w"
    and "process_job queue_ops quote delay resolver exec job w = (res, w')"
  shows "if res = None then status_of (qw_db w') (j_id job) = Some StatusSucceeded
    else status_of (qw_db w') (j_id job) \<in> {Some StatusQueued, Some StatusFailed}"
proof -
  from claim_owns[OF reachable_inv[OF assms(1)] assms(2,3)] assms(4,5)
  have w: "holds_job job w \<and> healthy w" by (simp add: holds_job_def)
  show ?thesis
    using healthy_store.process_job_settles[OF w assms(6)]
    by (auto simp: healthy_store.released_def split: if_splits)
qed

theorem attempt_settles_witness:
  "(let (res, w') = process_job queue_ops id 5 demo_resolver demo_executor demo_job demo_world in
     if res = None then status_of (qw_db w') 1 = Some StatusSucceeded
     else status_of (qw_db w') 1 \<in> {Some StatusQueued, Some StatusFailed})"
proof -
  obtain res w' where p: "process_job queue_ops id 5 demo_resolver demo_executor demo_job demo_world = (res, w')"
    by fastforce
  have "healthy demo_world" by (simp add: healthy_def demo_world_def ok_engine_def)
  moreover have "j_id demo_job = 1" by (simp add: demo_job_def scan_job_def job_row.defs demo_row_def)
  ultimately show ?thesis
    using attempt_settles[OF demo_reachable(1) demo_fresh(2) demo_world_claim demo_world_foreign _ p] p
    by (auto split: if_splits)
qed

end
