(* ===== verification/GoPathFacts.thy ===== *)
theory GoPathFacts
  imports GoPath
begin

text \<open>
  Absolute paths as lists of names. \<open>abs_elems p\<close> is the list of names an absolute path stands for
  after cleaning; \<open>clean\<close>, \<open>Rel\<close>, \<open>Dir\<close> and \<open>Base\<close> are characterised on it. The watcher's
  matching, its containment test and the configured paths are proved over these lists.
\<close>

definition abs_elems :: "string \<Rightarrow> string list" where
  "abs_elems p = clean_elems True [] (split_char slash p)"

definition good_elem :: "string \<Rightarrow> bool" where
  "good_elem e \<longleftrightarrow> e \<noteq> [] \<and> e \<noteq> ''.'' \<and> e \<noteq> ''..'' \<and> slash \<notin> set e"

abbreviation slashed :: "string list \<Rightarrow> string" where
  "slashed es \<equiv> join_strings ''/'' es"

lemma clean_elems_good:
  assumes "\<forall>e \<in> set acc. good_elem e" and "\<forall>e \<in> set es. slash \<notin> set e"
  shows "\<forall>e \<in> set (clean_elems True acc es). good_elem e"
  using assms
proof (induction es arbitrary: acc)
  case (Cons e es)
  consider "e = [] \<or> e = ''.''" | "e = ''..''" | "good_elem e"
    using Cons.prems(2) by (auto simp: good_elem_def)
  then show ?case
  proof cases
    case 1
    with Cons show ?thesis by auto
  next
    case 2
    show ?thesis
    proof (cases acc)
      case Nil
      with 2 Cons.IH[of "[]"] Cons.prems show ?thesis by simp
    next
      case (Cons a acc')
      with Cons.prems(1) have "a \<noteq> ''..''" by (simp add: good_elem_def)
      with 2 Cons Cons.IH[of acc'] Cons.prems show ?thesis by simp
    qed
  next
    case 3
    then have "clean_elems True acc (e # es) = clean_elems True (e # acc) es" by (simp add: good_elem_def)
    moreover have "\<forall>x \<in> set (clean_elems True (e # acc) es). good_elem x"
      using 3 Cons.prems by (intro Cons.IH) auto
    ultimately show ?thesis by metis
  qed
qed simp

lemma abs_elems_good: "e \<in> set (abs_elems p) \<Longrightarrow> good_elem e"
  using clean_elems_good[of "[]" "split_char slash p"] split_char_no_sep
  unfolding abs_elems_def by fastforce

lemma clean_elems_id:
  "\<forall>e \<in> set es. good_elem e \<Longrightarrow> clean_elems rooted acc es = rev acc @ es"
  by (induction es arbitrary: acc) (simp_all add: good_elem_def)

lemma clean_elems_snoc_empty: "clean_elems rooted acc (es @ [[]]) = clean_elems rooted acc es"
  by (induction rooted acc es rule: clean_elems.induct) (auto split: list.splits)

lemma clean_abs: "is_abs p \<Longrightarrow> clean p = slash # slashed (abs_elems p)"
  by (simp add: clean_def abs_elems_def Let_def)

lemma clean_is_abs [simp]: "is_abs p \<Longrightarrow> is_abs (clean p)"
  by (simp add: clean_abs) (simp add: is_abs_def)

lemma split_slashed:
  assumes "es \<noteq> []" and "\<forall>e \<in> set es. good_elem e"
  shows "split_char slash (slashed es) = es"
  by (rule split_join_char) (use assms in \<open>auto simp: good_elem_def\<close>)

lemma abs_elems_slashed:
  assumes "\<forall>e \<in> set es. good_elem e"
  shows "abs_elems (slash # slashed es) = es"
proof (cases "es = []")
  case False
  with assms show ?thesis
    by (simp add: abs_elems_def split_slashed clean_elems_id)
qed (simp add: abs_elems_def)

lemma abs_elems_clean [simp]: "is_abs p \<Longrightarrow> abs_elems (clean p) = abs_elems p"
  by (simp add: clean_abs abs_elems_slashed abs_elems_good)

lemma clean_idem [simp]: "is_abs p \<Longrightarrow> clean (clean p) = clean p"
  by (metis abs_elems_clean clean_abs clean_is_abs)

lemma clean_eq_iff: "is_abs p \<Longrightarrow> is_abs q \<Longrightarrow> clean p = clean q \<longleftrightarrow> abs_elems p = abs_elems q"
  using abs_elems_clean clean_abs by metis

lemma path_elems_clean: "is_abs p \<Longrightarrow> path_elems (clean p) = abs_elems p"
proof -
  assume "is_abs p"
  have "filter (\<lambda>e. e \<noteq> []) es = es" if "\<forall>e \<in> set es. good_elem e" for es
    using that by (induction es) (simp_all add: good_elem_def)
  then have "filter (\<lambda>e. e \<noteq> []) (split_char slash (slashed (abs_elems p))) = abs_elems p"
    using split_slashed[of "abs_elems p"] abs_elems_good by (cases "abs_elems p = []") auto
  then show ?thesis by (simp add: path_elems_def clean_abs[OF \<open>is_abs p\<close>])
qed

section \<open>Relative paths\<close>

lemma drop_common_split:
  "drop_common bs ts = (xs, ys) \<Longrightarrow> \<exists>cs. bs = cs @ xs \<and> ts = cs @ ys"
  by (induction bs ts arbitrary: xs ys rule: drop_common.induct) (auto split: if_splits)

lemma drop_common_prefix: "drop_common bs (bs @ ts) = ([], ts)"
  by (induction bs) (cases ts, auto)

lemma drop_common_not_prefix: "\<not> prefix bs ts \<Longrightarrow> fst (drop_common bs ts) \<noteq> []"
  using drop_common_split[of bs ts] by (cases "drop_common bs ts") (auto simp: prefix_def)

text \<open>\<open>Rel\<close> on absolute paths: inside the base it is the names below it.\<close>

lemma rel_path_below:
  assumes "is_abs b" and "is_abs t" and "abs_elems t = abs_elems b @ ts"
  shows "rel_path b t = Some (if ts = [] then ''.'' else slashed ts)"
proof (cases "ts = []")
  case True
  with assms have "clean t = clean b" by (simp add: clean_abs)
  with True show ?thesis by (simp add: rel_path_def)
next
  case False
  with assms have ne: "clean t \<noteq> clean b" by (simp add: clean_eq_iff)
  have "clean b \<noteq> ''.''" using clean_abs[OF assms(1)] by simp
  with ne assms show ?thesis
    by (simp add: rel_path_def Let_def path_elems_clean drop_common_prefix False)
qed

lemma rel_path_outside:
  assumes "is_abs b" and "is_abs t" and "\<not> prefix (abs_elems b) (abs_elems t)"
  shows "\<exists>n ts. rel_path b t = Some (slashed (''..'' # replicate n ''..'' @ ts))"
proof -
  obtain xs ys where d: "drop_common (abs_elems b) (abs_elems t) = (xs, ys)" by fastforce
  with drop_common_not_prefix[OF assms(3)] have "xs \<noteq> []" by simp
  moreover have "set xs \<subseteq> set (abs_elems b)" using drop_common_split[OF d] by auto
  ultimately have "hd xs \<noteq> ''..''" using abs_elems_good[of "hd xs" b] by (cases xs) (auto simp: good_elem_def)
  moreover have "clean t \<noteq> clean b" using assms clean_eq_iff by auto
  moreover have "clean b \<noteq> ''.''" using clean_abs[OF assms(1)] by simp
  ultimately have "rel_path b t = Some (slashed (replicate (length xs) ''..'' @ ys))"
    using assms d by (simp add: rel_path_def Let_def path_elems_clean)
  with \<open>xs \<noteq> []\<close> show ?thesis
    by (intro exI[of _ "length xs - 1"] exI[of _ ys]) (cases xs, simp_all)
qed

section \<open>Names below a directory\<close>

lemma slashed_Cons: "es \<noteq> [] \<Longrightarrow> slashed (e # es) = e @ slash # slashed es"
  by (cases es) simp_all

lemma slashed_snoc: "es \<noteq> [] \<Longrightarrow> slashed (es @ [e]) = slashed es @ slash # e"
proof (induction es)
  case (Cons a es)
  then show ?case by (cases es) (simp_all add: slashed_Cons)
qed simp

lemma good_last: "ts \<noteq> [] \<Longrightarrow> \<forall>e \<in> set ts. good_elem e \<Longrightarrow> good_elem (last ts)"
  by simp

lemma takeWhile_no_slash: "slash \<notin> set e \<Longrightarrow> takeWhile (\<lambda>c. c \<noteq> slash) (rev e @ slash # s) = rev e"
  by (subst takeWhile_append2) auto

lemma after_slash_slashed:
  assumes "ts \<noteq> []" and "\<forall>e \<in> set ts. good_elem e"
  shows "after_slash (slashed ts) = last ts"
proof -
  have good: "slash \<notin> set (last ts)" using good_last[OF assms] by (simp add: good_elem_def)
  show ?thesis
  proof (cases "butlast ts = []")
    case True
    with assms(1) have ts: "ts = [last ts]" by (metis append_butlast_last_id append_Nil)
    have "takeWhile (\<lambda>c. c \<noteq> slash) (rev (last ts)) = rev (last ts)"
      using good by (intro takeWhile_eq_all_conv[THEN iffD2]) auto
    then have "after_slash (slashed [last ts]) = last ts" by (simp only: after_slash_def join_strings.simps rev_rev_ident)
    then show ?thesis using ts by metis
  next
    case False
    then have "slashed ts = slashed (butlast ts) @ slash # last ts"
      using slashed_snoc[OF False, of "last ts"] assms(1) by simp
    then show ?thesis by (simp add: after_slash_def takeWhile_no_slash[OF good])
  qed
qed

lemma base_path_slashed:
  assumes "ts \<noteq> []" and "\<forall>e \<in> set ts. good_elem e"
  shows "base_path (slashed ts) = last ts"
proof -
  have l: "last ts \<noteq> []" "slash \<notin> set (last ts)" using good_last[OF assms] by (simp_all add: good_elem_def)
  have "\<exists>s. slashed ts = s @ last ts"
  proof (cases "butlast ts = []")
    case True
    with assms(1) have "ts = [last ts]" by (metis append_butlast_last_id append_Nil)
    then have "slashed ts = last ts" by (metis join_strings.simps(2))
    then show ?thesis by simp
  next
    case False
    with slashed_snoc[OF False, of "last ts"] assms(1) show ?thesis by simp
  qed
  then obtain s where s: "slashed ts = s @ last ts" by blast
  have "rev (last ts) \<noteq> []" using l by simp
  moreover have "hd (rev (last ts)) \<noteq> slash" using l by (metis hd_in_set rev_is_Nil_conv set_rev)
  ultimately have "dropWhile (\<lambda>c. c = slash) (rev (slashed ts)) = rev (slashed ts)"
    by (cases "rev (last ts)") (simp_all add: s)
  then show ?thesis
    using l s after_slash_slashed[OF assms] by (simp add: base_path_def Let_def)
qed

lemma dir_path_slashed:
  assumes "ts \<noteq> []" and good: "\<forall>e \<in> set ts. good_elem e"
  shows "dir_path (slashed ts) = ''.'' \<longleftrightarrow> length ts = 1"
proof (cases "butlast ts = []")
  case True
  with assms(1) have ts: "ts = [last ts]" by (metis append_butlast_last_id append_Nil)
  have "slash \<notin> set (last ts)" using good_last[OF assms] by (simp add: good_elem_def)
  then have "dropWhile (\<lambda>c. c \<noteq> slash) (rev (last ts)) = []" by (auto simp: dropWhile_eq_Nil_conv)
  then have "upto_slash (slashed [last ts]) = []" by (simp only: upto_slash_def join_strings.simps rev.simps)
  then have "dir_path (slashed ts) = clean []" using ts by (metis dir_path_def)
  then show ?thesis by (subst (2) ts) (simp add: clean_def is_abs_def)
next
  case False
  let ?bs = "butlast ts"
  have bs: "\<forall>e \<in> set ?bs. good_elem e" using good by (meson in_set_butlastD)
  have "slash \<notin> set (last ts)" using good_last[OF assms] by (simp add: good_elem_def)
  then have "dropWhile (\<lambda>c. c \<noteq> slash) (rev (last ts) @ slash # rev (slashed ?bs)) = slash # rev (slashed ?bs)"
    by (subst dropWhile_append2) auto
  moreover have "slashed ts = slashed ?bs @ slash # last ts"
    using slashed_snoc[OF False, of "last ts"] assms(1) by simp
  ultimately have up: "upto_slash (slashed ts) = slashed (?bs @ [[]])"
    by (simp add: upto_slash_def slashed_snoc[OF False])
  have "split_char slash (slashed (?bs @ [[]])) = ?bs @ [[]]"
    by (rule split_join_char) (use bs in \<open>auto simp: good_elem_def\<close>)
  then have "clean_elems False [] (split_char slash (slashed (?bs @ [[]]))) = ?bs"
    using bs by (simp add: clean_elems_snoc_empty clean_elems_id)
  moreover have "\<not> is_abs (slashed (?bs @ [[]]))"
  proof -
    obtain a as where a: "?bs = a # as" using False by (cases ?bs) auto
    then have "a \<noteq> []" "slash \<notin> set a" using bs by (auto simp: good_elem_def)
    then obtain c u where "a = c # u" "c \<noteq> slash" by (cases a) auto
    then show ?thesis by (simp add: a slashed_Cons is_abs_def)
  qed
  ultimately have "dir_path (slashed ts) = slashed ?bs"
    using False by (simp add: dir_path_def up clean_def)
  moreover have "slashed ?bs \<noteq> ''.''"
  proof
    assume "slashed ?bs = ''.''"
    then have "split_char slash (slashed ?bs) = [''.'']" by simp
    then show False using split_slashed[OF False bs] bs by (auto simp: good_elem_def)
  qed
  moreover have "length ts \<noteq> 1" using False by (cases ts) auto
  ultimately show ?thesis by simp
qed

end
