(* ===== verification/WatchMatch.thy ===== *)
theory WatchMatch
  imports GoPathFacts ConfigModel
begin

text \<open>
  Which files a watch selects (\<open>internal/watcher/match.go\<close> and \<open>within\<close> of \<open>watcher.go\<close>): the glob
  matcher as written, with its loop over the suffixes of a path for a \<open>**\<close> segment, and its
  equivalence with a declarative meaning of the patterns.
\<close>

section \<open>The code\<close>

text \<open>The two loops at a \<open>**\<close>: over the repeated \<open>**\<close>, and over the suffixes of the name.\<close>

fun skip_stars :: "string list \<Rightarrow> string list" where
  "skip_stars (a # b # ps) = (if b = ''**'' then skip_stars (b # ps) else a # b # ps)"
| "skip_stars ps = ps"

fun any_suffix :: "('a list \<Rightarrow> bool) \<Rightarrow> 'a list \<Rightarrow> bool" where
  "any_suffix f [] \<longleftrightarrow> f []"
| "any_suffix f (x # xs) \<longleftrightarrow> f (x # xs) \<or> any_suffix f xs"

lemma any_suffix_iff: "any_suffix f xs \<longleftrightarrow> (\<exists>as bs. xs = as @ bs \<and> f bs)"
  by (induction xs) (auto simp: Cons_eq_append_conv)

lemma any_suffix_cong [fundef_cong]:
  "xs = ys \<Longrightarrow> (\<And>as bs. ys = as @ bs \<Longrightarrow> f bs = g bs) \<Longrightarrow> any_suffix f xs = any_suffix g ys"
  by (auto simp: any_suffix_iff)

lemma skip_stars_length: "length (skip_stars ps) \<le> length ps"
  by (induction ps rule: skip_stars.induct) auto

function match_segments :: "string list \<Rightarrow> string list \<Rightarrow> bool" where
  "match_segments [] name \<longleftrightarrow> name = []"
| "match_segments (p # ps) name \<longleftrightarrow>
    (if p = ''**'' then
       (let rest = tl (skip_stars (p # ps)) in
        rest = [] \<or> any_suffix (match_segments rest) name)
     else (case name of
             [] \<Rightarrow> False
           | n # ns \<Rightarrow> path_match p n = Some True \<and> match_segments ps ns))"
  by pat_completeness auto
termination
proof (relation "measure (\<lambda>(p, n). length p)", goal_cases)
  case (2 p ps name rest as bs)
  then show ?case using skip_stars_length[of "p # ps"] by (cases "skip_stars (p # ps)") auto
qed auto

declare match_segments.simps(2) [simp del]

definition glob_match :: "string \<Rightarrow> string \<Rightarrow> bool" where
  "glob_match pattern relative \<longleftrightarrow>
    (let p = trim_prefix ''./'' pattern in
     if slash \<notin> set p then path_match p (base_path relative) = Some True
     else match_segments (split_char slash p) (split_char slash relative))"

text \<open>\<open>Match\<close>; \<open>cwd\<close> is what \<open>filepath.Abs\<close> resolves a relative path against.\<close>

definition watch_match :: "string \<Rightarrow> watch_config \<Rightarrow> string \<Rightarrow> bool" where
  "watch_match cwd watch filename \<longleftrightarrow>
    (case rel_path (abs_path cwd (w_path watch)) (abs_path cwd filename) of
       None \<Rightarrow> False
     | Some relative \<Rightarrow>
         if relative = ''.'' \<or> relative = ''..'' \<or> prefix ''../'' relative then False
         else if \<not> w_recursive watch \<and> dir_path relative \<noteq> ''.'' then False
         else if list_ex (\<lambda>p. glob_match p relative) (w_exclude watch) then False
         else w_include watch = [] \<or> list_ex (\<lambda>p. glob_match p relative) (w_include watch))"

definition within :: "string \<Rightarrow> string \<Rightarrow> bool" where
  "within root filename \<longleftrightarrow>
    (case rel_path root filename of
       None \<Rightarrow> False
     | Some relative \<Rightarrow> relative \<noteq> ''..'' \<and> \<not> prefix ''../'' relative)"

section \<open>The meaning of patterns\<close>

inductive glob_denotes :: "string list \<Rightarrow> string list \<Rightarrow> bool" where
  both_empty: "glob_denotes [] []"
| no_dir: "glob_denotes ps ns \<Longrightarrow> glob_denotes (''**'' # ps) ns"
| one_dir: "glob_denotes (''**'' # ps) ns \<Longrightarrow> glob_denotes (''**'' # ps) (n # ns)"
| segment: "p \<noteq> ''**'' \<Longrightarrow> path_match p n = Some True \<Longrightarrow> glob_denotes ps ns \<Longrightarrow> glob_denotes (p # ps) (n # ns)"

inductive_simps denotes_Nil [simp]: "glob_denotes [] ns"
inductive_cases denotes_ConsE: "glob_denotes (p # ps) ns"

lemma denotes_star: "glob_denotes (''**'' # ps) ns \<longleftrightarrow> (\<exists>as bs. ns = as @ bs \<and> glob_denotes ps bs)"
proof
  show "\<exists>as bs. ns = as @ bs \<and> glob_denotes ps bs" if "glob_denotes (''**'' # ps) ns"
    using that
  proof (induction "''**'' # ps" ns rule: glob_denotes.induct)
    case (no_dir ns)
    then show ?case by (metis append_Nil)
  next
    case (one_dir ns n)
    then obtain as bs where "ns = as @ bs" "glob_denotes ps bs" by blast
    then show ?case by (metis append_Cons)
  qed auto
next
  assume "\<exists>as bs. ns = as @ bs \<and> glob_denotes ps bs"
  then obtain as bs where ns: "ns = as @ bs" and bs: "glob_denotes ps bs" by blast
  have "glob_denotes (''**'' # ps) (as @ bs)"
    by (induction as) (auto intro: glob_denotes.intros bs)
  then show "glob_denotes (''**'' # ps) ns" by (simp add: ns)
qed

lemma denotes_name:
  "p \<noteq> ''**'' \<Longrightarrow> glob_denotes (p # ps) ns \<longleftrightarrow>
    (\<exists>n ns'. ns = n # ns' \<and> path_match p n = Some True \<and> glob_denotes ps ns')"
  by (auto elim!: denotes_ConsE intro: glob_denotes.segment)

lemma denotes_star_star: "glob_denotes (''**'' # ''**'' # ps) ns \<longleftrightarrow> glob_denotes (''**'' # ps) ns"
  by (subst denotes_star) (auto simp: denotes_star, (metis append.assoc append_Nil)+)

lemma denotes_skip: "glob_denotes (skip_stars (''**'' # ps)) ns \<longleftrightarrow> glob_denotes (''**'' # ps) ns"
  by (induction ps) (auto simp: denotes_star_star)

lemma skip_stars_hd: "skip_stars (''**'' # ps) = ''**'' # tl (skip_stars (''**'' # ps))"
  by (induction ps) auto

lemma denotes_all: "glob_denotes [''**''] ns"
  by (auto simp: denotes_star)

lemma match_segments_denotes: "match_segments ps ns \<longleftrightarrow> glob_denotes ps ns"
proof (induction ps ns rule: match_segments.induct)
  case (2 p ps name)
  show ?case
  proof (cases "p = ''**''")
    case True
    let ?rest = "tl (skip_stars (p # ps))"
    have "glob_denotes (p # ps) name \<longleftrightarrow> glob_denotes (''**'' # ?rest) name"
      using denotes_skip[of ps name] skip_stars_hd[of ps] by (simp add: True)
    also have "\<dots> \<longleftrightarrow> any_suffix (match_segments ?rest) name"
      using 2(1)[OF True refl] by (auto simp: denotes_star any_suffix_iff)
    also have "\<dots> \<longleftrightarrow> ?rest = [] \<or> any_suffix (match_segments ?rest) name"
      by (auto simp: any_suffix_iff intro: exI[of _ name])
    finally show ?thesis using True by (simp add: match_segments.simps(2) Let_def)
  next
    case False
    then show ?thesis
      using 2(2)[OF False] by (cases name) (auto simp: match_segments.simps(2) denotes_name)
  qed
qed auto

section \<open>Selection and containment\<close>

lemma slashed_not_dots:
  assumes "ts \<noteq> []" and "\<forall>e \<in> set ts. good_elem e"
  shows "slashed ts \<noteq> ''.''" and "slashed ts \<noteq> ''..''" and "\<not> prefix ''../'' (slashed ts)"
proof -
  have split: "split_char slash (slashed ts) = ts" by (rule split_slashed[OF assms])
  have ts: "hd ts \<noteq> ''.''" "hd ts \<noteq> ''..''" using assms by (cases ts; auto simp: good_elem_def)+
  show "slashed ts \<noteq> ''.''" "slashed ts \<noteq> ''..''" using split ts by auto
  show "\<not> prefix ''../'' (slashed ts)"
  proof
    assume "prefix ''../'' (slashed ts)"
    then obtain u where "slashed ts = ''../'' @ u" by (auto elim: prefixE)
    then have "split_char slash (slashed ts) = ''..'' # split_char slash u"
      using split_char_append[of slash "''..''" u] by simp
    with split ts show False by (metis list.sel(1))
  qed
qed

lemma below_good:
  assumes "abs_elems f = abs_elems r @ ts"
  shows "\<forall>e \<in> set ts. good_elem e"
  using abs_elems_good[of _ f] assms by auto

lemma rel_outside_dots:
  assumes "rel_path b t = Some (slashed (''..'' # xs))"
  shows "slashed (''..'' # xs) = ''..'' \<or> prefix ''../'' (slashed (''..'' # xs))"
  by (cases xs) auto

lemma within_iff:
  assumes "is_abs root" and "is_abs f"
  shows "within root f \<longleftrightarrow> prefix (abs_elems root) (abs_elems f)"
proof (cases "prefix (abs_elems root) (abs_elems f)")
  case True
  then obtain ts where ts: "abs_elems f = abs_elems root @ ts" by (auto elim: prefixE)
  show ?thesis
    using rel_path_below[OF assms ts] slashed_not_dots[OF _ below_good[OF ts]] True
    by (cases "ts = []") (auto simp: within_def)
next
  case False
  from rel_path_outside[OF assms this] obtain xs where "rel_path root f = Some (slashed (''..'' # xs))" by blast
  with rel_outside_dots[OF this] False show ?thesis by (auto simp: within_def)
qed

text \<open>What a pattern selects below the root, on the names of the path.\<close>

definition pattern_selects :: "string \<Rightarrow> string list \<Rightarrow> bool" where
  "pattern_selects pattern ts \<longleftrightarrow>
    (let p = trim_prefix ''./'' pattern in
     if slash \<notin> set p then path_match p (last ts) = Some True
     else glob_denotes (split_char slash p) ts)"

lemma glob_match_selects:
  assumes "ts \<noteq> []" and "\<forall>e \<in> set ts. good_elem e"
  shows "glob_match p (slashed ts) = pattern_selects p ts"
  using base_path_slashed[OF assms] split_slashed[OF assms]
  by (simp add: glob_match_def pattern_selects_def Let_def match_segments_denotes)

lemma abs_path_abs [simp]: "is_abs p \<Longrightarrow> abs_path cwd p = clean p"
  by (simp add: abs_path_def)

text \<open>C30: The matcher computes the meaning of the patterns: a watch with an absolute root selects
  exactly the files strictly below the root (directly below it when the watch is not recursive)
  whose path below the root no exclude pattern denotes, and some include pattern denotes when there
  are any; a pattern without a slash is about the last name, and a \<open>**\<close> segment stands for any
  number of directories.\<close>

theorem watch_match_spec:
  assumes "is_abs (w_path watch)" and "is_abs filename"
  shows "watch_match cwd watch filename \<longleftrightarrow>
    (\<exists>ts. abs_elems filename = abs_elems (w_path watch) @ ts \<and> ts \<noteq> [] \<and>
      (w_recursive watch \<or> length ts = 1) \<and>
      (\<forall>p \<in> set (w_exclude watch). \<not> pattern_selects p ts) \<and>
      (w_include watch = [] \<or> (\<exists>p \<in> set (w_include watch). pattern_selects p ts)))"
proof (cases "prefix (abs_elems (w_path watch)) (abs_elems filename)")
  case True
  then obtain ts where ts: "abs_elems filename = abs_elems (w_path watch) @ ts" by (auto elim: prefixE)
  have "abs_elems (clean filename) = abs_elems (clean (w_path watch)) @ ts" using assms ts by simp
  from rel_path_below[OF _ _ this] have rel:
    "rel_path (clean (w_path watch)) (clean filename) = Some (if ts = [] then ''.'' else slashed ts)"
    using assms by simp
  show ?thesis
  proof (cases "ts = []")
    case True
    with rel ts assms show ?thesis by (simp add: watch_match_def)
  next
    case False
    note good = below_good[OF ts]
    have "list_ex (\<lambda>p. glob_match p (slashed ts)) ps \<longleftrightarrow> (\<exists>p \<in> set ps. pattern_selects p ts)" for ps
      using glob_match_selects[OF False good] by (simp add: list_ex_iff)
    with False rel ts assms slashed_not_dots[OF False good] dir_path_slashed[OF False good]
    show ?thesis by (auto simp: watch_match_def)
  qed
next
  case False
  then have "\<not> prefix (abs_elems (clean (w_path watch))) (abs_elems (clean filename))" using assms by simp
  from rel_path_outside[OF _ _ this] assms obtain xs where
    rel: "rel_path (clean (w_path watch)) (clean filename) = Some (slashed (''..'' # xs))" by auto
  with rel_outside_dots[OF rel] False assms show ?thesis by (auto simp: watch_match_def)
qed

definition demo_watch :: watch_config where
  "demo_watch = \<lparr>w_name = ''w'', w_path = ''/in'', w_recursive = True, w_process_existing = False,
     w_reprocess_on_change = False, w_include = [''a/**/*.csv''], w_exclude = [''~*''], w_settle_for = 0,
     w_settle_set = True, w_pipeline = []\<rparr>"

lemma demo_watch_match: "watch_match ''/'' demo_watch ''/in/./a/b/../c/x.csv''"
  by code_simp

theorem watch_match_spec_witness:
  "\<exists>ts. abs_elems ''/in/./a/b/../c/x.csv'' = abs_elems ''/in'' @ ts \<and> ts \<noteq> [] \<and> \<not> pattern_selects ''~*'' ts"
  using watch_match_spec[of demo_watch "''/in/./a/b/../c/x.csv''" "''/''"] demo_watch_match
  by (auto simp: is_abs_def demo_watch_def)

text \<open>Containment is containment of names: for absolute paths \<open>within\<close> holds exactly when the
  cleaned names of the root are a prefix of those of the file, so a sibling whose name merely
  starts like the root is outside and the root itself is inside.\<close>

theorem within_spec:
  "is_abs root \<Longrightarrow> is_abs filename \<Longrightarrow> within root filename \<longleftrightarrow> prefix (abs_elems root) (abs_elems filename)"
  by (rule within_iff)

theorem within_spec_witness: "\<not> within ''/in'' ''/input/a'' \<and> within ''/in'' ''/in/a''"
proof -
  have "is_abs ''/in''" "is_abs ''/input/a''" "is_abs ''/in/a''" by (simp_all add: is_abs_def)
  moreover have "abs_elems ''/in'' = [''in'']" "abs_elems ''/input/a'' = [''input'', ''a'']"
    "abs_elems ''/in/a'' = [''in'', ''a'']" by code_simp+
  ultimately show ?thesis
    using within_spec[of "''/in''" "''/input/a''"] within_spec[of "''/in''" "''/in/a''"] by simp
qed

section \<open>Validated patterns\<close>

text \<open>A glob that the configuration accepts and that has no backslash can never fail to match for
  a syntax error: on every name, each of its segments is \<open>**\<close> or a well-formed pattern, and so is
  the whole pattern when it has no slash.\<close>

theorem validated_glob_matches:
  assumes "validate_glob p = None" and "CHR 0x5C \<notin> set p" and "s \<in> set (split_char slash (trim_prefix ''./'' p))"
  shows "s = ''**'' \<or> (\<forall>n. path_match s n \<noteq> None)"
  using validate_glob_segments[OF assms(1), of s] assms(3) glob_no_backslash[OF assms(2)]
  by (simp add: glob_segments_def)

theorem validated_glob_matches_witness: "\<forall>n. path_match ''*.c?'' n \<noteq> None"
proof -
  have ok: "validate_glob ''src/*.c?'' = None" by code_simp
  have plain: "CHR 0x5C \<notin> set ''src/*.c?''" by simp
  have "split_char slash (trim_prefix ''./'' ''src/*.c?'') = [''src'', ''*.c?'']" by code_simp
  then have member: "''*.c?'' \<in> set (split_char slash (trim_prefix ''./'' ''src/*.c?''))" by simp
  have no_star: "''*.c?'' \<noteq> ''**''" by simp
  show ?thesis by (rule disjE[OF validated_glob_matches[OF ok plain member]]) (erule notE[OF no_star], assumption)
qed

definition ends_in_backslash :: string where
  "ends_in_backslash = ''foo'' @ [CHR 0x5C]"

lemma trailing_backslash_chunk:
  "match_chunk f ends_in_backslash n = None"
proof -
  have "match_chunk False ends_in_backslash [] = None" by code_simp
  then show ?thesis using match_chunk_syntax by blast
qed

text \<open>With a backslash the validation and the matcher disagree: validation reads a backslash as a
  slash, the matcher on Unix as an escape. A pattern that ends in a backslash is accepted and then is
  a syntax error on every name, so the watch it includes files for selects none.\<close>

theorem backslash_glob_accepted:
  "validate_glob ends_in_backslash = None \<and> path_match ends_in_backslash n = None \<and>
   \<not> watch_match cwd (demo_watch\<lparr>w_include := [ends_in_backslash]\<rparr>) filename"
proof -
  have v: "validate_glob ends_in_backslash = None" by code_simp
  have "scan_chunk ends_in_backslash = (False, ends_in_backslash, [])" by code_simp
  then have bad: "path_match ends_in_backslash m = None" for m
    using trailing_backslash_chunk path_match.simps(2)[of "CHR ''f''" "''oo'' @ [CHR 0x5C]" m]
    by (simp add: ends_in_backslash_def)
  have "trim_prefix ''./'' ends_in_backslash = ends_in_backslash" by code_simp
  moreover have "slash \<notin> set ends_in_backslash" by (simp add: ends_in_backslash_def)
  ultimately have "\<not> glob_match ends_in_backslash relative" for relative
    using bad by (simp add: glob_match_def)
  then show ?thesis using v bad by (auto simp: watch_match_def split: option.splits)
qed

end
