(* ===== verification/GoDigits.thy ===== *)
theory GoDigits
  imports Prelude
begin

text \<open>Decimal numbers: \<open>strconv.Itoa\<close> prints different numbers differently, in digits only.\<close>

definition digits_value :: "string \<Rightarrow> nat" where
  "digits_value = foldl (\<lambda>a c. a * 10 + (of_char c - 48)) 0"

lemma digits_value_snoc: "digits_value (ds @ [c]) = digits_value ds * 10 + (of_char c - 48)"
  by (simp add: digits_value_def)

lemma digit_char_code: "d < 10 \<Longrightarrow> of_char (digit_char d) = (48 + d :: nat)"
  by (simp add: digit_char_def)

lemma digits_value_nat_digits: "digits_value (nat_digits n) = n"
proof (induction n rule: nat_digits.induct)
  case (1 n)
  show ?case
  proof (cases "n < 10")
    case True
    then show ?thesis by (simp add: nat_digits.simps[of n] digits_value_def digit_char_code)
  next
    case False
    with 1 show ?thesis
      by (subst nat_digits.simps) (simp add: digits_value_snoc digit_char_code)
  qed
qed

lemma nat_digits_chars: "c \<in> set (nat_digits n) \<Longrightarrow> (48 :: nat) \<le> of_char c \<and> of_char c < (58 :: nat)"
proof (induction n rule: nat_digits.induct)
  case (1 n)
  then show ?case
    by (subst (asm) (2) nat_digits.simps) (auto simp: digit_char_code split: if_splits)
qed

lemma format_int_no_nul: "CHR 0x00 \<notin> set (format_int n)"
  using nat_digits_chars[of "CHR 0x00"] by (auto simp: format_int_def)

lemma nat_digits_inj: "nat_digits m = nat_digits n \<Longrightarrow> m = n"
  by (metis digits_value_nat_digits)

lemma nat_digits_no_minus: "nat_digits n \<noteq> CHR ''-'' # s"
proof
  assume "nat_digits n = CHR ''-'' # s"
  then have "CHR ''-'' \<in> set (nat_digits n)" by simp
  from nat_digits_chars[OF this] show False by simp
qed

lemma format_int_inj: "format_int m = format_int n \<Longrightarrow> m = n"
proof (cases "m < 0"; cases "n < 0")
  assume eq: "format_int m = format_int n"
  show "m = n" if "m < 0" "n < 0"
  proof -
    from eq that have "nat_digits (nat (- m)) = nat_digits (nat (- n))" by (simp add: format_int_def)
    from nat_digits_inj[OF this] that show ?thesis by simp
  qed
  show "m = n" if "\<not> m < 0" "\<not> n < 0"
  proof -
    from eq that have "nat_digits (nat m) = nat_digits (nat n)" by (simp add: format_int_def)
    from nat_digits_inj[OF this] that show ?thesis by simp
  qed
  show "m = n" if "m < 0" "\<not> n < 0"
  proof -
    from eq[symmetric] that have "nat_digits (nat n) = CHR ''-'' # nat_digits (nat (- m))"
      by (simp add: format_int_def)
    then show ?thesis using nat_digits_no_minus by blast
  qed
  show "m = n" if "\<not> m < 0" "n < 0"
    using eq that nat_digits_no_minus[of "nat m"] by (simp add: format_int_def)
qed

end
