(* ===== verification/WatchStable.thy ===== *)
theory WatchStable
  imports GoDigits GoPath
begin

text \<open>
  \<open>WaitStable\<close> of \<open>internal/watcher/stable.go\<close>: the loop that polls a file until its size and
  modification time have not changed for the settle time, and the fingerprint of the snapshot it
  returns. The file system and the clock are what the polls observe; the SHA-256 of the snapshot is
  the argument \<open>digest\<close>.
\<close>

record file_info =
  fi_symlink :: bool
  fi_regular :: bool
  fi_size :: int
  fi_mod_time :: time

record watched_file =
  wf_path :: string
  wf_size :: int
  wf_mod_time :: time
  wf_fingerprint :: string

definition err_symlink :: go_error where
  "err_symlink = Sentinel ''symbolic links are not watched''"

type_synonym signature = "int \<times> int"

definition signature_of :: "file_info \<Rightarrow> signature" where
  "signature_of info = (fi_size info, unix_nano (fi_mod_time info))"

definition regular_file_info :: "string \<Rightarrow> file_info result \<Rightarrow> file_info result" where
  "regular_file_info filename lstat =
    (case lstat of
       Inl e \<Rightarrow> Inl e
     | Inr info \<Rightarrow>
         if fi_symlink info then Inl (Wrapped [T filename, T '': ''] err_symlink [])
         else if \<not> fi_regular info then Inl (ErrorString [T filename, T '' is not a regular file''])
         else Inr info)"

definition fingerprint_text :: "string \<Rightarrow> file_info \<Rightarrow> string" where
  "fingerprint_text filename info =
    filename @ [CHR 0x00] @ format_int (fi_size info) @ [CHR 0x00] @ format_int (unix_nano (fi_mod_time info))"

definition snapshot :: "(string \<Rightarrow> string) \<Rightarrow> string \<Rightarrow> file_info \<Rightarrow> watched_file" where
  "snapshot digest filename info =
    \<lparr>wf_path = filename, wf_size = fi_size info, wf_mod_time = fi_mod_time info,
     wf_fingerprint = digest (fingerprint_text filename info)\<rparr>"

definition poll_interval :: "duration \<Rightarrow> duration" where
  "poll_interval settle_for =
    (let p = settle_for div 5; q = (if p < millisecond then millisecond else p) in
     if q > 250 * millisecond then 250 * millisecond else q)"

definition wait_for :: "duration \<Rightarrow> duration \<Rightarrow> duration" where
  "wait_for settle_for remaining =
    (if remaining < poll_interval settle_for then remaining else poll_interval settle_for)"

text \<open>One turn of the loop: the clock at its head, whether the context ends before the timer, the
  result of \<open>Lstat\<close> after it, and the clock when a change is noted.\<close>

record poll =
  p_now :: time
  p_canceled :: "go_error option"
  p_lstat :: "file_info result"
  p_changed_at :: time

text \<open>The loop; \<open>None\<close> when the polls run out before it returns.\<close>

fun wait_loop ::
  "(string \<Rightarrow> string) \<Rightarrow> string \<Rightarrow> duration \<Rightarrow> time \<Rightarrow> signature \<Rightarrow> file_info \<Rightarrow> poll list \<Rightarrow>
   watched_file result option" where
  "wait_loop digest filename settle_for stable_since recent info [] = None"
| "wait_loop digest filename settle_for stable_since recent info (p # ps) =
    (if settle_for - (p_now p - stable_since) \<le> 0 then Some (Inr (snapshot digest filename info))
     else
       (case p_canceled p of
          Some e \<Rightarrow> Some (Inl e)
        | None \<Rightarrow>
            (case regular_file_info filename (p_lstat p) of
               Inl e \<Rightarrow> Some (Inl e)
             | Inr current \<Rightarrow>
                 if signature_of current \<noteq> recent
                 then wait_loop digest filename settle_for (p_changed_at p) (signature_of current) current ps
                 else wait_loop digest filename settle_for stable_since recent current ps)))"

definition wait_stable ::
  "(string \<Rightarrow> string) \<Rightarrow> string \<Rightarrow> go_error option \<Rightarrow> string \<Rightarrow> duration \<Rightarrow> file_info result \<Rightarrow> time \<Rightarrow> poll list \<Rightarrow>
   watched_file result option" where
  "wait_stable digest cwd ctx_err filename settle_for first_lstat now ps =
    (case ctx_err of
       Some e \<Rightarrow> Some (Inl e)
     | None \<Rightarrow>
         if settle_for < 0 then Some (Inl (new_error ''settle duration must not be negative''))
         else
           (let canonical = clean (abs_path cwd filename) in
            case regular_file_info canonical first_lstat of
              Inl e \<Rightarrow> Some (Inl e)
            | Inr info \<Rightarrow>
                if settle_for = 0 then Some (Inr (snapshot digest canonical info))
                else wait_loop digest canonical settle_for now (signature_of info) info ps))"

section \<open>The file was stable\<close>

text \<open>What the loop saw: the signature at each turn before the one that returned.\<close>

definition seen_signature :: "string \<Rightarrow> poll \<Rightarrow> signature option" where
  "seen_signature filename p =
    (case regular_file_info filename (p_lstat p) of Inl _ \<Rightarrow> None | Inr i \<Rightarrow> Some (signature_of i))"

text \<open>
  When the loop returns a file at the turn \<open>k\<close>, then since a moment \<open>settle_for\<close> before the clock of
  that turn every observation had the signature of the returned snapshot: the moment is either the
  start, or the time noted at a turn \<open>j\<close> when the signature last changed.
\<close>

lemma wait_loop_stable:
  assumes "wait_loop digest filename settle since recent info ps = Some (Inr f)"
    and "recent = signature_of info"
  shows "\<exists>k < length ps. \<exists>j \<le> k. \<exists>i.
    f = snapshot digest filename i \<and>
    settle \<le> p_now (ps ! k) - (if j = 0 then since else p_changed_at (ps ! (j - 1))) \<and>
    (\<forall>m < k. p_canceled (ps ! m) = None) \<and>
    (\<forall>m. j \<le> m + 1 \<and> m < k \<longrightarrow> seen_signature filename (ps ! m) = Some (signature_of i)) \<and>
    (j = 0 \<longrightarrow> signature_of i = recent)"
  using assms
proof (induction ps arbitrary: since recent info)
  case (Cons p ps)
  show ?case
  proof (cases "settle - (p_now p - since) \<le> 0")
    case True
    with Cons.prems have "f = snapshot digest filename info" by simp
    with True Cons.prems(2) show ?thesis by (intro exI[of _ 0] conjI exI[of _ info]) auto
  next
    case False
    with Cons.prems(1) have go: "p_canceled p = None" by (auto split: option.splits)
    from False go Cons.prems(1) obtain current where
      cur: "regular_file_info filename (p_lstat p) = Inr current" by (auto split: sum.splits)
    have seen: "seen_signature filename p = Some (signature_of current)" by (simp add: seen_signature_def cur)
    define since' where "since' = (if signature_of current \<noteq> recent then p_changed_at p else since)"
    have "wait_loop digest filename settle since' (signature_of current) current ps = Some (Inr f)"
      using Cons.prems(1) False go cur by (auto simp: since'_def split: if_splits)
    from Cons.IH[OF this refl] obtain k j i where k: "k < length ps" "j \<le> k" "f = snapshot digest filename i"
      "settle \<le> p_now (ps ! k) - (if j = 0 then since' else p_changed_at (ps ! (j - 1)))"
      "\<forall>m < k. p_canceled (ps ! m) = None"
      "\<forall>m. j \<le> m + 1 \<and> m < k \<longrightarrow> seen_signature filename (ps ! m) = Some (signature_of i)"
      "j = 0 \<longrightarrow> signature_of i = signature_of current" by blast
    define j' where "j' = (if j = 0 then (if signature_of current \<noteq> recent then 1 else 0) else Suc j)"
    have j': "j' \<le> Suc k" using k(2) by (auto simp: j'_def)
    have "settle \<le> p_now ((p # ps) ! Suc k) - (if j' = 0 then since else p_changed_at ((p # ps) ! (j' - 1)))"
      using k(4) by (auto simp: j'_def since'_def nth_Cons' split: if_splits)
    moreover have "\<forall>m < Suc k. p_canceled ((p # ps) ! m) = None"
      using k(5) go by (auto simp: nth_Cons' less_Suc_eq_0_disj)
    moreover have "\<forall>m. j' \<le> m + 1 \<and> m < Suc k \<longrightarrow> seen_signature filename ((p # ps) ! m) = Some (signature_of i)"
    proof (intro allI impI, elim conjE)
      fix m
      assume m: "j' \<le> m + 1" "m < Suc k"
      show "seen_signature filename ((p # ps) ! m) = Some (signature_of i)"
      proof (cases m)
        case 0
        with m have "j = 0" by (auto simp: j'_def split: if_splits)
        with 0 seen k(7) show ?thesis by simp
      next
        case (Suc m')
        with m k(6) show ?thesis by (auto simp: j'_def split: if_splits)
      qed
    qed
    moreover have "j' = 0 \<longrightarrow> signature_of i = recent"
      using k(7) by (auto simp: j'_def split: if_splits)
    moreover have "Suc k < length (p # ps)" using k(1) by simp
    ultimately show ?thesis using j' k(3) by blast
  qed
qed simp

text \<open>C31: A file is handed on only when it was stable: when \<open>WaitStable\<close> returns a file at some turn,
  then for at least the settle time before the clock of that turn every observation of the file
  showed a regular file with the size and modification time of the returned snapshot, and the wait
  was not cancelled before.\<close>

theorem settled_file_was_stable:
  assumes "0 < settle" and "regular_file_info (clean (abs_path cwd filename)) first_lstat = Inr info0"
    and "wait_stable digest cwd None filename settle first_lstat now ps = Some (Inr f)"
  shows "\<exists>k < length ps. \<exists>j \<le> k. \<exists>i.
    f = snapshot digest (clean (abs_path cwd filename)) i \<and>
    settle \<le> p_now (ps ! k) - (if j = 0 then now else p_changed_at (ps ! (j - 1))) \<and>
    (\<forall>m < k. p_canceled (ps ! m) = None) \<and>
    (\<forall>m. j \<le> m + 1 \<and> m < k \<longrightarrow> seen_signature (clean (abs_path cwd filename)) (ps ! m) = Some (signature_of i)) \<and>
    (j = 0 \<longrightarrow> signature_of i = signature_of info0)"
proof -
  from assms have "wait_loop digest (clean (abs_path cwd filename)) settle now (signature_of info0) info0 ps = Some (Inr f)"
    by (simp add: wait_stable_def Let_def)
  from wait_loop_stable[OF this refl] show ?thesis .
qed

definition demo_info :: "int \<Rightarrow> file_info" where
  "demo_info n = \<lparr>fi_symlink = False, fi_regular = True, fi_size = n, fi_mod_time = 5\<rparr>"

definition demo_poll :: "time \<Rightarrow> int \<Rightarrow> poll" where
  "demo_poll t n = \<lparr>p_now = t, p_canceled = None, p_lstat = Inr (demo_info n), p_changed_at = t + 1\<rparr>"

definition demo_polls :: "poll list" where
  "demo_polls = [demo_poll 0 2, demo_poll 10 2, demo_poll 21 2]"

lemma demo_settles: "wait_stable id ''/'' None ''/in/a'' 20 (Inr (demo_info 1)) 0 demo_polls =
    Some (Inr (snapshot id ''/in/a'' (demo_info 2)))"
  by code_simp

theorem settled_file_was_stable_witness:
  "\<exists>k < 3. \<exists>j \<le> k. 20 \<le> p_now (demo_polls ! k) - (if j = 0 then 0 else p_changed_at (demo_polls ! (j - 1)))"
proof -
  have canonical: "clean (abs_path ''/'' ''/in/a'') = ''/in/a''" by code_simp
  have info: "regular_file_info (clean (abs_path ''/'' ''/in/a'')) (Inr (demo_info 1)) = Inr (demo_info 1)"
    by (simp add: regular_file_info_def demo_info_def)
  have len: "length demo_polls = 3" by (simp add: demo_polls_def)
  have "0 < (20 :: int)" by simp
  from settled_file_was_stable[OF this info demo_settles]
  have "\<exists>k < length demo_polls. \<exists>j \<le> k.
      20 \<le> p_now (demo_polls ! k) - (if j = 0 then 0 else p_changed_at (demo_polls ! (j - 1)))"
    by blast
  then show ?thesis by (simp only: len)
qed

section \<open>The loop ends\<close>

text \<open>A run of the loop on a quiet file: nothing cancels it, each timer runs its full time, and the
  file never changes.\<close>

definition quiet :: "string \<Rightarrow> signature \<Rightarrow> duration \<Rightarrow> poll list \<Rightarrow> bool" where
  "quiet filename g settle_for ps \<longleftrightarrow>
    (\<forall>p \<in> set ps. p_canceled p = None \<and> seen_signature filename p = Some g) \<and>
    (\<forall>k. Suc k < length ps \<longrightarrow> p_now (ps ! k) + poll_interval settle_for \<le> p_now (ps ! Suc k) \<or>
      settle_for \<le> p_now (ps ! Suc k) - p_now (ps ! 0))"

lemma seen_regular: "seen_signature filename p = Some g \<Longrightarrow>
    \<exists>i. regular_file_info filename (p_lstat p) = Inr i \<and> signature_of i = g"
  by (auto simp: seen_signature_def split: sum.splits)

lemma wait_loop_quiet:
  assumes "\<forall>p \<in> set ps. p_canceled p = None \<and> seen_signature filename p = Some g"
    and "\<exists>p \<in> set ps. settle_for \<le> p_now p - since" and "signature_of info = g"
  shows "\<exists>f. wait_loop digest filename settle_for since g info ps = Some (Inr f)"
  using assms
proof (induction ps arbitrary: info)
  case (Cons p ps)
  from Cons.prems(1) obtain i where i: "regular_file_info filename (p_lstat p) = Inr i" "signature_of i = g"
    using seen_regular[of filename p g] by auto
  show ?case
  proof (cases "settle_for - (p_now p - since) \<le> 0")
    case False
    with Cons.prems(2) have "\<exists>q \<in> set ps. settle_for \<le> p_now q - since" by auto
    with Cons.IH[of i] Cons.prems(1) i False show ?thesis by simp
  qed simp
qed simp

lemma poll_interval_pos: "0 < poll_interval settle_for"
  by (simp add: poll_interval_def Let_def)

lemma quiet_clock:
  assumes "quiet filename g settle_for ps" and "k < length ps"
  shows "p_now (ps ! 0) + int k * poll_interval settle_for \<le> p_now (ps ! k) \<or>
    (\<exists>m \<le> k. settle_for \<le> p_now (ps ! m) - p_now (ps ! 0))"
  using assms(2)
proof (induction k)
  case (Suc k)
  then have "p_now (ps ! k) + poll_interval settle_for \<le> p_now (ps ! Suc k) \<or>
      settle_for \<le> p_now (ps ! Suc k) - p_now (ps ! 0)"
    using assms(1) by (simp add: quiet_def)
  moreover have "p_now (ps ! 0) + int k * poll_interval settle_for \<le> p_now (ps ! k) \<or>
      (\<exists>m \<le> k. settle_for \<le> p_now (ps ! m) - p_now (ps ! 0))"
    using Suc by simp
  ultimately show ?case
  proof (elim disjE exE conjE)
    assume "p_now (ps ! k) + poll_interval settle_for \<le> p_now (ps ! Suc k)"
      and "p_now (ps ! 0) + int k * poll_interval settle_for \<le> p_now (ps ! k)"
    then show ?thesis by (simp add: algebra_simps)
  qed (use le_Suc_eq in blast)+
qed simp

text \<open>The wait ends: on a file that no longer changes, with a clock that each timer advances by at
  least the poll interval, \<open>WaitStable\<close> returns the file within \<open>settle_for / interval + 1\<close> turns.\<close>

theorem quiet_file_settles:
  assumes "0 < settle" and "regular_file_info (clean (abs_path cwd filename)) first_lstat = Inr info0"
    and "quiet (clean (abs_path cwd filename)) (signature_of info0) settle ps"
    and "ps \<noteq> []" and "now \<le> p_now (ps ! 0)"
    and "settle \<le> (int (length ps) - 1) * poll_interval settle"
  shows "\<exists>f. wait_stable digest cwd None filename settle first_lstat now ps = Some (Inr f)"
proof -
  let ?k = "length ps - 1"
  have k: "?k < length ps" "int ?k = int (length ps) - 1" using assms(4) by (cases ps; simp)+
  from quiet_clock[OF assms(3) k(1)] obtain m where m: "m \<le> ?k" "settle \<le> p_now (ps ! m) - p_now (ps ! 0)"
  proof
    assume "p_now (ps ! 0) + int ?k * poll_interval settle \<le> p_now (ps ! ?k)"
    with assms(6) k(2) that[of ?k] show ?thesis by simp
  qed (use that in blast)
  with k(1) assms(5) have "ps ! m \<in> set ps" "settle \<le> p_now (ps ! m) - now" by simp_all
  then have "\<exists>p \<in> set ps. settle \<le> p_now p - now" by blast
  with wait_loop_quiet[of ps "clean (abs_path cwd filename)" "signature_of info0" settle now info0 digest] assms(1-3)
  show ?thesis by (simp add: wait_stable_def Let_def quiet_def)
qed

theorem quiet_file_settles_witness:
  "\<exists>f. wait_stable id ''/'' None ''/in/a'' 1000000 (Inr (demo_info 1)) 0 [demo_poll 1 1, demo_poll 1000001 1] = Some (Inr f)"
proof (rule quiet_file_settles)
  have canonical: "clean (abs_path ''/'' ''/in/a'') = ''/in/a''" by code_simp
  show "regular_file_info (clean (abs_path ''/'' ''/in/a'')) (Inr (demo_info 1)) = Inr (demo_info 1)"
    by (simp add: regular_file_info_def demo_info_def)
  show "quiet (clean (abs_path ''/'' ''/in/a'')) (signature_of (demo_info 1)) 1000000 [demo_poll 1 1, demo_poll 1000001 1]"
    by (simp add: canonical quiet_def demo_poll_def seen_signature_def regular_file_info_def demo_info_def
        poll_interval_def Let_def nth_Cons')
qed (simp_all add: demo_poll_def poll_interval_def Let_def)

section \<open>Fingerprints\<close>

lemma nul_split:
  "CHR 0x00 \<notin> set a \<Longrightarrow> CHR 0x00 \<notin> set b \<Longrightarrow> a @ CHR 0x00 # s = b @ CHR 0x00 # t \<Longrightarrow> a = b \<and> s = t"
proof (induction a arbitrary: b)
  case Nil
  then show ?case by (cases b) auto
next
  case (Cons x a)
  then show ?case by (cases b) auto
qed

text \<open>The text a fingerprint is the digest of determines the snapshot: two snapshots of files
  (whose paths have no NUL byte, as on any Unix file system) have the same text only when path, size
  and modification time in nanoseconds agree, so apart from collisions of SHA-256 a changed file
  always has a new fingerprint.\<close>

theorem fingerprint_text_exact:
  assumes "CHR 0x00 \<notin> set f" and "CHR 0x00 \<notin> set g"
  shows "fingerprint_text f i = fingerprint_text g k \<longleftrightarrow> f = g \<and> signature_of i = signature_of k"
proof
  assume "fingerprint_text f i = fingerprint_text g k"
  then have "f @ CHR 0x00 # (format_int (fi_size i) @ CHR 0x00 # format_int (unix_nano (fi_mod_time i))) =
      g @ CHR 0x00 # (format_int (fi_size k) @ CHR 0x00 # format_int (unix_nano (fi_mod_time k)))"
    by (simp add: fingerprint_text_def)
  from nul_split[OF assms this] have "f = g"
    and "format_int (fi_size i) @ CHR 0x00 # format_int (unix_nano (fi_mod_time i)) =
      format_int (fi_size k) @ CHR 0x00 # format_int (unix_nano (fi_mod_time k))" by auto
  with nul_split[OF format_int_no_nul format_int_no_nul this(2)]
  show "f = g \<and> signature_of i = signature_of k"
    by (auto simp: signature_of_def dest: format_int_inj)
qed (auto simp: fingerprint_text_def signature_of_def)

theorem fingerprint_text_exact_witness: "fingerprint_text ''/in/a'' (demo_info 1) \<noteq> fingerprint_text ''/in/a'' (demo_info 2)"
  using fingerprint_text_exact[of "''/in/a''" "''/in/a''" "demo_info 1" "demo_info 2"]
  by (simp add: signature_of_def demo_info_def)

end
