(* ===== verification/WatchPending.thy ===== *)
theory WatchPending
  imports WatchMatch WatchStable "HOL-Library.Word"
begin

text \<open>
  The stabilisation work of a watcher (\<open>internal/watcher/watcher.go\<close>: \<open>schedule\<close>, \<open>settle\<close> and
  what they call) as a state machine. One \<open>settle\<close> goroutine runs per pending file; the sections
  of code between two lock operations are the steps, so every interleaving of the goroutines, of
  the event loop's \<open>schedule\<close> and of the handler is a sequence of steps. The map entry of a pending
  file is a pointer: entries carry the address their \<open>pendingFile\<close> was allocated at.
\<close>

section \<open>State\<close>

record pending_file =
  pf_watch_index :: nat
  pf_path :: string
  pf_version :: "64 word"

datatype settle_pc =
    AtTop
  | Settling "64 word"
  | Comparing "64 word" watched_file
  | Skipping "64 word"
  | Validating "64 word" watched_file
  | Handling "64 word" watched_file
  | Recording "64 word" watched_file

record settler =
  st_key :: string
  st_ptr :: nat
  st_pc :: settle_pc

text \<open>The observable history: notifications, the start of a stabilisation pass, calls of the handler,
  and the end of a goroutine's work on a file after a pass.\<close>

datatype watch_event =
    Notified string
  | PassStarted string
  | Delivered string string
  | Finished string

record watch_state =
  ws_pending :: "(string \<times> nat) list"
  ws_heap :: "nat \<Rightarrow> pending_file"
  ws_next :: nat
  ws_delivered :: "(string \<times> string) list"
  ws_settlers :: "settler list"
  ws_error :: "go_error option"
  ws_log :: "watch_event list"

definition max_pending_files :: nat where
  "max_pending_files = 1024"

definition max_delivered_files :: nat where
  "max_delivered_files = 4096"

definition err_pending_limit :: go_error where
  "err_pending_limit = Sentinel ''pending file limit reached''"

definition err_not_exist :: go_error where
  "err_not_exist = Sentinel ''file does not exist''"

definition initial_watch_state :: watch_state where
  "initial_watch_state =
    \<lparr>ws_pending = [], ws_heap = (\<lambda>_. \<lparr>pf_watch_index = 0, pf_path = [], pf_version = 0\<rparr>), ws_next = 0,
     ws_delivered = [], ws_settlers = [], ws_error = None, ws_log = []\<rparr>"

definition map_delete :: "'k \<Rightarrow> ('k \<times> 'v) list \<Rightarrow> ('k \<times> 'v) list" where
  "map_delete k m = filter (\<lambda>e. fst e \<noteq> k) m"

definition map_store :: "'k \<Rightarrow> 'v \<Rightarrow> ('k \<times> 'v) list \<Rightarrow> ('k \<times> 'v) list" where
  "map_store k v m = (k, v) # map_delete k m"

section \<open>Scheduling\<close>

definition pending_key :: "nat \<Rightarrow> string \<Rightarrow> string" where
  "pending_key watch_index filename = format_int (int watch_index) @ [CHR 0x00] @ filename"

definition schedule :: "go_error option \<Rightarrow> nat \<Rightarrow> string \<Rightarrow> watch_state \<Rightarrow> go_error option \<times> watch_state" where
  "schedule ctx_err watch_index name w =
    (case ctx_err of
       Some e \<Rightarrow> (Some e, w)
     | None \<Rightarrow>
         (let filename = clean name; key = pending_key watch_index filename in
          case map_of (ws_pending w) key of
            Some ptr \<Rightarrow>
              (None, w\<lparr>ws_heap := (ws_heap w)(ptr := (ws_heap w ptr)\<lparr>pf_version := pf_version (ws_heap w ptr) + 1\<rparr>),
                       ws_log := ws_log w @ [Notified key]\<rparr>)
          | None \<Rightarrow>
              if max_pending_files \<le> length (ws_pending w)
              then (Some (Wrapped [T ''schedule '', T filename, T '': ''] err_pending_limit
                      [T '' ('', D (int max_pending_files), T '' files)'']), w)
              else
                (None,
                 w\<lparr>ws_heap := (ws_heap w)(ws_next w := \<lparr>pf_watch_index = watch_index, pf_path = filename, pf_version = 1\<rparr>),
                   ws_pending := map_store key (ws_next w) (ws_pending w),
                   ws_settlers := ws_settlers w @ [\<lparr>st_key = key, st_ptr = ws_next w, st_pc = AtTop\<rparr>],
                   ws_next := ws_next w + 1,
                   ws_log := ws_log w @ [Notified key]\<rparr>)))"

section \<open>Settling\<close>

definition report_error :: "go_error \<Rightarrow> watch_state \<Rightarrow> watch_state" where
  "report_error e w = (if ws_error w = None then w\<lparr>ws_error := Some e\<rparr> else w)"

definition remove_pending :: "string \<Rightarrow> nat \<Rightarrow> watch_state \<Rightarrow> watch_state" where
  "remove_pending key ptr w =
    (if map_of (ws_pending w) key = Some ptr then w\<lparr>ws_pending := map_delete key (ws_pending w)\<rparr> else w)"

definition finish_pending_if_current :: "string \<Rightarrow> nat \<Rightarrow> 64 word \<Rightarrow> watch_state \<Rightarrow> bool \<times> watch_state" where
  "finish_pending_if_current key ptr version w =
    (if map_of (ws_pending w) key = Some ptr \<and> pf_version (ws_heap w ptr) = version
     then (True, w\<lparr>ws_pending := map_delete key (ws_pending w)\<rparr>) else (False, w))"

text \<open>The entry that a full cache gives up is the choice of Go's map iteration: \<open>evicted\<close>.\<close>

definition record_delivered :: "nat \<Rightarrow> string \<Rightarrow> string \<Rightarrow> watch_state \<Rightarrow> watch_state" where
  "record_delivered evicted key fingerprint w =
    (let d = ws_delivered w;
         d1 = (if map_of d key = None \<and> max_delivered_files \<le> length d
               then map_delete (fst (d ! (evicted mod length d))) d else d) in
     w\<lparr>ws_delivered := map_store key fingerprint d1\<rparr>)"

text \<open>Whether a failed stabilisation is silent.\<close>

definition quiet_error :: "go_error \<Rightarrow> bool" where
  "quiet_error e \<longleftrightarrow>
    errors_is ''context canceled'' e \<or> errors_is ''context deadline exceeded'' e \<or>
    errors_is ''file does not exist'' e \<or> errors_is ''symbolic links are not watched'' e"

text \<open>What the goroutine's surroundings answer at a step.\<close>

record settle_answer =
  an_stable :: "watched_file result"
  an_root :: "go_error option"
  an_handler :: "go_error option"
  an_evicted :: nat

text \<open>
  One step of a goroutine: where it continues (\<open>None\<close> when it returns) and the state. \<open>watch\<close> is
  the configuration of the pending file's watch.
\<close>

definition settle_step ::
  "watch_config \<Rightarrow> settle_answer \<Rightarrow> settler \<Rightarrow> watch_state \<Rightarrow> settle_pc option \<times> watch_state" where
  "settle_step watch a g w =
    (let key = st_key g; ptr = st_ptr g; p = ws_heap w ptr in
     case st_pc g of
       AtTop \<Rightarrow>
         if map_of (ws_pending w) key \<noteq> Some ptr then (None, w)
         else (Some (Settling (pf_version p)), w\<lparr>ws_log := ws_log w @ [PassStarted key]\<rparr>)
     | Settling v \<Rightarrow>
         (case an_stable a of
            Inl e \<Rightarrow>
              (None,
               if quiet_error e then remove_pending key ptr w
               else report_error (Wrapped [T ''stabilize '', T (pf_path p), T '' for watch '', Q (w_name watch), T '': ''] e [])
                      (remove_pending key ptr w))
          | Inr file \<Rightarrow> (Some (Comparing v file), w))
     | Comparing v file \<Rightarrow>
         if pf_version p \<noteq> v then (Some AtTop, w)
         else
           (let previous = map_of (ws_delivered w) key;
                skip = (previous \<noteq> None \<and>
                  (\<not> w_reprocess_on_change watch \<or> previous = Some (wf_fingerprint file))) in
            (Some (if skip then Skipping v else Validating v file), w))
     | Skipping v \<Rightarrow>
         (case finish_pending_if_current key ptr v w of
            (True, w') \<Rightarrow> (None, w'\<lparr>ws_log := ws_log w' @ [Finished key]\<rparr>)
          | (False, w') \<Rightarrow> (Some AtTop, w'))
     | Validating v file \<Rightarrow>
         (case an_root a of
            Some e \<Rightarrow>
              (None, report_error (Wrapped [T ''validate configured root before handling '', T (pf_path p), T '': ''] e [])
                 (remove_pending key ptr w))
          | None \<Rightarrow> (Some (Handling v file), w))
     | Handling v file \<Rightarrow>
         (let w1 = w\<lparr>ws_log := ws_log w @ [Delivered key (wf_fingerprint file)]\<rparr> in
          case an_handler a of
            Some e \<Rightarrow>
              (None, report_error (Wrapped [T ''handle '', T (pf_path p), T '' for watch '', Q (w_name watch), T '': ''] e [])
                 (remove_pending key ptr w1))
          | None \<Rightarrow> (Some (Recording v file), w1))
     | Recording v file \<Rightarrow>
         (let w1 = record_delivered (an_evicted a) key (wf_fingerprint file) w in
          if pf_version p = v
          then (None, w1\<lparr>ws_pending := map_delete key (ws_pending w1), ws_log := ws_log w1 @ [Finished key]\<rparr>)
          else (Some AtTop, w1)))"

text \<open>The step of the \<open>n\<close>th goroutine, which leaves the list when it returns.\<close>

definition run_settler :: "(nat \<Rightarrow> watch_config) \<Rightarrow> settle_answer \<Rightarrow> nat \<Rightarrow> watch_state \<Rightarrow> watch_state" where
  "run_settler specs a n w =
    (let g = ws_settlers w ! n in
     case settle_step (specs (pf_watch_index (ws_heap w (st_ptr g)))) a g w of
       (None, w') \<Rightarrow> w'\<lparr>ws_settlers := take n (ws_settlers w') @ drop (Suc n) (ws_settlers w')\<rparr>
     | (Some pc, w') \<Rightarrow> w'\<lparr>ws_settlers := (ws_settlers w')[n := g\<lparr>st_pc := pc\<rparr>]\<rparr>)"

inductive watch_step :: "(nat \<Rightarrow> watch_config) \<Rightarrow> watch_state \<Rightarrow> watch_state \<Rightarrow> bool" where
  notify: "watch_step specs w (snd (schedule ctx_err watch_index filename w))"
| settle: "n < length (ws_settlers w) \<Longrightarrow> watch_step specs w (run_settler specs a n w)"

inductive_cases watch_stepE: "watch_step specs w w'"

inductive watch_reachable :: "(nat \<Rightarrow> watch_config) \<Rightarrow> watch_state \<Rightarrow> bool" where
  start: "watch_reachable specs initial_watch_state"
| step: "watch_reachable specs w \<Longrightarrow> watch_step specs w w' \<Longrightarrow> watch_reachable specs w'"

end
