(* ===== verification/WatchSafety.thy ===== *)
theory WatchSafety
  imports WatchPending
begin

text \<open>
  The invariant of the watcher's stabilisation work over every interleaving, and what follows: the
  bounds of its tables, one goroutine per pending file, no lost notification, and no redundant call
  of the handler.
\<close>

section \<open>Counting notifications\<close>

definition note_event :: "string \<Rightarrow> nat \<Rightarrow> watch_event \<Rightarrow> nat" where
  "note_event k n e = (if e = PassStarted k then 0 else if e = Notified k then n + 1 else n)"

text \<open>The notifications of a file since its last stabilisation pass began.\<close>

definition notified_since_pass :: "string \<Rightarrow> watch_event list \<Rightarrow> nat" where
  "notified_since_pass k events = foldl (note_event k) 0 events"

lemma notified_snoc [simp]: "notified_since_pass k (l @ [e]) = note_event k (notified_since_pass k l) e"
  by (simp add: notified_since_pass_def)

lemma note_event_simps [simp]:
  "note_event k n (PassStarted k') = (if k' = k then 0 else n)"
  "note_event k n (Notified k') = (if k' = k then n + 1 else n)"
  "note_event k n (Delivered k' f) = n" "note_event k n (Finished k') = n"
  by (auto simp: note_event_def)

definition finished_ok :: "watch_event list \<Rightarrow> bool" where
  "finished_ok log \<longleftrightarrow> (\<forall>l1 k l2. log = l1 @ Finished k # l2 \<longrightarrow> 2 ^ 64 dvd notified_since_pass k l1)"

lemma finished_ok_snoc:
  "finished_ok (l @ [e]) \<longleftrightarrow> finished_ok l \<and> (\<forall>k. e = Finished k \<longrightarrow> 2 ^ 64 dvd notified_since_pass k l)"
  (is "?lhs \<longleftrightarrow> ?rhs")
proof
  assume ?lhs
  then show ?rhs unfolding finished_ok_def by (metis append.assoc append_Cons append_Nil)
next
  assume rhs: ?rhs
  show ?lhs
    unfolding finished_ok_def
  proof (intro allI impI)
    fix l1 k l2
    assume eq: "l @ [e] = l1 @ Finished k # l2"
    show "2 ^ 64 dvd notified_since_pass k l1"
    proof (cases l2 rule: rev_cases)
      case Nil
      with eq rhs show ?thesis by simp
    next
      case (snoc l3 y)
      with eq have "l = l1 @ Finished k # l3" by simp
      with rhs show ?thesis by (auto simp: finished_ok_def)
    qed
  qed
qed

section \<open>The invariant\<close>

lemma map_of_delete [simp]: "map_of (map_delete k m) = (map_of m)(k := None)"
  by (induction m) (auto simp: map_delete_def)

lemma map_of_store [simp]: "map_of (map_store k v m) = (map_of m)(k \<mapsto> v)"
  by (auto simp: map_store_def fun_eq_iff)

lemma keys_delete: "set (map fst (map_delete k m)) = set (map fst m) - {k}"
  by (auto simp: map_delete_def)

lemma distinct_delete: "distinct (map fst m) \<Longrightarrow> distinct (map fst (map_delete k m))"
  by (simp add: map_delete_def distinct_map_filter)

lemma distinct_store: "distinct (map fst m) \<Longrightarrow> distinct (map fst (map_store k v m))"
  using keys_delete[of k m] distinct_delete[of m k] by (simp add: map_store_def)

lemma delete_length: "length (map_delete k m) \<le> length m"
  by (simp add: map_delete_def)

lemma delete_absent: "map_of m k = None \<Longrightarrow> map_delete k m = m"
  by (auto simp: map_delete_def filter_id_conv map_of_eq_None_iff)

lemma delete_present: "map_of m k \<noteq> None \<Longrightarrow> length (map_delete k m) < length m"
proof -
  assume "map_of m k \<noteq> None"
  then obtain e where "e \<in> set m" "fst e = k" by (auto simp: map_of_eq_None_iff)
  then show ?thesis unfolding map_delete_def by (intro length_filter_less) auto
qed

definition owner :: "settler \<Rightarrow> string \<times> nat" where
  "owner g = (st_key g, st_ptr g)"

definition tables_ok :: "watch_state \<Rightarrow> bool" where
  "tables_ok w \<longleftrightarrow>
    distinct (map fst (ws_pending w)) \<and> length (ws_pending w) \<le> max_pending_files \<and>
    distinct (map fst (ws_delivered w)) \<and> length (ws_delivered w) \<le> max_delivered_files"

definition owners_ok :: "watch_state \<Rightarrow> bool" where
  "owners_ok w \<longleftrightarrow>
    distinct (map st_key (ws_settlers w)) \<and> distinct (map st_ptr (ws_settlers w)) \<and>
    owner ` set (ws_settlers w) = set (ws_pending w) \<and>
    (\<forall>g \<in> set (ws_settlers w). st_ptr g < ws_next w)"

fun pc_version :: "settle_pc \<Rightarrow> 64 word option" where
  "pc_version AtTop = None"
| "pc_version (Settling v) = Some v"
| "pc_version (Comparing v file) = Some v"
| "pc_version (Skipping v) = Some v"
| "pc_version (Validating v file) = Some v"
| "pc_version (Handling v file) = Some v"
| "pc_version (Recording v file) = Some v"

text \<open>The version a goroutine read is behind the entry's by the notifications of this pass.\<close>

definition version_ok :: "watch_state \<Rightarrow> settler \<Rightarrow> bool" where
  "version_ok w g \<longleftrightarrow>
    (\<forall>v. pc_version (st_pc g) = Some v \<longrightarrow>
      pf_version (ws_heap w (st_ptr g)) = v + of_nat (notified_since_pass (st_key g) (ws_log w)))"

text \<open>A goroutine about to call the handler has something new for it.\<close>

definition news :: "(nat \<Rightarrow> watch_config) \<Rightarrow> watch_state \<Rightarrow> settler \<Rightarrow> watched_file \<Rightarrow> bool" where
  "news specs w g file \<longleftrightarrow>
    map_of (ws_delivered w) (st_key g) = None \<or>
    w_reprocess_on_change (specs (pf_watch_index (ws_heap w (st_ptr g)))) \<and>
      map_of (ws_delivered w) (st_key g) \<noteq> Some (wf_fingerprint file)"

definition news_ok :: "(nat \<Rightarrow> watch_config) \<Rightarrow> watch_state \<Rightarrow> settler \<Rightarrow> bool" where
  "news_ok specs w g \<longleftrightarrow>
    (\<forall>v file. st_pc g = Validating v file \<or> st_pc g = Handling v file \<longrightarrow> news specs w g file)"

definition watch_inv :: "(nat \<Rightarrow> watch_config) \<Rightarrow> watch_state \<Rightarrow> bool" where
  "watch_inv specs w \<longleftrightarrow> tables_ok w \<and> owners_ok w \<and> finished_ok (ws_log w) \<and>
    (\<forall>g \<in> set (ws_settlers w). version_ok w g \<and> news_ok specs w g)"

lemma initial_watch_inv: "watch_inv specs initial_watch_state"
  by (simp add: watch_inv_def initial_watch_state_def tables_ok_def owners_ok_def finished_ok_def)

lemma owner_current:
  assumes "tables_ok w" and "owners_ok w" and "g \<in> set (ws_settlers w)"
  shows "map_of (ws_pending w) (st_key g) = Some (st_ptr g)"
proof -
  have "(st_key g, st_ptr g) \<in> set (ws_pending w)"
    using assms by (auto simp: owners_ok_def owner_def)
  then show ?thesis using assms(1) by (simp add: tables_ok_def)
qed

lemma pending_has_owner:
  assumes "owners_ok w" and "map_of (ws_pending w) k = Some ptr"
  shows "\<exists>g \<in> set (ws_settlers w). st_key g = k \<and> st_ptr g = ptr"
proof -
  have "(k, ptr) \<in> owner ` set (ws_settlers w)"
    using assms map_of_SomeD by (auto simp: owners_ok_def)
  then show ?thesis by (auto simp: owner_def)
qed

lemma settlers_pending:
  assumes "tables_ok w" and "owners_ok w"
  shows "length (ws_settlers w) = length (ws_pending w)"
proof -
  have "set (map st_key (ws_settlers w)) = fst ` owner ` set (ws_settlers w)"
    by (simp add: owner_def image_image)
  then have "set (map st_key (ws_settlers w)) = set (map fst (ws_pending w))"
    using assms(2) by (simp add: owners_ok_def)
  moreover have "card (set (map st_key (ws_settlers w))) = length (ws_settlers w)"
    "card (set (map fst (ws_pending w))) = length (ws_pending w)"
    using assms distinct_card by (fastforce simp: tables_ok_def owners_ok_def)+
  ultimately show ?thesis by simp
qed

section \<open>Preservation\<close>

text \<open>What a step of a goroutine does to the tables.\<close>

lemma settle_step_keeps:
  assumes "settle_step watch a g w = (r, w')" and "map_of (ws_pending w) (st_key g) = Some (st_ptr g)"
  shows "ws_heap w' = ws_heap w \<and> ws_next w' = ws_next w \<and> ws_settlers w' = ws_settlers w \<and>
    ws_pending w' = (if r = None then map_delete (st_key g) (ws_pending w) else ws_pending w)"
  using assms
  by (cases "st_pc g")
    (auto simp: settle_step_def Let_def remove_pending_def finish_pending_if_current_def report_error_def
      record_delivered_def split: if_splits sum.splits option.splits)

lemma record_delivered_map:
  "map_of (ws_delivered (record_delivered n k f w)) k' =
    (if k' = k then Some f
     else if map_of (ws_delivered w) k = None \<and> max_delivered_files \<le> length (ws_delivered w) \<and>
       k' = fst (ws_delivered w ! (n mod length (ws_delivered w))) then None
     else map_of (ws_delivered w) k')"
  by (auto simp: record_delivered_def Let_def)

lemma record_delivered_tables:
  assumes "distinct (map fst (ws_delivered w))" and "length (ws_delivered w) \<le> max_delivered_files"
  shows "distinct (map fst (ws_delivered (record_delivered n k f w)))"
    and "length (ws_delivered (record_delivered n k f w)) \<le> max_delivered_files"
proof -
  define d where "d = ws_delivered w"
  define d1 where "d1 = (if map_of d k = None \<and> max_delivered_files \<le> length d
     then map_delete (fst (d ! (n mod length d))) d else d)"
  have new: "ws_delivered (record_delivered n k f w) = map_store k f d1"
    by (simp add: record_delivered_def d_def d1_def Let_def)
  have "distinct (map fst d1)" using assms(1) by (simp add: d1_def d_def distinct_delete)
  then show "distinct (map fst (ws_delivered (record_delivered n k f w)))"
    unfolding new by (rule distinct_store)
  have "length (map_delete k d1) < max_delivered_files"
  proof (cases "map_of d k = None")
    case True
    show ?thesis
    proof (cases "max_delivered_files \<le> length d")
      case full: True
      then have "d \<noteq> []" by (auto simp: max_delivered_files_def)
      then have "d ! (n mod length d) \<in> set d" by simp
      then have "map_of d (fst (d ! (n mod length d))) \<noteq> None" by (auto simp: map_of_eq_None_iff)
      from delete_present[OF this] have "length d1 < length d" using True full by (simp add: d1_def)
      with assms(2) delete_length[of k d1] show ?thesis by (simp add: d_def)
    next
      case False
      with True have "d1 = d" by (simp add: d1_def)
      with False delete_length[of k d] show ?thesis by simp
    qed
  next
    case False
    then have "d1 = d" by (auto simp: d1_def)
    with delete_present[OF False] assms(2) show ?thesis by (simp add: d_def)
  qed
  then show "length (ws_delivered (record_delivered n k f w)) \<le> max_delivered_files"
    unfolding new by (simp add: map_store_def)
qed

text \<open>The cache after a step: untouched, or the goroutine's own entry written and at most one other
  entry given up.\<close>

lemma settle_step_delivered:
  assumes "settle_step watch a g w = (r, w')"
  shows "ws_delivered w' = ws_delivered w \<or>
    (\<exists>f. ws_delivered w' = ws_delivered (record_delivered (an_evicted a) (st_key g) f w))"
  using assms
  by (cases "st_pc g")
    (auto simp: settle_step_def Let_def remove_pending_def finish_pending_if_current_def report_error_def
      split: if_splits sum.splits option.splits)

lemma settle_step_tables:
  assumes "settle_step watch a g w = (r, w')" and "map_of (ws_pending w) (st_key g) = Some (st_ptr g)"
    and "tables_ok w"
  shows "tables_ok w'"
proof -
  have "distinct (map fst (ws_delivered w')) \<and> length (ws_delivered w') \<le> max_delivered_files"
    using settle_step_delivered[OF assms(1)] assms(3) record_delivered_tables
    by (auto simp: tables_ok_def)
  moreover have "distinct (map fst (ws_pending w')) \<and> length (ws_pending w') \<le> max_pending_files"
    using settle_step_keeps[OF assms(1,2)] assms(3) distinct_delete delete_length[of "st_key g" "ws_pending w"]
    by (auto simp: tables_ok_def)
  ultimately show ?thesis by (simp add: tables_ok_def)
qed

lemma other_delivered:
  assumes "settle_step watch a g w = (r, w')" and "k \<noteq> st_key g"
  shows "map_of (ws_delivered w') k = None \<or> map_of (ws_delivered w') k = map_of (ws_delivered w) k"
  using settle_step_delivered[OF assms(1)] assms(2) by (auto simp: record_delivered_map)

text \<open>The history after a step.\<close>

lemma settle_step_log:
  assumes "settle_step watch a g w = (r, w')" and "version_ok w g" and "finished_ok (ws_log w)"
  shows "finished_ok (ws_log w')"
    and "k \<noteq> st_key g \<Longrightarrow> notified_since_pass k (ws_log w') = notified_since_pass k (ws_log w)"
    and "r = Some pc \<Longrightarrow> pc_version pc = Some v \<Longrightarrow>
      pf_version (ws_heap w (st_ptr g)) = v + of_nat (notified_since_pass (st_key g) (ws_log w'))"
proof -
  note defs = settle_step_def Let_def remove_pending_def finish_pending_if_current_def report_error_def
      record_delivered_def
  have done_pass: "2 ^ 64 dvd notified_since_pass (st_key g) (ws_log w)"
    if "pc_version (st_pc g) = Some v" "pf_version (ws_heap w (st_ptr g)) = v" for v
  proof -
    have "v = v + of_nat (notified_since_pass (st_key g) (ws_log w))"
      using assms(2) that by (simp add: version_ok_def)
    then have "of_nat (notified_since_pass (st_key g) (ws_log w)) = (0 :: 64 word)"
      by (metis add_cancel_right_right)
    then show ?thesis by (simp only: word_of_nat_eq_0_iff) simp
  qed
  show "finished_ok (ws_log w')"
  proof (cases "\<exists>v. pc_version (st_pc g) = Some v \<and> pf_version (ws_heap w (st_ptr g)) = v")
    case True
    then have "2 ^ 64 dvd notified_since_pass (st_key g) (ws_log w)" using done_pass by blast
    then show ?thesis
      using assms(1,3)
      by (cases "st_pc g") (auto simp: defs finished_ok_snoc split: if_splits sum.splits option.splits)
  next
    case False
    then show ?thesis
      using assms(1,3)
      by (cases "st_pc g") (auto simp: defs finished_ok_snoc split: if_splits sum.splits option.splits)
  qed
  show "k \<noteq> st_key g \<Longrightarrow> notified_since_pass k (ws_log w') = notified_since_pass k (ws_log w)"
    using assms(1) by (cases "st_pc g") (auto simp: defs split: if_splits sum.splits option.splits)
  show "r = Some pc \<Longrightarrow> pc_version pc = Some v \<Longrightarrow>
      pf_version (ws_heap w (st_ptr g)) = v + of_nat (notified_since_pass (st_key g) (ws_log w'))"
    using assms(1,2) by (cases "st_pc g") (auto simp: defs version_ok_def split: if_splits sum.splits option.splits)
qed

text \<open>What the handler gets is new.\<close>

lemma settle_step_news:
  assumes "settle_step watch a g w = (Some pc, w')" and "pc = Validating v file \<or> pc = Handling v file"
    and "watch = specs (pf_watch_index (ws_heap w (st_ptr g)))" and "news_ok specs w g"
  shows "news specs w' (g\<lparr>st_pc := pc\<rparr>) file"
  using assms
  by (cases "st_pc g") (auto simp: settle_step_def Let_def finish_pending_if_current_def news_ok_def news_def
      record_delivered_def split: if_splits sum.splits option.splits)

section \<open>The invariant is kept\<close>

lemma owners_inj:
  assumes "owners_ok w" and "g \<in> set (ws_settlers w)" and "h \<in> set (ws_settlers w)" and "g \<noteq> h"
  shows "st_key g \<noteq> st_key h" and "st_ptr g \<noteq> st_ptr h"
  using assms by (auto simp: owners_ok_def distinct_map inj_on_def)

lemma schedule_bump_inv:
  assumes inv: "watch_inv specs w" and cur: "map_of (ws_pending w) key = Some ptr"
  shows "watch_inv specs
    (w\<lparr>ws_heap := (ws_heap w)(ptr := (ws_heap w ptr)\<lparr>pf_version := pf_version (ws_heap w ptr) + 1\<rparr>),
       ws_log := ws_log w @ [Notified key]\<rparr>)" (is "watch_inv specs ?w")
proof -
  have ok: "tables_ok w" "owners_ok w" "finished_ok (ws_log w)"
    using inv by (auto simp: watch_inv_def)
  have each: "version_ok w g \<and> news_ok specs w g" if "g \<in> set (ws_settlers w)" for g
    using inv that by (auto simp: watch_inv_def)
  have same: "st_key g = key \<longleftrightarrow> st_ptr g = ptr" if "g \<in> set (ws_settlers w)" for g
  proof -
    obtain h where h: "h \<in> set (ws_settlers w)" "st_key h = key" "st_ptr h = ptr"
      using pending_has_owner[OF ok(2) cur] by blast
    show ?thesis
      by (cases "g = h") (use h owners_inj[OF ok(2) that h(1)] in auto)
  qed
  have "version_ok ?w g \<and> news_ok specs ?w g" if g: "g \<in> set (ws_settlers w)" for g
    using each[OF g] same[OF g] by (auto simp: version_ok_def news_ok_def news_def)
  moreover have "tables_ok ?w" "owners_ok ?w" "finished_ok (ws_log ?w)"
    using ok by (simp_all add: tables_ok_def owners_ok_def finished_ok_snoc)
  ultimately show ?thesis by (simp add: watch_inv_def)
qed

lemma schedule_fresh_inv:
  assumes inv: "watch_inv specs w" and fresh: "map_of (ws_pending w) key = None"
    and room: "length (ws_pending w) < max_pending_files"
  shows "watch_inv specs
    (w\<lparr>ws_heap := (ws_heap w)(ws_next w := p), ws_pending := map_store key (ws_next w) (ws_pending w),
       ws_settlers := ws_settlers w @ [\<lparr>st_key = key, st_ptr = ws_next w, st_pc = AtTop\<rparr>],
       ws_next := ws_next w + 1, ws_log := ws_log w @ [Notified key]\<rparr>)" (is "watch_inv specs ?w")
proof -
  have ok: "tables_ok w" "owners_ok w" "finished_ok (ws_log w)"
    using inv by (auto simp: watch_inv_def)
  have each: "version_ok w g \<and> news_ok specs w g" if "g \<in> set (ws_settlers w)" for g
    using inv that by (auto simp: watch_inv_def)
  have new_key: "st_key g \<noteq> key" and new_ptr: "st_ptr g < ws_next w" if "g \<in> set (ws_settlers w)" for g
    using that ok owner_current[OF ok(1,2) that] fresh by (auto simp: owners_ok_def)
  have "version_ok ?w g \<and> news_ok specs ?w g" if g: "g \<in> set (ws_settlers w)" for g
    using each[OF g] new_key[OF g] new_ptr[OF g] by (auto simp: version_ok_def news_ok_def news_def)
  moreover have "version_ok ?w g \<and> news_ok specs ?w g" if "st_pc g = AtTop" for g
    using that by (simp add: version_ok_def news_ok_def)
  moreover have "tables_ok ?w"
    using ok(1) room distinct_store[of "ws_pending w" key "ws_next w"] delete_absent[OF fresh]
    by (simp add: tables_ok_def map_store_def)
  moreover have "owners_ok ?w"
    using ok(2) new_key new_ptr delete_absent[OF fresh]
    by (fastforce simp: owners_ok_def owner_def map_store_def)
  moreover have "finished_ok (ws_log ?w)" using ok(3) by (simp add: finished_ok_snoc)
  ultimately show ?thesis by (auto simp: watch_inv_def)
qed

lemma schedule_inv:
  assumes "watch_inv specs w"
  shows "watch_inv specs (snd (schedule ctx_err watch_index name w))"
  using assms schedule_bump_inv schedule_fresh_inv
  by (auto simp: schedule_def Let_def split: option.splits)

lemma set_without_nth:
  "distinct xs \<Longrightarrow> n < length xs \<Longrightarrow> set (take n xs @ drop (Suc n) xs) = set xs - {xs ! n}"
proof -
  assume d: "distinct xs" and n: "n < length xs"
  have "xs = take n xs @ xs ! n # drop (Suc n) xs" using n by (rule id_take_nth_drop)
  moreover from this d have "xs ! n \<notin> set (take n xs) \<union> set (drop (Suc n) xs)"
    by (metis distinct_append distinct.simps(2) Un_iff disjoint_iff list.set_intros(1))
  ultimately show ?thesis
    by (metis Diff_insert_absorb Un_insert_right list.simps(15) set_append)
qed

lemma distinct_without_nth: "distinct xs \<Longrightarrow> distinct (take n xs @ drop (Suc n) xs)"
  by (simp add: set_take_disj_set_drop_if_distinct)

lemma map_without_nth: "map f (take n xs @ drop (Suc n) xs) = take n (map f xs) @ drop (Suc n) (map f xs)"
  by (simp add: take_map drop_map)

lemma run_settler_inv:
  assumes inv: "watch_inv specs w" and n: "n < length (ws_settlers w)"
  shows "watch_inv specs (run_settler specs a n w)"
proof -
  have ok: "tables_ok w" "owners_ok w" "finished_ok (ws_log w)"
    using inv by (auto simp: watch_inv_def)
  have each: "version_ok w g" "news_ok specs w g" if "g \<in> set (ws_settlers w)" for g
    using inv that by (auto simp: watch_inv_def)
  define g where "g = ws_settlers w ! n"
  define watch where "watch = specs (pf_watch_index (ws_heap w (st_ptr g)))"
  have g: "g \<in> set (ws_settlers w)" using n by (simp add: g_def)
  obtain r w' where step: "settle_step watch a g w = (r, w')" by force
  note current = owner_current[OF ok(1,2) g]
  note keeps = settle_step_keeps[OF step current]
  note tables = settle_step_tables[OF step current ok(1)]
  note log = settle_step_log[OF step each(1)[OF g] ok(3)]
  have others: "version_ok w' h \<and> news_ok specs w' h" if h: "h \<in> set (ws_settlers w)" "h \<noteq> g" for h
  proof -
    have ne: "st_key h \<noteq> st_key g" using owners_inj[OF ok(2) h(1) g h(2)] by simp
    show ?thesis
      using each[OF h(1)] log(2)[OF ne] keeps other_delivered[OF step ne]
      by (auto simp: version_ok_def news_ok_def news_def)
  qed
  have dist: "distinct (ws_settlers w)" using ok(2) by (auto simp: owners_ok_def distinct_map)
  show ?thesis
  proof (cases r)
    case None
    let ?rest = "take n (ws_settlers w) @ drop (Suc n) (ws_settlers w)"
    have run: "run_settler specs a n w = w'\<lparr>ws_settlers := ?rest\<rparr>"
      using step None keeps by (simp add: run_settler_def Let_def g_def watch_def)
    have rest: "set ?rest = set (ws_settlers w) - {g}"
      unfolding g_def by (rule set_without_nth[OF dist n])
    have "owner ` (set (ws_settlers w) - {g}) = set (map_delete (st_key g) (ws_pending w))"
    proof -
      have "owner ` (set (ws_settlers w) - {g}) = {o' \<in> owner ` set (ws_settlers w). fst o' \<noteq> st_key g}"
        using owners_inj(1)[OF ok(2) g] by (auto simp: owner_def) metis
      then show ?thesis using ok(2) by (auto simp: owners_ok_def map_delete_def)
    qed
    then have "owners_ok (w'\<lparr>ws_settlers := ?rest\<rparr>)"
      unfolding owners_ok_def using ok(2) keeps None rest
      by (simp add: owners_ok_def map_without_nth distinct_without_nth del: map_append set_append distinct_append)
    moreover have "version_ok (w'\<lparr>ws_settlers := ?rest\<rparr>) h \<and> news_ok specs (w'\<lparr>ws_settlers := ?rest\<rparr>) h"
      if "h \<in> set ?rest" for h
      using others[of h] that unfolding rest by (auto simp: version_ok_def news_ok_def news_def)
    ultimately show ?thesis
      unfolding run watch_inv_def using tables log(1) by (simp add: tables_ok_def del: set_append)
  next
    case (Some pc)
    let ?g = "g\<lparr>st_pc := pc\<rparr>"
    let ?all = "(ws_settlers w)[n := ?g]"
    have run: "run_settler specs a n w = w'\<lparr>ws_settlers := ?all\<rparr>"
      using step Some keeps by (simp add: run_settler_def Let_def g_def watch_def)
    have maps: "map st_key ?all = map st_key (ws_settlers w)" "map st_ptr ?all = map st_ptr (ws_settlers w)"
      "map owner ?all = map owner (ws_settlers w)"
      using n by (simp_all add: map_update g_def owner_def list_update_same_conv)
    have "owner ` set ?all = owner ` set (ws_settlers w)" "st_ptr ` set ?all = st_ptr ` set (ws_settlers w)"
      using maps by (metis list.set_map)+
    then have "owners_ok (w'\<lparr>ws_settlers := ?all\<rparr>)"
      unfolding owners_ok_def using ok(2) keeps Some maps
      by (simp add: owners_ok_def) (metis imageE imageI)
    moreover have "version_ok (w'\<lparr>ws_settlers := ?all\<rparr>) h \<and> news_ok specs (w'\<lparr>ws_settlers := ?all\<rparr>) h"
      if "h \<in> set ?all" for h
    proof (cases "h = ?g")
      case True
      have "news specs w' ?g f" if "pc = Validating v f \<or> pc = Handling v f" for v f
        by (rule settle_step_news[OF step[unfolded Some] that watch_def each(2)[OF g]])
      then show ?thesis
        using True log(3)[OF Some] keeps by (auto simp: version_ok_def news_ok_def news_def)
    next
      case False
      then have "h \<in> set (ws_settlers w) \<and> h \<noteq> g"
        using that dist n by (metis g_def in_set_conv_nth length_list_update nth_eq_iff_index_eq nth_list_update)
      then show ?thesis using others[of h] by (auto simp: version_ok_def news_ok_def news_def)
    qed
    ultimately show ?thesis
      unfolding run watch_inv_def using tables log(1) by (simp add: tables_ok_def)
  qed
qed

lemma reachable_watch_inv: "watch_reachable specs w \<Longrightarrow> watch_inv specs w"
  by (induction rule: watch_reachable.induct)
    (auto elim!: watch_stepE intro: initial_watch_inv schedule_inv run_settler_inv)

end
