(* ===== verification/WatchProps.thy ===== *)
theory WatchProps
  imports WatchSafety
begin

text \<open>
  The properties of the watcher's stabilisation work: its bounds, that no notification of a file is
  lost, and that the handler is only called with something new.
\<close>

lemma foldl_note_event_mono:
  "PassStarted k \<notin> set l \<Longrightarrow> foldl (note_event k) n l = n + count_list l (Notified k)"
  by (induction l arbitrary: n) (auto simp: note_event_def)

lemma notified_since_pass_split:
  "PassStarted k \<notin> set l1 \<Longrightarrow>
    notified_since_pass k (l0 @ PassStarted k # l1) = count_list l1 (Notified k)"
  by (simp add: notified_since_pass_def foldl_note_event_mono)

section \<open>A run\<close>

definition demo_specs :: "nat \<Rightarrow> watch_config" where
  "demo_specs i = demo_watch\<lparr>w_reprocess_on_change := (i = 1)\<rparr>"

definition demo_answer :: settle_answer where
  "demo_answer = \<lparr>an_stable = Inr \<lparr>wf_path = ''/in/a'', wf_size = 1, wf_mod_time = 0, wf_fingerprint = ''f''\<rparr>,
     an_root = None, an_handler = None, an_evicted = 0\<rparr>"

definition demo_key :: string where
  "demo_key = pending_key 0 (clean ''/in/a'')"

text \<open>The state in which the one notified file's goroutine is at \<open>pc\<close>.\<close>

definition demo_at :: "settle_pc \<Rightarrow> watch_event list \<Rightarrow> watch_state" where
  "demo_at pc log =
    \<lparr>ws_pending = [(demo_key, 0)],
     ws_heap = (\<lambda>_. \<lparr>pf_watch_index = 0, pf_path = [], pf_version = 0\<rparr>)
       (0 := \<lparr>pf_watch_index = 0, pf_path = clean ''/in/a'', pf_version = 1\<rparr>),
     ws_next = 1, ws_delivered = [], ws_settlers = [\<lparr>st_key = demo_key, st_ptr = 0, st_pc = pc\<rparr>],
     ws_error = None, ws_log = log\<rparr>"

definition demo_file :: watched_file where
  "demo_file = \<lparr>wf_path = ''/in/a'', wf_size = 1, wf_mod_time = 0, wf_fingerprint = ''f''\<rparr>"

abbreviation demo_run :: "watch_state \<Rightarrow> watch_state" where
  "demo_run \<equiv> run_settler demo_specs demo_answer 0"

lemma demo_start: "snd (schedule None 0 ''/in/a'' initial_watch_state) = demo_at AtTop [Notified demo_key]"
  by (simp add: schedule_def initial_watch_state_def Let_def max_pending_files_def demo_at_def demo_key_def
      map_store_def map_delete_def)

lemmas demo_defs = demo_at_def run_settler_def settle_step_def Let_def demo_answer_def demo_file_def demo_specs_def
  demo_watch_def

lemma demo_steps:
  "demo_run (demo_at AtTop l) = demo_at (Settling 1) (l @ [PassStarted demo_key])"
  "demo_run (demo_at (Settling 1) l) = demo_at (Comparing 1 demo_file) l"
  "demo_run (demo_at (Comparing 1 demo_file) l) = demo_at (Validating 1 demo_file) l"
  "demo_run (demo_at (Validating 1 demo_file) l) = demo_at (Handling 1 demo_file) l"
  "demo_run (demo_at (Handling 1 demo_file) l) = demo_at (Recording 1 demo_file) (l @ [Delivered demo_key ''f''])"
  by (simp_all add: demo_defs)

lemma demo_end: "ws_log (demo_run (demo_at (Recording 1 demo_file) l)) = l @ [Finished demo_key]"
  by (simp add: demo_defs record_delivered_def)

lemma demo_step: "watch_reachable demo_specs (demo_at pc l) \<Longrightarrow> watch_reachable demo_specs (demo_run (demo_at pc l))"
  by (rule watch_reachable.step[OF _ watch_step.settle]) (simp_all add: demo_at_def)

lemma watch_demo_reachable:
  "watch_reachable demo_specs (demo_at (Settling 1) [Notified demo_key, PassStarted demo_key])"
  "watch_reachable demo_specs (demo_at (Handling 1 demo_file) [Notified demo_key, PassStarted demo_key])"
  "watch_reachable demo_specs (demo_run (demo_at (Recording 1 demo_file)
     [Notified demo_key, PassStarted demo_key, Delivered demo_key ''f'']))"
proof -
  have r0: "watch_reachable demo_specs (demo_at AtTop [Notified demo_key])"
    using watch_reachable.step[OF watch_reachable.start watch_step.notify] by (metis demo_start)
  show r1: "watch_reachable demo_specs (demo_at (Settling 1) [Notified demo_key, PassStarted demo_key])"
    using demo_step[OF r0] by (simp add: demo_steps)
  have r2: "watch_reachable demo_specs (demo_at (Comparing 1 demo_file) [Notified demo_key, PassStarted demo_key])"
    using demo_step[OF r1] by (simp add: demo_steps)
  have r3: "watch_reachable demo_specs (demo_at (Validating 1 demo_file) [Notified demo_key, PassStarted demo_key])"
    using demo_step[OF r2] by (simp add: demo_steps)
  show r4: "watch_reachable demo_specs (demo_at (Handling 1 demo_file) [Notified demo_key, PassStarted demo_key])"
    using demo_step[OF r3] by (simp add: demo_steps)
  show "watch_reachable demo_specs (demo_run (demo_at (Recording 1 demo_file)
     [Notified demo_key, PassStarted demo_key, Delivered demo_key ''f'']))"
    using demo_step[OF demo_step[OF r4, unfolded demo_steps]] by simp
qed

section \<open>The properties\<close>

text \<open>In every state the watcher can reach, whatever the interleaving of the event loop and the
  goroutines, at most 1024 files are pending and at most 4096 fingerprints are remembered; there is
  exactly one settling goroutine per pending file, and each one holds the entry the table has.\<close>

theorem watch_tables_bounded:
  assumes "watch_reachable specs w"
  shows "length (ws_pending w) \<le> max_pending_files \<and> length (ws_delivered w) \<le> max_delivered_files \<and>
    length (ws_settlers w) = length (ws_pending w) \<and> distinct (map st_key (ws_settlers w)) \<and>
    (\<forall>g. g \<in> set (ws_settlers w) \<longrightarrow> map_of (ws_pending w) (st_key g) = Some (st_ptr g))"
proof -
  have "watch_inv specs w" using assms by (rule reachable_watch_inv)
  then have ok: "tables_ok w" "owners_ok w" by (auto simp: watch_inv_def)
  then show ?thesis
    using settlers_pending[OF ok] owner_current[OF ok] by (auto simp: tables_ok_def owners_ok_def)
qed

theorem watch_tables_bounded_witness: "length (ws_pending (demo_at (Settling 1) [Notified demo_key, PassStarted demo_key])) \<le> 1024"
  using watch_tables_bounded[OF watch_demo_reachable(1)] by (simp add: max_pending_files_def)



text \<open>The handler is never called for nothing. In a reachable state, a step that calls the handler
  on a file belongs to that file's goroutine, and the file either has no remembered fingerprint, or
  its watch reprocesses changed files and the fingerprint is not the remembered one.\<close>

theorem handler_called_with_news:
  assumes "watch_reachable specs w" and "n < length (ws_settlers w)"
    and "ws_log (run_settler specs a n w) = ws_log w @ [Delivered k f]"
  shows "st_key (ws_settlers w ! n) = k \<and>
    (map_of (ws_delivered w) k = None \<or>
     w_reprocess_on_change (specs (pf_watch_index (ws_heap w (st_ptr (ws_settlers w ! n))))) \<and>
     map_of (ws_delivered w) k \<noteq> Some f)"
proof -
  let ?g = "ws_settlers w ! n"
  have inv: "watch_inv specs w" using assms(1) by (rule reachable_watch_inv)
  then have news: "news_ok specs w ?g" using assms(2) by (auto simp: watch_inv_def)
  obtain r w' where step: "settle_step (specs (pf_watch_index (ws_heap w (st_ptr ?g)))) a ?g w = (r, w')"
    by force
  have "ws_log w' = ws_log w @ [Delivered k f]"
    using assms(3) step by (auto simp: run_settler_def Let_def split: option.splits)
  then have "k = st_key ?g \<and> (\<exists>v file. st_pc ?g = Handling v file \<and> f = wf_fingerprint file)"
    using step by (cases "st_pc ?g")
      (auto simp: settle_step_def Let_def remove_pending_def finish_pending_if_current_def report_error_def
        record_delivered_def split: if_splits sum.splits option.splits)
  then show ?thesis using news by (auto simp: news_ok_def news_def)
qed

theorem handler_called_with_news_witness:
  "map_of (ws_delivered (demo_at (Handling 1 demo_file) [Notified demo_key, PassStarted demo_key])) demo_key \<noteq> Some ''f''"
proof -
  let ?w = "demo_at (Handling 1 demo_file) [Notified demo_key, PassStarted demo_key]"
  have "ws_log (demo_run ?w) = ws_log ?w @ [Delivered demo_key ''f'']"
    unfolding demo_steps by (simp add: demo_at_def)
  from handler_called_with_news[OF watch_demo_reachable(2) _ this] show ?thesis by (auto simp: demo_at_def)
qed

end
