(* ===== verification/ConfigPaths.thy ===== *)
theory ConfigPaths
  imports ContainerParse GoPathFacts
begin

text \<open>
  Paths of a configuration (\<open>internal/config/paths.go\<close>): anchoring beside the configuration file,
  the canonical path of the database with its symbolic links resolved, and the comparison of two
  database paths; then \<open>Load\<close> of \<open>internal/config/config.go\<close>, which composes decoding, defaults,
  validation and anchoring. The file system is an argument: what \<open>lstat\<close>, \<open>readlink\<close> and \<open>stat\<close>
  answer for a path. The YAML decoder, Unicode normalisation and case folding are arguments too.
\<close>

section \<open>Anchoring\<close>

definition resolve_relative_path :: "string \<Rightarrow> string \<Rightarrow> string" where
  "resolve_relative_path base name =
    (if is_abs name then clean name else clean (join_path [base, name]))"

definition resolve_program :: "string \<Rightarrow> string \<Rightarrow> string" where
  "resolve_program config_directory program =
    (if is_abs program then clean program
     else if list_ex (\<lambda>c. c = slash \<or> c = CHR 0x5C) program then resolve_relative_path config_directory program
     else program)"

definition resolve_template_path :: "string \<Rightarrow> string \<Rightarrow> string" where
  "resolve_template_path config_directory name =
    (if contains name file_template \<or> contains name dir_template then name
     else resolve_relative_path config_directory name)"

definition resolve_working_directory :: "string \<Rightarrow> string \<Rightarrow> string" where
  "resolve_working_directory config_directory working_directory =
    (if working_directory = [] then [] else resolve_template_path config_directory working_directory)"

fun resolve_archive :: "string \<Rightarrow> string \<Rightarrow> string list \<Rightarrow> string" where
  "resolve_archive config_directory img [] = resolve_template_path config_directory img"
| "resolve_archive config_directory img (transport # transports) =
    (if prefix transport img then
       (let archive = trim_prefix transport img in
        if archive = [] then img else transport @ resolve_template_path config_directory archive)
     else resolve_archive config_directory img transports)"

definition resolve_apptainer_image :: "string \<Rightarrow> string \<Rightarrow> string" where
  "resolve_apptainer_image config_directory img =
    (if img = [] \<or> contains img ''://'' then img
     else if prefix ''docker-daemon:'' img then img
     else resolve_archive config_directory img [''docker-archive:'', ''oci-archive:''])"

definition resolve_command :: "string \<Rightarrow> command_config \<Rightarrow> command_config" where
  "resolve_command dir c =
    (let c1 = c\<lparr>c_program := resolve_program dir (c_program c),
                c_working_dir := resolve_working_directory dir (c_working_dir c)\<rparr>;
         c2 = (if c_executor c1 = ExecutorApptainer \<and> uses_structured_container c1
               then c1\<lparr>c_image := resolve_apptainer_image dir (c_image c1)\<rparr> else c1) in
     c2\<lparr>c_mounts := map (\<lambda>m. m\<lparr>m_source := resolve_template_path dir (m_source m)\<rparr>) (c_mounts c2)\<rparr>)"

definition resolve_watch :: "string \<Rightarrow> watch_config \<Rightarrow> watch_config" where
  "resolve_watch dir w =
    w\<lparr>w_path := resolve_relative_path dir (w_path w), w_pipeline := map (resolve_command dir) (w_pipeline w)\<rparr>"

section \<open>The canonical database path\<close>

record stat_info =
  si_id :: nat
  si_dir :: bool

text \<open>\<open>fs_lstat\<close> says whether the path itself is a symbolic link, \<open>fs_stat\<close> follows links.\<close>

record file_system =
  fs_lstat :: "string \<Rightarrow> bool result"
  fs_readlink :: "string \<Rightarrow> string result"
  fs_stat :: "string \<Rightarrow> stat_info result"

abbreviation not_exist :: "go_error \<Rightarrow> bool" where
  "not_exist \<equiv> errors_is ''file does not exist''"

definition split_absolute_path :: "string \<Rightarrow> string \<times> string list" where
  "split_absolute_path p =
    (let remainder = trim_prefix ''/'' p in (''/'', if remainder = [] then [] else split_char slash remainder))"

definition join_path_components :: "string \<Rightarrow> string list \<Rightarrow> string" where
  "join_path_components base components = clean (foldl (\<lambda>b c. join_path [b, c]) base components)"

datatype walk_result =
    Reached string
  | Absent string
  | Uninspectable string go_error
  | SymbolicLink string "string list"

fun walk_path :: "file_system \<Rightarrow> string \<Rightarrow> string list \<Rightarrow> walk_result" where
  "walk_path fs resolved [] = Reached resolved"
| "walk_path fs resolved (component # components) =
    (let candidate = join_path [resolved, component] in
     case fs_lstat fs candidate of
       Inl e \<Rightarrow>
         if not_exist e then Absent (join_path_components candidate components)
         else Uninspectable candidate e
     | Inr symlink \<Rightarrow>
         if symlink then SymbolicLink candidate components else walk_path fs candidate components)"

definition max_canonical_path_symlink_depth :: nat where
  "max_canonical_path_symlink_depth = 255"

function canonical_loop :: "file_system \<Rightarrow> string \<Rightarrow> nat \<Rightarrow> string \<Rightarrow> string result" where
  "canonical_loop fs absolute symlinks_followed current =
    (case split_absolute_path current of (root, components) \<Rightarrow>
     case walk_path fs root components of
       Reached resolved \<Rightarrow> Inr (clean resolved)
     | Absent p \<Rightarrow> Inr p
     | Uninspectable candidate e \<Rightarrow> Inl (Wrapped [T ''inspect database path prefix '', T candidate, T '': ''] e [])
     | SymbolicLink candidate rest \<Rightarrow>
         if max_canonical_path_symlink_depth < Suc symlinks_followed
         then Inl (ErrorString [T ''resolve database path '', T absolute, T '': too many symlinks''])
         else
           (case fs_readlink fs candidate of
              Inl e \<Rightarrow> Inl (Wrapped [T ''read database path symlink '', T candidate, T '': ''] e [])
            | Inr target \<Rightarrow>
                (let target1 = (if is_abs target then target else join_path [dir_path candidate, target]) in
                 canonical_loop fs absolute (Suc symlinks_followed) (join_path_components target1 rest))))"
  by pat_completeness auto
termination
  by (relation "measure (\<lambda>(fs, absolute, n, current). max_canonical_path_symlink_depth - n)") auto

declare canonical_loop.simps [simp del]

definition canonical_database_path :: "string \<Rightarrow> file_system \<Rightarrow> string \<Rightarrow> string result" where
  "canonical_database_path cwd fs name =
    (if name = [] then Inl (new_error ''database path is empty'')
     else (let absolute = clean (abs_path cwd name) in canonical_loop fs absolute 0 absolute))"

section \<open>Equivalent paths\<close>

definition stat_comparable_path :: "file_system \<Rightarrow> string \<Rightarrow> stat_info option result" where
  "stat_comparable_path fs p =
    (case fs_stat fs p of
       Inr info \<Rightarrow> Inr (Some info)
     | Inl e \<Rightarrow> if not_exist e then Inr None else Inl (Wrapped [T ''inspect path '', T p, T '': ''] e []))"

text \<open>An index outside a slice stops the program; it is this error value.\<close>

definition err_index_panic :: go_error where
  "err_index_panic = Sentinel ''panic: index out of range''"

partial_function (option) deepest_existing ::
  "file_system \<Rightarrow> string \<Rightarrow> string \<Rightarrow> string list \<Rightarrow> (string \<times> string) result option" where
  "deepest_existing fs p current missing =
    (case fs_stat fs current of
       Inr info \<Rightarrow>
         Some (if \<not> si_dir info then Inl (ErrorString [T ''path ancestor '', T current, T '' is not a directory''])
               else (case rev missing of
                       [] \<Rightarrow> Inl err_index_panic
                     | name # names \<Rightarrow> Inr (current, foldl (\<lambda>suffix n. join_path [suffix, n]) name names)))
     | Inl e \<Rightarrow>
         if \<not> not_exist e then Some (Inl (Wrapped [T ''inspect path ancestor '', T current, T '': ''] e []))
         else if dir_path current = current then Some (Inl (ErrorString [T ''no existing ancestor for '', T p]))
         else deepest_existing fs p (dir_path current) (missing @ [base_path current]))"

declare deepest_existing.simps [code]

definition deepest_existing_ancestor_and_suffix :: "file_system \<Rightarrow> string \<Rightarrow> (string \<times> string) result option" where
  "deepest_existing_ancestor_and_suffix fs p = deepest_existing fs p (clean p) []"

text \<open>Unicode's canonical composition \<open>nfc\<close> and simple case folding \<open>equal_fold\<close> are arguments.\<close>

definition valid_utf8 :: "string \<Rightarrow> bool" where
  "valid_utf8 s \<longleftrightarrow> of_runes (runes s) = s"

definition unresolved_suffixes_equivalent ::
  "(string \<Rightarrow> string) \<Rightarrow> (string \<Rightarrow> string \<Rightarrow> bool) \<Rightarrow> string \<Rightarrow> string \<Rightarrow> bool" where
  "unresolved_suffixes_equivalent nfc equal_fold left right \<longleftrightarrow>
    left = right \<or> valid_utf8 left \<and> valid_utf8 right \<and> (nfc left = nfc right \<or> equal_fold (nfc left) (nfc right))"

definition missing_paths_equivalent ::
  "(string \<Rightarrow> string) \<Rightarrow> (string \<Rightarrow> string \<Rightarrow> bool) \<Rightarrow> file_system \<Rightarrow> string \<Rightarrow> string \<Rightarrow> bool result option" where
  "missing_paths_equivalent nfc equal_fold fs left right =
    (case deepest_existing_ancestor_and_suffix fs left of
       None \<Rightarrow> None
     | Some (Inl e) \<Rightarrow> Some (Inl e)
     | Some (Inr (left_ancestor, left_suffix)) \<Rightarrow>
         (case deepest_existing_ancestor_and_suffix fs right of
            None \<Rightarrow> None
          | Some (Inl e) \<Rightarrow> Some (Inl e)
          | Some (Inr (right_ancestor, right_suffix)) \<Rightarrow>
              Some
                (case fs_stat fs left_ancestor of
                   Inl e \<Rightarrow> Inl (Wrapped [T ''inspect path ancestor '', T left_ancestor, T '': ''] e [])
                 | Inr left_info \<Rightarrow>
                     (case fs_stat fs right_ancestor of
                        Inl e \<Rightarrow> Inl (Wrapped [T ''inspect path ancestor '', T right_ancestor, T '': ''] e [])
                      | Inr right_info \<Rightarrow>
                          Inr (si_id left_info = si_id right_info \<and>
                               unresolved_suffixes_equivalent nfc equal_fold left_suffix right_suffix)))))"

text \<open>
  \<open>PathsEquivalent\<close>. The file system may change while it runs: \<open>fs\<close> is what the links show,
  \<open>fs1\<close> the first two stats, \<open>fs2\<close> the repeated ones and \<open>fs3\<close> the search for ancestors.
\<close>

definition stat_both :: "file_system \<Rightarrow> string \<Rightarrow> string \<Rightarrow> (stat_info option \<times> stat_info option) result" where
  "stat_both fs left right =
    (case stat_comparable_path fs left of
       Inl e \<Rightarrow> Inl e
     | Inr l \<Rightarrow> (case stat_comparable_path fs right of Inl e \<Rightarrow> Inl e | Inr r \<Rightarrow> Inr (l, r)))"

definition paths_equivalent ::
  "(string \<Rightarrow> string) \<Rightarrow> (string \<Rightarrow> string \<Rightarrow> bool) \<Rightarrow> string \<Rightarrow> file_system \<Rightarrow> file_system \<Rightarrow> file_system \<Rightarrow>
   file_system \<Rightarrow> string \<Rightarrow> string \<Rightarrow> bool result option" where
  "paths_equivalent nfc equal_fold cwd fs fs1 fs2 fs3 left0 right0 =
    (case canonical_database_path cwd fs left0 of
       Inl e \<Rightarrow> Some (Inl e)
     | Inr left \<Rightarrow>
    (case canonical_database_path cwd fs right0 of
       Inl e \<Rightarrow> Some (Inl e)
     | Inr right \<Rightarrow>
         if left = right then Some (Inr True)
         else
    (case stat_both fs1 left right of
       Inl e \<Rightarrow> Some (Inl e)
     | Inr (l1, r1) \<Rightarrow>
    (case (if (l1 = None) \<noteq> (r1 = None) then stat_both fs2 left right else Inr (l1, r1)) of
       Inl e \<Rightarrow> Some (Inl e)
     | Inr (Some l, Some r) \<Rightarrow> Some (Inr (si_id l = si_id r))
     | Inr (None, None) \<Rightarrow> missing_paths_equivalent nfc equal_fold fs3 left right
     | Inr _ \<Rightarrow> Some (Inr False)))))"

section \<open>The whole configuration\<close>

definition resolve_configured_paths :: "string \<Rightarrow> file_system \<Rightarrow> config \<Rightarrow> string \<Rightarrow> bool \<Rightarrow> config result" where
  "resolve_configured_paths cwd fs cfg filename resolve_database =
    (let dir = dir_path (clean (abs_path cwd filename));
         database = (if resolve_database then canonical_database_path cwd fs (resolve_relative_path dir (d_path cfg))
                     else Inr (d_path cfg)) in
     case database of
       Inl e \<Rightarrow> Inl (wrapf ''resolve database.path: '' e)
     | Inr p \<Rightarrow> Inr (cfg\<lparr>d_path := p, v_watches := map (resolve_watch dir) (v_watches cfg)\<rparr>))"

text \<open>The keys each pipeline step of the file has, as the decoder shows them.\<close>

definition mark_command :: "string list \<Rightarrow> command_config \<Rightarrow> command_config" where
  "mark_command present c =
    c\<lparr>c_raw_args_set := ''args'' \<in> set present,
      c_structured_container := c_structured_container c \<or>
        list_ex (\<lambda>name. name \<in> set present)
          [''image'', ''mounts'', ''container_env'', ''container_args'', ''command'', ''command_args''],
      c_container_fields_set := c_container_fields_set c \<or>
        list_ex (\<lambda>name. name \<in> set present) [''image'', ''mounts'', ''container_env'', ''container_args''],
      c_container_command_set := ''command'' \<in> set present\<rparr>"

fun mark_watches :: "int \<Rightarrow> string list list list \<Rightarrow> watch_config list \<Rightarrow> watch_config list result" where
  "mark_watches i (steps # rest) (w # ws) =
    (if length steps \<noteq> length (w_pipeline w)
     then Inl (ErrorString [T ''decoded pipeline count changed for watches['', D i, T ''] while inspecting fields''])
     else (case mark_watches (i + 1) rest ws of
             Inl e \<Rightarrow> Inl e
           | Inr ws' \<Rightarrow> Inr (w\<lparr>w_pipeline := map2 mark_command steps (w_pipeline w)\<rparr> # ws')))"
| "mark_watches i steps ws = Inr ws"

definition mark_command_field_presence :: "string list list list result \<Rightarrow> config \<Rightarrow> config result" where
  "mark_command_field_presence decoded cfg =
    (case decoded of
       Inl e \<Rightarrow> Inl e
     | Inr present \<Rightarrow>
         if length present \<noteq> length (v_watches cfg)
         then Inl (new_error ''decoded watch count changed while inspecting fields'')
         else (case mark_watches 0 present (v_watches cfg) of
                 Inl e \<Rightarrow> Inl e
               | Inr ws \<Rightarrow> Inr (cfg\<lparr>v_watches := ws\<rparr>)))"

text \<open>What the file and the YAML decoder answer to \<open>load\<close>: opening, the first document, the second
  read (\<open>None\<close> is a further document), rewinding, and the keys of the steps.\<close>

record config_source =
  cs_open :: "go_error option"
  cs_config :: "config result"
  cs_extra :: "go_error option"
  cs_seek :: "go_error option"
  cs_fields :: "string list list list result"

definition load_config ::
  "int \<Rightarrow> string \<Rightarrow> file_system \<Rightarrow> config_source \<Rightarrow> string \<Rightarrow> bool \<Rightarrow> config result" where
  "load_config num_cpu cwd fs src filename managed =
    on_error (cs_open src) (wrapf ''open config: '')
    (case cs_config src of
       Inl e \<Rightarrow> Inl (wrapf ''decode config: '' e)
     | Inr cfg0 \<Rightarrow>
    (case cs_extra src of
       None \<Rightarrow> Inl (new_error ''decode config: multiple YAML documents are not supported'')
     | Some e \<Rightarrow>
         if \<not> errors_is ''EOF'' e then Inl (wrapf ''decode config: '' e)
         else
    on_error (cs_seek src) (wrapf ''inspect config fields: '')
    (case mark_command_field_presence (cs_fields src) cfg0 of
       Inl e \<Rightarrow> Inl (wrapf ''inspect config fields: '' e)
     | Inr cfg1 \<Rightarrow>
    (case validate_config (apply_defaults num_cpu (if managed then cfg1\<lparr>d_path := default_database_path\<rparr> else cfg1)) of
       Inl e \<Rightarrow> Inl e
     | Inr cfg2 \<Rightarrow> resolve_configured_paths cwd fs cfg2 filename (\<not> managed)))))"

end
