(* ===== verification/ConfigLoad.thy ===== *)
theory ConfigLoad
  imports ConfigPaths
begin

text \<open>
  What \<open>paths.go\<close> and \<open>Load\<close> guarantee: canonical paths are settled, comparing two database paths
  always ends, and a loaded configuration is valid and independent of the working directory.
\<close>

section \<open>Joining below an absolute path\<close>

lemma clean_elems_append:
  "clean_elems r acc (xs @ ys) = clean_elems r (rev (clean_elems r acc xs)) ys"
  by (induction r acc xs rule: clean_elems.induct) (auto split: list.splits)

lemma split_char_concat: "split_char c (p @ c # q) = split_char c p @ split_char c q"
proof (induction p)
  case (Cons a p)
  then show ?case by (cases "split_char c p") (auto simp: split_char_not_Nil)
qed simp

lemma abs_elems_below: "abs_elems (p @ slash # q) = clean_elems True (rev (abs_elems p)) (split_char slash q)"
  by (simp add: abs_elems_def split_char_concat clean_elems_append)

lemma is_abs_append: "is_abs p \<Longrightarrow> is_abs (p @ q)"
  by (auto simp: is_abs_def prefix_def)

lemma is_abs_Cons [simp]: "is_abs (slash # s)"
  by (simp add: is_abs_def)

lemma join_path_abs:
  assumes "is_abs p" and "good_elem e"
  shows "join_path [p, e] = slash # slashed (abs_elems p @ [e])"
proof -
  have "p \<noteq> []" "e \<noteq> []" "slash \<notin> set e" using assms by (auto simp: is_abs_def good_elem_def)
  then have "join_path [p, e] = clean (p @ slash # e)" by (simp add: join_path_def)
  also have "\<dots> = slash # slashed (clean_elems True (rev (abs_elems p)) [e])"
    using \<open>slash \<notin> set e\<close> assms(1) by (simp add: clean_abs is_abs_append abs_elems_below split_char_id)
  also have "clean_elems True (rev (abs_elems p)) [e] = abs_elems p @ [e]"
    using assms(2) by (subst clean_elems_id) simp_all
  finally show ?thesis .
qed

lemma join_components_abs:
  assumes "is_abs p" and "\<forall>c \<in> set cs. good_elem c"
  shows "join_path_components p cs = slash # slashed (abs_elems p @ cs)"
  using assms
proof (induction cs arbitrary: p)
  case Nil
  then show ?case by (simp add: join_path_components_def clean_abs)
next
  case (Cons c cs)
  let ?p = "slash # slashed (abs_elems p @ [c])"
  have good: "\<forall>e \<in> set (abs_elems p @ [c]). good_elem e" using Cons.prems abs_elems_good by auto
  have "join_path_components p (c # cs) = join_path_components ?p cs"
    using Cons.prems by (simp add: join_path_components_def join_path_abs)
  also have "\<dots> = slash # slashed (abs_elems ?p @ cs)" using Cons by simp
  finally show ?case by (simp only: abs_elems_slashed[OF good]) simp
qed

lemma join_path_is_abs:
  assumes "is_abs p"
  shows "is_abs (join_path [p, q])"
proof -
  from assms have "p \<noteq> []" by (auto simp: is_abs_def)
  with assms show ?thesis by (cases "q = []") (simp_all add: join_path_def is_abs_append)
qed

lemma abs_path_clean: "is_abs cwd \<Longrightarrow> is_abs (clean (abs_path cwd p))"
  by (cases "is_abs p") (simp_all add: abs_path_def join_path_is_abs)

lemma upto_slash_abs: "is_abs p \<Longrightarrow> is_abs (upto_slash p)"
proof -
  assume "is_abs p"
  then obtain s where p: "p = slash # s" by (auto simp: is_abs_def elim: prefixE)
  have "\<exists>u. dropWhile (\<lambda>c. c \<noteq> slash) (rev s @ [slash]) = u @ [slash]"
    by (induction "rev s" arbitrary: s) (auto simp: dropWhile_append)
  then show ?thesis by (auto simp: p upto_slash_def)
qed

lemma dir_path_is_abs: "is_abs p \<Longrightarrow> is_abs (dir_path p)"
  by (simp add: dir_path_def upto_slash_abs)

section \<open>Canonical paths\<close>

lemma split_absolute_clean:
  assumes "\<forall>e \<in> set es. good_elem e"
  shows "split_absolute_path (slash # slashed es) = (''/'', es)"
proof (cases es)
  case (Cons e es')
  then have "e \<noteq> []" using assms by (auto simp: good_elem_def)
  then have "slashed es \<noteq> []" using Cons by (cases es') auto
  with Cons assms split_slashed[of es] show ?thesis
    by (simp add: split_absolute_path_def Let_def trim_prefix_def)
qed (simp add: split_absolute_path_def trim_prefix_def)

text \<open>The first \<open>n\<close> names of a path exist and are not symbolic links; the next one is absent.\<close>

definition settled_until :: "file_system \<Rightarrow> string list \<Rightarrow> nat \<Rightarrow> bool" where
  "settled_until fs es n \<longleftrightarrow> n \<le> length es \<and>
    (\<forall>i. 0 < i \<and> i \<le> n \<longrightarrow> fs_lstat fs (slash # slashed (take i es)) = Inr False) \<and>
    (n < length es \<longrightarrow> (\<exists>e. fs_lstat fs (slash # slashed (take (Suc n) es)) = Inl e \<and> not_exist e))"

lemma walk_path_settles:
  assumes "\<forall>e \<in> set (es @ cs). good_elem e"
    and "\<forall>i. 0 < i \<and> i \<le> length es \<longrightarrow> fs_lstat fs (slash # slashed (take i (es @ cs))) = Inr False"
  shows "(case walk_path fs (slash # slashed es) cs of
      Reached p \<Rightarrow> p = slash # slashed (es @ cs) \<and> settled_until fs (es @ cs) (length (es @ cs))
    | Absent p \<Rightarrow> p = slash # slashed (es @ cs) \<and> (\<exists>n. settled_until fs (es @ cs) n)
    | Uninspectable _ _ \<Rightarrow> True
    | SymbolicLink p rest \<Rightarrow> is_abs p \<and> (\<forall>e \<in> set rest. good_elem e))"
  using assms
proof (induction cs arbitrary: es)
  case Nil
  then show ?case by (simp add: settled_until_def)
next
  case (Cons c cs)
  let ?p = "slash # slashed (es @ [c])"
  have good: "\<forall>e \<in> set es. good_elem e" "good_elem c" "\<forall>e \<in> set cs. good_elem e"
    "\<forall>e \<in> set (es @ [c]). good_elem e" using Cons.prems by auto
  have join: "join_path [slash # slashed es, c] = ?p"
    using join_path_abs[of "slash # slashed es" c] good by (simp add: abs_elems_slashed)
  show ?case
  proof (cases "fs_lstat fs ?p")
    case (Inl e)
    have "join_path_components ?p cs = slash # slashed ((es @ [c]) @ cs)"
      using join_components_abs[of ?p cs, unfolded abs_elems_slashed[OF good(4)]] good by simp
    moreover have "settled_until fs (es @ c # cs) (length es)" if "not_exist e"
      using Cons.prems(2) Inl that by (simp add: settled_until_def)
    ultimately show ?thesis using Inl join by (auto simp: Let_def)
  next
    case (Inr symlink)
    show ?thesis
    proof (cases symlink)
      case True
      then show ?thesis using Inr join good by (simp add: Let_def)
    next
      case False
      have all: "\<forall>e \<in> set ((es @ [c]) @ cs). good_elem e" using good by auto
      have "\<forall>i. 0 < i \<and> i \<le> length (es @ [c]) \<longrightarrow>
        fs_lstat fs (slash # slashed (take i ((es @ [c]) @ cs))) = Inr False"
      proof (intro allI impI)
        fix i assume i: "0 < i \<and> i \<le> length (es @ [c])"
        show "fs_lstat fs (slash # slashed (take i ((es @ [c]) @ cs))) = Inr False"
          using Cons.prems(2) i Inr False by (cases "i = Suc (length es)") auto
      qed
      from Cons.IH[OF all this, unfolded append_assoc append_Cons append_Nil] show ?thesis using Inr join False by (simp add: Let_def)
    qed
  qed
qed

lemma canonical_loop_settled:
  assumes "canonical_loop fs absolute n current = Inr p" and "is_abs current" and "clean current = current"
  shows "is_abs p \<and> clean p = p \<and> (\<exists>m. settled_until fs (abs_elems p) m) \<and>
    (\<forall>absolute'. canonical_loop fs absolute' 0 p = Inr p)"
  using assms
proof (induction fs absolute n current rule: canonical_loop.induct)
  case (1 fs absolute n current)
  let ?es = "abs_elems current"
  have current: "current = slash # slashed ?es" using "1.prems" clean_abs by metis
  have good: "\<forall>e \<in> set ?es. good_elem e" using abs_elems_good by blast
  have split: "split_absolute_path current = (''/'', ?es)" using split_absolute_clean[OF good] current by metis
  note walk = walk_path_settles[of "[]" ?es fs]
  show ?case
  proof (cases "walk_path fs ''/'' ?es")
    case (SymbolicLink candidate rest)
    with walk good have c: "is_abs candidate" "\<forall>e \<in> set rest. good_elem e" by auto
    from SymbolicLink "1.prems"(1) split have depth: "\<not> max_canonical_path_symlink_depth < Suc n"
      by (simp add: canonical_loop.simps[of fs absolute n current] split: if_splits)
    with SymbolicLink "1.prems"(1) split obtain target where target: "fs_readlink fs candidate = Inr target"
      by (auto simp: canonical_loop.simps[of fs absolute n current] split: sum.splits)
    let ?t = "if is_abs target then target else join_path [dir_path candidate, target]"
    have t: "is_abs ?t" using c(1) by (simp add: dir_path_is_abs join_path_is_abs)
    have next_path: "join_path_components ?t rest = slash # slashed (abs_elems ?t @ rest)"
      by (rule join_components_abs[OF t c(2)])
    have "canonical_loop fs absolute (Suc n) (join_path_components ?t rest) = Inr p"
      using SymbolicLink "1.prems"(1) split depth target
      by (simp add: canonical_loop.simps[of fs absolute n current] Let_def)
    moreover have "is_abs (join_path_components ?t rest)" unfolding next_path by simp
    moreover have "clean (join_path_components ?t rest) = join_path_components ?t rest"
    proof -
      have "\<forall>e \<in> set (abs_elems ?t @ rest). good_elem e" using c(2) abs_elems_good by auto
      from abs_elems_slashed[OF this] show ?thesis unfolding next_path by (simp only: clean_abs is_abs_Cons)
    qed
    ultimately show ?thesis using "1.IH"[OF split[symmetric] SymbolicLink depth target refl] by blast
  next
    case (Uninspectable candidate e)
    with "1.prems"(1) split show ?thesis by (simp add: canonical_loop.simps[of fs absolute n current])
  next
    case (Reached r)
    with walk good current have r: "r = current" "settled_until fs ?es (length ?es)" by auto
    have loop: "canonical_loop fs a k current = Inr current" for a k
      using Reached split r(1) "1.prems"(3) by (simp add: canonical_loop.simps[of fs a k current])
    then show ?thesis using "1.prems" r by auto
  next
    case (Absent r)
    with walk good current have r: "r = current" "\<exists>m. settled_until fs ?es m" by auto
    have loop: "canonical_loop fs a k current = Inr current" for a k
      using Absent split r(1) "1.prems"(3) by (simp add: canonical_loop.simps[of fs a k current])
    then show ?thesis using "1.prems" r by auto
  qed
qed

text \<open>The canonical path of a database is settled. It is absolute and clean, the directories on it
  that exist are not symbolic links, and taking the canonical path of it again, from any working
  directory, changes nothing: two configurations that name one file through different links agree.\<close>

theorem canonical_path_settled:
  assumes "is_abs cwd" and "canonical_database_path cwd fs name = Inr p"
  shows "is_abs p \<and> clean p = p \<and> (\<exists>n. settled_until fs (abs_elems p) n) \<and>
    canonical_database_path cwd' fs p = Inr p"
proof -
  let ?a = "clean (abs_path cwd name)"
  have a: "is_abs ?a" "clean ?a = ?a" using assms(1) by (cases "is_abs name", simp_all add: abs_path_def join_path_is_abs)
  have "canonical_loop fs ?a 0 ?a = Inr p"
    using assms(2) by (simp add: canonical_database_path_def Let_def split: if_splits)
  from canonical_loop_settled[OF this a] have p: "is_abs p" "clean p = p" "\<exists>n. settled_until fs (abs_elems p) n"
    and loop: "\<And>a. canonical_loop fs a 0 p = Inr p" by auto
  from p have "p \<noteq> []" "clean (abs_path cwd' p) = p" by (auto simp: abs_path_def is_abs_def)
  with p loop show ?thesis by (simp add: canonical_database_path_def)
qed

text \<open>A link beside a database that does not exist yet.\<close>

definition demo_fs :: file_system where
  "demo_fs = \<lparr>fs_lstat = (\<lambda>p. if p = ''/l'' then Inr True else if p = ''/d'' then Inr False
       else Inl (Sentinel ''file does not exist'')),
     fs_readlink = (\<lambda>_. Inr ''d''), fs_stat = (\<lambda>_. Inr \<lparr>si_id = 1, si_dir = True\<rparr>)\<rparr>"

lemma demo_canonical: "canonical_database_path ''/'' demo_fs ''l/q.db'' = Inr ''/d/q.db''"
  by code_simp

theorem canonical_path_settled_witness: "canonical_database_path ''/x'' demo_fs ''/d/q.db'' = Inr ''/d/q.db''"
  using canonical_path_settled[OF _ demo_canonical, of "''/x''"] by (simp add: is_abs_def)

section \<open>Comparing paths\<close>

lemma upto_slash_append: "slash \<notin> set e \<Longrightarrow> upto_slash (q @ slash # e) = q @ [slash]"
proof -
  assume "slash \<notin> set e"
  then have "dropWhile (\<lambda>c. c \<noteq> slash) (rev e @ slash # rev q) = slash # rev q"
    by (subst dropWhile_append2) auto
  then show ?thesis by (simp add: upto_slash_def)
qed

lemma dir_path_below:
  assumes "\<forall>x \<in> set (es @ [e]). good_elem x"
  shows "dir_path (slash # slashed (es @ [e])) = slash # slashed es"
proof (cases "es = []")
  case True
  then show ?thesis using assms upto_slash_append[of e "[]"]
    by (simp add: dir_path_def good_elem_def clean_abs abs_elems_def)
next
  case False
  let ?q = "slash # slashed es"
  have q: "abs_elems ?q = es" by (rule abs_elems_slashed) (use assms in simp)
  have "slash # slashed (es @ [e]) = ?q @ slash # e" using slashed_snoc[OF False] by simp
  moreover have "slash \<notin> set e" using assms by (simp add: good_elem_def)
  ultimately have "dir_path (slash # slashed (es @ [e])) = clean (?q @ [slash])"
    by (simp only: dir_path_def upto_slash_append not_False_eq_True)
  also have "\<dots> = slash # slashed (abs_elems (?q @ slash # []))" by (simp add: clean_abs)
  also have "abs_elems (?q @ slash # []) = es" using q by (simp add: abs_elems_below del: append_Cons)
  finally show ?thesis .
qed

lemma root_dir [simp]: "dir_path ''/'' = ''/''"
  by code_simp

text \<open>The search for an existing ancestor ends, and it only indexes an empty slice when the path itself
  exists.\<close>

lemma deepest_existing_total:
  assumes "\<forall>e \<in> set es. good_elem e"
  shows "\<exists>r. deepest_existing fs p (slash # slashed es) missing = Some r \<and>
    (missing \<noteq> [] \<or> isl (fs_stat fs (slash # slashed es)) \<longrightarrow> r \<noteq> Inl err_index_panic)"
  using assms
proof (induction es arbitrary: missing rule: rev_induct)
  case Nil
  show ?case
    by (subst deepest_existing.simps) (auto simp: err_index_panic_def split: sum.splits list.splits)
next
  case (snoc e es)
  show ?case
  proof (cases "fs_stat fs (slash # slashed (es @ [e]))")
    case (Inr info)
    then show ?thesis
      by (subst deepest_existing.simps) (auto simp: err_index_panic_def split: list.splits)
  next
    case (Inl err)
    show ?thesis
    proof (cases "\<not> not_exist err \<or> dir_path (slash # slashed (es @ [e])) = slash # slashed (es @ [e])")
      case True
      then show ?thesis using Inl
        by (subst deepest_existing.simps) (auto simp: err_index_panic_def)
    next
      case False
      have "deepest_existing fs p (slash # slashed (es @ [e])) missing =
          deepest_existing fs p (slash # slashed es) (missing @ [base_path (slash # slashed (es @ [e]))])"
        using Inl False dir_path_below[OF snoc.prems] by (subst deepest_existing.simps) auto
      then show ?thesis using snoc.IH[of "missing @ [base_path (slash # slashed (es @ [e]))]"] snoc.prems
        by auto
    qed
  qed
qed

lemma ancestor_total:
  assumes "is_abs p" and "clean p = p"
  shows "\<exists>r. deepest_existing_ancestor_and_suffix fs p = Some r \<and>
    (isl (fs_stat fs p) \<longrightarrow> r \<noteq> Inl err_index_panic)"
proof -
  have "p = slash # slashed (abs_elems p)" using assms clean_abs by metis
  with deepest_existing_total[of "abs_elems p" fs p "[]"] abs_elems_good assms(2) show ?thesis
    unfolding deepest_existing_ancestor_and_suffix_def by auto
qed

lemma canonical_shape:
  "is_abs cwd \<Longrightarrow> canonical_database_path cwd fs name = Inr p \<Longrightarrow> is_abs p \<and> clean p = p"
proof -
  assume a: "is_abs cwd" and c: "canonical_database_path cwd fs name = Inr p"
  let ?a = "clean (abs_path cwd name)"
  have "is_abs ?a" "clean ?a = ?a" using a by (cases "is_abs name", simp_all add: abs_path_def join_path_is_abs)
  moreover have "canonical_loop fs ?a 0 ?a = Inr p"
    using c by (simp add: canonical_database_path_def Let_def split: if_splits)
  ultimately show ?thesis using canonical_loop_settled by blast
qed

lemma canonical_error: "canonical_loop fs absolute n current = Inl e \<Longrightarrow> e \<noteq> err_index_panic"
  by (induction fs absolute n current rule: canonical_loop.induct)
    (subst (asm) (2) canonical_loop.simps, auto simp: err_index_panic_def Let_def
      split: walk_result.splits if_splits sum.splits prod.splits)

lemma stat_both_error: "stat_both fs l r = Inl e \<Longrightarrow> e \<noteq> err_index_panic"
  by (auto simp: stat_both_def stat_comparable_path_def err_index_panic_def split: sum.splits if_splits)

lemma canonical_database_error: "canonical_database_path cwd fs name = Inl e \<Longrightarrow> e \<noteq> err_index_panic"
  using canonical_error by (auto simp: canonical_database_path_def err_index_panic_def Let_def split: if_splits)

lemma missing_paths_total:
  assumes "is_abs l \<and> clean l = l" and "is_abs r \<and> clean r = r"
  shows "\<exists>x. missing_paths_equivalent nfc fold_eq fs l r = Some x \<and>
    (isl (fs_stat fs l) \<and> isl (fs_stat fs r) \<longrightarrow> x \<noteq> Inl err_index_panic)"
proof -
  obtain x where x: "deepest_existing_ancestor_and_suffix fs l = Some x"
    "isl (fs_stat fs l) \<longrightarrow> x \<noteq> Inl err_index_panic" using ancestor_total assms(1) by blast
  obtain y where y: "deepest_existing_ancestor_and_suffix fs r = Some y"
    "isl (fs_stat fs r) \<longrightarrow> y \<noteq> Inl err_index_panic" using ancestor_total assms(2) by blast
  show ?thesis
    using x y by (auto simp: missing_paths_equivalent_def err_index_panic_def split: sum.splits)
qed

text \<open>The comparison of two database paths always ends, whatever the links and however the files
  change meanwhile, and while the files do not change between its stats it answers or fails with a
  reason: it never indexes the empty list of missing names.\<close>

theorem path_comparison_total:
  assumes "is_abs cwd"
  shows "\<exists>r. paths_equivalent nfc fold_eq cwd fs fs1 fs2 fs3 left right = Some r \<and>
    (fs1 = fs2 \<and> fs2 = fs3 \<longrightarrow> r \<noteq> Inl err_index_panic)"
proof (cases "canonical_database_path cwd fs left")
  case (Inl e)
  then show ?thesis using canonical_database_error[OF Inl] by (auto simp: paths_equivalent_def)
next
  case (Inr l)
  note l = Inr canonical_shape[OF assms Inr]
  show ?thesis
  proof (cases "canonical_database_path cwd fs right")
    case (Inl e)
    then show ?thesis using l canonical_database_error[OF Inl] by (auto simp: paths_equivalent_def)
  next
    case (Inr r)
    note r = Inr canonical_shape[OF assms Inr]
    obtain x where x: "missing_paths_equivalent nfc fold_eq fs3 l r = Some x"
      "isl (fs_stat fs3 l) \<and> isl (fs_stat fs3 r) \<longrightarrow> x \<noteq> Inl err_index_panic"
      using missing_paths_total l(2) r(2) by blast
    have absent: "isl (fs_stat fs' l) \<and> isl (fs_stat fs' r)" if "stat_both fs' l r = Inr (None, None)" for fs'
      using that by (auto simp: stat_both_def stat_comparable_path_def split: sum.splits if_splits)
    show ?thesis
      using l(1) r(1) x absent[of fs1] absent[of fs2] stat_both_error[of fs1 l r] stat_both_error[of fs2 l r]
      by (cases "l = r"; cases "stat_both fs1 l r"; cases "stat_both fs2 l r")
        (auto simp: paths_equivalent_def split: option.splits if_splits)
  qed
qed

theorem path_comparison_total_witness:
  "\<exists>r. paths_equivalent id (=) ''/'' demo_fs demo_fs demo_fs demo_fs ''l/a'' ''d/b'' = Some r \<and> r \<noteq> Inl err_index_panic"
  using path_comparison_total[of "''/''" id "(=)" demo_fs demo_fs demo_fs demo_fs "''l/a''" "''d/b''"]
  by (auto simp: is_abs_def)

definition absent_fs :: file_system where
  "absent_fs = \<lparr>fs_lstat = (\<lambda>_. Inl (Sentinel ''file does not exist'')),
     fs_readlink = (\<lambda>_. Inl (Sentinel ''file does not exist'')),
     fs_stat = (\<lambda>_. Inl (Sentinel ''file does not exist''))\<rparr>"

text \<open>The comparison can index an empty list when a path appears as a directory after it was found
  absent: with the two paths absent at first and the left one present when its ancestor is looked up,
  the model reaches the panic.\<close>

theorem path_comparison_race:
  "paths_equivalent id (=) ''/'' absent_fs absent_fs absent_fs
     (absent_fs\<lparr>fs_stat := (\<lambda>_. Inr \<lparr>si_id = 1, si_dir = True\<rparr>)\<rparr>) ''/a'' ''/b'' = Some (Inl err_index_panic)"
proof -
  have c: "canonical_database_path ''/'' absent_fs ''/a'' = Inr ''/a''"
    "canonical_database_path ''/'' absent_fs ''/b'' = Inr ''/b''" by code_simp+
  show ?thesis
    unfolding paths_equivalent_def c
    by (simp add: stat_both_def stat_comparable_path_def absent_fs_def missing_paths_equivalent_def
        deepest_existing_ancestor_and_suffix_def deepest_existing.simps)
qed

section \<open>A loaded configuration\<close>

lemma resolve_relative_abs: "is_abs dir \<Longrightarrow> is_abs (resolve_relative_path dir p)"
  by (simp add: resolve_relative_path_def join_path_is_abs)

lemma resolve_relative_clean: "is_abs dir \<Longrightarrow> clean (resolve_relative_path dir p) = resolve_relative_path dir p"
  by (cases "is_abs p") (simp_all add: resolve_relative_path_def join_path_is_abs)

definition templated :: "string \<Rightarrow> bool" where
  "templated p \<longleftrightarrow> contains p file_template \<or> contains p dir_template"

lemma resolve_template_cases: "is_abs dir \<Longrightarrow> templated (resolve_template_path dir p) \<or> is_abs (resolve_template_path dir p)"
  by (simp add: resolve_template_path_def templated_def resolve_relative_abs)

lemma abs_not_blank: "is_abs p \<Longrightarrow> \<not> blank p"
  using path_like_not_blank by blast

lemma template_not_blank: "is_abs dir \<Longrightarrow> \<not> blank p \<Longrightarrow> \<not> blank (resolve_template_path dir p)"
  using abs_not_blank resolve_relative_abs by (auto simp: resolve_template_path_def)

lemma transport_not_blank: "\<not> blank (''docker-archive:'' @ s)" "\<not> blank (''oci-archive:'' @ s)"
  by (rule not_blank_leading; simp add: leading_space_def space_encodings_def)+

lemma image_not_blank:
  "is_abs dir \<Longrightarrow> \<not> blank p \<Longrightarrow> \<not> blank (resolve_apptainer_image dir p)"
  using transport_not_blank template_not_blank by (auto simp: resolve_apptainer_image_def Let_def)

lemma image_Nil [simp]: "resolve_apptainer_image dir [] = []"
  by (simp add: resolve_apptainer_image_def)

lemma image_empty: "is_abs dir \<Longrightarrow> resolve_apptainer_image dir p = [] \<longleftrightarrow> p = []"
proof -
  assume "is_abs dir"
  then have "resolve_template_path dir p \<noteq> []" if "p \<noteq> []" for p
    using resolve_relative_abs[of dir p] \<open>is_abs dir\<close> that by (auto simp: resolve_template_path_def is_abs_def)
  then show ?thesis by (auto simp: resolve_apptainer_image_def Let_def)
qed

lemma resolve_command_simps [simp]:
  "c_name (resolve_command dir c) = c_name c" "c_executor (resolve_command dir c) = c_executor c"
  "c_args (resolve_command dir c) = c_args c" "c_timeout (resolve_command dir c) = c_timeout c"
  "c_env (resolve_command dir c) = c_env c" "c_program (resolve_command dir c) = resolve_program dir (c_program c)"
  "c_working_dir (resolve_command dir c) = resolve_working_directory dir (c_working_dir c)"
  "c_mounts (resolve_command dir c) = map (\<lambda>m. m\<lparr>m_source := resolve_template_path dir (m_source m)\<rparr>) (c_mounts c)"
  "c_container_env (resolve_command dir c) = c_container_env c"
  "c_container_args (resolve_command dir c) = c_container_args c"
  "c_command (resolve_command dir c) = c_command c" "c_command_args (resolve_command dir c) = c_command_args c"
  "c_structured_container (resolve_command dir c) = c_structured_container c"
  "c_container_command_set (resolve_command dir c) = c_container_command_set c"
  "c_raw_args_set (resolve_command dir c) = c_raw_args_set c"
  "c_container_fields_set (resolve_command dir c) = c_container_fields_set c"
  "c_image (resolve_command dir c) =
    (if c_executor c = ExecutorApptainer \<and> uses_structured_container c
     then resolve_apptainer_image dir (c_image c) else c_image c)"
  by (simp_all add: resolve_command_def Let_def uses_structured_container_def)

lemma resolve_uses:
  "is_abs dir \<Longrightarrow> uses_structured_container (resolve_command dir c) = uses_structured_container c"
  "is_abs dir \<Longrightarrow> uses_container_fields (resolve_command dir c) = uses_container_fields c"
  by (auto simp: uses_structured_container_def uses_container_fields_def image_empty)

lemma check_mount_source:
  "check_mount m i = None \<Longrightarrow> \<not> blank s \<Longrightarrow> check_mount (m\<lparr>m_source := s\<rparr>) i = None"
  by (auto simp: check_mount_def split: if_splits)

lemma check_mount_blank: "check_mount m i = None \<Longrightarrow> \<not> blank (m_source m)"
  by (auto simp: check_mount_def split: if_splits)

lemma check_mounts_resolved:
  assumes "is_abs dir" and "first_error check_mount i ms = None"
  shows "first_error check_mount i (map (\<lambda>m. m\<lparr>m_source := resolve_template_path dir (m_source m)\<rparr>) ms) = None"
  unfolding first_error_None
proof (intro allI impI)
  fix k assume "k < length (map (\<lambda>m. m\<lparr>m_source := resolve_template_path dir (m_source m)\<rparr>) ms)"
  then have k: "k < length ms" by simp
  with assms(2) have ok: "check_mount (ms ! k) (i + int k) = None" by (simp add: first_error_None)
  from check_mount_source[OF ok template_not_blank[OF assms(1) check_mount_blank[OF ok]]] k
  show "check_mount (map (\<lambda>m. m\<lparr>m_source := resolve_template_path dir (m_source m)\<rparr>) ms ! k) (i + int k) = None"
    by simp
qed

lemma resolve_validates:
  assumes dir: "is_abs dir" and ok: "validate_execution c = None"
  shows "validate_execution (resolve_command dir c) = None"
proof (cases "c_executor c = ExecutorShell")
  case True
  with ok have "validate_shell c = None" by (simp add: validate_execution_def)
  moreover have "validate_shell (resolve_command dir c) = validate_shell c"
    using resolve_uses(2)[OF dir, of c] by (simp add: validate_shell_def)
  ultimately show ?thesis using True by (simp add: validate_execution_def)
next
  case False
  show ?thesis
  proof (cases "uses_structured_container c")
    case True
    with ok False have "validate_structured_container c = None" by (simp add: validate_execution_def)
    then have "validate_structured_container (resolve_command dir c) = None"
      using check_mounts_resolved[OF dir, of 0 "c_mounts c"] image_not_blank[OF dir, of "c_image c"]
      by (auto simp: validate_structured_container_def split: if_splits)
    then show ?thesis
      using True False resolve_uses(1)[OF dir, of c] by (simp add: validate_execution_def)
  next
    case un: False
    with False resolve_uses(1)[OF dir, of c] show ?thesis
      by (simp add: validate_execution_def)
  qed
qed

lemma plain_command_args:
  assumes "c_executor c = ExecutorCommand" and "validate_execution c = None"
  shows "execution_args c = c_args c \<longleftrightarrow> \<not> uses_structured_container c"
  using assms by (auto simp: validate_execution_def validate_structured_container_def execution_args_def split: if_splits)

lemma program_not_blank: "is_abs dir \<Longrightarrow> \<not> blank p \<Longrightarrow> \<not> blank (resolve_program dir p)"
  using abs_not_blank resolve_relative_abs by (auto simp: resolve_program_def)

lemma resolve_command_ok:
  assumes dir: "is_abs dir" and ok: "command_ok c"
  shows "command_ok (resolve_command dir c)"
proof -
  let ?c = "resolve_command dir c"
  have "execution_args ?c = c_args ?c" if "c_executor ?c = ExecutorCommand"
  proof -
    have e: "c_executor c = ExecutorCommand" using that by simp
    with ok have "\<not> uses_structured_container c" using plain_command_args[of c] by (simp add: command_ok_def)
    then show ?thesis
      using plain_command_args[OF that] resolve_validates[OF dir] ok resolve_uses(1)[OF dir, of c]
      by (simp add: command_ok_def)
  qed
  then show ?thesis
    using ok resolve_validates[OF dir] program_not_blank[OF dir]
    by (simp add: command_ok_def)
qed

text \<open>A step does not depend on the directory the program was started in.\<close>

definition anchored :: "command_config \<Rightarrow> bool" where
  "anchored c \<longleftrightarrow>
    (slash \<in> set (c_program c) \<or> CHR 0x5C \<in> set (c_program c) \<longrightarrow> is_abs (c_program c)) \<and>
    (c_working_dir c \<noteq> [] \<longrightarrow> templated (c_working_dir c) \<or> is_abs (c_working_dir c)) \<and>
    (\<forall>m \<in> set (c_mounts c). templated (m_source m) \<or> is_abs (m_source m))"

lemma resolve_command_anchored: "is_abs dir \<Longrightarrow> anchored (resolve_command dir c)"
  using resolve_template_cases resolve_relative_abs
  by (auto simp: anchored_def resolve_program_def resolve_working_directory_def list_ex_iff)

lemma resolve_watch_ok:
  assumes "is_abs dir" and "watch_ok w"
  shows "watch_ok (resolve_watch dir w) \<and> is_abs (w_path (resolve_watch dir w)) \<and>
    clean (w_path (resolve_watch dir w)) = w_path (resolve_watch dir w) \<and>
    (\<forall>c \<in> set (w_pipeline (resolve_watch dir w)). anchored c)"
  using assms resolve_command_ok[OF assms(1)] resolve_command_anchored[OF assms(1)]
    resolve_relative_abs[OF assms(1), of "w_path w"] resolve_relative_clean[OF assms(1), of "w_path w"]
    abs_not_blank[OF resolve_relative_abs[OF assms(1)], of "w_path w"]
  by (simp add: watch_ok_def resolve_watch_def)

lemma resolved_config_ok:
  assumes dir: "is_abs cwd" and r: "resolve_configured_paths cwd fs c filename database = Inr c'"
    and ok: "0 < q_workers c \<and> 0 \<le> q_max_retries c \<and> 0 \<le> q_retry_delay c \<and> \<not> blank (d_path c) \<and>
      v_watches c \<noteq> [] \<and> distinct (map w_name (v_watches c)) \<and> (\<forall>w \<in> set (v_watches c). watch_ok w)"
  shows "0 < q_workers c' \<and> 0 \<le> q_max_retries c' \<and> 0 \<le> q_retry_delay c' \<and> \<not> blank (d_path c') \<and>
    v_watches c' \<noteq> [] \<and> distinct (map w_name (v_watches c')) \<and>
    (\<forall>w \<in> set (v_watches c'). watch_ok w \<and> is_abs (w_path w) \<and> clean (w_path w) = w_path w \<and>
       (\<forall>s \<in> set (w_pipeline w). anchored s)) \<and> (database \<longrightarrow> is_abs (d_path c'))"
proof -
  let ?dir = "dir_path (clean (abs_path cwd filename))"
  have d: "is_abs ?dir" using abs_path_clean[OF dir] by (rule dir_path_is_abs)
  from r obtain p where c': "c' = c\<lparr>d_path := p, v_watches := map (resolve_watch ?dir) (v_watches c)\<rparr>"
    and p: "if database then canonical_database_path cwd fs (resolve_relative_path ?dir (d_path c)) = Inr p else p = d_path c"
    by (auto simp: resolve_configured_paths_def Let_def split: sum.splits if_splits)
  have "\<not> blank p \<and> (database \<longrightarrow> is_abs p)"
    using p ok canonical_shape[OF dir] abs_not_blank by (metis (full_types))
  moreover have "w_name \<circ> resolve_watch ?dir = w_name"
    by (auto simp: resolve_watch_def)
  ultimately show ?thesis
    using ok resolve_watch_ok[OF d] by (auto simp: c')
qed

text \<open>C32: A configuration that \<open>Load\<close> returns is safe to run, wherever the program was started: it has
  positive workers, distinct watch names, watches that validation accepts still after their paths
  were anchored, absolute clean watch roots, programs with a separator, working directories and mount
  sources that are absolute or per-job templates, and for a standalone run an absolute database.\<close>

theorem loaded_config_ok:
  assumes "is_abs cwd" and "load_config num_cpu cwd fs src filename managed = Inr c"
  shows "0 < q_workers c \<and> 0 \<le> q_max_retries c \<and> 0 \<le> q_retry_delay c \<and> \<not> blank (d_path c) \<and>
    v_watches c \<noteq> [] \<and> distinct (map w_name (v_watches c)) \<and>
    (\<forall>w \<in> set (v_watches c). watch_ok w \<and> is_abs (w_path w) \<and> clean (w_path w) = w_path w \<and>
       (\<forall>s \<in> set (w_pipeline w). anchored s)) \<and> (\<not> managed \<longrightarrow> is_abs (d_path c))"
proof -
  from assms(2) obtain c1 c2 where c2: "validate_config c1 = Inr c2"
    and r: "resolve_configured_paths cwd fs c2 filename (\<not> managed) = Inr c"
    by (auto simp: load_config_def split: sum.splits option.splits if_splits)
  show ?thesis by (rule resolved_config_ok[OF assms(1) r validated_ok[OF c2]])
qed

definition demo_source :: config_source where
  "demo_source = \<lparr>cs_open = None, cs_config = Inr demo_config, cs_extra = Some (Sentinel ''EOF''), cs_seek = None,
     cs_fields = Inr [[[''name'', ''program'', ''args'', ''env'']]]\<rparr>"

lemma demo_loads: "isl (load_config 4 ''/srv'' demo_fs demo_source ''c.yaml'' False) = False"
  by code_simp

theorem loaded_config_ok_witness:
  "\<exists>c. load_config 4 ''/srv'' demo_fs demo_source ''c.yaml'' False = Inr c \<and> is_abs (d_path c)"
proof -
  from demo_loads obtain c where "load_config 4 ''/srv'' demo_fs demo_source ''c.yaml'' False = Inr c"
    by (cases "load_config 4 ''/srv'' demo_fs demo_source ''c.yaml'' False") auto
  with loaded_config_ok[OF _ this] show ?thesis by (auto simp: is_abs_def)
qed

end
