(* ===== verification/LogStream.thy ===== *)
theory LogStream
  imports GoString "HOL-Library.Word"
begin

text \<open>
  The bounded log of an instance (\<open>internal/control/logs.go\<close>): \<open>LogStream\<close> and its subscriptions.
  Every operation holds the stream's lock; consumers of a subscription's channel do not, so they may
  receive between two channel operations of a delivery: \<open>taken i n\<close> says how many lines the consumer
  of channel \<open>i\<close> receives at the two points of the \<open>n\<close>th delivery to it. Channels keep what was
  offered to them and what their consumer received, and whether a send or close hit a closed channel.
  Buffer sizes are natural numbers: sums that overflow an \<open>int\<close> are not reached, since \<open>make\<close> panics first.
\<close>

section \<open>State\<close>

record channel =
  ch_cap :: nat
  ch_buf :: "string list"
  ch_closed :: bool
  ch_offered :: "string list"
  ch_received :: "string list"
  ch_fault :: bool

record log_stream =
  lg_capacity :: nat
  lg_subscriber_buffer :: nat
  lg_max_line_bytes :: nat
  lg_max_bytes :: nat
  lg_retained_bytes :: int
  lg_lines :: "string list"
  lg_partial :: string
  lg_truncated :: bool
  lg_subscribers :: "(64 word \<times> nat) list"
  lg_next_subscriber_id :: "64 word"
  lg_closed :: bool
  lg_channels :: "channel list"
  lg_published :: "string list"

definition default_log_capacity :: nat where
  "default_log_capacity = 256"

definition default_log_subscriber_buffer :: nat where
  "default_log_subscriber_buffer = 32"

definition default_max_log_line_bytes :: nat where
  "default_max_log_line_bytes = 64 * 1024"

definition default_max_log_bytes :: nat where
  "default_max_log_bytes = 256 * 1024"

definition or_default :: "int \<Rightarrow> nat \<Rightarrow> nat" where
  "or_default n d = (if n \<le> 0 then d else nat n)"

definition new_log_stream :: "int \<Rightarrow> int \<Rightarrow> int \<Rightarrow> int \<Rightarrow> log_stream" where
  "new_log_stream capacity subscriber_buffer max_line_bytes max_bytes =
    \<lparr>lg_capacity = or_default capacity default_log_capacity,
     lg_subscriber_buffer = or_default subscriber_buffer default_log_subscriber_buffer,
     lg_max_line_bytes = or_default max_line_bytes default_max_log_line_bytes,
     lg_max_bytes = or_default max_bytes default_max_log_bytes,
     lg_retained_bytes = 0, lg_lines = [], lg_partial = [], lg_truncated = False, lg_subscribers = [],
     lg_next_subscriber_id = 0, lg_closed = False, lg_channels = [], lg_published = []\<rparr>"

section \<open>Channels\<close>

definition receive :: "channel \<Rightarrow> channel" where
  "receive c =
    (case ch_buf c of
       [] \<Rightarrow> c
     | line # rest \<Rightarrow> c\<lparr>ch_buf := rest, ch_received := ch_received c @ [line]\<rparr>)"

definition discard :: "channel \<Rightarrow> channel" where
  "discard c = c\<lparr>ch_buf := tl (ch_buf c)\<rparr>"

definition push :: "string \<Rightarrow> channel \<Rightarrow> channel" where
  "push line c = (if length (ch_buf c) < ch_cap c then c\<lparr>ch_buf := ch_buf c @ [line]\<rparr> else c)"

text \<open>The two selects of a delivery, with the consumer's receives between them.\<close>

definition deliver :: "nat \<times> nat \<Rightarrow> string \<Rightarrow> channel \<Rightarrow> channel" where
  "deliver took line c0 =
    (let c = c0\<lparr>ch_offered := ch_offered c0 @ [line]\<rparr> in
     if ch_closed c then c\<lparr>ch_fault := True\<rparr>
     else if length (ch_buf c) < ch_cap c then push line c
     else push line ((receive ^^ snd took) (discard ((receive ^^ fst took) c))))"

definition close_channel :: "channel \<Rightarrow> channel" where
  "close_channel c = (if ch_closed c then c\<lparr>ch_fault := True\<rparr> else c\<lparr>ch_closed := True\<rparr>)"

fun update_channel :: "nat \<Rightarrow> (channel \<Rightarrow> channel) \<Rightarrow> channel list \<Rightarrow> channel list" where
  "update_channel i f [] = []"
| "update_channel 0 f (c # cs) = f c # cs"
| "update_channel (Suc i) f (c # cs) = c # update_channel i f cs"

section \<open>Writing\<close>

fun make_room :: "nat \<Rightarrow> nat \<Rightarrow> nat \<Rightarrow> string list \<Rightarrow> int \<Rightarrow> string list \<times> int" where
  "make_room capacity max_bytes n [] retained = ([], retained)"
| "make_room capacity max_bytes n (l # ls) retained =
    (if capacity \<le> Suc (length ls) \<or> int max_bytes < retained + int n
     then make_room capacity max_bytes n ls (retained - int (length l)) else (l # ls, retained))"

text \<open>The order in which Go's map iteration visits the subscribers does not matter: each delivery
  touches its own channel.\<close>

definition deliver_all ::
  "(nat \<Rightarrow> nat \<Rightarrow> nat \<times> nat) \<Rightarrow> string \<Rightarrow> (64 word \<times> nat) list \<Rightarrow> channel list \<Rightarrow> channel list" where
  "deliver_all taken line subscribers channels =
    fold (\<lambda>(_, i). update_channel i (\<lambda>c. deliver (taken i (length (ch_offered c))) line c)) subscribers channels"

definition publish :: "(nat \<Rightarrow> nat \<Rightarrow> nat \<times> nat) \<Rightarrow> string \<Rightarrow> log_stream \<Rightarrow> log_stream" where
  "publish taken line s =
    (case make_room (lg_capacity s) (lg_max_bytes s) (length line) (lg_lines s) (lg_retained_bytes s) of
       (lines, retained) \<Rightarrow>
         s\<lparr>lg_lines := (if length line \<le> lg_max_bytes s then lines @ [line] else lines),
           lg_retained_bytes := (if length line \<le> lg_max_bytes s then retained + int (length line) else retained),
           lg_channels := deliver_all taken line (lg_subscribers s) (lg_channels s),
           lg_published := lg_published s @ [line]\<rparr>)"

definition append_segment :: "string \<Rightarrow> log_stream \<Rightarrow> log_stream" where
  "append_segment segment s =
    (if lg_truncated s \<or> segment = [] then s
     else
       (let remaining = int (lg_max_line_bytes s) - int (length (lg_partial s)) in
        if remaining \<le> 0 then s\<lparr>lg_truncated := True\<rparr>
        else if int (length segment) \<le> remaining then s\<lparr>lg_partial := lg_partial s @ segment\<rparr>
        else s\<lparr>lg_partial := lg_partial s @ take (nat remaining) segment, lg_truncated := True\<rparr>))"

definition newline :: char where
  "newline = CHR 0x0A"

definition publish_partial :: "(nat \<Rightarrow> nat \<Rightarrow> nat \<times> nat) \<Rightarrow> log_stream \<Rightarrow> log_stream" where
  "publish_partial taken s =
    (let line = lg_partial s @ (if lg_truncated s then ''... [truncated]'' else []) in
     (publish taken (line @ [newline]) s)\<lparr>lg_partial := [], lg_truncated := False\<rparr>)"

lemma cut_char_shorter: "cut_char c s = (seg, rest, True) \<Longrightarrow> length rest < length s"
  by (induction s arbitrary: seg) (auto split: if_splits prod.splits)

function write_loop :: "(nat \<Rightarrow> nat \<Rightarrow> nat \<times> nat) \<Rightarrow> string \<Rightarrow> log_stream \<Rightarrow> log_stream" where
  "write_loop taken value s =
    (if value = [] then s
     else
       (case cut_char newline value of (segment, rest, complete) \<Rightarrow>
          if complete then write_loop taken rest (publish_partial taken (append_segment segment s))
          else append_segment segment s))"
  by pat_completeness auto
termination
  by (relation "measure (\<lambda>(taken, value, s). length value)") (auto intro: cut_char_shorter[OF sym])

declare write_loop.simps [simp del]

text \<open>\<open>Write\<close> answers the number of bytes it was given and never fails.\<close>

definition log_write :: "(nat \<Rightarrow> nat \<Rightarrow> nat \<times> nat) \<Rightarrow> string \<Rightarrow> log_stream \<Rightarrow> int \<times> log_stream" where
  "log_write taken value s = (int (length value), if lg_closed s then s else write_loop taken value s)"

section \<open>Reading\<close>

definition log_snapshot :: "log_stream \<Rightarrow> string list" where
  "log_snapshot s = lg_lines s"

text \<open>
  \<open>Subscribe\<close>: the subscription (its id, \<open>None\<close> when it is not registered, and its channel) and the
  stream; \<open>None\<close> when sending the history blocks for ever, with the lock held.
\<close>

definition log_subscribe :: "log_stream \<Rightarrow> ((64 word option \<times> nat) \<times> log_stream) option" where
  "log_subscribe s =
    (let size = max 1 (lg_capacity s + lg_subscriber_buffer s);
         i = length (lg_channels s);
         output = \<lparr>ch_cap = size, ch_buf = lg_lines s, ch_closed = False, ch_offered = lg_lines s,
                   ch_received = [], ch_fault = False\<rparr> in
     if size < length (lg_lines s) then None
     else if lg_closed s
       then Some ((None, i), s\<lparr>lg_channels := lg_channels s @ [close_channel output]\<rparr>)
     else
       (let id = lg_next_subscriber_id s + 1 in
        Some ((Some id, i),
          s\<lparr>lg_channels := lg_channels s @ [output], lg_next_subscriber_id := id,
            lg_subscribers := (id, i) # filter (\<lambda>e. fst e \<noteq> id) (lg_subscribers s)\<rparr>)))"

definition log_close :: "(nat \<Rightarrow> nat \<Rightarrow> nat \<times> nat) \<Rightarrow> log_stream \<Rightarrow> log_stream" where
  "log_close taken s =
    (if lg_closed s then s
     else
       (let s1 = (if lg_partial s \<noteq> [] \<or> lg_truncated s then publish_partial taken s else s) in
        s1\<lparr>lg_closed := True, lg_subscribers := [],
           lg_channels := fold (\<lambda>(_, i). update_channel i close_channel) (lg_subscribers s1) (lg_channels s1)\<rparr>))"

text \<open>The body that \<open>Cancel\<close> runs once.\<close>

definition log_cancel :: "64 word option \<Rightarrow> log_stream \<Rightarrow> log_stream" where
  "log_cancel sid s =
    (case sid of
       None \<Rightarrow> s
     | Some n \<Rightarrow>
         (case map_of (lg_subscribers s) n of
            None \<Rightarrow> s
          | Some i \<Rightarrow>
              s\<lparr>lg_subscribers := filter (\<lambda>e. fst e \<noteq> n) (lg_subscribers s),
                lg_channels := update_channel i close_channel (lg_channels s)\<rparr>))"

section \<open>Runs\<close>

datatype log_call =
    WriteCall string
  | SubscribeCall
  | CancelCall "64 word option"
  | CloseCall
  | ReceiveCall nat

fun log_exec :: "(nat \<Rightarrow> nat \<Rightarrow> nat \<times> nat) \<Rightarrow> log_call \<Rightarrow> log_stream \<Rightarrow> log_stream option" where
  "log_exec taken (WriteCall value) s = Some (snd (log_write taken value s))"
| "log_exec taken SubscribeCall s = map_option snd (log_subscribe s)"
| "log_exec taken (CancelCall sid) s = Some (log_cancel sid s)"
| "log_exec taken CloseCall s = Some (log_close taken s)"
| "log_exec taken (ReceiveCall i) s = Some (s\<lparr>lg_channels := update_channel i receive (lg_channels s)\<rparr>)"

fun log_run :: "(nat \<Rightarrow> nat \<Rightarrow> nat \<times> nat) \<Rightarrow> log_call list \<Rightarrow> log_stream \<Rightarrow> log_stream option" where
  "log_run taken [] s = Some s"
| "log_run taken (call # calls) s =
    (case log_exec taken call s of None \<Rightarrow> None | Some s' \<Rightarrow> log_run taken calls s')"

end
