(* ===== verification/LogProps.thy ===== *)
theory LogProps
  imports LogStream "HOL-Library.Sublist"
begin

text \<open>
  The invariant of a log stream over any sequence of calls, and what follows: its bounds, that no
  call blocks or uses a closed channel, what a subscriber sees, and that the lines do not depend on how
  the text is split across writes.
\<close>

section \<open>One channel\<close>

text \<open>What the consumer received or will find in the buffer.\<close>

definition seen :: "channel \<Rightarrow> string list" where
  "seen c = ch_received c @ ch_buf c"

definition chan_ok :: "channel \<Rightarrow> bool" where
  "chan_ok c \<longleftrightarrow> 0 < ch_cap c \<and> length (ch_buf c) \<le> ch_cap c \<and> \<not> ch_fault c \<and> subseq (seen c) (ch_offered c) \<and>
    (ch_offered c \<noteq> [] \<longrightarrow> seen c \<noteq> [] \<and> last (seen c) = last (ch_offered c))"

lemma receive_simps [simp]:
  "seen (receive c) = seen c" "ch_cap (receive c) = ch_cap c" "ch_closed (receive c) = ch_closed c"
  "ch_offered (receive c) = ch_offered c" "ch_fault (receive c) = ch_fault c"
  "length (ch_buf (receive c)) \<le> length (ch_buf c)"
  by (auto simp: receive_def seen_def split: list.splits)

lemma receives_simps [simp]:
  "seen ((receive ^^ n) c) = seen c" "ch_cap ((receive ^^ n) c) = ch_cap c"
  "ch_closed ((receive ^^ n) c) = ch_closed c" "ch_offered ((receive ^^ n) c) = ch_offered c"
  "ch_fault ((receive ^^ n) c) = ch_fault c"
  by (induction n) auto

lemma receives_length: "length (ch_buf ((receive ^^ n) c)) \<le> length (ch_buf c)"
  by (induction n) (auto intro: order_trans[OF receive_simps(6)])

lemma receive_ok: "chan_ok c \<Longrightarrow> chan_ok (receive c)"
  using receive_simps(6)[of c] order_trans[OF receive_simps(6)[of c]] by (simp add: chan_ok_def del: receive_simps(6))

lemma subseq_tl: "subseq (tl xs) xs"
  by (cases xs) auto

lemma discard_seen: "subseq (seen (discard c)) (seen c)"
  by (simp add: seen_def discard_def list_emb_append_mono subseq_tl)

lemma push_seen: "length (ch_buf c) < ch_cap c \<Longrightarrow> seen (push line c) = seen c @ [line]"
  by (simp add: push_def seen_def)

lemma push_simps [simp]:
  "ch_cap (push line c) = ch_cap c" "ch_closed (push line c) = ch_closed c"
  "ch_offered (push line c) = ch_offered c" "ch_fault (push line c) = ch_fault c"
  by (simp_all add: push_def)

lemma discard_simps [simp]:
  "ch_cap (discard c) = ch_cap c" "ch_closed (discard c) = ch_closed c"
  "ch_offered (discard c) = ch_offered c" "ch_fault (discard c) = ch_fault c"
  by (simp_all add: discard_def)

lemma deliver_ok:
  assumes "chan_ok c" and "\<not> ch_closed c"
  shows "chan_ok (deliver took line c) \<and> \<not> ch_closed (deliver took line c) \<and>
    ch_offered (deliver took line c) = ch_offered c @ [line]"
proof -
  define c0 where "c0 = c\<lparr>ch_offered := ch_offered c @ [line]\<rparr>"
  have c0: "ch_cap c0 = ch_cap c" "ch_buf c0 = ch_buf c" "seen c0 = seen c" "\<not> ch_closed c0" "\<not> ch_fault c0"
    "ch_offered c0 = ch_offered c @ [line]"
    using assms by (simp_all add: c0_def seen_def chan_ok_def)
  have pushed: "chan_ok (push line d) \<and> \<not> ch_closed (push line d) \<and> ch_offered (push line d) = ch_offered c @ [line]"
    if "subseq (seen d) (seen c)" "length (ch_buf d) < ch_cap d" "ch_cap d = ch_cap c" "\<not> ch_closed d"
      "\<not> ch_fault d" "ch_offered d = ch_offered c @ [line]" for d
  proof -
    have "subseq (seen d) (ch_offered c)"
      using assms(1) that(1) subseq_order.order_trans by (auto simp: chan_ok_def)
    then have "subseq (seen d @ [line]) (ch_offered c @ [line])" by (simp add: list_emb_append_mono)
    then show ?thesis
      using that push_seen[OF that(2)] by (simp add: chan_ok_def) (simp add: push_def)
  qed
  show ?thesis
  proof (cases "length (ch_buf c0) < ch_cap c0")
    case True
    then show ?thesis using pushed[of c0] c0 by (simp add: deliver_def flip: c0_def)
  next
    case False
    define d where "d = (receive ^^ snd took) (discard ((receive ^^ fst took) c0))"
    have "length (ch_buf ((receive ^^ fst took) c0)) \<le> ch_cap c"
      using receives_length[of "fst took" c0] assms(1) c0 by (simp add: chan_ok_def)
    then have "length (ch_buf (discard ((receive ^^ fst took) c0))) < ch_cap c"
      using assms(1) by (auto simp: discard_def chan_ok_def)
    then have "length (ch_buf d) < ch_cap c"
      unfolding d_def using receives_length le_less_trans by blast
    moreover have "subseq (seen d) (seen c)"
      using discard_seen[of "(receive ^^ fst took) c0"] c0(3) by (simp add: d_def)
    ultimately have "chan_ok (push line d) \<and> \<not> ch_closed (push line d) \<and> ch_offered (push line d) = ch_offered c @ [line]"
      using pushed[of d] c0 by (simp add: d_def)
    then show ?thesis using False c0(4) by (simp add: deliver_def d_def flip: c0_def)
  qed
qed

section \<open>Updating channels\<close>

lemma update_channel_length [simp]: "length (update_channel i f cs) = length cs"
  by (induction i f cs rule: update_channel.induct) auto

lemma update_channel_nth: "j < length cs \<Longrightarrow> update_channel i f cs ! j = (if j = i then f (cs ! j) else cs ! j)"
  by (induction i f cs arbitrary: j rule: update_channel.induct) (auto simp: nth_Cons')

lemma fold_update_length [simp]: "length (fold (\<lambda>(n, i). update_channel i (f i)) subs cs) = length cs"
  by (induction subs arbitrary: cs) auto

lemma fold_update_nth:
  "distinct (map snd subs) \<Longrightarrow> j < length cs \<Longrightarrow>
    fold (\<lambda>(n, i). update_channel i (f i)) subs cs ! j = (if j \<in> snd ` set subs then f j (cs ! j) else cs ! j)"
  by (induction subs arbitrary: cs) (force simp: update_channel_nth)+

section \<open>The invariant\<close>

definition lines_ok :: "log_stream \<Rightarrow> bool" where
  "lines_ok s \<longleftrightarrow> 0 < lg_capacity s \<and> 0 < lg_subscriber_buffer s \<and> length (lg_lines s) \<le> lg_capacity s \<and>
    lg_retained_bytes s = int (length (concat (lg_lines s))) \<and> length (concat (lg_lines s)) \<le> lg_max_bytes s \<and>
    suffix (lg_lines s) (lg_published s)"

definition registered_ok :: "log_stream \<Rightarrow> bool" where
  "registered_ok s \<longleftrightarrow> distinct (map fst (lg_subscribers s)) \<and> distinct (map snd (lg_subscribers s)) \<and>
    (\<forall>i \<in> snd ` set (lg_subscribers s). i < length (lg_channels s) \<and> \<not> ch_closed (lg_channels s ! i) \<and>
       suffix (ch_offered (lg_channels s ! i)) (lg_published s))"

definition log_inv :: "log_stream \<Rightarrow> bool" where
  "log_inv s \<longleftrightarrow> lines_ok s \<and> registered_ok s \<and> (\<forall>i < length (lg_channels s). chan_ok (lg_channels s ! i))"

lemma make_room_spec:
  assumes "make_room capacity max_bytes n ls r = (ls', r')" and "r = int (length (concat ls))"
    and "length ls \<le> capacity" and "length (concat ls) \<le> max_bytes" and "0 < capacity"
  shows "suffix ls' ls \<and> r' = int (length (concat ls')) \<and> length ls' < capacity \<and>
    length (concat ls') \<le> max_bytes \<and> (ls' = [] \<or> length (concat ls') + n \<le> max_bytes)"
  using assms
proof (induction capacity max_bytes n ls r rule: make_room.induct)
  case (2 capacity max_bytes n l ls retained)
  show ?case
  proof (cases "capacity \<le> Suc (length ls) \<or> int max_bytes < retained + int n")
    case True
    with "2.prems" have "make_room capacity max_bytes n ls (retained - int (length l)) = (ls', r')" by auto
    from "2.IH"[OF True this] "2.prems" show ?thesis by (auto simp: suffix_ConsI)
  next
    case False
    with "2.prems" show ?thesis by auto
  qed
qed auto

lemma publish_inv:
  assumes "log_inv s"
  shows "log_inv (publish taken line s)"
proof -
  obtain ls r where room: "make_room (lg_capacity s) (lg_max_bytes s) (length line) (lg_lines s) (lg_retained_bytes s) = (ls, r)"
    by force
  have lines: "lines_ok s" and reg: "registered_ok s" and chans: "\<And>i. i < length (lg_channels s) \<Longrightarrow> chan_ok (lg_channels s ! i)"
    using assms by (auto simp: log_inv_def)
  from make_room_spec[OF room] lines
  have ls: "suffix ls (lg_lines s)" "r = int (length (concat ls))" "length ls < lg_capacity s"
    "length (concat ls) \<le> lg_max_bytes s" "ls = [] \<or> length (concat ls) + length line \<le> lg_max_bytes s"
    by (auto simp: lines_ok_def)
  let ?s = "publish taken line s"
  have s: "lg_lines ?s = (if length line \<le> lg_max_bytes s then ls @ [line] else ls)"
    "lg_retained_bytes ?s = (if length line \<le> lg_max_bytes s then r + int (length line) else r)"
    "lg_channels ?s = deliver_all taken line (lg_subscribers s) (lg_channels s)"
    "lg_published ?s = lg_published s @ [line]" "lg_subscribers ?s = lg_subscribers s" "lg_capacity ?s = lg_capacity s"
    "lg_max_bytes ?s = lg_max_bytes s" "lg_subscriber_buffer ?s = lg_subscriber_buffer s"
    using room by (simp_all add: publish_def)
  have "ls = []" if "\<not> length line \<le> lg_max_bytes s" using ls(5) that by auto
  moreover have "suffix ls (lg_published s)" using ls(1) lines suffix_order.order_trans by (auto simp: lines_ok_def)
  ultimately have "lines_ok ?s" using lines ls by (auto simp: lines_ok_def s suffix_def)
  moreover have nth: "lg_channels ?s ! j =
      (if j \<in> snd ` set (lg_subscribers s)
       then deliver (taken j (length (ch_offered (lg_channels s ! j)))) line (lg_channels s ! j) else lg_channels s ! j)"
    if "j < length (lg_channels s)" for j
    using reg that
      fold_update_nth[of "lg_subscribers s" j "lg_channels s" "\<lambda>i c. deliver (taken i (length (ch_offered c))) line c"]
    by (simp add: s deliver_all_def registered_ok_def)
  moreover have len: "length (lg_channels ?s) = length (lg_channels s)" by (simp add: s deliver_all_def)
  have "registered_ok ?s"
    using reg nth deliver_ok chans by (auto simp: registered_ok_def s(4,5) len suffix_def)
  moreover have "chan_ok (lg_channels ?s ! j)" if "j < length (lg_channels s)" for j
  proof (cases "j \<in> snd ` set (lg_subscribers s)")
    case True
    then have "\<not> ch_closed (lg_channels s ! j)" using reg by (auto simp: registered_ok_def)
    with True nth[OF that] deliver_ok[OF chans[OF that]] show ?thesis by simp
  qed (use nth[OF that] chans[OF that] in simp)
  ultimately show ?thesis by (simp add: log_inv_def len)
qed

lemma log_inv_partial [simp]: "log_inv (s\<lparr>lg_partial := p, lg_truncated := t\<rparr>) = log_inv s"
  by (simp add: log_inv_def lines_ok_def registered_ok_def)

lemma append_segment_eq: "\<exists>p t. append_segment seg s = s\<lparr>lg_partial := p, lg_truncated := t\<rparr>"
proof -
  have "s = s\<lparr>lg_partial := lg_partial s, lg_truncated := lg_truncated s\<rparr>"
    "s\<lparr>lg_truncated := True\<rparr> = s\<lparr>lg_partial := lg_partial s, lg_truncated := True\<rparr>"
    "\<And>p. s\<lparr>lg_partial := p\<rparr> = s\<lparr>lg_partial := p, lg_truncated := lg_truncated s\<rparr>" by simp_all
  then show ?thesis unfolding append_segment_def Let_def by metis
qed

lemma append_segment_inv [simp]: "log_inv (append_segment seg s) = log_inv s"
  using append_segment_eq[of seg s] by auto

lemma publish_partial_inv: "log_inv s \<Longrightarrow> log_inv (publish_partial taken s)"
  by (simp add: publish_partial_def Let_def publish_inv)

lemma write_loop_inv: "log_inv s \<Longrightarrow> log_inv (write_loop taken v s)"
  by (induction taken v s rule: write_loop.induct)
    (subst write_loop.simps, auto simp: publish_partial_inv split: prod.splits)

lemma new_log_inv: "log_inv (new_log_stream a b c d)"
  by (auto simp: log_inv_def lines_ok_def registered_ok_def new_log_stream_def or_default_def
      default_log_capacity_def default_log_subscriber_buffer_def)

lemma subscribe_inv:
  assumes "log_inv s"
  shows "\<exists>sub s'. log_subscribe s = Some (sub, s') \<and> log_inv s'"
proof -
  let ?c = "\<lparr>ch_cap = lg_capacity s + lg_subscriber_buffer s, ch_buf = lg_lines s, ch_closed = False,
    ch_offered = lg_lines s, ch_received = [], ch_fault = False\<rparr>"
  have lines: "lines_ok s" and reg: "registered_ok s"
    and chans: "\<And>i. i < length (lg_channels s) \<Longrightarrow> chan_ok (lg_channels s ! i)"
    using assms by (auto simp: log_inv_def)
  have ok: "chan_ok ?c" "chan_ok (?c\<lparr>ch_closed := True\<rparr>)"
    using lines by (auto simp: chan_ok_def seen_def lines_ok_def)
  have size: "max 1 (lg_capacity s + lg_subscriber_buffer s) = lg_capacity s + lg_subscriber_buffer s"
    and fits: "\<not> lg_capacity s + lg_subscriber_buffer s < length (lg_lines s)"
    using lines by (auto simp: lines_ok_def)
  have nth: "chan_ok ((lg_channels s @ [d]) ! i)" if "chan_ok d" "i < Suc (length (lg_channels s))" for d i
    using that chans by (auto simp: nth_append)
  show ?thesis
  proof (cases "lg_closed s")
    case True
    have "log_inv (s\<lparr>lg_channels := lg_channels s @ [?c\<lparr>ch_closed := True\<rparr>]\<rparr>)"
      using lines reg nth[OF ok(2)] by (auto simp: log_inv_def lines_ok_def registered_ok_def nth_append)
    then show ?thesis using True size fits
      by (simp add: log_subscribe_def Let_def close_channel_def)
  next
    case False
    let ?id = "lg_next_subscriber_id s + 1"
    let ?s = "s\<lparr>lg_channels := lg_channels s @ [?c], lg_next_subscriber_id := ?id,
      lg_subscribers := (?id, length (lg_channels s)) # filter (\<lambda>e. fst e \<noteq> ?id) (lg_subscribers s)\<rparr>"
    have "registered_ok ?s"
      using reg lines by (fastforce simp: registered_ok_def lines_ok_def nth_append distinct_map_filter)
    then have "log_inv ?s"
      using lines nth[OF ok(1)] by (auto simp: log_inv_def lines_ok_def)
    then show ?thesis using False size fits by (simp add: log_subscribe_def Let_def)
  qed
qed

lemma close_channel_ok: "chan_ok c \<Longrightarrow> \<not> ch_closed c \<Longrightarrow> chan_ok (close_channel c)"
  by (simp add: close_channel_def chan_ok_def seen_def)

lemma close_inv:
  assumes "log_inv s"
  shows "log_inv (log_close taken s)"
proof -
  define s1 where "s1 = (if lg_partial s \<noteq> [] \<or> lg_truncated s then publish_partial taken s else s)"
  have inv: "log_inv s1" using assms publish_partial_inv by (simp add: s1_def)
  then have reg: "registered_ok s1" and chans: "\<And>i. i < length (lg_channels s1) \<Longrightarrow> chan_ok (lg_channels s1 ! i)"
    by (auto simp: log_inv_def)
  have "chan_ok (fold (\<lambda>(_, i). update_channel i close_channel) (lg_subscribers s1) (lg_channels s1) ! j)"
    if "j < length (lg_channels s1)" for j
    using that reg chans[OF that] close_channel_ok[OF chans[OF that]]
      fold_update_nth[of "lg_subscribers s1" j "lg_channels s1" "\<lambda>_. close_channel"]
    by (auto simp: registered_ok_def)
  then have "log_inv (s1\<lparr>lg_closed := True, lg_subscribers := [],
     lg_channels := fold (\<lambda>(_, i). update_channel i close_channel) (lg_subscribers s1) (lg_channels s1)\<rparr>)"
    using inv by (simp add: log_inv_def lines_ok_def registered_ok_def
        fold_update_length[of "\<lambda>_. close_channel", simplified])
  then show ?thesis using assms by (simp add: log_close_def Let_def s1_def)
qed

lemma update_inv:
  assumes "log_inv s" and "set subs \<subseteq> set (lg_subscribers s)" and "distinct (map fst subs)" "distinct (map snd subs)"
    and "\<And>c. chan_ok c \<Longrightarrow> P c \<Longrightarrow> chan_ok (f c)" and "i < length (lg_channels s) \<Longrightarrow> P (lg_channels s ! i)"
    and "i \<notin> snd ` set subs \<or> (\<forall>c. ch_closed (f c) = ch_closed c \<and> ch_offered (f c) = ch_offered c)"
  shows "log_inv (s\<lparr>lg_subscribers := subs, lg_channels := update_channel i f (lg_channels s)\<rparr>)"
  (is "log_inv ?s")
proof -
  have lines: "lines_ok s" and reg: "registered_ok s"
    and chans: "\<And>j. j < length (lg_channels s) \<Longrightarrow> chan_ok (lg_channels s ! j)"
    using assms(1) by (auto simp: log_inv_def)
  have "lines_ok ?s" using lines by (simp add: lines_ok_def)
  moreover have "\<forall>j < length (lg_channels s). chan_ok (lg_channels ?s ! j)"
    using chans assms(5)[OF chans assms(6)] by (simp add: update_channel_nth)
  moreover have "registered_ok ?s"
    unfolding registered_ok_def
  proof (intro conjI ballI)
    show "distinct (map fst (lg_subscribers ?s))" "distinct (map snd (lg_subscribers ?s))" using assms(3,4) by auto
    fix j assume "j \<in> snd ` set (lg_subscribers ?s)"
    then have j: "j \<in> snd ` set subs" by simp
    then have "j \<in> snd ` set (lg_subscribers s)" using assms(2) by auto
    then have old: "j < length (lg_channels s)" "\<not> ch_closed (lg_channels s ! j)"
      "suffix (ch_offered (lg_channels s ! j)) (lg_published s)" using reg by (auto simp: registered_ok_def)
    have "j \<noteq> i \<or> (\<forall>c. ch_closed (f c) = ch_closed c \<and> ch_offered (f c) = ch_offered c)" using assms(7) j by blast
    with old show "j < length (lg_channels ?s)" "\<not> ch_closed (lg_channels ?s ! j)"
      "suffix (ch_offered (lg_channels ?s ! j)) (lg_published ?s)" by (auto simp: update_channel_nth)
  qed
  ultimately show ?thesis by (simp add: log_inv_def)
qed

lemma cancel_inv: "log_inv s \<Longrightarrow> log_inv (log_cancel sid s)"
proof (cases sid)
  case (Some n)
  assume inv: "log_inv s"
  then have reg: "distinct (map fst (lg_subscribers s))" "distinct (map snd (lg_subscribers s))"
    by (auto simp: log_inv_def registered_ok_def)
  show ?thesis
  proof (cases "map_of (lg_subscribers s) n")
    case found: (Some i)
    let ?subs = "filter (\<lambda>e. fst e \<noteq> n) (lg_subscribers s)"
    have mem: "(n, i) \<in> set (lg_subscribers s)" using found by (rule map_of_SomeD)
    have "i \<notin> snd ` set ?subs"
    proof
      assume "i \<in> snd ` set ?subs"
      then obtain a where a: "(a, i) \<in> set (lg_subscribers s)" "a \<noteq> n" by auto
      then have "(a, i) = (n, i)"
        using inj_onD[of snd "set (lg_subscribers s)" "(a, i)" "(n, i)"] reg(2) mem by (simp add: distinct_map)
      with a show False by simp
    qed
    moreover have "i < length (lg_channels s) \<Longrightarrow> \<not> ch_closed (lg_channels s ! i)"
      using inv mem by (force simp: log_inv_def registered_ok_def)
    ultimately have "log_inv (s\<lparr>lg_subscribers := ?subs, lg_channels := update_channel i close_channel (lg_channels s)\<rparr>)"
      using reg close_channel_ok inv
      by (intro update_inv[where P="\<lambda>c. \<not> ch_closed c"]) (auto intro: distinct_map_filter)
    then show ?thesis using Some found by (simp add: log_cancel_def)
  qed (use inv Some in \<open>simp add: log_cancel_def\<close>)
qed (simp add: log_cancel_def)

lemma receive_inv: "log_inv s \<Longrightarrow> log_inv (s\<lparr>lg_channels := update_channel i receive (lg_channels s)\<rparr>)"
  using update_inv[of s "lg_subscribers s" "\<lambda>_. True" receive i] receive_ok
  by (auto simp: log_inv_def registered_ok_def)

lemma log_exec_inv:
  assumes "log_inv s"
  shows "\<exists>s'. log_exec taken call s = Some s' \<and> log_inv s'"
  using assms subscribe_inv[OF assms]
  by (cases call) (auto simp: log_write_def write_loop_inv cancel_inv close_inv receive_inv)

lemma log_run_inv: "log_inv s \<Longrightarrow> \<exists>s'. log_run taken calls s = Some s' \<and> log_inv s'"
proof (induction calls arbitrary: s)
  case (Cons call calls)
  with log_exec_inv[OF Cons.prems, of taken call] show ?case by auto
qed simp

section \<open>Lines of a text\<close>

definition log_line :: "nat \<Rightarrow> string \<Rightarrow> string" where
  "log_line limit text = (if length text \<le> limit then text else take limit text @ ''... [truncated]'') @ [newline]"

text \<open>The text since the last newline is held up to the limit.\<close>

definition holds_text :: "string \<Rightarrow> log_stream \<Rightarrow> bool" where
  "holds_text t s \<longleftrightarrow> lg_partial s = take (lg_max_line_bytes s) t \<and> lg_truncated s = (lg_max_line_bytes s < length t)"

lemma append_segment_holds:
  "holds_text t s \<Longrightarrow> holds_text (t @ seg) (append_segment seg s)"
  by (auto simp: holds_text_def append_segment_def Let_def nat_diff_distrib)

lemma append_segment_simps [simp]:
  "lg_max_line_bytes (append_segment seg s) = lg_max_line_bytes s" "lg_published (append_segment seg s) = lg_published s"
  "lg_closed (append_segment seg s) = lg_closed s"
  by (simp_all add: append_segment_def Let_def)

lemma publish_partial_simps [simp]:
  "lg_max_line_bytes (publish_partial taken s) = lg_max_line_bytes s" "lg_closed (publish_partial taken s) = lg_closed s"
  "holds_text [] (publish_partial taken s)"
  by (simp_all add: publish_partial_def publish_def holds_text_def Let_def split: prod.splits)

lemma publish_partial_line:
  "holds_text t s \<Longrightarrow> lg_published (publish_partial taken s) = lg_published s @ [log_line (lg_max_line_bytes s) t]"
  by (auto simp: publish_partial_def publish_def holds_text_def log_line_def Let_def split: prod.splits)

lemma write_loop_text:
  assumes "holds_text t s" and "newline \<notin> set t"
  shows "lg_published (write_loop taken v s) =
      lg_published s @ map (log_line (lg_max_line_bytes s)) (butlast (split_char newline (t @ v))) \<and>
    holds_text (last (split_char newline (t @ v))) (write_loop taken v s) \<and>
    lg_max_line_bytes (write_loop taken v s) = lg_max_line_bytes s \<and> lg_closed (write_loop taken v s) = lg_closed s"
  using assms
proof (induction taken v s arbitrary: t rule: write_loop.induct)
  case (1 taken v s)
  show ?case
  proof (cases "v = []")
    case True
    with "1.prems" show ?thesis by (subst (1 2 3 4) write_loop.simps) (simp add: split_char_id)
  next
    case False
    obtain seg rest complete where cut: "cut_char newline v = (seg, rest, complete)" by (metis prod_cases3)
    note held = append_segment_holds[OF "1.prems"(1), of seg]
    show ?thesis
    proof (cases complete)
      case True
      with cut have v: "v = seg @ newline # rest" "newline \<notin> set seg" using cut_char_Some by auto
      let ?s = "publish_partial taken (append_segment seg s)"
      have loop: "write_loop taken v s = write_loop taken rest ?s"
        using False cut True by (subst write_loop.simps) simp
      have split: "split_char newline (t @ v) = (t @ seg) # split_char newline rest"
        using v "1.prems"(2) split_char_append[of newline "t @ seg" rest] by simp
      have "split_char newline rest \<noteq> []" by (simp add: split_char_not_Nil)
      with "1.IH"[OF False cut[symmetric] refl True, of "[]"] split loop publish_partial_line[OF held]
      show ?thesis by simp
    next
      case complete: False
      with cut have v: "seg = v" "newline \<notin> set v" using cut_char_None by auto
      have "write_loop taken v s = append_segment v s"
        using False cut complete v by (subst write_loop.simps) simp
      moreover have "split_char newline (t @ v) = [t @ v]"
        using v "1.prems"(2) by (intro split_char_id) simp
      ultimately show ?thesis using held v by simp
    qed
  qed
qed

lemma split_char_resume:
  "split_char c (a @ b) = butlast (split_char c a) @ split_char c (last (split_char c a) @ b)"
proof (induction a)
  case (Cons x a)
  show ?case
  proof (cases "split_char c a")
    case (Cons w ws)
    with Cons.IH show ?thesis
      by (cases ws) (auto split: list.splits simp: split_char_not_Nil)
  qed (simp add: split_char_not_Nil)
qed simp

lemma last_split_no_sep: "c \<notin> set (last (split_char c s))"
  using split_char_no_sep split_char_not_Nil last_in_set by metis

lemma writes_text:
  assumes "\<not> lg_closed s" and "holds_text (last (split_char newline t)) s"
    and "lg_published s = map (log_line (lg_max_line_bytes s)) (butlast (split_char newline t))"
  shows "\<exists>s'. log_run taken (map WriteCall ws) s = Some s' \<and>
    lg_published s' = map (log_line (lg_max_line_bytes s)) (butlast (split_char newline (t @ concat ws))) \<and>
    holds_text (last (split_char newline (t @ concat ws))) s' \<and> lg_max_line_bytes s' = lg_max_line_bytes s"
  using assms
proof (induction ws arbitrary: s t)
  case (Cons w ws)
  let ?s = "write_loop taken w s"
  let ?l = "last (split_char newline t)"
  note written = write_loop_text[OF Cons.prems(2) last_split_no_sep, of taken w]
  have ne: "split_char newline (?l @ w) \<noteq> []" by (simp add: split_char_not_Nil)
  have "lg_published ?s = map (log_line (lg_max_line_bytes ?s)) (butlast (split_char newline (t @ w)))"
    using written Cons.prems(3) ne by (simp add: split_char_resume[of newline t w] butlast_append)
  moreover have "holds_text (last (split_char newline (t @ w))) ?s"
    using written ne by (simp add: split_char_resume[of newline t w])
  ultimately show ?case
    using Cons.IH[of ?s "t @ w"] Cons.prems(1) written by (simp add: log_write_def)
qed simp

section \<open>The properties\<close>

text \<open>C35: No call on a log stream ever blocks or misuses a channel, and its memory is bounded: after any
  sequence of writes, subscriptions, cancellations, closes and receives, with consumers receiving at any
  moment, at most \<open>capacity\<close> lines of at most \<open>maxBytes\<close> bytes in all are retained, they are the newest
  lines published, every channel's buffer is within its capacity, and no send or close hit a closed channel.\<close>

theorem log_bounded_and_safe:
  "\<exists>s. log_run taken calls (new_log_stream capacity buffer line_bytes bytes) = Some s \<and>
    length (lg_lines s) \<le> lg_capacity s \<and> length (concat (lg_lines s)) \<le> lg_max_bytes s \<and>
    suffix (lg_lines s) (lg_published s) \<and>
    list_all (\<lambda>c. \<not> ch_fault c \<and> length (ch_buf c) \<le> ch_cap c) (lg_channels s)"
proof -
  obtain s where s: "log_run taken calls (new_log_stream capacity buffer line_bytes bytes) = Some s" "log_inv s"
    using log_run_inv[OF new_log_inv] by metis
  then show ?thesis by (auto simp: log_inv_def lines_ok_def chan_ok_def list_all_length)
qed

text \<open>A slow subscriber never blocks the stream and never loses the newest line: what it received and
  will find in its buffer is an in-order selection of the published lines that ends with the last one.\<close>

theorem subscriber_sees_newest:
  assumes "log_run taken calls (new_log_stream capacity buffer line_bytes bytes) = Some s"
    and "(n, i) \<in> set (lg_subscribers s)" and "ch_offered (lg_channels s ! i) \<noteq> []"
  shows "subseq (seen (lg_channels s ! i)) (lg_published s) \<and> seen (lg_channels s ! i) \<noteq> [] \<and>
    last (seen (lg_channels s ! i)) = last (lg_published s)"
proof -
  let ?c = "lg_channels s ! i"
  have "log_inv s" using log_run_inv[OF new_log_inv] assms(1) by (metis option.inject)
  then have "i < length (lg_channels s)" and suf: "suffix (ch_offered ?c) (lg_published s)" and ok: "chan_ok ?c"
    using assms(2) by (force simp: log_inv_def registered_ok_def)+
  from suf obtain xs where "lg_published s = xs @ ch_offered ?c" by (auto elim: suffixE)
  then have "last (lg_published s) = last (ch_offered ?c)" "subseq (ch_offered ?c) (lg_published s)"
    using assms(3) by auto
  then show ?thesis
    using ok assms(3) subseq_order.order_trans by (auto simp: chan_ok_def)
qed

definition demo_calls :: "log_call list" where
  "demo_calls = [SubscribeCall, WriteCall (''a'' @ [newline] @ ''b'' @ [newline])]"

theorem subscriber_sees_newest_witness:
  "\<exists>s. log_run (\<lambda>_ _. (0, 0)) demo_calls (new_log_stream 1 1 10 100) = Some s \<and>
    last (seen (lg_channels s ! 0)) = ''b'' @ [newline]"
proof -
  define s where "s = the (log_run (\<lambda>_ _. (0, 0)) demo_calls (new_log_stream 1 1 10 100))"
  have s: "log_run (\<lambda>_ _. (0, 0)) demo_calls (new_log_stream 1 1 10 100) = Some s"
    "map snd (lg_subscribers s) = [0]" "ch_offered (lg_channels s ! 0) = [''a'' @ [newline], ''b'' @ [newline]]"
    "lg_published s = [''a'' @ [newline], ''b'' @ [newline]]"
    unfolding s_def demo_calls_def
    by (simp_all add: new_log_stream_def or_default_def log_subscribe_def log_write_def write_loop.simps newline_def
        append_segment_def publish_partial_def publish_def deliver_all_def deliver_def push_def discard_def)
  then obtain n where "(n, 0) \<in> set (lg_subscribers s)" by auto
  from subscriber_sees_newest[OF s(1) this] s show ?thesis by auto
qed

text \<open>The lines do not depend on how the text reaches the stream: whatever pieces it is written in,
  the published lines are the lines of the whole text, each one cut at the limit with a mark, and the
  text after the last newline is held for the next write.\<close>

theorem lines_of_text:
  "\<exists>s. log_run taken (map WriteCall pieces) (new_log_stream capacity buffer line_bytes bytes) = Some s \<and>
    lg_published s = map (log_line (lg_max_line_bytes s)) (butlast (split_char newline (concat pieces))) \<and>
    lg_partial s = take (lg_max_line_bytes s) (last (split_char newline (concat pieces)))"
  using writes_text[of "new_log_stream capacity buffer line_bytes bytes" "[]" taken pieces]
  by (auto simp: holds_text_def new_log_stream_def)

end
