(* ===== verification/WatchTree.thy ===== *)
theory WatchTree
  imports WatchProps "HOL-Library.State_Monad"
begin

text \<open>
  The event loop of a watcher (\<open>internal/watcher/watcher.go\<close> and \<open>root_identity.go\<close>): the bookkeeping of
  watched directories, the scans of directory trees and the handling of events. The operating system and
  the notification library answer every call; between two calls anything may happen, so an answer is a
  function of the number of calls made so far (\<open>lp_os\<close>). The goroutines that settle files run beside the
  loop: what they do up to a call of \<open>schedule\<close> is part of its answer (\<open>os_others\<close>).
\<close>

section \<open>State\<close>

text \<open>\<open>os.FileInfo\<close>; \<open>os.SameFile\<close> compares \<open>nd_id\<close>.\<close>

record node =
  nd_symlink :: bool
  nd_dir :: bool
  nd_regular :: bool
  nd_id :: nat

record dir_entry =
  en_name :: string
  en_info :: node

text \<open>An opened directory: what \<open>Stat\<close>, the calls of \<open>Readdir\<close> up to the first error (or the end) and
  \<open>Close\<close> return.\<close>

record dir_handle =
  dh_stat :: "node result"
  dh_batches :: "(dir_entry list \<times> go_error option) list"
  dh_close :: "go_error option"

record moment =
  os_ctx :: "go_error option"
  os_closed :: bool
  os_lstat :: "string \<Rightarrow> node result"
  os_open_root :: "string \<Rightarrow> go_error option"
  os_root_stat :: "string \<Rightarrow> node result"
  os_open :: "string \<Rightarrow> string \<Rightarrow> dir_handle result"
  os_add :: "string \<Rightarrow> go_error option"
  os_remove :: "string \<Rightarrow> go_error option"
  os_watch_list :: "string list"
  os_others :: "watch_state \<Rightarrow> watch_state"

record root_identity =
  ro_watch_name :: string
  ro_path :: string
  ro_info :: node

record watch_spec =
  sp_config :: watch_config
  sp_root :: string

record loop_state =
  lp_os :: "nat \<Rightarrow> moment"
  lp_now :: nat
  lp_dirs :: "string list"
  lp_ids :: "(string \<times> node) list"
  lp_roots :: "(string \<times> root_identity) list"
  lp_mismatch :: string
  lp_watch :: watch_state

type_synonym 'a act = "(loop_state, 'a) state"

abbreviation ret :: "'a \<Rightarrow> 'a act" where
  "ret \<equiv> State_Monad.return"

definition ask :: "(moment \<Rightarrow> 'a) \<Rightarrow> 'a act" where
  "ask f = State (\<lambda>s. (f (lp_os s (lp_now s)), s\<lparr>lp_now := Suc (lp_now s)\<rparr>))"

definition peek :: "(loop_state \<Rightarrow> 'a) \<Rightarrow> 'a act" where
  "peek f = State (\<lambda>s. (f s, s))"

definition change :: "(loop_state \<Rightarrow> loop_state) \<Rightarrow> unit act" where
  "change f = State (\<lambda>s. ((), f s))"

text \<open>Going on when a call returned no error, or a value.\<close>

definition unless_error :: "go_error option act \<Rightarrow> go_error option act \<Rightarrow> go_error option act" where
  "unless_error m k = do { e \<leftarrow> m; case e of Some err \<Rightarrow> ret (Some err) | None \<Rightarrow> k }"

definition max_watched_directories :: nat where
  "max_watched_directories = 4096"

definition err_directory_limit :: go_error where
  "err_directory_limit = Sentinel ''watched directory limit reached''"

definition err_directory_changed :: go_error where
  "err_directory_changed = Sentinel ''watched directory changed during discovery''"

definition err_watch_root_lost :: go_error where
  "err_watch_root_lost = Sentinel ''configured watch root was removed or renamed''"

definition err_filesystem_watch_lost :: go_error where
  "err_filesystem_watch_lost = Sentinel ''filesystem watch registration was lost''"

definition err_queued_directory_changed :: go_error where
  "err_queued_directory_changed = Sentinel ''queued directory changed before scan''"

text \<open>The tests of an information that a watched directory must pass.\<close>

definition plain_directory :: "node \<Rightarrow> bool" where
  "plain_directory info \<longleftrightarrow> \<not> nd_symlink info \<and> nd_dir info"

definition same_file :: "node \<Rightarrow> node \<Rightarrow> bool" where
  "same_file a b \<longleftrightarrow> nd_id a = nd_id b"

section \<open>Roots\<close>

definition with_root :: "watch_spec \<Rightarrow> watch_config" where
  "with_root spec = (sp_config spec)\<lparr>w_path := sp_root spec\<rparr>"

definition new_specs :: "string \<Rightarrow> watch_config list \<Rightarrow> watch_spec list" where
  "new_specs cwd watches = map (\<lambda>w. \<lparr>sp_config = w, sp_root = clean (abs_path cwd (w_path w))\<rparr>) watches"

definition record_root_error :: "watch_spec \<Rightarrow> go_error \<Rightarrow> frag list \<Rightarrow> go_error" where
  "record_root_error spec e limit =
    Wrapped [T ''record watch '', Q (w_name (sp_config spec)), T '' root '', T (clean (sp_root spec)), T '': ''] e limit"

definition root_add :: "watch_spec \<Rightarrow> node \<Rightarrow> go_error option act" where
  "root_add spec info =
    (let p = clean (sp_root spec) in
     if \<not> plain_directory info then ret (Some (record_root_error spec err_directory_changed []))
     else do {
       roots \<leftarrow> peek lp_roots;
       case map_of roots p of
         Some known \<Rightarrow>
           ret (if \<not> same_file (ro_info known) info then Some (record_root_error spec err_directory_changed []) else None)
       | None \<Rightarrow>
           if max_watched_directories \<le> length roots
           then ret (Some (record_root_error spec err_directory_limit [T '' ('', D (int max_watched_directories), T '' directories)'']))
           else do {
             change (\<lambda>s. s\<lparr>lp_roots := lp_roots s @ [(p, \<lparr>ro_watch_name = w_name (sp_config spec), ro_path = p, ro_info = info\<rparr>)]\<rparr>);
             ret None
           }
     })"

definition root_validate :: "root_identity \<Rightarrow> go_error option act" where
  "root_validate identity = do {
     current \<leftarrow> ask (\<lambda>os. os_lstat os (ro_path identity));
     ret (case current of
            Inl e \<Rightarrow> Some (Wrapped [T ''watch '', Q (ro_watch_name identity), T '' root '', T (ro_path identity), T '': '']
                       (Joined [err_watch_root_lost, e]) [])
          | Inr info \<Rightarrow>
              if \<not> plain_directory info \<or> \<not> same_file (ro_info identity) info
              then Some (Wrapped [T ''watch '', Q (ro_watch_name identity), T '' root '', T (ro_path identity), T '': '']
                     err_watch_root_lost [])
              else None)
   }"

text \<open>The entries come in the order of Go's map iteration.\<close>

fun validate_roots :: "(string \<times> root_identity) list \<Rightarrow> go_error option act" where
  "validate_roots [] = ret None"
| "validate_roots (r # rs) = unless_error (root_validate (snd r)) (validate_roots rs)"

definition validate_all :: "go_error option act" where
  "validate_all = do { roots \<leftarrow> peek lp_roots; validate_roots roots }"

definition validate_event :: "string \<Rightarrow> go_error option act" where
  "validate_event filename = do {
     roots \<leftarrow> peek lp_roots;
     validate_roots (filter (\<lambda>r. within (ro_path (snd r)) (clean filename)) roots)
   }"

section \<open>Removing directories\<close>

definition not_watched_error :: "go_error \<Rightarrow> bool" where
  "not_watched_error e \<longleftrightarrow> errors_is ''fsnotify: can't remove non-existent watch'' e \<or> errors_is ''invalid argument'' e"

definition watch_list_contains :: "string list \<Rightarrow> string \<Rightarrow> bool" where
  "watch_list_contains watches directory \<longleftrightarrow> list_ex (\<lambda>w. clean w = clean directory) watches"

definition relative_directory_depth :: "string \<Rightarrow> string \<Rightarrow> nat" where
  "relative_directory_depth root directory =
    (case rel_path root directory of
       None \<Rightarrow> 0
     | Some relative \<Rightarrow> if relative = ''.'' then 0 else count_list relative slash + 1)"

definition tree_before :: "string \<Rightarrow> string \<Rightarrow> string \<Rightarrow> bool" where
  "tree_before directory a b \<longleftrightarrow>
    (let l = relative_directory_depth directory a; r = relative_directory_depth directory b in
     if l \<noteq> r then r < l else string_le a b)"

fun insert_by :: "('a \<Rightarrow> 'a \<Rightarrow> bool) \<Rightarrow> 'a \<Rightarrow> 'a list \<Rightarrow> 'a list" where
  "insert_by before x [] = [x]"
| "insert_by before x (y # ys) = (if before x y then x # y # ys else y # insert_by before x ys)"

definition sort_by :: "('a \<Rightarrow> 'a \<Rightarrow> bool) \<Rightarrow> 'a list \<Rightarrow> 'a list" where
  "sort_by before xs = foldr (insert_by before) xs []"

definition watched_directory_tree :: "string list \<Rightarrow> string \<Rightarrow> string list" where
  "watched_directory_tree dirs directory =
    sort_by (tree_before (clean directory)) (filter (within (clean directory)) dirs)"

text \<open>The removals from the notification library, children first; a failure does not stop them.\<close>

fun remove_watches :: "string list \<Rightarrow> string list \<Rightarrow> go_error option \<Rightarrow> go_error option act" where
  "remove_watches registered [] failed = ret failed"
| "remove_watches registered (d # ds) failed =
    (if clean d \<notin> set registered then remove_watches registered ds failed
     else do {
       e \<leftarrow> ask (\<lambda>os. os_remove os d);
       remove_watches registered ds
         (case e of
            Some err \<Rightarrow>
              if not_watched_error err then failed
              else errors_join [failed, Some (Wrapped [T ''remove watch for directory '', T d, T '': ''] err [])]
          | None \<Rightarrow> failed)
     })"

definition remove_directory_tree :: "string \<Rightarrow> go_error option act" where
  "remove_directory_tree directory = do {
     dirs \<leftarrow> peek lp_dirs;
     (let ds = watched_directory_tree dirs directory in do {
       change (\<lambda>s. s\<lparr>lp_dirs := filter (\<lambda>d. d \<notin> set ds) (lp_dirs s), lp_ids := filter (\<lambda>e. fst e \<notin> set ds) (lp_ids s)\<rparr>);
       watches \<leftarrow> ask os_watch_list;
       remove_watches (map clean watches) ds None
     })
   }"

section \<open>Adding directories\<close>

definition verified_directory_info :: "string \<Rightarrow> node \<Rightarrow> node result act" where
  "verified_directory_info directory expected = do {
     current \<leftarrow> ask (\<lambda>os. os_lstat os directory);
     ret (case current of
            Inl e \<Rightarrow> Inl (Wrapped [T ''verify watched directory '', T directory, T '': ''] e [])
          | Inr info \<Rightarrow>
              if \<not> plain_directory info \<or> \<not> same_file expected info
              then Inl (Wrapped [T ''verify watched directory '', T directory, T '': ''] err_directory_changed [])
              else Inr info)
   }"

definition store_directory :: "string \<Rightarrow> node \<Rightarrow> loop_state \<Rightarrow> loop_state" where
  "store_directory directory info s =
    s\<lparr>lp_dirs := (if directory \<in> set (lp_dirs s) then lp_dirs s else lp_dirs s @ [directory]),
      lp_ids := map_store directory info (lp_ids s)\<rparr>"

definition restore_error :: "string \<Rightarrow> go_error \<Rightarrow> go_error" where
  "restore_error directory e = Wrapped [T ''restore filesystem watch for directory '', T directory, T '': ''] e []"

text \<open>A directory that is registered and still the same: its watch is put back when it is gone.\<close>

definition restore_directory :: "string \<Rightarrow> node \<Rightarrow> go_error option act" where
  "restore_directory directory current = do {
     watches \<leftarrow> ask os_watch_list;
     if watch_list_contains watches directory then ret None
     else do {
       failed \<leftarrow> ask (\<lambda>os. os_add os directory);
       case failed of
         Some e \<Rightarrow> ret (Some (restore_error directory e))
       | None \<Rightarrow> do {
           verified \<leftarrow> verified_directory_info directory current;
           case verified of
             Inl e \<Rightarrow> do { removed \<leftarrow> ask (\<lambda>os. os_remove os directory); ret (errors_join [Some e, removed]) }
           | Inr info \<Rightarrow> do {
               again \<leftarrow> ask os_watch_list;
               if \<not> watch_list_contains again directory then ret (Some (restore_error directory err_filesystem_watch_lost))
               else do {
                 change (\<lambda>s. s\<lparr>lp_ids := map_store directory info (lp_ids s)\<rparr>);
                 ret None
               }
             }
         }
     }
   }"

definition register_directory :: "string \<Rightarrow> node \<Rightarrow> go_error option act" where
  "register_directory directory current = do {
     failed \<leftarrow> ask (\<lambda>os. os_add os directory);
     case failed of
       Some e \<Rightarrow> ret (Some (Wrapped [T ''watch directory '', T directory, T '': ''] e []))
     | None \<Rightarrow> do {
         verified \<leftarrow> verified_directory_info directory current;
         case verified of
           Inl e \<Rightarrow> do { removed \<leftarrow> ask (\<lambda>os. os_remove os directory); ret (errors_join [Some e, removed]) }
         | Inr info \<Rightarrow> do {
             watches \<leftarrow> ask os_watch_list;
             if \<not> watch_list_contains watches directory then do {
               removed \<leftarrow> ask (\<lambda>os. os_remove os directory);
               ret (errors_join
                 [Some (Wrapped [T ''verify filesystem watch for directory '', T directory, T '': ''] err_directory_changed []), removed])
             }
             else do {
               change (store_directory directory info);
               ret None
             }
           }
       }
   }"

text \<open>The paths that are registered for the same directory.\<close>

definition aliases_of :: "string \<Rightarrow> node \<Rightarrow> (string \<times> node) list \<Rightarrow> (string \<times> node) list" where
  "aliases_of directory current ids =
    sort_by (\<lambda>a b. string_le (fst a) (fst b)) (filter (\<lambda>e. fst e \<noteq> directory \<and> same_file (snd e) current) ids)"

fun drop_aliases :: "string \<Rightarrow> (string \<times> node) list \<Rightarrow> go_error option act" where
  "drop_aliases directory [] = ret None"
| "drop_aliases directory (alias # aliases) = do {
     current \<leftarrow> ask (\<lambda>os. os_lstat os (fst alias));
     case current of
       Inr info \<Rightarrow>
         if plain_directory info \<and> same_file (snd alias) info
         then ret (Some (Wrapped [T ''watch directory '', T directory, T '' aliases already watched directory '', T (fst alias), T '': '']
                err_directory_changed []))
         else unless_error (remove_directory_tree (fst alias)) (drop_aliases directory aliases)
     | Inl e \<Rightarrow>
         if \<not> errors_is ''file does not exist'' e
         then ret (Some (Wrapped [T ''verify prior watch directory '', T (fst alias), T '': ''] e []))
         else unless_error (remove_directory_tree (fst alias)) (drop_aliases directory aliases)
   }"

text \<open>One turn of the loop in \<open>addDirectory\<close>: an answer, or another turn with what the directory is now.\<close>

datatype add_verdict = AddDone "go_error option" | AddAgain node

definition verify_again :: "string \<Rightarrow> node \<Rightarrow> go_error option \<Rightarrow> add_verdict act" where
  "verify_again directory expected failed =
    (case failed of
       Some e \<Rightarrow> ret (AddDone (Some e))
     | None \<Rightarrow> do {
         verified \<leftarrow> verified_directory_info directory expected;
         ret (case verified of Inl e \<Rightarrow> AddDone (Some e) | Inr info \<Rightarrow> AddAgain info)
       })"

definition add_turn :: "string \<Rightarrow> node \<Rightarrow> node \<Rightarrow> add_verdict act" where
  "add_turn directory expected current = do {
     dirs \<leftarrow> peek lp_dirs;
     ids \<leftarrow> peek lp_ids;
     if directory \<in> set dirs
     then
       (if (case map_of ids directory of None \<Rightarrow> True | Some known \<Rightarrow> same_file known current)
        then do { e \<leftarrow> restore_directory directory current; ret (AddDone e) }
        else do { e \<leftarrow> remove_directory_tree directory; verify_again directory expected e })
     else
       (case aliases_of directory current ids of
          [] \<Rightarrow>
            if max_watched_directories \<le> length dirs
            then ret (AddDone (Some (Wrapped [T ''watch directory '', T directory, T '': ''] err_directory_limit
                   [T '' ('', D (int max_watched_directories), T '' directories)''])))
            else do { e \<leftarrow> register_directory directory current; ret (AddDone e) }
        | aliases \<Rightarrow> do { e \<leftarrow> drop_aliases directory aliases; verify_again directory expected e })
   }"

section \<open>Runs of calls\<close>

text \<open>A call only adds to the count of calls and to the bookkeeping: how \<open>ask\<close>, \<open>peek\<close> and \<open>change\<close> run.\<close>

lemma run_calls [simp]:
  "run_state (ask f) s = (f (lp_os s (lp_now s)), s\<lparr>lp_now := Suc (lp_now s)\<rparr>)"
  "run_state (peek g) s = (g s, s)"
  "run_state (change k) s = ((), k s)"
  by (simp_all add: ask_def peek_def change_def)

text \<open>\<open>leads P m A\<close>: from a state with \<open>P\<close>, the action ends with a value and a state in \<open>A\<close>.\<close>

definition leads :: "(loop_state \<Rightarrow> bool) \<Rightarrow> 'a act \<Rightarrow> ('a \<Rightarrow> loop_state \<Rightarrow> bool) \<Rightarrow> bool" where
  "leads P m A \<longleftrightarrow> (\<forall>s. P s \<longrightarrow> A (fst (run_state m s)) (snd (run_state m s)))"

named_theorems leads_rules

lemma leadsD: "leads P m A \<Longrightarrow> P s \<Longrightarrow> run_state m s = (x, s') \<Longrightarrow> A x s'"
  unfolding leads_def by (metis fst_conv snd_conv)

lemma leads_ret [leads_rules]: "(\<And>s. P s \<Longrightarrow> A x s) \<Longrightarrow> leads P (ret x) A"
  by (simp add: leads_def)

lemma leads_bind [leads_rules]: "leads P m B \<Longrightarrow> (\<And>x. leads (B x) (f x) A) \<Longrightarrow> leads P (m \<bind> f) A"
  by (auto simp: leads_def split: prod.split)

lemma leads_ask: "(\<And>s. P s \<Longrightarrow> P (s\<lparr>lp_now := Suc (lp_now s)\<rparr>)) \<Longrightarrow> leads P (ask f) (\<lambda>_. P)"
  by (simp add: leads_def)

lemma leads_peek: "leads P (peek f) (\<lambda>x s. P s \<and> x = f s)"
  by (simp add: leads_def)

lemma leads_change: "(\<And>s. P s \<Longrightarrow> A () (k s)) \<Longrightarrow> leads P (change k) A"
  by (simp add: leads_def)

lemma leads_weaken: "leads P m A \<Longrightarrow> (\<And>s. P' s \<Longrightarrow> P s) \<Longrightarrow> (\<And>x s. A x s \<Longrightarrow> A' x s) \<Longrightarrow> leads P' m A'"
  by (auto simp: leads_def)

lemma leads_unless:
  "leads P m B \<Longrightarrow> (\<And>e s. B (Some e) s \<Longrightarrow> A (Some e) s) \<Longrightarrow> leads (B None) k A \<Longrightarrow> leads P (unless_error m k) A"
  unfolding unless_error_def
  by (rule leads_bind, assumption) (auto simp: leads_def split: option.split)

section \<open>Paths\<close>

text \<open>\<open>filepath.Clean\<close> is idempotent on relative paths too: what it keeps is some parents and then names.\<close>

definition up_then_down :: "string list \<Rightarrow> bool" where
  "up_then_down es \<longleftrightarrow> (\<exists>n gs. es = replicate n ''..'' @ gs \<and> (\<forall>g \<in> set gs. good_elem g))"

lemma clean_elems_form:
  assumes "\<forall>g \<in> set gs. good_elem g" and "\<forall>e \<in> set es. slash \<notin> set e"
  shows "up_then_down (clean_elems False (rev gs @ replicate n ''..'') es)"
  using assms
proof (induction es arbitrary: gs n)
  case Nil
  then show ?case by (auto simp: up_then_down_def)
next
  case (Cons e es)
  consider "e = [] \<or> e = ''.''" | "e = ''..''" | "good_elem e" using Cons.prems(2) by (auto simp: good_elem_def)
  then show ?case
  proof cases
    case 1
    then show ?thesis using Cons.IH[OF Cons.prems(1)] Cons.prems(2) by simp
  next
    case 2
    show ?thesis
    proof (cases gs rule: rev_cases)
      case Nil
      have "clean_elems False (replicate n ''..'') (e # es) = clean_elems False (replicate (Suc n) ''..'') es"
        using 2 by (cases n) simp_all
      then show ?thesis using Cons.IH[of "[]" "Suc n"] Cons.prems Nil by (simp del: replicate.simps)
    next
      case (snoc gs' g)
      then have "g \<noteq> ''..''" using Cons.prems(1) by (simp add: good_elem_def)
      then show ?thesis using Cons.IH[of gs' n] Cons.prems snoc 2 by simp
    qed
  next
    case 3
    then show ?thesis using Cons.IH[of "gs @ [e]" n] Cons.prems by (simp add: good_elem_def)
  qed
qed

lemma clean_elems_up: "clean_elems False (replicate k ''..'') (replicate n ''..'' @ gs) = clean_elems False (replicate (n + k) ''..'') gs"
proof (induction n arbitrary: k)
  case (Suc n)
  have "clean_elems False (replicate k ''..'') (''..'' # replicate n ''..'' @ gs) =
      clean_elems False (replicate (Suc k) ''..'') (replicate n ''..'' @ gs)"
    by (cases k) simp_all
  then show ?case using Suc.IH[of "Suc k"] by simp
qed simp

lemma clean_elems_kept:
  assumes "up_then_down es" shows "clean_elems False [] es = es"
proof -
  from assms obtain n gs where es: "es = replicate n ''..'' @ gs" "\<forall>g \<in> set gs. good_elem g" unfolding up_then_down_def by blast
  have "clean_elems False [] es = clean_elems False (replicate n ''..'') gs" using clean_elems_up[of 0 n gs] es(1) by simp
  also have "\<dots> = rev (replicate n ''..'') @ gs" by (rule clean_elems_id[OF es(2)])
  finally show ?thesis by (simp add: es(1))
qed

lemma clean_clean [simp]: "clean (clean p) = clean p"
proof (cases "is_abs p")
  case False
  define es where "es = clean_elems False [] (split_char slash p)"
  have form: "up_then_down es" unfolding es_def
    using clean_elems_form[of "[]" "split_char slash p" 0] split_char_no_sep by fastforce
  have clean: "clean p = (if es = [] then ''.'' else slashed es)" using False by (simp add: clean_def es_def Let_def)
  show ?thesis
  proof (cases "es = []")
    case True
    have "clean ''.'' = ''.''" by code_simp
    then show ?thesis using clean True by simp
  next
    case nonempty: False
    obtain n gs where parts: "es = replicate n ''..'' @ gs" "\<forall>g \<in> set gs. good_elem g" using form unfolding up_then_down_def by blast
    have no: "\<forall>e \<in> set es. slash \<notin> set e \<and> e \<noteq> []"
    proof
      fix e assume "e \<in> set es"
      then have "e = ''..'' \<or> good_elem e" using parts by (cases "n = 0") auto
      then show "slash \<notin> set e \<and> e \<noteq> []" by (auto simp: good_elem_def)
    qed
    then have "split_char slash (slashed es) = es" using nonempty by (intro split_join_char) auto
    moreover have "\<not> is_abs (slashed es)"
    proof -
      obtain c e fs where es: "es = (c # e) # fs" using no nonempty by (cases es; cases "hd es") auto
      then have "c \<noteq> slash" using no by auto
      then show ?thesis unfolding es by (cases fs) (simp_all add: is_abs_def)
    qed
    ultimately have "clean (slashed es) = slashed es" unfolding clean_def using clean_elems_kept[OF form] nonempty by simp
    then show ?thesis using clean nonempty by simp
  qed
qed simp

lemma within_self: "within (clean d) d"
  by (simp add: within_def rel_path_def)

end
