(* ===== verification/WatchDirs.thy ===== *)
theory WatchDirs
  imports WatchTree
begin

text \<open>
  \<open>addDirectory\<close>: its loop, that the loop ends, and what it keeps of the bookkeeping: every watched
  directory is known by one path, with the identity that was verified when its watch was set.
\<close>

text \<open>The loop has no bound in the code; \<open>err_endless\<close> stands for a loop that uses up its turns.\<close>

definition err_endless :: go_error where
  "err_endless = Sentinel ''the loop does not end''"

fun add_turns :: "nat \<Rightarrow> string \<Rightarrow> node \<Rightarrow> node \<Rightarrow> go_error option act" where
  "add_turns 0 directory expected current = ret (Some err_endless)"
| "add_turns (Suc n) directory expected current = do {
     verdict \<leftarrow> add_turn directory expected current;
     case verdict of AddDone e \<Rightarrow> ret e | AddAgain info \<Rightarrow> add_turns n directory expected info
   }"

definition add_directory :: "string \<Rightarrow> node \<Rightarrow> go_error option act" where
  "add_directory path expected =
    (let directory = clean path in do {
       verified \<leftarrow> verified_directory_info directory expected;
       case verified of
         Inl e \<Rightarrow> ret (Some e)
       | Inr current \<Rightarrow> do {
           dirs \<leftarrow> peek lp_dirs;
           add_turns (Suc (length dirs)) directory expected current
         }
     })"

section \<open>What the parts change\<close>

text \<open>Actions that only call.\<close>

definition calls_only :: "'a act \<Rightarrow> bool" where
  "calls_only m \<longleftrightarrow> (\<forall>s. \<exists>k. snd (run_state m s) = s\<lparr>lp_now := k\<rparr>)"

lemma calls_onlyD: "calls_only m \<Longrightarrow> run_state m s = (x, s') \<Longrightarrow> \<exists>k. s' = s\<lparr>lp_now := k\<rparr>"
  unfolding calls_only_def by (metis snd_conv)

lemma calls_only_ret: "calls_only (ret x)"
proof -
  have "s = s\<lparr>lp_now := lp_now s\<rparr>" for s :: loop_state by simp
  then show ?thesis unfolding calls_only_def by (metis State_Monad.run_state_return snd_conv)
qed

lemma calls_only_ask: "calls_only (ask f)"
  by (auto simp: calls_only_def)

lemma calls_only_peek: "calls_only (peek f)"
proof -
  have "s = s\<lparr>lp_now := lp_now s\<rparr>" for s :: loop_state by simp
  then show ?thesis unfolding calls_only_def by (metis run_calls(2) snd_conv)
qed

lemma calls_only_bind: "calls_only m \<Longrightarrow> (\<And>x. calls_only (f x)) \<Longrightarrow> calls_only (m \<bind> f)"
proof -
  assume m: "calls_only m" and f: "\<And>x. calls_only (f x)"
  show ?thesis unfolding calls_only_def
  proof
    fix s
    obtain x s1 where one: "run_state m s = (x, s1)" by fastforce
    obtain y s2 where two: "run_state (f x) s1 = (y, s2)" by fastforce
    from calls_onlyD[OF m one] calls_onlyD[OF f two] show "\<exists>k. snd (run_state (m \<bind> f) s) = s\<lparr>lp_now := k\<rparr>"
      using one two by auto
  qed
qed

lemma calls_only_unless: "calls_only m \<Longrightarrow> calls_only k \<Longrightarrow> calls_only (unless_error m k)"
  unfolding unless_error_def by (rule calls_only_bind, assumption) (auto intro: calls_only_ret split: option.split)

lemma calls_only_if: "(c \<Longrightarrow> calls_only m) \<Longrightarrow> (\<not> c \<Longrightarrow> calls_only n) \<Longrightarrow> calls_only (if c then m else n)"
  by simp

lemmas calls_only_rules = calls_only_ret calls_only_ask calls_only_peek calls_only_bind calls_only_unless calls_only_if

lemma calls_only_remove: "calls_only (remove_watches registered ds failed)"
  by (induction ds arbitrary: failed) (auto intro!: calls_only_rules)

lemma calls_only_verify: "calls_only (verified_directory_info d expected)"
  unfolding verified_directory_info_def by (intro calls_only_rules)

lemma verified_Inr:
  assumes "run_state (verified_directory_info d expected) s = (Inr info, s')"
  shows "plain_directory info" and "same_file expected info" and "\<exists>k. s' = s\<lparr>lp_now := k\<rparr>"
  using assms by (auto simp: verified_directory_info_def split: sum.splits if_splits)

lemma set_insert_by [simp]: "set (insert_by before x ys) = insert x (set ys)"
  by (induction ys) auto

lemma set_sort_by [simp]: "set (sort_by before xs) = set xs"
  by (induction xs) (simp_all add: sort_by_def)

lemma set_directory_tree [simp]: "set (watched_directory_tree dirs d) = {x \<in> set dirs. within (clean d) x}"
  by (auto simp: watched_directory_tree_def)

lemma remove_directory_tree_run:
  assumes "run_state (remove_directory_tree d) s = (e, s')"
  obtains k where "s' = s\<lparr>lp_dirs := filter (\<lambda>x. \<not> within (clean d) x) (lp_dirs s),
    lp_ids := filter (\<lambda>e. fst e \<notin> set (lp_dirs s) \<or> \<not> within (clean d) (fst e)) (lp_ids s), lp_now := k\<rparr>"
proof -
  let ?ds = "watched_directory_tree (lp_dirs s) d"
  let ?s1 = "s\<lparr>lp_dirs := filter (\<lambda>x. x \<notin> set ?ds) (lp_dirs s), lp_ids := filter (\<lambda>e. fst e \<notin> set ?ds) (lp_ids s)\<rparr>"
  have run: "run_state (remove_watches (map clean (os_watch_list (lp_os s (lp_now s)))) ?ds None) (?s1\<lparr>lp_now := Suc (lp_now s)\<rparr>) = (e, s')"
    using assms by (simp add: remove_directory_tree_def Let_def del: set_directory_tree)
  from calls_onlyD[OF calls_only_remove run] obtain k where k: "s' = ?s1\<lparr>lp_now := k\<rparr>" by auto
  have "filter (\<lambda>x. x \<notin> set ?ds) (lp_dirs s) = filter (\<lambda>x. \<not> within (clean d) x) (lp_dirs s)"
    by (intro filter_cong) auto
  moreover have "filter (\<lambda>e. fst e \<notin> set ?ds) (lp_ids s) =
      filter (\<lambda>e. fst e \<notin> set (lp_dirs s) \<or> \<not> within (clean d) (fst e)) (lp_ids s)"
    by (intro filter_cong) auto
  ultimately show ?thesis using that[of k] k by simp
qed

lemma set_aliases_of: "set (aliases_of d current ids) = {e \<in> set ids. fst e \<noteq> d \<and> same_file (snd e) current}"
  by (simp add: aliases_of_def)

section \<open>The bookkeeping\<close>

definition dirs_ok :: "loop_state \<Rightarrow> bool" where
  "dirs_ok s \<longleftrightarrow> distinct (lp_dirs s) \<and> distinct (map fst (lp_ids s)) \<and> set (lp_dirs s) = fst ` set (lp_ids s) \<and>
    distinct (map (\<lambda>e. nd_id (snd e)) (lp_ids s)) \<and> length (lp_dirs s) \<le> max_watched_directories \<and>
    (\<forall>e \<in> set (lp_ids s). plain_directory (snd e)) \<and> (\<forall>d \<in> set (lp_dirs s). is_abs d \<and> clean d = d)"

lemma dirs_ok_calls [simp]: "dirs_ok (s\<lparr>lp_now := k\<rparr>) = dirs_ok s"
  by (simp add: dirs_ok_def)

lemma distinct_map_filter_id: "distinct (map f xs) \<Longrightarrow> distinct (map f (filter P xs))"
  by (rule distinct_map_filter)

lemma dirs_ok_filter:
  assumes "dirs_ok s"
  shows "dirs_ok (s\<lparr>lp_dirs := filter (\<lambda>x. \<not> within d x) (lp_dirs s),
    lp_ids := filter (\<lambda>e. fst e \<notin> set (lp_dirs s) \<or> \<not> within d (fst e)) (lp_ids s), lp_now := k\<rparr>)"
proof -
  have "length (filter (\<lambda>x. \<not> within d x) (lp_dirs s)) \<le> max_watched_directories"
    using assms le_trans[OF length_filter_le[of "\<lambda>x. \<not> within d x" "lp_dirs s"]] by (simp add: dirs_ok_def)
  then show ?thesis using assms by (auto simp: dirs_ok_def intro: distinct_map_filter)
qed

lemma remove_tree_ok: "dirs_ok s \<Longrightarrow> run_state (remove_directory_tree d) s = (e, s') \<Longrightarrow> dirs_ok s'"
proof -
  assume ok: "dirs_ok s" and run: "run_state (remove_directory_tree d) s = (e, s')"
  obtain k where "s' = s\<lparr>lp_dirs := filter (\<lambda>x. \<not> within (clean d) x) (lp_dirs s),
      lp_ids := filter (\<lambda>e. fst e \<notin> set (lp_dirs s) \<or> \<not> within (clean d) (fst e)) (lp_ids s), lp_now := k\<rparr>"
    by (rule remove_directory_tree_run[OF run])
  with dirs_ok_filter[OF ok, where d="clean d" and k=k] show ?thesis by (simp only:)
qed

lemma remove_tree_less:
  assumes "run_state (remove_directory_tree d) s = (e, s')"
  shows "length (lp_dirs s') \<le> length (lp_dirs s)" and "d \<in> set (lp_dirs s) \<Longrightarrow> length (lp_dirs s') < length (lp_dirs s)"
    and "set (lp_dirs s') \<subseteq> set (lp_dirs s)" and "d \<notin> set (lp_dirs s')"
proof -
  obtain k where s': "s' = s\<lparr>lp_dirs := filter (\<lambda>x. \<not> within (clean d) x) (lp_dirs s),
      lp_ids := filter (\<lambda>e. fst e \<notin> set (lp_dirs s) \<or> \<not> within (clean d) (fst e)) (lp_ids s), lp_now := k\<rparr>"
    by (rule remove_directory_tree_run[OF assms])
  show "length (lp_dirs s') \<le> length (lp_dirs s)" "set (lp_dirs s') \<subseteq> set (lp_dirs s)" by (auto simp: s')
  show "d \<notin> set (lp_dirs s')" by (simp add: s' within_self)
  assume d: "d \<in> set (lp_dirs s)"
  show "length (lp_dirs s') < length (lp_dirs s)"
    using length_filter_less[of d "lp_dirs s" "\<lambda>x. \<not> within (clean d) x"] d within_self by (simp add: s')
qed

lemma map_store_ok:
  assumes ok: "dirs_ok s" and plain: "plain_directory info" and d: "is_abs d" "clean d = d"
    and fresh: "\<forall>e \<in> set (lp_ids s). fst e \<noteq> d \<longrightarrow> nd_id (snd e) \<noteq> nd_id info"
    and room: "d \<in> set (lp_dirs s) \<or> length (lp_dirs s) < max_watched_directories"
  shows "dirs_ok (store_directory d info s)"
proof -
  let ?D = "if d \<in> set (lp_dirs s) then lp_dirs s else lp_dirs s @ [d]" and ?I = "map_store d info (lp_ids s)"
  have keys: "set (lp_dirs s) = fst ` set (lp_ids s)" using ok by (simp add: dirs_ok_def)
  have D: "set ?D = insert d (set (lp_dirs s))" "distinct ?D" "length ?D \<le> max_watched_directories"
    using ok room by (auto simp: dirs_ok_def)
  have "fst ` set ?I = insert d (fst ` set (lp_ids s))" by (force simp: map_store_def map_delete_def)
  then have "set ?D = fst ` set ?I" using D(1) keys by simp
  moreover have "distinct (map (\<lambda>e. nd_id (snd e)) ?I)"
    using ok fresh by (auto simp: map_store_def map_delete_def dirs_ok_def intro: distinct_map_filter)
  moreover have "distinct (map fst ?I)"
    using ok by (auto simp: map_store_def map_delete_def dirs_ok_def intro: distinct_map_filter)
  moreover have "\<forall>e \<in> set ?I. plain_directory (snd e)"
    using ok plain by (auto simp: map_store_def map_delete_def dirs_ok_def)
  moreover have "\<forall>x \<in> set ?D. is_abs x \<and> clean x = x" unfolding D(1) using ok d by (simp add: dirs_ok_def)
  ultimately show ?thesis using D(2,3) unfolding dirs_ok_def store_directory_def by simp
qed

lemma ids_differ:
  assumes "dirs_ok s" and "map_of (lp_ids s) d = Some known" and "x \<in> set (lp_ids s)" and "fst x \<noteq> d"
  shows "nd_id (snd x) \<noteq> nd_id known"
proof -
  have "(d, known) \<in> set (lp_ids s)" using assms(2) by (rule map_of_SomeD)
  moreover have "inj_on (\<lambda>e. nd_id (snd e)) (set (lp_ids s))" using assms(1) by (simp add: dirs_ok_def distinct_map)
  ultimately have "x = (d, known)" if "nd_id (snd x) = nd_id known"
    using inj_onD[of "\<lambda>e. nd_id (snd e)" "set (lp_ids s)" x "(d, known)"] assms(3) that by simp
  then show ?thesis using assms(4) by auto
qed

section \<open>One turn\<close>

lemma restore_directory_run:
  assumes "run_state (restore_directory d current) s = (e, s')"
  obtains (calls) k where "s' = s\<lparr>lp_now := k\<rparr>"
  | (stored) k info where "s' = s\<lparr>lp_now := k, lp_ids := map_store d info (lp_ids s)\<rparr>"
      "plain_directory info" "same_file current info" "e = None"
proof -
  have "(\<exists>k. s' = s\<lparr>lp_now := k\<rparr>) \<or> (\<exists>k info. s' = s\<lparr>lp_now := k, lp_ids := map_store d info (lp_ids s)\<rparr> \<and>
      plain_directory info \<and> same_file current info \<and> e = None)"
    using assms
    by (auto simp: restore_directory_def verified_directory_info_def split: if_splits option.splits sum.splits)
  then show ?thesis using calls stored by blast
qed

lemma register_directory_run:
  assumes "run_state (register_directory d current) s = (e, s')"
  obtains (calls) k err where "s' = s\<lparr>lp_now := k\<rparr>" "e = Some err"
  | (stored) k info where "s' = store_directory d info (s\<lparr>lp_now := k\<rparr>)"
      "plain_directory info" "same_file current info" "e = None"
proof -
  have join: "errors_join (Some x # es) \<noteq> None" for x es by (simp add: errors_join_def Let_def map_filter_simps)
  have "(\<exists>k err. s' = s\<lparr>lp_now := k\<rparr> \<and> e = Some err) \<or> (\<exists>k info. s' = store_directory d info (s\<lparr>lp_now := k\<rparr>) \<and>
      plain_directory info \<and> same_file current info \<and> e = None)"
    using assms join
    by (auto simp: register_directory_def verified_directory_info_def split: if_splits option.splits sum.splits)
  then show ?thesis using calls stored by blast
qed

lemma drop_aliases_run:
  assumes "run_state (drop_aliases d as) s = (e, s')" and "dirs_ok s"
  shows "dirs_ok s' \<and> set (lp_dirs s') \<subseteq> set (lp_dirs s) \<and> length (lp_dirs s') \<le> length (lp_dirs s) \<and>
    (as \<noteq> [] \<and> e = None \<and> fst (hd as) \<in> set (lp_dirs s) \<longrightarrow> length (lp_dirs s') < length (lp_dirs s))"
  using assms
proof (induction as arbitrary: s e)
  case (Cons a as)
  let ?s1 = "s\<lparr>lp_now := Suc (lp_now s)\<rparr>"
  obtain e1 s2 where one: "run_state (remove_directory_tree (fst a)) ?s1 = (e1, s2)" by fastforce
  have ok1: "dirs_ok ?s1" using Cons.prems(2) by simp
  note ok2 = remove_tree_ok[OF ok1 one] and less = remove_tree_less[OF one]
  consider (stop) err where "e = Some err" "s' = ?s1"
    | (failed) err where "e1 = Some err" "e = Some err" "s' = s2"
    | (on) "e1 = None" "run_state (drop_aliases d as) s2 = (e, s')"
    using Cons.prems(1) one by (auto simp: unless_error_def split: if_splits sum.splits option.splits)
  then show ?case
  proof cases
    case stop
    then show ?thesis using Cons.prems(2) by simp
  next
    case failed
    then show ?thesis using ok2 less by simp
  next
    case on
    from Cons.IH[OF on(2) ok2] less show ?thesis by auto
  qed
qed simp

text \<open>A turn that asks for another one made the set of watched directories smaller.\<close>

lemma add_turn_run:
  assumes run: "run_state (add_turn d expected current) s = (v, s')" and ok: "dirs_ok s" and d: "is_abs d" "clean d = d"
    and current: "plain_directory current" "same_file expected current"
  shows "dirs_ok s' \<and> (case v of
      AddDone e \<Rightarrow> e = None \<longrightarrow> (\<exists>info. map_of (lp_ids s') d = Some info \<and> same_file expected info)
    | AddAgain info \<Rightarrow> plain_directory info \<and> same_file expected info \<and> length (lp_dirs s') < length (lp_dirs s))"
proof -
  have keys: "set (lp_dirs s) = fst ` set (lp_ids s)" "distinct (map fst (lp_ids s))" using ok by (simp_all add: dirs_ok_def)
  have again: "dirs_ok s3 \<and> (case v of AddDone e \<Rightarrow> e \<noteq> None
      | AddAgain info \<Rightarrow> plain_directory info \<and> same_file expected info \<and> failed = None \<and> lp_dirs s3 = lp_dirs s2)"
    if "run_state (verify_again d expected failed) s2 = (v, s3)" "dirs_ok s2" for v s2 s3 failed
    using that verified_Inr[of d expected s2]
    by (auto simp: verify_again_def verified_directory_info_def split: option.splits sum.splits if_splits)
  show ?thesis
  proof (cases "d \<in> set (lp_dirs s)")
    case watched: True
    show ?thesis
    proof (cases "case map_of (lp_ids s) d of None \<Rightarrow> True | Some known \<Rightarrow> same_file known current")
      case True
      obtain known where known: "map_of (lp_ids s) d = Some known"
        using watched keys(1) by (metis map_of_eq_None_iff not_None_eq)
      have same: "nd_id known = nd_id current" using True known by (simp add: same_file_def)
      obtain e where e: "v = AddDone e" "run_state (restore_directory d current) s = (e, s')"
        using run watched True by (auto simp: add_turn_def split: prod.splits)
      from e(2) show ?thesis
      proof (cases rule: restore_directory_run)
        case (calls k)
        then show ?thesis using ok known same current by (auto simp: e(1) same_file_def)
      next
        case (stored k info)
        have "\<forall>x \<in> set (lp_ids s). fst x \<noteq> d \<longrightarrow> nd_id (snd x) \<noteq> nd_id info"
          using ids_differ[OF ok known] same stored(3) by (simp add: same_file_def)
        then have "dirs_ok (store_directory d info s)" using stored(2) d watched by (intro map_store_ok[OF ok]) simp_all
        then show ?thesis using stored(1,3) watched current
          by (simp add: e(1) store_directory_def dirs_ok_def map_store_def same_file_def)
      qed
    next
      case False
      obtain failed s2 where r: "run_state (remove_directory_tree d) s = (failed, s2)" by fastforce
      have v: "run_state (verify_again d expected failed) s2 = (v, s')"
        using run watched False r by (simp add: add_turn_def)
      from again[OF v remove_tree_ok[OF ok r]] remove_tree_less(2)[OF r watched] show ?thesis
        by (cases v) auto
    qed
  next
    case new: False
    show ?thesis
    proof (cases "aliases_of d current (lp_ids s)")
      case Nil
      then have fresh: "\<forall>x \<in> set (lp_ids s). fst x \<noteq> d \<longrightarrow> nd_id (snd x) \<noteq> nd_id current"
        using set_aliases_of[of d current "lp_ids s"] unfolding same_file_def Nil by fastforce
      show ?thesis
      proof (cases "max_watched_directories \<le> length (lp_dirs s)")
        case True
        then show ?thesis using run new Nil ok by (auto simp: add_turn_def)
      next
        case False
        obtain e where e: "v = AddDone e" "run_state (register_directory d current) s = (e, s')"
          using run new Nil False by (auto simp: add_turn_def split: prod.splits)
        from e(2) show ?thesis
        proof (cases rule: register_directory_run)
          case (calls k err)
          then show ?thesis using ok by (simp add: e(1))
        next
          case (stored k info)
          have "dirs_ok (store_directory d info (s\<lparr>lp_now := k\<rparr>))"
            using ok fresh stored(2,3) d False by (intro map_store_ok) (simp_all add: same_file_def)
          then show ?thesis using stored current by (simp add: e(1) store_directory_def map_store_def same_file_def)
        qed
      qed
    next
      case (Cons a as)
      obtain failed s2 where r: "run_state (drop_aliases d (a # as)) s = (failed, s2)" by fastforce
      have v: "run_state (verify_again d expected failed) s2 = (v, s')"
        using run new Cons r by (simp add: add_turn_def)
      have "a \<in> set (aliases_of d current (lp_ids s))" unfolding Cons by simp
      then have "fst a \<in> set (lp_dirs s)" using keys(1) by (auto simp: set_aliases_of)
      with drop_aliases_run[OF r ok] again[OF v] show ?thesis by (cases v) auto
    qed
  qed
qed

section \<open>The loop\<close>

lemma add_turns_run:
  assumes "run_state (add_turns n d expected current) s = (e, s')" and "dirs_ok s" and "is_abs d" "clean d = d"
    and "plain_directory current" "same_file expected current" and "length (lp_dirs s) < n"
  shows "dirs_ok s' \<and> (e = None \<longrightarrow> (\<exists>info. map_of (lp_ids s') d = Some info \<and> same_file expected info)) \<and>
    (\<forall>m. length (lp_dirs s) < m \<longrightarrow> run_state (add_turns m d expected current) s = (e, s'))"
  using assms
proof (induction n arbitrary: current s)
  case (Suc n)
  obtain v s1 where turn: "run_state (add_turn d expected current) s = (v, s1)" by fastforce
  note one = add_turn_run[OF turn Suc.prems(2-6)]
  show ?case
  proof (cases v)
    case (AddDone e1)
    have "run_state (add_turns m d expected current) s = (e1, s1)" if "0 < m" for m
      using that turn AddDone by (cases m) simp_all
    moreover have "e1 = e" "s1 = s'" using Suc.prems(1) turn AddDone by simp_all
    ultimately show ?thesis using one AddDone by simp
  next
    case (AddAgain info)
    have rest: "run_state (add_turns n d expected info) s1 = (e, s')" using Suc.prems(1) turn AddAgain by simp
    have "length (lp_dirs s1) < n" using one AddAgain Suc.prems(7) by simp
    with Suc.IH[OF rest _ Suc.prems(3,4)] one AddAgain
    have IH: "dirs_ok s' \<and> (e = None \<longrightarrow> (\<exists>info. map_of (lp_ids s') d = Some info \<and> same_file expected info)) \<and>
        (\<forall>m. length (lp_dirs s1) < m \<longrightarrow> run_state (add_turns m d expected info) s1 = (e, s'))" by simp
    have "run_state (add_turns m d expected current) s = (e, s')" if m: "length (lp_dirs s) < m" for m
    proof (cases m)
      case (Suc k)
      then show ?thesis using IH turn AddAgain one m by simp
    qed (use m in simp)
    then show ?thesis using IH by blast
  qed
qed simp

end
