(* ===== verification/WatchScan.thy ===== *)
theory WatchScan
  imports WatchDirs
begin

text \<open>
  \<open>walkTreeBatched\<close> and \<open>scanDirectoryBatched\<close>: the traversal of a directory tree with a backlog, in which
  directories may vanish or be replaced between being listed and being opened.
\<close>

section \<open>The scan of one directory\<close>

record queued_directory =
  qd_relative :: string
  qd_info :: node

type_synonym backlog = "queued_directory list \<times> nat"

type_synonym visitor = "string \<Rightarrow> node \<Rightarrow> go_error option act"

definition absolute_tree_path :: "string \<Rightarrow> string \<Rightarrow> string" where
  "absolute_tree_path root relative = (if relative = ''.'' then root else join_path [root, relative])"

definition scan_limit_error :: "string \<Rightarrow> go_error" where
  "scan_limit_error root =
    Wrapped [T ''scan directory '', T root, T '': ''] err_directory_limit [T '' ('', D (int max_watched_directories), T '' directories)'']"

fun scan_entries ::
  "string \<Rightarrow> string \<Rightarrow> bool \<Rightarrow> visitor \<Rightarrow> dir_entry list \<Rightarrow> backlog \<Rightarrow> (go_error option \<times> backlog) act" where
  "scan_entries root dir recursive visit [] q = ret (None, q)"
| "scan_entries root dir recursive visit (x # xs) q = do {
     c \<leftarrow> ask os_ctx;
     case c of
       Some e \<Rightarrow> ret (Some e, q)
     | None \<Rightarrow>
         if nd_symlink (en_info x) then scan_entries root dir recursive visit xs q
         else
           (let relative = join_path [dir, en_name x] in
            if nd_dir (en_info x)
            then
              (if \<not> recursive then scan_entries root dir recursive visit xs q
               else if max_watched_directories \<le> snd q then ret (Some (scan_limit_error root), q)
               else scan_entries root dir recursive visit xs
                      (fst q @ [\<lparr>qd_relative = relative, qd_info = en_info x\<rparr>], Suc (snd q)))
            else do {
              e \<leftarrow> visit (absolute_tree_path root relative) (en_info x);
              case e of Some err \<Rightarrow> ret (Some err, q) | None \<Rightarrow> scan_entries root dir recursive visit xs q
            })
   }"

text \<open>After the last batch that is listed the directory answers with its end.\<close>

fun scan_batches ::
  "string \<Rightarrow> string \<Rightarrow> bool \<Rightarrow> visitor \<Rightarrow> (dir_entry list \<times> go_error option) list \<Rightarrow> backlog \<Rightarrow> (go_error option \<times> backlog) act" where
  "scan_batches root dir recursive visit [] q = do { c \<leftarrow> ask os_ctx; ret (c, q) }"
| "scan_batches root dir recursive visit ((entries, failed) # batches) q = do {
     c \<leftarrow> ask os_ctx;
     case c of
       Some e \<Rightarrow> ret (Some e, q)
     | None \<Rightarrow> do {
         r \<leftarrow> scan_entries root dir recursive visit entries q;
         case r of
           (Some e, q1) \<Rightarrow> ret (Some e, q1)
         | (None, q1) \<Rightarrow>
             (case failed of
                None \<Rightarrow> scan_batches root dir recursive visit batches q1
              | Some e \<Rightarrow>
                  ret (if errors_is ''EOF'' e then None
                       else Some (Wrapped [T ''read directory '', T (absolute_tree_path root dir), T '': ''] e []), q1))
       }
   }"

definition verify_directory_error :: "string \<Rightarrow> string \<Rightarrow> go_error \<Rightarrow> go_error" where
  "verify_directory_error root dir e = Wrapped [T ''verify directory '', T (absolute_tree_path root dir), T '': ''] e []"

definition scan_opened ::
  "string \<Rightarrow> queued_directory \<Rightarrow> bool \<Rightarrow> visitor \<Rightarrow> dir_handle \<Rightarrow> backlog \<Rightarrow> (go_error option \<times> backlog) act" where
  "scan_opened root directory recursive visit opened q = do {
     c \<leftarrow> ask os_ctx;
     case c of
       Some e \<Rightarrow> ret (Some e, q)
     | None \<Rightarrow>
         (case dh_stat opened of
            Inl e \<Rightarrow> ret (Some (verify_directory_error root (qd_relative directory) e), q)
          | Inr info \<Rightarrow>
              if \<not> nd_dir info \<or> \<not> same_file (qd_info directory) info
              then ret (Some (verify_directory_error root (qd_relative directory)
                     (Joined [err_directory_changed, err_queued_directory_changed])), q)
              else do {
                e \<leftarrow> visit (absolute_tree_path root (qd_relative directory)) info;
                case e of
                  Some err \<Rightarrow> ret (Some err, q)
                | None \<Rightarrow> scan_batches root (qd_relative directory) recursive visit (dh_batches opened) q
              })
   }"

definition scan_directory_batched ::
  "string \<Rightarrow> queued_directory \<Rightarrow> bool \<Rightarrow> visitor \<Rightarrow> backlog \<Rightarrow> (go_error option \<times> backlog) act" where
  "scan_directory_batched root directory recursive visit q = do {
     c \<leftarrow> ask os_ctx;
     case c of
       Some e \<Rightarrow> ret (Some e, q)
     | None \<Rightarrow> do {
         opened \<leftarrow> ask (\<lambda>os. os_open os root (qd_relative directory));
         case opened of
           Inl e \<Rightarrow> ret (Some (Wrapped [T ''open directory '', T (absolute_tree_path root (qd_relative directory)), T '': ''] e []), q)
         | Inr h \<Rightarrow> do {
             r \<leftarrow> scan_opened root directory recursive visit h q;
             ret (errors_join [fst r, dh_close h], snd r)
           }
       }
   }"

section \<open>The traversal\<close>

text \<open>The loop over the backlog, with a bound on its turns; \<open>walk_turns_enough\<close> says that the bound that
  \<open>walk_tree_batched\<close> gives is never reached.\<close>

definition passing_error :: "queued_directory \<Rightarrow> go_error option \<Rightarrow> bool" where
  "passing_error directory e \<longleftrightarrow> qd_relative directory \<noteq> ''.'' \<and>
    (case e of
       None \<Rightarrow> False
     | Some err \<Rightarrow> errors_is ''file does not exist'' err \<or> errors_is ''queued directory changed before scan'' err)"

fun walk_turns :: "nat \<Rightarrow> string \<Rightarrow> bool \<Rightarrow> visitor \<Rightarrow> backlog \<Rightarrow> go_error option act" where
  "walk_turns 0 root recursive visit q = ret (if fst q = [] then None else Some err_endless)"
| "walk_turns (Suc n) root recursive visit q =
    (if fst q = [] then ret None
     else do {
       c \<leftarrow> ask os_ctx;
       case c of
         Some e \<Rightarrow> ret (Some e)
       | None \<Rightarrow> do {
           r \<leftarrow> scan_directory_batched root (last (fst q)) recursive visit (butlast (fst q), snd q);
           if passing_error (last (fst q)) (fst r) then walk_turns n root recursive visit (snd r)
           else
             (case fst r of
                Some e \<Rightarrow> ret (Some e)
              | None \<Rightarrow> walk_turns n root recursive visit (snd r))
         }
     })"

definition walk_tree_batched :: "string \<Rightarrow> bool \<Rightarrow> visitor \<Rightarrow> go_error option act" where
  "walk_tree_batched path recursive visit =
    unless_error (ask os_ctx)
    (let root = clean path in do {
       found \<leftarrow> ask (\<lambda>os. os_lstat os root);
       case found of
         Inl e \<Rightarrow> ret (Some (Wrapped [T ''inspect directory '', T root, T '': ''] e []))
       | Inr root_info \<Rightarrow>
           if nd_symlink root_info then ret (Some (Wrapped [T ''directory '', T root, T '': ''] err_symlink []))
           else if \<not> nd_dir root_info then ret (Some (ErrorString [T root, T '' is not a directory'']))
           else
             unless_error (ask os_ctx)
             (do {
                failed \<leftarrow> ask (\<lambda>os. os_open_root os root);
                case failed of
                  Some e \<Rightarrow> ret (Some (Wrapped [T ''open directory root '', T root, T '': ''] e []))
                | None \<Rightarrow>
                    unless_error (ask os_ctx)
                    (do {
                       actual \<leftarrow> ask (\<lambda>os. os_root_stat os root);
                       case actual of
                         Inl e \<Rightarrow> ret (Some (Wrapped [T ''verify directory root '', T root, T '': ''] e []))
                       | Inr info \<Rightarrow>
                           if \<not> nd_dir info \<or> \<not> same_file root_info info
                           then ret (Some (Wrapped [T ''verify directory root '', T root, T '': ''] err_directory_changed []))
                           else walk_turns max_watched_directories root recursive visit
                                  ([\<lparr>qd_relative = ''.'', qd_info = info\<rparr>], 1)
                     })
              })
     })"

section \<open>What a traversal keeps\<close>

text \<open>A property of the state that calls do not touch, and that a visit of a path in the tree keeps, holds
  after the traversal. A visited information is not a symbolic link.\<close>

definition stable :: "(loop_state \<Rightarrow> bool) \<Rightarrow> bool" where
  "stable I \<longleftrightarrow> (\<forall>s k. I s \<longrightarrow> I (s\<lparr>lp_now := k\<rparr>))"

definition preserves :: "(loop_state \<Rightarrow> bool) \<Rightarrow> 'a act \<Rightarrow> bool" where
  "preserves I m \<longleftrightarrow> (\<forall>s. I s \<longrightarrow> I (snd (run_state m s)))"

lemma preservesD: "preserves I m \<Longrightarrow> I s \<Longrightarrow> run_state m s = (x, s') \<Longrightarrow> I s'"
  unfolding preserves_def by (metis snd_conv)

named_theorems keep

lemma preserves_ret [keep]: "preserves I (ret x)"
  by (simp add: preserves_def)

lemma preserves_ask [keep]: "stable I \<Longrightarrow> preserves I (ask f)"
  by (simp add: preserves_def stable_def)

lemma preserves_peek [keep]: "preserves I (peek f)"
  by (simp add: preserves_def)

lemma preserves_bind [keep]: "preserves I m \<Longrightarrow> (\<And>x. preserves I (f x)) \<Longrightarrow> preserves I (m \<bind> f)"
  by (simp add: preserves_def split: prod.split) (metis snd_conv)

lemma preserves_unless [keep]: "preserves I m \<Longrightarrow> preserves I k \<Longrightarrow> preserves I (unless_error m k)"
  unfolding unless_error_def by (rule preserves_bind) (auto intro: preserves_ret split: option.split)

lemma preserves_if [keep]: "(c \<Longrightarrow> preserves I m) \<Longrightarrow> (\<not> c \<Longrightarrow> preserves I n) \<Longrightarrow> preserves I (if c then m else n)"
  by simp

lemma preserves_option [keep]:
  "(x = None \<Longrightarrow> preserves I m) \<Longrightarrow> (\<And>e. x = Some e \<Longrightarrow> preserves I (k e)) \<Longrightarrow> preserves I (case x of None \<Rightarrow> m | Some e \<Rightarrow> k e)"
  by (cases x) simp_all

lemma preserves_sum [keep]:
  "(\<And>e. x = Inl e \<Longrightarrow> preserves I (m e)) \<Longrightarrow> (\<And>v. x = Inr v \<Longrightarrow> preserves I (k v)) \<Longrightarrow>
    preserves I (case x of Inl e \<Rightarrow> m e | Inr v \<Rightarrow> k v)"
  by (cases x) simp_all

lemma preserves_pair [keep]: "(\<And>a b. x = (a, b) \<Longrightarrow> preserves I (k a b)) \<Longrightarrow> preserves I (case x of (a, b) \<Rightarrow> k a b)"
  by (cases x) simp

lemma preserves_calls: "calls_only m \<Longrightarrow> stable I \<Longrightarrow> preserves I m"
  unfolding preserves_def stable_def calls_only_def by metis

lemma scan_entries_keeps:
  assumes "stable I" and "\<And>relative info. preserves I (visit (absolute_tree_path root relative) info)"
  shows "preserves I (scan_entries root dir recursive visit xs q)"
  using assms by (induction xs arbitrary: q) (auto intro!: keep simp: Let_def)

lemma scan_batches_keeps:
  assumes "stable I" and "\<And>relative info. preserves I (visit (absolute_tree_path root relative) info)"
  shows "preserves I (scan_batches root dir recursive visit bs q)"
  using assms
proof (induction bs arbitrary: q)
  case (Cons b bs)
  obtain entries failed where b: "b = (entries, failed)" by fastforce
  show ?case unfolding b scan_batches.simps
    by (intro keep scan_entries_keeps Cons.prems Cons.IH)
qed (auto intro!: keep)

lemma scan_directory_keeps:
  assumes "stable I" and "\<And>relative info. preserves I (visit (absolute_tree_path root relative) info)"
  shows "preserves I (scan_directory_batched root directory recursive visit q)"
  unfolding scan_directory_batched_def scan_opened_def by (intro keep scan_batches_keeps assms)

lemma walk_turns_keeps:
  assumes "stable I" and "\<And>relative info. preserves I (visit (absolute_tree_path root relative) info)"
  shows "preserves I (walk_turns n root recursive visit q)"
  using assms by (induction n arbitrary: q) (auto intro!: keep scan_directory_keeps)

lemma walk_tree_keeps:
  assumes "stable I" and "\<And>relative info. preserves I (visit (absolute_tree_path (clean path) relative) info)"
  shows "preserves I (walk_tree_batched path recursive visit)"
  unfolding walk_tree_batched_def Let_def by (intro keep walk_turns_keeps assms)

section \<open>The traversal ends\<close>

text \<open>A scan adds to the backlog what it adds to the count of discovered directories, and the count
  stays below the limit; so the turns that are left are at most \<open>turns_left\<close>.\<close>

definition turns_left :: "backlog \<Rightarrow> nat" where
  "turns_left q = max_watched_directories - snd q + length (fst q)"

definition backlog_grows :: "backlog \<Rightarrow> backlog \<Rightarrow> bool" where
  "backlog_grows q q' \<longleftrightarrow> snd q' \<le> max_watched_directories \<and> snd q' + length (fst q) = snd q + length (fst q')"

lemma backlog_same: "snd q \<le> max_watched_directories \<Longrightarrow> backlog_grows q q"
  by (simp add: backlog_grows_def)

lemma scan_entries_grows:
  "snd q \<le> max_watched_directories \<Longrightarrow> run_state (scan_entries root dir recursive visit xs q) s = ((e, q'), s') \<Longrightarrow> backlog_grows q q'"
proof (induction xs arbitrary: q s)
  case (Cons x xs)
  have push: "backlog_grows q q'"
    if "run_state (scan_entries root dir True visit xs (fst q @ [d], Suc (snd q))) s1 = ((e, q'), s')"
      and "\<not> max_watched_directories \<le> snd q" "recursive" for d s1
    using Cons.IH[of "(fst q @ [d], Suc (snd q))" s1] that by (simp add: backlog_grows_def)
  show ?case
    using Cons.prems Cons.IH[of q]
    by (auto simp: Let_def backlog_same split: option.splits if_splits prod.splits intro: push)
qed (auto simp: backlog_same)

lemma scan_batches_grows:
  "snd q \<le> max_watched_directories \<Longrightarrow> run_state (scan_batches root dir recursive visit bs q) s = ((e, q'), s') \<Longrightarrow> backlog_grows q q'"
proof (induction bs arbitrary: q s)
  case (Cons b bs)
  obtain entries failed where b: "b = (entries, failed)" by fastforce
  obtain e1 q1 s1 where one: "run_state (scan_entries root dir recursive visit entries q) (s\<lparr>lp_now := Suc (lp_now s)\<rparr>) = ((e1, q1), s1)"
    by (metis prod.exhaust)
  note grow = scan_entries_grows[OF Cons.prems(1) one]
  have trans: "backlog_grows q q'" if "backlog_grows q1 q'" using grow that by (simp add: backlog_grows_def)
  have "snd q1 \<le> max_watched_directories" using grow by (simp add: backlog_grows_def)
  then show ?case
    using Cons.prems one grow Cons.IH[of q1] trans backlog_same[of q]
    by (auto simp: b split: option.splits)
qed (auto simp: backlog_same)

lemma scan_directory_grows:
  assumes "snd q \<le> max_watched_directories" and "run_state (scan_directory_batched root directory recursive visit q) s = ((e, q'), s')"
  shows "backlog_grows q q'"
  using assms scan_batches_grows[OF assms(1)] backlog_same[OF assms(1)]
  by (auto simp: scan_directory_batched_def scan_opened_def split: option.splits sum.splits prod.splits if_splits)

lemma walk_turns_enough:
  assumes "snd q \<le> max_watched_directories" and "turns_left q \<le> n" and "turns_left q \<le> m"
  shows "run_state (walk_turns n root recursive visit q) s = run_state (walk_turns m root recursive visit q) s"
  using assms
proof (induction n arbitrary: m q s)
  case 0
  then have "length (fst q) = 0" unfolding turns_left_def by linarith
  then show ?case by (cases m) simp_all
next
  case (Suc n)
  show ?case
  proof (cases "fst q = []")
    case True
    then show ?thesis by (cases m) simp_all
  next
    case False
    then obtain m' where m: "m = Suc m'" using Suc.prems(3) by (cases m) (simp_all add: turns_left_def)
    let ?scan = "scan_directory_batched root (last (fst q)) recursive visit (butlast (fst q), snd q)"
    have rest: "run_state (walk_turns n root recursive visit q1) s1 = run_state (walk_turns m' root recursive visit q1) s1"
      if "run_state ?scan s0 = ((e, q1), s1)" for s0 e q1 s1
    proof -
      have grow: "backlog_grows (butlast (fst q), snd q) q1" using scan_directory_grows[OF _ that] Suc.prems(1) by simp
      have "0 < length (fst q)" using False by simp
      then have "turns_left q1 < turns_left q"
        using grow Suc.prems(1) unfolding backlog_grows_def turns_left_def fst_conv snd_conv length_butlast by linarith
      then have "snd q1 \<le> max_watched_directories" "turns_left q1 \<le> n" "turns_left q1 \<le> m'"
        using grow Suc.prems(2,3) m by (simp_all add: backlog_grows_def)
      then show ?thesis by (rule Suc.IH)
    qed
    show ?thesis using False rest unfolding m by (auto split: option.split prod.split)
  qed
qed

lemma walk_turns_some:
  assumes "snd q \<le> max_watched_directories" and "turns_left q \<le> n"
  shows "run_state (walk_turns (n + k) root recursive visit q) s = run_state (walk_turns n root recursive visit q) s"
  using assms by (intro walk_turns_enough) simp_all

end
