(* ===== verification/WatchLoop.thy ===== *)
theory WatchLoop
  imports WatchScan
begin

text \<open>
  \<open>Run\<close> of a watcher: the registration of the configured trees, the discovery of files, the handling of
  notifications and the periodic checks. The loop takes a sequence of inputs: what its \<open>select\<close> receives.
  Relative paths are resolved against \<open>cwd\<close>; a missing working directory, on which \<open>filepath.Abs\<close> fails,
  is not modelled.
\<close>

fun for_each :: "('a \<Rightarrow> go_error option act) \<Rightarrow> 'a list \<Rightarrow> go_error option act" where
  "for_each f [] = ret None"
| "for_each f (x # xs) = unless_error (f x) (for_each f xs)"

section \<open>Start\<close>

definition new_watcher :: "string \<Rightarrow> watch_config list \<Rightarrow> bool \<Rightarrow> go_error option \<Rightarrow> watch_spec list result" where
  "new_watcher cwd watches handler failed =
    (if watches = [] then Inl (new_error ''at least one watch is required'')
     else if \<not> handler then Inl (new_error ''watch handler is required'')
     else
       (case failed of
          Some e \<Rightarrow> Inl (Wrapped [T ''create filesystem watcher: ''] e [])
        | None \<Rightarrow> Inr (new_specs cwd watches)))"

text \<open>The guards of \<open>Run\<close>, and \<open>Close\<close>, which marks the watcher and closes the library once.\<close>

record run_flags =
  rf_running :: bool
  rf_closed :: bool

definition begin_run :: "bool \<Rightarrow> run_flags \<Rightarrow> go_error option \<times> run_flags" where
  "begin_run context f =
    (if \<not> context then (Some (new_error ''watch context is required''), f)
     else if rf_running f then (Some (new_error ''watcher has already been run''), f)
     else if rf_closed f then (Some (new_error ''watcher is closed''), f)
     else (None, f\<lparr>rf_running := True\<rparr>))"

definition close_watcher :: "go_error option \<Rightarrow> run_flags \<Rightarrow> go_error option \<times> run_flags" where
  "close_watcher failed f = (if rf_closed f then (None, f) else (failed, f\<lparr>rf_closed := True\<rparr>))"

lemma run_once: "begin_run True f = (None, f') \<Longrightarrow> fst (begin_run c f') \<noteq> None \<and> fst (begin_run c (snd (close_watcher e f))) \<noteq> None"
  by (auto simp: begin_run_def close_watcher_def split: if_splits)

definition configured_visit :: "watch_spec \<Rightarrow> visitor" where
  "configured_visit spec path info =
    (if nd_dir info
     then unless_error (if path = sp_root spec then root_add spec info else ret None) (add_directory path info)
     else ret None)"

definition add_configured_directories :: "watch_spec \<Rightarrow> go_error option act" where
  "add_configured_directories spec =
    unless_error (ask os_ctx)
    (do {
       found \<leftarrow> ask (\<lambda>os. os_lstat os (sp_root spec));
       case found of
         Inl e \<Rightarrow> ret (Some (Wrapped [T ''stat watch '', Q (w_name (sp_config spec)), T '' path: ''] e []))
       | Inr info \<Rightarrow>
           if nd_symlink info
           then ret (Some (Wrapped [T ''watch '', Q (w_name (sp_config spec)), T '' path '', T (sp_root spec), T '': ''] err_symlink []))
           else if \<not> nd_dir info
           then ret (Some (ErrorString [T ''watch '', Q (w_name (sp_config spec)), T '' path '', T (sp_root spec), T '' is not a directory'']))
           else
             unless_error (root_add spec info)
               (if \<not> w_recursive (sp_config spec) then add_directory (sp_root spec) info
                else walk_tree_batched (sp_root spec) True (configured_visit spec))
     })"

text \<open>\<open>schedule\<close> as the loop calls it, after what the goroutines did meanwhile.\<close>

definition schedule_file :: "nat \<Rightarrow> string \<Rightarrow> go_error option act" where
  "schedule_file watch_index filename = do {
     c \<leftarrow> ask os_ctx;
     others \<leftarrow> ask os_others;
     w \<leftarrow> peek lp_watch;
     (let r = schedule c watch_index filename (others w) in do {
       change (\<lambda>s. s\<lparr>lp_watch := snd r\<rparr>);
       ret (fst r)
     })
   }"

definition discover_visit :: "string \<Rightarrow> nat \<times> watch_spec \<Rightarrow> visitor" where
  "discover_visit cwd spec path info =
    (if nd_regular info \<and> watch_match cwd (with_root (snd spec)) path
     then unless_error (validate_event path) (schedule_file (fst spec) path)
     else ret None)"

definition discover_existing :: "string \<Rightarrow> nat \<times> watch_spec \<Rightarrow> go_error option act" where
  "discover_existing cwd spec = do {
     e \<leftarrow> walk_tree_batched (sp_root (snd spec)) (w_recursive (sp_config (snd spec))) (discover_visit cwd spec);
     ret (map_option (\<lambda>err. Wrapped [T ''scan watch '', Q (w_name (sp_config (snd spec))), T '': ''] err []) e)
   }"

definition run_start :: "string \<Rightarrow> watch_spec list \<Rightarrow> go_error option act" where
  "run_start cwd specs =
    unless_error (for_each add_configured_directories specs)
    (unless_error validate_all
      (for_each (discover_existing cwd) (filter (\<lambda>s. w_process_existing (sp_config (snd s))) (enumerate 0 specs))))"

section \<open>Notifications\<close>

text \<open>\<open>fsnotify.Event\<close> with the bits of its operation that the loop reads.\<close>

record fs_event =
  ev_name :: string
  ev_create :: bool
  ev_write :: bool
  ev_remove :: bool
  ev_rename :: bool

definition tree_visit :: "string \<Rightarrow> nat \<times> watch_spec \<Rightarrow> visitor" where
  "tree_visit cwd spec path info =
    (if nd_dir info then add_directory path info else discover_visit cwd spec path info)"

definition add_tree_and_discover :: "string \<Rightarrow> nat \<times> watch_spec \<Rightarrow> string \<Rightarrow> go_error option act" where
  "add_tree_and_discover cwd spec root = walk_tree_batched root True (tree_visit cwd spec)"

text \<open>A new directory, for every recursive watch that it is in; its disappearing is no error.\<close>

definition new_directory :: "string \<Rightarrow> string \<Rightarrow> nat \<times> watch_spec \<Rightarrow> go_error option act" where
  "new_directory cwd filename spec =
    (if w_recursive (sp_config (snd spec)) \<and> within (sp_root (snd spec)) filename
     then do {
       e \<leftarrow> add_tree_and_discover cwd spec filename;
       ret (case e of
              None \<Rightarrow> None
            | Some err \<Rightarrow> if errors_is ''file does not exist'' err then None else Some err)
     }
     else ret None)"

definition matched_file :: "string \<Rightarrow> string \<Rightarrow> nat \<times> watch_spec \<Rightarrow> go_error option act" where
  "matched_file cwd filename spec =
    (if watch_match cwd (with_root (snd spec)) filename then schedule_file (fst spec) filename else ret None)"

definition path_appeared :: "string \<Rightarrow> watch_spec list \<Rightarrow> bool \<Rightarrow> string \<Rightarrow> go_error option act" where
  "path_appeared cwd specs create filename = do {
     found \<leftarrow> ask (\<lambda>os. os_lstat os filename);
     case found of
       Inl e \<Rightarrow>
         ret (if errors_is ''file does not exist'' e then None
              else Some (Wrapped [T ''stat filesystem event '', T filename, T '': ''] e []))
     | Inr info \<Rightarrow>
         if nd_dir info
         then (if create then for_each (new_directory cwd filename) (enumerate 0 specs) else ret None)
         else if nd_symlink info \<or> \<not> nd_regular info then ret None
         else for_each (matched_file cwd filename) (enumerate 0 specs)
   }"

definition path_vanished :: "watch_spec list \<Rightarrow> string \<Rightarrow> go_error option act" where
  "path_vanished specs filename = do {
     removed \<leftarrow> remove_directory_tree filename;
     ret (case find (\<lambda>spec. filename = sp_root spec) specs of
            Some spec \<Rightarrow>
              errors_join
                [removed,
                 Some (Wrapped [T ''watch '', Q (w_name (sp_config spec)), T '' root '', T (sp_root spec), T '': ''] err_watch_root_lost [])]
          | None \<Rightarrow> removed)
   }"

definition handle_event :: "string \<Rightarrow> watch_spec list \<Rightarrow> fs_event \<Rightarrow> go_error option act" where
  "handle_event cwd specs event =
    (let filename = clean (abs_path cwd (ev_name event)) in
     unless_error (validate_event filename)
     (unless_error (if ev_remove event \<or> ev_rename event then path_vanished specs filename else ret None)
       (if \<not> ev_create event \<and> \<not> ev_write event then ret None
        else path_appeared cwd specs (ev_create event) filename)))"

section \<open>Periodic checks\<close>

text \<open>The directories that lost their watch: the least of the mismatches, or an error.\<close>

fun check_missing :: "(string \<Rightarrow> node option) \<Rightarrow> string list \<Rightarrow> string \<Rightarrow> string result act" where
  "check_missing expected [] mismatch = ret (Inr mismatch)"
| "check_missing expected (d # ds) mismatch = do {
     current \<leftarrow> ask (\<lambda>os. os_lstat os d);
     case current of
       Inl e \<Rightarrow>
         if errors_is ''file does not exist'' e
         then do {
           removed \<leftarrow> remove_directory_tree d;
           case removed of
             Some err \<Rightarrow> ret (Inl err)
           | None \<Rightarrow> check_missing expected ds mismatch
         }
         else ret (Inl (Wrapped [T ''inspect missing filesystem watch '', T d, T '': ''] e []))
     | Inr info \<Rightarrow>
         (let same = (case expected d of None \<Rightarrow> False | Some identity \<Rightarrow> plain_directory info \<and> same_file identity info);
              candidate = (if same then ''filesystem watch missing for directory '' @ d
                           else ''filesystem watch path changed identity for directory '' @ d) in
          check_missing expected ds (if mismatch = [] \<or> \<not> string_le mismatch candidate then candidate else mismatch))
   }"

definition remove_unexpected :: "string \<Rightarrow> go_error option act" where
  "remove_unexpected d = do {
     e \<leftarrow> ask (\<lambda>os. os_remove os d);
     ret (case e of
            None \<Rightarrow> None
          | Some err \<Rightarrow>
              if not_watched_error err then None
              else Some (Wrapped [T ''remove unexpected filesystem watch '', T d, T '': ''] err []))
   }"

definition watch_lost_error :: "string \<Rightarrow> go_error" where
  "watch_lost_error mismatch = Wrapped [T mismatch, T '': ''] err_filesystem_watch_lost []"

text \<open>A mismatch is fatal when the check before it found the same.\<close>

definition judge_mismatch :: "string \<Rightarrow> go_error option act" where
  "judge_mismatch mismatch = do {
     closed \<leftarrow> ask os_closed;
     known \<leftarrow> peek lp_mismatch;
     if closed then ret None
     else if mismatch = [] \<or> known \<noteq> mismatch then do { change (\<lambda>s. s\<lparr>lp_mismatch := mismatch\<rparr>); ret None }
     else ret (Some (watch_lost_error mismatch))
   }"

definition validate_filesystem_watches :: "go_error option act" where
  "validate_filesystem_watches = do {
     closed \<leftarrow> ask os_closed;
     if closed then ret None
     else do {
       dirs \<leftarrow> peek lp_dirs;
       ids \<leftarrow> peek lp_ids;
       watches \<leftarrow> ask os_watch_list;
       (let expected = map (\<lambda>d. (clean d, map_of ids d)) dirs;
            actual = remdups (map clean watches);
            missing = sort_by string_le (filter (\<lambda>d. d \<notin> set actual) (remdups (map fst expected)));
            unexpected = sort_by string_le (filter (\<lambda>d. d \<notin> set (map fst expected)) actual) in do {
         found \<leftarrow> check_missing (\<lambda>d. case map_of expected d of None \<Rightarrow> None | Some known \<Rightarrow> known) missing [];
         case found of
           Inl e \<Rightarrow> ret (Some e)
         | Inr mismatch \<Rightarrow> unless_error (for_each remove_unexpected unexpected) (judge_mismatch mismatch)
       })
     }
   }"

section \<open>The loop\<close>

text \<open>What \<open>select\<close> receives; \<open>None\<close> from a channel that is closed.\<close>

datatype loop_input =
    ContextDone
  | RootTick
  | WorkFailed
  | BackendError "go_error option"
  | BackendEvent "fs_event option"

datatype loop_outcome = Waiting | Returned "go_error option"

definition unless_returned :: "go_error option act \<Rightarrow> loop_outcome act" where
  "unless_returned m = do { e \<leftarrow> m; ret (case e of None \<Rightarrow> Waiting | Some err \<Rightarrow> Returned (Some err)) }"

definition channel_closed :: "string \<Rightarrow> loop_outcome act" where
  "channel_closed text = do {
     closed \<leftarrow> ask os_closed;
     ret (Returned (if closed then None else Some (new_error text)))
   }"

text \<open>Nothing is received from the channel of errors while it is empty.\<close>

definition loop_turn :: "string \<Rightarrow> watch_spec list \<Rightarrow> loop_input \<Rightarrow> loop_outcome act" where
  "loop_turn cwd specs input =
    (case input of
       ContextDone \<Rightarrow> ret (Returned None)
     | RootTick \<Rightarrow> unless_returned (unless_error validate_all validate_filesystem_watches)
     | WorkFailed \<Rightarrow> do {
         others \<leftarrow> ask os_others;
         change (\<lambda>s. s\<lparr>lp_watch := others (lp_watch s)\<rparr>);
         failed \<leftarrow> peek (\<lambda>s. ws_error (lp_watch s));
         ret (case failed of None \<Rightarrow> Waiting | Some e \<Rightarrow> Returned (Some e))
       }
     | BackendError received \<Rightarrow>
         (case received of
            None \<Rightarrow> channel_closed ''filesystem watcher error channel closed''
          | Some e \<Rightarrow> ret (Returned (Some (Wrapped [T ''filesystem watcher: ''] e []))))
     | BackendEvent received \<Rightarrow>
         (case received of
            None \<Rightarrow> channel_closed ''filesystem watcher event channel closed''
          | Some event \<Rightarrow> unless_returned (handle_event cwd specs event)))"

fun run_inputs :: "string \<Rightarrow> watch_spec list \<Rightarrow> loop_input list \<Rightarrow> loop_outcome act" where
  "run_inputs cwd specs [] = ret Waiting"
| "run_inputs cwd specs (input # inputs) = do {
     outcome \<leftarrow> loop_turn cwd specs input;
     case outcome of
       Waiting \<Rightarrow> run_inputs cwd specs inputs
     | Returned e \<Rightarrow> ret (Returned e)
   }"

definition run_watcher :: "string \<Rightarrow> watch_spec list \<Rightarrow> loop_input list \<Rightarrow> loop_outcome act" where
  "run_watcher cwd specs inputs = do {
     e \<leftarrow> run_start cwd specs;
     case e of
       Some err \<Rightarrow> ret (Returned (Some err))
     | None \<Rightarrow> run_inputs cwd specs inputs
   }"

definition initial_loop :: "(nat \<Rightarrow> moment) \<Rightarrow> loop_state" where
  "initial_loop os =
    \<lparr>lp_os = os, lp_now = 0, lp_dirs = [], lp_ids = [], lp_roots = [], lp_mismatch = [], lp_watch = initial_watch_state\<rparr>"

end
