(* ===== verification/WatchKeep.thy ===== *)
theory WatchKeep
  imports WatchLoop
begin

text \<open>
  What the event loop keeps. An invariant that the elementary operations of the loop keep holds at every
  turn of every run: the contract \<open>loop_contract\<close>, with two providers, the bookkeeping of directories and
  roots (\<open>books_ok\<close>) and the files that are handed to the goroutines (\<open>work_ok\<close>).
\<close>

section \<open>Absolute paths\<close>

lemma abs_append: "is_abs p \<Longrightarrow> is_abs (p @ q)"
  by (auto simp: is_abs_def)

lemma is_abs_join: "is_abs p \<Longrightarrow> is_abs (join_path [p, q])"
proof -
  assume p: "is_abs p"
  then have "p \<noteq> []" by (auto simp: is_abs_def)
  then show ?thesis using p abs_append[OF p] by (cases "q = []") (simp_all add: join_path_def)
qed

lemma is_abs_path: "is_abs cwd \<Longrightarrow> is_abs (abs_path cwd p)"
  by (simp add: abs_path_def is_abs_join)

lemma is_abs_tree: "is_abs root \<Longrightarrow> is_abs (absolute_tree_path root relative)"
  by (simp add: absolute_tree_path_def is_abs_join)

lemma new_specs_abs: "is_abs cwd \<Longrightarrow> \<forall>spec \<in> set (new_specs cwd watches). is_abs (sp_root spec)"
  by (simp add: new_specs_def is_abs_path)

section \<open>The contract\<close>

lemma preserves_change [keep]: "(\<And>s. I s \<Longrightarrow> I (f s)) \<Longrightarrow> preserves I (change f)"
  by (simp add: preserves_def)

lemma preserves_list [keep]:
  "(x = [] \<Longrightarrow> preserves I m) \<Longrightarrow> (\<And>a as. x = a # as \<Longrightarrow> preserves I (k a as)) \<Longrightarrow> preserves I (case x of [] \<Rightarrow> m | a # as \<Rightarrow> k a as)"
  by (cases x) simp_all

lemma for_each_keeps: "(\<And>x. x \<in> set xs \<Longrightarrow> preserves I (f x)) \<Longrightarrow> preserves I (for_each f xs)"
  by (induction xs) (auto intro!: keep)

lemma root_validate_keeps: "stable I \<Longrightarrow> preserves I (root_validate identity)"
  unfolding root_validate_def by (intro keep)

lemma validate_roots_keeps: "stable I \<Longrightarrow> preserves I (validate_roots rs)"
  by (induction rs) (auto intro!: keep root_validate_keeps)

lemma validate_event_keeps: "stable I \<Longrightarrow> preserves I (validate_event filename)"
  unfolding validate_event_def by (intro keep validate_roots_keeps)

lemma validate_all_keeps: "stable I \<Longrightarrow> preserves I validate_all"
  unfolding validate_all_def by (intro keep validate_roots_keeps)

lemma enumerate_spec: "x \<in> set (enumerate 0 specs) \<Longrightarrow> fst x < length specs \<and> snd x = specs ! fst x \<and> snd x \<in> set specs"
  by (cases x) (auto simp: in_set_enumerate_eq)

locale loop_contract =
  fixes I :: "loop_state \<Rightarrow> bool" and cwd :: string and specs :: "watch_spec list"
  assumes calls: "stable I"
    and cwd_absolute: "is_abs cwd"
    and roots_absolute: "spec \<in> set specs \<Longrightarrow> is_abs (sp_root spec)"
    and keep_root: "spec \<in> set specs \<Longrightarrow> preserves I (root_add spec info)"
    and keep_add: "is_abs d \<Longrightarrow> preserves I (add_directory d info)"
    and keep_remove: "preserves I (remove_directory_tree d)"
    and keep_mismatch: "I s \<Longrightarrow> I (s\<lparr>lp_mismatch := m\<rparr>)"
    and keep_others: "I s \<Longrightarrow> I (s\<lparr>lp_watch := os_others (lp_os s n) (lp_watch s)\<rparr>)"
    and keep_schedule: "i < length specs \<Longrightarrow> is_abs f \<Longrightarrow> watch_match cwd (with_root (specs ! i)) f \<Longrightarrow> I s \<Longrightarrow>
      I (s\<lparr>lp_watch := snd (schedule c i f (lp_watch s))\<rparr>)"
begin

lemma schedule_keeps:
  assumes "i < length specs" and "is_abs f" and "watch_match cwd (with_root (specs ! i)) f"
  shows "preserves I (schedule_file i f)"
proof -
  have "I (s\<lparr>lp_now := k, lp_watch := snd (schedule c i f (os_others (lp_os s n) (lp_watch s)))\<rparr>)" if "I s" for s k c n
  proof -
    have "I (s\<lparr>lp_now := k\<rparr>)" using calls that unfolding stable_def by blast
    from keep_schedule[OF assms keep_others[OF this, of n]] show ?thesis by simp
  qed
  then show ?thesis by (auto simp: preserves_def schedule_file_def Let_def)
qed

lemma discover_keeps:
  assumes "spec \<in> set (enumerate 0 specs)" and "is_abs p" shows "preserves I (discover_visit cwd spec p info)"
  unfolding discover_visit_def
  by (intro keep validate_event_keeps calls schedule_keeps assms(2)) (use assms(1) in \<open>auto dest: enumerate_spec\<close>)

lemma configured_keeps:
  assumes "spec \<in> set specs" shows "preserves I (add_configured_directories spec)"
  unfolding add_configured_directories_def
  by (intro keep calls keep_root keep_add walk_tree_keeps assms roots_absolute[OF assms], unfold configured_visit_def,
      intro keep keep_root keep_add is_abs_tree clean_is_abs roots_absolute[OF assms] assms)

lemma existing_keeps:
  assumes "spec \<in> set (enumerate 0 specs)" shows "preserves I (discover_existing cwd spec)"
  unfolding discover_existing_def
  by (intro keep walk_tree_keeps calls discover_keeps assms is_abs_tree clean_is_abs roots_absolute)
    (use assms in \<open>auto dest: enumerate_spec\<close>)

lemma start_keeps: "preserves I (run_start cwd specs)"
  unfolding run_start_def
  by (intro keep for_each_keeps configured_keeps validate_all_keeps calls existing_keeps) auto

lemma new_directory_keeps:
  assumes "spec \<in> set (enumerate 0 specs)" and "is_abs f"
  shows "preserves I (new_directory cwd f spec)"
  unfolding new_directory_def add_tree_and_discover_def
  by (intro keep walk_tree_keeps calls, unfold tree_visit_def,
      intro keep keep_add is_abs_tree clean_is_abs discover_keeps assms)

lemma matched_file_keeps:
  assumes "spec \<in> set (enumerate 0 specs)" and "is_abs f" shows "preserves I (matched_file cwd f spec)"
  unfolding matched_file_def by (intro keep schedule_keeps assms(2)) (use assms(1) in \<open>auto dest: enumerate_spec\<close>)

lemma event_keeps: "preserves I (handle_event cwd specs event)"
proof -
  have f: "is_abs (clean (abs_path cwd (ev_name event)))" using cwd_absolute by (simp add: is_abs_path)
  show ?thesis
    unfolding handle_event_def path_vanished_def path_appeared_def Let_def
    by (intro keep validate_event_keeps calls keep_remove for_each_keeps new_directory_keeps matched_file_keeps f)
qed

lemma missing_keeps: "preserves I (check_missing expected ds m)"
  by (induction ds arbitrary: m) (auto simp: Let_def intro!: keep calls keep_remove)

lemma watches_keep: "preserves I validate_filesystem_watches"
  unfolding validate_filesystem_watches_def judge_mismatch_def remove_unexpected_def Let_def
  by (intro keep calls missing_keeps for_each_keeps keep_mismatch)

lemma turn_keeps: "preserves I (loop_turn cwd specs input)"
proof -
  have others: "preserves I (ask os_others \<bind> (\<lambda>others. change (\<lambda>s. s\<lparr>lp_watch := others (lp_watch s)\<rparr>) \<bind> k))"
    if k: "\<And>x. preserves I (k x)" for k :: "unit \<Rightarrow> loop_outcome act"
  proof -
    have "I (s\<lparr>lp_now := n, lp_watch := os_others (lp_os s m) (lp_watch s)\<rparr>)" if "I s" for s n m
      using keep_others[of "s\<lparr>lp_now := n\<rparr>" m] calls that unfolding stable_def by simp
    then show ?thesis using k unfolding preserves_def by simp
  qed
  show ?thesis
    unfolding loop_turn_def channel_closed_def unless_returned_def
    by (cases input) (auto intro!: keep calls validate_all_keeps watches_keep event_keeps others)
qed

lemma inputs_keep: "preserves I (run_inputs cwd specs inputs)"
proof (induction inputs)
  case (Cons input inputs)
  show ?case
    unfolding run_inputs.simps
  proof (rule preserves_bind[OF turn_keeps])
    show "preserves I (case outcome of Waiting \<Rightarrow> run_inputs cwd specs inputs | Returned e \<Rightarrow> ret (Returned e))" for outcome
      using Cons.IH by (cases outcome) (auto intro: keep)
  qed
qed (auto intro: keep)

lemma run_keeps: "preserves I (run_watcher cwd specs inputs)"
  unfolding run_watcher_def by (intro keep start_keeps inputs_keep)

end

section \<open>The bookkeeping\<close>

definition roots_ok :: "loop_state \<Rightarrow> bool" where
  "roots_ok s \<longleftrightarrow> distinct (map fst (lp_roots s)) \<and> length (lp_roots s) \<le> max_watched_directories \<and>
    (\<forall>r \<in> set (lp_roots s). ro_path (snd r) = fst r \<and> clean (fst r) = fst r \<and> plain_directory (ro_info (snd r)))"

definition books_ok :: "loop_state \<Rightarrow> bool" where
  "books_ok s \<longleftrightarrow> dirs_ok s \<and> roots_ok s"

text \<open>A property that is about neither the calls nor the directories is kept by what is about directories.\<close>

definition other_books :: "(loop_state \<Rightarrow> bool) \<Rightarrow> bool" where
  "other_books I \<longleftrightarrow> (\<forall>s n ds ids. I s \<longrightarrow> I (s\<lparr>lp_now := n\<rparr>) \<and> I (s\<lparr>lp_dirs := ds, lp_ids := ids\<rparr>) \<and> I (s\<lparr>lp_ids := ids\<rparr>))"

lemma other_stable: "other_books I \<Longrightarrow> stable I"
  by (simp add: other_books_def stable_def)

lemma other_remove: "other_books I \<Longrightarrow> preserves I (remove_directory_tree d)"
proof -
  assume I: "other_books I"
  have "preserves I (remove_watches w ds e)" for w ds e
    by (rule preserves_calls[OF calls_only_remove other_stable[OF I]])
  then show ?thesis unfolding remove_directory_tree_def Let_def
    by (intro keep other_stable[OF I]) (use I in \<open>simp_all add: other_books_def\<close>)
qed

lemma other_aliases: "other_books I \<Longrightarrow> preserves I (drop_aliases d as)"
  by (induction as) (auto intro!: keep other_stable other_remove)

lemma other_turn: "other_books I \<Longrightarrow> preserves I (add_turn d expected current)"
proof -
  assume I: "other_books I"
  have calls: "preserves I (verified_directory_info d e)" for e
    by (rule preserves_calls[OF calls_only_verify other_stable[OF I]])
  have store: "I s \<Longrightarrow> I (store_directory d info s)" "I s \<Longrightarrow> I (s\<lparr>lp_ids := map_store d info (lp_ids s)\<rparr>)" for info s
    using I by (simp_all add: other_books_def store_directory_def)
  have again: "preserves I (verify_again d expected e)" for e
    unfolding verify_again_def by (intro keep calls)
  have "preserves I (restore_directory d current)"
    unfolding restore_directory_def by (intro keep other_stable[OF I] calls store)
  moreover have "preserves I (register_directory d current)"
    unfolding register_directory_def by (intro keep other_stable[OF I] calls store)
  ultimately show ?thesis
    unfolding add_turn_def
    by (intro keep other_remove[OF I] again other_aliases[OF I])
qed

lemma other_add: "other_books I \<Longrightarrow> preserves I (add_directory d info)"
proof -
  assume I: "other_books I"
  have "preserves I (add_turns n d expected current)" for n d expected current
  proof (induction n arbitrary: current)
    case (Suc n)
    show ?case unfolding add_turns.simps
    proof (rule preserves_bind[OF other_turn[OF I]])
      show "preserves I (case v of AddDone e \<Rightarrow> ret e | AddAgain info \<Rightarrow> add_turns n d expected info)" for v
        using Suc.IH by (cases v) (auto intro: keep)
    qed
  qed (auto intro: keep)
  then show ?thesis unfolding add_directory_def Let_def
    by (intro keep preserves_calls[OF calls_only_verify other_stable[OF I]])
qed

lemma add_directory_ok: "is_abs d \<Longrightarrow> preserves dirs_ok (add_directory d info)"
  unfolding preserves_def
proof (intro allI impI)
  fix s
  assume d: "is_abs d" and ok: "dirs_ok s"
  obtain v s1 where v: "run_state (verified_directory_info (clean d) info) s = (v, s1)" by fastforce
  obtain k where s1: "s1 = s\<lparr>lp_now := k\<rparr>" using calls_onlyD[OF calls_only_verify v] by blast
  show "dirs_ok (snd (run_state (add_directory d info) s))"
  proof (cases v)
    case (Inl e)
    then show ?thesis using v s1 ok by (simp add: add_directory_def Let_def)
  next
    case (Inr current)
    obtain e s2 where turns: "run_state (add_turns (Suc (length (lp_dirs s1))) (clean d) info current) s1 = (e, s2)" by fastforce
    have "dirs_ok s2"
      using add_turns_run[OF turns] verified_Inr[OF v[unfolded Inr]] ok d s1 by simp
    then show ?thesis using v turns Inr by (simp add: add_directory_def Let_def)
  qed
qed

lemma root_add_ok: "preserves roots_ok (root_add spec info)"
  unfolding preserves_def root_add_def Let_def
  by (auto simp: roots_ok_def map_of_eq_None_iff split: option.split)

lemma other_roots: "other_books roots_ok"
  by (simp add: other_books_def roots_ok_def)

lemma root_add_dirs: "dirs_ok s \<Longrightarrow> dirs_ok (snd (run_state (root_add spec info) s))"
  by (auto simp: root_add_def Let_def dirs_ok_def split: option.split)

lemma stable_books: "stable books_ok"
  by (simp add: stable_def books_ok_def dirs_ok_def roots_ok_def)

lemma preserves_books: "preserves dirs_ok m \<Longrightarrow> preserves roots_ok m \<Longrightarrow> preserves books_ok m"
  by (simp add: preserves_def books_ok_def)

lemma remove_tree_keeps: "preserves dirs_ok (remove_directory_tree d)"
  unfolding preserves_def by (metis prod.collapse remove_tree_ok)

text \<open>An absolute path is a slash and the rest, so the working directory below is any absolute path.\<close>

interpretation books: loop_contract books_ok "slash # p" "new_specs (slash # p) watches"
  for p :: string and watches :: "watch_config list"
proof
  show "is_abs (slash # p)" by (simp add: is_abs_def)
  then show "is_abs (sp_root spec)" if "spec \<in> set (new_specs (slash # p) watches)" for spec
    using new_specs_abs that by blast
  show "preserves books_ok (root_add spec info)" for spec info
    by (rule preserves_books[OF _ root_add_ok]) (simp add: preserves_def root_add_dirs)
  show "is_abs d \<Longrightarrow> preserves books_ok (add_directory d info)" for d info
    by (rule preserves_books[OF add_directory_ok other_add[OF other_roots]])
  show "preserves books_ok (remove_directory_tree d)" for d
    by (rule preserves_books[OF remove_tree_keeps other_remove[OF other_roots]])
qed (use stable_books in \<open>auto simp: books_ok_def dirs_ok_def roots_ok_def\<close>)

section \<open>The files handed to the goroutines\<close>

text \<open>The goroutines make steps of their own.\<close>

definition work_steps :: "watch_spec list \<Rightarrow> watch_state \<Rightarrow> watch_state \<Rightarrow> bool" where
  "work_steps specs = (\<lambda>w w'. \<exists>a n. n < length (ws_settlers w) \<and> w' = run_settler (\<lambda>i. sp_config (specs ! i)) a n w)\<^sup>*\<^sup>*"

definition selected :: "string \<Rightarrow> watch_spec list \<Rightarrow> nat \<Rightarrow> string \<Rightarrow> bool" where
  "selected cwd specs i f \<longleftrightarrow> i < length specs \<and> is_abs f \<and> clean f = f \<and> watch_match cwd (with_root (specs ! i)) f"

definition work_selected :: "string \<Rightarrow> watch_spec list \<Rightarrow> watch_state \<Rightarrow> bool" where
  "work_selected cwd specs w \<longleftrightarrow>
    (\<forall>e \<in> set (ws_pending w). let f = ws_heap w (snd e) in
      fst e = pending_key (pf_watch_index f) (pf_path f) \<and> selected cwd specs (pf_watch_index f) (pf_path f))"

definition work_ok :: "string \<Rightarrow> watch_spec list \<Rightarrow> loop_state \<Rightarrow> bool" where
  "work_ok cwd specs s \<longleftrightarrow> (\<forall>n w. work_steps specs w (os_others (lp_os s n) w)) \<and>
    watch_reachable (\<lambda>i. sp_config (specs ! i)) (lp_watch s) \<and> work_selected cwd specs (lp_watch s)"

lemma settler_selected:
  assumes "watch_inv specs' w" and "n < length (ws_settlers w)" and "work_selected cwd specs w"
  shows "work_selected cwd specs (run_settler specs' a n w)"
proof -
  define g where "g = ws_settlers w ! n"
  have ok: "tables_ok w" "owners_ok w" using assms(1) by (auto simp: watch_inv_def)
  have current: "map_of (ws_pending w) (st_key g) = Some (st_ptr g)"
    using owner_current[OF ok] assms(2) by (simp add: g_def)
  obtain r w' where step: "settle_step (specs' (pf_watch_index (ws_heap w (st_ptr g)))) a g w = (r, w')" by fastforce
  have "ws_heap w' = ws_heap w \<and> set (ws_pending w') \<subseteq> set (ws_pending w)"
    using settle_step_keeps[OF step current] by (auto simp: map_delete_def)
  then show ?thesis using assms(3) step
    by (auto simp: run_settler_def Let_def g_def work_selected_def split: option.splits)
qed

lemma work_steps_ok:
  assumes "work_steps specs w w'" and "watch_reachable (\<lambda>i. sp_config (specs ! i)) w" and "work_selected cwd specs w"
  shows "watch_reachable (\<lambda>i. sp_config (specs ! i)) w' \<and> work_selected cwd specs w'"
  using assms(1) unfolding work_steps_def
proof (induction rule: rtranclp_induct)
  case (step y z)
  then show ?case
    using reachable_watch_inv settler_selected watch_reachable.step[OF _ watch_step.settle] by metis
qed (use assms in simp)

lemma schedule_selected:
  assumes inv: "watch_inv specs' w" and sel: "work_selected cwd specs w"
    and f: "i < length specs" "is_abs f" "watch_match cwd (with_root (specs ! i)) f"
  shows "work_selected cwd specs (snd (schedule c i f w))"
proof -
  have new: "selected cwd specs i (clean f)"
    using f by (simp add: selected_def watch_match_def)
  have old: "snd e < ws_next w" if "e \<in> set (ws_pending w)" for e
    using inv that unfolding watch_inv_def owners_ok_def by (auto simp: owner_def dest!: equalityD2[THEN subsetD])
  show ?thesis
    using sel new old
    by (auto simp: schedule_def Let_def work_selected_def map_store_def map_delete_def split: option.split) (metis less_irrefl snd_conv)+
qed

lemma stable_work: "stable (work_ok cwd specs)"
  by (simp add: stable_def work_ok_def)

lemma other_work: "other_books (work_ok cwd specs)"
  by (simp add: other_books_def work_ok_def)

lemma root_add_work: "preserves (work_ok cwd specs) (root_add spec info)"
  by (auto simp: preserves_def root_add_def Let_def work_ok_def split: option.split)

interpretation work: loop_contract "work_ok (slash # p) (new_specs (slash # p) watches)" "slash # p" "new_specs (slash # p) watches"
  for p :: string and watches :: "watch_config list"
proof
  let ?cwd = "slash # p" and ?specs = "new_specs (slash # p) watches"
  show "work_ok ?cwd ?specs (s\<lparr>lp_watch := os_others (lp_os s n) (lp_watch s)\<rparr>)" if "work_ok ?cwd ?specs s" for s n
    using that work_steps_ok[of ?specs "lp_watch s" "os_others (lp_os s n) (lp_watch s)" ?cwd] by (simp add: work_ok_def)
  show "work_ok ?cwd ?specs (s\<lparr>lp_watch := snd (schedule c i f (lp_watch s))\<rparr>)"
    if "i < length ?specs" "is_abs f" "watch_match ?cwd (with_root (?specs ! i)) f" "work_ok ?cwd ?specs s" for i f s c
    using that schedule_selected[OF reachable_watch_inv _ that(1-3)] watch_reachable.step[OF _ watch_step.notify]
    by (auto simp: work_ok_def)
qed (use books.roots_absolute in \<open>auto intro: stable_work other_add[OF other_work] other_remove[OF other_work] root_add_work
    simp: is_abs_def work_ok_def\<close>)

section \<open>Root identities\<close>

text \<open>The identity of a root that was recorded.\<close>

definition roots_kept :: "string \<Rightarrow> root_identity \<Rightarrow> loop_state \<Rightarrow> bool" where
  "roots_kept path identity s \<longleftrightarrow> map_of (lp_roots s) path = Some identity"

lemma roots_kept_add: "preserves (roots_kept path identity) (root_add spec info)"
  by (auto simp: preserves_def root_add_def Let_def roots_kept_def split: option.split)

interpretation identities: loop_contract "roots_kept path identity" "slash # p" "new_specs (slash # p) watches"
  for path :: string and identity :: root_identity and p :: string and watches :: "watch_config list"
proof
  have other: "other_books (roots_kept path identity)" by (simp add: other_books_def roots_kept_def)
  show "preserves (roots_kept path identity) (add_directory d info)" for d info by (rule other_add[OF other])
  show "preserves (roots_kept path identity) (remove_directory_tree d)" for d by (rule other_remove[OF other])
qed (use books.roots_absolute in \<open>auto intro: roots_kept_add simp: is_abs_def stable_def roots_kept_def\<close>)

end
