(* ===== verification/WatchOrder.thy ===== *)
theory WatchOrder
  imports WatchKeep
begin

text \<open>
  The order in which a tree of watched directories is given up, what one failed check of a root does to an
  event, and when the loss of a watch is fatal.
\<close>

section \<open>Sorting\<close>

lemma sorted_insert_by:
  assumes "\<And>a b. before a b \<or> before b a" and "\<And>a b c. before a b \<Longrightarrow> before b c \<Longrightarrow> before a c"
  shows "sorted_wrt before xs \<Longrightarrow> sorted_wrt before (insert_by before x xs)"
proof (induction xs)
  case (Cons y ys)
  then show ?case using assms(1)[of x y] by (auto intro: assms(2))
qed simp

lemma sorted_sort_by:
  assumes "\<And>a b. before a b \<or> before b a" and "\<And>a b c. before a b \<Longrightarrow> before b c \<Longrightarrow> before a c"
  shows "sorted_wrt before (sort_by before xs)"
  by (induction xs) (simp_all add: sort_by_def sorted_insert_by[OF assms])

lemma tree_before_total: "tree_before d a b \<or> tree_before d b a"
  using string_le_total[of a b] by (auto simp: tree_before_def Let_def)

lemma tree_before_trans: "tree_before d a b \<Longrightarrow> tree_before d b c \<Longrightarrow> tree_before d a c"
  using string_le_trans[of a b c] by (auto simp: tree_before_def Let_def split: if_splits)

lemma count_slashed:
  "\<forall>e \<in> set es. slash \<notin> set e \<Longrightarrow> es \<noteq> [] \<Longrightarrow> Suc (count_list (slashed es) slash) = length es"
proof (induction es)
  case (Cons e es)
  then show ?case by (cases "es = []") (simp_all add: slashed_Cons count_list_0_iff)
qed simp

lemma depth_below:
  assumes "is_abs d" and "is_abs a" and "abs_elems a = abs_elems d @ ts"
  shows "relative_directory_depth d a = length ts"
proof (cases "ts = []")
  case False
  have good: "\<forall>e \<in> set ts. good_elem e" by (rule below_good[OF assms(3)])
  have "slashed ts \<noteq> ''.''" by (rule slashed_not_dots(1)[OF False good])
  moreover have "Suc (count_list (slashed ts) slash) = length ts"
    using good by (intro count_slashed False) (auto simp: good_elem_def)
  ultimately show ?thesis using rel_path_below[OF assms] False by (simp add: relative_directory_depth_def)
qed (use rel_path_below[OF assms] in \<open>simp add: relative_directory_depth_def\<close>)

lemma children_first:
  assumes "is_abs d" and "is_abs a" and "is_abs b" and "clean a = a" and "clean b = b"
    and "within d a" and "within d b" and "tree_before d a b" and "within a b"
  shows "a = b"
proof -
  obtain as where as: "abs_elems a = abs_elems d @ as" using assms(1,2,6) by (auto simp: within_iff elim: prefixE)
  obtain bs where bs: "abs_elems b = abs_elems a @ bs" using assms(2,3,9) by (auto simp: within_iff elim: prefixE)
  have "relative_directory_depth d a = length as" "relative_directory_depth d b = length (as @ bs)"
    using depth_below[OF assms(1,2) as] depth_below[OF assms(1,3), of "as @ bs"] as bs by simp_all
  then have "bs = []" using assms(8) by (auto simp: tree_before_def Let_def split: if_splits)
  then have "clean a = clean b" using bs clean_eq_iff[OF assms(2,3)] by simp
  then show ?thesis using assms(4,5) by simp
qed

lemma tree_sorted:
  assumes "is_abs d" and "\<forall>x \<in> set dirs. is_abs x \<and> clean x = x"
  shows "sorted_wrt (\<lambda>a b. within a b \<longrightarrow> a = b) (watched_directory_tree dirs d)"
proof -
  let ?ds = "watched_directory_tree dirs d"
  have "sorted_wrt (tree_before (clean d)) ?ds"
    unfolding watched_directory_tree_def by (rule sorted_sort_by[OF tree_before_total tree_before_trans])
  then show ?thesis
    by (rule sorted_wrt_mono_rel[rotated]) (use assms children_first[of "clean d"] in \<open>auto\<close>)
qed

section \<open>Roots\<close>

definition root_lost :: "root_identity \<Rightarrow> node result \<Rightarrow> bool" where
  "root_lost identity found \<longleftrightarrow>
    (case found of Inl e \<Rightarrow> True | Inr info \<Rightarrow> \<not> plain_directory info \<or> \<not> same_file (ro_info identity) info)"

lemma root_validate_run:
  assumes "run_state (root_validate identity) s = (e, s')"
  shows "s' = s\<lparr>lp_now := Suc (lp_now s)\<rparr>"
    and "e \<noteq> None \<longleftrightarrow> root_lost identity (os_lstat (lp_os s (lp_now s)) (ro_path identity))"
    and "e = Some err \<Longrightarrow> errors_is ''configured watch root was removed or renamed'' err"
  using assms by (auto simp: root_validate_def root_lost_def err_watch_root_lost_def split: sum.splits if_splits)

lemma validate_roots_run:
  assumes "run_state (validate_roots rs) s = (e, s')"
  shows "(\<exists>k. s' = s\<lparr>lp_now := k\<rparr>) \<and>
    (case e of
       Some err \<Rightarrow> errors_is ''configured watch root was removed or renamed'' err
     | None \<Rightarrow> \<forall>r \<in> set rs. \<exists>n. \<not> root_lost (snd r) (os_lstat (lp_os s n) (ro_path (snd r))))"
  using assms
proof (induction rs arbitrary: s)
  case Nil
  have "s = s\<lparr>lp_now := lp_now s\<rparr>" by simp
  then have "\<exists>k. s = s\<lparr>lp_now := k\<rparr>" by (rule exI)
  then show ?case using Nil by auto
next
  case (Cons x rs)
  obtain e1 s1 where one: "run_state (root_validate (snd x)) s = (e1, s1)" by fastforce
  note run = root_validate_run[OF one]
  show ?case
  proof (cases e1)
    case None
    then have rest: "run_state (validate_roots rs) s1 = (e, s')" using Cons.prems one by (simp add: unless_error_def)
    from Cons.IH[OF rest] run None show ?thesis by (auto split: option.splits)
  next
    case (Some e2)
    then have "e = Some e2" "s' = s1" using Cons.prems one by (simp_all add: unless_error_def)
    then show ?thesis using run Some by auto
  qed
qed

section \<open>Lost watches\<close>

lemma remove_watches_error:
  assumes "run_state (remove_watches registered ds failed) s = (Some e, s')" and "failed = None \<or> (\<exists>es. failed = Some (Joined es))"
  shows "\<exists>es. e = Joined es"
  using assms
proof (induction ds arbitrary: failed s)
  case (Cons d ds)
  have join: "\<exists>es. errors_join [f, Some x] = Some (Joined es)" for f x by (simp add: errors_join_def Let_def map_filter_simps split: option.split)
  show ?case using Cons.prems Cons.IH join by (auto split: if_splits option.splits)
qed auto

lemma remove_tree_error: "run_state (remove_directory_tree d) s = (Some e, s') \<Longrightarrow> \<exists>es. e = Joined es"
  by (auto simp: remove_directory_tree_def Let_def dest: remove_watches_error)

lemma check_missing_error: "run_state (check_missing expected ds m) s = (Inl e, s') \<Longrightarrow> e \<noteq> watch_lost_error x"
proof (induction ds arbitrary: m s)
  case (Cons d ds)
  let ?s1 = "s\<lparr>lp_now := Suc (lp_now s)\<rparr>"
  obtain r s2 where r: "run_state (remove_directory_tree d) ?s1 = (r, s2)" by fastforce
  show ?case
  proof (cases "os_lstat (lp_os s (lp_now s)) d")
    case (Inl err)
    then show ?thesis
      using Cons.prems r remove_tree_error[of d ?s1 _ s2] Cons.IH[of m s2]
      by (auto simp: watch_lost_error_def split: if_splits option.splits)
  next
    case (Inr info)
    have "\<exists>m'. run_state (check_missing expected (d # ds) m) s = run_state (check_missing expected ds m') ?s1"
      unfolding check_missing.simps Let_def by (simp only: run_state_bind run_calls Inr prod.case sum.case) blast
    then show ?thesis using Cons.prems Cons.IH by metis
  qed
qed simp

lemma remove_unexpected_error: "run_state (for_each remove_unexpected ds) s = (Some e, s') \<Longrightarrow> e \<noteq> watch_lost_error x"
  by (induction ds arbitrary: s)
    (auto simp: unless_error_def remove_unexpected_def watch_lost_error_def split: if_splits option.splits)

lemma other_mismatch: "other_books (\<lambda>s. lp_mismatch s = m)"
  by (simp add: other_books_def)

lemma other_missing: "other_books I \<Longrightarrow> preserves I (check_missing expected ds m)"
  by (induction ds arbitrary: m) (auto simp: Let_def intro!: keep other_remove other_stable)

lemma lost_watch_run:
  assumes "run_state validate_filesystem_watches s = (Some (watch_lost_error m), s')"
  shows "lp_mismatch s = m \<and> m \<noteq> []"
proof -
  let ?I = "\<lambda>t. lp_mismatch t = lp_mismatch s"
  note I = other_mismatch[of "lp_mismatch s"]
  have judge: "m' = m \<and> lp_mismatch t = m \<and> m \<noteq> []"
    if "run_state (judge_mismatch m') t = (Some (watch_lost_error m), t')" for m' t t'
    using that by (auto simp: judge_mismatch_def watch_lost_error_def split: if_splits)
  obtain expected missing unexpected s1 where
    run: "run_state (check_missing expected missing [] \<bind> (\<lambda>found. case found of Inl e \<Rightarrow> ret (Some e)
        | Inr mismatch \<Rightarrow> unless_error (for_each remove_unexpected unexpected) (judge_mismatch mismatch))) s1 =
      (Some (watch_lost_error m), s')" and s1: "lp_mismatch s1 = lp_mismatch s"
    using assms by (auto simp: validate_filesystem_watches_def Let_def split: if_splits)
  obtain found s2 where two: "run_state (check_missing expected missing []) s1 = (found, s2)" by fastforce
  have s2: "lp_mismatch s2 = lp_mismatch s" by (rule preservesD[OF other_missing[OF I] s1 two])
  show ?thesis
  proof (cases found)
    case (Inl e)
    then show ?thesis using run two check_missing_error[of expected missing "[]" s1 e s2 m] by simp
  next
    case (Inr mismatch)
    obtain e s3 where three: "run_state (for_each remove_unexpected unexpected) s2 = (e, s3)" by fastforce
    have "preserves ?I (for_each remove_unexpected unexpected)"
      unfolding remove_unexpected_def by (intro for_each_keeps keep other_stable[OF I])
    from preservesD[OF this s2 three] have s3: "lp_mismatch s3 = lp_mismatch s" .
    have "run_state (judge_mismatch mismatch) s3 = (Some (watch_lost_error m), s')"
      using run two three Inr remove_unexpected_error[of unexpected s2 _ s3 m]
      by (cases e) (auto simp: unless_error_def)
    from judge[OF this] s3 show ?thesis by simp
  qed
qed

end
