(* ===== verification/WatchLoopProps.thy ===== *)
theory WatchLoopProps
  imports WatchOrder
begin

text \<open>
  The properties of the event loop: its bookkeeping, the files it hands on, the roots it guards, the loss of
  a watch, and that its loops end. \<open>demo_moment\<close> is an operating system for the witnesses: the directory
  \<open>/in\<close>, which holds the file \<open>a\<close>.
\<close>

definition demo_dir :: node where
  "demo_dir = \<lparr>nd_symlink = False, nd_dir = True, nd_regular = False, nd_id = 1\<rparr>"

definition demo_regular :: node where
  "demo_regular = \<lparr>nd_symlink = False, nd_dir = False, nd_regular = True, nd_id = 2\<rparr>"

definition demo_moment :: moment where
  "demo_moment =
    \<lparr>os_ctx = None, os_closed = False,
     os_lstat = (\<lambda>p. if p = ''/in'' then Inr demo_dir else if p = ''/in/a'' then Inr demo_regular else Inl err_not_exist),
     os_open_root = (\<lambda>p. None), os_root_stat = (\<lambda>p. Inr demo_dir),
     os_open = (\<lambda>root p. Inr \<lparr>dh_stat = Inr demo_dir,
       dh_batches = [([\<lparr>en_name = ''a'', en_info = demo_regular\<rparr>], Some (Sentinel ''EOF''))], dh_close = None\<rparr>),
     os_add = (\<lambda>p. None), os_remove = (\<lambda>p. None), os_watch_list = [''/in''], os_others = (\<lambda>w. w)\<rparr>"

definition demo_watches :: "watch_config list" where
  "demo_watches = [demo_watch\<lparr>w_include := [], w_process_existing := True\<rparr>]"

definition demo_event :: fs_event where
  "demo_event = \<lparr>ev_name = ''/in/a'', ev_create = False, ev_write = True, ev_remove = False, ev_rename = False\<rparr>"

definition demo_loop :: "loop_input list \<Rightarrow> loop_state" where
  "demo_loop inputs = snd (run_state (run_watcher ''/'' (new_specs ''/'' demo_watches) inputs) (initial_loop (\<lambda>n. demo_moment)))"

lemma demo_loop_pending: "map fst (ws_pending (lp_watch (demo_loop [BackendEvent (Some demo_event)]))) = [pending_key 0 ''/in/a'']"
  by code_simp

lemma demo_loop_books: "lp_dirs (demo_loop []) = [''/in''] \<and> map fst (lp_roots (demo_loop [])) = [''/in'']"
  by code_simp

lemma initial_books: "books_ok (initial_loop os)"
  by (simp add: books_ok_def dirs_ok_def roots_ok_def initial_loop_def)

lemma initial_work:
  assumes "\<And>n w. work_steps specs w (os_others (os n) w)" shows "work_ok cwd specs (initial_loop os)"
proof -
  have "work_selected cwd specs initial_watch_state" by (simp add: work_selected_def initial_watch_state_def)
  then show ?thesis using assms by (simp add: work_ok_def initial_loop_def watch_reachable.start)
qed

section \<open>The properties\<close>

text \<open>C28: The bookkeeping of the event loop is sound in every run, whatever the operating system answers and
  whatever the loop receives: at most 4096 directories and 4096 roots are known; every watched directory is
  known by exactly one clean absolute path, has a verified identity that is a plain directory, and no two
  paths are registered for the same directory.\<close>

theorem loop_bookkeeping:
  "let s = snd (run_state (run_watcher (slash # p) (new_specs (slash # p) watches) inputs) (initial_loop os)) in
    length (lp_dirs s) \<le> max_watched_directories \<and> length (lp_roots s) \<le> max_watched_directories \<and>
    distinct (lp_dirs s) \<and> distinct (map fst (lp_roots s)) \<and> set (lp_dirs s) = fst ` set (lp_ids s) \<and>
    distinct (map fst (lp_ids s)) \<and> distinct (map (\<lambda>e. nd_id (snd e)) (lp_ids s)) \<and>
    list_all (\<lambda>d. is_abs d \<and> clean d = d) (lp_dirs s) \<and> list_all (\<lambda>e. plain_directory (snd e)) (lp_ids s) \<and>
    list_all (\<lambda>r. plain_directory (ro_info (snd r))) (lp_roots s)"
proof -
  have "books_ok (snd (run_state (run_watcher (slash # p) (new_specs (slash # p) watches) inputs) (initial_loop os)))"
    using books.run_keeps initial_books unfolding preserves_def by blast
  then show ?thesis by (simp add: Let_def books_ok_def dirs_ok_def roots_ok_def list_all_iff)
qed

text \<open>Every file the loop hands to a goroutine was selected: while the goroutines only make the steps of
  the stabilisation, each pending file of a run belongs to one of the watches, its path is absolute and
  clean, and the watch's rules with its resolved root select it, whether it was found by a scan or notified.\<close>

theorem pending_files_selected:
  assumes "\<And>n w. work_steps (new_specs (slash # p) watches) w (os_others (os n) w)"
    and "run_state (run_watcher (slash # p) (new_specs (slash # p) watches) inputs) (initial_loop os) = (outcome, s)"
    and "(key, ptr) \<in> set (ws_pending (lp_watch s))"
  shows "\<exists>i f. ws_heap (lp_watch s) ptr = f \<and> pf_watch_index f = i \<and> key = pending_key i (pf_path f) \<and>
    i < length watches \<and> is_abs (pf_path f) \<and> clean (pf_path f) = pf_path f \<and>
    watch_match (slash # p) (with_root (new_specs (slash # p) watches ! i)) (pf_path f)"
proof -
  have "work_ok (slash # p) (new_specs (slash # p) watches) s"
    using preservesD[OF work.run_keeps initial_work[OF assms(1)] assms(2)] .
  then show ?thesis
    using assms(3) by (fastforce simp: work_ok_def work_selected_def Let_def selected_def new_specs_def)
qed

theorem pending_files_selected_witness:
  "\<exists>key. watch_match ''/'' (with_root (new_specs ''/'' demo_watches ! 0))
     (pf_path (ws_heap (lp_watch (demo_loop [BackendEvent (Some demo_event)])) key))"
proof -
  let ?specs = "new_specs ''/'' demo_watches"
  obtain outcome s where run: "run_state (run_watcher ''/'' ?specs [BackendEvent (Some demo_event)]) (initial_loop (\<lambda>n. demo_moment)) = (outcome, s)"
    by fastforce
  then have s: "demo_loop [BackendEvent (Some demo_event)] = s" by (simp add: demo_loop_def)
  obtain key ptr where pending: "(key, ptr) \<in> set (ws_pending (lp_watch s))"
    using demo_loop_pending unfolding s by fastforce
  have "work_steps ?specs w (os_others demo_moment w)" for w by (simp add: work_steps_def demo_moment_def)
  from pending_files_selected[of "[]" demo_watches "\<lambda>n. demo_moment", OF this run pending] show ?thesis
    unfolding s by (auto simp: demo_watches_def)
qed

text \<open>The identity of a configured root never changes: what was recorded for a path when the watch was
  registered is what every later check compares with, whatever happens in between.\<close>

theorem root_identity_fixed:
  assumes "run_state (run_inputs (slash # p) (new_specs (slash # p) watches) inputs) s = (outcome, s')"
    and "map_of (lp_roots s) path = Some identity"
  shows "map_of (lp_roots s') path = Some identity"
  using preservesD[OF identities.inputs_keep _ assms(1), of path identity] assms(2) by (simp add: roots_kept_def)

theorem root_identity_fixed_witness:
  "\<exists>identity. map_of (lp_roots (demo_loop [])) ''/in'' = Some identity \<and>
    map_of (lp_roots (snd (run_state (run_inputs ''/'' (new_specs ''/'' demo_watches) [RootTick]) (demo_loop [])))) ''/in'' = Some identity"
proof -
  obtain identity where known: "map_of (lp_roots (demo_loop [])) ''/in'' = Some identity"
    using demo_loop_books by (cases "lp_roots (demo_loop [])") auto
  obtain outcome s' where run: "run_state (run_inputs ''/'' (new_specs ''/'' demo_watches) [RootTick]) (demo_loop []) = (outcome, s')"
    by fastforce
  show ?thesis using root_identity_fixed[of "[]" demo_watches, OF run known] known run by auto
qed

text \<open>An event below a root that is no longer the registered directory stops the watcher and changes
  nothing: the error says that a root was lost, and neither the bookkeeping nor the pending files see the
  event.\<close>

theorem lost_root_stops_event:
  assumes "(path, identity) \<in> set (lp_roots s)" and "within (ro_path identity) (clean (abs_path cwd (ev_name event)))"
    and "\<And>n. root_lost identity (os_lstat (lp_os s n) (ro_path identity))"
  shows "\<exists>e k. run_state (handle_event cwd specs event) s = (Some e, s\<lparr>lp_now := k\<rparr>) \<and>
    errors_is ''configured watch root was removed or renamed'' e"
proof -
  let ?f = "clean (abs_path cwd (ev_name event))"
  let ?rs = "filter (\<lambda>r. within (ro_path (snd r)) (clean ?f)) (lp_roots s)"
  obtain e s' where run: "run_state (validate_roots ?rs) s = (e, s')" by fastforce
  have "(path, identity) \<in> set ?rs" using assms(1,2) by simp
  with validate_roots_run[OF run] assms(3) obtain err where e: "e = Some err" by (cases e) fastforce+
  obtain k where "s' = s\<lparr>lp_now := k\<rparr>" and "errors_is ''configured watch root was removed or renamed'' err"
    using validate_roots_run[OF run] e by auto
  moreover have "run_state (handle_event cwd specs event) s = (Some err, s')"
    using run e by (simp add: handle_event_def Let_def validate_event_def unless_error_def)
  ultimately show ?thesis by blast
qed

definition demo_lost :: loop_state where
  "demo_lost = (initial_loop (\<lambda>n. demo_moment\<lparr>os_lstat := \<lambda>p. Inr (demo_dir\<lparr>nd_id := 7\<rparr>)\<rparr>))
    \<lparr>lp_roots := [(''/in'', \<lparr>ro_watch_name = ''w'', ro_path = ''/in'', ro_info = demo_dir\<rparr>)]\<rparr>"

theorem lost_root_stops_event_witness:
  "\<exists>e k. run_state (handle_event ''/'' (new_specs ''/'' demo_watches) demo_event) demo_lost = (Some e, demo_lost\<lparr>lp_now := k\<rparr>)"
proof -
  let ?root = "\<lparr>ro_watch_name = ''w'', ro_path = ''/in'', ro_info = demo_dir\<rparr>"
  have known: "(''/in'', ?root) \<in> set (lp_roots demo_lost)" by (simp add: demo_lost_def)
  have inside: "within (ro_path ?root) (clean (abs_path ''/'' (ev_name demo_event)))" by code_simp
  have lost: "root_lost ?root (os_lstat (lp_os demo_lost n) (ro_path ?root))" for n
    by (simp add: demo_lost_def initial_loop_def root_lost_def same_file_def demo_dir_def)
  show ?thesis using lost_root_stops_event[OF known inside lost] by blast
qed

text \<open>The loss of a filesystem watch is fatal only when two checks in a row find it: a check that reports
  the loss found the very mismatch that the check before had recorded, so a notification that explains it
  has had a whole interval to arrive.\<close>

theorem lost_watch_needs_two_checks:
  assumes "run_state validate_filesystem_watches s = (Some (watch_lost_error m), s')"
  shows "lp_mismatch s = m \<and> m \<noteq> []"
  by (rule lost_watch_run[OF assms])

definition demo_unwatched :: loop_state where
  "demo_unwatched = (initial_loop (\<lambda>n. demo_moment\<lparr>os_watch_list := []\<rparr>))
    \<lparr>lp_dirs := [''/in''], lp_ids := [(''/in'', demo_dir)], lp_mismatch := ''filesystem watch missing for directory /in''\<rparr>"

lemma demo_unwatched_fails:
  "fst (run_state validate_filesystem_watches demo_unwatched) = Some (watch_lost_error ''filesystem watch missing for directory /in'')"
  by code_simp

theorem lost_watch_needs_two_checks_witness:
  "lp_mismatch demo_unwatched = ''filesystem watch missing for directory /in''"
  using lost_watch_needs_two_checks[of demo_unwatched _ "snd (run_state validate_filesystem_watches demo_unwatched)"]
    demo_unwatched_fails by (metis prod.collapse)

text \<open>Giving up a directory gives up exactly the watched directories at or below it, and their watches are
  removed with children before their parents.\<close>

theorem removal_children_first:
  assumes "is_abs d" and "\<forall>x \<in> set dirs. is_abs x \<and> clean x = x"
  shows "set (watched_directory_tree dirs d) = {x \<in> set dirs. prefix (abs_elems d) (abs_elems x)} \<and>
    sorted_wrt (\<lambda>a b. within a b \<longrightarrow> a = b) (watched_directory_tree dirs d)"
proof
  show "set (watched_directory_tree dirs d) = {x \<in> set dirs. prefix (abs_elems d) (abs_elems x)}"
    using assms by (auto simp: within_iff)
  show "sorted_wrt (\<lambda>a b. within a b \<longrightarrow> a = b) (watched_directory_tree dirs d)" by (rule tree_sorted[OF assms])
qed

theorem removal_children_first_witness:
  "sorted_wrt (\<lambda>a b. within a b \<longrightarrow> a = b) (watched_directory_tree [''/in'', ''/in/b'', ''/inn'', ''/in/b/c''] ''/in'')"
proof -
  have abs: "is_abs ''/in''" by (simp add: is_abs_def)
  have "clean ''/in'' = ''/in''" "clean ''/in/b'' = ''/in/b''" "clean ''/inn'' = ''/inn''" "clean ''/in/b/c'' = ''/in/b/c''"
    by code_simp+
  then have "\<forall>x \<in> set [''/in'', ''/in/b'', ''/inn'', ''/in/b/c'']. is_abs x \<and> clean x = x" by (simp add: is_abs_def)
  then show ?thesis using removal_children_first[OF abs] by blast
qed

section \<open>The loops end\<close>

text \<open>The registration of a directory ends and is sound: when the bookkeeping is, the loop needs at most
  one turn more than there are watched directories (a longer bound changes nothing), it keeps the
  bookkeeping, and when it reports no error the directory is registered with the identity that was expected.\<close>

theorem registration_ends:
  assumes "dirs_ok s" and "is_abs d" and "plain_directory current" and "same_file expected current"
    and "run_state (add_turns (Suc (length (lp_dirs s))) (clean d) expected current) s = (e, s')"
  shows "dirs_ok s' \<and> (e = None \<longrightarrow> (\<exists>info. map_of (lp_ids s') (clean d) = Some info \<and> same_file expected info)) \<and>
    run_state (add_turns (Suc (length (lp_dirs s)) + more_turns) (clean d) expected current) s = (e, s')"
  using add_turns_run[OF assms(5,1) _ _ assms(3,4)] assms(2) by (simp del: add_turns.simps)

theorem registration_ends_witness:
  "run_state (add_turns 101 (clean ''/in'') demo_dir demo_dir) (initial_loop (\<lambda>n. demo_moment)) =
    run_state (add_turns 1 (clean ''/in'') demo_dir demo_dir) (initial_loop (\<lambda>n. demo_moment))"
proof -
  let ?s = "initial_loop (\<lambda>n. demo_moment)"
  have ok: "dirs_ok ?s" using initial_books by (simp add: books_ok_def)
  have abs: "is_abs ''/in''" by (simp add: is_abs_def)
  have dir: "plain_directory demo_dir" "same_file demo_dir demo_dir" by (simp_all add: demo_dir_def plain_directory_def same_file_def)
  obtain e s' where run: "run_state (add_turns (Suc (length (lp_dirs ?s))) (clean ''/in'') demo_dir demo_dir) ?s = (e, s')" by fastforce
  have "length (lp_dirs ?s) = 0" by (simp add: initial_loop_def)
  then show ?thesis using registration_ends[OF ok abs dir run, of 100] run by simp
qed

text \<open>C29: A traversal ends: from the root alone it opens at most 4096 directories, for every tree, every visitor
  and every race between listing and opening, because a scan adds to the backlog only while the count of
  discovered directories is below the limit. A larger bound changes neither its answer nor its effects.\<close>

theorem traversal_ends:
  "run_state (walk_turns (max_watched_directories + n) root recursive visit ([d], 1)) s =
    run_state (walk_turns max_watched_directories root recursive visit ([d], 1)) s"
  by (rule walk_turns_some) (simp_all add: turns_left_def max_watched_directories_def)

section \<open>Two races\<close>

text \<open>A lost root is passed over when a visit below the root of a traversal finds it: its error wraps that the
  path does not exist, which the traversal takes for a directory that vanished. Only the next periodic check
  stops the watcher.\<close>

lemma lost_root_passed_over:
  assumes "run_state (root_validate identity) s = (Some e, s')"
    and "os_lstat (lp_os s (lp_now s)) (ro_path identity) = Inl err" and "errors_is ''file does not exist'' err"
    and "qd_relative d \<noteq> ''.''"
  shows "errors_is ''configured watch root was removed or renamed'' e \<and> passing_error d (errors_join [Some e, None])"
  using assms by (auto simp: root_validate_def passing_error_def err_watch_root_lost_def errors_join_def Let_def map_filter_simps)

text \<open>A child that is replaced between being opened and being registered stops the watcher, while one that is
  replaced between being listed and being opened is passed over.\<close>

lemma replaced_child_fails:
  assumes "os_lstat (lp_os s (lp_now s)) (clean path) = Inr info" and "\<not> same_file expected info"
    and "queued = Joined [err_directory_changed, err_queued_directory_changed]"
  shows "\<exists>e. fst (run_state (add_directory path expected) s) = Some e \<and> \<not> passing_error d (errors_join [Some e, None])"
    and "qd_relative d \<noteq> ''.'' \<Longrightarrow> passing_error d (errors_join [Some (verify_directory_error root dir queued), None])"
  using assms
  by (simp_all add: add_directory_def verified_directory_info_def Let_def passing_error_def errors_join_def map_filter_simps
      err_directory_changed_def err_queued_directory_changed_def verify_directory_error_def)

end
