(* ===== verification/ManagerNames.thy ===== *)
theory ManagerNames
  imports GoDigits GoRunes GoPath
begin

text \<open>
  Names, identifiers and errors of managed instances (the helpers of \<open>internal/control/manager.go\<close>).
  \<open>alnum\<close> stands for \<open>unicode.IsLetter(r) || unicode.IsDigit(r)\<close>, \<open>lower\<close> for \<open>strings.ToLower\<close> on
  text that is not ASCII, \<open>gen n\<close> for the \<open>n\<close>th call of the ID generator.
\<close>

section \<open>Identifiers\<close>

definition hex_digit :: "char \<Rightarrow> bool" where
  "hex_digit c \<longleftrightarrow> (48 \<le> byte c \<and> byte c \<le> 57) \<or> (97 \<le> byte c \<and> byte c \<le> 102) \<or> (65 \<le> byte c \<and> byte c \<le> 70)"

definition valid_id :: "string \<Rightarrow> bool" where
  "valid_id s \<longleftrightarrow> length s = 12 \<and> list_all hex_digit s"

definition to_lower :: "(string \<Rightarrow> string) \<Rightarrow> string \<Rightarrow> string" where
  "to_lower lower s =
    (if list_all (\<lambda>c. byte c < 128) s
     then map (\<lambda>c. if 65 \<le> byte c \<and> byte c \<le> 90 then char_of (byte c + 32) else c) s else lower s)"

definition max_id_generation_attempts :: nat where
  "max_id_generation_attempts = 128"

text \<open>The loop of \<open>availableIDLocked\<close> over its attempts: the ID, or the error, and the next call number of
  the generator. \<open>taken\<close> holds the IDs and names of the manager and of the batch.\<close>

fun find_id :: "(string \<Rightarrow> string) \<Rightarrow> (nat \<Rightarrow> string result) \<Rightarrow> string list \<Rightarrow> nat \<Rightarrow> nat \<Rightarrow> string result \<times> nat" where
  "find_id lower gen taken 0 n = (Inl (new_error ''control: could not generate a unique instance ID''), n)"
| "find_id lower gen taken (Suc attempts) n =
    (case gen n of
       Inl e \<Rightarrow> (Inl (wrapf ''control: generate instance ID: '' e), Suc n)
     | Inr raw \<Rightarrow>
         (let x = to_lower lower (trim_space raw) in
          if \<not> valid_id x
          then (Inl (ErrorString [T ''control: ID generator returned invalid 12-hex ID '', Q x]), Suc n)
          else if x \<in> set taken then find_id lower gen taken attempts (Suc n)
          else (Inr x, Suc n)))"

definition available_id :: "(string \<Rightarrow> string) \<Rightarrow> (nat \<Rightarrow> string result) \<Rightarrow> string list \<Rightarrow> nat \<Rightarrow> string result \<times> nat" where
  "available_id lower gen taken n = find_id lower gen taken max_id_generation_attempts n"

section \<open>Names\<close>

definition name_candidate :: "string \<Rightarrow> nat \<Rightarrow> string" where
  "name_candidate base suff = (if 1 < suff then base @ CHR ''-'' # nat_digits suff else base)"

lemma name_candidate_inj: "1 \<le> m \<Longrightarrow> 1 \<le> n \<Longrightarrow> name_candidate base m = name_candidate base n \<Longrightarrow> m = n"
  by (auto simp: name_candidate_def split: if_splits dest: nat_digits_inj)

lemma finite_taken_suffixes: "finite {n. k \<le> n \<and> 1 \<le> n \<and> name_candidate base n \<in> set taken}"
proof (rule finite_imageD[where f="name_candidate base"])
  show "finite (name_candidate base ` {n. k \<le> n \<and> 1 \<le> n \<and> name_candidate base n \<in> set taken})"
    by (rule finite_subset[of _ "set taken"]) auto
  show "inj_on (name_candidate base) {n. k \<le> n \<and> 1 \<le> n \<and> name_candidate base n \<in> set taken}"
    using name_candidate_inj by (auto simp: inj_on_def)
qed

function name_from :: "string list \<Rightarrow> string \<Rightarrow> nat \<Rightarrow> string" where
  "name_from taken base suff =
    (if name_candidate base suff \<in> set taken then name_from taken base (Suc suff) else name_candidate base suff)"
  by pat_completeness auto
termination
proof (relation "measure (\<lambda>(taken, base, k). (if k = 0 then 1 else 0) + card {n. k \<le> n \<and> 1 \<le> n \<and> name_candidate base n \<in> set taken})",
    goal_cases)
  case (2 taken base k)
  let ?S = "\<lambda>k. {n. k \<le> n \<and> 1 \<le> n \<and> name_candidate base n \<in> set taken}"
  show ?case
  proof (cases "k = 0")
    case True
    have "card (?S 1) \<le> card (?S 0)" by (intro card_mono finite_taken_suffixes) auto
    with True show ?thesis by simp
  next
    case False
    with 2 have "?S (Suc k) \<subset> ?S k" by (auto simp: Suc_le_eq)
    from psubset_card_mono[OF finite_taken_suffixes this] False show ?thesis by simp
  qed
qed simp

declare name_from.simps [simp del]

definition available_name :: "string list \<Rightarrow> string \<Rightarrow> string" where
  "available_name taken base = name_from taken base 1"

text \<open>The text between path and name: every run of other characters becomes one hyphen.\<close>

definition name_mark :: "nat \<Rightarrow> bool" where
  "name_mark r \<longleftrightarrow> r = 95 \<or> r = 46 \<or> r = 45"

fun normalise_runes :: "(nat \<Rightarrow> bool) \<Rightarrow> bool \<Rightarrow> nat list \<Rightarrow> nat list" where
  "normalise_runes alnum previous_separator [] = []"
| "normalise_runes alnum previous_separator (r # rs) =
    (if alnum r \<or> name_mark r then r # normalise_runes alnum False rs
     else if previous_separator then normalise_runes alnum True rs
     else 45 # normalise_runes alnum True rs)"

definition trim_chars :: "char set \<Rightarrow> string \<Rightarrow> string" where
  "trim_chars cutset s = rev (dropWhile (\<lambda>c. c \<in> cutset) (rev (dropWhile (\<lambda>c. c \<in> cutset) s)))"

definition automatic_name :: "(nat \<Rightarrow> bool) \<Rightarrow> string \<Rightarrow> string" where
  "automatic_name alnum config_path =
    (let base = base_path config_path;
         stem = trim_suffix (ext_path base) base;
         name = trim_chars {CHR ''.'', CHR ''-''} (of_runes (normalise_runes alnum False (runes stem))) in
     if name = [] then ''onderzeeer'' else name)"

definition valid_display_name :: "(nat \<Rightarrow> bool) \<Rightarrow> string \<Rightarrow> bool" where
  "valid_display_name alnum name =
    (case runes name of
       [] \<Rightarrow> False
     | r # rs \<Rightarrow> alnum r \<and> list_all (\<lambda>x. alnum x \<or> name_mark x) rs)"

section \<open>Errors\<close>

definition max_retained_error_bytes :: nat where
  "max_retained_error_bytes = 16 * 1024"

definition bounded_error :: "string \<Rightarrow> string" where
  "bounded_error s =
    (if length s \<le> max_retained_error_bytes then s
     else take (max_retained_error_bytes - length ''... [truncated]'') s @ ''... [truncated]'')"

text \<open>\<open>cancellationFrom\<close>; the context's error is the sentinel \<open>s\<close>.\<close>

fun cancellation_from :: "string \<Rightarrow> go_error \<Rightarrow> bool" where
  "cancellation_from s (Joined es) \<longleftrightarrow> es \<noteq> [] \<and> list_all (cancellation_from s) es"
| "cancellation_from s (Wrapped _ e _) \<longleftrightarrow> cancellation_from s e"
| "cancellation_from s (Sentinel t) \<longleftrightarrow> s = t"
| "cancellation_from s (ErrorString _) \<longleftrightarrow> False"

section \<open>Facts\<close>

lemma name_from_fresh: "name_from taken base k \<notin> set taken"
  by (induction taken base k rule: name_from.induct) (subst name_from.simps, simp)

lemma available_name_fresh: "available_name taken base \<notin> set taken"
  by (simp add: available_name_def name_from_fresh)

lemma find_id_ok: "find_id lower gen taken attempts n = (Inr x, n') \<Longrightarrow> valid_id x \<and> x \<notin> set taken"
  by (induction attempts arbitrary: n) (auto simp: Let_def split: sum.splits if_splits)

lemma available_id_ok: "available_id lower gen taken n = (Inr x, n') \<Longrightarrow> valid_id x \<and> x \<notin> set taken"
  unfolding available_id_def by (rule find_id_ok)

lemma bounded_error_length: "length (bounded_error s) \<le> max_retained_error_bytes"
  by (simp add: bounded_error_def max_retained_error_bytes_def)

text \<open>An error that hides an operational cause is not taken for a cancellation.\<close>

fun error_leaves :: "go_error \<Rightarrow> go_error list" where
  "error_leaves (Joined es) = concat (map error_leaves es)"
| "error_leaves (Wrapped _ e _) = error_leaves e"
| "error_leaves e = [e]"

lemma cancellation_leaves: "cancellation_from s e \<Longrightarrow> set (error_leaves e) \<subseteq> {Sentinel s}"
  by (induction s e rule: cancellation_from.induct) (fastforce simp: list_all_iff)+

section \<open>Automatic names\<close>

text \<open>What Unicode's tables say of ASCII.\<close>

definition ascii_tables :: "(nat \<Rightarrow> bool) \<Rightarrow> bool" where
  "ascii_tables alnum \<longleftrightarrow>
    (\<forall>r < 128. alnum r \<longleftrightarrow> 48 \<le> r \<and> r \<le> 57 \<or> 65 \<le> r \<and> r \<le> 90 \<or> 97 \<le> r \<and> r \<le> 122)"

lemma ascii_marks: "ascii_tables alnum \<Longrightarrow> name_mark r \<Longrightarrow> \<not> alnum r"
  by (auto simp: ascii_tables_def name_mark_def)

abbreviation trim_mark :: "nat \<Rightarrow> bool" where
  "trim_mark r \<equiv> r = 46 \<or> r = 45"

abbreviation cut_char_set :: "char set" where
  "cut_char_set \<equiv> {CHR ''.'', CHR ''-''}"

lemma cut_byte: "c \<in> cut_char_set \<longleftrightarrow> trim_mark (byte c)"
proof -
  have "byte (CHR ''.'') = 46" "byte (CHR ''-'') = 45" by simp_all
  then show ?thesis by (metis empty_iff insert_iff of_char_eq_iff)
qed

lemma encode_low: "r < 128 \<Longrightarrow> encode_rune r = [char_of r]"
  by (simp add: encode_rune_def)

lemma of_runes_ascii: "\<forall>c \<in> set s. byte c < 128 \<Longrightarrow> of_runes (map byte s) = s"
  by (induction s) (auto simp: of_runes_def encode_low)

lemma encode_high: "scalar r \<Longrightarrow> \<not> r < 128 \<Longrightarrow> c \<in> set (encode_rune r) \<Longrightarrow> 128 \<le> byte c"
  by (auto simp: encode_rune_def scalar_def Let_def byte_char_of split: if_splits)

lemma encode_cut:
  assumes "scalar r"
  shows "trim_mark r \<Longrightarrow> \<exists>c. encode_rune r = [c] \<and> c \<in> cut_char_set"
    and "\<not> trim_mark r \<Longrightarrow> c \<in> set (encode_rune r) \<Longrightarrow> c \<notin> cut_char_set"
proof -
  show "\<exists>c. encode_rune r = [c] \<and> c \<in> cut_char_set" if "trim_mark r"
    unfolding cut_byte using that by (auto simp: encode_low byte_char_of)
  show "c \<notin> cut_char_set" if "\<not> trim_mark r" "c \<in> set (encode_rune r)"
    unfolding cut_byte
  proof (cases "r < 128")
    case True
    then show "\<not> trim_mark (byte c)" using that by (auto simp: encode_low byte_char_of)
  next
    case False
    from encode_high[OF assms False that(2)] show "\<not> trim_mark (byte c)" by auto
  qed
qed

lemma trim_left_runes:
  "\<forall>r \<in> set rs. scalar r \<Longrightarrow> dropWhile (\<lambda>c. c \<in> cut_char_set) (of_runes rs) = of_runes (dropWhile trim_mark rs)"
proof (induction rs)
  case (Cons r rs)
  show ?case
  proof (cases "trim_mark r")
    case True
    then obtain c where c: "encode_rune r = [c]" "c \<in> cut_char_set" using encode_cut(1)[of r] Cons.prems by auto
    then have "dropWhile (\<lambda>c. c \<in> cut_char_set) (of_runes (r # rs)) = dropWhile (\<lambda>c. c \<in> cut_char_set) (of_runes rs)"
      by (simp add: of_runes_def)
    then show ?thesis using Cons True by simp
  next
    case False
    obtain c cs where c: "encode_rune r = c # cs" using encode_nonempty[of r] by (cases "encode_rune r") auto
    then have "c \<notin> cut_char_set" using encode_cut(2)[of r c] False Cons.prems by simp
    then show ?thesis using c False by (simp add: of_runes_def)
  qed
qed (simp add: of_runes_def)

lemma trim_right_runes:
  "\<forall>r \<in> set rs. scalar r \<Longrightarrow>
    rev (dropWhile (\<lambda>c. c \<in> cut_char_set) (rev (of_runes rs))) = of_runes (rev (dropWhile trim_mark (rev rs)))"
proof (induction rs rule: rev_induct)
  case (snoc r rs)
  show ?case
  proof (cases "trim_mark r")
    case True
    then obtain c where c: "encode_rune r = [c]" "c \<in> cut_char_set" using encode_cut(1)[of r] snoc.prems by auto
    then have "dropWhile (\<lambda>c. c \<in> cut_char_set) (rev (of_runes (rs @ [r]))) = dropWhile (\<lambda>c. c \<in> cut_char_set) (rev (of_runes rs))"
      by (simp add: of_runes_def)
    then show ?thesis using snoc True by simp
  next
    case False
    obtain cs c where c: "encode_rune r = cs @ [c]" using encode_nonempty[of r] by (cases "encode_rune r" rule: rev_cases) auto
    then have "c \<notin> cut_char_set" using encode_cut(2)[of r c] False snoc.prems by simp
    then show ?thesis using c False by (simp add: of_runes_def)
  qed
qed (simp add: of_runes_def)

lemma trim_runes:
  assumes "\<forall>r \<in> set rs. scalar r"
  obtains ts where "trim_chars cut_char_set (of_runes rs) = of_runes ts" "set ts \<subseteq> set rs"
    "ts \<noteq> [] \<Longrightarrow> \<not> trim_mark (hd ts)"
proof -
  define l where "l = dropWhile trim_mark rs"
  define ts where "ts = rev (dropWhile trim_mark (rev l))"
  have l: "\<forall>r \<in> set l. scalar r" using assms set_dropWhileD unfolding l_def by metis
  have eq: "trim_chars cut_char_set (of_runes rs) = of_runes ts"
    by (simp only: trim_chars_def trim_left_runes[OF assms] trim_right_runes[OF l] ts_def l_def[symmetric])
  have sub: "set ts \<subseteq> set rs" unfolding ts_def l_def using set_dropWhileD by (metis set_rev subsetI)
  have "l = ts @ rev (takeWhile trim_mark (rev l))"
    unfolding ts_def by (metis rev_append rev_rev_ident takeWhile_dropWhile_id)
  then have first: "hd l = hd ts" if "ts \<noteq> []" using that by (metis hd_append2)
  have "\<not> trim_mark (hd ts)" if "ts \<noteq> []"
  proof -
    have "l \<noteq> []" using that ts_def by auto
    then have "\<not> trim_mark (hd l)" unfolding l_def by (rule hd_dropWhile)
    then show ?thesis using first[OF that] by simp
  qed
  with that eq sub show thesis by blast
qed

lemma normalise_runes_set:
  "r \<in> set (normalise_runes alnum prev rs) \<Longrightarrow> (alnum r \<or> name_mark r) \<and> (r \<in> set rs \<or> r = 45)"
  by (induction alnum prev rs rule: normalise_runes.induct) (auto simp: name_mark_def split: if_splits)

text \<open>Letters and digits of ASCII only, for examples.\<close>

definition ascii_alnum :: "nat \<Rightarrow> bool" where
  "ascii_alnum r \<longleftrightarrow> 48 \<le> r \<and> r \<le> 57 \<or> 65 \<le> r \<and> r \<le> 90 \<or> 97 \<le> r \<and> r \<le> 122"

lemma ascii_alnum_tables: "ascii_tables ascii_alnum"
  by (simp add: ascii_tables_def ascii_alnum_def)

lemma underscore_name: "automatic_name ascii_alnum ''/etc/_jobs.yaml'' = ''_jobs''"
proof -
  have base: "base_path ''/etc/_jobs.yaml'' = ''_jobs.yaml''" by (simp add: base_path_def after_slash_def)
  have stem: "trim_suffix (ext_path ''_jobs.yaml'') ''_jobs.yaml'' = ''_jobs''"
    by (simp add: ext_path_def after_slash_def trim_suffix_def suffix_def)
  have runes: "runes ''_jobs'' = [95, 106, 111, 98, 115]" by (simp add: runes_ascii)
  have kept: "normalise_runes ascii_alnum False [95, 106, 111, 98, 115] = [95, 106, 111, 98, 115]"
    by (simp add: ascii_alnum_def name_mark_def)
  have written: "of_runes [95, 106, 111, 98, 115] = ''_jobs''"
    using of_runes_ascii[of "''_jobs''"] by simp
  show ?thesis by (simp only: automatic_name_def base Let_def stem runes kept written) (simp add: trim_chars_def)
qed

end
