(* ===== verification/ManagerModel.thy ===== *)
theory ManagerModel
  imports ManagerNames ConfigPaths
begin

text \<open>
  The supervisor of managed instances (\<open>internal/control/types.go\<close>, \<open>manager.go\<close>, \<open>registered.go\<close> and
  the queries of \<open>registry.go\<close>): its state and what the calls compute before they take effect. A
  runtime is a pointer into \<open>mg_heap\<close>; the maps are association lists in the order an iteration visits
  them. \<open>host\<close> is what one call sees of its surroundings: files, the configuration loader, the clock, the
  ID generator, the call's context and the tables of Unicode.
\<close>

section \<open>Data\<close>

datatype run_state = StateRunning | StateStopping | StateExited | StateFailed

record instance_view =
  iv_id :: string
  iv_name :: string
  iv_config_path :: string
  iv_config_hash :: string
  iv_database_path :: string
  iv_state :: run_state
  iv_desired_state :: string
  iv_created_at :: time
  iv_started_at :: time
  iv_finished_at :: "time option"
  iv_error :: string

definition view_active :: "instance_view \<Rightarrow> bool" where
  "view_active v \<longleftrightarrow> iv_state v = StateRunning \<or> iv_state v = StateStopping"

record known_queue =
  kq_identity :: string
  kq_config_identity :: string
  kq_config_path :: string
  kq_config_hash :: string
  kq_database_path :: string
  kq_database_aliases :: "string list"
  kq_watch_names :: "string list"

text \<open>Where the goroutine of a runtime is: never launched, in the runner, between the two locked
  sections of \<open>run\<close> with its final view, or finished.\<close>

datatype run_phase = Unlaunched | Invoking | Finalizing instance_view | Completed

record runtime =
  rt_view :: instance_view
  rt_config :: "config option"
  rt_config_identity :: string
  rt_remove_on_exit :: bool
  rt_canceled :: bool
  rt_done :: bool
  rt_phase :: run_phase

text \<open>A row of the registry's table \<open>instances\<close>, with its JSON columns decoded.\<close>

record registry_row =
  rr_id :: string
  rr_name :: string
  rr_identity :: string
  rr_view :: instance_view
  rr_config :: config

record manager =
  mg_ctx_err :: "go_error option"
  mg_retained_instances :: nat
  mg_heap :: "runtime list"
  mg_instances :: "(string \<times> nat) list"
  mg_names :: "(string \<times> string) list"
  mg_known_queues :: "(string \<times> known_queue) list"
  mg_active_configs :: "(string \<times> string) list"
  mg_active_databases :: "(string \<times> string) list"
  mg_shutting_down :: bool
  mg_registry :: "registry_row list option"
  mg_directory :: string
  mg_persistence_errs :: "go_error list"

text \<open>How a transaction on the registry can fail: at its start, at its \<open>n\<close>th statement, at its end.\<close>

datatype db_failure = BeginFails go_error | StatementFails nat go_error | CommitFails go_error

record host =
  h_cwd :: string
  h_fs :: file_system
  h_nfc :: "string \<Rightarrow> string"
  h_equal_fold :: "string \<Rightarrow> string \<Rightarrow> bool"
  h_lower :: "string \<Rightarrow> string"
  h_alnum :: "nat \<Rightarrow> bool"
  h_loader :: "string \<Rightarrow> config option result"
  h_fingerprint :: "config \<Rightarrow> string result"
  h_gen :: "nat \<Rightarrow> string result"
  h_now :: "nat \<Rightarrow> time"
  h_ctx :: "nat \<Rightarrow> go_error option"
  h_gate_err :: "go_error option"
  h_registry_err :: "db_failure option"

definition control_error :: "string \<Rightarrow> go_error" where
  "control_error s = Sentinel (''control: '' @ s)"

definition err_instance_not_found :: go_error where
  "err_instance_not_found = control_error ''instance not found''"

definition err_ambiguous :: go_error where
  "err_ambiguous = control_error ''ambiguous instance selector''"

definition err_already_active :: go_error where
  "err_already_active = control_error ''instance already active''"

definition err_name_in_use :: go_error where
  "err_name_in_use = control_error ''instance name already in use''"

definition err_not_active :: go_error where
  "err_not_active = control_error ''instance is not active''"

definition err_shutting_down :: go_error where
  "err_shutting_down = control_error ''manager is shutting down''"

definition err_queue_changed :: go_error where
  "err_queue_changed = control_error ''known queue configuration changed''"

definition assoc_put :: "'k \<Rightarrow> 'v \<Rightarrow> ('k \<times> 'v) list \<Rightarrow> ('k \<times> 'v) list" where
  "assoc_put k v m = (k, v) # filter (\<lambda>e. fst e \<noteq> k) m"

definition assoc_del :: "'k \<Rightarrow> ('k \<times> 'v) list \<Rightarrow> ('k \<times> 'v) list" where
  "assoc_del k m = filter (\<lambda>e. fst e \<noteq> k) m"

section \<open>Paths\<close>

definition absolute_path :: "host \<Rightarrow> string \<Rightarrow> string result" where
  "absolute_path h p = (if blank p then Inl (new_error ''path is empty'') else Inr (clean (abs_path (h_cwd h) p)))"

definition canonical_path :: "host \<Rightarrow> string \<Rightarrow> string result" where
  "canonical_path h p =
    (if blank p then Inl (new_error ''path is empty'') else canonical_database_path (h_cwd h) (h_fs h) p)"

text \<open>\<open>config.PathsEquivalent\<close>; it always returns (\<open>path_comparison_total\<close>).\<close>

definition same_path :: "host \<Rightarrow> string \<Rightarrow> string \<Rightarrow> bool result" where
  "same_path h left right =
    the (paths_equivalent (h_nfc h) (h_equal_fold h) (h_cwd h) (h_fs h) (h_fs h) (h_fs h) (h_fs h) left right)"

definition stat_database_file :: "host \<Rightarrow> string \<Rightarrow> nat option result" where
  "stat_database_file h p =
    (case fs_stat (h_fs h) p of
       Inr info \<Rightarrow> Inr (Some (si_id info))
     | Inl e \<Rightarrow> if not_exist e then Inr None else Inl (Wrapped [T ''stat '', T p, T '': ''] e []))"

section \<open>Candidates of a start\<close>

record start_candidate =
  sc_config_path :: string
  sc_config_identity :: string
  sc_config_hash :: string
  sc_database_path :: string
  sc_queue_identity :: string
  sc_config :: config
  sc_name_base :: string

record config_owner =
  co_requested :: string
  co_identity :: string
  co_info :: "nat option"

definition duplicate_config_path_error :: "string \<Rightarrow> string \<Rightarrow> string \<Rightarrow> go_error" where
  "duplicate_config_path_error owner requested identity =
    ErrorString [T ''control: config paths '', Q owner, T '' and '', Q requested, T '' resolve to the same path '', Q identity]"

definition duplicate_database_error :: "start_candidate \<Rightarrow> start_candidate \<Rightarrow> go_error" where
  "duplicate_database_error owner c =
    ErrorString [T ''control: configs '', Q (sc_config_path owner), T '' and '', Q (sc_config_path c),
      T '' use the same database '', Q (sc_database_path c)]"

fun compare_owners :: "host \<Rightarrow> string \<Rightarrow> string \<Rightarrow> config_owner list \<Rightarrow> go_error option" where
  "compare_owners h requested identity [] = None"
| "compare_owners h requested identity (ow # owners) =
    (if to_lower (h_lower h) (co_identity ow) \<noteq> to_lower (h_lower h) identity
     then compare_owners h requested identity owners
     else
       (case same_path h (co_identity ow) identity of
          Inl e \<Rightarrow> Some (Wrapped [T ''control: compare config paths '', Q (co_requested ow), T '' and '', Q requested, T '': ''] e [])
        | Inr same \<Rightarrow>
            if same then Some (duplicate_config_path_error (co_requested ow) requested identity)
            else compare_owners h requested identity owners))"

text \<open>The checks of one requested path against the earlier ones, in the order of the code.\<close>

definition check_config_owner :: "host \<Rightarrow> string \<Rightarrow> string \<Rightarrow> nat option \<Rightarrow> config_owner list \<Rightarrow> go_error option" where
  "check_config_owner h requested identity info owners =
    (case List.find (\<lambda>ow. info \<noteq> None \<and> co_info ow = info) owners of
       Some ow \<Rightarrow> Some (duplicate_config_path_error (co_requested ow) requested identity)
     | None \<Rightarrow> compare_owners h requested identity owners)"

text \<open>One path of the request: its candidate and its owner entry.\<close>

definition load_candidate :: "host \<Rightarrow> config_owner list \<Rightarrow> nat \<Rightarrow> string \<Rightarrow> (start_candidate \<times> config_owner) result" where
  "load_candidate h owners i requested =
    on_error (h_ctx h (2 * i)) id
    (case absolute_path h requested of
       Inl e \<Rightarrow> Inl (Wrapped [T ''control: resolve config path '', Q requested, T '': ''] e [])
     | Inr path \<Rightarrow>
    (case canonical_path h path of
       Inl e \<Rightarrow> Inl (Wrapped [T ''control: canonicalize config path '', Q requested, T '': ''] e [])
     | Inr identity \<Rightarrow>
    (case List.find (\<lambda>ow. co_identity ow = identity) owners of
       Some ow \<Rightarrow> Inl (duplicate_config_path_error (co_requested ow) requested identity)
     | None \<Rightarrow>
    (case stat_database_file h identity of
       Inl e \<Rightarrow> Inl (Wrapped [T ''control: inspect config path '', Q requested, T '': ''] e [])
     | Inr info \<Rightarrow>
    on_error (check_config_owner h requested identity info owners) id
    (case h_loader h path of
       Inl e \<Rightarrow> Inl (Wrapped [T ''control: load config '', T path, T '': ''] e [])
     | Inr loaded \<Rightarrow>
    on_error (h_ctx h (2 * i + 1)) id
    (case loaded of
       None \<Rightarrow> Inl (ErrorString [T ''control: load config '', T path, T '': loader returned nil''])
     | Some cfg \<Rightarrow>
    (case h_fingerprint h cfg of
       Inl e \<Rightarrow> Inl (Wrapped [T ''control: fingerprint config '', T path, T '': ''] e [])
     | Inr hash \<Rightarrow>
    (case canonical_database_path (h_cwd h) (h_fs h) (d_path cfg) of
       Inl e \<Rightarrow> Inl (Wrapped [T ''control: resolve database for '', T path, T '': ''] e [])
     | Inr database \<Rightarrow>
         Inr (\<lparr>sc_config_path = path, sc_config_identity = identity, sc_config_hash = hash,
               sc_database_path = database, sc_queue_identity = database, sc_config = cfg,
               sc_name_base = automatic_name (h_alnum h) path\<rparr>,
              \<lparr>co_requested = requested, co_identity = identity, co_info = info\<rparr>)))))))))"

fun load_candidates :: "host \<Rightarrow> config_owner list \<Rightarrow> nat \<Rightarrow> string list \<Rightarrow> start_candidate list result" where
  "load_candidates h owners i [] = Inr []"
| "load_candidates h owners i (p # paths) =
    (case load_candidate h owners i p of
       Inl e \<Rightarrow> Inl e
     | Inr (c, ow) \<Rightarrow>
         (case load_candidates h (owners @ [ow]) (i + 1) paths of Inl e \<Rightarrow> Inl e | Inr cs \<Rightarrow> Inr (c # cs)))"

section \<open>Checks of the candidates\<close>

fun compare_missing :: "host \<Rightarrow> start_candidate \<Rightarrow> start_candidate list \<Rightarrow> go_error option" where
  "compare_missing h c [] = None"
| "compare_missing h c (ow # owners) =
    (case same_path h (sc_database_path ow) (sc_database_path c) of
       Inl e \<Rightarrow> Some (Wrapped [T ''control: compare databases for configs '', Q (sc_config_path ow), T '' and '',
                  Q (sc_config_path c), T '': ''] e [])
     | Inr same \<Rightarrow> if same then Some (duplicate_database_error ow c) else compare_missing h c owners)"

text \<open>\<open>existing\<close> and \<open>missing\<close> hold the earlier candidates whose database file exists, and those whose
  does not.\<close>

fun validate_databases ::
  "host \<Rightarrow> (start_candidate \<times> nat) list \<Rightarrow> start_candidate list \<Rightarrow> start_candidate list \<Rightarrow> nat \<Rightarrow>
   start_candidate list \<Rightarrow> go_error option" where
  "validate_databases h existing missing earlier i [] = None"
| "validate_databases h existing missing earlier i (c # cs) =
    (case h_ctx h i of
       Some e \<Rightarrow> Some e
     | None \<Rightarrow>
    (case List.find (\<lambda>ow. sc_database_path ow = sc_database_path c) earlier of
       Some ow \<Rightarrow> Some (duplicate_database_error ow c)
     | None \<Rightarrow>
    (case stat_database_file h (sc_database_path c) of
       Inl e \<Rightarrow> Some (Wrapped [T ''control: inspect database for config '', Q (sc_config_path c), T '': ''] e [])
     | Inr None \<Rightarrow>
         (case compare_missing h c missing of
            Some e \<Rightarrow> Some e
          | None \<Rightarrow> validate_databases h existing (missing @ [c]) (earlier @ [c]) (i + 1) cs)
     | Inr (Some info) \<Rightarrow>
         (case List.find (\<lambda>(ow, x). x = info) existing of
            Some (ow, x) \<Rightarrow> Some (duplicate_database_error ow c)
          | None \<Rightarrow> validate_databases h (existing @ [(c, info)]) missing (earlier @ [c]) (i + 1) cs))))"

definition validate_database_candidates :: "host \<Rightarrow> start_candidate list \<Rightarrow> go_error option" where
  "validate_database_candidates h cs = validate_databases h [] [] [] 0 cs"

text \<open>Whether a database path is one of the known ones; blank entries are skipped.\<close>

fun known_database :: "host \<Rightarrow> string \<Rightarrow> (string \<Rightarrow> go_error \<Rightarrow> go_error) \<Rightarrow> string list \<Rightarrow> bool result" where
  "known_database h p wrap [] = Inr False"
| "known_database h p wrap (k # ks) =
    (if blank k then known_database h p wrap ks
     else
       (case h_ctx h 0 of
          Some e \<Rightarrow> Inl e
        | None \<Rightarrow>
            (case same_path h p k of
               Inl e \<Rightarrow> Inl (wrap k e)
             | Inr same \<Rightarrow> if same then Inr True else known_database h p wrap ks)))"

definition queue_paths :: "known_queue \<Rightarrow> string list" where
  "queue_paths k = kq_identity k # kq_database_path k # kq_database_aliases k"

definition validate_expected_queue :: "host \<Rightarrow> start_candidate list \<Rightarrow> known_queue option \<Rightarrow> go_error option" where
  "validate_expected_queue h cs expected =
    (case expected of
       None \<Rightarrow> None
     | Some k \<Rightarrow>
         (case cs of
            [c] \<Rightarrow>
              if sc_config_identity c \<noteq> kq_config_identity k
              then Some (Wrapped [] err_queue_changed [T '': config '', Q (sc_config_path c), T '' no longer resolves to its registered file''])
              else
                (case known_database h (sc_database_path c)
                    (\<lambda>x e. Wrapped [T ''control: compare known queue database '', Q (sc_database_path c), T '' with '', Q x, T '': ''] e [])
                    (queue_paths k) of
                   Inl e \<Rightarrow> Some e
                 | Inr True \<Rightarrow> None
                 | Inr False \<Rightarrow>
                     Some (Wrapped [] err_queue_changed [T '': config '', Q (sc_config_path c), T '' now uses database '',
                       Q (sc_database_path c), T '' instead of registered queue '', Q (kq_identity k)]))
          | _ \<Rightarrow> Some (new_error ''control: a known queue start requires exactly one configuration'')))"

fun queue_identity_of :: "host \<Rightarrow> string \<Rightarrow> known_queue list \<Rightarrow> string result" where
  "queue_identity_of h p [] = Inr p"
| "queue_identity_of h p (k # ks) =
    (case known_database h p
        (\<lambda>x e. Wrapped [T ''control: compare queue database '', Q p, T '' with known database '', Q x, T '': ''] e [])
        (queue_paths k) of
       Inl e \<Rightarrow> Inl e
     | Inr True \<Rightarrow> Inr (kq_identity k)
     | Inr False \<Rightarrow> queue_identity_of h p ks)"

fun assign_known_queue_identities :: "host \<Rightarrow> known_queue list \<Rightarrow> start_candidate list \<Rightarrow> start_candidate list result" where
  "assign_known_queue_identities h ks [] = Inr []"
| "assign_known_queue_identities h ks (c # cs) =
    (case queue_identity_of h (sc_database_path c) ks of
       Inl e \<Rightarrow> Inl e
     | Inr q \<Rightarrow>
         (case assign_known_queue_identities h ks cs of
            Inl e \<Rightarrow> Inl e
          | Inr cs' \<Rightarrow> Inr (c\<lparr>sc_queue_identity := q\<rparr> # cs')))"

fun scan_active_configs :: "host \<Rightarrow> string \<Rightarrow> nat option \<Rightarrow> (string \<times> string) list \<Rightarrow> string option result" where
  "scan_active_configs h p info [] = Inr None"
| "scan_active_configs h p info ((active_path, owner) # active) =
    on_error (h_ctx h 0) id
    (case (if info = None then Inr None else stat_database_file h active_path) of
       Inl e \<Rightarrow> Inl e
     | Inr active_info \<Rightarrow>
         if active_info \<noteq> None \<and> active_info = info then Inr (Some owner)
         else if h_equal_fold h p active_path
         then
           (case same_path h p active_path of
              Inl e \<Rightarrow> Inl e
            | Inr same \<Rightarrow> if same then Inr (Some owner) else scan_active_configs h p info active)
         else scan_active_configs h p info active)"

definition active_config_owner :: "host \<Rightarrow> string \<Rightarrow> (string \<times> string) list \<Rightarrow> string option result" where
  "active_config_owner h p active =
    (case map_of active p of
       Some owner \<Rightarrow> Inr (Some owner)
     | None \<Rightarrow>
         (case stat_database_file h p of Inl e \<Rightarrow> Inl e | Inr info \<Rightarrow> scan_active_configs h p info active))"

fun scan_active_databases :: "host \<Rightarrow> string \<Rightarrow> nat option \<Rightarrow> (string \<times> string) list \<Rightarrow> string option result" where
  "scan_active_databases h p info [] = Inr None"
| "scan_active_databases h p info ((active_path, owner) # active) =
    on_error (h_ctx h 0) id
    (case stat_database_file h active_path of
       Inl e \<Rightarrow> Inl e
     | Inr active_info \<Rightarrow>
         if info \<noteq> None \<and> active_info = info then Inr (Some owner)
         else
           (case same_path h p active_path of
              Inl e \<Rightarrow> Inl e
            | Inr same \<Rightarrow> if same then Inr (Some owner) else scan_active_databases h p info active))"

definition active_database_owner :: "host \<Rightarrow> string \<Rightarrow> (string \<times> string) list \<Rightarrow> string option result" where
  "active_database_owner h p active =
    (case map_of active p of
       Some owner \<Rightarrow> Inr (Some owner)
     | None \<Rightarrow>
         (case stat_database_file h p of Inl e \<Rightarrow> Inl e | Inr info \<Rightarrow> scan_active_databases h p info active))"

fun validate_active_candidates ::
  "host \<Rightarrow> (string \<times> string) list \<Rightarrow> (string \<times> string) list \<Rightarrow> start_candidate list \<Rightarrow> go_error option" where
  "validate_active_candidates h configs databases [] = None"
| "validate_active_candidates h configs databases (c # cs) =
    (case h_ctx h 0 of
       Some e \<Rightarrow> Some e
     | None \<Rightarrow>
    (case active_config_owner h (sc_config_identity c) configs of
       Inl e \<Rightarrow> Some (Wrapped [T ''control: compare config '', Q (sc_config_path c), T '' with active instances: ''] e [])
     | Inr (Some owner) \<Rightarrow>
         Some (Wrapped [] err_already_active [T '': config '', Q (sc_config_path c), T '' is owned by '', T owner])
     | Inr None \<Rightarrow>
    (case active_database_owner h (sc_database_path c) databases of
       Inl e \<Rightarrow> Some (Wrapped [T ''control: compare database '', Q (sc_database_path c), T '' with active instances: ''] e [])
     | Inr (Some owner) \<Rightarrow>
         Some (Wrapped [] err_already_active [T '': database '', Q (sc_database_path c), T '' is owned by '', T owner])
     | Inr None \<Rightarrow> validate_active_candidates h configs databases cs)))"

end
