(* ===== verification/ManagerCalls.thy ===== *)
theory ManagerCalls
  imports ManagerModel
begin

text \<open>
  The calls of the supervisor as state changes: starting (ephemeral and registered), resuming, restoring,
  stopping, waiting, the two locked sections of a runtime's goroutine, shutdown, and loading the registry.
  Each function is one section of code under the manager's lock; the start gate lets one start at a time
  reach them.
\<close>

section \<open>Reading\<close>

definition runtime_at :: "manager \<Rightarrow> nat \<Rightarrow> runtime" where
  "runtime_at m ptr = mg_heap m ! ptr"

definition closed_to_starts :: "manager \<Rightarrow> bool" where
  "closed_to_starts m \<longleftrightarrow> mg_shutting_down m \<or> mg_ctx_err m \<noteq> None"

text \<open>A name that maps to no instance makes the code return a nil runtime, which its callers use.\<close>

definition err_nil_runtime :: go_error where
  "err_nil_runtime = Sentinel ''panic: nil pointer dereference''"

definition resolve_locked :: "manager \<Rightarrow> string \<Rightarrow> nat result" where
  "resolve_locked m selector0 =
    (let selector = trim_space selector0 in
     if selector = [] then Inl (Wrapped [] err_instance_not_found [T '': empty selector''])
     else
       (case map_of (mg_names m) selector of
          Some x \<Rightarrow> (case map_of (mg_instances m) x of Some ptr \<Rightarrow> Inr ptr | None \<Rightarrow> Inl err_nil_runtime)
        | None \<Rightarrow>
            (case filter (\<lambda>e. prefix selector (fst e)) (mg_instances m) of
               [] \<Rightarrow> Inl (Wrapped [] err_instance_not_found [T '': '', Q selector])
             | [(x, ptr)] \<Rightarrow> Inr ptr
             | _ \<Rightarrow> Inl (Wrapped [] err_ambiguous [T '': ID prefix '', Q selector]))))"

text \<open>The order of \<open>List\<close>: newest first, then by name and ID.\<close>

definition listed_before :: "instance_view \<Rightarrow> instance_view \<Rightarrow> bool" where
  "listed_before a b \<longleftrightarrow>
    (if iv_created_at a \<noteq> iv_created_at b then iv_created_at b < iv_created_at a
     else if iv_name a \<noteq> iv_name b then string_le (iv_name a) (iv_name b)
     else string_le (iv_id a) (iv_id b))"

fun insert_view :: "instance_view \<Rightarrow> instance_view list \<Rightarrow> instance_view list" where
  "insert_view v [] = [v]"
| "insert_view v (w # ws) = (if listed_before v w then v # w # ws else w # insert_view v ws)"

definition list_instances :: "manager \<Rightarrow> bool \<Rightarrow> instance_view list" where
  "list_instances m all =
    foldr insert_view (filter (\<lambda>v. all \<or> view_active v) (map (\<lambda>e. rt_view (runtime_at m (snd e))) (mg_instances m))) []"

definition get_instance :: "manager \<Rightarrow> string \<Rightarrow> instance_view result" where
  "get_instance m selector = map_sum id (\<lambda>ptr. rt_view (runtime_at m ptr)) (resolve_locked m selector)"

definition queue_before :: "known_queue \<Rightarrow> known_queue \<Rightarrow> bool" where
  "queue_before a b \<longleftrightarrow>
    (if kq_config_path a \<noteq> kq_config_path b then string_le (kq_config_path a) (kq_config_path b)
     else string_le (kq_identity a) (kq_identity b))"

fun insert_queue :: "known_queue \<Rightarrow> known_queue list \<Rightarrow> known_queue list" where
  "insert_queue v [] = [v]"
| "insert_queue v (w # ws) = (if queue_before v w then v # w # ws else w # insert_queue v ws)"

definition known_queues :: "manager \<Rightarrow> known_queue list" where
  "known_queues m = foldr insert_queue (map snd (mg_known_queues m)) []"

section \<open>The registry\<close>

record registration =
  rg_view :: instance_view
  rg_identity :: string
  rg_config :: config

text \<open>JSON copies the exported fields, with invalid UTF-8 replaced.\<close>

definition json_text :: "string \<Rightarrow> string" where
  "json_text s = of_runes (runes s)"

definition json_map :: "string_map \<Rightarrow> string_map" where
  "json_map m = map (\<lambda>(k, v). (json_text k, json_text v)) m"

definition json_command :: "command_config \<Rightarrow> command_config" where
  "json_command c =
    \<lparr>c_name = json_text (c_name c), c_executor = json_text (c_executor c), c_program = json_text (c_program c),
     c_args = map json_text (c_args c), c_image = json_text (c_image c),
     c_mounts = map (\<lambda>m. \<lparr>m_source = json_text (m_source m), m_target = json_text (m_target m),
                          m_options = map json_text (m_options m)\<rparr>) (c_mounts c),
     c_container_env = json_map (c_container_env c), c_container_args = map json_text (c_container_args c),
     c_command = json_text (c_command c), c_command_args = map json_text (c_command_args c),
     c_timeout = c_timeout c, c_working_dir = json_text (c_working_dir c), c_output = json_text (c_output c),
     c_env = json_map (c_env c), c_structured_container = False, c_container_command_set = False,
     c_raw_args_set = False, c_container_fields_set = False\<rparr>"

definition json_watch :: "watch_config \<Rightarrow> watch_config" where
  "json_watch w =
    \<lparr>w_name = json_text (w_name w), w_path = json_text (w_path w), w_recursive = w_recursive w,
     w_process_existing = w_process_existing w, w_reprocess_on_change = w_reprocess_on_change w,
     w_include = map json_text (w_include w), w_exclude = map json_text (w_exclude w),
     w_settle_for = w_settle_for w, w_settle_set = False, w_pipeline = map json_command (w_pipeline w)\<rparr>"

definition json_config :: "config \<Rightarrow> config" where
  "json_config c =
    \<lparr>q_workers = q_workers c, q_max_retries = q_max_retries c, q_retry_delay = q_retry_delay c,
     q_retry_delay_set = False, d_path = json_text (d_path c), v_values = [],
     v_watches = map json_watch (v_watches c)\<rparr>"

definition json_view :: "instance_view \<Rightarrow> instance_view" where
  "json_view v = v\<lparr>iv_id := json_text (iv_id v), iv_name := json_text (iv_name v),
    iv_config_path := json_text (iv_config_path v), iv_config_hash := json_text (iv_config_hash v),
    iv_database_path := json_text (iv_database_path v), iv_desired_state := json_text (iv_desired_state v),
    iv_error := json_text (iv_error v)\<rparr>"

text \<open>\<open>INSERT ... ON CONFLICT(id) DO UPDATE\<close> under the unique columns \<open>name\<close> and \<open>config_identity\<close>.\<close>

definition row_conflicts :: "registry_row \<Rightarrow> registry_row \<Rightarrow> bool" where
  "row_conflicts new r \<longleftrightarrow> rr_id r \<noteq> rr_id new \<and> (rr_name r = rr_name new \<or> rr_identity r = rr_identity new)"

definition registry_row_of :: "registration \<Rightarrow> registry_row" where
  "registry_row_of g =
    \<lparr>rr_id = iv_id (rg_view g), rr_name = iv_name (rg_view g), rr_identity = rg_identity g,
     rr_view = json_view (rg_view g), rr_config = json_config (rg_config g)\<rparr>"

definition upsert_row :: "registry_row \<Rightarrow> registry_row list \<Rightarrow> registry_row list" where
  "upsert_row new rows =
    (if \<exists>r \<in> set rows. rr_id r = rr_id new then map (\<lambda>r. if rr_id r = rr_id new then new else r) rows
     else rows @ [new])"

fun registry_save :: "registration list \<Rightarrow> registry_row list \<Rightarrow> registry_row list result" where
  "registry_save [] rows = Inr rows"
| "registry_save (g # gs) rows =
    (if list_ex (row_conflicts (registry_row_of g)) rows
     then Inl (Wrapped [T ''control: persist instance '', T (iv_name (rg_view g)), T '': '']
       (new_error ''UNIQUE constraint failed'') [])
     else registry_save gs (upsert_row (registry_row_of g) rows))"

definition registry_save_views :: "instance_view list \<Rightarrow> registry_row list \<Rightarrow> registry_row list" where
  "registry_save_views views rows =
    fold (\<lambda>v. map (\<lambda>r. if rr_id r = iv_id v then r\<lparr>rr_view := json_view v\<rparr> else r)) views rows"

text \<open>\<open>ResolveStateDirectory\<close>: the environment's values and the home directory are arguments.\<close>

definition resolve_state_directory :: "string \<Rightarrow> string \<Rightarrow> string \<Rightarrow> string result \<Rightarrow> string \<Rightarrow> string result" where
  "resolve_state_directory explicit state_env xdg_env home cwd =
    (let directory1 = trim_space explicit;
         directory2 = (if directory1 = [] then trim_space state_env else directory1) in
     if directory2 \<noteq> [] then Inr (clean (abs_path cwd directory2))
     else if is_abs xdg_env then Inr (clean (abs_path cwd (join_path [xdg_env, ''onderzeeer''])))
     else
       (case home of
          Inl e \<Rightarrow> Inl (wrapf ''control: resolve state directory: '' e)
        | Inr h \<Rightarrow> Inr (clean (abs_path cwd (join_path [join_path [h, ''.local'', ''state''], ''onderzeeer''])))))"

section \<open>Publishing runtimes\<close>

definition watch_names_of :: "config option \<Rightarrow> string list" where
  "watch_names_of cfg = (case cfg of None \<Rightarrow> [] | Some c \<Rightarrow> map w_name (v_watches c))"

definition register_runtime :: "instance_view \<Rightarrow> string \<Rightarrow> config option \<Rightarrow> bool \<Rightarrow> manager \<Rightarrow> manager" where
  "register_runtime v identity cfg launch m =
    (let ptr = length (mg_heap m);
         known = \<lparr>kq_identity = iv_database_path v, kq_config_identity = identity,
                  kq_config_path = iv_config_path v, kq_config_hash = iv_config_hash v,
                  kq_database_path = iv_database_path v, kq_database_aliases = [],
                  kq_watch_names = watch_names_of cfg\<rparr>;
         m1 = m\<lparr>mg_heap := mg_heap m @ [\<lparr>rt_view = v, rt_config = cfg, rt_config_identity = identity,
                  rt_remove_on_exit = False, rt_canceled = \<not> launch, rt_done = \<not> launch,
                  rt_phase = (if launch then Invoking else Unlaunched)\<rparr>],
               mg_instances := assoc_put (iv_id v) ptr (mg_instances m),
               mg_names := assoc_put (iv_name v) (iv_id v) (mg_names m),
               mg_known_queues := assoc_put (kq_identity known) known (mg_known_queues m)\<rparr> in
     if launch
     then m1\<lparr>mg_active_configs := assoc_put identity (iv_id v) (mg_active_configs m1),
             mg_active_databases := assoc_put (iv_database_path v) (iv_id v) (mg_active_databases m1)\<rparr>
     else m1)"

section \<open>Starting, without a registry\<close>

definition taken_names :: "manager \<Rightarrow> string list" where
  "taken_names m = map fst (mg_names m) @ map fst (mg_instances m)"

text \<open>Names and IDs of the candidates; the last argument is the next call of the ID generator.\<close>

fun prepare_candidates ::
  "host \<Rightarrow> manager \<Rightarrow> string \<Rightarrow> string list \<Rightarrow> nat \<Rightarrow> start_candidate list \<Rightarrow>
   (start_candidate \<times> string \<times> string) list result" where
  "prepare_candidates h m explicit reserved n [] = Inr []"
| "prepare_candidates h m explicit reserved n (c # cs) =
    (let name = (if explicit = [] then available_name (taken_names m @ reserved) (sc_name_base c) else explicit) in
     case available_id (h_lower h) (h_gen h) (taken_names m @ name # reserved) n of
       (Inl e, n') \<Rightarrow> Inl e
     | (Inr x, n') \<Rightarrow>
         (case prepare_candidates h m [] (x # name # reserved) n' cs of
            Inl e \<Rightarrow> Inl e
          | Inr prepared \<Rightarrow> Inr ((c, x, name) # prepared)))"

definition started_view :: "start_candidate \<Rightarrow> string \<Rightarrow> string \<Rightarrow> time \<Rightarrow> instance_view" where
  "started_view c x name now =
    \<lparr>iv_id = x, iv_name = name, iv_config_path = sc_config_path c, iv_config_hash = sc_config_hash c,
     iv_database_path = sc_database_path c, iv_state = StateRunning, iv_desired_state = [],
     iv_created_at = now, iv_started_at = now, iv_finished_at = None, iv_error = []\<rparr>"

definition known_queue_after :: "start_candidate \<Rightarrow> known_queue option \<Rightarrow> known_queue" where
  "known_queue_after c found =
    (let k0 = (case found of
                 Some k \<Rightarrow> k
               | None \<Rightarrow> \<lparr>kq_identity = sc_queue_identity c, kq_config_identity = [], kq_config_path = [],
                          kq_config_hash = [], kq_database_path = sc_queue_identity c,
                          kq_database_aliases = [], kq_watch_names = []\<rparr>);
         k = k0\<lparr>kq_config_identity := sc_config_identity c, kq_config_path := sc_config_path c,
                kq_config_hash := sc_config_hash c, kq_watch_names := map w_name (v_watches (sc_config c))\<rparr> in
     if sc_database_path c \<noteq> kq_database_path k \<and> sc_database_path c \<notin> set (kq_database_aliases k)
     then k\<lparr>kq_database_aliases := kq_database_aliases k @ [sc_database_path c]\<rparr> else k)"

definition launch_candidate ::
  "bool \<Rightarrow> time \<Rightarrow> start_candidate \<times> string \<times> string \<Rightarrow> manager \<Rightarrow> instance_view \<times> manager" where
  "launch_candidate remove_on_exit now item m =
    (case item of (c, x, name) \<Rightarrow>
      (let v = started_view c x name now;
           ptr = length (mg_heap m) in
       (v, m\<lparr>mg_heap := mg_heap m @ [\<lparr>rt_view = v, rt_config = Some (sc_config c),
               rt_config_identity = sc_config_identity c, rt_remove_on_exit = remove_on_exit,
               rt_canceled = False, rt_done = False, rt_phase = Invoking\<rparr>],
             mg_instances := assoc_put x ptr (mg_instances m),
             mg_names := assoc_put name x (mg_names m),
             mg_known_queues := assoc_put (sc_queue_identity c)
               (known_queue_after c (map_of (mg_known_queues m) (sc_queue_identity c))) (mg_known_queues m),
             mg_active_configs := assoc_put (sc_config_identity c) x (mg_active_configs m),
             mg_active_databases := assoc_put (sc_database_path c) x (mg_active_databases m)\<rparr>)))"

fun launch_candidates ::
  "bool \<Rightarrow> (nat \<Rightarrow> time) \<Rightarrow> nat \<Rightarrow> (start_candidate \<times> string \<times> string) list \<Rightarrow> manager \<Rightarrow> instance_view list \<times> manager" where
  "launch_candidates remove_on_exit now i [] m = ([], m)"
| "launch_candidates remove_on_exit now i (item # items) m =
    (case launch_candidate remove_on_exit (now i) item m of
       (v, m1) \<Rightarrow> (case launch_candidates remove_on_exit now (i + 1) items m1 of (vs, m2) \<Rightarrow> (v # vs, m2)))"

text \<open>The reservation: \<open>seen\<close> is the manager when the maps were copied, \<open>m\<close> the manager when the lock
  was taken again; \<open>None\<close> asks for another round.\<close>

definition reserve_and_launch ::
  "host \<Rightarrow> string \<Rightarrow> bool \<Rightarrow> start_candidate list \<Rightarrow> manager \<Rightarrow> manager \<Rightarrow> (instance_view list result \<times> manager) option" where
  "reserve_and_launch h explicit remove_on_exit cs seen m =
    (case h_ctx h 0 of
       Some e \<Rightarrow> Some (Inl e, m)
     | None \<Rightarrow>
    if closed_to_starts seen then Some (Inl err_shutting_down, m)
    else
      (let reservation = validate_active_candidates h (mg_active_configs seen) (mg_active_databases seen) cs in
       case h_ctx h 1 of
         Some e \<Rightarrow> Some (Inl e, m)
       | None \<Rightarrow>
      if closed_to_starts m then Some (Inl err_shutting_down, m)
      else if set (mg_active_configs seen) \<noteq> set (mg_active_configs m) \<or>
              set (mg_active_databases seen) \<noteq> set (mg_active_databases m) then None
      else
        (case reservation of
           Some e \<Rightarrow> Some (Inl e, m)
         | None \<Rightarrow>
        (case (if explicit = [] then None else map_of (mg_names m) explicit) of
           Some owner \<Rightarrow> Some (Inl (Wrapped [] err_name_in_use [T '': '', Q explicit, T '' is owned by '', T owner]), m)
         | None \<Rightarrow>
        if explicit \<noteq> [] \<and> map_of (mg_instances m) explicit \<noteq> None
        then Some (Inl (Wrapped [] err_name_in_use [T '': '', Q explicit, T '' collides with an instance ID'']), m)
        else
          (case prepare_candidates h m explicit [] 0 cs of
             Inl e \<Rightarrow> Some (Inl e, m)
           | Inr prepared \<Rightarrow>
               (case h_ctx h 2 of
                  Some e \<Rightarrow> Some (Inl e, m)
                | None \<Rightarrow>
                    (case launch_candidates remove_on_exit (h_now h) 0 prepared m of
                       (vs, m') \<Rightarrow> Some (Inr vs, m'))))))))"

text \<open>The candidates of a start: everything before the reservation. \<open>gated\<close> and \<open>gated_m\<close> are the
  surroundings and the manager once the start gate is held.\<close>

definition start_preflight ::
  "host \<Rightarrow> host \<Rightarrow> string list \<Rightarrow> string \<Rightarrow> bool \<Rightarrow> known_queue option \<Rightarrow> manager \<Rightarrow> manager \<Rightarrow>
   start_candidate list result" where
  "start_preflight h gated paths name attach expected m gated_m =
    on_error (h_ctx h 0) id
    (if closed_to_starts m then Inl err_shutting_down
     else if paths = [] then Inl (new_error ''control: at least one config path is required'')
     else if attach \<and> length paths \<noteq> 1 then Inl (new_error ''control: attached start requires exactly one config'')
     else if name \<noteq> [] \<and> length paths \<noteq> 1 then Inl (new_error ''control: a name may be supplied only for one config'')
     else if name \<noteq> [] \<and> (trim_space name \<noteq> name \<or> \<not> valid_display_name (h_alnum h) (trim_space name))
       then Inl (ErrorString [T ''control: invalid instance name '', Q name])
     else
       (case load_candidates h [] 0 paths of
          Inl e \<Rightarrow> Inl e
        | Inr cs \<Rightarrow>
       on_error (validate_database_candidates h cs) id
      (on_error (h_gate_err h) id
      (on_error (validate_database_candidates gated cs) id
      (on_error (validate_expected_queue gated cs expected) id
        (assign_known_queue_identities gated (known_queues gated_m) cs))))))"

text \<open>The guard of a start by queue, without a registry; the start itself has the queue's path alone.\<close>

definition known_queue_guard :: "known_queue \<Rightarrow> go_error option" where
  "known_queue_guard k =
    (if blank (kq_config_path k) \<or> blank (kq_config_identity k) \<or> blank (kq_identity k)
     then Some (new_error ''control: known queue config path and identity are required'') else None)"

text \<open>Attached starts are refused with a registry.\<close>

definition attach_guard :: "manager \<Rightarrow> bool \<Rightarrow> go_error option" where
  "attach_guard m attach =
    (if mg_registry m \<noteq> None \<and> attach
     then Some (new_error ''control: attached daemon runs are no longer supported; use onderzeeer test for foreground execution or onderzeeer start for a persistent instance'')
     else None)"

section \<open>Starting, with a registry\<close>

definition running_again :: "time \<Rightarrow> instance_view \<Rightarrow> instance_view" where
  "running_again now v =
    v\<lparr>iv_state := StateRunning, iv_started_at := now, iv_finished_at := None, iv_error := []\<rparr>"

text \<open>\<open>saveViews\<close> on the registry, when there is one.\<close>

definition save_views_error :: "db_failure option \<Rightarrow> nat \<Rightarrow> go_error option" where
  "save_views_error err n =
    (case err of
       Some (BeginFails e) \<Rightarrow> Some (wrapf ''control: persist lifecycle state: '' e)
     | Some (StatementFails i e) \<Rightarrow> (if i < n then Some (wrapf ''control: persist lifecycle state: '' e) else None)
     | Some (CommitFails e) \<Rightarrow> Some e
     | None \<Rightarrow> None)"

definition save_views :: "db_failure option \<Rightarrow> instance_view list \<Rightarrow> manager \<Rightarrow> go_error option \<times> manager" where
  "save_views err views m =
    (case save_views_error err (length views) of
       Some e \<Rightarrow> (Some e, m)
     | None \<Rightarrow> (None, m\<lparr>mg_registry := map_option (registry_save_views views) (mg_registry m)\<rparr>))"

definition resume_registered :: "host \<Rightarrow> nat \<Rightarrow> manager \<Rightarrow> instance_view list result \<times> manager" where
  "resume_registered h ptr m =
    (let rt = runtime_at m ptr; v0 = rt_view rt in
     if view_active v0 then (Inl (Wrapped [] err_already_active [T '': '', T (iv_name v0)]), m)
     else if rt_config rt = None
       then (Inl (ErrorString [T ''control: '', T (iv_name v0), T '' has an invalid snapshot; start it from a corrected config file'']), m)
     else
       (let v = (running_again (h_now h 0) v0)\<lparr>iv_desired_state := ''running''\<rparr> in
        case save_views (h_registry_err h) [v] m of
          (Some e, m1) \<Rightarrow> (Inl e, m1)
        | (None, m1) \<Rightarrow> (Inr [v], register_runtime v (rt_config_identity rt) (rt_config rt) True m1)))"

record registered_item =
  ri_path :: string
  ri_identity :: string
  ri_existing :: string
  ri_config :: config

fun compare_items :: "host \<Rightarrow> string \<Rightarrow> string \<Rightarrow> registered_item list \<Rightarrow> go_error option" where
  "compare_items h p identity [] = None"
| "compare_items h p identity (item # items) =
    (case same_path h identity (ri_identity item) of
       Inl e \<Rightarrow> Some e
     | Inr same \<Rightarrow>
         if same then Some (duplicate_config_path_error (ri_path item) p identity) else compare_items h p identity items)"

fun find_identity :: "host \<Rightarrow> string \<Rightarrow> (string \<times> string) list \<Rightarrow> (string \<times> string) option result" where
  "find_identity h identity [] = Inr None"
| "find_identity h identity ((known, x) # identities) =
    (case same_path h identity known of
       Inl e \<Rightarrow> Inl e
     | Inr same \<Rightarrow> if same then Inr (Some (known, x)) else find_identity h identity identities)"

definition fill_working_dirs :: "string \<Rightarrow> config \<Rightarrow> config" where
  "fill_working_dirs cwd c =
    c\<lparr>v_watches := map (\<lambda>w. w\<lparr>w_pipeline :=
        map (\<lambda>s. if c_working_dir s = [] then s\<lparr>c_working_dir := cwd\<rparr> else s) (w_pipeline w)\<rparr>) (v_watches c)\<rparr>"

definition load_item :: "host \<Rightarrow> (string \<times> string) list \<Rightarrow> nat \<Rightarrow> registered_item list \<Rightarrow> string \<Rightarrow> registered_item result" where
  "load_item h identities i items p =
    on_error (h_ctx h i) id
    (case absolute_path h p of
       Inl e \<Rightarrow> Inl e
     | Inr absolute \<Rightarrow>
    (case canonical_path h absolute of
       Inl e \<Rightarrow> Inl e
     | Inr identity \<Rightarrow>
    on_error (compare_items h p identity items) id
    (case find_identity h identity identities of
       Inl e \<Rightarrow> Inl e
     | Inr found \<Rightarrow>
    (case h_loader h absolute of
       Inl e \<Rightarrow> Inl (Wrapped [T ''control: load config '', T absolute, T '': ''] e [])
     | Inr None \<Rightarrow> Inl (ErrorString [T ''control: load config '', T absolute, T '': loader returned nil''])
     | Inr (Some cfg) \<Rightarrow>
         Inr \<lparr>ri_path = absolute, ri_identity = (case found of None \<Rightarrow> identity | Some (known, x) \<Rightarrow> known),
              ri_existing = (case found of None \<Rightarrow> [] | Some (known, x) \<Rightarrow> x),
              ri_config = fill_working_dirs (h_cwd h) (json_config cfg)\<rparr>))))"

fun load_items :: "host \<Rightarrow> (string \<times> string) list \<Rightarrow> nat \<Rightarrow> registered_item list \<Rightarrow> string list \<Rightarrow> registered_item list result" where
  "load_items h identities i items [] = Inr items"
| "load_items h identities i items (p # paths) =
    (case load_item h identities i items p of
       Inl e \<Rightarrow> Inl e
     | Inr item \<Rightarrow> load_items h identities (i + 1) (items @ [item]) paths)"

text \<open>The view of one item before it is validated, the names and IDs it reserves, and the next call of
  the ID generator.\<close>

definition item_view ::
  "host \<Rightarrow> manager \<Rightarrow> string \<Rightarrow> string list \<Rightarrow> nat \<Rightarrow> time \<Rightarrow> registered_item \<Rightarrow> (instance_view \<times> string list \<times> nat) result" where
  "item_view h m name reserved n now item =
    (if ri_existing item \<noteq> [] then
       (case map_of (mg_instances m) (ri_existing item) of
          None \<Rightarrow> Inl err_nil_runtime
        | Some ptr \<Rightarrow>
            (let previous = rt_view (runtime_at m ptr) in
             if view_active previous then Inl (Wrapped [] err_already_active [T '': '', T (iv_name previous)])
             else if name \<noteq> [] \<and> name \<noteq> iv_name previous
               then Inl (Wrapped [] err_name_in_use [T '': configuration is registered as '', T (iv_name previous)])
             else Inr (previous\<lparr>iv_config_path := ri_path item\<rparr>, reserved, n)))
     else
       (let name1 = (if name = [] then available_name (taken_names m @ reserved) (automatic_name (h_alnum h) (ri_path item))
                     else name) in
        if name \<noteq> [] \<and> map_of (mg_names m) name \<noteq> None
        then Inl (Wrapped [] err_name_in_use [T '': '', T name])
        else if name \<noteq> [] \<and> map_of (mg_instances m) name \<noteq> None
        then Inl (Wrapped [] err_name_in_use [T '': name collides with instance ID''])
        else
          (case available_id (h_lower h) (h_gen h) (taken_names m @ name1 # reserved) n of
             (Inl e, n') \<Rightarrow> Inl e
           | (Inr x, n') \<Rightarrow>
               Inr (\<lparr>iv_id = x, iv_name = name1, iv_config_path = ri_path item, iv_config_hash = [],
                     iv_database_path = join_path [mg_directory m, ''queues'', x @ ''.sqlite''],
                     iv_state = StateRunning, iv_desired_state = [], iv_created_at = now, iv_started_at = now,
                     iv_finished_at = None, iv_error = []\<rparr>, x # name1 # reserved, n'))))"

fun prepare_items ::
  "host \<Rightarrow> manager \<Rightarrow> string \<Rightarrow> string list \<Rightarrow> nat \<Rightarrow> nat \<Rightarrow> registered_item list \<Rightarrow> registration list result" where
  "prepare_items h m name reserved n i [] = Inr []"
| "prepare_items h m name reserved n i (item # items) =
    (case item_view h m name reserved n (h_now h (2 * i)) item of
       Inl e \<Rightarrow> Inl e
     | Inr (v0, reserved', n') \<Rightarrow>
    (case validate_config ((ri_config item)\<lparr>d_path := iv_database_path v0\<rparr>) of
       Inl e \<Rightarrow> Inl (Wrapped [T ''control: validate snapshot '', T (ri_path item), T '': ''] e [])
     | Inr cfg \<Rightarrow>
    (case h_fingerprint h cfg of
       Inl e \<Rightarrow> Inl e
     | Inr hash \<Rightarrow>
         (let v = (running_again (h_now h (2 * i + 1)) v0)\<lparr>iv_config_hash := hash, iv_desired_state := ''running''\<rparr> in
          case prepare_items h m name reserved' n' (i + 1) items of
            Inl e \<Rightarrow> Inl e
          | Inr gs \<Rightarrow> Inr (\<lparr>rg_view = v, rg_identity = ri_identity item, rg_config = cfg\<rparr> # gs)))))"

definition save_error :: "db_failure option \<Rightarrow> registration list \<Rightarrow> go_error option" where
  "save_error err gs =
    (case err of
       Some (BeginFails e) \<Rightarrow> Some (wrapf ''control: persist registrations: '' e)
     | Some (StatementFails i e) \<Rightarrow>
         (if i < length gs
          then Some (Wrapped [T ''control: persist instance '', T (iv_name (rg_view (gs ! i))), T '': ''] e []) else None)
     | Some (CommitFails e) \<Rightarrow> Some (wrapf ''control: commit registrations: '' e)
     | None \<Rightarrow> None)"

definition registry_commit :: "db_failure option \<Rightarrow> registration list \<Rightarrow> manager \<Rightarrow> go_error option \<times> manager" where
  "registry_commit err gs m =
    (case save_error err gs of
       Some e \<Rightarrow> (Some e, m)
     | None \<Rightarrow>
         (case mg_registry m of
            None \<Rightarrow> (None, m)
          | Some rows \<Rightarrow>
              (case registry_save gs rows of Inl e \<Rightarrow> (Some e, m) | Inr rows' \<Rightarrow> (None, m\<lparr>mg_registry := Some rows'\<rparr>))))"

definition register_all :: "registration list \<Rightarrow> manager \<Rightarrow> manager" where
  "register_all gs m = fold (\<lambda>g. register_runtime (rg_view g) (rg_identity g) (Some (rg_config g)) True) gs m"

definition identities_of :: "manager \<Rightarrow> (string \<times> string) list" where
  "identities_of m = map (\<lambda>e. (rt_config_identity (runtime_at m (snd e)), fst e)) (mg_instances m)"

definition register_items :: "host \<Rightarrow> string \<Rightarrow> registered_item list \<Rightarrow> manager \<Rightarrow> instance_view list result \<times> manager" where
  "register_items h name items m =
    (if closed_to_starts m then (Inl err_shutting_down, m)
     else
       (case prepare_items h m name [] 0 0 items of
          Inl e \<Rightarrow> (Inl e, m)
        | Inr gs \<Rightarrow>
            (case registry_commit (h_registry_err h) gs m of
               (Some e, m1) \<Rightarrow> (Inl e, m1)
             | (None, m1) \<Rightarrow> (Inr (map rg_view gs), register_all gs m1))))"

text \<open>The start of registered instances up to the end of its first locked section, where a name or ID
  resumes its instance; \<open>None\<close> goes on to load the paths, with the gate held.\<close>

definition start_registered_first ::
  "host \<Rightarrow> string list \<Rightarrow> string \<Rightarrow> manager \<Rightarrow> (instance_view list result \<times> manager) option" where
  "start_registered_first h paths name m =
    (if paths = [] then Some (Inl (new_error ''control: at least one config path is required''), m)
     else if name \<noteq> [] \<and> (length paths \<noteq> 1 \<or> \<not> valid_display_name (h_alnum h) name \<or> trim_space name \<noteq> name)
       then Some (Inl (new_error ''control: a valid instance name may be supplied only for one config''), m)
     else
       (case h_gate_err h of
          Some e \<Rightarrow> Some (Inl e, m)
        | None \<Rightarrow>
       if closed_to_starts m then Some (Inl err_shutting_down, m)
       else if length paths = 1 \<and> name = [] then
         (case resolve_locked m (hd paths) of
            Inr ptr \<Rightarrow> Some (resume_registered h ptr m)
          | Inl e \<Rightarrow> if e = err_nil_runtime \<or> errors_is ''control: ambiguous instance selector'' e then Some (Inl e, m) else None)
       else None))"

text \<open>\<open>m0\<close> is the manager whose identities the first section copied.\<close>

definition start_registered_second ::
  "host \<Rightarrow> string list \<Rightarrow> string \<Rightarrow> manager \<Rightarrow> manager \<Rightarrow> instance_view list result \<times> manager" where
  "start_registered_second h paths name m0 m =
    (case load_items h (identities_of m0) 0 [] paths of
       Inl e \<Rightarrow> (Inl e, m) | Inr items \<Rightarrow> register_items h name items m)"

definition start_registered :: "host \<Rightarrow> string list \<Rightarrow> string \<Rightarrow> manager \<Rightarrow> instance_view list result \<times> manager" where
  "start_registered h paths name m =
    (case start_registered_first h paths name m of Some r \<Rightarrow> r | None \<Rightarrow> start_registered_second h paths name m m)"

definition start_registered_queue :: "host \<Rightarrow> known_queue \<Rightarrow> manager \<Rightarrow> instance_view list result \<times> manager" where
  "start_registered_queue h known m =
    (case h_gate_err h of
       Some e \<Rightarrow> (Inl e, m)
     | None \<Rightarrow>
    if closed_to_starts m then (Inl err_shutting_down, m)
     else
       (case List.find (\<lambda>e. iv_database_path (rt_view (runtime_at m (snd e))) = kq_identity known \<and>
                           rt_config_identity (runtime_at m (snd e)) = kq_config_identity known) (mg_instances m) of
          Some (x, ptr) \<Rightarrow> resume_registered h ptr m
        | None \<Rightarrow> (Inl err_instance_not_found, m)))"

section \<open>Loading and restoring\<close>

definition row_valid :: "(nat \<Rightarrow> bool) \<Rightarrow> registry_row \<Rightarrow> bool" where
  "row_valid alnum r \<longleftrightarrow>
    valid_id (rr_id r) \<and> valid_display_name alnum (rr_name r) \<and> iv_id (rr_view r) = rr_id r \<and>
    iv_name (rr_view r) = rr_name r \<and> rr_identity r \<noteq> [] \<and>
    (iv_desired_state (rr_view r) = ''running'' \<or> iv_desired_state (rr_view r) = ''stopped'')"

definition loaded_view :: "time \<Rightarrow> go_error option \<Rightarrow> (string \<Rightarrow> string) \<Rightarrow> instance_view \<Rightarrow> instance_view" where
  "loaded_view now config_err quote v0 =
    (let v1 = (if view_active v0 then v0\<lparr>iv_state := StateExited, iv_finished_at := Some now\<rparr> else v0) in
     case config_err of
       None \<Rightarrow> v1
     | Some e \<Rightarrow> v1\<lparr>iv_state := StateFailed,
         iv_error := bounded_error (''restore configuration: '' @ error_text quote e)\<rparr>)"

definition load_row :: "(nat \<Rightarrow> bool) \<Rightarrow> (string \<Rightarrow> string) \<Rightarrow> time \<Rightarrow> registry_row \<Rightarrow> manager \<Rightarrow> manager result" where
  "load_row alnum quote now r m =
    (if \<not> row_valid alnum r then Inl (ErrorString [T ''control: invalid registered instance '', T (rr_id r)])
     else
       (case validate_config (rr_config r) of
          Inr cfg \<Rightarrow> Inr (register_runtime (loaded_view now None quote (rr_view r)) (rr_identity r) (Some cfg) False m)
        | Inl e \<Rightarrow>
            (let m1 = register_runtime (loaded_view now (Some e) quote (rr_view r)) (rr_identity r) (Some (rr_config r)) False m;
                 ptr = length (mg_heap m) in
             Inr (m1\<lparr>mg_heap := (mg_heap m1)[ptr := (runtime_at m1 ptr)\<lparr>rt_config := None\<rparr>]\<rparr>))))"

fun load_rows :: "(nat \<Rightarrow> bool) \<Rightarrow> (string \<Rightarrow> string) \<Rightarrow> (nat \<Rightarrow> time) \<Rightarrow> nat \<Rightarrow> registry_row list \<Rightarrow> manager \<Rightarrow> manager result" where
  "load_rows alnum quote now i [] m = Inr m"
| "load_rows alnum quote now i (r # rs) m =
    (case load_row alnum quote (now i) r m of Inl e \<Rightarrow> Inl e | Inr m' \<Rightarrow> load_rows alnum quote now (i + 1) rs m')"

definition empty_manager :: "nat \<Rightarrow> string \<Rightarrow> registry_row list option \<Rightarrow> manager" where
  "empty_manager retained directory rows =
    \<lparr>mg_ctx_err = None, mg_retained_instances = retained, mg_heap = [], mg_instances = [], mg_names = [],
     mg_known_queues = [], mg_active_configs = [], mg_active_databases = [], mg_shutting_down = False,
     mg_registry = rows, mg_directory = directory, mg_persistence_errs = []\<rparr>"

definition default_retained_instances :: nat where
  "default_retained_instances = 100"

text \<open>\<open>NewManager\<close>: the registry's rows are read in the order of their IDs.\<close>

record manager_options =
  mo_log_capacity :: int
  mo_log_subscriber_buffer :: int
  mo_max_log_line_bytes :: int
  mo_max_log_bytes :: int
  mo_retained_instances :: int

definition new_manager ::
  "manager_options \<Rightarrow> (nat \<Rightarrow> bool) \<Rightarrow> (string \<Rightarrow> string) \<Rightarrow> (nat \<Rightarrow> time) \<Rightarrow> string \<Rightarrow> registry_row list option \<Rightarrow> manager result" where
  "new_manager opts alnum quote now directory rows =
    (if mo_log_capacity opts < 0 then Inl (new_error ''control: log capacity cannot be negative'')
     else if mo_log_subscriber_buffer opts < 0 then Inl (new_error ''control: log subscriber buffer cannot be negative'')
     else if mo_max_log_line_bytes opts < 0 then Inl (new_error ''control: maximum log line size cannot be negative'')
     else if mo_max_log_bytes opts < 0 then Inl (new_error ''control: maximum retained log bytes cannot be negative'')
     else if mo_retained_instances opts < 0 then Inl (new_error ''control: retained instances cannot be negative'')
     else
       (let retained = (if mo_retained_instances opts = 0 then default_retained_instances else nat (mo_retained_instances opts));
            m = empty_manager retained directory rows in
        case rows of None \<Rightarrow> Inr m | Some rs \<Rightarrow> load_rows alnum quote now 0 rs m))"

definition restorable :: "manager \<Rightarrow> string \<times> nat \<Rightarrow> bool" where
  "restorable m e \<longleftrightarrow>
    (let rt = runtime_at m (snd e) in
     iv_desired_state (rt_view rt) = ''running'' \<and> \<not> view_active (rt_view rt) \<and> rt_config rt \<noteq> None)"

text \<open>The views of the pending runtimes, each with its own reading of the clock.\<close>

definition restored_views :: "host \<Rightarrow> manager \<Rightarrow> (nat \<times> instance_view) list" where
  "restored_views h m =
    map (\<lambda>(i, e). (snd e, running_again (h_now h i) (rt_view (runtime_at m (snd e)))))
      (List.enumerate 0 (filter (restorable m) (mg_instances m)))"

definition restore :: "host \<Rightarrow> manager \<Rightarrow> nat result \<times> manager" where
  "restore h m =
    (if mg_registry m = None then (Inr 0, m)
     else
       (case h_gate_err h of
          Some e \<Rightarrow> (Inl e, m)
        | None \<Rightarrow>
     if closed_to_starts m then (Inl err_shutting_down, m)
     else
       (let pending = restored_views h m in
        case save_views (h_registry_err h) (map snd pending) m of
          (Some e, m1) \<Rightarrow> (Inl e, m1)
        | (None, m1) \<Rightarrow>
            (Inr (length pending),
             fold (\<lambda>(ptr, v). register_runtime v (rt_config_identity (runtime_at m ptr)) (rt_config (runtime_at m ptr)) True)
               pending m1))))"

section \<open>Stopping and finishing\<close>

definition set_runtime :: "nat \<Rightarrow> runtime \<Rightarrow> manager \<Rightarrow> manager" where
  "set_runtime ptr rt m = m\<lparr>mg_heap := (mg_heap m)[ptr := rt]\<rparr>"

definition state_text :: "run_state \<Rightarrow> string" where
  "state_text st =
    (case st of StateRunning \<Rightarrow> ''running'' | StateStopping \<Rightarrow> ''stopping'' | StateExited \<Rightarrow> ''exited'' | StateFailed \<Rightarrow> ''failed'')"

text \<open>What a caller of \<open>Stop\<close> goes on with: an answer, or the wait for a runtime.\<close>

datatype stop_outcome =
    StopError go_error
  | StopView instance_view "go_error option"
  | StopWait nat

definition stopping :: "runtime \<Rightarrow> runtime" where
  "stopping rt =
    rt\<lparr>rt_view := (if iv_state (rt_view rt) = StateRunning then (rt_view rt)\<lparr>iv_state := StateStopping\<rparr> else rt_view rt)\<rparr>"

definition canceled :: "runtime \<Rightarrow> runtime" where
  "canceled rt = rt\<lparr>rt_canceled := True\<rparr>"

definition update_runtimes :: "(runtime \<Rightarrow> runtime) \<Rightarrow> nat list \<Rightarrow> manager \<Rightarrow> manager" where
  "update_runtimes f ptrs m = m\<lparr>mg_heap := fold (\<lambda>ptr rts. rts[ptr := f (rts ! ptr)]) ptrs (mg_heap m)\<rparr>"

text \<open>The end of the locked section of \<open>Stop\<close>; the cancellation is a step of its own, after the lock.\<close>

definition stop_runtime :: "nat \<Rightarrow> manager \<Rightarrow> stop_outcome \<times> manager" where
  "stop_runtime ptr m =
    (let rt = runtime_at m ptr; v = rt_view rt in
     if \<not> view_active v
     then (StopView v (Some (Wrapped [] err_not_active [T '': '', T (iv_name v), T '' is '', T (state_text (iv_state v))])), m)
     else (StopWait ptr, update_runtimes stopping [ptr] m))"

definition stop_cancel :: "nat \<Rightarrow> manager \<Rightarrow> manager" where
  "stop_cancel ptr m = update_runtimes canceled [ptr] m"

definition stop_request :: "go_error option \<Rightarrow> db_failure option \<Rightarrow> string \<Rightarrow> manager \<Rightarrow> stop_outcome \<times> manager" where
  "stop_request ctx_err registry_err selector m =
    (case ctx_err of
       Some e \<Rightarrow> (StopError e, m)
     | None \<Rightarrow>
    (case resolve_locked m selector of
       Inl e \<Rightarrow> (StopError e, m)
     | Inr ptr \<Rightarrow>
         (if mg_registry m = None then stop_runtime ptr m
          else if closed_to_starts m then (StopError err_shutting_down, m)
          else
            (let v = (rt_view (runtime_at m ptr))\<lparr>iv_desired_state := ''stopped''\<rparr> in
             case save_views registry_err [v] m of
               (Some e, m1) \<Rightarrow> (StopError e, m1)
             | (None, m1) \<Rightarrow>
                 (let m2 = set_runtime ptr ((runtime_at m ptr)\<lparr>rt_view := v\<rparr>) m1 in
                  if \<not> view_active v then (StopView v None, m2) else stop_runtime ptr m2)))))"

text \<open>\<open>waitForRuntime\<close> once the runtime is done.\<close>

definition wait_for_runtime :: "manager \<Rightarrow> nat \<Rightarrow> instance_view option" where
  "wait_for_runtime m ptr = (if rt_done (runtime_at m ptr) then Some (rt_view (runtime_at m ptr)) else None)"

definition runtime_ctx_err :: "manager \<Rightarrow> runtime \<Rightarrow> go_error option" where
  "runtime_ctx_err m rt =
    (if mg_ctx_err m \<noteq> None then mg_ctx_err m else if rt_canceled rt then Some err_canceled else None)"

definition sentinel_of :: "go_error option \<Rightarrow> string" where
  "sentinel_of e = (case e of Some (Sentinel s) \<Rightarrow> s | _ \<Rightarrow> [])"

text \<open>The first locked section of \<open>run\<close>: the final view, from what the runner returned.\<close>

definition final_view :: "(string \<Rightarrow> string) \<Rightarrow> go_error option \<Rightarrow> time \<Rightarrow> manager \<Rightarrow> runtime \<Rightarrow> instance_view" where
  "final_view quote err now m rt =
    (let ctx_err = runtime_ctx_err m rt;
         asked_to_stop = (iv_state (rt_view rt) = StateStopping \<or> ctx_err \<noteq> None);
         only_canceled = (\<lambda>e. ctx_err \<noteq> None \<and> cancellation_from (sentinel_of ctx_err) e);
         v = (case err of
                Some e \<Rightarrow>
                  if \<not> (asked_to_stop \<and> only_canceled e)
                  then (rt_view rt)\<lparr>iv_state := StateFailed, iv_error := bounded_error (error_text quote e)\<rparr>
                  else (rt_view rt)\<lparr>iv_state := StateExited, iv_error := []\<rparr>
              | None \<Rightarrow> (rt_view rt)\<lparr>iv_state := StateExited, iv_error := []\<rparr>) in
     v\<lparr>iv_finished_at := Some now\<rparr>)"

definition run_returned :: "(string \<Rightarrow> string) \<Rightarrow> go_error option \<Rightarrow> time \<Rightarrow> nat \<Rightarrow> manager \<Rightarrow> manager" where
  "run_returned quote err now ptr m =
    set_runtime ptr ((runtime_at m ptr)\<lparr>rt_phase := Finalizing (final_view quote err now m (runtime_at m ptr))\<rparr>) m"

definition release_owned :: "string \<Rightarrow> string \<Rightarrow> (string \<times> string) list \<Rightarrow> (string \<times> string) list" where
  "release_owned k owner active = (if map_of active k = Some owner then assoc_del k active else active)"

text \<open>The terminal instances an eviction goes through: oldest end first.\<close>

definition evicted_before :: "instance_view \<Rightarrow> instance_view \<Rightarrow> bool" where
  "evicted_before a b \<longleftrightarrow>
    (case (iv_finished_at a, iv_finished_at b) of
       (Some x, Some y) \<Rightarrow>
         if x \<noteq> y then x < y
         else if iv_created_at a \<noteq> iv_created_at b then iv_created_at a < iv_created_at b
         else string_le (iv_id a) (iv_id b)
     | _ \<Rightarrow>
         if iv_created_at a \<noteq> iv_created_at b then iv_created_at a < iv_created_at b
         else string_le (iv_id a) (iv_id b))"

fun insert_terminal :: "instance_view \<Rightarrow> instance_view list \<Rightarrow> instance_view list" where
  "insert_terminal v [] = [v]"
| "insert_terminal v (w # ws) = (if evicted_before v w then v # w # ws else w # insert_terminal v ws)"

definition drop_instance :: "instance_view \<Rightarrow> manager \<Rightarrow> manager" where
  "drop_instance v m =
    m\<lparr>mg_instances := assoc_del (iv_id v) (mg_instances m),
      mg_names := release_owned (iv_name v) (iv_id v) (mg_names m)\<rparr>"

definition trim_terminated :: "string \<Rightarrow> manager \<Rightarrow> manager" where
  "trim_terminated current m =
    (if mg_registry m \<noteq> None then m
     else
       (let terminal = filter (\<lambda>e. \<not> view_active (rt_view (runtime_at m (snd e)))) (mg_instances m);
            others = filter (\<lambda>e. fst e \<noteq> current) terminal;
            excess = length terminal - mg_retained_instances m;
            ordered = foldr insert_terminal (map (\<lambda>e. (rt_view (runtime_at m (snd e)))\<lparr>iv_id := fst e\<rparr>) others) [] in
        fold drop_instance (take excess ordered) m))"

text \<open>The second locked section of \<open>run\<close>.\<close>

definition run_published :: "db_failure option \<Rightarrow> nat \<Rightarrow> manager \<Rightarrow> manager" where
  "run_published registry_err ptr m =
    (let rt = runtime_at m ptr in
     case rt_phase rt of
       Finalizing v0 \<Rightarrow>
         (let v = v0\<lparr>iv_desired_state := iv_desired_state (rt_view rt)\<rparr>;
              m1 = set_runtime ptr (rt\<lparr>rt_view := v, rt_done := True, rt_phase := Completed\<rparr>) m;
              m2 = (if mg_registry m1 = None then m1
                    else (case save_views registry_err [v] m1 of
                            (None, m') \<Rightarrow> m'
                          | (Some e, m') \<Rightarrow> m'\<lparr>mg_persistence_errs := mg_persistence_errs m' @ [e]\<rparr>));
              m3 = m2\<lparr>mg_active_configs := release_owned (rt_config_identity rt) (iv_id v) (mg_active_configs m2),
                      mg_active_databases := release_owned (iv_database_path v) (iv_id v) (mg_active_databases m2)\<rparr> in
          if rt_remove_on_exit rt then drop_instance v m3 else trim_terminated (iv_id v) m3)
     | _ \<Rightarrow> m)"

text \<open>The locked section of \<open>Shutdown\<close>, and the cancellations after it.\<close>

definition shutdown_request :: "manager \<Rightarrow> nat list \<times> manager" where
  "shutdown_request m =
    (let waiting = filter (\<lambda>ptr. view_active (rt_view (runtime_at m ptr))) (map snd (mg_instances m)) in
     (waiting, (update_runtimes stopping waiting m)\<lparr>mg_shutting_down := True\<rparr>))"

definition shutdown_cancel :: "nat list \<Rightarrow> manager \<Rightarrow> manager" where
  "shutdown_cancel waiting m =
    (update_runtimes canceled waiting m)\<lparr>mg_ctx_err := (if mg_ctx_err m = None then Some err_canceled else mg_ctx_err m)\<rparr>"

text \<open>What \<open>Shutdown\<close> answers once every runtime it waits for is done.\<close>

definition shutdown_answer :: "go_error option \<Rightarrow> manager \<Rightarrow> go_error option" where
  "shutdown_answer close_err m =
    (if mg_registry m = None then None else errors_join (map Some (mg_persistence_errs m) @ [close_err]))"

end
