(* ===== verification/ManagerInv.thy ===== *)
theory ManagerInv
  imports ManagerCalls
begin

text \<open>
  The invariant of a supervisor: its maps agree with its runtimes, a runtime's state agrees with the
  place its goroutine is at, and every active runtime owns its configuration and its database.
\<close>

section \<open>Maps\<close>

lemma map_of_put [simp]: "map_of (assoc_put k v m) = (map_of m)(k \<mapsto> v)"
proof -
  have "map_of (filter (\<lambda>e. fst e \<noteq> k) m) x = (if x = k then None else map_of m x)" for x
    by (induction m) auto
  then show ?thesis by (auto simp: assoc_put_def fun_eq_iff)
qed

lemma map_of_del [simp]: "map_of (assoc_del k m) = (map_of m)(k := None)"
  by (induction m) (auto simp: assoc_del_def)

lemma distinct_put: "distinct (map fst m) \<Longrightarrow> distinct (map fst (assoc_put k v m))"
  by (auto simp: assoc_put_def distinct_map_filter)

lemma distinct_del: "distinct (map fst m) \<Longrightarrow> distinct (map fst (assoc_del k m))"
  by (simp add: assoc_del_def distinct_map_filter)

lemma map_of_release: "map_of (release_owned k x m) = (if map_of m k = Some x then (map_of m)(k := None) else map_of m)"
  by (simp add: release_owned_def)

lemma in_keys: "k \<in> set (map fst m) \<longleftrightarrow> map_of m k \<noteq> None"
  by (simp add: map_of_eq_None_iff)

section \<open>The invariant\<close>

abbreviation inst_of :: "manager \<Rightarrow> string \<Rightarrow> nat option" where
  "inst_of m \<equiv> map_of (mg_instances m)"

abbreviation rt_active :: "runtime \<Rightarrow> bool" where
  "rt_active rt \<equiv> view_active (rt_view rt)"

text \<open>What identifies a runtime and never changes.\<close>

definition rt_key :: "runtime \<Rightarrow> string \<times> string \<times> string \<times> string" where
  "rt_key rt = (iv_id (rt_view rt), iv_name (rt_view rt), iv_database_path (rt_view rt), rt_config_identity rt)"

definition catalog_ok :: "manager \<Rightarrow> bool" where
  "catalog_ok m \<longleftrightarrow> distinct (map fst (mg_instances m)) \<and>
    (\<forall>x ptr. inst_of m x = Some ptr \<longrightarrow>
       ptr < length (mg_heap m) \<and> iv_id (rt_view (runtime_at m ptr)) = x \<and>
       map_of (mg_names m) (iv_name (rt_view (runtime_at m ptr))) = Some x \<and> map_of (mg_names m) x = None) \<and>
    (\<forall>n x. map_of (mg_names m) n = Some x \<longrightarrow>
       (\<exists>ptr. inst_of m x = Some ptr \<and> iv_name (rt_view (runtime_at m ptr)) = n))"

definition owners_match :: "(runtime \<Rightarrow> string) \<Rightarrow> (string \<times> string) list \<Rightarrow> manager \<Rightarrow> bool" where
  "owners_match key active m \<longleftrightarrow>
    (\<forall>ptr < length (mg_heap m). rt_active (runtime_at m ptr) \<longrightarrow>
       map_of active (key (runtime_at m ptr)) = Some (iv_id (rt_view (runtime_at m ptr)))) \<and>
    (\<forall>k x. map_of active k = Some x \<longrightarrow>
       (\<exists>ptr < length (mg_heap m). rt_active (runtime_at m ptr) \<and> key (runtime_at m ptr) = k \<and>
          iv_id (rt_view (runtime_at m ptr)) = x))"

abbreviation database_of :: "runtime \<Rightarrow> string" where
  "database_of rt \<equiv> iv_database_path (rt_view rt)"

definition active_listed :: "manager \<Rightarrow> bool" where
  "active_listed m \<longleftrightarrow>
    (\<forall>ptr < length (mg_heap m). rt_active (runtime_at m ptr) \<longrightarrow>
       inst_of m (iv_id (rt_view (runtime_at m ptr))) = Some ptr)"

fun phase_ok :: "runtime \<Rightarrow> bool" where
  "phase_ok rt \<longleftrightarrow>
    (case rt_phase rt of
       Unlaunched \<Rightarrow> \<not> rt_active rt \<and> rt_done rt
     | Invoking \<Rightarrow> rt_active rt \<and> \<not> rt_done rt
     | Finalizing v \<Rightarrow> rt_active rt \<and> \<not> rt_done rt \<and> \<not> view_active v \<and> rt_key (rt\<lparr>rt_view := v\<rparr>) = rt_key rt
     | Completed \<Rightarrow> \<not> rt_active rt \<and> rt_done rt)"

declare phase_ok.simps [simp del]

definition queue_file :: "manager \<Rightarrow> string \<Rightarrow> string" where
  "queue_file m x = join_path [mg_directory m, ''queues'', x @ ''.sqlite'']"

text \<open>With a registry, instances are never dropped, and each has its own configuration and queue file.\<close>

definition durable_ok :: "manager \<Rightarrow> bool" where
  "durable_ok m \<longleftrightarrow> is_abs (mg_directory m) \<and>
    (\<forall>x ptr. inst_of m x = Some ptr \<longrightarrow> valid_id x) \<and>
    (\<forall>rt \<in> set (mg_heap m). \<not> rt_remove_on_exit rt) \<and>
    (\<forall>x ptr. inst_of m x = Some ptr \<longrightarrow> database_of (runtime_at m ptr) = queue_file m x) \<and>
    (\<forall>x y p q. inst_of m x = Some p \<and> inst_of m y = Some q \<and>
       rt_config_identity (runtime_at m p) = rt_config_identity (runtime_at m q) \<longrightarrow> x = y)"

definition manager_inv :: "manager \<Rightarrow> bool" where
  "manager_inv m \<longleftrightarrow> catalog_ok m \<and> active_listed m \<and> (\<forall>rt \<in> set (mg_heap m). phase_ok rt) \<and>
    owners_match rt_config_identity (mg_active_configs m) m \<and>
    owners_match database_of (mg_active_databases m) m \<and>
    (mg_registry m \<noteq> None \<longrightarrow> durable_ok m)"

lemma runtime_in_heap: "ptr < length (mg_heap m) \<Longrightarrow> runtime_at m ptr \<in> set (mg_heap m)"
  by (simp add: runtime_at_def)

lemma catalogD:
  assumes "catalog_ok m" and "inst_of m x = Some p"
  shows "p < length (mg_heap m)" and "iv_id (rt_view (runtime_at m p)) = x"
    and "map_of (mg_names m) (iv_name (rt_view (runtime_at m p))) = Some x" and "map_of (mg_names m) x = None"
  using assms unfolding catalog_ok_def by blast+

lemma catalog_name:
  assumes "catalog_ok m" and "map_of (mg_names m) n = Some x"
  obtains p where "inst_of m x = Some p" "iv_name (rt_view (runtime_at m p)) = n"
  using assms unfolding catalog_ok_def by blast

lemma owners_matchD:
  assumes "owners_match key active m" and "p < length (mg_heap m)" and "rt_active (runtime_at m p)"
  shows "map_of active (key (runtime_at m p)) = Some (iv_id (rt_view (runtime_at m p)))"
  using assms unfolding owners_match_def by blast

lemma owners_matchE:
  assumes "owners_match key active m" and "map_of active k = Some x"
  obtains p where "p < length (mg_heap m)" "rt_active (runtime_at m p)" "key (runtime_at m p) = k"
    "iv_id (rt_view (runtime_at m p)) = x"
  using assms unfolding owners_match_def by blast

text \<open>Two active runtimes with one configuration, or one database, are the same runtime.\<close>

lemma owner_unique:
  assumes "owners_match key active m" and "active_listed m" and "p < length (mg_heap m)" "q < length (mg_heap m)"
    and "rt_active (runtime_at m p)" "rt_active (runtime_at m q)"
    and "key (runtime_at m p) = key (runtime_at m q)"
  shows "p = q"
proof -
  have "Some (iv_id (rt_view (runtime_at m p))) = Some (iv_id (rt_view (runtime_at m q)))"
    using assms by (metis owners_match_def)
  then show ?thesis using assms by (metis active_listed_def option.inject)
qed

section \<open>Updates in place\<close>

text \<open>A change of one runtime that keeps its key and its activity keeps the invariant.\<close>

lemma runtime_at_set: "runtime_at (set_runtime p rt m) q = (if q = p \<and> p < length (mg_heap m) then rt else runtime_at m q)"
  by (auto simp: runtime_at_def set_runtime_def nth_list_update list_update_beyond)

lemma set_runtime_simps [simp]:
  "length (mg_heap (set_runtime p rt m)) = length (mg_heap m)" "mg_instances (set_runtime p rt m) = mg_instances m"
  "mg_names (set_runtime p rt m) = mg_names m" "mg_active_configs (set_runtime p rt m) = mg_active_configs m"
  "mg_active_databases (set_runtime p rt m) = mg_active_databases m" "mg_registry (set_runtime p rt m) = mg_registry m"
  "mg_directory (set_runtime p rt m) = mg_directory m" "mg_shutting_down (set_runtime p rt m) = mg_shutting_down m"
  "mg_ctx_err (set_runtime p rt m) = mg_ctx_err m"
  "mg_retained_instances (set_runtime p rt m) = mg_retained_instances m"
  by (simp_all add: set_runtime_def)

lemma key_parts:
  "rt_key a = rt_key b \<Longrightarrow> iv_id (rt_view a) = iv_id (rt_view b) \<and> iv_name (rt_view a) = iv_name (rt_view b) \<and>
    database_of a = database_of b \<and> rt_config_identity a = rt_config_identity b"
  by (simp add: rt_key_def)

text \<open>Two managers whose runtimes have the same keys and whose maps are the same.\<close>

definition same_catalog :: "manager \<Rightarrow> manager \<Rightarrow> bool" where
  "same_catalog m m' \<longleftrightarrow> mg_instances m' = mg_instances m \<and> mg_names m' = mg_names m \<and>
    mg_directory m' = mg_directory m \<and> (mg_registry m' = None \<longleftrightarrow> mg_registry m = None) \<and>
    length (mg_heap m') = length (mg_heap m) \<and>
    (\<forall>p < length (mg_heap m). rt_key (runtime_at m' p) = rt_key (runtime_at m p) \<and>
       rt_remove_on_exit (runtime_at m' p) = rt_remove_on_exit (runtime_at m p))"

lemma same_catalog_refl: "same_catalog m m"
  by (simp add: same_catalog_def)

lemma same_catalog_trans: "same_catalog a b \<Longrightarrow> same_catalog b c \<Longrightarrow> same_catalog a c"
  by (simp add: same_catalog_def)

lemma same_catalog_ok:
  assumes "same_catalog m m'" and "catalog_ok m"
  shows "catalog_ok m'"
proof -
  have len: "length (mg_heap m') = length (mg_heap m)" and eqs: "mg_instances m' = mg_instances m" "mg_names m' = mg_names m"
    using assms(1) by (auto simp: same_catalog_def)
  note bound = catalogD(1)[OF assms(2)]
  have parts: "iv_id (rt_view (runtime_at m' p)) = iv_id (rt_view (runtime_at m p))"
      "iv_name (rt_view (runtime_at m' p)) = iv_name (rt_view (runtime_at m p))" if "inst_of m x = Some p" for x p
    using assms(1) bound[OF that] key_parts[of "runtime_at m' p" "runtime_at m p"] by (simp_all add: same_catalog_def)
  show ?thesis
    unfolding catalog_ok_def eqs len
  proof (intro conjI allI impI)
    show "distinct (map fst (mg_instances m))" using assms(2) by (simp add: catalog_ok_def)
    fix x p assume x: "inst_of m x = Some p"
    with assms(2) show "p < length (mg_heap m)" "iv_id (rt_view (runtime_at m' p)) = x"
      "map_of (mg_names m) (iv_name (rt_view (runtime_at m' p))) = Some x" "map_of (mg_names m) x = None"
      by (simp_all add: catalog_ok_def parts[OF x])
  next
    fix n x assume n: "map_of (mg_names m) n = Some x"
    obtain p where "inst_of m x = Some p" "iv_name (rt_view (runtime_at m p)) = n"
      by (rule catalog_name[OF assms(2) n])
    then show "\<exists>p. inst_of m x = Some p \<and> iv_name (rt_view (runtime_at m' p)) = n" by (auto simp: parts)
  qed
qed

lemma same_catalog_durable:
  assumes "same_catalog m m'" and "catalog_ok m" and "durable_ok m"
  shows "durable_ok m'"
proof -
  have eqs: "mg_instances m' = mg_instances m" "mg_directory m' = mg_directory m" "length (mg_heap m') = length (mg_heap m)"
    using assms(1) by (auto simp: same_catalog_def)
  note bound = catalogD(1)[OF assms(2)]
  have parts: "database_of (runtime_at m' p) = database_of (runtime_at m p)"
      "rt_config_identity (runtime_at m' p) = rt_config_identity (runtime_at m p)" if "inst_of m x = Some p" for x p
    using assms(1) bound[OF that] key_parts[of "runtime_at m' p" "runtime_at m p"] by (simp_all add: same_catalog_def)
  have "\<not> rt_remove_on_exit rt" if rt: "rt \<in> set (mg_heap m')" for rt
  proof -
    from rt obtain p where p: "p < length (mg_heap m)" "rt = runtime_at m' p"
      using eqs(3) by (auto simp: in_set_conv_nth runtime_at_def)
    then have "rt_remove_on_exit rt = rt_remove_on_exit (runtime_at m p)" using assms(1) by (simp add: same_catalog_def)
    then show ?thesis using assms(3) runtime_in_heap[OF p(1)] by (simp add: durable_ok_def)
  qed
  moreover have "database_of (runtime_at m' p) = queue_file m' x" if x: "inst_of m' x = Some p" for x p
    using assms(3) x parts(1)[of x p] by (simp add: durable_ok_def queue_file_def eqs)
  moreover have "x = y" if "inst_of m' x = Some p" "inst_of m' y = Some q"
    "rt_config_identity (runtime_at m' p) = rt_config_identity (runtime_at m' q)" for x y p q
    using assms(3) that parts(2)[of x p] parts(2)[of y q] unfolding durable_ok_def eqs by metis
  moreover have "is_abs (mg_directory m') \<and> (\<forall>x p. inst_of m' x = Some p \<longrightarrow> valid_id x)"
    using assms(3) unfolding durable_ok_def eqs by blast
  ultimately show ?thesis unfolding durable_ok_def by blast
qed

lemma owners_match_cong:
  assumes "length (mg_heap m') = length (mg_heap m)"
    and "\<And>p. p < length (mg_heap m) \<Longrightarrow> rt_active (runtime_at m' p) = rt_active (runtime_at m p) \<and>
      iv_id (rt_view (runtime_at m' p)) = iv_id (rt_view (runtime_at m p)) \<and> key (runtime_at m' p) = key (runtime_at m p)"
    and "owners_match key active m"
  shows "owners_match key active m'"
  unfolding owners_match_def assms(1)
proof (intro conjI allI impI)
  fix p assume p: "p < length (mg_heap m)" and "rt_active (runtime_at m' p)"
  then show "map_of active (key (runtime_at m' p)) = Some (iv_id (rt_view (runtime_at m' p)))"
    using assms(2)[OF p] assms(3) by (simp add: owners_match_def)
next
  fix k x assume k: "map_of active k = Some x"
  obtain p where p: "p < length (mg_heap m)" "rt_active (runtime_at m p)" "key (runtime_at m p) = k"
    "iv_id (rt_view (runtime_at m p)) = x" by (rule owners_matchE[OF assms(3) k])
  then show "\<exists>p<length (mg_heap m). rt_active (runtime_at m' p) \<and> key (runtime_at m' p) = k \<and> iv_id (rt_view (runtime_at m' p)) = x"
    using assms(2)[OF p(1)] by (intro exI[of _ p]) simp
qed

lemma same_activity_inv:
  assumes inv: "manager_inv m" and cat: "same_catalog m m'"
    and act: "\<And>p. p < length (mg_heap m) \<Longrightarrow> rt_active (runtime_at m' p) = rt_active (runtime_at m p)"
    and maps: "mg_active_configs m' = mg_active_configs m" "mg_active_databases m' = mg_active_databases m"
    and phases: "\<forall>rt \<in> set (mg_heap m'). phase_ok rt"
  shows "manager_inv m'"
proof -
  have len: "length (mg_heap m') = length (mg_heap m)" and eqs: "mg_instances m' = mg_instances m"
    "(mg_registry m' = None) = (mg_registry m = None)"
    using cat by (auto simp: same_catalog_def)
  have parts: "iv_id (rt_view (runtime_at m' p)) = iv_id (rt_view (runtime_at m p))"
      "database_of (runtime_at m' p) = database_of (runtime_at m p)"
      "rt_config_identity (runtime_at m' p) = rt_config_identity (runtime_at m p)" if "p < length (mg_heap m)" for p
    using cat that key_parts[of "runtime_at m' p" "runtime_at m p"] by (simp_all add: same_catalog_def)
  have "active_listed m'"
    using inv act parts(1) by (simp add: manager_inv_def active_listed_def len eqs)
  moreover have "owners_match rt_config_identity (mg_active_configs m') m'"
    by (rule owners_match_cong[OF len]) (use inv act parts maps in \<open>simp_all add: manager_inv_def\<close>)
  moreover have "owners_match database_of (mg_active_databases m') m'"
    by (rule owners_match_cong[OF len]) (use inv act parts maps in \<open>simp_all add: manager_inv_def\<close>)
  ultimately show ?thesis
    using inv phases same_catalog_ok[OF cat] same_catalog_durable[OF cat] eqs(2) by (auto simp: manager_inv_def)
qed

section \<open>Stopping, finishing and shutting down\<close>

lemma heap_forall: "(\<forall>rt \<in> set (mg_heap m). P rt) \<longleftrightarrow> (\<forall>p < length (mg_heap m). P (runtime_at m p))"
  by (auto simp: runtime_at_def all_set_conv_all_nth)

lemma save_views_registry:
  "save_views err views m = (r, m') \<Longrightarrow> \<exists>rows. m' = m\<lparr>mg_registry := rows\<rparr> \<and> (rows = None \<longleftrightarrow> mg_registry m = None)"
proof -
  assume s: "save_views err views m = (r, m')"
  show ?thesis
  proof (cases "save_views_error err (length views)")
    case None
    with s show ?thesis by (auto simp: save_views_def)
  next
    case (Some e)
    with s have "m' = m\<lparr>mg_registry := mg_registry m\<rparr>" by (simp add: save_views_def)
    then show ?thesis by blast
  qed
qed

lemma manager_inv_rows: "manager_inv m \<Longrightarrow> (rows = None \<longleftrightarrow> mg_registry m = None) \<Longrightarrow> manager_inv (m\<lparr>mg_registry := rows\<rparr>)"
  by (rule same_activity_inv) (auto simp: same_catalog_def runtime_at_def manager_inv_def)

lemma save_views_inv: "manager_inv m \<Longrightarrow> save_views err views m = (r, m') \<Longrightarrow> manager_inv m'"
  using save_views_registry manager_inv_rows by metis

text \<open>A new state of one runtime that keeps its key, activity and phase.\<close>

lemma set_runtime_inv:
  assumes "manager_inv m" and "rt_key rt = rt_key (runtime_at m p)"
    and "rt_active rt = rt_active (runtime_at m p)" and "phase_ok rt"
    and "rt_remove_on_exit rt = rt_remove_on_exit (runtime_at m p)"
  shows "manager_inv (set_runtime p rt m)" and "same_catalog m (set_runtime p rt m)"
proof -
  show cat: "same_catalog m (set_runtime p rt m)" using assms by (simp add: same_catalog_def runtime_at_set)
  have "phase_ok x" if "x \<in> set (mg_heap (set_runtime p rt m))" for x
    using that assms(1,4) set_update_subset_insert[of "mg_heap m" p rt]
    by (auto simp: set_runtime_def manager_inv_def)
  then show "manager_inv (set_runtime p rt m)"
    by (intro same_activity_inv[OF assms(1) cat]) (use assms in \<open>auto simp: runtime_at_set\<close>)
qed

lemma final_view_facts:
  "iv_id (final_view quote err now m rt) = iv_id (rt_view rt) \<and> iv_name (final_view quote err now m rt) = iv_name (rt_view rt) \<and>
   iv_database_path (final_view quote err now m rt) = iv_database_path (rt_view rt) \<and>
   \<not> view_active (final_view quote err now m rt) \<and> iv_finished_at (final_view quote err now m rt) = Some now"
  by (auto simp: final_view_def Let_def view_active_def split: option.splits)

lemma run_returned_inv:
  assumes "manager_inv m" and "p < length (mg_heap m)" and "rt_phase (runtime_at m p) = Invoking"
  shows "manager_inv (run_returned quote err now p m)" and "same_catalog m (run_returned quote err now p m)"
proof -
  let ?rt = "(runtime_at m p)\<lparr>rt_phase := Finalizing (final_view quote err now m (runtime_at m p))\<rparr>"
  have "phase_ok (runtime_at m p)" using assms runtime_in_heap by (auto simp: manager_inv_def)
  then have "phase_ok ?rt"
    using assms(3) final_view_facts[of quote err now m "runtime_at m p"] by (simp add: phase_ok.simps rt_key_def)
  then have "manager_inv (set_runtime p ?rt m) \<and> same_catalog m (set_runtime p ?rt m)"
    using set_runtime_inv[of m ?rt p] assms(1) by (simp add: rt_key_def)
  then show "manager_inv (run_returned quote err now p m)" "same_catalog m (run_returned quote err now p m)"
    by (simp_all add: run_returned_def)
qed

lemma view_state_active:
  "view_active (v\<lparr>iv_state := StateStopping\<rparr>)" "view_active (v\<lparr>iv_desired_state := d\<rparr>) = view_active v"
  by (simp_all add: view_active_def)

text \<open>A change of some runtimes that leaves what identifies them and where they are.\<close>

definition harmless :: "(runtime \<Rightarrow> runtime) \<Rightarrow> bool" where
  "harmless f \<longleftrightarrow> (\<forall>rt. f (f rt) = f rt \<and> rt_key (f rt) = rt_key rt \<and> rt_active (f rt) = rt_active rt \<and>
     rt_remove_on_exit (f rt) = rt_remove_on_exit rt \<and> (phase_ok rt \<longrightarrow> phase_ok (f rt)))"

lemma harmless_stopping: "harmless stopping"
  by (auto simp: harmless_def stopping_def rt_key_def view_active_def phase_ok.simps split: run_phase.splits)

lemma harmless_canceled: "harmless canceled"
  by (auto simp: harmless_def canceled_def rt_key_def phase_ok.simps split: run_phase.splits)

lemma fold_update:
  assumes "\<And>a. f (f a) = f a" and "\<forall>p \<in> set ps. p < length xs"
  shows "length (fold (\<lambda>p xs. xs[p := f (xs ! p)]) ps xs) = length xs \<and>
    (\<forall>q < length xs. fold (\<lambda>p xs. xs[p := f (xs ! p)]) ps xs ! q = (if q \<in> set ps then f (xs ! q) else xs ! q))"
  using assms(2)
proof (induction ps arbitrary: xs)
  case (Cons p ps)
  then show ?case using Cons.IH[of "xs[p := f (xs ! p)]"] assms(1) by (auto simp: nth_list_update)
qed simp

lemma update_runtimes_simps [simp]:
  "mg_instances (update_runtimes f ps m) = mg_instances m" "mg_names (update_runtimes f ps m) = mg_names m"
  "mg_active_configs (update_runtimes f ps m) = mg_active_configs m"
  "mg_active_databases (update_runtimes f ps m) = mg_active_databases m"
  "mg_registry (update_runtimes f ps m) = mg_registry m" "mg_directory (update_runtimes f ps m) = mg_directory m"
  by (simp_all add: update_runtimes_def)

lemma update_runtimes_inv:
  assumes inv: "manager_inv m" and f: "harmless f" and ps: "\<forall>p \<in> set ps. p < length (mg_heap m)"
  shows "manager_inv (update_runtimes f ps m)" and "same_catalog m (update_runtimes f ps m)"
proof -
  let ?m = "update_runtimes f ps m"
  have "f (f a) = f a" for a using f by (simp add: harmless_def)
  from fold_update[of f, OF this ps] have len: "length (mg_heap ?m) = length (mg_heap m)"
    and each: "\<forall>q < length (mg_heap m). runtime_at ?m q = (if q \<in> set ps then f (runtime_at m q) else runtime_at m q)"
    by (simp_all add: update_runtimes_def runtime_at_def)
  show same: "same_catalog m ?m" using len each f by (simp add: same_catalog_def harmless_def)
  have "\<forall>rt \<in> set (mg_heap ?m). phase_ok rt" using inv len each f by (simp add: heap_forall manager_inv_def harmless_def)
  then show "manager_inv ?m" by (intro same_activity_inv[OF inv same]) (use each f in \<open>simp_all add: harmless_def\<close>)
qed

lemma desired_inv:
  assumes "manager_inv m" and "p < length (mg_heap m)"
  shows "manager_inv (set_runtime p ((runtime_at m p)\<lparr>rt_view := (rt_view (runtime_at m p))\<lparr>iv_desired_state := d\<rparr>\<rparr>) m)"
    and "same_catalog m (set_runtime p ((runtime_at m p)\<lparr>rt_view := (rt_view (runtime_at m p))\<lparr>iv_desired_state := d\<rparr>\<rparr>) m)"
proof -
  let ?rt = "(runtime_at m p)\<lparr>rt_view := (rt_view (runtime_at m p))\<lparr>iv_desired_state := d\<rparr>\<rparr>"
  have "phase_ok (runtime_at m p)" using assms(1) runtime_in_heap[OF assms(2)] by (simp add: manager_inv_def)
  then have "phase_ok ?rt"
    by (cases "rt_phase (runtime_at m p)") (simp_all add: phase_ok.simps rt_key_def view_state_active)
  then show "manager_inv (set_runtime p ?rt m)" "same_catalog m (set_runtime p ?rt m)"
    using set_runtime_inv[of m ?rt p] assms(1) by (simp_all add: rt_key_def view_state_active)
qed

lemma resolve_in_catalog:
  assumes "catalog_ok m" and "resolve_locked m selector = Inr p"
  shows "\<exists>x. inst_of m x = Some p"
proof (cases "map_of (mg_names m) (trim_space selector)")
  case (Some x)
  then show ?thesis
    using assms(2) by (auto simp: resolve_locked_def Let_def split: if_splits option.splits)
next
  case None
  then have "\<exists>x. filter (\<lambda>e. prefix (trim_space selector) (fst e)) (mg_instances m) = [(x, p)]"
    using assms(2) by (auto simp: resolve_locked_def Let_def split: if_splits list.splits prod.splits)
  then obtain x where found: "filter (\<lambda>e. prefix (trim_space selector) (fst e)) (mg_instances m) = [(x, p)]" by blast
  have "(x, p) \<in> set (filter (\<lambda>e. prefix (trim_space selector) (fst e)) (mg_instances m))" unfolding found by simp
  then have "(x, p) \<in> set (mg_instances m)" by simp
  then show ?thesis using assms(1) by (intro exI[of _ x]) (simp add: catalog_ok_def)
qed

lemma save_views_same:
  assumes "save_views err views m = (r, m')"
  shows "mg_heap m' = mg_heap m" and "same_catalog m m'"
  using save_views_registry[OF assms] by (auto simp: same_catalog_def runtime_at_def)

lemma stop_runtime_inv:
  assumes "manager_inv m" and "p < length (mg_heap m)"
  shows "manager_inv (snd (stop_runtime p m))" and "same_catalog m (snd (stop_runtime p m))"
  using update_runtimes_inv[OF assms(1) harmless_stopping, of "[p]"] assms
  by (simp_all add: stop_runtime_def Let_def same_catalog_refl)

lemma stop_cancel_inv:
  assumes "manager_inv m" and "p < length (mg_heap m)"
  shows "manager_inv (stop_cancel p m)" and "same_catalog m (stop_cancel p m)"
  using update_runtimes_inv[OF assms(1) harmless_canceled, of "[p]"] assms(2) by (simp_all add: stop_cancel_def)

text \<open>The four ways through \<open>Stop\<close>.\<close>

lemma stop_request_cases:
  assumes "stop_request ctx_err registry_err selector m = (r, m')"
  obtains (refused) "m' = m" "\<exists>e. r = StopError e"
  | (plain) p where "resolve_locked m selector = Inr p" "mg_registry m = None" "(r, m') = stop_runtime p m"
  | (unsaved) p e where "resolve_locked m selector = Inr p" "mg_registry m \<noteq> None" "r = StopError e" "m' = m"
  | (saved) p m1 where "resolve_locked m selector = Inr p" "mg_registry m \<noteq> None"
      "save_views registry_err [(rt_view (runtime_at m p))\<lparr>iv_desired_state := ''stopped''\<rparr>] m = (None, m1)"
      "\<not> closed_to_starts m"
      "(r, m') = (if rt_active (runtime_at m p)
        then stop_runtime p (set_runtime p ((runtime_at m p)\<lparr>rt_view := (rt_view (runtime_at m p))\<lparr>iv_desired_state := ''stopped''\<rparr>\<rparr>) m1)
        else (StopView ((rt_view (runtime_at m p))\<lparr>iv_desired_state := ''stopped''\<rparr>) None,
              set_runtime p ((runtime_at m p)\<lparr>rt_view := (rt_view (runtime_at m p))\<lparr>iv_desired_state := ''stopped''\<rparr>\<rparr>) m1))"
proof (cases "ctx_err = None \<and> (\<exists>p. resolve_locked m selector = Inr p)")
  case False
  with assms show ?thesis by (intro refused) (auto simp: stop_request_def split: option.splits sum.splits)
next
  case True
  then obtain p where ok: "ctx_err = None" and p: "resolve_locked m selector = Inr p" by blast
  note eq = assms[unfolded stop_request_def ok p, simplified]
  show ?thesis
  proof (cases "mg_registry m = None")
    case True
    with eq show ?thesis by (intro plain[OF p True]) simp
  next
    case registered: False
    let ?v = "(rt_view (runtime_at m p))\<lparr>iv_desired_state := ''stopped''\<rparr>"
    obtain e m1 where save: "save_views registry_err [?v] m = (e, m1)" by force
    show ?thesis
    proof (cases "closed_to_starts m")
      case True
      with eq registered show ?thesis by (intro refused) auto
    next
      case False
      show ?thesis
      proof (cases e)
        case (Some err)
        have "m1 = m" using save Some by (auto simp: save_views_def split: option.splits)
        then show ?thesis using eq registered False save Some by (intro unsaved[OF p registered, of err]) auto
      next
        case None
        show ?thesis
          by (rule saved[OF p registered save[unfolded None] False])
            (use eq registered False save None in \<open>auto simp: Let_def view_state_active split: if_splits\<close>)
      qed
    qed
  qed
qed

lemma stop_request_inv:
  assumes inv: "manager_inv m" and stop: "stop_request ctx_err registry_err selector m = (r, m')"
  shows "manager_inv m' \<and> same_catalog m m'"
proof -
  have cat: "catalog_ok m" using inv by (simp add: manager_inv_def)
  have bound: "p < length (mg_heap m)" if "resolve_locked m selector = Inr p" for p
    using resolve_in_catalog[OF cat that] catalogD(1)[OF cat] by blast
  from stop show ?thesis
  proof (cases rule: stop_request_cases)
    case (plain p)
    with stop_runtime_inv[OF inv bound[OF plain(1)]] show ?thesis by (metis snd_conv)
  next
    case (saved p m1)
    note m1 = save_views_inv[OF inv saved(3)] save_views_same[OF saved(3)]
    have rt: "runtime_at m1 p = runtime_at m p" using m1(2) by (simp add: runtime_at_def)
    have len: "p < length (mg_heap m1)" using bound[OF saved(1)] m1(2) by simp
    note m2 = desired_inv[OF m1(1) len, of "''stopped''", unfolded rt]
    let ?m2 = "set_runtime p ((runtime_at m p)\<lparr>rt_view := (rt_view (runtime_at m p))\<lparr>iv_desired_state := ''stopped''\<rparr>\<rparr>) m1"
    have "p < length (mg_heap ?m2)" using len by simp
    note m3 = stop_runtime_inv[OF m2(1) this]
    have "m' = snd (stop_runtime p ?m2) \<or> m' = ?m2" using arg_cong[OF saved(5), of snd] by (simp split: if_splits)
    then show ?thesis
    proof
      assume eq: "m' = snd (stop_runtime p ?m2)"
      show ?thesis unfolding eq using m3 same_catalog_trans[OF same_catalog_trans[OF m1(3) m2(2)] m3(2)] by blast
    next
      assume eq: "m' = ?m2"
      show ?thesis unfolding eq using m2 same_catalog_trans[OF m1(3) m2(2)] by blast
    qed
  qed (use inv same_catalog_refl in simp_all)
qed

end
