(* ===== verification/ManagerFinish.thy ===== *)
theory ManagerFinish
  imports ManagerInv "HOL-Library.Multiset"
begin

text \<open>
  The end of a runtime and of the manager: shutdown, the second locked section of a runtime's goroutine,
  and the eviction of terminal instances keep the invariant; an eviction keeps the retention limit.
\<close>

section \<open>Shutdown\<close>

lemma listed_in_heap: "catalog_ok m \<Longrightarrow> p \<in> set (map snd (mg_instances m)) \<Longrightarrow> p < length (mg_heap m)"
proof -
  assume cat: "catalog_ok m" and "p \<in> set (map snd (mg_instances m))"
  then obtain x where "(x, p) \<in> set (mg_instances m)" by auto
  then have "inst_of m x = Some p" using cat by (simp add: catalog_ok_def)
  then show ?thesis by (rule catalogD(1)[OF cat])
qed

text \<open>The manager's other fields do not matter for the invariant.\<close>

lemma manager_inv_flags:
  "manager_inv (m\<lparr>mg_shutting_down := b\<rparr>) = manager_inv m" "manager_inv (m\<lparr>mg_ctx_err := c\<rparr>) = manager_inv m"
  "same_catalog a (m\<lparr>mg_shutting_down := b\<rparr>) = same_catalog a m" "same_catalog a (m\<lparr>mg_ctx_err := c\<rparr>) = same_catalog a m"
  by (simp_all add: manager_inv_def catalog_ok_def active_listed_def owners_match_def durable_ok_def queue_file_def
    runtime_at_def same_catalog_def)

lemma shutdown_inv:
  assumes inv: "manager_inv m"
  shows "manager_inv (snd (shutdown_request m))" and "same_catalog m (snd (shutdown_request m))"
    and "\<forall>p \<in> set (fst (shutdown_request m)). p < length (mg_heap m)"
proof -
  have cat: "catalog_ok m" using inv by (simp add: manager_inv_def)
  show waiting: "\<forall>p \<in> set (fst (shutdown_request m)). p < length (mg_heap m)"
    using listed_in_heap[OF cat] by (auto simp: shutdown_request_def Let_def)
  show "manager_inv (snd (shutdown_request m))" "same_catalog m (snd (shutdown_request m))"
    using update_runtimes_inv[OF inv harmless_stopping waiting] manager_inv_flags
    by (simp_all add: shutdown_request_def Let_def)
qed

lemma shutdown_cancel_inv:
  assumes "manager_inv m" and "\<forall>p \<in> set ps. p < length (mg_heap m)"
  shows "manager_inv (shutdown_cancel ps m)" and "same_catalog m (shutdown_cancel ps m)"
  using update_runtimes_inv[OF assms(1) harmless_canceled assms(2)] manager_inv_flags
  by (simp_all add: shutdown_cancel_def)

section \<open>Dropping instances\<close>

lemma drop_simps [simp]:
  "mg_heap (drop_instance v m) = mg_heap m" "mg_registry (drop_instance v m) = mg_registry m"
  "mg_directory (drop_instance v m) = mg_directory m" "mg_active_configs (drop_instance v m) = mg_active_configs m"
  "mg_active_databases (drop_instance v m) = mg_active_databases m" "runtime_at (drop_instance v m) p = runtime_at m p"
  "mg_retained_instances (drop_instance v m) = mg_retained_instances m"
  "mg_instances (drop_instance v m) = assoc_del (iv_id v) (mg_instances m)"
  by (simp_all add: drop_instance_def runtime_at_def)

lemma owners_match_heap:
  assumes "mg_heap m' = mg_heap m" shows "owners_match key active m' = owners_match key active m"
  using assms by (simp add: owners_match_def runtime_at_def)

lemma drop_instance_catalog:
  assumes cat: "catalog_ok m" and name: "\<forall>p. inst_of m (iv_id v) = Some p \<longrightarrow> iv_name (rt_view (runtime_at m p)) = iv_name v"
  shows "catalog_ok (drop_instance v m)"
proof -
  let ?x = "iv_id v"
  have names: "map_of (mg_names (drop_instance v m)) n = (if map_of (mg_names m) n = Some ?x then None else map_of (mg_names m) n)" for n
  proof (cases "map_of (mg_names m) n = Some ?x")
    case True
    then obtain p where "inst_of m ?x = Some p" "iv_name (rt_view (runtime_at m p)) = n" by (rule catalog_name[OF cat])
    then have "n = iv_name v" using name by simp
    then show ?thesis using True by (simp add: drop_instance_def map_of_release)
  next
    case False
    then show ?thesis by (auto simp: drop_instance_def map_of_release)
  qed
  show ?thesis
    unfolding catalog_ok_def
  proof (intro conjI allI impI)
    show "distinct (map fst (mg_instances (drop_instance v m)))"
      using cat by (simp add: catalog_ok_def distinct_del)
    fix y p assume "inst_of (drop_instance v m) y = Some p"
    then have y: "y \<noteq> ?x" "inst_of m y = Some p" by (simp_all split: if_splits)
    from catalogD[OF cat y(2)] y(1)
    show "p < length (mg_heap (drop_instance v m))" "iv_id (rt_view (runtime_at (drop_instance v m) p)) = y"
      "map_of (mg_names (drop_instance v m)) (iv_name (rt_view (runtime_at (drop_instance v m) p))) = Some y"
      "map_of (mg_names (drop_instance v m)) y = None"
      by (simp_all add: names)
  next
    fix n y assume n: "map_of (mg_names (drop_instance v m)) n = Some y"
    then have y: "y \<noteq> ?x" "map_of (mg_names m) n = Some y" by (simp_all add: names split: if_splits)
    obtain p where "inst_of m y = Some p" "iv_name (rt_view (runtime_at m p)) = n" by (rule catalog_name[OF cat y(2)])
    then show "\<exists>p. inst_of (drop_instance v m) y = Some p \<and> iv_name (rt_view (runtime_at (drop_instance v m) p)) = n"
      using y(1) by simp
  qed
qed

definition droppable :: "instance_view \<Rightarrow> manager \<Rightarrow> bool" where
  "droppable v m \<longleftrightarrow> (\<forall>p. inst_of m (iv_id v) = Some p \<longrightarrow>
     \<not> rt_active (runtime_at m p) \<and> iv_name (rt_view (runtime_at m p)) = iv_name v)"

lemma drop_instance_inv:
  assumes inv: "manager_inv m" and drop: "droppable v m"
  shows "manager_inv (drop_instance v m)"
proof -
  have "catalog_ok (drop_instance v m)"
    using inv drop by (intro drop_instance_catalog) (auto simp: manager_inv_def droppable_def)
  moreover have "active_listed (drop_instance v m)"
    unfolding active_listed_def
  proof (intro allI impI)
    fix p assume p: "p < length (mg_heap (drop_instance v m))" "rt_active (runtime_at (drop_instance v m) p)"
    then have "inst_of m (iv_id (rt_view (runtime_at m p))) = Some p"
      using inv by (simp add: manager_inv_def active_listed_def)
    moreover have "iv_id (rt_view (runtime_at m p)) \<noteq> iv_id v"
      using calculation drop p(2) by (auto simp: droppable_def)
    ultimately show "inst_of (drop_instance v m) (iv_id (rt_view (runtime_at (drop_instance v m) p))) = Some p" by simp
  qed
  moreover have "durable_ok (drop_instance v m)" if "durable_ok m"
    unfolding durable_ok_def
  proof (intro conjI allI impI)
    show "\<forall>rt \<in> set (mg_heap (drop_instance v m)). \<not> rt_remove_on_exit rt" "is_abs (mg_directory (drop_instance v m))"
      using that by (simp_all add: durable_ok_def)
    show "valid_id x" if "inst_of (drop_instance v m) x = Some p" for x p
      using that \<open>durable_ok m\<close> by (simp add: durable_ok_def split: if_splits)
    fix x p assume "inst_of (drop_instance v m) x = Some p"
    then show "database_of (runtime_at (drop_instance v m) p) = queue_file (drop_instance v m) x"
      using that by (simp add: durable_ok_def queue_file_def split: if_splits)
  next
    fix x y p q assume "inst_of (drop_instance v m) x = Some p \<and> inst_of (drop_instance v m) y = Some q \<and>
      rt_config_identity (runtime_at (drop_instance v m) p) = rt_config_identity (runtime_at (drop_instance v m) q)"
    then have "inst_of m x = Some p" "inst_of m y = Some q" "rt_config_identity (runtime_at m p) = rt_config_identity (runtime_at m q)"
      by (simp_all split: if_splits)
    then show "x = y" using that unfolding durable_ok_def by blast
  qed
  ultimately show ?thesis
    using inv owners_match_heap[of "drop_instance v m" m] by (simp add: manager_inv_def)
qed

lemma drop_instances_inv:
  assumes "manager_inv m" and "\<forall>v \<in> set vs. droppable v m"
  shows "manager_inv (fold drop_instance vs m)"
  using assms
proof (induction vs arbitrary: m)
  case (Cons v vs)
  have "\<forall>w \<in> set vs. droppable w (drop_instance v m)" using Cons.prems(2) by (simp add: droppable_def)
  then show ?case using Cons drop_instance_inv by simp
qed simp

section \<open>Retention\<close>

definition terminals :: "manager \<Rightarrow> (string \<times> nat) list" where
  "terminals m = filter (\<lambda>e. \<not> rt_active (runtime_at m (snd e))) (mg_instances m)"

abbreviation eviction_view :: "manager \<Rightarrow> string \<times> nat \<Rightarrow> instance_view" where
  "eviction_view m e \<equiv> (rt_view (runtime_at m (snd e)))\<lparr>iv_id := fst e\<rparr>"

definition eviction_order :: "string \<Rightarrow> manager \<Rightarrow> instance_view list" where
  "eviction_order current m =
    foldr insert_terminal (map (eviction_view m) (filter (\<lambda>e. fst e \<noteq> current) (terminals m))) []"

lemma insert_terminal_mset: "mset (insert_terminal v ws) = add_mset v (mset ws)"
  by (induction ws) auto

lemma foldr_insert_mset: "mset (foldr insert_terminal vs []) = mset vs"
  by (induction vs) (simp_all add: insert_terminal_mset)

lemma eviction_order_mset:
  "mset (eviction_order current m) = mset (map (eviction_view m) (filter (\<lambda>e. fst e \<noteq> current) (terminals m)))"
  unfolding eviction_order_def by (rule foldr_insert_mset)

lemma trim_terminated_fold:
  "trim_terminated current m =
    (if mg_registry m \<noteq> None then m
     else fold drop_instance (take (length (terminals m) - mg_retained_instances m) (eviction_order current m)) m)"
  by (simp add: trim_terminated_def terminals_def eviction_order_def Let_def)

lemma evicted_droppable:
  assumes "catalog_ok m" and "v \<in> set (eviction_order current m)"
  shows "droppable v m"
proof -
  have "v \<in> eviction_view m ` set (filter (\<lambda>e. fst e \<noteq> current) (terminals m))"
    using assms(2) mset_eq_setD[OF eviction_order_mset[of current m]] by simp
  then obtain x p where "(x, p) \<in> set (mg_instances m)" "\<not> rt_active (runtime_at m p)" "v = eviction_view m (x, p)"
    by (auto simp: terminals_def)
  moreover have "inst_of m x = Some p" using calculation(1) assms(1) by (simp add: catalog_ok_def)
  ultimately show ?thesis by (simp add: droppable_def)
qed

lemma trim_terminated_inv:
  assumes inv: "manager_inv m"
  shows "manager_inv (trim_terminated current m)"
proof (cases "mg_registry m = None")
  case True
  have "catalog_ok m" using inv by (simp add: manager_inv_def)
  then have "\<forall>v \<in> set (take n (eviction_order current m)). droppable v m" for n
    using evicted_droppable in_set_takeD by metis
  then show ?thesis using True drop_instances_inv[OF inv] by (simp add: trim_terminated_fold)
next
  case False
  then show ?thesis using inv by (simp add: trim_terminated_fold)
qed

section \<open>The second locked section of a runtime\<close>

lemma owners_release:
  assumes match: "owners_match key active m" and listed: "active_listed m"
    and p: "p < length (mg_heap m)" "rt_active (runtime_at m p)" "x = iv_id (rt_view (runtime_at m p))"
    and len: "length (mg_heap m') = length (mg_heap m)" and gone: "\<not> rt_active (runtime_at m' p)"
    and rest: "\<And>q. q \<noteq> p \<Longrightarrow> runtime_at m' q = runtime_at m q"
  shows "owners_match key (release_owned (key (runtime_at m p)) x active) m'"
proof -
  let ?k = "key (runtime_at m p)"
  have owned: "map_of active ?k = Some x" using owners_matchD[OF match p(1,2)] p(3) by simp
  show ?thesis
    unfolding owners_match_def len
  proof (intro conjI allI impI)
    fix q assume q: "q < length (mg_heap m)" and act: "rt_active (runtime_at m' q)"
    then have "q \<noteq> p" using gone by auto
    then have same: "runtime_at m' q = runtime_at m q" by (rule rest)
    have "key (runtime_at m q) \<noteq> ?k"
      using owner_unique[OF match listed q p(1)] act \<open>q \<noteq> p\<close> p(2) same by auto
    then show "map_of (release_owned ?k x active) (key (runtime_at m' q)) = Some (iv_id (rt_view (runtime_at m' q)))"
      using owners_matchD[OF match q] act same owned by (simp add: map_of_release)
  next
    fix k y assume "map_of (release_owned ?k x active) k = Some y"
    then have k: "k \<noteq> ?k" "map_of active k = Some y" using owned by (simp_all add: map_of_release split: if_splits)
    obtain q where q: "q < length (mg_heap m)" "rt_active (runtime_at m q)" "key (runtime_at m q) = k"
      "iv_id (rt_view (runtime_at m q)) = y" by (rule owners_matchE[OF match k(2)])
    then have "q \<noteq> p" using k(1) by auto
    then show "\<exists>q<length (mg_heap m). rt_active (runtime_at m' q) \<and> key (runtime_at m' q) = k \<and> iv_id (rt_view (runtime_at m' q)) = y"
      using q rest by (intro exI[of _ q]) simp
  qed
qed

text \<open>The manager after the final view is published and the ownership released.\<close>

definition published_runtime :: "instance_view \<Rightarrow> runtime \<Rightarrow> runtime" where
  "published_runtime v rt = rt\<lparr>rt_view := v, rt_done := True, rt_phase := Completed\<rparr>"

text \<open>What the section leaves of the manager before an instance is dropped.\<close>

definition published :: "nat \<Rightarrow> instance_view \<Rightarrow> manager \<Rightarrow> manager \<Rightarrow> bool" where
  "published p v m m3 \<longleftrightarrow>
    mg_heap m3 = (mg_heap m)[p := published_runtime v (runtime_at m p)] \<and> mg_instances m3 = mg_instances m \<and>
    mg_names m3 = mg_names m \<and> mg_directory m3 = mg_directory m \<and> (mg_registry m3 = None \<longleftrightarrow> mg_registry m = None) \<and>
    mg_retained_instances m3 = mg_retained_instances m \<and>
    (mg_registry m3 = mg_registry m \<or> mg_registry m3 = map_option (registry_save_views [v]) (mg_registry m)) \<and>
    mg_active_configs m3 = release_owned (rt_config_identity (runtime_at m p)) (iv_id v) (mg_active_configs m) \<and>
    mg_active_databases m3 = release_owned (iv_database_path v) (iv_id v) (mg_active_databases m)"

lemma run_published_unfold:
  fixes m v registry_err p
  defines "m1 \<equiv> set_runtime p (published_runtime v (runtime_at m p)) m"
  defines "m2 \<equiv> (if mg_registry m1 = None then m1
    else (case save_views registry_err [v] m1 of
            (None, m') \<Rightarrow> m'
          | (Some e, m') \<Rightarrow> m'\<lparr>mg_persistence_errs := mg_persistence_errs m' @ [e]\<rparr>))"
  defines "m3 \<equiv> m2\<lparr>mg_active_configs := release_owned (rt_config_identity (runtime_at m p)) (iv_id v) (mg_active_configs m2),
    mg_active_databases := release_owned (iv_database_path v) (iv_id v) (mg_active_databases m2)\<rparr>"
  assumes "rt_phase (runtime_at m p) = Finalizing v0"
    and v: "v0\<lparr>iv_desired_state := iv_desired_state (rt_view (runtime_at m p))\<rparr> = v"
  shows "run_published registry_err p m =
      (if rt_remove_on_exit (runtime_at m p) then drop_instance v m3 else trim_terminated (iv_id v) m3)"
  by (simp only: run_published_def Let_def assms(4) run_phase.case v published_runtime_def[symmetric]
    m1_def[symmetric] m2_def[symmetric] m3_def[symmetric])

lemma run_published_cases:
  assumes "rt_phase (runtime_at m p) = Finalizing v0"
    and "v0\<lparr>iv_desired_state := iv_desired_state (rt_view (runtime_at m p))\<rparr> = v"
  obtains m3 where "published p v m m3"
    "run_published registry_err p m =
      (if rt_remove_on_exit (runtime_at m p) then drop_instance v m3 else trim_terminated (iv_id v) m3)"
proof -
  note run_published_unfold[OF assms, of registry_err]
  then show ?thesis
    by (rule that[rotated]) (cases "save_views_error registry_err (length [v])"; simp add: published_def save_views_def set_runtime_def)
qed

lemma published_inv:
  assumes inv: "manager_inv m" and p: "p < length (mg_heap m)" and phase: "rt_phase (runtime_at m p) = Finalizing v0"
    and v: "v0\<lparr>iv_desired_state := iv_desired_state (rt_view (runtime_at m p))\<rparr> = v" and m3: "published p v m m3"
  shows "manager_inv m3" and "same_catalog m m3"
    and "runtime_at m3 p = published_runtime v (runtime_at m p)" and "droppable v m3"
proof -
  have ok: "phase_ok (runtime_at m p)" using inv runtime_in_heap[OF p] by (simp add: manager_inv_def)
  then have act: "rt_active (runtime_at m p)" and fin: "\<not> view_active v" "rt_key ((runtime_at m p)\<lparr>rt_view := v\<rparr>) = rt_key (runtime_at m p)"
    using phase v by (auto simp: phase_ok.simps rt_key_def view_state_active)
  then have parts: "iv_id v = iv_id (rt_view (runtime_at m p))" "iv_name v = iv_name (rt_view (runtime_at m p))"
    "iv_database_path v = database_of (runtime_at m p)" by (simp_all add: rt_key_def)
  note fields = m3[unfolded published_def]
  have each: "runtime_at m3 q = (if q = p then published_runtime v (runtime_at m p) else runtime_at m q)" for q
    using fields p by (simp add: runtime_at_def nth_list_update)
  then show at: "runtime_at m3 p = published_runtime v (runtime_at m p)" by simp
  show same: "same_catalog m m3"
    using fields fin(2) by (simp add: same_catalog_def each published_runtime_def rt_key_def)
  have cat: "catalog_ok m" using inv by (simp add: manager_inv_def)
  have "inst_of m (iv_id v) = Some p" using inv act p parts by (simp add: manager_inv_def active_listed_def)
  then show "droppable v m3"
    using fields at fin(1) by (simp add: droppable_def published_runtime_def)
  have len: "length (mg_heap m3) = length (mg_heap m)" using same by (simp add: same_catalog_def)
  have gone: "\<not> rt_active (runtime_at m3 p)" using at fin(1) by (simp add: published_runtime_def)
  have rest: "runtime_at m3 q = runtime_at m q" if "q \<noteq> p" for q using that each by simp
  have listed: "active_listed m" and cfgs: "owners_match rt_config_identity (mg_active_configs m) m"
    and dbs: "owners_match database_of (mg_active_databases m) m" using inv by (simp_all add: manager_inv_def)
  have "owners_match rt_config_identity (mg_active_configs m3) m3"
    using owners_release[OF cfgs listed p act _ len gone rest] parts fields by simp
  moreover have "owners_match database_of (mg_active_databases m3) m3"
    using owners_release[OF dbs listed p act _ len gone rest] parts fields by simp
  moreover have "active_listed m3"
    using listed fields gone each by (auto simp: active_listed_def len split: if_splits)
  moreover have "phase_ok (published_runtime v (runtime_at m p))"
    using fin(1) by (simp add: phase_ok.simps published_runtime_def)
  then have "\<forall>rt \<in> set (mg_heap m3). phase_ok rt"
    using inv by (simp add: heap_forall len each manager_inv_def)
  ultimately show "manager_inv m3"
    using inv fields same_catalog_ok[OF same cat] same_catalog_durable[OF same cat] by (auto simp: manager_inv_def)
qed

lemma run_published_inv:
  assumes inv: "manager_inv m" and p: "p < length (mg_heap m)"
  shows "manager_inv (run_published registry_err p m)"
proof (cases "rt_phase (runtime_at m p)")
  case (Finalizing v0)
  define v where "v = v0\<lparr>iv_desired_state := iv_desired_state (rt_view (runtime_at m p))\<rparr>"
  obtain m3 where m3: "published p v m m3"
    "run_published registry_err p m =
      (if rt_remove_on_exit (runtime_at m p) then drop_instance v m3 else trim_terminated (iv_id v) m3)"
    by (rule run_published_cases[OF Finalizing v_def[symmetric]])
  note facts = published_inv[OF inv p Finalizing v_def[symmetric] m3(1)]
  show ?thesis unfolding m3(2) using drop_instance_inv[OF facts(1,4)] trim_terminated_inv[OF facts(1)] by simp
qed (use inv in \<open>simp_all add: run_published_def\<close>)

section \<open>What an eviction keeps\<close>

lemma terminals_drop:
  "terminals (drop_instance v m) = filter (\<lambda>e. fst e \<noteq> iv_id v) (terminals m)"
  by (simp add: terminals_def assoc_del_def conj_commute)

lemma terminals_drops:
  "terminals (fold drop_instance vs m) = filter (\<lambda>e. fst e \<notin> iv_id ` set vs) (terminals m)"
  by (induction vs arbitrary: m) (auto simp: terminals_drop intro!: filter_cong)

lemma instances_drops:
  "mg_instances (fold drop_instance vs m) = filter (\<lambda>e. fst e \<notin> iv_id ` set vs) (mg_instances m)"
  by (induction vs arbitrary: m) (auto simp: assoc_del_def intro!: filter_cong)

lemma heap_drops [simp]: "mg_heap (fold drop_instance vs m) = mg_heap m"
  by (induction vs arbitrary: m) simp_all

lemma filter_out_length:
  assumes "distinct (map fst ts)" and "distinct ys" and "set ys \<subseteq> set (map fst ts)"
  shows "length (filter (\<lambda>e. fst e \<notin> set ys) ts) + length ys = length ts"
proof -
  have "length (filter (\<lambda>e. fst e \<in> set ys) ts) = length ys"
  proof -
    have "distinct (map fst (filter (\<lambda>e. fst e \<in> set ys) ts))" using assms(1) by (rule distinct_map_filter)
    moreover have "set (map fst (filter (\<lambda>e. fst e \<in> set ys) ts)) = set ys" using assms(3) by force
    ultimately have "length (map fst (filter (\<lambda>e. fst e \<in> set ys) ts)) = length ys"
      using assms(2) distinct_card by metis
    then show ?thesis by simp
  qed
  moreover have "length ts = length (filter (\<lambda>e. fst e \<in> set ys) ts) + length (filter (\<lambda>e. fst e \<notin> set ys) ts)"
    by (rule sum_length_filter_compl[symmetric])
  ultimately show ?thesis by linarith
qed

lemma eviction_ids:
  assumes "distinct (map fst (mg_instances m))"
  shows "distinct (map iv_id (eviction_order current m))"
    and "set (map iv_id (eviction_order current m)) = set (map fst (filter (\<lambda>e. fst e \<noteq> current) (terminals m)))"
    and "length (eviction_order current m) = length (filter (\<lambda>e. fst e \<noteq> current) (terminals m))"
proof -
  have ids: "mset (map iv_id (eviction_order current m)) = mset (map fst (filter (\<lambda>e. fst e \<noteq> current) (terminals m)))"
    using arg_cong[OF eviction_order_mset, of "image_mset iv_id" current m] by (simp flip: mset_map add: comp_def)
  have "distinct (map fst (filter (\<lambda>e. fst e \<noteq> current) (terminals m)))"
    using assms by (simp add: terminals_def distinct_map_filter)
  then show "distinct (map iv_id (eviction_order current m))" using ids mset_eq_imp_distinct_iff by metis
  show "set (map iv_id (eviction_order current m)) = set (map fst (filter (\<lambda>e. fst e \<noteq> current) (terminals m)))"
    by (rule mset_eq_setD[OF ids])
  show "length (eviction_order current m) = length (filter (\<lambda>e. fst e \<noteq> current) (terminals m))"
    using mset_eq_length[OF ids] by simp
qed

lemma filter_key_length:
  assumes "distinct (map fst ts)"
  shows "length ts \<le> length (filter (\<lambda>e. fst e \<noteq> k) ts) + 1"
proof -
  have "length (filter (\<lambda>e. fst e = k) ts) \<le> 1"
    using assms by (induction ts) (force simp: filter_empty_conv)+
  then show ?thesis using sum_length_filter_compl[of "\<lambda>e. fst e \<noteq> k" ts] by simp
qed

text \<open>The views that end up dropped.\<close>

abbreviation evicted :: "string \<Rightarrow> manager \<Rightarrow> instance_view list" where
  "evicted current m \<equiv> take (length (terminals m) - mg_retained_instances m) (eviction_order current m)"

lemma trim_terminals:
  assumes keys: "distinct (map fst (mg_instances m))" and "mg_registry m = None" and "1 \<le> mg_retained_instances m"
  shows "length (terminals (trim_terminated current m)) \<le> mg_retained_instances m"
proof -
  let ?n = "length (terminals m) - mg_retained_instances m" and ?ys = "map iv_id (evicted current m)"
  note ids = eviction_ids[OF keys, of current]
  have dist: "distinct (map fst (terminals m))" using keys by (simp add: terminals_def distinct_map_filter)
  have "length (terminals m) \<le> length (eviction_order current m) + 1" unfolding ids(3) by (rule filter_key_length[OF dist])
  then have len: "length ?ys = ?n" using assms(3) by simp
  have "distinct ?ys" using ids(1) by (simp flip: take_map add: distinct_take)
  moreover have "set ?ys \<subseteq> set (map fst (terminals m))"
    using ids(2) set_take_subset[of ?n "map iv_id (eviction_order current m)"] by (auto simp: take_map)
  ultimately have "length (filter (\<lambda>e. fst e \<notin> set ?ys) (terminals m)) + ?n = length (terminals m)"
    using filter_out_length[OF dist, of ?ys] len by simp
  then show ?thesis using assms(2) by (simp add: trim_terminated_fold terminals_drops)
qed

lemma trim_keeps:
  assumes keys: "distinct (map fst (mg_instances m))" and e: "(x, p) \<in> set (mg_instances m)"
    and "x = current \<or> rt_active (runtime_at m p)"
  shows "(x, p) \<in> set (mg_instances (trim_terminated current m))"
proof -
  note ids = eviction_ids[OF keys, of current]
  have "x \<notin> set (map iv_id (eviction_order current m))"
  proof
    assume "x \<in> set (map iv_id (eviction_order current m))"
    then obtain q where "(x, q) \<in> set (mg_instances m)" "x \<noteq> current" "\<not> rt_active (runtime_at m q)"
      unfolding ids(2) by (auto simp: terminals_def)
    then show False using assms eq_key_imp_eq_value[OF keys] by metis
  qed
  then have "x \<notin> iv_id ` set (evicted current m)" using in_set_takeD by fastforce
  then show ?thesis using e by (auto simp: trim_terminated_fold instances_drops)
qed

section \<open>Oldest end first\<close>

lemma evicted_before_total:
  assumes "iv_finished_at a \<noteq> None" and "iv_finished_at b \<noteq> None"
  shows "evicted_before a b \<or> evicted_before b a"
  using assms string_le_total[of "iv_id a" "iv_id b"] by (auto simp: evicted_before_def)

lemma evicted_before_trans:
  assumes "iv_finished_at a \<noteq> None" "iv_finished_at b \<noteq> None" "iv_finished_at c \<noteq> None"
    and "evicted_before a b" "evicted_before b c"
  shows "evicted_before a c"
  using assms string_le_trans[of "iv_id a" "iv_id b" "iv_id c"]
  by (auto simp: evicted_before_def split: if_splits)

lemma insert_terminal_sorted:
  assumes "sorted_wrt evicted_before ws" and "iv_finished_at v \<noteq> None" and "\<forall>w \<in> set ws. iv_finished_at w \<noteq> None"
  shows "sorted_wrt evicted_before (insert_terminal v ws)"
  using assms
proof (induction ws)
  case (Cons w ws)
  have mem: "set (insert_terminal v ws) = insert v (set ws)"
    using arg_cong[OF insert_terminal_mset, of set_mset v ws] by simp
  show ?case
  proof (cases "evicted_before v w")
    case True
    then show ?thesis using Cons.prems evicted_before_trans[of v w] by auto
  next
    case False
    then have "evicted_before w v" using evicted_before_total Cons.prems by auto
    then show ?thesis using False Cons mem by auto
  qed
qed simp

lemma eviction_sorted:
  assumes "\<forall>e \<in> set (terminals m). iv_finished_at (rt_view (runtime_at m (snd e))) \<noteq> None"
  shows "sorted_wrt evicted_before (eviction_order current m)"
proof -
  have "sorted_wrt evicted_before (foldr insert_terminal vs [])" if "\<forall>v \<in> set vs. iv_finished_at v \<noteq> None" for vs
    using that
  proof (induction vs)
    case (Cons v vs)
    have "set (foldr insert_terminal vs []) = set vs" by (rule mset_eq_setD[OF foldr_insert_mset])
    then show ?case using Cons insert_terminal_sorted by simp
  qed simp
  then show ?thesis unfolding eviction_order_def using assms by auto
qed

lemma evicted_oldest:
  assumes "\<forall>e \<in> set (terminals m). iv_finished_at (rt_view (runtime_at m (snd e))) \<noteq> None"
    and "distinct (map fst (mg_instances m))" and "mg_registry m = None"
    and v: "v \<in> set (evicted current m)" and k: "k \<in> set (terminals (trim_terminated current m))" "fst k \<noteq> current"
  shows "evicted_before v (eviction_view m k)"
proof -
  let ?n = "length (terminals m) - mg_retained_instances m" and ?o = "eviction_order current m"
  have k': "k \<in> set (terminals m)" "fst k \<notin> iv_id ` set (evicted current m)"
    using k(1) assms(3) by (simp_all add: trim_terminated_fold terminals_drops)
  have "eviction_view m k \<in> set ?o"
    using mset_eq_setD[OF eviction_order_mset[of current m]] k'(1) k(2) by auto
  moreover have "eviction_view m k \<notin> set (take ?n ?o)" using k'(2) by force
  ultimately have "eviction_view m k \<in> set (drop ?n ?o)"
    using set_append[of "take ?n ?o" "drop ?n ?o"] by auto
  moreover have "sorted_wrt evicted_before (take ?n ?o @ drop ?n ?o)" using eviction_sorted[OF assms(1)] by simp
  ultimately show ?thesis using v unfolding sorted_wrt_append by blast
qed

end
