(* ===== verification/ManagerStart.thy ===== *)
theory ManagerStart
  imports ManagerFinish
begin

text \<open>
  Starting instances keeps the invariant: what a start checked before the lock, and the fresh names and
  IDs it draws under it, are what publishing a runtime needs.
\<close>

section \<open>Publishing one runtime\<close>

abbreviation rt_id :: "runtime \<Rightarrow> string" where
  "rt_id rt \<equiv> iv_id (rt_view rt)"

abbreviation rt_name :: "runtime \<Rightarrow> string" where
  "rt_name rt \<equiv> iv_name (rt_view rt)"

text \<open>A new instance, or a new runtime of an instance that is not active.\<close>

definition catalog_free :: "runtime \<Rightarrow> manager \<Rightarrow> bool" where
  "catalog_free rt m \<longleftrightarrow>
    (case inst_of m (rt_id rt) of
       None \<Rightarrow> rt_name rt \<noteq> rt_id rt \<and> map_of (mg_names m) (rt_id rt) = None \<and>
         map_of (mg_names m) (rt_name rt) = None \<and> inst_of m (rt_name rt) = None
     | Some p \<Rightarrow> \<not> rt_active (runtime_at m p) \<and> rt_name (runtime_at m p) = rt_name rt)"

definition owners_free :: "runtime \<Rightarrow> manager \<Rightarrow> bool" where
  "owners_free rt m \<longleftrightarrow>
    (rt_active rt \<longrightarrow> map_of (mg_active_configs m) (rt_config_identity rt) = None \<and>
       map_of (mg_active_databases m) (database_of rt) = None)"

definition durable_free :: "runtime \<Rightarrow> manager \<Rightarrow> bool" where
  "durable_free rt m \<longleftrightarrow> valid_id (rt_id rt) \<and> \<not> rt_remove_on_exit rt \<and> database_of rt = queue_file m (rt_id rt) \<and>
    (\<forall>y q. inst_of m y = Some q \<and> rt_config_identity (runtime_at m q) = rt_config_identity rt \<longrightarrow> y = rt_id rt)"

definition added :: "runtime \<Rightarrow> manager \<Rightarrow> manager \<Rightarrow> bool" where
  "added rt m m' \<longleftrightarrow>
    mg_heap m' = mg_heap m @ [rt] \<and> mg_instances m' = assoc_put (rt_id rt) (length (mg_heap m)) (mg_instances m) \<and>
    mg_names m' = assoc_put (rt_name rt) (rt_id rt) (mg_names m) \<and> mg_directory m' = mg_directory m \<and>
    (mg_registry m' = None \<longleftrightarrow> mg_registry m = None) \<and>
    mg_active_configs m' = (if rt_active rt then assoc_put (rt_config_identity rt) (rt_id rt) (mg_active_configs m)
                            else mg_active_configs m) \<and>
    mg_active_databases m' = (if rt_active rt then assoc_put (database_of rt) (rt_id rt) (mg_active_databases m)
                              else mg_active_databases m)"

lemma added_at:
  assumes "added rt m m'"
  shows "length (mg_heap m') = Suc (length (mg_heap m))" and "runtime_at m' (length (mg_heap m)) = rt"
    and "q < length (mg_heap m) \<Longrightarrow> runtime_at m' q = runtime_at m q"
    and "inst_of m' y = (if y = rt_id rt then Some (length (mg_heap m)) else inst_of m y)"
    and "map_of (mg_names m') n = (if n = rt_name rt then Some (rt_id rt) else map_of (mg_names m) n)"
  using assms by (simp_all add: added_def runtime_at_def nth_append)

lemma catalog_freeD:
  assumes "catalog_ok m" and "catalog_free rt m"
  shows "rt_name rt \<noteq> rt_id rt" and "map_of (mg_names m) (rt_id rt) = None" and "inst_of m (rt_name rt) = None"
    and "map_of (mg_names m) (rt_name rt) = None \<or> map_of (mg_names m) (rt_name rt) = Some (rt_id rt)"
proof -
  have "rt_name rt \<noteq> rt_id rt \<and> map_of (mg_names m) (rt_id rt) = None \<and> inst_of m (rt_name rt) = None \<and>
    (map_of (mg_names m) (rt_name rt) = None \<or> map_of (mg_names m) (rt_name rt) = Some (rt_id rt))"
  proof (cases "inst_of m (rt_id rt)")
    case None
    with assms(2) show ?thesis by (simp add: catalog_free_def)
  next
    case (Some p)
    with assms(2) have "rt_name (runtime_at m p) = rt_name rt" by (simp add: catalog_free_def)
    with catalogD(3,4)[OF assms(1) Some]
    have "map_of (mg_names m) (rt_name rt) = Some (rt_id rt)" "map_of (mg_names m) (rt_id rt) = None" by simp_all
    moreover have "inst_of m (rt_name rt) = None"
    proof (cases "inst_of m (rt_name rt)")
      case (Some q)
      from catalogD(4)[OF assms(1) this] calculation(1) show ?thesis by simp
    qed simp
    ultimately show ?thesis by auto
  qed
  then show "rt_name rt \<noteq> rt_id rt" and "map_of (mg_names m) (rt_id rt) = None" and "inst_of m (rt_name rt) = None"
    and "map_of (mg_names m) (rt_name rt) = None \<or> map_of (mg_names m) (rt_name rt) = Some (rt_id rt)" by simp_all
qed

lemma added_catalog:
  assumes cat: "catalog_ok m" and add: "added rt m m'" and free: "catalog_free rt m"
  shows "catalog_ok m'"
  unfolding catalog_ok_def
proof (intro conjI allI impI)
  note at = added_at[OF add] and freeD = catalog_freeD[OF cat free]
  show "distinct (map fst (mg_instances m'))" using cat add by (simp add: added_def catalog_ok_def distinct_put)
  {
    fix y p assume y: "inst_of m' y = Some p"
    have "p < length (mg_heap m') \<and> rt_id (runtime_at m' p) = y \<and>
      map_of (mg_names m') (rt_name (runtime_at m' p)) = Some y \<and> map_of (mg_names m') y = None"
    proof (cases "y = rt_id rt")
      case True
      then show ?thesis using y at freeD(1,2) by simp
    next
      case False
      then have old: "inst_of m y = Some p" using y at(4) by simp
      note was = catalogD[OF cat old]
      have "rt_name (runtime_at m p) \<noteq> rt_name rt" using was(3) freeD(4) False by auto
      moreover have "y \<noteq> rt_name rt" using old freeD(3) by auto
      ultimately show ?thesis using was at by simp
    qed
  }
  then show "p < length (mg_heap m')" "rt_id (runtime_at m' p) = y"
    "map_of (mg_names m') (rt_name (runtime_at m' p)) = Some y" "map_of (mg_names m') y = None"
    if "inst_of m' y = Some p" for y p using that by blast+
  fix n y assume n: "map_of (mg_names m') n = Some y"
  show "\<exists>p. inst_of m' y = Some p \<and> rt_name (runtime_at m' p) = n"
  proof (cases "n = rt_name rt")
    case True
    then show ?thesis using n at by simp
  next
    case False
    then have "map_of (mg_names m) n = Some y" using n at(5) by simp
    then obtain p where p: "inst_of m y = Some p" "rt_name (runtime_at m p) = n" by (rule catalog_name[OF cat])
    have "y \<noteq> rt_id rt" using p free False by (auto simp: catalog_free_def)
    then show ?thesis using p at catalogD(1)[OF cat p(1)] by simp
  qed
qed

lemma added_owners:
  assumes match: "owners_match key active m" and add: "added rt m m'" and none: "rt_active rt \<longrightarrow> map_of active (key rt) = None"
    and active': "active' = (if rt_active rt then assoc_put (key rt) (rt_id rt) active else active)"
  shows "owners_match key active' m'"
  unfolding owners_match_def added_at(1)[OF add]
proof (intro conjI allI impI)
  note at = added_at[OF add]
  fix q assume q: "q < Suc (length (mg_heap m))" and act: "rt_active (runtime_at m' q)"
  show "map_of active' (key (runtime_at m' q)) = Some (rt_id (runtime_at m' q))"
  proof (cases "q = length (mg_heap m)")
    case True
    then show ?thesis using act at(2) active' by simp
  next
    case False
    then have "q < length (mg_heap m)" using q by simp
    note same = at(3)[OF this] and own = owners_matchD[OF match this]
    then show ?thesis using act none active' by (auto simp: same)
  qed
next
  note at = added_at[OF add]
  fix k x assume k: "map_of active' k = Some x"
  show "\<exists>q<Suc (length (mg_heap m)). rt_active (runtime_at m' q) \<and> key (runtime_at m' q) = k \<and> rt_id (runtime_at m' q) = x"
  proof (cases "rt_active rt \<and> k = key rt")
    case True
    then show ?thesis using k at(2) active' by (intro exI[of _ "length (mg_heap m)"]) simp
  next
    case False
    then have "map_of active k = Some x" using k active' by (auto split: if_splits)
    then obtain q where "q < length (mg_heap m)" "rt_active (runtime_at m q)" "key (runtime_at m q) = k" "rt_id (runtime_at m q) = x"
      by (rule owners_matchE[OF match])
    then show ?thesis using at(3) by (intro exI[of _ q]) simp
  qed
qed

lemma added_durable:
  assumes dur: "durable_ok m" and cat: "catalog_ok m" and add: "added rt m m'" and free: "durable_free rt m"
  shows "durable_ok m'"
  unfolding durable_ok_def
proof (intro conjI allI impI)
  note at = added_at[OF add]
  have dir: "mg_directory m' = mg_directory m" using add by (simp add: added_def)
  show "\<forall>rt \<in> set (mg_heap m'). \<not> rt_remove_on_exit rt"
    using add dur free by (simp add: added_def durable_ok_def durable_free_def)
  show "is_abs (mg_directory m')" using dur dir by (simp add: durable_ok_def)
  show "valid_id x" if "inst_of m' x = Some p" for x p
    using that dur free at(4) by (auto simp: durable_ok_def durable_free_def split: if_splits)
  show "database_of (runtime_at m' p) = queue_file m' x" if x: "inst_of m' x = Some p" for x p
  proof (cases "x = rt_id rt")
    case True
    then show ?thesis using x at free by (simp add: durable_free_def queue_file_def dir)
  next
    case False
    then have "inst_of m x = Some p" using x at(4) by simp
    then show ?thesis using at(3) catalogD(1)[OF cat] dur by (simp add: durable_ok_def queue_file_def dir)
  qed
  fix x y p q assume two: "inst_of m' x = Some p \<and> inst_of m' y = Some q \<and>
      rt_config_identity (runtime_at m' p) = rt_config_identity (runtime_at m' q)"
  have old: "inst_of m z = Some r \<and> runtime_at m' r = runtime_at m r" if "z \<noteq> rt_id rt" "inst_of m' z = Some r" for z r
    using that at(3,4) catalogD(1)[OF cat] by simp
  have new: "runtime_at m' r = rt" if "z = rt_id rt" "inst_of m' z = Some r" for z r using that at(2,4) by simp
  show "x = y"
  proof (cases "x = rt_id rt")
    case True
    show ?thesis
    proof (rule ccontr)
      assume "x \<noteq> y"
      then have "inst_of m y = Some q \<and> rt_config_identity (runtime_at m q) = rt_config_identity rt"
        using True two old[of y q] new[of x p] by auto
      then have "y = rt_id rt" using free by (simp add: durable_free_def)
      then show False using \<open>x \<noteq> y\<close> True by simp
    qed
  next
    case False
    note x = old[OF False]
    show ?thesis
    proof (cases "y = rt_id rt")
      case True
      then have "inst_of m x = Some p \<and> rt_config_identity (runtime_at m p) = rt_config_identity rt"
        using two x[of p] new[of y q] by auto
      then have "x = rt_id rt" using free by (simp add: durable_free_def)
      then show ?thesis using False by simp
    next
      case False
      then have "inst_of m x = Some p" "inst_of m y = Some q"
        "rt_config_identity (runtime_at m p) = rt_config_identity (runtime_at m q)" using two x[of p] old[of y q] by auto
      then show ?thesis using dur unfolding durable_ok_def by blast
    qed
  qed
qed

lemma added_inv:
  assumes inv: "manager_inv m" and add: "added rt m m'" and ok: "phase_ok rt" and cf: "catalog_free rt m"
    and own: "owners_free rt m" and dur: "mg_registry m \<noteq> None \<Longrightarrow> durable_free rt m"
  shows "manager_inv m'"
proof -
  note at = added_at[OF add]
  have cat: "catalog_ok m" and listed: "active_listed m" using inv by (simp_all add: manager_inv_def)
  have "active_listed m'"
    unfolding active_listed_def at(1)
  proof (intro allI impI)
    fix q assume q: "q < Suc (length (mg_heap m))" and act: "rt_active (runtime_at m' q)"
    show "inst_of m' (rt_id (runtime_at m' q)) = Some q"
    proof (cases "q = length (mg_heap m)")
      case True
      then show ?thesis using at by simp
    next
      case False
      then have len: "q < length (mg_heap m)" using q by simp
      then have old: "inst_of m (rt_id (runtime_at m q)) = Some q" "rt_active (runtime_at m q)"
        using listed act at(3) by (simp_all add: active_listed_def)
      then have "rt_id (runtime_at m q) \<noteq> rt_id rt" using cf by (auto simp: catalog_free_def)
      then show ?thesis using old(1) at(3)[OF len] at(4) by simp
    qed
  qed
  moreover have "owners_match rt_config_identity (mg_active_configs m') m'"
    by (rule added_owners[of _ "mg_active_configs m", OF _ add]) (use inv own add in \<open>simp_all add: manager_inv_def owners_free_def added_def\<close>)
  moreover have "owners_match database_of (mg_active_databases m') m'"
    by (rule added_owners[of _ "mg_active_databases m", OF _ add]) (use inv own add in \<open>simp_all add: manager_inv_def owners_free_def added_def\<close>)
  moreover have "\<forall>rt \<in> set (mg_heap m'). phase_ok rt" using inv ok add by (simp add: manager_inv_def added_def)
  moreover have "mg_registry m' \<noteq> None \<longrightarrow> durable_ok m'"
    using add inv dur added_durable[OF _ cat add] by (auto simp: manager_inv_def added_def)
  ultimately show ?thesis using added_catalog[OF cat add cf] by (simp add: manager_inv_def)
qed

section \<open>Starting without a registry\<close>

type_synonym prepared = "start_candidate \<times> string \<times> string"

definition prepared_runtime :: "bool \<Rightarrow> time \<Rightarrow> prepared \<Rightarrow> runtime" where
  "prepared_runtime remove_on_exit now item =
    (case item of (c, x, name) \<Rightarrow>
      \<lparr>rt_view = started_view c x name now, rt_config = Some (sc_config c), rt_config_identity = sc_config_identity c,
       rt_remove_on_exit = remove_on_exit, rt_canceled = False, rt_done = False, rt_phase = Invoking\<rparr>)"

lemma prepared_runtime_facts [simp]:
  "rt_id (prepared_runtime r now (c, x, n)) = x" "rt_name (prepared_runtime r now (c, x, n)) = n"
  "rt_config_identity (prepared_runtime r now (c, x, n)) = sc_config_identity c"
  "database_of (prepared_runtime r now (c, x, n)) = sc_database_path c"
  "rt_active (prepared_runtime r now (c, x, n))" "phase_ok (prepared_runtime r now (c, x, n))"
  by (simp_all add: prepared_runtime_def started_view_def view_active_def phase_ok.simps)

lemma launch_candidate_added:
  "added (prepared_runtime r now item) m (snd (launch_candidate r now item m))"
  by (cases item) (simp add: added_def launch_candidate_def Let_def prepared_runtime_def started_view_def view_active_def)

text \<open>Names and IDs that are fresh and different, with configurations and databases nobody owns.\<close>

abbreviation item_keys :: "prepared \<Rightarrow> string list" where
  "item_keys item \<equiv> [fst (snd item), snd (snd item)]"

definition launchable :: "prepared list \<Rightarrow> manager \<Rightarrow> bool" where
  "launchable items m \<longleftrightarrow>
    distinct (concat (map item_keys items)) \<and> set (concat (map item_keys items)) \<inter> set (taken_names m) = {} \<and>
    distinct (map (\<lambda>e. sc_config_identity (fst e)) items) \<and> distinct (map (\<lambda>e. sc_database_path (fst e)) items) \<and>
    (\<forall>e \<in> set items. map_of (mg_active_configs m) (sc_config_identity (fst e)) = None \<and>
       map_of (mg_active_databases m) (sc_database_path (fst e)) = None)"

lemma not_taken: "n \<notin> set (taken_names m) \<longleftrightarrow> map_of (mg_names m) n = None \<and> inst_of m n = None"
  by (simp add: taken_names_def map_of_eq_None_iff)

lemma launchable_tail:
  assumes "launchable (item # items) m"
  shows "launchable items (snd (launch_candidate r now item m))"
proof -
  obtain c x n where item: "item = (c, x, n)" by (cases item)
  let ?m' = "snd (launch_candidate r now item m)"
  have maps: "mg_names ?m' = assoc_put n x (mg_names m)" "mg_active_configs ?m' = assoc_put (sc_config_identity c) x (mg_active_configs m)"
    "mg_active_databases ?m' = assoc_put (sc_database_path c) x (mg_active_databases m)"
    "mg_instances ?m' = assoc_put x (length (mg_heap m)) (mg_instances m)"
    by (simp_all add: item launch_candidate_def Let_def)
  then have taken: "set (taken_names ?m') \<subseteq> {x, n} \<union> set (taken_names m)"
    by (auto simp: taken_names_def assoc_put_def)
  define ks where "ks = concat (map item_keys items)"
  have all: "concat (map item_keys (item # items)) = x # n # ks" by (simp add: item ks_def)
  have keys: "x \<notin> set ks" "n \<notin> set ks" "distinct ks" "set ks \<inter> set (taken_names m) = {}"
  proof -
    have "distinct (x # n # ks)" "set (x # n # ks) \<inter> set (taken_names m) = {}"
      using assms unfolding launchable_def all by simp_all
    then show "x \<notin> set ks" "n \<notin> set ks" "distinct ks" "set ks \<inter> set (taken_names m) = {}" by auto
  qed
  have owned: "sc_config_identity (fst e) \<noteq> sc_config_identity c" "sc_database_path (fst e) \<noteq> sc_database_path c"
    "map_of (mg_active_configs m) (sc_config_identity (fst e)) = None"
    "map_of (mg_active_databases m) (sc_database_path (fst e)) = None" if "e \<in> set items" for e
  proof -
    have "sc_config_identity c \<notin> set (map (\<lambda>e. sc_config_identity (fst e)) items)"
      "sc_database_path c \<notin> set (map (\<lambda>e. sc_database_path (fst e)) items)"
      using assms unfolding launchable_def item by simp_all
    then show "sc_config_identity (fst e) \<noteq> sc_config_identity c" "sc_database_path (fst e) \<noteq> sc_database_path c"
      using that by force+
    show "map_of (mg_active_configs m) (sc_config_identity (fst e)) = None"
      "map_of (mg_active_databases m) (sc_database_path (fst e)) = None"
      using assms that unfolding launchable_def by simp_all
  qed
  have "set ks \<inter> set (taken_names ?m') = {}" using taken keys by blast
  moreover have "\<forall>e \<in> set items. map_of (mg_active_configs ?m') (sc_config_identity (fst e)) = None \<and>
      map_of (mg_active_databases ?m') (sc_database_path (fst e)) = None"
    unfolding maps(2,3) using owned by simp
  moreover have "distinct (map (\<lambda>e. sc_config_identity (fst e)) items)" "distinct (map (\<lambda>e. sc_database_path (fst e)) items)"
    using assms unfolding launchable_def by simp_all
  ultimately show ?thesis using keys(3) unfolding launchable_def ks_def[symmetric] by blast
qed

lemma launch_candidate_inv:
  assumes inv: "manager_inv m" and ready: "launchable (item # items) m" and mode: "mg_registry m = None"
  shows "manager_inv (snd (launch_candidate r now item m))" and "mg_registry (snd (launch_candidate r now item m)) = None"
proof -
  obtain c x n where item: "item = (c, x, n)" by (cases item)
  let ?rt = "prepared_runtime r now item"
  have fresh: "x \<noteq> n" "x \<notin> set (taken_names m)" "n \<notin> set (taken_names m)"
    using ready by (auto simp: launchable_def item)
  have "catalog_free ?rt m" using fresh unfolding not_taken by (simp add: catalog_free_def item)
  moreover have "owners_free ?rt m" using ready by (simp add: owners_free_def item launchable_def)
  ultimately show "manager_inv (snd (launch_candidate r now item m))"
    using added_inv[OF inv launch_candidate_added] mode by (simp add: item)
  show "mg_registry (snd (launch_candidate r now item m)) = None"
    using launch_candidate_added[of r now item m] mode by (simp add: added_def)
qed

lemma launch_candidates_inv:
  assumes "manager_inv m" and "launchable items m" and "mg_registry m = None"
  shows "manager_inv (snd (launch_candidates r now i items m)) \<and> mg_registry (snd (launch_candidates r now i items m)) = None"
  using assms
proof (induction items arbitrary: i m)
  case (Cons item items)
  note step = launch_candidate_inv[OF Cons.prems, of r "now i"] launchable_tail[OF Cons.prems(2), of r "now i"]
  show ?case
    using Cons.IH[OF step(1,3,2), of "i + 1"] by (simp add: case_prod_beta)
qed simp

section \<open>Fresh names and IDs\<close>

lemma prepare_candidates_fresh:
  assumes "prepare_candidates h m explicit reserved n cs = Inr items"
    and "explicit \<noteq> [] \<Longrightarrow> explicit \<notin> set (taken_names m @ reserved)"
  shows "map fst items = cs \<and> distinct (concat (map item_keys items)) \<and>
    set (concat (map item_keys items)) \<inter> set (taken_names m @ reserved) = {} \<and>
    (\<forall>e \<in> set items. valid_id (fst (snd e)))"
  using assms
proof (induction h m explicit reserved n cs arbitrary: items rule: prepare_candidates.induct)
  case (2 h m explicit reserved n c cs)
  define name where "name = (if explicit = [] then available_name (taken_names m @ reserved) (sc_name_base c) else explicit)"
  have name: "name \<notin> set (taken_names m @ reserved)"
    using 2(3) available_name_fresh[of "taken_names m @ reserved" "sc_name_base c"] by (simp add: name_def)
  obtain r n' where draw: "available_id (h_lower h) (h_gen h) (taken_names m @ name # reserved) n = (r, n')" by force
  with 2(2) obtain x where x: "r = Inr x" by (cases r) (auto simp: name_def[symmetric])
  note fresh = available_id_ok[OF draw[unfolded x]]
  from 2(2) draw x obtain rest where rest: "prepare_candidates h m [] (x # name # reserved) n' cs = Inr rest"
    "items = (c, x, name) # rest" by (auto simp: name_def[symmetric] split: sum.splits)
  have "map fst rest = cs \<and> distinct (concat (map item_keys rest)) \<and>
    set (concat (map item_keys rest)) \<inter> set (taken_names m @ x # name # reserved) = {} \<and>
    (\<forall>e \<in> set rest. valid_id (fst (snd e)))"
    using 2(1)[OF name_def draw[symmetric, unfolded name_def[symmetric]] x rest(1)] by simp
  then show ?case using fresh name by (auto simp: rest(2))
qed simp

section \<open>What was checked before the lock\<close>

lemma load_candidate_identity:
  assumes "load_candidate h owners i p = Inr (c, ow)"
  shows "sc_config_identity c = co_identity ow" and "co_identity ow \<notin> set (map co_identity owners)"
  using assms
  by (auto simp: load_candidate_def find_None_iff split: sum.splits option.splits)

lemma load_candidates_distinct:
  "load_candidates h owners i paths = Inr cs \<Longrightarrow>
    distinct (map sc_config_identity cs) \<and> set (map sc_config_identity cs) \<inter> set (map co_identity owners) = {} \<and>
    length cs = length paths"
proof (induction paths arbitrary: owners i cs)
  case (Cons p paths)
  from Cons.prems obtain c ow cs' where step: "load_candidate h owners i p = Inr (c, ow)"
    "load_candidates h (owners @ [ow]) (i + 1) paths = Inr cs'" "cs = c # cs'"
    by (auto split: sum.splits prod.splits)
  from Cons.IH[OF step(2)] load_candidate_identity[OF step(1)] show ?case by (auto simp: step(3))
qed simp

lemma validate_databases_distinct:
  "validate_databases h existing missing earlier i cs = None \<Longrightarrow>
    distinct (map sc_database_path cs) \<and> set (map sc_database_path cs) \<inter> set (map sc_database_path earlier) = {}"
proof (induction h existing missing earlier i cs rule: validate_databases.induct)
  case (2 h existing missing earlier i c cs)
  have new: "sc_database_path c \<notin> set (map sc_database_path earlier)"
    using 2(3) by (auto simp: find_None_iff split: option.splits)
  have "distinct (map sc_database_path cs) \<and> set (map sc_database_path cs) \<inter> set (map sc_database_path (earlier @ [c])) = {}"
    using 2 by (auto split: option.splits sum.splits)
  with new show ?case by auto
qed simp

lemma assign_identities_same:
  "assign_known_queue_identities h ks cs = Inr cs' \<Longrightarrow>
    map sc_config_identity cs' = map sc_config_identity cs \<and> map sc_database_path cs' = map sc_database_path cs"
  by (induction cs arbitrary: cs') (auto split: sum.splits)

lemma preflight_distinct:
  assumes "start_preflight h gated paths name attach expected m gated_m = Inr cs"
  shows "distinct (map sc_config_identity cs) \<and> distinct (map sc_database_path cs)"
proof -
  from assms obtain cs0 where cs0: "load_candidates h [] 0 paths = Inr cs0"
    "validate_database_candidates gated cs0 = None"
    "assign_known_queue_identities gated (known_queues gated_m) cs0 = Inr cs"
    by (auto simp: start_preflight_def on_error_Inr split: if_splits sum.splits)
  from load_candidates_distinct[OF cs0(1)] validate_databases_distinct[OF cs0(2)[unfolded validate_database_candidates_def]]
    assign_identities_same[OF cs0(3)]
  show ?thesis by auto
qed

lemma active_config_owner_None: "active_config_owner h p active = Inr None \<Longrightarrow> map_of active p = None"
  by (auto simp: active_config_owner_def split: option.splits)

lemma active_database_owner_None: "active_database_owner h p active = Inr None \<Longrightarrow> map_of active p = None"
  by (auto simp: active_database_owner_def split: option.splits)

lemma validate_active_None:
  "validate_active_candidates h configs databases cs = None \<Longrightarrow> c \<in> set cs \<Longrightarrow>
    map_of configs (sc_config_identity c) = None \<and> map_of databases (sc_database_path c) = None"
  by (induction h configs databases cs rule: validate_active_candidates.induct)
    (auto dest!: active_config_owner_None active_database_owner_None split: option.splits sum.splits)

lemma same_entries_None: "set a = set b \<Longrightarrow> map_of a k = None \<longleftrightarrow> map_of b k = None"
  by (simp add: map_of_eq_None_iff)

text \<open>A start that is answered with instances was launched from a launchable batch.\<close>

lemma reserve_cases:
  assumes "reserve_and_launch h explicit r cs seen m = Some (res, m')"
  obtains (refused) e where "res = Inl e" "m' = m"
  | (launched) items vs where "res = Inr vs" "(vs, m') = launch_candidates r (h_now h) 0 items m"
      "prepare_candidates h m explicit [] 0 cs = Inr items"
      "validate_active_candidates h (mg_active_configs seen) (mg_active_databases seen) cs = None"
      "set (mg_active_configs seen) = set (mg_active_configs m)"
      "set (mg_active_databases seen) = set (mg_active_databases m)"
      "explicit \<noteq> [] \<Longrightarrow> explicit \<notin> set (taken_names m)"
      "\<not> closed_to_starts m"
proof -
  have "(\<exists>e. res = Inl e \<and> m' = m) \<or> (\<exists>items vs. res = Inr vs \<and> (vs, m') = launch_candidates r (h_now h) 0 items m \<and>
      prepare_candidates h m explicit [] 0 cs = Inr items \<and>
      validate_active_candidates h (mg_active_configs seen) (mg_active_databases seen) cs = None \<and>
      set (mg_active_configs seen) = set (mg_active_configs m) \<and>
      set (mg_active_databases seen) = set (mg_active_databases m) \<and>
      (explicit \<noteq> [] \<longrightarrow> explicit \<notin> set (taken_names m)) \<and> \<not> closed_to_starts m)"
    using assms unfolding reserve_and_launch_def Let_def not_taken
    by (simp split: option.splits if_splits sum.splits prod.splits) auto
  then show ?thesis using refused launched by blast
qed

lemma reserve_launchable:
  assumes distinct: "distinct (map sc_config_identity cs)" "distinct (map sc_database_path cs)"
    and prepared: "prepare_candidates h m explicit [] 0 cs = Inr items"
    and valid: "validate_active_candidates h (mg_active_configs seen) (mg_active_databases seen) cs = None"
    and same: "set (mg_active_configs seen) = set (mg_active_configs m)" "set (mg_active_databases seen) = set (mg_active_databases m)"
    and name: "explicit \<noteq> [] \<Longrightarrow> explicit \<notin> set (taken_names m)"
  shows "launchable items m"
proof -
  note fresh = prepare_candidates_fresh[OF prepared]
  have cs: "map (\<lambda>e. f (fst e)) items = map f cs" for f using fresh name by (auto simp flip: map_map[unfolded comp_def])
  have "map_of (mg_active_configs m) (sc_config_identity (fst e)) = None \<and>
      map_of (mg_active_databases m) (sc_database_path (fst e)) = None" if "e \<in> set items" for e
  proof -
    have "fst e \<in> set cs" using fresh name that by auto
    from validate_active_None[OF valid this] same show ?thesis using same_entries_None by metis
  qed
  then show ?thesis using fresh name distinct by (simp add: launchable_def cs)
qed

lemma reserve_inv:
  assumes inv: "manager_inv m" and mode: "mg_registry m = None"
    and distinct: "distinct (map sc_config_identity cs)" "distinct (map sc_database_path cs)"
    and run: "reserve_and_launch h explicit r cs seen m = Some (res, m')"
  shows "manager_inv m' \<and> mg_registry m' = None"
  using run
proof (cases rule: reserve_cases)
  case (launched items vs)
  have "launchable items m" by (rule reserve_launchable[OF distinct launched(3-7)])
  from launch_candidates_inv[OF inv this mode] show ?thesis by (metis launched(2) snd_conv)
qed (use inv mode in simp)

end
