(* ===== verification/ManagerDurable.thy ===== *)
theory ManagerDurable
  imports ManagerStart ConfigLoad
begin

text \<open>
  Registered instances: loading the registry, registering, resuming and restoring keep the invariant.
  The queue file of an instance follows from its ID, so two instances never share a database.
\<close>

section \<open>Queue files\<close>

lemma join_path_below:
  assumes "is_abs d" and "good_elem e" and "good_elem f"
  shows "join_path [d, e, f] = slash # slashed (abs_elems d @ [e, f])"
proof -
  have parts: "d \<noteq> []" "e \<noteq> []" "f \<noteq> []" "slash \<notin> set e" "slash \<notin> set f"
    using assms by (auto simp: is_abs_def good_elem_def)
  have "join_path [d, e, f] = clean (d @ slash # (e @ slash # f))" using parts by (simp add: join_path_def)
  moreover have "abs_elems (d @ slash # (e @ slash # f)) = abs_elems d @ [e, f]"
    using assms(2,3) parts
    by (simp add: abs_elems_below split_char_concat split_char_id good_elem_def)
  ultimately show ?thesis using clean_abs[of "d @ slash # (e @ slash # f)"] is_abs_append[OF assms(1)] by simp
qed

lemma hex_not_slash: "hex_digit c \<Longrightarrow> c \<noteq> slash"
proof
  assume "hex_digit c" "c = slash"
  moreover have "byte slash = 47" by simp
  ultimately show False by (simp add: hex_digit_def)
qed

lemma good_queue_name: "valid_id x \<Longrightarrow> good_elem (x @ ''.sqlite'')"
  using hex_not_slash by (cases x) (auto simp: valid_id_def good_elem_def list_all_iff)

lemma queue_file_inj:
  assumes "is_abs (mg_directory m)" and "valid_id x" and "valid_id y" and "queue_file m x = queue_file m y"
  shows "x = y"
proof -
  have queues: "good_elem ''queues''" by (simp add: good_elem_def)
  let ?es = "\<lambda>x. abs_elems (mg_directory m) @ [''queues'', x @ ''.sqlite'']"
  have elems: "abs_elems (queue_file m x) = ?es x" if "valid_id x" for x
  proof -
    have "\<forall>e \<in> set (?es x). good_elem e"
      using abs_elems_good[of _ "mg_directory m"] queues good_queue_name[OF that] by auto
    from abs_elems_slashed[OF this] join_path_below[OF assms(1) queues good_queue_name[OF that]]
    show ?thesis by (simp add: queue_file_def)
  qed
  have "?es x = ?es y" unfolding elems[OF assms(2), symmetric] elems[OF assms(3), symmetric] assms(4) ..
  then show ?thesis by simp
qed

lemma durableD:
  assumes "durable_ok m" and "inst_of m x = Some p"
  shows "valid_id x" and "database_of (runtime_at m p) = queue_file m x" and "is_abs (mg_directory m)"
  using assms unfolding durable_ok_def by blast+

text \<open>Nobody owns the configuration and the queue file of an instance that is not active.\<close>

lemma durable_owners_free:
  assumes inv: "manager_inv m" and mode: "mg_registry m \<noteq> None" and cf: "catalog_free rt m" and df: "durable_free rt m"
  shows "owners_free rt m"
proof -
  have dur: "durable_ok m" and listed: "active_listed m" using inv mode by (simp_all add: manager_inv_def)
  have idle: "rt_id (runtime_at m q) \<noteq> rt_id rt" if "q < length (mg_heap m)" "rt_active (runtime_at m q)" for q
  proof
    assume "rt_id (runtime_at m q) = rt_id rt"
    moreover have "inst_of m (rt_id (runtime_at m q)) = Some q" using listed that by (simp add: active_listed_def)
    ultimately show False using cf that(2) by (simp add: catalog_free_def)
  qed
  have "map_of (mg_active_configs m) (rt_config_identity rt) = None"
  proof (rule ccontr)
    assume "map_of (mg_active_configs m) (rt_config_identity rt) \<noteq> None"
    then obtain x where x: "map_of (mg_active_configs m) (rt_config_identity rt) = Some x" by blast
    have "owners_match rt_config_identity (mg_active_configs m) m" using inv by (simp add: manager_inv_def)
    then obtain q where q: "q < length (mg_heap m)" "rt_active (runtime_at m q)"
      "rt_config_identity (runtime_at m q) = rt_config_identity rt" by (rule owners_matchE[OF _ x])
    then have "inst_of m (rt_id (runtime_at m q)) = Some q" using listed by (simp add: active_listed_def)
    then have "rt_id (runtime_at m q) = rt_id rt" using df q(3) by (simp add: durable_free_def)
    then show False using idle[OF q(1,2)] by simp
  qed
  moreover have "map_of (mg_active_databases m) (database_of rt) = None"
  proof (rule ccontr)
    assume "map_of (mg_active_databases m) (database_of rt) \<noteq> None"
    then obtain x where x: "map_of (mg_active_databases m) (database_of rt) = Some x" by blast
    have "owners_match database_of (mg_active_databases m) m" using inv by (simp add: manager_inv_def)
    then obtain q where q: "q < length (mg_heap m)" "rt_active (runtime_at m q)"
      "database_of (runtime_at m q) = database_of rt" by (rule owners_matchE[OF _ x])
    then have inst: "inst_of m (rt_id (runtime_at m q)) = Some q" using listed by (simp add: active_listed_def)
    have "queue_file m (rt_id (runtime_at m q)) = queue_file m (rt_id rt)"
      using durableD(2)[OF dur inst] q(3) df by (simp add: durable_free_def)
    then have "rt_id (runtime_at m q) = rt_id rt"
      using queue_file_inj[OF durableD(3)[OF dur inst] durableD(1)[OF dur inst]] df by (simp add: durable_free_def)
    then show False using idle[OF q(1,2)] by simp
  qed
  ultimately show ?thesis by (simp add: owners_free_def)
qed

section \<open>Publishing several runtimes\<close>

definition registered_runtime :: "instance_view \<Rightarrow> string \<Rightarrow> config option \<Rightarrow> bool \<Rightarrow> runtime" where
  "registered_runtime v identity cfg launch =
    \<lparr>rt_view = v, rt_config = cfg, rt_config_identity = identity, rt_remove_on_exit = False,
     rt_canceled = \<not> launch, rt_done = \<not> launch, rt_phase = (if launch then Invoking else Unlaunched)\<rparr>"

lemma registered_runtime_simps [simp]:
  "rt_view (registered_runtime v identity cfg launch) = v"
  "rt_config_identity (registered_runtime v identity cfg launch) = identity"
  "rt_config (registered_runtime v identity cfg launch) = cfg"
  "\<not> rt_remove_on_exit (registered_runtime v identity cfg launch)"
  "view_active v = launch \<Longrightarrow> phase_ok (registered_runtime v identity cfg launch)"
  by (simp_all add: registered_runtime_def phase_ok.simps)

lemma register_runtime_added:
  "view_active v = launch \<Longrightarrow> added (registered_runtime v identity cfg launch) m (register_runtime v identity cfg launch m)"
  by (simp add: added_def register_runtime_def registered_runtime_def Let_def)

text \<open>What a registered runtime needs, and when one runtime leaves another's needs alone.\<close>

definition registrable :: "runtime \<Rightarrow> manager \<Rightarrow> bool" where
  "registrable rt m \<longleftrightarrow> catalog_free rt m \<and> durable_free rt m"

definition independent :: "runtime \<Rightarrow> runtime \<Rightarrow> bool" where
  "independent a b \<longleftrightarrow> rt_id a \<noteq> rt_id b \<and> rt_name a \<noteq> rt_name b \<and> rt_id a \<noteq> rt_name b \<and> rt_name a \<noteq> rt_id b \<and>
    rt_config_identity a \<noteq> rt_config_identity b"

lemma added_registrable:
  assumes cat: "catalog_ok m" and add: "added a m m'" and ind: "independent a b" and b: "registrable b m"
  shows "registrable b m'"
proof -
  note at = added_at[OF add]
  have dir: "mg_directory m' = mg_directory m" using add by (simp add: added_def)
  have "catalog_free b m'"
    using b ind at(3)[OF catalogD(1)[OF cat]]
    by (auto simp: registrable_def catalog_free_def independent_def at(4,5) split: option.splits)
  moreover have "durable_free b m'"
    unfolding durable_free_def
  proof (intro conjI allI impI)
    show "valid_id (rt_id b)" "\<not> rt_remove_on_exit b" "database_of b = queue_file m' (rt_id b)"
      using b by (simp_all add: registrable_def durable_free_def queue_file_def dir)
    fix y q assume y: "inst_of m' y = Some q \<and> rt_config_identity (runtime_at m' q) = rt_config_identity b"
    have "y \<noteq> rt_id a"
    proof
      assume "y = rt_id a"
      then have "rt_config_identity a = rt_config_identity b" using y at(2,4) by auto
      then show False using ind by (simp add: independent_def)
    qed
    then have old: "inst_of m y = Some q" using y at(4) by simp
    then have "rt_config_identity (runtime_at m q) = rt_config_identity b"
      using y at(3)[OF catalogD(1)[OF cat old]] by simp
    then show "y = rt_id b" using b old by (simp add: registrable_def durable_free_def)
  qed
  ultimately show ?thesis by (simp add: registrable_def)
qed

lemma added_registered_inv:
  assumes inv: "manager_inv m" and mode: "mg_registry m \<noteq> None" and add: "added rt m m'" and ok: "phase_ok rt"
    and free: "registrable rt m"
  shows "manager_inv m'" and "mg_registry m' \<noteq> None"
  using added_inv[OF inv add ok] durable_owners_free[OF inv mode] free mode add
  by (simp_all add: registrable_def added_def)

type_synonym arrival = "instance_view \<times> string \<times> config option"

abbreviation arrival_runtime :: "bool \<Rightarrow> arrival \<Rightarrow> runtime" where
  "arrival_runtime launch a \<equiv> registered_runtime (fst a) (fst (snd a)) (snd (snd a)) launch"

lemma register_arrivals_inv:
  assumes "manager_inv m" and "mg_registry m \<noteq> None"
    and "\<forall>a \<in> set as. view_active (fst a) = launch \<and> registrable (arrival_runtime launch a) m"
    and "sorted_wrt (\<lambda>a b. independent (arrival_runtime launch a) (arrival_runtime launch b)) as"
  shows "manager_inv (fold (\<lambda>a. register_runtime (fst a) (fst (snd a)) (snd (snd a)) launch) as m) \<and>
    mg_registry (fold (\<lambda>a. register_runtime (fst a) (fst (snd a)) (snd (snd a)) launch) as m) \<noteq> None"
  using assms
proof (induction as arbitrary: m)
  case (Cons a as)
  let ?rt = "arrival_runtime launch a" and ?m = "register_runtime (fst a) (fst (snd a)) (snd (snd a)) launch m"
  have act: "view_active (fst a) = launch" using Cons.prems(3) by simp
  note add = register_runtime_added[OF act, of "fst (snd a)" "snd (snd a)" m]
  have ok: "phase_ok ?rt" using act by simp
  have here: "registrable ?rt m" using Cons.prems(3) by simp
  note now = added_registered_inv[OF Cons.prems(1,2) add ok here]
  have cat: "catalog_ok m" using Cons.prems(1) by (simp add: manager_inv_def)
  have "\<forall>b \<in> set as. view_active (fst b) = launch \<and> registrable (arrival_runtime launch b) ?m"
    using Cons.prems(3,4) added_registrable[OF cat add] by simp
  then show ?case using Cons.IH[OF now] Cons.prems(4) by simp
qed simp

lemma register_arrivals_fields:
  "mg_registry (fold (\<lambda>a. register_runtime (fst a) (fst (snd a)) (snd (snd a)) launch) as m) = mg_registry m"
  "mg_directory (fold (\<lambda>a. register_runtime (fst a) (fst (snd a)) (snd (snd a)) launch) as m) = mg_directory m"
  by (induction as arbitrary: m) (simp_all add: register_runtime_def Let_def)

section \<open>Resuming and restoring\<close>

text \<open>A new runtime for an instance whose runtime is over.\<close>

lemma idle_registrable:
  assumes inv: "manager_inv m" and mode: "mg_registry m \<noteq> None" and x: "inst_of m x = Some p"
    and idle: "\<not> rt_active (runtime_at m p)" and key: "rt_key rt = rt_key (runtime_at m p)" and "\<not> rt_remove_on_exit rt"
  shows "registrable rt m"
proof -
  have dur: "durable_ok m" and cat: "catalog_ok m" using inv mode by (simp_all add: manager_inv_def)
  note parts = key_parts[OF key]
  have id: "rt_id rt = x" using parts catalogD(2)[OF cat x] by simp
  have "catalog_free rt m" using x idle parts by (simp add: catalog_free_def id)
  moreover have "durable_free rt m"
    unfolding durable_free_def id
  proof (intro conjI allI impI)
    show "valid_id x" "database_of rt = queue_file m x" using durableD[OF dur x] parts by simp_all
    show "\<not> rt_remove_on_exit rt" by (rule assms(6))
    fix y q assume "inst_of m y = Some q \<and> rt_config_identity (runtime_at m q) = rt_config_identity rt"
    then have "inst_of m y = Some q" "rt_config_identity (runtime_at m q) = rt_config_identity (runtime_at m p)"
      using parts by simp_all
    then show "y = x" using dur x unfolding durable_ok_def by blast
  qed
  ultimately show ?thesis by (simp add: registrable_def)
qed

lemma registrable_cong:
  assumes "mg_instances m' = mg_instances m" "mg_names m' = mg_names m" "mg_directory m' = mg_directory m" "mg_heap m' = mg_heap m"
  shows "registrable rt m' = registrable rt m"
proof -
  have rts: "runtime_at m' = runtime_at m" using assms(4) by (simp add: runtime_at_def fun_eq_iff)
  show ?thesis unfolding registrable_def catalog_free_def durable_free_def queue_file_def assms(1,2,3) rts ..
qed

lemma running_again_facts [simp]:
  "iv_id (running_again now v) = iv_id v" "iv_name (running_again now v) = iv_name v"
  "iv_database_path (running_again now v) = iv_database_path v" "view_active (running_again now v)"
  by (simp_all add: running_again_def view_active_def)

lemma resume_registered_inv:
  assumes inv: "manager_inv m" and mode: "mg_registry m \<noteq> None" and x: "inst_of m x = Some p"
    and run: "resume_registered h p m = (r, m')"
  shows "manager_inv m'" and "mg_registry m' \<noteq> None"
proof -
  let ?rt = "runtime_at m p"
  let ?v = "(running_again (h_now h 0) (rt_view ?rt))\<lparr>iv_desired_state := ''running''\<rparr>"
  have "manager_inv m' \<and> mg_registry m' \<noteq> None"
  proof (cases "rt_active ?rt \<or> rt_config ?rt = None")
    case True
    then have "m' = m" using run by (auto simp: resume_registered_def Let_def split: if_splits)
    with inv mode show ?thesis by simp
  next
    case False
    obtain e m1 where save: "save_views (h_registry_err h) [?v] m = (e, m1)" by force
    note m1 = save_views_inv[OF inv save] save_views_registry[OF save]
    have mode1: "mg_registry m1 \<noteq> None" using m1(2) mode by auto
    show ?thesis
    proof (cases e)
      case (Some err)
      then have "m' = m1" using False run save by (auto simp: resume_registered_def Let_def)
      with m1(1) mode1 show ?thesis by simp
    next
      case None
      have m': "m' = register_runtime ?v (rt_config_identity ?rt) (rt_config ?rt) True m1"
        using False None run save by (auto simp: resume_registered_def Let_def)
      have act: "view_active ?v = True" by (simp add: view_state_active)
      let ?new = "registered_runtime ?v (rt_config_identity ?rt) (rt_config ?rt) True"
      have "rt_key ?new = rt_key ?rt" by (simp add: rt_key_def)
      then have "registrable ?new m" using idle_registrable[OF inv mode x, of ?new] False by simp
      moreover obtain rows where "m1 = m\<lparr>mg_registry := rows\<rparr>" using m1(2) by blast
      ultimately have "registrable ?new m1" using registrable_cong[of m1 m ?new] by simp
      moreover have "phase_ok ?new" using act by simp
      ultimately show ?thesis
        unfolding m' using added_registered_inv[OF m1(1) mode1 register_runtime_added[OF act]] by simp
    qed
  qed
  then show "manager_inv m'" "mg_registry m' \<noteq> None" by simp_all
qed

lemma saved_registrable:
  assumes "save_views err views m = (e, m1)"
  shows "registrable rt m1 = registrable rt m"
proof -
  obtain rows where "m1 = m\<lparr>mg_registry := rows\<rparr>" using save_views_registry[OF assms] by blast
  then show ?thesis by (intro registrable_cong) simp_all
qed

lemma listed_independent:
  assumes inv: "manager_inv m" "mg_registry m \<noteq> None" and x: "inst_of m x = Some p" and y: "inst_of m y = Some q"
    and "x \<noteq> y" and a: "rt_key a = rt_key (runtime_at m p)" and b: "rt_key b = rt_key (runtime_at m q)"
  shows "independent a b"
proof -
  have cat: "catalog_ok m" and dur: "durable_ok m" using inv by (simp_all add: manager_inv_def)
  note px = catalogD[OF cat x] and qy = catalogD[OF cat y]
  have "rt_config_identity (runtime_at m p) \<noteq> rt_config_identity (runtime_at m q)"
    using dur x y \<open>x \<noteq> y\<close> unfolding durable_ok_def by blast
  then show ?thesis using key_parts[OF a] key_parts[OF b] px qy \<open>x \<noteq> y\<close> by (auto simp: independent_def)
qed

definition restored_arrivals :: "host \<Rightarrow> manager \<Rightarrow> arrival list" where
  "restored_arrivals h m =
    map (\<lambda>(p, v). (v, rt_config_identity (runtime_at m p), rt_config (runtime_at m p))) (restored_views h m)"

lemma set_enumerate: "x \<in> set (List.enumerate n es) \<Longrightarrow> snd x \<in> set es"
  by (induction es arbitrary: n) auto

lemma restored_arrival_facts:
  assumes "catalog_ok m" and "a \<in> set (restored_arrivals h m)"
  obtains p x where "inst_of m x = Some p" "restorable m (x, p)" "x = iv_id (fst a)"
    "rt_key (arrival_runtime True a) = rt_key (runtime_at m p)" "view_active (fst a)"
proof -
  from assms(2) obtain i e where e: "(i, e) \<in> set (List.enumerate 0 (filter (restorable m) (mg_instances m)))"
    "a = (running_again (h_now h i) (rt_view (runtime_at m (snd e))), rt_config_identity (runtime_at m (snd e)),
          rt_config (runtime_at m (snd e)))"
    by (auto simp: restored_arrivals_def restored_views_def)
  from set_enumerate[OF e(1)] have mem: "e \<in> set (mg_instances m)" "restorable m e" by simp_all
  obtain x p where xp: "e = (x, p)" by (cases e)
  have "inst_of m x = Some p" using mem(1) xp assms(1) by (simp add: catalog_ok_def)
  note at = this catalogD(2)[OF assms(1) this]
  show ?thesis
    by (rule that[OF at(1)]) (use mem(2) at(2) in \<open>simp_all add: e(2) xp rt_key_def\<close>)
qed

lemma restored_ids:
  assumes "catalog_ok m"
  shows "distinct (map (\<lambda>a. iv_id (fst a)) (restored_arrivals h m))"
proof -
  have "map (\<lambda>a. iv_id (fst a)) (restored_arrivals h m) = map (\<lambda>e. rt_id (runtime_at m (snd e))) (filter (restorable m) (mg_instances m))"
  proof -
    have "map (\<lambda>x. rt_id (runtime_at m (snd (snd x)))) (List.enumerate n es) = map (\<lambda>e. rt_id (runtime_at m (snd e))) es" for n es
      by (induction es arbitrary: n) simp_all
    then show ?thesis by (simp add: restored_arrivals_def restored_views_def comp_def case_prod_beta)
  qed
  also have "\<dots> = map fst (filter (restorable m) (mg_instances m))"
  proof (rule map_cong[OF refl])
    fix e assume "e \<in> set (filter (restorable m) (mg_instances m))"
    then have "inst_of m (fst e) = Some (snd e)" using assms by (simp add: catalog_ok_def)
    then show "rt_id (runtime_at m (snd e)) = fst e" by (rule catalogD(2)[OF assms])
  qed
  finally show ?thesis using assms by (simp add: catalog_ok_def distinct_map_filter)
qed

lemma sorted_wrt_distinct:
  assumes "distinct (map f as)" and "\<And>a b. a \<in> set as \<Longrightarrow> b \<in> set as \<Longrightarrow> f a \<noteq> f b \<Longrightarrow> P a b"
  shows "sorted_wrt P as"
  using assms by (induction as) auto

lemma restored_arrivals_ok:
  assumes inv: "manager_inv m" and mode: "mg_registry m \<noteq> None" and save: "save_views err views m = (e, m1)"
  shows "\<forall>a \<in> set (restored_arrivals h m). view_active (fst a) = True \<and> registrable (arrival_runtime True a) m1"
    and "sorted_wrt (\<lambda>a b. independent (arrival_runtime True a) (arrival_runtime True b)) (restored_arrivals h m)"
proof -
  have cat: "catalog_ok m" using inv by (simp add: manager_inv_def)
  show "\<forall>a \<in> set (restored_arrivals h m). view_active (fst a) = True \<and> registrable (arrival_runtime True a) m1"
  proof
    fix a assume a: "a \<in> set (restored_arrivals h m)"
    obtain p x where x: "inst_of m x = Some p" "restorable m (x, p)" "rt_key (arrival_runtime True a) = rt_key (runtime_at m p)"
      "view_active (fst a)" by (rule restored_arrival_facts[OF cat a]) blast
    have "registrable (arrival_runtime True a) m"
      by (rule idle_registrable[OF inv mode x(1) _ x(3)]) (use x(2) in \<open>simp_all add: restorable_def Let_def\<close>)
    then show "view_active (fst a) = True \<and> registrable (arrival_runtime True a) m1"
      using x(4) saved_registrable[OF save] by simp
  qed
  show "sorted_wrt (\<lambda>a b. independent (arrival_runtime True a) (arrival_runtime True b)) (restored_arrivals h m)"
  proof (rule sorted_wrt_distinct[OF restored_ids[OF cat]])
    fix a b assume ab: "a \<in> set (restored_arrivals h m)" "b \<in> set (restored_arrivals h m)" "iv_id (fst a) \<noteq> iv_id (fst b)"
    obtain p x where x: "inst_of m x = Some p" "x = iv_id (fst a)" "rt_key (arrival_runtime True a) = rt_key (runtime_at m p)"
      by (rule restored_arrival_facts[OF cat ab(1)]) blast
    obtain q y where y: "inst_of m y = Some q" "y = iv_id (fst b)" "rt_key (arrival_runtime True b) = rt_key (runtime_at m q)"
      by (rule restored_arrival_facts[OF cat ab(2)]) blast
    show "independent (arrival_runtime True a) (arrival_runtime True b)"
      by (rule listed_independent[OF inv mode x(1) y(1) _ x(3) y(3)]) (use x y ab(3) in simp)
  qed
qed

text \<open>A restore changes nothing, or it resumes every pending instance.\<close>

lemma restore_cases:
  assumes "restore h m = (r, m')"
  obtains (idle) "m' = m"
  | (resumed) m1 where "mg_registry m \<noteq> None" "save_views (h_registry_err h) (map snd (restored_views h m)) m = (None, m1)"
      "m' = fold (\<lambda>a. register_runtime (fst a) (fst (snd a)) (snd (snd a)) True) (restored_arrivals h m) m1"
      "r = Inr (length (restored_views h m))"
proof (cases "mg_registry m = None \<or> h_gate_err h \<noteq> None \<or> closed_to_starts m")
  case True
  then have "m' = m" using assms by (auto simp: restore_def split: option.splits if_splits)
  then show ?thesis by (rule idle)
next
  case False
  obtain e m1 where save: "save_views (h_registry_err h) (map snd (restored_views h m)) m = (e, m1)" by force
  show ?thesis
  proof (cases e)
    case (Some err)
    then have "m1 = m" using save by (auto simp: save_views_def split: option.splits)
    then have "m' = m" using False assms save Some by (auto simp: restore_def Let_def split: option.splits)
    then show ?thesis by (rule idle)
  next
    case None
    have "m' = fold (\<lambda>(ptr, v). register_runtime v (rt_config_identity (runtime_at m ptr)) (rt_config (runtime_at m ptr)) True)
        (restored_views h m) m1" "r = Inr (length (restored_views h m))"
      using False assms save None by (auto simp: restore_def Let_def split: option.splits)
    then show ?thesis
      using False save None
      by (intro resumed[of m1]) (simp_all add: restored_arrivals_def fold_map comp_def case_prod_unfold)
  qed
qed

lemma restore_inv:
  assumes inv: "manager_inv m" and run: "restore h m = (r, m')"
  shows "manager_inv m' \<and> (mg_registry m' = None \<longleftrightarrow> mg_registry m = None)"
  using run
proof (cases rule: restore_cases)
  case (resumed m1)
  have "mg_registry m1 \<noteq> None" using save_views_registry[OF resumed(2)] resumed(1) by auto
  from register_arrivals_inv[OF save_views_inv[OF inv resumed(2)] this
    restored_arrivals_ok(1)[OF inv resumed(1,2), of h] restored_arrivals_ok(2)[OF inv resumed(1,2), of h]]
  show ?thesis unfolding resumed(3) using resumed(1) by auto
qed (use inv in simp)

section \<open>Loading the registry\<close>

lemma registrable_key:
  assumes "rt_key a = rt_key b" and "\<not> rt_remove_on_exit a" "\<not> rt_remove_on_exit b"
  shows "registrable a m = registrable b m"
proof -
  note parts = key_parts[OF assms(1)]
  have eqs: "rt_id a = rt_id b" "rt_name a = rt_name b" "database_of a = database_of b"
    "rt_config_identity a = rt_config_identity b" using parts by simp_all
  show ?thesis unfolding registrable_def catalog_free_def durable_free_def eqs using assms(2,3) by simp
qed

lemma independent_key: "rt_key a = rt_key a' \<Longrightarrow> rt_key b = rt_key b' \<Longrightarrow> independent a b = independent a' b'"
  using key_parts[of a a'] key_parts[of b b'] by (simp add: independent_def)

definition row_runtime :: "registry_row \<Rightarrow> runtime" where
  "row_runtime r = registered_runtime (rr_view r) (rr_identity r) None False"

lemma loaded_view_facts:
  "iv_id (loaded_view now e quote v) = iv_id v" "iv_name (loaded_view now e quote v) = iv_name v"
  "iv_database_path (loaded_view now e quote v) = iv_database_path v" "\<not> view_active (loaded_view now e quote v)"
  "iv_desired_state (loaded_view now e quote v) = iv_desired_state v"
  by (auto simp: loaded_view_def Let_def view_active_def split: option.splits)

lemma load_row_added:
  assumes "load_row alnum quote now r m = Inr m'"
  obtains v cfg where "added (registered_runtime v (rr_identity r) cfg False) m m'" "\<not> view_active v"
    "rt_key (registered_runtime v (rr_identity r) cfg False) = rt_key (row_runtime r)" "row_valid alnum r"
    "iv_desired_state v = iv_desired_state (rr_view r)"
proof (cases "validate_config (rr_config r)")
  case (Inr cfg)
  let ?v = "loaded_view now None quote (rr_view r)"
  have m': "m' = register_runtime ?v (rr_identity r) (Some cfg) False m" "row_valid alnum r"
    using assms Inr by (auto simp: load_row_def split: if_splits)
  have idle: "view_active ?v = False" by (simp add: loaded_view_facts)
  show ?thesis
    by (rule that[of ?v "Some cfg"])
      (use register_runtime_added[OF idle] m' in \<open>simp_all add: loaded_view_facts rt_key_def row_runtime_def\<close>)
next
  case (Inl e)
  let ?v = "loaded_view now (Some e) quote (rr_view r)"
  let ?m1 = "register_runtime ?v (rr_identity r) (Some (rr_config r)) False m"
  have m': "m' = ?m1\<lparr>mg_heap := (mg_heap ?m1)[length (mg_heap m) := (runtime_at ?m1 (length (mg_heap m)))\<lparr>rt_config := None\<rparr>]\<rparr>"
    "row_valid alnum r"
    using assms Inl by (auto simp: load_row_def Let_def split: if_splits)
  have idle: "view_active ?v = False" by (simp add: loaded_view_facts)
  note add = register_runtime_added[OF idle, of "rr_identity r" "Some (rr_config r)" m]
  have "added (registered_runtime ?v (rr_identity r) None False) m m'"
    using add added_at(2)[OF add] by (simp add: m'(1) added_def registered_runtime_def)
  then show ?thesis
    by (rule that[of ?v None]) (use m' in \<open>simp_all add: loaded_view_facts rt_key_def row_runtime_def\<close>)
qed

text \<open>Rows a registry of this program can hold: unique IDs, names and configurations, and a queue file
  named after the ID.\<close>

definition rows_ok :: "string \<Rightarrow> registry_row list \<Rightarrow> bool" where
  "rows_ok directory rows \<longleftrightarrow> distinct (map rr_id rows) \<and> distinct (map rr_name rows) \<and> distinct (map rr_identity rows) \<and>
    set (map rr_id rows) \<inter> set (map rr_name rows) = {} \<and>
    (\<forall>r \<in> set rows. iv_database_path (rr_view r) = join_path [directory, ''queues'', rr_id r @ ''.sqlite''])"

lemma load_rows_inv:
  assumes "manager_inv m" and "mg_registry m \<noteq> None"
    and "\<forall>r \<in> set rows. row_valid alnum r \<longrightarrow> registrable (row_runtime r) m"
    and "sorted_wrt (\<lambda>a b. row_valid alnum a \<and> row_valid alnum b \<longrightarrow> independent (row_runtime a) (row_runtime b)) rows"
    and "load_rows alnum quote now i rows m = Inr m'"
  shows "manager_inv m' \<and> mg_registry m' \<noteq> None"
  using assms
proof (induction rows arbitrary: m i)
  case (Cons r rows)
  from Cons.prems(5) obtain m1 where m1: "load_row alnum quote (now i) r m = Inr m1"
    "load_rows alnum quote now (i + 1) rows m1 = Inr m'" by (auto split: sum.splits)
  obtain v cfg where add: "added (registered_runtime v (rr_identity r) cfg False) m m1" "\<not> view_active v"
    "rt_key (registered_runtime v (rr_identity r) cfg False) = rt_key (row_runtime r)" "row_valid alnum r"
    "iv_desired_state v = iv_desired_state (rr_view r)"
    by (rule load_row_added[OF m1(1)])
  let ?rt = "registered_runtime v (rr_identity r) cfg False"
  have "\<not> rt_remove_on_exit (row_runtime b)" for b by (simp add: row_runtime_def)
  then have key: "registrable ?rt m = registrable (row_runtime r) m" using registrable_key[OF add(3)] by simp
  have "phase_ok ?rt" using add(2) by simp
  moreover have "registrable ?rt m" using key Cons.prems(3) add(4) by simp
  ultimately have now: "manager_inv m1" "mg_registry m1 \<noteq> None"
    using added_registered_inv[OF Cons.prems(1,2) add(1)] by simp_all
  have cat: "catalog_ok m" using Cons.prems(1) by (simp add: manager_inv_def)
  have "registrable (row_runtime b) m1" if "b \<in> set rows" "row_valid alnum b" for b
  proof (rule added_registrable[OF cat add(1)])
    show "registrable (row_runtime b) m" using Cons.prems(3) that by simp
    have "independent (row_runtime r) (row_runtime b)" using Cons.prems(4) add(4) that by simp
    then show "independent ?rt (row_runtime b)" using independent_key[OF add(3) refl] by simp
  qed
  then show ?case using Cons.IH[OF now _ _ m1(2)] Cons.prems(4) by simp
qed simp

lemma empty_manager_inv:
  assumes "is_abs directory" shows "manager_inv (empty_manager retained directory rows)"
  using assms
  by (simp add: manager_inv_def empty_manager_def catalog_ok_def active_listed_def owners_match_def durable_ok_def)

lemma new_manager_inv:
  assumes dir: "is_abs directory" and rows: "\<And>rs. rows = Some rs \<Longrightarrow> rows_ok directory rs"
    and new: "new_manager opts alnum quote now directory rows = Inr m"
  shows "manager_inv m \<and> (mg_registry m = None \<longleftrightarrow> rows = None)"
proof (cases rows)
  case None
  with new empty_manager_inv[OF dir] show ?thesis
    by (auto simp: new_manager_def Let_def empty_manager_def split: if_splits)
next
  case (Some rs)
  then obtain retained where load: "load_rows alnum quote now 0 rs (empty_manager retained directory (Some rs)) = Inr m"
    using new by (auto simp: new_manager_def Let_def split: if_splits)
  let ?m0 = "empty_manager retained directory (Some rs)"
  have ok: "rows_ok directory rs" using rows Some by simp
  have facts: "rt_id (row_runtime r) = rr_id r" "rt_name (row_runtime r) = rr_name r" "valid_id (rr_id r)" if "row_valid alnum r" for r
    using that by (simp_all add: row_valid_def row_runtime_def)
  have "\<forall>r \<in> set rs. row_valid alnum r \<longrightarrow> registrable (row_runtime r) ?m0"
  proof (intro ballI impI)
    fix r assume r: "r \<in> set rs" "row_valid alnum r"
    have "rr_id r \<in> set (map rr_id rs)" "rr_name r \<in> set (map rr_name rs)" using r(1) by simp_all
    then have "rr_name r \<noteq> rr_id r" using ok unfolding rows_ok_def by (metis disjoint_iff)
    moreover have "iv_database_path (rr_view r) = join_path [directory, ''queues'', rr_id r @ ''.sqlite'']"
      using ok r(1) by (simp add: rows_ok_def)
    ultimately show "registrable (row_runtime r) ?m0"
      using facts[OF r(2)]
      by (simp add: registrable_def catalog_free_def durable_free_def queue_file_def empty_manager_def row_runtime_def)
  qed
  moreover have "sorted_wrt (\<lambda>a b. row_valid alnum a \<and> row_valid alnum b \<longrightarrow> independent (row_runtime a) (row_runtime b)) rs"
  proof (rule sorted_wrt_distinct[where f=rr_id])
    show "distinct (map rr_id rs)" using ok by (simp add: rows_ok_def)
    fix a b assume ab: "a \<in> set rs" "b \<in> set rs" "rr_id a \<noteq> rr_id b"
    then have "a \<noteq> b" by auto
    have "rr_name a \<noteq> rr_name b" "rr_identity a \<noteq> rr_identity b"
      using ok ab \<open>a \<noteq> b\<close> unfolding rows_ok_def distinct_map by (meson inj_onD)+
    moreover have "rr_id a \<noteq> rr_name b" "rr_name a \<noteq> rr_id b"
      using ok ab unfolding rows_ok_def by (metis disjoint_iff image_eqI list.set_map)+
    ultimately show "row_valid alnum a \<and> row_valid alnum b \<longrightarrow> independent (row_runtime a) (row_runtime b)"
      using ab(3) facts by (simp add: independent_def) (simp add: row_runtime_def)
  qed
  ultimately show ?thesis
    using load_rows_inv[OF empty_manager_inv[OF dir] _ _ _ load] Some by (simp add: empty_manager_def)
qed

end
