(* ===== verification/ManagerRegister.thy ===== *)
theory ManagerRegister
  imports ManagerDurable
begin

text \<open>
  Registering configurations keeps the invariant: the files of one request are different from each other,
  a file that is registered already starts its own instance again, and a new one gets a fresh name, a
  fresh ID and its own queue file.
\<close>

section \<open>The files of a request\<close>

lemma same_path_refl: "same_path h p p \<noteq> Inr False"
  by (simp add: same_path_def paths_equivalent_def split: sum.split)

definition item_of :: "(string \<times> string) list \<Rightarrow> registered_item \<Rightarrow> bool" where
  "item_of identities item \<longleftrightarrow>
    (if ri_existing item = [] then ri_identity item \<notin> fst ` set identities
     else (ri_identity item, ri_existing item) \<in> set identities)"

lemma compare_items_None:
  "compare_items h p identity items = None \<Longrightarrow> item \<in> set items \<Longrightarrow> same_path h identity (ri_identity item) = Inr False"
  by (induction h p identity items rule: compare_items.induct) (auto split: sum.splits if_splits)

lemma find_identity_Some:
  "find_identity h identity ids = Inr (Some (known, x)) \<Longrightarrow> (known, x) \<in> set ids \<and> same_path h identity known = Inr True"
  by (induction h identity ids rule: find_identity.induct) (auto split: sum.splits if_splits)

lemma find_identity_None:
  "find_identity h identity ids = Inr None \<Longrightarrow> identity \<notin> fst ` set ids"
  by (induction h identity ids rule: find_identity.induct) (auto simp: same_path_refl split: sum.splits if_splits)

lemma load_item_facts:
  assumes load: "load_item h ids i items p = Inr item" and ids: "\<forall>e \<in> set ids. snd e \<noteq> []"
  shows "item_of ids item" and "ri_identity item \<notin> ri_identity ` set items"
proof -
  from load obtain identity found where parts: "compare_items h p identity items = None"
    "find_identity h identity ids = Inr found"
    "ri_identity item = (case found of None \<Rightarrow> identity | Some (known, x) \<Rightarrow> known)"
    "ri_existing item = (case found of None \<Rightarrow> [] | Some (known, x) \<Rightarrow> x)"
    by (auto simp: load_item_def on_error_Inr split: sum.splits option.splits)
  show "item_of ids item"
  proof (cases found)
    case None
    then show ?thesis using parts find_identity_None by (simp add: item_of_def)
  next
    case (Some kx)
    then obtain known x where kx: "found = Some (known, x)" by (cases kx) simp
    then have "(known, x) \<in> set ids" using find_identity_Some parts(2) by simp
    then show ?thesis using parts(3,4) kx ids by (auto simp: item_of_def)
  qed
  show "ri_identity item \<notin> ri_identity ` set items"
  proof
    assume "ri_identity item \<in> ri_identity ` set items"
    then obtain prev where prev: "prev \<in> set items" "ri_identity prev = ri_identity item" by auto
    have diff: "same_path h identity (ri_identity item) = Inr False"
      using compare_items_None[OF parts(1) prev(1)] prev(2) by simp
    show False
    proof (cases found)
      case None
      then show ?thesis using diff parts(3) same_path_refl by simp
    next
      case (Some kx)
      then obtain known x where "found = Some (known, x)" by (cases kx) simp
      then show ?thesis using diff parts(2,3) find_identity_Some by fastforce
    qed
  qed
qed

lemma load_items_facts:
  assumes "load_items h ids i items paths = Inr result" and "\<forall>e \<in> set ids. snd e \<noteq> []"
    and "\<forall>item \<in> set items. item_of ids item" and "distinct (map ri_identity items)"
  shows "(\<forall>item \<in> set result. item_of ids item) \<and> distinct (map ri_identity result) \<and>
    length result = length items + length paths"
  using assms
proof (induction paths arbitrary: i items)
  case (Cons p paths)
  from Cons.prems(1) obtain item where item: "load_item h ids i items p = Inr item"
    "load_items h ids (i + 1) (items @ [item]) paths = Inr result" by (auto split: sum.splits)
  note facts = load_item_facts[OF item(1) Cons.prems(2)]
  show ?case using Cons.IH[OF item(2) Cons.prems(2)] Cons.prems(3,4) facts by simp
qed simp

section \<open>The registrations\<close>

text \<open>An item is a registered configuration, or one that no instance has.\<close>

definition item_ok :: "manager \<Rightarrow> registered_item \<Rightarrow> bool" where
  "item_ok m item \<longleftrightarrow>
    (if ri_existing item = []
     then \<forall>y q. inst_of m y = Some q \<longrightarrow> rt_config_identity (runtime_at m q) \<noteq> ri_identity item
     else \<exists>q. inst_of m (ri_existing item) = Some q \<and> rt_config_identity (runtime_at m q) = ri_identity item)"

lemma item_of_ok:
  assumes cat: "catalog_ok m" and item: "item_of (identities_of m) item"
  shows "item_ok m item"
proof -
  have mem: "(k, x) \<in> set (identities_of m) \<longleftrightarrow> (\<exists>q. inst_of m x = Some q \<and> rt_config_identity (runtime_at m q) = k)" for k x
  proof -
    have "(k, x) \<in> set (identities_of m) \<longleftrightarrow> (\<exists>q. (x, q) \<in> set (mg_instances m) \<and> rt_config_identity (runtime_at m q) = k)"
      by (force simp: identities_of_def)
    then show ?thesis using cat by (simp add: catalog_ok_def)
  qed
  have keys: "k \<in> fst ` set (identities_of m) \<longleftrightarrow> (\<exists>x q. inst_of m x = Some q \<and> rt_config_identity (runtime_at m q) = k)" for k
  proof -
    have "k \<in> fst ` set (identities_of m) \<longleftrightarrow> (\<exists>x. (k, x) \<in> set (identities_of m))" by force
    then show ?thesis unfolding mem .
  qed
  show ?thesis using item unfolding item_of_def item_ok_def keys mem by auto
qed

lemma same_catalog_identities:
  assumes "same_catalog m0 m" and "catalog_ok m0"
  shows "identities_of m = identities_of m0"
proof -
  have "rt_config_identity (runtime_at m (snd e)) = rt_config_identity (runtime_at m0 (snd e))" if "e \<in> set (mg_instances m0)" for e
  proof -
    have "inst_of m0 (fst e) = Some (snd e)" using that assms(2) by (simp add: catalog_ok_def)
    then have "snd e < length (mg_heap m0)" by (rule catalogD(1)[OF assms(2)])
    then have "rt_key (runtime_at m (snd e)) = rt_key (runtime_at m0 (snd e))" using assms(1) by (simp add: same_catalog_def)
    then show ?thesis using key_parts by blast
  qed
  then show ?thesis using assms(1) by (simp add: identities_of_def same_catalog_def)
qed

definition fresh_view :: "manager \<Rightarrow> string list \<Rightarrow> instance_view \<Rightarrow> bool" where
  "fresh_view m reserved v \<longleftrightarrow> valid_id (iv_id v) \<and> iv_database_path v = queue_file m (iv_id v) \<and> iv_id v \<noteq> iv_name v \<and>
    iv_id v \<notin> set (taken_names m @ reserved) \<and> iv_name v \<notin> set (taken_names m @ reserved)"

definition idle_view :: "manager \<Rightarrow> string \<Rightarrow> instance_view \<Rightarrow> bool" where
  "idle_view m identity v \<longleftrightarrow>
    (\<exists>p. inst_of m (iv_id v) = Some p \<and> \<not> rt_active (runtime_at m p) \<and> iv_name v = rt_name (runtime_at m p) \<and>
      iv_database_path v = database_of (runtime_at m p) \<and> identity = rt_config_identity (runtime_at m p))"

lemma idle_view_runtime:
  assumes "catalog_ok m" and "idle_view m identity v"
  obtains p where "inst_of m (iv_id v) = Some p" "\<not> rt_active (runtime_at m p)"
    "rt_key (registered_runtime v identity cfg launch) = rt_key (runtime_at m p)"
proof -
  from assms(2) obtain p where p: "inst_of m (iv_id v) = Some p" "\<not> rt_active (runtime_at m p)"
    "iv_name v = rt_name (runtime_at m p)" "iv_database_path v = database_of (runtime_at m p)"
    "identity = rt_config_identity (runtime_at m p)" unfolding idle_view_def by blast
  show ?thesis by (rule that[OF p(1,2)]) (use p(3-5) catalogD(2)[OF assms(1) p(1)] in \<open>simp add: rt_key_def\<close>)
qed

lemma item_view_facts:
  assumes cat: "catalog_ok m" and ok: "item_ok m item" and res: "name = [] \<or> reserved = []"
    and view: "item_view h m name reserved n now item = Inr (v, reserved', n')"
  shows "if ri_existing item = [] then fresh_view m reserved v \<and> reserved' = iv_id v # iv_name v # reserved
    else idle_view m (ri_identity item) v \<and> reserved' = reserved"
proof (cases "ri_existing item = []")
  case True
  define name1 where "name1 = (if name = [] then available_name (taken_names m @ reserved) (automatic_name (h_alnum h) (ri_path item)) else name)"
  obtain r n1 where draw: "available_id (h_lower h) (h_gen h) (taken_names m @ name1 # reserved) n = (r, n1)" by force
  have "name1 \<notin> set (taken_names m @ reserved)"
  proof (cases "name = []")
    case True
    then show ?thesis using available_name_fresh[of "taken_names m @ reserved"] by (simp add: name1_def)
  next
    case False
    then have "map_of (mg_names m) name = None" "inst_of m name = None"
      using view True by (auto simp: item_view_def Let_def split: if_splits)
    then show ?thesis using False res not_taken[of name m] by (simp add: name1_def)
  qed
  moreover obtain x where x: "r = Inr x" using view True draw
    by (cases r) (auto simp: item_view_def Let_def name1_def[symmetric] split: if_splits)
  moreover have "iv_id v = x \<and> iv_name v = name1 \<and> iv_database_path v = queue_file m x \<and> reserved' = x # name1 # reserved"
    using view True draw x by (auto simp: item_view_def Let_def name1_def[symmetric] queue_file_def split: if_splits)
  ultimately show ?thesis using available_id_ok[OF draw[unfolded x]] True by (auto simp: fresh_view_def)
next
  case False
  then obtain p where p: "inst_of m (ri_existing item) = Some p" "rt_config_identity (runtime_at m p) = ri_identity item"
    using ok by (auto simp: item_ok_def)
  have "v = (rt_view (runtime_at m p))\<lparr>iv_config_path := ri_path item\<rparr> \<and> reserved' = reserved \<and> \<not> rt_active (runtime_at m p)"
    using view False p(1) by (auto simp: item_view_def Let_def split: if_splits)
  then show ?thesis using p catalogD(2)[OF cat p(1)] False by (simp add: idle_view_def)
qed

abbreviation reg_runtime :: "registration \<Rightarrow> runtime" where
  "reg_runtime g \<equiv> registered_runtime (rg_view g) (rg_identity g) (Some (rg_config g)) True"

definition reg_ok :: "manager \<Rightarrow> string list \<Rightarrow> registered_item \<Rightarrow> registration \<Rightarrow> bool" where
  "reg_ok m reserved item g \<longleftrightarrow> rg_identity g = ri_identity item \<and> view_active (rg_view g) \<and>
    (if ri_existing item = [] then fresh_view m reserved (rg_view g) else idle_view m (rg_identity g) (rg_view g))"

lemma reg_ok_idle: "reg_ok m reserved item g \<Longrightarrow> ri_existing item \<noteq> [] \<Longrightarrow> idle_view m (rg_identity g) (rg_view g)"
  by (auto simp: reg_ok_def)

lemma prepare_items_step:
  assumes "catalog_ok m" and "item_ok m item" and "name = [] \<or> reserved = []"
    and "prepare_items h m name reserved n i (item # items) = Inr gs"
  obtains g gs' reserved' n' where "gs = g # gs'" "reg_ok m reserved item g"
    "prepare_items h m name reserved' n' (i + 1) items = Inr gs'"
    "reserved' = (if ri_existing item = [] then iv_id (rg_view g) # iv_name (rg_view g) # reserved else reserved)"
proof -
  from assms(4) obtain v reserved' n' cfg hash gs' where step:
    "item_view h m name reserved n (h_now h (2 * i)) item = Inr (v, reserved', n')"
    "prepare_items h m name reserved' n' (i + 1) items = Inr gs'"
    "gs = \<lparr>rg_view = (running_again (h_now h (2 * i + 1)) v)\<lparr>iv_config_hash := hash, iv_desired_state := ''running''\<rparr>,
           rg_identity = ri_identity item, rg_config = cfg\<rparr> # gs'"
    by (auto simp: Let_def split: sum.splits prod.splits)
  let ?g = "\<lparr>rg_view = (running_again (h_now h (2 * i + 1)) v)\<lparr>iv_config_hash := hash, iv_desired_state := ''running''\<rparr>,
           rg_identity = ri_identity item, rg_config = cfg\<rparr>"
  have act: "view_active (rg_view ?g)" by (simp add: running_again_def view_active_def)
  note facts = item_view_facts[OF assms(1-3) step(1)]
  show ?thesis
    by (rule that[OF step(3) _ step(2)])
      (use facts act in \<open>auto simp: reg_ok_def fresh_view_def idle_view_def split: if_splits\<close>)
qed

lemma reg_registrable:
  assumes inv: "manager_inv m" "mg_registry m \<noteq> None" and ok: "item_ok m item" and g: "reg_ok m reserved item g"
  shows "registrable (reg_runtime g) m"
proof (cases "ri_existing item = []")
  case True
  then have fresh: "fresh_view m reserved (rg_view g)" and id: "rg_identity g = ri_identity item"
    using g by (simp_all add: reg_ok_def)
  have "inst_of m (iv_id (rg_view g)) = None" "map_of (mg_names m) (iv_id (rg_view g)) = None"
    "inst_of m (iv_name (rg_view g)) = None" "map_of (mg_names m) (iv_name (rg_view g)) = None"
    using fresh not_taken[of _ m] by (simp_all add: fresh_view_def)
  moreover have "\<forall>y q. inst_of m y = Some q \<longrightarrow> rt_config_identity (runtime_at m q) \<noteq> rg_identity g"
    using ok True id by (simp add: item_ok_def)
  ultimately show ?thesis
    using fresh by (auto simp: registrable_def catalog_free_def durable_free_def fresh_view_def)
next
  case False
  then have idle: "idle_view m (rg_identity g) (rg_view g)" by (rule reg_ok_idle[OF g])
  have cat: "catalog_ok m" using inv by (simp add: manager_inv_def)
  obtain p where p: "inst_of m (iv_id (rg_view g)) = Some p" "\<not> rt_active (runtime_at m p)"
    "rt_key (reg_runtime g) = rt_key (runtime_at m p)" by (rule idle_view_runtime[OF cat idle])
  show ?thesis by (rule idle_registrable[OF inv p(1,2,3)]) simp
qed

lemma disjoint_pairs: "c \<notin> X \<Longrightarrow> d \<notin> X \<Longrightarrow> {a, b} \<subseteq> X \<Longrightarrow> {a, b} \<inter> {c, d} = {}"
  by blast

lemma reg_independent:
  assumes inv: "manager_inv m" "mg_registry m \<noteq> None" and diff: "rg_identity g \<noteq> rg_identity g'"
    and g: "reg_ok m reserved item g" and g': "reg_ok m reserved' item' g'"
    and res: "ri_existing item = [] \<Longrightarrow> {iv_id (rg_view g), iv_name (rg_view g)} \<subseteq> set reserved'"
  shows "independent (reg_runtime g) (reg_runtime g')"
proof -
  have cat: "catalog_ok m" using inv by (simp add: manager_inv_def)
  have taken: "iv_id v \<in> set (taken_names m) \<and> iv_name v \<in> set (taken_names m)" if "idle_view m k v" for k v
  proof -
    from that obtain p where p: "inst_of m (iv_id v) = Some p" "iv_name v = rt_name (runtime_at m p)"
      by (auto simp: idle_view_def)
    have "iv_id v \<in> set (taken_names m)" using p(1) not_taken[of "iv_id v" m] by auto
    moreover have "iv_name v \<in> set (taken_names m)" using catalogD(3)[OF cat p(1)] p(2) not_taken[of "iv_name v" m] by auto
    ultimately show ?thesis ..
  qed
  show ?thesis
  proof (cases "ri_existing item = [] \<or> ri_existing item' = []")
    case True
    have "{iv_id (rg_view g), iv_name (rg_view g)} \<inter> {iv_id (rg_view g'), iv_name (rg_view g')} = {}"
    proof (cases "ri_existing item' = []")
      case True
      then have "iv_id (rg_view g') \<notin> set (taken_names m @ reserved')" "iv_name (rg_view g') \<notin> set (taken_names m @ reserved')"
        using g' by (simp_all add: reg_ok_def fresh_view_def)
      moreover have "{iv_id (rg_view g), iv_name (rg_view g)} \<subseteq> set (taken_names m @ reserved')"
      proof (cases "ri_existing item = []")
        case True
        then show ?thesis using res by auto
      next
        case False
        then show ?thesis using taken g by (auto simp: reg_ok_def)
      qed
      ultimately show ?thesis by (rule disjoint_pairs)
    next
      case False
      then have "ri_existing item = []" using True by simp
      then have "iv_id (rg_view g) \<notin> set (taken_names m)" "iv_name (rg_view g) \<notin> set (taken_names m)"
        using g by (simp_all add: reg_ok_def fresh_view_def)
      moreover have "iv_id (rg_view g') \<in> set (taken_names m)" "iv_name (rg_view g') \<in> set (taken_names m)"
        using taken g' False by (auto simp: reg_ok_def)
      ultimately show ?thesis by auto
    qed
    then show ?thesis using diff by (auto simp: independent_def)
  next
    case False
    then have idle: "idle_view m (rg_identity g) (rg_view g)" "idle_view m (rg_identity g') (rg_view g')"
      using reg_ok_idle[OF g] reg_ok_idle[OF g'] by simp_all
    obtain p where p: "inst_of m (iv_id (rg_view g)) = Some p" "rt_key (reg_runtime g) = rt_key (runtime_at m p)"
      by (rule idle_view_runtime[OF cat idle(1)])
    obtain q where q: "inst_of m (iv_id (rg_view g')) = Some q" "rt_key (reg_runtime g') = rt_key (runtime_at m q)"
      by (rule idle_view_runtime[OF cat idle(2)])
    have "iv_id (rg_view g) \<noteq> iv_id (rg_view g')"
    proof
      assume "iv_id (rg_view g) = iv_id (rg_view g')"
      then have "p = q" using p q by simp
      then have "rt_key (reg_runtime g) = rt_key (reg_runtime g')" using p q by simp
      then show False using diff by (simp add: rt_key_def)
    qed
    then show ?thesis by (rule listed_independent[OF inv p(1) q(1) _ p(2) q(2)])
  qed
qed

lemma prepare_items_regs:
  assumes "manager_inv m" "mg_registry m \<noteq> None" and "\<forall>item \<in> set items. item_ok m item"
    and "distinct (map ri_identity items)" and "name = [] \<or> reserved = [] \<and> length items \<le> 1"
    and "prepare_items h m name reserved n i items = Inr gs"
  shows "(\<forall>g \<in> set gs. \<exists>item \<in> set items. \<exists>res. set reserved \<subseteq> set res \<and> reg_ok m res item g) \<and>
    sorted_wrt (\<lambda>g g'. independent (reg_runtime g) (reg_runtime g')) gs"
  using assms
proof (induction items arbitrary: reserved n i gs)
  case (Cons item items)
  have cat: "catalog_ok m" using Cons.prems(1) by (simp add: manager_inv_def)
  have ok: "item_ok m item" "name = [] \<or> reserved = []" using Cons.prems(3,5) by auto
  obtain g gs' reserved' n' where step: "gs = g # gs'" "reg_ok m reserved item g"
    "prepare_items h m name reserved' n' (i + 1) items = Inr gs'"
    "reserved' = (if ri_existing item = [] then iv_id (rg_view g) # iv_name (rg_view g) # reserved else reserved)"
    by (rule prepare_items_step[OF cat ok Cons.prems(6)])
  have rest: "(\<forall>g \<in> set gs'. \<exists>item \<in> set items. \<exists>res. set reserved' \<subseteq> set res \<and> reg_ok m res item g) \<and>
      sorted_wrt (\<lambda>g g'. independent (reg_runtime g) (reg_runtime g')) gs'"
  proof (cases items)
    case Nil
    then show ?thesis using step(3) by simp
  next
    case (Cons i1 is1)
    then show ?thesis using Cons.IH[OF Cons.prems(1,2) _ _ _ step(3)] Cons.prems(3,4,5) by simp
  qed
  have sub: "set reserved \<subseteq> set reserved'" using step(4) by auto
  have "independent (reg_runtime g) (reg_runtime g')" if g': "g' \<in> set gs'" for g'
  proof -
    obtain item' res where r: "item' \<in> set items" "set reserved' \<subseteq> set res" "reg_ok m res item' g'" using rest g' by blast
    have "ri_identity item \<notin> ri_identity ` set items" using Cons.prems(4) by simp
    then have "rg_identity g \<noteq> rg_identity g'" using r(1,3) step(2) by (auto simp: reg_ok_def)
    then show ?thesis
      by (rule reg_independent[OF Cons.prems(1,2) _ step(2) r(3)]) (use r(2) step(4) in auto)
  qed
  moreover have "\<exists>item' \<in> set (item # items). \<exists>res. set reserved \<subseteq> set res \<and> reg_ok m res item' g'" if "g' \<in> set gs" for g'
    using that rest sub step(1,2) by fastforce
  ultimately show ?case using rest step(1) by simp
qed simp

text \<open>A request changes nothing, or it saves and publishes all of its registrations.\<close>

abbreviation reg_arrivals :: "registration list \<Rightarrow> arrival list" where
  "reg_arrivals gs \<equiv> map (\<lambda>g. (rg_view g, rg_identity g, Some (rg_config g))) gs"

lemma register_items_cases:
  assumes "register_items h name items m = (r, m')" and "mg_registry m = Some rows"
  obtains (refused) e where "m' = m" "r = Inl e"
  | (registered) gs rows' where "\<not> closed_to_starts m" "prepare_items h m name [] 0 0 items = Inr gs"
      "registry_save gs rows = Inr rows'" "r = Inr (map rg_view gs)"
      "m' = fold (\<lambda>a. register_runtime (fst a) (fst (snd a)) (snd (snd a)) True) (reg_arrivals gs)
        (m\<lparr>mg_registry := Some rows'\<rparr>)"
proof (cases "closed_to_starts m \<or> isl (prepare_items h m name [] 0 0 items)")
  case True
  then have "m' = m \<and> (\<exists>e. r = Inl e)" using assms(1) by (auto simp: register_items_def split: sum.splits if_splits)
  then show ?thesis using refused by blast
next
  case False
  then obtain gs where gs: "prepare_items h m name [] 0 0 items = Inr gs" by (cases "prepare_items h m name [] 0 0 items") auto
  obtain e m1 where save: "registry_commit (h_registry_err h) gs m = (e, m1)" by force
  show ?thesis
  proof (cases e)
    case (Some err)
    then have "m1 = m" using save assms(2) by (auto simp: registry_commit_def split: option.splits sum.splits)
    then have "m' = m \<and> (\<exists>e. r = Inl e)" using assms(1) False gs save Some by (auto simp: register_items_def)
    then show ?thesis using refused by blast
  next
    case None
    then obtain rows' where rows': "registry_save gs rows = Inr rows'" "m1 = m\<lparr>mg_registry := Some rows'\<rparr>"
      using save assms(2) by (auto simp: registry_commit_def split: option.splits sum.splits)
    then show ?thesis
      using assms(1) False gs save None
      by (intro registered[OF _ gs rows'(1)]) (simp_all add: register_items_def register_all_def fold_map comp_def)
  qed
qed

lemma registrations_ok:
  assumes inv: "manager_inv m" and mode: "mg_registry m \<noteq> None"
    and items: "\<forall>item \<in> set items. item_ok m item" "distinct (map ri_identity items)" "name = [] \<or> length items \<le> 1"
    and gs: "prepare_items h m name [] 0 0 items = Inr gs"
  shows "\<forall>a \<in> set (reg_arrivals gs). view_active (fst a) = True \<and> registrable (arrival_runtime True a) (m\<lparr>mg_registry := rows\<rparr>)"
    and "sorted_wrt (\<lambda>a b. independent (arrival_runtime True a) (arrival_runtime True b)) (reg_arrivals gs)"
proof -
  have regs: "(\<forall>g \<in> set gs. \<exists>item \<in> set items. \<exists>res. set [] \<subseteq> set res \<and> reg_ok m res item g) \<and>
      sorted_wrt (\<lambda>g g'. independent (reg_runtime g) (reg_runtime g')) gs"
    by (rule prepare_items_regs[OF inv mode items(1,2) _ gs]) (use items(3) in simp)
  have "registrable (reg_runtime g) (m\<lparr>mg_registry := rows\<rparr>) \<and> view_active (rg_view g)" if "g \<in> set gs" for g
  proof -
    from regs that obtain item res where "item \<in> set items" "reg_ok m res item g" by blast
    then have "registrable (reg_runtime g) m" "view_active (rg_view g)"
      using reg_registrable[OF inv mode] items(1) by (auto simp: reg_ok_def)
    moreover have "registrable (reg_runtime g) (m\<lparr>mg_registry := rows\<rparr>) = registrable (reg_runtime g) m"
      by (rule registrable_cong) simp_all
    ultimately show ?thesis by simp
  qed
  then show "\<forall>a \<in> set (reg_arrivals gs). view_active (fst a) = True \<and> registrable (arrival_runtime True a) (m\<lparr>mg_registry := rows\<rparr>)"
    by simp
  show "sorted_wrt (\<lambda>a b. independent (arrival_runtime True a) (arrival_runtime True b)) (reg_arrivals gs)"
    using regs by (simp add: sorted_wrt_map)
qed

lemma register_items_inv:
  assumes inv: "manager_inv m" and mode: "mg_registry m \<noteq> None"
    and items: "\<forall>item \<in> set items. item_ok m item" "distinct (map ri_identity items)" "name = [] \<or> length items \<le> 1"
    and run: "register_items h name items m = (r, m')"
  shows "manager_inv m' \<and> mg_registry m' \<noteq> None"
proof -
  obtain rows where rows: "mg_registry m = Some rows" using mode by blast
  from run rows show ?thesis
  proof (cases rule: register_items_cases)
    case (registered gs rows')
    have "manager_inv (m\<lparr>mg_registry := Some rows'\<rparr>)" using manager_inv_rows[OF inv] rows by simp
    from register_arrivals_inv[OF this _ registrations_ok[OF inv mode items registered(2)]] show ?thesis
      unfolding registered(5) by simp
  qed (use inv mode in simp)
qed

text \<open>A start by paths with the gate held: \<open>m0\<close> is the manager of the first section, \<open>m\<close> the one now.\<close>

lemma loaded_items_ok:
  assumes inv: "manager_inv m" and mode: "mg_registry m \<noteq> None" and old: "manager_inv m0" and same: "same_catalog m0 m"
    and name: "name = [] \<or> length paths = 1" and load: "load_items h (identities_of m0) 0 [] paths = Inr items"
  shows "\<forall>item \<in> set items. item_ok m item" and "distinct (map ri_identity items)" and "name = [] \<or> length items \<le> 1"
proof -
  have cat: "catalog_ok m" "durable_ok m" "catalog_ok m0" using inv old mode by (simp_all add: manager_inv_def)
  have ids: "identities_of m0 = identities_of m" using same_catalog_identities[OF same cat(3)] by simp
  have "\<forall>e \<in> set (identities_of m). snd e \<noteq> []"
  proof
    fix e assume "e \<in> set (identities_of m)"
    then obtain p where "(snd e, p) \<in> set (mg_instances m)" by (auto simp: identities_of_def)
    then have "inst_of m (snd e) = Some p" using cat(1) by (simp add: catalog_ok_def)
    from durableD(1)[OF cat(2) this] show "snd e \<noteq> []" by (auto simp: valid_id_def)
  qed
  then have "(\<forall>item \<in> set items. item_of (identities_of m) item) \<and> distinct (map ri_identity items) \<and>
      length items = length ([] :: registered_item list) + length paths"
    by (intro load_items_facts[OF load[unfolded ids]]) simp_all
  then show "\<forall>item \<in> set items. item_ok m item" "distinct (map ri_identity items)" "name = [] \<or> length items \<le> 1"
    using item_of_ok[OF cat(1)] name by auto
qed

lemma start_registered_second_inv:
  assumes inv: "manager_inv m" and mode: "mg_registry m \<noteq> None" and old: "manager_inv m0" and same: "same_catalog m0 m"
    and name: "name = [] \<or> length paths = 1" and run: "start_registered_second h paths name m0 m = (r, m')"
  shows "manager_inv m' \<and> mg_registry m' \<noteq> None"
proof (cases "load_items h (identities_of m0) 0 [] paths")
  case (Inl e)
  then show ?thesis using run inv mode by (simp add: start_registered_second_def)
next
  case (Inr items)
  then show ?thesis
    using register_items_inv[OF inv mode loaded_items_ok[OF inv mode old same name Inr]] run
    by (simp add: start_registered_second_def)
qed

lemma start_registered_first_inv:
  assumes inv: "manager_inv m" and mode: "mg_registry m \<noteq> None" and run: "start_registered_first h paths name m = Some (r, m')"
  shows "manager_inv m' \<and> mg_registry m' \<noteq> None"
proof (cases "m' = m")
  case True
  with inv mode show ?thesis by simp
next
  case False
  then obtain p where p: "resolve_locked m (hd paths) = Inr p" "resume_registered h p m = (r, m')"
    using run by (auto simp: start_registered_first_def split: if_splits option.splits sum.splits)
  have "catalog_ok m" using inv by (simp add: manager_inv_def)
  from resolve_in_catalog[OF this p(1)] obtain x where "inst_of m x = Some p" by blast
  from resume_registered_inv[OF inv mode this p(2)] show ?thesis by simp
qed

lemma start_registered_first_name:
  "start_registered_first h paths name m = None \<Longrightarrow> name = [] \<or> length paths = 1"
  by (auto simp: start_registered_first_def split: if_splits)

lemma start_registered_queue_inv:
  assumes inv: "manager_inv m" and mode: "mg_registry m \<noteq> None" and run: "start_registered_queue h known m = (r, m')"
  shows "manager_inv m' \<and> mg_registry m' \<noteq> None"
proof (cases "m' = m")
  case True
  with inv mode show ?thesis by simp
next
  case False
  then obtain x p where found: "List.find (\<lambda>e. database_of (runtime_at m (snd e)) = kq_identity known \<and>
      rt_config_identity (runtime_at m (snd e)) = kq_config_identity known) (mg_instances m) = Some (x, p)"
    "resume_registered h p m = (r, m')"
    using run by (auto simp: start_registered_queue_def split: if_splits option.splits)
  then have "(x, p) \<in> set (mg_instances m)" by (auto simp: find_Some_iff)
  then have "inst_of m x = Some p" using inv by (simp add: manager_inv_def catalog_ok_def)
  from resume_registered_inv[OF inv mode this found(2)] show ?thesis by simp
qed

end
