(* ===== verification/ManagerSystem.thy ===== *)
theory ManagerSystem
  imports ManagerRegister
begin

text \<open>
  The supervisor as a state machine: its state under the lock, and what the start that holds the start
  gate is doing. Every step is one locked section; between two of them anything else may happen. The
  surroundings of a step (\<open>host\<close>) are arbitrary, except that Unicode's tables do not change.
\<close>

section \<open>Steps\<close>

text \<open>The holder of the gate: nobody; a start of paths with a registry, between its two locked sections;
  a start without a registry, before or after it copied the maps.\<close>

datatype gate =
    GateFree
  | GateLoading "string list" string manager
  | GateStarting string bool "start_candidate list" "manager option"

type_synonym supervisor = "manager \<times> gate"

inductive lifecycle_step :: "manager \<Rightarrow> manager \<Rightarrow> bool" where
  stopped: "stop_request ctx_err registry_err selector m = (r, m') \<Longrightarrow> lifecycle_step m m'"
| canceled_one: "p < length (mg_heap m) \<Longrightarrow> lifecycle_step m (stop_cancel p m)"
| shut: "lifecycle_step m (snd (shutdown_request m))"
| canceled_all: "\<forall>p \<in> set ps. p < length (mg_heap m) \<Longrightarrow> lifecycle_step m (shutdown_cancel ps m)"
| parent_canceled: "mg_ctx_err m = None \<Longrightarrow> lifecycle_step m (m\<lparr>mg_ctx_err := Some e\<rparr>)"
| returned: "p < length (mg_heap m) \<Longrightarrow> rt_phase (runtime_at m p) = Invoking \<Longrightarrow>
    lifecycle_step m (run_returned quote err now p m)"
| finished: "p < length (mg_heap m) \<Longrightarrow> lifecycle_step m (run_published registry_err p m)"

inductive supervisor_step :: "(nat \<Rightarrow> bool) \<Rightarrow> supervisor \<Rightarrow> supervisor \<Rightarrow> bool" for alnum where
  life: "lifecycle_step m m' \<Longrightarrow> supervisor_step alnum (m, g) (m', g)"
| answered: "h_alnum h = alnum \<Longrightarrow> mg_registry m \<noteq> None \<Longrightarrow> start_registered_first h paths name m = Some (r, m') \<Longrightarrow>
    supervisor_step alnum (m, GateFree) (m', GateFree)"
| loading: "h_alnum h = alnum \<Longrightarrow> mg_registry m \<noteq> None \<Longrightarrow> start_registered_first h paths name m = None \<Longrightarrow>
    supervisor_step alnum (m, GateFree) (m, GateLoading paths name m)"
| registered: "h_alnum h = alnum \<Longrightarrow> is_abs (h_cwd h) \<Longrightarrow> start_registered_second h paths name m0 m = (r, m') \<Longrightarrow>
    supervisor_step alnum (m, GateLoading paths name m0) (m', GateFree)"
| by_queue: "h_alnum h = alnum \<Longrightarrow> mg_registry m \<noteq> None \<Longrightarrow> start_registered_queue h known m = (r, m') \<Longrightarrow>
    supervisor_step alnum (m, GateFree) (m', GateFree)"
| restored: "restore h m = (r, m') \<Longrightarrow> supervisor_step alnum (m, GateFree) (m', GateFree)"
| preflight: "mg_registry m = None \<Longrightarrow> start_preflight h gated paths name attach expected earlier m = Inr cs \<Longrightarrow>
    supervisor_step alnum (m, GateFree) (m, GateStarting name remove_on_exit cs None)"
| copied: "supervisor_step alnum (m, GateStarting name remove_on_exit cs None) (m, GateStarting name remove_on_exit cs (Some m))"
| again: "reserve_and_launch h name remove_on_exit cs seen m = None \<Longrightarrow>
    supervisor_step alnum (m, GateStarting name remove_on_exit cs (Some seen)) (m, GateStarting name remove_on_exit cs None)"
| reserved: "reserve_and_launch h name remove_on_exit cs seen m = Some (r, m') \<Longrightarrow>
    supervisor_step alnum (m, GateStarting name remove_on_exit cs (Some seen)) (m', GateFree)"

inductive_cases supervisor_stepE: "supervisor_step alnum s s'"

text \<open>The state directory is text that JSON leaves alone.\<close>

definition text_directory :: "string \<Rightarrow> bool" where
  "text_directory d \<longleftrightarrow>
    (\<forall>x. valid_id x \<longrightarrow> json_text (join_path [d, ''queues'', x @ ''.sqlite'']) = join_path [d, ''queues'', x @ ''.sqlite''])"

text \<open>A fresh supervisor, without a registry or on the rows of one.\<close>

inductive supervised :: "(nat \<Rightarrow> bool) \<Rightarrow> supervisor \<Rightarrow> bool" for alnum where
  new: "is_abs directory \<Longrightarrow> text_directory directory \<Longrightarrow> (\<And>rs. rows = Some rs \<Longrightarrow> rows_ok directory rs) \<Longrightarrow>
    new_manager opts alnum quote now directory rows = Inr m \<Longrightarrow> supervised alnum (m, GateFree)"
| stepped: "supervised alnum s \<Longrightarrow> supervisor_step alnum s s' \<Longrightarrow> supervised alnum s'"

section \<open>The invariant of the machine\<close>

fun gate_ok :: "manager \<Rightarrow> gate \<Rightarrow> bool" where
  "gate_ok m GateFree \<longleftrightarrow> True"
| "gate_ok m (GateLoading paths name m0) \<longleftrightarrow>
    mg_registry m \<noteq> None \<and> manager_inv m0 \<and> same_catalog m0 m \<and> (name = [] \<or> length paths = 1)"
| "gate_ok m (GateStarting name r cs seen) \<longleftrightarrow>
    mg_registry m = None \<and> distinct (map sc_config_identity cs) \<and> distinct (map sc_database_path cs)"

lemma run_published_same:
  assumes inv: "manager_inv m" and mode: "mg_registry m \<noteq> None" and p: "p < length (mg_heap m)"
  shows "same_catalog m (run_published registry_err p m)"
proof (cases "rt_phase (runtime_at m p)")
  case (Finalizing v0)
  define v where "v = v0\<lparr>iv_desired_state := iv_desired_state (rt_view (runtime_at m p))\<rparr>"
  obtain m3 where m3: "published p v m m3"
    "run_published registry_err p m =
      (if rt_remove_on_exit (runtime_at m p) then drop_instance v m3 else trim_terminated (iv_id v) m3)"
    by (rule run_published_cases[OF Finalizing v_def[symmetric]])
  have "durable_ok m" using inv mode by (simp add: manager_inv_def)
  then have keep: "\<not> rt_remove_on_exit (runtime_at m p)" using runtime_in_heap[OF p] by (simp add: durable_ok_def)
  have "mg_registry m3 \<noteq> None" using m3(1) mode by (simp add: published_def)
  then have "run_published registry_err p m = m3" using m3(2) keep by (simp add: trim_terminated_def)
  then show ?thesis using published_inv(2)[OF inv p Finalizing v_def[symmetric] m3(1)] by simp
qed (simp_all add: run_published_def same_catalog_refl)

lemma run_published_mode:
  assumes inv: "manager_inv m" and p: "p < length (mg_heap m)"
  shows "mg_registry (run_published registry_err p m) = None \<longleftrightarrow> mg_registry m = None"
proof (cases "rt_phase (runtime_at m p)")
  case (Finalizing v0)
  define v where "v = v0\<lparr>iv_desired_state := iv_desired_state (rt_view (runtime_at m p))\<rparr>"
  obtain m3 where m3: "published p v m m3"
    "run_published registry_err p m =
      (if rt_remove_on_exit (runtime_at m p) then drop_instance v m3 else trim_terminated (iv_id v) m3)"
    by (rule run_published_cases[OF Finalizing v_def[symmetric]])
  have "mg_registry (fold drop_instance vs m') = mg_registry m'" for vs m' by (induction vs arbitrary: m') simp_all
  then show ?thesis using m3 by (simp add: published_def trim_terminated_fold)
qed (simp_all add: run_published_def)

lemma lifecycle_step_inv:
  assumes "lifecycle_step m m'" and "manager_inv m"
  shows "manager_inv m' \<and> (mg_registry m' = None \<longleftrightarrow> mg_registry m = None) \<and>
    (mg_registry m \<noteq> None \<longrightarrow> same_catalog m m')"
  using assms
proof cases
  case (stopped ctx_err registry_err selector r)
  with stop_request_inv[OF assms(2)] show ?thesis by (simp add: same_catalog_def)
next
  case (finished p registry_err)
  with run_published_inv[OF assms(2)] run_published_same[OF assms(2)] run_published_mode[OF assms(2)] show ?thesis by simp
next
  case (canceled_one p)
  with stop_cancel_inv[OF assms(2)] show ?thesis by (simp add: same_catalog_def)
next
  case shut
  with shutdown_inv[OF assms(2)] show ?thesis by (simp add: same_catalog_def)
next
  case (canceled_all ps)
  with shutdown_cancel_inv[OF assms(2)] show ?thesis by (simp add: same_catalog_def)
next
  case (parent_canceled e)
  with assms(2) manager_inv_flags same_catalog_refl show ?thesis by simp
next
  case (returned p quote err now)
  with run_returned_inv[OF assms(2)] show ?thesis by (simp add: same_catalog_def)
qed

lemma gate_ok_life:
  assumes "lifecycle_step m m'" and "manager_inv m" and "gate_ok m g"
  shows "gate_ok m' g"
proof (cases g)
  case (GateLoading paths name m0)
  then show ?thesis using lifecycle_step_inv[OF assms(1,2)] assms(3) same_catalog_trans[of m0 m m'] by simp
next
  case (GateStarting name r cs seen)
  then show ?thesis using lifecycle_step_inv[OF assms(1,2)] assms(3) by simp
qed simp

lemma supervisor_step_inv:
  assumes "supervisor_step alnum (m, g) (m', g')" and inv: "manager_inv m" and gate: "gate_ok m g"
  shows "manager_inv m' \<and> gate_ok m' g'"
  using assms(1)
proof cases
  case life
  then show ?thesis using lifecycle_step_inv gate_ok_life inv gate by simp
next
  case (answered h paths name r)
  then show ?thesis using start_registered_first_inv[OF inv] by simp
next
  case (loading h paths name)
  then show ?thesis using start_registered_first_name inv same_catalog_refl by simp
next
  case (registered h paths name m0 r)
  then show ?thesis using start_registered_second_inv[OF inv _ _ _ _ registered(5)] gate by auto
next
  case (by_queue h known r)
  then show ?thesis using start_registered_queue_inv[OF inv] by simp
next
  case (restored h r)
  then show ?thesis using restore_inv[OF inv] by simp
next
  case (preflight h gated paths name attach expected earlier cs remove_on_exit)
  then show ?thesis using preflight_distinct inv by simp
next
  case (copied name remove_on_exit cs)
  then show ?thesis using inv gate by simp
next
  case (again h name remove_on_exit cs seen)
  then show ?thesis using inv gate by simp
next
  case (reserved h name remove_on_exit cs seen r)
  then show ?thesis using reserve_inv[OF inv _ _ _ reserved(3)] gate by auto
qed

lemma supervised_inv: "supervised alnum s \<Longrightarrow> manager_inv (fst s) \<and> gate_ok (fst s) (snd s)"
proof (induction rule: supervised.induct)
  case (new directory rows opts quote now m)
  from new_manager_inv[OF new(1,3,4)] show ?case by simp
next
  case (stepped s s')
  then show ?case using supervisor_step_inv[of alnum "fst s" "snd s" "fst s'" "snd s'"] by simp
qed

end
