(* ===== verification/GoUtf8.thy ===== *)
theory GoUtf8
  imports GoRunes
begin

text \<open>
  Decoding and encoding UTF-8 the other way round: a text in which every rune decodes is written again
  by encoding its runes. Text that passes through JSON is of this kind.
\<close>

lemma char_of_byte: "char_of (byte a) = a"
  by simp

lemma mul64: "(z :: nat) < 64 \<Longrightarrow> (k * 64 + z) div 64 = k" "(z :: nat) < 64 \<Longrightarrow> (k * 64 + z) mod 64 = z"
  by simp_all

lemma encode_of_bytes:
  shows "2 \<le> x \<Longrightarrow> x < 32 \<Longrightarrow> y < 64 \<Longrightarrow> encode_rune (x * 64 + y) = [char_of (0xC0 + x), char_of (0x80 + y)]"
    and "x < 16 \<Longrightarrow> y < 64 \<Longrightarrow> z < 64 \<Longrightarrow> (x = 0 \<longrightarrow> 32 \<le> y) \<Longrightarrow> (x = 13 \<longrightarrow> y \<le> 31) \<Longrightarrow>
      encode_rune (x * 4096 + y * 64 + z) = [char_of (0xE0 + x), char_of (0x80 + y), char_of (0x80 + z)]"
    and "x < 5 \<Longrightarrow> y < 64 \<Longrightarrow> z < 64 \<Longrightarrow> w < 64 \<Longrightarrow> (x = 0 \<longrightarrow> 16 \<le> y) \<Longrightarrow> (x = 4 \<longrightarrow> y \<le> 15) \<Longrightarrow>
      encode_rune (x * 262144 + y * 4096 + z * 64 + w) =
        [char_of (0xF0 + x), char_of (0x80 + y), char_of (0x80 + z), char_of (0x80 + w)]"
proof -
  show "encode_rune (x * 64 + y) = [char_of (0xC0 + x), char_of (0x80 + y)]" if "2 \<le> x" "x < 32" "y < 64"
    using that by (simp add: encode_rune_def Let_def)
  show "encode_rune (x * 4096 + y * 64 + z) = [char_of (0xE0 + x), char_of (0x80 + y), char_of (0x80 + z)]"
    if h: "x < 16" "y < 64" "z < 64" "x = 0 \<longrightarrow> 32 \<le> y" "x = 13 \<longrightarrow> y \<le> 31"
  proof -
    let ?r = "x * 4096 + y * 64 + z"
    have bounds: "\<not> ?r > 0x10FFFF" "\<not> (0xD800 \<le> ?r \<and> ?r \<le> 0xDFFF)" "\<not> ?r < 0x80" "\<not> ?r < 0x800" "?r < 0x10000"
      using h by (cases "x = 0"; cases "x = 13"; auto; presburger)+
    have e: "?r = (x * 64 + y) * 64 + z" by simp
    have d: "?r div 64 = x * 64 + y" "?r mod 64 = z" by (simp_all only: e mul64[OF h(3)])
    have parts: "?r div 4096 = x" "?r div 64 mod 64 = y" "?r mod 64 = z"
      by (simp_all only: d mul64[OF h(2)] div_64(1)[of ?r, symmetric])
    show ?thesis unfolding encode_rune_def Let_def using bounds by (simp only: if_False if_True simp_thms parts)
  qed
  show "encode_rune (x * 262144 + y * 4096 + z * 64 + w) =
        [char_of (0xF0 + x), char_of (0x80 + y), char_of (0x80 + z), char_of (0x80 + w)]"
    if h: "x < 5" "y < 64" "z < 64" "w < 64" "x = 0 \<longrightarrow> 16 \<le> y" "x = 4 \<longrightarrow> y \<le> 15"
  proof -
    let ?r = "x * 262144 + y * 4096 + z * 64 + w"
    have bounds: "\<not> ?r > 0x10FFFF" "\<not> ?r < 0x10000"
      using h by (cases "x = 0"; cases "x = 4"; auto; presburger)+
    have e: "?r = ((x * 64 + y) * 64 + z) * 64 + w" by simp
    have d: "?r div 64 = (x * 64 + y) * 64 + z" "?r mod 64 = w" by (simp_all only: e mul64[OF h(4)])
    have d2: "?r div 4096 = x * 64 + y" by (simp only: d(1) mul64[OF h(3)] div_64(1)[of ?r, symmetric])
    have parts: "?r div 262144 = x" "?r div 4096 mod 64 = y" "?r div 64 mod 64 = z" "?r mod 64 = w"
      by (simp_all only: d d2 mul64[OF h(2)] mul64[OF h(3)] div_64(2)[of ?r, symmetric])
    have small: "\<not> ?r < 0x80" "\<not> ?r < 0x800" "\<not> (0xD800 \<le> ?r \<and> ?r \<le> 0xDFFF)" using bounds(2) by linarith+
    show ?thesis unfolding encode_rune_def Let_def using bounds small by (simp only: if_False if_True simp_thms parts)
  qed
qed

lemma encode_decode:
  assumes "decode_rune (a # s) = (r, n)" and "r \<noteq> rune_error"
  shows "encode_rune r = take n (a # s)"
proof -
  have cont: "\<exists>y. byte b = 0x80 + y \<and> y < 64 \<and> b = char_of (0x80 + y :: nat) \<and> lo - 0x80 \<le> y \<and> y \<le> hi - 0x80"
    if "is_cont lo hi b" "0x80 \<le> lo" "hi \<le> 0xBF" for lo hi b
    using that by (intro exI[of _ "byte b - 0x80"]) (auto simp: is_cont_def)
  have if_bounds: "0x80 \<le> (if p then 0xA0 else 0x80 :: nat) \<longleftrightarrow> True" "0x80 \<le> (if p then 0x90 else 0x80 :: nat) \<longleftrightarrow> True"
    "(if p then 0x9F else 0xBF :: nat) \<le> 0xBF \<longleftrightarrow> True" "(if p then 0x8F else 0xBF :: nat) \<le> 0xBF \<longleftrightarrow> True" for p
    by simp_all
  consider (one) "byte a < 0x80" "r = byte a" "n = 1"
    | (two) b t where "s = b # t" "0xC2 \<le> byte a" "byte a \<le> 0xDF" "is_cont 0x80 0xBF b"
        "r = (byte a - 0xC0) * 64 + (byte b - 0x80)" "n = 2"
    | (three) b c t where "s = b # c # t" "0xE0 \<le> byte a" "byte a \<le> 0xEF"
        "is_cont (if byte a = 0xE0 then 0xA0 else 0x80) (if byte a = 0xED then 0x9F else 0xBF) b" "is_cont 0x80 0xBF c"
        "r = (byte a - 0xE0) * 4096 + (byte b - 0x80) * 64 + (byte c - 0x80)" "n = 3"
    | (four) b c d t where "s = b # c # d # t" "0xF0 \<le> byte a" "byte a \<le> 0xF4"
        "is_cont (if byte a = 0xF0 then 0x90 else 0x80) (if byte a = 0xF4 then 0x8F else 0xBF) b" "is_cont 0x80 0xBF c"
        "is_cont 0x80 0xBF d"
        "r = (byte a - 0xF0) * 262144 + (byte b - 0x80) * 4096 + (byte c - 0x80) * 64 + (byte d - 0x80)" "n = 4"
    using assms by (auto simp: decode_rune.simps(2) split: if_splits list.splits)
  then show ?thesis
  proof cases
    case one
    then show ?thesis by (simp add: encode_rune_def)
  next
    case two
    obtain x where x: "byte a = 0xC0 + x" "2 \<le> x" "x < 32" "a = char_of (0xC0 + x :: nat)"
      using two(2,3) by (intro that[of "byte a - 0xC0"]) auto
    obtain y where y: "byte b = 0x80 + y" "y < 64" "b = char_of (0x80 + y :: nat)" using cont[OF two(4)] by auto
    show ?thesis using encode_of_bytes(1)[OF x(2,3) y(2)] two(1,5,6) x y by simp
  next
    case three
    obtain x where x: "byte a = 0xE0 + x" "x < 16" "a = char_of (0xE0 + x :: nat)"
      using three(2,3) by (intro that[of "byte a - 0xE0"]) auto
    from cont[OF three(4)] have "\<exists>y. byte b = 0x80 + y \<and> y < 64 \<and> b = char_of (0x80 + y :: nat)" by (simp only: if_bounds simp_thms) blast
    then obtain y where y0: "byte b = 0x80 + y" "y < 64" "b = char_of (0x80 + y :: nat)" by blast
    have y: "byte b = 0x80 + y" "y < 64" "b = char_of (0x80 + y :: nat)" "x = 0 \<longrightarrow> 32 \<le> y" "x = 13 \<longrightarrow> y \<le> 31"
      using y0 three(4) x(1) by (auto simp: is_cont_def split: if_splits)
    obtain z where z: "byte c = 0x80 + z" "z < 64" "c = char_of (0x80 + z :: nat)" using cont[OF three(5)] by auto
    show ?thesis using encode_of_bytes(2)[OF x(2) y(2) z(2) y(4,5)] three(1,6,7) x y z by simp
  next
    case four
    obtain x where x: "byte a = 0xF0 + x" "x < 5" "a = char_of (0xF0 + x :: nat)"
      using four(2,3) by (intro that[of "byte a - 0xF0"]) auto
    from cont[OF four(4)] have "\<exists>y. byte b = 0x80 + y \<and> y < 64 \<and> b = char_of (0x80 + y :: nat)" by (simp only: if_bounds simp_thms) blast
    then obtain y where y0: "byte b = 0x80 + y" "y < 64" "b = char_of (0x80 + y :: nat)" by blast
    have y: "byte b = 0x80 + y" "y < 64" "b = char_of (0x80 + y :: nat)" "x = 0 \<longrightarrow> 16 \<le> y" "x = 4 \<longrightarrow> y \<le> 15"
      using y0 four(4) x(1) by (auto simp: is_cont_def split: if_splits)
    obtain z where z: "byte c = 0x80 + z" "z < 64" "c = char_of (0x80 + z :: nat)" using cont[OF four(5)] by auto
    obtain w where w: "byte d = 0x80 + w" "w < 64" "d = char_of (0x80 + w :: nat)" using cont[OF four(6)] by auto
    show ?thesis using encode_of_bytes(3)[OF x(2) y(2) z(2) w(2) y(4,5)] four(1,7,8) x y z w by simp
  qed
qed

text \<open>Text without a decoding error is valid: its runes write it again.\<close>

lemma of_runes_runes: "rune_error \<notin> set (runes s) \<Longrightarrow> of_runes (runes s) = s"
proof (induction s rule: runes.induct)
  case (2 a s)
  obtain r n where rn: "decode_rune (a # s) = (r, n)" by fastforce
  have rs: "runes (a # s) = r # runes (drop n (a # s))" using rn by (simp add: runes.simps(2))
  with 2(2) have "r \<noteq> rune_error" "rune_error \<notin> set (runes (drop n (a # s)))" by auto
  with 2(1)[OF rn[symmetric] refl] encode_decode[OF rn] show ?case by (simp add: rs of_runes_def)
qed (simp add: of_runes_def)

end
