(* ===== verification/ManagerText.thy ===== *)
theory ManagerText
  imports ManagerNames GoUtf8
begin

text \<open>
  The texts the registry holds survive the way through JSON: names that the supervisor accepts or makes
  up, and its IDs.
\<close>

section \<open>Names\<close>

text \<open>Letters, digits and marks that do not start with a full stop or a hyphen.\<close>

definition named :: "(nat \<Rightarrow> bool) \<Rightarrow> string \<Rightarrow> bool" where
  "named alnum s \<longleftrightarrow>
    (\<exists>rs. s = of_runes rs \<and> rs \<noteq> [] \<and> (\<forall>r \<in> set rs. scalar r \<and> (alnum r \<or> name_mark r)) \<and> \<not> trim_mark (hd rs))"

lemma namedE:
  assumes "named alnum s"
  obtains r rs where "s = of_runes (r # rs)" "runes s = r # rs" "\<forall>x \<in> set (r # rs). scalar x \<and> (alnum x \<or> name_mark x)"
    "\<not> trim_mark r"
proof -
  from assms obtain rs where rs: "s = of_runes rs" "rs \<noteq> []" "\<forall>r \<in> set rs. scalar r \<and> (alnum r \<or> name_mark r)"
    "\<not> trim_mark (hd rs)" unfolding named_def by blast
  moreover have "runes s = rs" using runes_of_runes[of rs "[]"] rs(1,3) by simp
  ultimately show ?thesis using that by (cases rs) auto
qed

lemma prefix_underscore:
  assumes "scalar r"
  shows "prefix ''_'' (of_runes (r # rs)) \<longleftrightarrow> r = 95"
proof (cases "r < 128")
  case True
  then have "prefix ''_'' (of_runes (r # rs)) \<longleftrightarrow> char_of r = CHR ''_''" by (auto simp: of_runes_def encode_low)
  also have "\<dots> \<longleftrightarrow> r = 95"
  proof -
    have "byte (CHR ''_'') = 95" by simp
    then have "char_of (95 :: nat) = CHR ''_''" by (metis char_of_char)
    moreover have "r = 95" if "char_of r = CHR ''_''" using byte_char_of[of r] True that by simp
    ultimately show ?thesis by auto
  qed
  finally show ?thesis .
next
  case False
  obtain c cs where c: "encode_rune r = c # cs" using encode_nonempty[of r] by (cases "encode_rune r") auto
  then have "128 \<le> byte c" using encode_high[of r c] assms False by simp
  then show ?thesis using False c by (auto simp: of_runes_def)
qed

lemma named_valid_iff:
  assumes tables: "ascii_tables alnum" and "named alnum s"
  shows "valid_display_name alnum s \<longleftrightarrow> \<not> prefix ''_'' s"
proof -
  obtain r rs where s: "s = of_runes (r # rs)" "runes s = r # rs" "\<forall>x \<in> set (r # rs). scalar x \<and> (alnum x \<or> name_mark x)"
    "\<not> trim_mark r" by (rule namedE[OF assms(2)])
  have "valid_display_name alnum s \<longleftrightarrow> alnum r" using s(3) by (auto simp: valid_display_name_def s(2) list_all_iff)
  also have "\<dots> \<longleftrightarrow> r \<noteq> 95" using s(3,4) ascii_marks[OF tables, of r] by (auto simp: name_mark_def)
  also have "\<dots> \<longleftrightarrow> \<not> prefix ''_'' s" using prefix_underscore[of r rs] s(1,3) by simp
  finally show ?thesis .
qed

lemma named_stable: "named alnum s \<Longrightarrow> of_runes (runes s) = s"
  by (elim namedE) simp

text \<open>Unicode's replacement character is neither a letter nor a digit.\<close>

lemma valid_name_named:
  assumes "ascii_tables alnum" and "\<not> alnum rune_error" and "valid_display_name alnum s"
  shows "named alnum s"
proof -
  obtain r rs where s: "runes s = r # rs" "alnum r" "\<forall>x \<in> set rs. alnum x \<or> name_mark x"
    using assms(3) by (auto simp: valid_display_name_def list_all_iff split: list.splits)
  have "\<not> name_mark rune_error" by (simp add: name_mark_def rune_error_def)
  then have "rune_error \<notin> set (runes s)" using s assms(2) by auto
  then have "s = of_runes (r # rs)" using of_runes_runes s(1) by metis
  moreover have "\<not> trim_mark r" using ascii_marks[OF assms(1), of r] s(2) by (auto simp: name_mark_def)
  moreover have "\<forall>x \<in> set (r # rs). scalar x \<and> (alnum x \<or> name_mark x)" using runes_scalar[of s] s by auto
  ultimately show ?thesis unfolding named_def by (intro exI[of _ "r # rs"]) simp
qed

lemma of_runes_append: "of_runes (xs @ ys) = of_runes xs @ of_runes ys"
  by (simp add: of_runes_def)

lemma named_append:
  assumes "named alnum s" and "\<forall>c \<in> set t. byte c < 128 \<and> (alnum (byte c) \<or> name_mark (byte c))"
  shows "named alnum (s @ t)"
proof -
  obtain r rs where s: "s = of_runes (r # rs)" "runes s = r # rs" "\<forall>x \<in> set (r # rs). scalar x \<and> (alnum x \<or> name_mark x)"
    "\<not> trim_mark r" by (rule namedE[OF assms(1)])
  have "s @ t = of_runes ((r # rs) @ map byte t)"
    using of_runes_ascii[of t] assms(2) by (simp only: of_runes_append s(1)) simp
  moreover have "\<forall>x \<in> set ((r # rs) @ map byte t). scalar x \<and> (alnum x \<or> name_mark x)"
    using s(3) assms(2) by (auto simp: scalar_def)
  ultimately show ?thesis using s(4) unfolding named_def by (intro exI[of _ "(r # rs) @ map byte t"]) simp
qed

lemma default_named: "ascii_tables alnum \<Longrightarrow> named alnum ''onderzeeer''"
  unfolding named_def
  by (intro exI[of _ "map byte ''onderzeeer''"] conjI of_runes_ascii[symmetric]) (simp_all add: ascii_tables_def scalar_def)

lemma automatic_name_named:
  assumes "ascii_tables alnum"
  shows "named alnum (automatic_name alnum p)"
proof -
  define stem where "stem = trim_suffix (ext_path (base_path p)) (base_path p)"
  define rs where "rs = normalise_runes alnum False (runes stem)"
  have sc: "\<forall>r \<in> set rs. scalar r"
    using normalise_runes_set runes_scalar unfolding rs_def by (fastforce simp: scalar_def)
  obtain ts where ts: "trim_chars cut_char_set (of_runes rs) = of_runes ts" "set ts \<subseteq> set rs"
    "ts \<noteq> [] \<Longrightarrow> \<not> trim_mark (hd ts)" using trim_runes[OF sc] by metis
  have name: "automatic_name alnum p = (if of_runes ts = [] then ''onderzeeer'' else of_runes ts)"
    using ts(1) by (simp add: automatic_name_def Let_def rs_def stem_def)
  show ?thesis
  proof (cases "of_runes ts = []")
    case True
    then show ?thesis unfolding name using default_named[OF assms] by simp
  next
    case False
    then have "ts \<noteq> []" by (auto simp: of_runes_def)
    moreover have "\<forall>x \<in> set ts. scalar x \<and> (alnum x \<or> name_mark x)"
      using ts(2) sc normalise_runes_set unfolding rs_def by blast
    ultimately show ?thesis unfolding named_def name using False ts(3) by (intro exI[of _ ts]) simp
  qed
qed

lemma available_name_named:
  assumes "ascii_tables alnum"
  shows "named alnum (available_name taken (automatic_name alnum p))"
proof -
  have cand: "named alnum (name_candidate (automatic_name alnum p) n)" for n
  proof -
    have "byte c < 128 \<and> (alnum (byte c) \<or> name_mark (byte c))" if "c \<in> set (CHR ''-'' # nat_digits n)" for c
      using that nat_digits_chars[of c n] assms by (auto simp: ascii_tables_def name_mark_def)
    then show ?thesis
      unfolding name_candidate_def using automatic_name_named[OF assms] named_append[OF automatic_name_named[OF assms]] by simp
  qed
  have "\<exists>n. name_from taken base k = name_candidate base n" for base k
    by (induction taken base k rule: name_from.induct) (subst name_from.simps, auto)
  then show ?thesis unfolding available_name_def using cand by metis
qed

text \<open>Whatever the path of a configuration, the name it gets by itself is a valid display name, with
  one exception: a name that starts with an underscore is not.\<close>

theorem automatic_name_valid:
  assumes "ascii_tables alnum"
  shows "valid_display_name alnum (automatic_name alnum p) \<longleftrightarrow> \<not> prefix ''_'' (automatic_name alnum p)"
  by (rule named_valid_iff[OF assms automatic_name_named[OF assms]])

theorem automatic_name_valid_witness: "\<not> valid_display_name ascii_alnum (automatic_name ascii_alnum ''/etc/_jobs.yaml'')"
  using automatic_name_valid[OF ascii_alnum_tables, of "''/etc/_jobs.yaml''"] by (simp add: underscore_name)

section \<open>Text in JSON\<close>

lemma ascii_stable: "\<forall>c \<in> set s. byte c < 128 \<Longrightarrow> of_runes (runes s) = s"
  by (simp add: runes_ascii of_runes_ascii)

lemma valid_id_ascii: "valid_id x \<Longrightarrow> c \<in> set x \<Longrightarrow> byte c < 128"
  by (auto simp: valid_id_def list_all_iff hex_digit_def)

end
