(* ===== verification/ManagerRestart.thy ===== *)
theory ManagerRestart
  imports ManagerSystem ManagerText
begin

text \<open>
  What the registry remembers. The durable state of a supervisor maps each registered ID to what
  identifies the instance and to whether it is to run; the rows of the registry hold the same map at every
  moment, so a supervisor that is started again on the rows knows the same instances.
\<close>

section \<open>Durable state\<close>

type_synonym instance_state = "(string \<times> string \<times> string \<times> string) \<times> string"

definition durable_of :: "runtime \<Rightarrow> instance_state" where
  "durable_of rt = (rt_key rt, iv_desired_state (rt_view rt))"

definition durable_state :: "manager \<Rightarrow> string \<Rightarrow> instance_state option" where
  "durable_state m x = map_option (\<lambda>p. durable_of (runtime_at m p)) (inst_of m x)"

definition row_state :: "registry_row \<Rightarrow> instance_state" where
  "row_state r = ((rr_id r, rr_name r, iv_database_path (rr_view r), rr_identity r), iv_desired_state (rr_view r))"

definition rows_state :: "registry_row list \<Rightarrow> string \<Rightarrow> instance_state option" where
  "rows_state rows = map_of (map (\<lambda>r. (rr_id r, row_state r)) rows)"

definition row_whole :: "registry_row \<Rightarrow> bool" where
  "row_whole r \<longleftrightarrow> iv_id (rr_view r) = rr_id r \<and> iv_name (rr_view r) = rr_name r"

definition state_ok :: "(nat \<Rightarrow> bool) \<Rightarrow> instance_state \<Rightarrow> bool" where
  "state_ok alnum s \<longleftrightarrow>
    (case s of ((x, n, db, k), d) \<Rightarrow> named alnum n \<and> k \<noteq> [] \<and> (d = ''running'' \<or> d = ''stopped''))"

definition mirror :: "(nat \<Rightarrow> bool) \<Rightarrow> manager \<Rightarrow> bool" where
  "mirror alnum m \<longleftrightarrow>
    (\<forall>rows. mg_registry m = Some rows \<longrightarrow>
       text_directory (mg_directory m) \<and> distinct (map rr_id rows) \<and> durable_state m = rows_state rows \<and>
       (\<forall>r \<in> set rows. row_whole r) \<and> (\<forall>x s. durable_state m x = Some s \<longrightarrow> state_ok alnum s))"

section \<open>How the calls change it\<close>

lemma durable_state_rows [simp]:
  "durable_state (m\<lparr>mg_registry := rows\<rparr>) = durable_state m"
  "durable_state (m\<lparr>mg_shutting_down := b\<rparr>) = durable_state m"
  "durable_state (m\<lparr>mg_ctx_err := e\<rparr>) = durable_state m"
  by (simp_all add: durable_state_def fun_eq_iff runtime_at_def)

lemma durable_state_same:
  assumes "mg_instances m' = mg_instances m"
    and "\<And>x p. inst_of m x = Some p \<Longrightarrow> durable_of (runtime_at m' p) = durable_of (runtime_at m p)"
  shows "durable_state m' = durable_state m"
proof
  fix x show "durable_state m' x = durable_state m x"
    using assms(2) by (cases "inst_of m x") (simp_all add: durable_state_def assms(1))
qed

lemma mirror_same:
  assumes "mirror alnum m" and "mg_registry m' = mg_registry m" and "mg_directory m' = mg_directory m"
    and "durable_state m' = durable_state m"
  shows "mirror alnum m'"
  using assms by (simp add: mirror_def)

lemma added_durable_state:
  assumes cat: "catalog_ok m" and add: "added rt m m'"
  shows "durable_state m' = (durable_state m)(rt_id rt \<mapsto> durable_of rt)"
proof
  fix x
  note at = added_at[OF add]
  show "durable_state m' x = ((durable_state m)(rt_id rt \<mapsto> durable_of rt)) x"
  proof (cases "x = rt_id rt")
    case True
    then show ?thesis using at by (simp add: durable_state_def)
  next
    case False
    then show ?thesis using at(3) catalogD(1)[OF cat]
      by (cases "inst_of m x") (simp_all add: durable_state_def at(4))
  qed
qed

lemma rows_state_at:
  assumes "distinct (map rr_id rows)" and "r \<in> set rows"
  shows "rows_state rows (rr_id r) = Some (row_state r)"
proof -
  have "distinct (map fst (map (\<lambda>r. (rr_id r, row_state r)) rows))" using assms(1) by (simp add: comp_def)
  moreover have "(rr_id r, row_state r) \<in> set (map (\<lambda>r. (rr_id r, row_state r)) rows)" using assms(2) by auto
  ultimately show ?thesis unfolding rows_state_def by (rule map_of_is_SomeI)
qed

lemma rows_state_Some: "rows_state rows x = Some s \<Longrightarrow> \<exists>r \<in> set rows. rr_id r = x \<and> row_state r = s"
  by (auto simp: rows_state_def dest!: map_of_SomeD)

lemma rows_state_None: "rows_state rows x = None \<longleftrightarrow> x \<notin> rr_id ` set rows"
  by (simp add: rows_state_def map_of_eq_None_iff image_image)

lemma rows_state_replace:
  assumes "distinct (map rr_id rows)" and "r0 \<in> set rows" "rr_id r0 = x" and "\<And>r. rr_id r = x \<Longrightarrow> rr_id (f r) = x"
    and "\<And>r. r \<in> set rows \<Longrightarrow> rr_id r = x \<Longrightarrow> row_state (f r) = s"
  shows "rows_state (map (\<lambda>r. if rr_id r = x then f r else r) rows) = (rows_state rows)(x \<mapsto> s)"
    and "map rr_id (map (\<lambda>r. if rr_id r = x then f r else r) rows) = map rr_id rows"
proof -
  show ids: "map rr_id (map (\<lambda>r. if rr_id r = x then f r else r) rows) = map rr_id rows"
    using assms(4) by (simp add: comp_def)
  let ?rows = "map (\<lambda>r. if rr_id r = x then f r else r) rows"
  have dist: "distinct (map rr_id ?rows)" unfolding ids by (rule assms(1))
  show "rows_state ?rows = (rows_state rows)(x \<mapsto> s)"
  proof
    fix y
    show "rows_state ?rows y = ((rows_state rows)(x \<mapsto> s)) y"
    proof (cases "y \<in> rr_id ` set rows")
      case True
      then obtain r where r: "r \<in> set rows" "rr_id r = y" by auto
      then have "(if rr_id r = x then f r else r) \<in> set ?rows" by auto
      from rows_state_at[OF dist this] rows_state_at[OF assms(1) r(1)] r assms(4,5)
      show ?thesis by (auto split: if_splits)
    next
      case False
      then have "y \<notin> rr_id ` set ?rows" using ids by (metis list.set_map)
      then show ?thesis using False assms(2,3) rows_state_None[of ?rows y] rows_state_None[of rows y] by auto
    qed
  qed
qed

text \<open>The texts of a view that JSON leaves alone.\<close>

definition view_stable :: "instance_view \<Rightarrow> bool" where
  "view_stable v \<longleftrightarrow> json_text (iv_id v) = iv_id v \<and> json_text (iv_name v) = iv_name v \<and>
    json_text (iv_database_path v) = iv_database_path v \<and> json_text (iv_desired_state v) = iv_desired_state v"

lemma view_stableI:
  assumes "valid_id (iv_id v)" and "named alnum (iv_name v)" and "text_directory d"
    and "iv_database_path v = join_path [d, ''queues'', iv_id v @ ''.sqlite'']"
    and "iv_desired_state v = ''running'' \<or> iv_desired_state v = ''stopped''"
  shows "view_stable v"
proof -
  have "json_text (iv_id v) = iv_id v"
    unfolding json_text_def by (rule ascii_stable) (use valid_id_ascii[OF assms(1)] in blast)
  moreover have "json_text (iv_name v) = iv_name v" unfolding json_text_def by (rule named_stable[OF assms(2)])
  moreover have "json_text (iv_desired_state v) = iv_desired_state v"
    unfolding json_text_def by (rule ascii_stable) (use assms(5) in auto)
  moreover have "json_text (iv_database_path v) = iv_database_path v"
    using assms(1,3,4) by (simp add: text_directory_def)
  ultimately show ?thesis by (simp add: view_stable_def)
qed

definition view_state :: "instance_view \<Rightarrow> string \<Rightarrow> instance_state" where
  "view_state v identity = ((iv_id v, iv_name v, iv_database_path v, identity), iv_desired_state v)"

lemma durable_of_registered: "durable_of (registered_runtime v identity cfg launch) = view_state v identity"
  by (simp add: durable_of_def view_state_def rt_key_def)

lemma saved_view_row:
  assumes "view_stable v" and "rr_id r = iv_id v" and "rr_name r = iv_name v"
  shows "row_state (r\<lparr>rr_view := json_view v\<rparr>) = view_state v (rr_identity r)" and "row_whole (r\<lparr>rr_view := json_view v\<rparr>)"
  using assms by (simp_all add: row_state_def view_state_def json_view_def view_stable_def row_whole_def)

text \<open>Saving a view of an instance the rows know.\<close>

lemma save_view_state:
  assumes "distinct (map rr_id rows)" and "rows_state rows (iv_id v) = Some ((iv_id v, iv_name v, db, identity), d)"
    and "view_stable v" and "\<forall>r \<in> set rows. row_whole r"
  shows "rows_state (registry_save_views [v] rows) = (rows_state rows)(iv_id v \<mapsto> view_state v identity)"
    and "distinct (map rr_id (registry_save_views [v] rows))" and "\<forall>r \<in> set (registry_save_views [v] rows). row_whole r"
proof -
  let ?f = "\<lambda>r. r\<lparr>rr_view := json_view v\<rparr>"
  have unfold: "registry_save_views [v] rows = map (\<lambda>r. if rr_id r = iv_id v then ?f r else r) rows"
    by (simp add: registry_save_views_def)
  from rows_state_Some[OF assms(2)] obtain r0 where r0: "r0 \<in> set rows" "rr_id r0 = iv_id v" by blast
  have names: "rr_name r = iv_name v \<and> rr_identity r = identity" if "r \<in> set rows" "rr_id r = iv_id v" for r
    using rows_state_at[OF assms(1) that(1)] that(2) assms(2) by (simp add: row_state_def)
  have f: "row_state (?f r) = view_state v identity \<and> row_whole (?f r)" if "r \<in> set rows" "rr_id r = iv_id v" for r
    using names[OF that] saved_view_row[OF assms(3) that(2)] by simp
  note rep = rows_state_replace[of rows r0 "iv_id v" ?f "view_state v identity", OF assms(1) r0]
  show "rows_state (registry_save_views [v] rows) = (rows_state rows)(iv_id v \<mapsto> view_state v identity)"
    unfolding unfold by (rule rep(1)) (use f in simp_all)
  have "map rr_id (registry_save_views [v] rows) = map rr_id rows" unfolding unfold by (rule rep(2)) (use f in simp_all)
  then show "distinct (map rr_id (registry_save_views [v] rows))" using assms(1) by simp
  show "\<forall>r \<in> set (registry_save_views [v] rows). row_whole r" unfolding unfold using f assms(4) by auto
qed

lemma save_views_Cons: "registry_save_views (v # vs) rows = registry_save_views vs (registry_save_views [v] rows)"
  by (simp add: registry_save_views_def)

text \<open>Saving views that say what the rows say changes nothing that lasts.\<close>

lemma save_same_views:
  assumes "distinct (map rr_id rows)" and "\<forall>r \<in> set rows. row_whole r"
    and "\<forall>v \<in> set vs. view_stable v \<and> (\<exists>k. rows_state rows (iv_id v) = Some (view_state v k))"
  shows "rows_state (registry_save_views vs rows) = rows_state rows \<and> distinct (map rr_id (registry_save_views vs rows)) \<and>
    (\<forall>r \<in> set (registry_save_views vs rows). row_whole r)"
  using assms
proof (induction vs arbitrary: rows)
  case (Cons v vs)
  from Cons.prems(3) obtain k where k: "rows_state rows (iv_id v) = Some (view_state v k)" and st: "view_stable v" by auto
  note one = save_view_state[OF Cons.prems(1) k[unfolded view_state_def] st Cons.prems(2)]
  have same: "rows_state (registry_save_views [v] rows) = rows_state rows" using one(1) k by (simp add: fun_upd_idem_iff)
  show ?case unfolding save_views_Cons[of v vs rows] using Cons.IH[OF one(2,3)] Cons.prems(3) by (simp add: same)
qed (simp add: registry_save_views_def)

lemma upsert_state:
  assumes "distinct (map rr_id rows)" and "\<forall>r \<in> set rows. row_whole r" and "row_whole new"
  shows "rows_state (upsert_row new rows) = (rows_state rows)(rr_id new \<mapsto> row_state new)"
    and "distinct (map rr_id (upsert_row new rows))" and "\<forall>r \<in> set (upsert_row new rows). row_whole r"
proof -
  have "rows_state (upsert_row new rows) = (rows_state rows)(rr_id new \<mapsto> row_state new) \<and>
    distinct (map rr_id (upsert_row new rows))"
  proof (cases "\<exists>r \<in> set rows. rr_id r = rr_id new")
    case True
    then obtain r0 where r0: "r0 \<in> set rows" "rr_id r0 = rr_id new" by blast
    note rep = rows_state_replace[of rows r0 "rr_id new" "\<lambda>r. new" "row_state new", OF assms(1) r0]
    have "map rr_id (map (\<lambda>r. if rr_id r = rr_id new then new else r) rows) = map rr_id rows" by (rule rep(2)) simp_all
    then have "distinct (map rr_id (map (\<lambda>r. if rr_id r = rr_id new then new else r) rows))" using assms(1) by (simp only:)
    moreover have "rows_state (map (\<lambda>r. if rr_id r = rr_id new then new else r) rows) = (rows_state rows)(rr_id new \<mapsto> row_state new)"
      by (rule rep(1)) simp_all
    ultimately show ?thesis using True by (simp only: upsert_row_def if_True simp_thms)
  next
    case False
    have "rows_state (rows @ [new]) x = ((rows_state rows)(rr_id new \<mapsto> row_state new)) x" for x
    proof (cases "x = rr_id new")
      case True
      have "map_of (map (\<lambda>r. (rr_id r, row_state r)) rows) (rr_id new) = None"
        using False by (force simp: map_of_eq_None_iff)
      then show ?thesis using True by (simp add: rows_state_def map_add_def)
    next
      case False
      then show ?thesis by (simp add: rows_state_def map_add_def split: option.split)
    qed
    then show ?thesis using False assms(1) by (auto simp: upsert_row_def fun_eq_iff)
  qed
  then show "rows_state (upsert_row new rows) = (rows_state rows)(rr_id new \<mapsto> row_state new)"
    "distinct (map rr_id (upsert_row new rows))" by simp_all
  show "\<forall>r \<in> set (upsert_row new rows). row_whole r" using assms(2,3) by (auto simp: upsert_row_def)
qed

definition reg_update :: "registration \<Rightarrow> (string \<Rightarrow> instance_state option) \<Rightarrow> string \<Rightarrow> instance_state option" where
  "reg_update g s = s(iv_id (rg_view g) \<mapsto> view_state (rg_view g) (rg_identity g))"

lemma registry_save_state:
  assumes "registry_save gs rows = Inr rows'" and "distinct (map rr_id rows)" and "\<forall>r \<in> set rows. row_whole r"
    and "\<forall>g \<in> set gs. view_stable (rg_view g)"
  shows "rows_state rows' = fold reg_update gs (rows_state rows) \<and> distinct (map rr_id rows') \<and> (\<forall>r \<in> set rows'. row_whole r)"
  using assms
proof (induction gs arbitrary: rows)
  case (Cons g gs)
  have st: "view_stable (rg_view g)" using Cons.prems(4) by simp
  have new: "row_state (registry_row_of g) = view_state (rg_view g) (rg_identity g)" "row_whole (registry_row_of g)"
    "rr_id (registry_row_of g) = iv_id (rg_view g)"
    using st by (simp_all add: registry_row_of_def row_state_def view_state_def json_view_def view_stable_def row_whole_def)
  have rest: "registry_save gs (upsert_row (registry_row_of g) rows) = Inr rows'"
    using Cons.prems(1) by (simp split: if_splits)
  note up = upsert_state[OF Cons.prems(2,3) new(2)]
  show ?case using Cons.IH[OF rest up(2,3)] Cons.prems(4) up(1) by (simp add: new reg_update_def)
qed simp

lemma register_arrivals_state:
  assumes "manager_inv m" and "mg_registry m \<noteq> None"
    and "\<forall>a \<in> set as. view_active (fst a) = launch \<and> registrable (arrival_runtime launch a) m"
    and "sorted_wrt (\<lambda>a b. independent (arrival_runtime launch a) (arrival_runtime launch b)) as"
  shows "durable_state (fold (\<lambda>a. register_runtime (fst a) (fst (snd a)) (snd (snd a)) launch) as m) =
    fold (\<lambda>a s. s(iv_id (fst a) \<mapsto> view_state (fst a) (fst (snd a)))) as (durable_state m)"
  using assms
proof (induction as arbitrary: m)
  case (Cons a as)
  let ?rt = "arrival_runtime launch a" and ?m = "register_runtime (fst a) (fst (snd a)) (snd (snd a)) launch m"
  have act: "view_active (fst a) = launch" using Cons.prems(3) by simp
  note add = register_runtime_added[OF act, of "fst (snd a)" "snd (snd a)" m]
  have ok: "phase_ok ?rt" using act by simp
  have here: "registrable ?rt m" using Cons.prems(3) by simp
  note now = added_registered_inv[OF Cons.prems(1,2) add ok here]
  have cat: "catalog_ok m" using Cons.prems(1) by (simp add: manager_inv_def)
  have "\<forall>b \<in> set as. view_active (fst b) = launch \<and> registrable (arrival_runtime launch b) ?m"
    using Cons.prems(3,4) added_registrable[OF cat add] by simp
  then show ?case
    using Cons.IH[OF now] Cons.prems(4) added_durable_state[OF cat add] by (simp add: durable_of_registered)
qed simp

section \<open>The rows mirror the instances\<close>

lemma mirrorI:
  assumes "mg_registry m = Some rows" and "text_directory (mg_directory m)" and "distinct (map rr_id rows)"
    and "durable_state m = rows_state rows" and "\<forall>r \<in> set rows. row_whole r"
    and "\<And>x s. durable_state m x = Some s \<Longrightarrow> state_ok alnum s"
  shows "mirror alnum m"
  using assms by (simp add: mirror_def)

lemma mirrorD:
  assumes "mirror alnum m" and "mg_registry m = Some rows"
  shows "text_directory (mg_directory m)" and "distinct (map rr_id rows)" and "durable_state m = rows_state rows"
    and "\<forall>r \<in> set rows. row_whole r" and "durable_state m x = Some s \<Longrightarrow> state_ok alnum s"
  using assms unfolding mirror_def by blast+

text \<open>A view of a listed instance, with its name, its queue file and a known wish, is stable.\<close>

lemma listed_view_stable:
  assumes inv: "manager_inv m" and mir: "mirror alnum m" and mode: "mg_registry m = Some rows"
    and x: "inst_of m x = Some p" and key: "rt_key ((runtime_at m p)\<lparr>rt_view := v\<rparr>) = rt_key (runtime_at m p)"
    and d: "iv_desired_state v = ''running'' \<or> iv_desired_state v = ''stopped''"
  shows "view_stable v"
proof -
  have cat: "catalog_ok m" and dur: "durable_ok m" using inv mode by (simp_all add: manager_inv_def)
  have parts: "iv_id v = x" "iv_name v = rt_name (runtime_at m p)" "iv_database_path v = queue_file m x"
    using key catalogD(2)[OF cat x] durableD(2)[OF dur x] by (simp_all add: rt_key_def)
  have "durable_state m x = Some (durable_of (runtime_at m p))" using x by (simp add: durable_state_def)
  from mirrorD(5)[OF mir mode this] have "named alnum (iv_name v)"
    using parts(2) by (simp add: state_ok_def durable_of_def rt_key_def)
  with d parts durableD(1)[OF dur x] mirrorD(1)[OF mir mode] show ?thesis
    by (intro view_stableI[of v alnum "mg_directory m"]) (simp_all add: queue_file_def)
qed

text \<open>Saving a view of a listed instance, and then showing it.\<close>

lemma mirror_save_view:
  assumes inv: "manager_inv m" and mir: "mirror alnum m" and mode: "mg_registry m = Some rows"
    and x: "inst_of m x = Some p" and key: "rt_key ((runtime_at m p)\<lparr>rt_view := v\<rparr>) = rt_key (runtime_at m p)"
    and d: "iv_desired_state v = ''running'' \<or> iv_desired_state v = ''stopped''"
    and m': "mg_registry m' = Some (registry_save_views [v] rows)" "mg_directory m' = mg_directory m"
      "durable_state m' = (durable_state m)(x \<mapsto> view_state v (rt_config_identity (runtime_at m p)))"
  shows "mirror alnum m'"
proof -
  have cat: "catalog_ok m" using inv by (simp add: manager_inv_def)
  note mirs = mirrorD[OF mir mode]
  have st: "view_stable v" by (rule listed_view_stable[OF assms(1-6)])
  have at: "durable_state m x = Some (durable_of (runtime_at m p))" using x by (simp add: durable_state_def)
  have parts: "iv_id v = x" "iv_name v = rt_name (runtime_at m p)" "iv_database_path v = database_of (runtime_at m p)"
    using key catalogD(2)[OF cat x] by (simp_all add: rt_key_def)
  have rs: "rows_state rows (iv_id v) = Some ((iv_id v, iv_name v, database_of (runtime_at m p), rt_config_identity (runtime_at m p)),
      iv_desired_state (rt_view (runtime_at m p)))"
    using at mirs(3) parts catalogD(2)[OF cat x] by (simp add: durable_of_def rt_key_def)
  note save = save_view_state[OF mirs(2) rs st mirs(4)]
  show ?thesis
  proof (rule mirrorI[OF m'(1) _ save(2) _ save(3)])
    show "text_directory (mg_directory m')" using mirs(1) m'(2) by simp
    show "durable_state m' = rows_state (registry_save_views [v] rows)" using m'(3) save(1) parts(1) mirs(3) by simp
    fix y s assume s: "durable_state m' y = Some s"
    show "state_ok alnum s"
    proof (cases "y = x")
      case True
      then have "s = view_state v (rt_config_identity (runtime_at m p))" using s m'(3) by simp
      then show ?thesis using mirs(5)[OF at] d parts by (simp add: state_ok_def view_state_def durable_of_def rt_key_def)
    next
      case False
      then show ?thesis using s m'(3) mirs(5) by simp
    qed
  qed
qed

section \<open>Steps of the life cycle\<close>

lemma update_runtimes_keeps:
  assumes "\<And>rt. k (f rt) = k rt" shows "k (runtime_at (update_runtimes f ps m) q) = k (runtime_at m q)"
proof -
  have "k (fold (\<lambda>p rts. rts[p := f (rts ! p)]) ps rts ! q) = k (rts ! q)" for rts
  proof (induction ps arbitrary: rts)
    case (Cons p ps)
    have "k (rts[p := f (rts ! p)] ! q) = k (rts ! q)"
    proof (cases "p = q")
      case True
      then show ?thesis by (cases "q < length rts") (simp_all add: assms list_update_beyond)
    qed simp
    then show ?case using Cons.IH[of "rts[p := f (rts ! p)]"] by simp
  qed simp
  then show ?thesis by (simp add: update_runtimes_def runtime_at_def)
qed

lemma update_runtimes_state:
  assumes "\<And>rt. durable_of (f rt) = durable_of rt"
  shows "durable_state (update_runtimes f ps m) = durable_state m"
proof (rule durable_state_same)
  show "durable_of (runtime_at (update_runtimes f ps m) p) = durable_of (runtime_at m p)" for p
    by (rule update_runtimes_keeps[of durable_of, OF assms])
qed (simp add: update_runtimes_def)

lemma stopping_durable: "durable_of (stopping rt) = durable_of rt"
  by (simp add: durable_of_def stopping_def rt_key_def)

lemma canceled_durable: "durable_of (canceled rt) = durable_of rt"
  by (simp add: durable_of_def canceled_def rt_key_def)

lemma mirror_update:
  "mirror alnum m \<Longrightarrow> (\<And>rt. durable_of (f rt) = durable_of rt) \<Longrightarrow> mirror alnum (update_runtimes f ps m)"
  by (erule mirror_same) (simp_all add: update_runtimes_state)

lemma mirror_stop_runtime: "mirror alnum m \<Longrightarrow> mirror alnum (snd (stop_runtime p m))"
  by (simp add: stop_runtime_def Let_def mirror_update stopping_durable)

lemma set_runtime_state:
  assumes "catalog_ok m" and "inst_of m x = Some p"
  shows "durable_state (set_runtime p rt m) = (durable_state m)(x \<mapsto> durable_of rt)"
proof
  fix y
  have "y = x" if "inst_of m y = Some p" using catalogD(2)[OF assms(1)] that assms(2) by metis
  then show "durable_state (set_runtime p rt m) y = ((durable_state m)(x \<mapsto> durable_of rt)) y"
    using assms(2) catalogD(1)[OF assms]
    by (cases "inst_of m y") (auto simp: durable_state_def runtime_at_set)
qed

lemma registry_cases:
  assumes "\<And>rows. mg_registry m = Some rows \<Longrightarrow> mirror alnum m" and "mg_registry m = None \<Longrightarrow> mirror alnum m"
  shows "mirror alnum m"
  using assms by (cases "mg_registry m") auto

lemma mirror_none: "mg_registry m = None \<Longrightarrow> mirror alnum m"
  by (simp add: mirror_def)

lemma save_views_some:
  assumes "save_views err vs m = (None, m1)" and "mg_registry m = Some rows"
  shows "m1 = m\<lparr>mg_registry := Some (registry_save_views vs rows)\<rparr>"
  using assms by (auto simp: save_views_def split: option.splits)

lemma save_views_failed:
  assumes "save_views err vs m = (Some e, m1)" shows "m1 = m"
  using assms by (auto simp: save_views_def split: option.splits)

lemma stop_mirror:
  assumes inv: "manager_inv m" and mir: "mirror alnum m" and stop: "stop_request ctx_err registry_err selector m = (r, m')"
  shows "mirror alnum m'"
  using stop
proof (cases rule: stop_request_cases)
  case (plain p)
  then show ?thesis using mirror_stop_runtime[OF mir, of p] by (metis snd_conv)
next
  case (saved p m1)
  obtain rows where rows: "mg_registry m = Some rows" using saved(2) by blast
  have cat: "catalog_ok m" using inv by (simp add: manager_inv_def)
  obtain x where x: "inst_of m x = Some p" using resolve_in_catalog[OF cat saved(1)] by blast
  let ?v = "(rt_view (runtime_at m p))\<lparr>iv_desired_state := ''stopped''\<rparr>"
  let ?m2 = "set_runtime p ((runtime_at m p)\<lparr>rt_view := ?v\<rparr>) m1"
  note m1 = save_views_some[OF saved(3) rows]
  have cat1: "catalog_ok m1" using save_views_inv[OF inv saved(3)] by (simp add: manager_inv_def)
  have x1: "inst_of m1 x = Some p" using x m1 by simp
  have "durable_state ?m2 = (durable_state m)(x \<mapsto> durable_of ((runtime_at m p)\<lparr>rt_view := ?v\<rparr>))"
    using set_runtime_state[OF cat1 x1] m1 by simp
  moreover have "durable_of ((runtime_at m p)\<lparr>rt_view := ?v\<rparr>) = view_state ?v (rt_config_identity (runtime_at m p))"
    by (simp add: durable_of_def view_state_def rt_key_def)
  ultimately have "mirror alnum ?m2"
    by (intro mirror_save_view[OF inv mir rows x, of ?v]) (simp_all add: rt_key_def m1)
  then show ?thesis using saved(5) mirror_stop_runtime[of alnum ?m2 p] by (auto split: if_splits dest: arg_cong[of _ _ snd])
qed (use mir in simp_all)

lemma published_durable:
  assumes inv: "manager_inv m" and p: "p < length (mg_heap m)" and phase: "rt_phase (runtime_at m p) = Finalizing v0"
    and v: "v0\<lparr>iv_desired_state := iv_desired_state (rt_view (runtime_at m p))\<rparr> = v" and m3: "published p v m m3"
  shows "durable_state m3 = durable_state m" and "rt_key ((runtime_at m p)\<lparr>rt_view := v\<rparr>) = rt_key (runtime_at m p)"
proof -
  have ok: "phase_ok (runtime_at m p)" using inv runtime_in_heap[OF p] by (simp add: manager_inv_def)
  then show key: "rt_key ((runtime_at m p)\<lparr>rt_view := v\<rparr>) = rt_key (runtime_at m p)"
    using phase v by (auto simp: phase_ok.simps rt_key_def)
  have "durable_of (published_runtime v (runtime_at m p)) = durable_of (runtime_at m p)"
    using key v by (auto simp: durable_of_def published_runtime_def rt_key_def)
  moreover have "runtime_at m3 q = (if q = p then published_runtime v (runtime_at m p) else runtime_at m q)" for q
    using m3 p by (simp add: published_def runtime_at_def nth_list_update)
  ultimately have "durable_of (runtime_at m3 q) = durable_of (runtime_at m q)" for q by simp
  then show "durable_state m3 = durable_state m" using m3 by (intro durable_state_same) (simp_all add: published_def)
qed

lemma publish_mirror:
  assumes inv: "manager_inv m" and mir: "mirror alnum m" and p: "p < length (mg_heap m)"
  shows "mirror alnum (run_published registry_err p m)"
proof (cases "mg_registry m = None \<or> \<not> (\<exists>v0. rt_phase (runtime_at m p) = Finalizing v0)")
  case True
  then show ?thesis
  proof
    assume "mg_registry m = None"
    then show ?thesis using run_published_mode[OF inv p] by (intro mirror_none) simp
  next
    assume "\<not> (\<exists>v0. rt_phase (runtime_at m p) = Finalizing v0)"
    then have "run_published registry_err p m = m" by (cases "rt_phase (runtime_at m p)") (auto simp: run_published_def)
    with mir show ?thesis by simp
  qed
next
  case False
  then obtain rows v0 where rows: "mg_registry m = Some rows" and fin: "rt_phase (runtime_at m p) = Finalizing v0" by auto
  define v where "v = v0\<lparr>iv_desired_state := iv_desired_state (rt_view (runtime_at m p))\<rparr>"
  obtain m3 where m3: "published p v m m3"
    "run_published registry_err p m =
      (if rt_remove_on_exit (runtime_at m p) then drop_instance v m3 else trim_terminated (iv_id v) m3)"
    by (rule run_published_cases[OF fin v_def[symmetric]])
  have dur: "durable_ok m" using inv rows by (simp add: manager_inv_def)
  have "\<not> rt_remove_on_exit (runtime_at m p)" using dur runtime_in_heap[OF p] by (simp add: durable_ok_def)
  then have eq: "run_published registry_err p m = m3"
    using m3 rows by (auto simp: trim_terminated_def published_def)
  note same = published_durable[OF inv p fin v_def[symmetric] m3(1)]
  have act: "rt_active (runtime_at m p)" using inv runtime_in_heap[OF p] fin by (auto simp: manager_inv_def phase_ok.simps)
  define x where "x = rt_id (runtime_at m p)"
  have x: "inst_of m x = Some p" using inv act p by (simp add: manager_inv_def active_listed_def x_def)
  have at: "durable_state m x = Some (durable_of (runtime_at m p))" using x by (simp add: durable_state_def)
  have des: "iv_desired_state v = iv_desired_state (rt_view (runtime_at m p))" by (simp add: v_def)
  have d: "iv_desired_state v = ''running'' \<or> iv_desired_state v = ''stopped''"
    using mirrorD(5)[OF mir rows at] by (simp add: state_ok_def durable_of_def rt_key_def des)
  have "view_state v (rt_config_identity (runtime_at m p)) = durable_of (runtime_at m p)"
    using same(2) des by (simp add: view_state_def durable_of_def rt_key_def)
  then have upd: "durable_state m3 = (durable_state m)(x \<mapsto> view_state v (rt_config_identity (runtime_at m p)))"
    using same(1) at fun_upd_idem[of "durable_state m" x] by simp
  have dir: "mg_directory m3 = mg_directory m" using m3(1) by (simp add: published_def)
  consider "mg_registry m3 = mg_registry m" | "mg_registry m3 = Some (registry_save_views [v] rows)"
    using m3(1) rows by (auto simp: published_def)
  then show ?thesis
  proof cases
    case 1
    then show ?thesis unfolding eq using mirror_same[OF mir] dir same(1) by simp
  next
    case 2
    show ?thesis unfolding eq by (rule mirror_save_view[OF inv mir rows x same(2) d 2 dir upd])
  qed
qed

lemma lifecycle_mirror:
  assumes "lifecycle_step m m'" and inv: "manager_inv m" and mir: "mirror alnum m"
  shows "mirror alnum m'"
  using assms(1)
proof cases
  case (stopped ctx_err registry_err selector r)
  then show ?thesis using stop_mirror[OF inv mir] by simp
next
  case (canceled_one p)
  then show ?thesis using mirror_update[OF mir] canceled_durable by (simp add: stop_cancel_def)
next
  case shut
  have "mirror alnum (update_runtimes stopping (fst (shutdown_request m)) m)"
    by (rule mirror_update[OF mir stopping_durable])
  from mirror_same[OF this, of m'] show ?thesis
    by (simp add: shut shutdown_request_def Let_def)
next
  case (canceled_all ps)
  have "mirror alnum (update_runtimes canceled ps m)" by (rule mirror_update[OF mir canceled_durable])
  from mirror_same[OF this, of m'] show ?thesis
    by (simp add: canceled_all shutdown_cancel_def)
next
  case (parent_canceled e)
  show ?thesis unfolding parent_canceled(1) by (rule mirror_same[OF mir]) simp_all
next
  case (returned p quote err now)
  show ?thesis
    unfolding returned(1)
    by (rule mirror_same[OF mir]; (rule durable_state_same)?)
      (simp_all add: run_returned_def runtime_at_set durable_of_def rt_key_def)
next
  case (finished p registry_err)
  then show ?thesis using publish_mirror[OF inv mir] by simp
qed

section \<open>Starting again\<close>

lemma resume_mirror:
  assumes inv: "manager_inv m" and mir: "mirror alnum m" and x: "inst_of m x = Some p"
    and mode: "mg_registry m = Some rows" and run: "resume_registered h p m = (r, m')"
  shows "mirror alnum m'"
proof -
  let ?rt = "runtime_at m p"
  let ?v = "(running_again (h_now h 0) (rt_view ?rt))\<lparr>iv_desired_state := ''running''\<rparr>"
  obtain e m1 where save: "save_views (h_registry_err h) [?v] m = (e, m1)" by force
  show ?thesis
  proof (cases "rt_active ?rt \<or> rt_config ?rt = None \<or> e \<noteq> None")
    case True
    then have "m' = m"
      using run save save_views_failed[of _ "[?v]" m] by (auto simp: resume_registered_def Let_def split: if_splits)
    with mir show ?thesis by simp
  next
    case False
    have m1: "m1 = m\<lparr>mg_registry := Some (registry_save_views [?v] rows)\<rparr>"
      using save_views_some[OF _ mode] save False by simp
    have m': "m' = register_runtime ?v (rt_config_identity ?rt) (rt_config ?rt) True m1"
      using False run save by (auto simp: resume_registered_def Let_def)
    have act: "view_active ?v = True" by (simp add: view_state_active)
    note add = register_runtime_added[OF act, of "rt_config_identity ?rt" "rt_config ?rt" m1]
    have cat: "catalog_ok m" using inv by (simp add: manager_inv_def)
    have cat1: "catalog_ok m1" using save_views_inv[OF inv save] by (simp add: manager_inv_def)
    have "durable_state m' = (durable_state m)(x \<mapsto> view_state ?v (rt_config_identity ?rt))"
      unfolding m' using added_durable_state[OF cat1 add] catalogD(2)[OF cat x]
      by (simp add: durable_of_registered) (simp add: m1)
    moreover have "mg_registry m' = Some (registry_save_views [?v] rows)" "mg_directory m' = mg_directory m"
      by (simp_all add: m' register_runtime_def Let_def m1)
    ultimately show ?thesis
      by (intro mirror_save_view[OF inv mir mode x, of ?v]) (simp_all add: rt_key_def)
  qed
qed

lemma fold_same_updates:
  assumes "\<forall>a \<in> set as. s (f a) = Some (g a)"
  shows "fold (\<lambda>a s. s(f a \<mapsto> g a)) as s = s"
  using assms by (induction as) (simp_all add: fun_upd_idem)

lemma restored_arrival_state:
  assumes "catalog_ok m" and "a \<in> set (restored_arrivals h m)"
  shows "durable_state m (iv_id (fst a)) = Some (view_state (fst a) (fst (snd a)))"
proof -
  from assms(2) obtain i e where e: "(i, e) \<in> set (List.enumerate 0 (filter (restorable m) (mg_instances m)))"
    "a = (running_again (h_now h i) (rt_view (runtime_at m (snd e))), rt_config_identity (runtime_at m (snd e)),
          rt_config (runtime_at m (snd e)))"
    by (auto simp: restored_arrivals_def restored_views_def)
  from set_enumerate[OF e(1)] have "e \<in> set (mg_instances m)" by simp
  then have "inst_of m (fst e) = Some (snd e)" using assms(1) by (simp add: catalog_ok_def)
  then show ?thesis
    using catalogD(2)[OF assms(1)] by (simp add: e(2) durable_state_def durable_of_def view_state_def rt_key_def running_again_def)
qed

lemma restored_arrivals_views: "map fst (restored_arrivals h m) = map snd (restored_views h m)"
  by (simp add: restored_arrivals_def comp_def case_prod_beta)

lemma restore_mirror:
  assumes inv: "manager_inv m" and mir: "mirror alnum m" and run: "restore h m = (r, m')"
  shows "mirror alnum m'"
  using run
proof (cases rule: restore_cases)
  case (resumed m1)
  then obtain rows where rows: "mg_registry m = Some rows" by blast
  note m1 = save_views_some[OF resumed(2) rows]
  have cat: "catalog_ok m" using inv by (simp add: manager_inv_def)
  note mirs = mirrorD[OF mir rows]
  have mode1: "mg_registry m1 \<noteq> None" by (simp add: m1)
  have same: "durable_state m' = durable_state m"
    using register_arrivals_state[OF save_views_inv[OF inv resumed(2)] mode1
        restored_arrivals_ok(1)[OF inv resumed(1,2), of h] restored_arrivals_ok(2)[OF inv resumed(1,2), of h]]
      fold_same_updates[of "restored_arrivals h m" "durable_state m" "\<lambda>a. iv_id (fst a)"
        "\<lambda>a. view_state (fst a) (fst (snd a))"] restored_arrival_state[OF cat]
    by (simp add: m1 resumed(3))
  have "\<forall>v \<in> set (map snd (restored_views h m)). view_stable v \<and> (\<exists>k. rows_state rows (iv_id v) = Some (view_state v k))"
  proof
    fix v assume "v \<in> set (map snd (restored_views h m))"
    then obtain a where a: "a \<in> set (restored_arrivals h m)" "v = fst a"
      unfolding restored_arrivals_views[symmetric] by auto
    obtain p x where x: "inst_of m x = Some p" "rt_key (arrival_runtime True a) = rt_key (runtime_at m p)" "restorable m (x, p)"
      by (rule restored_arrival_facts[OF cat a(1)]) blast
    have at: "durable_state m (iv_id v) = Some (view_state v (fst (snd a)))" using restored_arrival_state[OF cat a(1)] a(2) by simp
    have "iv_desired_state v = ''running'' \<or> iv_desired_state v = ''stopped''"
      using mirs(5)[OF at] by (simp add: state_ok_def view_state_def)
    moreover have "rt_key ((runtime_at m p)\<lparr>rt_view := v\<rparr>) = rt_key (runtime_at m p)"
      using x(2) a(2) by (simp add: rt_key_def)
    ultimately have "view_stable v" using listed_view_stable[OF inv mir rows x(1)] by simp
    then show "view_stable v \<and> (\<exists>k. rows_state rows (iv_id v) = Some (view_state v k))" using at mirs(3) by auto
  qed
  from save_same_views[OF mirs(2,4) this] show ?thesis
    by (intro mirrorI[of m' "registry_save_views (map snd (restored_views h m)) rows"])
      (use register_arrivals_fields same mirs m1 resumed(3) in simp_all)
qed (use mir in simp)

section \<open>Registering\<close>

lemma canonical_is_abs:
  assumes "is_abs cwd" and "canonical_database_path cwd fs p = Inr q" shows "is_abs q"
proof -
  let ?a = "clean (abs_path cwd p)"
  have a: "is_abs ?a" "clean ?a = ?a" using abs_path_clean[OF assms(1)] assms(1)
    by (cases "is_abs p", simp_all add: abs_path_def join_path_is_abs)
  have "canonical_loop fs ?a 0 ?a = Inr q"
    using assms(2) by (simp add: canonical_database_path_def Let_def split: if_splits)
  from canonical_loop_settled[OF this a] show ?thesis by simp
qed

lemma load_item_identity:
  assumes cwd: "is_abs (h_cwd h)" and ids: "\<forall>e \<in> set ids. fst e \<noteq> []" and load: "load_item h ids i items p = Inr item"
  shows "ri_identity item \<noteq> []"
proof -
  from load obtain absolute identity found where parts: "canonical_path h absolute = Inr identity"
    "find_identity h identity ids = Inr found"
    "ri_identity item = (case found of None \<Rightarrow> identity | Some (known, x) \<Rightarrow> known)"
    by (auto simp: load_item_def on_error_Inr split: sum.splits option.splits)
  have "is_abs identity"
    using parts(1) canonical_is_abs[OF cwd] by (simp add: canonical_path_def split: if_splits)
  then show ?thesis
    using parts(2,3) find_identity_Some[of h identity ids] ids by (fastforce simp: is_abs_def split: option.splits)
qed

lemma load_items_identity:
  assumes cwd: "is_abs (h_cwd h)" and ids: "\<forall>e \<in> set ids. fst e \<noteq> []"
    and "load_items h ids i items paths = Inr result" and "\<forall>item \<in> set items. ri_identity item \<noteq> []"
  shows "\<forall>item \<in> set result. ri_identity item \<noteq> []"
  using assms(3,4)
proof (induction paths arbitrary: i items)
  case (Cons p paths)
  from Cons.prems(1) obtain item where item: "load_item h ids i items p = Inr item"
    "load_items h ids (i + 1) (items @ [item]) paths = Inr result" by (auto split: sum.splits)
  show ?case using Cons.IH[OF item(2)] Cons.prems(2) load_item_identity[OF cwd ids item(1)] by simp
qed simp

definition named_view :: "(nat \<Rightarrow> bool) \<Rightarrow> manager \<Rightarrow> instance_view \<Rightarrow> bool" where
  "named_view alnum m v \<longleftrightarrow> named alnum (iv_name v) \<or>
    (\<exists>x p. inst_of m x = Some p \<and> iv_name v = rt_name (runtime_at m p))"

lemma item_view_named:
  assumes tables: "ascii_tables (h_alnum h)" and name: "name = [] \<or> named (h_alnum h) name"
    and view: "item_view h m name reserved n now item = Inr (v, reserved', n')"
  shows "named_view (h_alnum h) m v"
proof (cases "ri_existing item = []")
  case True
  define name1 where "name1 = (if name = [] then available_name (taken_names m @ reserved) (automatic_name (h_alnum h) (ri_path item)) else name)"
  have "named (h_alnum h) name1" using name available_name_named[OF tables] by (cases "name = []") (simp_all add: name1_def)
  moreover have "iv_name v = name1"
    using view True by (auto simp: item_view_def Let_def name1_def[symmetric] split: if_splits prod.splits sum.splits)
  ultimately show ?thesis by (simp add: named_view_def)
next
  case False
  then obtain p where "inst_of m (ri_existing item) = Some p" "iv_name v = rt_name (runtime_at m p)"
    using view by (auto simp: item_view_def Let_def split: if_splits option.splits)
  then show ?thesis by (auto simp: named_view_def)
qed

lemma prepare_items_views:
  assumes tables: "ascii_tables (h_alnum h)" and name: "name = [] \<or> named (h_alnum h) name"
    and "prepare_items h m name reserved n i items = Inr gs"
  shows "\<forall>g \<in> set gs. named_view (h_alnum h) m (rg_view g) \<and> iv_desired_state (rg_view g) = ''running'' \<and>
    rg_identity g \<in> ri_identity ` set items"
  using assms(3)
proof (induction items arbitrary: reserved n i gs)
  case (Cons item items)
  from Cons.prems obtain v reserved' n' cfg hash gs' where step:
    "item_view h m name reserved n (h_now h (2 * i)) item = Inr (v, reserved', n')"
    "prepare_items h m name reserved' n' (i + 1) items = Inr gs'"
    "gs = \<lparr>rg_view = (running_again (h_now h (2 * i + 1)) v)\<lparr>iv_config_hash := hash, iv_desired_state := ''running''\<rparr>,
           rg_identity = ri_identity item, rg_config = cfg\<rparr> # gs'"
    by (auto simp: Let_def split: sum.splits prod.splits)
  have "named_view (h_alnum h) m v" by (rule item_view_named[OF tables name step(1)])
  then show ?case using Cons.IH[OF step(2)] by (auto simp: step(3) named_view_def)
qed simp

lemma durable_identities:
  assumes "catalog_ok m" and "mirror alnum m" and "mg_registry m \<noteq> None"
  shows "\<forall>e \<in> set (identities_of m). fst e \<noteq> []"
proof
  fix e assume "e \<in> set (identities_of m)"
  then obtain x p where e: "e = (rt_config_identity (runtime_at m p), x)" "(x, p) \<in> set (mg_instances m)"
    by (auto simp: identities_of_def)
  then have at: "durable_state m x = Some (durable_of (runtime_at m p))"
    using assms(1) by (simp add: durable_state_def catalog_ok_def)
  obtain rows where "mg_registry m = Some rows" using assms(3) by blast
  from mirrorD(5)[OF assms(2) this at] show "fst e \<noteq> []"
    using e(1) by (simp add: state_ok_def durable_of_def rt_key_def)
qed

lemma fold_updates_all:
  assumes "\<And>x s. f0 x = Some s \<Longrightarrow> P s" and "\<forall>a \<in> set as. P (g a)"
  shows "fold (\<lambda>a s. s(f a \<mapsto> g a)) as f0 x = Some s \<Longrightarrow> P s"
  using assms
proof (induction as arbitrary: f0)
  case (Cons a as)
  have "\<And>x s. (f0(f a \<mapsto> g a)) x = Some s \<Longrightarrow> P s" using Cons.prems(2,3) by (auto split: if_splits)
  from Cons.IH[OF _ this] Cons.prems(1,3) show ?case by simp
qed simp

lemma second_mirror:
  assumes tables: "ascii_tables (h_alnum h)" "\<not> h_alnum h rune_error" and cwd: "is_abs (h_cwd h)"
    and inv: "manager_inv m" and mode: "mg_registry m \<noteq> None" and mir: "mirror (h_alnum h) m"
    and old: "manager_inv m0" and same: "same_catalog m0 m"
    and name: "name = [] \<or> length paths = 1 \<and> valid_display_name (h_alnum h) name"
    and run: "start_registered_second h paths name m0 m = (r, m')"
  shows "mirror (h_alnum h) m'"
proof (cases "load_items h (identities_of m0) 0 [] paths")
  case (Inl e)
  then show ?thesis using run mir by (simp add: start_registered_second_def)
next
  case (Inr items)
  obtain rows where rows: "mg_registry m = Some rows" using mode by blast
  have cat: "catalog_ok m" "catalog_ok m0" using inv old by (simp_all add: manager_inv_def)
  have name': "name = [] \<or> length paths = 1" "name = [] \<or> named (h_alnum h) name"
    using name valid_name_named[OF tables] by auto
  note items = loaded_items_ok[OF inv mode old same name'(1) Inr]
  have ids: "\<forall>item \<in> set items. ri_identity item \<noteq> []"
    by (rule load_items_identity[OF cwd _ Inr])
      (use durable_identities[OF cat(1) mir mode] same_catalog_identities[OF same cat(2)] in simp_all)
  have run': "register_items h name items m = (r, m')" using run Inr by (simp add: start_registered_second_def)
  from run' rows show ?thesis
  proof (cases rule: register_items_cases)
    case (registered gs rows')
    let ?m1 = "m\<lparr>mg_registry := Some rows'\<rparr>"
    have inv1: "manager_inv ?m1" using manager_inv_rows[OF inv] rows by simp
    note arrivals = registrations_ok(1)[OF inv mode items registered(2), of "Some rows'"]
      registrations_ok(2)[OF inv mode items registered(2)]
    note views = prepare_items_views[OF tables(1) name'(2) registered(2)]
    note mirs = mirrorD[OF mir rows]
    have good: "state_ok (h_alnum h) (view_state (rg_view g) (rg_identity g)) \<and> view_stable (rg_view g)" if g: "g \<in> set gs" for g
    proof -
      have v: "named_view (h_alnum h) m (rg_view g)" "iv_desired_state (rg_view g) = ''running''" "rg_identity g \<noteq> []"
        using views ids g by fastforce+
      have nm: "named (h_alnum h) (iv_name (rg_view g))"
        using v(1) unfolding named_view_def
      proof
        assume "\<exists>x p. inst_of m x = Some p \<and> iv_name (rg_view g) = rt_name (runtime_at m p)"
        then obtain x p where xp: "inst_of m x = Some p" "iv_name (rg_view g) = rt_name (runtime_at m p)" by blast
        then have "durable_state m x = Some (durable_of (runtime_at m p))" by (simp add: durable_state_def)
        from mirs(5)[OF this] show ?thesis using xp(2) by (simp add: state_ok_def durable_of_def rt_key_def)
      qed
      have "registrable (reg_runtime g) ?m1" using arrivals(1) g by simp
      then have "valid_id (iv_id (rg_view g))" "iv_database_path (rg_view g) = queue_file m (iv_id (rg_view g))"
        by (simp_all add: registrable_def durable_free_def queue_file_def)
      then have "view_stable (rg_view g)"
        using nm mirs(1) v(2) by (intro view_stableI[of _ "h_alnum h" "mg_directory m"]) (simp_all add: queue_file_def)
      then show ?thesis using nm v by (simp add: state_ok_def view_state_def)
    qed
    have state: "durable_state m' = fold reg_update gs (durable_state m)"
      using register_arrivals_state[OF inv1 _ arrivals] by (simp add: registered(5) fold_map comp_def reg_update_def[abs_def])
    have saved: "rows_state rows' = fold reg_update gs (rows_state rows) \<and> distinct (map rr_id rows') \<and> (\<forall>r \<in> set rows'. row_whole r)"
      by (rule registry_save_state[OF registered(3) mirs(2,4)]) (use good in blast)
    show ?thesis
    proof (rule mirrorI[of m' rows'])
      show "mg_registry m' = Some rows'" "text_directory (mg_directory m')"
        using register_arrivals_fields mirs(1) by (simp_all add: registered(5))
      show "distinct (map rr_id rows')" "\<forall>r \<in> set rows'. row_whole r" using saved by simp_all
      show "durable_state m' = rows_state rows'" using state saved mirs(3) by simp
      fix x s assume "durable_state m' x = Some s"
      then have "fold (\<lambda>g s. s(iv_id (rg_view g) \<mapsto> view_state (rg_view g) (rg_identity g))) gs (durable_state m) x = Some s"
        unfolding state reg_update_def[abs_def] .
      then show "state_ok (h_alnum h) s"
        by (rule fold_updates_all[rotated 2]) (use mirs(5) good in auto)
    qed
  qed (use mir in simp)
qed

end
