(* ===== verification/ManagerReload.thy ===== *)
theory ManagerReload
  imports ManagerRestart
begin

text \<open>
  Loading the registry: a supervisor on the rows of an earlier one knows the instances of the earlier one,
  and is a supervisor in the sense of \<open>ManagerSystem\<close> again. At every moment of a supervisor's life the
  rows are as such a load needs them, but for names that start with an underscore.
\<close>

section \<open>The rows mirror the instances at every moment\<close>

lemma first_mirror:
  assumes inv: "manager_inv m" and mir: "mirror alnum m" and run: "start_registered_first h paths name m = Some (r, m')"
  shows "mirror alnum m'"
proof (cases "m' = m \<or> mg_registry m = None")
  case True
  show ?thesis
  proof (cases "m' = m")
    case False
    then obtain p where "resume_registered h p m = (r, m')" "mg_registry m = None"
      using run True by (auto simp: start_registered_first_def split: if_splits option.splits sum.splits)
    then show ?thesis
      by (intro mirror_none) (auto simp: resume_registered_def save_views_def register_runtime_def Let_def
          split: if_splits option.splits)
  qed (use mir in simp)
next
  case False
  then obtain p rows where p: "resolve_locked m (hd paths) = Inr p" "resume_registered h p m = (r, m')" "mg_registry m = Some rows"
    using run by (auto simp: start_registered_first_def split: if_splits option.splits sum.splits)
  have "catalog_ok m" using inv by (simp add: manager_inv_def)
  from resolve_in_catalog[OF this p(1)] obtain x where "inst_of m x = Some p" by blast
  from resume_mirror[OF inv mir this p(3,2)] show ?thesis .
qed

lemma queue_mirror:
  assumes inv: "manager_inv m" and mir: "mirror alnum m" and mode: "mg_registry m \<noteq> None"
    and run: "start_registered_queue h known m = (r, m')"
  shows "mirror alnum m'"
proof (cases "m' = m")
  case False
  obtain rows where rows: "mg_registry m = Some rows" using mode by blast
  from False obtain x p where found: "List.find (\<lambda>e. database_of (runtime_at m (snd e)) = kq_identity known \<and>
      rt_config_identity (runtime_at m (snd e)) = kq_config_identity known) (mg_instances m) = Some (x, p)"
    "resume_registered h p m = (r, m')"
    using run by (auto simp: start_registered_queue_def split: if_splits option.splits)
  then have "(x, p) \<in> set (mg_instances m)" by (auto simp: find_Some_iff)
  then have "inst_of m x = Some p" using inv by (simp add: manager_inv_def catalog_ok_def)
  from resume_mirror[OF inv mir this rows found(2)] show ?thesis .
qed (use mir in simp)

fun gate_named :: "(nat \<Rightarrow> bool) \<Rightarrow> gate \<Rightarrow> bool" where
  "gate_named alnum (GateLoading paths name m0) \<longleftrightarrow> name = [] \<or> length paths = 1 \<and> valid_display_name alnum name"
| "gate_named alnum g \<longleftrightarrow> True"

lemma supervisor_step_mirror:
  assumes "supervisor_step alnum (m, g) (m', g')" and tables: "ascii_tables alnum" "\<not> alnum rune_error"
    and inv: "manager_inv m" and gate: "gate_ok m g" "gate_named alnum g" and mir: "mirror alnum m"
  shows "mirror alnum m' \<and> gate_named alnum g'"
  using assms(1)
proof cases
  case life
  then show ?thesis using lifecycle_mirror inv mir gate(2) by simp
next
  case (answered h paths name r)
  then show ?thesis using first_mirror[OF inv mir] by simp
next
  case (loading h paths name)
  then show ?thesis using mir by (auto simp: start_registered_first_def split: if_splits)
next
  case (registered h paths name m0 r)
  then show ?thesis using second_mirror[OF _ _ registered(4) inv _ _ _ _ _ registered(5)] tables mir gate by auto
next
  case (by_queue h known r)
  then show ?thesis using queue_mirror[OF inv mir] by simp
next
  case (restored h r)
  then show ?thesis using restore_mirror[OF inv mir] by simp
next
  case (reserved h name remove_on_exit cs seen r)
  then show ?thesis using reserve_inv[OF inv _ _ _ reserved(3)] gate by (auto intro: mirror_none)
qed (use mir in simp_all)

section \<open>Loading rows\<close>

lemma load_row_state:
  assumes cat: "\<And>x p. inst_of m x = Some p \<Longrightarrow> p < length (mg_heap m)" and load: "load_row alnum quote now r m = Inr m'"
  shows "durable_state m' = (durable_state m)(rr_id r \<mapsto> row_state r)" and "row_valid alnum r"
    and "mg_registry m' = mg_registry m" and "mg_directory m' = mg_directory m"
    and "inst_of m' x = Some p \<Longrightarrow> p < length (mg_heap m')"
proof -
  obtain v cfg where add: "added (registered_runtime v (rr_identity r) cfg False) m m'" "\<not> view_active v"
    "rt_key (registered_runtime v (rr_identity r) cfg False) = rt_key (row_runtime r)" "row_valid alnum r"
    "iv_desired_state v = iv_desired_state (rr_view r)"
    by (rule load_row_added[OF load])
  let ?rt = "registered_runtime v (rr_identity r) cfg False"
  note at = added_at[OF add(1)]
  show val: "row_valid alnum r" by (rule add(4))
  have key: "durable_of ?rt = row_state r" "rt_id ?rt = rr_id r"
    using key_parts[OF add(3)] add(5) val by (simp_all add: durable_of_def row_state_def rt_key_def row_runtime_def row_valid_def)
  show "durable_state m' = (durable_state m)(rr_id r \<mapsto> row_state r)"
  proof
    fix x show "durable_state m' x = ((durable_state m)(rr_id r \<mapsto> row_state r)) x"
    proof (cases "x = rr_id r")
      case True
      then show ?thesis using at key by (simp add: durable_state_def)
    next
      case False
      then show ?thesis using at(3) cat key(2) by (cases "inst_of m x") (simp_all add: durable_state_def at(4))
    qed
  qed
  show "mg_directory m' = mg_directory m" using add(1) by (simp add: added_def)
  show "mg_registry m' = mg_registry m"
    using load by (auto simp: load_row_def register_runtime_def Let_def split: if_splits sum.splits)
  show "p < length (mg_heap m')" if "inst_of m' x = Some p"
    using that at(1,4) cat by (auto split: if_splits intro: less_SucI)
qed

lemma load_rows_state:
  assumes "\<And>x p. inst_of m x = Some p \<Longrightarrow> p < length (mg_heap m)" and "load_rows alnum quote now i rows m = Inr m'"
  shows "durable_state m' = fold (\<lambda>r s. s(rr_id r \<mapsto> row_state r)) rows (durable_state m) \<and>
    (\<forall>r \<in> set rows. row_valid alnum r) \<and> mg_registry m' = mg_registry m \<and> mg_directory m' = mg_directory m"
  using assms
proof (induction rows arbitrary: m i)
  case (Cons r rows)
  from Cons.prems(2) obtain m1 where m1: "load_row alnum quote (now i) r m = Inr m1"
    "load_rows alnum quote now (i + 1) rows m1 = Inr m'" by (auto split: sum.splits)
  note one = load_row_state[OF Cons.prems(1) m1(1)]
  show ?case using Cons.IH[OF one(5) m1(2)] one(1-4) by simp
qed simp

lemma load_rows_fails:
  assumes "load_rows alnum quote now i rows m = Inl e"
  obtains r where "r \<in> set rows" "\<not> row_valid alnum r"
    "e = ErrorString [T ''control: invalid registered instance '', T (rr_id r)]"
proof -
  from assms have "\<exists>r \<in> set rows. \<not> row_valid alnum r \<and> e = ErrorString [T ''control: invalid registered instance '', T (rr_id r)]"
  proof (induction rows arbitrary: m i)
    case (Cons r rows)
    show ?case
    proof (cases "row_valid alnum r")
      case True
      then obtain m1 where "load_row alnum quote (now i) r m = Inr m1"
        by (cases "validate_config (rr_config r)") (auto simp: load_row_def Let_def)
      then show ?thesis using Cons by auto
    next
      case False
      then have "load_row alnum quote (now i) r m = Inl (ErrorString [T ''control: invalid registered instance '', T (rr_id r)])"
        by (simp add: load_row_def)
      then show ?thesis using Cons.prems False by auto
    qed
  qed simp
  then show ?thesis using that by blast
qed

lemma fold_rows_state:
  "distinct (map rr_id rows) \<Longrightarrow> fold (\<lambda>r s. s(rr_id r \<mapsto> row_state r)) rows s = s ++ rows_state rows"
proof (induction rows arbitrary: s)
  case (Cons r rows)
  then have "rows_state rows (rr_id r) = None" by (auto simp: rows_state_None)
  then show ?case using Cons by (auto simp: rows_state_def map_add_def fun_eq_iff split: option.splits)
qed (simp add: rows_state_def)

lemma rows_state_cong:
  assumes "mset rows' = mset rows" and "distinct (map rr_id rows)"
  shows "rows_state rows' = rows_state rows" and "distinct (map rr_id rows')" and "set rows' = set rows"
proof -
  show s: "set rows' = set rows" using assms(1) by (rule mset_eq_setD)
  have "mset (map rr_id rows') = mset (map rr_id rows)" using assms(1) by simp
  then show d: "distinct (map rr_id rows')" using assms(2) mset_eq_imp_distinct_iff by blast
  show "rows_state rows' = rows_state rows"
  proof
    fix x show "rows_state rows' x = rows_state rows x"
    proof (cases "x \<in> rr_id ` set rows")
      case True
      then obtain r where "r \<in> set rows" "rr_id r = x" by auto
      then show ?thesis using rows_state_at[OF d, of r] rows_state_at[OF assms(2), of r] s by simp
    next
      case False
      then show ?thesis using rows_state_None[of rows x] rows_state_None[of rows' x] s by simp
    qed
  qed
qed

definition options_ok :: "manager_options \<Rightarrow> bool" where
  "options_ok opts \<longleftrightarrow> 0 \<le> mo_log_capacity opts \<and> 0 \<le> mo_log_subscriber_buffer opts \<and>
    0 \<le> mo_max_log_line_bytes opts \<and> 0 \<le> mo_max_log_bytes opts \<and> 0 \<le> mo_retained_instances opts"

lemma new_manager_rows:
  assumes "options_ok opts"
  obtains retained where "new_manager opts alnum quote now directory (Some rows) =
    load_rows alnum quote now 0 rows (empty_manager retained directory (Some rows))"
  using assms by (auto simp: new_manager_def options_ok_def Let_def)

lemma new_manager_options: "new_manager opts alnum quote now directory rows = Inr m \<Longrightarrow> options_ok opts"
  by (auto simp: new_manager_def options_ok_def split: if_splits)

lemma new_manager_state:
  assumes "distinct (map rr_id rows)" and new: "new_manager opts alnum quote now directory (Some rows) = Inr m"
  shows "durable_state m = rows_state rows" and "\<forall>r \<in> set rows. row_valid alnum r" and "mg_registry m = Some rows"
    and "mg_directory m = directory"
proof -
  from new_manager_rows[OF new_manager_options[OF new], of alnum quote now directory rows] new
  obtain retained where load: "load_rows alnum quote now 0 rows (empty_manager retained directory (Some rows)) = Inr m"
    by metis
  have empty: "durable_state (empty_manager retained directory (Some rows)) = Map.empty"
    by (simp add: durable_state_def empty_manager_def fun_eq_iff)
  have "durable_state m = fold (\<lambda>r s. s(rr_id r \<mapsto> row_state r)) rows (durable_state (empty_manager retained directory (Some rows))) \<and>
    (\<forall>r \<in> set rows. row_valid alnum r) \<and> mg_registry m = mg_registry (empty_manager retained directory (Some rows)) \<and>
    mg_directory m = mg_directory (empty_manager retained directory (Some rows))"
    by (rule load_rows_state[OF _ load]) (simp add: empty_manager_def)
  then show "durable_state m = rows_state rows" "\<forall>r \<in> set rows. row_valid alnum r" "mg_registry m = Some rows"
    "mg_directory m = directory"
    unfolding empty fold_rows_state[OF assms(1)] by (simp_all add: empty_manager_def)
qed

lemma new_manager_mirror:
  assumes tables: "ascii_tables alnum" "\<not> alnum rune_error" and dir: "text_directory directory"
    and rows: "\<And>rs. rows = Some rs \<Longrightarrow> rows_ok directory rs" and new: "new_manager opts alnum quote now directory rows = Inr m"
  shows "mirror alnum m"
proof (cases rows)
  case None
  then show ?thesis using new by (intro mirror_none) (auto simp: new_manager_def Let_def empty_manager_def split: if_splits)
next
  case (Some rs)
  have dist: "distinct (map rr_id rs)" using rows Some by (simp add: rows_ok_def)
  note state = new_manager_state[OF dist new[unfolded Some]]
  show ?thesis
  proof (rule mirrorI[OF state(3)])
    show "text_directory (mg_directory m)" using dir state(4) by simp
    show "\<forall>r \<in> set rs. row_whole r" using state(2) by (simp add: row_valid_def row_whole_def)
    fix x s assume "durable_state m x = Some s"
    then have "rows_state rs x = Some s" using state(1) by simp
    from rows_state_Some[OF this] obtain r where "r \<in> set rs" "row_state r = s" by blast
    then show "state_ok alnum s"
      using state(2) valid_name_named[OF tables] by (auto simp: state_ok_def row_state_def row_valid_def)
  qed (simp_all add: dist state)
qed

lemma supervised_mirror:
  assumes "ascii_tables alnum" "\<not> alnum rune_error"
  shows "supervised alnum s \<Longrightarrow> mirror alnum (fst s) \<and> gate_named alnum (snd s)"
proof (induction rule: supervised.induct)
  case (new directory rows opts quote now m)
  from new_manager_mirror[OF assms new(2,3,4)] show ?case by simp
next
  case (stepped s s')
  then show ?case
    using supervisor_step_mirror[of alnum "fst s" "snd s" "fst s'" "snd s'"] supervised_inv[OF stepped(1)] assms by simp
qed

section \<open>Again on the same rows\<close>

lemma mirror_row:
  assumes inv: "manager_inv m" and mir: "mirror alnum m" and mode: "mg_registry m = Some rows" and r: "r \<in> set rows"
  obtains p where "inst_of m (rr_id r) = Some p" "durable_of (runtime_at m p) = row_state r" "valid_id (rr_id r)"
    "rr_name r = rt_name (runtime_at m p)" "rr_identity r = rt_config_identity (runtime_at m p)"
    "iv_database_path (rr_view r) = queue_file m (rr_id r)" "state_ok alnum (row_state r)" "row_whole r"
proof -
  note mirs = mirrorD[OF mir mode]
  have cat: "catalog_ok m" and dur: "durable_ok m" using inv mode by (simp_all add: manager_inv_def)
  have "durable_state m (rr_id r) = Some (row_state r)" using rows_state_at[OF mirs(2) r] mirs(3) by simp
  note at = this mirs(5)[OF this]
  from at(1) obtain p where p: "inst_of m (rr_id r) = Some p" "durable_of (runtime_at m p) = row_state r"
    by (auto simp: durable_state_def)
  show ?thesis
    by (rule that[OF p durableD(1)[OF dur p(1)] _ _ _ at(2)])
      (use p(2) durableD(2)[OF dur p(1)] mirs(4) r in \<open>simp_all add: durable_of_def row_state_def rt_key_def\<close>)
qed

lemma mirror_rows_ok:
  assumes inv: "manager_inv m" and mir: "mirror alnum m" and mode: "mg_registry m = Some rows"
  shows "rows_ok (mg_directory m) rows"
proof -
  have cat: "catalog_ok m" and dur: "durable_ok m" using inv mode by (simp_all add: manager_inv_def)
  note mirs = mirrorD[OF mir mode]
  have ids: "a = b" if "a \<in> set rows" "b \<in> set rows" "rr_id a = rr_id b" for a b
    using that mirs(2) by (simp add: distinct_map inj_on_def)
  have rows: "distinct rows" using mirs(2) by (simp add: distinct_map)
  have "rr_id a = rr_id b" if "a \<in> set rows" "b \<in> set rows" "rr_name a = rr_name b" for a b
  proof -
    note ab = that
    obtain p where p: "inst_of m (rr_id a) = Some p" "rr_name a = rt_name (runtime_at m p)"
      by (rule mirror_row[OF inv mir mode ab(1)]) blast
    obtain q where q: "inst_of m (rr_id b) = Some q" "rr_name b = rt_name (runtime_at m q)"
      by (rule mirror_row[OF inv mir mode ab(2)]) blast
    then show ?thesis using p q catalogD(3)[OF cat p(1)] catalogD(3)[OF cat q(1)] ab(3) by simp
  qed
  then have names: "distinct (map rr_name rows)" using rows ids unfolding distinct_map inj_on_def by blast
  have "rr_id a = rr_id b" if "a \<in> set rows" "b \<in> set rows" "rr_identity a = rr_identity b" for a b
  proof -
    note ab = that
    obtain p where p: "inst_of m (rr_id a) = Some p" "rr_identity a = rt_config_identity (runtime_at m p)"
      by (rule mirror_row[OF inv mir mode ab(1)]) blast
    obtain q where q: "inst_of m (rr_id b) = Some q" "rr_identity b = rt_config_identity (runtime_at m q)"
      by (rule mirror_row[OF inv mir mode ab(2)]) blast
    then show ?thesis using dur ab(3) p q unfolding durable_ok_def by (metis (no_types))
  qed
  then have identities: "distinct (map rr_identity rows)" using rows ids unfolding distinct_map inj_on_def by blast
  have cross: "rr_id a \<noteq> rr_name b" if "a \<in> set rows" "b \<in> set rows" for a b
  proof -
    note ab = that
    obtain p where p: "inst_of m (rr_id a) = Some p" by (rule mirror_row[OF inv mir mode ab(1)]) blast
    obtain q where q: "inst_of m (rr_id b) = Some q" "rr_name b = rt_name (runtime_at m q)"
      by (rule mirror_row[OF inv mir mode ab(2)]) blast
    then show ?thesis using q catalogD(3)[OF cat q(1)] catalogD(4)[OF cat p(1)] by auto
  qed
  have "iv_database_path (rr_view r) = queue_file m (rr_id r)" if "r \<in> set rows" for r
    by (rule mirror_row[OF inv mir mode that])
  then show ?thesis
    using mirs(2) names identities cross by (auto simp: rows_ok_def queue_file_def)
qed

lemma mirror_row_valid:
  assumes tables: "ascii_tables alnum" and inv: "manager_inv m" and mir: "mirror alnum m"
    and mode: "mg_registry m = Some rows" and r: "r \<in> set rows"
  shows "row_valid alnum r \<longleftrightarrow> \<not> prefix ''_'' (rr_name r)"
proof -
  obtain p where p: "inst_of m (rr_id r) = Some p" "durable_of (runtime_at m p) = row_state r" "valid_id (rr_id r)"
    "state_ok alnum (row_state r)" "row_whole r" by (rule mirror_row[OF inv mir mode r]) blast
  then show ?thesis
    using named_valid_iff[OF tables, of "rr_name r"] by (auto simp: row_valid_def state_ok_def row_state_def row_whole_def)
qed

text \<open>The rows in any order, as the database returns them.\<close>

lemma rows_ok_cong:
  assumes "mset rows' = mset rows" and "rows_ok d rows" shows "rows_ok d rows'"
proof -
  have "mset (map f rows') = mset (map f rows)" for f :: "registry_row \<Rightarrow> string" using assms(1) by simp
  then have "distinct (map f rows') = distinct (map f rows)" for f :: "registry_row \<Rightarrow> string"
    using mset_eq_imp_distinct_iff by blast
  then show ?thesis using assms(2) mset_eq_setD[OF assms(1)] by (simp add: rows_ok_def)
qed

lemma reload_cases:
  assumes tables: "ascii_tables alnum" and opts: "options_ok opts" and inv: "manager_inv m" and mir: "mirror alnum m"
    and mode: "mg_registry m = Some rows" and order: "mset rows' = mset rows"
  obtains (refused) x p where "inst_of m x = Some p" "prefix ''_'' (rt_name (runtime_at m p))"
      "new_manager opts alnum quote now (mg_directory m) (Some rows') = Inl (ErrorString [T ''control: invalid registered instance '', T x])"
  | (loaded) m' where "new_manager opts alnum quote now (mg_directory m) (Some rows') = Inr m'"
      "durable_state m' = durable_state m" "\<And>x p. inst_of m x = Some p \<Longrightarrow> \<not> prefix ''_'' (rt_name (runtime_at m p))"
proof (cases "new_manager opts alnum quote now (mg_directory m) (Some rows')")
  case (Inl e)
  note mirs = mirrorD[OF mir mode] and cong = rows_state_cong[OF order mirrorD(2)[OF mir mode]]
  obtain retained where "load_rows alnum quote now 0 rows' (empty_manager retained (mg_directory m) (Some rows')) = Inl e"
    using new_manager_rows[OF opts] Inl by metis
  then obtain r where r: "r \<in> set rows'" "\<not> row_valid alnum r" "e = ErrorString [T ''control: invalid registered instance '', T (rr_id r)]"
    by (rule load_rows_fails)
  obtain p where p: "inst_of m (rr_id r) = Some p" "rr_name r = rt_name (runtime_at m p)"
    by (rule mirror_row[OF inv mir mode, of r]) (use r(1) cong(3) in auto)
  show ?thesis using refused[OF p(1)] mirror_row_valid[OF tables inv mir mode, of r] r p(2) cong(3) Inl by simp
next
  case (Inr m')
  note mirs = mirrorD[OF mir mode] and cong = rows_state_cong[OF order mirrorD(2)[OF mir mode]]
  note state = new_manager_state[OF cong(2) Inr]
  show ?thesis
  proof (rule loaded[OF Inr])
    show "durable_state m' = durable_state m" using state(1) cong(1) mirs(3) by simp
    fix x p assume p: "inst_of m x = Some p"
    then have "rows_state rows x = Some (durable_of (runtime_at m p))" using mirs(3) by (simp flip: mirs(3) add: durable_state_def)
    then obtain r where r: "r \<in> set rows" "rr_id r = x" "row_state r = durable_of (runtime_at m p)"
      using rows_state_Some by metis
    have "rr_name r = rt_name (runtime_at m p)" using r(3) by (simp add: row_state_def durable_of_def rt_key_def)
    then show "\<not> prefix ''_'' (rt_name (runtime_at m p))"
      using mirror_row_valid[OF tables inv mir mode r(1)] state(2) r(1) cong(3) by simp
  qed
qed

end
