(* ===== verification/ManagerDemo.thy ===== *)
theory ManagerDemo
  imports ManagerReload
begin

text \<open>
  A start evaluated step by step, for the examples: a supervisor with an empty registry in \<open>/s\<close> starts the
  demonstration configuration from a file \<open>p\<close> that makes the name \<open>n\<close>.
\<close>

definition demo_host :: host where
  "demo_host =
    \<lparr>h_cwd = ''/'',
     h_fs = \<lparr>fs_lstat = (\<lambda>p. Inr False), fs_readlink = (\<lambda>p. Inr p), fs_stat = (\<lambda>p. Inl (Sentinel ''file does not exist''))\<rparr>,
     h_nfc = (\<lambda>s. s), h_equal_fold = (=), h_lower = (\<lambda>s. s), h_alnum = ascii_alnum,
     h_loader = (\<lambda>p. Inr (Some demo_config)), h_fingerprint = (\<lambda>c. Inr ''f00d''), h_gen = (\<lambda>i. Inr ''0123456789ab''),
     h_now = (\<lambda>i. 7), h_ctx = (\<lambda>i. None), h_gate_err = None, h_registry_err = None\<rparr>"

lemma demo_host_simps:
  "h_cwd demo_host = ''/''" "h_alnum demo_host = ascii_alnum" "h_now demo_host i = 7" "h_fingerprint demo_host c = Inr ''f00d''"
  "h_registry_err demo_host = None" "h_gate_err demo_host = None" "h_ctx demo_host i = None" "h_loader demo_host p = Inr (Some demo_config)"
  by (simp_all add: demo_host_def)

definition demo_options :: manager_options where
  "demo_options = \<lparr>mo_log_capacity = 0, mo_log_subscriber_buffer = 0, mo_max_log_line_bytes = 0, mo_max_log_bytes = 0,
     mo_retained_instances = 0\<rparr>"

abbreviation fresh_manager :: manager where
  "fresh_manager \<equiv> empty_manager 100 ''/s'' (Some [])"

definition demo_item_config :: config where
  "demo_item_config = fill_working_dirs ''/'' (json_config demo_config)"

definition demo_item :: "string \<Rightarrow> registered_item" where
  "demo_item p = \<lparr>ri_path = p, ri_identity = p, ri_existing = [], ri_config = demo_item_config\<rparr>"

abbreviation demo_id :: string where
  "demo_id \<equiv> ''0123456789ab''"

abbreviation demo_database :: string where
  "demo_database \<equiv> ''/s/queues/0123456789ab.sqlite''"

definition demo_file :: "string \<Rightarrow> string \<Rightarrow> bool" where
  "demo_file p n \<longleftrightarrow> absolute_path demo_host p = Inr p \<and> canonical_path demo_host p = Inr p \<and>
    automatic_name ascii_alnum p = n \<and> n \<noteq> demo_id \<and> (\<forall>c \<in> set (p @ n). byte c < 128) \<and>
    start_registered_first demo_host [p] [] fresh_manager = None"

lemma demo_load: "demo_file p n \<Longrightarrow> load_items demo_host [] 0 [] [p] = Inr [demo_item p]"
  by (simp add: demo_file_def load_item_def on_error_def demo_host_simps demo_item_def demo_item_config_def)

lemma ascii_json: "\<forall>c \<in> set s. byte c < 128 \<Longrightarrow> json_text s = s"
  unfolding json_text_def by (rule ascii_stable)

definition demo_snapshot :: config where
  "demo_snapshot = demo_config\<lparr>q_retry_delay_set := False, d_path := demo_database, v_values := [],
     v_watches := map (\<lambda>w. w\<lparr>w_settle_set := False,
       w_pipeline := map (\<lambda>s. s\<lparr>c_working_dir := ''/'', c_structured_container := False,
         c_container_command_set := False, c_raw_args_set := False, c_container_fields_set := False\<rparr>) (w_pipeline w)\<rparr>)
       (v_watches demo_config)\<rparr>"

lemma demo_snapshot: "demo_item_config\<lparr>d_path := demo_database\<rparr> = demo_snapshot"
  by (simp add: demo_item_config_def fill_working_dirs_def json_config_def json_watch_def json_command_def json_map_def
    demo_config_def demo_step_def demo_snapshot_def ascii_json)

definition demo_cfg :: config where
  "demo_cfg = projr (validate_config demo_snapshot)"

lemma demo_cfg: "validate_config demo_snapshot = Inr demo_cfg"
proof -
  have "isl (validate_config demo_snapshot) = False" by code_simp
  then show ?thesis by (cases "validate_config demo_snapshot") (simp_all add: demo_cfg_def)
qed

definition demo_view :: "string \<Rightarrow> string \<Rightarrow> instance_view" where
  "demo_view p n = \<lparr>iv_id = demo_id, iv_name = n, iv_config_path = p, iv_config_hash = ''f00d'',
     iv_database_path = demo_database, iv_state = StateRunning, iv_desired_state = ''running'', iv_created_at = 7,
     iv_started_at = 7, iv_finished_at = None, iv_error = []\<rparr>"

definition demo_registration :: "string \<Rightarrow> string \<Rightarrow> registration" where
  "demo_registration p n = \<lparr>rg_view = demo_view p n, rg_identity = p, rg_config = demo_cfg\<rparr>"

definition demo_row :: "string \<Rightarrow> string \<Rightarrow> registry_row" where
  "demo_row p n = \<lparr>rr_id = demo_id, rr_name = n, rr_identity = p, rr_view = demo_view p n, rr_config = json_config demo_cfg\<rparr>"

lemma demo_new_id:
  assumes "n \<noteq> demo_id" shows "available_id (h_lower demo_host) (h_gen demo_host) [n] 0 = (Inr demo_id, 1)"
proof -
  have "h_gen demo_host 0 = Inr demo_id" "to_lower (h_lower demo_host) (trim_space demo_id) = demo_id" "valid_id demo_id"
    by code_simp+
  then have "find_id (h_lower demo_host) (h_gen demo_host) [n] (Suc k) 0 = (Inr demo_id, 1)" for k
    using assms by auto
  from this[of 127] show ?thesis by (simp add: available_id_def max_id_generation_attempts_def)
qed

lemma demo_item_view:
  assumes "demo_file p n"
  shows "item_view demo_host fresh_manager [] [] 0 7 (demo_item p) =
    Inr ((demo_view p n)\<lparr>iv_config_hash := [], iv_desired_state := []\<rparr>, [demo_id, n], 1)"
proof -
  have path: "join_path [''/s'', ''queues'', ''0123456789ab.sqlite''] = demo_database" by code_simp
  have "available_name [] n = n" by (simp add: available_name_def name_from.simps name_candidate_def)
  then show ?thesis
    using assms demo_new_id[of n]
    by (simp add: item_view_def demo_file_def demo_item_def demo_host_simps path taken_names_def empty_manager_def demo_view_def)
qed

lemma demo_prepare:
  assumes "demo_file p n"
  shows "prepare_items demo_host fresh_manager [] [] 0 0 [demo_item p] = Inr [demo_registration p n]"
proof -
  have parts: "ri_config (demo_item p) = demo_item_config" "ri_path (demo_item p) = p" "ri_identity (demo_item p) = p"
    by (simp_all add: demo_item_def)
  have db: "iv_database_path ((demo_view p n)\<lparr>iv_config_hash := [], iv_desired_state := []\<rparr>) = demo_database"
    by (simp add: demo_view_def)
  have view: "(running_again 7 ((demo_view p n)\<lparr>iv_config_hash := [], iv_desired_state := []\<rparr>))
      \<lparr>iv_config_hash := ''f00d'', iv_desired_state := ''running''\<rparr> = demo_view p n"
    by (simp add: running_again_def demo_view_def)
  show ?thesis
    by (simp only: prepare_items.simps demo_host_simps demo_item_view[OF assms] sum.case prod.case parts db demo_snapshot
      demo_cfg view Let_def demo_registration_def)
qed

lemma demo_json_view: "demo_file p n \<Longrightarrow> json_view (demo_view p n) = demo_view p n"
  by (simp add: json_view_def demo_view_def ascii_json demo_file_def)

definition demo_running :: "string \<Rightarrow> string \<Rightarrow> manager" where
  "demo_running p n =
    register_runtime (demo_view p n) p (Some demo_cfg) True (fresh_manager\<lparr>mg_registry := Some [demo_row p n]\<rparr>)"

lemma demo_second:
  assumes "demo_file p n"
  shows "start_registered_second demo_host [p] [] fresh_manager fresh_manager = (Inr [demo_view p n], demo_running p n)"
proof -
  have ids: "identities_of fresh_manager = []" "\<not> closed_to_starts fresh_manager" "mg_registry fresh_manager = Some []"
    by (simp_all add: identities_of_def empty_manager_def closed_to_starts_def)
  have "registry_row_of (demo_registration p n) = demo_row p n"
    using demo_json_view[OF assms] by (simp add: registry_row_of_def demo_registration_def demo_row_def) (simp add: demo_view_def)
  then have save: "registry_commit None [demo_registration p n] fresh_manager =
      (None, fresh_manager\<lparr>mg_registry := Some [demo_row p n]\<rparr>)"
    unfolding registry_commit_def ids by (simp add: save_error_def upsert_row_def)
  show ?thesis
    by (simp only: start_registered_second_def ids demo_load[OF assms] register_items_def demo_prepare[OF assms]
      demo_host_simps save register_all_def sum.case option.case prod.case)
      (simp add: ids demo_registration_def demo_running_def)
qed

lemma demo_started:
  assumes "demo_file p n"
  shows "start_registered demo_host [p] [] fresh_manager = (Inr [demo_view p n], demo_running p n)"
  using demo_second[OF assms] assms by (simp add: start_registered_def demo_file_def)

lemma demo_directory: "text_directory ''/s''"
  unfolding text_directory_def
proof (intro allI impI)
  fix x assume x: "valid_id x"
  have "good_elem ''queues''" "is_abs ''/s''" by (simp_all add: good_elem_def is_abs_def)
  then have "join_path [''/s'', ''queues'', x @ ''.sqlite''] = slash # slashed (abs_elems ''/s'' @ [''queues'', x @ ''.sqlite''])"
    using join_path_below good_queue_name[OF x] by simp
  also have "abs_elems ''/s'' = [''s'']" by code_simp
  finally have "join_path [''/s'', ''queues'', x @ ''.sqlite''] = ''/s/queues/'' @ x @ ''.sqlite''" by simp
  then show "json_text (join_path [''/s'', ''queues'', x @ ''.sqlite'']) = join_path [''/s'', ''queues'', x @ ''.sqlite'']"
    using valid_id_ascii[OF x] by (simp add: ascii_json)
qed

lemma fresh_supervised: "supervised ascii_alnum (fresh_manager, GateFree)"
  by (rule supervised.new[OF _ demo_directory, of "Some []" demo_options _ id "\<lambda>i. 0"])
    (simp_all add: is_abs_def rows_ok_def new_manager_def demo_options_def default_retained_instances_def)

lemma demo_supervised:
  assumes "demo_file p n" shows "supervised ascii_alnum (demo_running p n, GateFree)"
proof -
  have loading: "supervisor_step ascii_alnum (fresh_manager, GateFree) (fresh_manager, GateLoading [p] [] fresh_manager)"
    by (rule supervisor_step.loading[of demo_host]) (use assms in \<open>simp_all add: demo_file_def demo_host_simps empty_manager_def\<close>)
  have "supervisor_step ascii_alnum (fresh_manager, GateLoading [p] [] fresh_manager) (demo_running p n, GateFree)"
    by (rule supervisor_step.registered[OF _ _ demo_second[OF assms]]) (simp_all add: demo_host_simps is_abs_def)
  from supervised.stepped[OF supervised.stepped[OF fresh_supervised loading] this] show ?thesis .
qed

lemma demo_underscore: "demo_file ''/etc/_jobs.yaml'' ''_jobs''"
proof -
  have "absolute_path demo_host ''/etc/_jobs.yaml'' = Inr ''/etc/_jobs.yaml''"
    "canonical_path demo_host ''/etc/_jobs.yaml'' = Inr ''/etc/_jobs.yaml''"
    "start_registered_first demo_host [''/etc/_jobs.yaml''] [] fresh_manager = None"
    by code_simp+
  then show ?thesis using underscore_name by (simp add: demo_file_def)
qed

lemma demo_plain: "demo_file ''/etc/jobs.yaml'' ''jobs''"
proof -
  have base: "base_path ''/etc/jobs.yaml'' = ''jobs.yaml''" by (simp add: base_path_def after_slash_def)
  have stem: "trim_suffix (ext_path ''jobs.yaml'') ''jobs.yaml'' = ''jobs''"
    by (simp add: ext_path_def after_slash_def trim_suffix_def suffix_def)
  have runes: "runes ''jobs'' = [106, 111, 98, 115]" by (simp add: runes_ascii)
  have kept: "normalise_runes ascii_alnum False [106, 111, 98, 115] = [106, 111, 98, 115]"
    by (simp add: ascii_alnum_def)
  have written: "of_runes [106, 111, 98, 115] = ''jobs''" using of_runes_ascii[of "''jobs''"] by simp
  have "automatic_name ascii_alnum ''/etc/jobs.yaml'' = ''jobs''"
    by (simp only: automatic_name_def base Let_def stem runes kept written) (simp add: trim_chars_def)
  moreover have "absolute_path demo_host ''/etc/jobs.yaml'' = Inr ''/etc/jobs.yaml''"
    "canonical_path demo_host ''/etc/jobs.yaml'' = Inr ''/etc/jobs.yaml''"
    "start_registered_first demo_host [''/etc/jobs.yaml''] [] fresh_manager = None"
    by code_simp+
  ultimately show ?thesis by (simp add: demo_file_def)
qed

end
