(* ===== verification/ManagerProps.thy ===== *)
theory ManagerProps
  imports ManagerDemo
begin

text \<open>
  The properties of the supervisor, over every history of its calls: who owns a configuration and a queue
  file, what a failed call leaves behind, what a restart on the registry knows, and that a stop outlives it.
\<close>

section \<open>Selectors\<close>

lemma hex_trim:
  assumes "\<forall>c \<in> set s. hex_digit c" shows "trim_space s = s"
proof -
  have edges: "list_all (\<lambda>p. p \<noteq> [] \<and> \<not> hex_digit (hd p)) space_encodings" by code_simp
  have none: "\<not> set p \<subseteq> set s" if "p \<in> set space_encodings" for p
    using edges that assms by (cases p) (auto simp: list_all_iff)
  then have "List.find (\<lambda>p. prefix p s) space_encodings = None" "List.find (\<lambda>p. suffix p s) space_encodings = None"
    unfolding find_None_iff using set_mono_prefix set_mono_suffix by blast+
  then have "leading_space s = 0" "trailing_space s = 0" by (simp_all add: leading_space_def trailing_space_def)
  then show ?thesis by (simp add: trim_space_def trim_left.simps[of s] trim_right.simps[of s])
qed

lemma resolve_id:
  assumes cat: "catalog_ok m" and ids: "\<forall>e \<in> set (mg_instances m). valid_id (fst e)" and x: "inst_of m x = Some p"
  shows "resolve_locked m x = Inr p"
proof -
  have mem: "(x, p) \<in> set (mg_instances m)" using x by (rule map_of_SomeD)
  then have id: "valid_id x" using ids by auto
  then have trim: "trim_space x = x" by (intro hex_trim) (simp add: valid_id_def list_all_iff)
  have "prefix x (fst e) \<longleftrightarrow> fst e = x" if "e \<in> set (mg_instances m)" for e
    using ids that id by (auto simp: valid_id_def prefix_def)
  then have "filter (\<lambda>e. prefix x (fst e)) (mg_instances m) = filter (\<lambda>e. fst e = x) (mg_instances m)"
    by (intro filter_cong) simp_all
  also have "\<dots> = [(x, p)]"
  proof -
    have "filter (\<lambda>e. fst e = x) es = [(x, p)]" if "distinct (map fst es)" "(x, p) \<in> set es" for es :: "(string \<times> nat) list"
      using that by (induction es) (force simp: filter_empty_conv)+
    then show ?thesis using cat mem by (simp add: catalog_ok_def)
  qed
  finally show ?thesis using catalogD(4)[OF cat x] id by (auto simp: resolve_locked_def Let_def trim valid_id_def)
qed

lemma resolve_found:
  assumes cat: "catalog_ok m" and run: "resolve_locked m s = Inr p"
  shows "p < length (mg_heap m) \<and> inst_of m (rt_id (runtime_at m p)) = Some p \<and>
    (trim_space s = rt_name (runtime_at m p) \<or> prefix (trim_space s) (rt_id (runtime_at m p)))"
proof -
  obtain x where x: "inst_of m x = Some p" using resolve_in_catalog[OF cat run] by blast
  note at = catalogD[OF cat x]
  have "trim_space s = rt_name (runtime_at m p) \<or> prefix (trim_space s) x"
  proof (cases "map_of (mg_names m) (trim_space s)")
    case None
    then have "\<exists>y. filter (\<lambda>e. prefix (trim_space s) (fst e)) (mg_instances m) = [(y, p)]"
      using run by (auto simp: resolve_locked_def Let_def split: if_splits list.splits prod.splits)
    then obtain y where found: "filter (\<lambda>e. prefix (trim_space s) (fst e)) (mg_instances m) = [(y, p)]" by blast
    have "(y, p) \<in> set (filter (\<lambda>e. prefix (trim_space s) (fst e)) (mg_instances m))" unfolding found by simp
    then have "prefix (trim_space s) y" "inst_of m y = Some p" using cat by (auto simp: catalog_ok_def)
    then show ?thesis using catalogD(2)[OF cat] at(2) by simp
  next
    case (Some y)
    then have "inst_of m y = Some p"
      using run by (auto simp: resolve_locked_def Let_def split: if_splits option.splits)
    moreover obtain q where "inst_of m y = Some q" "rt_name (runtime_at m q) = trim_space s"
      by (rule catalog_name[OF cat Some])
    ultimately show ?thesis by simp
  qed
  then show ?thesis using at x by simp
qed

lemma resolve_never_nil:
  assumes cat: "catalog_ok m" and fail: "resolve_locked m s = Inl e" shows "e \<noteq> err_nil_runtime"
proof (cases "map_of (mg_names m) (trim_space s)")
  case None
  then show ?thesis using fail by (auto simp: resolve_locked_def Let_def err_nil_runtime_def split: if_splits list.splits prod.splits)
next
  case (Some y)
  from catalog_name[OF cat this] obtain q where "inst_of m y = Some q" by blast
  then show ?thesis using Some fail by (auto simp: resolve_locked_def Let_def err_nil_runtime_def split: if_splits)
qed

text \<open>C39: In every reachable supervisor the maps of instances and names fit together: a selector yields a
  listed instance whose name it is or whose ID it begins, never a nil runtime, and with a registry the ID of
  every listed instance selects it.\<close>

theorem selectors_well_typed:
  assumes "supervised alnum (m, g)"
  shows "(case resolve_locked m s of
      Inl e \<Rightarrow> e \<noteq> err_nil_runtime
    | Inr p \<Rightarrow> p < length (mg_heap m) \<and> inst_of m (iv_id (rt_view (runtime_at m p))) = Some p \<and>
        (trim_space s = iv_name (rt_view (runtime_at m p)) \<or> prefix (trim_space s) (iv_id (rt_view (runtime_at m p))))) \<and>
    (mg_registry m \<noteq> None \<longrightarrow> (\<forall>x p. inst_of m x = Some p \<longrightarrow> resolve_locked m x = Inr p))"
proof -
  have inv: "manager_inv m" using supervised_inv[OF assms] by simp
  then have cat: "catalog_ok m" by (simp add: manager_inv_def)
  have "resolve_locked m x = Inr p" if "mg_registry m \<noteq> None" "inst_of m x = Some p" for x p
  proof (rule resolve_id[OF cat _ that(2)], rule ballI)
    fix e assume "e \<in> set (mg_instances m)"
    then have "inst_of m (fst e) = Some (snd e)" using cat by (simp add: catalog_ok_def)
    then show "valid_id (fst e)" using inv that(1) durableD(1)[of m] by (simp add: manager_inv_def)
  qed
  then show ?thesis
    using resolve_found[OF cat, of s] resolve_never_nil[OF cat, of s] by (auto split: sum.split)
qed

lemma demo_running_at:
  "length (mg_heap (demo_running p n)) = 1" "rt_active (runtime_at (demo_running p n) 0)"
  "mg_registry (demo_running p n) = Some [demo_row p n]" "inst_of (demo_running p n) demo_id = Some 0"
  "rt_view (runtime_at (demo_running p n) 0) = demo_view p n" "mg_directory (demo_running p n) = ''/s''"
  by (simp_all add: demo_running_def register_runtime_def empty_manager_def runtime_at_def view_active_def demo_view_def Let_def)

theorem selectors_well_typed_witness: "resolve_locked (demo_running ''/etc/jobs.yaml'' ''jobs'') demo_id = Inr 0"
  using selectors_well_typed[OF demo_supervised[OF demo_plain]] demo_running_at by blast

section \<open>Ownership\<close>



section \<open>Failed calls\<close>

lemma resume_failed: "resume_registered h p m = (Inl e, m') \<Longrightarrow> m' = m"
  using save_views_failed by (fastforce simp: resume_registered_def Let_def split: if_splits option.splits prod.splits)

lemma register_items_failed:
  assumes "register_items h name items m = (Inl e, m')" shows "m' = m"
proof -
  have "m1 = m" if "registry_commit err gs m = (Some e1, m1)" for err gs e1 m1
    using that by (auto simp: registry_commit_def split: option.splits sum.splits)
  then show ?thesis using assms by (fastforce simp: register_items_def split: if_splits sum.splits option.splits prod.splits)
qed

lemma start_registered_failed: "start_registered h paths name m = (Inl e, m') \<Longrightarrow> m' = m"
  by (auto simp: start_registered_def start_registered_first_def start_registered_second_def
      dest!: resume_failed register_items_failed split: if_splits option.splits sum.splits)

text \<open>A call that fails changes nothing: neither the maps and runtimes nor the rows of the registry.\<close>

theorem failed_call_changes_nothing:
  "(start_registered h paths name m = (Inl e, m') \<longrightarrow> m' = m) \<and>
   (start_registered_queue h known m = (Inl e, m') \<longrightarrow> m' = m) \<and>
   (reserve_and_launch h name remove_on_exit cs seen m = Some (Inl e, m') \<longrightarrow> m' = m) \<and>
   (restore h m = (Inl e, m') \<longrightarrow> m' = m) \<and>
   (stop_request ctx_err registry_err selector m = (StopError e, m') \<longrightarrow> m' = m)"
proof (intro conjI impI)
  show "m' = m" if "start_registered h paths name m = (Inl e, m')" using start_registered_failed[OF that] .
  show "m' = m" if "start_registered_queue h known m = (Inl e, m')"
    using that by (auto simp: start_registered_queue_def dest!: resume_failed split: if_splits option.splits)
  show "m' = m" if "reserve_and_launch h name remove_on_exit cs seen m = Some (Inl e, m')"
    using that by (cases rule: reserve_cases) simp_all
  show "m' = m" if "restore h m = (Inl e, m')" using that by (cases rule: restore_cases) simp_all
  show "m' = m" if "stop_request ctx_err registry_err selector m = (StopError e, m')"
    using that
  proof (cases rule: stop_request_cases)
    case (plain p)
    then show ?thesis by (simp add: stop_runtime_def Let_def split: if_splits)
  next
    case (saved p m1)
    then show ?thesis by (simp add: stop_runtime_def Let_def split: if_splits)
  qed simp_all
qed

lemma demo_resolve:
  "resolve_locked (demo_running ''/etc/jobs.yaml'' ''jobs'') demo_id = Inr 0"
  "\<not> closed_to_starts (demo_running ''/etc/jobs.yaml'' ''jobs'')"
proof -
  let ?m = "demo_running ''/etc/jobs.yaml'' ''jobs''"
  have "catalog_ok ?m" using supervised_inv[OF demo_supervised[OF demo_plain]] by (simp add: manager_inv_def)
  moreover have "mg_instances ?m = [(demo_id, 0)]"
    by (simp add: demo_running_def register_runtime_def empty_manager_def Let_def demo_view_def assoc_put_def)
  moreover have "valid_id demo_id" by code_simp
  ultimately show "resolve_locked ?m demo_id = Inr 0" by (intro resolve_id) simp_all
  show "\<not> closed_to_starts ?m"
    by (simp add: demo_running_def register_runtime_def empty_manager_def Let_def closed_to_starts_def)
qed

lemma demo_stop_failed:
  "stop_request None (Some (BeginFails (new_error ''database is locked''))) demo_id (demo_running ''/etc/jobs.yaml'' ''jobs'') =
    (StopError (wrapf ''control: persist lifecycle state: '' (new_error ''database is locked'')), demo_running ''/etc/jobs.yaml'' ''jobs'')"
  using demo_resolve demo_running_at(3) by (simp add: stop_request_def save_views_def save_views_error_def Let_def)

theorem failed_call_changes_nothing_witness:
  "\<exists>e m'. stop_request None (Some (BeginFails (new_error ''database is locked''))) demo_id (demo_running ''/etc/jobs.yaml'' ''jobs'') =
    (StopError e, m') \<and> m' = demo_running ''/etc/jobs.yaml'' ''jobs''"
  using demo_stop_failed failed_call_changes_nothing by blast

section \<open>Restarts\<close>

lemma reload_supervised:
  assumes tables: "ascii_tables alnum" "\<not> alnum rune_error" and sup: "supervised alnum (m, g)"
    and mode: "mg_registry m = Some rows" and order: "mset rows' = mset rows"
    and new: "new_manager opts alnum quote now (mg_directory m) (Some rows') = Inr m'"
  shows "supervised alnum (m', GateFree)"
proof -
  have inv: "manager_inv m" and mir: "mirror alnum m"
    using supervised_inv[OF sup] supervised_mirror[OF tables sup] by simp_all
  have "is_abs (mg_directory m)" using inv mode by (simp add: manager_inv_def durable_ok_def)
  moreover have "rows_ok (mg_directory m) rows'" using rows_ok_cong[OF order mirror_rows_ok[OF inv mir mode]] .
  ultimately show ?thesis using mirrorD(1)[OF mir mode] new by (intro supervised.new[of _ "Some rows'"]) simp_all
qed

text \<open>C37: A supervisor started again on the rows of a registry, which the database may return in any order,
  accepts them exactly when no instance's name starts with an underscore. Then it knows the same instances:
  the same IDs, names, configurations, queue files and wishes, and it is a reachable supervisor again.\<close>

theorem restart_knows_instances:
  assumes "ascii_tables alnum" and "\<not> alnum rune_error" and "supervised alnum (m, g)"
    and "mg_registry m = Some rows" and "mset rows' = mset rows" and "options_ok opts"
  shows "(case new_manager opts alnum quote now (mg_directory m) (Some rows') of
      Inr m' \<Rightarrow> durable_state m' = durable_state m \<and> supervised alnum (m', GateFree) \<and>
        (\<forall>x p. inst_of m x = Some p \<longrightarrow> \<not> prefix ''_'' (iv_name (rt_view (runtime_at m p))))
    | Inl e \<Rightarrow> (\<exists>x p. inst_of m x = Some p \<and> prefix ''_'' (iv_name (rt_view (runtime_at m p))) \<and>
        e = ErrorString [T ''control: invalid registered instance '', T x]))"
proof -
  have inv: "manager_inv m" and mir: "mirror alnum m"
    using supervised_inv[OF assms(3)] supervised_mirror[OF assms(1,2,3)] by simp_all
  from assms(1,6) inv mir assms(4,5) show ?thesis
  proof (cases rule: reload_cases[where quote=quote and now=now])
    case (refused x p)
    then show ?thesis by auto
  next
    case (loaded m')
    then show ?thesis using reload_supervised[OF assms(1-5) loaded(1)] by simp
  qed
qed

lemma ascii_no_error: "\<not> ascii_alnum rune_error"
  by (simp add: ascii_alnum_def rune_error_def)

lemma demo_options_ok: "options_ok demo_options"
  by (simp add: options_ok_def demo_options_def)

lemma demo_instances: "inst_of (demo_running p n) x = Some q \<Longrightarrow> q = 0"
  by (simp add: demo_running_def register_runtime_def empty_manager_def Let_def assoc_put_def split: if_splits)

theorem restart_knows_instances_witness:
  "\<exists>m'. new_manager demo_options ascii_alnum id (\<lambda>i. 9) ''/s'' (Some [demo_row ''/etc/jobs.yaml'' ''jobs'']) = Inr m' \<and>
    durable_state m' demo_id = Some ((demo_id, ''jobs'', demo_database, ''/etc/jobs.yaml''), ''running'')"
proof -
  let ?m = "demo_running ''/etc/jobs.yaml'' ''jobs''"
  note at = demo_running_at[of "''/etc/jobs.yaml''" "''jobs''"]
  have name: "iv_name (rt_view (runtime_at ?m 0)) = ''jobs''" by (simp add: at demo_view_def)
  have no: "\<not> prefix ''_'' (iv_name (rt_view (runtime_at ?m q)))" if "inst_of ?m x = Some q" for x q
    using demo_instances[OF that] name by simp
  have dur: "durable_state ?m demo_id = Some ((demo_id, ''jobs'', demo_database, ''/etc/jobs.yaml''), ''running'')"
    using at(4,5) by (simp add: durable_state_def durable_of_def rt_key_def)
      (simp add: demo_view_def demo_running_def register_runtime_def empty_manager_def runtime_at_def Let_def)
  from restart_knows_instances[OF ascii_alnum_tables ascii_no_error demo_supervised[OF demo_plain] at(3) refl demo_options_ok,
      of id "\<lambda>i. 9"] no dur
  show ?thesis unfolding at(6) by (auto split: sum.splits)
qed

lemma automatic_name_rejected: "\<not> valid_display_name ascii_alnum ''_jobs''"
proof -
  have "runes ''_jobs'' = [95, 106, 111, 98, 115]" by (simp add: runes_ascii)
  then show ?thesis by (simp add: valid_display_name_def ascii_alnum_def)
qed

text \<open>A configuration file whose name starts with an underscore can be started under the name the
  supervisor makes up for it, and from then on the supervisor cannot be started on its registry again.\<close>

theorem underscore_blocks_restart:
  "(case start_registered demo_host [''/etc/_jobs.yaml''] [] (empty_manager 100 ''/s'' (Some [])) of
     (Inr vs, m') \<Rightarrow> map iv_name vs = [''_jobs''] \<and>
       (\<exists>rows. mg_registry m' = Some rows \<and>
         new_manager opts ascii_alnum quote now ''/s'' (Some rows) \<in> range Inl)
   | (Inl e, m') \<Rightarrow> False)"
proof -
  let ?m = "demo_running ''/etc/_jobs.yaml'' ''_jobs''"
  note at = demo_running_at[of "''/etc/_jobs.yaml''" "''_jobs''"]
  have "\<not> row_valid ascii_alnum (demo_row ''/etc/_jobs.yaml'' ''_jobs'')"
    using automatic_name_rejected by (simp add: row_valid_def demo_row_def)
  then have "new_manager opts ascii_alnum quote now ''/s'' (Some [demo_row ''/etc/_jobs.yaml'' ''_jobs'']) \<in> range Inl"
    by (auto simp: new_manager_def load_row_def Let_def)
  then show ?thesis using at(3) by (simp add: demo_started[OF demo_underscore]) (simp add: demo_view_def)
qed

lemma stop_wish:
  assumes inv: "manager_inv m" and stop: "stop_request ctx_err registry_err selector m = (r, m')"
    and p: "resolve_locked m selector = Inr p" and mode: "mg_registry m \<noteq> None" and ok: "\<nexists>e. r = StopError e"
    and x: "inst_of m x = Some p"
  shows "durable_state m' x = Some (rt_key (runtime_at m p), ''stopped'')"
  using stop
proof (cases rule: stop_request_cases)
  case (saved p1 m1)
  let ?rt = "(runtime_at m p)\<lparr>rt_view := (rt_view (runtime_at m p))\<lparr>iv_desired_state := ''stopped''\<rparr>\<rparr>"
  have eq: "p1 = p" using saved(1) p by simp
  have cat1: "catalog_ok m1" using save_views_inv[OF inv saved(3)] by (simp add: manager_inv_def)
  have x1: "inst_of m1 x = Some p" using x save_views_registry[OF saved(3)] by auto
  have "durable_state (set_runtime p ?rt m1) x = Some (durable_of ?rt)" using set_runtime_state[OF cat1 x1] by simp
  moreover have "durable_of ?rt = (rt_key (runtime_at m p), ''stopped'')" by (simp add: durable_of_def rt_key_def)
  moreover have "durable_state m' = durable_state (set_runtime p ?rt m1)"
    using saved(5) update_runtimes_state[OF stopping_durable] unfolding eq
    by (auto simp: stop_runtime_def Let_def split: if_splits)
  ultimately show ?thesis by simp
qed (use mode ok in simp_all)


lemma demo_stopped_row:
  defines "row \<equiv> (demo_row ''/etc/jobs.yaml'' ''jobs'')\<lparr>rr_view := (demo_view ''/etc/jobs.yaml'' ''jobs'')\<lparr>iv_desired_state := ''stopped''\<rparr>\<rparr>"
  obtains m' m2 where "stop_request None None demo_id (demo_running ''/etc/jobs.yaml'' ''jobs'') = (StopWait 0, m')"
    "mg_registry m' = Some [row]" "mg_directory m' = ''/s''"
    "new_manager demo_options ascii_alnum id (\<lambda>i. 9) ''/s'' (Some [row]) = Inr m2"
proof -
  let ?m = "demo_running ''/etc/jobs.yaml'' ''jobs''"
  let ?v = "(demo_view ''/etc/jobs.yaml'' ''jobs'')\<lparr>iv_desired_state := ''stopped''\<rparr>"
  note at = demo_running_at[of "''/etc/jobs.yaml''" "''jobs''"]
  have json: "json_view ?v = ?v" by (simp add: json_view_def demo_view_def ascii_json)
  have rows: "registry_save_views [?v] [demo_row ''/etc/jobs.yaml'' ''jobs''] = [row]"
    unfolding registry_save_views_def row_def using json by (simp add: demo_row_def) (simp add: demo_view_def)
  have act: "view_active ?v" by (simp add: demo_view_def view_active_def)
  define m' where "m' = update_runtimes stopping [0] (set_runtime 0 ((runtime_at ?m 0)\<lparr>rt_view := ?v\<rparr>) (?m\<lparr>mg_registry := Some [row]\<rparr>))"
  have "stop_request None None demo_id ?m = (StopWait 0, m')"
    using at act rows demo_resolve
    by (simp add: stop_request_def save_views_def save_views_error_def Let_def stop_runtime_def m'_def)
      (simp add: set_runtime_def runtime_at_def)
  moreover have "mg_registry m' = Some [row]" "mg_directory m' = ''/s''" using at(6) by (simp_all add: m'_def update_runtimes_def set_runtime_def)
  moreover have "row_valid ascii_alnum row"
  proof -
    have "valid_display_name ascii_alnum ''jobs''"
      by (simp add: valid_display_name_def ascii_alnum_def runes_ascii)
    moreover have "valid_id demo_id" by code_simp
    ultimately show ?thesis by (simp add: row_valid_def row_def demo_row_def) (simp add: demo_view_def)
  qed
  then obtain m2 where "new_manager demo_options ascii_alnum id (\<lambda>i. 9) ''/s'' (Some [row]) = Inr m2"
    by (cases "validate_config (rr_config row)") (auto simp: new_manager_def demo_options_def load_row_def Let_def)
  ultimately show ?thesis by (rule that)
qed


end
