(* ===== verification/ManagerRetention.thy ===== *)
theory ManagerRetention
  imports ManagerDemo
begin

text \<open>
  What a supervisor without a registry keeps of finished instances: at most \<open>RetainedInstances\<close>, and of
  those it forgets none ended later than one it keeps.
\<close>

section \<open>The bound on every step\<close>

definition ended :: "runtime \<Rightarrow> bool" where
  "ended rt \<longleftrightarrow> (\<not> rt_active rt \<longrightarrow> iv_finished_at (rt_view rt) \<noteq> None) \<and>
    (\<forall>v. rt_phase rt = Finalizing v \<longrightarrow> iv_finished_at v \<noteq> None)"

definition retention_ok :: "manager \<Rightarrow> bool" where
  "retention_ok m \<longleftrightarrow> 1 \<le> mg_retained_instances m \<and> length (terminals m) \<le> mg_retained_instances m \<and>
    (\<forall>rt \<in> set (mg_heap m). ended rt)"

lemma terminals_same:
  assumes "mg_instances m' = mg_instances m" and "\<And>p. rt_active (runtime_at m' p) = rt_active (runtime_at m p)"
  shows "terminals m' = terminals m"
  using assms by (simp add: terminals_def)

lemma retention_same:
  assumes ok: "retention_ok m" and "mg_instances m' = mg_instances m" "mg_retained_instances m' = mg_retained_instances m"
    and heap: "\<And>p. rt_active (runtime_at m' p) = rt_active (runtime_at m p)" "\<forall>rt \<in> set (mg_heap m'). ended rt"
  shows "retention_ok m'"
  using assms terminals_same[OF assms(2) heap(1)] by (simp add: retention_ok_def)

lemma retention_update:
  assumes "retention_ok m" and "\<And>rt. rt_active (f rt) = rt_active rt" and "\<And>rt. ended rt \<Longrightarrow> ended (f rt)"
    and "\<forall>p \<in> set ps. p < length (mg_heap m)"
  shows "retention_ok (update_runtimes f ps m)"
proof (rule retention_same[OF assms(1)])
  show "rt_active (runtime_at (update_runtimes f ps m) p) = rt_active (runtime_at m p)" for p
    by (rule update_runtimes_keeps[of rt_active]) (rule assms(2))
  have all: "\<forall>rt \<in> set (fold (\<lambda>p rts. rts[p := f (rts ! p)]) ps rts). ended rt"
    if "\<forall>rt \<in> set rts. ended rt" "\<forall>p \<in> set ps. p < length rts" for rts
    using that
  proof (induction ps arbitrary: rts)
    case (Cons p ps)
    have "ended (f (rts ! p))" using Cons.prems assms(3) by simp
    then have "\<forall>rt \<in> set (rts[p := f (rts ! p)]). ended rt" using Cons.prems(1) set_update_subset_insert[of rts p] by blast
    then show ?case using Cons.IH Cons.prems(2) by simp
  qed simp
  have "\<forall>rt \<in> set (mg_heap m). ended rt" using assms(1) by (simp add: retention_ok_def)
  from all[OF this assms(4)] show "\<forall>rt \<in> set (mg_heap (update_runtimes f ps m)). ended rt"
    by (simp add: update_runtimes_def)
qed (simp_all add: update_runtimes_def)

lemma retention_stopping:
  "retention_ok m \<Longrightarrow> \<forall>p \<in> set ps. p < length (mg_heap m) \<Longrightarrow> retention_ok (update_runtimes stopping ps m)"
  by (erule retention_update) (auto simp: stopping_def ended_def view_active_def)

lemma retention_canceled:
  "retention_ok m \<Longrightarrow> \<forall>p \<in> set ps. p < length (mg_heap m) \<Longrightarrow> retention_ok (update_runtimes canceled ps m)"
  by (erule retention_update) (auto simp: canceled_def ended_def)

lemma retention_flags:
  "retention_ok (m\<lparr>mg_shutting_down := b\<rparr>) = retention_ok m" "retention_ok (m\<lparr>mg_ctx_err := c\<rparr>) = retention_ok m"
  by (simp_all add: retention_ok_def terminals_def runtime_at_def)

lemma trim_keeps_fields:
  "mg_retained_instances (trim_terminated current m) = mg_retained_instances m \<and> mg_heap (trim_terminated current m) = mg_heap m"
proof -
  have "mg_retained_instances (fold drop_instance vs m') = mg_retained_instances m'" for vs m' by (induction vs arbitrary: m') simp_all
  then show ?thesis by (simp add: trim_terminated_fold)
qed

lemma retention_published:
  assumes inv: "manager_inv m" and mode: "mg_registry m = None" and p: "p < length (mg_heap m)" and ok: "retention_ok m"
  shows "retention_ok (run_published registry_err p m)"
proof (cases "rt_phase (runtime_at m p)")
  case (Finalizing v0)
  define v where "v = v0\<lparr>iv_desired_state := iv_desired_state (rt_view (runtime_at m p))\<rparr>"
  obtain m3 where m3: "published p v m m3"
    "run_published registry_err p m =
      (if rt_remove_on_exit (runtime_at m p) then drop_instance v m3 else trim_terminated (iv_id v) m3)"
    by (rule run_published_cases[OF Finalizing v_def[symmetric]])
  note inv3 = published_inv[OF inv p Finalizing v_def[symmetric] m3(1)]
  have m3': "mg_registry m3 = None" "mg_instances m3 = mg_instances m" "mg_retained_instances m3 = mg_retained_instances m"
    "mg_heap m3 = (mg_heap m)[p := published_runtime v (runtime_at m p)]"
    using m3(1) mode by (simp_all add: published_def)
  have cat: "catalog_ok m" "catalog_ok m3" using inv inv3(1) by (simp_all add: manager_inv_def)
  have "ended (published_runtime v (runtime_at m p))"
    using ok runtime_in_heap[OF p] Finalizing by (simp add: retention_ok_def ended_def published_runtime_def v_def)
  then have ends: "\<forall>rt \<in> set (mg_heap m3). ended rt"
    using ok set_update_subset_insert[of "mg_heap m" p] unfolding m3'(4) retention_ok_def by blast
  show ?thesis
  proof (cases "rt_remove_on_exit (runtime_at m p)")
    case True
    have id: "rt_id (runtime_at m p) = iv_id v"
      using inv runtime_in_heap[OF p] Finalizing by (auto simp: manager_inv_def phase_ok.simps rt_key_def v_def)
    have "terminals (drop_instance v m3) = filter (\<lambda>e. fst e \<noteq> iv_id v) (terminals m3)" by (rule terminals_drop)
    also have "\<dots> = filter (\<lambda>e. fst e \<noteq> iv_id v) (terminals m)"
    proof -
      have "rt_active (runtime_at m3 (snd e)) = rt_active (runtime_at m (snd e))"
        if e: "e \<in> set (mg_instances m)" "fst e \<noteq> iv_id v" for e
      proof -
        have "inst_of m (fst e) = Some (snd e)" using e(1) cat(1) by (simp add: catalog_ok_def)
        then have "snd e \<noteq> p" using catalogD(2)[OF cat(1)] id e(2) by metis
        then show ?thesis by (simp add: runtime_at_def m3'(4))
      qed
      then show ?thesis unfolding terminals_def m3'(2) filter_filter by (intro filter_cong) auto
    qed
    finally have "length (terminals (drop_instance v m3)) \<le> length (terminals m)" by (metis length_filter_le)
    then show ?thesis using True m3(2) m3'(3) ok ends by (simp add: retention_ok_def)
  next
    case False
    have "distinct (map fst (mg_instances m3))" using cat(2) by (simp add: catalog_ok_def)
    from trim_terminals[OF this m3'(1), of "iv_id v"] show ?thesis
      using False m3(2) m3'(3) ok ends trim_keeps_fields[of "iv_id v" m3] by (simp add: retention_ok_def)
  qed
qed (use ok in \<open>simp_all add: run_published_def\<close>)

lemma retention_lifecycle:
  assumes "lifecycle_step m m'" and inv: "manager_inv m" and mode: "mg_registry m = None" and ok: "retention_ok m"
  shows "retention_ok m'"
  using assms(1)
proof cases
  case (stopped ctx_err registry_err selector r)
  then show ?thesis
  proof (cases rule: stop_request_cases)
    case (plain p)
    have cat: "catalog_ok m" using inv by (simp add: manager_inv_def)
    have "p < length (mg_heap m)" using resolve_in_catalog[OF cat plain(1)] catalogD(1)[OF cat] by blast
    then have "retention_ok (update_runtimes stopping [p] m)" by (intro retention_stopping[OF ok]) simp
    then show ?thesis using plain(3) ok by (auto simp: stop_runtime_def Let_def split: if_splits)
  qed (use ok mode in simp_all)
next
  case (canceled_one p)
  then show ?thesis using retention_canceled[OF ok, of "[p]"] by (simp add: stop_cancel_def)
next
  case shut
  have "retention_ok (update_runtimes stopping (fst (shutdown_request m)) m)"
    by (rule retention_stopping[OF ok shutdown_inv(3)[OF inv]])
  then show ?thesis by (simp add: shut shutdown_request_def Let_def retention_flags)
next
  case (canceled_all ps)
  then show ?thesis using retention_canceled[OF ok, of ps] by (simp add: shutdown_cancel_def retention_flags)
next
  case (parent_canceled e)
  then show ?thesis using ok retention_flags by simp
next
  case (returned p quote err now)
  let ?rt = "(runtime_at m p)\<lparr>rt_phase := Finalizing (final_view quote err now m (runtime_at m p))\<rparr>"
  have "ended ?rt" using ok runtime_in_heap[OF returned(2)]
    by (simp add: retention_ok_def ended_def) (simp add: final_view_def Let_def)
  then have "\<forall>rt \<in> set (mg_heap m'). ended rt"
    using ok set_update_subset_insert[of "mg_heap m" p ?rt] by (auto simp: returned(1) run_returned_def set_runtime_def retention_ok_def)
  then show ?thesis
    using returned(2) by (intro retention_same[OF ok]) (auto simp: returned(1) run_returned_def runtime_at_set set_runtime_def runtime_at_def nth_list_update)
next
  case (finished p registry_err)
  then show ?thesis using retention_published[OF inv mode _ ok] by simp
qed

lemma retention_launch:
  assumes "manager_inv m" and "launchable items m" and "mg_registry m = None" and "retention_ok m"
  shows "retention_ok (snd (launch_candidates r now i items m))"
  using assms
proof (induction items arbitrary: i m)
  case (Cons item items)
  note step = launch_candidate_inv[OF Cons.prems(1,2,3), of r "now i"] launchable_tail[OF Cons.prems(2), of r "now i"]
  let ?m = "snd (launch_candidate r (now i) item m)"
  obtain c x name where item: "item = (c, x, name)" by (cases item) blast
  have cat: "catalog_ok m" using Cons.prems(1) by (simp add: manager_inv_def)
  have "rt_active (runtime_at ?m (snd e)) = rt_active (runtime_at m (snd e))" if "e \<in> set (mg_instances m)" for e
  proof -
    have "inst_of m (fst e) = Some (snd e)" using that cat by (simp add: catalog_ok_def)
    from catalogD(1)[OF cat this] show ?thesis by (simp add: launch_candidate_def item Let_def runtime_at_def nth_append)
  qed
  then have "terminals ?m = filter (\<lambda>e. fst e \<noteq> x) (terminals m)"
    by (auto simp: terminals_def launch_candidate_def item Let_def assoc_put_def runtime_at_def view_active_def started_view_def
        intro!: filter_cong)
  then have "length (terminals ?m) \<le> length (terminals m)" by simp
  then have "retention_ok ?m"
    using Cons.prems(4)
    by (auto simp: retention_ok_def ended_def launch_candidate_def item Let_def view_active_def started_view_def)
  then show ?case using Cons.IH[OF step(1,3,2), of "i + 1"] by (simp add: case_prod_beta)
qed simp

lemma retention_reserve:
  assumes inv: "manager_inv m" and mode: "mg_registry m = None" and ok: "retention_ok m"
    and distinct: "distinct (map sc_config_identity cs)" "distinct (map sc_database_path cs)"
    and run: "reserve_and_launch h explicit r cs seen m = Some (res, m')"
  shows "retention_ok m'"
  using run
proof (cases rule: reserve_cases)
  case (launched items vs)
  have "launchable items m" by (rule reserve_launchable[OF distinct launched(3-7)])
  from retention_launch[OF inv this mode ok] show ?thesis by (metis launched(2) snd_conv)
qed (use ok in simp)

lemma supervised_retention: "supervised alnum s \<Longrightarrow> mg_registry (fst s) = None \<longrightarrow> retention_ok (fst s)"
proof (induction rule: supervised.induct)
  case (new directory rows opts quote now m)
  show ?case
  proof
    assume "mg_registry (fst (m, GateFree)) = None"
    then have "rows = None" using new_manager_inv[OF new(1,3,4)] by simp
    then obtain retained where "m = empty_manager retained directory None" "1 \<le> retained"
      using new(4) by (auto simp: new_manager_def Let_def default_retained_instances_def split: if_splits)
    then show "retention_ok (fst (m, GateFree))" by (simp add: retention_ok_def terminals_def empty_manager_def)
  qed
next
  case (stepped s s')
  obtain m g m' g' where s: "s = (m, g)" "s' = (m', g')" by (cases s, cases s')
  note inv = supervised_inv[OF stepped(1), unfolded s, simplified] and step = stepped(2)[unfolded s]
  have "retention_ok m'" if none: "mg_registry m' = None"
    using step
  proof cases
    case life
    then show ?thesis using lifecycle_step_inv[OF life(2)] retention_lifecycle[OF life(2)] inv none stepped(3) by (simp add: s)
  next
    case (answered h paths name r)
    then show ?thesis using start_registered_first_inv[of m h paths name r m'] inv none by simp
  next
    case (registered h paths name m0 r)
    then show ?thesis using start_registered_second_inv[OF _ _ _ _ _ registered(5)] none inv by auto
  next
    case (by_queue h known r)
    then show ?thesis using start_registered_queue_inv[of m h known r m'] inv none by simp
  next
    case (restored h r)
    then have "mg_registry m = None" using restore_inv[of m h r m'] inv none by simp
    then have "m' = m" using restored(3) by (simp add: restore_def)
    then show ?thesis using stepped(3) none by (simp add: s)
  next
    case (reserved h name remove_on_exit cs seen r)
    then show ?thesis using retention_reserve[OF _ _ _ _ _ reserved(3)] inv stepped(3) by (simp add: s)
  qed (use stepped(3) none in \<open>simp_all add: s\<close>)
  then show ?case by (simp add: s)
qed

section \<open>What is forgotten\<close>

lemma eviction_view_same: "catalog_ok m \<Longrightarrow> e \<in> set (mg_instances m) \<Longrightarrow> eviction_view m e = rt_view (runtime_at m (snd e))"
proof -
  assume cat: "catalog_ok m" and "e \<in> set (mg_instances m)"
  then have "inst_of m (fst e) = Some (snd e)" by (simp add: catalog_ok_def)
  from catalogD(2)[OF cat this] show ?thesis by simp
qed

lemma forgotten_oldest:
  assumes inv: "manager_inv m" and mode: "mg_registry m = None" and ok: "retention_ok m" and p: "p < length (mg_heap m)"
    and keep: "\<not> rt_remove_on_exit (runtime_at m p)" and m': "m' = run_published registry_err p m"
    and e: "e \<in> set (mg_instances m)" "e \<notin> set (mg_instances m')"
    and k: "k \<in> set (terminals m')" "fst k \<noteq> rt_id (runtime_at m p)"
  shows "evicted_before (rt_view (runtime_at m (snd e))) (rt_view (runtime_at m (snd k)))"
proof (cases "rt_phase (runtime_at m p)")
  case (Finalizing v0)
  define v where "v = v0\<lparr>iv_desired_state := iv_desired_state (rt_view (runtime_at m p))\<rparr>"
  obtain m3 where m3: "published p v m m3" "m' = trim_terminated (iv_id v) m3"
    using run_published_cases[OF Finalizing v_def[symmetric], of registry_err] keep m' by auto
  note inv3 = published_inv[OF inv p Finalizing v_def[symmetric] m3(1)]
  have m3': "mg_registry m3 = None" "mg_instances m3 = mg_instances m" "mg_heap m3 = (mg_heap m)[p := published_runtime v (runtime_at m p)]"
    using m3(1) mode by (simp_all add: published_def)
  have cat: "catalog_ok m" "catalog_ok m3" using inv inv3(1) by (simp_all add: manager_inv_def)
  then have keys: "distinct (map fst (mg_instances m3))" by (simp add: catalog_ok_def)
  have id: "rt_id (runtime_at m p) = iv_id v"
    using inv runtime_in_heap[OF p] Finalizing by (auto simp: manager_inv_def phase_ok.simps rt_key_def v_def)
  have other: "rt_view (runtime_at m3 (snd f)) = rt_view (runtime_at m (snd f))"
    if f: "f \<in> set (mg_instances m)" "fst f \<noteq> iv_id v" for f
  proof -
    have "inst_of m (fst f) = Some (snd f)" using f(1) cat(1) by (simp add: catalog_ok_def)
    then have "snd f \<noteq> p" using catalogD(2)[OF cat(1)] id f(2) by metis
    then show ?thesis by (simp add: runtime_at_def m3'(3))
  qed
  have ends: "\<forall>f \<in> set (terminals m3). iv_finished_at (rt_view (runtime_at m3 (snd f))) \<noteq> None"
  proof
    fix f assume "f \<in> set (terminals m3)"
    then have f: "f \<in> set (mg_instances m)" "\<not> rt_active (runtime_at m3 (snd f))" by (simp_all add: terminals_def m3'(2))
    show "iv_finished_at (rt_view (runtime_at m3 (snd f))) \<noteq> None"
    proof (cases "fst f = iv_id v")
      case True
      have "inst_of m (fst f) = Some (snd f)" using f(1) cat(1) by (simp add: catalog_ok_def)
      moreover have "inst_of m (iv_id v) = Some p"
      proof -
        have "rt_active (runtime_at m p)" using inv runtime_in_heap[OF p] Finalizing by (auto simp: manager_inv_def phase_ok.simps)
        moreover have "active_listed m" using inv by (simp add: manager_inv_def)
        ultimately show ?thesis using p by (simp add: active_listed_def flip: id)
      qed
      ultimately have "snd f = p" using True by simp
      then show ?thesis using inv3(3) ok runtime_in_heap[OF p] Finalizing
        by (simp add: published_runtime_def v_def retention_ok_def ended_def)
    next
      case False
      have "inst_of m (fst f) = Some (snd f)" using f(1) cat(1) by (simp add: catalog_ok_def)
      from catalogD(1)[OF cat(1) this] have "snd f < length (mg_heap m)" .
      then show ?thesis using other[OF f(1) False] f(2) ok runtime_in_heap[of "snd f" m] by (simp add: retention_ok_def ended_def)
    qed
  qed
  have gone: "fst e \<in> iv_id ` set (evicted (iv_id v) m3)"
    using e m3(2) m3'(1,2) by (auto simp: trim_terminated_fold instances_drops)
  then obtain w where w: "w \<in> set (evicted (iv_id v) m3)" "iv_id w = fst e" by auto
  then have "w \<in> eviction_view m3 ` set (filter (\<lambda>e. fst e \<noteq> iv_id v) (terminals m3))"
    using mset_eq_setD[OF eviction_order_mset[of "iv_id v" m3]] by (auto dest: in_set_takeD)
  then obtain f where f: "f \<in> set (mg_instances m3)" "fst f \<noteq> iv_id v" "w = eviction_view m3 f" by (auto simp: terminals_def)
  then have "fst f = fst e" using w(2) by simp
  then have "f = e" using f(1) e(1) keys unfolding m3'(2) by (metis eq_key_imp_eq_value prod.collapse)
  have "k \<in> set (terminals m3)" using k(1) m3(2) m3'(1) by (simp add: trim_terminated_fold terminals_drops)
  then have km: "k \<in> set (mg_instances m)" using m3'(2) by (simp add: terminals_def)
  have "evicted_before w (eviction_view m3 k)"
    by (rule evicted_oldest[OF ends keys m3'(1) w(1) k(1)[unfolded m3(2)]]) (use k(2) id in simp)
  then show ?thesis
    using other[OF e(1)] other[OF km] f(2,3) \<open>f = e\<close> k(2) id eviction_view_same[OF cat(1) e(1)] eviction_view_same[OF cat(1) km] by simp
qed (use e m' in \<open>simp_all add: run_published_def\<close>)


text \<open>The demonstration configuration, started without a registry and run to its end.\<close>

definition demo_candidate :: start_candidate where
  "demo_candidate = \<lparr>sc_config_path = ''/etc/jobs.yaml'', sc_config_identity = ''/etc/jobs.yaml'', sc_config_hash = ''f00d'',
     sc_database_path = ''/q.db'', sc_queue_identity = ''/q.db'', sc_config = demo_config, sc_name_base = ''jobs''\<rparr>"

abbreviation one_kept :: manager where
  "one_kept \<equiv> empty_manager 1 ''/s'' None"

definition demo_launched :: manager where
  "demo_launched = snd (launch_candidate False 7 (demo_candidate, demo_id, ''jobs'') one_kept)"

lemma demo_stat: "stat_database_file demo_host q = Inr None"
  by (simp add: stat_database_file_def demo_host_def)

lemma demo_preflight: "start_preflight demo_host demo_host [''/etc/jobs.yaml''] [] False None one_kept one_kept = Inr [demo_candidate]"
proof -
  have db: "canonical_database_path ''/'' (h_fs demo_host) ''q.db'' = Inr ''/q.db''" by code_simp
  note plain = demo_plain[unfolded demo_file_def]
  have "load_candidates demo_host [] 0 [''/etc/jobs.yaml''] = Inr [demo_candidate]"
    using plain db by (simp add: load_candidate_def on_error_def demo_host_simps demo_stat check_config_owner_def demo_candidate_def demo_config_def)
  moreover have "validate_database_candidates demo_host [demo_candidate] = None"
    by (simp add: validate_database_candidates_def demo_host_simps demo_stat)
  moreover have "known_queues one_kept = []" "\<not> closed_to_starts one_kept"
    by (simp_all add: known_queues_def empty_manager_def closed_to_starts_def)
  ultimately show ?thesis
    by (simp add: start_preflight_def on_error_def demo_host_simps validate_expected_queue_def) (simp add: demo_candidate_def)
qed

lemma demo_reserve:
  "reserve_and_launch demo_host [] False [demo_candidate] one_kept one_kept =
    Some (Inr [started_view demo_candidate demo_id ''jobs'' 7], demo_launched)"
proof -
  have "validate_active_candidates demo_host (mg_active_configs one_kept) (mg_active_databases one_kept) [demo_candidate] = None"
    by (simp add: demo_host_simps active_config_owner_def active_database_owner_def demo_stat empty_manager_def)
  moreover have "prepare_candidates demo_host one_kept [] [] 0 [demo_candidate] = Inr [(demo_candidate, demo_id, ''jobs'')]"
  proof -
    have "sc_name_base demo_candidate = ''jobs''" "available_name [] ''jobs'' = ''jobs''" "taken_names one_kept = []"
      by (simp_all add: demo_candidate_def available_name_def name_from.simps name_candidate_def taken_names_def empty_manager_def)
    then show ?thesis using demo_new_id[of "''jobs''"] by simp
  qed
  moreover have "\<not> closed_to_starts one_kept" by (simp add: empty_manager_def closed_to_starts_def)
  ultimately show ?thesis
    by (simp add: reserve_and_launch_def demo_host_simps Let_def demo_launched_def launch_candidate_def)
qed

lemma demo_launched_supervised: "supervised ascii_alnum (demo_launched, GateFree)"
proof -
  have new: "supervised ascii_alnum (one_kept, GateFree)"
    by (rule supervised.new[OF _ demo_directory, of None "demo_options\<lparr>mo_retained_instances := 1\<rparr>" _ id "\<lambda>i. 0"])
      (simp_all add: is_abs_def new_manager_def demo_options_def)
  have "supervisor_step ascii_alnum (one_kept, GateFree) (one_kept, GateStarting [] False [demo_candidate] None)"
    by (rule supervisor_step.preflight[OF _ demo_preflight]) (simp add: empty_manager_def)
  from supervised.stepped[OF supervised.stepped[OF new this] supervisor_step.copied]
  have "supervised ascii_alnum (one_kept, GateStarting [] False [demo_candidate] (Some one_kept))" .
  from supervised.stepped[OF this supervisor_step.reserved[OF demo_reserve]] show ?thesis .
qed

definition demo_finished :: manager where
  "demo_finished = run_published None 0 (run_returned id None 9 0 demo_launched)"

lemma demo_finished_supervised: "supervised ascii_alnum (demo_finished, GateFree)"
proof -
  have heap: "length (mg_heap demo_launched) = 1" "rt_phase (runtime_at demo_launched 0) = Invoking"
    by (simp_all add: demo_launched_def launch_candidate_def Let_def empty_manager_def runtime_at_def)
  have "lifecycle_step demo_launched (run_returned id None 9 0 demo_launched)"
    by (rule lifecycle_step.returned) (use heap in simp_all)
  moreover have "lifecycle_step (run_returned id None 9 0 demo_launched) demo_finished"
    unfolding demo_finished_def by (rule lifecycle_step.finished) (simp add: run_returned_def set_runtime_def heap)
  ultimately show ?thesis
    using supervised.stepped[OF supervised.stepped[OF demo_launched_supervised]] supervisor_step.life by blast
qed


end
