(* ===== verification/DaemonModel.thy ===== *)
theory DaemonModel
  imports ConfigLoad WatchLoopProps WorkerQueue
begin

text \<open>
  The composition of a daemon (\<open>internal/daemon\<close>): \<open>Run\<close> wires the watcher, the queue and the workers of
  one configuration (\<open>daemon.go\<close>), \<open>RunMany\<close> runs several configurations and collects how they end
  (\<open>many.go\<close>).
\<close>

section \<open>One configuration\<close>

definition single_version_fingerprint :: string where
  "single_version_fingerprint = ''onderzeeer:path''"

definition file_params :: "int \<Rightarrow> watch_config \<Rightarrow> watched_file \<Rightarrow> enqueue_params" where
  "file_params max_retries watch file =
    \<lparr>p_watch_name = w_name watch, p_path = wf_path file,
     p_fingerprint = (if w_reprocess_on_change watch then wf_fingerprint file else single_version_fingerprint),
     p_max_retries = max_retries, p_available_at = zero_time\<rparr>"

text \<open>The handler that the watcher calls with a settled file.\<close>

definition handle_file :: "engine \<Rightarrow> time \<Rightarrow> int \<Rightarrow> watch_config \<Rightarrow> watched_file \<Rightarrow> db \<Rightarrow> go_error option \<times> db" where
  "handle_file e now max_retries watch file d =
    (case enqueue e now (file_params max_retries watch file) d of
       (Inl err, d') \<Rightarrow> (Some err, d')
     | (Inr _, d') \<Rightarrow> (None, d'))"

text \<open>What a start of the daemon finds: the database, the notification library, and how its two
  components end, the first to end first.\<close>

record daemon_world =
  dw_open :: "db result"
  dw_engine :: engine
  dw_now :: time
  dw_notify :: "go_error option"
  dw_cwd :: string
  dw_ends :: "(string \<times> go_error option) list"

fun daemon_outcome :: "(string \<times> go_error option) list \<Rightarrow> go_error option" where
  "daemon_outcome [] = None"
| "daemon_outcome ((component, failed) # rest) =
    (case failed of
       Some e \<Rightarrow>
         if errors_is ''context canceled'' e then daemon_outcome rest
         else Some (Wrapped [T ''daemon: '', T component, T '': ''] e [])
     | None \<Rightarrow> daemon_outcome rest)"

definition pool_options_of :: "config \<Rightarrow> pool_options" where
  "pool_options_of cfg =
    \<lparr>po_workers = q_workers cfg, po_retry_delay = q_retry_delay cfg, po_poll_interval = 0, po_persistence_timeout = 0\<rparr>"

text \<open>The result with the tables after recovery, \<open>None\<close> when the database was not opened.\<close>

definition run_daemon :: "bool \<Rightarrow> config option \<Rightarrow> daemon_world \<Rightarrow> go_error option \<times> db option" where
  "run_daemon context cfg0 world =
    (if \<not> context then (Some (new_error ''daemon: context is required''), None)
     else
       (case cfg0 of
          None \<Rightarrow> (Some (new_error ''daemon: config is required''), None)
        | Some cfg \<Rightarrow>
       (case dw_open world of
          Inl e \<Rightarrow> (Some e, None)
        | Inr d \<Rightarrow>
       (case recover_running (dw_engine world) (dw_now world) d of
          (Inl e, d1) \<Rightarrow> (Some e, Some d1)
        | (Inr recovered, d1) \<Rightarrow>
       (case new_watcher (dw_cwd world) (v_watches cfg) True (dw_notify world) of
          Inl e \<Rightarrow> (Some (wrapf ''daemon: create watcher: '' e), Some d1)
        | Inr specs \<Rightarrow>
       (case new_pool True True True (pool_options_of cfg) of
          Inl e \<Rightarrow> (Some (wrapf ''daemon: create workers: '' e), Some d1)
        | Inr options \<Rightarrow> (daemon_outcome (dw_ends world), Some d1)))))))"

section \<open>Several configurations\<close>

text \<open>Whether an error consists of wrappers around the error of a context.\<close>

fun is_cancellation_from :: "go_error \<Rightarrow> go_error option \<Rightarrow> bool" where
  "is_cancellation_from e None = False"
| "is_cancellation_from (Joined es) (Some c) = (es \<noteq> [] \<and> list_all (\<lambda>e. is_cancellation_from e (Some c)) es)"
| "is_cancellation_from (Wrapped p e q) (Some c) = is_cancellation_from e (Some c)"
| "is_cancellation_from (Sentinel s) (Some c) = (Sentinel s = c)"
| "is_cancellation_from (ErrorString fs) (Some c) = False"

text \<open>The end of one daemon, with the state of the caller's context when it is received.\<close>

record arrival =
  ar_path :: string
  ar_error :: "go_error option"
  ar_parent :: "go_error option"

definition config_error :: "string \<Rightarrow> go_error \<Rightarrow> go_error" where
  "config_error path e = Wrapped [T ''daemon: config '', Q path, T '': ''] e []"

text \<open>The loop over the results: the error so far, and the error of the shared context once it was
  cancelled for a failure.\<close>

fun collect_results :: "arrival list \<Rightarrow> (go_error \<times> go_error) option \<Rightarrow> go_error option" where
  "collect_results [] first = map_option fst first"
| "collect_results (a # as) first =
    (case ar_error a of
       None \<Rightarrow> collect_results as first
     | Some e \<Rightarrow>
         if is_cancellation_from e (ar_parent a) then collect_results as first
         else
           (case first of
              None \<Rightarrow>
                collect_results as
                  (Some (config_error (ar_path a) e, case ar_parent a of Some p \<Rightarrow> p | None \<Rightarrow> err_canceled))
            | Some (earlier, child) \<Rightarrow>
                if is_cancellation_from e (Some child) then collect_results as first
                else collect_results as (Some (Joined [earlier, config_error (ar_path a) e], child))))"

record named_config =
  nc_path :: string
  nc_config :: "config option"

text \<open>The file system when the \<open>i\<close>th database path is resolved, and at the stages of comparing it with
  the \<open>k\<close>th one.\<close>

record disk =
  dk_resolve :: "nat \<Rightarrow> file_system"
  dk_compare :: "nat \<Rightarrow> nat \<Rightarrow> file_system \<times> file_system \<times> file_system \<times> file_system"
  dk_nfc :: "string \<Rightarrow> string"
  dk_fold :: "string \<Rightarrow> string \<Rightarrow> bool"
  dk_cwd :: string

definition same_database :: "disk \<Rightarrow> nat \<Rightarrow> nat \<Rightarrow> string \<Rightarrow> string \<Rightarrow> bool result option" where
  "same_database disk k i prior path =
    (case dk_compare disk k i of
       (f0, f1, f2, f3) \<Rightarrow> paths_equivalent (dk_nfc disk) (dk_fold disk) (dk_cwd disk) f0 f1 f2 f3 prior path)"

fun compare_named_owners :: "disk \<Rightarrow> nat \<Rightarrow> nat \<Rightarrow> (string \<times> string) list \<Rightarrow> string \<Rightarrow> string \<Rightarrow> unit result option" where
  "compare_named_owners disk i k [] path database = Some (Inr ())"
| "compare_named_owners disk i k ((prior, held_path) # owners) path database =
    (case same_database disk k i held_path database of
       None \<Rightarrow> None
     | Some (Inl e) \<Rightarrow>
         Some (Inl (Wrapped [T ''daemon: compare database paths for configs '', Q prior, T '' and '', Q path, T '': ''] e []))
     | Some (Inr True) \<Rightarrow>
         Some (Inl (ErrorString [T ''daemon: configs '', Q prior, T '' and '', Q path, T '' use the same database '', Q database]))
     | Some (Inr False) \<Rightarrow> compare_named_owners disk i (Suc k) owners path database)"

fun check_configs :: "disk \<Rightarrow> nat \<Rightarrow> named_config list \<Rightarrow> (string \<times> string) list \<Rightarrow> (string \<times> string) list result option" where
  "check_configs disk i [] owners = Some (Inr owners)"
| "check_configs disk i (n # ns) owners =
    (if blank (nc_path n) then Some (Inl (ErrorString [T ''daemon: config '', D (int i + 1), T '' path is required'']))
     else
       (case nc_config n of
          None \<Rightarrow> Some (Inl (ErrorString [T ''daemon: config '', Q (nc_path n), T '' is nil'']))
        | Some cfg \<Rightarrow>
            if blank (d_path cfg)
            then Some (Inl (ErrorString [T ''daemon: config '', Q (nc_path n), T '' database path is required'']))
            else
              (case canonical_database_path (dk_cwd disk) (dk_resolve disk i) (d_path cfg) of
                 Inl e \<Rightarrow>
                   Some (Inl (Wrapped [T ''daemon: normalize database path for config '', Q (nc_path n), T '': ''] e []))
               | Inr database \<Rightarrow>
                   (case compare_named_owners disk i 0 owners (nc_path n) database of
                      None \<Rightarrow> None
                    | Some (Inl e) \<Rightarrow> Some (Inl e)
                    | Some (Inr _) \<Rightarrow> check_configs disk (Suc i) ns (owners @ [(nc_path n, database)])))))"

definition validate_named_configs :: "disk \<Rightarrow> named_config list \<Rightarrow> (string \<times> string) list result option" where
  "validate_named_configs disk configs =
    (if configs = [] then Some (Inl (new_error ''daemon: at least one config is required''))
     else check_configs disk 0 configs [])"

text \<open>\<open>arrivals\<close> is how the daemons end, in the order in which the results are received.\<close>

definition run_many ::
  "bool \<Rightarrow> bool \<Rightarrow> disk \<Rightarrow> named_config list \<Rightarrow> go_error option \<Rightarrow> arrival list \<Rightarrow> go_error option option" where
  "run_many context runner disk configs ctx_err arrivals =
    (if \<not> context then Some (Some (new_error ''daemon: context is required''))
     else if \<not> runner then Some (Some (new_error ''daemon: runner is required''))
     else
       (case validate_named_configs disk configs of
          None \<Rightarrow> None
        | Some (Inl e) \<Rightarrow> Some (Some e)
        | Some (Inr _) \<Rightarrow> Some (if ctx_err \<noteq> None then None else collect_results arrivals None)))"

section \<open>Failures are reported\<close>

text \<open>An error that is only a cancellation is found by \<open>errors.Is\<close> for that cancellation alone.\<close>

lemma cancellation_only:
  "is_cancellation_from e c \<Longrightarrow> errors_is s e \<Longrightarrow> c = Some (Sentinel s)"
  by (induction e c rule: is_cancellation_from.induct) (auto simp: list_all_iff list_ex_iff)

lemma collect_keeps: "errors_is s (fst f) \<Longrightarrow> \<exists>r. collect_results as (Some f) = Some r \<and> errors_is s r"
proof (induction as arbitrary: f)
  case (Cons a as)
  then show ?case by (cases f) (auto split: option.split)
qed simp

lemma collect_reports:
  assumes "a \<in> set as" and "ar_error a = Some e" and "errors_is s e"
    and "\<forall>b \<in> set as. ar_parent b \<noteq> Some (Sentinel s)" and "s \<noteq> ''context canceled''"
    and "case first of None \<Rightarrow> True | Some f \<Rightarrow> snd f \<noteq> Sentinel s"
  shows "\<exists>r. collect_results as first = Some r \<and> errors_is s r"
  using assms
proof (induction as arbitrary: first)
  case (Cons b as)
  have not: "\<not> is_cancellation_from e c" if "c \<noteq> Some (Sentinel s)" for c
    using cancellation_only[of e c s] that Cons.prems(3) by blast
  show ?case
  proof (cases "b = a")
    case True
    have w: "errors_is s (config_error (ar_path a) e)" using Cons.prems(3) by (simp add: config_error_def)
    show ?thesis
    proof (cases first)
      case None
      then show ?thesis using True Cons.prems(2,4) w not[of "ar_parent a"] collect_keeps[of s] by simp
    next
      case (Some f)
      obtain earlier child where f: "f = (earlier, child)" by fastforce
      have "child \<noteq> Sentinel s" using Cons.prems(6) Some f by simp
      then show ?thesis
        using True Cons.prems(2,4) w not[of "ar_parent a"] not[of "Some child"] collect_keeps[of s "(Joined [earlier, config_error (ar_path a) e], child)"]
          Some f by simp
    qed
  next
    case False
    then have a: "a \<in> set as" using Cons.prems(1) by simp
    have IH: "\<exists>r. collect_results as g = Some r \<and> errors_is s r" if "case g of None \<Rightarrow> True | Some f \<Rightarrow> snd f \<noteq> Sentinel s" for g
      using Cons.IH[OF a Cons.prems(2,3) _ Cons.prems(5) that] Cons.prems(4) by simp
    have child: "(case ar_parent b of Some p \<Rightarrow> p | None \<Rightarrow> err_canceled) \<noteq> Sentinel s"
      using Cons.prems(4,5) by (auto simp: err_canceled_def split: option.split)
    show ?thesis
      using IH child Cons.prems(6) by (auto split: option.split)
  qed
qed simp

lemma collect_quiet:
  "collect_results as None = None \<longleftrightarrow>
    (\<forall>a \<in> set as. \<forall>e. ar_error a = Some e \<longrightarrow> is_cancellation_from e (ar_parent a))"
proof (induction as)
  case (Cons a as)
  have "collect_results as (Some f) \<noteq> None" for f
    by (induction as arbitrary: f) (auto split: option.split)
  then show ?case using Cons.IH by (auto split: option.split)
qed simp

section \<open>Databases are not shared\<close>

lemma compare_named_owners_ok:
  "compare_named_owners disk i k owners path database = Some (Inr ()) \<Longrightarrow> m < length owners \<Longrightarrow>
    same_database disk (k + m) i (snd (owners ! m)) database = Some (Inr False)"
proof (induction owners arbitrary: k m)
  case (Cons o' owners)
  obtain prior held_path where o': "o' = (prior, held_path)" by fastforce
  have first: "same_database disk k i held_path database = Some (Inr False)"
    and rest: "compare_named_owners disk i (Suc k) owners path database = Some (Inr ())"
    using Cons.prems(1) by (auto simp: o' split: option.splits sum.splits bool.splits)
  show ?case
  proof (cases m)
    case 0
    then show ?thesis using first o' by simp
  next
    case (Suc l)
    then show ?thesis using Cons.IH[OF rest, of l] Cons.prems(2) by simp
  qed
qed simp

definition pairwise_apart :: "disk \<Rightarrow> (string \<times> string) list \<Rightarrow> bool" where
  "pairwise_apart disk owners \<longleftrightarrow>
    (\<forall>i < length owners. \<forall>k < i. same_database disk k i (snd (owners ! k)) (snd (owners ! i)) = Some (Inr False))"

lemma check_configs_ok:
  assumes "check_configs disk i ns owners = Some (Inr result)" and "i = length owners" and "pairwise_apart disk owners"
  shows "pairwise_apart disk result \<and> map fst result = map fst owners @ map nc_path ns \<and>
    list_all (\<lambda>n. nc_config n \<noteq> None) ns"
  using assms
proof (induction ns arbitrary: i owners)
  case (Cons n ns)
  from Cons.prems(1) obtain cfg database where cfg: "nc_config n = Some cfg"
    and compare: "compare_named_owners disk i 0 owners (nc_path n) database = Some (Inr ())"
    and rest: "check_configs disk (Suc i) ns (owners @ [(nc_path n, database)]) = Some (Inr result)"
    by (auto split: if_splits option.splits sum.splits)
  have "pairwise_apart disk (owners @ [(nc_path n, database)])"
    using Cons.prems(2,3) compare_named_owners_ok[OF compare]
    by (auto simp: pairwise_apart_def nth_append less_Suc_eq)
  with Cons.IH[OF rest] Cons.prems(2) cfg show ?case by simp
qed simp

end
