(* ===== verification/DaemonFlow.thy ===== *)
theory DaemonFlow
  imports DaemonModel
begin

text \<open>
  From a notification to a job: the goroutines of the watcher, the handler of the daemon and the calls of the
  workers as one state machine (\<open>daemon_step\<close>), and its invariant.
\<close>

section \<open>The state machine\<close>

record daemon_state =
  dm_watch :: watch_state
  dm_db :: db

definition watch_of :: "watch_spec list \<Rightarrow> nat \<Rightarrow> watch_config" where
  "watch_of specs i = sp_config (specs ! i)"

text \<open>What a step of a goroutine does to the tables: the handler enqueues the file, and its answer is the
  goroutine's; any other step leaves them alone.\<close>

definition handler_effect ::
  "watch_spec list \<Rightarrow> int \<Rightarrow> engine \<Rightarrow> time \<Rightarrow> settler \<Rightarrow> watch_state \<Rightarrow> settle_answer \<Rightarrow> db \<Rightarrow> db \<Rightarrow> bool" where
  "handler_effect specs retries e now g w a d d' \<longleftrightarrow>
    (case st_pc g of
       Handling v file \<Rightarrow>
         fresh_rowid e d \<and>
         handle_file e now retries (watch_of specs (pf_watch_index (ws_heap w (st_ptr g)))) file d = (an_handler a, d')
     | _ \<Rightarrow> d' = d)"

text \<open>A stabilisation answers what \<open>WaitStable\<close> returns on some polls of the file.\<close>

definition stable_answer :: "string \<Rightarrow> (string \<Rightarrow> string) \<Rightarrow> watch_spec list \<Rightarrow> settler \<Rightarrow> watch_state \<Rightarrow> settle_answer \<Rightarrow> bool" where
  "stable_answer cwd digest specs g w a \<longleftrightarrow>
    (let p = ws_heap w (st_ptr g) in
     \<exists>ctx first now polls.
       wait_stable digest cwd ctx (pf_path p) (w_settle_for (watch_of specs (pf_watch_index p))) first now polls = Some (an_stable a))"

inductive daemon_step ::
  "string \<Rightarrow> (string \<Rightarrow> string) \<Rightarrow> watch_spec list \<Rightarrow> int \<Rightarrow> daemon_state \<Rightarrow> daemon_state \<Rightarrow> bool"
  for cwd digest specs retries
where
  notified: "i < length specs \<Longrightarrow> is_abs f \<Longrightarrow> watch_match cwd (with_root (specs ! i)) f \<Longrightarrow>
    daemon_step cwd digest specs retries s (s\<lparr>dm_watch := snd (schedule c i f (dm_watch s))\<rparr>)"
| settled: "n < length (ws_settlers (dm_watch s)) \<Longrightarrow> g = ws_settlers (dm_watch s) ! n \<Longrightarrow>
    stable_answer cwd digest specs g (dm_watch s) a \<Longrightarrow> handler_effect specs retries e now g (dm_watch s) a (dm_db s) d \<Longrightarrow>
    daemon_step cwd digest specs retries s
      (s\<lparr>dm_watch := run_settler (watch_of specs) a n (dm_watch s), dm_db := d\<rparr>)"
| worked: "store_step (dm_db s) c d \<Longrightarrow> (\<And>p. c \<noteq> Enqueue p) \<Longrightarrow> daemon_step cwd digest specs retries s (s\<lparr>dm_db := d\<rparr>)"

inductive_cases daemon_stepE: "daemon_step cwd digest specs retries s s'"

text \<open>The states a daemon reaches from the tables of an earlier one.\<close>

inductive daemon_reachable ::
  "string \<Rightarrow> (string \<Rightarrow> string) \<Rightarrow> watch_spec list \<Rightarrow> int \<Rightarrow> db \<Rightarrow> daemon_state \<Rightarrow> bool"
  for cwd digest specs retries d
where
  start: "daemon_reachable cwd digest specs retries d \<lparr>dm_watch = initial_watch_state, dm_db = d\<rparr>"
| step: "daemon_reachable cwd digest specs retries d s \<Longrightarrow> daemon_step cwd digest specs retries s s' \<Longrightarrow>
    daemon_reachable cwd digest specs retries d s'"

section \<open>The tables\<close>

lemma job_keys_move: "jobs_move d d' \<Longrightarrow> map job_key (jobs d') = map job_key (jobs d)"
  unfolding jobs_move_def by (induction rule: list_all2_induct) (auto dest: job_step_keeps)

lemma worker_call_moves:
  assumes inv: "queue_inv d" and c: "\<And>p. c \<noteq> Enqueue p"
  shows "jobs_move d (store_exec e now c d)"
proof (cases c)
  case Claim
  show ?thesis
  proof (cases "claim e now d")
    case (Pair res d')
    then show ?thesis using Claim inv
      by (cases res) (auto simp: store_exec_def jobs_move_same dest: claim_error claim_ok intro: claimed_moves)
  qed
next
  case (StartCommand cs)
  then show ?thesis
    by (cases rule: start_command_cases[of e now cs d]) (simp_all add: store_exec_def jobs_move_same)
next
  case (CompleteCommand i res)
  then show ?thesis
    by (cases rule: complete_command_cases[of e now i res d]) (simp_all add: store_exec_def jobs_move_same)
next
  case (Succeed i k)
  then show ?thesis
    by (cases "succeed e now i k d"; cases "fst (succeed e now i k d)")
      (auto simp: store_exec_def succeeded_moves jobs_move_same dest!: succeed_error succeed_ok(1))
next
  case (Fail i k m delay)
  show ?thesis
  proof (cases "fail e now i k m delay d")
    case (Pair res d')
    then show ?thesis using Fail
      by (cases res) (auto simp: store_exec_def inv jobs_move_same dest: fail_error elim!: fail_ok intro: failed_moves)
  qed
next
  case RecoverRunning
  then show ?thesis
    by (cases "recover_running e now d"; cases "fst (recover_running e now d)")
      (auto simp: store_exec_def recovered_moves jobs_move_same dest!: recover_error recover_ok(1))
qed (use c in blast)

lemma worker_keys: "store_step d c d' \<Longrightarrow> queue_inv d \<Longrightarrow> (\<And>p. c \<noteq> Enqueue p) \<Longrightarrow> map job_key (jobs d') = map job_key (jobs d)"
  by (erule store_stepE) (simp add: job_keys_move worker_call_moves)

text \<open>The key of the job of a file.\<close>

definition file_key :: "watch_config \<Rightarrow> string \<Rightarrow> string \<Rightarrow> string \<times> string \<times> string" where
  "file_key watch path fingerprint =
    (w_name watch, path, if w_reprocess_on_change watch then fingerprint else single_version_fingerprint)"

lemma handled_keys:
  assumes "handle_file e now retries watch file d = (failed, d')"
  shows "set (map job_key (jobs d')) = set (map job_key (jobs d)) \<union>
      (if failed = None then {file_key watch (wf_path file) (wf_fingerprint file)} else {})"
proof -
  let ?p = "file_params retries watch file"
  have key: "same_key ?p r \<longleftrightarrow> job_key r = file_key watch (wf_path file) (wf_fingerprint file)" for r
    by (auto simp: same_key_def job_key_def file_params_def file_key_def)
  obtain res where res: "enqueue e now ?p d = (res, d')" using assms by (auto simp: handle_file_def split: prod.splits sum.splits)
  show ?thesis
  proof (cases res)
    case (Inl err)
    then have "failed = Some err" using assms res by (simp add: handle_file_def)
    moreover have "d' = d" using res Inl by (auto simp: enqueue_def Let_def split: if_splits option.splits)
    ultimately show ?thesis by simp
  next
    case (Inr x)
    obtain j created where x: "x = (j, created)" by fastforce
    have ok: "failed = None" using assms res Inr by (simp add: handle_file_def)
    have made: "enqueue e now ?p d = (Inr (j, created), d')" using res Inr x by simp
    obtain r where r: "r \<in> set (jobs d')" "same_key ?p r" by (rule enqueue_ok_key[OF made])
    have "jobs d' = jobs d \<or> (\<exists>n. jobs d' = jobs d @ [n] \<and> same_key ?p n)"
      using made by (auto simp: enqueue_def Let_def same_key_def new_job_row_def split: if_splits option.splits)
    moreover have "job_key r \<in> set (map job_key (jobs d'))" using r(1) by simp
    ultimately show ?thesis using r(2) ok by (auto simp: key)
  qed
qed

lemma handled_reachable: "reachable d \<Longrightarrow> fresh_rowid e d \<Longrightarrow> handle_file e now retries watch file d = (failed, d') \<Longrightarrow> reachable d'"
  by (auto simp: handle_file_def split: prod.splits sum.splits dest: reachable_enqueue)

lemma reachable_store_step: "reachable d \<Longrightarrow> store_step d c d' \<Longrightarrow> reachable d'"
  using reachable_steps[OF _ store_steps.step[OF _ store_steps.none]] by blast

section \<open>The invariant\<close>

fun pc_file :: "settle_pc \<Rightarrow> watched_file option" where
  "pc_file AtTop = None"
| "pc_file (Settling v) = None"
| "pc_file (Comparing v file) = Some file"
| "pc_file (Skipping v) = None"
| "pc_file (Validating v file) = Some file"
| "pc_file (Handling v file) = Some file"
| "pc_file (Recording v file) = Some file"

definition job_keys :: "db \<Rightarrow> (string \<times> string \<times> string) set" where
  "job_keys d = set (map job_key (jobs d))"

definition settler_path :: "watch_state \<Rightarrow> settler \<Rightarrow> pending_file" where
  "settler_path w g = ws_heap w (st_ptr g)"

definition settler_ok :: "watch_spec list \<Rightarrow> daemon_state \<Rightarrow> settler \<Rightarrow> bool" where
  "settler_ok specs s g \<longleftrightarrow>
    (let p = settler_path (dm_watch s) g in
     (\<forall>file. pc_file (st_pc g) = Some file \<longrightarrow> wf_path file = pf_path p) \<and>
     (\<forall>v file. st_pc g = Recording v file \<longrightarrow>
       file_key (watch_of specs (pf_watch_index p)) (pf_path p) (wf_fingerprint file) \<in> job_keys (dm_db s)))"

definition delivered_ok :: "string \<Rightarrow> watch_spec list \<Rightarrow> daemon_state \<Rightarrow> bool" where
  "delivered_ok cwd specs s \<longleftrightarrow>
    (\<forall>e \<in> set (ws_delivered (dm_watch s)). \<exists>i f. selected cwd specs i f \<and> fst e = pending_key i f \<and>
      file_key (watch_of specs i) f (snd e) \<in> job_keys (dm_db s))"

definition jobs_selected :: "string \<Rightarrow> watch_spec list \<Rightarrow> db \<Rightarrow> daemon_state \<Rightarrow> bool" where
  "jobs_selected cwd specs d0 s \<longleftrightarrow>
    (\<forall>x \<in> job_keys (dm_db s). x \<in> job_keys d0 \<or> (\<exists>i f fp. selected cwd specs i f \<and> x = file_key (watch_of specs i) f fp))"

definition daemon_inv :: "string \<Rightarrow> watch_spec list \<Rightarrow> db \<Rightarrow> daemon_state \<Rightarrow> bool" where
  "daemon_inv cwd specs d0 s \<longleftrightarrow>
    watch_inv (watch_of specs) (dm_watch s) \<and> reachable (dm_db s) \<and> work_selected cwd specs (dm_watch s) \<and>
    (\<forall>g \<in> set (ws_settlers (dm_watch s)). settler_ok specs s g) \<and> delivered_ok cwd specs s \<and> jobs_selected cwd specs d0 s"

lemma daemon_start: "reachable d \<Longrightarrow> daemon_inv cwd specs d \<lparr>dm_watch = initial_watch_state, dm_db = d\<rparr>"
  using initial_watch_inv[of "watch_of specs"]
  by (simp add: daemon_inv_def work_selected_def delivered_ok_def jobs_selected_def initial_watch_state_def)

subsection \<open>Notifications\<close>

lemma schedule_parts:
  "ws_delivered (snd (schedule c i f w)) = ws_delivered w"
  "\<forall>g \<in> set (ws_settlers (snd (schedule c i f w))). g \<in> set (ws_settlers w) \<or> st_pc g = AtTop"
  "ptr < ws_next w \<Longrightarrow> pf_path (ws_heap (snd (schedule c i f w)) ptr) = pf_path (ws_heap w ptr) \<and>
    pf_watch_index (ws_heap (snd (schedule c i f w)) ptr) = pf_watch_index (ws_heap w ptr)"
  by (auto simp: schedule_def Let_def split: option.split)

lemma notified_inv:
  assumes inv: "daemon_inv cwd specs d0 s" and f: "i < length specs" "is_abs f" "watch_match cwd (with_root (specs ! i)) f"
  shows "daemon_inv cwd specs d0 (s\<lparr>dm_watch := snd (schedule c i f (dm_watch s))\<rparr>)"
proof -
  let ?w = "dm_watch s" and ?w' = "snd (schedule c i f (dm_watch s))"
  have w: "watch_inv (watch_of specs) ?w" and sel: "work_selected cwd specs ?w"
    using inv by (simp_all add: daemon_inv_def)
  have ok: "settler_ok specs (s\<lparr>dm_watch := ?w'\<rparr>) g" if g: "g \<in> set (ws_settlers ?w')" for g
  proof (cases "st_pc g = AtTop")
    case False
    then have old: "g \<in> set (ws_settlers ?w)" using schedule_parts(2) g by blast
    then have "st_ptr g < ws_next ?w" using w by (auto simp: watch_inv_def owners_ok_def)
    moreover have "settler_ok specs s g" using inv old by (simp add: daemon_inv_def)
    ultimately show ?thesis using schedule_parts(3) by (simp add: settler_ok_def settler_path_def Let_def)
  qed (simp add: settler_ok_def)
  have "watch_inv (watch_of specs) ?w'" by (rule schedule_inv[OF w])
  moreover have "work_selected cwd specs ?w'" by (rule schedule_selected[OF w sel f])
  ultimately show ?thesis
    using inv ok by (simp add: daemon_inv_def delivered_ok_def jobs_selected_def schedule_parts(1))
qed

subsection \<open>Workers\<close>

lemma same_keys_inv:
  assumes "daemon_inv cwd specs d0 s" and "reachable d" and "job_keys d = job_keys (dm_db s)"
  shows "daemon_inv cwd specs d0 (s\<lparr>dm_db := d\<rparr>)"
  using assms by (simp add: daemon_inv_def delivered_ok_def jobs_selected_def settler_ok_def)

subsection \<open>Goroutines\<close>

lemma settle_step_files:
  assumes "settle_step watch a g w = (r, w')"
  shows "r = Some pc \<Longrightarrow> pc_file pc = Some file \<Longrightarrow> pc_file (st_pc g) = Some file \<or> an_stable a = Inr file"
    and "r = Some (Recording v file) \<Longrightarrow> st_pc g = Handling v file \<and> an_handler a = None"
    and "ws_delivered w' = ws_delivered w \<or>
      (\<exists>v file. st_pc g = Recording v file \<and>
        ws_delivered w' = ws_delivered (record_delivered (an_evicted a) (st_key g) (wf_fingerprint file) w))"
  using assms
  by (cases "st_pc g"; auto simp: settle_step_def Let_def remove_pending_def finish_pending_if_current_def report_error_def
      split: if_splits sum.splits option.splits)+

lemma stable_path:
  assumes "stable_answer cwd digest specs g w a" and "an_stable a = Inr file" and "is_abs (pf_path (settler_path w g))"
    and "clean (pf_path (settler_path w g)) = pf_path (settler_path w g)"
  shows "wf_path file = pf_path (settler_path w g)"
proof -
  have loop: "wf_path f = canonical" if "wait_loop digest canonical settle since recent info ps = Some (Inr f)"
    for canonical settle since recent info ps f
    using that by (induction ps arbitrary: since recent info)
      (auto simp: snapshot_def split: if_splits option.splits sum.splits)
  have "wf_path file = clean (abs_path cwd (pf_path (settler_path w g)))"
    using assms(1,2) loop
    by (auto simp: stable_answer_def wait_stable_def Let_def settler_path_def snapshot_def split: option.splits if_splits sum.splits)
  then show ?thesis using assms(3,4) by simp
qed

text \<open>The file of a goroutine is one that a watch selected.\<close>

lemma settler_selected_file:
  assumes "watch_inv (watch_of specs) w" and "work_selected cwd specs w" and "g \<in> set (ws_settlers w)"
  shows "st_key g = pending_key (pf_watch_index (settler_path w g)) (pf_path (settler_path w g))"
    and "selected cwd specs (pf_watch_index (settler_path w g)) (pf_path (settler_path w g))"
proof -
  have "tables_ok w" "owners_ok w" using assms(1) by (auto simp: watch_inv_def)
  from owner_current[OF this assms(3)] have "(st_key g, st_ptr g) \<in> set (ws_pending w)" by (rule map_of_SomeD)
  then show "st_key g = pending_key (pf_watch_index (settler_path w g)) (pf_path (settler_path w g))"
    and "selected cwd specs (pf_watch_index (settler_path w g)) (pf_path (settler_path w g))"
    using assms(2) by (auto simp: work_selected_def Let_def settler_path_def)
qed

lemma handler_keys:
  assumes "handler_effect specs retries e now g w a d d'" and "reachable d"
  shows "reachable d'" and "job_keys d \<subseteq> job_keys d'"
    and "x \<in> job_keys d' \<Longrightarrow> x \<in> job_keys d \<or>
      (\<exists>v file. st_pc g = Handling v file \<and> an_handler a = None \<and>
        x = file_key (watch_of specs (pf_watch_index (settler_path w g))) (wf_path file) (wf_fingerprint file))"
    and "st_pc g = Handling v file \<Longrightarrow> an_handler a = None \<Longrightarrow>
      file_key (watch_of specs (pf_watch_index (settler_path w g))) (wf_path file) (wf_fingerprint file) \<in> job_keys d'"
proof -
  let ?watch = "watch_of specs (pf_watch_index (settler_path w g))"
  consider (handle) u f where "st_pc g = Handling u f" "fresh_rowid e d" "handle_file e now retries ?watch f d = (an_handler a, d')"
    | (quiet) "\<And>u f. st_pc g \<noteq> Handling u f" "d' = d"
    using assms(1) by (auto simp: handler_effect_def settler_path_def split: settle_pc.splits)
  then have "reachable d' \<and> job_keys d \<subseteq> job_keys d' \<and>
    (\<forall>x. x \<in> job_keys d' \<longrightarrow> x \<in> job_keys d \<or> (\<exists>v file. st_pc g = Handling v file \<and> an_handler a = None \<and>
        x = file_key ?watch (wf_path file) (wf_fingerprint file))) \<and>
    (\<forall>v file. st_pc g = Handling v file \<longrightarrow> an_handler a = None \<longrightarrow>
      file_key ?watch (wf_path file) (wf_fingerprint file) \<in> job_keys d')"
  proof cases
    case handle
    have "job_keys d' = job_keys d \<union> (if an_handler a = None then {file_key ?watch (wf_path f) (wf_fingerprint f)} else {})"
      unfolding job_keys_def by (rule handled_keys[OF handle(3)])
    then show ?thesis using handled_reachable[OF assms(2) handle(2,3)] handle(1) by (simp split: if_splits)
  qed (use assms(2) in simp)
  then show "reachable d'" and "job_keys d \<subseteq> job_keys d'"
    and "x \<in> job_keys d' \<Longrightarrow> x \<in> job_keys d \<or> (\<exists>v file. st_pc g = Handling v file \<and> an_handler a = None \<and>
        x = file_key ?watch (wf_path file) (wf_fingerprint file))"
    and "st_pc g = Handling v file \<Longrightarrow> an_handler a = None \<Longrightarrow>
      file_key ?watch (wf_path file) (wf_fingerprint file) \<in> job_keys d'" by blast+
qed

lemma settled_inv:
  assumes inv: "daemon_inv cwd specs d0 s"
    and n: "n < length (ws_settlers (dm_watch s))" and g: "g = ws_settlers (dm_watch s) ! n"
    and stable: "stable_answer cwd digest specs g (dm_watch s) a"
    and effect: "handler_effect specs retries e now g (dm_watch s) a (dm_db s) d"
  shows "daemon_inv cwd specs d0 (s\<lparr>dm_watch := run_settler (watch_of specs) a n (dm_watch s), dm_db := d\<rparr>)"
proof -
  let ?w = "dm_watch s" and ?w1 = "run_settler (watch_of specs) a n (dm_watch s)"
  let ?s1 = "s\<lparr>dm_watch := ?w1, dm_db := d\<rparr>"
  have w: "watch_inv (watch_of specs) ?w" and sel: "work_selected cwd specs ?w" and db: "reachable (dm_db s)"
    using inv by (simp_all add: daemon_inv_def)
  have mem: "g \<in> set (ws_settlers ?w)" using n g by simp
  note origin = settler_selected_file[OF w sel mem]
  note keys = handler_keys[OF effect db]
  have gok: "settler_ok specs s g" using inv mem by (simp add: daemon_inv_def)
  obtain r w' where step: "settle_step (watch_of specs (pf_watch_index (ws_heap ?w (st_ptr g)))) a g ?w = (r, w')" by fastforce
  have "tables_ok ?w" "owners_ok ?w" using w by (auto simp: watch_inv_def)
  note keeps = settle_step_keeps[OF step owner_current[OF this mem]]
  note moves = settle_step_files[OF step]
  have run: "ws_delivered ?w1 = ws_delivered w'" "ws_heap ?w1 = ws_heap ?w"
    "set (ws_settlers ?w1) \<subseteq> insert (case r of None \<Rightarrow> g | Some pc \<Rightarrow> g\<lparr>st_pc := pc\<rparr>) (set (ws_settlers ?w))"
    using step keeps g by (auto simp: run_settler_def Let_def split: option.splits dest: in_set_takeD in_set_dropD
        elim!: set_update_subset_insert[THEN subsetD, elim_format])
  have same: "settler_path ?w1 h = settler_path ?w h" for h by (simp add: settler_path_def run(2))
  have old: "settler_ok specs ?s1 h" if "settler_ok specs s h" for h
    using that keys(2) by (auto simp: settler_ok_def same Let_def)
  have new: "settler_ok specs ?s1 (g\<lparr>st_pc := pc\<rparr>)" if pc: "r = Some pc" for pc
  proof -
    have path: "wf_path f = pf_path (settler_path ?w g)" if "pc_file pc = Some f" for f
      using moves(1)[OF pc that] stable_path[OF stable] origin(2) gok
      by (auto simp: selected_def settler_ok_def Let_def)
    have rec: "file_key (watch_of specs (pf_watch_index (settler_path ?w g))) (pf_path (settler_path ?w g)) (wf_fingerprint f) \<in> job_keys d"
      if "pc = Recording v f" for v f
      using moves(2)[of v f] keys(4)[of v f] gok pc that path[of f] by (simp add: settler_ok_def)
    show ?thesis using path rec by (auto simp: settler_ok_def same settler_path_def Let_def run(2))
  qed
  have "settler_ok specs ?s1 h" if "h \<in> set (ws_settlers ?w1)" for h
    using run(3) that old gok new inv by (auto simp: daemon_inv_def split: option.splits)
  moreover have "delivered_ok cwd specs ?s1"
  proof -
    have before: "delivered_ok cwd specs s" using inv by (simp add: daemon_inv_def)
    have "\<exists>i f. selected cwd specs i f \<and> fst x = pending_key i f \<and> file_key (watch_of specs i) f (snd x) \<in> job_keys d"
      if x: "x \<in> set (ws_delivered w')" for x
    proof (cases "x \<in> set (ws_delivered ?w)")
      case True
      then show ?thesis using before keys(2) unfolding delivered_ok_def by blast
    next
      case False
      then obtain v f where f: "st_pc g = Recording v f" and "ws_delivered w' = ws_delivered (record_delivered (an_evicted a) (st_key g) (wf_fingerprint f) ?w)"
        using moves(3) x by auto
      then have "x = (st_key g, wf_fingerprint f)"
        using x False by (auto simp: record_delivered_def Let_def map_store_def map_delete_def split: if_splits)
      then show ?thesis using gok f origin keys(2) by (auto simp: settler_ok_def Let_def)
    qed
    then show ?thesis by (simp add: delivered_ok_def run(1))
  qed
  moreover have "jobs_selected cwd specs d0 ?s1"
  proof -
    have before: "jobs_selected cwd specs d0 s" using inv by (simp add: daemon_inv_def)
    have "x \<in> job_keys d0 \<or> (\<exists>i f fp. selected cwd specs i f \<and> x = file_key (watch_of specs i) f fp)" if x: "x \<in> job_keys d" for x
    proof (cases "x \<in> job_keys (dm_db s)")
      case True
      then show ?thesis using before by (simp add: jobs_selected_def)
    next
      case False
      then obtain v f where "st_pc g = Handling v f"
        "x = file_key (watch_of specs (pf_watch_index (settler_path ?w g))) (wf_path f) (wf_fingerprint f)"
        using keys(3)[OF x] by blast
      then show ?thesis using gok origin(2) by (auto simp: settler_ok_def Let_def)
    qed
    then show ?thesis by (simp add: jobs_selected_def)
  qed
  ultimately show ?thesis
    using run_settler_inv[OF w n] settler_selected[OF w n sel] keys(1) by (simp add: daemon_inv_def)
qed

lemma daemon_reachable_inv:
  assumes "daemon_reachable cwd digest specs retries d s" and "reachable d"
  shows "daemon_inv cwd specs d s"
  using assms
proof (induction rule: daemon_reachable.induct)
  case (step s s')
  have inv: "daemon_inv cwd specs d s" by (rule step.IH[OF step.prems])
  from step.hyps(2) show ?case
  proof (cases rule: daemon_step.cases)
    case (worked c d1)
    have db: "reachable (dm_db s)" using inv by (simp add: daemon_inv_def)
    have "job_keys d1 = job_keys (dm_db s)"
      unfolding job_keys_def using worker_keys[OF worked(2) reachable_inv[OF db] worked(3)] by simp
    then show ?thesis unfolding worked(1) by (rule same_keys_inv[OF inv reachable_store_step[OF db worked(2)]])
  qed (use inv notified_inv settled_inv in blast)+
qed (rule daemon_start)

end
