(* ===== verification/DaemonProps.thy ===== *)
theory DaemonProps
  imports DaemonFlow
begin

text \<open>
  The properties of a daemon: what becomes a job, that a remembered file has one, that rediscovery adds none,
  and what several daemons under one supervisor report. \<open>demo_daemon\<close> is a run in which the file \<open>/in/a\<close> is
  notified, settles, is enqueued and remembered.
\<close>

section \<open>A run\<close>

definition demo_daemon_specs :: "watch_spec list" where
  "demo_daemon_specs = new_specs ''/'' demo_watches"

definition demo_digest :: "string \<Rightarrow> string" where
  "demo_digest text = ''f''"

definition demo_settled :: settle_answer where
  "demo_settled = \<lparr>an_stable = Inr (snapshot demo_digest ''/in/a'' (demo_info 1)), an_root = None, an_handler = None, an_evicted = 0\<rparr>"

definition demo_tables :: "daemon_state \<Rightarrow> go_error option \<times> db" where
  "demo_tables s =
    (case st_pc (hd (ws_settlers (dm_watch s))) of
       Handling v file \<Rightarrow> handle_file (ok_engine 1) 5 0 (watch_of demo_daemon_specs 0) file (dm_db s)
     | _ \<Rightarrow> (None, dm_db s))"

definition demo_turn :: "daemon_state \<Rightarrow> daemon_state" where
  "demo_turn s = s\<lparr>dm_watch := run_settler (watch_of demo_daemon_specs) demo_settled 0 (dm_watch s), dm_db := snd (demo_tables s)\<rparr>"

fun demo_daemon :: "nat \<Rightarrow> daemon_state" where
  "demo_daemon 0 = \<lparr>dm_watch = snd (schedule None 0 ''/in/a'' initial_watch_state), dm_db = empty_db\<rparr>"
| "demo_daemon (Suc n) = demo_turn (demo_daemon n)"

definition demo_ready :: "daemon_state \<Rightarrow> bool" where
  "demo_ready s \<longleftrightarrow> ws_settlers (dm_watch s) \<noteq> [] \<and>
    (let p = settler_path (dm_watch s) (hd (ws_settlers (dm_watch s))) in pf_path p = ''/in/a'' \<and> pf_watch_index p = 0) \<and>
    (case st_pc (hd (ws_settlers (dm_watch s))) of Handling v file \<Rightarrow> fresh_rowid (ok_engine 1) (dm_db s) | _ \<Rightarrow> True) \<and>
    fst (demo_tables s) = None"

lemma demo_turn_step:
  assumes "demo_ready s"
  shows "daemon_step ''/'' demo_digest demo_daemon_specs 0 s (demo_turn s)"
  unfolding demo_turn_def
proof (rule daemon_step.settled)
  let ?g = "ws_settlers (dm_watch s) ! 0"
  have g: "hd (ws_settlers (dm_watch s)) = ?g" using assms by (simp add: demo_ready_def hd_conv_nth)
  have p: "pf_path (ws_heap (dm_watch s) (st_ptr ?g)) = ''/in/a''" "pf_watch_index (ws_heap (dm_watch s) (st_ptr ?g)) = 0"
    using assms g by (simp_all add: demo_ready_def Let_def settler_path_def)
  show "0 < length (ws_settlers (dm_watch s))" using assms by (simp add: demo_ready_def)
  show "?g = ?g" ..
  have "w_settle_for (watch_of demo_daemon_specs 0) = 0" by code_simp
  moreover have "wait_stable demo_digest ''/'' None ''/in/a'' 0 (Inr (demo_info 1)) 0 [] = Some (an_stable demo_settled)"
    by code_simp
  ultimately show "stable_answer ''/'' demo_digest demo_daemon_specs ?g (dm_watch s) demo_settled"
    unfolding stable_answer_def Let_def p by metis
  show "handler_effect demo_daemon_specs 0 (ok_engine 1) 5 ?g (dm_watch s) demo_settled (dm_db s) (snd (demo_tables s))"
    using assms unfolding handler_effect_def p(2)
    by (cases "st_pc ?g") (auto simp: demo_ready_def demo_tables_def g demo_settled_def prod_eq_iff)
qed

lemma demo_daemon_ready: "demo_ready (demo_daemon 0)" "demo_ready (demo_daemon 1)" "demo_ready (demo_daemon 2)"
  "demo_ready (demo_daemon 3)" "demo_ready (demo_daemon 4)" "demo_ready (demo_daemon 5)"
  by code_simp+

lemma demo_daemon_reachable: "daemon_reachable ''/'' demo_digest demo_daemon_specs 0 empty_db (demo_daemon 6)"
proof -
  let ?R = "daemon_reachable ''/'' demo_digest demo_daemon_specs 0 empty_db"
  let ?s = "\<lparr>dm_watch = initial_watch_state, dm_db = empty_db\<rparr>"
  have "?R ?s" by (rule daemon_reachable.start)
  moreover have "daemon_step ''/'' demo_digest demo_daemon_specs 0 ?s (?s\<lparr>dm_watch := snd (schedule None 0 ''/in/a'' (dm_watch ?s))\<rparr>)"
  proof (rule daemon_step.notified)
    show "0 < length demo_daemon_specs" by code_simp
    show "is_abs ''/in/a''" by (simp add: is_abs_def)
    show "watch_match ''/'' (with_root (demo_daemon_specs ! 0)) ''/in/a''" by code_simp
  qed
  ultimately have "?R (demo_daemon 0)" using daemon_reachable.step by fastforce
  moreover have "?R (demo_daemon (Suc n))" if "?R (demo_daemon n)" and "demo_ready (demo_daemon n)" for n
    using daemon_reachable.step[OF that(1) demo_turn_step[OF that(2)]] by simp
  ultimately show "?R (demo_daemon 6)" using demo_daemon_ready by (simp only: eval_nat_numeral One_nat_def BitM.simps)
qed

lemma demo_daemon_end:
  "ws_delivered (dm_watch (demo_daemon 6)) = [(pending_key 0 ''/in/a'', ''f'')] \<and>
    map (\<lambda>r. (j_watch_name r, j_path r)) (jobs (dm_db (demo_daemon 6))) = [(''w'', ''/in/a'')]"
  by code_simp

section \<open>From a file to a job\<close>

text \<open>C2: A file that the watcher remembers as delivered has its job: in every state a daemon reaches, whatever
  the order of notifications, goroutines and workers, each remembered entry belongs to a watch and a file that
  the watch selects, and the queue has the job of that watch, path and fingerprint (one constant fingerprint
  when the watch does not reprocess changed files). So the in-memory cache never suppresses a file whose job
  was not stored.\<close>

theorem delivered_file_has_job:
  assumes "daemon_reachable cwd digest specs retries d s" and "reachable d"
    and "(key, fingerprint) \<in> set (ws_delivered (dm_watch s))"
  shows "\<exists>i f r. selected cwd specs i f \<and> key = pending_key i f \<and> r \<in> set (jobs (dm_db s)) \<and>
    j_watch_name r = w_name (watch_of specs i) \<and> j_path r = f \<and>
    j_fingerprint r = (if w_reprocess_on_change (watch_of specs i) then fingerprint else single_version_fingerprint)"
proof -
  have "delivered_ok cwd specs s" using daemon_reachable_inv[OF assms(1,2)] by (simp add: daemon_inv_def)
  then obtain i f where f: "selected cwd specs i f" "key = pending_key i f"
    and "file_key (watch_of specs i) f fingerprint \<in> job_keys (dm_db s)"
    using assms(3) unfolding delivered_ok_def by force
  then show ?thesis by (fastforce simp: job_keys_def file_key_def job_key_def)
qed

theorem delivered_file_has_job_witness: "\<exists>r \<in> set (jobs (dm_db (demo_daemon 6))). j_fingerprint r = single_version_fingerprint"
proof -
  have "w_reprocess_on_change (watch_of demo_daemon_specs 0) = False" by code_simp
  moreover have "(pending_key 0 ''/in/a'', ''f'') \<in> set (ws_delivered (dm_watch (demo_daemon 6)))"
    by (simp only: demo_daemon_end list.set insert_iff simp_thms)
  from delivered_file_has_job[OF demo_daemon_reachable reachable_empty this]
  obtain i f r where r: "selected ''/'' demo_daemon_specs i f" "r \<in> set (jobs (dm_db (demo_daemon 6)))"
    "j_fingerprint r = (if w_reprocess_on_change (watch_of demo_daemon_specs i) then ''f'' else single_version_fingerprint)" by blast
  moreover have "length demo_daemon_specs = 1" by (simp add: demo_daemon_specs_def new_specs_def demo_watches_def)
  then have "i = 0" using r(1) by (simp add: selected_def)
  ultimately show ?thesis by auto
qed



text \<open>Rediscovery adds no job: once the handler accepted a file, it accepts the same path of the same watch
  again, after any further calls of the store (a restart of the daemon included), and changes nothing; for a
  watch that does not reprocess changed files this holds whatever the fingerprint is now.\<close>

theorem rediscovered_file_adds_nothing:
  assumes "reachable d" and "fresh_rowid e d" and "handle_file e now n watch file d = (None, d1)"
    and "store_steps d1 cs d2" and "reply e' = (\<lambda>_. None)" and "0 \<le> m" and "wf_path again = wf_path file"
    and "w_reprocess_on_change watch \<Longrightarrow> wf_fingerprint again = wf_fingerprint file"
  shows "handle_file e' now' m watch again d2 = (None, d2)"
proof -
  obtain x where "enqueue e now (file_params n watch file) d = (Inr x, d1)"
    using assms(3) by (auto simp: handle_file_def split: prod.splits sum.splits)
  then obtain j created where made: "enqueue e now (file_params n watch file) d = (Inr (j, created), d1)" by (cases x) simp
  have "file_params m watch again = file_params n watch file\<lparr>p_max_retries := m, p_available_at := zero_time\<rparr>"
    using assms(7,8) by (simp add: file_params_def)
  then show ?thesis using enqueue_again[OF assms(1,2) made assms(4-6), of now' zero_time] by (auto simp: handle_file_def)
qed

lemma demo_handled: "fst (handle_file (ok_engine 1) 5 0 demo_watch demo_file empty_db) = None"
  by code_simp

theorem rediscovered_file_adds_nothing_witness:
  "\<exists>d. handle_file (ok_engine 9) 8 3 demo_watch (demo_file\<lparr>wf_fingerprint := ''g''\<rparr>) d = (None, d) \<and> fst (handle_file (ok_engine 1) 5 0 demo_watch demo_file empty_db) = None"
proof -
  obtain d where first: "handle_file (ok_engine 1) 5 0 demo_watch demo_file empty_db = (None, d)"
    using demo_handled by (metis prod.collapse)
  have "handle_file (ok_engine 9) 8 3 demo_watch (demo_file\<lparr>wf_fingerprint := ''g''\<rparr>) d = (None, d)"
    by (rule rediscovered_file_adds_nothing[OF reachable_empty demo_fresh(1) first store_steps.none])
      (simp_all add: ok_engine_def demo_watch_def)
  with first show ?thesis by auto
qed

section \<open>Several daemons\<close>

text \<open>C10: No failure of a daemon is hidden by the shutdown of the others: when \<open>RunMany\<close> starts its daemons and
  one of them ends with an error that contains some sentinel (other than the errors of contexts), then it
  returns an error in which \<open>errors.Is\<close> finds this sentinel, in whatever order the daemons end and whatever
  cancellations their siblings report.\<close>

theorem failures_reported:
  assumes "validate_named_configs disk configs = Some (Inr owners)"
    and "a \<in> set arrivals" and "ar_error a = Some e" and "errors_is s e" and "s \<noteq> ''context canceled''"
    and "\<forall>b \<in> set arrivals. ar_parent b \<noteq> Some (Sentinel s)"
  shows "\<exists>r. run_many True True disk configs None arrivals = Some (Some r) \<and> errors_is s r"
  using collect_reports[OF assms(2-4,6,5), of None] assms(1) by (auto simp: run_many_def)

definition demo_disk :: disk where
  "demo_disk =
    (let fs = \<lparr>fs_lstat = (\<lambda>p. Inl (Sentinel ''file does not exist'')), fs_readlink = (\<lambda>p. Inl (Sentinel ''file does not exist'')),
               fs_stat = (\<lambda>p. Inr \<lparr>si_id = length p, si_dir = False\<rparr>)\<rparr> in
     \<lparr>dk_resolve = (\<lambda>i. fs), dk_compare = (\<lambda>k i. (fs, fs, fs, fs)), dk_nfc = (\<lambda>p. p), dk_fold = (\<lambda>p q. p = q), dk_cwd = ''/''\<rparr>)"

definition demo_named :: "named_config list" where
  "demo_named = [\<lparr>nc_path = ''a.yaml'', nc_config = Some demo_config\<rparr>,
    \<lparr>nc_path = ''b.yaml'', nc_config = Some (demo_config\<lparr>d_path := ''other.db''\<rparr>)\<rparr>]"

lemma demo_named_ok: "validate_named_configs demo_disk demo_named = Some (Inr [(''a.yaml'', ''/q.db''), (''b.yaml'', ''/other.db'')])"
  by code_simp

theorem failures_reported_witness:
  "\<exists>r. run_many True True demo_disk demo_named None
      [\<lparr>ar_path = ''a.yaml'', ar_error = Some err_canceled, ar_parent = Some err_canceled\<rparr>,
       \<lparr>ar_path = ''b.yaml'', ar_error = Some (wrapf ''daemon: '' err_watch_root_lost), ar_parent = Some err_canceled\<rparr>] = Some (Some r) \<and>
    errors_is ''configured watch root was removed or renamed'' r"
  by (rule failures_reported[OF demo_named_ok, where e="wrapf ''daemon: '' err_watch_root_lost" and
        a="\<lparr>ar_path = ''b.yaml'', ar_error = Some (wrapf ''daemon: '' err_watch_root_lost), ar_parent = Some err_canceled\<rparr>"])
    (auto simp: err_watch_root_lost_def err_canceled_def)

text \<open>Daemons that run together have databases of their own: when the validation accepts the configurations,
  it resolved every database path, in order, and each pair of them was compared and found to be different
  files.\<close>

theorem databases_not_shared:
  assumes "validate_named_configs disk configs = Some (Inr owners)"
  shows "map fst owners = map nc_path configs \<and> configs \<noteq> [] \<and>
    (\<forall>i < length owners. \<forall>k < i. same_database disk k i (snd (owners ! k)) (snd (owners ! i)) = Some (Inr False))"
  using check_configs_ok[of disk 0 configs "[]" owners] assms
  by (auto simp: validate_named_configs_def pairwise_apart_def split: if_splits)

theorem databases_not_shared_witness: "same_database demo_disk 0 1 ''/q.db'' ''/other.db'' = Some (Inr False)"
  using databases_not_shared[OF demo_named_ok] by fastforce

text \<open>The end of one daemon is judged differently: an error that joins a cancellation with a failure counts as a
  shutdown in \<open>Run\<close>, so \<open>RunMany\<close>, which would report it, never sees it.\<close>

lemma joined_cancellation_hidden:
  "daemon_outcome [(''watcher'', Some (Joined [err_canceled, e])), (''workers'', None)] = None"
  "\<not> is_cancellation_from (ErrorString fs) c \<Longrightarrow> \<not> is_cancellation_from (Joined [err_canceled, ErrorString fs]) c"
  by (simp add: err_canceled_def) (cases c; simp)

end
