(* ===== verification/WebNet.thy ===== *)
theory WebNet
  imports ManagerNames
begin

text \<open>
  What the web interface uses of Go's packages \<open>net\<close>, \<open>net/url\<close>, \<open>net/http\<close> and \<open>strconv\<close>: host and port,
  IP addresses in text, the escapes and the cleaning of a request's path, integers and booleans in a query.
\<close>

section \<open>Host and port\<close>

abbreviation colon :: char where "colon \<equiv> CHR '':''"
abbreviation open_bracket :: char where "open_bracket \<equiv> CHR ''[''"
abbreviation close_bracket :: char where "close_bracket \<equiv> CHR '']''"

definition address_error :: "string \<Rightarrow> string \<Rightarrow> go_error" where
  "address_error address what =
    ErrorString (if address = [] then [T what] else [T ''address '', T address, T '': '', T what])"

definition upto_last :: "char \<Rightarrow> string \<Rightarrow> string" where
  "upto_last c s = rev (tl (dropWhile (\<lambda>x. x \<noteq> c) (rev s)))"

definition after_last :: "char \<Rightarrow> string \<Rightarrow> string" where
  "after_last c s = rev (takeWhile (\<lambda>x. x \<noteq> c) (rev s))"

text \<open>\<open>net.SplitHostPort\<close>: the port follows the last colon; a bracketed host may hold colons.\<close>

definition split_host_port :: "string \<Rightarrow> (string \<times> string) result" where
  "split_host_port s =
    (if colon \<notin> set s then Inl (address_error s ''missing port in address'')
     else if prefix [open_bracket] s then
       (if close_bracket \<notin> set s then Inl (address_error s ''missing ']' in address'')
        else
          (let host = takeWhile (\<lambda>c. c \<noteq> close_bracket) (tl s); rest = drop (length host + 2) s in
           if rest = [] then Inl (address_error s ''missing port in address'')
           else if hd rest \<noteq> colon then Inl (address_error s ''missing port in address'')
           else if colon \<in> set (tl rest) then Inl (address_error s ''too many colons in address'')
           else if open_bracket \<in> set (tl s) then Inl (address_error s ''unexpected '[' in address'')
           else if close_bracket \<in> set rest then Inl (address_error s ''unexpected ']' in address'')
           else Inr (host, tl rest)))
     else
       (let host = upto_last colon s in
        if colon \<in> set host then Inl (address_error s ''too many colons in address'')
        else if open_bracket \<in> set s then Inl (address_error s ''unexpected '[' in address'')
        else if close_bracket \<in> set s then Inl (address_error s ''unexpected ']' in address'')
        else Inr (host, after_last colon s)))"

section \<open>IP addresses\<close>

definition decimal_digit :: "char \<Rightarrow> bool" where
  "decimal_digit c \<longleftrightarrow> 48 \<le> byte c \<and> byte c \<le> 57"

definition octet :: "string \<Rightarrow> nat option" where
  "octet s =
    (if s \<noteq> [] \<and> list_all decimal_digit s \<and> (length s = 1 \<or> hd s \<noteq> CHR ''0'') \<and> digits_value s \<le> 255
     then Some (digits_value s) else None)"

definition parse_ipv4 :: "string \<Rightarrow> nat list option" where
  "parse_ipv4 s =
    (case map octet (split_char CHR ''.'' s) of
       [Some a, Some b, Some c, Some d] \<Rightarrow> Some [a, b, c, d]
     | _ \<Rightarrow> None)"

definition hex_char_value :: "char \<Rightarrow> nat" where
  "hex_char_value c =
    (if byte c \<le> 57 then byte c - 48 else if byte c \<le> 70 then byte c - 55 else byte c - 87)"

definition hex_number :: "string \<Rightarrow> nat" where
  "hex_number = foldl (\<lambda>a c. a * 16 + hex_char_value c) 0"

text \<open>The loop over the fields of an IPv6 address: the bytes so far, the place of the ellipsis, the text
  that is left. The result is the bytes, the ellipsis, and the text that was not used.\<close>

function ipv6_fields :: "nat list \<Rightarrow> nat option \<Rightarrow> string \<Rightarrow> (nat list \<times> nat option \<times> string) option" where
  "ipv6_fields ip ellipsis s =
    (if 16 \<le> length ip then Some (ip, ellipsis, s)
     else
       (let digits = takeWhile hex_digit s; rest = drop (length digits) s in
        if digits = [] \<or> 4 < length digits then None
        else if prefix ''.'' rest then
          (if (ellipsis = None \<and> length ip \<noteq> 12) \<or> 12 < length ip then None
           else map_option (\<lambda>v4. (ip @ v4, ellipsis, [])) (parse_ipv4 s))
        else
          (let ip' = ip @ [hex_number digits div 256, hex_number digits mod 256] in
           if rest = [] then Some (ip', ellipsis, [])
           else if hd rest \<noteq> colon \<or> tl rest = [] then None
           else if hd (tl rest) = colon then
             (if ellipsis \<noteq> None then None
              else if tl (tl rest) = [] then Some (ip', Some (length ip'), [])
              else ipv6_fields ip' (Some (length ip')) (tl (tl rest)))
           else ipv6_fields ip' ellipsis (tl rest))))"
  by pat_completeness auto
termination by (relation "measure (\<lambda>(ip, e, s). 16 - length ip)") auto

declare ipv6_fields.simps [simp del]

definition parse_ipv6 :: "string \<Rightarrow> nat list option" where
  "parse_ipv6 s =
    (if s = ''::'' then Some (replicate 16 0)
     else
       (case (if prefix ''::'' s then ipv6_fields [] (Some 0) (drop 2 s) else ipv6_fields [] None s) of
          None \<Rightarrow> None
        | Some (ip, ellipsis, rest) \<Rightarrow>
            if rest \<noteq> [] then None
            else if length ip < 16 then
              (case ellipsis of
                 None \<Rightarrow> None
               | Some k \<Rightarrow> Some (take k ip @ replicate (16 - length ip) 0 @ drop k ip))
            else if ellipsis = None then Some ip else None))"

text \<open>\<open>net.ParseIP\<close>: the first dot, colon or percent sign decides, and an address with a zone is none. The
  result has sixteen bytes, an IPv4 address in its mapped form.\<close>

definition parse_ip :: "string \<Rightarrow> nat list option" where
  "parse_ip s =
    (case List.find (\<lambda>c. c = CHR ''.'' \<or> c = colon \<or> c = CHR ''%'') s of
       None \<Rightarrow> None
     | Some c \<Rightarrow>
         if c = CHR ''.'' then map_option (\<lambda>v4. replicate 10 0 @ [255, 255] @ v4) (parse_ipv4 s)
         else if c = colon \<and> CHR ''%'' \<notin> set s then parse_ipv6 s
         else None)"

definition is_v4 :: "nat list \<Rightarrow> bool" where
  "is_v4 ip \<longleftrightarrow> take 12 ip = replicate 10 0 @ [255, 255]"

definition is_loopback :: "nat list \<Rightarrow> bool" where
  "is_loopback ip \<longleftrightarrow> (if is_v4 ip then ip ! 12 = 127 else ip = replicate 15 0 @ [1])"

definition is_unspecified :: "nat list \<Rightarrow> bool" where
  "is_unspecified ip \<longleftrightarrow> ip = replicate 10 0 @ [255, 255, 0, 0, 0, 0] \<or> ip = replicate 16 0"

section \<open>Paths of requests\<close>

text \<open>The escapes of a path; the server answers a path with a malformed one before any handler runs.\<close>

fun path_unescape :: "string \<Rightarrow> string" where
  "path_unescape [] = []"
| "path_unescape (c # a # b # s) =
    (if c = CHR ''%'' \<and> hex_digit a \<and> hex_digit b
     then char_of (hex_char_value a * 16 + hex_char_value b) # path_unescape s
     else c # path_unescape (a # b # s))"
| "path_unescape (c # s) = c # path_unescape s"

text \<open>\<open>cleanPath\<close> of the request multiplexer: a trailing slash stays.\<close>

definition mux_clean :: "string \<Rightarrow> string" where
  "mux_clean p =
    (if p = [] then ''/''
     else
       (let q = (if hd p = slash then p else slash # p); np = clean q in
        if last q = slash \<and> np \<noteq> ''/'' then np @ ''/'' else np))"

section \<open>Numbers and booleans\<close>

definition syntax_error :: "string \<Rightarrow> string \<Rightarrow> go_error" where
  "syntax_error func s = Wrapped [T ''strconv.'', T func, T '': parsing '', Q s, T '': ''] (Sentinel ''invalid syntax'') []"

definition range_error :: "string \<Rightarrow> string \<Rightarrow> go_error" where
  "range_error func s = Wrapped [T ''strconv.'', T func, T '': parsing '', Q s, T '': ''] (Sentinel ''value out of range'') []"

text \<open>\<open>strconv.ParseInt(s, 10, bits)\<close>: the value with the error, clamped when it is out of range.\<close>

definition parse_int :: "nat \<Rightarrow> string \<Rightarrow> int \<times> go_error option" where
  "parse_int bits s =
    (let negative = prefix ''-'' s;
         digits = (if prefix ''-'' s \<or> prefix ''+'' s then tl s else s);
         n = int (digits_value digits) in
     if digits = [] \<or> \<not> list_all decimal_digit digits then (0, Some (syntax_error ''ParseInt'' s))
     else if \<not> negative \<and> 2 ^ (bits - 1) \<le> n then (2 ^ (bits - 1) - 1, Some (range_error ''ParseInt'' s))
     else if negative \<and> 2 ^ (bits - 1) < n then (- (2 ^ (bits - 1)), Some (range_error ''ParseInt'' s))
     else (if negative then - n else n, None))"

definition parse_bool :: "string \<Rightarrow> bool option" where
  "parse_bool s =
    (if s \<in> set [''1'', ''t'', ''T'', ''TRUE'', ''true'', ''True''] then Some True
     else if s \<in> set [''0'', ''f'', ''F'', ''FALSE'', ''false'', ''False''] then Some False
     else None)"

section \<open>Facts\<close>

lemma parse_int_bounds:
  "parse_int bits s = (n, None) \<Longrightarrow> - (2 ^ (bits - 1)) \<le> n \<and> n < 2 ^ (bits - 1)"
  by (auto simp: parse_int_def Let_def split: if_splits intro: order.strict_trans1[of _ 0] order.trans[of _ 0])

lemma octet_bound: "octet s = Some n \<Longrightarrow> n \<le> 255"
  by (auto simp: octet_def split: if_splits)

lemma parse_ipv4_bytes: "parse_ipv4 s = Some ip \<Longrightarrow> length ip = 4 \<and> (\<forall>b \<in> set ip. b \<le> 255)"
  by (auto simp: parse_ipv4_def octet_bound split: list.splits option.splits)

lemma hex_digit_value: "hex_digit c \<Longrightarrow> hex_char_value c < 16"
  by (auto simp: hex_digit_def hex_char_value_def)

lemma hex_number_snoc: "hex_number (s @ [c]) = hex_number s * 16 + hex_char_value c"
  by (simp add: hex_number_def)

lemma hex_number_bound: "list_all hex_digit s \<Longrightarrow> hex_number s < 16 ^ length s"
proof (induction s rule: rev_induct)
  case (snoc c s)
  then have "hex_number s < 16 ^ length s" "hex_char_value c < 16" by (auto simp: hex_digit_value)
  then show ?case by (simp add: hex_number_snoc)
qed (simp add: hex_number_def)

lemma hex_group_byte:
  assumes "list_all hex_digit s" and "length s \<le> 4"
  shows "hex_number s div 256 \<le> 255"
proof -
  have "hex_number s < 16 ^ length s" by (rule hex_number_bound[OF assms(1)])
  also have "\<dots> \<le> 16 ^ 4" using assms(2) by (intro power_increasing) simp_all
  finally show ?thesis by simp
qed

lemma path_unescape_at_slash: "path_unescape (slash # t) = slash # path_unescape t"
  by (cases t; cases "tl t") simp_all

lemma path_unescape_slash: "path_unescape (s @ slash # t) = path_unescape s @ slash # path_unescape t"
proof (induction s rule: path_unescape.induct, goal_cases)
  case 1
  show ?case by (simp add: path_unescape_at_slash)
next
  case (2 c a b s)
  then show ?case by simp
next
  case (3 c)
  have "path_unescape (c # slash # t) = c # path_unescape (slash # t)"
    by (cases t) (simp_all add: hex_digit_def)
  then show ?case by (simp add: path_unescape_at_slash)
next
  case (4 c a)
  then show ?case by (simp add: hex_digit_def path_unescape_at_slash)
qed

end
