(* ===== verification/StoreOpen.thy ===== *)
theory StoreOpen
  imports WebNet QueueStore ConfigPaths
begin

text \<open>
  Opening the queue database (\<open>queue/store.go\<close>): \<open>Open\<close>, which creates it, and \<open>OpenReadOnlyContext\<close>,
  which inspects it, with the address it hands to the driver. What the driver answers is the argument
  \<open>driver\<close>: to opening, to the first connection, and to each statement. The result of an opening says which
  statements were executed and whether the connections are still open.
\<close>

section \<open>The address of a read-only database\<close>

text \<open>\<open>url.URL\<close> escapes a path byte by byte.\<close>

definition path_char :: "char \<Rightarrow> bool" where
  "path_char c \<longleftrightarrow>
    (97 \<le> byte c \<and> byte c \<le> 122) \<or> (65 \<le> byte c \<and> byte c \<le> 90) \<or> decimal_digit c \<or> c \<in> set ''-_.~$&+,/:;=@''"

definition upper_hex :: "nat \<Rightarrow> char" where
  "upper_hex n = (if n < 10 then char_of (48 + n) else char_of (55 + n))"

definition escape_char :: "char \<Rightarrow> string" where
  "escape_char c = (if path_char c then [c] else [CHR ''%'', upper_hex (byte c div 16), upper_hex (byte c mod 16)])"

definition escape_path :: "string \<Rightarrow> string" where
  "escape_path p = concat (map escape_char p)"

definition read_only_dsn :: "string \<Rightarrow> string \<Rightarrow> string" where
  "read_only_dsn cwd p =
    (let cleaned = clean (abs_path cwd p);
         uri_path = (if prefix ''/'' cleaned then cleaned else slash # cleaned) in
     ''file://'' @ escape_path uri_path @ ''?mode=ro'')"

section \<open>Opening\<close>

datatype statement = Pragma string | Schema

record driver =
  dr_open :: "go_error option"
  dr_ping :: "go_error option"
  dr_exec :: "statement \<Rightarrow> go_error option"
  dr_code :: "go_error \<Rightarrow> int option"

text \<open>\<open>CantOpenDatabase\<close> is the error whose text leaves its cause out.\<close>

datatype open_failure = CantOpenDatabase string go_error | OpenFailure go_error

fun open_failure_text :: "(string \<Rightarrow> string) \<Rightarrow> open_failure \<Rightarrow> string" where
  "open_failure_text quote (CantOpenDatabase p cause) =
    ''queue: cannot open or create database '' @ quote p @
    '' (SQLite CANTOPEN); check the database path and permissions''"
| "open_failure_text quote (OpenFailure e) = error_text quote e"

fun open_failure_is :: "string \<Rightarrow> open_failure \<Rightarrow> bool" where
  "open_failure_is s (CantOpenDatabase p cause) = errors_is s cause"
| "open_failure_is s (OpenFailure e) = errors_is s e"

definition sqlite_cant_open :: int where
  "sqlite_cant_open = 14"

definition database_open_error :: "driver \<Rightarrow> string \<Rightarrow> go_error \<Rightarrow> open_failure" where
  "database_open_error dr p e =
    (case dr_code dr e of
       Some code \<Rightarrow>
         if code mod 256 = sqlite_cant_open then CantOpenDatabase p e
         else OpenFailure (Wrapped [T ''queue: open database '', Q p, T '': ''] e [])
     | None \<Rightarrow> OpenFailure (Wrapped [T ''queue: open database '', Q p, T '': ''] e []))"

definition validate_database_location :: "file_system \<Rightarrow> string \<Rightarrow> go_error option" where
  "validate_database_location fs p =
    (case fs_stat fs (dir_path p) of
       Inl e \<Rightarrow>
         if not_exist e then Some (Wrapped [T ''queue: database directory '', Q (dir_path p), T '' does not exist: ''] e [])
         else Some (Wrapped [T ''queue: inspect database directory '', Q (dir_path p), T '': ''] e [])
     | Inr directory \<Rightarrow>
         if \<not> si_dir directory then Some (ErrorString [T ''queue: database directory '', Q (dir_path p), T '' is not a directory''])
         else
           (case fs_stat fs p of
              Inr info \<Rightarrow> if si_dir info then Some (ErrorString [T ''queue: database path '', Q p, T '' is a directory'']) else None
            | Inl e \<Rightarrow>
                if \<not> not_exist e then Some (Wrapped [T ''queue: inspect database path '', Q p, T '': ''] e []) else None))"

text \<open>The statements executed until one fails.\<close>

fun exec_all :: "(statement \<Rightarrow> go_error option) \<Rightarrow> statement list \<Rightarrow> statement list \<times> (statement \<times> go_error) option" where
  "exec_all exec [] = ([], None)"
| "exec_all exec (s # ss) =
    (case exec s of
       Some e \<Rightarrow> ([s], Some (s, e))
     | None \<Rightarrow> (case exec_all exec ss of (executed, failed) \<Rightarrow> (s # executed, failed)))"

record connection =
  op_failure :: "open_failure option"
  op_executed :: "statement list"
  op_connected :: bool

definition refused :: "open_failure \<Rightarrow> connection" where
  "refused e = \<lparr>op_failure = Some e, op_executed = [], op_connected = False\<rparr>"

definition open_statements :: "statement list" where
  "open_statements =
    [Pragma ''busy_timeout = 5000'', Pragma ''foreign_keys = ON'', Pragma ''journal_mode = WAL'',
     Pragma ''synchronous = NORMAL'', Schema]"

definition open_error :: "string \<Rightarrow> statement \<Rightarrow> go_error \<Rightarrow> go_error" where
  "open_error p s e =
    (if s = Schema then Wrapped [T ''queue: initialize database '', Q p, T '' schema: ''] e []
     else Wrapped [T ''queue: configure database '', Q p, T '': ''] e [])"

definition open_store :: "file_system \<Rightarrow> driver \<Rightarrow> string \<Rightarrow> connection" where
  "open_store fs dr p =
    (if blank p then refused (OpenFailure (new_error ''queue: database path is empty''))
     else
       (case validate_database_location fs p of
          Some e \<Rightarrow> refused (OpenFailure e)
        | None \<Rightarrow>
       (case dr_open dr of
          Some e \<Rightarrow> refused (database_open_error dr p e)
        | None \<Rightarrow>
       (case dr_ping dr of
          Some e \<Rightarrow> refused (database_open_error dr p e)
        | None \<Rightarrow>
       (case exec_all (dr_exec dr) open_statements of
          (executed, Some (s, e)) \<Rightarrow>
            \<lparr>op_failure = Some (OpenFailure (open_error p s e)), op_executed = executed, op_connected = False\<rparr>
        | (executed, None) \<Rightarrow> \<lparr>op_failure = None, op_executed = executed, op_connected = True\<rparr>)))))"

definition read_only_statements :: "statement list" where
  "read_only_statements =
    [Pragma ''busy_timeout = 5000'', Pragma ''foreign_keys = ON'', Pragma ''query_only = ON'']"

definition open_read_only :: "driver \<Rightarrow> string \<Rightarrow> connection" where
  "open_read_only dr p =
    (if blank p then refused (OpenFailure (new_error ''queue: database path is empty''))
     else
       (case dr_open dr of
          Some e \<Rightarrow> refused (OpenFailure (wrapf ''queue: open read-only database: '' e))
        | None \<Rightarrow>
       (case dr_ping dr of
          Some e \<Rightarrow> refused (OpenFailure (wrapf ''queue: connect read-only database: '' e))
        | None \<Rightarrow>
       (case exec_all (dr_exec dr) read_only_statements of
          (executed, Some (s, e)) \<Rightarrow>
            \<lparr>op_failure = Some (OpenFailure (wrapf ''queue: configure read-only database: '' e)),
             op_executed = executed, op_connected = False\<rparr>
        | (executed, None) \<Rightarrow> \<lparr>op_failure = None, op_executed = executed, op_connected = True\<rparr>))))"

section \<open>Facts\<close>

lemma upper_hex_digit: "n < 16 \<Longrightarrow> ManagerNames.hex_digit (upper_hex n) \<and> hex_char_value (upper_hex n) = n"
  by (auto simp: upper_hex_def ManagerNames.hex_digit_def hex_char_value_def)

lemma path_char_plain: "path_char c \<Longrightarrow> c \<noteq> CHR ''%'' \<and> c \<noteq> CHR ''?'' \<and> c \<noteq> CHR ''#''"
  by (auto simp: path_char_def decimal_digit_def)

lemma path_unescape_plain: "c \<noteq> CHR ''%'' \<Longrightarrow> path_unescape (c # s) = c # path_unescape s"
  by (cases s; cases "tl s") simp_all

lemma path_unescape_char: "path_unescape (escape_char c @ s) = c # path_unescape s"
proof (cases "path_char c")
  case True
  then show ?thesis using path_char_plain[OF True] by (simp add: escape_char_def path_unescape_plain)
next
  case False
  have "byte c < 256" by simp
  then have "byte c div 16 < 16" "byte c mod 16 < 16" by (simp_all add: less_mult_imp_div_less)
  with upper_hex_digit[of "byte c div 16"] upper_hex_digit[of "byte c mod 16"] False show ?thesis
    by (simp add: escape_char_def)
qed

lemma path_unescape_escape: "path_unescape (escape_path p) = p"
  by (induction p) (simp_all add: escape_path_def path_unescape_char)

lemma escape_path_chars: "c \<in> set (escape_path p) \<Longrightarrow> c \<noteq> CHR ''?'' \<and> c \<noteq> CHR ''#''"
proof -
  assume "c \<in> set (escape_path p)"
  then obtain d where "c \<in> set (escape_char d)" by (auto simp: escape_path_def)
  moreover have "upper_hex n \<noteq> CHR ''?''" "upper_hex n \<noteq> CHR ''#''" if "n < 16" for n
    using upper_hex_digit[OF that] by (auto simp: ManagerNames.hex_digit_def)
  moreover have "byte d div 16 < 16" "byte d mod 16 < 16" by (simp_all add: less_mult_imp_div_less)
  ultimately show ?thesis using path_char_plain[of d] by (auto simp: escape_char_def split: if_splits)
qed

lemma exec_all_prefix: "exec_all exec ss = (executed, failed) \<Longrightarrow> prefix executed ss"
  by (induction ss arbitrary: executed) (auto split: option.splits prod.splits)

lemma exec_all_ok: "exec_all exec ss = (executed, None) \<Longrightarrow> executed = ss \<and> (\<forall>s \<in> set ss. exec s = None)"
  by (induction ss arbitrary: executed) (auto split: option.splits prod.splits)

lemma open_store_connected:
  "(op_connected (open_store fs dr p) \<longleftrightarrow> op_failure (open_store fs dr p) = None) \<and>
   (op_executed (open_store fs dr p) \<noteq> [] \<longrightarrow> validate_database_location fs p = None)"
  by (auto simp: open_store_def refused_def split: option.splits prod.splits)

lemma open_read_only_connected:
  "(op_connected (open_read_only dr p) \<longleftrightarrow> op_failure (open_read_only dr p) = None) \<and>
   set (op_executed (open_read_only dr p)) \<subseteq> set read_only_statements"
  using exec_all_prefix[of "dr_exec dr" read_only_statements, THEN set_mono_prefix]
  by (auto simp: open_read_only_def refused_def split: option.splits prod.splits)

lemma read_only_dsn_path:
  assumes "is_abs cwd"
  shows "\<exists>e. read_only_dsn cwd p = ''file://'' @ e @ ''?mode=ro'' \<and> CHR ''?'' \<notin> set e \<and> CHR ''#'' \<notin> set e \<and>
    path_unescape e = clean (abs_path cwd p)"
proof -
  have "is_abs (abs_path cwd p)" 
    using assms clean_is_abs[of p] clean_is_abs[of cwd] clean_is_abs[of "cwd @ slash # p"]
    by (auto simp: abs_path_def join_path_def is_abs_def)
  then have "is_abs (clean (abs_path cwd p))" by simp
  then have "read_only_dsn cwd p = ''file://'' @ escape_path (clean (abs_path cwd p)) @ ''?mode=ro''"
    by (simp add: read_only_dsn_def is_abs_def Let_def)
  moreover have "CHR ''?'' \<notin> set (escape_path q)" "CHR ''#'' \<notin> set (escape_path q)" for q
    using escape_path_chars by blast+
  ultimately show ?thesis using path_unescape_escape by blast
qed



end
