(* ===== verification/WebApi.thy ===== *)
theory WebApi
  imports StoreOpen QueueHistory ManagerProps
begin

text \<open>
  The JSON API of the web interface (\<open>webui/api.go\<close>): what each handler answers, and when it asks the
  supervisor to start or stop something. A handler reads the supervisor (\<open>known_queues\<close>, \<open>list_instances\<close>)
  and the queue databases, which other processes change between any two of its queries. \<open>web_env\<close> holds what a
  handler sees of its surroundings: files and their contents, the context of the request, the clock, and what
  the parsers of the standard library say of text that is not plain.
\<close>

section \<open>Requests and answers\<close>

text \<open>A database file: \<open>RegularFile\<close> has what the driver answers and the tables each query finds.\<close>

datatype database_file = NoFile | StatFails go_error | Irregular | RegularFile driver "nat \<Rightarrow> db"

record web_env =
  we_equal_fold :: "string \<Rightarrow> string \<Rightarrow> bool"
  we_upper :: "string \<Rightarrow> string"
  we_quote :: "string \<Rightarrow> string"
  we_sha256 :: "string \<Rightarrow> string"
  we_media_type :: "string \<Rightarrow> string result"
  we_url_parts :: "string \<Rightarrow> (string \<times> string) result"
  we_json_error :: "string \<Rightarrow> go_error"
  we_trailing_error :: "string \<Rightarrow> go_error option"
  we_duration_text :: "duration \<Rightarrow> string"
  we_now :: time
  we_ctx :: "nat \<Rightarrow> go_error option"
  we_file :: "string \<Rightarrow> database_file"
  we_engine :: "nat \<Rightarrow> engine"
  we_close :: "go_error option"

text \<open>\<open>rq_path\<close> is the escaped path; \<open>rq_header\<close> is the first value of a header, empty without one.\<close>

record web_request =
  rq_method :: string
  rq_path :: string
  rq_query :: "(string \<times> string) list"
  rq_host :: string
  rq_header :: "string \<Rightarrow> string"
  rq_body :: string

record queue_summary =
  qs_id :: string
  qs_display_name :: string
  qs_config_path :: string
  qs_config_hash :: string
  qs_database_path :: string
  qs_watches :: "string list"
  qs_database_state :: string
  qs_counts :: queue_counts
  qs_active :: "instance_view option"
  qs_error :: string

record job_view =
  wj_id :: int
  wj_watch_name :: string
  wj_path :: string
  wj_fingerprint :: string
  wj_status :: status
  wj_attempts :: int
  wj_max_retries :: int
  wj_available_at :: int
  wj_last_error :: string
  wj_created_at :: int
  wj_updated_at :: int
  wj_started_at :: "int option"
  wj_finished_at :: "int option"

record command_view =
  wc_id :: int
  wc_sequence :: int
  wc_name :: string
  wc_program :: string
  wc_args :: "string list"
  wc_working_dir :: string
  wc_timeout :: string
  wc_status :: command_status
  wc_exit_code :: "int option"
  wc_error :: string
  wc_started_at :: int
  wc_finished_at :: "int option"
  wc_stdout_bytes :: int
  wc_stderr_bytes :: int

record run_view =
  wr_id :: int
  wr_attempt :: int
  wr_status :: status
  wr_error :: string
  wr_started_at :: int
  wr_finished_at :: "int option"
  wr_commands :: "command_view list"

datatype web_body =
    InfoBody string
  | QueuesBody "queue_summary list" time
  | InstancesBody "instance_view list" time
  | JobsBody "job_view list" int int bool time
  | JobBody job_view "run_view list"
  | OutputBody int string string
  | InstanceBody instance_view
  | ErrorBody string string
  | TextBody string
  | FileBody string
  | IndexBody
  | LocationBody string

record web_response =
  ws_status :: nat
  ws_headers :: "(string \<times> string) list"
  ws_body :: web_body

text \<open>What a handler comes to: an answer, a call of the supervisor it waits for, or, when the client has
  gone, nothing.\<close>

datatype web_action = Reply web_response | StartQueue known_queue | StopInstance string | NoReply

definition write_json :: "nat \<Rightarrow> web_body \<Rightarrow> web_response" where
  "write_json status body =
    \<lparr>ws_status = status,
     ws_headers = [(''Cache-Control'', ''no-store''), (''Content-Type'', ''application/json; charset=utf-8'')],
     ws_body = body\<rparr>"

definition write_api_error :: "nat \<Rightarrow> string \<Rightarrow> string \<Rightarrow> web_response" where
  "write_api_error status code message = write_json status (ErrorBody code message)"

section \<open>Queues\<close>

definition err_queue_uninitialized :: go_error where
  "err_queue_uninitialized = Sentinel ''queue database has not been created''"

definition hex_encode :: "string \<Rightarrow> string" where
  "hex_encode s = concat (map (\<lambda>c. [QueueStore.hex_digit (byte c div 16), QueueStore.hex_digit (byte c mod 16)]) s)"

definition queue_id :: "web_env \<Rightarrow> string \<Rightarrow> string" where
  "queue_id env identity = hex_encode (we_sha256 env identity)"

definition display_name :: "string \<Rightarrow> string" where
  "display_name config_path = (let name = base_path config_path in trim_suffix (ext_path name) name)"

definition resolve_queue :: "web_env \<Rightarrow> manager \<Rightarrow> string \<Rightarrow> known_queue option" where
  "resolve_queue env m x = List.find (\<lambda>k. queue_id env (kq_identity k) = x) (known_queues m)"

definition known_queue_paths :: "known_queue \<Rightarrow> string list" where
  "known_queue_paths k =
    foldl (\<lambda>paths p. if \<not> blank p \<and> p \<notin> set paths then paths @ [p] else paths) []
      (kq_database_path k # kq_identity k # kq_database_aliases k)"

text \<open>The loop of \<open>openKnownQueue\<close>: the first path that exists decides.\<close>

fun open_paths :: "web_env \<Rightarrow> nat \<Rightarrow> string list \<Rightarrow> open_failure + (nat \<Rightarrow> db)" where
  "open_paths env i [] = Inl (OpenFailure err_queue_uninitialized)"
| "open_paths env i (p # ps) =
    (case we_ctx env i of
       Some e \<Rightarrow> Inl (OpenFailure e)
     | None \<Rightarrow>
    (case we_file env p of
       NoFile \<Rightarrow> open_paths env (Suc i) ps
     | StatFails e \<Rightarrow> Inl (OpenFailure (wrapf ''inspect queue database: '' e))
     | Irregular \<Rightarrow> Inl (OpenFailure (new_error ''queue database is not a regular file''))
     | RegularFile dr contents \<Rightarrow>
         (case op_failure (open_read_only dr p) of
            Some e \<Rightarrow> Inl e
          | None \<Rightarrow> Inr contents)))"

definition open_known_queue :: "web_env \<Rightarrow> known_queue \<Rightarrow> open_failure + (nat \<Rightarrow> db)" where
  "open_known_queue env k = open_paths env 0 (known_queue_paths k)"

definition write_queue_unavailable :: "web_env \<Rightarrow> open_failure \<Rightarrow> web_response" where
  "write_queue_unavailable env e =
    (if open_failure_is ''queue database has not been created'' e
     then write_api_error 409 ''queue_uninitialized'' ''Queue has not been created yet''
     else write_api_error 503 ''queue_unavailable'' (open_failure_text (we_quote env) e))"

definition queue_unavailable :: "web_env \<Rightarrow> go_error \<Rightarrow> web_response" where
  "queue_unavailable env e = write_api_error 503 ''queue_unavailable'' (error_text (we_quote env) e)"

section \<open>The overview\<close>

definition zero_counts :: queue_counts where
  "zero_counts = \<lparr>n_queued = 0, n_running = 0, n_succeeded = 0, n_failed = 0, n_total = 0\<rparr>"

definition initial_summary :: "web_env \<Rightarrow> (string \<times> instance_view) list \<Rightarrow> known_queue \<Rightarrow> queue_summary" where
  "initial_summary env active k =
    \<lparr>qs_id = queue_id env (kq_identity k), qs_display_name = display_name (kq_config_path k),
     qs_config_path = kq_config_path k, qs_config_hash = kq_config_hash k,
     qs_database_path = kq_database_path k, qs_watches = kq_watch_names k,
     qs_database_state = ''unavailable'', qs_counts = zero_counts,
     qs_active = Option.bind (List.find (\<lambda>p. map_of active p \<noteq> None) (known_queue_paths k)) (map_of active),
     qs_error = ''Queue summary was not read before the dashboard deadline''\<rparr>"

definition populate_queue_summary :: "web_env \<Rightarrow> known_queue \<Rightarrow> queue_summary \<Rightarrow> queue_summary" where
  "populate_queue_summary env k summary =
    (case open_known_queue env k of
       Inl e \<Rightarrow>
         if open_failure_is ''queue database has not been created'' e
         then summary\<lparr>qs_database_state := ''missing'', qs_error := ''Queue has not been created yet''\<rparr>
         else if open_failure_is ''context deadline exceeded'' e
         then summary\<lparr>qs_database_state := ''unavailable'', qs_error := ''Queue summary timed out''\<rparr>
         else summary\<lparr>qs_database_state := ''unavailable'', qs_error := open_failure_text (we_quote env) e\<rparr>
     | Inr contents \<Rightarrow>
         (case (counts (we_engine env 0) (contents 0), we_close env) of
            (Inr c, None) \<Rightarrow> summary\<lparr>qs_database_state := ''ready'', qs_error := [], qs_counts := c\<rparr>
          | (read, closed) \<Rightarrow>
              (let failed = errors_join [case read of Inl e \<Rightarrow> Some e | Inr c \<Rightarrow> None, closed] in
               summary\<lparr>qs_database_state := ''unavailable'',
                 qs_error := (case failed of Some e \<Rightarrow> error_text (we_quote env) e | None \<Rightarrow> [])\<rparr>)))"

text \<open>\<open>envs\<close> gives each queue that a worker took before the deadline the surroundings it was read in;
  \<open>m1\<close> and \<open>m2\<close> are the supervisor at its two calls.\<close>

definition active_by_database :: "manager \<Rightarrow> (string \<times> instance_view) list" where
  "active_by_database m = rev (map (\<lambda>v. (iv_database_path v, v)) (list_instances m False))"

definition handle_queues ::
  "web_env \<Rightarrow> (nat \<Rightarrow> web_env option) \<Rightarrow> bool \<Rightarrow> manager \<Rightarrow> manager \<Rightarrow> web_action" where
  "handle_queues env envs gone m1 m2 =
    (let known = known_queues m1;
         summary = (\<lambda>(i, k). let initial = initial_summary env (active_by_database m2) k in
           case envs i of None \<Rightarrow> initial | Some e \<Rightarrow> populate_queue_summary e k initial) in
     if gone then NoReply
     else Reply (write_json 200 (QueuesBody (map summary (List.enumerate 0 known)) (we_now env))))"

section \<open>Instances and information\<close>

definition query_value :: "web_request \<Rightarrow> string \<Rightarrow> string" where
  "query_value r k = (case map_of (rq_query r) k of Some v \<Rightarrow> v | None \<Rightarrow> [])"

definition handle_info :: "string \<Rightarrow> web_action" where
  "handle_info version = Reply (write_json 200 (InfoBody version))"

definition handle_instances :: "web_env \<Rightarrow> manager \<Rightarrow> web_request \<Rightarrow> web_action" where
  "handle_instances env m r =
    (let v = query_value r ''all'' in
     case (if v = [] then Some True else parse_bool v) of
       None \<Rightarrow> Reply (write_api_error 400 ''invalid_request'' (''invalid all value '' @ we_quote env v))
     | Some all \<Rightarrow> Reply (write_json 200 (InstancesBody (list_instances m all) (we_now env))))"

section \<open>Jobs\<close>

definition default_job_limit :: int where "default_job_limit = 50"
definition maximum_job_limit :: int where "maximum_job_limit = 200"

definition to_upper :: "(string \<Rightarrow> string) \<Rightarrow> string \<Rightarrow> string" where
  "to_upper upper s =
    (if list_all (\<lambda>c. byte c < 128) s
     then map (\<lambda>c. if 97 \<le> byte c \<and> byte c \<le> 122 then char_of (byte c - 32) else c) s else upper s)"

definition query_integer :: "web_request \<Rightarrow> string \<Rightarrow> int \<Rightarrow> int \<times> go_error option" where
  "query_integer r k fallback =
    (if query_value r k = [] then (fallback, None) else parse_int 32 (query_value r k))"

definition job_filter_of :: "web_env \<Rightarrow> web_request \<Rightarrow> (job_filter \<times> int \<times> int) result" where
  "job_filter_of env r =
    (let status_text = trim_space (query_value r ''status'');
         wanted = to_upper (we_upper env) status_text;
         watch = trim_space (query_value r ''watch'') in
     if status_text \<noteq> [] \<and> \<not> valid_status wanted then Inl (ErrorString [T ''unknown job status '', Q status_text])
     else if 256 < length watch then Inl (new_error ''watch filter is too long'')
     else
       (case query_integer r ''limit'' default_job_limit of
          (limit, failed) \<Rightarrow>
        if failed \<noteq> None \<or> limit \<le> 0 \<or> maximum_job_limit < limit
        then Inl (ErrorString [T ''limit must be between 1 and '', D maximum_job_limit])
        else
          (case query_integer r ''offset'' 0 of
             (offset, failed) \<Rightarrow>
           if failed \<noteq> None \<or> offset < 0 then Inl (new_error ''offset must be a non-negative integer'')
           else Inr (\<lparr>f_status = (if status_text = [] then [] else wanted), f_watch_name = watch,
                      f_limit = 0, f_offset = 0\<rparr>, limit, offset))))"

definition positive_id :: "string \<Rightarrow> string \<Rightarrow> int result" where
  "positive_id v kind =
    (case parse_int 64 v of
       (n, failed) \<Rightarrow>
     if failed \<noteq> None \<or> n \<le> 0 then Inl (ErrorString [T ''invalid '', T kind, T '' ID '', Q v]) else Inr n)"

definition to_job_view :: "job \<Rightarrow> bool \<Rightarrow> job_view" where
  "to_job_view j include_fingerprint =
    \<lparr>wj_id = j_id j, wj_watch_name = j_watch_name j, wj_path = j_path j,
     wj_fingerprint = (if include_fingerprint then j_fingerprint j else []), wj_status = j_status j,
     wj_attempts = j_attempts j, wj_max_retries = j_max_retries j, wj_available_at = j_available_at j,
     wj_last_error = j_last_error j, wj_created_at = j_created_at j, wj_updated_at = j_updated_at j,
     wj_started_at = j_started_at j, wj_finished_at = j_finished_at j\<rparr>"

definition queue_not_found :: web_action where
  "queue_not_found = Reply (write_api_error 404 ''queue_not_found'' ''Queue not found'')"

definition invalid_request :: "web_env \<Rightarrow> go_error \<Rightarrow> web_action" where
  "invalid_request env e = Reply (write_api_error 400 ''invalid_request'' (error_text (we_quote env) e))"

definition handle_jobs :: "web_env \<Rightarrow> manager \<Rightarrow> string \<Rightarrow> web_request \<Rightarrow> web_action" where
  "handle_jobs env m queue_text r =
    (case resolve_queue env m queue_text of
       None \<Rightarrow> queue_not_found
     | Some known \<Rightarrow>
    (case job_filter_of env r of
       Inl e \<Rightarrow> invalid_request env e
     | Inr (selection, limit, offset) \<Rightarrow>
    (case open_known_queue env known of
       Inl e \<Rightarrow> Reply (write_queue_unavailable env e)
     | Inr contents \<Rightarrow>
    (case list_jobs (we_engine env 0) (selection\<lparr>f_limit := limit + 1, f_offset := offset\<rparr>) (contents 0) of
       Inl e \<Rightarrow> Reply (queue_unavailable env e)
     | Inr found \<Rightarrow>
         (let has_more = limit < int (length found);
              page = (if has_more then take (nat limit) found else found) in
          Reply (write_json 200
            (JobsBody (map (\<lambda>j. to_job_view j False) page) limit offset has_more (we_now env))))))))"

section \<open>One job\<close>

definition to_command_view :: "web_env \<Rightarrow> command_summary \<Rightarrow> command_view" where
  "to_command_view env c =
    \<lparr>wc_id = su_id c, wc_sequence = su_sequence c, wc_name = su_name c, wc_program = su_program c,
     wc_args = su_args c, wc_working_dir = su_working_dir c, wc_timeout = we_duration_text env (su_timeout c),
     wc_status = su_status c, wc_exit_code = su_exit_code c, wc_error = su_error c,
     wc_started_at = su_started_at c, wc_finished_at = su_finished_at c,
     wc_stdout_bytes = su_stdout_bytes c, wc_stderr_bytes = su_stderr_bytes c\<rparr>"

text \<open>The commands of each run; the query of run \<open>k\<close> finds the tables \<open>contents k\<close>.\<close>

fun run_views :: "web_env \<Rightarrow> (nat \<Rightarrow> db) \<Rightarrow> nat \<Rightarrow> run list \<Rightarrow> run_view list result" where
  "run_views env contents k [] = Inr []"
| "run_views env contents k (r # rs) =
    (case list_command_summaries (we_engine env k) (we_json_error env) (r_id r) (contents k) of
       Inl e \<Rightarrow> Inl e
     | Inr cs \<Rightarrow>
         (case run_views env contents (Suc k) rs of
            Inl e \<Rightarrow> Inl e
          | Inr views \<Rightarrow>
              Inr (\<lparr>wr_id = r_id r, wr_attempt = r_attempt r, wr_status = r_status r, wr_error = r_error r,
                    wr_started_at = r_started_at r, wr_finished_at = r_finished_at r,
                    wr_commands = map (to_command_view env) cs\<rparr> # views)))"

definition handle_job :: "web_env \<Rightarrow> manager \<Rightarrow> string \<Rightarrow> string \<Rightarrow> web_action" where
  "handle_job env m queue_text job_text =
    (case resolve_queue env m queue_text of
       None \<Rightarrow> queue_not_found
     | Some known \<Rightarrow>
    (case positive_id job_text ''job'' of
       Inl e \<Rightarrow> invalid_request env e
     | Inr job_id \<Rightarrow>
    (case open_known_queue env known of
       Inl e \<Rightarrow> Reply (write_queue_unavailable env e)
     | Inr contents \<Rightarrow>
    (case get_job (we_engine env 0) job_id (contents 0) of
       Inl e \<Rightarrow>
         if errors_is ''queue record not found'' e
         then Reply (write_api_error 404 ''job_not_found'' ''Job not found'')
         else Reply (queue_unavailable env e)
     | Inr j \<Rightarrow>
    (case list_runs (we_engine env 1) job_id (contents 1) of
       Inl e \<Rightarrow> Reply (queue_unavailable env e)
     | Inr rs \<Rightarrow>
    (case run_views env contents 2 rs of
       Inl e \<Rightarrow> Reply (queue_unavailable env e)
     | Inr views \<Rightarrow> Reply (write_json 200 (JobBody (to_job_view j True) views))))))))"

definition handle_command_output :: "web_env \<Rightarrow> manager \<Rightarrow> string \<Rightarrow> string \<Rightarrow> web_action" where
  "handle_command_output env m queue_text command_text =
    (case resolve_queue env m queue_text of
       None \<Rightarrow> queue_not_found
     | Some known \<Rightarrow>
    (case positive_id command_text ''command'' of
       Inl e \<Rightarrow> invalid_request env e
     | Inr command_id \<Rightarrow>
    (case open_known_queue env known of
       Inl e \<Rightarrow> Reply (write_queue_unavailable env e)
     | Inr contents \<Rightarrow>
    (case get_command_output (we_engine env 0) command_id (contents 0) of
       Inl e \<Rightarrow>
         if errors_is ''queue record not found'' e
         then Reply (write_api_error 404 ''command_not_found'' ''Command not found'')
         else Reply (queue_unavailable env e)
     | Inr c \<Rightarrow> Reply (write_json 200 (OutputBody (co_id c) (co_stdout c) (co_stderr c)))))))"

section \<open>Starting and stopping\<close>

definition max_mutation_body :: nat where "max_mutation_body = 1024"

definition json_space :: "char \<Rightarrow> bool" where
  "json_space c \<longleftrightarrow> c \<in> {CHR '' '', CHR 0x09, CHR 0x0A, CHR 0x0D}"

text \<open>The first value of a body, decoded into a struct without fields and without unknown ones: an empty
  object or \<open>null\<close>. The result is the text after it.\<close>

definition decode_empty_struct :: "string \<Rightarrow> string option" where
  "decode_empty_struct s =
    (let t = dropWhile json_space s in
     if prefix ''null'' t then Some (drop 4 t)
     else if prefix ''{'' t \<and> prefix ''}'' (dropWhile json_space (tl t))
     then Some (tl (dropWhile json_space (tl t)))
     else None)"

text \<open>What may follow it: white space up to the end. A body above the limit ends with an error instead.\<close>

definition trailing_json :: "web_env \<Rightarrow> string \<Rightarrow> string \<Rightarrow> go_error option" where
  "trailing_json env body rest =
    (if list_all json_space rest
     then if length body \<le> max_mutation_body then None
       else Some (wrapf ''decode trailing JSON: '' (new_error ''http: request body too large''))
     else
       (case we_trailing_error env rest of
          Some e \<Rightarrow> Some (wrapf ''decode trailing JSON: '' e)
        | None \<Rightarrow> Some (new_error ''request contains more than one JSON value'')))"

definition validate_mutation :: "web_env \<Rightarrow> web_request \<Rightarrow> go_error option" where
  "validate_mutation env r =
    (let site = rq_header r ''Sec-Fetch-Site''; origin = rq_header r ''Origin'' in
     if we_media_type env (rq_header r ''Content-Type'') \<noteq> Inr ''application/json''
     then Some (new_error ''Content-Type must be application/json'')
     else if rq_header r ''X-onderzeeer-Web'' \<noteq> ''1'' then Some (new_error ''X-onderzeeer-Web header is required'')
     else if site \<noteq> [] \<and> site \<noteq> ''same-origin'' \<and> site \<noteq> ''none''
     then Some (new_error ''cross-site requests are not allowed'')
     else if origin \<noteq> [] \<and>
        (case we_url_parts env origin of
           Inl e \<Rightarrow> True
         | Inr (scheme, host) \<Rightarrow> scheme \<noteq> ''http'' \<or> \<not> we_equal_fold env host (rq_host r))
     then Some (new_error ''request origin does not match the onderzeeer web origin'')
     else
       (case decode_empty_struct (take max_mutation_body (rq_body r)) of
          None \<Rightarrow> Some (wrapf ''decode JSON request: '' (we_json_error env (rq_body r)))
        | Some rest \<Rightarrow> trailing_json env (rq_body r) rest))"

definition valid_instance_id :: "string \<Rightarrow> bool" where
  "valid_instance_id s \<longleftrightarrow> length s = 12 \<and> list_all ManagerNames.hex_digit s"

definition handle_start :: "web_env \<Rightarrow> manager \<Rightarrow> string \<Rightarrow> web_request \<Rightarrow> web_action" where
  "handle_start env m queue_text r =
    (case validate_mutation env r of
       Some e \<Rightarrow> invalid_request env e
     | None \<Rightarrow> (case resolve_queue env m queue_text of None \<Rightarrow> queue_not_found | Some known \<Rightarrow> StartQueue known))"

definition handle_stop :: "web_env \<Rightarrow> string \<Rightarrow> web_request \<Rightarrow> web_action" where
  "handle_stop env instance_id r =
    (case validate_mutation env r of
       Some e \<Rightarrow> invalid_request env e
     | None \<Rightarrow>
         if \<not> valid_instance_id instance_id
         then Reply (write_api_error 400 ''invalid_request'' ''A full 12-character instance ID is required'')
         else StopInstance instance_id)"

definition write_manager_error :: "web_env \<Rightarrow> go_error \<Rightarrow> bool \<Rightarrow> web_response" where
  "write_manager_error env e start =
    (let is = (\<lambda>s. errors_is (''control: '' @ s) e); message = error_text (we_quote env) e in
     if is ''instance not found'' then write_api_error 404 ''not_found'' message
     else if is ''ambiguous instance selector'' then write_api_error 409 ''ambiguous_selector'' message
     else if is ''instance already active'' then write_api_error 409 ''already_active'' message
     else if is ''instance name already in use'' then write_api_error 409 ''name_in_use'' message
     else if is ''instance is not active'' then write_api_error 409 ''not_active'' message
     else if is ''manager is shutting down'' then write_api_error 503 ''shutting_down'' message
     else if is ''known queue configuration changed'' then write_api_error 409 ''queue_changed'' message
     else if errors_is ''context deadline exceeded'' e
     then write_api_error 504 ''operation_timeout'' ''The control operation timed out''
     else if start then write_api_error 422 ''start_failed'' message
     else write_api_error 500 ''internal_error'' message)"

text \<open>The rest of the two handlers, once the supervisor has answered.\<close>

definition finish_start :: "web_env \<Rightarrow> instance_view list result \<Rightarrow> web_response" where
  "finish_start env answer =
    (case answer of
       Inl e \<Rightarrow> write_manager_error env e True
     | Inr [v] \<Rightarrow> write_json 201 (InstanceBody v)
     | Inr vs \<Rightarrow> write_api_error 500 ''internal_error'' ''Start did not return exactly one instance'')"

definition finish_stop :: "web_env \<Rightarrow> instance_view result \<Rightarrow> web_response" where
  "finish_stop env answer =
    (case answer of
       Inl e \<Rightarrow> write_manager_error env e False
     | Inr v \<Rightarrow> write_json 200 (InstanceBody v))"

end
