(* ===== verification/WebServer.thy ===== *)
theory WebServer
  imports WebApi
begin

text \<open>
  The web server (\<open>webui/server.go\<close>): which requests reach which handler, behind the checks of the host and
  of the access token; where it listens; the file that holds the token; and how it starts, serves and closes.
\<close>

section \<open>Routes\<close>

record web_server =
  sv_token :: string
  sv_version :: string
  sv_wildcard :: bool
  sv_dist :: "string \<Rightarrow> bool option"

text \<open>The routes of the multiplexer. A path that is not clean is answered with a redirect; a segment is
  compared once its escapes are resolved; a path that no other pattern takes goes to the root.\<close>

datatype route =
    InfoRoute | QueuesRoute | JobsRoute string | JobRoute string string | OutputRoute string string
  | InstancesRoute | StartRoute string | StopRoute string | RootRoute | RedirectRoute string

definition reads :: "string \<Rightarrow> bool" where
  "reads m \<longleftrightarrow> m = ''GET'' \<or> m = ''HEAD''"

fun api_route :: "string \<Rightarrow> string list \<Rightarrow> route" where
  "api_route m [a] =
    (if reads m \<and> a = ''info'' then InfoRoute
     else if reads m \<and> a = ''queues'' then QueuesRoute
     else if reads m \<and> a = ''instances'' then InstancesRoute else RootRoute)"
| "api_route m [a, x, b] =
    (if x = [] then RootRoute
     else if reads m \<and> a = ''queues'' \<and> b = ''jobs'' then JobsRoute x
     else if m = ''POST'' \<and> a = ''queues'' \<and> b = ''start'' then StartRoute x
     else if m = ''POST'' \<and> a = ''instances'' \<and> b = ''stop'' then StopRoute x else RootRoute)"
| "api_route m [a, x, b, y] =
    (if reads m \<and> a = ''queues'' \<and> x \<noteq> [] \<and> b = ''jobs'' \<and> y \<noteq> [] then JobRoute x y else RootRoute)"
| "api_route m [a, x, b, y, c] =
    (if reads m \<and> a = ''queues'' \<and> x \<noteq> [] \<and> b = ''commands'' \<and> y \<noteq> [] \<and> c = ''output'' then OutputRoute x y else RootRoute)"
| "api_route m _ = RootRoute"

definition segments :: "string \<Rightarrow> string list" where
  "segments p = map path_unescape (split_char slash (tl p))"

definition route_of :: "web_request \<Rightarrow> route" where
  "route_of r =
    (if rq_method r = ''CONNECT'' then RootRoute
     else if mux_clean (rq_path r) \<noteq> rq_path r then RedirectRoute (mux_clean (rq_path r))
     else
       (case segments (rq_path r) of
          a # b # rest \<Rightarrow> if a = ''api'' \<and> b = ''v1'' then api_route (rq_method r) rest else RootRoute
        | _ \<Rightarrow> RootRoute))"

section \<open>Handlers\<close>

definition url_path :: "web_request \<Rightarrow> string" where
  "url_path r = path_unescape (rq_path r)"

definition is_api_path :: "string \<Rightarrow> bool" where
  "is_api_path p \<longleftrightarrow> p = ''/api'' \<or> prefix ''/api/'' p"

definition plain_response :: "nat \<Rightarrow> (string \<times> string) list \<Rightarrow> web_body \<Rightarrow> web_response" where
  "plain_response status headers body = \<lparr>ws_status = status, ws_headers = headers, ws_body = body\<rparr>"

definition handle_root :: "web_server \<Rightarrow> web_request \<Rightarrow> web_response" where
  "handle_root sv r =
    (if is_api_path (url_path r) then write_api_error 404 ''not_found'' ''API endpoint not found''
     else if \<not> reads (rq_method r)
     then plain_response 405 [(''Allow'', ''GET, HEAD'')] (TextBody ''Method Not Allowed'')
     else
       (let cleaned = trim_prefix ''/'' (clean (url_path r));
            index = plain_response 200 [(''Cache-Control'', ''no-cache''), (''Content-Type'', ''text/html; charset=utf-8'')] IndexBody in
        if cleaned \<noteq> ''.'' \<and> cleaned \<noteq> [] then
          (if sv_dist sv cleaned = Some False
           then plain_response 200
             (if prefix ''assets/'' cleaned then [(''Cache-Control'', ''public, max-age=31536000, immutable'')] else [])
             (FileBody cleaned)
           else if prefix ''assets/'' cleaned then plain_response 404 [] (TextBody ''404 page not found'')
           else index)
        else index))"

text \<open>\<open>envs\<close> and \<open>gone\<close> are for the overview of queues; \<open>m1\<close> and \<open>m2\<close> the supervisor at its calls.\<close>

definition dispatch ::
  "web_env \<Rightarrow> (nat \<Rightarrow> web_env option) \<Rightarrow> bool \<Rightarrow> web_server \<Rightarrow> manager \<Rightarrow> manager \<Rightarrow> web_request \<Rightarrow> web_action" where
  "dispatch env envs gone sv m1 m2 r =
    (case route_of r of
       InfoRoute \<Rightarrow> handle_info (sv_version sv)
     | QueuesRoute \<Rightarrow> handle_queues env envs gone m1 m2
     | JobsRoute q \<Rightarrow> handle_jobs env m1 q r
     | JobRoute q j \<Rightarrow> handle_job env m1 q j
     | OutputRoute q c \<Rightarrow> handle_command_output env m1 q c
     | InstancesRoute \<Rightarrow> handle_instances env m1 r
     | StartRoute q \<Rightarrow> handle_start env m1 q r
     | StopRoute x \<Rightarrow> handle_stop env x r
     | RootRoute \<Rightarrow> Reply (handle_root sv r)
     | RedirectRoute p \<Rightarrow> Reply (plain_response 301 [(''Location'', p)] (LocationBody p)))"

section \<open>The checks before the handlers\<close>

definition authorized :: "string \<Rightarrow> web_request \<Rightarrow> bool" where
  "authorized token r =
    (let header = rq_header r ''Authorization''; provided = trim_prefix ''Bearer '' header in
     \<not> (provided = header \<or> provided \<noteq> token))"

definition require_api_auth :: "string \<Rightarrow> web_request \<Rightarrow> web_action \<Rightarrow> web_action" where
  "require_api_auth token r served =
    (if is_api_path (url_path r) \<and> \<not> authorized token r
     then
       (let refusal = write_api_error 401 ''unauthorized'' ''A valid onderzeeer web token is required'' in
        Reply (refusal\<lparr>ws_headers := (''WWW-Authenticate'', ''Bearer realm='' @ [CHR 0x22] @ ''onderzeeer-web'' @ [CHR 0x22]) # ws_headers refusal\<rparr>))
     else served)"

definition request_host :: "web_request \<Rightarrow> string" where
  "request_host r =
    trim_chars {open_bracket, close_bracket} (case split_host_port (rq_host r) of Inr (host, port) \<Rightarrow> host | Inl e \<Rightarrow> rq_host r)"

definition host_allowed :: "web_env \<Rightarrow> bool \<Rightarrow> web_request \<Rightarrow> bool" where
  "host_allowed env allow_remote_ips r \<longleftrightarrow>
    we_equal_fold env (request_host r) ''localhost'' \<or>
    (case parse_ip (request_host r) of None \<Rightarrow> False | Some ip \<Rightarrow> is_loopback ip \<or> allow_remote_ips)"

definition validate_host :: "web_env \<Rightarrow> bool \<Rightarrow> web_request \<Rightarrow> web_action \<Rightarrow> web_action" where
  "validate_host env allow_remote_ips r served =
    (if host_allowed env allow_remote_ips r then served
     else Reply (plain_response 421 [] (TextBody ''unrecognized host'')))"

definition security_headers :: "(string \<times> string) list" where
  "security_headers =
    [(''Content-Security-Policy'', ''default-src 'self'; base-uri 'none'; connect-src 'self'; form-action 'self'; frame-ancestors 'none'; img-src 'self' data:; object-src 'none'; script-src 'self'; style-src 'self'' @ [CHR 0x27]),
     (''Referrer-Policy'', ''no-referrer''), (''X-Content-Type-Options'', ''nosniff''), (''X-Frame-Options'', ''DENY'')]"

definition secured :: "web_response \<Rightarrow> web_response" where
  "secured w = w\<lparr>ws_headers := security_headers @ ws_headers w\<rparr>"

definition map_reply :: "(web_response \<Rightarrow> web_response) \<Rightarrow> web_action \<Rightarrow> web_action" where
  "map_reply f a = (case a of Reply w \<Rightarrow> Reply (f w) | _ \<Rightarrow> a)"

definition serve_request ::
  "web_env \<Rightarrow> (nat \<Rightarrow> web_env option) \<Rightarrow> bool \<Rightarrow> web_server \<Rightarrow> manager \<Rightarrow> manager \<Rightarrow> web_request \<Rightarrow> web_action" where
  "serve_request env envs gone sv m1 m2 r =
    map_reply secured
      (validate_host env (sv_wildcard sv) r
        (require_api_auth (sv_token sv) r (dispatch env envs gone sv m1 m2 r)))"

text \<open>The answer to a start or a stop, once the supervisor has answered.\<close>

definition answer_start :: "web_env \<Rightarrow> instance_view list result \<Rightarrow> web_response" where
  "answer_start env answer = secured (finish_start env answer)"

definition answer_stop :: "web_env \<Rightarrow> instance_view result \<Rightarrow> web_response" where
  "answer_stop env answer = secured (finish_stop env answer)"

section \<open>The address\<close>

definition refusing :: "string \<Rightarrow> string \<Rightarrow> go_error" where
  "refusing address advice =
    ErrorString [T ''webui: refusing non-loopback listen address '', Q address, T advice]"

definition validate_listen_address :: "(string \<Rightarrow> string \<Rightarrow> bool) \<Rightarrow> string \<Rightarrow> bool result" where
  "validate_listen_address fold_equal address =
    (case split_host_port address of
       Inl e \<Rightarrow> Inl (wrapf ''webui: listen address must be host:port: '' e)
     | Inr (host0, port) \<Rightarrow>
         (let host = trim_chars {open_bracket, close_bracket} host0 in
          if fold_equal host ''localhost'' then Inr False
          else
            (case parse_ip host of
               None \<Rightarrow> Inl (refusing address ''; use an authenticated tunnel for remote access'')
             | Some ip \<Rightarrow>
                 if is_loopback ip then Inr False
                 else if is_unspecified ip then Inr True
                 else Inl (refusing address ''; use a wildcard listener or authenticated tunnel for remote access''))))"

section \<open>The token file\<close>

text \<open>\<open>base64.RawURLEncoding\<close>.\<close>

definition base64_char :: "nat \<Rightarrow> char" where
  "base64_char n =
    (if n < 26 then char_of (65 + n) else if n < 52 then char_of (71 + n)
     else if n < 62 then char_of (n - 4) else if n = 62 then CHR ''-'' else CHR ''_'')"

fun base64url :: "nat list \<Rightarrow> string" where
  "base64url [] = []"
| "base64url [a] = [base64_char (a div 4), base64_char (a mod 4 * 16)]"
| "base64url [a, b] = [base64_char (a div 4), base64_char (a mod 4 * 16 + b div 16), base64_char (b mod 16 * 4)]"
| "base64url (a # b # c # s) =
    base64_char (a div 4) # base64_char (a mod 4 * 16 + b div 16) #
    base64_char (b mod 16 * 4 + c div 64) # base64_char (c mod 64) # base64url s"

text \<open>What the file system and the random source answer; \<open>te_write\<close> is an error after that many bytes.\<close>

record token_env =
  te_directory :: "(bool \<times> nat) result"
  te_random :: "nat list result"
  te_temporary :: "string result"
  te_chmod :: "go_error option"
  te_write :: "(nat \<times> go_error) option"
  te_sync :: "go_error option"
  te_close :: "go_error option"
  te_rename :: "go_error option"
  te_removes :: bool

type_synonym files = "string \<Rightarrow> string option"

definition remove_file :: "token_env \<Rightarrow> string \<Rightarrow> files \<Rightarrow> files" where
  "remove_file te name files = (if te_removes te then files(name := None) else files)"

definition write_access_token :: "token_env \<Rightarrow> string \<Rightarrow> files \<Rightarrow> string result \<times> files" where
  "write_access_token te filename files =
    (let directory = dir_path filename in
     case te_directory te of
       Inl e \<Rightarrow> (Inl (Wrapped [T ''webui: inspect token directory '', T directory, T '': ''] e []), files)
     | Inr (is_directory, perm) \<Rightarrow>
    if \<not> is_directory \<or> perm mod 64 \<noteq> 0
    then (Inl (ErrorString [T ''webui: token directory '', T directory, T '' must be a private directory'']), files)
    else
    (case te_random te of
       Inl e \<Rightarrow> (Inl (wrapf ''webui: generate access token: '' e), files)
     | Inr bytes \<Rightarrow>
    (case te_temporary te of
       Inl e \<Rightarrow> (Inl (wrapf ''webui: create temporary token: '' e), files)
     | Inr name \<Rightarrow>
    (let token = base64url bytes; line = token @ [CHR 0x0A]; created = files(name \<mapsto> []) in
     case te_chmod te of
       Some e \<Rightarrow> (Inl (wrapf ''webui: protect temporary token: '' e), remove_file te name created)
     | None \<Rightarrow>
    (case te_write te of
       Some (n, e) \<Rightarrow>
         (Inl (wrapf ''webui: write temporary token: '' e), remove_file te name (created(name \<mapsto> take n line)))
     | None \<Rightarrow>
    (let written = created(name \<mapsto> line) in
     case te_sync te of
       Some e \<Rightarrow> (Inl (wrapf ''webui: sync temporary token: '' e), remove_file te name written)
     | None \<Rightarrow>
    (case te_close te of
       Some e \<Rightarrow> (Inl (wrapf ''webui: close temporary token: '' e), remove_file te name written)
     | None \<Rightarrow>
    (case te_rename te of
       Some e \<Rightarrow>
         (Inl (Wrapped [T ''webui: install token '', T filename, T '': ''] e []), remove_file te name written)
     | None \<Rightarrow> (Inr token, written(name := None, filename \<mapsto> line))))))))))"

definition remove_access_token :: "token_env \<Rightarrow> string \<Rightarrow> string \<Rightarrow> files \<Rightarrow> files" where
  "remove_access_token te filename token files =
    (case files filename of
       None \<Rightarrow> files
     | Some contents \<Rightarrow> if trim_space contents = token then remove_file te filename files else files)"

section \<open>Starting, serving, closing\<close>

text \<open>\<open>ne_listen\<close> is the answer of \<open>net.Listen\<close>, with the address it resolved to.\<close>

record new_env =
  ne_manager :: bool
  ne_equal_fold :: "string \<Rightarrow> string \<Rightarrow> bool"
  ne_listen :: "nat list option result"
  ne_token :: token_env
  ne_handler :: "go_error option"

record listening =
  li_listener :: bool
  li_files :: files

text \<open>The result is the token and whether the listener takes every interface, with what is left behind.\<close>

definition new_server :: "new_env \<Rightarrow> string \<Rightarrow> string \<Rightarrow> files \<Rightarrow> (string \<times> bool) result \<times> listening" where
  "new_server ne address0 token_path0 files =
    (let address = trim_space address0; token_path = trim_space token_path0;
         idle = \<lparr>li_listener = False, li_files = files\<rparr> in
     if \<not> ne_manager ne then (Inl (new_error ''webui: manager is required''), idle)
     else if address = [] then (Inl (new_error ''webui: listen address is required''), idle)
     else
    (case validate_listen_address (ne_equal_fold ne) address of
       Inl e \<Rightarrow> (Inl e, idle)
     | Inr wildcard \<Rightarrow>
    if token_path = [] then (Inl (new_error ''webui: token path is required''), idle)
    else
    (case ne_listen ne of
       Inl e \<Rightarrow> (Inl (Wrapped [T ''webui: listen on '', T address, T '': ''] e []), idle)
     | Inr resolved \<Rightarrow>
    if (case resolved of None \<Rightarrow> True | Some ip \<Rightarrow> \<not> is_loopback ip \<and> \<not> (wildcard \<and> is_unspecified ip))
    then (Inl (ErrorString [T ''webui: resolved listen address '', Q address, T '' is neither loopback nor wildcard'']), idle)
    else
    (case write_access_token (ne_token ne) token_path files of
       (Inl e, files') \<Rightarrow> (Inl e, \<lparr>li_listener = False, li_files = files'\<rparr>)
     | (Inr token, files') \<Rightarrow>
    (case ne_handler ne of
       Some e \<Rightarrow> (Inl e, \<lparr>li_listener = False, li_files = remove_access_token (ne_token ne) token_path token files'\<rparr>)
     | None \<Rightarrow> (Inr (token, wildcard), \<lparr>li_listener = True, li_files = files'\<rparr>))))))"

definition closed_error :: "go_error \<Rightarrow> bool" where
  "closed_error e \<longleftrightarrow> errors_is ''http: Server closed'' e \<or> errors_is ''use of closed network connection'' e"

definition unless_closed :: "go_error option \<Rightarrow> go_error option" where
  "unless_closed failed = (case failed of Some e \<Rightarrow> if closed_error e then None else Some e | None \<Rightarrow> None)"

text \<open>\<open>Serve\<close>: the HTTP server ended by itself, or the context did and the server was shut down.\<close>

datatype serving =
    ServerEnded "go_error option"
  | ContextEnded "go_error option" "go_error option" "go_error option"

definition serve_result :: "serving \<Rightarrow> go_error option" where
  "serve_result s =
    (case s of
       ServerEnded failed \<Rightarrow> unless_closed failed
     | ContextEnded shutdown_err close_err serve_err \<Rightarrow>
         (let stopped = (if shutdown_err \<noteq> None then errors_join [shutdown_err, close_err] else None) in
          errors_join [stopped, unless_closed serve_err]))"

text \<open>\<open>Close\<close>: the first call closes and removes the token; the others return its answer.\<close>

record web_closing =
  cl_answer :: "go_error option option"
  cl_files :: files

definition close_server ::
  "token_env \<Rightarrow> string \<Rightarrow> string \<Rightarrow> go_error option \<Rightarrow> go_error option \<Rightarrow> web_closing \<Rightarrow> go_error option \<times> web_closing" where
  "close_server te token_path token http_err listener_err c =
    (case cl_answer c of
       Some answer \<Rightarrow> (answer, c)
     | None \<Rightarrow>
         (let answer = errors_join
            [unless_closed http_err,
             (case listener_err of Some e \<Rightarrow> if errors_is ''use of closed network connection'' e then None else Some e | None \<Rightarrow> None)] in
          (answer, \<lparr>cl_answer = Some answer, cl_files = remove_access_token te token_path token (cl_files c)\<rparr>)))"

end
