(* ===== verification/WebProps.thy ===== *)
theory WebProps
  imports WebServer
begin

text \<open>
  What the web interface promises: no handler of the API runs, and nothing is started or stopped, without the
  access token and a local host name; a page of jobs is exact and says truly whether more follow; the
  overview tells what it read; the token file is installed whole and taken away again.
\<close>

section \<open>A small server\<close>

text \<open>For the examples: one known queue, whose database holds the two jobs of the queue's examples.\<close>

definition demo_web :: web_env where
  "demo_web =
    \<lparr>we_equal_fold = (=), we_upper = (\<lambda>s. s), we_quote = (\<lambda>s. s), we_sha256 = (\<lambda>s. s), we_media_type = Inr,
     we_url_parts = (\<lambda>s. Inr (''http'', drop 7 s)), we_json_error = (\<lambda>s. new_error ''json''),
     we_trailing_error = (\<lambda>s. None), we_duration_text = format_int, we_now = 9, we_ctx = (\<lambda>i. None),
     we_file = (\<lambda>p. if p = ''q'' then RegularFile \<lparr>dr_open = None, dr_ping = None, dr_exec = (\<lambda>s. None), dr_code = (\<lambda>e. None)\<rparr>
       (\<lambda>k. demo_two) else NoFile),
     we_engine = (\<lambda>k. ok_engine 9), we_close = None\<rparr>"

definition demo_known :: known_queue where
  "demo_known = \<lparr>kq_identity = ''q'', kq_config_identity = ''c'', kq_config_path = ''c'', kq_config_hash = ''h'',
     kq_database_path = ''q'', kq_database_aliases = [], kq_watch_names = [''w'']\<rparr>"

definition demo_manager :: manager where
  "demo_manager = (empty_manager 100 ''/s'' None)\<lparr>mg_known_queues := [(''q'', demo_known)]\<rparr>"

definition demo_server :: web_server where
  "demo_server = \<lparr>sv_token = ''secret'', sv_version = ''1'', sv_wildcard = False, sv_dist = (\<lambda>p. None)\<rparr>"

definition demo_post :: web_request where
  "demo_post =
    \<lparr>rq_method = ''POST'', rq_path = ''/api/v1/queues/71/start'', rq_query = [], rq_host = ''127.0.0.1:8080'',
     rq_header = (\<lambda>h. if h = ''Authorization'' then ''Bearer secret'' else if h = ''Content-Type'' then ''application/json''
       else if h = ''X-onderzeeer-Web'' then ''1'' else if h = ''Origin'' then ''http://127.0.0.1:8080'' else []),
     rq_body = '' { } ''\<rparr>"

lemma demo_start_served: "serve_request demo_web (\<lambda>i. None) False demo_server demo_manager demo_manager demo_post = StartQueue demo_known"
  by code_simp

lemma demo_open: "open_known_queue demo_web demo_known = Inr (\<lambda>k. demo_two)"
proof -
  have "known_queue_paths demo_known = [''q'']" by code_simp
  moreover have "\<not> blank ''q''" by code_simp
  ultimately show ?thesis
    by (simp add: open_known_queue_def open_read_only_def demo_web_def read_only_statements_def)
qed

section \<open>Guards\<close>

lemma split_char_first:
  assumes "split_char c s = w # v # vs" shows "\<exists>t. s = w @ c # t \<and> split_char c t = v # vs"
proof -
  have "s = join_strings [c] (w # v # vs)" using join_split_char[of c s] assms by simp
  then have s: "s = w @ c # join_strings [c] (v # vs)" by simp
  have "c \<notin> set w" using split_char_no_sep[of w c s] assms by simp
  then have "w # split_char c (join_strings [c] (v # vs)) = w # v # vs"
    using assms s split_char_append[of c w "join_strings [c] (v # vs)"] by simp
  with s show ?thesis by auto
qed

lemma mux_clean_abs: "is_abs (mux_clean p)"
proof (cases p)
  case (Cons c p')
  let ?q = "if c = slash then p else slash # p"
  have "is_abs ?q" using Cons by (simp add: is_abs_def)
  then have "is_abs (clean ?q)" by simp
  with Cons show ?thesis by (auto simp: mux_clean_def Let_def is_abs_def prefix_def)
qed (simp add: mux_clean_def is_abs_def)

lemma api_segments:
  assumes "mux_clean (rq_path r) = rq_path r" and "segments (rq_path r) = ''api'' # s # rest"
  shows "is_api_path (url_path r)"
proof -
  have "is_abs (rq_path r)" using mux_clean_abs[of "rq_path r"] assms(1) by simp
  then obtain p where p: "rq_path r = slash # p" by (auto simp: is_abs_def prefix_def)
  obtain w v vs where w: "split_char slash p = w # v # vs" "path_unescape w = ''api''"
    using assms(2) p by (auto simp: segments_def map_eq_Cons_conv)
  from split_char_first[OF w(1)] obtain t where "p = w @ slash # t" by blast
  then have "url_path r = path_unescape ([] @ slash # (w @ slash # t))" using p by (simp add: url_path_def)
  also have "\<dots> = ''/api/'' @ path_unescape t" unfolding path_unescape_slash w(2) by simp
  finally show ?thesis by (simp add: is_api_path_def)
qed

lemma api_route_path:
  assumes "route_of r \<noteq> RootRoute" and "\<And>p. route_of r \<noteq> RedirectRoute p"
  shows "is_api_path (url_path r)"
proof -
  have clean: "mux_clean (rq_path r) = rq_path r" "rq_method r \<noteq> ''CONNECT''"
    using assms by (auto simp: route_of_def split: if_splits)
  then obtain s rest where "segments (rq_path r) = ''api'' # s # rest"
    using assms(1) by (auto simp: route_of_def split: if_splits list.splits)
  then show ?thesis by (rule api_segments[OF clean(1)])
qed

lemma dispatch_elsewhere:
  assumes "\<not> is_api_path (url_path r)"
  shows "\<exists>w. \<forall>env envs gone m1 m2. dispatch env envs gone sv m1 m2 r = Reply w"
proof -
  have "route_of r = RootRoute \<or> (\<exists>p. route_of r = RedirectRoute p)" using assms api_route_path by blast
  then show ?thesis by (auto simp: dispatch_def)
qed

lemma authorized_header:
  assumes "authorized token r" shows "rq_header r ''Authorization'' = ''Bearer '' @ token"
proof -
  have "trim_prefix ''Bearer '' (rq_header r ''Authorization'') = token" "token \<noteq> rq_header r ''Authorization''"
    using assms by (auto simp: authorized_def Let_def)
  then show ?thesis by (auto simp: trim_prefix_def prefix_def split: if_splits)
qed

text \<open>C18: The API is closed to strangers: a request without the exact access token, or one whose host is neither
  `localhost` nor an address the server takes, gets one fixed answer. Whatever the supervisor and the queue
  databases hold, the answer tells nothing about them, and nothing is started or stopped, for every method,
  path, escaping and header.\<close>

theorem strangers_learn_nothing:
  assumes "rq_header r ''Authorization'' \<noteq> ''Bearer '' @ sv_token sv \<or> \<not> host_allowed env (sv_wildcard sv) r"
  shows "\<exists>w. \<forall>env' envs gone m1 m2. we_equal_fold env' = we_equal_fold env \<longrightarrow>
    serve_request env' envs gone sv m1 m2 r = Reply w"
proof (cases "host_allowed env (sv_wildcard sv) r")
  case False
  then have "\<not> host_allowed env' (sv_wildcard sv) r" if "we_equal_fold env' = we_equal_fold env" for env'
    using that by (simp add: host_allowed_def)
  then show ?thesis by (simp add: serve_request_def validate_host_def map_reply_def)
next
  case True
  have host: "host_allowed env' (sv_wildcard sv) r" if "we_equal_fold env' = we_equal_fold env" for env'
    using True that by (simp add: host_allowed_def)
  have denied: "\<not> authorized (sv_token sv) r" using True assms authorized_header by blast
  show ?thesis
  proof (cases "is_api_path (url_path r)")
    case api: True
    then show ?thesis using denied host
      by (simp add: serve_request_def validate_host_def require_api_auth_def map_reply_def Let_def)
  next
    case other: False
    from dispatch_elsewhere[OF this] obtain w where
      "dispatch env envs gone sv m1 m2 r = Reply w" for env envs gone m1 m2 by blast
    then show ?thesis using other host
      by (simp add: serve_request_def validate_host_def require_api_auth_def map_reply_def)
  qed
qed

lemma validate_mutation_ok:
  assumes "validate_mutation env r = None"
  shows "we_media_type env (rq_header r ''Content-Type'') = Inr ''application/json'' \<and>
    rq_header r ''X-onderzeeer-Web'' = ''1'' \<and>
    rq_header r ''Sec-Fetch-Site'' \<in> {[], ''same-origin'', ''none''} \<and>
    (rq_header r ''Origin'' = [] \<or>
     (\<exists>host. we_url_parts env (rq_header r ''Origin'') = Inr (''http'', host) \<and> we_equal_fold env host (rq_host r))) \<and>
    length (rq_body r) \<le> max_mutation_body"
  using assms
  by (auto simp: validate_mutation_def trailing_json_def Let_def split: if_splits option.splits sum.splits)

lemma mutation_handled:
  assumes "dispatch env envs gone sv m1 m2 r = StartQueue k \<or> dispatch env envs gone sv m1 m2 r = StopInstance x"
  shows "validate_mutation env r = None"
  using assms
  by (auto simp: dispatch_def handle_start_def handle_stop_def invalid_request_def queue_not_found_def handle_info_def
      handle_queues_def handle_jobs_def handle_job_def handle_command_output_def handle_instances_def Let_def
      split: route.splits option.splits sum.splits if_splits prod.splits)

lemma mutation_method:
  assumes "dispatch env envs gone sv m1 m2 r = StartQueue k \<or> dispatch env envs gone sv m1 m2 r = StopInstance x"
  shows "rq_method r = ''POST''"
proof -
  have "\<exists>y. route_of r = StartRoute y \<or> route_of r = StopRoute y"
    using assms
    by (auto simp: dispatch_def invalid_request_def queue_not_found_def handle_info_def
        handle_queues_def handle_jobs_def handle_job_def handle_command_output_def handle_instances_def Let_def
        split: route.splits option.splits sum.splits if_splits prod.splits)
  moreover have "api_route m segs = StartRoute y \<or> api_route m segs = StopRoute y \<Longrightarrow> m = ''POST''" for m segs y
    by (induction m segs rule: api_route.induct) (auto split: if_splits)
  ultimately show ?thesis by (auto simp: route_of_def split: if_splits list.splits)
qed

theorem strangers_learn_nothing_witness:
  "\<exists>w. \<forall>m1 m2. serve_request demo_web (\<lambda>i. None) False demo_server m1 m2 (demo_post\<lparr>rq_header := (\<lambda>h. [])\<rparr>) = Reply w"
proof -
  have "rq_header (demo_post\<lparr>rq_header := (\<lambda>h. [])\<rparr>) ''Authorization'' \<noteq> ''Bearer '' @ sv_token demo_server" by simp
  from strangers_learn_nothing[OF disjI1[OF this], of demo_web] show ?thesis by blast
qed

lemma served_action:
  assumes "serve_request env envs gone sv m1 m2 r = a" and "\<And>w. a \<noteq> Reply w"
  shows "dispatch env envs gone sv m1 m2 r = a \<and> host_allowed env (sv_wildcard sv) r \<and>
    (is_api_path (url_path r) \<longrightarrow> authorized (sv_token sv) r)"
  using assms
  by (cases a) (auto simp: serve_request_def map_reply_def validate_host_def require_api_auth_def Let_def
      split: web_action.splits if_splits)

text \<open>C17: Nothing is started or stopped over the web but by a page of the server itself that holds the token: the
  request is a POST with the exact token, to `localhost` or to an address (a loopback one unless the server was
  told to take every interface), with the JSON content type and the header that make a browser ask first, not
  marked as coming from another site, from no other origin, and with a body of at most 1024 bytes.\<close>

theorem web_mutations_guarded:
  assumes "serve_request env envs gone sv m1 m2 r = StartQueue k \<or>
    serve_request env envs gone sv m1 m2 r = StopInstance x"
  shows "rq_method r = ''POST'' \<and> rq_header r ''Authorization'' = ''Bearer '' @ sv_token sv \<and>
    (we_equal_fold env (request_host r) ''localhost'' \<or>
     (\<exists>ip. parse_ip (request_host r) = Some ip \<and> (is_loopback ip \<or> sv_wildcard sv))) \<and>
    we_media_type env (rq_header r ''Content-Type'') = Inr ''application/json'' \<and>
    rq_header r ''X-onderzeeer-Web'' = ''1'' \<and>
    rq_header r ''Sec-Fetch-Site'' \<in> {[], ''same-origin'', ''none''} \<and>
    (rq_header r ''Origin'' = [] \<or>
     (\<exists>host. we_url_parts env (rq_header r ''Origin'') = Inr (''http'', host) \<and> we_equal_fold env host (rq_host r))) \<and>
    length (rq_body r) \<le> 1024"
proof -
  have handled: "dispatch env envs gone sv m1 m2 r = StartQueue k \<or> dispatch env envs gone sv m1 m2 r = StopInstance x"
    and host: "host_allowed env (sv_wildcard sv) r" and auth: "is_api_path (url_path r) \<longrightarrow> authorized (sv_token sv) r"
    using assms served_action[of env envs gone sv m1 m2 r "StartQueue k"]
      served_action[of env envs gone sv m1 m2 r "StopInstance x"] by auto
  have "is_api_path (url_path r)" using handled dispatch_elsewhere[of r sv] by (metis web_action.distinct(1,3))
  then have "rq_header r ''Authorization'' = ''Bearer '' @ sv_token sv" using auth authorized_header by blast
  moreover have "we_equal_fold env (request_host r) ''localhost'' \<or>
     (\<exists>ip. parse_ip (request_host r) = Some ip \<and> (is_loopback ip \<or> sv_wildcard sv))"
    using host by (auto simp: host_allowed_def split: option.splits)
  ultimately show ?thesis
    using mutation_method[OF handled] validate_mutation_ok[OF mutation_handled[OF handled]]
    by (simp add: max_mutation_body_def)
qed

theorem web_mutations_guarded_witness: "rq_method demo_post = ''POST'' \<and> length (rq_body demo_post) \<le> 1024"
  using web_mutations_guarded[OF disjI1[OF demo_start_served]] by blast

section \<open>Pages of jobs\<close>

lemma job_filter_ok:
  assumes "job_filter_of env r = Inr (selection, limit, offset)"
  shows "1 \<le> limit \<and> limit \<le> 200 \<and> 0 \<le> offset \<and> (f_status selection = [] \<or> valid_status (f_status selection))"
  using assms by (auto simp: job_filter_of_def maximum_job_limit_def Let_def split: if_splits prod.splits)

text \<open>C19: A page of the web interface is exact: for every request whose parameters are accepted, the answer lists
  precisely the jobs at the requested places of the filtered history, newest first, and says that more follow
  when and only when some do; an accepted request is never refused by the queue itself.\<close>

theorem web_page_exact:
  assumes "resolve_queue env m q = Some known" and "job_filter_of env r = Inr (selection, limit, offset)"
    and "open_known_queue env known = Inr contents" and "reply (we_engine env 0) = (\<lambda>_. None)"
  shows "1 \<le> limit \<and> limit \<le> 200 \<and> 0 \<le> offset \<and>
    handle_jobs env m q r = Reply (write_json 200
      (JobsBody (map (\<lambda>j. to_job_view (scan_job j) False) (take (nat limit) (drop (nat offset) (newest_first selection (contents 0)))))
        limit offset (nat offset + nat limit < length (newest_first selection (contents 0))) (we_now env)))"
proof -
  note ok = job_filter_ok[OF assms(2)]
  let ?rest = "drop (nat offset) (newest_first selection (contents 0))"
  have "nat (limit + 1) = Suc (nat limit)" using ok by (simp add: nat_add_distrib)
  then have listed: "list_jobs (we_engine env 0) (selection\<lparr>f_limit := limit + 1, f_offset := offset\<rparr>) (contents 0) =
      Inr (map scan_job (take (Suc (nat limit)) ?rest))"
    using list_jobs_ok[OF assms(4), of "selection\<lparr>f_limit := limit + 1, f_offset := offset\<rparr>" "contents 0"] ok by simp
  have more: "limit < int (min (length ?rest) (Suc (nat limit))) \<longleftrightarrow> nat offset + nat limit < length (newest_first selection (contents 0))"
    using ok by auto
  have "take (Suc (nat limit)) ?rest = take (nat limit) ?rest" if "\<not> nat offset + nat limit < length (newest_first selection (contents 0))"
    using that by simp
  then show ?thesis
    using assms(1-3) ok listed more
    by (simp add: handle_jobs_def Let_def take_map min.commute comp_def)
qed

theorem web_page_exact_witness:
  "\<exists>v. handle_jobs demo_web demo_manager ''71'' (demo_post\<lparr>rq_query := [(''limit'', ''1''), (''status'', ''queued'')]\<rparr>) =
    Reply (write_json 200 (JobsBody v 1 0 False 9))"
proof -
  have "resolve_queue demo_web demo_manager ''71'' = Some demo_known" by code_simp
  moreover have "job_filter_of demo_web (demo_post\<lparr>rq_query := [(''limit'', ''1''), (''status'', ''queued'')]\<rparr>) =
      Inr (\<lparr>f_status = ''QUEUED'', f_watch_name = [], f_limit = 0, f_offset = 0\<rparr>, 1, 0)" by code_simp
  moreover have "reply (we_engine demo_web 0) = (\<lambda>_. None)" by (simp add: demo_web_def ok_engine_def)
  moreover have "\<not> nat 0 + nat 1 < length (newest_first \<lparr>f_status = ''QUEUED'', f_watch_name = [], f_limit = 0, f_offset = 0\<rparr> demo_two)"
    by code_simp
  moreover have "we_now demo_web = 9" by (simp add: demo_web_def)
  ultimately show ?thesis using web_page_exact[OF _ _ demo_open] by auto
qed

section \<open>The overview\<close>

lemma counts_total:
  assumes "counts e d = Inr c" shows "n_queued c + n_running c + n_succeeded c + n_failed c = n_total c"
  using assms counts_sum[of "jobs d"] by (auto simp: counts_def count_status_def)

lemma populate_fields:
  "qs_id (populate_queue_summary e k s) = qs_id s \<and> qs_active (populate_queue_summary e k s) = qs_active s"
  by (simp add: populate_queue_summary_def Let_def split: sum.split option.split)

lemma populate_ready:
  "qs_database_state (populate_queue_summary e k s) = ''ready'' \<longleftrightarrow>
   (\<exists>contents c. open_known_queue e k = Inr contents \<and> counts (we_engine e 0) (contents 0) = Inr c \<and> we_close e = None)"
  by (simp add: populate_queue_summary_def Let_def split: sum.split option.split)

lemma populate_counts:
  assumes "open_known_queue e k = Inr contents" and "counts (we_engine e 0) (contents 0) = Inr c" and "we_close e = None"
  shows "qs_counts (populate_queue_summary e k s) = c \<and> qs_error (populate_queue_summary e k s) = []"
  using assms by (simp add: populate_queue_summary_def)

lemma active_listed:
  assumes "qs_active (initial_summary env (active_by_database m) k) = Some v"
  shows "v \<in> set (list_instances m False) \<and> iv_database_path v \<in> set (known_queue_paths k)"
proof -
  obtain p where p: "List.find (\<lambda>p. map_of (active_by_database m) p \<noteq> None) (known_queue_paths k) = Some p"
    "map_of (active_by_database m) p = Some v"
    using assms by (auto simp: initial_summary_def bind_eq_Some_conv)
  have "(p, v) \<in> set (active_by_database m)" by (rule map_of_SomeD[OF p(2)])
  moreover have "p \<in> set (known_queue_paths k)" using p(1) by (auto simp: find_Some_iff)
  ultimately show ?thesis by (auto simp: active_by_database_def)
qed

text \<open>The overview tells what it read: it has one entry for each known queue, in their order; an entry is
  ready exactly when its database was opened, counted and closed, and then holds those counts, whose states add
  up to the total, and no error; an active instance it shows is listed by the supervisor as active on one of the
  paths of that queue.\<close>

theorem overview_truthful:
  assumes "handle_queues env envs gone m1 m2 = Reply w" and "i < length (known_queues m1)"
  shows "\<exists>summaries. ws_body w = QueuesBody summaries (we_now env) \<and> length summaries = length (known_queues m1) \<and>
    (let k = known_queues m1 ! i; q = summaries ! i in
     qs_id q = queue_id env (kq_identity k) \<and>
     (qs_database_state q = ''ready'' \<longleftrightarrow>
       (\<exists>e contents. envs i = Some e \<and> open_known_queue e k = Inr contents \<and>
          counts (we_engine e 0) (contents 0) = Inr (qs_counts q) \<and> we_close e = None \<and> qs_error q = [])) \<and>
     (qs_database_state q = ''ready'' \<longrightarrow>
       n_queued (qs_counts q) + n_running (qs_counts q) + n_succeeded (qs_counts q) + n_failed (qs_counts q) = n_total (qs_counts q)) \<and>
     (\<forall>v. qs_active q = Some v \<longrightarrow> v \<in> set (list_instances m2 False) \<and> iv_database_path v \<in> set (known_queue_paths k)))"
proof -
  let ?ks = "known_queues m1" and ?active = "active_by_database m2"
  let ?one = "\<lambda>(i, k). let initial = initial_summary env ?active k in
    case envs i of None \<Rightarrow> initial | Some e \<Rightarrow> populate_queue_summary e k initial"
  let ?summaries = "map ?one (List.enumerate 0 ?ks)"
  let ?k = "?ks ! i" and ?q = "?summaries ! i"
  have w: "w = write_json 200 (QueuesBody ?summaries (we_now env))"
    using assms(1) by (simp add: handle_queues_def Let_def split: if_splits)
  have q: "?q = (let initial = initial_summary env ?active ?k in
      case envs i of None \<Rightarrow> initial | Some e \<Rightarrow> populate_queue_summary e ?k initial)"
    using assms(2) by (simp add: nth_enumerate_eq)
  have fixed: "qs_id ?q = queue_id env (kq_identity ?k)" "qs_active ?q = qs_active (initial_summary env ?active ?k)"
    unfolding q by (simp_all add: populate_fields Let_def split: option.split) (simp_all add: initial_summary_def)
  have "(qs_database_state ?q = ''ready'' \<longleftrightarrow> (\<exists>e contents. envs i = Some e \<and> open_known_queue e ?k = Inr contents \<and>
        counts (we_engine e 0) (contents 0) = Inr (qs_counts ?q) \<and> we_close e = None \<and> qs_error ?q = []))"
  proof (cases "envs i")
    case None
    then show ?thesis unfolding q by (simp add: initial_summary_def Let_def)
  next
    case (Some e)
    then show ?thesis unfolding q
      using populate_ready[of e ?k "initial_summary env ?active ?k"] populate_counts[of e ?k _ _ "initial_summary env ?active ?k"]
      by (auto simp: Let_def)
  qed
  then show ?thesis
    using fixed active_listed[of env m2 ?k] counts_total
    by (intro exI[of _ ?summaries]) (auto simp: w write_json_def Let_def)
qed

theorem overview_truthful_witness:
  "\<exists>w. handle_queues demo_web (\<lambda>i. Some demo_web) False demo_manager demo_manager = Reply w \<and>
    (\<exists>q. ws_body w = QueuesBody [q] 9 \<and> qs_id q = ''71'')"
proof -
  have one: "length (known_queues demo_manager) = 1" by code_simp
  obtain w where w: "handle_queues demo_web (\<lambda>i. Some demo_web) False demo_manager demo_manager = Reply w"
    by (simp add: handle_queues_def Let_def)
  have "queue_id demo_web (kq_identity (known_queues demo_manager ! 0)) = ''71''" by code_simp
  with overview_truthful[OF w, of 0] one obtain summaries where
    "ws_body w = QueuesBody summaries 9" "length summaries = 1" "qs_id (summaries ! 0) = ''71''"
    by (auto simp: Let_def demo_web_def)
  with w show ?thesis by (cases summaries) auto
qed

section \<open>The token file\<close>

definition token_char :: "char \<Rightarrow> bool" where
  "token_char c \<longleftrightarrow> (48 \<le> byte c \<and> byte c \<le> 57) \<or> (65 \<le> byte c \<and> byte c \<le> 90) \<or>
    (97 \<le> byte c \<and> byte c \<le> 122) \<or> byte c = 45 \<or> byte c = 95"

lemma base64_chars: "c \<in> set (base64url bytes) \<Longrightarrow> \<exists>n. c = base64_char n"
  by (induction bytes rule: base64url.induct) auto

lemma base64_char_token: "token_char (base64_char n)"
  by (auto simp: base64_char_def token_char_def)

lemma trim_token:
  assumes "\<forall>c \<in> set s. token_char c" shows "trim_space (s @ [CHR 0x0A]) = s"
proof (cases "s = []")
  case True
  have "trim_space [CHR 0x0A] = []" by code_simp
  then show ?thesis using True by simp
next
  case False
  have heads: "list_all (\<lambda>p. p \<noteq> [] \<and> \<not> token_char (hd p) \<and> \<not> token_char (last p) \<and> (last p = CHR 0x0A \<longrightarrow> p = [CHR 0x0A])) space_encodings"
    by code_simp
  have no_prefix: "\<not> prefix p (s @ t)" if "p \<in> set space_encodings" for p t
    using heads that assms False by (cases p; cases s) (auto simp: list_all_iff)
  have no_suffix: "\<not> suffix p s" if "p \<in> set space_encodings" for p
  proof
    assume "suffix p s"
    then have "last p = last s" using heads that by (auto simp: list_all_iff suffix_def)
    then show False using heads that assms False by (auto simp: list_all_iff)
  qed
  have "suffix p (s @ [CHR 0x0A]) \<longleftrightarrow> p = [CHR 0x0A]" if "p \<in> set space_encodings" for p
  proof
    assume suf: "suffix p (s @ [CHR 0x0A])"
    have "p \<noteq> []" using heads that by (auto simp: list_all_iff)
    moreover from suf obtain zs where "s @ [CHR 0x0A] = zs @ p" by (auto simp: suffix_def)
    ultimately have "last p = CHR 0x0A" by (metis last_appendR last_snoc)
    then show "p = [CHR 0x0A]" using heads that by (auto simp: list_all_iff)
  qed simp
  then have "List.find (\<lambda>p. suffix p (s @ [CHR 0x0A])) space_encodings = List.find (\<lambda>p. p = [CHR 0x0A]) space_encodings"
    by (intro find_cong) auto
  also have "\<dots> = Some [CHR 0x0A]" by code_simp
  finally have "trailing_space (s @ [CHR 0x0A]) = 1" by (simp add: trailing_space_def)
  moreover have "List.find (\<lambda>p. suffix p s) space_encodings = None"
    "List.find (\<lambda>p. prefix p (s @ [CHR 0x0A])) space_encodings = None"
    unfolding find_None_iff using no_suffix no_prefix by blast+
  then have "trailing_space s = 0" "leading_space (s @ [CHR 0x0A]) = 0"
    by (simp_all only: trailing_space_def leading_space_def option.simps)
  ultimately show ?thesis
    by (simp add: trim_space_def trim_left.simps[of "s @ [CHR 0x0A]"] trim_right.simps[of "s @ [CHR 0x0A]"] trim_right.simps[of s])
qed

lemma base64_trim: "trim_space (base64url bytes @ [CHR 0x0A]) = base64url bytes"
  by (rule trim_token) (use base64_chars base64_char_token in blast)

lemma write_access_token_ok:
  assumes "write_access_token te filename files = (Inr token, files')"
    and "\<And>name. te_temporary te = Inr name \<Longrightarrow> files name = None \<and> name \<noteq> filename"
  shows "files' = files(filename \<mapsto> token @ [CHR 0x0A]) \<and> trim_space (token @ [CHR 0x0A]) = token"
  using assms
  by (auto simp: write_access_token_def Let_def base64_trim fun_upd_twist split: sum.splits prod.splits if_splits option.splits)

lemma write_access_token_failed:
  assumes "write_access_token te filename files = (Inl e, files')" and "te_removes te"
    and "\<And>name. te_temporary te = Inr name \<Longrightarrow> files name = None \<and> name \<noteq> filename"
  shows "files' = files"
  using assms
  by (auto simp: write_access_token_def Let_def remove_file_def fun_upd_idem split: sum.splits prod.splits if_splits option.splits)

text \<open>C20: The token file is installed whole or not at all, and taken away again: a web server that fails to start
  leaves no listener behind and the files as they were (or without the token it had installed); one that starts
  has put its token in place, alone on its line, and nothing else; closing it removes that file, and no file
  that another server has put there since.\<close>

theorem web_token_lifecycle:
  assumes "new_server ne address path files = (started, left)" and "te_removes (ne_token ne)"
    and "\<And>name. te_temporary (ne_token ne) = Inr name \<Longrightarrow> files name = None \<and> name \<noteq> trim_space path"
  shows "(case started of
      Inl e \<Rightarrow> \<not> li_listener left \<and> li_files left \<in> {files, files(trim_space path := None)}
    | Inr (token, wildcard) \<Rightarrow> li_listener left \<and> li_files left = files(trim_space path \<mapsto> token @ [CHR 0x0A]) \<and>
        (\<forall>http listener now. cl_files (snd (close_server (ne_token ne) (trim_space path) token http listener
             \<lparr>cl_answer = None, cl_files = now\<rparr>)) =
           (if (\<exists>t. now (trim_space path) = Some t \<and> trim_space t = token) then now(trim_space path := None) else now)) \<and>
        trim_space (token @ [CHR 0x0A]) = token)"
proof -
  note ok = write_access_token_ok[of "ne_token ne" "trim_space path" files, OF _ assms(3)]
    and bad = write_access_token_failed[of "ne_token ne" "trim_space path" files, OF _ assms(2,3)]
  have closing: "cl_files (snd (close_server (ne_token ne) (trim_space path) token http listener
             \<lparr>cl_answer = None, cl_files = now\<rparr>)) =
           (if (\<exists>t. now (trim_space path) = Some t \<and> trim_space t = token) then now(trim_space path := None) else now)"
    for token http listener now
    using assms(2) by (auto simp: close_server_def remove_access_token_def remove_file_def Let_def split: option.split)
  show ?thesis
    using assms(1,2) ok bad closing
    by (auto simp: new_server_def remove_access_token_def remove_file_def Let_def split: sum.splits if_splits prod.splits option.splits)
qed

definition demo_new :: new_env where
  "demo_new =
    \<lparr>ne_manager = True, ne_equal_fold = (=), ne_listen = Inr (Some (replicate 10 0 @ [255, 255, 127, 0, 0, 1])),
     ne_token = \<lparr>te_directory = Inr (True, 448), te_random = Inr [1, 2, 3], te_temporary = Inr ''/run/t'', te_chmod = None,
       te_write = None, te_sync = None, te_close = None, te_rename = None, te_removes = True\<rparr>,
     ne_handler = None\<rparr>"

lemma demo_new_server: "fst (new_server demo_new ''127.0.0.1:8080'' ''/run/web'' (\<lambda>f. None)) = Inr (''AQID'', False)"
  by code_simp

theorem web_token_lifecycle_witness:
  "li_files (snd (new_server demo_new ''127.0.0.1:8080'' ''/run/web'' (\<lambda>f. None))) = [''/run/web'' \<mapsto> ''AQID'' @ [CHR 0x0A]]"
proof -
  have path: "trim_space ''/run/web'' = ''/run/web''" by code_simp
  obtain left where run: "new_server demo_new ''127.0.0.1:8080'' ''/run/web'' (\<lambda>f. None) = (Inr (''AQID'', False), left)"
    using demo_new_server by (cases "new_server demo_new ''127.0.0.1:8080'' ''/run/web'' (\<lambda>f. None)") simp
  have "te_removes (ne_token demo_new)" by (simp add: demo_new_def)
  from web_token_lifecycle[OF run this] show ?thesis using run path by (simp add: demo_new_def)
qed

end
