(* ===== verification/ControlSocket.thy ===== *)
theory ControlSocket
  imports ManagerNames
begin

text \<open>
  How daemons share one control socket (\<open>NewServer\<close>, \<open>Serve\<close> and \<open>Close\<close> of \<open>control/server.go\<close>): the
  private directory, the lock file, the probe of a socket left behind, and the release of what a server owns,
  as a state machine of any number of daemons on one path. A step is one call of the operating system by one
  daemon; daemons may die at any moment, and the kernel then takes back their lock and their listener. A call
  may also fail for a reason of its own (\<open>sa_fault\<close>).
\<close>

section \<open>The directory and the lock\<close>

record directory_info =
  di_symlink :: bool
  di_dir :: bool
  di_perm :: nat
  di_uid :: int

record directory_answers =
  da_lstat :: "directory_info result"
  da_mkdir :: "go_error option"
  da_chmod :: "go_error option"
  da_created :: "directory_info result"
  da_euid :: int

abbreviation absent :: "go_error \<Rightarrow> bool" where
  "absent \<equiv> errors_is ''file does not exist''"

definition octal4 :: "nat \<Rightarrow> string" where
  "octal4 n = [digit_char (n div 512 mod 8), digit_char (n div 64 mod 8), digit_char (n div 8 mod 8), digit_char (n mod 8)]"

definition directory_error :: "string \<Rightarrow> string \<Rightarrow> go_error \<Rightarrow> go_error" where
  "directory_error what directory e = Wrapped [T (''control: '' @ what @ '' socket directory ''), T directory, T '': ''] e []"

definition check_socket_directory :: "int \<Rightarrow> string \<Rightarrow> directory_info result \<Rightarrow> go_error option" where
  "check_socket_directory euid directory lstat =
    (case lstat of
       Inl e \<Rightarrow> Some (directory_error ''inspect'' directory e)
     | Inr info \<Rightarrow>
         if di_symlink info \<or> \<not> di_dir info
         then Some (ErrorString [T ''control: socket parent '', T directory, T '' is not a directory''])
         else if di_perm info \<noteq> 448
         then Some (ErrorString [T ''control: socket parent '', T directory, T '' must have mode 0700 (has '', T (octal4 (di_perm info)), T '')''])
         else if di_uid info \<noteq> euid
         then Some (ErrorString [T ''control: socket parent '', T directory, T '' is not owned by uid '', D euid])
         else None)"

definition ensure_private_socket_directory :: "directory_answers \<Rightarrow> string \<Rightarrow> go_error option" where
  "ensure_private_socket_directory da directory =
    (case da_lstat da of
       Inl e \<Rightarrow>
         if absent e then
           (case da_mkdir da of
              Some e \<Rightarrow> Some (directory_error ''create'' directory e)
            | None \<Rightarrow>
           (case da_chmod da of
              Some e \<Rightarrow> Some (directory_error ''protect'' directory e)
            | None \<Rightarrow> check_socket_directory (da_euid da) directory (da_created da)))
         else check_socket_directory (da_euid da) directory (Inl e)
     | Inr info \<Rightarrow> check_socket_directory (da_euid da) directory (Inr info))"

definition err_daemon_already_running :: go_error where
  "err_daemon_already_running = Sentinel ''control: daemon already running''"

text \<open>\<open>la_lstat\<close> says whether the lock file is a regular file.\<close>

record lock_answers =
  la_lstat :: "bool result"
  la_open :: "go_error option"
  la_flock :: "go_error option"
  la_chmod :: "go_error option"

definition lock_error :: "string \<Rightarrow> string \<Rightarrow> go_error \<Rightarrow> go_error" where
  "lock_error what filename e = Wrapped [T (''control: '' @ what), T filename, T '': ''] e []"

text \<open>\<open>held\<close>: another process has the lock, so that \<open>flock\<close> fails with \<open>EWOULDBLOCK\<close>. The lock is held
  afterwards exactly when there is no error.\<close>

definition acquire_socket_lock :: "lock_answers \<Rightarrow> bool \<Rightarrow> string \<Rightarrow> go_error option" where
  "acquire_socket_lock la is_held filename =
    (case la_lstat la of
       Inr False \<Rightarrow> Some (ErrorString [T ''control: socket lock '', T filename, T '' is not a regular file''])
     | lstat \<Rightarrow>
    (case (case lstat of Inl e \<Rightarrow> if absent e then None else Some e | Inr _ \<Rightarrow> None) of
       Some e \<Rightarrow> Some (lock_error ''inspect socket lock '' filename e)
     | None \<Rightarrow>
    (case la_open la of
       Some e \<Rightarrow> Some (lock_error ''open socket lock '' filename e)
     | None \<Rightarrow>
    (case (if is_held then Some (Sentinel ''resource temporarily unavailable'') else la_flock la) of
       Some e \<Rightarrow>
         if errors_is ''resource temporarily unavailable'' e
         then Some (Wrapped [] err_daemon_already_running [T '' at '', T (trim_suffix ''.lock'' filename)])
         else Some (lock_error ''lock socket '' filename e)
     | None \<Rightarrow> map_option (lock_error ''protect socket lock '' filename) (la_chmod la)))))"

section \<open>The path, and what Serve and Close answer\<close>

text \<open>\<open>cache\<close> is \<open>os.UserCacheDir\<close>, \<open>temporary\<close> is \<open>os.TempDir\<close>.\<close>

definition resolve_socket_path :: "(string \<Rightarrow> string) \<Rightarrow> string result \<Rightarrow> string \<Rightarrow> int \<Rightarrow> string \<Rightarrow> string" where
  "resolve_socket_path getenv cache temporary euid explicit =
    (let runtime = trim_space (getenv ''XDG_RUNTIME_DIR'') in
     if trim_space explicit \<noteq> [] then clean (trim_space explicit)
     else if trim_space (getenv ''ONDERZEEER_SOCKET'') \<noteq> [] then clean (trim_space (getenv ''ONDERZEEER_SOCKET''))
     else if runtime \<noteq> [] then join_path [runtime, ''onderzeeer'', ''onderzeeer.sock'']
     else
       (case cache of
          Inr directory \<Rightarrow>
            if \<not> blank directory then join_path [directory, ''onderzeeer'', ''onderzeeer.sock'']
            else join_path [temporary, ''onderzeeer-'' @ format_int euid, ''onderzeeer.sock'']
        | Inl e \<Rightarrow> join_path [temporary, ''onderzeeer-'' @ format_int euid, ''onderzeeer.sock'']))"

definition ignore_closed :: "go_error option \<Rightarrow> go_error option" where
  "ignore_closed failed =
    (case failed of
       Some e \<Rightarrow>
         if errors_is ''http: Server closed'' e \<or> errors_is ''use of closed network connection'' e then None else Some e
     | None \<Rightarrow> None)"

text \<open>\<open>closeNetwork\<close>; the first call decides, the others repeat its answer.\<close>

definition network_answer :: "go_error option \<Rightarrow> go_error option \<Rightarrow> go_error option" where
  "network_answer http_err listener_err =
    errors_join
      [ignore_closed http_err,
       (case listener_err of Some e \<Rightarrow> if errors_is ''use of closed network connection'' e then None else Some e | None \<Rightarrow> None)]"

text \<open>The guards of \<open>Serve\<close>, and the errors \<open>Serve\<close> and \<open>Close\<close> join: ownership is released only when the
  manager has shut down.\<close>

definition serve_refused :: "bool \<Rightarrow> bool \<Rightarrow> go_error option" where
  "serve_refused closed served =
    (if closed then Some (Sentinel ''control: server is closed'')
     else if served then Some (new_error ''control: Serve may only be called once'') else None)"

definition serve_answer :: "go_error option \<Rightarrow> go_error option \<Rightarrow> go_error option \<Rightarrow> go_error option \<Rightarrow> go_error option" where
  "serve_answer serve_err network_err manager_err released =
    errors_join [ignore_closed serve_err, network_err, manager_err, if manager_err = None then released else None]"

definition close_answer :: "go_error option \<Rightarrow> go_error option \<Rightarrow> go_error option \<Rightarrow> go_error option" where
  "close_answer network_err manager_err released =
    (if manager_err \<noteq> None then errors_join [network_err, manager_err] else errors_join [network_err, released])"

section \<open>The socket\<close>

text \<open>What is at the path: nothing, a file that is no socket, or a socket with its inode and who listens on it:
  nobody any more, some other program, or a daemon.\<close>

datatype listener = Nobody | Foreign | Daemon nat

datatype socket_entry = NoEntry | OtherFile | SocketFile nat listener

text \<open>Where a daemon is: \<open>Inspecting\<close> to \<open>Unlinking\<close> in \<open>prepareSocketPath\<close>, \<open>Binding\<close> to \<open>Identifying\<close> in
  the rest of \<open>NewServer\<close>; \<open>Owning\<close> once it returned; \<open>Abandoning\<close> and \<open>Withdrawing\<close> in its deferred cleanup;
  \<open>Draining\<close> until the manager has shut down; \<open>Dropping\<close> and \<open>Removing\<close> in \<open>removeOwnedSocket\<close>.\<close>

datatype server_pc =
    Idle
  | Inspecting
  | Probing nat
  | Rechecking nat
  | Unlinking nat
  | Binding
  | Protecting
  | Identifying
  | Owning "nat option"
  | Draining "nat option"
  | Dropping "nat option"
  | Removing
  | Abandoning go_error
  | Withdrawing go_error
  | Unlocking "go_error option"
  | Ended "go_error option"

record socket_world =
  sw_holder :: "nat option"
  sw_entry :: socket_entry
  sw_pc :: "nat \<Rightarrow> server_pc"

record socket_answers =
  sa_directory :: directory_answers
  sa_lock :: lock_answers
  sa_fault :: "go_error option"
  sa_inode :: nat

text \<open>The answers of \<open>Lstat\<close> (the inode of a socket, \<open>None\<close> for another file), of a connection attempt, and
  of \<open>Remove\<close>. A connection is refused only when nobody listens.\<close>

definition lstat_entry :: "go_error option \<Rightarrow> socket_entry \<Rightarrow> nat option result" where
  "lstat_entry fault entry =
    (case fault of
       Some e \<Rightarrow> Inl e
     | None \<Rightarrow>
         (case entry of
            NoEntry \<Rightarrow> Inl (Sentinel ''file does not exist'')
          | OtherFile \<Rightarrow> Inr None
          | SocketFile i l \<Rightarrow> Inr (Some i)))"

definition proves_stale :: "go_error \<Rightarrow> bool" where
  "proves_stale e \<longleftrightarrow> errors_is ''connection refused'' e \<or> absent e"

definition listened :: "socket_entry \<Rightarrow> bool" where
  "listened entry \<longleftrightarrow> (\<exists>i l. entry = SocketFile i l \<and> l \<noteq> Nobody)"

definition dial_error :: "go_error option \<Rightarrow> socket_entry \<Rightarrow> go_error option" where
  "dial_error fault entry =
    (case fault of
       Some e \<Rightarrow> if listened entry \<and> proves_stale e then None else Some e
     | None \<Rightarrow> if listened entry then None else Some (Sentinel ''connection refused''))"

definition remove_entry :: "go_error option \<Rightarrow> socket_entry \<Rightarrow> go_error option \<times> socket_entry" where
  "remove_entry fault entry =
    (case fault of
       Some e \<Rightarrow> (Some e, entry)
     | None \<Rightarrow> if entry = NoEntry then (Some (Sentinel ''file does not exist''), entry) else (None, NoEntry))"

text \<open>A listener that closes: the socket stays at the path.\<close>

definition silence :: "nat \<Rightarrow> socket_entry \<Rightarrow> socket_entry" where
  "silence p entry =
    (case entry of SocketFile i l \<Rightarrow> if l = Daemon p then SocketFile i Nobody else entry | _ \<Rightarrow> entry)"

definition socket_error :: "string \<Rightarrow> string \<Rightarrow> go_error \<Rightarrow> go_error" where
  "socket_error what path e = Wrapped [T (''control: '' @ what), T path, T '': ''] e []"

section \<open>The steps of a daemon\<close>

definition already_running :: "string \<Rightarrow> go_error" where
  "already_running path = Wrapped [] err_daemon_already_running [T '' at '', T path]"

text \<open>\<open>prepareSocketPath\<close>, section by section.\<close>

definition inspect_socket :: "string \<Rightarrow> nat option result \<Rightarrow> server_pc" where
  "inspect_socket path lstat =
    (case lstat of
       Inl e \<Rightarrow> if absent e then Binding else Unlocking (Some (socket_error ''inspect socket '' path e))
     | Inr None \<Rightarrow> Unlocking (Some (ErrorString [T ''control: refusing to replace non-socket path '', T path]))
     | Inr (Some i) \<Rightarrow> Probing i)"

definition probe_socket :: "string \<Rightarrow> nat \<Rightarrow> go_error option \<Rightarrow> server_pc" where
  "probe_socket path i dialed =
    (case dialed of
       None \<Rightarrow> Unlocking (Some (already_running path))
     | Some e \<Rightarrow>
         if \<not> proves_stale e
         then Unlocking (Some (Wrapped [T ''control: cannot prove existing socket '', T path, T '' is stale: ''] e []))
         else Rechecking i)"

definition recheck_socket :: "string \<Rightarrow> nat \<Rightarrow> nat option result \<Rightarrow> server_pc" where
  "recheck_socket path i lstat =
    (case lstat of
       Inl e \<Rightarrow> if absent e then Binding else Unlocking (Some (socket_error ''re-inspect stale socket '' path e))
     | Inr current \<Rightarrow>
         if current \<noteq> Some i
         then Unlocking (Some (ErrorString [T ''control: socket '', T path, T '' changed while checking whether it was stale'']))
         else Unlinking i)"

text \<open>\<open>removeOwnedSocket\<close> up to the removal.\<close>

definition drop_socket :: "string \<Rightarrow> nat option \<Rightarrow> nat option result \<Rightarrow> server_pc" where
  "drop_socket path owned lstat =
    (case lstat of
       Inl e \<Rightarrow> if absent e then Unlocking None else Unlocking (Some (socket_error ''inspect owned socket '' path e))
     | Inr current \<Rightarrow> if current = None \<or> current \<noteq> owned then Unlocking None else Removing)"

definition set_pc :: "nat \<Rightarrow> server_pc \<Rightarrow> socket_world \<Rightarrow> socket_world" where
  "set_pc p pc w = w\<lparr>sw_pc := (sw_pc w)(p := pc)\<rparr>"

definition server_turn :: "string \<Rightarrow> nat \<Rightarrow> socket_answers \<Rightarrow> socket_world \<Rightarrow> socket_world" where
  "server_turn path p sa w =
    (let fault = sa_fault sa; entry = sw_entry w; lstat = lstat_entry fault entry in
     case sw_pc w p of
       Idle \<Rightarrow>
         (case ensure_private_socket_directory (sa_directory sa) (dir_path path) of
            Some e \<Rightarrow> set_pc p (Ended (Some e)) w
          | None \<Rightarrow>
         (case acquire_socket_lock (sa_lock sa) (sw_holder w \<noteq> None) (path @ ''.lock'') of
            Some e \<Rightarrow> set_pc p (Ended (Some e)) w
          | None \<Rightarrow> set_pc p Inspecting (w\<lparr>sw_holder := Some p\<rparr>)))
     | Inspecting \<Rightarrow> set_pc p (inspect_socket path lstat) w
     | Probing i \<Rightarrow> set_pc p (probe_socket path i (dial_error fault entry)) w
     | Rechecking i \<Rightarrow> set_pc p (recheck_socket path i lstat) w
     | Unlinking i \<Rightarrow>
         (case remove_entry fault entry of
            (Some e, entry') \<Rightarrow> set_pc p (Unlocking (Some (socket_error ''remove stale socket '' path e))) w
          | (None, entry') \<Rightarrow> set_pc p Binding (w\<lparr>sw_entry := entry'\<rparr>))
     | Binding \<Rightarrow>
         (case (if entry \<noteq> NoEntry \<and> fault = None then Some (Sentinel ''address already in use'') else fault) of
            Some e \<Rightarrow> set_pc p (Unlocking (Some (socket_error ''listen on '' path e))) w
          | None \<Rightarrow> set_pc p Protecting (w\<lparr>sw_entry := SocketFile (sa_inode sa) (Daemon p)\<rparr>))
     | Protecting \<Rightarrow>
         (case fault of
            Some e \<Rightarrow> set_pc p (Abandoning (socket_error ''protect socket '' path e)) w
          | None \<Rightarrow> set_pc p Identifying w)
     | Identifying \<Rightarrow>
         (case lstat of
            Inl e \<Rightarrow> set_pc p (Abandoning (socket_error ''inspect socket '' path e)) w
          | Inr info \<Rightarrow> set_pc p (Owning info) w)
     | Owning info \<Rightarrow> set_pc p (Draining info) (w\<lparr>sw_entry := silence p entry\<rparr>)
     | Draining info \<Rightarrow> (if fault = None then set_pc p (Dropping info) w else w)
     | Dropping info \<Rightarrow> set_pc p (drop_socket path info lstat) w
     | Removing \<Rightarrow>
         (case remove_entry fault entry of
            (Some e, entry') \<Rightarrow>
              set_pc p (Unlocking (if absent e then None else Some (socket_error ''remove socket '' path e))) w
          | (None, entry') \<Rightarrow> set_pc p (Unlocking None) (w\<lparr>sw_entry := entry'\<rparr>))
     | Abandoning e \<Rightarrow> set_pc p (Withdrawing e) (w\<lparr>sw_entry := silence p entry\<rparr>)
     | Withdrawing e \<Rightarrow> set_pc p (Unlocking (Some e)) (w\<lparr>sw_entry := snd (remove_entry fault entry)\<rparr>)
     | Unlocking failed \<Rightarrow>
         set_pc p (Ended (errors_join [failed, fault])) (w\<lparr>sw_holder := None\<rparr>)
     | Ended failed \<Rightarrow> w)"

text \<open>The death of a daemon: the kernel closes its files.\<close>

definition server_dies :: "nat \<Rightarrow> socket_world \<Rightarrow> socket_world" where
  "server_dies p w =
    set_pc p (Ended None)
      (w\<lparr>sw_holder := (if sw_holder w = Some p then None else sw_holder w), sw_entry := silence p (sw_entry w)\<rparr>)"

inductive socket_step :: "string \<Rightarrow> socket_world \<Rightarrow> socket_world \<Rightarrow> bool" for path where
  turn: "socket_step path w (server_turn path p sa w)"
| dies: "socket_step path w (server_dies p w)"
| foreign_ends: "sw_entry w = SocketFile i Foreign \<Longrightarrow> socket_step path w (w\<lparr>sw_entry := SocketFile i Nobody\<rparr>)"

inductive_cases socket_stepE: "socket_step path w w'"

inductive socket_reachable :: "string \<Rightarrow> socket_world \<Rightarrow> bool" for path where
  start: "(\<And>i p. entry \<noteq> SocketFile i (Daemon p)) \<Longrightarrow>
    socket_reachable path \<lparr>sw_holder = None, sw_entry = entry, sw_pc = (\<lambda>p. Idle)\<rparr>"
| step: "socket_reachable path w \<Longrightarrow> socket_step path w w' \<Longrightarrow> socket_reachable path w'"

section \<open>The invariant\<close>

definition holds_lock :: "server_pc \<Rightarrow> bool" where
  "holds_lock pc \<longleftrightarrow> pc \<noteq> Idle \<and> (\<forall>e. pc \<noteq> Ended e)"

definition listens :: "server_pc \<Rightarrow> bool" where
  "listens pc \<longleftrightarrow> (case pc of Protecting \<Rightarrow> True | Identifying \<Rightarrow> True | Owning i \<Rightarrow> True | Abandoning e \<Rightarrow> True | _ \<Rightarrow> False)"

text \<open>What a daemon knows of the entry at each point.\<close>

definition entry_ok :: "nat \<Rightarrow> server_pc \<Rightarrow> socket_entry \<Rightarrow> bool" where
  "entry_ok p pc entry \<longleftrightarrow>
    (case pc of
       Probing i \<Rightarrow> (\<exists>l. entry = SocketFile i l)
     | Rechecking i \<Rightarrow> entry = SocketFile i Nobody
     | Unlinking i \<Rightarrow> entry = SocketFile i Nobody
     | Protecting \<Rightarrow> (\<exists>i. entry = SocketFile i (Daemon p))
     | Identifying \<Rightarrow> (\<exists>i. entry = SocketFile i (Daemon p))
     | Owning info \<Rightarrow> (\<exists>i. info = Some i \<and> entry = SocketFile i (Daemon p))
     | Abandoning e \<Rightarrow> (\<exists>i. entry = SocketFile i (Daemon p))
     | Draining info \<Rightarrow> (\<exists>i. info = Some i \<and> entry = SocketFile i Nobody)
     | Dropping info \<Rightarrow> (\<exists>i. info = Some i \<and> entry = SocketFile i Nobody)
     | Removing \<Rightarrow> (\<exists>i. entry = SocketFile i Nobody)
     | Withdrawing e \<Rightarrow> (\<exists>i. entry = SocketFile i Nobody)
     | _ \<Rightarrow> True)"

definition socket_inv :: "socket_world \<Rightarrow> bool" where
  "socket_inv w \<longleftrightarrow>
    (\<forall>p. holds_lock (sw_pc w p) \<longleftrightarrow> sw_holder w = Some p) \<and>
    (\<forall>p. entry_ok p (sw_pc w p) (sw_entry w)) \<and>
    (\<forall>i p. sw_entry w = SocketFile i (Daemon p) \<longrightarrow> listens (sw_pc w p))"

lemma listens_holds: "listens pc \<Longrightarrow> holds_lock pc"
  by (cases pc) (simp_all add: listens_def holds_lock_def)

lemma unlocked_ok: "\<not> holds_lock pc \<Longrightarrow> entry_ok p pc entry"
  by (cases pc) (simp_all add: entry_ok_def holds_lock_def)

lemma pc_simps [simp]:
  "\<not> holds_lock Idle" "\<not> holds_lock (Ended failed)" "holds_lock Inspecting" "holds_lock (Probing i)" "holds_lock (Rechecking i)"
  "holds_lock (Unlinking i)" "holds_lock Binding" "holds_lock Protecting" "holds_lock Identifying" "holds_lock (Owning info)"
  "holds_lock (Draining info)" "holds_lock (Dropping info)" "holds_lock Removing" "holds_lock (Abandoning e)"
  "holds_lock (Withdrawing e)" "holds_lock (Unlocking failed)"
  by (simp_all add: holds_lock_def)

lemma set_pc_simps [simp]:
  "sw_holder (set_pc p pc w) = sw_holder w" "sw_entry (set_pc p pc w) = sw_entry w"
  "sw_pc (set_pc p pc w) = (sw_pc w)(p := pc)"
  by (simp_all add: set_pc_def)

lemma holder_alone:
  assumes "socket_inv w" and "sw_holder w = Some p" and "q \<noteq> p"
  shows "\<not> holds_lock (sw_pc w q)"
  using assms by (simp add: socket_inv_def)

lemma daemon_entry:
  assumes "socket_inv w" and "sw_entry w = SocketFile i (Daemon q)"
  shows "sw_holder w = Some q \<and> listens (sw_pc w q)"
  using assms listens_holds by (auto simp: socket_inv_def)

text \<open>The holder of the lock moves on: only what it knows itself has to hold.\<close>

lemma holder_moves:
  assumes inv: "socket_inv w" and hold: "sw_holder w = Some p" and pc: "holds_lock pc"
    and entry: "entry_ok p pc entry" and own: "\<And>i q. entry = SocketFile i (Daemon q) \<Longrightarrow> q = p \<and> listens pc"
  shows "socket_inv (set_pc p pc (w\<lparr>sw_entry := entry\<rparr>))"
  using assms holder_alone[OF inv hold] by (auto simp: socket_inv_def intro: unlocked_ok)

lemma holder_waits:
  assumes inv: "socket_inv w" and hold: "sw_holder w = Some p" and pc: "holds_lock pc"
    and entry: "entry_ok p pc (sw_entry w)" and own: "listens (sw_pc w p) \<Longrightarrow> listens pc"
  shows "socket_inv (set_pc p pc w)"
proof -
  have "q = p \<and> listens pc" if "sw_entry w = SocketFile i (Daemon q)" for i q
    using daemon_entry[OF inv that] hold own by simp
  from holder_moves[OF inv hold pc entry this] show ?thesis by simp
qed

lemma holder_leaves:
  assumes inv: "socket_inv w" and hold: "sw_holder w = Some p" and quiet: "\<And>i q. entry \<noteq> SocketFile i (Daemon q)"
  shows "socket_inv (set_pc p (Ended e) (w\<lparr>sw_holder := None, sw_entry := entry\<rparr>))"
  using assms holder_alone[OF inv hold] by (auto simp: socket_inv_def intro: unlocked_ok)

lemma silence_daemon: "silence p entry = SocketFile i (Daemon q) \<Longrightarrow> entry = SocketFile i (Daemon q) \<and> q \<noteq> p"
  by (auto simp: silence_def split: socket_entry.splits if_splits)

lemma silence_own [simp]: "silence p (SocketFile i (Daemon p)) = SocketFile i Nobody"
  by (simp add: silence_def)

lemma server_turn_inv:
  assumes inv: "socket_inv w" shows "socket_inv (server_turn path p sa w)"
proof (cases "holds_lock (sw_pc w p)")
  case False
  then consider "sw_pc w p = Idle" | e where "sw_pc w p = Ended e" by (auto simp: holds_lock_def)
  then show ?thesis
  proof cases
    case 1
    have stays: "socket_inv (set_pc p (Ended e) w)" for e
      using inv False listens_holds by (auto simp: socket_inv_def intro: unlocked_ok)
    have "socket_inv (set_pc p Inspecting (w\<lparr>sw_holder := Some p\<rparr>))"
      if free: "acquire_socket_lock la (sw_holder w \<noteq> None) f = None" for la f
    proof -
      have none: "sw_holder w = None"
        using free by (auto simp: acquire_socket_lock_def lock_error_def split: sum.splits bool.splits option.splits if_splits)
      then have "sw_entry w \<noteq> SocketFile i (Daemon q)" for i q using daemon_entry[OF inv] by auto
      then show ?thesis using inv none by (auto simp: socket_inv_def entry_ok_def intro: unlocked_ok)
    qed
    then show ?thesis using 1 stays by (auto simp: server_turn_def Let_def split: option.split)
  next
    case 2
    then show ?thesis using inv by (simp add: server_turn_def Let_def)
  qed
next
  case True
  then have hold: "sw_holder w = Some p" using inv by (simp add: socket_inv_def)
  have ok: "entry_ok p (sw_pc w p) (sw_entry w)" using inv by (simp add: socket_inv_def)
  note waits = holder_waits[OF inv hold] and moves = holder_moves[OF inv hold] and own = daemon_entry[OF inv]
  have inspect: "socket_inv (set_pc p (inspect_socket path (lstat_entry f (sw_entry w))) w)" if "sw_pc w p = Inspecting" for f
    using that by (intro waits) (auto simp: inspect_socket_def lstat_entry_def entry_ok_def listens_def split: sum.split option.split socket_entry.split)
  have probe: "socket_inv (set_pc p (probe_socket path i (dial_error f (sw_entry w))) w)" if "sw_pc w p = Probing i" for f i
    using that ok by (intro waits) (auto simp: probe_socket_def dial_error_def entry_ok_def listens_def listened_def split: option.split if_splits)
  have recheck: "socket_inv (set_pc p (recheck_socket path i (lstat_entry f (sw_entry w))) w)" if "sw_pc w p = Rechecking i" for f i
    using that ok by (intro waits) (auto simp: recheck_socket_def lstat_entry_def entry_ok_def listens_def split: sum.split option.split)
  have drop: "socket_inv (set_pc p (drop_socket path info (lstat_entry f (sw_entry w))) w)" if "sw_pc w p = Dropping info" for f info
    using that ok by (intro waits) (auto simp: drop_socket_def lstat_entry_def entry_ok_def listens_def split: sum.split option.split)
  have gone: "socket_inv (set_pc p pc (w\<lparr>sw_entry := NoEntry\<rparr>))" if "pc = Binding \<or> (\<exists>e. pc = Unlocking e)" for pc
    using that by (intro moves) (auto simp: entry_ok_def)
  have unlock: "socket_inv (set_pc p (Unlocking e) w)" if "\<not> listens (sw_pc w p)" for e
    using that by (intro waits) (auto simp: entry_ok_def)
  show ?thesis
  proof (cases "sw_pc w p")
    case Inspecting
    then show ?thesis using inspect by (simp add: server_turn_def Let_def)
  next
    case (Probing i)
    then show ?thesis using probe by (simp add: server_turn_def Let_def)
  next
    case (Rechecking i)
    then show ?thesis using recheck by (simp add: server_turn_def Let_def)
  next
    case (Unlinking i)
    then show ?thesis using gone unlock
      by (auto simp: server_turn_def Let_def remove_entry_def listens_def split: option.split)
  next
    case Binding
    have "socket_inv (set_pc p Protecting (w\<lparr>sw_entry := SocketFile i (Daemon p)\<rparr>))" for i
      by (intro moves) (auto simp: entry_ok_def listens_def)
    then show ?thesis using Binding unlock by (simp add: server_turn_def Let_def listens_def split: option.split)
  next
    case Protecting
    then show ?thesis using ok waits
      by (auto simp: server_turn_def Let_def entry_ok_def listens_def split: option.split)
  next
    case Identifying
    then show ?thesis using ok waits
      by (auto simp: server_turn_def Let_def entry_ok_def listens_def lstat_entry_def split: option.split)
  next
    case (Owning info)
    then show ?thesis using ok
      by (auto simp: server_turn_def Let_def entry_ok_def listens_def intro!: moves)
  next
    case (Draining info)
    then show ?thesis using ok waits inv
      by (auto simp: server_turn_def Let_def entry_ok_def listens_def)
  next
    case (Dropping info)
    then show ?thesis using drop by (simp add: server_turn_def Let_def)
  next
    case Removing
    then show ?thesis using gone unlock
      by (auto simp: server_turn_def Let_def remove_entry_def listens_def split: option.split)
  next
    case (Abandoning e)
    then show ?thesis using ok
      by (auto simp: server_turn_def Let_def entry_ok_def listens_def intro!: moves)
  next
    case (Withdrawing e)
    then show ?thesis using ok gone unlock
      by (auto simp: server_turn_def Let_def entry_ok_def listens_def remove_entry_def split: option.split)
  next
    case (Unlocking e)
    have "sw_entry w \<noteq> SocketFile i (Daemon q)" for i q
      using own hold Unlocking by (auto simp: listens_def)
    from holder_leaves[OF inv hold this, of "errors_join [e, sa_fault sa]"] Unlocking show ?thesis
      by (simp add: server_turn_def Let_def)
  qed (use True in simp_all)
qed

lemma server_dies_inv:
  assumes inv: "socket_inv w" shows "socket_inv (server_dies p w)"
proof (cases "holds_lock (sw_pc w p)")
  case True
  then have hold: "sw_holder w = Some p" using inv by (simp add: socket_inv_def)
  have "silence p (sw_entry w) \<noteq> SocketFile i (Daemon q)" for i q
    using daemon_entry[OF inv] hold silence_daemon by fastforce
  from holder_leaves[OF inv hold this, of None] hold show ?thesis by (simp add: server_dies_def)
next
  case False
  then have other: "sw_holder w \<noteq> Some p" using inv by (simp add: socket_inv_def)
  have "silence p (sw_entry w) = sw_entry w"
    using daemon_entry[OF inv] other by (auto simp: silence_def split: socket_entry.split)
  then show ?thesis using inv False other listens_holds
    by (auto simp: server_dies_def socket_inv_def intro: unlocked_ok)
qed

lemma foreign_ends_inv:
  assumes inv: "socket_inv w" and foreign: "sw_entry w = SocketFile i Foreign"
  shows "socket_inv (w\<lparr>sw_entry := SocketFile i Nobody\<rparr>)"
proof -
  have "entry_ok p (sw_pc w p) (SocketFile i Nobody)" for p
  proof -
    have "entry_ok p (sw_pc w p) (SocketFile i Foreign)" using inv foreign by (auto simp: socket_inv_def)
    then show ?thesis by (auto simp: entry_ok_def split: server_pc.splits)
  qed
  then show ?thesis using inv by (auto simp: socket_inv_def)
qed

lemma socket_step_inv: "socket_step path w w' \<Longrightarrow> socket_inv w \<Longrightarrow> socket_inv w'"
  by (erule socket_stepE) (auto intro: server_turn_inv server_dies_inv foreign_ends_inv)

lemma socket_reachable_inv: "socket_reachable path w \<Longrightarrow> socket_inv w"
proof (induction rule: socket_reachable.induct)
  case (start entry)
  then show ?case by (auto simp: socket_inv_def intro: unlocked_ok)
next
  case (step w w')
  then show ?case by (blast intro: socket_step_inv)
qed

fun server_turns :: "string \<Rightarrow> nat \<Rightarrow> socket_answers \<Rightarrow> nat \<Rightarrow> socket_world \<Rightarrow> socket_world" where
  "server_turns path p sa 0 w = w"
| "server_turns path p sa (Suc n) w = server_turns path p sa n (server_turn path p sa w)"

lemma server_turns_reachable: "socket_reachable path w \<Longrightarrow> socket_reachable path (server_turns path p sa n w)"
  by (induction n arbitrary: w) (auto intro: socket_reachable.step socket_step.turn)

section \<open>A daemon that starts, for the examples\<close>

definition demo_socket_answers :: socket_answers where
  "demo_socket_answers =
    \<lparr>sa_directory = \<lparr>da_lstat = Inr \<lparr>di_symlink = False, di_dir = True, di_perm = 448, di_uid = 1000\<rparr>, da_mkdir = None,
       da_chmod = None, da_created = Inl err_canceled, da_euid = 1000\<rparr>,
     sa_lock = \<lparr>la_lstat = Inr True, la_open = None, la_flock = None, la_chmod = None\<rparr>, sa_fault = None, sa_inode = 8\<rparr>"

definition demo_socket_world :: socket_world where
  "demo_socket_world = \<lparr>sw_holder = None, sw_entry = SocketFile 7 Nobody, sw_pc = (\<lambda>p. Idle)\<rparr>"

definition demo_owned :: socket_world where
  "demo_owned = server_turns ''/run/o.sock'' 1 demo_socket_answers 8 demo_socket_world"

lemma demo_owned_reachable: "socket_reachable ''/run/o.sock'' demo_owned"
  unfolding demo_owned_def demo_socket_world_def by (rule server_turns_reachable) (simp add: socket_reachable.start)

lemma demo_ready:
  "ensure_private_socket_directory (sa_directory demo_socket_answers) d = None"
  "acquire_socket_lock (sa_lock demo_socket_answers) False f = None" "sa_fault demo_socket_answers = None"
  by (simp_all add: demo_socket_answers_def ensure_private_socket_directory_def check_socket_directory_def acquire_socket_lock_def)

lemma demo_owned_state: "sw_pc demo_owned 1 = Owning (Some 8)" "sw_entry demo_owned = SocketFile 8 (Daemon 1)"
proof -
  have "sa_inode demo_socket_answers = 8" by (simp add: demo_socket_answers_def)
  then show "sw_pc demo_owned 1 = Owning (Some 8)" "sw_entry demo_owned = SocketFile 8 (Daemon 1)"
    by (simp_all add: demo_owned_def demo_socket_world_def eval_nat_numeral server_turn_def Let_def demo_ready inspect_socket_def
        probe_socket_def recheck_socket_def lstat_entry_def dial_error_def listened_def proves_stale_def remove_entry_def)
qed

section \<open>Properties\<close>

text \<open>C11: At most one daemon owns a control socket, and while it does the path is its own socket with its own
  listener. However many daemons start, fail, close and die on the same path, and in whatever order their calls
  interleave, two never hold the lock, and no daemon ever unlinks or replaces the socket another one serves on.\<close>

theorem control_socket_exclusive:
  assumes "socket_reachable path w"
  shows "(\<forall>p q. holds_lock (sw_pc w p) \<and> holds_lock (sw_pc w q) \<longrightarrow> p = q) \<and>
    (\<forall>p info. sw_pc w p = Owning info \<longrightarrow>
       sw_holder w = Some p \<and> (\<exists>i. info = Some i \<and> sw_entry w = SocketFile i (Daemon p)))"
proof -
  have inv: "socket_inv w" by (rule socket_reachable_inv[OF assms])
  have "sw_holder w = Some p \<and> (\<exists>i. info = Some i \<and> sw_entry w = SocketFile i (Daemon p))"
    if "sw_pc w p = Owning info" for p info
  proof -
    have "entry_ok p (sw_pc w p) (sw_entry w)" "holds_lock (sw_pc w p) \<longleftrightarrow> sw_holder w = Some p"
      using inv by (simp_all add: socket_inv_def)
    with that show ?thesis by (simp add: entry_ok_def)
  qed
  then show ?thesis using inv by (auto simp: socket_inv_def)
qed

theorem control_socket_exclusive_witness: "sw_holder demo_owned = Some 1 \<and> (\<exists>i. sw_entry demo_owned = SocketFile i (Daemon 1))"
  using control_socket_exclusive[OF demo_owned_reachable] demo_owned_state(1) by blast

text \<open>What a daemon removes from the path.\<close>

lemma turn_entry:
  assumes inv: "socket_inv w"
  shows "sw_entry (server_turn path p sa w) = sw_entry w \<or>
    (\<exists>i. sw_entry w = SocketFile i Nobody \<and> sw_entry (server_turn path p sa w) = NoEntry) \<or>
    (sw_entry w = NoEntry \<and> (\<exists>i. sw_entry (server_turn path p sa w) = SocketFile i (Daemon p))) \<or>
    (\<exists>i. sw_entry w = SocketFile i (Daemon p) \<and> sw_entry (server_turn path p sa w) = SocketFile i Nobody)"
proof -
  have "entry_ok p (sw_pc w p) (sw_entry w)" using inv by (simp add: socket_inv_def)
  then show ?thesis
    by (cases "sw_pc w p")
      (auto simp: server_turn_def Let_def entry_ok_def remove_entry_def split: option.splits sum.splits if_splits)
qed



text \<open>C13: A daemon that died does not block the next one: when nobody holds the lock and the path has a socket
  nobody listens on, a daemon whose calls do not fail removes it and serves on a socket of its own after eight
  calls.\<close>

theorem stale_socket_recovered:
  assumes "sw_holder w = None" and "sw_entry w = SocketFile i Nobody" and "sw_pc w p = Idle"
    and "ensure_private_socket_directory (sa_directory sa) (dir_path path) = None"
    and "acquire_socket_lock (sa_lock sa) False (path @ ''.lock'') = None" and "sa_fault sa = None"
  shows "sw_pc (server_turns path p sa 8 w) p = Owning (Some (sa_inode sa)) \<and>
    sw_entry (server_turns path p sa 8 w) = SocketFile (sa_inode sa) (Daemon p) \<and>
    sw_holder (server_turns path p sa 8 w) = Some p"
  using assms
  by (simp add: eval_nat_numeral server_turn_def Let_def inspect_socket_def probe_socket_def recheck_socket_def
      lstat_entry_def dial_error_def listened_def proves_stale_def remove_entry_def)

theorem stale_socket_recovered_witness: "sw_pc (server_turns ''/run/o.sock'' 1 demo_socket_answers 8 demo_socket_world) 1 = Owning (Some 8)"
  using stale_socket_recovered[of demo_socket_world 7 1 demo_socket_answers "''/run/o.sock''"] demo_ready
  by (simp add: demo_socket_world_def) (simp add: demo_socket_answers_def)

end
