(* ===== verification/ControlApi.thy ===== *)
theory ControlApi
  imports StoreOpen QueueHistory ManagerProps
begin

text \<open>
  The control interface of the daemon: the handlers of \<open>control/server.go\<close> and \<open>control/inspection.go\<close>
  over the supervisor and the queue databases, the stream of events an attached run sends, and the client
  that reads them (\<open>control/client.go\<close>). The JSON library and the HTTP transport answer as arguments.
\<close>

section \<open>Answers\<close>

datatype control_body =
    InstancesReply "instance_view list"
  | InstanceReply instance_view
  | CountsReply queue_counts
  | JobsReply "job list"
  | JobReply job
  | RunsReply "run list"
  | CommandsReply "command_execution list"
  | ErrorReply string string

record control_response =
  cx_status :: nat
  cx_body :: control_body

datatype control_action =
    Answered control_response
  | AskStart "string list" string
  | AskStop string
  | AskAttach string string bool

definition api_error :: "(string \<Rightarrow> string) \<Rightarrow> nat \<Rightarrow> string \<Rightarrow> go_error \<Rightarrow> control_response" where
  "api_error quote status code e = \<lparr>cx_status = status, cx_body = ErrorReply code (error_text quote e)\<rparr>"

definition bad_request :: "(string \<Rightarrow> string) \<Rightarrow> go_error \<Rightarrow> control_action" where
  "bad_request quote e = Answered (api_error quote 400 ''invalid_request'' e)"

definition manager_error :: "(string \<Rightarrow> string) \<Rightarrow> go_error \<Rightarrow> bool \<Rightarrow> control_response" where
  "manager_error quote e start =
    (let is = (\<lambda>s. errors_is (''control: '' @ s) e) in
     if is ''instance not found'' then api_error quote 404 ''not_found'' e
     else if is ''ambiguous instance selector'' then api_error quote 409 ''ambiguous_selector'' e
     else if is ''instance already active'' then api_error quote 409 ''already_active'' e
     else if is ''instance name already in use'' then api_error quote 409 ''name_in_use'' e
     else if is ''instance is not active'' then api_error quote 409 ''not_active'' e
     else if is ''manager is shutting down'' then api_error quote 503 ''shutting_down'' e
     else if start then api_error quote 422 ''start_failed'' e
     else api_error quote 500 ''internal_error'' e)"

section \<open>Requests with a body\<close>

record start_request =
  sq_paths :: "string list"
  sq_path :: string
  sq_name :: string

record run_request = start_request +
  sq_remove_on_exit :: bool

definition max_configs_per_start :: nat where "max_configs_per_start = 1024"

definition request_paths :: "'a start_request_scheme \<Rightarrow> string list result" where
  "request_paths r =
    (if \<not> blank (sq_path r) \<and> sq_paths r \<noteq> [] then Inl (new_error ''provide config_path or config_paths, not both'')
     else
       (let paths = (if blank (sq_path r) then sq_paths r else [sq_path r]) in
        if paths = [] then Inl (new_error ''at least one configuration path is required'')
        else if max_configs_per_start < length paths
        then Inl (ErrorString [T ''at most '', D (int max_configs_per_start), T '' configuration paths may be started at once''])
        else if list_ex blank paths then Inl (new_error ''configuration paths must not be empty'')
        else Inr paths))"

text \<open>What the decoder found: an error in the first value, or the value and what follows it.\<close>

datatype 'a decoded = Undecodable go_error | Decoded 'a | MoreValues 'a | BadTrailer 'a go_error

definition decode_request :: "'a decoded \<Rightarrow> 'a result" where
  "decode_request d =
    (case d of
       Undecodable e \<Rightarrow> Inl (wrapf ''decode JSON request: '' e)
     | Decoded x \<Rightarrow> Inr x
     | MoreValues x \<Rightarrow> Inl (new_error ''request contains more than one JSON value'')
     | BadTrailer x e \<Rightarrow> Inl (wrapf ''decode trailing JSON: '' e))"

definition api_start :: "(string \<Rightarrow> string) \<Rightarrow> start_request decoded \<Rightarrow> control_action" where
  "api_start quote d =
    (case decode_request d of
       Inl e \<Rightarrow> bad_request quote e
     | Inr input \<Rightarrow> (case request_paths input of Inl e \<Rightarrow> bad_request quote e | Inr paths \<Rightarrow> AskStart paths (sq_name input)))"

definition api_started :: "(string \<Rightarrow> string) \<Rightarrow> instance_view list result \<Rightarrow> control_response" where
  "api_started quote answer =
    (case answer of
       Inl e \<Rightarrow> manager_error quote e True
     | Inr views \<Rightarrow> \<lparr>cx_status = 201, cx_body = InstancesReply views\<rparr>)"

definition api_run :: "(string \<Rightarrow> string) \<Rightarrow> bool \<Rightarrow> run_request decoded \<Rightarrow> control_action" where
  "api_run quote streaming d =
    (case decode_request d of
       Inl e \<Rightarrow> bad_request quote e
     | Inr input \<Rightarrow>
    (case request_paths input of
       Inl e \<Rightarrow> bad_request quote e
     | Inr [path] \<Rightarrow>
         if streaming then AskAttach path (sq_name input) (sq_remove_on_exit input)
         else Answered (api_error quote 500 ''streaming_unsupported'' (new_error ''HTTP streaming is unavailable''))
     | Inr paths \<Rightarrow> bad_request quote (new_error ''run requires exactly one configuration path'')))"

section \<open>Instances\<close>

definition api_list :: "(string \<Rightarrow> string) \<Rightarrow> manager \<Rightarrow> string \<Rightarrow> control_action" where
  "api_list quote m v =
    (case (if v = [] then Some False else parse_bool v) of
       None \<Rightarrow> bad_request quote (ErrorString [T ''invalid all value '', Q v])
     | Some all \<Rightarrow> Answered \<lparr>cx_status = 200, cx_body = InstancesReply (list_instances m all)\<rparr>)"

definition selector_required :: go_error where
  "selector_required = new_error ''instance selector is required''"

definition answer_view :: "(string \<Rightarrow> string) \<Rightarrow> instance_view result \<Rightarrow> control_response" where
  "answer_view quote answer =
    (case answer of
       Inl e \<Rightarrow> manager_error quote e False
     | Inr v \<Rightarrow> \<lparr>cx_status = 200, cx_body = InstanceReply v\<rparr>)"

definition api_get :: "(string \<Rightarrow> string) \<Rightarrow> manager \<Rightarrow> string \<Rightarrow> control_action" where
  "api_get quote m selector =
    (if blank selector then bad_request quote selector_required
     else Answered (answer_view quote (get_instance m selector)))"

definition api_stop :: "(string \<Rightarrow> string) \<Rightarrow> string \<Rightarrow> control_action" where
  "api_stop quote selector = (if blank selector then bad_request quote selector_required else AskStop selector)"

section \<open>Inspection\<close>

text \<open>The loop of \<open>selectQueues\<close> over the instances.\<close>

fun matching_views :: "host \<Rightarrow> string \<Rightarrow> (instance_view \<times> string) list \<Rightarrow> instance_view list result" where
  "matching_views h path [] = Inr []"
| "matching_views h path ((v, identity) # items) =
    (case (if path = iv_config_path v \<or> path = identity then Inr True else same_path h path identity) of
       Inl e \<Rightarrow> Inl e
     | Inr equal \<Rightarrow>
         (case matching_views h path items of
            Inl e \<Rightarrow> Inl e
          | Inr views \<Rightarrow>
              Inr (if equal \<or> dir_path (iv_config_path v) = path then v # views else views)))"

fun insert_by_path :: "instance_view \<Rightarrow> instance_view list \<Rightarrow> instance_view list" where
  "insert_by_path v [] = [v]"
| "insert_by_path v (w # ws) =
    (if string_le (iv_config_path v) (iv_config_path w) then v # w # ws else w # insert_by_path v ws)"

text \<open>\<open>m1\<close> and \<open>m2\<close> are the supervisor at the two sections under its lock.\<close>

definition select_queues :: "host \<Rightarrow> string \<Rightarrow> manager \<Rightarrow> manager \<Rightarrow> instance_view list result" where
  "select_queues h selector m1 m2 =
    (if blank selector then Inl (Wrapped [] err_instance_not_found [T '': queue selector is required''])
     else
       (case get_instance m1 selector of
          Inr v \<Rightarrow> Inr [v]
        | Inl e \<Rightarrow>
       if errors_is ''control: ambiguous instance selector'' e then Inl e
       else
       (case absolute_path h selector of
          Inl e \<Rightarrow> Inl e
        | Inr path \<Rightarrow>
       (case matching_views h path
           (map (\<lambda>(x, p). (rt_view (runtime_at m2 p), rt_config_identity (runtime_at m2 p))) (mg_instances m2)) of
          Inl e \<Rightarrow> Inl e
        | Inr [] \<Rightarrow> Inl (Wrapped [] err_instance_not_found [T '': no registered queue matches '', Q selector])
        | Inr selected \<Rightarrow> Inr (foldr insert_by_path selected [])))))"

definition api_select :: "(string \<Rightarrow> string) \<Rightarrow> host \<Rightarrow> string \<Rightarrow> manager \<Rightarrow> manager \<Rightarrow> control_action" where
  "api_select quote h selector m1 m2 =
    Answered (case select_queues h selector m1 m2 of
       Inl e \<Rightarrow> manager_error quote e False
     | Inr views \<Rightarrow> \<lparr>cx_status = 200, cx_body = InstancesReply views\<rparr>)"

text \<open>\<open>values\<close> is the query; \<open>d\<close> and \<open>e\<close> are the tables and the answers of the one query that is made.\<close>

definition parsed :: "string \<Rightarrow> int option" where
  "parsed s = (case parse_int 64 s of (n, None) \<Rightarrow> Some n | (n, Some e) \<Rightarrow> None)"

definition read_answer :: "(string \<Rightarrow> string) \<Rightarrow> ('a \<Rightarrow> control_body) \<Rightarrow> 'a result \<Rightarrow> control_response" where
  "read_answer quote body answer =
    (case answer of
       Inl e \<Rightarrow>
         if errors_is ''queue record not found'' e then api_error quote 404 ''record_not_found'' e
         else api_error quote 503 ''queue_unavailable'' e
     | Inr x \<Rightarrow> \<lparr>cx_status = 200, cx_body = body x\<rparr>)"

definition queue_operation ::
  "(string \<Rightarrow> string) \<Rightarrow> engine \<Rightarrow> (string \<Rightarrow> go_error) \<Rightarrow> db \<Rightarrow> string \<Rightarrow> (string \<Rightarrow> string) \<Rightarrow> control_response" where
  "queue_operation quote e json_error d operation values =
    (let invalid = (\<lambda>s. api_error quote 400 ''invalid_request'' (new_error s));
         record_id = (case parsed (values ''id'') of Some n \<Rightarrow> if 0 < n then Some n else None | None \<Rightarrow> None) in
     if operation = ''counts'' then read_answer quote CountsReply (counts e d)
     else if operation = ''jobs'' then
       (case (parsed (values ''limit''), parsed (values ''offset'')) of
          (Some limit, Some offset) \<Rightarrow>
            if limit \<le> 0 \<or> offset < 0 then invalid ''positive limit and nonnegative offset required''
            else read_answer quote JobsReply
              (list_jobs e \<lparr>f_status = values ''status'', f_watch_name = values ''watch'', f_limit = limit, f_offset = offset\<rparr> d)
        | _ \<Rightarrow> invalid ''positive limit and nonnegative offset required'')
     else if operation \<in> {''job'', ''runs'', ''commands''} then
       (case record_id of
          None \<Rightarrow> invalid ''positive record id required''
        | Some n \<Rightarrow>
            if operation = ''job'' then read_answer quote JobReply (get_job e n d)
            else if operation = ''runs'' then read_answer quote RunsReply (list_runs e n d)
            else read_answer quote CommandsReply (list_commands e json_error n d))
     else api_error quote 404 ''not_found'' (new_error ''unknown queue operation''))"

definition api_queue_read ::
  "(string \<Rightarrow> string) \<Rightarrow> manager \<Rightarrow> (string \<Rightarrow> driver \<times> db) \<Rightarrow> engine \<Rightarrow> (string \<Rightarrow> go_error) \<Rightarrow> string \<Rightarrow> string \<Rightarrow>
   (string \<Rightarrow> string) \<Rightarrow> control_action" where
  "api_queue_read quote m databases e json_error selector operation values =
    Answered (case get_instance m selector of
       Inl err \<Rightarrow> manager_error quote err False
     | Inr v \<Rightarrow>
         (case databases (iv_database_path v) of
            (dr, d) \<Rightarrow>
         (case op_failure (open_read_only dr (iv_database_path v)) of
            Some failure \<Rightarrow>
              \<lparr>cx_status = 503, cx_body = ErrorReply ''queue_unavailable'' (open_failure_text quote failure)\<rparr>
          | None \<Rightarrow> queue_operation quote e json_error d operation values)))"

section \<open>The stream of an attached run\<close>

record run_event =
  re_type :: string
  re_instance :: "instance_view option"
  re_log :: string
  re_error :: string

definition plain_event :: "string \<Rightarrow> run_event" where
  "plain_event t = \<lparr>re_type = t, re_instance = None, re_log = [], re_error = []\<rparr>"

definition started_event :: "instance_view \<Rightarrow> run_event" where
  "started_event v = (plain_event ''started'')\<lparr>re_instance := Some v\<rparr>"

definition log_event :: "string \<Rightarrow> run_event" where
  "log_event l = (plain_event ''log'')\<lparr>re_log := l\<rparr>"

definition exited_event :: "instance_view \<Rightarrow> run_event" where
  "exited_event v = (plain_event ''exited'')\<lparr>re_instance := Some v\<rparr>"

definition error_event :: "string \<Rightarrow> run_event" where
  "error_event t = (plain_event ''error'')\<lparr>re_error := t\<rparr>"

text \<open>What the loop of \<open>handleRun\<close> receives. \<open>Finished\<close> has what \<open>Wait\<close> returned, the state of the request's
  context, and the lines that are in the subscription by then.\<close>

datatype attach_input =
    ClientGone
  | Line string
  | LinesClosed
  | Finished "instance_view result" "go_error option" "string list"

text \<open>The events of the loop after the first one; \<open>subscribed\<close> is false once the lines have ended.\<close>

fun attach_events :: "(string \<Rightarrow> string) \<Rightarrow> bool \<Rightarrow> attach_input list \<Rightarrow> run_event list" where
  "attach_events quote subscribed [] = []"
| "attach_events quote subscribed (ClientGone # inputs) = []"
| "attach_events quote subscribed (Line l # inputs) =
    (if subscribed then log_event l # attach_events quote subscribed inputs else attach_events quote subscribed inputs)"
| "attach_events quote subscribed (LinesClosed # inputs) = attach_events quote False inputs"
| "attach_events quote subscribed (Finished (Inl e) ctx_err buffered # inputs) =
    (if errors_is ''context canceled'' e \<and> ctx_err \<noteq> None then [] else [error_event (error_text quote e)])"
| "attach_events quote subscribed (Finished (Inr v) ctx_err buffered # inputs) =
    (if subscribed then map log_event buffered else []) @ [exited_event v]"

text \<open>\<open>written\<close> events could be encoded before the connection failed.\<close>

definition api_run_stream :: "(string \<Rightarrow> string) \<Rightarrow> instance_view \<Rightarrow> nat \<Rightarrow> attach_input list \<Rightarrow> run_event list" where
  "api_run_stream quote v written inputs = take written (started_event v # attach_events quote True inputs)"

end
