(* ===== verification/ControlClient.thy ===== *)
theory ControlClient
  imports ControlApi
begin

text \<open>
  The client of the control socket (\<open>control/client.go\<close>): what a request comes to, with the errors that say
  whether the daemon may have acted on it, and the consumption of the event stream of an attached run; then
  what server and client achieve together.
\<close>

section \<open>Requests\<close>

datatype client_error =
    Unavailable string go_error
  | ApiFailure nat string string
  | ClientError go_error

text \<open>\<open>http_text\<close> is \<open>http.StatusText\<close>.\<close>

fun client_error_text :: "(nat \<Rightarrow> string) \<Rightarrow> (string \<Rightarrow> string) \<Rightarrow> client_error \<Rightarrow> string" where
  "client_error_text http_text quote (Unavailable socket e) =
    ''onderzeeer daemon is unavailable at '' @ socket @ '': '' @ error_text quote e @ ''; start it with `onderzeeerd`''"
| "client_error_text http_text quote (ApiFailure status code message) =
    ''onderzeeer daemon request failed ('' @ (if code = [] then http_text status else code) @ ''): '' @ message"
| "client_error_text http_text quote (ClientError e) = error_text quote e"

text \<open>How the exchange of a request ends: no connection, a connection that broke, or a response, whose body may
  fail to be read.\<close>

datatype exchange = NotConnected go_error | Broken go_error | Responded nat "string result"

definition method_may_mutate :: "string \<Rightarrow> bool" where
  "method_may_mutate m \<longleftrightarrow> m \<noteq> ''GET'' \<and> m \<noteq> ''HEAD'' \<and> m \<noteq> ''OPTIONS''"

definition interrupted :: "string \<Rightarrow> go_error \<Rightarrow> go_error" where
  "interrupted socket e =
    Wrapped [T ''onderzeeer daemon request via '', T socket, T '' was interrupted; outcome may be unknown: ''] e []"

definition no_response :: "string \<Rightarrow> bool \<Rightarrow> go_error \<Rightarrow> go_error" where
  "no_response socket mutates e =
    Wrapped [T ''onderzeeer daemon request via '', T socket,
      T (if mutates then '' failed before a response; outcome may be unknown: '' else '' failed before a response: '')] e []"

text \<open>\<open>before\<close> and \<open>after\<close> are the context of the request before and after the exchange.\<close>

definition client_do ::
  "string \<Rightarrow> string \<Rightarrow> go_error option \<Rightarrow> go_error option \<Rightarrow> exchange \<Rightarrow> client_error + (nat \<times> string result)" where
  "client_do socket m before after x =
    (case before of
       Some e \<Rightarrow> Inl (ClientError e)
     | None \<Rightarrow>
         (case x of
            Responded status body \<Rightarrow> Inr (status, body)
          | _ \<Rightarrow>
              (case after of
                 Some e \<Rightarrow> Inl (ClientError (if method_may_mutate m then interrupted socket e else e))
               | None \<Rightarrow>
                   (case x of
                      NotConnected e \<Rightarrow> Inl (Unavailable socket e)
                    | Broken e \<Rightarrow> Inl (ClientError (no_response socket (method_may_mutate m) e))
                    | Responded status body \<Rightarrow> Inr (status, body)))))"

definition max_response_body_bytes :: nat where "max_response_body_bytes = 4 * 1024 * 1024"

definition read_bounded_body :: "string result \<Rightarrow> string result" where
  "read_bounded_body body =
    (case body of
       Inl e \<Rightarrow> Inl e
     | Inr contents \<Rightarrow>
         if max_response_body_bytes < length contents
         then Inl (ErrorString [T ''response exceeds '', D (int max_response_body_bytes), T ''-byte limit''])
         else Inr contents)"

text \<open>\<open>envelope\<close> is the code and the message, when the body is an error of the API.\<close>

definition decode_api_error ::
  "(nat \<Rightarrow> string) \<Rightarrow> (string \<Rightarrow> (string \<times> string) option) \<Rightarrow> nat \<Rightarrow> string result \<Rightarrow> client_error" where
  "decode_api_error http_text envelope status body =
    (case body of
       Inl e \<Rightarrow> ClientError (wrapf ''read daemon error response: '' e)
     | Inr contents0 \<Rightarrow>
         (let contents = take max_response_body_bytes contents0;
              plain = ApiFailure status [] (if trim_space contents = [] then http_text status else trim_space contents) in
          case envelope contents of
            Some (code, message) \<Rightarrow> if message \<noteq> [] then ApiFailure status code message else plain
          | None \<Rightarrow> plain))"

definition unreadable :: "string \<Rightarrow> string \<Rightarrow> go_error \<Rightarrow> client_error" where
  "unreadable socket m e =
    ClientError (if \<not> method_may_mutate m then e
      else Wrapped [T ''onderzeeer daemon returned an unreadable success response to '', T m, T '' via '', T socket,
        T ''; outcome may be unknown: ''] e [])"

definition client_do_json ::
  "(nat \<Rightarrow> string) \<Rightarrow> (string \<Rightarrow> (string \<times> string) option) \<Rightarrow> (string \<Rightarrow> 'a decoded) \<Rightarrow> string \<Rightarrow> string \<Rightarrow>
   go_error option \<Rightarrow> go_error option \<Rightarrow> exchange \<Rightarrow> client_error + 'a" where
  "client_do_json http_text envelope decode socket m before after x =
    (case client_do socket m before after x of
       Inl e \<Rightarrow> Inl e
     | Inr (status, body) \<Rightarrow>
    if status < 200 \<or> 300 \<le> status then Inl (decode_api_error http_text envelope status body)
    else
    (case read_bounded_body body of
       Inl e \<Rightarrow> Inl (unreadable socket m (wrapf ''read daemon response: '' e))
     | Inr contents \<Rightarrow>
    (case decode contents of
       Decoded a \<Rightarrow> Inr a
     | Undecodable e \<Rightarrow> Inl (unreadable socket m (wrapf ''decode daemon response: '' e))
     | MoreValues a \<Rightarrow> Inl (unreadable socket m (wrapf ''decode daemon response: '' (new_error ''multiple JSON values'')))
     | BadTrailer a e \<Rightarrow> Inl (unreadable socket m (wrapf ''decode daemon response: '' e)))))"

section \<open>An attached run\<close>

datatype stream_item = Event run_event | StreamEnds | StreamBroken go_error

definition run_attachment_error :: "string \<Rightarrow> bool \<Rightarrow> go_error \<Rightarrow> go_error" where
  "run_attachment_error socket started e =
    (if started then e
     else Wrapped [T ''onderzeeer daemon attachment via '', T socket,
       T '' failed before the instance ID was acknowledged; an instance may still be running and the outcome may be unknown: ''] e [])"

definition event_id :: "run_event \<Rightarrow> string" where
  "event_id ev = (case re_instance ev of Some v \<Rightarrow> iv_id v | None \<Rightarrow> [])"

record attachment =
  at_started :: bool
  at_last :: "instance_view option"
  at_events :: "run_event list"

text \<open>One event: the error that ends the attachment, or the state it goes on with.\<close>

definition receive_event :: "string \<Rightarrow> attachment \<Rightarrow> run_event \<Rightarrow> go_error + attachment" where
  "receive_event socket a ev =
    (if re_type ev = ''started'' then
       (if at_started a then Inl (new_error ''onderzeeer daemon sent more than one started event'')
        else if event_id ev = []
        then Inl (run_attachment_error socket False (new_error ''onderzeeer daemon sent a started event without an instance ID''))
        else Inr (a\<lparr>at_started := True, at_last := re_instance ev\<rparr>))
     else if re_type ev = ''log'' then
       (if \<not> at_started a
        then Inl (run_attachment_error socket False (new_error ''onderzeeer daemon sent a log event before started''))
        else Inr a)
     else if re_type ev = ''exited'' then
       (if \<not> at_started a
        then Inl (run_attachment_error socket False (new_error ''onderzeeer daemon sent an exited event before started''))
        else Inr (a\<lparr>at_last := re_instance ev\<rparr>))
     else if re_type ev = ''error'' then
       Inl (run_attachment_error socket (at_started a)
         (new_error (if re_error ev = [] then ''daemon attachment failed'' else re_error ev)))
     else Inl (run_attachment_error socket (at_started a) (ErrorString [T ''onderzeeer daemon sent unknown event type '', Q (re_type ev)])))"

text \<open>The loop of \<open>RunWithOptions\<close>: \<open>callback\<close> is the caller's function, \<open>ctx\<close> the context at each failed read.
  The result is the last view, the error, and the events the caller was given; \<open>None\<close>: still reading.\<close>

fun consume_stream ::
  "string \<Rightarrow> (run_event \<Rightarrow> go_error option) \<Rightarrow> go_error option \<Rightarrow> attachment \<Rightarrow> stream_item list \<Rightarrow>
   (instance_view option \<times> go_error option \<times> run_event list) option" where
  "consume_stream socket callback ctx a [] = None"
| "consume_stream socket callback ctx a (StreamEnds # items) =
    Some (at_last a, Some (run_attachment_error socket (at_started a)
      (case ctx of Some e \<Rightarrow> e | None \<Rightarrow> new_error ''onderzeeer daemon attachment ended before an exited event'')), at_events a)"
| "consume_stream socket callback ctx a (StreamBroken e # items) =
    Some (at_last a, Some (run_attachment_error socket (at_started a)
      (case ctx of Some c \<Rightarrow> c | None \<Rightarrow> wrapf ''decode daemon event: '' e)), at_events a)"
| "consume_stream socket callback ctx a (Event ev # items) =
    (case receive_event socket a ev of
       Inl e \<Rightarrow> Some (at_last a, Some e, at_events a)
     | Inr a1 \<Rightarrow>
         (let a2 = a1\<lparr>at_events := at_events a1 @ [ev]\<rparr> in
          case callback ev of
            Some e \<Rightarrow> Some (at_last a2, Some e, at_events a2)
          | None \<Rightarrow>
              if re_type ev = ''exited'' then Some (at_last a2, None, at_events a2)
              else consume_stream socket callback ctx a2 items))"

definition fresh_attachment :: attachment where
  "fresh_attachment = \<lparr>at_started = False, at_last = None, at_events = []\<rparr>"

definition client_run ::
  "string \<Rightarrow> (run_event \<Rightarrow> go_error option) \<Rightarrow> go_error option \<Rightarrow> stream_item list \<Rightarrow>
   (instance_view option \<times> go_error option \<times> run_event list) option" where
  "client_run socket callback ctx items = consume_stream socket callback ctx fresh_attachment items"

section \<open>Server and client together\<close>

text \<open>What JSON makes of an event.\<close>

definition json_event :: "run_event \<Rightarrow> run_event" where
  "json_event ev = ev\<lparr>re_instance := map_option json_view (re_instance ev), re_log := json_text (re_log ev), re_error := json_text (re_error ev)\<rparr>"

lemma encode_rune_nonempty: "encode_rune r \<noteq> []"
  by (simp add: encode_rune_def Let_def)

lemma json_text_nonempty: "s \<noteq> [] \<Longrightarrow> json_text s \<noteq> []"
proof -
  assume "s \<noteq> []"
  then have "runes s \<noteq> []" by (cases s) (simp_all add: runes.simps(2) Let_def split: prod.split)
  then show ?thesis by (cases "runes s") (simp_all add: json_text_def of_runes_def encode_rune_nonempty)
qed

lemma json_event_simps [simp]:
  "json_event (started_event v) = started_event (json_view v)" "json_event (log_event l) = log_event (json_text l)"
  "json_event (exited_event v) = exited_event (json_view v)" "re_type (json_event ev) = re_type ev"
  by (simp_all add: json_event_def started_event_def log_event_def exited_event_def plain_event_def json_text_def of_runes_def)

lemma receive_log: "at_started a \<Longrightarrow> receive_event socket a (log_event l) = Inr a"
  by (simp add: receive_event_def log_event_def plain_event_def)

lemma receive_exited: "at_started a \<Longrightarrow> receive_event socket a (exited_event v) = Inr (a\<lparr>at_last := Some v\<rparr>)"
  by (simp add: receive_event_def exited_event_def plain_event_def)

lemma consume_logs:
  assumes "at_started a"
  shows "consume_stream socket (\<lambda>ev. None) ctx a (map Event (map log_event ls) @ items) =
    consume_stream socket (\<lambda>ev. None) ctx (a\<lparr>at_events := at_events a @ map log_event ls\<rparr>) items"
  using assms
proof (induction ls arbitrary: a)
  case (Cons l ls)
  have "re_type (log_event l) \<noteq> ''exited''" by (simp add: log_event_def plain_event_def)
  then show ?case using Cons receive_log[OF Cons.prems] by simp
qed simp

lemma attach_lines:
  "attach_events quote True (map Line ls @ inputs) = map log_event ls @ attach_events quote True inputs"
  by (induction ls) simp_all

lemma attachment_exact:
  assumes "iv_id v \<noteq> []" and "length ls + length buffered + 2 \<le> written"
  shows "client_run socket (\<lambda>ev. None) ctx
      (map Event (map json_event (api_run_stream quote v written (map Line ls @ [Finished (Inr w) ctx_err buffered]))) @ items) =
    Some (Some (json_view w), None,
      started_event (json_view v) # map (\<lambda>l. log_event (json_text l)) (ls @ buffered) @ [exited_event (json_view w)])"
proof -
  have stream: "map json_event (api_run_stream quote v written (map Line ls @ [Finished (Inr w) ctx_err buffered])) =
      started_event (json_view v) # map log_event (map json_text (ls @ buffered)) @ [exited_event (json_view w)]"
    using assms(2) by (simp add: api_run_stream_def attach_lines)
  have start: "receive_event socket fresh_attachment (started_event (json_view v)) =
      Inr (fresh_attachment\<lparr>at_started := True, at_last := Some (json_view v)\<rparr>)"
    using json_text_nonempty[OF assms(1)]
    by (simp add: receive_event_def fresh_attachment_def started_event_def plain_event_def event_id_def json_view_def)
  have kinds: "re_type (started_event (json_view v)) \<noteq> ''exited''" "re_type (exited_event (json_view w)) = ''exited''"
    by (simp_all add: started_event_def exited_event_def plain_event_def)
  let ?a = "fresh_attachment\<lparr>at_started := True, at_last := Some (json_view v), at_events := [started_event (json_view v)]\<rparr>"
  have "at_started ?a" by simp
  from consume_logs[OF this, of socket ctx "map json_text (ls @ buffered)" "Event (exited_event (json_view w)) # items"]
  show ?thesis
    using start kinds
    by (simp add: client_run_def stream receive_exited fresh_attachment_def comp_def)
qed

text \<open>C14: An attachment shows the run as it was: when the lines of an instance, and then its end, reach the stream,
  the caller of the client gets the started event, every line in its order, up to those that were still waiting
  when the instance ended, and the exited event with the final view, which is also the result.\<close>

theorem attachment_faithful:
  assumes "iv_id v \<noteq> []" and "length ls + length buffered + 2 \<le> written"
  shows "client_run socket (\<lambda>ev. None) ctx
      (map Event (map json_event (api_run_stream quote v written (map Line ls @ [Finished (Inr w) ctx_err buffered]))) @ items) =
    Some (Some (json_view w), None,
      started_event (json_view v) # map (\<lambda>l. log_event (json_text l)) (ls @ buffered) @ [exited_event (json_view w)])"
  using assms by (rule attachment_exact)

theorem attachment_faithful_witness:
  "\<exists>v evs. client_run ''s'' (\<lambda>ev. None) None
    (map Event (map json_event (api_run_stream id (demo_view ''/c'' ''n'') 9
      (map Line [''a'', ''b''] @ [Finished (Inr (demo_view ''/c'' ''n'')) None [''c'']])))) = Some (Some v, None, evs) \<and> length evs = 5"
proof -
  have "iv_id (demo_view ''/c'' ''n'') \<noteq> []" by (simp add: demo_view_def)
  from attachment_faithful[OF this, of "[''a'', ''b'']" "[''c'']" 9 "''s''" None id "demo_view ''/c'' ''n''" None "[]"]
  show ?thesis by simp
qed

lemma attach_exited:
  assumes "ev \<in> set (attach_events quote subscribed inputs)" and "re_type ev = ''exited''"
  shows "\<exists>w ctx_err buffered. Finished (Inr w) ctx_err buffered \<in> set inputs \<and> ev = exited_event w"
  using assms
proof (induction quote subscribed inputs rule: attach_events.induct)
  case (3 quote subscribed l inputs)
  then show ?case by (fastforce simp: log_event_def plain_event_def split: if_splits)
next
  case (5 quote subscribed e ctx_err buffered inputs)
  then show ?case by (auto simp: error_event_def plain_event_def split: if_splits)
next
  case (6 quote subscribed v ctx_err buffered inputs)
  then show ?case by (auto simp: log_event_def plain_event_def split: if_splits)
qed auto

lemma consume_success:
  assumes "consume_stream socket callback ctx a items = Some (last_view, None, evs)"
  shows "\<exists>ev. Event ev \<in> set items \<and> re_type ev = ''exited'' \<and> last_view = re_instance ev"
  using assms
proof (induction socket callback ctx a items rule: consume_stream.induct)
  case (4 socket callback ctx a ev items)
  show ?case
  proof (cases "receive_event socket a ev")
    case (Inr a1)
    show ?thesis
    proof (cases "callback ev = None \<and> re_type ev \<noteq> ''exited''")
      case True
      then show ?thesis using 4 Inr by (auto simp: Let_def)
    next
      case False
      then have exited: "re_type ev = ''exited''" "last_view = at_last a1"
        using 4(2) Inr by (auto simp: Let_def split: option.splits)
      then have "at_last a1 = re_instance ev" using Inr by (auto simp: receive_event_def split: if_splits)
      then show ?thesis using exited by auto
    qed
  qed (use 4 in simp)
qed auto



section \<open>Unknown outcomes\<close>

text \<open>An error says that the daemon may have acted.\<close>

fun outcome_unknown :: "client_error \<Rightarrow> bool" where
  "outcome_unknown (ClientError (Wrapped p e q)) =
    list_ex (\<lambda>f. case f of T t \<Rightarrow> contains t ''outcome may be unknown'' | _ \<Rightarrow> False) p"
| "outcome_unknown _ = False"

text \<open>C16: A client says so when it cannot know what the daemon did: when a request that changes something was sent and
  neither an error status nor the failure to reach the daemon answers for it, every error, be it a broken
  connection, a cancelled context, an answer too long or one that cannot be decoded, says that the outcome may be
  unknown.\<close>

theorem unknown_outcome_reported:
  assumes "client_do_json http_text envelope decode socket m None after x = Inl e" and "method_may_mutate m"
    and "\<And>err. x = NotConnected err \<Longrightarrow> after \<noteq> None"
    and "\<And>status body. x = Responded status body \<Longrightarrow> 200 \<le> status \<and> status < 300"
  shows "outcome_unknown e"
  using assms
  by (auto simp: client_do_json_def client_do_def unreadable_def interrupted_def no_response_def
      split: exchange.splits option.splits sum.splits if_splits decoded.splits)

theorem unknown_outcome_reported_witness:
  "outcome_unknown (unreadable ''s'' ''POST'' (wrapf ''decode daemon response: '' (new_error ''eof'')))"
proof -
  have failed: "client_do_json (\<lambda>n. []) (\<lambda>s. None) (\<lambda>s. Undecodable (new_error ''eof'') :: nat decoded) ''s'' ''POST'' None None (Responded 200 (Inr [])) =
      Inl (unreadable ''s'' ''POST'' (wrapf ''decode daemon response: '' (new_error ''eof'')))"
    by (simp add: client_do_json_def client_do_def read_bounded_body_def)
  show ?thesis by (rule unknown_outcome_reported[OF failed]) (simp_all add: method_may_mutate_def)
qed

end
