(* ===== verification/CliFlags.thy ===== *)
theory CliFlags
  imports ControlClient
begin

text \<open>
  The arguments of a command (\<open>parseFlags\<close>, \<open>requireArguments\<close> and the small parsers of \<open>cli/cli.go\<close>) over
  the part of Go's package \<open>flag\<close> they use: flag sets with string, integer and boolean flags, and \<open>Parse\<close>.
  The result of parsing is the list of assignments, in their order, and the positional arguments.
\<close>

section \<open>Errors and exit codes\<close>

text \<open>\<open>Reported\<close> and \<open>NotOpened\<close> put a text before an error of the client and of opening a queue; \<open>Several\<close> is
  \<open>errors.Join\<close> of such errors.\<close>

datatype cli_error =
    Usage "frag list"
  | Help
  | Failure go_error
  | Reported "frag list" client_error
  | NotOpened "frag list" open_failure
  | Several "cli_error list"

definition usage :: "string \<Rightarrow> cli_error" where
  "usage s = Usage [T s]"

definition exit_code :: "cli_error option \<Rightarrow> nat" where
  "exit_code failed = (case failed of None \<Rightarrow> 0 | Some Help \<Rightarrow> 0 | Some (Usage m) \<Rightarrow> 2 | Some e \<Rightarrow> 1)"

text \<open>\<open>RunVersion\<close>: \<open>run\<close> is what a known command comes to on its arguments.\<close>

definition cli_commands :: "string list" where
  "cli_commands =
    [''check'', ''parse'', ''test'', ''start'', ''ps'', ''stop'', ''status'', ''queue'', ''jobs'', ''job'', ''logs'']"

definition run_version :: "(string \<Rightarrow> string list \<Rightarrow> cli_error option) \<Rightarrow> string list \<Rightarrow> nat" where
  "run_version run args =
    (case args of
       [] \<Rightarrow> 2
     | command # rest \<Rightarrow>
         if command \<in> {''help'', ''-h'', ''--help''} then 0
         else if command \<in> {''version'', ''-v'', ''-version'', ''--version''} then (if rest = [] then 0 else 2)
         else if command \<in> set cli_commands then exit_code (run command rest)
         else 2)"

section \<open>Integers of flags\<close>

definition lower_char :: "char \<Rightarrow> char" where
  "lower_char c = (if 65 \<le> byte c \<and> byte c \<le> 90 then char_of (byte c + 32) else c)"

text \<open>\<open>underscoreOK\<close>: the flag says whether a digit (or the base prefix) was last, and whether an underscore was.\<close>

fun underscores_ok :: "bool \<Rightarrow> bool \<Rightarrow> bool \<Rightarrow> string \<Rightarrow> bool" where
  "underscores_ok hex digit mark [] = (\<not> mark)"
| "underscores_ok hex digit mark (c # s) =
    (if decimal_digit c \<or> (hex \<and> 97 \<le> byte (lower_char c) \<and> byte (lower_char c) \<le> 102) then underscores_ok hex True False s
     else if c = CHR ''_'' then digit \<and> underscores_ok hex False True s
     else \<not> mark \<and> underscores_ok hex False False s)"

definition unsigned_text :: "string \<Rightarrow> string" where
  "unsigned_text s = (if prefix ''-'' s \<or> prefix ''+'' s then tl s else s)"

definition base_prefix :: "string \<Rightarrow> nat option" where
  "base_prefix s =
    (case s of
       c # d # _ \<Rightarrow>
         if c \<noteq> CHR ''0'' then None
         else if lower_char d = CHR ''b'' then Some 2
         else if lower_char d = CHR ''o'' then Some 8
         else if lower_char d = CHR ''x'' then Some 16 else None
     | _ \<Rightarrow> None)"

definition digit_in :: "nat \<Rightarrow> char \<Rightarrow> nat option" where
  "digit_in base c =
    (let d = (if decimal_digit c then Some (byte c - 48)
              else if 97 \<le> byte (lower_char c) \<and> byte (lower_char c) \<le> 122 then Some (byte (lower_char c) - 87) else None) in
     case d of Some n \<Rightarrow> if n < base then Some n else None | None \<Rightarrow> None)"

fun digits_in :: "nat \<Rightarrow> nat \<Rightarrow> string \<Rightarrow> string + nat" where
  "digits_in base n [] = Inr n"
| "digits_in base n (c # s) =
    (if c = CHR ''_'' then digits_in base n s
     else
       (case digit_in base c of
          None \<Rightarrow> Inl ''parse error''
        | Some d \<Rightarrow> if 2 ^ 64 \<le> n * base + d then Inl ''value out of range'' else digits_in base (n * base + d) s))"

text \<open>\<open>strconv.ParseInt(s, 0, 64)\<close>.\<close>

definition parse_int0 :: "string \<Rightarrow> string + int" where
  "parse_int0 s =
    (let t = unsigned_text s;
         plan = (case (if 3 \<le> length t then base_prefix t else None) of
                   Some b \<Rightarrow> (b, drop 2 t)
                 | None \<Rightarrow> if prefix ''0'' t then (8, tl t) else (10, t));
         marks = underscores_ok (base_prefix t = Some 16) (base_prefix t \<noteq> None) False
           (if base_prefix t = None then t else drop 2 t) in
     if t = [] then Inl ''parse error''
     else
       (case digits_in (fst plan) 0 (snd plan) of
          Inl reason \<Rightarrow> Inl reason
        | Inr n \<Rightarrow>
            if CHR ''_'' \<in> set (snd plan) \<and> \<not> marks then Inl ''parse error''
            else if prefix ''-'' s then (if n \<le> 2 ^ 63 then Inr (- int n) else Inl ''value out of range'')
            else (if n < 2 ^ 63 then Inr (int n) else Inl ''value out of range'')))"

section \<open>Flag sets\<close>

datatype flag_kind = StringFlag | IntFlag | BoolFlag

type_synonym flag_set = "(string \<times> flag_kind) list"

record parsed_args =
  pa_assigned :: "(string \<times> string) list"
  pa_args :: "string list"

text \<open>Why a value is refused, if it is.\<close>

definition flag_refuses :: "flag_kind \<Rightarrow> string \<Rightarrow> string option" where
  "flag_refuses k v =
    (case k of
       StringFlag \<Rightarrow> None
     | IntFlag \<Rightarrow> (case parse_int0 v of Inl reason \<Rightarrow> Some reason | Inr n \<Rightarrow> None)
     | BoolFlag \<Rightarrow> if parse_bool v = None then Some ''parse error'' else None)"

definition set_flag :: "string \<Rightarrow> flag_kind \<Rightarrow> string \<Rightarrow> cli_error option" where
  "set_flag name k v =
    (case flag_refuses k v of
       None \<Rightarrow> None
     | Some reason \<Rightarrow>
         Some (Failure (ErrorString
           (if k = BoolFlag then [T ''invalid boolean value '', Q v, T '' for -'', T name, T '': '', T reason]
            else [T ''invalid value '', Q v, T '' for flag -'', T name, T '': '', T reason]))))"

text \<open>The name of a flag argument, without its dashes, and the value after its first equals sign.\<close>

definition flag_body :: "string \<Rightarrow> string" where
  "flag_body s = (if prefix ''--'' s then drop 2 s else tl s)"

definition flag_name :: "string \<Rightarrow> string" where
  "flag_name body = hd body # takeWhile (\<lambda>c. c \<noteq> CHR ''='') (tl body)"

definition flag_value :: "string \<Rightarrow> string option" where
  "flag_value body =
    (let rest = dropWhile (\<lambda>c. c \<noteq> CHR ''='') (tl body) in if rest = [] then None else Some (tl rest))"

definition is_flag :: "string \<Rightarrow> bool" where
  "is_flag s \<longleftrightarrow> 2 \<le> length s \<and> prefix ''-'' s"

text \<open>\<open>FlagSet.Parse\<close>.\<close>

fun flag_parse :: "flag_set \<Rightarrow> (string \<times> string) list \<Rightarrow> string list \<Rightarrow> cli_error + parsed_args" where
  "flag_parse flags assigned [] = Inr \<lparr>pa_assigned = assigned, pa_args = []\<rparr>"
| "flag_parse flags assigned (s # args) =
    (if \<not> is_flag s then Inr \<lparr>pa_assigned = assigned, pa_args = s # args\<rparr>
     else if s = ''--'' then Inr \<lparr>pa_assigned = assigned, pa_args = args\<rparr>
     else
       (let body = flag_body s in
        if body = [] \<or> hd body = CHR ''-'' \<or> hd body = CHR ''=''
        then Inl (Failure (ErrorString [T ''bad flag syntax: '', T s]))
        else
          (let name = flag_name body in
           case map_of flags name of
             None \<Rightarrow>
               if name = ''help'' \<or> name = ''h'' then Inl Help
               else Inl (Failure (ErrorString [T ''flag provided but not defined: -'', T name]))
           | Some k \<Rightarrow>
               (case flag_value body of
                  Some v \<Rightarrow>
                    (case set_flag name k v of Some e \<Rightarrow> Inl e | None \<Rightarrow> flag_parse flags (assigned @ [(name, v)]) args)
                | None \<Rightarrow>
                    if k = BoolFlag then flag_parse flags (assigned @ [(name, ''true'')]) args
                    else
                      (case args of
                         [] \<Rightarrow> Inl (Failure (ErrorString [T ''flag needs an argument: -'', T name]))
                       | v # rest \<Rightarrow>
                           (case set_flag name k v of
                              Some e \<Rightarrow> Inl e
                            | None \<Rightarrow> flag_parse flags (assigned @ [(name, v)]) rest))))))"

section \<open>Options before and after positional arguments\<close>

text \<open>The loop of \<open>parseFlags\<close>: the options and the positional arguments so far, and whether the options are to
  be parsed alone, because one is unknown or has no value.\<close>

fun separate :: "flag_set \<Rightarrow> string list \<Rightarrow> string list \<Rightarrow> string list \<Rightarrow> string list \<times> string list option" where
  "separate flags options positional [] = (options, Some positional)"
| "separate flags options positional (s # args) =
    (if s = ''--'' then (options, Some (positional @ args))
     else if s = ''-'' \<or> \<not> prefix ''-'' s then separate flags options (positional @ [s]) args
     else
       (let name0 = trim_prefix ''-'' (trim_prefix ''-'' s);
            name = takeWhile (\<lambda>c. c \<noteq> CHR ''='') name0;
            has_value = CHR ''='' \<in> set name0 in
        case map_of flags name of
          None \<Rightarrow> (options @ [s], None)
        | Some k \<Rightarrow>
            if \<not> has_value \<and> k \<noteq> BoolFlag then
              (case args of
                 [] \<Rightarrow> (options @ [s], None)
               | v # rest \<Rightarrow> separate flags (options @ [s, v]) positional rest)
            else separate flags (options @ [s]) positional args))"

definition parse_flags :: "flag_set \<Rightarrow> string list \<Rightarrow> cli_error + parsed_args" where
  "parse_flags flags args =
    (case separate flags [] [] args of
       (options, None) \<Rightarrow> flag_parse flags [] options
     | (options, Some positional) \<Rightarrow> flag_parse flags [] (options @ ''--'' # positional))"

text \<open>The value of a flag: its last assignment, or the default.\<close>

definition flag_or :: "parsed_args \<Rightarrow> string \<Rightarrow> string \<Rightarrow> string" where
  "flag_or p name fallback = (case map_of (rev (pa_assigned p)) name of Some v \<Rightarrow> v | None \<Rightarrow> fallback)"

definition arg_at :: "parsed_args \<Rightarrow> nat \<Rightarrow> string" where
  "arg_at p i = (if i < length (pa_args p) then pa_args p ! i else [])"

definition require_arguments :: "string \<Rightarrow> parsed_args \<Rightarrow> string list \<Rightarrow> cli_error option" where
  "require_arguments command p names =
    (if length names < length (pa_args p)
     then Some (Usage [T command, T '' expects '', D (int (length names)), T '' positional '',
       T (if length names = 1 then ''argument'' else ''arguments''), T '' ('', T (join_strings '', '' names), T '')''])
     else
       (case List.find (\<lambda>(i, name). blank (arg_at p i)) (List.enumerate 0 names) of
          Some (i, name) \<Rightarrow> Some (Usage [T name, T '' is required''])
        | None \<Rightarrow> None))"

definition one_job_id :: "string \<Rightarrow> parsed_args \<Rightarrow> cli_error + int" where
  "one_job_id command p =
    (case require_arguments command p [''config path'', ''job ID''] of
       Some e \<Rightarrow> Inl e
     | None \<Rightarrow>
         (case parse_int 64 (arg_at p 1) of
            (n, failed) \<Rightarrow>
              if failed \<noteq> None \<or> n \<le> 0 then Inl (Usage [T ''invalid job ID '', Q (arg_at p 1)]) else Inr n))"

definition log_level :: "(string \<Rightarrow> string) \<Rightarrow> string \<Rightarrow> cli_error + int" where
  "log_level lower v =
    (let t = to_lower lower (trim_space v) in
     if t = ''debug'' then Inr (- 4)
     else if t = ''info'' then Inr 0
     else if t = ''warn'' \<or> t = ''warning'' then Inr 4
     else if t = ''error'' then Inr 8
     else Inl (Usage [T ''unknown log level '', Q v]))"

section \<open>What parsing means\<close>

text \<open>A command line as its parts: options with their value in the same argument, in the next one, or without
  one; and positional arguments. \<open>long\<close> writes two dashes.\<close>

datatype part = Joint bool string string | Apart bool string string | Switch bool string | Word string

definition dashes :: "bool \<Rightarrow> string" where
  "dashes long = (if long then ''--'' else ''-'')"

fun part_text :: "part \<Rightarrow> string list" where
  "part_text (Joint long name v) = [dashes long @ name @ ''='' @ v]"
| "part_text (Apart long name v) = [dashes long @ name, v]"
| "part_text (Switch long name) = [dashes long @ name]"
| "part_text (Word w) = [w]"

definition plain_name :: "string \<Rightarrow> bool" where
  "plain_name name \<longleftrightarrow> name \<noteq> [] \<and> CHR ''='' \<notin> set name \<and> hd name \<noteq> CHR ''-''"

fun part_ok :: "flag_set \<Rightarrow> part \<Rightarrow> bool" where
  "part_ok flags (Joint long name v) = (plain_name name \<and> (\<exists>k. map_of flags name = Some k \<and> flag_refuses k v = None))"
| "part_ok flags (Apart long name v) =
    (plain_name name \<and> (\<exists>k. map_of flags name = Some k \<and> k \<noteq> BoolFlag \<and> flag_refuses k v = None))"
| "part_ok flags (Switch long name) = (plain_name name \<and> map_of flags name = Some BoolFlag)"
| "part_ok flags (Word w) = (w = ''-'' \<or> \<not> prefix ''-'' w)"

fun part_assigned :: "part \<Rightarrow> (string \<times> string) list" where
  "part_assigned (Joint long name v) = [(name, v)]"
| "part_assigned (Apart long name v) = [(name, v)]"
| "part_assigned (Switch long name) = [(name, ''true'')]"
| "part_assigned (Word w) = []"

fun part_words :: "part \<Rightarrow> string list" where
  "part_words (Word w) = [w]"
| "part_words _ = []"

fun part_options :: "part \<Rightarrow> string list" where
  "part_options (Word w) = []"
| "part_options p = part_text p"

lemma dashed:
  assumes "c \<noteq> CHR ''-''"
  shows "is_flag (dashes long @ c # s)" and "dashes long @ c # s \<noteq> ''--''" and "dashes long @ c # s \<noteq> ''-''"
    and "prefix ''-'' (dashes long @ c # s)" and "flag_body (dashes long @ c # s) = c # s"
    and "trim_prefix ''-'' (trim_prefix ''-'' (dashes long @ c # s)) = c # s"
  using assms by (cases long; simp add: dashes_def is_flag_def flag_body_def trim_prefix_def)+

lemma take_name:
  assumes "CHR ''='' \<notin> set cs" and "rest = [] \<or> (\<exists>v. rest = CHR ''='' # v)"
  shows "takeWhile (\<lambda>x. x \<noteq> CHR ''='') (cs @ rest) = cs \<and> dropWhile (\<lambda>x. x \<noteq> CHR ''='') (cs @ rest) = rest"
  using assms by (induction cs) auto

lemma named_option:
  assumes "plain_name name" and "rest = [] \<or> (\<exists>v. rest = CHR ''='' # v)"
  shows "\<exists>c s. name @ rest = c # s \<and> c \<noteq> CHR ''-'' \<and> c \<noteq> CHR ''='' \<and> flag_name (c # s) = name \<and>
    flag_value (c # s) = (if rest = [] then None else Some (tl rest)) \<and>
    takeWhile (\<lambda>x. x \<noteq> CHR ''='') (c # s) = name \<and> (CHR ''='' \<in> set (c # s) \<longleftrightarrow> rest \<noteq> [])"
proof -
  obtain c cs where name: "name = c # cs" "c \<noteq> CHR ''-''" "c \<noteq> CHR ''=''" "CHR ''='' \<notin> set cs"
    using assms(1) by (cases name) (auto simp: plain_name_def)
  have "flag_name (c # cs @ rest) = name" "flag_value (c # cs @ rest) = (if rest = [] then None else Some (tl rest))"
    using take_name[OF name(4) assms(2)] by (simp_all add: flag_name_def flag_value_def name(1) Let_def)
  moreover have "takeWhile (\<lambda>x. x \<noteq> CHR ''='') (c # cs @ rest) = name"
    using take_name[OF name(4) assms(2)] by (simp add: name)
  moreover have "CHR ''='' \<in> set (c # cs @ rest) \<longleftrightarrow> rest \<noteq> []"
    using assms(2) name by auto
  ultimately show ?thesis using name by auto
qed

lemma set_flag_ok: "flag_refuses k v = None \<Longrightarrow> set_flag name k v = None"
  by (simp add: set_flag_def)

lemma flag_parse_option:
  assumes "c \<noteq> CHR ''-''" and "c \<noteq> CHR ''=''" and "map_of flags (flag_name (c # s)) = Some k"
  shows "flag_parse flags assigned ((dashes long @ c # s) # args) =
    (let name = flag_name (c # s) in
     case flag_value (c # s) of
       Some v \<Rightarrow> (case set_flag name k v of Some e \<Rightarrow> Inl e | None \<Rightarrow> flag_parse flags (assigned @ [(name, v)]) args)
     | None \<Rightarrow>
         if k = BoolFlag then flag_parse flags (assigned @ [(name, ''true'')]) args
         else
           (case args of
              [] \<Rightarrow> Inl (Failure (ErrorString [T ''flag needs an argument: -'', T name]))
            | v # rest \<Rightarrow>
                (case set_flag name k v of
                   Some e \<Rightarrow> Inl e
                 | None \<Rightarrow> flag_parse flags (assigned @ [(name, v)]) rest)))"
  by (subst flag_parse.simps(2), simp only: dashed[OF assms(1)] if_False not_True_eq_False Let_def)
    (simp add: assms)

lemma separate_option:
  assumes "c \<noteq> CHR ''-''" and "takeWhile (\<lambda>x. x \<noteq> CHR ''='') (c # s) = name" and "map_of flags name = Some k"
  shows "separate flags options positional ((dashes long @ c # s) # args) =
    (if CHR ''='' \<notin> set (c # s) \<and> k \<noteq> BoolFlag then
       (case args of
          [] \<Rightarrow> (options @ [dashes long @ c # s], None)
        | v # rest \<Rightarrow> separate flags (options @ [dashes long @ c # s, v]) positional rest)
     else separate flags (options @ [dashes long @ c # s]) positional args)"
  by (subst separate.simps(2),
    simp only: dashed[OF assms(1)] if_False not_True_eq_False not_False_eq_True Let_def assms simp_thms option.case)

lemma parse_part:
  assumes "part_ok flags p"
  shows "flag_parse flags assigned (part_options p @ args) = flag_parse flags (assigned @ part_assigned p) args"
proof (cases p)
  case (Joint long name v)
  then obtain k where k: "plain_name name" "map_of flags name = Some k" "flag_refuses k v = None" using assms by auto
  obtain c s where s: "name @ CHR ''='' # v = c # s" "c \<noteq> CHR ''-''" "c \<noteq> CHR ''=''" "flag_name (c # s) = name"
    "flag_value (c # s) = Some v"
    using named_option[OF k(1), of "CHR ''='' # v"] by auto
  show ?thesis using flag_parse_option[OF s(2,3), where k = k] Joint k s by (simp add: set_flag_ok)
next
  case (Apart long name v)
  then obtain k where k: "plain_name name" "map_of flags name = Some k" "k \<noteq> BoolFlag" "flag_refuses k v = None"
    using assms by auto
  obtain c s where s: "name = c # s" "c \<noteq> CHR ''-''" "c \<noteq> CHR ''=''" "flag_name (c # s) = name" "flag_value (c # s) = None"
    using named_option[OF k(1), of "[]"] by auto
  show ?thesis using flag_parse_option[OF s(2,3), where k = k] Apart k s by (simp add: set_flag_ok)
next
  case (Switch long name)
  then have k: "plain_name name" "map_of flags name = Some BoolFlag" using assms by auto
  obtain c s where s: "name = c # s" "c \<noteq> CHR ''-''" "c \<noteq> CHR ''=''" "flag_name (c # s) = name" "flag_value (c # s) = None"
    using named_option[OF k(1), of "[]"] by auto
  show ?thesis using flag_parse_option[OF s(2,3), where k = BoolFlag] Switch k s by simp
qed simp

lemma parse_parts:
  "list_all (part_ok flags) ps \<Longrightarrow>
   flag_parse flags assigned (concat (map part_options ps) @ ''--'' # words) =
   Inr \<lparr>pa_assigned = assigned @ concat (map part_assigned ps), pa_args = words\<rparr>"
  by (induction ps arbitrary: assigned) (simp_all add: parse_part is_flag_def)

lemma separate_part:
  assumes "part_ok flags p"
  shows "separate flags options positional (part_text p @ args) =
    separate flags (options @ part_options p) (positional @ part_words p) args"
proof (cases p)
  case (Joint long name v)
  then obtain k where k: "plain_name name" "map_of flags name = Some k" using assms by auto
  obtain c s where s: "name @ CHR ''='' # v = c # s" "c \<noteq> CHR ''-''"
    "takeWhile (\<lambda>x. x \<noteq> CHR ''='') (c # s) = name" "CHR ''='' \<in> set (c # s)"
    using named_option[OF k(1), of "CHR ''='' # v"] by blast
  show ?thesis using separate_option[OF s(2,3) k(2)] Joint s(1,4) by (simp del: list.set)
next
  case (Apart long name v)
  then obtain k where k: "plain_name name" "map_of flags name = Some k" "k \<noteq> BoolFlag" using assms by auto
  obtain c s where s: "name = c # s" "c \<noteq> CHR ''-''" "takeWhile (\<lambda>x. x \<noteq> CHR ''='') (c # s) = name"
    "CHR ''='' \<notin> set (c # s)"
    using named_option[OF k(1), of "[]"] by auto
  show ?thesis using separate_option[OF s(2,3) k(2)] Apart s(1,4) k(3) by (simp del: list.set)
next
  case (Switch long name)
  then have k: "plain_name name" "map_of flags name = Some BoolFlag" using assms by auto
  obtain c s where s: "name = c # s" "c \<noteq> CHR ''-''" "takeWhile (\<lambda>x. x \<noteq> CHR ''='') (c # s) = name"
    using named_option[OF k(1), of "[]"] by auto
  show ?thesis using separate_option[OF s(2,3) k(2)] Switch s(1) by (simp del: list.set)
next
  case (Word w)
  then have "w \<noteq> ''--''" using assms by auto
  then show ?thesis using assms Word by simp
qed

lemma separate_parts:
  "list_all (part_ok flags) ps \<Longrightarrow>
   separate flags options positional (concat (map part_text ps) @ args) =
   separate flags (options @ concat (map part_options ps)) (positional @ concat (map part_words ps)) args"
  by (induction ps arbitrary: options positional) (simp_all add: separate_part)

text \<open>C25: Options may stand anywhere before a lone `--`: for every way of writing options and positional arguments in
  any order, with values joined by `=` or apart, parsing finds exactly the assignments and the positional
  arguments, both in their order, and takes everything after a lone `--` as it stands, even if it begins with a
  dash.\<close>

theorem options_anywhere:
  assumes "list_all (part_ok flags) ps"
  shows "parse_flags flags (concat (map part_text ps)) =
      Inr \<lparr>pa_assigned = concat (map part_assigned ps), pa_args = concat (map part_words ps)\<rparr> \<and>
    parse_flags flags (concat (map part_text ps) @ ''--'' # words) =
      Inr \<lparr>pa_assigned = concat (map part_assigned ps), pa_args = concat (map part_words ps) @ words\<rparr>"
  using separate_parts[OF assms, of "[]" "[]" "[]"] separate_parts[OF assms, of "[]" "[]" "''--'' # words"]
    parse_parts[OF assms, of "[]"]
  by (simp add: parse_flags_def)

definition demo_flags :: flag_set where
  "demo_flags = [(''limit'', IntFlag), (''all'', BoolFlag), (''socket'', StringFlag)]"

theorem options_anywhere_witness:
  "parse_flags demo_flags [''jobs.yaml'', ''--limit=0x10'', ''-'', ''-all'', ''--socket'', ''-s'', ''--'', ''-x''] =
    Inr \<lparr>pa_assigned = [(''limit'', ''0x10''), (''all'', ''true''), (''socket'', ''-s'')], pa_args = [''jobs.yaml'', ''-'', ''-x'']\<rparr>"
proof -
  let ?ps = "[Word ''jobs.yaml'', Joint True ''limit'' ''0x10'', Word ''-'', Switch False ''all'', Apart True ''socket'' ''-s'']"
  have number: "flag_refuses IntFlag ''0x10'' = None"
    by (simp add: flag_refuses_def parse_int0_def unsigned_text_def base_prefix_def lower_char_def digit_in_def
      decimal_digit_def Let_def)
  have ok: "list_all (part_ok demo_flags) ?ps"
    using number by (simp add: demo_flags_def plain_name_def flag_refuses_def[of StringFlag])
  show ?thesis using options_anywhere[OF ok, of "[''-x'']"] by (simp add: dashes_def)
qed

end
