(* ===== verification/CliStores.thy ===== *)
theory CliStores
  imports CliFlags DaemonModel
begin

text \<open>
  What the inspection commands read (\<open>cli/inspection.go\<close>, the opening of stores in \<open>cli/cli.go\<close>,
  \<open>config/discovery.go\<close> and the queue reader of \<open>control/inspection.go\<close>): the configuration files a path
  selects, the databases they name, and a reader for each, either on the database itself or through the daemon.
  A property says that the two readers agree.
\<close>

section \<open>Discovery\<close>

datatype file_kind = RegularFile | DirectoryFile | OtherFile

record config_tree =
  ct_cwd :: "string result"
  ct_stat :: "string \<Rightarrow> file_kind result"
  ct_entries :: "string \<Rightarrow> string list result"

definition absolute_result :: "config_tree \<Rightarrow> string \<Rightarrow> string result" where
  "absolute_result t p =
    (if is_abs p then Inr (abs_path [] p)
     else (case ct_cwd t of Inl e \<Rightarrow> Inl e | Inr cwd \<Rightarrow> Inr (clean (abs_path cwd p))))"

text \<open>The loop of \<open>yamlFilesIn\<close> over the entries of the directory.\<close>

fun yaml_files :: "config_tree \<Rightarrow> string \<Rightarrow> string list \<Rightarrow> string list result" where
  "yaml_files t directory [] = Inr []"
| "yaml_files t directory (name # names) =
    (if ext_path name \<noteq> ''.yaml'' \<and> ext_path name \<noteq> ''.yml'' then yaml_files t directory names
     else
       (let filename = join_path [directory, name] in
        case ct_stat t filename of
          Inl e \<Rightarrow>
            if not_exist e then yaml_files t directory names
            else Inl (Wrapped [T ''inspect configuration candidate '', T filename, T '': ''] e [])
        | Inr kind \<Rightarrow>
            (case yaml_files t directory names of
               Inl e \<Rightarrow> Inl e
             | Inr files \<Rightarrow> Inr (if kind = RegularFile then clean filename # files else files))))"

definition yaml_files_in :: "config_tree \<Rightarrow> string \<Rightarrow> string list result" where
  "yaml_files_in t directory =
    (case ct_entries t directory of
       Inl e \<Rightarrow> Inl (Wrapped [T ''read configuration directory '', T directory, T '': ''] e [])
     | Inr names \<Rightarrow> (case yaml_files t directory names of Inl e \<Rightarrow> Inl e | Inr files \<Rightarrow> Inr (sort_strings files)))"

definition discover :: "config_tree \<Rightarrow> string \<Rightarrow> string list result" where
  "discover t explicit =
    (if blank explicit then Inl (new_error ''configuration path is required'')
     else
       (case absolute_result t explicit of
          Inl e \<Rightarrow> Inl (Wrapped [T ''resolve explicit configuration '', Q explicit, T '': ''] e [])
        | Inr absolute \<Rightarrow>
       (case ct_stat t absolute of
          Inl e \<Rightarrow> Inl (Wrapped [T ''inspect explicit configuration '', T absolute, T '': ''] e [])
        | Inr RegularFile \<Rightarrow> Inr [absolute]
        | Inr OtherFile \<Rightarrow>
            Inl (ErrorString [T ''explicit configuration '', T absolute, T '' is neither a regular file nor a directory''])
        | Inr DirectoryFile \<Rightarrow>
            (case yaml_files_in t absolute of
               Inl e \<Rightarrow> Inl e
             | Inr [] \<Rightarrow> Inl (ErrorString [T ''explicit configuration directory contains no YAML files: '', T absolute])
             | Inr files \<Rightarrow> Inr files))))"

definition discover_configs :: "config_tree \<Rightarrow> string \<Rightarrow> cli_error + string list" where
  "discover_configs t selection =
    (if blank selection then Inl (usage ''config path is required'')
     else (case discover t selection of Inl e \<Rightarrow> Inl (Failure e) | Inr files \<Rightarrow> Inr files))"

lemma yaml_files_set:
  "yaml_files t directory names = Inr files \<Longrightarrow>
   set files = {clean (join_path [directory, name]) | name. name \<in> set names \<and> ext_path name \<in> {''.yaml'', ''.yml''} \<and>
     ct_stat t (join_path [directory, name]) = Inr RegularFile}"
proof (induction names arbitrary: files)
  case (Cons name names)
  then show ?case by (auto simp: Let_def split: if_splits sum.splits)
qed simp

lemma yaml_files_in_set:
  assumes "yaml_files_in t directory = Inr files"
  shows "sorted_wrt string_le files \<and> (\<exists>names. ct_entries t directory = Inr names \<and>
    set files = {clean (join_path [directory, name]) | name. name \<in> set names \<and> ext_path name \<in> {''.yaml'', ''.yml''} \<and>
      ct_stat t (join_path [directory, name]) = Inr RegularFile})"
proof -
  from assms obtain names found where "ct_entries t directory = Inr names" "yaml_files t directory names = Inr found"
    "files = sort_strings found"
    by (auto simp: yaml_files_in_def split: sum.splits)
  then show ?thesis using yaml_files_set[of t directory names found] by (simp add: sorted_sort_strings set_sort_strings)
qed

lemma discover_files:
  assumes "discover t selection = Inr files"
  shows "files \<noteq> [] \<and> sorted_wrt string_le files \<and>
    (\<exists>absolute. absolute_result t selection = Inr absolute \<and>
      (ct_stat t absolute = Inr RegularFile \<and> files = [absolute] \<or>
       ct_stat t absolute = Inr DirectoryFile \<and>
       (\<exists>names. ct_entries t absolute = Inr names \<and>
         set files = {clean (join_path [absolute, name]) | name. name \<in> set names \<and>
           ext_path name \<in> {''.yaml'', ''.yml''} \<and> ct_stat t (join_path [absolute, name]) = Inr RegularFile})))"
proof -
  from assms obtain absolute where absolute: "absolute_result t selection = Inr absolute"
    and "ct_stat t absolute = Inr RegularFile \<and> files = [absolute] \<or>
      ct_stat t absolute = Inr DirectoryFile \<and> yaml_files_in t absolute = Inr files \<and> files \<noteq> []"
    by (auto simp: discover_def split: if_splits sum.splits file_kind.splits list.splits)
  then show ?thesis using yaml_files_in_set[of t absolute files] by (elim disjE) auto
qed

section \<open>Readers\<close>

type_synonym 'a answer = "client_error + 'a"

record queue_reader =
  qr_counts :: "queue_counts answer"
  qr_list_jobs :: "job_filter \<Rightarrow> job list answer"
  qr_get_job :: "int \<Rightarrow> job answer"
  qr_list_runs :: "int \<Rightarrow> run list answer"
  qr_list_commands :: "int \<Rightarrow> command_execution list answer"

text \<open>A call of a reader: a command makes each at most once, so that it says what the call finds.\<close>

datatype read_op = ReadCounts | ReadJobs job_filter | ReadJob int | ReadRuns int | ReadCommands int

definition local_answer :: "'a result \<Rightarrow> 'a answer" where
  "local_answer r = (case r of Inl e \<Rightarrow> Inl (ClientError e) | Inr x \<Rightarrow> Inr x)"

definition local_reader :: "(string \<Rightarrow> go_error) \<Rightarrow> (read_op \<Rightarrow> engine \<times> db) \<Rightarrow> queue_reader" where
  "local_reader json_error found =
    \<lparr>qr_counts = local_answer (case found ReadCounts of (e, d) \<Rightarrow> counts e d),
     qr_list_jobs = (\<lambda>f. local_answer (case found (ReadJobs f) of (e, d) \<Rightarrow> list_jobs e f d)),
     qr_get_job = (\<lambda>i. local_answer (case found (ReadJob i) of (e, d) \<Rightarrow> get_job e i d)),
     qr_list_runs = (\<lambda>i. local_answer (case found (ReadRuns i) of (e, d) \<Rightarrow> list_runs e i d)),
     qr_list_commands = (\<lambda>i. local_answer (case found (ReadCommands i) of (e, d) \<Rightarrow> list_commands e json_error i d))\<rparr>"

text \<open>The path and the query of a request to the daemon.\<close>

fun request_operation :: "read_op \<Rightarrow> string" where
  "request_operation ReadCounts = ''counts''"
| "request_operation (ReadJobs f) = ''jobs''"
| "request_operation (ReadJob i) = ''job''"
| "request_operation (ReadRuns i) = ''runs''"
| "request_operation (ReadCommands i) = ''commands''"

fun request_values :: "read_op \<Rightarrow> string \<Rightarrow> string" where
  "request_values ReadCounts = (\<lambda>_. [])"
| "request_values (ReadJobs f) =
    (\<lambda>_. [])(''status'' := f_status f, ''watch'' := f_watch_name f, ''limit'' := format_int (f_limit f),
      ''offset'' := format_int (f_offset f))"
| "request_values (ReadJob i) = (\<lambda>_. [])(''id'' := format_int i)"
| "request_values (ReadRuns i) = (\<lambda>_. [])(''id'' := format_int i)"
| "request_values (ReadCommands i) = (\<lambda>_. [])(''id'' := format_int i)"

text \<open>\<open>QueueReader.read\<close>: the error of a record that was not found is that of a local reader. Only the first
  value of the body is decoded.\<close>

record remote_link =
  rl_socket :: string
  rl_http_text :: "nat \<Rightarrow> string"
  rl_envelope :: "string \<Rightarrow> (string \<times> string) option"
  rl_before :: "read_op \<Rightarrow> go_error option"
  rl_after :: "read_op \<Rightarrow> go_error option"
  rl_exchange :: "read_op \<Rightarrow> exchange"

definition read_remote :: "remote_link \<Rightarrow> (string \<Rightarrow> 'a decoded) \<Rightarrow> read_op \<Rightarrow> 'a answer" where
  "read_remote l decode call =
    (case client_do (rl_socket l) ''GET'' (rl_before l call) (rl_after l call) (rl_exchange l call) of
       Inl e \<Rightarrow> Inl e
     | Inr (status, body) \<Rightarrow>
         if status \<noteq> 200 then
           (case decode_api_error (rl_http_text l) (rl_envelope l) status body of
              ApiFailure s code message \<Rightarrow>
                if code = ''record_not_found'' then Inl (ClientError (Wrapped [] err_not_found [T '': '', T message]))
                else Inl (ApiFailure s code message)
            | e \<Rightarrow> Inl e)
         else
           (case body of
              Inl e \<Rightarrow> Inl (ClientError e)
            | Inr contents \<Rightarrow>
                (case decode contents of
                   Undecodable e \<Rightarrow> Inl (ClientError e)
                 | Decoded x \<Rightarrow> Inr x
                 | MoreValues x \<Rightarrow> Inr x
                 | BadTrailer x e \<Rightarrow> Inr x)))"

text \<open>The decoders of the JSON library.\<close>

record decoders =
  dc_counts :: "string \<Rightarrow> queue_counts decoded"
  dc_jobs :: "string \<Rightarrow> job list decoded"
  dc_job :: "string \<Rightarrow> job decoded"
  dc_runs :: "string \<Rightarrow> run list decoded"
  dc_commands :: "string \<Rightarrow> command_execution list decoded"

definition remote_reader :: "remote_link \<Rightarrow> decoders \<Rightarrow> queue_reader" where
  "remote_reader l dc =
    \<lparr>qr_counts = read_remote l (dc_counts dc) ReadCounts,
     qr_list_jobs = (\<lambda>f. read_remote l (dc_jobs dc) (ReadJobs f)),
     qr_get_job = (\<lambda>i. read_remote l (dc_job dc) (ReadJob i)),
     qr_list_runs = (\<lambda>i. read_remote l (dc_runs dc) (ReadRuns i)),
     qr_list_commands = (\<lambda>i. read_remote l (dc_commands dc) (ReadCommands i))\<rparr>"

section \<open>The two readers agree\<close>

definition json_job :: "job \<Rightarrow> job" where
  "json_job j = j\<lparr>j_watch_name := json_text (j_watch_name j), j_path := json_text (j_path j),
     j_fingerprint := json_text (j_fingerprint j), j_last_error := json_text (j_last_error j)\<rparr>"

definition json_run :: "run \<Rightarrow> run" where
  "json_run r = r\<lparr>r_error := json_text (r_error r)\<rparr>"

definition json_command_execution :: "command_execution \<Rightarrow> command_execution" where
  "json_command_execution c = c\<lparr>ce_name := json_text (ce_name c), ce_program := json_text (ce_program c),
     ce_args := map json_text (ce_args c), ce_env := map json_text (ce_env c), ce_working_dir := json_text (ce_working_dir c),
     ce_stdout := json_text (ce_stdout c), ce_stderr := json_text (ce_stderr c), ce_error := json_text (ce_error c)\<rparr>"

text \<open>The JSON library carries a body: the decoders read what was encoded, with its strings made valid UTF-8.\<close>

definition carries :: "(string \<Rightarrow> (string \<times> string) option) \<Rightarrow> decoders \<Rightarrow> (control_body \<Rightarrow> string) \<Rightarrow> control_body \<Rightarrow> bool" where
  "carries envelope dc encode b =
    (case b of
       CountsReply c \<Rightarrow> dc_counts dc (encode b) = Decoded c
     | JobsReply js \<Rightarrow> dc_jobs dc (encode b) = Decoded (map json_job js)
     | JobReply j \<Rightarrow> dc_job dc (encode b) = Decoded (json_job j)
     | RunsReply rs \<Rightarrow> dc_runs dc (encode b) = Decoded (map json_run rs)
     | CommandsReply cs \<Rightarrow> dc_commands dc (encode b) = Decoded (map json_command_execution cs)
     | ErrorReply code message \<Rightarrow>
         length (encode b) \<le> max_response_body_bytes \<and> envelope (encode b) = Some (json_text code, json_text message)
     | _ \<Rightarrow> True)"

fun call_ok :: "read_op \<Rightarrow> bool" where
  "call_ok ReadCounts = True"
| "call_ok (ReadJobs f) = (0 < f_limit f \<and> f_limit f < 2 ^ 63 \<and> 0 \<le> f_offset f \<and> f_offset f < 2 ^ 63)"
| "call_ok (ReadJob i) = (0 < i \<and> i < 2 ^ 63)"
| "call_ok (ReadRuns i) = (0 < i \<and> i < 2 ^ 63)"
| "call_ok (ReadCommands i) = (0 < i \<and> i < 2 ^ 63)"

fun client_not_found :: "client_error \<Rightarrow> bool" where
  "client_not_found (ClientError e) = errors_is ''queue record not found'' e"
| "client_not_found _ = False"

definition agree :: "('a \<Rightarrow> 'a) \<Rightarrow> 'a answer \<Rightarrow> 'a answer \<Rightarrow> bool" where
  "agree json l r =
    (case (l, r) of
       (Inr x, Inr y) \<Rightarrow> y = json x
     | (Inl e, Inl e') \<Rightarrow> client_not_found e = client_not_found e'
     | _ \<Rightarrow> False)"

fun readers_agree :: "queue_reader \<Rightarrow> queue_reader \<Rightarrow> read_op \<Rightarrow> bool" where
  "readers_agree l r ReadCounts = agree id (qr_counts l) (qr_counts r)"
| "readers_agree l r (ReadJobs f) = agree (map json_job) (qr_list_jobs l f) (qr_list_jobs r f)"
| "readers_agree l r (ReadJob i) = agree json_job (qr_get_job l i) (qr_get_job r i)"
| "readers_agree l r (ReadRuns i) = agree (map json_run) (qr_list_runs l i) (qr_list_runs r i)"
| "readers_agree l r (ReadCommands i) = agree (map json_command_execution) (qr_list_commands l i) (qr_list_commands r i)"

text \<open>The body the daemon answers a call with.\<close>

definition daemon_response ::
  "(string \<Rightarrow> string) \<Rightarrow> manager \<Rightarrow> driver \<Rightarrow> (string \<Rightarrow> go_error) \<Rightarrow> engine \<times> db \<Rightarrow> string \<Rightarrow> read_op \<Rightarrow> control_response" where
  "daemon_response quote m dr json_error found selector call =
    (case api_queue_read quote m (\<lambda>_. (dr, snd found)) (fst found) json_error selector (request_operation call) (request_values call) of
       Answered r \<Rightarrow> r
     | _ \<Rightarrow> \<lparr>cx_status = 500, cx_body = ErrorReply [] []\<rparr>)"

lemma decimal_digits: "list_all decimal_digit (nat_digits n)"
  using nat_digits_chars by (fastforce simp: list_all_iff decimal_digit_def)

lemma nat_digits_nonempty: "nat_digits n \<noteq> []"
  by (subst nat_digits.simps) simp

lemma parsed_format:
  assumes "0 \<le> n" and "n < 2 ^ 63"
  shows "parsed (format_int n) = Some n"
proof -
  have digits: "format_int n = nat_digits (nat n)" using assms(1) by (simp add: format_int_def)
  obtain c s where c: "nat_digits (nat n) = c # s" using nat_digits_nonempty by (cases "nat_digits (nat n)") auto
  have "\<not> prefix ''-'' (c # s)" "\<not> prefix ''+'' (c # s)"
    using decimal_digits[of "nat n"] by (auto simp: c decimal_digit_def)
  then show ?thesis
    using assms digits_value_nat_digits[of "nat n"] decimal_digits[of "nat n"]
    by (simp add: parsed_def parse_int_def digits c Let_def)
qed

lemma read_remote_ok:
  assumes "rl_before l call = None" and "rl_exchange l call = Responded 200 (Inr contents)" and "decode contents = Decoded x"
  shows "read_remote l decode call = Inr x"
  using assms by (simp add: read_remote_def client_do_def)

lemma json_codes:
  "json_text ''record_not_found'' = ''record_not_found''" "json_text ''queue_unavailable'' \<noteq> ''record_not_found''"
  by (simp_all add: ascii_json)

lemma read_remote_error:
  assumes "rl_before l call = None" and "rl_exchange l call = Responded status (Inr contents)" and "status \<noteq> 200"
    and "length contents \<le> max_response_body_bytes" and "rl_envelope l contents = Some (json_text code, json_text message)"
    and "code = ''record_not_found'' \<or> code = ''queue_unavailable''" and "message \<noteq> []"
  shows "\<exists>e. read_remote l decode call = Inl e \<and> (client_not_found e \<longleftrightarrow> code = ''record_not_found'')"
  using assms json_codes json_text_nonempty[OF assms(7)]
  by (auto simp: read_remote_def client_do_def decode_api_error_def Let_def err_not_found_def)

text \<open>The errors of the queries have a text and their code.\<close>

lemma on_error_text:
  assumes "on_error r (\<lambda>e. Wrapped (T s # p) e q) k = Inl err" and "s \<noteq> []"
    and "\<And>e. k = Inl e \<Longrightarrow> error_text quote e \<noteq> []"
  shows "error_text quote err \<noteq> []"
  using assms by (auto simp: on_error_def frags_text_def split: option.splits)

lemma scan_rows_text: "scan_rows scan rows = Inl e \<Longrightarrow> error_text quote e \<noteq> []"
  by (induction rows) (auto simp: frags_text_def split: sum.splits)

lemma query_error_texts:
  "counts e d = Inl err \<Longrightarrow> error_text quote err \<noteq> []"
  "list_jobs e f d = Inl err \<Longrightarrow> error_text quote err \<noteq> []"
  "get_job e i d = Inl err \<Longrightarrow> error_text quote err \<noteq> []"
  "list_runs e i d = Inl err \<Longrightarrow> error_text quote err \<noteq> []"
  "list_commands e json_error i d = Inl err \<Longrightarrow> error_text quote err \<noteq> []"
  by (auto simp: counts_def list_jobs_def get_job_def list_runs_def list_commands_def on_error_def frags_text_def Let_def
      split: option.splits if_splits dest: scan_rows_text)

text \<open>One answer through the daemon.\<close>

lemma answer_agrees:
  assumes r: "daemon = read_answer quote body answer"
    and link: "rl_before l call = None" "rl_exchange l call = Responded (cx_status daemon) (Inr (encode (cx_body daemon)))"
    and carried: "carries (rl_envelope l) dc encode (cx_body daemon)"
    and decoded: "\<And>x. carries (rl_envelope l) dc encode (body x) \<Longrightarrow> decode (encode (body x)) = Decoded (json x)"
    and texts: "\<And>e. answer = Inl e \<Longrightarrow> error_text quote e \<noteq> []"
  shows "agree json (local_answer answer) (read_remote l decode call)"
proof (cases answer)
  case (Inr x)
  then have "read_remote l decode call = Inr (json x)"
    using read_remote_ok[OF link(1), of "encode (body x)" decode "json x"] link(2) decoded[of x] carried r
    by (simp add: read_answer_def)
  then show ?thesis using Inr by (simp add: agree_def local_answer_def)
next
  case (Inl e)
  let ?code = "if errors_is ''queue record not found'' e then ''record_not_found'' else ''queue_unavailable''"
  have daemon: "cx_status daemon \<noteq> 200" "cx_body daemon = ErrorReply ?code (error_text quote e)"
    using r Inl by (simp_all add: read_answer_def api_error_def)
  have "length (encode (cx_body daemon)) \<le> max_response_body_bytes"
    "rl_envelope l (encode (cx_body daemon)) = Some (json_text ?code, json_text (error_text quote e))"
    using carried daemon(2) by (simp_all add: carries_def)
  from read_remote_error[OF link daemon(1) this _ texts[OF Inl], of decode]
  obtain err where "read_remote l decode call = Inl err" "client_not_found err \<longleftrightarrow> ?code = ''record_not_found''"
    by (metis (full_types))
  then show ?thesis using Inl by (simp add: agree_def local_answer_def)
qed

text \<open>C23: Inspecting a queue through the daemon shows what reading its database shows: for every query the commands make,
  whenever the daemon knows the instance, can open its database and its answer arrives, the reader over the
  control socket returns what a reader on the tables would return at that moment, with strings made valid UTF-8,
  fails when that one fails, and says that a record does not exist exactly when that one says it.\<close>

theorem inspection_through_daemon:
  assumes "get_instance m selector = Inr v" and "op_failure (open_read_only dr (iv_database_path v)) = None" and "call_ok call"
    and "daemon = daemon_response quote m dr json_error (found call) selector call"
    and "rl_before l call = None"
    and "rl_exchange l call = Responded (cx_status daemon) (Inr (encode (cx_body daemon)))"
    and "carries (rl_envelope l) dc encode (cx_body daemon)"
  shows "readers_agree (local_reader json_error found) (remote_reader l dc) call"
proof -
  obtain e d where found: "found call = (e, d)" by fastforce
  have r: "daemon = queue_operation quote e json_error d (request_operation call) (request_values call)"
    using assms(1,2,4) by (simp add: daemon_response_def api_queue_read_def found)
  note agrees = answer_agrees[OF _ assms(5,6,7)]
  show ?thesis
  proof (cases call)
    case ReadCounts
    then have "daemon = read_answer quote CountsReply (counts e d)" using r by (simp add: queue_operation_def)
    from agrees[OF this, of "dc_counts dc" id] show ?thesis
      using found ReadCounts by (simp add: local_reader_def remote_reader_def carries_def query_error_texts(1))
  next
    case (ReadJobs f)
    then have "daemon = read_answer quote JobsReply (list_jobs e f d)"
      using r assms(3) by (cases f) (simp add: queue_operation_def parsed_format)
    from agrees[OF this, of "dc_jobs dc" "map json_job"] show ?thesis
      using found ReadJobs by (simp add: local_reader_def remote_reader_def carries_def query_error_texts(2))
  next
    case (ReadJob i)
    then have "daemon = read_answer quote JobReply (get_job e i d)"
      using r assms(3) by (simp add: queue_operation_def parsed_format)
    from agrees[OF this, of "dc_job dc" json_job] show ?thesis
      using found ReadJob by (simp add: local_reader_def remote_reader_def carries_def query_error_texts(3))
  next
    case (ReadRuns i)
    then have "daemon = read_answer quote RunsReply (list_runs e i d)"
      using r assms(3) by (simp add: queue_operation_def parsed_format)
    from agrees[OF this, of "dc_runs dc" "map json_run"] show ?thesis
      using found ReadRuns by (simp add: local_reader_def remote_reader_def carries_def query_error_texts(4))
  next
    case (ReadCommands i)
    then have "daemon = read_answer quote CommandsReply (list_commands e json_error i d)"
      using r assms(3) by (simp add: queue_operation_def parsed_format)
    from agrees[OF this, of "dc_commands dc" "map json_command_execution"] show ?thesis
      using found ReadCommands by (simp add: local_reader_def remote_reader_def carries_def query_error_texts(5))
  qed
qed

definition demo_counts :: queue_counts where
  "demo_counts = \<lparr>n_queued = count_status StatusQueued demo_two, n_running = count_status StatusRunning demo_two,
     n_succeeded = count_status StatusSucceeded demo_two, n_failed = count_status StatusFailed demo_two,
     n_total = int (length (jobs demo_two))\<rparr>"

definition demo_link :: remote_link where
  "demo_link = \<lparr>rl_socket = ''s'', rl_http_text = (\<lambda>_. []), rl_envelope = (\<lambda>_. None), rl_before = (\<lambda>_. None),
     rl_after = (\<lambda>_. None), rl_exchange = (\<lambda>_. Responded 200 (Inr ''{}''))\<rparr>"

definition demo_decoders :: decoders where
  "demo_decoders = \<lparr>dc_counts = (\<lambda>_. Decoded demo_counts), dc_jobs = (\<lambda>_. Decoded []),
     dc_job = (\<lambda>_. Undecodable (new_error ''eof'')), dc_runs = (\<lambda>_. Decoded []), dc_commands = (\<lambda>_. Decoded [])\<rparr>"

theorem inspection_through_daemon_witness:
  "readers_agree (local_reader new_error (\<lambda>_. (ok_engine 9, demo_two))) (remote_reader demo_link demo_decoders) ReadCounts"
proof -
  let ?m = "demo_running ''/etc/jobs.yaml'' ''jobs''" and ?dr = "\<lparr>dr_open = None, dr_ping = None, dr_exec = \<lambda>s. None, dr_code = \<lambda>e. None\<rparr>"
  have known: "get_instance ?m demo_id = Inr (demo_view ''/etc/jobs.yaml'' ''jobs'')"
    using demo_resolve(1) demo_running_at(5) by (simp add: get_instance_def)
  have database: "iv_database_path (demo_view ''/etc/jobs.yaml'' ''jobs'') = demo_database" by (simp add: demo_view_def)
  have opened: "op_failure (open_read_only ?dr (iv_database_path (demo_view ''/etc/jobs.yaml'' ''jobs''))) = None"
  proof -
    have "\<not> blank demo_database" by code_simp
    then show ?thesis unfolding database by (simp add: open_read_only_def read_only_statements_def)
  qed
  have answer: "daemon_response id ?m ?dr new_error (ok_engine 9, demo_two) demo_id ReadCounts =
      \<lparr>cx_status = 200, cx_body = CountsReply demo_counts\<rparr>"
    using known opened
    by (simp add: daemon_response_def api_queue_read_def queue_operation_def read_answer_def counts_def ok_engine_def demo_counts_def)
  show ?thesis
    by (rule inspection_through_daemon[OF known opened _ refl, where quote = id and encode = "\<lambda>_. ''{}''"])
      (simp_all add: answer demo_link_def demo_decoders_def carries_def)
qed

section \<open>Opening the stores of a selection\<close>

text \<open>Of the configuration only the path of the database is used.\<close>

record configured_store =
  st_path :: string
  st_database :: string
  st_reader :: queue_reader

fun load_config_paths :: "(string \<Rightarrow> config result) \<Rightarrow> string list \<Rightarrow> (string \<times> config) list result" where
  "load_config_paths load [] = Inr []"
| "load_config_paths load (p # ps) =
    (case load p of
       Inl e \<Rightarrow> Inl (Wrapped [T ''load '', T p, T '': ''] e [])
     | Inr cfg \<Rightarrow> (case load_config_paths load ps of Inl e \<Rightarrow> Inl e | Inr loaded \<Rightarrow> Inr ((p, cfg) # loaded)))"

definition load_configs :: "config_tree \<Rightarrow> (string \<Rightarrow> config result) \<Rightarrow> string \<Rightarrow> cli_error + (string \<times> config) list" where
  "load_configs t load selection =
    (case discover_configs t selection of
       Inl e \<Rightarrow> Inl e
     | Inr paths \<Rightarrow> (case load_config_paths load paths of Inl e \<Rightarrow> Inl (Failure e) | Inr loaded \<Rightarrow> Inr loaded))"

text \<open>The comparison of the \<open>i\<close>th database with the earlier ones.\<close>

fun compare_store_owners :: "disk \<Rightarrow> nat \<Rightarrow> nat \<Rightarrow> (string \<times> string) list \<Rightarrow> string \<Rightarrow> string \<Rightarrow> unit result option" where
  "compare_store_owners disk i k [] path database = Some (Inr ())"
| "compare_store_owners disk i k ((prior, held_path) # owners) path database =
    (case same_database disk k i held_path database of
       None \<Rightarrow> None
     | Some (Inl e) \<Rightarrow> Some (Inl (Wrapped [T ''compare database paths for '', T prior, T '' and '', T path, T '': ''] e []))
     | Some (Inr True) \<Rightarrow>
         Some (Inl (ErrorString [T ''configs '', T prior, T '' and '', T path, T '' use the same database '', T database,
           T ''; pass one config path or use distinct databases'']))
     | Some (Inr False) \<Rightarrow> compare_store_owners disk i (Suc k) owners path database)"

fun check_stores :: "disk \<Rightarrow> nat \<Rightarrow> (string \<times> config) list \<Rightarrow> (string \<times> string) list \<Rightarrow> (string \<times> string) list result option" where
  "check_stores disk i [] owners = Some (Inr owners)"
| "check_stores disk i ((path, cfg) # items) owners =
    (case canonical_database_path (dk_cwd disk) (dk_resolve disk i) (d_path cfg) of
       Inl e \<Rightarrow> Some (Inl (Wrapped [T ''resolve database path for '', T path, T '': ''] e []))
     | Inr database \<Rightarrow>
         (case compare_store_owners disk i 0 owners path database of
            None \<Rightarrow> None
          | Some (Inl e) \<Rightarrow> Some (Inl e)
          | Some (Inr _) \<Rightarrow> check_stores disk (Suc i) items (owners @ [(path, database)])))"

text \<open>Opening one after the other. \<open>drivers\<close> is what the SQL driver answers, \<open>readers\<close> what the opened
  database is. The second result is the stores that were closed again.\<close>

fun open_all ::
  "(nat \<Rightarrow> driver) \<Rightarrow> (nat \<Rightarrow> queue_reader) \<Rightarrow> nat \<Rightarrow> configured_store list \<Rightarrow> (string \<times> config) list \<Rightarrow>
   (cli_error + configured_store list) \<times> configured_store list" where
  "open_all drivers readers i stores [] = (Inr stores, [])"
| "open_all drivers readers i stores ((path, cfg) # items) =
    (case op_failure (open_read_only (drivers i) (d_path cfg)) of
       Some failure \<Rightarrow> (Inl (NotOpened [T ''open database for '', T path, T '': ''] failure), stores)
     | None \<Rightarrow>
         open_all drivers readers (Suc i)
           (stores @ [\<lparr>st_path = path, st_database = d_path cfg, st_reader = readers i\<rparr>]) items)"

definition open_stores ::
  "config_tree \<Rightarrow> (string \<Rightarrow> config result) \<Rightarrow> disk \<Rightarrow> (nat \<Rightarrow> driver) \<Rightarrow> (nat \<Rightarrow> queue_reader) \<Rightarrow> string \<Rightarrow>
   ((cli_error + configured_store list) \<times> configured_store list) option" where
  "open_stores t load disk drivers readers selection =
    (case load_configs t load selection of
       Inl e \<Rightarrow> Some (Inl e, [])
     | Inr loaded \<Rightarrow>
         (case check_stores disk 0 loaded [] of
            None \<Rightarrow> None
          | Some (Inl e) \<Rightarrow> Some (Inl (Failure e), [])
          | Some (Inr owners) \<Rightarrow> Some (open_all drivers readers 0 [] loaded)))"

section \<open>Selecting queues of the daemon\<close>

text \<open>Whether a selection is taken for a path of the client.\<close>

definition names_path :: "config_tree \<Rightarrow> string \<Rightarrow> bool" where
  "names_path t selection \<longleftrightarrow>
    ct_stat t selection = Inr DirectoryFile \<or> ct_stat t selection = Inr RegularFile \<or>
    slash \<in> set selection \<or> CHR 0x5C \<in> set selection \<or> suffix ''.yaml'' selection \<or> suffix ''.yml'' selection \<or>
    selection = ''.'' \<or> selection = ''..''"

definition remote_selection :: "config_tree \<Rightarrow> string \<Rightarrow> string result" where
  "remote_selection t selection = (if names_path t selection then absolute_result t selection else Inr selection)"

record inspection_options =
  io_local :: bool
  io_socket :: string

text \<open>\<open>select\<close> is the client's \<open>SelectQueues\<close>, \<open>remote\<close> the reader for an instance.\<close>

definition open_remote ::
  "config_tree \<Rightarrow> (string \<Rightarrow> instance_view list answer) \<Rightarrow> (string \<Rightarrow> queue_reader) \<Rightarrow> string \<Rightarrow>
   cli_error + configured_store list" where
  "open_remote t select remote selection =
    (case remote_selection t selection of
       Inl e \<Rightarrow> Inl (Failure e)
     | Inr s \<Rightarrow>
         (case select s of
            Inl e \<Rightarrow> Inl (Reported [] e)
          | Inr views \<Rightarrow>
              Inr (map (\<lambda>v. \<lparr>st_path = iv_config_path v, st_database = iv_database_path v, st_reader = remote (iv_id v)\<rparr>) views)))"

definition inspection_open ::
  "config_tree \<Rightarrow> (string \<Rightarrow> config result) \<Rightarrow> disk \<Rightarrow> (nat \<Rightarrow> driver) \<Rightarrow> (nat \<Rightarrow> queue_reader) \<Rightarrow>
   (string \<Rightarrow> instance_view list answer) \<Rightarrow> (string \<Rightarrow> queue_reader) \<Rightarrow> inspection_options \<Rightarrow> string \<Rightarrow>
   (cli_error + configured_store list) option" where
  "inspection_open t load disk drivers readers select remote options selection =
    (if io_local options then
       (if io_socket options \<noteq> [] then Some (Inl (usage ''--local and --socket cannot be combined''))
        else map_option fst (open_stores t load disk drivers readers selection))
     else Some (open_remote t select remote selection))"

end
