(* ===== verification/ControlCalls.thy ===== *)
theory ControlCalls
  imports CliStores WebServer
begin

text \<open>
  The requests of the control client (the methods of \<open>control/client.go\<close> that name a path) and the routes of the
  control server (\<open>newHandler\<close> of \<open>control/server.go\<close>), and that they fit: a request comes to its handler with the
  arguments of the call. Queries are functions from a name to its value, as \<open>url.Values\<close> reads back exactly what
  it encoded.
\<close>

section \<open>Requests\<close>

text \<open>\<open>url.PathEscape\<close>.\<close>

definition segment_char :: "char \<Rightarrow> bool" where
  "segment_char c \<longleftrightarrow>
    (97 \<le> byte c \<and> byte c \<le> 122) \<or> (65 \<le> byte c \<and> byte c \<le> 90) \<or> decimal_digit c \<or> c \<in> set ''-_.~$&+:=@''"

definition escape_segment :: "string \<Rightarrow> string" where
  "escape_segment s =
    concat (map (\<lambda>c. if segment_char c then [c] else [CHR ''%'', upper_hex (byte c div 16), upper_hex (byte c mod 16)]) s)"

datatype client_call =
    CallStart "string list" string
  | CallList bool
  | CallGet string
  | CallStop string
  | CallRun string string bool
  | CallSelect string
  | CallRead string read_op

record control_request =
  cr_method :: string
  cr_path :: string
  cr_query :: "string \<Rightarrow> string"
  cr_start :: "start_request decoded"
  cr_run :: "run_request decoded"

definition bare_request :: "string \<Rightarrow> string \<Rightarrow> control_request" where
  "bare_request m p =
    \<lparr>cr_method = m, cr_path = p, cr_query = (\<lambda>_. []), cr_start = Undecodable (new_error ''EOF''),
     cr_run = Undecodable (new_error ''EOF'')\<rparr>"

text \<open>The request of a call, with its body as the server decodes it.\<close>

fun request_of :: "client_call \<Rightarrow> control_request" where
  "request_of (CallStart paths name) =
    (bare_request ''POST'' ''/v1/instances'')
      \<lparr>cr_start := Decoded \<lparr>sq_paths = map json_text paths, sq_path = [], sq_name = json_text name\<rparr>\<rparr>"
| "request_of (CallList all) =
    (bare_request ''GET'' ''/v1/instances'')\<lparr>cr_query := (\<lambda>_. [])(''all'' := if all then ''true'' else ''false'')\<rparr>"
| "request_of (CallGet selector) = bare_request ''GET'' (''/v1/instances/'' @ escape_segment selector)"
| "request_of (CallStop selector) = bare_request ''POST'' (''/v1/instances/'' @ escape_segment selector @ ''/stop'')"
| "request_of (CallRun path name remove) =
    (bare_request ''POST'' ''/v1/run'')
      \<lparr>cr_run := Decoded \<lparr>sq_paths = [], sq_path = json_text path, sq_name = json_text name, sq_remove_on_exit = remove\<rparr>\<rparr>"
| "request_of (CallSelect selector) = (bare_request ''GET'' ''/v1/queues'')\<lparr>cr_query := (\<lambda>_. [])(''selector'' := selector)\<rparr>"
| "request_of (CallRead selector call) =
    (bare_request ''GET'' (''/v1/queues/'' @ escape_segment selector @ ''/'' @ request_operation call))
      \<lparr>cr_query := request_values call\<rparr>"

section \<open>Routes\<close>

datatype control_target =
    StartCall | ListCall | GetCall string | StopCall string | RunCall | SelectCall | ReadCall string string
  | Unrouted nat | Redirected string

fun control_segments :: "string \<Rightarrow> string list \<Rightarrow> control_target" where
  "control_segments m [v, a] =
    (if v \<noteq> ''v1'' then Unrouted 404
     else if a = ''instances'' then (if m = ''POST'' then StartCall else if reads m then ListCall else Unrouted 405)
     else if a = ''run'' then (if m = ''POST'' then RunCall else Unrouted 405)
     else if a = ''queues'' then (if reads m then SelectCall else Unrouted 405)
     else Unrouted 404)"
| "control_segments m [v, a, x] =
    (if v = ''v1'' \<and> a = ''instances'' \<and> x \<noteq> [] then (if reads m then GetCall x else Unrouted 405) else Unrouted 404)"
| "control_segments m [v, a, x, y] =
    (if v = ''v1'' \<and> a = ''instances'' \<and> x \<noteq> [] \<and> y = ''stop'' then (if m = ''POST'' then StopCall x else Unrouted 405)
     else if v = ''v1'' \<and> a = ''queues'' \<and> x \<noteq> [] \<and> y \<noteq> [] then (if reads m then ReadCall x y else Unrouted 405)
     else Unrouted 404)"
| "control_segments m _ = Unrouted 404"

definition control_route :: "string \<Rightarrow> string \<Rightarrow> control_target" where
  "control_route m p = (if mux_clean p \<noteq> p then Redirected (mux_clean p) else control_segments m (segments p))"

text \<open>What the handlers see; \<open>cn_later\<close> is the supervisor at the second section of a selection.\<close>

record control_env =
  cn_quote :: "string \<Rightarrow> string"
  cn_host :: host
  cn_manager :: manager
  cn_later :: manager
  cn_databases :: "string \<Rightarrow> driver \<times> db"
  cn_engine :: engine
  cn_json_error :: "string \<Rightarrow> go_error"
  cn_streaming :: bool

definition plain_control :: "nat \<Rightarrow> control_action" where
  "plain_control status = Answered \<lparr>cx_status = status, cx_body = ErrorReply [] []\<rparr>"

definition control_dispatch :: "control_env \<Rightarrow> control_request \<Rightarrow> control_action" where
  "control_dispatch env r =
    (case control_route (cr_method r) (cr_path r) of
       StartCall \<Rightarrow> api_start (cn_quote env) (cr_start r)
     | ListCall \<Rightarrow> api_list (cn_quote env) (cn_manager env) (cr_query r ''all'')
     | GetCall s \<Rightarrow> api_get (cn_quote env) (cn_manager env) s
     | StopCall s \<Rightarrow> api_stop (cn_quote env) s
     | RunCall \<Rightarrow> api_run (cn_quote env) (cn_streaming env) (cr_run r)
     | SelectCall \<Rightarrow> api_select (cn_quote env) (cn_host env) (cr_query r ''selector'') (cn_manager env) (cn_later env)
     | ReadCall s operation \<Rightarrow>
         api_queue_read (cn_quote env) (cn_manager env) (cn_databases env) (cn_engine env) (cn_json_error env) s operation (cr_query r)
     | Unrouted status \<Rightarrow> plain_control status
     | Redirected p \<Rightarrow> plain_control 301)"

section \<open>Requests come to their handlers\<close>

lemma segment_char_path: "segment_char c \<Longrightarrow> path_char c \<and> c \<noteq> slash"
  by (auto simp: segment_char_def path_char_def decimal_digit_def)

lemma unescape_segment_char:
  "path_unescape ((if segment_char c then [c] else [CHR ''%'', upper_hex (byte c div 16), upper_hex (byte c mod 16)]) @ s) =
    c # path_unescape s"
proof (cases "segment_char c")
  case True
  then show ?thesis using path_char_plain[of c] segment_char_path[OF True] by (simp add: path_unescape_plain)
next
  case False
  have "byte c < 256" by simp
  then have "byte c div 16 < 16" "byte c mod 16 < 16" by (simp_all add: less_mult_imp_div_less)
  with upper_hex_digit[of "byte c div 16"] upper_hex_digit[of "byte c mod 16"] False show ?thesis by simp
qed

lemma unescape_segment: "path_unescape (escape_segment s) = s"
  by (induction s) (simp_all add: escape_segment_def unescape_segment_char)

lemma upper_hex_no_slash: "n < 16 \<Longrightarrow> upper_hex n \<noteq> slash"
  using upper_hex_digit[of n] by (auto simp: ManagerNames.hex_digit_def)

lemma escape_segment_no_slash: "slash \<notin> set (escape_segment s)"
proof (induction s)
  case (Cons c s)
  have "byte c < 256" by simp
  then have "upper_hex (byte c div 16) \<noteq> slash" "upper_hex (byte c mod 16) \<noteq> slash"
    by (simp_all add: upper_hex_no_slash less_mult_imp_div_less)
  then show ?case using Cons segment_char_path[of c] by (auto simp: escape_segment_def)
qed (simp add: escape_segment_def)

text \<open>A segment that the multiplexer leaves as it is.\<close>

definition selectable :: "string \<Rightarrow> bool" where
  "selectable s \<longleftrightarrow> s \<noteq> [] \<and> s \<noteq> ''.'' \<and> s \<noteq> ''..''"

lemma escape_segment_good: "selectable s \<Longrightarrow> good_elem (escape_segment s)"
  using unescape_segment[of s] escape_segment_no_slash[of s]
  by (auto simp: selectable_def good_elem_def)

lemma mux_clean_slashed:
  assumes "\<forall>e \<in> set es. good_elem e" and "es \<noteq> []"
  shows "mux_clean (slash # slashed es) = slash # slashed es"
proof -
  have "is_abs (slash # slashed es)" by (simp add: is_abs_def)
  then have clean: "clean (slash # slashed es) = slash # slashed es" by (simp add: clean_abs abs_elems_slashed[OF assms(1)])
  have "last (slash # slashed es) \<noteq> slash"
  proof
    assume l: "last (slash # slashed es) = slash"
    have e: "good_elem (last es)" using assms by simp
    have "slashed es = slashed (butlast es @ [last es])" using assms(2) by simp
    moreover have "slashed (xs @ [x]) = (if xs = [] then x else slashed xs @ slash # x)" for xs x
      by (induction "''/''" xs rule: join_strings.induct) (auto simp: neq_Nil_conv)
    ultimately have "last (slash # slashed es) = last (last es)" using e by (simp add: good_elem_def)
    then have "slash \<in> set (last es)" using l e last_in_set[of "last es"] by (simp add: good_elem_def)
    then show False using e by (simp add: good_elem_def)
  qed
  then show ?thesis using clean by (simp add: mux_clean_def Let_def)
qed

lemma control_route_slashed:
  assumes "\<forall>e \<in> set es. good_elem e" and "es \<noteq> []"
  shows "control_route m (slash # slashed es) = control_segments m (map path_unescape es)"
  using mux_clean_slashed[OF assms] split_slashed[OF assms(2,1)] by (simp add: control_route_def segments_def)

text \<open>What a call asks for.\<close>

fun call_meaning :: "control_env \<Rightarrow> client_call \<Rightarrow> control_action" where
  "call_meaning env (CallStart paths name) = AskStart (map json_text paths) (json_text name)"
| "call_meaning env (CallList all) = Answered \<lparr>cx_status = 200, cx_body = InstancesReply (list_instances (cn_manager env) all)\<rparr>"
| "call_meaning env (CallGet selector) = Answered (answer_view (cn_quote env) (get_instance (cn_manager env) selector))"
| "call_meaning env (CallStop selector) = AskStop selector"
| "call_meaning env (CallRun path name remove) =
    (if cn_streaming env then AskAttach (json_text path) (json_text name) remove
     else Answered (api_error (cn_quote env) 500 ''streaming_unsupported'' (new_error ''HTTP streaming is unavailable'')))"
| "call_meaning env (CallSelect selector) =
    api_select (cn_quote env) (cn_host env) selector (cn_manager env) (cn_later env)"
| "call_meaning env (CallRead selector call) =
    api_queue_read (cn_quote env) (cn_manager env) (cn_databases env) (cn_engine env) (cn_json_error env) selector
      (request_operation call) (request_values call)"

fun call_fits :: "client_call \<Rightarrow> bool" where
  "call_fits (CallStart paths name) =
    (paths \<noteq> [] \<and> length paths \<le> max_configs_per_start \<and> list_all (\<lambda>p. \<not> blank (json_text p)) paths)"
| "call_fits (CallGet selector) = (selectable selector \<and> \<not> blank selector)"
| "call_fits (CallStop selector) = (selectable selector \<and> \<not> blank selector)"
| "call_fits (CallRun path name remove) = (\<not> blank (json_text path))"
| "call_fits (CallRead selector call) = selectable selector"
| "call_fits _ = True"

lemma routes:
  "control_route m ''/v1/instances'' = control_segments m [''v1'', ''instances'']"
  "control_route m ''/v1/run'' = control_segments m [''v1'', ''run'']"
  "control_route m ''/v1/queues'' = control_segments m [''v1'', ''queues'']"
  using control_route_slashed[of "[''v1'', ''instances'']" m] control_route_slashed[of "[''v1'', ''run'']" m]
    control_route_slashed[of "[''v1'', ''queues'']" m]
  by (simp_all add: good_elem_def)

lemma routes_of_selectors:
  assumes "selectable selector"
  shows "control_route m (''/v1/instances/'' @ escape_segment selector) = control_segments m [''v1'', ''instances'', selector]"
    and "control_route m (''/v1/instances/'' @ escape_segment selector @ ''/stop'') =
      control_segments m [''v1'', ''instances'', selector, ''stop'']"
    and "control_route m (''/v1/queues/'' @ escape_segment selector @ ''/'' @ request_operation call) =
      control_segments m [''v1'', ''queues'', selector, request_operation call]"
proof -
  note good = escape_segment_good[OF assms] and un = unescape_segment[of selector]
  have operation: "good_elem (request_operation call) \<and> path_unescape (request_operation call) = request_operation call"
    by (cases call) (simp_all add: good_elem_def)
  show "control_route m (''/v1/instances/'' @ escape_segment selector) = control_segments m [''v1'', ''instances'', selector]"
    using control_route_slashed[of "[''v1'', ''instances'', escape_segment selector]" m] good un by (simp add: good_elem_def)
  show "control_route m (''/v1/instances/'' @ escape_segment selector @ ''/stop'') =
      control_segments m [''v1'', ''instances'', selector, ''stop'']"
    using control_route_slashed[of "[''v1'', ''instances'', escape_segment selector, ''stop'']" m] good un by (simp add: good_elem_def)
  show "control_route m (''/v1/queues/'' @ escape_segment selector @ ''/'' @ request_operation call) =
      control_segments m [''v1'', ''queues'', selector, request_operation call]"
    using control_route_slashed[of "[''v1'', ''queues'', escape_segment selector, request_operation call]" m] good un operation
    by (simp add: good_elem_def)
qed

text \<open>C22: Every call of the control client means the same to the daemon: for each call, with any selector that is not
  empty, `.` or `..`, whatever other characters it has, the request comes to the handler of that call and asks for
  exactly what was called for: the same paths and name, the same selector, the same query, with the strings of a body
  made valid UTF-8; paths and selectors must not be blank and at most 1024 paths may be given.\<close>

theorem client_call_means:
  assumes "call_fits c"
  shows "control_dispatch env (request_of c) = call_meaning env c"
proof (cases c)
  case (CallStart paths name)
  then show ?thesis
    using assms by (simp add: control_dispatch_def bare_request_def routes api_start_def decode_request_def request_paths_def blank_Nil list_all_iff list_ex_iff)
next
  case (CallRun path name remove)
  then show ?thesis
    using assms by (simp add: control_dispatch_def bare_request_def routes reads_def api_run_def decode_request_def request_paths_def max_configs_per_start_def)
next
  case (CallList all)
  then show ?thesis by (simp add: control_dispatch_def bare_request_def routes reads_def api_list_def parse_bool_def)
next
  case (CallSelect selector)
  then show ?thesis by (simp add: control_dispatch_def bare_request_def routes reads_def)
next
  case (CallGet selector)
  then show ?thesis
    using assms by (simp add: control_dispatch_def bare_request_def routes_of_selectors[simplified] reads_def api_get_def selectable_def)
next
  case (CallStop selector)
  then show ?thesis
    using assms by (simp add: control_dispatch_def bare_request_def routes_of_selectors[simplified] api_stop_def selectable_def)
next
  case (CallRead selector call)
  moreover have "request_operation call \<noteq> []" "request_operation call \<noteq> ''stop''" by (cases call; simp)+
  ultimately show ?thesis
    using assms by (simp add: control_dispatch_def bare_request_def routes_of_selectors[simplified] reads_def selectable_def)
qed

theorem client_call_means_witness:
  "\<forall>env. control_dispatch env (request_of (CallStop ''a/b %41'')) = AskStop ''a/b %41''"
proof -
  have "\<not> blank ''a/b %41''" by code_simp
  then have "call_fits (CallStop ''a/b %41'')" by (simp add: selectable_def)
  from client_call_means[OF this] show ?thesis by simp
qed

end
