(* ===== verification/CliInspect.thy ===== *)
theory CliInspect
  imports CliStores WebApi
begin

text \<open>
  The inspection commands of \<open>cli/cli.go\<close>: \<open>status\<close>, \<open>queue\<close>, \<open>jobs\<close>, \<open>job\<close> and \<open>logs\<close>, over readers of queues.
  What a command prints is a list of rows, whose cells the table writer aligns, and of plain texts. The clock,
  \<open>strconv.Quote\<close> and the text of a duration are arguments.
\<close>

section \<open>Output\<close>

datatype printed = Row "string list" | Text string

record printer =
  pr_quote :: "string \<Rightarrow> string"
  pr_time :: "int \<Rightarrow> string"
  pr_duration :: "duration \<Rightarrow> string"

definition line_end :: string where "line_end = [CHR 0x0A]"

definition text_line :: "string list \<Rightarrow> printed" where
  "text_line parts = Text (concat parts @ line_end)"

definition format_time :: "printer \<Rightarrow> time \<Rightarrow> string" where
  "format_time pr t = (if t = zero_time then ''-'' else pr_time pr t)"

definition format_optional_time :: "printer \<Rightarrow> time option \<Rightarrow> string" where
  "format_optional_time pr t = (case t of None \<Rightarrow> ''-'' | Some n \<Rightarrow> format_time pr n)"

definition format_exit_code :: "int option \<Rightarrow> string" where
  "format_exit_code c = (case c of None \<Rightarrow> ''-'' | Some n \<Rightarrow> format_int n)"

definition format_invocation :: "printer \<Rightarrow> string \<Rightarrow> string list \<Rightarrow> string" where
  "format_invocation pr program args = pr_quote pr program @ '' '' @ marshal_strings args"

definition write_log :: "string \<Rightarrow> printed list" where
  "write_log s = Text s # (if suffix line_end s then [] else [Text line_end])"

section \<open>Finding a job\<close>

fun find_job ::
  "int \<Rightarrow> configured_store list \<Rightarrow> (configured_store \<times> job) option \<Rightarrow> cli_error + (configured_store \<times> job)" where
  "find_job i [] found =
    (case found of None \<Rightarrow> Inl (Failure (Wrapped [T ''job '', D i, T '': ''] err_not_found [])) | Some m \<Rightarrow> Inr m)"
| "find_job i (s # stores) found =
    (case qr_get_job (st_reader s) i of
       Inl e \<Rightarrow>
         if client_not_found e then find_job i stores found
         else Inl (Reported [T ''find job in '', T (st_path s), T '': ''] e)
     | Inr j \<Rightarrow>
         (case found of
            Some (m, j0) \<Rightarrow>
              Inl (Failure (ErrorString [T ''job '', D i, T '' exists in both '', T (st_path m), T '' and '', T (st_path s),
                T ''; pass its config path explicitly'']))
          | None \<Rightarrow> find_job i stores (Some (s, j))))"

section \<open>Listings\<close>

type_synonym listed = "string \<times> job"

text \<open>The order of \<open>sortListedJobs\<close>.\<close>

definition comes_before :: "listed \<Rightarrow> listed \<Rightarrow> bool" where
  "comes_before a b \<longleftrightarrow>
    (if j_created_at (snd a) \<noteq> j_created_at (snd b) then j_created_at (snd b) < j_created_at (snd a)
     else if fst a \<noteq> fst b then string_le (fst a) (fst b)
     else j_id (snd b) < j_id (snd a))"

fun insert_listed :: "listed \<Rightarrow> listed list \<Rightarrow> listed list" where
  "insert_listed a [] = [a]"
| "insert_listed a (b # bs) = (if comes_before b a then b # insert_listed a bs else a # b # bs)"

definition sort_listed :: "listed list \<Rightarrow> listed list" where
  "sort_listed ls = foldr insert_listed ls []"

fun read_filters :: "queue_reader \<Rightarrow> job_filter list \<Rightarrow> job list answer" where
  "read_filters r [] = Inr []"
| "read_filters r (f # fs) =
    (case qr_list_jobs r f of
       Inl e \<Rightarrow> Inl e
     | Inr js \<Rightarrow> (case read_filters r fs of Inl e \<Rightarrow> Inl e | Inr rest \<Rightarrow> Inr (js @ rest)))"

text \<open>The loop over the stores; \<open>what\<close> names the listing in an error.\<close>

fun gather_jobs :: "string \<Rightarrow> job_filter list \<Rightarrow> configured_store list \<Rightarrow> cli_error + listed list" where
  "gather_jobs what fs [] = Inr []"
| "gather_jobs what fs (s # stores) =
    (case read_filters (st_reader s) fs of
       Inl e \<Rightarrow> Inl (Reported [T ''list '', T what, T '' '', T (st_path s), T '': ''] e)
     | Inr js \<Rightarrow>
         (case gather_jobs what fs stores of Inl e \<Rightarrow> Inl e | Inr rest \<Rightarrow> Inr (map (Pair (st_path s)) js @ rest)))"

definition job_listing :: "string \<Rightarrow> int \<Rightarrow> job_filter list \<Rightarrow> configured_store list \<Rightarrow> cli_error + listed list" where
  "job_listing what limit fs stores =
    (case gather_jobs what fs stores of Inl e \<Rightarrow> Inl e | Inr ls \<Rightarrow> Inr (take (nat limit) (sort_listed ls)))"

definition list_filter :: "string \<Rightarrow> int \<Rightarrow> string \<Rightarrow> job_filter" where
  "list_filter watch limit st = \<lparr>f_status = st, f_watch_name = watch, f_limit = limit, f_offset = 0\<rparr>"

definition queue_filters :: "string \<Rightarrow> int \<Rightarrow> job_filter list" where
  "queue_filters watch limit = map (list_filter watch limit) [''QUEUED'', ''RUNNING'']"

definition print_job_row :: "printer \<Rightarrow> bool \<Rightarrow> listed \<Rightarrow> printed" where
  "print_job_row pr show_config l =
    (case l of (path, j) \<Rightarrow>
       Row ((if show_config then [path] else []) @
         [format_int (j_id j), status_text (j_status j), j_watch_name j,
          format_int (j_attempts j) @ ''/'' @ format_int (j_max_retries j + 1),
          (if j_status j = StatusQueued then format_time pr (j_available_at j) else ''-''), pr_quote pr (j_path j)]))"

definition print_jobs :: "printer \<Rightarrow> listed list \<Rightarrow> bool \<Rightarrow> printed list" where
  "print_jobs pr ls show_config =
    Row ((if show_config then [''CONFIG''] else []) @ [''ID'', ''STATUS'', ''WATCH'', ''ATTEMPT'', ''AVAILABLE'', ''PATH'']) #
    map (print_job_row pr show_config) ls"

section \<open>The commands\<close>

text \<open>What a command finds: how stores are opened, and \<open>strings.ToUpper\<close> on what is not ASCII.\<close>

record cli_env =
  cl_printer :: printer
  cl_upper :: "string \<Rightarrow> string"
  cl_open :: "inspection_options \<Rightarrow> string \<Rightarrow> cli_error + configured_store list"

type_synonym cli_result = "printed list \<times> cli_error option"

definition failing :: "cli_error \<Rightarrow> cli_result" where
  "failing e = ([], Some e)"

definition inspection_flags :: flag_set where
  "inspection_flags = [(''local'', BoolFlag), (''socket'', StringFlag)]"

definition int_flag :: "parsed_args \<Rightarrow> string \<Rightarrow> int \<Rightarrow> int" where
  "int_flag p name fallback =
    (case map_of (rev (pa_assigned p)) name of
       None \<Rightarrow> fallback
     | Some v \<Rightarrow> (case parse_int0 v of Inl e \<Rightarrow> 0 | Inr n \<Rightarrow> n))"

definition bool_flag :: "parsed_args \<Rightarrow> string \<Rightarrow> bool" where
  "bool_flag p name \<longleftrightarrow> parse_bool (flag_or p name ''false'') = Some True"

definition inspection_of :: "parsed_args \<Rightarrow> inspection_options" where
  "inspection_of p = \<lparr>io_local = bool_flag p ''local'', io_socket = flag_or p ''socket'' []\<rparr>"

definition with_args :: "flag_set \<Rightarrow> string list \<Rightarrow> (parsed_args \<Rightarrow> cli_result) \<Rightarrow> cli_result" where
  "with_args flags args k = (case parse_flags flags args of Inl e \<Rightarrow> failing e | Inr p \<Rightarrow> k p)"

definition with_config :: "string \<Rightarrow> parsed_args \<Rightarrow> cli_result \<Rightarrow> cli_result" where
  "with_config command p k = (case require_arguments command p [''config path''] of Some e \<Rightarrow> failing e | None \<Rightarrow> k)"

definition with_stores :: "cli_env \<Rightarrow> parsed_args \<Rightarrow> (configured_store list \<Rightarrow> cli_result) \<Rightarrow> cli_result" where
  "with_stores env p k = (case cl_open env (inspection_of p) (arg_at p 0) of Inl e \<Rightarrow> failing e | Inr stores \<Rightarrow> k stores)"

definition parse_status :: "(string \<Rightarrow> string) \<Rightarrow> string \<Rightarrow> cli_error + string" where
  "parse_status upper v =
    (if blank v then Inr []
     else
       (let st = to_upper upper (trim_space v) in
        if valid_status st then Inr st else Inl (Usage [T ''unknown job status '', Q v])))"

definition listing_result :: "cli_env \<Rightarrow> string \<Rightarrow> int \<Rightarrow> job_filter list \<Rightarrow> configured_store list \<Rightarrow> cli_result" where
  "listing_result env what limit fs stores =
    (case job_listing what limit fs stores of
       Inl e \<Rightarrow> failing e
     | Inr ls \<Rightarrow> (print_jobs (cl_printer env) ls (1 < length stores), None))"

definition queue_command :: "cli_env \<Rightarrow> string list \<Rightarrow> cli_result" where
  "queue_command env args =
    with_args (inspection_flags @ [(''watch'', StringFlag), (''limit'', IntFlag)]) args (\<lambda>p.
    with_config ''queue'' p
      (let limit = int_flag p ''limit'' 100 in
       if limit \<le> 0 then failing (usage ''queue --limit must be greater than zero'')
       else with_stores env p (listing_result env ''queue'' limit (queue_filters (flag_or p ''watch'' []) limit))))"

definition jobs_command :: "cli_env \<Rightarrow> string list \<Rightarrow> cli_result" where
  "jobs_command env args =
    with_args (inspection_flags @ [(''status'', StringFlag), (''watch'', StringFlag), (''limit'', IntFlag)]) args (\<lambda>p.
    with_config ''jobs'' p
      (let limit = int_flag p ''limit'' 100 in
       if limit \<le> 0 then failing (usage ''jobs --limit must be greater than zero'')
       else
         (case parse_status (cl_upper env) (flag_or p ''status'' []) of
            Inl e \<Rightarrow> failing e
          | Inr st \<Rightarrow> with_stores env p (listing_result env ''jobs'' limit [list_filter (flag_or p ''watch'' []) limit st]))))"

text \<open>\<open>status\<close>: one store in full, or a row for each and their sum.\<close>

definition count_cells :: "queue_counts \<Rightarrow> string list" where
  "count_cells c = map format_int [n_total c, n_queued c, n_running c, n_succeeded c, n_failed c]"

definition add_counts :: "queue_counts \<Rightarrow> queue_counts \<Rightarrow> queue_counts" where
  "add_counts a b =
    \<lparr>n_queued = n_queued a + n_queued b, n_running = n_running a + n_running b, n_succeeded = n_succeeded a + n_succeeded b,
     n_failed = n_failed a + n_failed b, n_total = n_total a + n_total b\<rparr>"

definition no_counts :: queue_counts where
  "no_counts = \<lparr>n_queued = 0, n_running = 0, n_succeeded = 0, n_failed = 0, n_total = 0\<rparr>"

fun status_rows :: "configured_store list \<Rightarrow> queue_counts \<Rightarrow> cli_error + (printed list \<times> queue_counts)" where
  "status_rows [] acc = Inr ([], acc)"
| "status_rows (s # stores) acc =
    (case qr_counts (st_reader s) of
       Inl e \<Rightarrow> Inl (Reported [T ''status '', T (st_path s), T '': ''] e)
     | Inr c \<Rightarrow>
         (case status_rows stores (add_counts acc c) of
            Inl e \<Rightarrow> Inl e
          | Inr (rows, whole) \<Rightarrow> Inr (Row ([st_path s, st_database s] @ count_cells c) # rows, whole)))"

definition status_result :: "configured_store list \<Rightarrow> cli_result" where
  "status_result stores =
    (case stores of
       [s] \<Rightarrow>
         (case qr_counts (st_reader s) of
            Inl e \<Rightarrow> failing (Reported [] e)
          | Inr c \<Rightarrow>
              ([Row [''CONFIG'', st_path s], Row [''DATABASE'', st_database s], Row [''TOTAL'', format_int (n_total c)],
                Row [''QUEUED'', format_int (n_queued c)], Row [''RUNNING'', format_int (n_running c)],
                Row [''SUCCEEDED'', format_int (n_succeeded c)], Row [''FAILED'', format_int (n_failed c)]], None))
     | _ \<Rightarrow>
         (case status_rows stores no_counts of
            Inl e \<Rightarrow> failing e
          | Inr (rows, whole) \<Rightarrow>
              (Row [''CONFIG'', ''DATABASE'', ''TOTAL'', ''QUEUED'', ''RUNNING'', ''SUCCEEDED'', ''FAILED''] # rows @
               [Row ([''TOTAL'', ''-''] @ count_cells whole)], None)))"

definition status_command :: "cli_env \<Rightarrow> string list \<Rightarrow> cli_result" where
  "status_command env args =
    with_args inspection_flags args (\<lambda>p. with_config ''status'' p (with_stores env p status_result))"

text \<open>\<open>job\<close>: what was printed before an error stays printed.\<close>

fun then_print :: "cli_result \<Rightarrow> cli_result \<Rightarrow> cli_result" where
  "then_print (ps, Some e) next_result = (ps, Some e)"
| "then_print (ps, None) (qs, failed) = (ps @ qs, failed)"

definition print_all :: "cli_result list \<Rightarrow> cli_result" where
  "print_all rs = foldr then_print rs ([], None)"

definition printing :: "printed list \<Rightarrow> cli_result" where
  "printing ps = (ps, None)"

definition reading :: "'a answer \<Rightarrow> ('a \<Rightarrow> cli_result) \<Rightarrow> cli_result" where
  "reading a k = (case a of Inl e \<Rightarrow> failing (Reported [] e) | Inr x \<Rightarrow> k x)"

definition print_job_fields :: "printer \<Rightarrow> job \<Rightarrow> printed list" where
  "print_job_fields pr j =
    [Row [''Status:'', status_text (j_status j)], Row [''Watch:'', j_watch_name j], Row [''File:'', pr_quote pr (j_path j)],
     Row [''Fingerprint:'', j_fingerprint j],
     Row [''Attempts:'', format_int (j_attempts j) @ ''/'' @ format_int (j_max_retries j + 1)],
     Row [''Available:'', format_time pr (j_available_at j)], Row [''Created:'', format_time pr (j_created_at j)],
     Row [''Updated:'', format_time pr (j_updated_at j)]] @
    (if j_last_error j = [] then [] else [Row [''Last error:'', j_last_error j]])"

fun command_status_text :: "command_status \<Rightarrow> string" where
  "command_status_text CommandRunning = ''RUNNING''"
| "command_status_text CommandSucceeded = ''SUCCEEDED''"
| "command_status_text CommandFailed = ''FAILED''"

definition print_command :: "printer \<Rightarrow> command_execution \<Rightarrow> printed list" where
  "print_command pr c =
    [text_line [''    Command '', format_int (ce_sequence c), '' (id='', format_int (ce_id c), '')  '',
       command_status_text (ce_status c), ''  '', format_invocation pr (ce_program c) (ce_args c)],
     text_line [''      started='', format_time pr (ce_started_at c), ''  finished='', format_optional_time pr (ce_finished_at c),
       ''  exit='', format_exit_code (ce_exit_code c), ''  timeout='', pr_duration pr (ce_timeout c)]] @
    (if ce_error c = [] then [] else [text_line [''      error: '', ce_error c]])"

definition print_run :: "printer \<Rightarrow> queue_reader \<Rightarrow> run \<Rightarrow> cli_result" where
  "print_run pr reader r =
    then_print
      (printing
        (text_line [''  Run '', format_int (r_attempt r), '' (id='', format_int (r_id r), '')  '', status_text (r_status r),
           ''  started='', format_time pr (r_started_at r), ''  finished='', format_optional_time pr (r_finished_at r)] #
         (if r_error r = [] then [] else [text_line [''    error: '', r_error r]])))
      (reading (qr_list_commands reader (r_id r)) (\<lambda>cs. printing (concat (map (print_command pr) cs))))"

definition job_result :: "printer \<Rightarrow> int \<Rightarrow> configured_store list \<Rightarrow> cli_result" where
  "job_result pr i stores =
    (case find_job i stores None of
       Inl e \<Rightarrow> failing e
     | Inr (s, j) \<Rightarrow>
         reading (qr_list_runs (st_reader s) i) (\<lambda>rs.
           then_print
             (printing
               (text_line [''Job '', format_int (j_id j)] #
                (if 1 < length stores then [text_line [''Config: '', st_path s]] else []) @ print_job_fields pr j))
             (if rs = [] then printing [Text (line_end @ ''No runs recorded.'' @ line_end)]
              else then_print (printing [Text (line_end @ ''Runs'' @ line_end)]) (print_all (map (print_run pr (st_reader s)) rs)))))"

definition with_job :: "cli_env \<Rightarrow> string \<Rightarrow> string list \<Rightarrow> (int \<Rightarrow> configured_store list \<Rightarrow> cli_result) \<Rightarrow> cli_result" where
  "with_job env command args k =
    with_args inspection_flags args (\<lambda>p.
      case one_job_id command p of Inl e \<Rightarrow> failing e | Inr i \<Rightarrow> with_stores env p (k i))"

definition job_command :: "cli_env \<Rightarrow> string list \<Rightarrow> cli_result" where
  "job_command env args = with_job env ''job'' args (job_result (cl_printer env))"

text \<open>\<open>logs\<close>.\<close>

definition print_command_log :: "run \<Rightarrow> command_execution \<Rightarrow> printed list" where
  "print_command_log r c =
    text_line [''== Run '', format_int (r_attempt r), '' / Command '', format_int (ce_sequence c), '': '', ce_name c, '' ('',
      command_status_text (ce_status c), '') =='']
    # text_line [''-- stdout --''] # write_log (ce_stdout c) @ text_line [''-- stderr --''] # write_log (ce_stderr c)"

definition logs_result :: "int \<Rightarrow> configured_store list \<Rightarrow> cli_result" where
  "logs_result i stores =
    (case find_job i stores None of
       Inl e \<Rightarrow> failing e
     | Inr (s, j) \<Rightarrow>
         reading (qr_list_runs (st_reader s) i) (\<lambda>rs.
           print_all (map (\<lambda>r. reading (qr_list_commands (st_reader s) (r_id r))
             (\<lambda>cs. printing (concat (map (print_command_log r) cs)))) rs)))"

definition logs_command :: "cli_env \<Rightarrow> string list \<Rightarrow> cli_result" where
  "logs_command env args = with_job env ''logs'' args logs_result"

section \<open>A job is found only where it is the only one\<close>

definition lacks_job :: "int \<Rightarrow> configured_store \<Rightarrow> bool" where
  "lacks_job i s \<longleftrightarrow> (\<exists>e. qr_get_job (st_reader s) i = Inl e \<and> client_not_found e)"

lemma find_job_again: "find_job i stores (Some m) = Inr r \<longleftrightarrow> r = m \<and> list_all (lacks_job i) stores"
  by (induction stores) (cases m, auto simp: lacks_job_def split: sum.split)+

lemma split_Cons:
  "(\<exists>before after. t # stores = before @ s # after \<and> P before after) \<longleftrightarrow>
    t = s \<and> P [] stores \<or> (\<exists>before after. stores = before @ s # after \<and> P (t # before) after)"
proof
  assume "\<exists>before after. t # stores = before @ s # after \<and> P before after"
  then obtain before after where split: "t # stores = before @ s # after" and P: "P before after" by blast
  show "t = s \<and> P [] stores \<or> (\<exists>before after. stores = before @ s # after \<and> P (t # before) after)"
  proof (cases before)
    case (Cons u us)
    then show ?thesis using split P by auto
  qed (use split P in simp)
next
  assume "t = s \<and> P [] stores \<or> (\<exists>before after. stores = before @ s # after \<and> P (t # before) after)"
  then show "\<exists>before after. t # stores = before @ s # after \<and> P before after"
  proof (elim disjE exE conjE)
    show ?thesis if "t = s" "P [] stores" using that by (intro exI[of _ "[]"] exI[of _ stores]) simp
    show ?thesis if "stores = before @ s # after" "P (t # before) after" for before after
      using that by (intro exI[of _ "t # before"] exI[of _ after]) simp
  qed
qed

lemma find_job_found:
  "find_job i stores None = Inr (s, j) \<longleftrightarrow>
    (\<exists>before after. stores = before @ s # after \<and> qr_get_job (st_reader s) i = Inr j \<and>
      list_all (lacks_job i) (before @ after))"
proof (induction stores)
  case (Cons t stores)
  note parts = split_Cons[of t stores s "\<lambda>before after. qr_get_job (st_reader s) i = Inr j \<and> list_all (lacks_job i) (before @ after)"]
  show ?case
  proof (cases "qr_get_job (st_reader t) i")
    case (Inr j0)
    then have "\<not> lacks_job i t" by (simp add: lacks_job_def)
    then show ?thesis
      unfolding parts using Inr find_job_again[of i stores "(t, j0)" "(s, j)"] by auto
  next
    case (Inl e)
    then have "lacks_job i t \<longleftrightarrow> client_not_found e" by (simp add: lacks_job_def)
    then show ?thesis unfolding parts using Inl Cons.IH by auto
  qed
qed simp

end
