(* ===== verification/CliProps.thy ===== *)
theory CliProps
  imports CliInspect
begin

text \<open>
  Properties of the inspection commands: the merged listing of several queues is exact, and a job is found only
  where it is the only one.
\<close>

section \<open>The first elements of a merged list\<close>

lemma sorted_unique:
  assumes "asymp R" and "sorted_wrt R xs" and "sorted_wrt R ys" and "set xs = set ys"
  shows "xs = ys"
  using assms(2-4)
proof (induction xs arbitrary: ys)
  case (Cons x xs)
  then obtain y zs where ys: "ys = y # zs" by (cases ys) auto
  have not: "\<not> R a b \<or> \<not> R b a" for a b using assms(1) by (auto dest: asympD)
  have "x = y"
  proof (rule ccontr)
    assume "x \<noteq> y"
    then have "x \<in> set zs" "y \<in> set xs" using Cons.prems(3) ys by auto
    then show False using Cons.prems(1,2) ys not[of x y] by auto
  qed
  moreover have "x \<notin> set xs" "y \<notin> set zs" using Cons.prems(1,2) ys not by auto
  ultimately have "set xs = set zs" using Cons.prems(3) ys by auto
  then show ?case using Cons ys \<open>x = y\<close> by simp
qed simp

lemma sorted_part:
  assumes "asymp R" and "sorted_wrt R ys" and "sorted_wrt R xs" and "set xs \<subseteq> set ys"
  shows "xs = filter (\<lambda>y. y \<in> set xs) ys"
  using assms by (intro sorted_unique[OF assms(1,3) sorted_wrt_filter[OF assms(2)]]) auto

lemma take_filter_mem: "y \<in> set (take n ys) \<Longrightarrow> P y \<Longrightarrow> y \<in> set (take n (filter P ys))"
proof (induction ys arbitrary: n)
  case (Cons z zs)
  show ?case
  proof (cases n)
    case (Suc m)
    have "set (take m (filter P zs)) \<subseteq> set (take (Suc m) (filter P zs))" by (rule set_take_subset_set_take) simp
    then show ?thesis using Suc Cons by (cases "y = z") auto
  qed (use Cons in simp)
qed simp

lemma take_filter_all: "\<forall>y \<in> set (take n ys). P y \<Longrightarrow> take n (filter P ys) = take n ys"
proof (induction ys arbitrary: n)
  case (Cons z zs)
  then show ?case by (cases n) auto
qed simp

text \<open>Cutting the parts of a sorted list to the length that is wanted loses nothing of its beginning.\<close>

lemma top_of_parts:
  assumes "asymp R" and "sorted_wrt R ys" and "\<forall>xs \<in> set xss. sorted_wrt R xs" and "set ys = \<Union> (set ` set xss)"
    and "sorted_wrt R zs" and "set zs = \<Union> ((\<lambda>xs. set (take n xs)) ` set xss)"
  shows "take n zs = take n ys"
proof -
  have "set zs \<subseteq> set ys" using assms(4,6) by (auto dest: in_set_takeD)
  from sorted_part[OF assms(1,2,5) this] have zs: "zs = filter (\<lambda>y. y \<in> set zs) ys" .
  have "\<forall>y \<in> set (take n ys). y \<in> set zs"
  proof
    fix y assume y: "y \<in> set (take n ys)"
    then obtain xs where xs: "xs \<in> set xss" "y \<in> set xs" using assms(4) in_set_takeD[of y n ys] by blast
    have "xs = filter (\<lambda>y. y \<in> set xs) ys"
      using xs(1) assms(3,4) by (intro sorted_part[OF assms(1,2)]) auto
    then have "y \<in> set (take n xs)" using take_filter_mem[OF y, of "\<lambda>y. y \<in> set xs"] xs(2) by simp
    then show "y \<in> set zs" using assms(6) xs(1) by blast
  qed
  then show ?thesis using zs take_filter_all[of n ys "\<lambda>y. y \<in> set zs"] by metis
qed

section \<open>The order of a listing\<close>

lemma listed_asym: "asymp comes_before"
  by (rule asympI) (auto simp: comes_before_def dest: string_le_antisym split: if_splits)

lemma listed_trans: "comes_before a b \<Longrightarrow> comes_before b c \<Longrightarrow> comes_before a c"
  by (auto simp: comes_before_def dest: string_le_antisym split: if_splits elim: string_le_trans)

lemma set_insert_listed [simp]: "set (insert_listed a ls) = insert a (set ls)"
  by (induction ls) auto

lemma set_sort_listed [simp]: "set (sort_listed ls) = set ls"
  by (induction ls) (simp_all add: sort_listed_def)

text \<open>Two listed jobs are told apart by their path and their number.\<close>

definition listed_apart :: "listed set \<Rightarrow> bool" where
  "listed_apart A \<longleftrightarrow> inj_on (\<lambda>(path, j). (path, j_id j)) A"

lemma listed_total:
  assumes "listed_apart A" and "a \<in> A" and "b \<in> A" and "a \<noteq> b"
  shows "comes_before a b \<or> comes_before b a"
proof -
  have "fst a \<noteq> fst b \<or> j_id (snd a) \<noteq> j_id (snd b)"
    using assms by (cases a; cases b) (auto simp: listed_apart_def inj_on_def)
  then show ?thesis using string_le_total[of "fst a" "fst b"] by (auto simp: comes_before_def)
qed

lemma insert_listed_sorted:
  assumes "sorted_wrt comes_before ls" and "listed_apart A" and "a \<in> A" and "set ls \<subseteq> A" and "a \<notin> set ls"
  shows "sorted_wrt comes_before (insert_listed a ls)"
  using assms(1,4,5)
proof (induction ls)
  case (Cons b bs)
  show ?case
  proof (cases "comes_before b a")
    case True
    then show ?thesis using Cons by auto
  next
    case False
    then have "comes_before a b" using listed_total[OF assms(2,3), of b] Cons.prems by auto
    then show ?thesis using Cons.prems False by (auto intro: listed_trans)
  qed
qed simp

lemma sort_listed_sorted:
  assumes "listed_apart (set ls)" and "distinct ls"
  shows "sorted_wrt comes_before (sort_listed ls)"
proof -
  have "set ms \<subseteq> set ls \<Longrightarrow> distinct ms \<Longrightarrow> sorted_wrt comes_before (sort_listed ms)" for ms
  proof (induction ms)
    case (Cons m ms)
    have "sort_listed (m # ms) = insert_listed m (sort_listed ms)" by (simp add: sort_listed_def)
    then show ?case using Cons insert_listed_sorted[OF _ assms(1), of "sort_listed ms" m] by simp
  qed (simp add: sort_listed_def)
  then show ?thesis using assms(2) by simp
qed

section \<open>The merged listing\<close>

text \<open>Jobs get their number in the order of their creation.\<close>

definition created_in_order :: "db \<Rightarrow> bool" where
  "created_in_order d \<longleftrightarrow> (\<forall>r \<in> set (jobs d). \<forall>r' \<in> set (jobs d). j_id r < j_id r' \<longrightarrow> j_created_at r \<le> j_created_at r')"

definition listed_rows :: "string \<Rightarrow> job_row list \<Rightarrow> listed list" where
  "listed_rows path rs = map (\<lambda>r. (path, scan_job r)) rs"

lemma scan_job_simps [simp]: "j_id (scan_job r) = j_id r" "j_created_at (scan_job r) = j_created_at r"
  by (simp_all add: scan_job_def job_row.defs)

lemma scan_job_inj: "scan_job r = scan_job r' \<Longrightarrow> r = r'"
  by (cases r; cases r') (simp add: scan_job_def job_row.defs)

lemma listed_rows_sorted:
  assumes "reachable d" and "created_in_order d"
  shows "sorted_wrt comes_before (listed_rows path (newest_first f d))"
proof -
  have "sorted_wrt (\<lambda>a b. comes_before (path, scan_job a) (path, scan_job b)) (newest_first f d)"
  proof (rule sorted_wrt_mono_rel[OF _ newest_first_sorted[OF reachable_jobs_ok[OF assms(1)]]])
    fix a b assume ab: "a \<in> set (newest_first f d)" "b \<in> set (newest_first f d)" "j_id b < j_id a"
    then have "j_created_at b \<le> j_created_at a"
      using assms(2) by (auto simp: created_in_order_def newest_first_set)
    then show "comes_before (path, scan_job a) (path, scan_job b)" using ab(3) by (simp add: comes_before_def)
  qed
  then show ?thesis by (simp add: listed_rows_def sorted_wrt_map)
qed

lemma read_filters_ok:
  assumes "st = local_reader json_error (\<lambda>_. (e, d))" and "reply e = (\<lambda>_. None)" and "0 < limit"
    and "\<forall>s \<in> set sts. s = [] \<or> valid_status s"
  shows "read_filters st (map (list_filter watch limit) sts) =
    Inr (concat (map (\<lambda>f. map scan_job (take (nat limit) (newest_first f d))) (map (list_filter watch limit) sts)))"
  using assms(4)
proof (induction sts)
  case (Cons s sts)
  have "list_jobs e (list_filter watch limit s) d = Inr (map scan_job (take (nat limit) (newest_first (list_filter watch limit s) d)))"
    using list_jobs_ok[OF assms(2), of "list_filter watch limit s" d] assms(3) Cons.prems by (simp add: list_filter_def)
  then show ?case using Cons assms(1) by (simp add: local_reader_def local_answer_def)
qed simp

lemma gather_jobs_ok:
  assumes "\<forall>s \<in> set stores. read_filters (st_reader s) fs = Inr (concat (map (\<lambda>f. map scan_job (take n (newest_first f (dbs (st_path s))))) fs))"
  shows "gather_jobs what fs stores =
    Inr (concat (map (take n) (concat (map (\<lambda>s. map (\<lambda>f. listed_rows (st_path s) (newest_first f (dbs (st_path s)))) fs) stores))))"
  using assms
  by (induction stores) (simp_all add: map_concat comp_def listed_rows_def take_map)

lemma distinct_cut: "distinct (concat xss) \<Longrightarrow> distinct (concat (map (take n) xss))"
  by (induction xss) (auto dest: in_set_takeD)

lemma distinct_stores:
  assumes "distinct (map st_path stores)"
    and "\<forall>s \<in> set stores. distinct (concat (map (\<lambda>f. newest_first f (dbs (st_path s))) fs))"
  shows "distinct (concat (concat (map (\<lambda>s. map (\<lambda>f. listed_rows (st_path s) (newest_first f (dbs (st_path s)))) fs) stores)))"
  using assms
proof (induction stores)
  case (Cons s stores)
  let ?rows = "concat (map (\<lambda>f. newest_first f (dbs (st_path s))) fs)"
  have first: "concat (map (\<lambda>f. listed_rows (st_path s) (newest_first f (dbs (st_path s)))) fs) = listed_rows (st_path s) ?rows"
    by (simp add: listed_rows_def map_concat comp_def)
  have "distinct (listed_rows (st_path s) ?rows)"
    using Cons.prems(2) by (auto simp: listed_rows_def distinct_map inj_on_def dest: scan_job_inj)
  then show ?case using Cons first by (auto simp: listed_rows_def)
qed simp

lemma job_listing_exact:
  fixes dbs :: "string \<Rightarrow> db"
  assumes limit: "0 < limit" and e: "reply e = (\<lambda>_. None)" and paths: "distinct (map st_path stores)"
    and stores: "\<forall>s \<in> set stores. reachable (dbs (st_path s)) \<and> created_in_order (dbs (st_path s)) \<and>
      st_reader s = local_reader json_error (\<lambda>_. (e, dbs (st_path s)))"
    and sts: "\<forall>s \<in> set sts. s = [] \<or> valid_status s" and fs: "fs = map (list_filter watch limit) sts"
    and apart: "\<forall>s \<in> set stores. distinct (concat (map (\<lambda>f. newest_first f (dbs (st_path s))) fs))"
  shows "\<exists>all. sorted_wrt comes_before all \<and>
    set all = {(st_path s, scan_job r) | s r. s \<in> set stores \<and> r \<in> set (jobs (dbs (st_path s))) \<and> (\<exists>f \<in> set fs. filter_matches f r)} \<and>
    job_listing what limit fs stores = Inr (take (nat limit) all)"
proof -
  let ?xss = "concat (map (\<lambda>s. map (\<lambda>f. listed_rows (st_path s) (newest_first f (dbs (st_path s)))) fs) stores)"
  let ?cut = "concat (map (take (nat limit)) ?xss)"
  let ?A = "{(st_path s, scan_job r) | s r. s \<in> set stores \<and> r \<in> set (jobs (dbs (st_path s))) \<and> (\<exists>f \<in> set fs. filter_matches f r)}"
  have all: "set (concat ?xss) = ?A"
    by (auto simp: listed_rows_def newest_first_set)
  have distinct: "distinct (concat ?xss)" by (rule distinct_stores[OF paths apart])
  have ids: "listed_apart ?A"
  proof -
    have "r = r'" if "s \<in> set stores" "s' \<in> set stores" "st_path s = st_path s'" "r \<in> set (jobs (dbs (st_path s)))"
      "r' \<in> set (jobs (dbs (st_path s')))" "j_id r = j_id r'" for s s' r r'
      using jobs_ok_inj[OF reachable_jobs_ok, of "dbs (st_path s)" r r'] stores that by auto
    then show ?thesis by (fastforce simp: listed_apart_def inj_on_def)
  qed
  have cut: "set ?cut \<subseteq> ?A" unfolding all[symmetric] by (auto dest: in_set_takeD)
  have sorted: "sorted_wrt comes_before (sort_listed (concat ?xss))"
    using ids distinct by (intro sort_listed_sorted) (simp_all only: all)
  have sorted_cut: "sorted_wrt comes_before (sort_listed ?cut)"
    using ids cut distinct_cut[OF distinct] by (intro sort_listed_sorted) (auto simp: listed_apart_def intro: inj_on_subset)
  have "gather_jobs what fs stores = Inr ?cut"
    using stores read_filters_ok[OF _ e limit sts] by (intro gather_jobs_ok) (auto simp: fs)
  then have "job_listing what limit fs stores = Inr (take (nat limit) (sort_listed ?cut))"
    by (simp add: job_listing_def)
  moreover have "take (nat limit) (sort_listed ?cut) = take (nat limit) (sort_listed (concat ?xss))"
    using stores listed_rows_sorted
    by (intro top_of_parts[OF listed_asym sorted _ _ sorted_cut, of ?xss]) (auto simp del: set_concat simp: set_concat)
  ultimately show ?thesis using sorted all by (intro exI[of _ "sort_listed (concat ?xss)"]) simp
qed

lemma status_apart: "st \<noteq> st' \<Longrightarrow> st \<noteq> [] \<Longrightarrow> st' \<noteq> [] \<Longrightarrow>
  set (newest_first (list_filter watch limit st) d) \<inter> set (newest_first (list_filter watch limit st') d) = {}"
  by (auto simp: newest_first_set filter_matches_def list_filter_def)

lemma sorted_asym_distinct: "asymp R \<Longrightarrow> sorted_wrt R xs \<Longrightarrow> distinct xs"
  by (induction xs) (auto dest: asympD)

lemma newest_first_distinct: "reachable d \<Longrightarrow> distinct (newest_first f d)"
  by (rule sorted_asym_distinct[OF _ newest_first_sorted[OF reachable_jobs_ok]]) (auto intro: asympI)


definition demo_store :: "string \<Rightarrow> db \<Rightarrow> configured_store" where
  "demo_store path d = \<lparr>st_path = path, st_database = path,
     st_reader = local_reader new_error (\<lambda>_. (ok_engine 9, d))\<rparr>"

lemma demo_two_reachable: "reachable demo_two"
  by (rule reachable_steps[OF demo_reachable(2) demo_two_steps])

lemma demo_two_in_order: "created_in_order demo_two"
  by (simp add: created_in_order_def demo_two_def demo_claimed_def mark_claimed_def QueueProps.demo_row_def new_job_row_def)


section \<open>A listing is not one moment\<close>

text \<open>The queued and the running jobs are read by two queries: a job that a worker claims between them is shown
  twice.\<close>

lemma claimed_job_listed_twice:
  assumes "r = local_reader new_error
    (\<lambda>call. (ok_engine 9, if call = ReadJobs (list_filter [] 5 ''QUEUED'') then demo_queued else snd (claim (ok_engine 2) 6 demo_queued)))"
  shows "\<exists>a b. job_listing ''queue'' 5 (queue_filters [] 5) [\<lparr>st_path = ''/a'', st_database = ''/d'', st_reader = r\<rparr>] = Inr [a, b] \<and>
    j_id (snd a) = 1 \<and> j_id (snd b) = 1"
proof -
  have claimed: "snd (claim (ok_engine 2) 6 demo_queued) = demo_claimed" by (simp add: demo_claim)
  have "qr_list_jobs r (list_filter [] 5 ''QUEUED'') = Inr [scan_job QueueProps.demo_row]"
    "qr_list_jobs r (list_filter [] 5 ''RUNNING'') = Inr [scan_job (mark_claimed 6 QueueProps.demo_row)]"
    unfolding assms claimed
    by (simp_all add: local_reader_def local_answer_def list_filter_def list_jobs_def valid_status_def
        filter_matches_def ok_engine_def demo_queued_def demo_claimed_def QueueProps.demo_row_def mark_claimed_def)
  then show ?thesis
    by (simp add: job_listing_def queue_filters_def sort_listed_def QueueProps.demo_row_def mark_claimed_def)
qed

end
