(* ===== verification/CliManaged.thy ===== *)
theory CliManaged
  imports CliInspect
begin

text \<open>
  The commands that manage instances (\<open>cli/managed.go\<close>) and the daemon's own command line (\<open>cli/daemon.go\<close>):
  what they ask the daemon, what they print, and in which order the daemon opens and releases its parts. What the
  daemon answers is an argument.
\<close>

section \<open>Selecting one configuration\<close>

definition discover_single :: "config_tree \<Rightarrow> string \<Rightarrow> cli_error + string list" where
  "discover_single t selection =
    (case discover t selection of
       Inl e \<Rightarrow> Inl (Failure e)
     | Inr paths \<Rightarrow>
         if length paths \<noteq> 1 then Inl (usage ''config path must select a single configuration file'') else Inr paths)"

definition discover_start_config :: "config_tree \<Rightarrow> string \<Rightarrow> string \<Rightarrow> cli_error + (string list \<times> string)" where
  "discover_start_config t selection name =
    (if blank selection then Inl (usage ''config path is required'')
     else (case discover_single t selection of Inl e \<Rightarrow> Inl e | Inr paths \<Rightarrow> Inr (paths, trim_space name)))"

section \<open>start, ps and stop\<close>

definition socket_flags :: flag_set where
  "socket_flags = [(''socket'', StringFlag)]"

definition print_instance :: "printer \<Rightarrow> bool \<Rightarrow> instance_view \<Rightarrow> printed" where
  "print_instance pr all v =
    (let desired = (if iv_desired_state v = [] then ''-'' else iv_desired_state v);
         error = (if iv_error v = [] then ''-'' else pr_quote pr (iv_error v)) in
     if all then
       Row [iv_id v, iv_name v, state_text (iv_state v), desired, format_time pr (iv_started_at v),
         format_optional_time pr (iv_finished_at v), pr_quote pr (iv_config_path v), error]
     else Row [iv_id v, iv_name v, state_text (iv_state v), format_time pr (iv_started_at v), pr_quote pr (iv_config_path v)])"

definition print_instances :: "printer \<Rightarrow> instance_view list \<Rightarrow> bool \<Rightarrow> printed list" where
  "print_instances pr views all =
    Row (if all then [''ID'', ''NAME'', ''STATUS'', ''DESIRED'', ''STARTED'', ''FINISHED'', ''CONFIG'', ''ERROR'']
         else [''ID'', ''NAME'', ''STATUS'', ''STARTED'', ''CONFIG'']) #
    map (print_instance pr all) views"

text \<open>What \<open>start\<close> sends: the paths and the name.\<close>

definition start_selection :: "config_tree \<Rightarrow> parsed_args \<Rightarrow> cli_error + (string list \<times> string)" where
  "start_selection t p =
    (let selection = arg_at p 0; name = trim_space (arg_at p 1);
         known = (case ct_stat t selection of Inr kind \<Rightarrow> True | Inl e \<Rightarrow> False) in
     if 2 < length (pa_args p)
     then Inl (usage ''start expects at most 2 positional arguments (config path, optional instance name)'')
     else if blank selection then Inl (usage ''config path is required'')
     else if known \<or> name \<noteq> [] then discover_start_config t selection name
     else Inr ([selection], name))"

definition start_instances ::
  "config_tree \<Rightarrow> printer \<Rightarrow> (string \<Rightarrow> string list \<Rightarrow> string \<Rightarrow> instance_view list answer) \<Rightarrow> string list \<Rightarrow> cli_result" where
  "start_instances t pr client_start args =
    with_args socket_flags args (\<lambda>p.
      case start_selection t p of
        Inl e \<Rightarrow> failing e
      | Inr (paths, name) \<Rightarrow>
          reading (client_start (flag_or p ''socket'' []) paths name) (\<lambda>views. printing (print_instances pr views False)))"

text \<open>\<open>-a\<close> and \<open>--all\<close> set one variable.\<close>

definition ps_all :: "parsed_args \<Rightarrow> bool" where
  "ps_all p = bool_flag (p\<lparr>pa_assigned := map (\<lambda>(n, v). (if n = ''a'' then ''all'' else n, v)) (pa_assigned p)\<rparr>) ''all''"

definition ps_command ::
  "printer \<Rightarrow> (string \<Rightarrow> bool \<Rightarrow> instance_view list answer) \<Rightarrow> string list \<Rightarrow> cli_result" where
  "ps_command pr client_list args =
    with_args ([(''all'', BoolFlag), (''a'', BoolFlag)] @ socket_flags) args (\<lambda>p.
      if pa_args p \<noteq> [] then failing (usage ''ps does not accept positional arguments'')
      else
        reading (client_list (flag_or p ''socket'' []) (ps_all p)) (\<lambda>views. printing (print_instances pr views (ps_all p))))"

text \<open>The loop of \<open>stop\<close>: \<open>client_stop i\<close> answers the \<open>i\<close>th request.\<close>

fun stop_all :: "(nat \<Rightarrow> string \<Rightarrow> instance_view answer) \<Rightarrow> nat \<Rightarrow> string list \<Rightarrow> instance_view list \<times> cli_error list" where
  "stop_all client_stop i [] = ([], [])"
| "stop_all client_stop i (s # ss) =
    (case stop_all client_stop (Suc i) ss of
       (stopped, errors) \<Rightarrow>
         (case client_stop i s of
            Inl e \<Rightarrow> (stopped, Reported [T ''stop '', Q s, T '': ''] e # errors)
          | Inr v \<Rightarrow> (v # stopped, errors)))"

definition stop_result :: "(nat \<Rightarrow> string \<Rightarrow> instance_view answer) \<Rightarrow> string list \<Rightarrow> cli_result" where
  "stop_result client_stop selectors =
    (case stop_all client_stop 0 selectors of
       (stopped, errors) \<Rightarrow>
         (map (\<lambda>v. text_line [iv_id v]) stopped, if errors = [] then None else Some (Several errors)))"

definition stop_command :: "(string \<Rightarrow> nat \<Rightarrow> string \<Rightarrow> instance_view answer) \<Rightarrow> string list \<Rightarrow> cli_result" where
  "stop_command client_stop args =
    with_args socket_flags args (\<lambda>p.
      if pa_args p = [] then failing (usage ''stop requires at least one instance ID or name'')
      else stop_result (client_stop (flag_or p ''socket'' [])) (pa_args p))"

section \<open>test\<close>

text \<open>\<open>runner\<close> is how the run of the configuration ends, \<open>ctx_err\<close> the context after it.\<close>

definition test_selected ::
  "config_tree \<Rightarrow> (string \<Rightarrow> config result) \<Rightarrow> (named_config \<Rightarrow> go_error option) option \<Rightarrow> go_error option \<Rightarrow> string \<Rightarrow>
   cli_error option" where
  "test_selected t load runner ctx_err selection =
    (case discover_single t selection of
       Inl e \<Rightarrow> Some e
     | Inr paths \<Rightarrow>
         (case runner of
            None \<Rightarrow> Some (Failure (new_error ''test: local runner is required''))
          | Some run \<Rightarrow>
              (case load (hd paths) of
                 Inl e \<Rightarrow> Some (Failure (Wrapped [T ''load '', T (hd paths), T '': ''] e []))
               | Inr cfg \<Rightarrow>
                   (case run \<lparr>nc_path = hd paths, nc_config = Some cfg\<rparr> of
                      None \<Rightarrow> None
                    | Some e \<Rightarrow> if is_cancellation_from e ctx_err then None else Some (Failure e)))))"

definition test_command ::
  "config_tree \<Rightarrow> (string \<Rightarrow> config result) \<Rightarrow> (named_config \<Rightarrow> go_error option) \<Rightarrow> go_error option \<Rightarrow> string list \<Rightarrow>
   cli_result" where
  "test_command t load run ctx_err args =
    with_args [] args (\<lambda>p. with_config ''test'' p ([], test_selected t load (Some run) ctx_err (arg_at p 0)))"

section \<open>The daemon\<close>

text \<open>What the daemon does to its parts, in order. \<open>ControlServed\<close> is a call of \<open>Serve\<close>, which closes the control
  server itself; \<open>Cancelled\<close> cancels the daemon's context.\<close>

datatype daemon_event =
    ManagerOpened | ManagerShutdown | ControlOpened | ControlClosed | ControlServed
  | WebOpened | WebServed | WebClosed | Restored | Cancelled

record daemon_answers =
  da_state_path :: "string result"
  da_manager :: "go_error option"
  da_server :: "string result"
  da_web :: "go_error option"
  da_restore :: "go_error option"
  da_serve :: "go_error option"
  da_first :: "string \<times> go_error option"
  da_second :: "string \<times> go_error option"
  da_web_close :: "go_error option"

definition named_serve_error :: "string \<times> go_error option \<Rightarrow> go_error option" where
  "named_serve_error r = map_option (\<lambda>e. Wrapped [T (fst r), T '' server: ''] e []) (snd r)"

text \<open>\<open>serveDaemonServers\<close>.\<close>

definition serve_both :: "daemon_answers \<Rightarrow> daemon_event list \<times> go_error option" where
  "serve_both a =
    ([ControlServed, WebServed, Cancelled, WebClosed],
     errors_join [named_serve_error (da_first a), named_serve_error (da_second a), da_web_close a])"

definition web_token_path :: "string \<Rightarrow> string" where
  "web_token_path socket = clean socket @ ''.web-token''"

definition daemon_flags :: flag_set where
  "daemon_flags = [(''socket'', StringFlag), (''web-listen'', StringFlag), (''log-level'', StringFlag), (''state-dir'', StringFlag)]"

text \<open>\<open>daemonCommand\<close> after its options; \<open>web\<close> says whether an address for the dashboard is given. The deferred
  calls are at the end of each path.\<close>

definition daemon_serving :: "bool \<Rightarrow> daemon_answers \<Rightarrow> daemon_event list \<times> go_error option" where
  "daemon_serving web a =
    (case da_state_path a of
       Inl e \<Rightarrow> ([Cancelled], Some e)
     | Inr state_path \<Rightarrow>
    (case da_manager a of
       Some e \<Rightarrow> ([Cancelled], Some e)
     | None \<Rightarrow>
    (case da_server a of
       Inl e \<Rightarrow> ([ManagerOpened, ManagerShutdown, Cancelled], Some e)
     | Inr server \<Rightarrow>
    (case (if web then da_web a else None) of
       Some e \<Rightarrow> ([ManagerOpened, ControlOpened, ControlClosed, ManagerShutdown, Cancelled], Some e)
     | None \<Rightarrow>
    (let opened = [ManagerOpened, ControlOpened] @ (if web then [WebOpened] else []) in
     case da_restore a of
       Some e \<Rightarrow> (opened @ (if web then [WebClosed] else []) @ [ControlClosed, ManagerShutdown, Cancelled], Some e)
     | None \<Rightarrow>
         if web then
           (case serve_both a of (events, failed) \<Rightarrow> (opened @ [Restored] @ events @ [ManagerShutdown, Cancelled], failed))
         else (opened @ [Restored, ControlServed, ManagerShutdown, Cancelled], da_serve a))))))"

definition daemon_command ::
  "(string \<Rightarrow> string) \<Rightarrow> string \<Rightarrow> (parsed_args \<Rightarrow> daemon_answers) \<Rightarrow> string list \<Rightarrow> daemon_event list \<times> cli_error option" where
  "daemon_command lower web_env answers args =
    (case parse_flags daemon_flags args of
       Inl e \<Rightarrow> ([], Some e)
     | Inr p \<Rightarrow>
         if pa_args p \<noteq> []
         then ([], Some (usage ''does not accept positional arguments; register instances with onderzeeer start <config> [name]''))
         else
           (case log_level lower (flag_or p ''log-level'' ''info'') of
              Inl e \<Rightarrow> ([], Some e)
            | Inr level \<Rightarrow>
                (case daemon_serving (trim_space (flag_or p ''web-listen'' (trim_space web_env)) \<noteq> []) (answers p) of
                   (events, failed) \<Rightarrow> (events, map_option Failure failed))))"

text \<open>\<open>RunDaemonVersion\<close>.\<close>

definition run_daemon_version :: "(string list \<Rightarrow> cli_error option) \<Rightarrow> string list \<Rightarrow> nat" where
  "run_daemon_version run args =
    (case args of
       command # rest \<Rightarrow>
         if command \<in> {''help'', ''-h'', ''--help''} then 0
         else if command \<in> {''version'', ''-v'', ''-version'', ''--version''} then (if rest = [] then 0 else 2)
         else exit_code (run args)
     | [] \<Rightarrow> exit_code (run args))"

section \<open>Facts\<close>

text \<open>\<open>stop\<close> asks for every selector, prints what was stopped in its order, and fails if any was not.\<close>

lemma stop_all_asks:
  "stop_all f i ss = (stopped, errors) \<Longrightarrow>
    map Inr stopped = filter (\<lambda>a. a \<notin> range Inl) (map (\<lambda>(i, s). f i s) (List.enumerate i ss)) \<and>
    length stopped + length errors = length ss"
proof (induction ss arbitrary: i stopped errors)
  case (Cons s ss)
  then show ?case by (cases "f i s") (auto split: prod.splits)
qed simp

lemma stop_succeeds: "snd (stop_result f ss) = None \<longleftrightarrow> length (fst (stop_result f ss)) = length ss"
  using stop_all_asks[of f 0 ss] by (cases "stop_all f 0 ss") (auto simp: stop_result_def)

text \<open>\<open>test\<close> takes only the cancellation of its own context for a normal end.\<close>

lemma test_reports:
  assumes "discover_single t selection = Inr [path]" and "load path = Inr cfg"
    and "run \<lparr>nc_path = path, nc_config = Some cfg\<rparr> = Some e" and "errors_is s e" and "ctx_err \<noteq> Some (Sentinel s)"
  shows "test_selected t load (Some run) ctx_err selection = Some (Failure e)"
  using assms cancellation_only[of e ctx_err s] by (auto simp: test_selected_def)

text \<open>The daemon releases what it opened on every path, whatever fails, serves nothing before the saved instances
  are restored, and shuts its supervisor down after both servers have ended.\<close>

definition occurrences :: "'a \<Rightarrow> 'a list \<Rightarrow> nat" where
  "occurrences x xs = length (filter (\<lambda>y. y = x) xs)"

lemma daemon_releases_everything:
  assumes "daemon_serving web a = (events, failed)"
  shows "occurrences ManagerShutdown events = occurrences ManagerOpened events"
    and "occurrences ControlClosed events + occurrences ControlServed events = occurrences ControlOpened events"
    and "occurrences WebClosed events = occurrences WebOpened events"
    and "ManagerOpened \<in> set events \<Longrightarrow> \<exists>before. events = before @ [ManagerShutdown, Cancelled]"
    and "{ControlServed, WebServed} \<inter> set events \<noteq> {} \<Longrightarrow>
      \<exists>before after. events = before @ Restored # after \<and> {ControlServed, WebServed} \<inter> set before = {}"
    and "failed = None \<Longrightarrow> ControlServed \<in> set events"
proof -
  have cases: "events \<in> {[Cancelled], [ManagerOpened, ManagerShutdown, Cancelled],
      [ManagerOpened, ControlOpened, ControlClosed, ManagerShutdown, Cancelled],
      [ManagerOpened, ControlOpened, WebOpened, WebClosed, ControlClosed, ManagerShutdown, Cancelled]} \<and> failed \<noteq> None \<or>
    events \<in> {[ManagerOpened, ControlOpened, Restored, ControlServed, ManagerShutdown, Cancelled],
      [ManagerOpened, ControlOpened, WebOpened, Restored, ControlServed, WebServed, Cancelled, WebClosed, ManagerShutdown, Cancelled]}"
    using assms
    by (auto simp: daemon_serving_def serve_both_def Let_def split: sum.splits option.splits if_splits) metis+
  then show "occurrences ManagerShutdown events = occurrences ManagerOpened events"
    and "occurrences ControlClosed events + occurrences ControlServed events = occurrences ControlOpened events"
    and "occurrences WebClosed events = occurrences WebOpened events"
    and "failed = None \<Longrightarrow> ControlServed \<in> set events"
    by (auto simp: occurrences_def)
  show "\<exists>before. events = before @ [ManagerShutdown, Cancelled]" if "ManagerOpened \<in> set events"
    using cases that by (auto simp: append_eq_Cons_conv Cons_eq_append_conv)
  show "\<exists>before after. events = before @ Restored # after \<and> {ControlServed, WebServed} \<inter> set before = {}"
    if "{ControlServed, WebServed} \<inter> set events \<noteq> {}"
    using cases that
    by (intro exI[of _ "takeWhile (\<lambda>e. e \<noteq> Restored) events"] exI[of _ "tl (dropWhile (\<lambda>e. e \<noteq> Restored) events)"]) auto
qed

end
