(* ===== verification/CliCheck.thy ===== *)
theory CliCheck
  imports CliInspect ParseCommand ShellText
begin

text \<open>
  The commands \<open>check\<close> (\<open>cli/check.go\<close>) and \<open>parse\<close> (\<open>cli/parse.go\<close>) from their arguments to what they print:
  the steps of the selected configurations as shell text or as an exact array, and the step for a shell
  command, whose YAML text is left to the encoder.
\<close>

section \<open>check\<close>

definition warning_line :: "printer \<Rightarrow> string \<Rightarrow> string \<Rightarrow> nat \<Rightarrow> command_config \<Rightarrow> string \<Rightarrow> printed" where
  "warning_line pr path watch i c w =
    text_line [''onderzeeer check: warning: '', path, '': watch '', pr_quote pr watch, '', step '', format_int (int i + 1),
      '' ('', pr_quote pr (command_config.c_name c), ''): '', w]"

definition steps_of :: "watch_config \<Rightarrow> (nat \<times> command_config) list" where
  "steps_of w = List.enumerate 0 (w_pipeline w)"

definition check_warnings :: "printer \<Rightarrow> (string \<times> config) list \<Rightarrow> printed list" where
  "check_warnings pr loaded =
    concat (map (\<lambda>(path, cfg).
      concat (map (\<lambda>w. concat (map (\<lambda>(i, c). map (warning_line pr path (w_name w) i c) (warnings c)) (steps_of w)))
        (v_watches cfg))) loaded)"

definition print_step :: "printer \<Rightarrow> bool \<Rightarrow> nat \<times> command_config \<Rightarrow> printed list" where
  "print_step pr raw s =
    (case s of (i, c) \<Rightarrow>
       text_line [''  '', format_int (int i + 1), ''. '', command_config.c_name c, '' ['', c_executor c, '']: '',
         (if raw then format_invocation pr (command_config.c_program c) (execution_args c)
          else format_shell_invocation (command_config.c_program c) (execution_args c))]
       # (if c_output c = [] then [] else [text_line [''     output: '', pr_quote pr (c_output c)]]))"

definition print_watch :: "printer \<Rightarrow> bool \<Rightarrow> watch_config \<Rightarrow> printed list" where
  "print_watch pr raw w = text_line [''Watch: '', w_name w] # concat (map (print_step pr raw) (steps_of w))"

definition print_config :: "printer \<Rightarrow> bool \<Rightarrow> string \<times> config \<Rightarrow> printed list" where
  "print_config pr raw l =
    (case l of (path, cfg) \<Rightarrow> text_line [''Config: '', path] # concat (map (print_watch pr raw) (v_watches cfg)))"

fun print_pipelines :: "printer \<Rightarrow> bool \<Rightarrow> (string \<times> config) list \<Rightarrow> printed list" where
  "print_pipelines pr raw [] = []"
| "print_pipelines pr raw [l] = print_config pr raw l"
| "print_pipelines pr raw (l # ls) = print_config pr raw l @ Text line_end # print_pipelines pr raw ls"

text \<open>The result and the warnings.\<close>

definition check_main ::
  "printer \<Rightarrow> config_tree \<Rightarrow> (string \<Rightarrow> config result) \<Rightarrow> string list \<Rightarrow> cli_result \<times> printed list" where
  "check_main pr t load args =
    (case parse_flags [(''raw'', BoolFlag)] args of
       Inl e \<Rightarrow> (failing e, [])
     | Inr p \<Rightarrow>
         (case require_arguments ''check'' p [''config path''] of
            Some e \<Rightarrow> (failing e, [])
          | None \<Rightarrow>
              (case load_configs t load (arg_at p 0) of
                 Inl e \<Rightarrow> (failing e, [])
               | Inr loaded \<Rightarrow> (printing (print_pipelines pr (bool_flag p ''raw'') loaded), check_warnings pr loaded))))"

section \<open>parse\<close>

text \<open>The step and the texts of the warnings. The options end at the first argument that is none.\<close>

definition parse_main ::
  "(string \<Rightarrow> string) \<Rightarrow> string list \<Rightarrow> cli_error + (command_config \<times> string list)" where
  "parse_main quote args =
    (case flag_parse [(''name'', StringFlag)] [] args of
       Inl e \<Rightarrow> Inl e
     | Inr p \<Rightarrow>
         (case parse_command quote (map_of (rev (pa_assigned p)) ''name'') (pa_args p) of
            Inl (ErrorString m) \<Rightarrow> Inl (Usage m)
          | Inl e \<Rightarrow> Inl (Failure e)
          | Inr r \<Rightarrow> Inr r))"

section \<open>What check prints can be run\<close>

text \<open>The text after the name and the executor of a step.\<close>

lemma printed_step_reads_back:
  assumes "print_step pr False (i, c) = Text t # printed_more"
  shows "\<exists>before shell. t = before @ shell @ line_end \<and>
    shell_reads shell = Some (command_config.c_program c # execution_args c)"
proof (intro exI conjI)
  show "t = (''  '' @ format_int (int i + 1) @ ''. '' @ command_config.c_name c @ '' ['' @ c_executor c @ '']: '') @
      format_shell_invocation (command_config.c_program c) (execution_args c) @ line_end"
    using assms by (simp add: print_step_def text_line_def)
qed (rule shell_invocation_exact)

end
