(* ===== verification/RegistryOpen.thy ===== *)
theory RegistryOpen
  imports ControlSocket ManagerRetention StoreOpen
begin

text \<open>
  Opening and closing the registry of the supervisor (\<open>openRegistry\<close> and \<open>close\<close> of \<open>control/registry.go\<close>): the
  state directory, its lock, the database file and its schema, with what is left behind when a step fails; and the
  process groups of the executor (\<open>executor/process_unix.go\<close>). What the operating system and the driver answer is
  an argument.
\<close>

section \<open>The registry\<close>

datatype registry_statement = Setting string | ReadVersion | CreateInstances

record registry_world =
  rw_abs :: "string result"
  rw_make_directory :: "go_error option"
  rw_resolved :: "string result"
  rw_lock :: "go_error option"
  rw_create :: "go_error option"
  rw_close_file :: "go_error option"
  rw_open :: "go_error option"
  rw_exec :: "registry_statement \<Rightarrow> go_error option"
  rw_version :: int
  rw_make_queues :: "go_error option"

text \<open>What an attempt comes to: its error, the directory, whether lock and database are held, and the statements
  that were executed.\<close>

record opened_registry =
  or_failure :: "go_error option"
  or_directory :: string
  or_locked :: bool
  or_connected :: bool
  or_executed :: "registry_statement list"

definition not_opened :: "go_error \<Rightarrow> registry_statement list \<Rightarrow> opened_registry" where
  "not_opened e executed =
    \<lparr>or_failure = Some e, or_directory = [], or_locked = False, or_connected = False, or_executed = executed\<rparr>"

definition registry_settings :: "registry_statement list" where
  "registry_settings = [Setting ''busy_timeout = 5000'', Setting ''journal_mode = WAL'', Setting ''synchronous = FULL'']"

fun run_settings ::
  "(registry_statement \<Rightarrow> go_error option) \<Rightarrow> registry_statement list \<Rightarrow> registry_statement list \<times> go_error option" where
  "run_settings exec [] = ([], None)"
| "run_settings exec (s # ss) =
    (case exec s of
       Some e \<Rightarrow> ([], Some e)
     | None \<Rightarrow> (case run_settings exec ss of (executed, failed) \<Rightarrow> (s # executed, failed)))"

definition open_registry :: "registry_world \<Rightarrow> opened_registry" where
  "open_registry w =
    (case rw_abs w of
       Inl e \<Rightarrow> not_opened e []
     | Inr absolute \<Rightarrow>
    (case rw_make_directory w of
       Some e \<Rightarrow> not_opened (wrapf ''control: create state directory: '' e) []
     | None \<Rightarrow>
    (case rw_resolved w of
       Inl e \<Rightarrow> not_opened e []
     | Inr directory \<Rightarrow>
    (case rw_lock w of
       Some e \<Rightarrow> not_opened (Wrapped [T ''control: acquire state directory '', T directory, T '': ''] e []) []
     | None \<Rightarrow>
    (case rw_create w of
       Some e \<Rightarrow> not_opened (wrapf ''control: create registry: '' e) []
     | None \<Rightarrow>
    (case rw_close_file w of
       Some e \<Rightarrow> not_opened e []
     | None \<Rightarrow>
    (case rw_open w of
       Some e \<Rightarrow> not_opened e []
     | None \<Rightarrow>
    (case run_settings (rw_exec w) registry_settings of
       (executed, Some e) \<Rightarrow> not_opened (wrapf ''control: configure registry: '' e) executed
     | (executed, None) \<Rightarrow>
    (case rw_exec w ReadVersion of
       Some e \<Rightarrow> not_opened e executed
     | None \<Rightarrow>
    if 1 < rw_version w
    then not_opened (ErrorString [T ''control: registry schema '', D (rw_version w), T '' is newer than supported schema 1''])
      (executed @ [ReadVersion])
    else
    (case rw_exec w CreateInstances of
       Some e \<Rightarrow> not_opened (wrapf ''control: initialize registry: '' e) (executed @ [ReadVersion])
     | None \<Rightarrow>
    (case rw_make_queues w of
       Some e \<Rightarrow> not_opened e (executed @ [ReadVersion, CreateInstances])
     | None \<Rightarrow>
         \<lparr>or_failure = None, or_directory = directory, or_locked = True, or_connected = True,
          or_executed = executed @ [ReadVersion, CreateInstances]\<rparr>)))))))))))"

text \<open>\<open>close\<close>: the first call closes the database and releases the lock; every call returns its result.\<close>

definition close_registry :: "go_error option \<Rightarrow> go_error option \<Rightarrow> opened_registry \<Rightarrow> go_error option \<times> opened_registry" where
  "close_registry db_error release_error r =
    (errors_join [if or_connected r then db_error else None, release_error], r\<lparr>or_locked := False, or_connected := False\<rparr>)"

lemma run_settings_prefix: "run_settings exec ss = (executed, failed) \<Longrightarrow> prefix executed ss \<and> (failed = None \<longrightarrow> executed = ss)"
proof (induction ss arbitrary: executed)
  case (Cons s ss)
  then show ?case by (cases "exec s"; cases failed; auto split: prod.splits)
qed simp

text \<open>The lock is held exactly while the registry is open; a registry of a newer version is left as it is; and the
  journal is made durable before anything is created.\<close>

lemma open_registry_safe:
  "or_locked (open_registry w) \<longleftrightarrow> or_failure (open_registry w) = None"
  "or_connected (open_registry w) \<longleftrightarrow> or_failure (open_registry w) = None"
  "CreateInstances \<in> set (or_executed (open_registry w)) \<Longrightarrow>
    rw_version w \<le> 1 \<and> rw_lock w = None \<and> prefix registry_settings (or_executed (open_registry w))"
proof -
  obtain executed failed where s: "run_settings (rw_exec w) registry_settings = (executed, failed)" by fastforce
  have settings: "CreateInstances \<notin> set executed"
    using run_settings_prefix[OF s, THEN conjunct1, THEN set_mono_prefix] by (auto simp: registry_settings_def)
  have complete: "failed = None \<Longrightarrow> executed = registry_settings" using run_settings_prefix[OF s] by simp
  show "or_locked (open_registry w) \<longleftrightarrow> or_failure (open_registry w) = None"
    "or_connected (open_registry w) \<longleftrightarrow> or_failure (open_registry w) = None"
    by (simp_all add: open_registry_def s not_opened_def split: sum.split option.split)
  show "rw_version w \<le> 1 \<and> rw_lock w = None \<and> prefix registry_settings (or_executed (open_registry w))"
    if "CreateInstances \<in> set (or_executed (open_registry w))"
    using that settings complete
    by (auto simp: open_registry_def s not_opened_def split: sum.splits option.splits if_splits)
qed

section \<open>Process groups\<close>

text \<open>The processes with their groups; \<open>kill(-pid, SIGKILL)\<close> ends the members of a group, and fails with ESRCH
  when there is none.\<close>

type_synonym processes = "(nat \<times> nat) list"

definition no_such_process :: go_error where
  "no_such_process = Sentinel ''no such process''"

definition process_done :: go_error where
  "process_done = Sentinel ''os: process already finished''"

definition kill_group :: "(nat \<Rightarrow> go_error option) \<Rightarrow> nat \<Rightarrow> processes \<Rightarrow> go_error option \<times> processes" where
  "kill_group denied g ps =
    (if \<not> list_ex (\<lambda>p. snd p = g) ps then (Some no_such_process, ps)
     else (case denied g of Some e \<Rightarrow> (Some e, ps) | None \<Rightarrow> (None, filter (\<lambda>p. snd p \<noteq> g) ps)))"

text \<open>The cancellation of a command and the cleaning up after it; \<open>started\<close> is its process.\<close>

definition cancel_process :: "(nat \<Rightarrow> go_error option) \<Rightarrow> nat option \<Rightarrow> processes \<Rightarrow> go_error option \<times> processes" where
  "cancel_process denied started ps =
    (case started of
       None \<Rightarrow> (Some process_done, ps)
     | Some pid \<Rightarrow>
         (case kill_group denied pid ps of
            (Some e, ps') \<Rightarrow> (if errors_is ''no such process'' e then Some process_done else Some e, ps')
          | (None, ps') \<Rightarrow> (None, ps')))"

definition cleanup_process_group :: "(nat \<Rightarrow> go_error option) \<Rightarrow> nat option \<Rightarrow> processes \<Rightarrow> go_error option \<times> processes" where
  "cleanup_process_group denied started ps =
    (case started of
       None \<Rightarrow> (None, ps)
     | Some pid \<Rightarrow>
         (case kill_group denied pid ps of
            (Some e, ps') \<Rightarrow> (if errors_is ''no such process'' e then None else Some e, ps')
          | (None, ps') \<Rightarrow> (None, ps')))"

text \<open>After a command no process of its group is left, or the cleaning up says so; other processes are untouched.\<close>

lemma cleanup_leaves_nothing:
  assumes "cleanup_process_group denied (Some pid) ps = (failed, ps')" and "\<And>e. denied pid = Some e \<Longrightarrow> \<not> errors_is ''no such process'' e"
  shows "(failed = None \<longrightarrow> ps' = filter (\<lambda>p. snd p \<noteq> pid) ps) \<and> filter (\<lambda>p. snd p \<noteq> pid) ps' = filter (\<lambda>p. snd p \<noteq> pid) ps"
  using assms
  by (auto simp: cleanup_process_group_def kill_group_def no_such_process_def list_ex_iff
      split: if_splits option.splits intro!: filter_True[symmetric])

end
