(* ===== verification/YamlHooks.thy ===== *)
theory YamlHooks
  imports ConfigLoad WebNet
begin

text \<open>
  The hooks by which \<open>config/config.go\<close> decodes an executor, a duration and a mount from the nodes of the YAML
  library, with \<open>time.ParseDuration\<close>. The nodes of a document are a table, as aliases may make them a graph with
  cycles; what the library's own decoder makes of a node is an argument.
\<close>

section \<open>Nodes\<close>

datatype node_kind = ScalarNode | SequenceNode | MappingNode | AliasNode

record yaml_node =
  yn_kind :: node_kind
  yn_tag :: string
  yn_value :: string
  yn_line :: int
  yn_content :: "nat list"
  yn_alias :: "nat option"

type_synonym yaml_graph = "yaml_node list"

definition unmarshal_executor :: "yaml_node \<Rightarrow> string result" where
  "unmarshal_executor n =
    (if yn_kind n \<noteq> ScalarNode \<or> yn_tag n = ''!!null'' \<or> blank (yn_value n)
     then Inl (new_error ''executor must be a non-empty scalar string'')
     else Inr (yn_value n))"

section \<open>Durations\<close>

text \<open>\<open>time.ParseDuration\<close>, byte by byte. A quoted piece of its messages is in the quotation of package \<open>time\<close>.\<close>

definition duration_unit :: "string \<Rightarrow> nat option" where
  "duration_unit u =
    map_of [(''ns'', 1), (''us'', 10 ^ 3), ([CHR 0xC2, CHR 0xB5] @ ''s'', 10 ^ 3), ([CHR 0xCE, CHR 0xBC] @ ''s'', 10 ^ 3),
      (''ms'', 10 ^ 6), (''s'', 10 ^ 9), (''m'', 60 * 10 ^ 9), (''h'', 3600 * 10 ^ 9)] u"

text \<open>\<open>leadingInt\<close>: the value of the digits, or an error when it exceeds \<open>2 ^ 63\<close>.\<close>

fun leading_int :: "nat \<Rightarrow> string \<Rightarrow> (nat \<times> string) option" where
  "leading_int n [] = Some (n, [])"
| "leading_int n (c # s) =
    (if \<not> decimal_digit c then Some (n, c # s)
     else if 2 ^ 63 div 10 < n then None
     else (let m = n * 10 + (byte c - 48) in if 2 ^ 63 < m then None else leading_int m s))"

text \<open>\<open>leadingFraction\<close>: the digits that fit, how many they are, and the rest; the flag says that no more fit.\<close>

fun leading_fraction :: "nat \<Rightarrow> nat \<Rightarrow> bool \<Rightarrow> string \<Rightarrow> nat \<times> nat \<times> string" where
  "leading_fraction n k overflow [] = (n, k, [])"
| "leading_fraction n k overflow (c # s) =
    (if \<not> decimal_digit c then (n, k, c # s)
     else if overflow then leading_fraction n k True s
     else if (2 ^ 63 - 1) div 10 < n then leading_fraction n k True s
     else
       (let m = n * 10 + (byte c - 48) in
        if 2 ^ 63 < m then leading_fraction n k True s else leading_fraction m (Suc k) False s))"

lemma leading_int_shorter: "leading_int n s = Some (m, t) \<Longrightarrow> length t \<le> length s"
  by (induction s arbitrary: n) (fastforce simp: Let_def split: if_splits)+

lemma leading_fraction_shorter: "leading_fraction n k b s = (m, l, t) \<Longrightarrow> length t \<le> length s"
  by (induction s arbitrary: n k b) (fastforce simp: Let_def split: if_splits)+

definition unit_char :: "char \<Rightarrow> bool" where
  "unit_char c \<longleftrightarrow> c \<noteq> CHR ''.'' \<and> \<not> decimal_digit c"

definition invalid_duration :: "string \<Rightarrow> go_error" where
  "invalid_duration s = ErrorString [T ''time: invalid duration '', Q s]"

text \<open>The sum of the parts is kept in an unsigned integer of 64 bits, so that two parts of \<open>2 ^ 63\<close> each add up to \<open>0\<close>.
  One number with its unit: its value and the rest. \<open>fraction f k unit\<close> is what floating point makes of
  \<open>f / 10 ^ k\<close> units.\<close>

definition duration_part :: "(nat \<Rightarrow> nat \<Rightarrow> nat \<Rightarrow> nat) \<Rightarrow> string \<Rightarrow> string \<Rightarrow> (nat \<times> string) result" where
  "duration_part fraction whole s =
    (if \<not> (hd s = CHR ''.'' \<or> decimal_digit (hd s)) then Inl (invalid_duration whole)
     else
       (case leading_int 0 s of
          None \<Rightarrow> Inl (invalid_duration whole)
        | Some (v, s1) \<Rightarrow>
            (let pre = length s1 \<noteq> length s;
                 point = (s1 \<noteq> [] \<and> hd s1 = CHR ''.'');
                 (f, k, s2) = (if point then leading_fraction 0 0 False (tl s1) else (0, 0, s1));
                 post = (point \<and> length s2 \<noteq> length (tl s1));
                 u = takeWhile unit_char s2;
                 rest = dropWhile unit_char s2 in
             if \<not> pre \<and> \<not> post then Inl (invalid_duration whole)
             else if u = [] then Inl (ErrorString [T ''time: missing unit in duration '', Q whole])
             else
               (case duration_unit u of
                  None \<Rightarrow> Inl (ErrorString [T ''time: unknown unit '', Q u, T '' in duration '', Q whole])
                | Some unit \<Rightarrow>
                    if 2 ^ 63 div unit < v then Inl (invalid_duration whole)
                    else
                      (let total = v * unit + (if 0 < f then fraction f k unit else 0) in
                       if 2 ^ 63 < total then Inl (invalid_duration whole) else Inr (total, rest))))))"

lemma duration_part_shorter: "duration_part fraction whole s = Inr (v, t) \<Longrightarrow> length t < length s"
proof -
  assume "duration_part fraction whole s = Inr (v, t)"
  then obtain v1 s1 f k s2 where parts: "leading_int 0 s = Some (v1, s1)"
    "(if s1 \<noteq> [] \<and> hd s1 = CHR ''.'' then leading_fraction 0 0 False (tl s1) else (0, 0, s1)) = (f, k, s2)"
    "takeWhile unit_char s2 \<noteq> []" "t = dropWhile unit_char s2"
    by (auto simp: duration_part_def Let_def split: if_splits option.splits prod.splits)
  have "length s2 \<le> length s1"
    using parts(2) leading_fraction_shorter[of 0 0 False "tl s1"] by (auto split: if_splits)
  moreover have "length s1 \<le> length s" by (rule leading_int_shorter[OF parts(1)])
  moreover have "length t < length s2"
    using parts(3,4) takeWhile_dropWhile_id[of unit_char s2] by (metis length_append length_greater_0_conv less_add_same_cancel2)
  ultimately show ?thesis by simp
qed

function duration_sum :: "(nat \<Rightarrow> nat \<Rightarrow> nat \<Rightarrow> nat) \<Rightarrow> string \<Rightarrow> nat \<Rightarrow> string \<Rightarrow> nat result" where
  "duration_sum fraction whole d s =
    (if s = [] then Inr d
     else
       (case duration_part fraction whole s of
          Inl e \<Rightarrow> Inl e
        | Inr (v, t) \<Rightarrow>
            if 2 ^ 63 < (d + v) mod 2 ^ 64 then Inl (invalid_duration whole)
            else duration_sum fraction whole ((d + v) mod 2 ^ 64) t))"
  by pat_completeness auto
termination by (relation "measure (\<lambda>(fraction, whole, d, s). length s)") (auto dest: duration_part_shorter)

declare duration_sum.simps [simp del]

definition parse_duration :: "(nat \<Rightarrow> nat \<Rightarrow> nat \<Rightarrow> nat) \<Rightarrow> string \<Rightarrow> duration result" where
  "parse_duration fraction s =
    (let negative = prefix ''-'' s; t = (if prefix ''-'' s \<or> prefix ''+'' s then tl s else s) in
     if t = ''0'' then Inr 0
     else if t = [] then Inl (invalid_duration s)
     else
       (case duration_sum fraction s 0 t of
          Inl e \<Rightarrow> Inl e
        | Inr d \<Rightarrow>
            if negative then Inr (- int d)
            else if 2 ^ 63 - 1 < d then Inl (invalid_duration s) else Inr (int d)))"

definition unmarshal_duration :: "(nat \<Rightarrow> nat \<Rightarrow> nat \<Rightarrow> nat) \<Rightarrow> yaml_node \<Rightarrow> (duration \<times> bool) result" where
  "unmarshal_duration fraction n =
    (if yn_kind n \<noteq> ScalarNode then Inl (new_error ''duration must be a scalar string'')
     else
       (case parse_duration fraction (yn_value n) of
          Inl e \<Rightarrow> Inl (Wrapped [T ''invalid duration '', Q (yn_value n), T '': ''] e [])
        | Inr d \<Rightarrow> Inr (d, True)))"

text \<open>A duration is one of 64 bits, whatever floating point does.\<close>

lemma duration_sum_bound: "duration_sum fraction whole d s = Inr r \<Longrightarrow> d \<le> 2 ^ 63 \<Longrightarrow> r \<le> 2 ^ 63"
proof (induction fraction whole d s rule: duration_sum.induct)
  case (1 fraction whole d s)
  then show ?case
    by (subst (asm) (2) duration_sum.simps) (auto split: if_splits sum.splits prod.splits)
qed

lemma parse_duration_bounds:
  assumes "parse_duration fraction s = Inr d"
  shows "- (2 ^ 63) \<le> d \<and> d < 2 ^ 63"
proof -
  let ?t = "if prefix ''-'' s \<or> prefix ''+'' s then tl s else s"
  show ?thesis
    using assms duration_sum_bound[of fraction s 0 ?t]
    by (auto simp: parse_duration_def Let_def split: if_splits sum.splits)
qed

section \<open>Mounts\<close>

text \<open>The fields of a mapping, two nodes each; \<open>check\<close> validates a mapping that is merged. The result is the
  error, and the mappings visited so far.\<close>

type_synonym visit = "go_error option \<times> nat list"

fun check_items :: "(nat \<Rightarrow> nat list \<Rightarrow> visit option) \<Rightarrow> nat list \<Rightarrow> nat list \<Rightarrow> visit option" where
  "check_items check [] visited = Some (None, visited)"
| "check_items check (x # xs) visited =
    (case check x visited of
       None \<Rightarrow> None
     | Some (Some e, visited') \<Rightarrow> Some (Some e, visited')
     | Some (None, visited') \<Rightarrow> check_items check xs visited')"

definition check_merge :: "(nat \<Rightarrow> nat list \<Rightarrow> visit option) \<Rightarrow> yaml_graph \<Rightarrow> nat \<Rightarrow> nat list \<Rightarrow> visit option" where
  "check_merge check g x visited =
    (if yn_kind (g ! x) = SequenceNode then check_items check (yn_content (g ! x)) visited else check x visited)"

definition mount_field_names :: "string list" where
  "mount_field_names = [''source'', ''target'', ''options'', ''read_only'']"

fun check_fields :: "(nat \<Rightarrow> nat list \<Rightarrow> visit option) \<Rightarrow> yaml_graph \<Rightarrow> nat list \<Rightarrow> nat list \<Rightarrow> visit option" where
  "check_fields check g [] visited = Some (None, visited)"
| "check_fields check g [key] visited = Some (Some err_index_panic, visited)"
| "check_fields check g (key # v # content) visited =
    (if yn_kind (g ! key) \<noteq> ScalarNode then Some (Some (new_error ''mount field name must be a scalar''), visited)
     else if yn_tag (g ! key) = ''!!merge'' then
       (case check_merge check g v visited of
          None \<Rightarrow> None
        | Some (Some e, visited') \<Rightarrow> Some (Some e, visited')
        | Some (None, visited') \<Rightarrow> check_fields check g content visited')
     else if yn_value (g ! key) \<in> set mount_field_names then check_fields check g content visited
     else
       Some (Some (ErrorString [T ''line '', D (yn_line (g ! key)), T '': field '', T (yn_value (g ! key)),
         T '' not found in type config.MountConfig'']), visited))"

text \<open>\<open>validateMountMappingFields\<close>; the first argument bounds the depth of merges, \<open>None\<close> is its exhaustion.\<close>

fun check_mount_mapping :: "nat \<Rightarrow> yaml_graph \<Rightarrow> nat \<Rightarrow> nat list \<Rightarrow> visit option" where
  "check_mount_mapping 0 g x visited = None"
| "check_mount_mapping (Suc depth) g x visited =
    (case (if yn_kind (g ! x) = AliasNode then yn_alias (g ! x) else Some x) of
       None \<Rightarrow> Some (Some (new_error ''mount must be a mapping''), visited)
     | Some y \<Rightarrow>
         if yn_kind (g ! y) \<noteq> MappingNode then Some (Some (new_error ''mount must be a mapping''), visited)
         else if y \<in> set visited then Some (None, visited)
         else check_fields (check_mount_mapping depth g) g (yn_content (g ! y)) (y # visited))"

text \<open>What the library decodes of a mount.\<close>

record decoded_mount = mount_config +
  dm_read_only :: "bool option"

definition unmarshal_mount :: "yaml_graph \<Rightarrow> (nat \<Rightarrow> decoded_mount result) \<Rightarrow> nat \<Rightarrow> mount_config result option" where
  "unmarshal_mount g decode x =
    (case check_mount_mapping (Suc (length g)) g x [] of
       None \<Rightarrow> None
     | Some (Some e, visited) \<Rightarrow> Some (Inl e)
     | Some (None, visited) \<Rightarrow>
         (case decode x of
            Inl e \<Rightarrow> Some (Inl e)
          | Inr d \<Rightarrow>
              Some (Inr \<lparr>m_source = m_source d, m_target = m_target d,
                m_options = (if dm_read_only d = Some True then ''ro'' # m_options d else m_options d)\<rparr>)))"

section \<open>The validation of a mount ends\<close>

definition graph_ok :: "yaml_graph \<Rightarrow> bool" where
  "graph_ok g \<longleftrightarrow> (\<forall>n \<in> set g. (\<forall>x \<in> set (yn_content n). x < length g) \<and> (\<forall>x. yn_alias n = Some x \<longrightarrow> x < length g))"

text \<open>The visited mappings are nodes, each once, of which at least \<open>n\<close> are not visited yet.\<close>

definition visited_ok :: "yaml_graph \<Rightarrow> nat list \<Rightarrow> bool" where
  "visited_ok g visited \<longleftrightarrow> distinct visited \<and> (\<forall>x \<in> set visited. x < length g)"

definition answers :: "yaml_graph \<Rightarrow> nat list \<Rightarrow> visit option \<Rightarrow> bool" where
  "answers g visited r \<longleftrightarrow>
    (\<exists>e visited'. r = Some (e, visited') \<and> visited_ok g visited' \<and> length visited \<le> length visited')"

definition validates :: "yaml_graph \<Rightarrow> nat \<Rightarrow> (nat \<Rightarrow> nat list \<Rightarrow> visit option) \<Rightarrow> bool" where
  "validates g n check \<longleftrightarrow>
    (\<forall>x visited. x < length g \<longrightarrow> visited_ok g visited \<longrightarrow> n \<le> length visited \<longrightarrow> answers g visited (check x visited))"

lemma answers_later: "answers g v' r \<Longrightarrow> length v \<le> length v' \<Longrightarrow> answers g v r"
  by (auto simp: answers_def)

lemma check_items_answers:
  assumes "validates g n check"
  shows "\<forall>x \<in> set xs. x < length g \<Longrightarrow> visited_ok g visited \<Longrightarrow> n \<le> length visited \<Longrightarrow>
    answers g visited (check_items check xs visited)"
proof (induction xs arbitrary: visited)
  case (Cons x xs)
  then have "answers g visited (check x visited)" using assms by (simp add: validates_def)
  then obtain e v' where r: "check x visited = Some (e, v')" "visited_ok g v'" "length visited \<le> length v'"
    by (auto simp: answers_def)
  show ?case
  proof (cases e)
    case None
    then have "answers g v' (check_items check xs v')" using Cons r by simp
    then show ?thesis using r None answers_later by auto
  qed (use r in \<open>auto simp: answers_def\<close>)
qed (simp add: answers_def)

lemma check_merge_answers:
  assumes "validates g n check" and "graph_ok g" and "x < length g" and "visited_ok g visited" and "n \<le> length visited"
  shows "answers g visited (check_merge check g x visited)"
  using assms check_items_answers[OF assms(1), of "yn_content (g ! x)" visited] nth_mem[OF assms(3)]
  by (auto simp: check_merge_def validates_def graph_ok_def)

lemma check_fields_answers:
  "validates g n check \<Longrightarrow> graph_ok g \<Longrightarrow> \<forall>x \<in> set content. x < length g \<Longrightarrow> visited_ok g visited \<Longrightarrow> n \<le> length visited \<Longrightarrow>
    answers g visited (check_fields check g content visited)"
proof (induction check g content visited rule: check_fields.induct)
  case (3 check g key v content visited)
  note prems = 3
  show ?case
  proof (cases "yn_kind (g ! key) = ScalarNode \<and> yn_tag (g ! key) = ''!!merge''")
    case True
    have "answers g visited (check_merge check g v visited)"
      using check_merge_answers[of g n check v visited] prems(3-) by simp
    then obtain e v' where r: "check_merge check g v visited = Some (e, v')" "visited_ok g v'" "length visited \<le> length v'"
      by (auto simp: answers_def)
    show ?thesis
    proof (cases e)
      case None
      then have "answers g v' (check_fields check g content v')" using prems True r by simp
      then show ?thesis using r None True answers_later by auto
    qed (use r True in \<open>auto simp: answers_def\<close>)
  qed (use prems in \<open>auto simp: answers_def\<close>)
qed (simp_all add: answers_def)

lemma check_mount_answers:
  assumes "graph_ok g"
  shows "length g < n + depth \<Longrightarrow> validates g n (check_mount_mapping depth g)"
proof (induction depth arbitrary: n)
  case 0
  have "\<not> n \<le> length visited" if "visited_ok g visited" for visited
  proof -
    have "length visited \<le> card {..<length g}"
      using that card_mono[of "{..<length g}" "set visited"] distinct_card[of visited] by (auto simp: visited_ok_def)
    then show ?thesis using 0 by simp
  qed
  then show ?case by (auto simp: validates_def)
next
  case (Suc depth)
  then have IH: "validates g (Suc n) (check_mount_mapping depth g)" by simp
  show ?case
    unfolding validates_def
  proof (intro allI impI)
    fix x visited assume x: "x < length g" "visited_ok g visited" "n \<le> length visited"
    show "answers g visited (check_mount_mapping (Suc depth) g x visited)"
    proof (cases "if yn_kind (g ! x) = AliasNode then yn_alias (g ! x) else Some x")
      case None
      then show ?thesis using x by (simp add: answers_def)
    next
      case (Some y)
      have y: "y < length g"
        using Some x(1) nth_mem[OF x(1)] assms by (auto simp: graph_ok_def split: if_splits)
      show ?thesis
      proof (cases "yn_kind (g ! y) = MappingNode \<and> y \<notin> set visited")
        case True
        have "visited_ok g (y # visited)" using True x(2) y by (simp add: visited_ok_def)
        moreover have "\<forall>z \<in> set (yn_content (g ! y)). z < length g" using assms nth_mem[OF y] by (auto simp: graph_ok_def)
        ultimately have "answers g (y # visited) (check_fields (check_mount_mapping depth g) g (yn_content (g ! y)) (y # visited))"
          using check_fields_answers[OF IH assms] x(3) by simp
        then show ?thesis using Some True answers_later by (auto simp: answers_later)
      qed (use Some x in \<open>auto simp: answers_def\<close>)
    qed
  qed
qed

text \<open>The validation of a mount always answers, also on aliases that lead back to a mapping they are merged into:
  the depth that is given is never used up.\<close>

lemma unmarshal_mount_total:
  assumes "graph_ok g" and "x < length g"
  shows "unmarshal_mount g decode x \<noteq> None"
proof -
  have "validates g 0 (check_mount_mapping (Suc (length g)) g)" by (rule check_mount_answers[OF assms(1)]) simp
  then have "answers g [] (check_mount_mapping (Suc (length g)) g x [])"
    using assms(2) by (simp add: validates_def visited_ok_def)
  then show ?thesis by (auto simp: unmarshal_mount_def answers_def split: option.splits sum.splits simp del: check_mount_mapping.simps)
qed

lemma huge_duration_wraps: "parse_duration fraction ''9223372036854775808ns9223372036854775808ns'' = Inr 0"
  by (simp add: parse_duration_def duration_sum.simps duration_part_def duration_unit_def unit_char_def
      decimal_digit_def)

end
