(* ===== verification/Spec2Isabelle.thy ===== *)
theory Spec2Isabelle
  imports QueueProps QueueHistory JsonText ParseCommand ShellText WorkerQueue WatchProps ConfigLoad LogProps
    WatchLoopProps ManagerProps ManagerRetention DaemonProps WebProps ControlSocket ControlClient ControlCalls
    CliProps CliManaged CliCheck RegistryOpen YamlHooks
begin

text \<open>
  A verification development for onderzeeer, a daemon that watches directories, queues a job for
  every file that has settled, and runs a configured pipeline of commands on it.

  Parts of the program and how they interact.
  A configuration file (\<open>internal/config\<close>) names watches and, for each, a pipeline. The watcher
  (\<open>internal/watcher\<close>) selects and settles files and enqueues a job per file in the queue
  (\<open>internal/queue\<close>, tables of an SQLite file). Workers (\<open>internal/worker\<close>) claim jobs, plan their
  commands from the configuration, run them through the executor (\<open>internal/executor\<close>), record every
  command and settle the job. The command line (\<open>internal/cli\<close>) turns shell commands into pipeline
  steps and prints steps as shell text.

  Which theory models what.

  Prelude: results, errors, transactions, lists, and the named collections the proofs share.
  GoString: the functions of the \<open>strings\<close>, \<open>strconv\<close> and \<open>unicode/utf8\<close> packages that the
  source uses. GoRunes: that encoding and decoding of code points are inverse.
  GoPath, GoPathFacts: \<open>path/filepath\<close> on Unix, and what its functions do on absolute paths.

  QueueStore: the tables (\<open>db\<close>, a record of three lists of rows) and the operations of
  \<open>queue/jobs.go\<close> and \<open>queue/commands.go\<close>. An operation takes an \<open>engine\<close> (the row id the database
  hands out, and where a statement fails), the time, and the tables, and returns its result with the new
  tables; a transaction that fails leaves the tables as they were. QueueInv: the invariant of the tables and that every operation keeps it.
  QueueSafety: histories of calls, and what one call does to one job. QueueLife: the life cycle
  of a job as an abstract machine. QueueProps: the properties. QueueHistory: the queries of
  \<open>queue/history.go\<close>. JsonText: \<open>encoding/json\<close> on lists of strings, the text of two columns.

  CommandConfig, ConfigValues, ContainerOptions, ConfigModel: \<open>config/config.go\<close>, \<open>values.go\<close>,
  \<open>container_options.go\<close> and \<open>warnings.go\<close>: a command and its execution arguments, config-local
  values, the option grammars of docker and podman, defaults and validation.

  ContainerParse, ParseCommand, ShellText, CliCheck: \<open>cli/container_parse.go\<close>, \<open>cli/parse.go\<close> and
  \<open>cli/check.go\<close>.

  ExecutorModel: \<open>executor/executor.go\<close>. Worker: \<open>worker/worker.go\<close> over an abstract store
  (\<open>store_ops\<close>). WorkerContract: the interface between worker and store as two locales
  (\<open>worker_store\<close>, and \<open>reliable_store\<close> which adds that calls succeed), and what the worker achieves
  under it. WorkerQueue: the locales interpreted on the model of the queue, with the calls of other
  workers and of the operator interleaved between any two calls of this worker.

  WatchMatch, WatchStable: \<open>watcher/match.go\<close> and \<open>watcher/stable.go\<close>. WatchPending: the
  scheduling and settling of \<open>watcher/watcher.go\<close> as a step relation in which the sections of code
  between two lock operations interleave freely. WatchSafety: its invariant. WatchProps: its properties.

  WatchTree, WatchDirs, WatchScan, WatchLoop: the rest of \<open>watcher/watcher.go\<close> and \<open>root_identity.go\<close>: the
  bookkeeping of watched directories and of root identities, \<open>addDirectory\<close>, the traversal of a tree, and
  \<open>Run\<close> from the registration of the configured trees to its return. The operating system and the
  notification library answer every call by the number of calls made before (\<open>lp_os\<close>), so a theorem about
  all answers covers every race; actions are written in the state monad. WatchKeep: the contract
  \<open>loop_contract\<close>, by which what the elementary operations keep holds in every run, and its three providers:
  the bookkeeping, the files handed to the goroutines (this composes the loop with the state machine of
  WatchPending and with the matcher), and the identity of a root. WatchOrder, WatchLoopProps: the properties.

  GoDigits, GoUtf8: decimal numbers, and that UTF-8 decodes to what was encoded.

  ConfigPaths, ConfigLoad: \<open>config/paths.go\<close> over a file system that answers from a table, and \<open>Load\<close> with
  everything it calls but the YAML decoder. YamlHooks: the \<open>UnmarshalYAML\<close> hooks of \<open>config.go\<close>, by which that
  decoder decodes executors, durations (with \<open>time.ParseDuration\<close>) and mounts; the depth given to the validation
  of a mount is the number of nodes plus one, which suffices for every graph (\<open>unmarshal_mount_total\<close>).

  LogStream, LogProps: \<open>control/logs.go\<close>: the bounded log of an instance and its subscribers.

  The supervisor of \<open>internal/control\<close> keeps managed instances, with a registry (a table in SQLite that
  survives the process) or without one. ManagerNames: \<open>automaticName\<close>, \<open>validDisplayName\<close>,
  \<open>availableIDLocked\<close> and error texts. ManagerModel: its data (\<open>types.go\<close>) and the checks of a start that
  read files. ManagerCalls: the calls of \<open>manager.go\<close>, \<open>registered.go\<close> and \<open>registry.go\<close>, one definition
  per section of code under the manager's lock. ManagerInv, ManagerFinish, ManagerStart, ManagerDurable,
  ManagerRegister: the invariant of the manager, kept by every section. ManagerSystem: the state machine
  \<open>supervisor_step\<close>, in which the sections of any number of calls and goroutines interleave while the start
  gate admits one start at a time, and \<open>supervised\<close>, its reachable states. ManagerText, ManagerRestart,
  ManagerReload: the abstract state that must outlive the process (\<open>durable_state\<close>), that the rows of the
  registry hold it at every moment (\<open>mirror\<close>), and that loading them brings it back. ManagerRetention: how
  many finished instances are kept. ManagerDemo: a start evaluated step by step. ManagerProps: the
  properties.

  DaemonModel: \<open>daemon/daemon.go\<close> and \<open>many.go\<close>, which put the parts together: the handler that
  enqueues a settled file with the fingerprint of its contents, the collection of the errors of the
  watcher and the workers, and the runtimes over several configurations with the comparison of their
  databases. DaemonFlow: the state machine \<open>daemon_step\<close> in which notifications, settling goroutines,
  handlers, workers and the operator interleave on one watcher state and one queue, with its invariant
  \<open>daemon_inv\<close>. DaemonProps: the properties from the notification of a file to its job.

  StoreOpen: the rest of \<open>queue/store.go\<close>, opening a queue for work and for inspection; the driver answers
  as an argument. WebNet: hosts, addresses, paths and numbers as the standard library reads them. WebApi:
  \<open>webui/api.go\<close>, every handler over the models of the supervisor and of the queue databases, which other
  processes change between two queries; a handler that starts or stops something comes to an action
  (\<open>StartQueue\<close>, \<open>StopInstance\<close>) and goes on from the supervisor's answer (\<open>finish_start\<close>,
  \<open>finish_stop\<close>). WebServer: \<open>webui/server.go\<close>: routes, the checks of host and token, the listen address,
  the token file. WebProps: the properties.

  ControlSocket: the daemons that share a control socket (\<open>control/server.go\<close>, \<open>NewServer\<close>, \<open>Serve\<close>,
  \<open>Close\<close>), as the state machine \<open>socket_step\<close>, one call of the operating system a step, with its invariant
  \<open>socket_inv\<close>. ControlApi: the handlers of \<open>control/server.go\<close> and \<open>control/inspection.go\<close> over the
  supervisor and the queues, and the events of an attached run. ControlClient: \<open>control/client.go\<close>, and what
  the two ends of an attachment achieve together.

  ControlCalls: the requests of the client, the routes of the server, and that a call comes to its handler with
  its arguments. RegistryOpen: opening the registry of the supervisor, and the process groups of the executor.

  CliFlags: the arguments of the commands, over the part of Go's package \<open>flag\<close> they use, and the exit codes.
  CliStores: \<open>config/discovery.go\<close>, the databases a path selects, and the two readers of a queue, on its
  database and through the daemon. CliInspect: the commands \<open>status\<close>, \<open>queue\<close>, \<open>jobs\<close>, \<open>job\<close> and \<open>logs\<close> of
  \<open>cli/cli.go\<close>. CliManaged: \<open>start\<close>, \<open>ps\<close>, \<open>stop\<close> and \<open>test\<close> (\<open>cli/managed.go\<close>) and the command of the
  daemon (\<open>cli/daemon.go\<close>), with the order in which it opens and releases its parts. CliProps: the properties.

  Bounds and fuel.
  Loops over data are structural or have a measure. The wait for a stable file is a recursion over
  the polls it makes, and \<open>quiet_file_settles\<close> says when the polls are enough; the resolution of
  config-local values recurses with the set of names in progress as its measure, and
  \<open>values_resolve_or_cycle\<close> says that it always answers. The loop of \<open>addDirectory\<close> and the traversal of a
  tree take a bound on their turns, one more than the watched directories and 4096, which they do not reach
  (\<open>registration_ends\<close>, \<open>traversal_ends\<close>); a directory lists finitely many entries. The version counter of a pending file is a
  64-bit word, as in the code.

  Not modelled: the YAML decoder, the SQL engine, the file system and processes (what they answer is an
  argument); HTTP and JSON themselves; the hash of a configuration; the alignment of printed tables, usage
  texts, signals and log messages; the main functions.
\<close>

end
